(* ===== verification/WP_Prelude.thy ===== *)
theory WP_Prelude
  imports Complex_Main "HOL-Library.AList" "HOL-Library.Char_ord" "HOL-Library.List_Lexorder"
    "HOL-Library.Product_Lexorder" "HOL-Library.Sublist" "HOL-Library.Multiset"
begin

text \<open>
  What the component theories share: the model of the Python values the source uses
  (dictionaries in insertion order, string operations, order-preserving de-duplication,
  sorting by a key) and the collections of simplification rules the proofs draw on.

  A Python \<open>str\<close> is a HOL \<open>string\<close>, one \<open>char\<close> per code point; the model therefore ranges over
  the code points U+0000 to U+00FF. A Python \<open>dict\<close> is an association list in insertion order:
  \<open>d[k] = v\<close> is \<^theory_text>\<open>AList.update k v d\<close>, which overwrites in place or appends, as CPython does.
\<close>

section \<open>Collections of rules\<close>

named_theorems wp_defs \<open>definitions a component's proofs unfold\<close>
named_theorems wp_frame \<open>frame rules: what an operation leaves unchanged\<close>

section \<open>Dictionaries in insertion order\<close>

type_synonym ('k, 'v) dict = "('k \<times> 'v) list"

abbreviation dict_get :: "('k, 'v) dict \<Rightarrow> 'k \<Rightarrow> 'v option" where
  "dict_get d k \<equiv> map_of d k"

abbreviation dict_set :: "'k \<Rightarrow> 'v \<Rightarrow> ('k, 'v) dict \<Rightarrow> ('k, 'v) dict" where
  "dict_set k v d \<equiv> AList.update k v d"

abbreviation dict_wf :: "('k, 'v) dict \<Rightarrow> bool" where
  "dict_wf d \<equiv> distinct (map fst d)"

lemma dict_get_set [simp]: "dict_get (dict_set k v d) = (dict_get d)(k \<mapsto> v)"
  by (rule update_conv')

lemma dict_wf_set [simp]: "dict_wf d \<Longrightarrow> dict_wf (dict_set k v d)"
  by (rule distinct_update)

lemma dict_keys_set [simp]: "fst ` set (dict_set k v d) = insert k (fst ` set d)"
  by (simp add: dom_update)

declare map_of_eq_Some_iff [simp del] Some_eq_map_of_iff [simp del]

text \<open>The entries of a dictionary that satisfy \<open>P\<close>, counted as a set of keys.\<close>

lemma dict_get_mem: "dict_wf d \<Longrightarrow> (k, v) \<in> set d \<longleftrightarrow> dict_get d k = Some v"
  by (rule map_of_eq_Some_iff [symmetric])

lemma dict_get_memI: "dict_wf d \<Longrightarrow> (k, v) \<in> set d \<Longrightarrow> dict_get d k = Some v"
  by (rule iffD1 [OF dict_get_mem])

lemma dict_filter_card:
  assumes "dict_wf d"
  shows "length (filter P d) = card {k. \<exists>v. dict_get d k = Some v \<and> P (k, v)}"
proof -
  have "distinct (map fst (filter P d))"
    using assms by (rule distinct_map_filter)
  then have "length (filter P d) = card (fst ` set (filter P d))"
    by (metis distinct_card length_map list.set_map)
  also have "fst ` set (filter P d) = {k. \<exists>v. dict_get d k = Some v \<and> P (k, v)}"
    using dict_get_mem [OF assms] by force
  finally show ?thesis .
qed

section \<open>Order-preserving de-duplication\<close>

text \<open>
  The \<open>seen\<close>-set loop of the source: keep an element when its key has not been seen, and add the
  key. It occurs in \<open>_dedupe_edges\<close>, \<open>_dedupe_preserving_order\<close>, \<open>_merge_nodes\<close> and \<open>_dedup_refs\<close>.
\<close>

fun dedup_by :: "('a \<Rightarrow> 'k) \<Rightarrow> 'k list \<Rightarrow> 'a list \<Rightarrow> 'a list" where
  "dedup_by key seen [] = []"
| "dedup_by key seen (x # xs) =
     (if key x \<in> set seen then dedup_by key seen xs
      else x # dedup_by key (key x # seen) xs)"

lemma dedup_by_keys: "key ` set (dedup_by key seen xs) = key ` set xs - set seen"
  by (induction xs arbitrary: seen) auto

lemma dedup_by_distinct: "distinct (map key (dedup_by key seen xs))"
  by (induction xs arbitrary: seen) (auto simp: dedup_by_keys)

lemma dedup_by_subseq: "subseq (dedup_by key seen xs) xs"
  by (induction xs arbitrary: seen) auto

lemma dedup_by_subset: "set (dedup_by key seen xs) \<subseteq> set xs"
  by (induction xs arbitrary: seen) auto

text \<open>The element kept for a key is the first one that has it.\<close>

lemma dedup_by_first:
  "k \<notin> set seen \<Longrightarrow>
   find (\<lambda>x. key x = k) (dedup_by key seen xs) = find (\<lambda>x. key x = k) xs"
  by (induction xs arbitrary: seen) auto

lemma dedup_by_id_set: "set (dedup_by (\<lambda>x. x) [] xs) = set xs"
  using dedup_by_keys [of "\<lambda>x. x" "[]" xs] by simp

lemma dedup_by_idem:
  "distinct (map key xs) \<Longrightarrow> set (map key xs) \<inter> set seen = {} \<Longrightarrow> dedup_by key seen xs = xs"
  by (induction xs arbitrary: seen) auto

section \<open>Selecting and converting\<close>

lemma map_filter_mem: "x \<in> set (List.map_filter f xs) \<longleftrightarrow> (\<exists>y \<in> set xs. f y = Some x)"
  by (induction xs) (auto simp: map_filter_simps split: option.splits)

lemma map_filter_set: "set (List.map_filter f xs) = {y. \<exists>x \<in> set xs. f x = Some y}"
  using map_filter_mem [of _ f xs] by auto

section \<open>Sorting by a key\<close>

text \<open>
  \<open>sorted(xs, key=f)\<close> is the stable \<open>sort_key f xs\<close>. Two lists with the same elements sort to the
  same list when the key is injective on them.
\<close>

lemma sort_key_mset_eq:
  assumes "mset xs = mset ys" and "inj_on f (set xs)"
  shows "sort_key f xs = sort_key f ys"
  by (rule sort_key_inj_key_eq) (use assms in auto)

lemma dict_wf_sort [simp]: "dict_wf (sort_key f d) \<longleftrightarrow> dict_wf d"
  by (rule mset_eq_imp_distinct_iff) simp

section \<open>Listings of a dictionary\<close>

text \<open>
  A query that selects the entries whose key satisfies \<open>P\<close> and orders them by \<open>g\<close> of the key
  (\<open>SELECT data FROM d WHERE P ORDER BY g\<close>). The listing depends on the selected part of the dictionary only, and determines it when values tell
  their key.
\<close>

definition listing :: "('k \<Rightarrow> bool) \<Rightarrow> ('k \<Rightarrow> 'o :: linorder) \<Rightarrow> ('k, 'v) dict \<Rightarrow> 'v list" where
  "listing P g d = map snd (sort_key (\<lambda>e. g (fst e)) (filter (\<lambda>e. P (fst e)) d))"

lemma listing_cong:
  assumes wf: "dict_wf d" "dict_wf d'" and eq: "\<And>x. P x \<Longrightarrow> dict_get d x = dict_get d' x"
    and inj: "inj_on g {x. P x}"
  shows "listing P g d = listing P g d'"
proof -
  let ?F = "filter (\<lambda>e. P (fst e))"
  have wf': "dict_wf (?F d)" "dict_wf (?F d')"
    using wf by (simp_all add: distinct_map_filter)
  have "set (?F d) = set (?F d')"
  proof (rule set_eqI)
    fix e
    show "e \<in> set (?F d) \<longleftrightarrow> e \<in> set (?F d')"
      using dict_get_mem [OF wf(1), of "fst e" "snd e"] dict_get_mem [OF wf(2), of "fst e" "snd e"]
        eq [of "fst e"] by auto
  qed
  moreover have "distinct (?F d)" "distinct (?F d')"
    using wf' by (simp_all only: distinct_map)
  ultimately have m: "mset (?F d) = mset (?F d')"
    using set_eq_iff_mset_eq_distinct by blast
  have "inj_on (\<lambda>e. g (fst e)) (set (?F d))"
  proof (rule inj_onI)
    fix e e' assume e: "e \<in> set (?F d)" "e' \<in> set (?F d)" and g: "g (fst e) = g (fst e')"
    then have "fst e = fst e'" using inj by (auto dest: inj_onD)
    with e wf'(1) show "e = e'" by (metis eq_key_imp_eq_value prod.collapse)
  qed
  from sort_key_mset_eq [OF m this] show ?thesis by (simp add: listing_def)
qed

lemma listing_get:
  assumes "dict_wf d" and "\<And>x v. (x, v) \<in> set d \<Longrightarrow> kf v = x" and "P x"
  shows "dict_get d x = Some v \<longleftrightarrow> v \<in> set (listing P g d) \<and> kf v = x"
proof
  assume "dict_get d x = Some v"
  then have "(x, v) \<in> set d" by (rule map_of_SomeD)
  then show "v \<in> set (listing P g d) \<and> kf v = x"
    using assms(2,3) by (force simp: listing_def)
next
  assume "v \<in> set (listing P g d) \<and> kf v = x"
  then obtain y where "(y, v) \<in> set d" "kf v = x" by (auto simp: listing_def)
  then show "dict_get d x = Some v" using assms(1,2) by (auto intro: dict_get_memI)
qed

lemma listing_get_eq:
  assumes "dict_wf d" "dict_wf d'"
    and "\<And>x v. (x, v) \<in> set d \<Longrightarrow> kf v = x" "\<And>x v. (x, v) \<in> set d' \<Longrightarrow> kf v = x"
    and "listing P g d = listing P g d'" "P x"
  shows "dict_get d x = dict_get d' x"
proof -
  have "dict_get d x = Some v \<longleftrightarrow> dict_get d' x = Some v" for v
    using listing_get [of d kf P x v g] listing_get [of d' kf P x v g] assms by auto
  then show ?thesis by (metis not_Some_eq)
qed

lemma listing_set: "set (listing P g d) = snd ` {e \<in> set d. P (fst e)}"
  by (auto simp: listing_def)

lemma sort_key_pair:
  assumes "\<forall>e \<in> set xs. f e = (c, g e)"
  shows "sort_key f xs = sort_key g xs"
  using assms
proof (induction xs)
  case (Cons x xs)
  have "insort_key f x ys = insort_key g x ys" if "\<forall>e \<in> set ys. f e = (c, g e)" for ys
    using that Cons.prems by (induction ys) auto
  then show ?case using Cons by simp
qed simp

end
