(* ===== verification/Py_Values.thy ===== *)
theory Py_Values
  imports WP_Prelude
begin

text \<open>
  The Python values and standard-library operations the components use: exceptions, floats as
  values, dynamically typed data (\<open>Any\<close>), JSON text as \<open>json.dumps\<close> writes it, and the \<open>str\<close>
  methods \<open>strip\<close>, \<open>lower\<close>, \<open>split\<close>, \<open>partition\<close> and \<open>encode\<close>.
\<close>

section \<open>Exceptions and results\<close>

datatype py_exc = TypeError | ValueError | KeyError | AttributeError | ZeroDivisionError | OverflowError | RuntimeError

type_synonym 'a py_result = "py_exc + 'a"

fun rbind :: "'e + 'a \<Rightarrow> ('a \<Rightarrow> 'e + 'b) \<Rightarrow> 'e + 'b" where
  "rbind (Inl e) k = Inl e"
| "rbind (Inr x) k = k x"

lemma rbind_Inr_iff: "rbind m k = Inr y \<longleftrightarrow> (\<exists>x. m = Inr x \<and> k x = Inr y)"
  by (cases m) auto

fun rseq :: "('e + 'a) list \<Rightarrow> 'e + 'a list" where
  "rseq [] = Inr []"
| "rseq (m # ms) = rbind m (\<lambda>x. rbind (rseq ms) (\<lambda>xs. Inr (x # xs)))"

lemma rseq_Inr_iff: "rseq ms = Inr xs \<longleftrightarrow> ms = map Inr xs"
  by (induction ms arbitrary: xs) (auto simp: rbind_Inr_iff)

section \<open>Dynamically typed values\<close>

text \<open>A float is a finite value (a rational, with negative zero apart), an infinity or NaN.\<close>

datatype pyfloat = PFin rat | PNegZero | PInf | PNegInf | PNaN

fun float_isfinite :: "pyfloat \<Rightarrow> bool" where
  "float_isfinite (PFin _) = True"
| "float_isfinite PNegZero = True"
| "float_isfinite _ = False"

text \<open>
  \<open>Any\<close>: the values that JSON or YAML content and \<open>extra\<close> payloads carry. \<open>VObj\<close> is any object that
  is none of the others (a Pydantic model, a dataclass, an arbitrary instance), \<open>VStrEnum\<close> a
  \<open>StrEnum\<close> member with its value (it is a \<open>str\<close> too), \<open>VEnum\<close> a member of any other enumeration.
\<close>

datatype pyval =
    VNone | VBool bool | VInt int | VFloat pyfloat | VStr string | VBytes string
  | VEnum string | VStrEnum string | VList "pyval list" | VTuple "pyval list" | VSet "pyval list"
  | VDict "(pyval \<times> pyval) list" | VObj string

text \<open>JSON-native data: what \<open>json.loads\<close> returns and \<open>json.dumps\<close> accepts.\<close>

datatype json =
    JNull | JBool bool | JInt int | JFloat pyfloat | JStr string
  | JArr "json list" | JObj "(string \<times> json) list"

section \<open>String methods\<close>

definition py_isspace :: "char \<Rightarrow> bool" where
  "py_isspace c \<longleftrightarrow>
     (let n = (of_char c :: nat)
      in (9 \<le> n \<and> n \<le> 13) \<or> (28 \<le> n \<and> n \<le> 32) \<or> n = 133 \<or> n = 160)"

definition py_strip :: "string \<Rightarrow> string" where
  "py_strip s = rev (dropWhile py_isspace (rev (dropWhile py_isspace s)))"

definition char_lower :: "char \<Rightarrow> char" where
  "char_lower c =
     (let n = (of_char c :: nat)
      in if (65 \<le> n \<and> n \<le> 90) \<or> (192 \<le> n \<and> n \<le> 222 \<and> n \<noteq> 215) then char_of (n + 32) else c)"

text \<open>Code equations without the conversion of a number to a character, for evaluation.\<close>

definition byte_char :: "nat \<Rightarrow> char" where
  "byte_char n = Char (odd n) (odd (n div 2)) (odd (n div 4)) (odd (n div 8))
     (odd (n div 16)) (odd (n div 32)) (odd (n div 64)) (odd (n div 128))"

lemma char_of_nat [code_unfold]: "char_of n = byte_char n"
  by (simp add: byte_char_def char_of_def bit_iff_odd)

lemma char_lower_code [code]:
  "char_lower (Char b0 b1 b2 b3 b4 b5 b6 b7) =
     (let n = (of_char (Char b0 b1 b2 b3 b4 b5 b6 b7) :: nat)
      in if (65 \<le> n \<and> n \<le> 90) \<or> (192 \<le> n \<and> n \<le> 222 \<and> n \<noteq> 215) then Char b0 b1 b2 b3 b4 True b6 b7
         else Char b0 b1 b2 b3 b4 b5 b6 b7)"
proof -
  let ?c = "Char b0 b1 b2 b3 b4 b5 b6 b7" and ?d = "Char b0 b1 b2 b3 b4 True b6 b7"
  have "char_of ((of_char ?c :: nat) + 32) = ?d"
    if "(65 \<le> (of_char ?c :: nat) \<and> (of_char ?c :: nat) \<le> 90) \<or> (192 \<le> (of_char ?c :: nat) \<and> (of_char ?c :: nat) \<le> 222)"
  proof -
    have "(of_char ?c :: nat) + 32 = of_char ?d"
      using that by (cases b5; cases b6; cases b7) (auto simp: of_bool_def split: if_splits)
    then show ?thesis by (metis char_of_char)
  qed
  then show ?thesis unfolding char_lower_def Let_def by presburger
qed

definition py_lower :: "string \<Rightarrow> string" where
  "py_lower = map char_lower"

lemma py_strip_Nil [simp]: "py_strip [] = []"
  by (simp add: py_strip_def)

lemma py_strip_eq_Nil_iff: "py_strip s = [] \<longleftrightarrow> (\<forall>c \<in> set s. py_isspace c)"
proof -
  have "py_strip s = [] \<longleftrightarrow> dropWhile py_isspace s = []"
  proof (cases "dropWhile py_isspace s")
    case Nil
    then show ?thesis unfolding py_strip_def Nil by simp
  next
    case (Cons c cs)
    then have "\<not> py_isspace c" by (metis hd_dropWhile list.distinct(1) list.sel(1))
    with Cons show ?thesis by (auto simp: py_strip_def)
  qed
  then show ?thesis by (metis dropWhile_eq_Nil_conv)
qed

lemma py_strip_subset: "set (py_strip s) \<subseteq> set s"
  by (auto simp: py_strip_def dest!: set_dropWhileD)

text \<open>\<open>s.partition(c)\<close> for a one-character separator: the part before the first \<open>c\<close>, whether it was
  found, and the part after it.\<close>

fun py_partition :: "char \<Rightarrow> string \<Rightarrow> string \<times> bool \<times> string" where
  "py_partition c [] = ([], False, [])"
| "py_partition c (x # xs) =
     (if x = c then ([], True, xs)
      else (case py_partition c xs of (pre, found, post) \<Rightarrow> (x # pre, found, post)))"

lemma py_partition_append:
  "c \<notin> set pre \<Longrightarrow> py_partition c (pre @ c # post) = (pre, True, post)"
  by (induction pre) auto

lemma py_partition_found:
  "py_partition c s = (pre, True, post) \<Longrightarrow> s = pre @ c # post \<and> c \<notin> set pre"
  by (induction s arbitrary: pre) (auto split: if_splits prod.splits)

lemma py_partition_not_found:
  "py_partition c s = (pre, False, post) \<Longrightarrow> pre = s \<and> post = [] \<and> c \<notin> set s"
  by (induction s arbitrary: pre) (auto split: if_splits prod.splits)

text \<open>\<open>s.split(c)\<close> for a one-character separator.\<close>

fun py_split :: "char \<Rightarrow> string \<Rightarrow> string list" where
  "py_split c [] = [[]]"
| "py_split c (x # xs) =
     (if x = c then [] # py_split c xs
      else (case py_split c xs of [] \<Rightarrow> [[x]] | p # ps \<Rightarrow> (x # p) # ps))"

fun py_join :: "char \<Rightarrow> string list \<Rightarrow> string" where
  "py_join c [] = []"
| "py_join c [p] = p"
| "py_join c (p # q # ps) = p @ c # py_join c (q # ps)"

lemma py_split_not_Nil [simp]: "py_split c s \<noteq> []"
  by (induction s) (auto split: list.splits)

lemma py_join_split: "py_join c (py_split c s) = s"
proof (induction s)
  case (Cons x xs)
  obtain p ps where "py_split c xs = p # ps" by (cases "py_split c xs") auto
  with Cons show ?case by (cases ps) auto
qed simp

lemma py_split_no_sep: "p \<in> set (py_split c s) \<Longrightarrow> c \<notin> set p"
proof (induction s arbitrary: p)
  case (Cons x s)
  obtain q qs where q: "py_split c s = q # qs" by (cases "py_split c s") auto
  show ?case
  proof (cases "x = c")
    case True
    then show ?thesis using Cons by auto
  next
    case False
    then have "p = x # q \<or> p \<in> set qs" using Cons.prems q by auto
    then show ?thesis using False Cons.IH q by auto
  qed
qed simp

lemma py_split_sep: "c \<notin> set p \<Longrightarrow> py_split c (p @ c # s) = p # py_split c s"
  by (induction p) auto

lemma py_split_word: "c \<notin> set p \<Longrightarrow> py_split c p = [p]"
  by (induction p) auto

lemma py_split_join:
  "ps \<noteq> [] \<Longrightarrow> \<forall>p \<in> set ps. c \<notin> set p \<Longrightarrow> py_split c (py_join c ps) = ps"
  by (induction c ps rule: py_join.induct) (auto simp: py_split_sep py_split_word)

section \<open>UTF-8 and hexadecimal\<close>

text \<open>
  \<open>s.encode("utf-8").hex()\<close>. A code point below 128 is one byte; one from 128 to 255 is two bytes,
  \<open>110000xx 10xxxxxx\<close>. Each byte is two lowercase hexadecimal digits.
\<close>

definition utf8_char :: "char \<Rightarrow> nat list" where
  "utf8_char c =
     (let n = of_char c in if n < 128 then [n] else [192 + n div 64, 128 + n mod 64])"

definition utf8_encode :: "string \<Rightarrow> nat list" where
  "utf8_encode s = concat (map utf8_char s)"

definition hex_digits :: string where
  "hex_digits = ''0123456789abcdef''"

definition hex_digit :: "nat \<Rightarrow> char" where
  "hex_digit n = hex_digits ! n"

definition byte_hex :: "nat \<Rightarrow> string" where
  "byte_hex b = [hex_digit (b div 16), hex_digit (b mod 16)]"

definition bytes_hex :: "nat list \<Rightarrow> string" where
  "bytes_hex bs = concat (map byte_hex bs)"

text \<open>The inverse: \<open>bytes.fromhex(s).decode("utf-8")\<close>, with \<open>None\<close> where either call raises.
  \<open>bytes.fromhex\<close> also takes uppercase digits and skips white space between bytes.\<close>

definition hex_value :: "char \<Rightarrow> nat option" where
  "hex_value c =
     (let n = (of_char c :: nat)
      in if 48 \<le> n \<and> n \<le> 57 then Some (n - 48)
         else if 97 \<le> n \<and> n \<le> 102 then Some (n - 87)
         else if 65 \<le> n \<and> n \<le> 70 then Some (n - 55)
         else None)"

definition ascii_space :: "char \<Rightarrow> bool" where
  "ascii_space c \<longleftrightarrow> (let n = (of_char c :: nat) in (9 \<le> n \<and> n \<le> 13) \<or> n = 32)"

fun bytes_fromhex :: "string \<Rightarrow> nat list option" where
  "bytes_fromhex [] = Some []"
| "bytes_fromhex [c] = (if ascii_space c then Some [] else None)"
| "bytes_fromhex (c # d # cs) =
     (if ascii_space c then bytes_fromhex (d # cs)
      else (case (hex_value c, hex_value d) of
              (Some a, Some b) \<Rightarrow> map_option ((#) (16 * a + b)) (bytes_fromhex cs)
            | _ \<Rightarrow> None))"

text \<open>Decoding: a byte below 128 is itself; a lead byte C2 or C3 and a continuation byte give a code
  point from 128 to 255. Other valid sequences denote code points outside the model.\<close>

fun utf8_decode :: "nat list \<Rightarrow> string option" where
  "utf8_decode [] = Some []"
| "utf8_decode [b] = (if b < 128 then Some [char_of b] else None)"
| "utf8_decode (b # d # bs) =
     (if b < 128 then map_option ((#) (char_of b)) (utf8_decode (d # bs))
      else if (b = 194 \<or> b = 195) \<and> 128 \<le> d \<and> d < 192
        then map_option ((#) (char_of (64 * (b - 192) + (d - 128)))) (utf8_decode bs)
      else None)"

lemma utf8_char_bound: "b \<in> set (utf8_char c) \<Longrightarrow> b < 256"
proof -
  have "of_char c < (256 :: nat)" by simp
  then have "of_char c div 64 < (64 :: nat)" by arith
  then show "b \<in> set (utf8_char c) \<Longrightarrow> b < 256"
    by (auto simp: utf8_char_def Let_def split: if_splits)
qed

lemma utf8_encode_bound: "b \<in> set (utf8_encode s) \<Longrightarrow> b < 256"
  by (auto simp: utf8_encode_def dest: utf8_char_bound)

lemma utf8_encode_Cons: "utf8_encode (c # s) = utf8_char c @ utf8_encode s"
  by (simp add: utf8_encode_def)

lemma utf8_decode_low: "b < 128 \<Longrightarrow> utf8_decode (b # bs) = map_option ((#) (char_of b)) (utf8_decode bs)"
  by (cases bs) auto

lemma utf8_roundtrip: "utf8_decode (utf8_encode s) = Some s"
proof (induction s)
  case (Cons c s)
  define n where "n = (of_char c :: nat)"
  have n: "n < 256" by (simp add: n_def)
  have c: "char_of n = c" by (simp add: n_def)
  show ?case
  proof (cases "n < 128")
    case True
    then show ?thesis using Cons c
      by (simp add: utf8_encode_Cons utf8_char_def utf8_decode_low flip: n_def)
  next
    case False
    then have "192 + n div 64 = 194 \<or> 192 + n div 64 = 195" using n by auto
    moreover have "64 * (n div 64) + n mod 64 = n" by simp
    ultimately show ?thesis using Cons c False
      by (simp add: utf8_encode_Cons utf8_char_def flip: n_def)
  qed
qed (simp add: utf8_encode_def)

lemma utf8_encode_inj: "utf8_encode s = utf8_encode t \<longleftrightarrow> s = t"
  by (metis option.inject utf8_roundtrip)

lemma hex_digit_props:
  "\<forall>n \<in> set [0..<16]. hex_value (hex_digit n) = Some n \<and> \<not> ascii_space (hex_digit n)
     \<and> hex_digit n \<in> set hex_digits"
  by (simp add: hex_value_def hex_digit_def hex_digits_def ascii_space_def Let_def upt_rec)

lemma hex_value_digit [simp]: "n < 16 \<Longrightarrow> hex_value (hex_digit n) = Some n"
  and ascii_space_hex_digit [simp]: "n < 16 \<Longrightarrow> \<not> ascii_space (hex_digit n)"
  and hex_digit_mem [simp]: "n < 16 \<Longrightarrow> hex_digit n \<in> set hex_digits"
  using hex_digit_props by auto

lemma bytes_fromhex_hex: "\<forall>b \<in> set bs. b < 256 \<Longrightarrow> bytes_fromhex (bytes_hex bs) = Some bs"
proof (induction bs)
  case (Cons b bs)
  then have "b div 16 < 16" and "b mod 16 < 16" and "16 * (b div 16) + b mod 16 = b" by auto
  with Cons show ?case by (simp add: bytes_hex_def byte_hex_def)
qed (simp add: bytes_hex_def)

lemma bytes_hex_set: "\<forall>b \<in> set bs. b < 256 \<Longrightarrow> set (bytes_hex bs) \<subseteq> set hex_digits"
  by (induction bs) (auto simp: bytes_hex_def byte_hex_def)

text \<open>\<open>value.encode("utf-8").hex()\<close> and its inverse.\<close>

definition str_hex :: "string \<Rightarrow> string" where
  "str_hex s = bytes_hex (utf8_encode s)"

definition str_unhex :: "string \<Rightarrow> string option" where
  "str_unhex s = (case bytes_fromhex s of None \<Rightarrow> None | Some bs \<Rightarrow> utf8_decode bs)"

lemma str_unhex_hex [simp]: "str_unhex (str_hex s) = Some s"
  by (simp add: str_unhex_def str_hex_def bytes_fromhex_hex utf8_encode_bound utf8_roundtrip)

lemma str_hex_inj: "str_hex s = str_hex t \<longleftrightarrow> s = t"
  by (metis str_unhex_hex option.inject)

lemma str_hex_set: "set (str_hex s) \<subseteq> set hex_digits"
  unfolding str_hex_def by (rule bytes_hex_set) (simp add: utf8_encode_bound)

lemma str_hex_Nil_iff [simp]: "str_hex s = [] \<longleftrightarrow> s = []"
  by (cases s) (auto simp: str_hex_def utf8_encode_def utf8_char_def bytes_hex_def byte_hex_def Let_def)

lemma str_hex_no_dot [simp]: "CHR ''.'' \<notin> set (str_hex s)"
  using str_hex_set [of s] by (auto simp: hex_digits_def)

end
