(* ===== verification/Contracts.thy ===== *)
theory Contracts
  imports Py_Values
begin

text \<open>
  The shared domain contracts of \<open>src/shared/contracts.py\<close>: every Pydantic model the other
  components exchange, as records and datatypes with the source's fields and members, the
  construction-time validators as functions into a sum type, and the tenant-id and audit-safety
  predicates.

  A \<open>datetime\<close> is an \<open>int\<close> (microseconds since the epoch); a float that the code only compares
  (\<open>confidence\<close>) is a \<open>rat\<close>.
\<close>

section \<open>Enumerations\<close>

datatype pack_type = PT_workload | PT_rule | PT_telemetry | PT_dependency | PT_ops

fun pack_type_value :: "pack_type \<Rightarrow> string" where
  "pack_type_value PT_workload = ''workload''"
| "pack_type_value PT_rule = ''rule''"
| "pack_type_value PT_telemetry = ''telemetry''"
| "pack_type_value PT_dependency = ''dependency''"
| "pack_type_value PT_ops = ''ops''"

datatype edge_type = ET_depends_on | ET_load_balances | ET_replicates_to | ET_routes_to

fun edge_type_value :: "edge_type \<Rightarrow> string" where
  "edge_type_value ET_depends_on = ''depends_on''"
| "edge_type_value ET_load_balances = ''load_balances''"
| "edge_type_value ET_replicates_to = ''replicates_to''"
| "edge_type_value ET_routes_to = ''routes_to''"

datatype health_state = HS_up | HS_degraded | HS_down | HS_unknown

datatype severity = SV_info | SV_low | SV_medium | SV_high | SV_critical

fun severity_value :: "severity \<Rightarrow> string" where
  "severity_value SV_info = ''info''"
| "severity_value SV_low = ''low''"
| "severity_value SV_medium = ''medium''"
| "severity_value SV_high = ''high''"
| "severity_value SV_critical = ''critical''"

datatype provenance_kind = PK_pack | PK_structural

datatype structural_finding_kind = SK_spof

datatype tenancy_mode = TM_single | TM_multi

datatype audit_action =
    AA_pack_import | AA_pack_verify | AA_pack_assign | AA_run_executed
  | AA_finding_emitted | AA_module_enabled | AA_module_disabled

fun audit_action_value :: "audit_action \<Rightarrow> string" where
  "audit_action_value AA_pack_import = ''pack.import''"
| "audit_action_value AA_pack_verify = ''pack.verify''"
| "audit_action_value AA_pack_assign = ''pack.assign''"
| "audit_action_value AA_run_executed = ''run.executed''"
| "audit_action_value AA_finding_emitted = ''finding.emitted''"
| "audit_action_value AA_module_enabled = ''module.enabled''"
| "audit_action_value AA_module_disabled = ''module.disabled''"

datatype audit_result = AR_success | AR_failure

fun audit_result_value :: "audit_result \<Rightarrow> string" where
  "audit_result_value AR_success = ''success''"
| "audit_result_value AR_failure = ''failure''"

text \<open>\<open>E(value)\<close> of a string enumeration: the member with that value, or \<open>ValueError\<close>.\<close>

definition pack_type_of :: "string \<Rightarrow> pack_type option" where
  "pack_type_of s = find (\<lambda>t. pack_type_value t = s)
     [PT_workload, PT_rule, PT_telemetry, PT_dependency, PT_ops]"

definition edge_type_of :: "string \<Rightarrow> edge_type option" where
  "edge_type_of s = find (\<lambda>t. edge_type_value t = s)
     [ET_depends_on, ET_load_balances, ET_replicates_to, ET_routes_to]"

definition severity_of :: "string \<Rightarrow> severity option" where
  "severity_of s = find (\<lambda>t. severity_value t = s)
     [SV_info, SV_low, SV_medium, SV_high, SV_critical]"

lemma pack_type_of_value [simp]: "pack_type_of (pack_type_value t) = Some t"
  by (cases t) (simp_all add: pack_type_of_def)

lemma edge_type_of_value [simp]: "edge_type_of (edge_type_value t) = Some t"
  by (cases t) (simp_all add: edge_type_of_def)

lemma severity_of_value [simp]: "severity_of (severity_value t) = Some t"
  by (cases t) (simp_all add: severity_of_def)

lemma edge_type_value_inj: "edge_type_value a = edge_type_value b \<longleftrightarrow> a = b"
  by (metis edge_type_of_value option.inject)

lemma audit_action_value_inj: "audit_action_value a = audit_action_value b \<longleftrightarrow> a = b"
  by (cases a; cases b) auto

lemma audit_result_value_inj: "audit_result_value a = audit_result_value b \<longleftrightarrow> a = b"
  by (cases a; cases b) auto

section \<open>Models\<close>

record source_reference =
  sr_kind :: string
  sr_id :: string
  sr_detail :: "string option"

definition SOURCE_REFERENCE_KINDS :: "string list" where
  "SOURCE_REFERENCE_KINDS = [''resource'', ''metric'', ''log'', ''pack'', ''connector'']"

record agent_response =
  ag_agentName :: string
  ag_taskType :: string
  ag_inputSummary :: string
  ag_findings :: "string list"
  ag_risks :: "string list"
  ag_recommendations :: "string list"
  ag_sourceReferences :: "source_reference list"
  ag_confidence :: rat
  ag_nextActions :: "string list"
  ag_generatedAt :: int

record rca_advisory =
  ra_index :: nat
  ra_agentName :: string
  ra_taskType :: string
  ra_confidence :: rat
  ra_advisory :: string
  ra_findings :: "string list"
  ra_risks :: "string list"
  ra_recommendations :: "string list"
  ra_sourceReferences :: "source_reference list"
  ra_generatedAt :: int

record tenant_context =
  tc_tenant_id :: string
  tc_mode :: tenancy_mode

record pack_signature =
  ps_algorithm :: string
  ps_signature :: string
  ps_key_id :: string
  ps_canonical_digest :: string

record pack_manifest =
  pm_id :: string
  pm_type :: pack_type
  pm_name :: string
  pm_version :: string
  pm_targets :: "string list"
  pm_sha256 :: "string option"
  pm_signature :: "string option"
  pm_pack_signature :: "pack_signature option"
  pm_author :: string

record trusted_public_key =
  tk_key_id :: string
  tk_algorithm :: string
  tk_public_key :: string

record trust_bundle =
  tb_schema_version :: int
  tb_keys :: "trusted_public_key list"

record resource_node =
  rn_id :: string
  rn_name :: string
  rn_type :: string
  rn_workload :: "string option"
  rn_tier :: "string option"
  rn_role :: "string option"
  rn_tags :: "(string, string) dict"

record dependency_edge =
  de_source :: string
  de_target :: string
  de_type :: edge_type
  de_redundant :: bool
  de_origin :: string

record workload_graph =
  wg_nodes :: "resource_node list"
  wg_edges :: "dependency_edge list"

record finding =
  fd_id :: string
  fd_module :: string
  fd_title :: string
  fd_passed :: "bool option"
  fd_severity :: severity
  fd_nodeId :: "string option"
  fd_blastRadius :: int
  fd_evidence :: "source_reference list"
  fd_provenance :: provenance_kind
  fd_packId :: "string option"
  fd_packVersion :: "string option"
  fd_structuralKind :: "structural_finding_kind option"
  fd_detail :: "string option"
  fd_createdAt :: int

record module_run_result =
  mr_module :: string
  mr_ok :: bool
  mr_findings :: "finding list"
  mr_estate :: "resource_node list option"
  mr_graph :: "workload_graph option"
  mr_response :: "agent_response option"
  mr_extra :: "(string, pyval) dict"

record drift_report =
  dr_workload :: string
  dr_newFailures :: "finding list"
  dr_recovered :: "finding list"
  dr_stillFailing :: "finding list"
  dr_addedNodes :: "string list"
  dr_removedNodes :: "string list"

record pack_assignment =
  pa_workload :: string
  pa_packId :: string
  pa_version :: string
  pa_assignedBy :: string
  pa_assignedAt :: int

record imported_pack =
  ip_scope :: string
  ip_packId :: string
  ip_version :: string
  ip_packType :: pack_type
  ip_digest :: string
  ip_signature :: "string option"
  ip_keyId :: "string option"
  ip_importedBy :: string
  ip_importedAt :: int

record tenant_module_config =
  mc_scope :: string
  mc_disabled :: "string list"

record audit_event =
  ae_id :: string
  ae_actor :: string
  ae_action :: audit_action
  ae_subject :: string
  ae_packId :: "string option"
  ae_packVersion :: "string option"
  ae_result :: audit_result
  ae_recordedAt :: int
  ae_prevHash :: "string option"
  ae_entryHash :: "string option"

section \<open>Finding: the provenance validator\<close>

text \<open>\<open>STRUCTURAL_FINDING_EMITTERS\<close>: the one module allowed to emit a structural kind.\<close>

definition STRUCTURAL_FINDING_EMITTERS :: "(structural_finding_kind, string) dict" where
  "STRUCTURAL_FINDING_EMITTERS = [(SK_spof, ''dependency_graph'')]"

datatype finding_error =
    BlankPackId | BlankPackVersion | PackWithStructuralKind | MissingStructuralKind
  | StructuralWithPack | NoAuthorizedEmitter | UnauthorizedEmitter

text \<open>\<open>not (s and s.strip())\<close> for an optional string.\<close>

fun blank :: "string option \<Rightarrow> bool" where
  "blank None = True"
| "blank (Some s) = (s = [] \<or> py_strip s = [])"

text \<open>\<open>Finding._enforce_provenance\<close>: the validator in the order of its checks.\<close>

definition enforce_provenance :: "finding \<Rightarrow> finding_error + finding" where
  "enforce_provenance f =
     (if fd_provenance f = PK_pack then
        (if blank (fd_packId f) then Inl BlankPackId
         else if blank (fd_packVersion f) then Inl BlankPackVersion
         else if fd_structuralKind f \<noteq> None then Inl PackWithStructuralKind
         else Inr f)
      else
        (case fd_structuralKind f of
           None \<Rightarrow> Inl MissingStructuralKind
         | Some k \<Rightarrow>
             (if fd_packId f \<noteq> None \<or> fd_packVersion f \<noteq> None then Inl StructuralWithPack
              else (case dict_get STRUCTURAL_FINDING_EMITTERS k of
                      None \<Rightarrow> Inl NoAuthorizedEmitter
                    | Some m \<Rightarrow>
                        if fd_module f \<noteq> m then Inl UnauthorizedEmitter else Inr f))))"

text \<open>What the validator promises of a finding it accepts.\<close>

definition provenance_complete :: "finding \<Rightarrow> bool" where
  "provenance_complete f \<longleftrightarrow>
     (fd_provenance f = PK_pack \<and>
        (\<exists>p v. fd_packId f = Some p \<and> fd_packVersion f = Some v
           \<and> (\<exists>c \<in> set p. \<not> py_isspace c) \<and> (\<exists>c \<in> set v. \<not> py_isspace c))
        \<and> fd_structuralKind f = None)
     \<or> (fd_provenance f = PK_structural \<and> fd_structuralKind f = Some SK_spof
        \<and> fd_module f = ''dependency_graph'' \<and> fd_packId f = None \<and> fd_packVersion f = None)"

lemma blank_iff: "\<not> blank s \<longleftrightarrow> (\<exists>p. s = Some p \<and> (\<exists>c \<in> set p. \<not> py_isspace c))"
  by (cases s) (auto simp: py_strip_eq_Nil_iff)

lemma enforce_provenance_same: "enforce_provenance f = Inr g \<Longrightarrow> g = f"
  by (auto simp: enforce_provenance_def split: if_splits option.splits)

lemma enforce_provenance_iff: "enforce_provenance f = Inr f \<longleftrightarrow> provenance_complete f"
proof (cases "fd_provenance f")
  case PK_pack
  then show ?thesis
    using blank_iff [of "fd_packId f"] blank_iff [of "fd_packVersion f"]
    by (auto simp: enforce_provenance_def provenance_complete_def)
next
  case PK_structural
  then show ?thesis
    by (cases "fd_structuralKind f"; cases "the (fd_structuralKind f)")
       (auto simp: enforce_provenance_def provenance_complete_def STRUCTURAL_FINDING_EMITTERS_def)
qed

text \<open>C20: a finding passes the construction-time validator exactly when its provenance is
  complete: either it cites a pack id and version that are not blank and names no structural kind,
  or it is a structural \<open>spof\<close> finding of the \<open>dependency_graph\<close> module that cites no pack.\<close>

theorem enforce_provenance_complete:
  "(\<exists>g. enforce_provenance f = Inr g) \<longleftrightarrow> provenance_complete f"
  using enforce_provenance_iff enforce_provenance_same by metis

section \<open>Tenant ids\<close>

definition TENANT_ID_MAX_LEN :: nat where
  "TENANT_ID_MAX_LEN = 128"

definition TENANT_ID_ALLOWED :: string where
  "TENANT_ID_ALLOWED =
     ''abcdefghijklmnopqrstuvwxyzABCDEFGHIJKLMNOPQRSTUVWXYZ0123456789._-''"

definition is_tenant_id_safe :: "string \<Rightarrow> bool" where
  "is_tenant_id_safe value \<longleftrightarrow>
     value \<noteq> [] \<and> length value \<le> TENANT_ID_MAX_LEN
     \<and> list_all (\<lambda>ch. ch \<in> set TENANT_ID_ALLOWED) value"

section \<open>Audit safety and scalar redaction\<close>

text \<open>
  \<open>is_audit_safe\<close> consults the Unicode database of Python's \<open>unicodedata\<close>. Its tables are a
  parameter of the model: \<open>NFKC\<close> normalisation and the general category's first letter.
\<close>

record unicode_db =
  ud_nfkc :: "string \<Rightarrow> string"
  ud_category_major :: "char \<Rightarrow> char"

definition AUDIT_FORBIDDEN_SUBSTRINGS :: "string list" where
  "AUDIT_FORBIDDEN_SUBSTRINGS = [''/subscriptions/'', ''/resourcegroups/'', ''/providers/'', ''@'']"

definition AUDIT_MAX_LEN :: nat where
  "AUDIT_MAX_LEN = 256"

definition is_audit_safe :: "unicode_db \<Rightarrow> string \<Rightarrow> bool" where
  "is_audit_safe U raw =
     (let value = ud_nfkc U raw in
      if value = [] \<or> length value > AUDIT_MAX_LEN then False
      else if list_ex (\<lambda>ch. py_isspace ch \<or> ud_category_major U ch = CHR ''C'') value then False
      else \<not> list_ex (\<lambda>marker. sublist marker (py_lower value)) AUDIT_FORBIDDEN_SUBSTRINGS)"

text \<open>\<open>_assert_audit_safe\<close>: the normalised value, or \<open>ValueError\<close>.\<close>

definition assert_audit_safe :: "unicode_db \<Rightarrow> string \<Rightarrow> py_exc + string" where
  "assert_audit_safe U value =
     (let normalized = ud_nfkc U value in
      if \<not> is_audit_safe U normalized then Inl ValueError else Inr normalized)"

definition REDACTED :: string where
  "REDACTED = ''[redacted]''"

text \<open>\<open>redact_value\<close>: a plain string that is provably safe, in its canonical form; else the constant.
  A \<open>StrEnum\<close> member is a \<open>str\<close> too.\<close>

definition redact_value :: "unicode_db \<Rightarrow> pyval \<Rightarrow> string" where
  "redact_value U v =
     (case v of
        VStr s \<Rightarrow> (let n = ud_nfkc U s in if is_audit_safe U n then n else REDACTED)
      | VStrEnum s \<Rightarrow> (let n = ud_nfkc U s in if is_audit_safe U n then n else REDACTED)
      | _ \<Rightarrow> REDACTED)"

end
