(* ===== verification/Blast_Radius.thy ===== *)
theory Blast_Radius
  imports Contracts
begin

text \<open>
  \<open>src/shared/blast_radius.py\<close>: the impact of a failed node over the dependency graph. The health
  map is a dictionary; one pass relaxes every edge into a down target, in the order of the dependents
  index, and the loop repeats until a pass changes nothing. The theorems give the result in closed
  form: the down nodes are those that reach the failed node along non-redundant edges.
\<close>

section \<open>The algorithm\<close>

type_synonym health_map = "(string, health_state) dict"
type_synonym dep_index = "(string, dependency_edge list) dict"

text \<open>\<open>_dependents_index\<close>: target to the edges into it, in the order of the edges.\<close>

definition index_add :: "dep_index \<Rightarrow> dependency_edge \<Rightarrow> dep_index" where
  "index_add idx e =
     dict_set (de_target e)
       ((case dict_get idx (de_target e) of None \<Rightarrow> [] | Some es \<Rightarrow> es) @ [e]) idx"

definition dependents_index :: "dependency_edge list \<Rightarrow> dep_index" where
  "dependents_index es = foldl index_add [] es"

text \<open>The body of the inner loop for one edge into a down target; the flag is \<open>changed\<close>.\<close>

fun relax_edge :: "health_map \<times> bool \<Rightarrow> dependency_edge \<Rightarrow> health_map \<times> bool" where
  "relax_edge (st, changed) e =
     (if dict_get st (de_source e) = Some HS_down then (st, changed)
      else if de_redundant e then
        (if dict_get st (de_source e) = Some HS_up
         then (dict_set (de_source e) HS_degraded st, True)
         else (st, changed))
      else (dict_set (de_source e) HS_down st, True))"

fun relax_target :: "health_map \<times> bool \<Rightarrow> string \<times> dependency_edge list \<Rightarrow> health_map \<times> bool" where
  "relax_target (st, changed) (target, es) =
     (if dict_get st target \<noteq> Some HS_down then (st, changed)
      else foldl relax_edge (st, changed) es)"

definition impact_pass :: "dep_index \<Rightarrow> health_map \<Rightarrow> health_map \<times> bool" where
  "impact_pass idx st = foldl relax_target (st, False) idx"

text \<open>
  Termination of the \<open>while changed\<close> loop: a change lowers the total slack of the sources (2 for a
  node that is up or absent, 1 for degraded, 0 for down).
\<close>

definition slack :: "health_map \<Rightarrow> string \<Rightarrow> nat" where
  "slack st n =
     (case dict_get st n of Some HS_down \<Rightarrow> 0 | Some HS_degraded \<Rightarrow> 1 | _ \<Rightarrow> 2)"

definition index_edges :: "dep_index \<Rightarrow> dependency_edge list" where
  "index_edges idx = concat (map snd idx)"

definition total_slack :: "string set \<Rightarrow> health_map \<Rightarrow> nat" where
  "total_slack S st = (\<Sum>n \<in> S. slack st n)"

lemma slack_set_other [simp]: "n \<noteq> m \<Longrightarrow> slack (dict_set m h st) n = slack st n"
  by (simp add: slack_def)

lemma slack_set_same [simp]:
  "slack (dict_set n HS_down st) n = 0" "slack (dict_set n HS_degraded st) n = 1"
  by (simp_all add: slack_def)

lemma total_slack_set:
  assumes "finite S" "n \<in> S" "slack (dict_set n h st) n < slack st n"
  shows "total_slack S (dict_set n h st) < total_slack S st"
  unfolding total_slack_def
proof (rule sum_strict_mono_ex1)
  show "\<forall>x \<in> S. slack (dict_set n h st) x \<le> slack st x"
    using assms(3) by (metis nless_le order_refl slack_set_other)
  show "\<exists>a \<in> S. slack (dict_set n h st) a < slack st a"
    using assms(2,3) by blast
qed (fact assms(1))

text \<open>What one step does to the slack and the flag: unchanged, or strictly less and flagged.\<close>

definition progress :: "string set \<Rightarrow> health_map \<times> bool \<Rightarrow> health_map \<times> bool \<Rightarrow> bool" where
  "progress S a b \<longleftrightarrow>
     b = a \<or> (snd b \<and> total_slack S (fst b) < total_slack S (fst a))"

lemma progress_trans: "progress S a b \<Longrightarrow> progress S b c \<Longrightarrow> progress S a c"
  by (auto simp: progress_def)

lemma relax_edge_progress:
  assumes "finite S" "de_source e \<in> S"
  shows "progress S p (relax_edge p e)"
proof (cases p)
  case (Pair st ch)
  have down: "dict_get st (de_source e) \<noteq> Some HS_down \<Longrightarrow>
      slack (dict_set (de_source e) HS_down st) (de_source e) < slack st (de_source e)"
    by (auto simp: slack_def split: option.splits health_state.splits)
  have degr: "dict_get st (de_source e) = Some HS_up \<Longrightarrow>
      slack (dict_set (de_source e) HS_degraded st) (de_source e) < slack st (de_source e)"
    by (auto simp: slack_def)
  show ?thesis
    using assms down degr by (auto simp: Pair progress_def intro!: total_slack_set)
qed

lemma relax_edges_progress:
  "finite S \<Longrightarrow> de_source ` set es \<subseteq> S \<Longrightarrow> progress S p (foldl relax_edge p es)"
proof (induction es arbitrary: p)
  case Nil
  show ?case by (simp add: progress_def)
next
  case (Cons e es)
  then show ?case
    using progress_trans [OF relax_edge_progress [of S e p] Cons.IH [of "relax_edge p e"]] by simp
qed

lemma relax_target_progress:
  "finite S \<Longrightarrow> de_source ` set (snd t) \<subseteq> S \<Longrightarrow> progress S p (relax_target p t)"
  using relax_edges_progress [of S "snd t" p]
  by (cases p; cases t) (auto simp: progress_def)

lemma relax_targets_progress:
  "finite S \<Longrightarrow> de_source ` set (index_edges idx) \<subseteq> S \<Longrightarrow>
   progress S p (foldl relax_target p idx)"
proof (induction idx arbitrary: p)
  case Nil
  show ?case by (simp add: progress_def)
next
  case (Cons t idx)
  then have "progress S p (relax_target p t)"
    by (intro relax_target_progress) (auto simp: index_edges_def)
  moreover have "progress S (relax_target p t) (foldl relax_target (relax_target p t) idx)"
    using Cons.prems by (intro Cons.IH) (auto simp: index_edges_def)
  ultimately show ?case by (simp add: progress_trans)
qed

lemma impact_pass_progress:
  assumes "snd (impact_pass idx st)"
  shows "total_slack (de_source ` set (index_edges idx)) (fst (impact_pass idx st))
       < total_slack (de_source ` set (index_edges idx)) st"
  using relax_targets_progress [of "de_source ` set (index_edges idx)" idx "(st, False)"] assms
  by (auto simp: impact_pass_def progress_def)

function impact_loop :: "dep_index \<Rightarrow> health_map \<Rightarrow> health_map" where
  "impact_loop idx st =
     (if snd (impact_pass idx st) then impact_loop idx (fst (impact_pass idx st))
      else fst (impact_pass idx st))"
  by pat_completeness auto
termination
  by (relation "measure (\<lambda>(idx, st). total_slack (de_source ` set (index_edges idx)) st)")
     (auto simp: impact_pass_progress)

declare impact_loop.simps [simp del]

text \<open>\<open>compute_impact\<close>: the node ids and the failed node start up, the failed node is set down.\<close>

definition impact_nodes :: "workload_graph \<Rightarrow> string \<Rightarrow> string list" where
  "impact_nodes g failed = remdups (map rn_id (wg_nodes g) @ [failed])"

definition impact_start :: "workload_graph \<Rightarrow> string \<Rightarrow> health_map" where
  "impact_start g failed =
     dict_set failed HS_down (map (\<lambda>n. (n, HS_up)) (impact_nodes g failed))"

definition compute_impact :: "workload_graph \<Rightarrow> string \<Rightarrow> health_map" where
  "compute_impact g failed = impact_loop (dependents_index (wg_edges g)) (impact_start g failed)"

definition blast_radius :: "workload_graph \<Rightarrow> string \<Rightarrow> nat" where
  "blast_radius g failed =
     length (filter (\<lambda>(n, h). h = HS_down \<and> n \<noteq> failed) (compute_impact g failed))"

text \<open>\<open>scored.sort(key=..., reverse=True)\<close> is stable, so it is the stable sort by the negated radius.\<close>

definition rank_spofs :: "workload_graph \<Rightarrow> (string \<times> nat) list" where
  "rank_spofs g =
     sort_key (\<lambda>p. - int (snd p)) (map (\<lambda>n. (rn_id n, blast_radius g (rn_id n))) (wg_nodes g))"

section \<open>The specification\<close>

text \<open>A node goes down when it is the failed node or depends without redundancy on a node that does.\<close>

inductive goes_down :: "dependency_edge list \<Rightarrow> string \<Rightarrow> string \<Rightarrow> bool" for es failed where
  failed: "goes_down es failed failed"
| depends: "e \<in> set es \<Longrightarrow> \<not> de_redundant e \<Longrightarrow> goes_down es failed (de_target e) \<Longrightarrow>
     goes_down es failed (de_source e)"

definition degrades :: "dependency_edge list \<Rightarrow> string \<Rightarrow> string \<Rightarrow> bool" where
  "degrades es failed n \<longleftrightarrow>
     (\<exists>e \<in> set es. de_redundant e \<and> de_source e = n \<and> goes_down es failed (de_target e))"

text \<open>The health the rules assign: absent nodes are those outside the graph that stay unaffected.\<close>

definition impact_spec :: "workload_graph \<Rightarrow> string \<Rightarrow> string \<Rightarrow> health_state option" where
  "impact_spec g failed n =
     (if goes_down (wg_edges g) failed n then Some HS_down
      else if n \<in> rn_id ` set (wg_nodes g) then
        (if degrades (wg_edges g) failed n then Some HS_degraded else Some HS_up)
      else None)"

section \<open>The index holds exactly the edges\<close>

definition index_inv :: "dep_index \<Rightarrow> dependency_edge list \<Rightarrow> bool" where
  "index_inv idx es \<longleftrightarrow>
     dict_wf idx \<and> (\<forall>t. dict_get idx t =
       (let fs = filter (\<lambda>e. de_target e = t) es in if fs = [] then None else Some fs))"

lemma index_add_inv: "index_inv idx es \<Longrightarrow> index_inv (index_add idx e) (es @ [e])"
  by (auto simp: index_inv_def index_add_def Let_def)

lemma dependents_index_inv: "index_inv (dependents_index es) es"
proof (induction es rule: rev_induct)
  case Nil
  show ?case by (simp add: index_inv_def dependents_index_def)
next
  case (snoc e es)
  then show ?case by (simp add: dependents_index_def index_add_inv)
qed

lemma index_entry:
  assumes "index_inv idx es" "(t, fs) \<in> set idx"
  shows "fs = filter (\<lambda>e. de_target e = t) es"
proof -
  have "dict_get idx t = Some fs"
    using assms by (intro dict_get_memI) (auto simp: index_inv_def)
  with assms(1) show ?thesis
    by (auto simp: index_inv_def Let_def split: if_splits)
qed

lemma index_covers:
  assumes "index_inv idx es" "e \<in> set es"
  shows "(de_target e, filter (\<lambda>e'. de_target e' = de_target e) es) \<in> set idx"
proof -
  have "filter (\<lambda>e'. de_target e' = de_target e) es \<noteq> []"
    using assms(2) by (auto simp: filter_empty_conv)
  then have "dict_get idx (de_target e) = Some (filter (\<lambda>e'. de_target e' = de_target e) es)"
    using assms(1) by (simp add: index_inv_def Let_def)
  then show ?thesis by (rule map_of_SomeD)
qed

section \<open>Soundness: the loop invariant\<close>

text \<open>
  Every down entry goes down, every degraded entry degrades, the graph's nodes and the failed node
  are present, and nothing else is present unless it is down.
\<close>

definition impact_inv :: "workload_graph \<Rightarrow> string \<Rightarrow> health_map \<Rightarrow> bool" where
  "impact_inv g failed st \<longleftrightarrow>
     dict_wf st
     \<and> dict_get st failed = Some HS_down
     \<and> (\<forall>n. dict_get st n = Some HS_down \<longrightarrow> goes_down (wg_edges g) failed n)
     \<and> (\<forall>n. dict_get st n = Some HS_degraded \<longrightarrow>
           n \<in> rn_id ` set (wg_nodes g) \<and> degrades (wg_edges g) failed n)
     \<and> (\<forall>n. dict_get st n = Some HS_up \<longrightarrow> n \<in> rn_id ` set (wg_nodes g))
     \<and> (\<forall>n. dict_get st n \<noteq> Some HS_unknown)
     \<and> (\<forall>n \<in> rn_id ` set (wg_nodes g). dict_get st n \<noteq> None)"

lemma impact_start_wf: "dict_wf (impact_start g failed)"
  by (auto simp: impact_start_def impact_nodes_def o_def intro!: dict_wf_set)

lemma impact_start_get:
  "dict_get (impact_start g failed) n =
     (if n = failed then Some HS_down
      else if n \<in> rn_id ` set (wg_nodes g) then Some HS_up else None)"
  by (auto simp: impact_start_def impact_nodes_def map_of_map_restrict restrict_map_def)

lemma impact_start_inv: "impact_inv g failed (impact_start g failed)"
  by (simp add: impact_inv_def impact_start_wf impact_start_get goes_down.failed)

lemma impact_inv_set_down:
  assumes "impact_inv g failed st" "goes_down (wg_edges g) failed n"
  shows "impact_inv g failed (dict_set n HS_down st)"
  using assms unfolding impact_inv_def by auto

lemma impact_inv_set_degraded:
  assumes "impact_inv g failed st" "dict_get st n = Some HS_up" "degrades (wg_edges g) failed n"
  shows "impact_inv g failed (dict_set n HS_degraded st)"
  using assms unfolding impact_inv_def by auto

lemma relax_edge_inv:
  assumes inv: "impact_inv g failed (fst p)" and e: "e \<in> set (wg_edges g)"
    and down: "goes_down (wg_edges g) failed (de_target e)"
  shows "impact_inv g failed (fst (relax_edge p e))"
proof (cases "de_redundant e")
  case True
  then have "degrades (wg_edges g) failed (de_source e)"
    using e down by (auto simp: degrades_def)
  with True inv show ?thesis
    by (cases p) (simp add: impact_inv_set_degraded)
next
  case False
  then have "goes_down (wg_edges g) failed (de_source e)"
    using e down by (blast intro: goes_down.depends)
  with False inv show ?thesis
    by (cases p) (simp add: impact_inv_set_down)
qed

lemma relax_edges_inv:
  "impact_inv g failed (fst p) \<Longrightarrow>
   \<forall>e \<in> set es. e \<in> set (wg_edges g) \<and> goes_down (wg_edges g) failed (de_target e) \<Longrightarrow>
   impact_inv g failed (fst (foldl relax_edge p es))"
proof (induction es arbitrary: p)
  case (Cons e es)
  then show ?case using relax_edge_inv [of g failed p e] by simp
qed simp

lemma relax_target_inv:
  assumes "impact_inv g failed (fst p)" "index_inv idx (wg_edges g)" "t \<in> set idx"
  shows "impact_inv g failed (fst (relax_target p t))"
proof (cases p; cases t)
  fix st ch target es
  assume p: "p = (st, ch)" and t: "t = (target, es)"
  have es: "es = filter (\<lambda>e. de_target e = target) (wg_edges g)"
    using index_entry assms(2,3) t by blast
  show ?thesis
  proof (cases "dict_get st target = Some HS_down")
    case True
    then have "goes_down (wg_edges g) failed target"
      using assms(1) p by (simp add: impact_inv_def)
    then show ?thesis
      using relax_edges_inv [of g failed "(st, ch)" es] assms(1) es True by (simp add: p t)
  qed (use assms(1) p t in simp)
qed

lemma relax_targets_inv:
  "impact_inv g failed (fst p) \<Longrightarrow> index_inv idx (wg_edges g) \<Longrightarrow> set ts \<subseteq> set idx \<Longrightarrow>
   impact_inv g failed (fst (foldl relax_target p ts))"
proof (induction ts arbitrary: p)
  case (Cons t ts)
  then show ?case using relax_target_inv [of g failed p idx t] by simp
qed simp

lemma impact_pass_inv:
  "impact_inv g failed st \<Longrightarrow> index_inv idx (wg_edges g) \<Longrightarrow>
   impact_inv g failed (fst (impact_pass idx st))"
  unfolding impact_pass_def by (rule relax_targets_inv) auto

section \<open>Completeness: a pass that changes nothing is a fixed point\<close>

lemma foldl_flag_True:
  assumes "\<And>st e. snd (f (st, True) e)"
  shows "snd (foldl f (st, True) es)"
proof (induction es arbitrary: st)
  case (Cons e es)
  obtain st' where "f (st, True) e = (st', True)"
    using assms [of st e] by (cases "f (st, True) e") auto
  then show ?case using Cons by simp
qed simp

lemma relax_edge_flag: "snd (relax_edge (st, True) e)"
  by simp

lemma relax_target_flag: "snd (relax_target (st, True) t)"
  using foldl_flag_True [of relax_edge] relax_edge_flag by (cases t) auto

lemma foldl_unchanged:
  assumes mono: "\<And>st e. snd (f (st, True) e)"
    and same: "\<And>st e. \<not> snd (f (st, False) e) \<Longrightarrow> fst (f (st, False) e) = st"
    and "\<not> snd (foldl f (st, False) es)"
  shows "fst (foldl f (st, False) es) = st \<and> (\<forall>e \<in> set es. \<not> snd (f (st, False) e))"
  using assms(3)
proof (induction es)
  case (Cons e es)
  have no: "\<not> snd (f (st, False) e)"
  proof
    assume "snd (f (st, False) e)"
    then obtain st' where "f (st, False) e = (st', True)"
      by (cases "f (st, False) e") auto
    with Cons.prems show False using foldl_flag_True [of f, OF mono] by simp
  qed
  then have "f (st, False) e = (st, False)"
    using same [OF no] by (cases "f (st, False) e") auto
  with Cons no show ?case by simp
qed simp

lemma relax_edge_same: "\<not> snd (relax_edge (st, False) e) \<Longrightarrow> fst (relax_edge (st, False) e) = st"
  by (auto split: if_splits)

lemma relax_target_same:
  "\<not> snd (relax_target (st, False) t) \<Longrightarrow> fst (relax_target (st, False) t) = st"
  using foldl_unchanged [of relax_edge st "snd t", OF relax_edge_flag relax_edge_same]
  by (cases t) (auto split: if_splits)

lemma impact_pass_fixed:
  assumes "\<not> snd (impact_pass idx st)" "index_inv idx es"
  shows "fst (impact_pass idx st) = st"
    and "\<And>e. e \<in> set es \<Longrightarrow> dict_get st (de_target e) = Some HS_down \<Longrightarrow>
      (if de_redundant e then dict_get st (de_source e) \<noteq> Some HS_up
       else dict_get st (de_source e) = Some HS_down)"
proof -
  have *: "fst (impact_pass idx st) = st \<and> (\<forall>t \<in> set idx. \<not> snd (relax_target (st, False) t))"
    using foldl_unchanged [of relax_target st idx, OF relax_target_flag relax_target_same] assms(1)
    by (simp add: impact_pass_def)
  then show "fst (impact_pass idx st) = st" by simp
  fix e assume e: "e \<in> set es" and down: "dict_get st (de_target e) = Some HS_down"
  define fs where "fs = filter (\<lambda>e'. de_target e' = de_target e) es"
  have "\<not> snd (relax_target (st, False) (de_target e, fs))"
    using * index_covers [OF assms(2) e] by (auto simp: fs_def)
  then have "\<not> snd (foldl relax_edge (st, False) fs)" using down by simp
  then have "\<not> snd (relax_edge (st, False) e)"
    using foldl_unchanged [of relax_edge st fs, OF relax_edge_flag relax_edge_same] e
    by (simp add: fs_def)
  then show "if de_redundant e then dict_get st (de_source e) \<noteq> Some HS_up
       else dict_get st (de_source e) = Some HS_down"
    by (auto split: if_splits)
qed

lemma fixed_complete:
  assumes "impact_inv g failed st"
    and fixed: "\<And>e. e \<in> set (wg_edges g) \<Longrightarrow> dict_get st (de_target e) = Some HS_down \<Longrightarrow>
      (if de_redundant e then dict_get st (de_source e) \<noteq> Some HS_up
       else dict_get st (de_source e) = Some HS_down)"
  shows "dict_get st n = impact_spec g failed n"
proof -
  have down: "goes_down (wg_edges g) failed m \<Longrightarrow> dict_get st m = Some HS_down" for m
  proof (induction rule: goes_down.induct)
    case failed
    show ?case using assms(1) by (simp add: impact_inv_def)
  next
    case (depends e)
    then show ?case using fixed [of e] by simp
  qed
  have degr: "degrades (wg_edges g) failed m \<Longrightarrow> dict_get st m \<noteq> Some HS_up" for m
    unfolding degrades_def using fixed down by force
  show ?thesis
    using assms(1) down [of n] degr [of n] unfolding impact_inv_def impact_spec_def
    by (cases "dict_get st n"; cases "the (dict_get st n)") auto
qed

lemma impact_loop_correct:
  assumes "impact_inv g failed st" "index_inv idx (wg_edges g)"
  shows "dict_wf (impact_loop idx st) \<and> dict_get (impact_loop idx st) n = impact_spec g failed n"
  using assms
proof (induction idx st rule: impact_loop.induct)
  case (1 idx st)
  show ?case
  proof (cases "snd (impact_pass idx st)")
    case True
    then show ?thesis
      using "1.IH" impact_pass_inv "1.prems" by (simp add: impact_loop.simps [of idx st])
  next
    case False
    note fixed = impact_pass_fixed [OF False "1.prems"(2)]
    have "dict_get st n = impact_spec g failed n"
      using "1.prems"(1) fixed(2) by (rule fixed_complete)
    moreover have "dict_wf st" using "1.prems"(1) by (simp add: impact_inv_def)
    ultimately show ?thesis using False fixed(1) by (simp add: impact_loop.simps [of idx st])
  qed
qed

lemma compute_impact_spec:
  "dict_wf (compute_impact g failed) \<and> dict_get (compute_impact g failed) n = impact_spec g failed n"
  unfolding compute_impact_def
  by (rule impact_loop_correct [OF impact_start_inv dependents_index_inv])

section \<open>Correctness\<close>

text \<open>C13: \<open>compute_impact\<close> terminates on every graph, cycles and edges to unknown nodes included, and
  its health map is the closed form: a node is down exactly when it reaches the failed node along
  non-redundant dependencies, degraded exactly when it is a graph node that is not down but depends
  redundantly on a down node, up when it is any other graph node, and absent otherwise.\<close>

theorem compute_impact_correct:
  "dict_wf (compute_impact g failed) \<and> dict_get (compute_impact g failed) = impact_spec g failed"
  using compute_impact_spec by (auto simp: fun_eq_iff)

lemma blast_radius_eq_card:
  "blast_radius g failed = card {n. n \<noteq> failed \<and> goes_down (wg_edges g) failed n}"
proof -
  have wf: "dict_wf (compute_impact g failed)" using compute_impact_spec by blast
  have "{n. \<exists>h. dict_get (compute_impact g failed) n = Some h \<and> (\<lambda>(n, h). h = HS_down \<and> n \<noteq> failed) (n, h)}
      = {n. n \<noteq> failed \<and> goes_down (wg_edges g) failed n}"
    using compute_impact_spec by (auto simp: impact_spec_def)
  then show ?thesis
    unfolding blast_radius_def dict_filter_card [OF wf] by simp
qed

lemma goes_down_sources: "goes_down es failed n \<Longrightarrow> n = failed \<or> n \<in> de_source ` set es"
  by (induction rule: goes_down.induct) auto

lemma goes_down_finite: "finite {n. n \<noteq> failed \<and> goes_down es failed n}"
  by (rule finite_subset [of _ "de_source ` set es"]) (auto dest: goes_down_sources)

lemma goes_down_mono: "goes_down es failed n \<Longrightarrow> set es \<subseteq> set es' \<Longrightarrow> goes_down es' failed n"
proof (induction rule: goes_down.induct)
  case failed
  show ?case by (rule goes_down.failed)
next
  case (depends e)
  then show ?case by (blast intro: goes_down.depends)
qed

text \<open>the blast radius is the number of nodes other than the failed one that go down with it, each
  counted once, whatever the order or multiplicity of nodes and edges; and adding dependencies to a
  graph never shrinks a blast radius.\<close>

theorem blast_radius_counts_and_grows:
  "blast_radius g failed = card {n. n \<noteq> failed \<and> goes_down (wg_edges g) failed n}
   \<and> blast_radius g failed \<le> blast_radius (g\<lparr>wg_edges := wg_edges g @ extra_edges\<rparr>) failed"
proof
  show "blast_radius g failed = card {n. n \<noteq> failed \<and> goes_down (wg_edges g) failed n}"
    by (rule blast_radius_eq_card)
  show "blast_radius g failed \<le> blast_radius (g\<lparr>wg_edges := wg_edges g @ extra_edges\<rparr>) failed"
    unfolding blast_radius_eq_card
    by (rule card_mono [OF goes_down_finite]) (auto intro: goes_down_mono)
qed

lemma sort_key_neg_sorted:
  "sorted_wrt (\<lambda>p q. snd p \<ge> snd q) (sort_key (\<lambda>p. - int (snd p)) xs)"
proof -
  have "sorted (map (\<lambda>p. - int (snd p)) (sort_key (\<lambda>p. - int (snd p)) xs))" by simp
  then show ?thesis by (simp add: sorted_map)
qed

text \<open>\<open>rank_spofs\<close> lists each node of the graph with its own blast radius (a permutation of the
  nodes in estate order), by descending radius, and nodes of equal radius keep their estate order.\<close>

theorem rank_spofs_correct:
  "mset (rank_spofs g) = mset (map (\<lambda>n. (rn_id n, blast_radius g (rn_id n))) (wg_nodes g))
   \<and> sorted_wrt (\<lambda>p q. snd p \<ge> snd q) (rank_spofs g)
   \<and> map fst (filter (\<lambda>p. snd p = r) (rank_spofs g))
     = map rn_id (filter (\<lambda>n. blast_radius g (rn_id n) = r) (wg_nodes g))"
proof (intro conjI)
  show "sorted_wrt (\<lambda>p q. snd p \<ge> snd q) (rank_spofs g)"
    unfolding rank_spofs_def by (rule sort_key_neg_sorted)
  have "filter (\<lambda>p. snd p = r) (sort_key (\<lambda>p. - int (snd p)) xs) = filter (\<lambda>p. snd p = r) xs" for xs :: "(string \<times> nat) list"
    using sort_key_stable [of "\<lambda>p. - int (snd p)" "- int r" xs] by simp
  then show "map fst (filter (\<lambda>p. snd p = r) (rank_spofs g))
     = map rn_id (filter (\<lambda>n. blast_radius g (rn_id n) = r) (wg_nodes g))"
    by (simp add: rank_spofs_def filter_map o_def)
qed (simp add: rank_spofs_def)

end
