(* ===== verification/Json_Text.thy ===== *)
theory Json_Text
  imports Py_Values
begin

text \<open>
  The text \<open>json.dumps(v, sort_keys=True, separators=(",", ":"))\<close> writes, with and without
  \<open>ensure_ascii\<close>, and the fact the digests of the program rest on: two JSON values have the same text
  exactly when they are the same value up to the order of object keys. The rendering of a float
  (\<open>float.__repr__\<close>) is a parameter, with what the format promises as a predicate.
\<close>

section \<open>Numbers\<close>

definition digit_char :: "nat \<Rightarrow> char" where
  "digit_char n = char_of (48 + n)"

fun show_nat :: "nat \<Rightarrow> string" where
  "show_nat n = (if n < 10 then [digit_char n] else show_nat (n div 10) @ [digit_char (n mod 10)])"

declare show_nat.simps [simp del]

definition show_int :: "int \<Rightarrow> string" where
  "show_int i = (if i < 0 then CHR ''-'' # show_nat (nat (- i)) else show_nat (nat i))"

definition read_nat :: "string \<Rightarrow> nat" where
  "read_nat = foldl (\<lambda>a c. 10 * a + (of_char c - 48)) 0"

definition is_digit_char :: "char \<Rightarrow> bool" where
  "is_digit_char c \<longleftrightarrow> 48 \<le> (of_char c :: nat) \<and> (of_char c :: nat) \<le> 57"

lemma digit_char_props [simp]:
  "n < 10 \<Longrightarrow> (of_char (digit_char n) :: nat) = 48 + n"
  "n < 10 \<Longrightarrow> is_digit_char (digit_char n)"
  by (simp_all add: digit_char_def is_digit_char_def)

lemma show_nat_digits: "\<forall>c \<in> set (show_nat n). is_digit_char c"
proof (induction n rule: show_nat.induct)
  case (1 n)
  then show ?case by (subst show_nat.simps) auto
qed

lemma show_nat_not_Nil [simp]: "show_nat n \<noteq> []"
  by (subst show_nat.simps) simp

lemma read_show_nat: "read_nat (show_nat n) = n"
proof (induction n rule: show_nat.induct)
  case (1 n)
  show ?case
  proof (cases "n < 10")
    case True
    then show ?thesis by (subst show_nat.simps) (simp add: read_nat_def)
  next
    case False
    have "read_nat (show_nat (n div 10) @ [digit_char (n mod 10)])
        = 10 * read_nat (show_nat (n div 10)) + n mod 10"
      by (simp add: read_nat_def)
    also have "\<dots> = n" using 1 False by simp
    finally show ?thesis using False by (subst show_nat.simps) simp
  qed
qed

lemma show_nat_inj: "show_nat m = show_nat n \<longleftrightarrow> m = n"
  by (metis read_show_nat)

lemma not_digit_minus [simp]: "\<not> is_digit_char (CHR ''-'')"
  by (simp add: is_digit_char_def)

lemma show_nat_no_minus: "show_nat n \<noteq> CHR ''-'' # cs"
  using show_nat_digits [of n] by auto

lemma show_int_inj: "show_int i = show_int j \<longleftrightarrow> i = j"
proof (cases "i < 0 \<longleftrightarrow> j < 0")
  case True
  then show ?thesis by (cases "i < 0") (auto simp: show_int_def show_nat_inj)
next
  case False
  then have "i \<noteq> j" by auto
  moreover have "show_int i \<noteq> show_int j"
  proof (cases "i < 0")
    case True
    with False have "\<not> j < 0" by simp
    with True show ?thesis
      using show_nat_no_minus [of "nat j", THEN not_sym] by (simp only: show_int_def if_True if_False not_False_eq_True)
  next
    case no: False
    with False have "j < 0" by simp
    with no show ?thesis
      using show_nat_no_minus [of "nat i"] by (simp only: show_int_def if_True if_False not_False_eq_True)
  qed
  ultimately show ?thesis by simp
qed

section \<open>Strings\<close>

text \<open>Escaping one character: \<open>\"\<close>, \<open>\\\<close>, the short escapes, \<open>\u00xx\<close> for the other control
  characters and, with \<open>ensure_ascii\<close>, for everything outside U+0020 to U+007E.\<close>

definition esc_short :: "char \<Rightarrow> char option" where
  "esc_short c =
     map_of [(CHR 0x22, CHR 0x22), (CHR 0x5C, CHR 0x5C), (CHR 0x0A, CHR ''n''), (CHR 0x0D, CHR ''r''),
             (CHR 0x09, CHR ''t''), (CHR 0x0C, CHR ''f''), (CHR 0x08, CHR ''b'')] c"

definition json_esc :: "bool \<Rightarrow> char \<Rightarrow> string" where
  "json_esc ascii c =
     (case esc_short c of
        Some d \<Rightarrow> [CHR 0x5C, d]
      | None \<Rightarrow>
          if (of_char c :: nat) < 32 \<or> (ascii \<and> (of_char c :: nat) > 126)
          then [CHR 0x5C, CHR ''u'', CHR ''0'', CHR ''0''] @ byte_hex (of_char c)
          else [c])"

definition json_str :: "bool \<Rightarrow> string \<Rightarrow> string" where
  "json_str ascii s = CHR 0x22 # concat (map (json_esc ascii) s) @ [CHR 0x22]"

lemma byte_hex_inj: "m < 256 \<Longrightarrow> n < 256 \<Longrightarrow> byte_hex m = byte_hex n \<longleftrightarrow> m = n"
proof -
  assume m: "m < 256" and n: "n < 256"
  have "byte_hex m = byte_hex n \<Longrightarrow> [m] = [n]"
    using m n bytes_fromhex_hex [of "[m]"] bytes_fromhex_hex [of "[n]"] by (simp add: bytes_hex_def)
  then show ?thesis by auto
qed

lemma esc_short_inj: "esc_short c = Some d \<Longrightarrow> esc_short c' = Some d \<Longrightarrow> c = c'"
  by (auto simp: esc_short_def split: if_splits)

lemma esc_short_not_u: "esc_short c \<noteq> Some (CHR ''u'')"
  by (auto simp: esc_short_def)

lemma esc_short_quote: "esc_short (CHR 0x22) \<noteq> None" "esc_short (CHR 0x5C) \<noteq> None"
  by (auto simp: esc_short_def)

lemma json_esc_hd: "\<exists>x xs. json_esc a c = x # xs \<and> x \<noteq> CHR 0x22"
  using esc_short_quote by (auto simp: json_esc_def split: option.splits)

lemma json_esc_prefix: "json_esc a c @ x = json_esc a d @ y \<Longrightarrow> c = d \<and> x = y"
proof -
  have lt: "(of_char c :: nat) < 256" "(of_char d :: nat) < 256" by simp_all
  have len: "byte_hex m @ p = byte_hex n @ q \<longleftrightarrow> byte_hex m = byte_hex n \<and> p = q" for m n p q
    by (auto simp: byte_hex_def)
  show "json_esc a c @ x = json_esc a d @ y \<Longrightarrow> c = d \<and> x = y"
    using esc_short_inj [of c _ d] esc_short_not_u [of c] esc_short_not_u [of d] esc_short_quote lt
    by (auto simp: json_esc_def len byte_hex_inj split: option.splits if_splits)
qed

lemma json_body_prefix:
  "concat (map (json_esc a) s) @ CHR 0x22 # r = concat (map (json_esc a) t) @ CHR 0x22 # q
   \<Longrightarrow> s = t \<and> r = q"
proof (induction s arbitrary: t)
  case Nil
  show ?case
  proof (cases t)
    case Nil
    then show ?thesis using Nil.prems by simp
  next
    case (Cons d t')
    obtain x xs where "json_esc a d = x # xs" "x \<noteq> CHR 0x22" using json_esc_hd by blast
    then show ?thesis using Nil.prems Cons by simp
  qed
next
  case (Cons c s)
  show ?case
  proof (cases t)
    case Nil
    obtain x xs where "json_esc a c = x # xs" "x \<noteq> CHR 0x22" using json_esc_hd by blast
    with Cons.prems Nil show ?thesis by simp
  next
    case (Cons d t')
    then have "json_esc a c @ (concat (map (json_esc a) s) @ CHR 0x22 # r)
             = json_esc a d @ (concat (map (json_esc a) t') @ CHR 0x22 # q)"
      using Cons.prems by simp
    then have "c = d \<and> concat (map (json_esc a) s) @ CHR 0x22 # r
        = concat (map (json_esc a) t') @ CHR 0x22 # q" by (rule json_esc_prefix)
    then show ?thesis using Cons.IH [of t'] Cons by simp
  qed
qed

lemma json_str_prefix: "json_str a s @ r = json_str a t @ q \<Longrightarrow> s = t \<and> r = q"
  by (rule json_body_prefix) (simp add: json_str_def)

section \<open>Values\<close>

fun dump :: "(pyfloat \<Rightarrow> string) \<Rightarrow> bool \<Rightarrow> json \<Rightarrow> string"
  and dump_rest :: "(pyfloat \<Rightarrow> string) \<Rightarrow> bool \<Rightarrow> json list \<Rightarrow> string"
  and dump_items :: "(pyfloat \<Rightarrow> string) \<Rightarrow> bool \<Rightarrow> (string \<times> json) list \<Rightarrow> string" where
  "dump fr a JNull = ''null''"
| "dump fr a (JBool b) = (if b then ''true'' else ''false'')"
| "dump fr a (JInt i) = show_int i"
| "dump fr a (JFloat x) = fr x"
| "dump fr a (JStr s) = json_str a s"
| "dump fr a (JArr []) = ''[]''"
| "dump fr a (JArr (v # vs)) = CHR ''['' # dump fr a v @ dump_rest fr a vs @ '']''"
| "dump fr a (JObj []) = ''{}''"
| "dump fr a (JObj ((k, v) # kvs)) =
     CHR ''{'' # json_str a k @ CHR '':'' # dump fr a v @ dump_items fr a kvs @ ''}''"
| "dump_rest fr a [] = []"
| "dump_rest fr a (v # vs) = CHR '','' # dump fr a v @ dump_rest fr a vs"
| "dump_items fr a [] = []"
| "dump_items fr a ((k, v) # kvs) =
     CHR '','' # json_str a k @ CHR '':'' # dump fr a v @ dump_items fr a kvs"

text \<open>\<open>sort_keys=True\<close>: the entries of every object in key order.\<close>

fun jsort :: "json \<Rightarrow> json" and jsort_list :: "json list \<Rightarrow> json list"
  and jsort_items :: "(string \<times> json) list \<Rightarrow> (string \<times> json) list" where
  "jsort (JArr vs) = JArr (jsort_list vs)"
| "jsort (JObj kvs) = JObj (sort_key fst (jsort_items kvs))"
| "jsort v = v"
| "jsort_list [] = []"
| "jsort_list (v # vs) = jsort v # jsort_list vs"
| "jsort_items [] = []"
| "jsort_items ((k, v) # kvs) = (k, jsort v) # jsort_items kvs"

lemma jsort_list_map: "jsort_list vs = map jsort vs"
  by (induction vs) auto

lemma jsort_items_map: "jsort_items kvs = map (\<lambda>(k, v). (k, jsort v)) kvs"
  by (induction kvs) auto

text \<open>What the rendering of floats promises: a non-empty text over the number characters with a point
  or an exponent (so it is no integer's text), different for different finite floats.\<close>

definition num_char :: "char \<Rightarrow> bool" where
  "num_char c \<longleftrightarrow> is_digit_char c \<or> c \<in> set ''-+.e''"

definition float_repr_ok :: "(pyfloat \<Rightarrow> string) \<Rightarrow> bool" where
  "float_repr_ok fr \<longleftrightarrow>
     (\<forall>x. float_isfinite x \<longrightarrow> list_all num_char (fr x) \<and> (CHR ''.'' \<in> set (fr x) \<or> CHR ''e'' \<in> set (fr x)))
     \<and> (\<forall>x y. float_isfinite x \<longrightarrow> float_isfinite y \<longrightarrow> fr x = fr y \<longrightarrow> x = y)"

fun json_finite :: "json \<Rightarrow> bool" and json_finite_list :: "json list \<Rightarrow> bool"
  and json_finite_items :: "(string \<times> json) list \<Rightarrow> bool" where
  "json_finite (JFloat x) = float_isfinite x"
| "json_finite (JArr vs) = json_finite_list vs"
| "json_finite (JObj kvs) = json_finite_items kvs"
| "json_finite _ = True"
| "json_finite_list [] = True"
| "json_finite_list (v # vs) = (json_finite v \<and> json_finite_list vs)"
| "json_finite_items [] = True"
| "json_finite_items ((k, v) # kvs) = (json_finite v \<and> json_finite_items kvs)"

lemma json_finite_list_all: "json_finite_list vs = list_all json_finite vs"
  by (induction vs) auto

lemma json_finite_items_all: "json_finite_items kvs = list_all (\<lambda>(k, v). json_finite v) kvs"
  by (induction kvs) auto

lemma jsort_finite:
  "json_finite (jsort v) = json_finite v"
  "json_finite_list (jsort_list vs) = json_finite_list vs"
  "json_finite_items (jsort_items kvs) = json_finite_items kvs"
  by (induction v and vs and kvs rule: jsort_jsort_list_jsort_items.induct)
     (auto simp: json_finite_items_all list_all_iff)

section \<open>The text determines the value\<close>

text \<open>The kind of a value, and that the first character of its text tells the kind apart.\<close>

datatype jkind = KNull | KTrue | KFalse | KNum | KStr | KArr | KObj

fun jkind_of :: "json \<Rightarrow> jkind" where
  "jkind_of JNull = KNull"
| "jkind_of (JBool b) = (if b then KTrue else KFalse)"
| "jkind_of (JInt _) = KNum"
| "jkind_of (JFloat _) = KNum"
| "jkind_of (JStr _) = KStr"
| "jkind_of (JArr _) = KArr"
| "jkind_of (JObj _) = KObj"

definition char_kind :: "char \<Rightarrow> jkind" where
  "char_kind c =
     (if c = CHR ''n'' then KNull else if c = CHR ''t'' then KTrue else if c = CHR ''f'' then KFalse
      else if c = CHR 0x22 then KStr else if c = CHR ''['' then KArr else if c = CHR ''{'' then KObj
      else KNum)"

lemma num_char_kind: "num_char c \<Longrightarrow> char_kind c = KNum"
proof -
  assume "num_char c"
  then consider "is_digit_char c" | "c \<in> {CHR ''-'', CHR ''+'', CHR ''.'', CHR ''e''}" by (auto simp: num_char_def)
  then show ?thesis
  proof cases
    case 1
    then have "c \<notin> {CHR ''n'', CHR ''t'', CHR ''f'', CHR 0x22, CHR ''['', CHR ''{''}" by (auto simp: is_digit_char_def)
    then show ?thesis by (simp add: char_kind_def)
  qed (auto simp: char_kind_def)
qed

lemma show_int_num: "list_all num_char (show_int i)"
  using show_nat_digits by (auto simp: show_int_def list_all_iff num_char_def)

lemma show_int_not_Nil [simp]: "show_int i \<noteq> []"
  by (simp add: show_int_def)

lemma float_repr_not_Nil: "float_repr_ok fr \<Longrightarrow> float_isfinite x \<Longrightarrow> fr x \<noteq> []"
  by (auto simp: float_repr_ok_def)

lemma dump_kind:
  assumes "float_repr_ok fr" "json_finite v"
  shows "\<exists>c cs. dump fr a v = c # cs \<and> char_kind c = jkind_of v"
proof (cases v)
  case (JInt i)
  then show ?thesis using show_int_num [of i]
    by (cases "show_int i") (auto simp: num_char_kind)
next
  case (JFloat x)
  then show ?thesis using assms float_repr_not_Nil [of fr x]
    by (cases "fr x") (auto simp: float_repr_ok_def num_char_kind split: if_splits dest!: spec [of _ x])
next
  case (JArr vs)
  then show ?thesis by (cases vs) (auto simp: char_kind_def)
next
  case (JObj kvs)
  then show ?thesis by (cases kvs) (auto simp: char_kind_def)
qed (auto simp: char_kind_def json_str_def)

text \<open>A value's text is followed by the end, a comma or a closing bracket.\<close>

definition ends :: "string \<Rightarrow> bool" where
  "ends r \<longleftrightarrow> (case r of [] \<Rightarrow> True | c # _ \<Rightarrow> c \<in> set '',]}'')"

lemma ends_simps [simp]: "ends []" "ends (c # r) \<longleftrightarrow> c \<in> set '',]}''"
  by (simp_all add: ends_def)

lemma ends_rest: "ends r \<Longrightarrow> ends (dump_rest fr a vs @ r)"
  by (cases vs) auto

lemma ends_items: "ends r \<Longrightarrow> ends (dump_items fr a kvs @ r)"
  by (cases kvs) auto

lemma takeWhile_num: "list_all num_char u \<Longrightarrow> ends r \<Longrightarrow> takeWhile num_char (u @ r) = u"
  by (induction u) (auto simp: ends_def num_char_def is_digit_char_def split: list.splits)

lemma num_prefix:
  assumes "list_all num_char u" "list_all num_char w" "ends r" "ends s" "u @ r = w @ s"
  shows "u = w \<and> r = s"
  using takeWhile_num [OF assms(1,3)] takeWhile_num [OF assms(2,4)] assms(5) by simp

lemma show_int_no_point: "CHR ''.'' \<notin> set (show_int i) \<and> CHR ''e'' \<notin> set (show_int i)"
  using show_nat_digits by (force simp: show_int_def is_digit_char_def)

lemma float_repr_D:
  assumes "float_repr_ok fr" "float_isfinite x"
  shows "list_all num_char (fr x)" "fr x \<noteq> show_int i" "show_int i \<noteq> fr x"
    "float_isfinite y \<Longrightarrow> fr x = fr y \<longleftrightarrow> x = y"
proof -
  from assms show "list_all num_char (fr x)" by (simp add: float_repr_ok_def)
  from assms have "CHR ''.'' \<in> set (fr x) \<or> CHR ''e'' \<in> set (fr x)" by (simp add: float_repr_ok_def)
  then show "fr x \<noteq> show_int i" "show_int i \<noteq> fr x" using show_int_no_point [of i] by auto
  show "float_isfinite y \<Longrightarrow> fr x = fr y \<longleftrightarrow> x = y"
    using assms by (auto simp: float_repr_ok_def)
qed

definition prefix_ok :: "(pyfloat \<Rightarrow> string) \<Rightarrow> bool \<Rightarrow> json \<Rightarrow> bool" where
  "prefix_ok fr a v \<longleftrightarrow>
     (\<forall>w r s. json_finite w \<longrightarrow> ends r \<longrightarrow> ends s \<longrightarrow> dump fr a v @ r = dump fr a w @ s \<longrightarrow> v = w \<and> r = s)"

lemma prefix_okD:
  "prefix_ok fr a v \<Longrightarrow> json_finite w \<Longrightarrow> ends r \<Longrightarrow> ends s \<Longrightarrow> dump fr a v @ r = dump fr a w @ s
   \<Longrightarrow> v = w \<and> r = s"
  unfolding prefix_ok_def by blast

lemma same_kind:
  assumes "float_repr_ok fr" "json_finite v" "json_finite w" "dump fr a v @ r = dump fr a w @ s"
  shows "jkind_of v = jkind_of w"
  using dump_kind [OF assms(1,2), of a] dump_kind [OF assms(1,3), of a] assms(4) by auto

lemma rest_prefix:
  assumes "list_all (prefix_ok fr a) vs" "json_finite_list ws"
    and "dump_rest fr a vs @ CHR '']'' # r = dump_rest fr a ws @ CHR '']'' # s"
  shows "vs = ws \<and> r = s"
  using assms
proof (induction vs arbitrary: ws)
  case Nil
  then show ?case by (cases ws) auto
next
  case (Cons v vs)
  then obtain w ws' where ws: "ws = w # ws'" by (cases ws) auto
  have "v = w \<and> dump_rest fr a vs @ CHR '']'' # r = dump_rest fr a ws' @ CHR '']'' # s"
    using Cons.prems ws by (intro prefix_okD [of fr a v]) (auto intro: ends_rest)
  then show ?case using Cons.IH [of ws'] Cons.prems ws by simp
qed

lemma items_prefix:
  assumes "list_all (\<lambda>(k, v). prefix_ok fr a v) kvs" "json_finite_items ws"
    and "dump_items fr a kvs @ CHR ''}'' # r = dump_items fr a ws @ CHR ''}'' # s"
  shows "kvs = ws \<and> r = s"
  using assms
proof (induction kvs arbitrary: ws)
  case Nil
  then show ?case by (cases ws) auto
next
  case (Cons kv kvs)
  obtain k v where kv: "kv = (k, v)" by force
  from Cons.prems kv obtain k' w ws' where ws: "ws = (k', w) # ws'" by (cases ws) auto
  have *: "k = k' \<and> CHR '':'' # dump fr a v @ dump_items fr a kvs @ CHR ''}'' # r
        = CHR '':'' # dump fr a w @ dump_items fr a ws' @ CHR ''}'' # s"
    using Cons.prems(3) kv ws by (intro json_str_prefix [of a k]) simp
  then have "v = w \<and> dump_items fr a kvs @ CHR ''}'' # r = dump_items fr a ws' @ CHR ''}'' # s"
    using Cons.prems kv ws by (intro prefix_okD [of fr a v]) (auto intro: ends_items)
  then show ?case using Cons.IH [of ws'] Cons.prems kv ws * by simp
qed

lemma prefix_ok_leaf:
  assumes fr: "float_repr_ok fr" and fin: "json_finite v"
    and leaf: "\<And>vs. v \<noteq> JArr vs" "\<And>kvs. v \<noteq> JObj kvs"
  shows "prefix_ok fr a v"
  unfolding prefix_ok_def
proof (intro allI impI)
  fix w r s
  assume w: "json_finite w" "ends r" "ends s" and eq: "dump fr a v @ r = dump fr a w @ s"
  note k = same_kind [OF fr fin w(1) eq]
  note num = num_prefix [OF _ _ w(2,3)]
  show "v = w \<and> r = s"
  proof (cases v)
    case (JInt i)
    with k eq w fr show ?thesis
      using num [of "show_int i" "dump fr a w"] float_repr_D [OF fr]
      by (cases w) (auto simp: show_int_num show_int_inj split: if_splits)
  next
    case (JFloat x)
    with k eq w fr fin show ?thesis
      using num [of "fr x" "dump fr a w"] float_repr_D [OF fr]
      by (cases w) (auto simp: show_int_num split: if_splits)
  next
    case (JStr t)
    with k eq show ?thesis using json_str_prefix [of a t r _ s]
      by (cases w) (auto split: if_splits)
  qed (use k eq leaf in \<open>cases w; auto split: if_splits\<close>)+
qed

lemma dump_no_bracket:
  assumes fr: "float_repr_ok fr" and fin: "json_finite u"
  shows "dump fr a u @ x \<noteq> CHR '']'' # y"
proof (cases "jkind_of u = KNum")
  case True
  have nb: "\<not> num_char (CHR '']'')" by (simp add: num_char_def is_digit_char_def)
  have "list_all num_char (dump fr a u)" "dump fr a u \<noteq> []"
    using True fin float_repr_not_Nil [OF fr] float_repr_D(1) [OF fr] show_int_num
    by (cases u; auto split: if_splits)+
  then show ?thesis using nb by (cases "dump fr a u") auto
next
  case False
  obtain c cs where "dump fr a u = c # cs" "char_kind c = jkind_of u"
    using dump_kind [OF fr fin] by blast
  then show ?thesis using False by (auto simp: char_kind_def)
qed

lemma prefix_ok_arr:
  assumes fr: "float_repr_ok fr" and vs: "list_all (prefix_ok fr a) vs" "json_finite_list vs"
  shows "prefix_ok fr a (JArr vs)"
  unfolding prefix_ok_def
proof (intro allI impI)
  fix w r s
  assume w: "json_finite w" "ends r" "ends s" and eq: "dump fr a (JArr vs) @ r = dump fr a w @ s"
  have "jkind_of w = KArr" using same_kind [OF fr _ w(1) eq] vs(2) by simp
  then obtain ws where ws: "w = JArr ws" by (cases w) (auto split: if_splits)
  note first = dump_no_bracket [OF fr]
  show "JArr vs = w \<and> r = s"
  proof (cases vs)
    case Nil
    then show ?thesis using eq ws w(1) first [of "hd ws"] first [of "hd ws", symmetric]
      by (cases ws) auto
  next
    case (Cons v vs')
    then obtain u us where us: "ws = u # us"
      using eq ws vs(2) first [of v] by (cases ws) auto
    have "v = u \<and> dump_rest fr a vs' @ CHR '']'' # r = dump_rest fr a us @ CHR '']'' # s"
      using eq ws us Cons vs w by (intro prefix_okD [of fr a v]) (auto intro: ends_rest)
    then show ?thesis using rest_prefix [of fr a vs' us r s] Cons us ws vs w by simp
  qed
qed

lemma obj_prefix:
  assumes kvs: "list_all (\<lambda>(k, v). prefix_ok fr a v) kvs" and ws: "json_finite_items ws"
    and eq: "dump fr a (JObj kvs) @ r = dump fr a (JObj ws) @ s"
  shows "kvs = ws \<and> r = s"
proof (cases kvs)
  case Nil
  then show ?thesis using eq by (cases ws) (auto simp: json_str_def)
next
  case (Cons kv kvs')
  obtain k v where kv: "kv = (k, v)" by force
  with Cons obtain k' u us where us: "ws = (k', u) # us"
    using eq by (cases ws) (auto simp: json_str_def)
  have *: "k = k' \<and> CHR '':'' # dump fr a v @ dump_items fr a kvs' @ CHR ''}'' # r
      = CHR '':'' # dump fr a u @ dump_items fr a us @ CHR ''}'' # s"
    using eq us kv Cons by (intro json_str_prefix [of a k]) simp
  then have "v = u \<and> dump_items fr a kvs' @ CHR ''}'' # r = dump_items fr a us @ CHR ''}'' # s"
    using us kv Cons kvs ws by (intro prefix_okD [of fr a v]) (auto intro: ends_items)
  then show ?thesis using items_prefix [of fr a kvs' us r s] Cons kv us kvs ws * by simp
qed

lemma prefix_ok_obj:
  assumes fr: "float_repr_ok fr" and kvs: "list_all (\<lambda>(k, v). prefix_ok fr a v) kvs"
    "json_finite_items kvs"
  shows "prefix_ok fr a (JObj kvs)"
  unfolding prefix_ok_def
proof (intro allI impI)
  fix w r s
  assume w: "json_finite w" "ends r" "ends s" and eq: "dump fr a (JObj kvs) @ r = dump fr a w @ s"
  have "jkind_of w = KObj" using same_kind [OF fr _ w(1) eq] kvs(2) by simp
  then obtain ws where ws: "w = JObj ws" by (cases w) (auto split: if_splits)
  then show "JObj kvs = w \<and> r = s" using obj_prefix [OF kvs(1)] w(1) eq by simp
qed

lemma prefix_ok_all:
  assumes fr: "float_repr_ok fr"
  shows "json_finite v \<Longrightarrow> prefix_ok fr a v"
    and "json_finite_list vs \<Longrightarrow> list_all (prefix_ok fr a) vs"
    and "json_finite_items kvs \<Longrightarrow> list_all (\<lambda>(k, v). prefix_ok fr a v) kvs"
proof (induction v and vs and kvs rule: json_finite_json_finite_list_json_finite_items.induct)
qed (auto intro: prefix_ok_leaf [OF fr] prefix_ok_arr [OF fr] prefix_ok_obj [OF fr])

lemma dump_inj:
  assumes "float_repr_ok fr" "json_finite v" "json_finite w"
  shows "dump fr a v = dump fr a w \<longleftrightarrow> v = w"
  using prefix_okD [OF prefix_ok_all(1) [OF assms(1,2)] assms(3), of "[]" "[]" a] by auto

text \<open>The text of an object ends where it ends: nothing that follows can be taken for part of it.\<close>

lemma dump_obj_prefix:
  assumes "float_repr_ok fr" "json_finite (JObj kvs)" "json_finite (JObj ws)"
    and "dump fr a (JObj kvs) @ r = dump fr a (JObj ws) @ s"
  shows "kvs = ws \<and> r = s"
  using obj_prefix [OF prefix_ok_all(3) [OF assms(1)] _ assms(4)] assms(2,3) by simp

text \<open>\<open>json.dumps(v, sort_keys=True, separators=(",", ":"), ensure_ascii=a)\<close>\<close>

definition dumps_sorted :: "(pyfloat \<Rightarrow> string) \<Rightarrow> bool \<Rightarrow> json \<Rightarrow> string" where
  "dumps_sorted fr a v = dump fr a (jsort v)"

lemma dumps_sorted_eq_iff:
  assumes "float_repr_ok fr" "json_finite v" "json_finite w"
  shows "dumps_sorted fr a v = dumps_sorted fr a w \<longleftrightarrow> jsort v = jsort w"
  unfolding dumps_sorted_def using assms by (simp add: dump_inj jsort_finite)

text \<open>Reordering an object's entries does not change its sorted form.\<close>

lemma sort_key_fst_perm:
  assumes "mset xs = mset ys" "dict_wf xs"
  shows "sort_key fst xs = sort_key fst ys"
  by (rule sort_key_mset_eq [OF assms(1)]) (use assms(2) in \<open>simp add: distinct_map\<close>)

lemma jsort_obj_perm:
  assumes "mset xs = mset ys" "dict_wf xs"
  shows "jsort (JObj xs) = jsort (JObj ys)"
proof -
  have "mset (jsort_items xs) = mset (jsort_items ys)"
    using assms(1) by (simp add: jsort_items_map)
  moreover have "dict_wf (jsort_items xs)"
    using assms(2) by (simp add: jsort_items_map o_def case_prod_beta)
  ultimately show ?thesis by (simp add: sort_key_fst_perm)
qed

text \<open>A rendering that satisfies the promise, for closed instances: numerator, \<open>e\<close>, denominator.\<close>

definition sample_repr :: "pyfloat \<Rightarrow> string" where
  "sample_repr x =
     (case x of
        PFin q \<Rightarrow> show_int (fst (quotient_of q)) @ CHR ''e'' # show_int (snd (quotient_of q))
      | PNegZero \<Rightarrow> ''-.''
      | _ \<Rightarrow> ''e'')"

lemma sample_repr_split:
  "show_int a @ CHR ''e'' # show_int b = show_int c @ CHR ''e'' # show_int d \<longleftrightarrow> a = c \<and> b = d"
proof -
  have "takeWhile (\<lambda>x. x \<noteq> CHR ''e'') (show_int i @ CHR ''e'' # r) = show_int i" for i r
  proof -
    have "\<forall>x \<in> set (show_int i). x \<noteq> CHR ''e''" using show_int_no_point [of i] by auto
    then show ?thesis by (subst takeWhile_append2) auto
  qed
  then have "show_int a = show_int c"
    if "show_int a @ CHR ''e'' # show_int b = show_int c @ CHR ''e'' # show_int d"
    using that by metis
  then show ?thesis using show_int_inj by auto
qed

lemma sample_repr_ok: "float_repr_ok sample_repr"
proof -
  have n: "list_all num_char (sample_repr x) \<and> (CHR ''.'' \<in> set (sample_repr x) \<or> CHR ''e'' \<in> set (sample_repr x))"
    if "float_isfinite x" for x
    using that show_int_num by (cases x) (auto simp: sample_repr_def num_char_def)
  have q: "sample_repr (PFin p) = sample_repr (PFin q) \<Longrightarrow> p = q" for p q
    by (rule quotient_of_inject) (simp add: sample_repr_def sample_repr_split prod_eq_iff)
  have z: "sample_repr (PFin p) \<noteq> sample_repr PNegZero" for p
  proof
    assume "sample_repr (PFin p) = sample_repr PNegZero"
    then have "set (sample_repr (PFin p)) = set (sample_repr PNegZero)" by simp
    moreover have "CHR ''e'' \<in> set (sample_repr (PFin p))" by (simp add: sample_repr_def)
    moreover have "CHR ''e'' \<notin> set (sample_repr PNegZero)" by (simp add: sample_repr_def)
    ultimately have False by simp
    then show False .
  qed
  have i: "x = y" if "float_isfinite x" "float_isfinite y" "sample_repr x = sample_repr y" for x y
  proof -
    have f: "(\<exists>p. v = PFin p) \<or> v = PNegZero" if "float_isfinite v" for v
      using that by (cases v) auto
    show ?thesis using f [OF that(1)] f [OF that(2)] that(3) q z by metis
  qed
  show ?thesis unfolding float_repr_ok_def using n i by blast
qed

section \<open>Content, without the order of keys\<close>

text \<open>
  What a JSON value says once the order of the entries of its objects is forgotten: an object is the
  map from its keys to their contents. Sorted texts are equal exactly when contents are.
\<close>

datatype content =
    CNull | CBool bool | CInt int | CFloat pyfloat | CStr string
  | CArr "content list" | CObj "string \<Rightarrow> content option"

fun jcontent :: "json \<Rightarrow> content" and jcontent_list :: "json list \<Rightarrow> content list"
  and jcontent_items :: "(string \<times> json) list \<Rightarrow> (string \<times> content) list" where
  "jcontent JNull = CNull"
| "jcontent (JBool b) = CBool b"
| "jcontent (JInt i) = CInt i"
| "jcontent (JFloat x) = CFloat x"
| "jcontent (JStr s) = CStr s"
| "jcontent (JArr vs) = CArr (jcontent_list vs)"
| "jcontent (JObj kvs) = CObj (map_of (jcontent_items kvs))"
| "jcontent_list [] = []"
| "jcontent_list (v # vs) = jcontent v # jcontent_list vs"
| "jcontent_items [] = []"
| "jcontent_items ((k, v) # kvs) = (k, jcontent v) # jcontent_items kvs"

text \<open>A dictionary has no two entries with the same key.\<close>

fun json_wf :: "json \<Rightarrow> bool" and json_wf_list :: "json list \<Rightarrow> bool"
  and json_wf_items :: "(string \<times> json) list \<Rightarrow> bool" where
  "json_wf (JArr vs) = json_wf_list vs"
| "json_wf (JObj kvs) = (dict_wf kvs \<and> json_wf_items kvs)"
| "json_wf _ = True"
| "json_wf_list [] = True"
| "json_wf_list (v # vs) = (json_wf v \<and> json_wf_list vs)"
| "json_wf_items [] = True"
| "json_wf_items ((k, v) # kvs) = (json_wf v \<and> json_wf_items kvs)"

lemma jcontent_list_map: "jcontent_list vs = map jcontent vs"
  by (induction vs) auto

lemma jcontent_items_map: "jcontent_items kvs = map (\<lambda>(k, v). (k, jcontent v)) kvs"
  by (induction kvs) auto

lemma json_wf_list_all: "json_wf_list vs = list_all json_wf vs"
  by (induction vs) auto

lemma json_wf_items_all: "json_wf_items kvs = list_all (\<lambda>(k, v). json_wf v) kvs"
  by (induction kvs) auto

lemma fst_comp_pair [simp]: "fst \<circ> (\<lambda>(k, v). (k, f v)) = fst"
  by auto

lemma map_of_sort_key_fst:
  assumes "dict_wf kvs"
  shows "map_of (sort_key fst kvs) = map_of kvs"
  by (rule map_of_eqI) (use assms in \<open>auto intro!: map_of_inject_set [THEN iffD2, THEN fun_cong] simp: distinct_map\<close>)

lemma jcontent_jsort: "json_wf v \<Longrightarrow> jcontent (jsort v) = jcontent v"
proof (induction v)
  case (JArr vs)
  then show ?case by (auto simp: jsort_list_map jcontent_list_map json_wf_list_all list_all_iff)
next
  case (JObj kvs)
  have wf: "dict_wf (jsort_items kvs)" using JObj.prems by (simp add: jsort_items_map)
  have items: "jcontent_items (jsort_items kvs) = jcontent_items kvs"
    using JObj by (force simp: jsort_items_map jcontent_items_map json_wf_items_all list_all_iff)
  have "map_of (jcontent_items (sort_key fst (jsort_items kvs)))
      = map_of (jcontent_items (jsort_items kvs))"
    using map_of_sort_key_fst [OF wf] by (simp add: jcontent_items_map map_of_map)
  then show ?case by (simp add: items)
qed auto

lemma jsort_eqI:
  assumes "json_wf v" "json_wf w" "jcontent v = jcontent w"
  shows "jsort v = jsort w"
  using assms
proof (induction v arbitrary: w)
  case (JArr vs)
  then obtain ws where w: "w = JArr ws" by (cases w) auto
  with JArr.prems have "list_all2 (\<lambda>x y. jcontent x = jcontent y) vs ws"
    by (simp add: jcontent_list_map list_eq_iff_nth_eq list_all2_conv_all_nth)
  then have "list_all2 (\<lambda>x y. jsort x = jsort y) vs ws"
    using JArr w by (auto simp: list_all2_conv_all_nth json_wf_list_all list_all_length)
  then show ?case using w
    by (simp add: jsort_list_map list_eq_iff_nth_eq list_all2_conv_all_nth)
next
  case (JObj kvs)
  then obtain ws where w: "w = JObj ws" by (cases w) auto
  have wf: "dict_wf kvs" "dict_wf ws" using JObj.prems w by auto
  have sets: "set (jcontent_items kvs) = set (jcontent_items ws)"
    by (rule map_of_inject_set [THEN iffD1]) (use JObj.prems w wf in \<open>simp_all add: jcontent_items_map\<close>)
  have sub: "(k, jsort v) = (k, jsort u)"
    if "(k, v) \<in> set kvs" "(k, u) \<in> set ws" "jcontent v = jcontent u" for k v u
  proof -
    have "json_wf v" "json_wf u"
      using that JObj.prems w by (auto simp: json_wf_items_all list_all_iff)
    then have "jsort v = jsort u" using JObj.IH [OF that(1), of v u] that(3) by simp
    then show ?thesis by simp
  qed
  have "set (jsort_items kvs) = set (jsort_items ws)"
  proof (intro set_eqI iffI)
    fix x assume "x \<in> set (jsort_items kvs)"
    then obtain k v where x: "x = (k, jsort v)" "(k, v) \<in> set kvs" by (auto simp: jsort_items_map)
    then have "(k, jcontent v) \<in> set (jcontent_items ws)" unfolding sets [symmetric]
      by (force simp: jcontent_items_map)
    then obtain u where "(k, u) \<in> set ws" "jcontent v = jcontent u" by (auto simp: jcontent_items_map)
    with x sub show "x \<in> set (jsort_items ws)" by (force simp: jsort_items_map)
  next
    fix x assume "x \<in> set (jsort_items ws)"
    then obtain k u where x: "x = (k, jsort u)" "(k, u) \<in> set ws" by (auto simp: jsort_items_map)
    then have "(k, jcontent u) \<in> set (jcontent_items kvs)" unfolding sets
      by (force simp: jcontent_items_map)
    then obtain v where "(k, v) \<in> set kvs" "jcontent v = jcontent u" by (auto simp: jcontent_items_map)
    with x sub show "x \<in> set (jsort_items kvs)" by (force simp: jsort_items_map)
  qed
  moreover have d: "dict_wf (jsort_items kvs)" "dict_wf (jsort_items ws)"
    using wf by (simp_all add: jsort_items_map)
  moreover have "distinct (jsort_items kvs)" "distinct (jsort_items ws)"
    using d by (simp_all only: distinct_map)
  ultimately have "mset (jsort_items kvs) = mset (jsort_items ws)"
    using set_eq_iff_mset_eq_distinct by blast
  then show ?case using w sort_key_fst_perm [OF _ d(1)] by simp
next
  case (JBool b)
  then show ?case by (cases w) auto
qed (case_tac w; auto)+

lemma jsort_eq_iff:
  "json_wf v \<Longrightarrow> json_wf w \<Longrightarrow> jsort v = jsort w \<longleftrightarrow> jcontent v = jcontent w"
  by (metis jcontent_jsort jsort_eqI)

end
