(* ===== verification/Graph_Revision.thy ===== *)
theory Graph_Revision
  imports Contracts Json_Text
begin

text \<open>
  \<open>graph_revision\<close> of \<open>shared/blast_radius.py\<close>: the hash of the sorted node ids and the sorted
  edges. The hash function is a parameter.
\<close>

text \<open>\<open>[e.source, e.target, str(e.type), bool(e.redundant)]\<close>; lists compare like these tuples.\<close>

definition edge_key :: "dependency_edge \<Rightarrow> string \<times> string \<times> string \<times> bool" where
  "edge_key e = (de_source e, de_target e, edge_type_value (de_type e), de_redundant e)"

definition edge_json :: "string \<times> string \<times> string \<times> bool \<Rightarrow> json" where
  "edge_json k = (case k of (s, t, ty, r) \<Rightarrow> JArr [JStr s, JStr t, JStr ty, JBool r])"

definition graph_json :: "workload_graph \<Rightarrow> json" where
  "graph_json g =
     JObj [(''nodes'', JArr (map JStr (sort (map rn_id (wg_nodes g))))),
           (''edges'', JArr (map edge_json (sort (map edge_key (wg_edges g)))))]"

text \<open>No float occurs in the value, so the rendering of floats is any one.\<close>

definition graph_bytes :: "workload_graph \<Rightarrow> nat list" where
  "graph_bytes g = utf8_encode (dumps_sorted sample_repr True (graph_json g))"

definition graph_revision :: "(nat list \<Rightarrow> string) \<Rightarrow> workload_graph \<Rightarrow> string" where
  "graph_revision sha256 g = sha256 (graph_bytes g)"

lemma edge_json_inj: "edge_json k = edge_json k' \<longleftrightarrow> k = k'"
  by (cases k; cases k') (auto simp: edge_json_def)

lemma jsort_edges: "jsort_list (map edge_json ks) = map edge_json ks"
  by (auto simp: jsort_list_map edge_json_def split: prod.splits)

lemma jsort_strs: "jsort_list (map JStr ss) = map JStr ss"
  by (auto simp: jsort_list_map)

lemma graph_json_finite: "json_finite (graph_json g)"
  by (auto simp: graph_json_def json_finite_list_all list_all_iff edge_json_def split: prod.splits)

lemma graph_json_sorted:
  "jsort (graph_json g) = JObj [(''edges'', JArr (map edge_json (sort (map edge_key (wg_edges g))))),
     (''nodes'', JArr (map JStr (sort (map rn_id (wg_nodes g)))))]"
  by (simp add: graph_json_def jsort_edges jsort_strs)

lemma sort_eq_iff: "sort xs = sort ys \<longleftrightarrow> mset xs = mset ys"
  by (metis mset_sort properties_for_sort sorted_sort)

lemma graph_bytes_eq_iff:
  "graph_bytes g = graph_bytes h \<longleftrightarrow>
     mset (map rn_id (wg_nodes g)) = mset (map rn_id (wg_nodes h))
     \<and> mset (map edge_key (wg_edges g)) = mset (map edge_key (wg_edges h))"
proof -
  have "graph_bytes g = graph_bytes h \<longleftrightarrow> jsort (graph_json g) = jsort (graph_json h)"
    unfolding graph_bytes_def utf8_encode_inj
    by (rule dumps_sorted_eq_iff [OF sample_repr_ok graph_json_finite graph_json_finite])
  also have "\<dots> \<longleftrightarrow> sort (map edge_key (wg_edges g)) = sort (map edge_key (wg_edges h))
      \<and> sort (map rn_id (wg_nodes g)) = sort (map rn_id (wg_nodes h))"
    by (simp add: graph_json_sorted inj_map_eq_map inj_def edge_json_inj)
  finally show ?thesis by (auto simp: sort_eq_iff)
qed

text \<open>the revision of a graph depends on its node ids and on the source, target, type and
  redundancy of its edges only, not on their order; and graphs that differ there, counting
  repetitions, have different revisions unless their serialisations are a collision of the hash.\<close>

theorem graph_revision_iff:
  "graph_revision sha256 g = graph_revision sha256 h \<longleftrightarrow>
     (mset (map rn_id (wg_nodes g)) = mset (map rn_id (wg_nodes h))
      \<and> mset (map edge_key (wg_edges g)) = mset (map edge_key (wg_edges h)))
     \<or> (graph_bytes g \<noteq> graph_bytes h \<and> sha256 (graph_bytes g) = sha256 (graph_bytes h))"
  unfolding graph_revision_def using graph_bytes_eq_iff by metis

text \<open>The same set of node ids and of edges is not enough: a repeated edge changes the
  serialisation, and so the revision under every hash function without collisions.\<close>

lemma graph_revision_counts_duplicates:
  "\<exists>g h. set (map rn_id (wg_nodes g)) = set (map rn_id (wg_nodes h))
     \<and> set (map edge_key (wg_edges g)) = set (map edge_key (wg_edges h))
     \<and> (\<forall>sha256. inj sha256 \<longrightarrow> graph_revision sha256 g \<noteq> graph_revision sha256 h)"
proof -
  define e where "e = \<lparr>de_source = ''a'', de_target = ''b'', de_type = ET_depends_on, de_redundant = False,
    de_origin = ''x''\<rparr>"
  define g where "g n = \<lparr>wg_nodes = [], wg_edges = replicate n e\<rparr>" for n
  have "graph_bytes (g 1) \<noteq> graph_bytes (g 2)"
    by (simp add: graph_bytes_eq_iff g_def numeral_2_eq_2)
  then have "\<forall>sha256. inj sha256 \<longrightarrow> graph_revision sha256 (g 1) \<noteq> graph_revision sha256 (g 2)"
    by (simp add: graph_revision_def inj_eq)
  moreover have "set (map edge_key (wg_edges (g 1))) = set (map edge_key (wg_edges (g 2)))"
    by (simp add: g_def)
  ultimately show ?thesis by (intro exI [of _ "g 1"] exI [of _ "g 2"]) (simp add: g_def)
qed

end
