(* ===== verification/Canonical.thy ===== *)
theory Canonical
  imports Json_Text
begin

text \<open>
  \<open>packs_engine/canonical.py\<close>: the bytes that identify a pack version and their digest. The
  hash function is a parameter. The specification is the content of the pack with the order of keys
  forgotten (\<open>vcontent\<close>): two packs have the same canonical bytes exactly when, outside the volatile
  integrity fields, they have the same content.
\<close>

section \<open>The operations\<close>

text \<open>The string a mapping key is, when it is one (a \<open>StrEnum\<close> member is a \<open>str\<close>).\<close>

fun str_key :: "pyval \<Rightarrow> string option" where
  "str_key (VStr s) = Some s"
| "str_key (VStrEnum s) = Some s"
| "str_key _ = None"

text \<open>\<open>_normalize\<close>. The keys of a mapping are checked first; its values are normalised in key order,
  and the first error is the result.\<close>

fun normalize_value :: "pyval \<Rightarrow> json py_result" and normalize_list :: "pyval list \<Rightarrow> json py_result list"
  and normalize_items :: "(pyval \<times> pyval) list \<Rightarrow> (string \<times> json py_result) list" where
  "normalize_value (VDict kvs) =
     (if \<exists>kv \<in> set kvs. str_key (fst kv) = None then Inl TypeError
      else rbind (rseq (map (\<lambda>(k, r). rbind r (\<lambda>v. Inr (k, v))) (sort_key fst (normalize_items kvs))))
             (\<lambda>items. Inr (JObj items)))"
| "normalize_value (VList vs) = rbind (rseq (normalize_list vs)) (\<lambda>js. Inr (JArr js))"
| "normalize_value (VBool b) = Inr (JBool b)"
| "normalize_value VNone = Inr JNull"
| "normalize_value (VFloat x) = (if float_isfinite x then Inr (JFloat x) else Inl ValueError)"
| "normalize_value (VStr s) = Inr (JStr s)"
| "normalize_value (VStrEnum s) = Inr (JStr s)"
| "normalize_value (VInt i) = Inr (JInt i)"
| "normalize_value _ = Inl TypeError"
| "normalize_list [] = []"
| "normalize_list (v # vs) = normalize_value v # normalize_list vs"
| "normalize_items [] = []"
| "normalize_items ((k, v) # kvs) = (the (str_key k), normalize_value v) # normalize_items kvs"

text \<open>\<open>EXCLUDED_MANIFEST_FIELDS\<close> and \<open>_strip_volatile\<close>. A pack is the list of its entries.\<close>

definition EXCLUDED_MANIFEST_FIELDS :: "string list" where
  "EXCLUDED_MANIFEST_FIELDS = [''sha256'', ''signature'', ''pack_signature'']"

definition is_volatile :: "pyval \<Rightarrow> bool" where
  "is_volatile k \<longleftrightarrow> (case str_key k of None \<Rightarrow> False | Some s \<Rightarrow> s \<in> set EXCLUDED_MANIFEST_FIELDS)"

definition strip_entry :: "pyval \<times> pyval \<Rightarrow> pyval \<times> pyval" where
  "strip_entry kv =
     (case kv of
        (k, VDict fields) \<Rightarrow>
          if str_key k = Some ''manifest''
          then (k, VDict (filter (\<lambda>(f, _). \<not> is_volatile f) fields)) else kv
      | _ \<Rightarrow> kv)"

definition strip_volatile :: "(pyval \<times> pyval) list \<Rightarrow> (pyval \<times> pyval) list" where
  "strip_volatile pack = map strip_entry pack"

definition canonical_bytes ::
    "(pyfloat \<Rightarrow> string) \<Rightarrow> (pyval \<times> pyval) list \<Rightarrow> nat list py_result" where
  "canonical_bytes fr pack =
     rbind (normalize_value (VDict (strip_volatile pack)))
       (\<lambda>normalized. Inr (utf8_encode (dumps_sorted fr False normalized)))"

text \<open>\<open>sha256\<close> stands for \<open>hashlib.sha256(\<dots>).hexdigest()\<close>.\<close>

definition canonical_digest ::
    "(nat list \<Rightarrow> string) \<Rightarrow> (pyfloat \<Rightarrow> string) \<Rightarrow> (pyval \<times> pyval) list \<Rightarrow> string py_result" where
  "canonical_digest sha256 fr pack = rbind (canonical_bytes fr pack) (\<lambda>bs. Inr (sha256 bs))"

section \<open>Which packs are accepted\<close>

text \<open>JSON-native values, and values whose mappings have no two entries with equal keys.\<close>

fun native :: "pyval \<Rightarrow> bool" where
  "native (VDict kvs) = (\<forall>(k, v) \<in> set kvs. str_key k \<noteq> None \<and> native v)"
| "native (VList vs) = (\<forall>v \<in> set vs. native v)"
| "native (VFloat x) = float_isfinite x"
| "native (VTuple _) = False"
| "native (VSet _) = False"
| "native (VBytes _) = False"
| "native (VEnum _) = False"
| "native (VObj _) = False"
| "native _ = True"

fun keys_wf :: "pyval \<Rightarrow> bool" where
  "keys_wf (VDict kvs) = (distinct (map (str_key \<circ> fst) kvs) \<and> (\<forall>(k, v) \<in> set kvs. keys_wf v))"
| "keys_wf (VList vs) = (\<forall>v \<in> set vs. keys_wf v)"
| "keys_wf _ = True"

lemma normalize_list_map: "normalize_list vs = map normalize_value vs"
  by (induction vs) auto

lemma normalize_items_map: "normalize_items kvs = map (\<lambda>(k, v). (the (str_key k), normalize_value v)) kvs"
  by (induction kvs) auto

lemma rseq_map_ok: "(\<exists>ys. rseq (map f xs) = Inr ys) \<longleftrightarrow> (\<forall>x \<in> set xs. \<exists>y. f x = Inr y)"
  unfolding rseq_Inr_iff by (induction xs) (auto simp: Cons_eq_map_conv)

lemma normalize_ok_iff: "(\<exists>j. normalize_value v = Inr j) \<longleftrightarrow> native v"
proof (induction v)
  case (VList vs)
  have "(\<exists>j. normalize_value (VList vs) = Inr j) \<longleftrightarrow> (\<exists>js. rseq (map normalize_value vs) = Inr js)"
    by (auto simp: rbind_Inr_iff normalize_list_map)
  also have "\<dots> \<longleftrightarrow> (\<forall>v \<in> set vs. \<exists>j. normalize_value v = Inr j)" by (rule rseq_map_ok)
  finally show ?case using VList by simp
next
  case (VDict kvs)
  show ?case
  proof (cases "\<exists>kv \<in> set kvs. str_key (fst kv) = None")
    case True
    then show ?thesis by force
  next
    case False
    have "(\<exists>j. normalize_value (VDict kvs) = Inr j) \<longleftrightarrow>
        (\<forall>kr \<in> set (normalize_items kvs). \<exists>y. (case kr of (k, r) \<Rightarrow> rbind r (\<lambda>v. Inr (k, v))) = Inr y)"
      using False rseq_map_ok [of "\<lambda>(k, r). rbind r (\<lambda>v. Inr (k, v))" "sort_key fst (normalize_items kvs)"]
      by (auto simp: rbind_Inr_iff)
    also have "\<dots> \<longleftrightarrow> (\<forall>(k, v) \<in> set kvs. \<exists>j. normalize_value v = Inr j)"
      by (auto simp: normalize_items_map rbind_Inr_iff split: prod.splits)
    also have "\<dots> \<longleftrightarrow> native (VDict kvs)"
      using VDict False by fastforce
    finally show ?thesis .
  qed
qed auto

section \<open>The bytes are the content\<close>

text \<open>The content of a JSON-native value; an object is the map from its keys.\<close>

fun vcontent :: "pyval \<Rightarrow> content" and vcontent_list :: "pyval list \<Rightarrow> content list"
  and vcontent_items :: "(pyval \<times> pyval) list \<Rightarrow> (string \<times> content) list" where
  "vcontent (VBool b) = CBool b"
| "vcontent (VInt i) = CInt i"
| "vcontent (VFloat x) = CFloat x"
| "vcontent (VStr s) = CStr s"
| "vcontent (VStrEnum s) = CStr s"
| "vcontent (VList vs) = CArr (vcontent_list vs)"
| "vcontent (VDict kvs) = CObj (map_of (vcontent_items kvs))"
| "vcontent _ = CNull"
| "vcontent_list [] = []"
| "vcontent_list (v # vs) = vcontent v # vcontent_list vs"
| "vcontent_items [] = []"
| "vcontent_items ((k, v) # kvs) = (the (str_key k), vcontent v) # vcontent_items kvs"

lemma vcontent_list_map: "vcontent_list vs = map vcontent vs"
  by (induction vs) auto

lemma vcontent_items_map: "vcontent_items kvs = map (\<lambda>(k, v). (the (str_key k), vcontent v)) kvs"
  by (induction kvs) auto

lemma sort_key_map_comm: "sort_key f (map g xs) = map g (sort_key (f \<circ> g) xs)"
proof (induction xs)
  case (Cons x xs)
  have "insort_key f (g x) (map g ys) = map g (insort_key (f \<circ> g) x ys)" for ys
    by (induction ys) auto
  with Cons show ?case by (simp add: comp_def)
qed simp

lemma normalize_dict_form:
  assumes "normalize_value (VDict kvs) = Inr j"
  shows "j = JObj (sort_key fst (map (\<lambda>(k, v). (the (str_key k), projr (normalize_value v))) kvs))"
    and "\<forall>(k, v) \<in> set kvs. str_key k \<noteq> None \<and> normalize_value v = Inr (projr (normalize_value v))"
proof -
  define h where "h = (\<lambda>(k :: pyval, v). (the (str_key k), normalize_value v))"
  define xs where "xs = sort_key (fst \<circ> h) kvs"
  from assms have keys: "\<forall>(k, v) \<in> set kvs. str_key k \<noteq> None"
    by (auto split: if_splits)
  have "sort_key fst (normalize_items kvs) = map h xs"
    by (simp add: normalize_items_map xs_def h_def sort_key_map_comm)
  with assms obtain items where j: "j = JObj items"
    and items: "map (\<lambda>(k, r). rbind r (\<lambda>v. Inr (k, v))) (map h xs) = map Inr items"
    by (auto simp: rbind_Inr_iff rseq_Inr_iff split: if_splits)
  have ok: "normalize_value v = Inr (projr (normalize_value v))" if "(k, v) \<in> set xs" for k v
  proof -
    have "(case h (k, v) of (k, r) \<Rightarrow> rbind r (\<lambda>v. Inr (k, v))) \<in> set (map Inr items)"
      unfolding items [symmetric] using that by force
    then show ?thesis by (auto simp: h_def rbind_Inr_iff)
  qed
  then show "\<forall>(k, v) \<in> set kvs. str_key k \<noteq> None \<and> normalize_value v = Inr (projr (normalize_value v))"
    using keys by (auto simp: xs_def)
  have "(case h x of (k, r) \<Rightarrow> rbind r (\<lambda>v. Inr (k, v)))
      = (Inr (case x of (k, v) \<Rightarrow> (the (str_key k), projr (normalize_value v))) :: (string \<times> json) py_result)"
    if "x \<in> set xs" for x
    using ok [of "fst x" "snd x"] that by (cases x) (metis (mono_tags, lifting) case_prod_conv fst_conv h_def rbind.simps(2) snd_conv)
  then have "map (\<lambda>(k, r). rbind r (\<lambda>v. Inr (k, v))) (map h xs)
      = (map Inr (map (\<lambda>(k, v). (the (str_key k), projr (normalize_value v))) xs) :: (string \<times> json) py_result list)"
    unfolding map_map by (intro map_cong) (simp_all only: comp_apply)
  then have "map Inr items
      = (map Inr (map (\<lambda>(k, v). (the (str_key k), projr (normalize_value v))) xs) :: (string \<times> json) py_result list)"
    by (simp only: items)
  then have "items = map (\<lambda>(k, v). (the (str_key k), projr (normalize_value v))) xs"
    by (simp only: inj_map_eq_map [OF inj_Inr])
  also have "\<dots> = sort_key fst (map (\<lambda>(k, v). (the (str_key k), projr (normalize_value v))) kvs)"
    by (simp add: sort_key_map_comm xs_def h_def comp_def case_prod_beta)
  finally show "j = JObj (sort_key fst (map (\<lambda>(k, v). (the (str_key k), projr (normalize_value v))) kvs))"
    using j by simp
qed

lemma normalize_list_form:
  assumes "normalize_value (VList vs) = Inr j"
  obtains js where "j = JArr js" "map normalize_value vs = map Inr js"
  using assms by (auto simp: rbind_Inr_iff rseq_Inr_iff normalize_list_map)

lemma normalize_finite: "normalize_value v = Inr j \<Longrightarrow> json_finite j"
proof (induction v arbitrary: j)
  case (VList vs)
  from normalize_list_form [OF VList.prems] obtain js
    where js: "j = JArr js" "map normalize_value vs = map Inr js" .
  have "json_finite x" if "x \<in> set js" for x
  proof -
    have "Inr x \<in> set (map normalize_value vs)" unfolding js(2) using that by simp
    then show ?thesis using VList.IH by auto
  qed
  then show ?case by (simp add: js(1) json_finite_list_all list_all_iff)
next
  case (VDict kvs)
  have "json_finite (projr (normalize_value v))" if "(k, v) \<in> set kvs" for k v
    using VDict.IH [OF that, of v] normalize_dict_form(2) [OF VDict.prems] that by auto
  then show ?case
    unfolding normalize_dict_form(1) [OF VDict.prems] by (auto simp: json_finite_items_all list_all_iff)
qed (auto split: if_splits)

lemma normalize_content:
  "normalize_value v = Inr j \<Longrightarrow> keys_wf v \<Longrightarrow> json_wf j \<and> jcontent j = vcontent v"
proof (induction v arbitrary: j)
  case (VList vs)
  from normalize_list_form [OF VList.prems(1)] obtain js
    where js: "j = JArr js" "map normalize_value vs = map Inr js" .
  have len: "length vs = length js" using map_eq_imp_length_eq [OF js(2)] .
  have "json_wf (js ! i) \<and> jcontent (js ! i) = vcontent (vs ! i)" if "i < length js" for i
  proof -
    have "normalize_value (vs ! i) = Inr (js ! i)"
      using that len arg_cong [OF js(2), of "\<lambda>l. l ! i"] by simp
    then show ?thesis using VList.IH [of "vs ! i"] VList.prems(2) that len by simp
  qed
  then have "list_all json_wf js" "map jcontent js = map vcontent vs"
    using len by (auto simp: list_all_length list_eq_iff_nth_eq)
  then show ?case using js(1) by (simp add: json_wf_list_all jcontent_list_map vcontent_list_map)
next
  case (VDict kvs)
  note form = normalize_dict_form [OF VDict.prems(1)]
  define items where "items = map (\<lambda>(k, v). (the (str_key k), projr (normalize_value v))) kvs"
  have ih: "json_wf (projr (normalize_value v)) \<and> jcontent (projr (normalize_value v)) = vcontent v"
    if "(k, v) \<in> set kvs" for k v
  proof -
    have "normalize_value v = Inr (projr (normalize_value v))" "keys_wf v"
      using form(2) VDict.prems(2) that by auto
    then show ?thesis using VDict.IH [OF that, of v "projr (normalize_value v)"] by simp
  qed
  have keys: "map fst items = map the (map (str_key \<circ> fst) kvs)"
    by (auto simp: items_def)
  have "inj_on the (set (map (str_key \<circ> fst) kvs))"
  proof -
    have "x \<noteq> None" if "x \<in> set (map (str_key \<circ> fst) kvs)" for x
      using form(2) that by auto
    then show ?thesis by (intro inj_onI option.expand) blast+
  qed
  then have wf: "dict_wf items"
    unfolding keys distinct_map [of the] using VDict.prems(2) by simp
  have "map (\<lambda>(k, v). (k, jcontent v)) items = vcontent_items kvs"
    using ih by (auto simp: items_def vcontent_items_map)
  then have "map_of (map (\<lambda>(k, v). (k, jcontent v)) (sort_key fst items)) = map_of (vcontent_items kvs)"
    by (metis map_of_map map_of_sort_key_fst [OF wf])
  moreover have "json_wf_items (sort_key fst items)"
    using ih by (auto simp: json_wf_items_all list_all_iff items_def)
  ultimately show ?case unfolding form(1) items_def [symmetric]
    using wf by (simp add: jcontent_items_map dict_wf_sort)
qed (auto split: if_splits)

lemma strip_entry_key [simp]: "fst (strip_entry kv) = fst kv"
  by (auto simp: strip_entry_def split: prod.splits pyval.splits)

lemma keys_wf_strip: "keys_wf (VDict pack) \<Longrightarrow> keys_wf (VDict (strip_volatile pack))"
proof -
  assume wf: "keys_wf (VDict pack)"
  have "keys_wf (snd (strip_entry kv))" if "keys_wf (snd kv)" for kv
    using that by (auto simp: strip_entry_def distinct_map_filter split: prod.splits pyval.splits)
  then show ?thesis using wf
    by (fastforce simp: strip_volatile_def o_def case_prod_beta)
qed

lemma canonical_bytes_ok_iff:
  "(\<exists>bs. canonical_bytes fr pack = Inr bs) \<longleftrightarrow> native (VDict (strip_volatile pack))"
  using normalize_ok_iff [of "VDict (strip_volatile pack)"]
  by (auto simp: canonical_bytes_def rbind_Inr_iff)

lemma canonical_bytes_eq_iff:
  assumes fr: "float_repr_ok fr" and wf: "keys_wf (VDict p)" "keys_wf (VDict q)"
    and ok: "canonical_bytes fr p = Inr bs" "canonical_bytes fr q = Inr bs'"
  shows "bs = bs' \<longleftrightarrow> vcontent (VDict (strip_volatile p)) = vcontent (VDict (strip_volatile q))"
proof -
  from ok obtain j j' where j: "normalize_value (VDict (strip_volatile p)) = Inr j"
      "normalize_value (VDict (strip_volatile q)) = Inr j'"
      "bs = utf8_encode (dumps_sorted fr False j)" "bs' = utf8_encode (dumps_sorted fr False j')"
    by (auto simp: canonical_bytes_def rbind_Inr_iff)
  note c = normalize_content [OF j(1) keys_wf_strip [OF wf(1)]]
    normalize_content [OF j(2) keys_wf_strip [OF wf(2)]]
  show ?thesis using c j(3,4) normalize_finite [OF j(1)] normalize_finite [OF j(2)]
    by (simp add: utf8_encode_inj dumps_sorted_eq_iff [OF fr] jsort_eq_iff del: vcontent.simps)
qed

section \<open>Properties\<close>

text \<open>C18: canonical identity. A pack has canonical bytes exactly when, outside the volatile integrity
  fields, it is JSON-native (string keys, lists only, finite floats); and two packs then have the same
  canonical bytes exactly when they have the same content outside those fields, whatever the order of
  their keys.\<close>

theorem canonical_bytes_identity:
  assumes "float_repr_ok fr" and "keys_wf (VDict p)" and "keys_wf (VDict q)"
  shows "((\<exists>bs. canonical_bytes fr p = Inr bs) \<longleftrightarrow> native (VDict (strip_volatile p)))
    \<and> (\<forall>bs bs'. canonical_bytes fr p = Inr bs \<longrightarrow> canonical_bytes fr q = Inr bs' \<longrightarrow>
          (bs = bs' \<longleftrightarrow> vcontent (VDict (strip_volatile p)) = vcontent (VDict (strip_volatile q))))"
  using canonical_bytes_ok_iff canonical_bytes_eq_iff [OF assms] by (simp del: vcontent.simps native.simps)

definition sample_pack :: "string \<Rightarrow> (pyval \<times> pyval) list" where
  "sample_pack sig =
     [(VStr ''rules'', VList [VDict [(VStr ''id'', VStr ''r1''), (VStr ''min'', VInt 2)]]),
      (VStr ''manifest'', VDict [(VStr ''id'', VStr ''p''), (VStr ''sha256'', VStr sig)])]"

definition sample_pack_reordered :: "(pyval \<times> pyval) list" where
  "sample_pack_reordered =
     [(VStr ''manifest'', VDict [(VStr ''signature'', VObj ''s''), (VStr ''id'', VStr ''p'')]),
      (VStr ''rules'', VList [VDict [(VStr ''min'', VInt 2), (VStr ''id'', VStr ''r1'')]])]"

theorem canonical_bytes_identity_witness:
  "(\<exists>bs. canonical_bytes sample_repr (sample_pack ''x'') = Inr bs)
   \<and> canonical_bytes sample_repr (sample_pack ''x'') = canonical_bytes sample_repr sample_pack_reordered"
proof -
  have wf: "keys_wf (VDict (sample_pack ''x''))" "keys_wf (VDict sample_pack_reordered)"
    by (simp_all add: sample_pack_def sample_pack_reordered_def)
  have nat: "native (VDict (strip_volatile (sample_pack ''x'')))"
      "native (VDict (strip_volatile sample_pack_reordered))"
    by (simp_all add: sample_pack_def sample_pack_reordered_def strip_volatile_def strip_entry_def
        is_volatile_def EXCLUDED_MANIFEST_FIELDS_def)
  obtain bs bs' where ok: "canonical_bytes sample_repr (sample_pack ''x'') = Inr bs"
      "canonical_bytes sample_repr sample_pack_reordered = Inr bs'"
    using canonical_bytes_identity [OF sample_repr_ok wf] canonical_bytes_identity [OF sample_repr_ok wf(2,1)]
      nat by blast
  have "vcontent (VDict (strip_volatile (sample_pack ''x''))) = vcontent (VDict (strip_volatile sample_pack_reordered))"
    by (simp add: sample_pack_def sample_pack_reordered_def strip_volatile_def strip_entry_def
        is_volatile_def EXCLUDED_MANIFEST_FIELDS_def fun_eq_iff)
  with canonical_bytes_identity [OF sample_repr_ok wf] ok show ?thesis by simp
qed

text \<open>re-publishing under the same version identity. If two packs have the same canonical digest,
  then they have the same content outside the volatile integrity fields, or their canonical bytes are
  an explicit collision of the hash function. Conversely the digest depends on that content only: it
  does not change when a pack is signed, re-signed or its keys are reordered.\<close>

theorem canonical_digest_identity:
  assumes "float_repr_ok fr" and "keys_wf (VDict p)" and "keys_wf (VDict q)"
    and "canonical_digest sha256 fr p = Inr d" and "canonical_digest sha256 fr q = Inr e"
  shows "d = e \<longleftrightarrow> vcontent (VDict (strip_volatile p)) = vcontent (VDict (strip_volatile q))
      \<or> (\<exists>bs bs'. canonical_bytes fr p = Inr bs \<and> canonical_bytes fr q = Inr bs' \<and> bs \<noteq> bs'
            \<and> sha256 bs = sha256 bs')"
  using assms(4,5) canonical_bytes_eq_iff [OF assms(1-3)]
  by (auto simp: canonical_digest_def rbind_Inr_iff simp del: vcontent.simps)

theorem canonical_digest_identity_witness:
  "canonical_digest bytes_hex sample_repr (sample_pack ''x'')
   = canonical_digest bytes_hex sample_repr (sample_pack ''other'')"
proof -
  have wf: "keys_wf (VDict (sample_pack s))" for s by (simp add: sample_pack_def)
  have nat: "native (VDict (strip_volatile (sample_pack s)))" for s
    by (simp add: sample_pack_def strip_volatile_def strip_entry_def is_volatile_def EXCLUDED_MANIFEST_FIELDS_def)
  obtain bs bs' where "canonical_bytes sample_repr (sample_pack ''x'') = Inr bs"
      "canonical_bytes sample_repr (sample_pack ''other'') = Inr bs'"
    using canonical_bytes_ok_iff nat by blast
  then have d: "canonical_digest bytes_hex sample_repr (sample_pack ''x'') = Inr (bytes_hex bs)"
      "canonical_digest bytes_hex sample_repr (sample_pack ''other'') = Inr (bytes_hex bs')"
    by (simp_all add: canonical_digest_def)
  have "strip_volatile (sample_pack ''x'') = strip_volatile (sample_pack ''other'')"
    by (simp add: sample_pack_def strip_volatile_def strip_entry_def is_volatile_def EXCLUDED_MANIFEST_FIELDS_def)
  with canonical_digest_identity [OF sample_repr_ok wf wf d] d show ?thesis by simp
qed

end
