(* ===== verification/Tenancy.thy ===== *)
theory Tenancy
  imports Contracts
begin

text \<open>
  \<open>api/app/tenancy.py\<close>: the partition keys that keep tenants apart, the tenancy configuration and
  the resolution of the one tenant a request acts within.
\<close>

section \<open>Partition keys\<close>

definition PARTITION_SEPARATOR :: char where
  "PARTITION_SEPARATOR = CHR ''.''"

definition partition_prefix :: "string \<Rightarrow> py_exc + string" where
  "partition_prefix tid =
     (if \<not> is_tenant_id_safe tid then Inl ValueError else Inr (str_hex tid @ [PARTITION_SEPARATOR]))"

definition tenant_partition_key :: "string \<Rightarrow> string \<Rightarrow> py_exc + string" where
  "tenant_partition_key tid workload = rbind (partition_prefix tid) (\<lambda>p. Inr (p @ workload))"

definition partition_belongs_to :: "string \<Rightarrow> string \<Rightarrow> py_exc + bool" where
  "partition_belongs_to key tid = rbind (partition_prefix tid) (\<lambda>p. Inr (prefix p key))"

definition split_partition_key :: "string \<Rightarrow> py_exc + string \<times> string" where
  "split_partition_key key =
     (case py_partition PARTITION_SEPARATOR key of
        (pre, sep, workload) \<Rightarrow>
          if \<not> sep then Inl ValueError
          else (case str_unhex pre of None \<Rightarrow> Inl ValueError | Some tid \<Rightarrow> Inr (tid, workload)))"

definition workload_of :: "string \<Rightarrow> string \<Rightarrow> py_exc + string option" where
  "workload_of key tid =
     rbind (partition_prefix tid) (\<lambda>p.
       if \<not> prefix p key then Inr None else Inr (Some (drop (length p) key)))"

lemma tenant_partition_key_safe:
  "is_tenant_id_safe tid \<Longrightarrow> tenant_partition_key tid w = Inr (str_hex tid @ CHR ''.'' # w)"
  by (simp add: tenant_partition_key_def partition_prefix_def PARTITION_SEPARATOR_def)

lemma tenant_partition_key_Inr:
  "tenant_partition_key tid w = Inr k \<longleftrightarrow> is_tenant_id_safe tid \<and> k = str_hex tid @ CHR ''.'' # w"
  by (auto simp: tenant_partition_key_def partition_prefix_def PARTITION_SEPARATOR_def)

lemma append_sep_eq: "(c :: char) \<notin> set xs \<Longrightarrow> c \<notin> set ys \<Longrightarrow> xs @ c # r = ys @ c # q \<longleftrightarrow> xs = ys \<and> r = q"
proof -
  assume "c \<notin> set xs" "c \<notin> set ys"
  then have "py_partition c (xs @ c # r) = (xs, True, r)" "py_partition c (ys @ c # q) = (ys, True, q)"
    by (simp_all add: py_partition_append)
  then show ?thesis by (metis prod.inject)
qed

lemma hex_key_inj: "str_hex a @ CHR ''.'' # v = str_hex b @ CHR ''.'' # w \<longleftrightarrow> a = b \<and> v = w"
  by (simp add: append_sep_eq str_hex_inj)

lemma prefix_hex_iff:
  "prefix (str_hex a @ [CHR ''.'']) (str_hex b @ CHR ''.'' # w) \<longleftrightarrow> a = b"
proof
  assume "prefix (str_hex a @ [CHR ''.'']) (str_hex b @ CHR ''.'' # w)"
  then obtain r where "str_hex b @ CHR ''.'' # w = str_hex a @ CHR ''.'' # r" by (auto simp: prefix_def)
  then show "a = b" by (simp add: hex_key_inj)
qed (auto simp: prefix_def)

text \<open>partition keys separate tenants. Keys of safe tenant ids exist, are injective in the tenant
  and the workload (whatever characters the workload has), split back into both, and are recognised,
  with their workload, as belonging to their tenant only.\<close>

theorem partition_keys_separate:
  assumes "tenant_partition_key a v = Inr k" and "tenant_partition_key b w = Inr l"
  shows "(k = l \<longleftrightarrow> a = b \<and> v = w)
    \<and> split_partition_key k = Inr (a, v)
    \<and> partition_belongs_to k b = Inr (a = b)
    \<and> workload_of k b = Inr (if a = b then Some v else None)"
proof -
  have k: "k = str_hex a @ CHR ''.'' # v" and b: "is_tenant_id_safe b" and l: "l = str_hex b @ CHR ''.'' # w"
    using assms by (simp_all add: tenant_partition_key_Inr)
  have "split_partition_key k = Inr (a, v)"
    by (simp add: k split_partition_key_def PARTITION_SEPARATOR_def py_partition_append)
  then show ?thesis
    using b by (simp add: k l hex_key_inj partition_belongs_to_def workload_of_def partition_prefix_def
        PARTITION_SEPARATOR_def prefix_hex_iff)
qed

theorem partition_keys_separate_witness:
  "\<exists>k l. tenant_partition_key ''contoso'' ''a.b'' = Inr k \<and> tenant_partition_key ''fabrikam'' ''a.b'' = Inr l \<and> k \<noteq> l"
proof -
  have safe: "is_tenant_id_safe ''contoso''" "is_tenant_id_safe ''fabrikam''"
    by (simp_all add: is_tenant_id_safe_def TENANT_ID_MAX_LEN_def TENANT_ID_ALLOWED_def)
  from partition_keys_separate [OF tenant_partition_key_safe [OF safe(1), of "''a.b''"]
      tenant_partition_key_safe [OF safe(2), of "''a.b''"]]
  show ?thesis using tenant_partition_key_safe [OF safe(1)] tenant_partition_key_safe [OF safe(2)] by auto
qed

section \<open>Configuration and resolution\<close>

datatype tenant_resolution_error =
    InvalidTenancyMode | InvalidConfiguredTenant | MultiModeRequiresAllowlist | InvalidAllowedTenant
  | SingleModeUnconfigured | TenantMismatch | TenantRequired | TenantNotAllowed

record tenancy_config =
  tcf_mode :: tenancy_mode
  tcf_default_tenant_id :: "string option"
  tcf_allowed_tenants :: "string list"

definition DEFAULT_TENANT_ID :: string where
  "DEFAULT_TENANT_ID = ''default''"

text \<open>\<open>cfg.get(x) or y\<close>: the value when it is set and not empty.\<close>

definition get_or :: "(string \<Rightarrow> string option) \<Rightarrow> string \<Rightarrow> string \<Rightarrow> string" where
  "get_or cfg x y = (case cfg x of Some v \<Rightarrow> if v = [] then y else v | None \<Rightarrow> y)"

fun tenancy_mode_value :: "tenancy_mode \<Rightarrow> string" where
  "tenancy_mode_value TM_single = ''single''"
| "tenancy_mode_value TM_multi = ''multi''"

definition tenancy_mode_of :: "string \<Rightarrow> tenancy_mode option" where
  "tenancy_mode_of s = find (\<lambda>m. tenancy_mode_value m = s) [TM_single, TM_multi]"

definition build_tenancy_config :: "(string \<Rightarrow> string option) \<Rightarrow> tenant_resolution_error + tenancy_config" where
  "build_tenancy_config cfg =
     (let raw_mode = py_lower (py_strip (get_or cfg ''WP_TENANCY_MODE'' []));
          mode = (if raw_mode = [] then Some TM_single else tenancy_mode_of raw_mode)
      in case mode of
           None \<Rightarrow> Inl InvalidTenancyMode
         | Some TM_single \<Rightarrow>
             (let configured = py_strip (get_or cfg ''WP_TENANT_ID'' (get_or cfg ''WP_AUTH_TENANT_ID'' []));
                  dflt = (if configured = [] then DEFAULT_TENANT_ID else configured)
              in if \<not> is_tenant_id_safe dflt then Inl InvalidConfiguredTenant
                 else Inr \<lparr>tcf_mode = TM_single, tcf_default_tenant_id = Some dflt,
                           tcf_allowed_tenants = [dflt]\<rparr>)
         | Some TM_multi \<Rightarrow>
             (let raw_allowed = py_strip (get_or cfg ''WP_ALLOWED_TENANTS'' []);
                  allowed = filter (\<lambda>p. p \<noteq> []) (map py_strip (py_split (CHR '','') raw_allowed))
              in if allowed = [] then Inl MultiModeRequiresAllowlist
                 else if \<not> list_all is_tenant_id_safe allowed then Inl InvalidAllowedTenant
                 else Inr \<lparr>tcf_mode = TM_multi, tcf_default_tenant_id = None, tcf_allowed_tenants = allowed\<rparr>))"

definition resolve_tenant ::
    "string option \<Rightarrow> tenancy_config \<Rightarrow> tenant_resolution_error + tenant_context" where
  "resolve_tenant claim config =
     (if tcf_mode config = TM_single then
        (case tcf_default_tenant_id config of
           None \<Rightarrow> Inl SingleModeUnconfigured
         | Some dflt \<Rightarrow>
             (if claim \<noteq> None \<and> claim \<noteq> Some dflt then Inl TenantMismatch
              else Inr \<lparr>tc_tenant_id = dflt, tc_mode = TM_single\<rparr>))
      else
        (case claim of
           None \<Rightarrow> Inl TenantRequired
         | Some c \<Rightarrow>
             (if c \<notin> set (tcf_allowed_tenants config) then Inl TenantNotAllowed
              else Inr \<lparr>tc_tenant_id = c, tc_mode = TM_multi\<rparr>)))"

text \<open>The two shapes of a configuration the environment yields.\<close>

lemma built_config_cases:
  assumes "build_tenancy_config env = Inr cfg"
  obtains d where "cfg = \<lparr>tcf_mode = TM_single, tcf_default_tenant_id = Some d, tcf_allowed_tenants = [d]\<rparr>"
      "is_tenant_id_safe d"
    | ts where "cfg = \<lparr>tcf_mode = TM_multi, tcf_default_tenant_id = None, tcf_allowed_tenants = ts\<rparr>"
      "list_all is_tenant_id_safe ts"
  using assms by (auto simp: build_tenancy_config_def Let_def split: option.splits tenancy_mode.splits if_splits)

text \<open>C19: tenant resolution is closed. Under any configuration the environment yields, a request
  resolves exactly when it may: in single mode when it claims no tenant or the configured one, in multi
  mode when it claims a tenant of the allowlist; it then acts within the claimed tenant (in single mode,
  the configured one), which is allowed and has a storage-safe id.\<close>

theorem tenant_resolution_closed:
  assumes "build_tenancy_config env = Inr cfg"
  shows "(\<exists>ctx. resolve_tenant claim cfg = Inr ctx \<and> is_tenant_id_safe (tc_tenant_id ctx)
            \<and> tc_tenant_id ctx \<in> set (tcf_allowed_tenants cfg) \<and> tc_mode ctx = tcf_mode cfg
            \<and> (case claim of None \<Rightarrow> tcf_default_tenant_id cfg = Some (tc_tenant_id ctx)
               | Some c \<Rightarrow> tc_tenant_id ctx = c))
         = (case claim of None \<Rightarrow> tcf_mode cfg = TM_single | Some c \<Rightarrow> c \<in> set (tcf_allowed_tenants cfg))
     \<and> (resolve_tenant claim cfg = Inr ctx \<longrightarrow>
          (case claim of None \<Rightarrow> tcf_mode cfg = TM_single | Some c \<Rightarrow> c \<in> set (tcf_allowed_tenants cfg)))"
proof -
  show ?thesis
    using assms by (cases rule: built_config_cases) (auto simp: resolve_tenant_def list_all_iff split: option.splits if_splits)
qed

theorem tenant_resolution_closed_witness:
  "\<exists>cfg. build_tenancy_config (\<lambda>_. None) = Inr cfg
     \<and> resolve_tenant (Some ''other'') cfg = Inl TenantMismatch
     \<and> (\<exists>ctx. resolve_tenant None cfg = Inr ctx \<and> is_tenant_id_safe (tc_tenant_id ctx))"
proof -
  let ?cfg = "\<lparr>tcf_mode = TM_single, tcf_default_tenant_id = Some ''default'', tcf_allowed_tenants = [''default'']\<rparr>"
  have cfg: "build_tenancy_config (\<lambda>_. None) = Inr ?cfg"
    by (simp add: build_tenancy_config_def get_or_def DEFAULT_TENANT_ID_def is_tenant_id_safe_def
        TENANT_ID_MAX_LEN_def TENANT_ID_ALLOWED_def py_lower_def Let_def)
  show ?thesis using tenant_resolution_closed [OF cfg, of None] cfg by (auto simp: resolve_tenant_def)
qed

end
