(* ===== verification/Provenance.thy ===== *)
theory Provenance
  imports Contracts
begin

text \<open>
  \<open>shared/provenance.py\<close>: no finding is emitted or persisted without attributable evidence, and
  the validator of \<open>Finding\<close> is run again at the persistence boundary.
\<close>

definition reference_is_attributable :: "source_reference \<Rightarrow> bool" where
  "reference_is_attributable ref \<longleftrightarrow>
     py_strip (sr_id ref) \<noteq> [] \<and> py_strip (sr_kind ref) \<in> set SOURCE_REFERENCE_KINDS"

definition finding_has_provenance :: "finding \<Rightarrow> bool" where
  "finding_has_provenance f \<longleftrightarrow> list_ex reference_is_attributable (fd_evidence f)"

text \<open>\<open>ProvenanceError\<close> carries the id and the module of the first finding without evidence.\<close>

datatype provenance_error = ProvenanceError string string

fun enforce_finding_provenance :: "finding list \<Rightarrow> provenance_error + unit" where
  "enforce_finding_provenance [] = Inr ()"
| "enforce_finding_provenance (f # fs) =
     (if \<not> finding_has_provenance f then Inl (ProvenanceError (fd_id f) (fd_module f))
      else enforce_finding_provenance fs)"

fun revalidate_finding_provenance :: "finding list \<Rightarrow> finding_error + unit" where
  "revalidate_finding_provenance [] = Inr ()"
| "revalidate_finding_provenance (f # fs) =
     rbind (enforce_provenance f) (\<lambda>_. revalidate_finding_provenance fs)"

text \<open>What a finding needs to be persisted.\<close>

definition storable :: "finding \<Rightarrow> bool" where
  "storable f \<longleftrightarrow> finding_has_provenance f \<and> provenance_complete f"

lemma enforce_finding_provenance_iff:
  "enforce_finding_provenance fs = Inr () \<longleftrightarrow> (\<forall>f \<in> set fs. finding_has_provenance f)"
  by (induction fs) auto

lemma revalidate_iff: "revalidate_finding_provenance fs = Inr () \<longleftrightarrow> (\<forall>f \<in> set fs. provenance_complete f)"
  using enforce_provenance_iff enforce_provenance_same
  by (induction fs) (auto simp: rbind_Inr_iff)

end
