(* ===== verification/State_Interface.thy ===== *)
theory State_Interface
  imports Provenance
begin

text \<open>
  The \<open>StateStore\<close> protocol of \<open>shared/state.py\<close>: its write operations as a datatype, what its
  reads show for one key as a record, and the contract every backend keeps as a locale. The clients
  of the store (the tenant facade, the API) are verified against the contract; the backends
  interpret it.
\<close>

section \<open>Operations and outcomes\<close>

text \<open>A key is the string an operation addresses: the \<open>workload\<close> of estates, graphs, findings,
  snapshots, advisories and assignments, the \<open>scope\<close> of imported packs and module configurations.\<close>

datatype write_op =
    PutEstate string "resource_node list"
  | PutGraph string workload_graph
  | AddFindings string "finding list"
  | CommitRun string module_run_result
  | Snapshot string
  | PutAssignment pack_assignment
  | PutImported imported_pack
  | TryRecordImported imported_pack
  | PutModuleConfig tenant_module_config
  | AppendAudit audit_event

fun op_key :: "write_op \<Rightarrow> string option" where
  "op_key (PutEstate w _) = Some w"
| "op_key (PutGraph w _) = Some w"
| "op_key (AddFindings w _) = Some w"
| "op_key (CommitRun w _) = Some w"
| "op_key (Snapshot w) = Some w"
| "op_key (PutAssignment a) = Some (pa_workload a)"
| "op_key (PutImported p) = Some (ip_scope p)"
| "op_key (TryRecordImported p) = Some (ip_scope p)"
| "op_key (PutModuleConfig c) = Some (mc_scope c)"
| "op_key (AppendAudit _) = None"

datatype state_exc =
    Unprovenanced provenance_error | InvalidFinding finding_error | IntegrityError
  | ImportConflict | ContentionError | ResourceExists | ResourceNotFound

datatype write_outcome =
    Done | Counts nat nat nat | SnapshotId string | Recorded imported_pack | Failed state_exc

text \<open>What the reads return for one key.\<close>

record store_view =
  sv_known :: bool
  sv_estate :: "resource_node list"
  sv_graph :: "workload_graph option"
  sv_findings :: "finding_error + finding list"
  sv_previous_findings :: "finding_error + finding list"
  sv_previous_nodes :: "string list"
  sv_advisories :: "rca_advisory list"
  sv_assignments :: "pack_assignment list"
  sv_imports :: "imported_pack list"
  sv_config :: "tenant_module_config option"

section \<open>The contract\<close>

text \<open>
  An operation on one key leaves every other key's view as it is, and what it does to its own key
  depends on that key's view only; so does its outcome, the snapshot id apart (a backend may number
  snapshots across keys). The listings agree with the views.
\<close>

locale state_store =
  fixes store_inv :: "'s \<Rightarrow> bool"
    and perform :: "write_op \<Rightarrow> 's \<Rightarrow> write_outcome \<times> 's"
    and view :: "'s \<Rightarrow> string \<Rightarrow> store_view"
    and workloads :: "'s \<Rightarrow> string list"
    and assignments :: "'s \<Rightarrow> pack_assignment list"
  assumes inv_write: "store_inv s \<Longrightarrow> store_inv (snd (perform op s))"
    and frame: "store_inv s \<Longrightarrow> op_key op \<noteq> Some k \<Longrightarrow> view (snd (perform op s)) k = view s k"
    and own: "store_inv s \<Longrightarrow> store_inv t \<Longrightarrow> op_key op = Some k \<Longrightarrow> view s k = view t k \<Longrightarrow>
      view (snd (perform op s)) k = view (snd (perform op t)) k"
    and outcome: "store_inv s \<Longrightarrow> store_inv t \<Longrightarrow> op_key op = Some k \<Longrightarrow> view s k = view t k \<Longrightarrow>
      (\<forall>w. op \<noteq> Snapshot w) \<Longrightarrow> fst (perform op s) = fst (perform op t)"
    and failed: "store_inv s \<Longrightarrow> fst (perform op s) = Failed e \<Longrightarrow> view (snd (perform op s)) k = view s k"
    and workloads_view: "store_inv s \<Longrightarrow> k \<in> set (workloads s) \<longleftrightarrow> sv_known (view s k)"
    and assignments_view: "store_inv s \<Longrightarrow>
      filter (\<lambda>a. pa_workload a = k) (assignments s) = sv_assignments (view s k)"
begin

text \<open>A run of operations.\<close>

definition run :: "write_op list \<Rightarrow> 's \<Rightarrow> 's" where
  "run ops s = foldl (\<lambda>s op. snd (perform op s)) s ops"

lemma run_simps [simp]: "run [] s = s" "run (op # ops) s = run ops (snd (perform op s))"
  by (simp_all add: run_def)

lemma inv_run: "store_inv s \<Longrightarrow> store_inv (run ops s)"
  by (induction ops arbitrary: s) (auto intro: inv_write)

text \<open>The view of a set of keys after a run is the view after the operations on those keys alone.\<close>

lemma run_noninterference:
  assumes "store_inv s" "store_inv t" and "\<And>k. k \<in> K \<Longrightarrow> view s k = view t k" and "k \<in> K"
  shows "view (run ops s) k = view (run (filter (\<lambda>op. \<exists>k \<in> K. op_key op = Some k) ops) t) k"
  using assms(1-3)
proof (induction ops arbitrary: s t)
  case Nil
  then show ?case using assms(4) by simp
next
  case (Cons op ops)
  show ?case
  proof (cases "\<exists>k \<in> K. op_key op = Some k")
    case True
    have "view (snd (perform op s)) j = view (snd (perform op t)) j" if "j \<in> K" for j
    proof (cases "op_key op = Some j")
      case True
      then show ?thesis using own Cons.prems that by blast
    next
      case False
      then show ?thesis using frame Cons.prems that by metis
    qed
    then show ?thesis using True Cons.IH [of "snd (perform op s)" "snd (perform op t)"] Cons.prems inv_write
      by simp
  next
    case False
    then have "view (snd (perform op s)) j = view t j" if "j \<in> K" for j
      using frame [of s op j] Cons.prems that by metis
    then show ?thesis using False Cons.IH [of "snd (perform op s)" t] Cons.prems inv_write by simp
  qed
qed

end

end
