(* ===== verification/Audit_Trail.thy ===== *)
theory Audit_Trail
  imports Contracts Json_Text
begin

text \<open>
  \<open>shared/audit.py\<close> and \<open>AuditEvent\<close> of \<open>shared/contracts.py\<close>: the canonical bytes of an audit
  event, the hash chain that links the persisted events, its verification on read, the resolution of
  the actor and the emitter with its fail-closed policy.

  Parameters: the hash (\<open>sha256\<close>, the hexadecimal digest of the bytes given to the hash object), the
  ISO-8601 text of a time stamp (\<open>ts\<close>) and the Unicode database of \<open>is_audit_safe\<close>.
\<close>

section \<open>The identity of an event\<close>

fun json_opt :: "string option \<Rightarrow> json" where
  "json_opt None = JNull"
| "json_opt (Some s) = JStr s"

text \<open>\<open>model_dump(mode="json", exclude={"prevHash", "entryHash"})\<close>: the fields in declaration order.\<close>

definition event_json :: "(int \<Rightarrow> string) \<Rightarrow> audit_event \<Rightarrow> (string \<times> json) list" where
  "event_json ts e =
     [(''id'', JStr (ae_id e)), (''actor'', JStr (ae_actor e)),
      (''action'', JStr (audit_action_value (ae_action e))), (''subject'', JStr (ae_subject e)),
      (''packId'', json_opt (ae_packId e)), (''packVersion'', json_opt (ae_packVersion e)),
      (''result'', JStr (audit_result_value (ae_result e))),
      (''recordedAt'', JStr (ts (ae_recordedAt e)))]"

definition event_text :: "(int \<Rightarrow> string) \<Rightarrow> audit_event \<Rightarrow> string" where
  "event_text ts e = dumps_sorted sample_repr True (JObj (event_json ts e))"

definition event_bytes :: "(int \<Rightarrow> string) \<Rightarrow> audit_event \<Rightarrow> nat list" where
  "event_bytes ts e = utf8_encode (event_text ts e)"

text \<open>Two events are the same record when all fields but the chain hashes agree, the time up to its
  text.\<close>

definition same_event :: "(int \<Rightarrow> string) \<Rightarrow> audit_event \<Rightarrow> audit_event \<Rightarrow> bool" where
  "same_event ts a b \<longleftrightarrow>
     ae_id a = ae_id b \<and> ae_actor a = ae_actor b \<and> ae_action a = ae_action b
     \<and> ae_subject a = ae_subject b \<and> ae_packId a = ae_packId b \<and> ae_packVersion a = ae_packVersion b
     \<and> ae_result a = ae_result b \<and> ts (ae_recordedAt a) = ts (ae_recordedAt b)"

lemma json_opt_inj: "json_opt a = json_opt b \<longleftrightarrow> a = b"
  by (cases a; cases b) auto

lemma event_json_eq_iff: "jsort (JObj (event_json ts a)) = jsort (JObj (event_json ts b)) \<longleftrightarrow> same_event ts a b"
proof -
  have opt: "jcontent (json_opt x) = jcontent (json_opt y) \<longleftrightarrow> x = y" for x y
    by (cases x; cases y) auto
  have wf: "json_wf (JObj (event_json ts e))" for e
    by (cases "ae_packId e"; cases "ae_packVersion e") (simp_all add: event_json_def)
  have "map_of (jcontent_items (event_json ts a)) = map_of (jcontent_items (event_json ts b))
      \<longleftrightarrow> set (jcontent_items (event_json ts a)) = set (jcontent_items (event_json ts b))"
    by (rule map_of_inject_set) (simp_all add: event_json_def)
  also have "\<dots> \<longleftrightarrow> same_event ts a b"
  proof
    assume eq: "set (jcontent_items (event_json ts a)) = set (jcontent_items (event_json ts b))"
    have "x \<in> set (jcontent_items (event_json ts b))" if "x \<in> set (jcontent_items (event_json ts a))" for x
      using that eq by simp
    from this [of "(''id'', CStr (ae_id a))"] this [of "(''actor'', CStr (ae_actor a))"]
      this [of "(''action'', CStr (audit_action_value (ae_action a)))"]
      this [of "(''subject'', CStr (ae_subject a))"]
      this [of "(''packId'', jcontent (json_opt (ae_packId a)))"]
      this [of "(''packVersion'', jcontent (json_opt (ae_packVersion a)))"]
      this [of "(''result'', CStr (audit_result_value (ae_result a)))"]
      this [of "(''recordedAt'', CStr (ts (ae_recordedAt a)))"]
    show "same_event ts a b"
      by (simp add: event_json_def same_event_def opt audit_action_value_inj audit_result_value_inj)
  next
    assume "same_event ts a b"
    then have "event_json ts a = event_json ts b" by (simp add: event_json_def same_event_def)
    then show "set (jcontent_items (event_json ts a)) = set (jcontent_items (event_json ts b))" by simp
  qed
  finally show ?thesis using jsort_eq_iff [OF wf wf] by simp
qed

section \<open>The hash chain\<close>

definition GENESIS_HASH :: string where
  "GENESIS_HASH = replicate 64 (CHR ''0'')"

text \<open>\<open>compute_entry_hash\<close>: the two \<open>digest.update\<close> calls hash the concatenation.\<close>

definition entry_input :: "(int \<Rightarrow> string) \<Rightarrow> audit_event \<Rightarrow> string \<Rightarrow> nat list" where
  "entry_input ts e prev = event_bytes ts e @ utf8_encode prev"

definition compute_entry_hash ::
    "(nat list \<Rightarrow> string) \<Rightarrow> (int \<Rightarrow> string) \<Rightarrow> audit_event \<Rightarrow> string \<Rightarrow> string" where
  "compute_entry_hash sha256 ts e prev = sha256 (entry_input ts e prev)"

definition chain_event ::
    "(nat list \<Rightarrow> string) \<Rightarrow> (int \<Rightarrow> string) \<Rightarrow> audit_event \<Rightarrow> string \<Rightarrow> audit_event" where
  "chain_event sha256 ts e prev =
     e\<lparr>ae_prevHash := Some prev, ae_entryHash := Some (compute_entry_hash sha256 ts e prev)\<rparr>"

text \<open>\<open>verify_audit_chain\<close>: the loop over the events with its index and running hash.\<close>

fun verify_loop ::
    "(nat list \<Rightarrow> string) \<Rightarrow> (int \<Rightarrow> string) \<Rightarrow> nat \<Rightarrow> string \<Rightarrow> audit_event list \<Rightarrow> nat + string" where
  "verify_loop sha256 ts i prev [] = Inr prev"
| "verify_loop sha256 ts i prev (e # es) =
     (if ae_prevHash e \<noteq> Some prev then Inl i
      else if ae_entryHash e \<noteq> Some (compute_entry_hash sha256 ts e prev) then Inl i
      else verify_loop sha256 ts (Suc i)
             (case ae_entryHash e of Some h \<Rightarrow> h | None \<Rightarrow> []) es)"

definition verify_audit_chain ::
    "(nat list \<Rightarrow> string) \<Rightarrow> (int \<Rightarrow> string) \<Rightarrow> audit_event list \<Rightarrow> string option \<Rightarrow> string \<Rightarrow> nat option" where
  "verify_audit_chain sha256 ts es head genesis =
     (case verify_loop sha256 ts 0 genesis es of
        Inl i \<Rightarrow> Some i
      | Inr prev \<Rightarrow> (case head of None \<Rightarrow> None | Some h \<Rightarrow> if prev \<noteq> h then Some (length es) else None))"

text \<open>The chain that appending the events one after the other builds, and its last hash.\<close>

fun chain_from ::
    "(nat list \<Rightarrow> string) \<Rightarrow> (int \<Rightarrow> string) \<Rightarrow> string \<Rightarrow> audit_event list \<Rightarrow> audit_event list" where
  "chain_from sha256 ts prev [] = []"
| "chain_from sha256 ts prev (e # es) =
     (let c = chain_event sha256 ts e prev
      in c # chain_from sha256 ts (compute_entry_hash sha256 ts e prev) es)"

fun chain_head :: "(nat list \<Rightarrow> string) \<Rightarrow> (int \<Rightarrow> string) \<Rightarrow> string \<Rightarrow> audit_event list \<Rightarrow> string" where
  "chain_head sha256 ts prev [] = prev"
| "chain_head sha256 ts prev (e # es) = chain_head sha256 ts (compute_entry_hash sha256 ts e prev) es"

text \<open>The inputs of the hash along the chain.\<close>

fun chain_inputs :: "(nat list \<Rightarrow> string) \<Rightarrow> (int \<Rightarrow> string) \<Rightarrow> string \<Rightarrow> audit_event list \<Rightarrow> nat list list" where
  "chain_inputs sha256 ts prev [] = []"
| "chain_inputs sha256 ts prev (e # es) =
     entry_input ts e prev # chain_inputs sha256 ts (compute_entry_hash sha256 ts e prev) es"

lemma event_bytes_hashes [simp]:
  "event_bytes ts (e\<lparr>ae_prevHash := p, ae_entryHash := h\<rparr>) = event_bytes ts e"
  "event_bytes ts (chain_event sha256 ts' e q) = event_bytes ts e"
  by (simp_all add: event_bytes_def event_text_def event_json_def chain_event_def)

lemma compute_entry_hash_chain [simp]:
  "compute_entry_hash sha256 ts (chain_event sha256 ts' e q) p = compute_entry_hash sha256 ts e p"
  by (simp add: compute_entry_hash_def entry_input_def)

lemma chain_from_append:
  "chain_from sha256 ts p (es @ fs)
   = chain_from sha256 ts p es @ chain_from sha256 ts (chain_head sha256 ts p es) fs"
  by (induction es arbitrary: p) (simp_all add: Let_def)

lemma chain_head_append:
  "chain_head sha256 ts p (es @ fs) = chain_head sha256 ts (chain_head sha256 ts p es) fs"
  by (induction es arbitrary: p) simp_all

lemma chain_from_head [simp]: "chain_head sha256 ts p (chain_from sha256 ts p es) = chain_head sha256 ts p es"
  by (induction es arbitrary: p) (simp_all add: Let_def)

lemma chain_from_length [simp]: "length (chain_from sha256 ts p es) = length es"
  by (induction es arbitrary: p) (simp_all add: Let_def)

text \<open>The loop accepts exactly the chains that appending builds.\<close>

lemma verify_loop_ok_iff:
  "verify_loop sha256 ts i p es = Inr h \<longleftrightarrow> chain_from sha256 ts p es = es \<and> h = chain_head sha256 ts p es"
proof (induction es arbitrary: i p)
  case (Cons e es)
  have "chain_event sha256 ts e p = e \<longleftrightarrow>
      ae_prevHash e = Some p \<and> ae_entryHash e = Some (compute_entry_hash sha256 ts e p)"
    by (cases e) (auto simp: chain_event_def)
  with Cons show ?case by (auto simp: Let_def)
qed auto

lemma verify_loop_chain: "verify_loop sha256 ts i p (chain_from sha256 ts p es) = Inr (chain_head sha256 ts p es)"
  unfolding verify_loop_ok_iff
  by (induction es arbitrary: p) (simp_all add: Let_def, simp add: chain_event_def compute_entry_hash_def entry_input_def event_bytes_def event_text_def event_json_def)

lemma ex_less_Suc_split: "(\<exists>k < Suc n. P k) \<longleftrightarrow> P 0 \<or> (\<exists>k < n. P (Suc k))"
  by (metis gr0_implies_Suc gr_zeroI Suc_less_eq zero_less_Suc)

text \<open>The index reported is that of the first event that breaks the chain.\<close>

lemma verify_loop_index:
  "verify_loop sha256 ts i p es = Inl j \<longleftrightarrow>
     (\<exists>k < length es. j = i + k \<and> chain_from sha256 ts p (take k es) = take k es
        \<and> chain_event sha256 ts (es ! k) (chain_head sha256 ts p (take k es)) \<noteq> es ! k)"
proof (induction es arbitrary: i p)
  case (Cons e es)
  have ev: "chain_event sha256 ts e p = e \<longleftrightarrow>
      ae_prevHash e = Some p \<and> ae_entryHash e = Some (compute_entry_hash sha256 ts e p)"
    by (cases e) (auto simp: chain_event_def)
  show ?case
  proof (cases "chain_event sha256 ts e p = e")
    case True
    then have "verify_loop sha256 ts i p (e # es)
        = verify_loop sha256 ts (Suc i) (compute_entry_hash sha256 ts e p) es"
      using ev by simp
    then show ?thesis using Cons True
      by (simp only: length_Cons ex_less_Suc_split, simp add: Let_def)
  next
    case False
    then have "verify_loop sha256 ts i p (e # es) = Inl i" using ev by auto
    then show ?thesis using False
      by (simp only: length_Cons ex_less_Suc_split, auto simp: Let_def)
  qed
qed simp

section \<open>Tamper evidence\<close>

lemma event_json_finite: "json_finite (JObj (event_json ts e))"
  by (cases "ae_packId e"; cases "ae_packVersion e") (simp_all add: event_json_def)

text \<open>What is hashed determines the event and the previous hash: nothing separates the two parts, but
  the text of an event ends where it ends.\<close>

lemma entry_input_inj:
  "entry_input ts a p = entry_input ts b q \<longleftrightarrow> same_event ts a b \<and> p = q"
proof -
  have cat: "utf8_encode s @ utf8_encode t = utf8_encode (s @ t)" for s t
    by (simp add: utf8_encode_def)
  have "entry_input ts a p = entry_input ts b q \<longleftrightarrow> event_text ts a @ p = event_text ts b @ q"
    by (simp add: entry_input_def event_bytes_def cat utf8_encode_inj)
  also have "\<dots> \<longleftrightarrow> jsort (JObj (event_json ts a)) = jsort (JObj (event_json ts b)) \<and> p = q"
    (is "?l \<longleftrightarrow> ?r")
  proof
    assume ?l
    then have "dump sample_repr True (JObj (sort_key fst (jsort_items (event_json ts a)))) @ p
        = dump sample_repr True (JObj (sort_key fst (jsort_items (event_json ts b)))) @ q"
      by (simp only: event_text_def dumps_sorted_def jsort.simps)
    moreover have "json_finite (JObj (sort_key fst (jsort_items (event_json ts e))))" for e
      using event_json_finite [of ts e] jsort_finite(1) [of "JObj (event_json ts e)"] by (simp only: jsort.simps)
    ultimately have "sort_key fst (jsort_items (event_json ts a)) = sort_key fst (jsort_items (event_json ts b))
        \<and> p = q"
      by (intro dump_obj_prefix [OF sample_repr_ok])
    then show ?r by (simp only: jsort.simps)
  next
    assume ?r
    then show ?l by (simp only: event_text_def dumps_sorted_def)
  qed
  finally show ?thesis by (simp only: event_json_eq_iff)
qed

lemma same_event_refl [simp]: "same_event ts e e"
  by (simp add: same_event_def)

lemma chain_inputs_append:
  "chain_inputs sha256 ts p (es @ fs)
   = chain_inputs sha256 ts p es @ chain_inputs sha256 ts (chain_head sha256 ts p es) fs"
  by (induction es arbitrary: p) simp_all

text \<open>Two sequences of events with the same chain head are the same sequence, or there is a concrete
  weakness of the hash among the inputs hashed: two different inputs with the same hash, or an input
  whose hash is the genesis anchor.\<close>

lemma chain_head_determines:
  assumes "chain_head sha256 ts g es = chain_head sha256 ts g fs"
  shows "list_all2 (same_event ts) es fs
    \<or> (\<exists>x \<in> set (chain_inputs sha256 ts g es). \<exists>y \<in> set (chain_inputs sha256 ts g fs).
          x \<noteq> y \<and> sha256 x = sha256 y)
    \<or> (\<exists>x \<in> set (chain_inputs sha256 ts g es @ chain_inputs sha256 ts g fs). sha256 x = g)"
  using assms
proof (induction es arbitrary: fs rule: rev_induct)
  case Nil
  then show ?case
    by (cases fs rule: rev_cases) (auto simp: chain_head_append chain_inputs_append compute_entry_hash_def)
next
  case (snoc e es)
  show ?case
  proof (cases fs rule: rev_cases)
    case Nil
    then show ?thesis using snoc.prems
      by (auto simp: chain_head_append chain_inputs_append compute_entry_hash_def)
  next
    case (snoc fs' f)
    let ?x = "entry_input ts e (chain_head sha256 ts g es)"
    let ?y = "entry_input ts f (chain_head sha256 ts g fs')"
    have h: "sha256 ?x = sha256 ?y"
      using snoc.prems snoc by (simp add: chain_head_append compute_entry_hash_def)
    have mem: "?x \<in> set (chain_inputs sha256 ts g (es @ [e]))" "?y \<in> set (chain_inputs sha256 ts g fs)"
      using snoc by (simp_all add: chain_inputs_append)
    show ?thesis
    proof (cases "?x = ?y")
      case True
      then have same: "same_event ts e f" and heads: "chain_head sha256 ts g es = chain_head sha256 ts g fs'"
        by (auto simp: entry_input_inj)
      from snoc.IH [OF heads] show ?thesis
        using same snoc by (auto simp: chain_inputs_append list_all2_appendI)
    next
      case False
      with h mem show ?thesis by blast
    qed
  qed
qed

text \<open>C10: the audit chain is tamper evident. The verification accepts a stored sequence under a head
  exactly when it is the chain that appending its events builds and the head is its last hash; and two
  stored sequences accepted under the same head hold the same events in the same order, unless two
  different hashed inputs of theirs collide or one hashes to the genesis anchor.\<close>

theorem audit_chain_tamper_evident:
  "(verify_audit_chain sha256 ts es (Some head) g = None \<longleftrightarrow>
      chain_from sha256 ts g es = es \<and> chain_head sha256 ts g es = head)
   \<and> (verify_audit_chain sha256 ts es (Some head) g = None \<longrightarrow>
      verify_audit_chain sha256 ts fs (Some head) g = None \<longrightarrow>
      list_all2 (same_event ts) es fs
      \<or> (\<exists>x \<in> set (chain_inputs sha256 ts g es). \<exists>y \<in> set (chain_inputs sha256 ts g fs).
            x \<noteq> y \<and> sha256 x = sha256 y)
      \<or> (\<exists>x \<in> set (chain_inputs sha256 ts g es @ chain_inputs sha256 ts g fs). sha256 x = g))"
proof -
  have ok: "verify_audit_chain sha256 ts zs (Some head) g = None \<longleftrightarrow>
      chain_from sha256 ts g zs = zs \<and> chain_head sha256 ts g zs = head" for zs
  proof (cases "verify_loop sha256 ts 0 g zs")
    case (Inl i)
    then show ?thesis using verify_loop_ok_iff [of sha256 ts 0 g zs "chain_head sha256 ts g zs"]
      by (simp add: verify_audit_chain_def)
  next
    case (Inr h)
    then show ?thesis using verify_loop_ok_iff [of sha256 ts 0 g zs h]
      by (auto simp: verify_audit_chain_def)
  qed
  then show ?thesis using chain_head_determines [of sha256 ts g es fs] by metis
qed

text \<open>Verification of a broken sequence: the position of the first event that is not the chained
  form of itself, and one past the end when only the head does not match.\<close>

lemma verify_audit_chain_index:
  "verify_audit_chain sha256 ts es head g = Some j \<longleftrightarrow>
     (\<exists>k < length es. j = k \<and> chain_from sha256 ts g (take k es) = take k es
        \<and> chain_event sha256 ts (es ! k) (chain_head sha256 ts g (take k es)) \<noteq> es ! k)
     \<or> (j = length es \<and> chain_from sha256 ts g es = es
        \<and> (\<exists>h. head = Some h \<and> h \<noteq> chain_head sha256 ts g es))"
  using verify_loop_index [of sha256 ts 0 g es] verify_loop_ok_iff [of sha256 ts 0 g es]
  by (cases "verify_loop sha256 ts 0 g es")
     (auto simp: verify_audit_chain_def split: option.splits)

definition sample_event :: "string \<Rightarrow> audit_event" where
  "sample_event i = \<lparr>ae_id = i, ae_actor = ''system'', ae_action = AA_run_executed, ae_subject = ''discovery'',
     ae_packId = None, ae_packVersion = None, ae_result = AR_success, ae_recordedAt = 0,
     ae_prevHash = None, ae_entryHash = None\<rparr>"

theorem audit_chain_tamper_evident_witness:
  "verify_audit_chain (\<lambda>bs. bytes_hex bs) (\<lambda>_. ''t'')
     (chain_from (\<lambda>bs. bytes_hex bs) (\<lambda>_. ''t'') GENESIS_HASH [sample_event ''1'', sample_event ''2''])
     (Some (chain_head (\<lambda>bs. bytes_hex bs) (\<lambda>_. ''t'') GENESIS_HASH [sample_event ''1'', sample_event ''2'']))
     GENESIS_HASH = None"
  using audit_chain_tamper_evident
    [of "\<lambda>bs. bytes_hex bs" "\<lambda>_. ''t''"
      "chain_from (\<lambda>bs. bytes_hex bs) (\<lambda>_. ''t'') GENESIS_HASH [sample_event ''1'', sample_event ''2'']"
      "chain_head (\<lambda>bs. bytes_hex bs) (\<lambda>_. ''t'') GENESIS_HASH [sample_event ''1'', sample_event ''2'']"
      GENESIS_HASH]
    verify_loop_chain verify_loop_ok_iff chain_from_head by metis

section \<open>The actor\<close>

definition SYSTEM_ACTOR :: string where
  "SYSTEM_ACTOR = ''system''"

definition PRINCIPAL_ID_HEADER :: string where
  "PRINCIPAL_ID_HEADER = ''x-ms-client-principal-id''"

text \<open>\<open>resolve_actor(headers, principal_id=\<dots>)\<close>; \<open>headers\<close> is the lookup \<open>headers.get\<close>.\<close>

definition resolve_actor ::
    "unicode_db \<Rightarrow> (string \<Rightarrow> string option) option \<Rightarrow> string option \<Rightarrow> string" where
  "resolve_actor U headers principal_id =
     (case principal_id of
        Some pid \<Rightarrow> if is_audit_safe U pid then pid else SYSTEM_ACTOR
      | None \<Rightarrow>
          (case headers of
             None \<Rightarrow> SYSTEM_ACTOR
           | Some get \<Rightarrow>
               (let raw = py_strip (case get PRINCIPAL_ID_HEADER of None \<Rightarrow> [] | Some v \<Rightarrow> v)
                in if raw \<noteq> [] \<and> is_audit_safe U raw then raw else SYSTEM_ACTOR)))"

section \<open>The emitter\<close>

definition FAIL_CLOSED_ACTIONS :: "audit_action list" where
  "FAIL_CLOSED_ACTIONS = [AA_run_executed, AA_finding_emitted, AA_module_enabled, AA_module_disabled]"

text \<open>The construction of an event by \<open>emit\<close>: its id and time come from the field defaults, the
  validators replace each caller's field by its normalised form or raise.\<close>

fun assert_audit_safe_opt :: "unicode_db \<Rightarrow> string option \<Rightarrow> py_exc + string option" where
  "assert_audit_safe_opt U None = Inr None"
| "assert_audit_safe_opt U (Some v) = rbind (assert_audit_safe U v) (\<lambda>n. Inr (Some n))"

record audit_fields =
  af_actor :: string
  af_action :: audit_action
  af_subject :: string
  af_result :: audit_result
  af_packId :: "string option"
  af_packVersion :: "string option"

definition make_audit_event ::
    "unicode_db \<Rightarrow> string \<Rightarrow> int \<Rightarrow> audit_fields \<Rightarrow> py_exc + audit_event" where
  "make_audit_event U fresh_id now f =
     rbind (assert_audit_safe U (af_actor f)) (\<lambda>actor.
     rbind (assert_audit_safe U (af_subject f)) (\<lambda>subject.
     rbind (assert_audit_safe_opt U (af_packId f)) (\<lambda>packId.
     rbind (assert_audit_safe_opt U (af_packVersion f)) (\<lambda>packVersion.
       Inr \<lparr>ae_id = fresh_id, ae_actor = actor, ae_action = af_action f, ae_subject = subject,
            ae_packId = packId, ae_packVersion = packVersion, ae_result = af_result f,
            ae_recordedAt = now, ae_prevHash = None, ae_entryHash = None\<rparr>))))"

text \<open>The metrics counter: \<open>audit_emit_failures_total\<close> by its only label, the action.\<close>

type_synonym emit_metrics = "(audit_action, nat) dict"

definition increment_failures :: "audit_action \<Rightarrow> emit_metrics \<Rightarrow> emit_metrics" where
  "increment_failures a m = dict_set a (Suc (case dict_get m a of None \<Rightarrow> 0 | Some n \<Rightarrow> n)) m"

datatype emit_outcome = Emitted audit_event | Rejected | PersistenceError

text \<open>\<open>AuditEmitter.emit\<close> with \<open>_on_persist_failure\<close>. The sink is an operation on a state \<open>'s\<close> that
  tells whether it raised; \<open>None\<close> is the emitter without a store, and without a metrics registry.\<close>

type_synonym 's audit_sink = "audit_event \<Rightarrow> 's \<Rightarrow> bool \<times> 's"

definition on_persist_failure ::
    "audit_event \<Rightarrow> emit_metrics option \<Rightarrow> bool \<times> emit_metrics option" where
  "on_persist_failure event metrics =
     (ae_action event \<in> set FAIL_CLOSED_ACTIONS, map_option (increment_failures (ae_action event)) metrics)"

definition emit ::
    "unicode_db \<Rightarrow> 's audit_sink option \<Rightarrow> string \<Rightarrow> int \<Rightarrow> audit_fields
     \<Rightarrow> 's \<times> emit_metrics option \<Rightarrow> emit_outcome \<times> 's \<times> emit_metrics option" where
  "emit U sink fresh_id now f sm =
     (case sm of (s, m) \<Rightarrow>
        (case make_audit_event U fresh_id now f of
           Inl _ \<Rightarrow> (Rejected, s, m)
         | Inr event \<Rightarrow>
             (case sink of
                None \<Rightarrow> (Emitted event, s, m)
              | Some append_audit \<Rightarrow>
                  (case append_audit event s of
                     (True, s') \<Rightarrow> (Emitted event, s', m)
                   | (False, s') \<Rightarrow>
                       (case on_persist_failure event m of
                          (fail_closed, m') \<Rightarrow>
                            (if fail_closed then PersistenceError else Emitted event, s', m'))))))"

text \<open>The ids of an event, each of which must be safe.\<close>

definition event_ids_safe :: "unicode_db \<Rightarrow> audit_event \<Rightarrow> bool" where
  "event_ids_safe U e \<longleftrightarrow>
     is_audit_safe U (ae_actor e) \<and> is_audit_safe U (ae_subject e)
     \<and> (\<forall>p. ae_packId e = Some p \<longrightarrow> is_audit_safe U p)
     \<and> (\<forall>v. ae_packVersion e = Some v \<longrightarrow> is_audit_safe U v)"

lemma assert_audit_safe_Inr: "assert_audit_safe U v = Inr n \<longleftrightarrow> n = ud_nfkc U v \<and> is_audit_safe U n"
  by (auto simp: assert_audit_safe_def Let_def)

lemma assert_audit_safe_opt_Inr:
  "assert_audit_safe_opt U v = Inr n \<longleftrightarrow>
     n = map_option (ud_nfkc U) v \<and> (\<forall>x. n = Some x \<longrightarrow> is_audit_safe U x)"
  by (cases v) (auto simp: rbind_Inr_iff assert_audit_safe_Inr)

lemma make_audit_event_safe: "make_audit_event U i now f = Inr e \<Longrightarrow> event_ids_safe U e"
  by (auto simp: make_audit_event_def rbind_Inr_iff assert_audit_safe_Inr assert_audit_safe_opt_Inr
      event_ids_safe_def)

lemma make_audit_event_action: "make_audit_event U i now f = Inr e \<Longrightarrow> ae_action e = af_action f"
  by (auto simp: make_audit_event_def rbind_Inr_iff)

text \<open>the emitter's policy. The sink is offered an event only when its actor, subject and pack ids
  are free of personal data, and a rejected event changes nothing. When the append fails, the failure
  counter of the action goes up by one, and the emission raises exactly for the fail-closed actions
  (a run executed, a finding emitted, a module switched on or off); otherwise the event is returned.\<close>

theorem emit_policy:
  "emit U (Some app) i now f (s, Some m) =
     (case make_audit_event U i now f of
        Inl _ \<Rightarrow> (Rejected, s, Some m)
      | Inr e \<Rightarrow>
          (if fst (app e s) then (Emitted e, snd (app e s), Some m)
           else (if af_action f \<in> {AA_run_executed, AA_finding_emitted, AA_module_enabled, AA_module_disabled}
                 then PersistenceError else Emitted e,
                 snd (app e s), Some (increment_failures (af_action f) m))))
   \<and> (\<forall>e. make_audit_event U i now f = Inr e \<longrightarrow> event_ids_safe U e)
   \<and> (dict_get (increment_failures a m) b =
        (if b = a then Some (Suc (case dict_get m a of None \<Rightarrow> 0 | Some n \<Rightarrow> n)) else dict_get m b))"
  using make_audit_event_safe make_audit_event_action
  by (auto simp: emit_def on_persist_failure_def FAIL_CLOSED_ACTIONS_def increment_failures_def
      split: sum.splits prod.splits)

text \<open>A Unicode database for closed instances: the identity for normalisation, controls in \<open>C\<close>.\<close>

definition ascii_db :: unicode_db where
  "ascii_db = \<lparr>ud_nfkc = (\<lambda>s. s),
     ud_category_major = (\<lambda>c. if (of_char c :: nat) < 32 \<or> (127 \<le> (of_char c :: nat) \<and> (of_char c :: nat) < 160)
        then CHR ''C'' else CHR ''L'')\<rparr>"

theorem emit_policy_witness:
  "fst (emit ascii_db (Some (\<lambda>e s. (False, s))) ''1'' 0
      \<lparr>af_actor = ''system'', af_action = AA_run_executed, af_subject = ''discovery'',
       af_result = AR_success, af_packId = None, af_packVersion = None\<rparr> ((), Some [])) = PersistenceError"
  by (subst emit_policy [THEN conjunct1])
     (simp add: make_audit_event_def assert_audit_safe_def is_audit_safe_def ascii_db_def
        AUDIT_MAX_LEN_def AUDIT_FORBIDDEN_SUBSTRINGS_def py_isspace_def sublist_code py_lower_def char_lower_def)

text \<open>the actor on record is never personal data: it is a bounded, safe identifier or the system
  principal. A validated principal decides it alone, whatever the request's headers say.\<close>

theorem resolve_actor_safe:
  assumes "is_audit_safe U SYSTEM_ACTOR"
  shows "is_audit_safe U (resolve_actor U headers pid)
    \<and> (\<forall>p. pid = Some p \<longrightarrow> resolve_actor U headers pid = (if is_audit_safe U p then p else SYSTEM_ACTOR))"
  using assms by (auto simp: resolve_actor_def Let_def split: option.splits)

theorem resolve_actor_safe_witness:
  "is_audit_safe ascii_db (resolve_actor ascii_db (Some (\<lambda>_. Some ''eve@example.com'')) (Some ''1234-abcd''))"
  using resolve_actor_safe [of ascii_db "Some (\<lambda>_. Some ''eve@example.com'')" "Some ''1234-abcd''"]
  by (simp add: is_audit_safe_def ascii_db_def SYSTEM_ACTOR_def
        AUDIT_MAX_LEN_def AUDIT_FORBIDDEN_SUBSTRINGS_def py_isspace_def py_lower_def char_lower_def sublist_code)

end
