(* ===== verification/State_Local.thy ===== *)
theory State_Local
  imports State_Interface Audit_Trail
begin

text \<open>
  \<open>LocalStateStore\<close> of \<open>shared/state.py\<close>: the sqlite tables as dictionaries from primary keys to
  rows, a transaction as a body whose effect is dropped when it raises, every read and write of the
  store, and the proof that the store keeps the contract of \<open>StateStore\<close>.

  A row holds the model that its JSON column encodes. The \<open>updated_at\<close> columns are written and never
  read; they are left out. The builder of the advisories (\<open>build_rca_advisories\<close>) is an argument of
  \<open>commit_run\<close>.
\<close>

section \<open>The tables\<close>

record snapshot_row =
  sn_seq :: nat
  sn_workload :: string
  sn_findings :: "finding list"
  sn_nodes :: "string list"

record local_state =
  ls_estate :: "(string, resource_node list) dict"
  ls_graph :: "(string, workload_graph) dict"
  ls_findings :: "(string \<times> string \<times> string, finding) dict"
  ls_snapshots :: "snapshot_row list"
  ls_snapshot_seq :: nat
  ls_assignments :: "(string \<times> string, pack_assignment) dict"
  ls_rca :: "(string \<times> nat, rca_advisory) dict"
  ls_imported :: "(string \<times> string \<times> string, imported_pack) dict"
  ls_config :: "(string, tenant_module_config) dict"
  ls_audit :: "audit_event list"
  ls_audit_head :: "string option"

definition empty_state :: local_state where
  "empty_state = \<lparr>ls_estate = [], ls_graph = [], ls_findings = [], ls_snapshots = [], ls_snapshot_seq = 0,
     ls_assignments = [], ls_rca = [], ls_imported = [], ls_config = [], ls_audit = [], ls_audit_head = None\<rparr>"

section \<open>Transactions\<close>

text \<open>A statement of a transaction: its result and the state it leaves, also when it raises.
  \<open>_transaction\<close> commits the state of a body that returns and rolls back one that raises.\<close>

type_synonym 'a txn = "local_state \<Rightarrow> (state_exc + 'a) \<times> local_state"

definition transaction :: "'a txn \<Rightarrow> 'a txn" where
  "transaction body s = (case body s of (Inl e, _) \<Rightarrow> (Inl e, s) | (Inr x, s') \<Rightarrow> (Inr x, s'))"

definition tbind :: "'a txn \<Rightarrow> ('a \<Rightarrow> 'b txn) \<Rightarrow> 'b txn" where
  "tbind m f s = (case m s of (Inl e, s') \<Rightarrow> (Inl e, s') | (Inr x, s') \<Rightarrow> f x s')"

definition treturn :: "'a \<Rightarrow> 'a txn" where
  "treturn x s = (Inr x, s)"

section \<open>Reads\<close>

definition read_estate :: "local_state \<Rightarrow> string \<Rightarrow> resource_node list" where
  "read_estate s w = (case dict_get (ls_estate s) w of None \<Rightarrow> [] | Some nodes \<Rightarrow> nodes)"

text \<open>\<open>_read_findings\<close>: the rows in the order of the query; decoding a row runs the validator.\<close>

definition finding_rows :: "local_state \<Rightarrow> string \<Rightarrow> finding list" where
  "finding_rows s w =
     listing (\<lambda>(w', _, _). w' = w) (\<lambda>(_, m, i). (m, i)) (ls_findings s)"

definition read_findings :: "local_state \<Rightarrow> string \<Rightarrow> string option \<Rightarrow> finding_error + finding list" where
  "read_findings s w modl =
     rseq (map enforce_provenance
       (case modl of
          None \<Rightarrow> finding_rows s w
        | Some m \<Rightarrow> listing (\<lambda>(w', m', _). w' = w \<and> m' = m) (\<lambda>(_, _, i). i) (ls_findings s)))"

definition latest_snapshot :: "local_state \<Rightarrow> string \<Rightarrow> snapshot_row option" where
  "latest_snapshot s w =
     (case sort_key sn_seq (filter (\<lambda>r. sn_workload r = w) (ls_snapshots s)) of
        [] \<Rightarrow> None | r # rs \<Rightarrow> Some (last (r # rs)))"

definition get_previous_findings :: "local_state \<Rightarrow> string \<Rightarrow> finding_error + finding list" where
  "get_previous_findings s w =
     (case latest_snapshot s w of None \<Rightarrow> Inr [] | Some r \<Rightarrow> rseq (map enforce_provenance (sn_findings r)))"

definition get_previous_node_ids :: "local_state \<Rightarrow> string \<Rightarrow> string list" where
  "get_previous_node_ids s w = (case latest_snapshot s w of None \<Rightarrow> [] | Some r \<Rightarrow> sn_nodes r)"

text \<open>\<open>list_workloads\<close>: the union of the four tables, sorted.\<close>

definition list_workloads :: "local_state \<Rightarrow> string list" where
  "list_workloads s =
     sort (remdups (map fst (ls_estate s) @ map fst (ls_graph s)
        @ map (\<lambda>((w, _, _), _). w) (ls_findings s) @ map sn_workload (ls_snapshots s)))"

definition get_rca_advisories :: "local_state \<Rightarrow> string \<Rightarrow> rca_advisory list" where
  "get_rca_advisories s w =
     listing (\<lambda>(w', _). w' = w) snd (ls_rca s)"

definition get_pack_assignments :: "local_state \<Rightarrow> string \<Rightarrow> pack_assignment list" where
  "get_pack_assignments s w =
     listing (\<lambda>(w', _). w' = w) snd (ls_assignments s)"

definition list_pack_assignments :: "local_state \<Rightarrow> pack_assignment list" where
  "list_pack_assignments s = listing (\<lambda>_. True) (\<lambda>k. k) (ls_assignments s)"

definition get_imported_pack :: "local_state \<Rightarrow> string \<Rightarrow> string \<Rightarrow> string \<Rightarrow> imported_pack option" where
  "get_imported_pack s scope p v = dict_get (ls_imported s) (scope, p, v)"

definition list_imported_packs :: "local_state \<Rightarrow> string \<Rightarrow> imported_pack list" where
  "list_imported_packs s scope =
     listing (\<lambda>(sc, _, _). sc = scope) (\<lambda>(_, p, v). (p, v)) (ls_imported s)"

text \<open>\<open>list_audit\<close>: a negative \<open>LIMIT\<close> is no limit in sqlite.\<close>

definition list_audit :: "local_state \<Rightarrow> int option \<Rightarrow> audit_event list" where
  "list_audit s limit =
     (case limit of None \<Rightarrow> ls_audit s
      | Some n \<Rightarrow> if n < 0 then ls_audit s else take (nat n) (ls_audit s))"

definition audit_head :: "local_state \<Rightarrow> string" where
  "audit_head s = (case ls_audit_head s of None \<Rightarrow> GENESIS_HASH | Some h \<Rightarrow> h)"

section \<open>Writes\<close>

definition write_estate :: "string \<Rightarrow> resource_node list \<Rightarrow> unit txn" where
  "write_estate w nodes s = (Inr (), s\<lparr>ls_estate := dict_set w nodes (ls_estate s)\<rparr>)"

definition write_graph :: "string \<Rightarrow> workload_graph \<Rightarrow> unit txn" where
  "write_graph w g s = (Inr (), s\<lparr>ls_graph := dict_set w g (ls_graph s)\<rparr>)"

definition upsert_findings ::
    "string \<Rightarrow> finding list \<Rightarrow> (string \<times> string \<times> string, finding) dict
     \<Rightarrow> (string \<times> string \<times> string, finding) dict" where
  "upsert_findings w fs d = foldl (\<lambda>d f. dict_set (w, fd_module f, fd_id f) f d) d fs"

text \<open>\<open>_write_findings\<close>: the two gates, then the rows.\<close>

definition write_findings :: "string \<Rightarrow> finding list \<Rightarrow> unit txn" where
  "write_findings w fs s =
     (case enforce_finding_provenance fs of
        Inl e \<Rightarrow> (Inl (Unprovenanced e), s)
      | Inr _ \<Rightarrow>
          (case revalidate_finding_provenance fs of
             Inl e \<Rightarrow> (Inl (InvalidFinding e), s)
           | Inr _ \<Rightarrow> (Inr (), s\<lparr>ls_findings := upsert_findings w fs (ls_findings s)\<rparr>)))"

text \<open>\<open>_write_rca_advisories\<close>: the rows of the workload are deleted and the new ones inserted; a
  repeated index violates the primary key.\<close>

fun insert_advisories :: "string \<Rightarrow> rca_advisory list \<Rightarrow> unit txn" where
  "insert_advisories w [] s = (Inr (), s)"
| "insert_advisories w (a # as) s =
     (if dict_get (ls_rca s) (w, ra_index a) \<noteq> None then (Inl IntegrityError, s)
      else insert_advisories w as (s\<lparr>ls_rca := dict_set (w, ra_index a) a (ls_rca s)\<rparr>))"

definition write_rca_advisories :: "string \<Rightarrow> rca_advisory list \<Rightarrow> unit txn" where
  "write_rca_advisories w advisories s =
     insert_advisories w advisories (s\<lparr>ls_rca := filter (\<lambda>((w', _), _). w' \<noteq> w) (ls_rca s)\<rparr>)"

definition put_estate :: "string \<Rightarrow> resource_node list \<Rightarrow> unit txn" where
  "put_estate w nodes = transaction (write_estate w nodes)"

definition put_graph :: "string \<Rightarrow> workload_graph \<Rightarrow> unit txn" where
  "put_graph w g = transaction (write_graph w g)"

definition add_findings :: "string \<Rightarrow> finding list \<Rightarrow> unit txn" where
  "add_findings w fs = transaction (write_findings w fs)"

type_synonym advisory_builder = "(string, pyval) dict \<Rightarrow> rca_advisory list"

text \<open>\<open>commit_run\<close>: the counts are those of estate nodes, graphs and findings.\<close>

definition commit_run :: "advisory_builder \<Rightarrow> string \<Rightarrow> module_run_result \<Rightarrow> (nat \<times> nat \<times> nat) txn" where
  "commit_run build_rca_advisories w r =
     transaction
       (tbind (case mr_estate r of None \<Rightarrow> treturn 0
               | Some nodes \<Rightarrow> tbind (write_estate w nodes) (\<lambda>_. treturn (length nodes))) (\<lambda>n_estate.
        tbind (case mr_graph r of None \<Rightarrow> treturn 0
               | Some g \<Rightarrow> tbind (write_graph w g) (\<lambda>_. treturn 1)) (\<lambda>n_graph.
        tbind (if mr_findings r = [] then treturn 0
               else tbind (write_findings w (mr_findings r)) (\<lambda>_. treturn (length (mr_findings r))))
          (\<lambda>n_findings.
        tbind (if dict_get (mr_extra r) ''rca'' = None then treturn ()
               else write_rca_advisories w (build_rca_advisories (mr_extra r)))
          (\<lambda>_. treturn (n_estate, n_graph, n_findings))))))"

text \<open>\<open>f"snap::{workload}::{seq:06d}"\<close>\<close>

definition pad6 :: "nat \<Rightarrow> string" where
  "pad6 n = replicate (6 - length (show_nat n)) (CHR ''0'') @ show_nat n"

definition snapshot_id :: "string \<Rightarrow> nat \<Rightarrow> string" where
  "snapshot_id w seq = ''snap::'' @ w @ ''::'' @ pad6 seq"

definition snapshot :: "string \<Rightarrow> string txn" where
  "snapshot w =
     transaction (\<lambda>s.
       (case read_findings s w None of
          Inl e \<Rightarrow> (Inl (InvalidFinding e), s)
        | Inr fs \<Rightarrow>
            (let seq = Suc (ls_snapshot_seq s);
                 row = \<lparr>sn_seq = seq, sn_workload = w, sn_findings = fs, sn_nodes = map rn_id (read_estate s w)\<rparr>
             in (Inr (snapshot_id w seq),
                 s\<lparr>ls_snapshots := ls_snapshots s @ [row], ls_snapshot_seq := seq\<rparr>))))"

definition put_pack_assignment :: "pack_assignment \<Rightarrow> unit txn" where
  "put_pack_assignment a =
     transaction (\<lambda>s. (Inr (), s\<lparr>ls_assignments := dict_set (pa_workload a, pa_packId a) a (ls_assignments s)\<rparr>))"

text \<open>\<open>_insert_imported_pack\<close>: the row count.\<close>

definition insert_imported_pack :: "imported_pack \<Rightarrow> bool \<Rightarrow> nat txn" where
  "insert_imported_pack p on_conflict_replace s =
     (let key = (ip_scope p, ip_packId p, ip_version p) in
      if \<not> on_conflict_replace \<and> dict_get (ls_imported s) key \<noteq> None then (Inr 0, s)
      else (Inr 1, s\<lparr>ls_imported := dict_set key p (ls_imported s)\<rparr>))"

definition put_imported_pack :: "imported_pack \<Rightarrow> unit txn" where
  "put_imported_pack p = transaction (tbind (insert_imported_pack p True) (\<lambda>_. treturn ()))"

text \<open>\<open>try_record_imported_pack\<close>: the digest is compared after the transaction has committed.\<close>

definition try_record_imported_pack :: "imported_pack \<Rightarrow> imported_pack txn" where
  "try_record_imported_pack p s =
     (case transaction (tbind (insert_imported_pack p False) (\<lambda>n s.
        (if n = 1 then (Inr None, s)
         else (Inr (get_imported_pack s (ip_scope p) (ip_packId p) (ip_version p)), s)))) s of
        (Inl e, s') \<Rightarrow> (Inl e, s')
      | (Inr None, s') \<Rightarrow> (Inr p, s')
      | (Inr (Some existing), s') \<Rightarrow>
          (if ip_digest existing \<noteq> ip_digest p then (Inl ImportConflict, s') else (Inr existing, s')))"

definition put_module_config :: "tenant_module_config \<Rightarrow> unit txn" where
  "put_module_config c = transaction (\<lambda>s. (Inr (), s\<lparr>ls_config := dict_set (mc_scope c) c (ls_config s)\<rparr>))"

definition get_module_config :: "local_state \<Rightarrow> string \<Rightarrow> tenant_module_config option" where
  "get_module_config s scope = dict_get (ls_config s) scope"

text \<open>\<open>append_audit\<close>: read the head, insert the chained row, advance the head.\<close>

definition append_audit ::
    "(nat list \<Rightarrow> string) \<Rightarrow> (int \<Rightarrow> string) \<Rightarrow> audit_event \<Rightarrow> unit txn" where
  "append_audit sha256 ts e =
     transaction (\<lambda>s.
       (let prev = audit_head s;
            chained = chain_event sha256 ts e prev
        in (Inr (), s\<lparr>ls_audit := ls_audit s @ [chained], ls_audit_head := ae_entryHash chained\<rparr>)))"

section \<open>The store as one step function\<close>

fun done_outcome :: "state_exc + unit \<Rightarrow> write_outcome" where
  "done_outcome (Inl e) = Failed e"
| "done_outcome (Inr _) = Done"


fun local_write ::
    "(nat list \<Rightarrow> string) \<Rightarrow> (int \<Rightarrow> string) \<Rightarrow> advisory_builder \<Rightarrow> write_op \<Rightarrow> local_state
     \<Rightarrow> write_outcome \<times> local_state" where
  "local_write sha ts b (PutEstate w ns) s = apfst done_outcome (put_estate w ns s)"
| "local_write sha ts b (PutGraph w g) s = apfst done_outcome (put_graph w g s)"
| "local_write sha ts b (AddFindings w fs) s = apfst done_outcome (add_findings w fs s)"
| "local_write sha ts b (CommitRun w r) s =
     apfst (\<lambda>o'. case o' of Inl e \<Rightarrow> Failed e | Inr (n, g, f) \<Rightarrow> Counts n g f) (commit_run b w r s)"
| "local_write sha ts b (Snapshot w) s =
     apfst (\<lambda>o'. case o' of Inl e \<Rightarrow> Failed e | Inr i \<Rightarrow> SnapshotId i) (snapshot w s)"
| "local_write sha ts b (PutAssignment a) s = apfst done_outcome (put_pack_assignment a s)"
| "local_write sha ts b (PutImported p) s = apfst done_outcome (put_imported_pack p s)"
| "local_write sha ts b (TryRecordImported p) s =
     apfst (\<lambda>o'. case o' of Inl e \<Rightarrow> Failed e | Inr q \<Rightarrow> Recorded q) (try_record_imported_pack p s)"
| "local_write sha ts b (PutModuleConfig c) s = apfst done_outcome (put_module_config c s)"
| "local_write sha ts b (AppendAudit e) s = apfst done_outcome (append_audit sha ts e s)"

definition local_view :: "local_state \<Rightarrow> string \<Rightarrow> store_view" where
  "local_view s k =
     \<lparr>sv_known = (k \<in> set (list_workloads s)),
      sv_estate = read_estate s k,
      sv_graph = dict_get (ls_graph s) k,
      sv_findings = read_findings s k None,
      sv_previous_findings = get_previous_findings s k,
      sv_previous_nodes = get_previous_node_ids s k,
      sv_advisories = get_rca_advisories s k,
      sv_assignments = get_pack_assignments s k,
      sv_imports = list_imported_packs s k,
      sv_config = get_module_config s k\<rparr>"

section \<open>Well-formed stores\<close>

definition rows_ok :: "('k, 'v) dict \<Rightarrow> ('v \<Rightarrow> 'k \<Rightarrow> bool) \<Rightarrow> bool" where
  "rows_ok d ok \<longleftrightarrow> dict_wf d \<and> (\<forall>(k, v) \<in> set d. ok v k)"

definition finding_row_ok :: "finding \<Rightarrow> string \<times> string \<times> string \<Rightarrow> bool" where
  "finding_row_ok f k \<longleftrightarrow> snd k = (fd_module f, fd_id f) \<and> storable f"

definition snapshots_ok :: "local_state \<Rightarrow> bool" where
  "snapshots_ok s \<longleftrightarrow>
     sorted_wrt (<) (map sn_seq (ls_snapshots s))
     \<and> (\<forall>r \<in> set (ls_snapshots s). sn_seq r \<le> ls_snapshot_seq s \<and> (\<forall>f \<in> set (sn_findings r). storable f))"

definition audit_ok :: "(nat list \<Rightarrow> string) \<Rightarrow> (int \<Rightarrow> string) \<Rightarrow> local_state \<Rightarrow> bool" where
  "audit_ok sha ts s \<longleftrightarrow>
     chain_from sha ts GENESIS_HASH (ls_audit s) = ls_audit s
     \<and> audit_head s = chain_head sha ts GENESIS_HASH (ls_audit s)"

definition local_inv :: "(nat list \<Rightarrow> string) \<Rightarrow> (int \<Rightarrow> string) \<Rightarrow> local_state \<Rightarrow> bool" where
  "local_inv sha ts s \<longleftrightarrow>
     dict_wf (ls_estate s) \<and> dict_wf (ls_graph s)
     \<and> rows_ok (ls_findings s) finding_row_ok
     \<and> snapshots_ok s
     \<and> rows_ok (ls_assignments s) (\<lambda>a k. k = (pa_workload a, pa_packId a))
     \<and> rows_ok (ls_rca s) (\<lambda>a k. snd k = ra_index a)
     \<and> rows_ok (ls_imported s) (\<lambda>p k. k = (ip_scope p, ip_packId p, ip_version p))
     \<and> rows_ok (ls_config s) (\<lambda>c k. k = mc_scope c)
     \<and> audit_ok sha ts s"

lemma set_dict_set: "set (dict_set k v d) \<subseteq> insert (k, v) (set d)"
  by (induction d) auto

lemma rows_ok_set: "rows_ok d ok \<Longrightarrow> ok v k \<Longrightarrow> rows_ok (dict_set k v d) ok"
  using set_dict_set [of k v d] by (auto simp: rows_ok_def)

lemma rows_ok_filter: "rows_ok d ok \<Longrightarrow> rows_ok (filter P d) ok"
  by (auto simp: rows_ok_def distinct_map_filter)

lemma rows_ok_wf: "rows_ok d ok \<Longrightarrow> dict_wf d"
  by (simp add: rows_ok_def)

lemma rows_ok_upsert:
  "rows_ok d finding_row_ok \<Longrightarrow> \<forall>f \<in> set fs. storable f \<Longrightarrow> rows_ok (upsert_findings w fs d) finding_row_ok"
proof (induction fs arbitrary: d)
  case (Cons f fs)
  have "rows_ok (dict_set (w, fd_module f, fd_id f) f d) finding_row_ok"
    by (rule rows_ok_set [OF Cons.prems(1)]) (use Cons.prems(2) in \<open>simp add: finding_row_ok_def\<close>)
  with Cons show ?case by (simp add: upsert_findings_def)
qed (simp add: upsert_findings_def)

lemma empty_state_inv: "local_inv sha ts empty_state"
  by (simp add: local_inv_def empty_state_def rows_ok_def snapshots_ok_def audit_ok_def audit_head_def)

section \<open>What two stores have in common at a key\<close>

definition known :: "local_state \<Rightarrow> string \<Rightarrow> bool" where
  "known s k \<longleftrightarrow> dict_get (ls_estate s) k \<noteq> None \<or> dict_get (ls_graph s) k \<noteq> None
     \<or> (\<exists>m i. dict_get (ls_findings s) (k, m, i) \<noteq> None) \<or> latest_snapshot s k \<noteq> None"

definition previous :: "local_state \<Rightarrow> string \<Rightarrow> finding list \<times> string list" where
  "previous s k = (case latest_snapshot s k of None \<Rightarrow> ([], []) | Some r \<Rightarrow> (sn_findings r, sn_nodes r))"

definition agree :: "local_state \<Rightarrow> local_state \<Rightarrow> string \<Rightarrow> bool" where
  "agree s t k \<longleftrightarrow>
     known s k = known t k \<and> read_estate s k = read_estate t k
     \<and> dict_get (ls_graph s) k = dict_get (ls_graph t) k
     \<and> (\<forall>m i. dict_get (ls_findings s) (k, m, i) = dict_get (ls_findings t) (k, m, i))
     \<and> previous s k = previous t k
     \<and> (\<forall>i. dict_get (ls_rca s) (k, i) = dict_get (ls_rca t) (k, i))
     \<and> (\<forall>p. dict_get (ls_assignments s) (k, p) = dict_get (ls_assignments t) (k, p))
     \<and> (\<forall>p v. dict_get (ls_imported s) (k, p, v) = dict_get (ls_imported t) (k, p, v))
     \<and> dict_get (ls_config s) k = dict_get (ls_config t) k"

lemma agree_refl [simp]: "agree s s k"
  by (simp add: agree_def)

lemma agree_trans: "agree s t k \<Longrightarrow> agree t u k \<Longrightarrow> agree s u k"
  by (simp add: agree_def)

lemma agree_sym: "agree s t k \<Longrightarrow> agree t s k"
  by (simp add: agree_def)

lemma latest_snapshot_None: "latest_snapshot s k = None \<longleftrightarrow> k \<notin> sn_workload ` set (ls_snapshots s)"
proof -
  have "latest_snapshot s k = None \<longleftrightarrow> sort_key sn_seq (filter (\<lambda>r. sn_workload r = k) (ls_snapshots s)) = []"
    by (auto simp: latest_snapshot_def split: list.splits)
  also have "\<dots> \<longleftrightarrow> filter (\<lambda>r. sn_workload r = k) (ls_snapshots s) = []"
    by (metis length_0_conv length_sort)
  finally show ?thesis by (auto simp: filter_empty_conv)
qed

lemma known_iff: "known s k \<longleftrightarrow> k \<in> set (list_workloads s)"
proof -
  have e: "dict_get d k \<noteq> None \<longleftrightarrow> k \<in> set (map fst d)" for d :: "(string, 'a) dict"
    by (simp add: map_of_eq_None_iff)
  have f: "(\<exists>m i. dict_get (ls_findings s) (k, m, i) \<noteq> None) \<longleftrightarrow> k \<in> set (map (\<lambda>((w, _, _), _). w) (ls_findings s))"
    by (force simp: map_of_eq_None_iff)
  show ?thesis unfolding known_def e f latest_snapshot_None by (simp add: list_workloads_def e)
qed

text \<open>Decoding never fails on a well-formed store.\<close>

lemma rseq_map_Inr: "rseq (map Inr xs) = Inr xs"
  by (simp add: rseq_Inr_iff)

lemma validate_storable: "\<forall>f \<in> set fs. storable f \<Longrightarrow> map enforce_provenance fs = map Inr fs"
  by (auto simp: storable_def enforce_provenance_iff)

lemma finding_rows_storable: "local_inv sha ts s \<Longrightarrow> f \<in> set (finding_rows s w) \<Longrightarrow> storable f"
  by (auto simp: local_inv_def rows_ok_def finding_row_ok_def finding_rows_def listing_set)

lemma read_findings_ok: "local_inv sha ts s \<Longrightarrow> read_findings s w None = Inr (finding_rows s w)"
  using finding_rows_storable [of sha ts s]
  by (simp add: read_findings_def validate_storable rseq_map_Inr)

lemma latest_snapshot_mem: "latest_snapshot s w = Some r \<Longrightarrow> r \<in> set (ls_snapshots s) \<and> sn_workload r = w"
proof -
  assume l: "latest_snapshot s w = Some r"
  then obtain x xs where xs: "sort_key sn_seq (filter (\<lambda>r. sn_workload r = w) (ls_snapshots s)) = x # xs"
    by (auto simp: latest_snapshot_def split: list.splits)
  with l have "r = last (x # xs)" by (simp add: latest_snapshot_def)
  then have "r \<in> set (sort_key sn_seq (filter (\<lambda>r. sn_workload r = w) (ls_snapshots s)))"
    unfolding xs by (metis last_in_set list.distinct(1))
  then show ?thesis by simp
qed

lemma get_previous_findings_ok: "local_inv sha ts s \<Longrightarrow> get_previous_findings s w = Inr (fst (previous s w))"
proof -
  assume inv: "local_inv sha ts s"
  show ?thesis
  proof (cases "latest_snapshot s w")
    case (Some r)
    then have "\<forall>f \<in> set (sn_findings r). storable f"
      using inv latest_snapshot_mem [OF Some] by (auto simp: local_inv_def snapshots_ok_def)
    then show ?thesis using Some
      by (simp add: get_previous_findings_def previous_def validate_storable rseq_map_Inr)
  qed (simp add: get_previous_findings_def previous_def)
qed

lemma get_previous_node_ids_eq: "get_previous_node_ids s w = snd (previous s w)"
  by (simp add: get_previous_node_ids_def previous_def split: option.splits)

text \<open>Two well-formed stores show the same view of a key exactly when they agree there.\<close>

lemma finding_rows_eq:
  assumes "local_inv sha ts s" "local_inv sha ts t"
  shows "finding_rows s k = finding_rows t k \<longleftrightarrow>
    (\<forall>m i. dict_get (ls_findings s) (k, m, i) = dict_get (ls_findings t) (k, m, i))"
proof
  assume eq: "finding_rows s k = finding_rows t k"
  have sub: "dict_get (ls_findings a) (k, m, i) = Some f \<Longrightarrow> dict_get (ls_findings b) (k, m, i) = Some f"
    if "local_inv sha ts a" "local_inv sha ts b" "finding_rows a k = finding_rows b k" for a b m i f
  proof -
    assume "dict_get (ls_findings a) (k, m, i) = Some f"
    then have mem: "((k, m, i), f) \<in> set (ls_findings a)" by (rule map_of_SomeD)
    then have "f \<in> set (finding_rows b k)"
      unfolding that(3) [symmetric] by (force simp: finding_rows_def listing_set)
    then obtain m' i' where mem': "((k, m', i'), f) \<in> set (ls_findings b)"
      by (auto simp: finding_rows_def listing_set)
    have "(m, i) = (fd_module f, fd_id f)" "(m', i') = (fd_module f, fd_id f)"
      using that(1,2) mem mem' by (auto simp: local_inv_def rows_ok_def finding_row_ok_def)
    then show "dict_get (ls_findings b) (k, m, i) = Some f"
      using mem' that(2) by (auto simp: local_inv_def rows_ok_def intro!: dict_get_memI)
  qed
  show "\<forall>m i. dict_get (ls_findings s) (k, m, i) = dict_get (ls_findings t) (k, m, i)"
    using sub [OF assms eq] sub [OF assms(2,1) eq [symmetric]] by (metis not_Some_eq)
next
  assume "\<forall>m i. dict_get (ls_findings s) (k, m, i) = dict_get (ls_findings t) (k, m, i)"
  then show "finding_rows s k = finding_rows t k"
    unfolding finding_rows_def using assms
    by (intro listing_cong) (auto simp: local_inv_def rows_ok_def inj_on_def)
qed

lemma advisories_eq:
  assumes "local_inv sha ts s" "local_inv sha ts t"
  shows "get_rca_advisories s k = get_rca_advisories t k \<longleftrightarrow>
    (\<forall>i. dict_get (ls_rca s) (k, i) = dict_get (ls_rca t) (k, i))"
proof
  assume eq: "get_rca_advisories s k = get_rca_advisories t k"
  have sub: "dict_get (ls_rca a) (k, i) = Some x \<Longrightarrow> dict_get (ls_rca b) (k, i) = Some x"
    if "local_inv sha ts a" "local_inv sha ts b" "get_rca_advisories a k = get_rca_advisories b k" for a b i x
  proof -
    assume "dict_get (ls_rca a) (k, i) = Some x"
    then have mem: "((k, i), x) \<in> set (ls_rca a)" by (rule map_of_SomeD)
    then have "x \<in> set (get_rca_advisories b k)"
      unfolding that(3) [symmetric] by (force simp: get_rca_advisories_def listing_set)
    then obtain i' where mem': "((k, i'), x) \<in> set (ls_rca b)"
      by (auto simp: get_rca_advisories_def listing_set)
    have "i = ra_index x" "i' = ra_index x"
      using that(1,2) mem mem' by (auto simp: local_inv_def rows_ok_def)
    then show "dict_get (ls_rca b) (k, i) = Some x"
      using mem' that(2) by (auto simp: local_inv_def rows_ok_def intro!: dict_get_memI)
  qed
  show "\<forall>i. dict_get (ls_rca s) (k, i) = dict_get (ls_rca t) (k, i)"
    using sub [OF assms eq] sub [OF assms(2,1) eq [symmetric]] by (metis not_Some_eq)
next
  assume "\<forall>i. dict_get (ls_rca s) (k, i) = dict_get (ls_rca t) (k, i)"
  then show "get_rca_advisories s k = get_rca_advisories t k"
    unfolding get_rca_advisories_def using assms
    by (intro listing_cong) (auto simp: local_inv_def rows_ok_def inj_on_def)
qed

lemma assignments_eq:
  assumes "local_inv sha ts s" "local_inv sha ts t"
  shows "get_pack_assignments s k = get_pack_assignments t k \<longleftrightarrow>
    (\<forall>p. dict_get (ls_assignments s) (k, p) = dict_get (ls_assignments t) (k, p))"
proof
  assume eq: "get_pack_assignments s k = get_pack_assignments t k"
  have "dict_get (ls_assignments s) x = dict_get (ls_assignments t) x" if "fst x = k" for x
    by (rule listing_get_eq [where kf = "\<lambda>a. (pa_workload a, pa_packId a)"
          and P = "\<lambda>(w', _). w' = k" and g = snd])
       (use assms eq that in \<open>auto simp: local_inv_def rows_ok_def get_pack_assignments_def\<close>)
  then show "\<forall>p. dict_get (ls_assignments s) (k, p) = dict_get (ls_assignments t) (k, p)" by simp
next
  assume "\<forall>p. dict_get (ls_assignments s) (k, p) = dict_get (ls_assignments t) (k, p)"
  then show "get_pack_assignments s k = get_pack_assignments t k"
    unfolding get_pack_assignments_def using assms
    by (intro listing_cong) (auto simp: local_inv_def rows_ok_def inj_on_def)
qed

lemma imports_eq:
  assumes "local_inv sha ts s" "local_inv sha ts t"
  shows "list_imported_packs s k = list_imported_packs t k \<longleftrightarrow>
    (\<forall>p v. dict_get (ls_imported s) (k, p, v) = dict_get (ls_imported t) (k, p, v))"
proof
  assume eq: "list_imported_packs s k = list_imported_packs t k"
  have "dict_get (ls_imported s) x = dict_get (ls_imported t) x" if "fst x = k" for x
    by (rule listing_get_eq [where kf = "\<lambda>p. (ip_scope p, ip_packId p, ip_version p)"
          and P = "\<lambda>(sc, _, _). sc = k" and g = "\<lambda>(_, p, v). (p, v)"])
       (use assms eq that in \<open>auto simp: local_inv_def rows_ok_def list_imported_packs_def\<close>)
  then show "\<forall>p v. dict_get (ls_imported s) (k, p, v) = dict_get (ls_imported t) (k, p, v)" by simp
next
  assume "\<forall>p v. dict_get (ls_imported s) (k, p, v) = dict_get (ls_imported t) (k, p, v)"
  then show "list_imported_packs s k = list_imported_packs t k"
    unfolding list_imported_packs_def using assms
    by (intro listing_cong) (auto simp: local_inv_def rows_ok_def inj_on_def)
qed

lemma view_eq_iff:
  assumes "local_inv sha ts s" "local_inv sha ts t"
  shows "local_view s k = local_view t k \<longleftrightarrow> agree s t k"
  using read_findings_ok [OF assms(1)] read_findings_ok [OF assms(2)]
    get_previous_findings_ok [OF assms(1)] get_previous_findings_ok [OF assms(2)]
    finding_rows_eq [OF assms, of k] advisories_eq [OF assms, of k] assignments_eq [OF assms, of k]
    imports_eq [OF assms, of k]
  by (auto simp: local_view_def agree_def known_iff get_previous_node_ids_eq get_module_config_def prod_eq_iff)

section \<open>Every statement works on its own key\<close>

text \<open>A statement keeps the store well formed, leaves what other keys show, and acts on its own key as
  a function of what that key shows.\<close>

definition local_txn ::
    "(nat list \<Rightarrow> string) \<Rightarrow> (int \<Rightarrow> string) \<Rightarrow> string
     \<Rightarrow> (local_state \<Rightarrow> 'r \<times> local_state) \<Rightarrow> bool" where
  "local_txn sha ts w m \<longleftrightarrow>
     (\<forall>s. local_inv sha ts s \<longrightarrow> local_inv sha ts (snd (m s)) \<and> (\<forall>k. k \<noteq> w \<longrightarrow> agree (snd (m s)) s k))
     \<and> (\<forall>s t. local_inv sha ts s \<longrightarrow> local_inv sha ts t \<longrightarrow> agree s t w \<longrightarrow>
           fst (m s) = fst (m t) \<and> agree (snd (m s)) (snd (m t)) w)"

lemma local_txnI:
  assumes "\<And>s. local_inv sha ts s \<Longrightarrow> local_inv sha ts (snd (m s))"
    and "\<And>s k. local_inv sha ts s \<Longrightarrow> k \<noteq> w \<Longrightarrow> agree (snd (m s)) s k"
    and "\<And>s t. local_inv sha ts s \<Longrightarrow> local_inv sha ts t \<Longrightarrow> agree s t w \<Longrightarrow>
      fst (m s) = fst (m t) \<and> agree (snd (m s)) (snd (m t)) w"
  shows "local_txn sha ts w m"
  using assms unfolding local_txn_def by blast

lemma local_txnD:
  assumes "local_txn sha ts w m" "local_inv sha ts s"
  shows "local_inv sha ts (snd (m s))" "k \<noteq> w \<Longrightarrow> agree (snd (m s)) s k"
    "local_inv sha ts t \<Longrightarrow> agree s t w \<Longrightarrow> fst (m s) = fst (m t)"
    "local_inv sha ts t \<Longrightarrow> agree s t w \<Longrightarrow> agree (snd (m s)) (snd (m t)) w"
  using assms unfolding local_txn_def by blast+

lemma local_txn_return: "local_txn sha ts w (treturn x)"
  by (simp add: local_txn_def treturn_def)

lemma local_txn_bind:
  assumes m: "local_txn sha ts w m" and f: "\<And>x. local_txn sha ts w (f x)"
  shows "local_txn sha ts w (tbind m f)"
proof (rule local_txnI)
  fix s assume s: "local_inv sha ts s"
  obtain r s' where ms: "m s = (r, s')" by force
  have s': "local_inv sha ts s'" using local_txnD(1) [OF m s] ms by simp
  show "local_inv sha ts (snd (tbind m f s))"
    using local_txnD(1) [OF f s'] s' by (auto simp: tbind_def ms split: sum.splits)
  show "agree (snd (tbind m f s)) s k" if "k \<noteq> w" for k
  proof -
    have "agree s' s k" using local_txnD(2) [OF m s that] ms by simp
    moreover have "agree (snd (f x s')) s' k" for x using local_txnD(2) [OF f s' that] .
    ultimately show ?thesis by (auto simp: tbind_def ms split: sum.splits intro: agree_trans)
  qed
next
  fix s t assume s: "local_inv sha ts s" and t: "local_inv sha ts t" and st: "agree s t w"
  obtain r s' where ms: "m s = (r, s')" by force
  obtain q t' where mt: "m t = (q, t')" by force
  have rq: "r = q" and st': "agree s' t' w" and i: "local_inv sha ts s'" "local_inv sha ts t'"
    using local_txnD(3,4) [OF m s t st] local_txnD(1) [OF m s] local_txnD(1) [OF m t] t
    by (simp_all add: ms mt)
  show "fst (tbind m f s) = fst (tbind m f t) \<and> agree (snd (tbind m f s)) (snd (tbind m f t)) w"
    using local_txnD(3,4) [OF f i(1,2) st'] st' by (auto simp: tbind_def ms mt rq split: sum.splits)
qed

lemma local_txn_transaction:
  assumes m: "local_txn sha ts w m"
  shows "local_txn sha ts w (transaction m)"
proof (rule local_txnI)
  fix s assume s: "local_inv sha ts s"
  obtain r s' where ms: "m s = (r, s')" by force
  show "local_inv sha ts (snd (transaction m s))"
    using local_txnD(1) [OF m s] s by (auto simp: transaction_def ms split: sum.splits)
  show "agree (snd (transaction m s)) s k" if "k \<noteq> w" for k
    using local_txnD(2) [OF m s that] by (auto simp: transaction_def ms split: sum.splits)
next
  fix s t assume s: "local_inv sha ts s" and t: "local_inv sha ts t" and st: "agree s t w"
  obtain r s' where ms: "m s = (r, s')" by force
  obtain q t' where mt: "m t = (q, t')" by force
  show "fst (transaction m s) = fst (transaction m t)
      \<and> agree (snd (transaction m s)) (snd (transaction m t)) w"
    using local_txnD(3,4) [OF m s t st] st ms mt by (auto simp: transaction_def split: sum.splits)
qed

lemma latest_snapshot_frame [simp]:
  "latest_snapshot (s\<lparr>ls_estate := a\<rparr>) w = latest_snapshot s w"
  "latest_snapshot (s\<lparr>ls_graph := g\<rparr>) w = latest_snapshot s w"
  "latest_snapshot (s\<lparr>ls_findings := f\<rparr>) w = latest_snapshot s w"
  "latest_snapshot (s\<lparr>ls_assignments := p\<rparr>) w = latest_snapshot s w"
  "latest_snapshot (s\<lparr>ls_rca := r\<rparr>) w = latest_snapshot s w"
  "latest_snapshot (s\<lparr>ls_imported := i\<rparr>) w = latest_snapshot s w"
  "latest_snapshot (s\<lparr>ls_config := c\<rparr>) w = latest_snapshot s w"
  "latest_snapshot (s\<lparr>ls_audit := u, ls_audit_head := h\<rparr>) w = latest_snapshot s w"
  by (simp_all add: latest_snapshot_def)

lemma known_frame [simp]:
  "known (s\<lparr>ls_assignments := p\<rparr>) w = known s w"
  "known (s\<lparr>ls_rca := r\<rparr>) w = known s w"
  "known (s\<lparr>ls_imported := i\<rparr>) w = known s w"
  "known (s\<lparr>ls_config := c\<rparr>) w = known s w"
  "known (s\<lparr>ls_audit := u, ls_audit_head := h\<rparr>) w = known s w"
  by (simp_all add: known_def)

lemma previous_frame [simp]:
  "previous (s\<lparr>ls_findings := f\<rparr>) w = previous s w"
  "previous (s\<lparr>ls_assignments := p\<rparr>) w = previous s w"
  "previous (s\<lparr>ls_rca := r\<rparr>) w = previous s w"
  "previous (s\<lparr>ls_imported := i\<rparr>) w = previous s w"
  "previous (s\<lparr>ls_config := c\<rparr>) w = previous s w"
  "previous (s\<lparr>ls_audit := u, ls_audit_head := h\<rparr>) w = previous s w"
  by (simp_all add: previous_def)

lemma read_estate_frame [simp]:
  "read_estate (s\<lparr>ls_findings := f\<rparr>) w = read_estate s w"
  "read_estate (s\<lparr>ls_assignments := p\<rparr>) w = read_estate s w"
  "read_estate (s\<lparr>ls_rca := r\<rparr>) w = read_estate s w"
  "read_estate (s\<lparr>ls_imported := i\<rparr>) w = read_estate s w"
  "read_estate (s\<lparr>ls_config := c\<rparr>) w = read_estate s w"
  "read_estate (s\<lparr>ls_audit := u, ls_audit_head := h\<rparr>) w = read_estate s w"
  by (simp_all add: read_estate_def)

text \<open>The invariant table by table.\<close>

lemma local_inv_tables:
  assumes "local_inv sha ts s"
  shows "rows_ok (ls_findings s) finding_row_ok"
    "rows_ok (ls_assignments s) (\<lambda>a k. k = (pa_workload a, pa_packId a))"
    "rows_ok (ls_rca s) (\<lambda>a k. snd k = ra_index a)"
    "rows_ok (ls_imported s) (\<lambda>p k. k = (ip_scope p, ip_packId p, ip_version p))"
    "rows_ok (ls_config s) (\<lambda>c k. k = mc_scope c)"
  using assms by (simp_all add: local_inv_def)

lemma local_inv_update:
  assumes "local_inv sha ts s"
  shows "rows_ok f finding_row_ok \<Longrightarrow> local_inv sha ts (s\<lparr>ls_findings := f\<rparr>)"
    "rows_ok p (\<lambda>a k. k = (pa_workload a, pa_packId a)) \<Longrightarrow> local_inv sha ts (s\<lparr>ls_assignments := p\<rparr>)"
    "rows_ok r (\<lambda>a k. snd k = ra_index a) \<Longrightarrow> local_inv sha ts (s\<lparr>ls_rca := r\<rparr>)"
    "rows_ok i (\<lambda>p k. k = (ip_scope p, ip_packId p, ip_version p)) \<Longrightarrow> local_inv sha ts (s\<lparr>ls_imported := i\<rparr>)"
    "rows_ok c (\<lambda>c k. k = mc_scope c) \<Longrightarrow> local_inv sha ts (s\<lparr>ls_config := c\<rparr>)"
  using assms by (simp_all add: local_inv_def snapshots_ok_def audit_ok_def audit_head_def)

lemmas slice_defs = agree_def known_def previous_def read_estate_def

lemmas inv_defs = local_inv_def snapshots_ok_def audit_ok_def audit_head_def

lemma write_estate_local: "local_txn sha ts w (write_estate w ns)"
  by (rule local_txnI) (simp_all add: write_estate_def slice_defs inv_defs)

lemma write_graph_local: "local_txn sha ts w (write_graph w g)"
  by (rule local_txnI) (simp_all add: write_graph_def slice_defs inv_defs)

lemma dict_get_upsert:
  "dict_get (upsert_findings w fs d) (w', m, i) =
     (if w' = w then (case find (\<lambda>f. fd_module f = m \<and> fd_id f = i) (rev fs) of
                        None \<Rightarrow> dict_get d (w, m, i) | Some f \<Rightarrow> Some f)
      else dict_get d (w', m, i))"
proof (induction fs rule: rev_induct)
  case (snoc f fs)
  then show ?case by (auto simp: upsert_findings_def)
qed (simp add: upsert_findings_def)

text \<open>The gates pass exactly the findings that may be stored.\<close>

lemma write_findings_ok:
  "\<forall>f \<in> set fs. storable f \<Longrightarrow>
   write_findings w fs s = (Inr (), s\<lparr>ls_findings := upsert_findings w fs (ls_findings s)\<rparr>)"
  using enforce_finding_provenance_iff [of fs] revalidate_iff [of fs]
  by (simp add: write_findings_def storable_def)

lemma write_findings_bad:
  assumes "\<not> (\<forall>f \<in> set fs. storable f)"
  obtains e where "\<And>s. write_findings w fs s = (Inl e, s)"
proof (cases "enforce_finding_provenance fs")
  case (Inl e)
  then show ?thesis using that [of "Unprovenanced e"] by (simp add: write_findings_def)
next
  case ok: (Inr u)
  show ?thesis
  proof (cases "revalidate_finding_provenance fs")
    case (Inl e)
    then show ?thesis using that [of "InvalidFinding e"] ok by (simp add: write_findings_def)
  next
    case (Inr v)
    then show ?thesis using ok assms enforce_finding_provenance_iff [of fs] revalidate_iff [of fs]
      by (simp add: storable_def)
  qed
qed

lemma known_upsert:
  "known (s\<lparr>ls_findings := upsert_findings w fs (ls_findings s)\<rparr>) k \<longleftrightarrow> known s k \<or> (k = w \<and> fs \<noteq> [])"
proof -
  have "(\<exists>m i. dict_get (upsert_findings w fs d) (k, m, i) \<noteq> None)
      \<longleftrightarrow> (\<exists>m i. dict_get d (k, m, i) \<noteq> None) \<or> (k = w \<and> fs \<noteq> [])" for d
  proof (induction fs rule: rev_induct)
    case (snoc f fs)
    have "upsert_findings w (fs @ [f]) d = dict_set (w, fd_module f, fd_id f) f (upsert_findings w fs d)"
      by (simp add: upsert_findings_def)
    with snoc show ?case by auto
  qed (simp add: upsert_findings_def)
  then show ?thesis by (auto simp: known_def)
qed

lemma write_findings_local: "local_txn sha ts w (write_findings w fs)"
proof (cases "\<forall>f \<in> set fs. storable f")
  case True
  show ?thesis
    by (rule local_txnI)
       (simp_all add: write_findings_ok [OF True] local_inv_update(1) local_inv_tables(1)
          rows_ok_upsert [OF _ True] agree_def known_upsert dict_get_upsert cong: option.case_cong)
next
  case False
  obtain e where "\<And>s. write_findings w fs s = (Inl e, s)" using write_findings_bad [OF False, where w = w] by blast
  then show ?thesis by (intro local_txnI) simp_all
qed

lemma insert_advisories_local: "local_txn sha ts w (insert_advisories w as)"
proof (induction as)
  case Nil
  show ?case by (rule local_txnI) simp_all
next
  case (Cons a as)
  define put :: "unit txn" where "put s = (if dict_get (ls_rca s) (w, ra_index a) \<noteq> None then (Inl IntegrityError, s)
      else (Inr (), s\<lparr>ls_rca := dict_set (w, ra_index a) a (ls_rca s)\<rparr>))" for s
  have "local_txn sha ts w put"
    by (rule local_txnI)
       (simp_all add: put_def agree_def local_inv_update(3) local_inv_tables(3) rows_ok_set)
  moreover have "insert_advisories w (a # as) = tbind put (\<lambda>_. insert_advisories w as)"
    by (rule ext) (simp add: tbind_def put_def)
  ultimately show ?case using local_txn_bind Cons.IH by metis
qed

lemma dict_get_filter_fst:
  "dict_get (filter (\<lambda>((w', _), _). w' \<noteq> w) d) (k, i) = (if k = w then None else dict_get d (k, i))"
  by (induction d) auto

lemma write_rca_local: "local_txn sha ts w (write_rca_advisories w as)"
proof -
  define del :: "unit txn" where "del s = (Inr (), s\<lparr>ls_rca := filter (\<lambda>((w', _), _). w' \<noteq> w) (ls_rca s)\<rparr>)" for s
  have "local_txn sha ts w del"
    by (rule local_txnI)
       (simp_all add: del_def agree_def dict_get_filter_fst local_inv_update(3) local_inv_tables(3) rows_ok_filter)
  moreover have "write_rca_advisories w as = tbind del (\<lambda>_. insert_advisories w as)"
    by (rule ext) (simp add: tbind_def del_def write_rca_advisories_def)
  ultimately show ?thesis using local_txn_bind insert_advisories_local by metis
qed

lemma commit_run_local: "local_txn sha ts w (commit_run b w r)"
  unfolding commit_run_def
  by (intro local_txn_transaction local_txn_bind)
     (auto intro!: local_txn_return local_txn_bind write_estate_local write_graph_local
        write_findings_local write_rca_local split: option.splits if_splits)

lemma put_estate_local: "local_txn sha ts w (put_estate w ns)"
  unfolding put_estate_def by (intro local_txn_transaction write_estate_local)

lemma put_graph_local: "local_txn sha ts w (put_graph w g)"
  unfolding put_graph_def by (intro local_txn_transaction write_graph_local)

lemma add_findings_local: "local_txn sha ts w (add_findings w fs)"
  unfolding add_findings_def by (intro local_txn_transaction write_findings_local)

lemma put_pack_assignment_local: "local_txn sha ts (pa_workload a) (put_pack_assignment a)"
  unfolding put_pack_assignment_def
  by (intro local_txn_transaction local_txnI)
     (simp_all add: agree_def local_inv_update(2) local_inv_tables(2) rows_ok_set)

lemma put_module_config_local: "local_txn sha ts (mc_scope c) (put_module_config c)"
  unfolding put_module_config_def
  by (intro local_txn_transaction local_txnI)
     (simp_all add: agree_def local_inv_update(5) local_inv_tables(5) rows_ok_set)

lemma insert_imported_pack_local: "local_txn sha ts (ip_scope p) (insert_imported_pack p r)"
  by (rule local_txnI)
     (simp_all add: insert_imported_pack_def Let_def agree_def local_inv_update(4) local_inv_tables(4) rows_ok_set)

lemma put_imported_pack_local: "local_txn sha ts (ip_scope p) (put_imported_pack p)"
  unfolding put_imported_pack_def
  by (intro local_txn_transaction local_txn_bind insert_imported_pack_local local_txn_return)

text \<open>\<open>try_record_imported_pack\<close> case by case.\<close>

lemma try_record_cases:
  "try_record_imported_pack p s =
     (case dict_get (ls_imported s) (ip_scope p, ip_packId p, ip_version p) of
        None \<Rightarrow> (Inr p, s\<lparr>ls_imported := dict_set (ip_scope p, ip_packId p, ip_version p) p (ls_imported s)\<rparr>)
      | Some q \<Rightarrow> (if ip_digest q \<noteq> ip_digest p then (Inl ImportConflict, s) else (Inr q, s)))"
  by (simp add: try_record_imported_pack_def transaction_def tbind_def insert_imported_pack_def
      get_imported_pack_def split: option.splits)

lemma try_record_imported_pack_local: "local_txn sha ts (ip_scope p) (try_record_imported_pack p)"
  by (rule local_txnI)
     (simp_all add: try_record_cases agree_def local_inv_update(4) local_inv_tables(4) rows_ok_set
        split: option.split)

text \<open>A snapshot is the latest from then on: its sequence number is above all others.\<close>

lemma snapshot_ok:
  assumes "local_inv sha ts s"
  shows "snapshot w s = (Inr (snapshot_id w (Suc (ls_snapshot_seq s))),
     s\<lparr>ls_snapshots := ls_snapshots s @ [\<lparr>sn_seq = Suc (ls_snapshot_seq s), sn_workload = w,
          sn_findings = finding_rows s w, sn_nodes = map rn_id (read_estate s w)\<rparr>],
       ls_snapshot_seq := Suc (ls_snapshot_seq s)\<rparr>)"
  by (simp add: snapshot_def transaction_def read_findings_ok [OF assms] Let_def)

lemma latest_snapshot_last:
  assumes "snapshots_ok s"
  shows "latest_snapshot s w =
    (if filter (\<lambda>r. sn_workload r = w) (ls_snapshots s) = [] then None
     else Some (last (filter (\<lambda>r. sn_workload r = w) (ls_snapshots s))))"
proof -
  have "sorted (map sn_seq (ls_snapshots s))"
    using assms by (auto simp: snapshots_ok_def strict_sorted_iff)
  then have "sorted (map sn_seq (filter (\<lambda>r. sn_workload r = w) (ls_snapshots s)))"
    by (rule sorted_filter)
  then have "sort_key sn_seq (filter (\<lambda>r. sn_workload r = w) (ls_snapshots s))
      = filter (\<lambda>r. sn_workload r = w) (ls_snapshots s)"
    by (rule sort_key_id_if_sorted)
  then show ?thesis unfolding latest_snapshot_def by (auto split: list.split)
qed

lemma snapshot_local_inv:
  assumes inv: "local_inv sha ts s"
  shows "local_inv sha ts (snd (snapshot w s))"
proof -
  have "snapshots_ok (snd (snapshot w s))"
    using inv finding_rows_storable [OF inv]
    by (force simp: snapshot_ok [OF inv] local_inv_def snapshots_ok_def sorted_wrt_append)
  then show ?thesis using inv by (simp add: snapshot_ok [OF inv] local_inv_def audit_ok_def audit_head_def)
qed

lemma latest_snapshot_snapshot:
  assumes inv: "local_inv sha ts s"
  shows "latest_snapshot (snd (snapshot w s)) k =
    (if k = w then Some \<lparr>sn_seq = Suc (ls_snapshot_seq s), sn_workload = w,
          sn_findings = finding_rows s w, sn_nodes = map rn_id (read_estate s w)\<rparr>
     else latest_snapshot s k)"
proof -
  have ok: "snapshots_ok (snd (snapshot w s))" "snapshots_ok s"
    using snapshot_local_inv [OF inv] inv by (simp_all add: local_inv_def)
  show ?thesis unfolding latest_snapshot_last [OF ok(1)] latest_snapshot_last [OF ok(2)]
    by (simp add: snapshot_ok [OF inv])
qed

lemma snapshot_agree:
  assumes inv: "local_inv sha ts s"
  shows "k \<noteq> w \<Longrightarrow> agree (snd (snapshot w s)) s k"
    and "local_inv sha ts t \<Longrightarrow> agree s t w \<Longrightarrow> agree (snd (snapshot w s)) (snd (snapshot w t)) w"
proof -
  have frame: "ls_estate (snd (snapshot w u)) = ls_estate u" "ls_graph (snd (snapshot w u)) = ls_graph u"
      "ls_findings (snd (snapshot w u)) = ls_findings u" "ls_rca (snd (snapshot w u)) = ls_rca u"
      "ls_assignments (snd (snapshot w u)) = ls_assignments u" "ls_imported (snd (snapshot w u)) = ls_imported u"
      "ls_config (snd (snapshot w u)) = ls_config u" if "local_inv sha ts u" for u
    by (simp_all add: snapshot_ok [OF that])
  show "agree (snd (snapshot w s)) s k" if "k \<noteq> w"
    using that by (simp add: agree_def known_def previous_def read_estate_def frame [OF inv]
        latest_snapshot_snapshot [OF inv])
  show "agree (snd (snapshot w s)) (snd (snapshot w t)) w" if t: "local_inv sha ts t" and st: "agree s t w"
  proof -
    have "finding_rows s w = finding_rows t w" "read_estate s w = read_estate t w"
      using finding_rows_eq [OF inv t, of w] st by (auto simp: agree_def)
    then show ?thesis using st
      by (simp add: agree_def known_def previous_def read_estate_def frame [OF inv] frame [OF t]
          latest_snapshot_snapshot [OF inv] latest_snapshot_snapshot [OF t])
  qed
qed

lemma append_audit_form:
  "append_audit sha ts e s = (Inr (), s\<lparr>ls_audit := ls_audit s @ [chain_event sha ts e (audit_head s)],
     ls_audit_head := Some (compute_entry_hash sha ts e (audit_head s))\<rparr>)"
  by (simp add: append_audit_def transaction_def Let_def chain_event_def)

lemma append_audit_inv: "local_inv sha ts s \<Longrightarrow> local_inv sha ts (snd (append_audit sha ts e s))"
  by (simp add: append_audit_form local_inv_def snapshots_ok_def audit_ok_def audit_head_def
      chain_from_append chain_head_append Let_def) (simp add: chain_event_def compute_entry_hash_def entry_input_def event_bytes_def event_text_def event_json_def)

lemma append_audit_agree: "agree (snd (append_audit sha ts e s)) s k"
  by (simp add: append_audit_form agree_def)

text \<open>Every operation with a key, snapshots apart, works on its key.\<close>

lemma local_txn_apfst: "local_txn sha ts w m \<Longrightarrow> local_txn sha ts w (\<lambda>s. apfst f (m s))"
proof (rule local_txnI)
  assume m: "local_txn sha ts w m"
  show "local_inv sha ts (snd (apfst f (m s)))" if "local_inv sha ts s" for s
    using local_txnD(1) [OF m that] by simp
  show "agree (snd (apfst f (m s))) s k" if "local_inv sha ts s" "k \<noteq> w" for s k
    using local_txnD(2) [OF m that] by simp
  show "fst (apfst f (m s)) = fst (apfst f (m t)) \<and> agree (snd (apfst f (m s))) (snd (apfst f (m t))) w"
    if "local_inv sha ts s" "local_inv sha ts t" "agree s t w" for s t
    using local_txnD(3,4) [OF m that] by simp
qed

lemmas local_ops = put_estate_local put_graph_local add_findings_local commit_run_local
  put_pack_assignment_local put_imported_pack_local try_record_imported_pack_local put_module_config_local

lemma local_write_fun:
  "local_write sha ts b (PutEstate w ns) = (\<lambda>s. apfst done_outcome (put_estate w ns s))"
  "local_write sha ts b (PutGraph w g) = (\<lambda>s. apfst done_outcome (put_graph w g s))"
  "local_write sha ts b (AddFindings w fs) = (\<lambda>s. apfst done_outcome (add_findings w fs s))"
  "local_write sha ts b (CommitRun w r) =
     (\<lambda>s. apfst (\<lambda>o'. case o' of Inl e \<Rightarrow> Failed e | Inr (n, g, f) \<Rightarrow> Counts n g f) (commit_run b w r s))"
  "local_write sha ts b (PutAssignment a) = (\<lambda>s. apfst done_outcome (put_pack_assignment a s))"
  "local_write sha ts b (PutImported p) = (\<lambda>s. apfst done_outcome (put_imported_pack p s))"
  "local_write sha ts b (TryRecordImported p) =
     (\<lambda>s. apfst (\<lambda>o'. case o' of Inl e \<Rightarrow> Failed e | Inr q \<Rightarrow> Recorded q) (try_record_imported_pack p s))"
  "local_write sha ts b (PutModuleConfig c) = (\<lambda>s. apfst done_outcome (put_module_config c s))"
  by (simp_all add: fun_eq_iff)

lemma local_write_local:
  assumes "op_key op = Some k" "\<forall>w. op \<noteq> Snapshot w"
  shows "local_txn sha ts k (local_write sha ts b op)"
  using assms by (cases op) (auto simp: local_write_fun intro!: local_txn_apfst local_ops)

lemma transaction_Inl: "transaction m s = (Inl e, s') \<Longrightarrow> s' = s"
  by (auto simp: transaction_def split: prod.splits sum.splits)

lemma local_write_failed: "fst (local_write sha ts b op s) = Failed e \<Longrightarrow> snd (local_write sha ts b op s) = s"
proof -
  have t: "snd (transaction m s) = s" if "fst (transaction m s) = Inl x" for m :: "'a txn" and x
    using that transaction_Inl [of m s x "snd (transaction m s)"] by (metis prod.collapse)
  have d: "done_outcome r = Failed e \<longleftrightarrow> r = Inl e" for r by (cases r) auto
  show "fst (local_write sha ts b op s) = Failed e \<Longrightarrow> snd (local_write sha ts b op s) = s"
    by (cases op)
       (auto simp: d put_estate_def put_graph_def add_findings_def commit_run_def snapshot_def
          put_pack_assignment_def put_imported_pack_def put_module_config_def append_audit_def
          try_record_cases t split: sum.splits option.splits if_splits)
qed

lemma local_write_inv: "local_inv sha ts s \<Longrightarrow> local_inv sha ts (snd (local_write sha ts b op s))"
proof (cases "op_key op")
  case None
  then show "local_inv sha ts s \<Longrightarrow> ?thesis" by (cases op) (auto simp: append_audit_inv)
next
  case (Some k)
  then show "local_inv sha ts s \<Longrightarrow> ?thesis"
    using local_txnD(1) [OF local_write_local [OF Some]] snapshot_local_inv by (cases op) auto
qed

lemma local_write_frame:
  "local_inv sha ts s \<Longrightarrow> op_key op \<noteq> Some k \<Longrightarrow> agree (snd (local_write sha ts b op s)) s k"
proof (cases "op_key op")
  case None
  then show "?thesis" by (cases op) (auto simp: append_audit_agree)
next
  case (Some j)
  then show "local_inv sha ts s \<Longrightarrow> op_key op \<noteq> Some k \<Longrightarrow> ?thesis"
    using local_txnD(2) [OF local_write_local [OF Some]] snapshot_agree(1) by (cases op) auto
qed

lemma local_write_own:
  "local_inv sha ts s \<Longrightarrow> local_inv sha ts t \<Longrightarrow> op_key op = Some k \<Longrightarrow> agree s t k \<Longrightarrow>
   agree (snd (local_write sha ts b op s)) (snd (local_write sha ts b op t)) k"
  using local_txnD(4) [OF local_write_local [of op k sha ts b]] snapshot_agree(2) [where w = k]
  by (cases op) auto

lemma list_assignments_view:
  "local_inv sha ts s \<Longrightarrow>
   filter (\<lambda>a. pa_workload a = k) (list_pack_assignments s) = get_pack_assignments s k"
proof -
  assume inv: "local_inv sha ts s"
  have key: "fst e = (pa_workload (snd e), pa_packId (snd e))" if "e \<in> set (ls_assignments s)" for e
    using inv that by (auto simp: local_inv_def rows_ok_def)
  have "filter (\<lambda>a. pa_workload a = k) (list_pack_assignments s)
      = map snd (filter (\<lambda>e. pa_workload (snd e) = k) (sort_key fst (ls_assignments s)))"
    by (simp add: list_pack_assignments_def listing_def filter_map comp_def)
  also have "filter (\<lambda>e. pa_workload (snd e) = k) (sort_key fst (ls_assignments s))
      = sort_key fst (filter (\<lambda>e. pa_workload (snd e) = k) (ls_assignments s))"
    by (rule filter_sort)
  also have "filter (\<lambda>e. pa_workload (snd e) = k) (ls_assignments s)
      = filter (\<lambda>e. fst (fst e) = k) (ls_assignments s)"
    using key by (intro filter_cong) auto
  also have "sort_key fst (filter (\<lambda>e. fst (fst e) = k) (ls_assignments s))
      = sort_key (\<lambda>e. snd (fst e)) (filter (\<lambda>e. fst (fst e) = k) (ls_assignments s))"
    by (rule sort_key_pair [where c = k]) auto
  finally show ?thesis
    by (simp add: get_pack_assignments_def listing_def case_prod_beta)
qed

section \<open>The store keeps the contract\<close>

interpretation local_store: state_store "local_inv sha ts" "local_write sha ts b" local_view
    list_workloads list_pack_assignments for sha ts b
proof unfold_locales
  fix s t op k e
  show "local_inv sha ts (snd (local_write sha ts b op s))" if "local_inv sha ts s"
    using that by (rule local_write_inv)
  show "local_view (snd (local_write sha ts b op s)) k = local_view s k"
    if "local_inv sha ts s" "op_key op \<noteq> Some k"
    using view_eq_iff [OF local_write_inv [OF that(1)] that(1)] local_write_frame [OF that] by blast
  show "local_view (snd (local_write sha ts b op s)) k = local_view (snd (local_write sha ts b op t)) k"
    if "local_inv sha ts s" "local_inv sha ts t" "op_key op = Some k" "local_view s k = local_view t k"
    using view_eq_iff [OF that(1,2)] that(4) local_write_own [OF that(1-3)]
      view_eq_iff [OF local_write_inv [OF that(1)] local_write_inv [OF that(2)]] by blast
  show "fst (local_write sha ts b op s) = fst (local_write sha ts b op t)"
    if "local_inv sha ts s" "local_inv sha ts t" "op_key op = Some k" "local_view s k = local_view t k"
      "\<forall>w. op \<noteq> Snapshot w"
    using view_eq_iff [OF that(1,2)] that(4)
      local_txnD(3) [OF local_write_local [OF that(3,5)] that(1,2)] by blast
  show "local_view (snd (local_write sha ts b op s)) k = local_view s k"
    if "local_inv sha ts s" "fst (local_write sha ts b op s) = Failed e"
    using local_write_failed [OF that(2)] by simp
  show "(k \<in> set (list_workloads s)) = sv_known (local_view s k)" if "local_inv sha ts s"
    by (simp add: local_view_def)
  show "filter (\<lambda>a. pa_workload a = k) (list_pack_assignments s) = sv_assignments (local_view s k)"
    if "local_inv sha ts s"
    using list_assignments_view [OF that] by (simp add: local_view_def)
qed

section \<open>Properties of the store\<close>

text \<open>Any sequence of writes, whether or not each succeeds.\<close>

definition local_run ::
    "(nat list \<Rightarrow> string) \<Rightarrow> (int \<Rightarrow> string) \<Rightarrow> advisory_builder \<Rightarrow> write_op list \<Rightarrow> local_state \<Rightarrow> local_state" where
  "local_run sha ts b ops s = foldl (\<lambda>s op. snd (local_write sha ts b op s)) s ops"

lemma local_run_simps [simp]:
  "local_run sha ts b [] s = s"
  "local_run sha ts b (op # ops) s = local_run sha ts b ops (snd (local_write sha ts b op s))"
  by (simp_all add: local_run_def)

lemma local_run_eq: "local_run sha ts b ops s = local_store.run sha ts b ops s"
  by (simp add: local_run_def local_store.run_def)

lemma local_run_inv: "local_inv sha ts s \<Longrightarrow> local_inv sha ts (local_run sha ts b ops s)"
  unfolding local_run_eq by (rule local_store.inv_run)

text \<open>C1: whatever is written, in any order, from an empty store: every stored finding has
  attributable evidence and complete pack-or-structural provenance, so reading findings and snapshots
  back never fails, and the audit log verifies under the stored head.\<close>

theorem local_store_reachable_sound:
  "\<exists>fs ps. read_findings (local_run sha ts b ops empty_state) w None = Inr fs
     \<and> get_previous_findings (local_run sha ts b ops empty_state) w = Inr ps
     \<and> list_all storable (fs @ ps)
     \<and> verify_audit_chain sha ts (list_audit (local_run sha ts b ops empty_state) None)
          (Some (audit_head (local_run sha ts b ops empty_state))) GENESIS_HASH = None"
proof -
  let ?s = "local_run sha ts b ops empty_state"
  have inv: "local_inv sha ts ?s" by (rule local_run_inv [OF empty_state_inv])
  have "verify_loop sha ts 0 GENESIS_HASH (ls_audit ?s) = Inr (audit_head ?s)"
    using inv unfolding verify_loop_ok_iff by (simp add: local_inv_def audit_ok_def)
  then have audit: "verify_audit_chain sha ts (list_audit ?s None) (Some (audit_head ?s)) GENESIS_HASH = None"
    by (simp add: verify_audit_chain_def list_audit_def)
  have "\<forall>f \<in> set (fst (previous ?s w)). storable f"
  proof (cases "latest_snapshot ?s w")
    case (Some r)
    then show ?thesis using inv latest_snapshot_mem [OF Some]
      by (auto simp: previous_def local_inv_def snapshots_ok_def)
  qed (simp add: previous_def)
  then show ?thesis
    using read_findings_ok [OF inv, of w] get_previous_findings_ok [OF inv, of w]
      finding_rows_storable [OF inv, of _ w] audit
    by (auto simp: list_all_iff)
qed

lemma insert_advisories_ok:
  "fst (insert_advisories w as s) = Inr () \<longleftrightarrow>
     distinct (map ra_index as) \<and> (\<forall>a \<in> set as. dict_get (ls_rca s) (w, ra_index a) = None)"
proof (induction as arbitrary: s)
  case (Cons a as)
  have "(\<forall>x \<in> set as. ra_index x \<noteq> ra_index a) \<longleftrightarrow> ra_index a \<notin> ra_index ` set as"
    by (metis imageE imageI)
  with Cons show ?case by auto
qed simp

lemma insert_advisories_state:
  "fst (insert_advisories w as s) = Inr () \<Longrightarrow>
   snd (insert_advisories w as s)
   = s\<lparr>ls_rca := foldl (\<lambda>d a. dict_set (w, ra_index a) a d) (ls_rca s) as\<rparr>"
  by (induction as arbitrary: s) (auto split: if_splits)

lemma dict_get_foldl_advisories:
  "distinct (map ra_index as) \<Longrightarrow>
   dict_get (foldl (\<lambda>d a. dict_set (w, ra_index a) a d) d as) (w', i) =
     (if w' = w then (case find (\<lambda>a. ra_index a = i) as of None \<Rightarrow> dict_get d (w, i) | Some a \<Rightarrow> Some a)
      else dict_get d (w', i))"
proof (induction as arbitrary: d)
  case (Cons a as)
  have "find (\<lambda>x. ra_index x = ra_index a) as = None"
    using Cons.prems by (simp add: find_None_iff) (metis imageI)
  with Cons show ?case by (auto split: option.split)
qed simp

lemma write_rca_ok:
  "fst (write_rca_advisories w as s) = Inr () \<longleftrightarrow> distinct (map ra_index as)"
  by (simp add: write_rca_advisories_def insert_advisories_ok dict_get_filter_fst)

lemma write_rca_state:
  assumes "distinct (map ra_index as)"
  shows "\<exists>d. write_rca_advisories w as s = (Inr (), s\<lparr>ls_rca := d\<rparr>)
    \<and> (\<forall>i. dict_get d (w, i) = find (\<lambda>a. ra_index a = i) as)"
proof -
  let ?s = "s\<lparr>ls_rca := filter (\<lambda>((w', _), _). w' \<noteq> w) (ls_rca s)\<rparr>"
  let ?d = "foldl (\<lambda>d a. dict_set (w, ra_index a) a d) (ls_rca ?s) as"
  have ok: "fst (insert_advisories w as ?s) = Inr ()"
    using write_rca_ok [of w as s] assms by (simp add: write_rca_advisories_def)
  have "write_rca_advisories w as s = (Inr (), s\<lparr>ls_rca := ?d\<rparr>)"
    using ok insert_advisories_state [OF ok] by (simp add: write_rca_advisories_def prod_eq_iff)
  moreover have "dict_get ?d (w, i) = find (\<lambda>a. ra_index a = i) as" for i
    unfolding dict_get_foldl_advisories [OF assms] by (simp add: dict_get_filter_fst split: option.split)
  ultimately show ?thesis by blast
qed

text \<open>When a run may be committed.\<close>

definition committable :: "advisory_builder \<Rightarrow> module_run_result \<Rightarrow> bool" where
  "committable b r \<longleftrightarrow> list_all storable (mr_findings r)
     \<and> (dict_get (mr_extra r) ''rca'' = None \<or> distinct (map ra_index (b (mr_extra r))))"

lemma commit_run_fails:
  assumes "\<not> committable b r"
  shows "\<exists>e. commit_run b w r s = (Inl e, s)"
proof (cases "list_all storable (mr_findings r)")
  case True
  then have rca: "dict_get (mr_extra r) ''rca'' \<noteq> None" "\<not> distinct (map ra_index (b (mr_extra r)))"
    using assms by (auto simp: committable_def)
  have "\<exists>e t'. write_rca_advisories w (b (mr_extra r)) t = (Inl e, t')" for t
    using write_rca_ok [of w "b (mr_extra r)" t] rca(2)
    by (cases "write_rca_advisories w (b (mr_extra r)) t"; cases "fst (write_rca_advisories w (b (mr_extra r)) t)") auto
  then obtain e t' where et: "write_rca_advisories w (b (mr_extra r)) t = (Inl (e t), t' t)" for t
    by metis
  have st: "\<forall>f \<in> set (mr_findings r). storable f" using True by (simp add: list_all_iff)
  show ?thesis using rca(1)
    by (cases "mr_estate r"; cases "mr_graph r")
       (simp_all add: commit_run_def transaction_def tbind_def treturn_def write_estate_def write_graph_def
          write_findings_ok [OF st] et)
next
  case False
  then have bad: "\<not> (\<forall>f \<in> set (mr_findings r). storable f)" by (simp add: list_all_iff)
  then have ne: "mr_findings r \<noteq> []" by auto
  obtain e where "\<And>s. write_findings w (mr_findings r) s = (Inl e, s)"
    using write_findings_bad [OF bad, where w = w] by blast
  with ne show ?thesis
    by (cases "mr_estate r"; cases "mr_graph r")
       (simp_all add: commit_run_def transaction_def tbind_def treturn_def write_estate_def write_graph_def)
qed

lemma commit_run_succeeds:
  assumes "committable b r"
  shows "\<exists>s'. commit_run b w r s =
      (Inr (case mr_estate r of None \<Rightarrow> 0 | Some ns \<Rightarrow> length ns,
            case mr_graph r of None \<Rightarrow> 0 | Some g \<Rightarrow> 1, length (mr_findings r)), s')
    \<and> read_estate s' w = (case mr_estate r of None \<Rightarrow> read_estate s w | Some ns \<Rightarrow> ns)
    \<and> dict_get (ls_graph s') w = (case mr_graph r of None \<Rightarrow> dict_get (ls_graph s) w | Some g \<Rightarrow> Some g)
    \<and> (\<forall>m i. dict_get (ls_findings s') (w, m, i) =
          (case find (\<lambda>f. fd_module f = m \<and> fd_id f = i) (rev (mr_findings r)) of
             None \<Rightarrow> dict_get (ls_findings s) (w, m, i) | Some f \<Rightarrow> Some f))
    \<and> (\<forall>i. dict_get (ls_rca s') (w, i) =
          (if dict_get (mr_extra r) ''rca'' = None then dict_get (ls_rca s) (w, i)
           else find (\<lambda>a. ra_index a = i) (b (mr_extra r))))"
proof -
  have st: "\<forall>f \<in> set (mr_findings r). storable f" using assms by (simp add: committable_def list_all_iff)
  define s1 where "s1 = (case mr_estate r of None \<Rightarrow> s | Some ns \<Rightarrow> s\<lparr>ls_estate := dict_set w ns (ls_estate s)\<rparr>)"
  define s2 where "s2 = (case mr_graph r of None \<Rightarrow> s1 | Some g \<Rightarrow> s1\<lparr>ls_graph := dict_set w g (ls_graph s1)\<rparr>)"
  define s3 where "s3 = s2\<lparr>ls_findings := upsert_findings w (mr_findings r) (ls_findings s2)\<rparr>"
  have s3: "write_findings w (mr_findings r) s2 = (Inr (), s3)"
      "mr_findings r = [] \<Longrightarrow> s3 = s2"
    by (simp_all add: s3_def write_findings_ok [OF st] upsert_findings_def)
  obtain s4 where s4: "(if dict_get (mr_extra r) ''rca'' = None then (Inr (), s3)
      else write_rca_advisories w (b (mr_extra r)) s3) = (Inr (), s4)"
    and s4_frame: "s4 = s3\<lparr>ls_rca := ls_rca s4\<rparr>"
    and s4_rca: "\<And>i. dict_get (ls_rca s4) (w, i) =
          (if dict_get (mr_extra r) ''rca'' = None then dict_get (ls_rca s3) (w, i)
           else find (\<lambda>a. ra_index a = i) (b (mr_extra r)))"
  proof (cases "dict_get (mr_extra r) ''rca'' = None")
    case False
    then have "distinct (map ra_index (b (mr_extra r)))" using assms by (auto simp: committable_def)
    then obtain d where "write_rca_advisories w (b (mr_extra r)) s3 = (Inr (), s3\<lparr>ls_rca := d\<rparr>)"
        "\<forall>i. dict_get d (w, i) = find (\<lambda>a. ra_index a = i) (b (mr_extra r))"
      using write_rca_state by blast
    then show ?thesis using that [of "s3\<lparr>ls_rca := d\<rparr>"] False by simp
  qed simp
  have commit: "commit_run b w r s =
      (Inr (case mr_estate r of None \<Rightarrow> 0 | Some ns \<Rightarrow> length ns,
            case mr_graph r of None \<Rightarrow> 0 | Some g \<Rightarrow> 1, length (mr_findings r)), s4)"
    using s3 s4
    by (cases "mr_estate r"; cases "mr_graph r"; cases "mr_findings r = []";
        cases "dict_get (mr_extra r) ''rca''")
       (simp_all add: commit_run_def transaction_def tbind_def treturn_def write_estate_def write_graph_def
          s1_def s2_def)
  have old: "ls_findings s2 = ls_findings s" "ls_rca s3 = ls_rca s"
    by (simp_all add: s1_def s2_def s3_def split: option.split)
  have f: "ls_estate s4 = ls_estate s1" "ls_graph s4 = ls_graph s2" "ls_findings s4 = ls_findings s3"
    by (subst s4_frame; simp add: s3_def s2_def split: option.split)+
  show ?thesis
    by (intro exI [of _ s4] conjI, fact commit)
       (simp_all add: read_estate_def f s4_rca old s3_def dict_get_upsert s1_def s2_def split: option.split)
qed

text \<open>C2: committing a run is all or nothing. When some finding lacks evidence or provenance, or two
  advisories share an index, the store is left exactly as it was; otherwise the reads show the run: the
  estate and the graph are replaced when the run carries them (an empty estate clears the old one),
  findings are upserted by module and id, the advisories are replaced by a run that carries an RCA, and
  no other workload changes.\<close>

theorem commit_run_atomic:
  assumes "local_inv sha ts s"
  shows "if committable b r then
      \<exists>s'. commit_run b w r s =
        (Inr (case mr_estate r of None \<Rightarrow> 0 | Some ns \<Rightarrow> length ns,
              case mr_graph r of None \<Rightarrow> 0 | Some g \<Rightarrow> 1, length (mr_findings r)), s')
      \<and> read_estate s' w = (case mr_estate r of None \<Rightarrow> read_estate s w | Some ns \<Rightarrow> ns)
      \<and> dict_get (ls_graph s') w = (case mr_graph r of None \<Rightarrow> dict_get (ls_graph s) w | Some g \<Rightarrow> Some g)
      \<and> (\<forall>m i. dict_get (ls_findings s') (w, m, i) =
            (case find (\<lambda>f. fd_module f = m \<and> fd_id f = i) (rev (mr_findings r)) of
               None \<Rightarrow> dict_get (ls_findings s) (w, m, i) | Some f \<Rightarrow> Some f))
      \<and> (\<forall>i. dict_get (ls_rca s') (w, i) =
            (if dict_get (mr_extra r) ''rca'' = None then dict_get (ls_rca s) (w, i)
             else find (\<lambda>a. ra_index a = i) (b (mr_extra r))))
      \<and> (\<forall>k. k \<noteq> w \<longrightarrow> local_view s' k = local_view s k)
    else \<exists>e. commit_run b w r s = (Inl e, s)"
proof (cases "committable b r")
  case True
  obtain s' where s': "s' = snd (commit_run b w r s)" by simp
  have view: "local_view s' k = local_view s k" if "k \<noteq> w" for k
    using local_txnD(1) [OF commit_run_local assms] local_txnD(2) [OF commit_run_local assms that]
      view_eq_iff [OF _ assms] unfolding s' by blast
  have combine: "\<exists>t. commit_run b w r s = (q, t) \<and> P t \<Longrightarrow>
      \<exists>t. commit_run b w r s = (q, t) \<and> P t \<and> (\<forall>k. k \<noteq> w \<longrightarrow> local_view t k = local_view s k)" for q P
    using s' view by auto
  from combine [OF commit_run_succeeds [OF True, of w s]] show ?thesis
    unfolding if_P [OF True] by (simp only: conj_assoc)
next
  case False
  then show ?thesis using commit_run_fails by simp
qed

definition sample_finding :: "source_reference list \<Rightarrow> finding" where
  "sample_finding ev = \<lparr>fd_id = ''f'', fd_module = ''quality_checks'', fd_title = ''t'', fd_passed = Some False,
     fd_severity = SV_high, fd_nodeId = None, fd_blastRadius = 0, fd_evidence = ev, fd_provenance = PK_pack,
     fd_packId = Some ''p'', fd_packVersion = Some ''1.0.0'', fd_structuralKind = None, fd_detail = None,
     fd_createdAt = 0\<rparr>"

definition sample_result :: "source_reference list \<Rightarrow> module_run_result" where
  "sample_result ev = \<lparr>mr_module = ''quality_checks'', mr_ok = True, mr_findings = [sample_finding ev],
     mr_estate = Some [], mr_graph = None, mr_response = None, mr_extra = []\<rparr>"

theorem commit_run_atomic_witness:
  "(\<exists>e. commit_run (\<lambda>_. []) ''w'' (sample_result []) empty_state = (Inl e, empty_state))
   \<and> (\<exists>s'. commit_run (\<lambda>_. []) ''w'' (sample_result [\<lparr>sr_kind = ''resource'', sr_id = ''r'', sr_detail = None\<rparr>])
             empty_state = (Inr (0, 0, 1), s'))"
proof -
  have no: "\<not> committable (\<lambda>_. []) (sample_result [])"
    by (simp add: committable_def sample_result_def sample_finding_def storable_def finding_has_provenance_def)
  have yes: "committable (\<lambda>_. []) (sample_result [\<lparr>sr_kind = ''resource'', sr_id = ''r'', sr_detail = None\<rparr>])"
    by (simp add: committable_def sample_result_def sample_finding_def storable_def finding_has_provenance_def
        reference_is_attributable_def py_strip_def py_isspace_def SOURCE_REFERENCE_KINDS_def
        provenance_complete_def)
  show ?thesis
    using commit_run_atomic [OF empty_state_inv, of "\<lambda>_. []" "sample_result []" "''w''", unfolded if_not_P [OF no]]
      commit_run_atomic [OF empty_state_inv, of "\<lambda>_. []" "sample_result [\<lparr>sr_kind = ''resource'', sr_id = ''r'', sr_detail = None\<rparr>]"
        "''w''", unfolded if_P [OF yes]]
    by (auto simp: sample_result_def)
qed

section \<open>What stays\<close>

text \<open>Tables an operation does not write.\<close>

definition frame_of :: "local_state \<Rightarrow> (string \<times> string \<times> string, imported_pack) dict \<times> audit_event list \<times> snapshot_row list" where
  "frame_of s = (ls_imported s, ls_audit s, ls_snapshots s)"

lemma insert_advisories_frame: "frame_of (snd (insert_advisories w as s)) = frame_of s"
  by (induction as arbitrary: s) (auto simp: frame_of_def)

lemma transaction_frame: "(\<And>s. frame_of (snd (m s)) = frame_of s) \<Longrightarrow> frame_of (snd (transaction m s)) = frame_of s"
  by (auto simp: transaction_def split: prod.split sum.split) (metis snd_conv)

lemma tbind_frame:
  assumes "\<And>s. frame_of (snd (m s)) = frame_of s" "\<And>x s. frame_of (snd (f x s)) = frame_of s"
  shows "frame_of (snd (tbind m f s)) = frame_of s"
proof (cases "m s")
  case (Pair r s')
  with assms(1) [of s] assms(2) show ?thesis by (auto simp: tbind_def split: sum.split)
qed

lemma commit_run_frame: "frame_of (snd (commit_run b w r s)) = frame_of s"
proof -
  have fnd: "frame_of (snd (write_findings w fs s)) = frame_of s" for fs s
    by (auto simp: write_findings_def frame_of_def split: sum.split)
  have rca: "frame_of (snd (write_rca_advisories w as s)) = frame_of s" for as s
    by (simp add: write_rca_advisories_def insert_advisories_frame) (simp add: frame_of_def)
  show ?thesis unfolding commit_run_def
    by (intro transaction_frame tbind_frame)
       (auto simp: treturn_def write_estate_def write_graph_def fnd rca tbind_frame
          split: option.split intro!: tbind_frame, auto simp: frame_of_def)
qed

lemma local_write_frame_of:
  "frame_of (snd (local_write sha ts b op s)) = frame_of s
   \<or> (\<exists>w. op = Snapshot w) \<or> (\<exists>p. op = PutImported p \<or> op = TryRecordImported p) \<or> (\<exists>e. op = AppendAudit e)"
proof (cases op)
  case (CommitRun w r)
  then show ?thesis by (simp add: commit_run_frame)
next
  case (AddFindings w fs)
  then show ?thesis
    by (auto simp: add_findings_def frame_of_def transaction_def write_findings_def split: sum.split)
qed (auto simp: put_estate_def put_graph_def put_pack_assignment_def put_module_config_def transaction_def
      write_estate_def write_graph_def frame_of_def)

lemma put_imported_form:
  "put_imported_pack p s =
     (Inr (), s\<lparr>ls_imported := dict_set (ip_scope p, ip_packId p, ip_version p) p (ls_imported s)\<rparr>)"
  by (simp add: put_imported_pack_def transaction_def tbind_def treturn_def insert_imported_pack_def)

lemma imported_kept:
  assumes "dict_get (ls_imported s) key = Some q"
    and "\<forall>p. op = PutImported p \<longrightarrow> (ip_scope p, ip_packId p, ip_version p) \<noteq> key"
    and inv: "local_inv sha ts s"
  shows "dict_get (ls_imported (snd (local_write sha ts b op s))) key = Some q"
proof (cases op)
  case (Snapshot w)
  then show ?thesis using assms(1) by (simp add: snapshot_ok [OF inv])
next
  case (PutImported p)
  then show ?thesis using assms(1,2) by (auto simp: put_imported_form)
next
  case (TryRecordImported p)
  then show ?thesis using assms(1) by (auto simp: try_record_cases split: option.split)
next
  case (AppendAudit e)
  then show ?thesis using assms(1) by (simp add: append_audit_form)
qed (use assms(1) local_write_frame_of [of sha ts b op s] in \<open>simp_all add: frame_of_def\<close>)

lemma imported_kept_run:
  "dict_get (ls_imported s) key = Some q \<Longrightarrow> local_inv sha ts s \<Longrightarrow>
   \<forall>p. PutImported p \<in> set ops \<longrightarrow> (ip_scope p, ip_packId p, ip_version p) \<noteq> key \<Longrightarrow>
   dict_get (ls_imported (local_run sha ts b ops s)) key = Some q"
proof (induction ops arbitrary: s)
  case (Cons op ops)
  have "dict_get (ls_imported (snd (local_write sha ts b op s))) key = Some q"
    using Cons.prems by (intro imported_kept) auto
  then show ?case using Cons.IH Cons.prems local_write_inv by simp
qed simp

text \<open>an imported pack version is immutable. Once a tenant's \<open>(scope, id, version)\<close> is recorded,
  whatever else is written - concurrent imports of the same version included, administrative replaces
  of that version excluded - the first record stays, and recording the version again returns that
  record when the digest is the same and is a conflict that changes nothing when it is not.\<close>

theorem imported_version_immutable:
  assumes "local_inv sha ts s"
    and "get_imported_pack s (ip_scope p) (ip_packId p) (ip_version p) = None"
    and "\<forall>q. PutImported q \<in> set ops \<longrightarrow>
      (ip_scope q, ip_packId q, ip_version q) \<noteq> (ip_scope p, ip_packId p, ip_version p)"
    and "s' = local_run sha ts b ops (snd (try_record_imported_pack p s))"
    and "ip_scope q = ip_scope p" "ip_packId q = ip_packId p" "ip_version q = ip_version p"
  shows "fst (try_record_imported_pack p s) = Inr p
    \<and> get_imported_pack s' (ip_scope p) (ip_packId p) (ip_version p) = Some p
    \<and> try_record_imported_pack q s' = (if ip_digest q = ip_digest p then Inr p else Inl ImportConflict, s')"
proof -
  let ?key = "(ip_scope p, ip_packId p, ip_version p)"
  have t: "try_record_imported_pack p s = (Inr p, s\<lparr>ls_imported := dict_set ?key p (ls_imported s)\<rparr>)"
    using assms(2) by (simp add: try_record_cases get_imported_pack_def)
  have inv: "local_inv sha ts (snd (try_record_imported_pack p s))"
    using local_write_inv [OF assms(1), of b "TryRecordImported p"] by simp
  have kept: "dict_get (ls_imported s') ?key = Some p"
    unfolding assms(4) by (rule imported_kept_run [OF _ inv assms(3)]) (simp add: t)
  then show ?thesis
    using assms(5-7) t by (auto simp: get_imported_pack_def try_record_cases)
qed

definition sample_import :: "string \<Rightarrow> imported_pack" where
  "sample_import d = \<lparr>ip_scope = ''s'', ip_packId = ''p'', ip_version = ''1.0.0'', ip_packType = PT_rule,
     ip_digest = d, ip_signature = None, ip_keyId = None, ip_importedBy = ''u'', ip_importedAt = 0\<rparr>"

theorem imported_version_immutable_witness:
  "fst (try_record_imported_pack (sample_import ''d2'')
     (local_run bytes_hex (\<lambda>_. []) (\<lambda>_. []) [TryRecordImported (sample_import ''d3''), PutEstate ''w'' []]
       (snd (try_record_imported_pack (sample_import ''d1'') empty_state)))) = Inl ImportConflict"
  using imported_version_immutable [where s = empty_state and p = "sample_import ''d1''" and q = "sample_import ''d2''"
      and sha = bytes_hex and ts = "\<lambda>_. []" and b = "\<lambda>_. []"
      and ops = "[TryRecordImported (sample_import ''d3''), PutEstate ''w'' []]", OF empty_state_inv _ _ refl]
  by (simp add: sample_import_def get_imported_pack_def empty_state_def)

text \<open>The events appended by a run, in order.\<close>

fun appended :: "write_op list \<Rightarrow> audit_event list" where
  "appended [] = []"
| "appended (AppendAudit e # ops) = e # appended ops"
| "appended (_ # ops) = appended ops"

lemma audit_write:
  assumes inv: "local_inv sha ts s"
  shows "ls_audit (snd (local_write sha ts b op s)) = ls_audit s @ chain_from sha ts (audit_head s) (appended [op])
    \<and> audit_head (snd (local_write sha ts b op s)) = chain_head sha ts (audit_head s) (appended [op])"
proof -
  have inv': "local_inv sha ts (snd (local_write sha ts b op s))" using inv by (rule local_write_inv)
  have audit: "ls_audit (snd (local_write sha ts b op s)) = ls_audit s @ chain_from sha ts (audit_head s) (appended [op])"
  proof (cases op)
    case (Snapshot w)
    then show ?thesis by (simp add: snapshot_ok [OF inv])
  next
    case (PutImported p)
    then show ?thesis by (simp add: put_imported_form)
  next
    case (TryRecordImported p)
    then show ?thesis by (auto simp: try_record_cases split: option.split)
  next
    case (AppendAudit e)
    then show ?thesis by (simp add: append_audit_form Let_def)
  qed (use local_write_frame_of [of sha ts b op s] in \<open>simp_all add: frame_of_def\<close>)
  have "audit_head (snd (local_write sha ts b op s))
      = chain_head sha ts GENESIS_HASH (ls_audit s @ chain_from sha ts (audit_head s) (appended [op]))"
    using inv' audit by (simp add: local_inv_def audit_ok_def)
  also have "\<dots> = chain_head sha ts (audit_head s) (appended [op])"
    using inv by (simp add: local_inv_def audit_ok_def chain_head_append)
  finally show ?thesis using audit by simp
qed

lemma appended_Cons: "appended (op # ops) = appended [op] @ appended ops"
  by (cases op) auto

text \<open>C17: the audit log is append-only and ordered. After any sequence of writes the log is the log
  before, unchanged, followed by exactly the events appended since, in order and chained onto the head;
  failed and other writes leave no trace in it.\<close>

theorem audit_log_append_only:
  assumes "local_inv sha ts s"
  shows "list_audit (local_run sha ts b ops s) None
    = list_audit s None @ chain_from sha ts (audit_head s) (appended ops)"
  using assms
proof (induction ops arbitrary: s)
  case (Cons op ops)
  have inv': "local_inv sha ts (snd (local_write sha ts b op s))"
    using Cons.prems by (rule local_write_inv)
  show ?case
    using Cons.IH [OF inv'] audit_write [OF Cons.prems, of b op]
    by (simp add: list_audit_def chain_from_append appended_Cons [of op ops] del: appended.simps)
qed (simp add: list_audit_def)

theorem audit_log_append_only_witness:
  "length (list_audit (local_run bytes_hex (\<lambda>_. []) (\<lambda>_. [])
     [AppendAudit (sample_event ''1''), PutEstate ''w'' [], AppendAudit (sample_event ''2'')] empty_state) None) = 2"
  by (subst audit_log_append_only [OF empty_state_inv]) (simp add: list_audit_def empty_state_def)

lemma latest_kept:
  assumes "latest_snapshot s w = Some r" "op \<noteq> Snapshot w" "local_inv sha ts s"
  shows "latest_snapshot (snd (local_write sha ts b op s)) w = Some r"
proof -
  have f: ?thesis if "frame_of (snd (local_write sha ts b op s)) = frame_of s"
    using that assms(1) by (simp add: latest_snapshot_def frame_of_def)
  show ?thesis
  proof (cases op)
    case (Snapshot v)
    then show ?thesis using assms by (simp add: latest_snapshot_snapshot)
  next
    case (PutImported p)
    then show ?thesis using assms(1) by (simp add: put_imported_form)
  next
    case (TryRecordImported p)
    then show ?thesis using assms(1) by (auto simp: try_record_cases split: option.split)
  next
    case (AppendAudit e)
    then show ?thesis using assms(1) by (simp add: append_audit_form)
  qed (rule f, use local_write_frame_of [of sha ts b op s] in simp)+
qed

lemma latest_kept_run:
  "latest_snapshot s w = Some r \<Longrightarrow> local_inv sha ts s \<Longrightarrow> Snapshot w \<notin> set ops \<Longrightarrow>
   latest_snapshot (local_run sha ts b ops s) w = Some r"
proof (induction ops arbitrary: s)
  case (Cons op ops)
  then show ?case using latest_kept [of s w r op sha ts b] local_write_inv by auto
qed simp

text \<open>a snapshot is a frozen point in time. Until the workload is snapshot again, whatever else is
  written, the previous findings and node ids are exactly those that were current when it was taken.\<close>

theorem snapshot_frozen:
  assumes "local_inv sha ts s" and "Snapshot w \<notin> set ops"
    and "s' = local_run sha ts b ops (snd (snapshot w s))"
  shows "get_previous_findings s' w = read_findings s w None
    \<and> get_previous_node_ids s' w = map rn_id (read_estate s w)"
proof -
  have inv: "local_inv sha ts (snd (snapshot w s))" by (rule snapshot_local_inv [OF assms(1)])
  have inv': "local_inv sha ts s'" unfolding assms(3) by (rule local_run_inv [OF inv])
  have "latest_snapshot s' w = Some \<lparr>sn_seq = Suc (ls_snapshot_seq s), sn_workload = w,
      sn_findings = finding_rows s w, sn_nodes = map rn_id (read_estate s w)\<rparr>"
    unfolding assms(3)
    by (rule latest_kept_run [OF _ inv assms(2)]) (simp add: latest_snapshot_snapshot [OF assms(1)])
  then show ?thesis
    by (simp add: get_previous_findings_ok [OF inv'] get_previous_node_ids_eq previous_def
        read_findings_ok [OF assms(1)])
qed

theorem snapshot_frozen_witness:
  "get_previous_node_ids (local_run bytes_hex (\<lambda>_. []) (\<lambda>_. []) [PutEstate ''w'' [], Snapshot ''v'']
     (snd (snapshot ''w'' (snd (put_estate ''w''
        [\<lparr>rn_id = ''n'', rn_name = ''n'', rn_type = ''vm'', rn_workload = None, rn_tier = None, rn_role = None,
          rn_tags = []\<rparr>] empty_state))))) ''w'' = [''n'']"
proof -
  let ?s = "snd (put_estate ''w'' [\<lparr>rn_id = ''n'', rn_name = ''n'', rn_type = ''vm'', rn_workload = None,
      rn_tier = None, rn_role = None, rn_tags = []\<rparr>] empty_state)"
  have inv: "local_inv bytes_hex (\<lambda>_. []) ?s"
    using local_txnD(1) [OF put_estate_local empty_state_inv] .
  show ?thesis
    using snapshot_frozen [OF inv _ refl, where w = "''w''" and ops = "[PutEstate ''w'' [], Snapshot ''v'']" and b = "\<lambda>_. []"]
    by (simp add: put_estate_def transaction_def write_estate_def read_estate_def empty_state_def)
qed

end
