(* ===== verification/Tenant_State.thy ===== *)
theory Tenant_State
  imports Tenancy State_Local
begin

text \<open>
  \<open>TenantScopedState\<close> of \<open>api/app/tenant_state.py\<close>: every operation is threaded through the tenant's
  partition key before it reaches the inner store. The facade is written over the operations of any
  store; that tenants are isolated is proved once, against the contract \<open>state_store\<close>, and holds of
  the local store by its interpretation.
\<close>

section \<open>Threading the key\<close>

text \<open>\<open>_key\<close>. \<open>TenantContext\<close> validates its tenant id at construction (\<open>valid_context\<close>).\<close>

definition valid_context :: "tenant_context \<Rightarrow> bool" where
  "valid_context t \<longleftrightarrow> is_tenant_id_safe (tc_tenant_id t)"

definition scoped_key :: "tenant_context \<Rightarrow> string \<Rightarrow> string" where
  "scoped_key t w = projr (tenant_partition_key (tc_tenant_id t) w)"

definition IMPORTS_SCOPE :: string where
  "IMPORTS_SCOPE = ''_imports''"

definition MODULES_SCOPE :: string where
  "MODULES_SCOPE = ''_modules''"

text \<open>The operation the inner store receives. \<open>record_imported_pack\<close> and
  \<open>try_record_imported_pack\<close> replace the scope; \<open>set_disabled_modules\<close> builds the configuration.\<close>

fun scope_op :: "tenant_context \<Rightarrow> write_op \<Rightarrow> write_op" where
  "scope_op t (PutEstate w ns) = PutEstate (scoped_key t w) ns"
| "scope_op t (PutGraph w g) = PutGraph (scoped_key t w) g"
| "scope_op t (AddFindings w fs) = AddFindings (scoped_key t w) fs"
| "scope_op t (CommitRun w r) = CommitRun (scoped_key t w) r"
| "scope_op t (Snapshot w) = Snapshot (scoped_key t w)"
| "scope_op t (PutAssignment a) = PutAssignment (a\<lparr>pa_workload := scoped_key t (pa_workload a)\<rparr>)"
| "scope_op t (PutImported p) = PutImported (p\<lparr>ip_scope := scoped_key t IMPORTS_SCOPE\<rparr>)"
| "scope_op t (TryRecordImported p) = TryRecordImported (p\<lparr>ip_scope := scoped_key t IMPORTS_SCOPE\<rparr>)"
| "scope_op t (PutModuleConfig c) =
     PutModuleConfig \<lparr>mc_scope = scoped_key t MODULES_SCOPE, mc_disabled = sort (remdups (mc_disabled c))\<rparr>"
| "scope_op t (AppendAudit e) = AppendAudit e"

text \<open>\<open>s.replace(old, new, 1)\<close> for a non-empty \<open>old\<close>.\<close>

fun py_replace1 :: "string \<Rightarrow> string \<Rightarrow> string \<Rightarrow> string" where
  "py_replace1 old new [] = []"
| "py_replace1 old new (c # cs) =
     (if prefix old (c # cs) then new @ drop (length old) (c # cs) else c # py_replace1 old new cs)"

text \<open>What the caller sees: the snapshot id with the logical workload restored.\<close>

definition unscope_outcome :: "tenant_context \<Rightarrow> write_op \<Rightarrow> write_outcome \<Rightarrow> write_outcome" where
  "unscope_outcome t op out =
     (case (op, out) of
        (Snapshot w, SnapshotId i) \<Rightarrow> SnapshotId (py_replace1 (scoped_key t w) w i)
      | _ \<Rightarrow> out)"

definition tenant_write ::
    "(write_op \<Rightarrow> 's \<Rightarrow> write_outcome \<times> 's) \<Rightarrow> tenant_context \<Rightarrow> write_op \<Rightarrow> 's \<Rightarrow> write_outcome \<times> 's" where
  "tenant_write perform t op s = apfst (unscope_outcome t op) (perform (scope_op t op) s)"

text \<open>The listings keep the tenant's own keys and restore the logical workload.\<close>

definition logical :: "tenant_context \<Rightarrow> string \<Rightarrow> string option" where
  "logical t key = (case workload_of key (tc_tenant_id t) of Inl _ \<Rightarrow> None | Inr w \<Rightarrow> w)"

definition tenant_list_workloads :: "('s \<Rightarrow> string list) \<Rightarrow> tenant_context \<Rightarrow> 's \<Rightarrow> string list" where
  "tenant_list_workloads workloads t s = sort (remdups (List.map_filter (logical t) (workloads s)))"

definition tenant_list_assignments ::
    "('s \<Rightarrow> pack_assignment list) \<Rightarrow> tenant_context \<Rightarrow> 's \<Rightarrow> pack_assignment list" where
  "tenant_list_assignments assignments t s =
     List.map_filter (\<lambda>a. map_option (\<lambda>w. a\<lparr>pa_workload := w\<rparr>) (logical t (pa_workload a))) (assignments s)"

definition tenant_get_assignments ::
    "('s \<Rightarrow> string \<Rightarrow> store_view) \<Rightarrow> tenant_context \<Rightarrow> 's \<Rightarrow> string \<Rightarrow> pack_assignment list" where
  "tenant_get_assignments view t s w =
     map (\<lambda>a. a\<lparr>pa_workload := w\<rparr>) (sv_assignments (view s (scoped_key t w)))"

definition tenant_list_imports :: "('s \<Rightarrow> string \<Rightarrow> store_view) \<Rightarrow> tenant_context \<Rightarrow> 's \<Rightarrow> imported_pack list" where
  "tenant_list_imports view t s =
     filter (\<lambda>p. logical t (ip_scope p) = Some IMPORTS_SCOPE) (sv_imports (view s (scoped_key t IMPORTS_SCOPE)))"

definition tenant_disabled_modules :: "('s \<Rightarrow> string \<Rightarrow> store_view) \<Rightarrow> tenant_context \<Rightarrow> 's \<Rightarrow> string set" where
  "tenant_disabled_modules view t s =
     (case sv_config (view s (scoped_key t MODULES_SCOPE)) of None \<Rightarrow> {} | Some c \<Rightarrow> set (mc_disabled c))"

section \<open>Keys\<close>

lemma scoped_key_eq: "valid_context t \<Longrightarrow> scoped_key t w = str_hex (tc_tenant_id t) @ CHR ''.'' # w"
  by (simp add: scoped_key_def valid_context_def tenant_partition_key_safe)

lemma scoped_key_inj:
  "valid_context t \<Longrightarrow> valid_context u \<Longrightarrow>
   scoped_key t v = scoped_key u w \<longleftrightarrow> tc_tenant_id t = tc_tenant_id u \<and> v = w"
  by (simp add: scoped_key_eq hex_key_inj)

lemma logical_eq:
  assumes "valid_context t"
  shows "logical t key = Some w \<longleftrightarrow> key = scoped_key t w"
proof -
  have p: "partition_prefix (tc_tenant_id t) = Inr (str_hex (tc_tenant_id t) @ [CHR ''.''])"
    using assms by (simp add: partition_prefix_def valid_context_def PARTITION_SEPARATOR_def)
  have "logical t key = Some w \<longleftrightarrow> prefix (str_hex (tc_tenant_id t) @ [CHR ''.'']) key
      \<and> w = drop (length (str_hex (tc_tenant_id t) @ [CHR ''.''])) key"
    by (auto simp: logical_def workload_of_def p)
  also have "\<dots> \<longleftrightarrow> key = scoped_key t w"
    unfolding scoped_key_eq [OF assms] by (auto simp: prefix_def)
  finally show ?thesis .
qed

definition tenant_keys :: "tenant_context \<Rightarrow> string set" where
  "tenant_keys t = range (scoped_key t)"

lemma op_key_scope: "op_key (scope_op t op) = None \<or> (\<exists>k \<in> tenant_keys t. op_key (scope_op t op) = Some k)"
  by (cases op) (auto simp: tenant_keys_def)

lemma tenant_keys_disjoint:
  "valid_context t \<Longrightarrow> valid_context u \<Longrightarrow> tc_tenant_id t \<noteq> tc_tenant_id u \<Longrightarrow> tenant_keys t \<inter> tenant_keys u = {}"
  by (auto simp: tenant_keys_def scoped_key_inj)

lemma tenant_keys_same:
  "valid_context t \<Longrightarrow> valid_context u \<Longrightarrow> tc_tenant_id t = tc_tenant_id u \<Longrightarrow> tenant_keys t = tenant_keys u"
  by (simp add: tenant_keys_def scoped_key_eq)

text \<open>The physical key does not occur in a snapshot id before the place where the store wrote it.\<close>

lemma py_replace1_skip:
  "(\<forall>i < length pre. \<not> prefix old (drop i (pre @ old @ post))) \<Longrightarrow> old \<noteq> [] \<Longrightarrow>
   py_replace1 old new (pre @ old @ post) = pre @ new @ post"
proof (induction pre)
  case Nil
  then obtain c cs where "old = c # cs" by (cases old) auto
  then show ?case by simp
next
  case (Cons c pre)
  have "\<not> prefix old (c # pre @ old @ post)" using Cons.prems(1) by force
  moreover have "\<forall>i < length pre. \<not> prefix old (drop i (pre @ old @ post))"
    using Cons.prems(1) by (force dest: spec [of _ "Suc _"])
  ultimately show ?case using Cons by simp
qed

lemma snapshot_id_restored:
  assumes "valid_context t"
  shows "py_replace1 (scoped_key t w) w (snapshot_id (scoped_key t w) n) = snapshot_id w n"
proof -
  let ?k = "scoped_key t w"
  have ne: "str_hex (tc_tenant_id t) \<noteq> []"
    using assms by (simp add: valid_context_def is_tenant_id_safe_def)
  then obtain a r where ar: "str_hex (tc_tenant_id t) = a # r" by (cases "str_hex (tc_tenant_id t)") auto
  have hex: "set (a # r) \<subseteq> set hex_digits" using str_hex_set [of "tc_tenant_id t"] ar by simp
  have k: "?k = a # r @ CHR ''.'' # w" using ar by (simp add: scoped_key_eq [OF assms])
  have "\<not> prefix ?k (drop i (''snap::'' @ ?k @ x))" if "i < 6" for i x
  proof -
    have i: "i = 0 \<or> i = 1 \<or> i = 2 \<or> i = 3 \<or> i = 4 \<or> i = 5" using that by auto
    have a: "a \<in> set hex_digits" using hex by simp
    have first: "\<not> prefix ?k (c # y)" if "c \<notin> set hex_digits" for c y
      using that a by (auto simp: k)
    have second: "\<not> prefix ?k (c # CHR ''p'' # y)" for c y
    proof (cases r)
      case (Cons d r')
      then have "d \<in> set hex_digits" using hex by simp
      then have "d \<noteq> CHR ''p''" by (auto simp: hex_digits_def)
      then show ?thesis by (simp add: k Cons)
    qed (simp add: k)
    have no: "CHR ''s'' \<notin> set hex_digits" "CHR ''n'' \<notin> set hex_digits" "CHR ''p'' \<notin> set hex_digits"
        "CHR '':'' \<notin> set hex_digits"
      by (simp_all add: hex_digits_def)
    show ?thesis using i first [OF no(1)] first [OF no(2)] first [OF no(3)] first [OF no(4)] second
      by (elim disjE) simp_all
  qed
  then have "py_replace1 ?k w (''snap::'' @ ?k @ ''::'' @ pad6 n) = ''snap::'' @ w @ ''::'' @ pad6 n"
    by (intro py_replace1_skip) (simp_all add: k)
  then show ?thesis by (simp add: snapshot_id_def)
qed

section \<open>Isolation, against the contract\<close>

text \<open>A history: operations, each by the tenant that issues it.\<close>

type_synonym history = "(tenant_context \<times> write_op) list"

definition by_tenant :: "tenant_context \<Rightarrow> history \<Rightarrow> history" where
  "by_tenant t = filter (\<lambda>(u, _). tc_tenant_id u = tc_tenant_id t)"

definition tenant_run :: "(write_op \<Rightarrow> 's \<Rightarrow> write_outcome \<times> 's) \<Rightarrow> history \<Rightarrow> 's \<Rightarrow> 's" where
  "tenant_run perform h s = foldl (\<lambda>s (t, op). snd (tenant_write perform t op s)) s h"

lemma tenant_run_scoped:
  "tenant_run perform h s = foldl (\<lambda>s op. snd (perform op s)) s (map (\<lambda>(t, op). scope_op t op) h)"
  unfolding tenant_run_def
  by (induction h arbitrary: s) (auto simp: tenant_write_def)

lemma set_map_filter: "w \<in> set (List.map_filter f xs) \<longleftrightarrow> (\<exists>x \<in> set xs. f x = Some w)"
  by (induction xs) (auto split: option.split)

context state_store
begin

lemma tenant_run_run: "tenant_run perform h s = run (map (\<lambda>(t, op). scope_op t op) h) s"
  by (simp add: tenant_run_scoped run_def)

text \<open>What a tenant sees after a history depends on its own part of the history only.\<close>

lemma isolation:
  assumes inv: "store_inv s" and t: "valid_context t" and h: "\<forall>(u, _) \<in> set h. valid_context u"
    and k: "k \<in> tenant_keys t"
  shows "view (tenant_run perform h s) k = view (tenant_run perform (by_tenant t h) s) k"
proof -
  let ?mine = "\<lambda>op. \<exists>k \<in> tenant_keys t. op_key op = Some k"
  let ?sc = "\<lambda>(t, op). scope_op t op"
  have "filter ?mine (map ?sc h) = filter ?mine (map ?sc (by_tenant t h))"
    using h
  proof (induction h)
    case (Cons e h)
    obtain u op where e: "e = (u, op)" by force
    have "valid_context u" using Cons.prems e by simp
    then have "\<not> ?mine (scope_op u op)" if "tc_tenant_id u \<noteq> tc_tenant_id t"
      using op_key_scope [of u op] tenant_keys_disjoint [OF \<open>valid_context u\<close> t that] by auto
    then show ?case using Cons e by (auto simp: by_tenant_def)
  qed (simp add: by_tenant_def)
  then show ?thesis
    unfolding tenant_run_run
    using run_noninterference [OF inv inv refl k, of "map ?sc h"]
      run_noninterference [OF inv inv refl k, of "map ?sc (by_tenant t h)"] by simp
qed

lemma tenant_inv: "store_inv s \<Longrightarrow> store_inv (tenant_run perform h s)"
  unfolding tenant_run_run by (rule inv_run)

lemma tenant_workloads:
  assumes "store_inv s" "valid_context t"
  shows "w \<in> set (tenant_list_workloads workloads t s) \<longleftrightarrow> sv_known (view s (scoped_key t w))"
  using workloads_view [OF assms(1)] logical_eq [OF assms(2)]
  by (simp add: tenant_list_workloads_def set_map_filter)

lemma tenant_workloads_eq:
  assumes "store_inv s" "store_inv s'" "valid_context t"
    and "\<And>k. k \<in> tenant_keys t \<Longrightarrow> view s k = view s' k"
  shows "tenant_list_workloads workloads t s = tenant_list_workloads workloads t s'"
proof -
  have "set (tenant_list_workloads workloads t s) = set (tenant_list_workloads workloads t s')"
    using tenant_workloads [OF assms(1,3)] tenant_workloads [OF assms(2,3)] assms(4)
    by (auto simp: tenant_keys_def)
  then show ?thesis
    by (intro sorted_distinct_set_unique) (simp_all add: tenant_list_workloads_def)
qed

lemma tenant_assignments:
  assumes "store_inv s" "valid_context t"
  shows "filter (\<lambda>a. pa_workload a = w) (tenant_list_assignments assignments t s)
    = tenant_get_assignments view t s w"
proof -
  have "filter (\<lambda>a. pa_workload a = w)
      (List.map_filter (\<lambda>a. map_option (\<lambda>w. a\<lparr>pa_workload := w\<rparr>) (logical t (pa_workload a))) as)
    = map (\<lambda>a. a\<lparr>pa_workload := w\<rparr>) (filter (\<lambda>a. pa_workload a = scoped_key t w) as)"
    for as :: "pack_assignment list"
  proof (induction as)
    case (Cons a as)
    show ?case
    proof (cases "logical t (pa_workload a)")
      case None
      then have "pa_workload a \<noteq> scoped_key t w" using logical_eq [OF assms(2)] by (metis option.distinct(1))
      then show ?thesis using Cons None by simp
    next
      case (Some v)
      then have "pa_workload a = scoped_key t v" using logical_eq [OF assms(2)] by simp
      then show ?thesis using Cons Some scoped_key_inj [OF assms(2,2)] by auto
    qed
  qed simp
  then show ?thesis
    using assignments_view [OF assms(1), of "scoped_key t w"]
    by (simp add: tenant_list_assignments_def tenant_get_assignments_def)
qed

end

section \<open>Isolation of the local store\<close>

text \<open>C8: tenants are isolated. Whatever operations any number of tenants interleave on the store, what
  a tenant reads afterwards - estate, graph, findings, previous findings, advisories, assignments,
  imported packs and module configuration of each of its workloads, and its workload and assignment
  listings - is what it would read if the other tenants had never used the store.\<close>

theorem tenant_isolation:
  assumes "valid_context t" and "\<forall>(u, _) \<in> set h. valid_context u"
    and "s = tenant_run (local_write sha ts b) h empty_state"
    and "s' = tenant_run (local_write sha ts b) (by_tenant t h) empty_state"
  shows "local_view s (scoped_key t w) = local_view s' (scoped_key t w)
    \<and> tenant_list_workloads list_workloads t s = tenant_list_workloads list_workloads t s'
    \<and> filter (\<lambda>a. pa_workload a = w) (tenant_list_assignments list_pack_assignments t s)
      = filter (\<lambda>a. pa_workload a = w) (tenant_list_assignments list_pack_assignments t s')
    \<and> tenant_list_imports local_view t s = tenant_list_imports local_view t s'
    \<and> tenant_disabled_modules local_view t s = tenant_disabled_modules local_view t s'"
proof -
  have inv: "local_inv sha ts s" "local_inv sha ts s'"
    unfolding assms(3,4) by (rule local_store.tenant_inv [OF empty_state_inv])+
  have view: "local_view s k = local_view s' k" if "k \<in> tenant_keys t" for k
    unfolding assms(3,4) by (rule local_store.isolation [OF empty_state_inv assms(1,2) that])
  have key: "scoped_key t v \<in> tenant_keys t" for v by (simp add: tenant_keys_def)
  show ?thesis
    using view [OF key] local_store.tenant_workloads_eq [OF inv assms(1) view]
      local_store.tenant_assignments [OF inv(1) assms(1)] local_store.tenant_assignments [OF inv(2) assms(1)]
    by (simp add: tenant_get_assignments_def tenant_list_imports_def tenant_disabled_modules_def)
qed

definition ctx_of :: "string \<Rightarrow> tenant_context" where
  "ctx_of tid = \<lparr>tc_tenant_id = tid, tc_mode = TM_multi\<rparr>"

theorem tenant_isolation_witness:
  "tenant_list_workloads list_workloads (ctx_of ''b'')
     (tenant_run (local_write bytes_hex (\<lambda>_. []) (\<lambda>_. []))
        [(ctx_of ''a'', PutEstate ''w'' []), (ctx_of ''a'', PutEstate ''x'' []), (ctx_of ''b'', PutEstate ''w'' [])]
        empty_state) = [''w'']"
proof -
  have v: "valid_context (ctx_of ''a'')" "valid_context (ctx_of ''b'')"
    by (simp_all add: valid_context_def ctx_of_def is_tenant_id_safe_def TENANT_ID_MAX_LEN_def TENANT_ID_ALLOWED_def)
  have "by_tenant (ctx_of ''b'')
      [(ctx_of ''a'', PutEstate ''w'' []), (ctx_of ''a'', PutEstate ''x'' []), (ctx_of ''b'', PutEstate ''w'' [])]
    = [(ctx_of ''b'', PutEstate ''w'' [])]"
    by (simp add: by_tenant_def ctx_of_def)
  moreover have "logical (ctx_of ''b'') (scoped_key (ctx_of ''b'') ''w'') = Some ''w''"
    using logical_eq [OF v(2)] by simp
  ultimately show ?thesis
    using tenant_isolation [OF v(2) _ refl refl, of "[(ctx_of ''a'', PutEstate ''w'' []),
        (ctx_of ''a'', PutEstate ''x'' []), (ctx_of ''b'', PutEstate ''w'' [])]" bytes_hex "\<lambda>_. []" "\<lambda>_. []" "''w''"] v
    by (simp add: tenant_run_def tenant_write_def put_estate_def transaction_def write_estate_def empty_state_def
        tenant_list_workloads_def list_workloads_def List.map_filter_def)
qed

text \<open>what the tenant facade returns names logical workloads only: the id of a snapshot is that of
  the workload the caller named, with no trace of the tenant's key, and the module configuration reads
  back as the set that was written.\<close>

theorem tenant_facade_logical:
  assumes "valid_context t" and "local_inv sha ts s"
  shows "fst (tenant_write (local_write sha ts b) t (Snapshot w) s)
      = SnapshotId (snapshot_id w (Suc (ls_snapshot_seq s)))
    \<and> tenant_disabled_modules local_view t
        (snd (tenant_write (local_write sha ts b) t (PutModuleConfig c) s)) = set (mc_disabled c)"
  using snapshot_id_restored [OF assms(1)]
  by (simp add: tenant_write_def snapshot_ok [OF assms(2)] unscope_outcome_def tenant_disabled_modules_def
      local_view_def get_module_config_def put_module_config_def transaction_def)

theorem tenant_facade_logical_witness:
  "fst (tenant_write (local_write bytes_hex (\<lambda>_. []) (\<lambda>_. [])) (ctx_of ''a'') (Snapshot ''w'') empty_state)
   = SnapshotId ''snap::w::000001''"
proof -
  have v: "valid_context (ctx_of ''a'')"
    by (simp add: valid_context_def ctx_of_def is_tenant_id_safe_def TENANT_ID_MAX_LEN_def TENANT_ID_ALLOWED_def)
  have "snapshot_id ''w'' 1 = ''snap::w::000001''"
    by (simp add: snapshot_id_def pad6_def show_nat.simps digit_char_def) code_simp
  then show ?thesis
    using tenant_facade_logical [OF v empty_state_inv, of bytes_hex "\<lambda>_. []" "\<lambda>_. []" "''w''"]
    by (simp add: empty_state_def)
qed

end
