(* ===== verification/Sem_Ver.thy ===== *)
theory Sem_Ver
  imports Contracts Json_Text
begin

text \<open>
  Version and reference identity of packs (\<open>packs_engine/registry.py\<close>): \<open>SemVer\<close>, \<open>PackRef\<close> and the
  order \<open>sorted(entries, key=lambda e: e.ref)\<close> rests on. The main fact is that the precedence order
  has no ties on version strings: the strict grammar leaves one spelling per version, so \<open>latest\<close>
  and the sorted listings are determined.
\<close>

section \<open>Semantic versions\<close>

datatype registry_error =
    CorruptRegistryError | ImmutableVersionError | InvalidVersionError | RegistryLockError
  | PublishValueError | CanonicalError py_exc

record semver =
  sv_major :: nat
  sv_minor :: nat
  sv_patch :: nat
  sv_prerelease :: "string list"

text \<open>The numeral \<open>0|[1-9][0-9]*\<close>, and the characters \<open>[0-9A-Za-z-]\<close> of a prerelease identifier.\<close>

definition semver_num :: "string \<Rightarrow> nat option" where
  "semver_num s =
     (if s = ''0'' \<or> (s \<noteq> [] \<and> list_all is_digit_char s \<and> hd s \<noteq> CHR ''0'')
      then Some (read_nat s) else None)"

definition ident_char :: "char \<Rightarrow> bool" where
  "ident_char c \<longleftrightarrow>
     (let n = (of_char c :: nat)
      in is_digit_char c \<or> (65 \<le> n \<and> n \<le> 90) \<or> (97 \<le> n \<and> n \<le> 122) \<or> c = CHR ''-'')"

text \<open>\<open>ident.isdigit()\<close> on such an identifier.\<close>

definition ident_isdigit :: "string \<Rightarrow> bool" where
  "ident_isdigit s \<longleftrightarrow> s \<noteq> [] \<and> list_all is_digit_char s"

definition leading_zero :: "string \<Rightarrow> bool" where
  "leading_zero s \<longleftrightarrow> ident_isdigit s \<and> length s > 1 \<and> hd s = CHR ''0''"

text \<open>\<open>SemVer.parse\<close>. The core of the regular expression has no hyphen, so the first hyphen of a
  match starts its prerelease part.\<close>

definition semver_parse :: "string \<Rightarrow> registry_error + semver" where
  "semver_parse text =
     (case py_partition (CHR ''-'') text of
        (core, has_pre, pre_raw) \<Rightarrow>
          (case map semver_num (py_split (CHR ''.'') core) of
             [Some major, Some minor, Some patch] \<Rightarrow>
               (let prerelease = (if has_pre then py_split (CHR ''.'') pre_raw else [])
                in if list_ex (\<lambda>i. i = [] \<or> \<not> list_all ident_char i) prerelease
                   then Inl InvalidVersionError
                   else if list_ex leading_zero prerelease then Inl InvalidVersionError
                   else Inr \<lparr>sv_major = major, sv_minor = minor, sv_patch = patch,
                             sv_prerelease = prerelease\<rparr>)
           | _ \<Rightarrow> Inl InvalidVersionError))"

type_synonym ident_key = "nat \<times> nat \<times> string"
type_synonym semver_key = "nat \<times> nat \<times> nat \<times> nat \<times> ident_key list"

definition identifier_key :: "string \<Rightarrow> ident_key" where
  "identifier_key identifier =
     (if ident_isdigit identifier then (0, read_nat identifier, []) else (1, 0, identifier))"

definition semver_sort_key :: "semver \<Rightarrow> semver_key" where
  "semver_sort_key v =
     (sv_major v, sv_minor v, sv_patch v, (if sv_prerelease v = [] then 1 else 0),
      map identifier_key (sv_prerelease v))"

definition semver_lt :: "semver \<Rightarrow> semver \<Rightarrow> bool" where
  "semver_lt v w \<longleftrightarrow> semver_sort_key v < semver_sort_key w"

section \<open>The grammar leaves one spelling per version\<close>

text \<open>A canonical numeral is what printing the number gives back.\<close>

lemma is_digit_char_conv: "is_digit_char c \<Longrightarrow> digit_char (of_char c - 48) = c \<and> of_char c - 48 < (10 :: nat)"
  by (auto simp: is_digit_char_def digit_char_def)

lemma read_nat_snoc: "read_nat (s @ [c]) = 10 * read_nat s + (of_char c - 48)"
  by (simp add: read_nat_def)

lemma read_nat_pos: "list_all is_digit_char s \<Longrightarrow> s \<noteq> [] \<Longrightarrow> hd s \<noteq> CHR ''0'' \<Longrightarrow> 0 < read_nat s"
proof (induction s rule: rev_induct)
  case (snoc c s)
  show ?case
  proof (cases "s = []")
    case True
    then have c: "is_digit_char c" "c \<noteq> CHR ''0''" using snoc.prems by auto
    have "of_char c \<noteq> (48 :: nat)"
    proof
      assume "of_char c = (48 :: nat)"
      then have "c = char_of (48 :: nat)" by (metis char_of_char)
      also have "\<dots> = CHR ''0''" by code_simp
      finally show False using c(2) by simp
    qed
    then show ?thesis using c True by (simp add: read_nat_def is_digit_char_def)
  next
    case False
    then show ?thesis using snoc by (simp add: read_nat_snoc)
  qed
qed simp

lemma show_read_nat:
  "list_all is_digit_char s \<Longrightarrow> s \<noteq> [] \<Longrightarrow> s = ''0'' \<or> hd s \<noteq> CHR ''0'' \<Longrightarrow> show_nat (read_nat s) = s"
proof (induction s rule: rev_induct)
  case (snoc c s)
  have c: "digit_char (of_char c - 48) = c" "of_char c - 48 < (10 :: nat)"
    using snoc.prems is_digit_char_conv by auto
  show ?case
  proof (cases "s = []")
    case True
    then show ?thesis using c by (subst show_nat.simps) (simp add: read_nat_def)
  next
    case False
    then have hd: "hd s \<noteq> CHR ''0''" using snoc.prems by auto
    have pos: "0 < read_nat s" using read_nat_pos snoc.prems False hd by auto
    have "show_nat (read_nat s) = s" using snoc False hd by auto
    then show ?thesis using pos c
      by (subst show_nat.simps) (simp add: read_nat_snoc)
  qed
qed simp

lemma semver_num_show: "semver_num s = Some n \<Longrightarrow> show_nat n = s"
  unfolding semver_num_def
  by (auto split: if_splits intro!: show_read_nat simp: is_digit_char_def)

definition semver_show :: "semver \<Rightarrow> string" where
  "semver_show v =
     show_nat (sv_major v) @ ''.'' @ show_nat (sv_minor v) @ ''.'' @ show_nat (sv_patch v)
     @ (if sv_prerelease v = [] then [] else ''-'' @ py_join (CHR ''.'') (sv_prerelease v))"

lemma semver_parse_cases:
  assumes "semver_parse text = Inr v"
  obtains core has_pre pre_raw where
    "py_partition (CHR ''-'') text = (core, has_pre, pre_raw)"
    "py_split (CHR ''.'') core = [show_nat (sv_major v), show_nat (sv_minor v), show_nat (sv_patch v)]"
    "sv_prerelease v = (if has_pre then py_split (CHR ''.'') pre_raw else [])"
    "\<forall>i \<in> set (sv_prerelease v). i \<noteq> [] \<and> list_all ident_char i \<and> \<not> leading_zero i"
proof -
  obtain core has_pre pre_raw where p: "py_partition (CHR ''-'') text = (core, has_pre, pre_raw)"
    by (cases "py_partition (CHR ''-'') text") auto
  obtain a b c where nums: "map semver_num (py_split (CHR ''.'') core) = [Some a, Some b, Some c]"
    using assms by (auto simp: semver_parse_def p split: list.splits option.splits)
  then have split: "py_split (CHR ''.'') core = [show_nat a, show_nat b, show_nat c]"
    by (auto simp: map_eq_Cons_conv dest!: semver_num_show)
  from assms have v: "\<not> list_ex (\<lambda>i. i = [] \<or> \<not> list_all ident_char i) (sv_prerelease v)"
      "\<not> list_ex leading_zero (sv_prerelease v)"
      "sv_major v = a" "sv_minor v = b" "sv_patch v = c"
      "sv_prerelease v = (if has_pre then py_split (CHR ''.'') pre_raw else [])"
    by (auto simp: semver_parse_def p nums Let_def split: if_splits)
  show thesis
    by (rule that [OF p]) (use v split in \<open>auto simp: list_ex_iff\<close>)
qed

lemma semver_show_parse: "semver_parse text = Inr v \<Longrightarrow> semver_show v = text"
proof (erule semver_parse_cases)
  fix core has_pre pre_raw
  assume p: "py_partition (CHR ''-'') text = (core, has_pre, pre_raw)"
    and s: "py_split (CHR ''.'') core = [show_nat (sv_major v), show_nat (sv_minor v), show_nat (sv_patch v)]"
    and pre: "sv_prerelease v = (if has_pre then py_split (CHR ''.'') pre_raw else [])"
  have "core = py_join (CHR ''.'') (py_split (CHR ''.'') core)" by (simp add: py_join_split)
  also have "\<dots> = show_nat (sv_major v) @ ''.'' @ show_nat (sv_minor v) @ ''.'' @ show_nat (sv_patch v)"
    unfolding s by simp
  finally have core: "core = \<dots>" .
  show "semver_show v = text"
  proof (cases has_pre)
    case True
    then have "text = core @ CHR ''-'' # pre_raw"
      using py_partition_found [of "CHR ''-''" "text" core pre_raw] p by simp
    then show ?thesis using True pre core by (simp add: semver_show_def py_join_split)
  next
    case False
    then have "text = core"
      using py_partition_not_found [of "CHR ''-''" "text" core pre_raw] p by simp
    then show ?thesis using False pre core by (simp add: semver_show_def)
  qed
qed

lemma identifier_key_inj:
  assumes "\<not> leading_zero i" "\<not> leading_zero j"
  shows "identifier_key i = identifier_key j \<longleftrightarrow> i = j"
proof
  have s: "show_nat (read_nat k) = k" if "ident_isdigit k" "\<not> leading_zero k" for k
  proof (rule show_read_nat)
    show "list_all is_digit_char k" "k \<noteq> []" using that(1) by (auto simp: ident_isdigit_def)
    show "k = ''0'' \<or> hd k \<noteq> CHR ''0''"
      using that by (cases k) (auto simp: leading_zero_def ident_isdigit_def)
  qed
  assume eq: "identifier_key i = identifier_key j"
  show "i = j"
  proof (cases "ident_isdigit i")
    case True
    then have "ident_isdigit j" "read_nat i = read_nat j"
      using eq by (simp_all add: identifier_key_def split: if_splits)
    then show ?thesis using s assms True by metis
  next
    case False
    then show ?thesis using eq by (simp add: identifier_key_def split: if_splits)
  qed
qed simp

lemma semver_key_inj:
  assumes "semver_parse s = Inr v" "semver_parse t = Inr w"
    and "semver_sort_key v = semver_sort_key w"
  shows "s = t"
proof -
  have v: "\<forall>i \<in> set (sv_prerelease v). \<not> leading_zero i" using semver_parse_cases [OF assms(1)] by metis
  have w: "\<forall>i \<in> set (sv_prerelease w). \<not> leading_zero i" using semver_parse_cases [OF assms(2)] by metis
  have "map identifier_key (sv_prerelease v) = map identifier_key (sv_prerelease w)"
    using assms(3) by (simp add: semver_sort_key_def)
  moreover have "inj_on identifier_key (set (sv_prerelease v) \<union> set (sv_prerelease w))"
    using v w identifier_key_inj by (intro inj_onI) blast
  ultimately have "sv_prerelease v = sv_prerelease w" by (rule inj_on_map_eq_map [THEN iffD1, rotated])
  then have "semver_show v = semver_show w" using assms(3) by (simp add: semver_sort_key_def semver_show_def)
  then show "s = t" using semver_show_parse assms(1,2) by metis
qed

section \<open>Pack references\<close>

record pack_ref =
  pr_id :: string
  pr_version :: string

text \<open>\<open>PackRef.parse\<close> and \<open>PackRef.format\<close>.\<close>

definition ref_parse :: "string \<Rightarrow> py_exc + pack_ref" where
  "ref_parse text =
     (case py_partition (CHR ''@'') text of
        (pack_id, sep, version) \<Rightarrow>
          if \<not> sep \<or> pack_id = [] \<or> version = [] then Inl ValueError
          else Inr \<lparr>pr_id = pack_id, pr_version = version\<rparr>)"

definition ref_format :: "pack_ref \<Rightarrow> string" where
  "ref_format r = pr_id r @ ''@'' @ pr_version r"

text \<open>\<open>_order_key\<close> of a reference whose version parses; \<open>ref_valid\<close> says that it does.\<close>

definition ref_valid :: "pack_ref \<Rightarrow> bool" where
  "ref_valid r \<longleftrightarrow> (\<exists>v. semver_parse (pr_version r) = Inr v)"

lemma ref_valid_code [code]:
  "ref_valid r \<longleftrightarrow> (case semver_parse (pr_version r) of Inl _ \<Rightarrow> False | Inr _ \<Rightarrow> True)"
  by (auto simp: ref_valid_def split: sum.splits)

definition ref_semver_key :: "pack_ref \<Rightarrow> semver_key" where
  "ref_semver_key r = (case semver_parse (pr_version r) of Inl _ \<Rightarrow> (0, 0, 0, 0, []) | Inr v \<Rightarrow> semver_sort_key v)"

definition ref_order_key :: "pack_ref \<Rightarrow> string \<times> semver_key" where
  "ref_order_key r = (pr_id r, ref_semver_key r)"

lemma ref_semver_key_inj: "ref_valid r \<Longrightarrow> ref_valid q \<Longrightarrow> pr_id r = pr_id q \<Longrightarrow>
    ref_semver_key r = ref_semver_key q \<Longrightarrow> r = q"
  unfolding ref_valid_def ref_semver_key_def
  by (rule pack_ref.equality) (auto intro: semver_key_inj)

lemma ref_order_key_inj: "ref_valid r \<Longrightarrow> ref_valid q \<Longrightarrow> ref_order_key r = ref_order_key q \<longleftrightarrow> r = q"
  unfolding ref_order_key_def by (auto dest: ref_semver_key_inj)

lemma ref_parse_Inr_iff:
  "ref_parse text = Inr r \<longleftrightarrow> text = ref_format r \<and> CHR ''@'' \<notin> set (pr_id r) \<and> pr_id r \<noteq> [] \<and> pr_version r \<noteq> []"
proof
  assume "ref_parse text = Inr r"
  then show "text = ref_format r \<and> CHR ''@'' \<notin> set (pr_id r) \<and> pr_id r \<noteq> [] \<and> pr_version r \<noteq> []"
    by (auto simp: ref_parse_def ref_format_def dest: py_partition_found split: prod.splits if_splits)
next
  assume "text = ref_format r \<and> CHR ''@'' \<notin> set (pr_id r) \<and> pr_id r \<noteq> [] \<and> pr_version r \<noteq> []"
  then show "ref_parse text = Inr r" by (simp add: ref_parse_def ref_format_def py_partition_append)
qed

section \<open>Properties\<close>

text \<open>version precedence is a total order without ties. Of two valid version strings, either they
  are the same string or exactly one precedes the other: no two spellings denote versions of equal
  precedence, so \<open>latest\<close> and the order of a listing are determined by the versions alone.\<close>

theorem semver_precedence_total:
  assumes "semver_parse s = Inr v" and "semver_parse t = Inr w"
  shows "(s = t \<and> \<not> semver_lt v w \<and> \<not> semver_lt w v) \<or> (s \<noteq> t \<and> semver_lt v w \<and> \<not> semver_lt w v)
    \<or> (s \<noteq> t \<and> semver_lt w v \<and> \<not> semver_lt v w)"
  using semver_key_inj [OF assms] assms less_linear [of "semver_sort_key v" "semver_sort_key w"]
  unfolding semver_lt_def by (metis Inr_inject less_asym)

theorem semver_precedence_total_witness:
  "\<exists>v w. semver_parse ''1.0.0-alpha.9'' = Inr v \<and> semver_parse ''1.0.0-alpha.10'' = Inr w
    \<and> ''1.0.0-alpha.9'' \<noteq> ''1.0.0-alpha.10'' \<and> semver_lt v w \<and> \<not> semver_lt w v"
proof -
  have p: "semver_parse ''1.0.0-alpha.9'' = Inr \<lparr>sv_major = 1, sv_minor = 0, sv_patch = 0, sv_prerelease = [''alpha'', ''9'']\<rparr>"
    "semver_parse ''1.0.0-alpha.10'' = Inr \<lparr>sv_major = 1, sv_minor = 0, sv_patch = 0, sv_prerelease = [''alpha'', ''10'']\<rparr>"
    by code_simp+
  have "semver_lt \<lparr>sv_major = 1, sv_minor = 0, sv_patch = 0, sv_prerelease = [''alpha'', ''9'']\<rparr>
      \<lparr>sv_major = 1, sv_minor = 0, sv_patch = 0, sv_prerelease = [''alpha'', ''10'']\<rparr>"
    by code_simp
  with semver_precedence_total [OF p] p show ?thesis by auto
qed

end
