(* ===== verification/Pack_Model.thy ===== *)
theory Pack_Model
  imports Contracts Canonical
begin

text \<open>
  Packs as raw data: field access on the dictionaries that JSON and YAML files hold, and the
  Pydantic validation that turns them into \<open>PackSignature\<close> and \<open>PackManifest\<close>
  (\<open>shared/contracts.py\<close>). Every way the validation fails is an error value.
\<close>

section \<open>Fields of raw data\<close>

type_synonym raw_dict = "(pyval \<times> pyval) list"

text \<open>\<open>d.get(k)\<close> for a string key.\<close>

definition vget :: "raw_dict \<Rightarrow> string \<Rightarrow> pyval option" where
  "vget d k = map_option snd (find (\<lambda>e. str_key (fst e) = Some k) d)"

lemma vget_Nil [simp]: "vget [] k = None"
  by (simp add: vget_def)

lemma vget_Cons [simp]: "vget ((x, v) # d) k = (if str_key x = Some k then Some v else vget d k)"
  by (simp add: vget_def)

text \<open>What a \<open>str\<close> field takes in lax mode: a string, or bytes that decode.\<close>

fun py_str :: "pyval \<Rightarrow> string option" where
  "py_str (VStr s) = Some s"
| "py_str (VStrEnum s) = Some s"
| "py_str (VBytes bs) = utf8_decode (map of_char bs)"
| "py_str _ = None"

text \<open>A required string, an optional string that may be absent or \<open>None\<close>, a list of strings.
  The result is \<open>None\<close> where validation fails.\<close>

definition str_field :: "raw_dict \<Rightarrow> string \<Rightarrow> string option" where
  "str_field d k = (case vget d k of None \<Rightarrow> None | Some v \<Rightarrow> py_str v)"

definition opt_str_field :: "raw_dict \<Rightarrow> string \<Rightarrow> string option option" where
  "opt_str_field d k =
     (case vget d k of None \<Rightarrow> Some None | Some VNone \<Rightarrow> Some None
      | Some v \<Rightarrow> map_option Some (py_str v))"

fun all_strs :: "pyval list \<Rightarrow> string list option" where
  "all_strs [] = Some []"
| "all_strs (v # vs) =
     (case (py_str v, all_strs vs) of (Some s, Some ss) \<Rightarrow> Some (s # ss) | _ \<Rightarrow> None)"

definition str_list_field :: "raw_dict \<Rightarrow> string \<Rightarrow> string list option" where
  "str_list_field d k =
     (case vget d k of
        None \<Rightarrow> Some []
      | Some (VList vs) \<Rightarrow> all_strs vs
      | Some (VTuple vs) \<Rightarrow> all_strs vs
      | Some (VSet vs) \<Rightarrow> all_strs vs
      | _ \<Rightarrow> None)"

section \<open>PackSignature\<close>

definition PACK_SIGNATURE_FIELDS :: "string list" where
  "PACK_SIGNATURE_FIELDS = [''algorithm'', ''signature'', ''key_id'', ''canonical_digest'']"

text \<open>\<open>PackSignature(**data)\<close> with \<open>extra="forbid"\<close>: \<open>None\<close> for a \<open>ValidationError\<close> or \<open>TypeError\<close>.\<close>

definition pack_signature_of :: "raw_dict \<Rightarrow> pack_signature option" where
  "pack_signature_of d =
     (if list_ex (\<lambda>(k, _). case str_key k of None \<Rightarrow> True | Some s \<Rightarrow> s \<notin> set PACK_SIGNATURE_FIELDS) d
      then None
      else (case (str_field d ''algorithm'', str_field d ''signature'',
                  str_field d ''key_id'', str_field d ''canonical_digest'') of
              (Some a, Some s, Some k, Some c) \<Rightarrow>
                Some \<lparr>ps_algorithm = a, ps_signature = s, ps_key_id = k, ps_canonical_digest = c\<rparr>
            | _ \<Rightarrow> None))"

text \<open>\<open>signature.model_dump(mode="json")\<close> as raw data, and \<open>_serialize_pack_signature\<close>.\<close>

definition signature_fields :: "pack_signature \<Rightarrow> (string \<times> string) list" where
  "signature_fields s =
     [(''algorithm'', ps_algorithm s), (''signature'', ps_signature s), (''key_id'', ps_key_id s),
      (''canonical_digest'', ps_canonical_digest s)]"

definition signature_raw :: "pack_signature \<Rightarrow> raw_dict" where
  "signature_raw s = map (\<lambda>(k, v). (VStr k, VStr v)) (signature_fields s)"

definition serialize_pack_signature :: "pack_signature \<Rightarrow> string" where
  "serialize_pack_signature s =
     dumps_sorted (\<lambda>_. []) True (JObj (map (\<lambda>(k, v). (k, JStr v)) (signature_fields s)))"

lemma pack_signature_of_raw [simp]: "pack_signature_of (signature_raw s) = Some s"
  by (simp add: pack_signature_of_def signature_raw_def signature_fields_def PACK_SIGNATURE_FIELDS_def
      str_field_def)

section \<open>PackManifest\<close>

text \<open>\<open>PackManifest(**raw)\<close>: a key that is no string is a \<open>TypeError\<close> of the call, a failed validation
  a \<open>ValidationError\<close>, which is a \<open>ValueError\<close>. Unknown keys are ignored.\<close>

definition pack_type_field :: "raw_dict \<Rightarrow> pack_type option" where
  "pack_type_field d =
     (case vget d ''type'' of None \<Rightarrow> None
      | Some v \<Rightarrow> (case str_key v of None \<Rightarrow> None | Some s \<Rightarrow> pack_type_of s))"

definition pack_signature_field :: "raw_dict \<Rightarrow> pack_signature option option" where
  "pack_signature_field d =
     (case vget d ''pack_signature'' of
        None \<Rightarrow> Some None
      | Some VNone \<Rightarrow> Some None
      | Some (VDict sd) \<Rightarrow> map_option Some (pack_signature_of sd)
      | _ \<Rightarrow> None)"

definition author_field :: "raw_dict \<Rightarrow> string option" where
  "author_field d = (case vget d ''author'' of None \<Rightarrow> Some ''microsoft'' | Some v \<Rightarrow> py_str v)"

definition pack_manifest_of :: "raw_dict \<Rightarrow> py_exc + pack_manifest" where
  "pack_manifest_of d =
     (if list_ex (\<lambda>(k, _). str_key k = None) d then Inl TypeError
      else (case (str_field d ''id'', pack_type_field d, str_field d ''name'', str_field d ''version'') of
          (Some i, Some t, Some n, Some v) \<Rightarrow>
            (case (str_list_field d ''targets'', opt_str_field d ''sha256'', opt_str_field d ''signature'',
                   pack_signature_field d, author_field d) of
               (Some ts, Some h, Some sg, Some ps, Some au) \<Rightarrow>
                 Inr \<lparr>pm_id = i, pm_type = t, pm_name = n, pm_version = v, pm_targets = ts, pm_sha256 = h,
                      pm_signature = sg, pm_pack_signature = ps, pm_author = au\<rparr>
             | _ \<Rightarrow> Inl ValueError)
        | _ \<Rightarrow> Inl ValueError))"

lemma pack_manifest_of_id:
  "pack_manifest_of d = Inr m \<Longrightarrow> str_field d ''id'' = Some (pm_id m) \<and> str_field d ''version'' = Some (pm_version m)
     \<and> pack_type_field d = Some (pm_type m)"
  by (auto simp: pack_manifest_of_def split: if_splits option.splits prod.splits)

section \<open>Digests\<close>

text \<open>A lowercase SHA-256 in hexadecimal: \<open>[0-9a-f]{64}\<close>.\<close>

definition is_sha256_hex :: "string \<Rightarrow> bool" where
  "is_sha256_hex s \<longleftrightarrow> length s = 64 \<and> list_all (\<lambda>c. c \<in> set hex_digits) s"

text \<open>\<open>hmac.compare_digest(a, b)\<close> on two ASCII strings is their equality.\<close>

definition str_isascii :: "string \<Rightarrow> bool" where
  "str_isascii s \<longleftrightarrow> list_all (\<lambda>c. (of_char c :: nat) < 128) s"

lemma hex_digits_ascii: "\<forall>c \<in> set hex_digits. (of_char c :: nat) < 128"
  by code_simp

lemma sha256_hex_ascii: "is_sha256_hex s \<Longrightarrow> str_isascii s"
  using hex_digits_ascii by (auto simp: is_sha256_hex_def str_isascii_def list_all_iff)

end
