(* ===== verification/Pack_Registry.thy ===== *)
theory Pack_Registry
  imports Sem_Ver Pack_Model
begin

text \<open>
  The pack registry (\<open>packs_engine/registry.py\<close>): entries, the validation of an index, the in-memory
  and the on-disk registry behind one reader contract, and \<open>publish\<close> under the inter-process lock.

  The index file is represented by the JSON value its text denotes: writing is \<open>json.dumps\<close>, reading
  \<open>json.loads\<close>, which are inverse on it. \<open>fromiso\<close> and \<open>toiso\<close> stand for \<open>datetime.fromisoformat\<close> and
  \<open>isoformat\<close>, \<open>loads\<close> for \<open>json.loads\<close> on the text of a stored signature, \<open>sha256\<close> for the hash.
\<close>

section \<open>Entries\<close>

record registry_entry =
  re_ref :: pack_ref
  re_type :: pack_type
  re_digest :: string
  re_createdAt :: int
  re_signature :: "string option"
  re_key_id :: "string option"

definition opt_raw :: "string option \<Rightarrow> pyval" where
  "opt_raw s = (case s of None \<Rightarrow> VNone | Some x \<Rightarrow> VStr x)"

definition entry_to_dict :: "(int \<Rightarrow> string) \<Rightarrow> registry_entry \<Rightarrow> raw_dict" where
  "entry_to_dict toiso e =
     [(VStr ''id'', VStr (pr_id (re_ref e))),
      (VStr ''version'', VStr (pr_version (re_ref e))),
      (VStr ''type'', VStr (pack_type_value (re_type e))),
      (VStr ''digest'', VStr (re_digest e)),
      (VStr ''createdAt'', VStr (toiso (re_createdAt e))),
      (VStr ''signature'', opt_raw (re_signature e)),
      (VStr ''keyId'', opt_raw (re_key_id e))]"

text \<open>\<open>detached_signature\<close>: the stored envelope, or \<open>None\<close> for an untrusted or malformed one.\<close>

definition detached_signature :: "(string \<Rightarrow> py_exc + pyval) \<Rightarrow> registry_entry \<Rightarrow> pack_signature option" where
  "detached_signature loads e =
     (case (re_signature e, re_key_id e) of
        (Some s, Some _) \<Rightarrow>
          (case loads s of
             Inr (VDict d) \<Rightarrow> pack_signature_of d
           | _ \<Rightarrow> None)
      | _ \<Rightarrow> None)"

text \<open>A field that must be a \<open>str\<close> instance, and one that may be absent or \<open>None\<close>.\<close>

definition inst_str :: "raw_dict \<Rightarrow> string \<Rightarrow> string option" where
  "inst_str d k = (case vget d k of None \<Rightarrow> None | Some v \<Rightarrow> str_key v)"

definition inst_opt_str :: "raw_dict \<Rightarrow> string \<Rightarrow> string option option" where
  "inst_opt_str d k =
     (case vget d k of None \<Rightarrow> Some None | Some VNone \<Rightarrow> Some None | Some v \<Rightarrow> map_option Some (str_key v))"

text \<open>\<open>RegistryEntry.from_dict\<close>: every failed check is a \<open>CorruptRegistryError\<close>.\<close>

definition entry_from_dict :: "(string \<Rightarrow> int option) \<Rightarrow> raw_dict \<Rightarrow> registry_error + registry_entry" where
  "entry_from_dict fromiso d =
     (case (inst_str d ''id'', inst_str d ''version'') of
        (Some pack_id, Some version) \<Rightarrow>
          (case semver_parse version of
             Inl _ \<Rightarrow> Inl CorruptRegistryError
           | Inr _ \<Rightarrow>
               (case (inst_str d ''digest'', pack_type_field d, inst_str d ''createdAt'') of
                  (Some digest, Some t, Some created_raw) \<Rightarrow>
                    if \<not> is_sha256_hex digest then Inl CorruptRegistryError
                    else (case (fromiso created_raw, inst_opt_str d ''signature'', inst_opt_str d ''keyId'') of
                        (Some created, Some sg, Some key) \<Rightarrow>
                          Inr \<lparr>re_ref = \<lparr>pr_id = pack_id, pr_version = version\<rparr>, re_type = t,
                               re_digest = digest, re_createdAt = created, re_signature = sg, re_key_id = key\<rparr>
                      | _ \<Rightarrow> Inl CorruptRegistryError)
                | _ \<Rightarrow> Inl CorruptRegistryError))
      | _ \<Rightarrow> Inl CorruptRegistryError)"

section \<open>The index\<close>

type_synonym entries = "(pack_ref, registry_entry) dict"

definition INDEX_SCHEMA_VERSION :: int where
  "INDEX_SCHEMA_VERSION = 2"

definition SUPPORTED_INDEX_VERSIONS :: "int list" where
  "SUPPORTED_INDEX_VERSIONS = [1, 2]"

fun parse_entries ::
    "(string \<Rightarrow> int option) \<Rightarrow> bool \<Rightarrow> entries \<Rightarrow> pyval list \<Rightarrow> registry_error + entries" where
  "parse_entries fromiso legacy acc [] = Inr acc"
| "parse_entries fromiso legacy acc (VDict d # items) =
     (case entry_from_dict fromiso d of
        Inl e \<Rightarrow> Inl e
      | Inr e \<Rightarrow>
          (let entry = (if legacy then e\<lparr>re_signature := None, re_key_id := None\<rparr> else e)
           in if dict_get acc (re_ref entry) \<noteq> None then Inl CorruptRegistryError
              else parse_entries fromiso legacy (dict_set (re_ref entry) entry acc) items))"
| "parse_entries fromiso legacy acc (_ # items) = Inl CorruptRegistryError"

definition parse_registry_index :: "(string \<Rightarrow> int option) \<Rightarrow> pyval \<Rightarrow> registry_error + entries" where
  "parse_registry_index fromiso raw =
     (case raw of
        VDict d \<Rightarrow>
          (case vget d ''version'' of
             Some (VInt version) \<Rightarrow>
               if version \<notin> set SUPPORTED_INDEX_VERSIONS then Inl CorruptRegistryError
               else (case vget d ''entries'' of
                       Some (VList items) \<Rightarrow>
                         parse_entries fromiso (version < INDEX_SCHEMA_VERSION) [] items
                     | _ \<Rightarrow> Inl CorruptRegistryError)
           | _ \<Rightarrow> Inl CorruptRegistryError)
      | _ \<Rightarrow> Inl CorruptRegistryError)"

text \<open>What a parsed index satisfies.\<close>

definition entry_ok :: "registry_entry \<Rightarrow> bool" where
  "entry_ok e \<longleftrightarrow> ref_valid (re_ref e) \<and> is_sha256_hex (re_digest e)"

definition entries_ok :: "entries \<Rightarrow> bool" where
  "entries_ok es \<longleftrightarrow> dict_wf es \<and> (\<forall>(r, e) \<in> set es. re_ref e = r \<and> entry_ok e)"

lemma entries_ok_Nil [simp]: "entries_ok []"
  by (simp add: entries_ok_def)

lemma set_dict_set_new: "dict_get es r = None \<Longrightarrow> set (dict_set r e es) = insert (r, e) (set es)"
  by (induction es) (auto split: if_splits)

lemma entries_ok_set:
  "entries_ok es \<Longrightarrow> dict_get es (re_ref e) = None \<Longrightarrow> entry_ok e \<Longrightarrow> entries_ok (dict_set (re_ref e) e es)"
  by (auto simp: entries_ok_def set_dict_set_new)

lemma entries_ok_get: "entries_ok es \<Longrightarrow> dict_get es r = Some e \<Longrightarrow> re_ref e = r \<and> entry_ok e"
  by (auto simp: entries_ok_def dest!: map_of_SomeD)

lemma entry_from_dict_ok: "entry_from_dict fromiso d = Inr e \<Longrightarrow> entry_ok e"
  by (auto simp: entry_from_dict_def entry_ok_def ref_valid_def split: option.splits prod.splits sum.splits if_splits)

lemma entry_from_dict_err: "entry_from_dict fromiso d = Inl x \<Longrightarrow> x = CorruptRegistryError"
  by (auto simp: entry_from_dict_def split: option.splits prod.splits sum.splits if_splits)

lemma parse_entries_ok:
  "parse_entries fromiso legacy acc items = Inr es \<Longrightarrow> entries_ok acc \<Longrightarrow> entries_ok es"
proof (induction fromiso legacy acc items rule: parse_entries.induct)
  case (2 fromiso legacy acc d items)
  then obtain e where e: "entry_from_dict fromiso d = Inr e"
    by (auto split: sum.splits)
  define x where "x = (if legacy then e\<lparr>re_signature := None, re_key_id := None\<rparr> else e)"
  have "entry_ok x" using entry_from_dict_ok [OF e] by (simp add: x_def entry_ok_def)
  with 2 e show ?case
    by (auto simp: Let_def x_def entries_ok_set split: if_splits)
qed auto

lemma parse_entries_legacy:
  "parse_entries fromiso True acc items = Inr es \<Longrightarrow>
   (\<forall>(r, e) \<in> set acc. re_signature e = None \<and> re_key_id e = None) \<Longrightarrow>
   (\<forall>(r, e) \<in> set es. re_signature e = None \<and> re_key_id e = None)"
proof (induction fromiso True acc items rule: parse_entries.induct)
  case (2 fromiso acc d items)
  from 2(2) show ?case
  proof (cases "entry_from_dict fromiso d")
    case (Inr e)
    with 2(2) have new: "dict_get acc (re_ref e) = None"
      by (auto simp: Let_def split: if_splits)
    show ?thesis using 2(1) [OF Inr refl] 2(2,3) Inr new
      by (auto simp: Let_def set_dict_set_new split: if_splits)
  qed simp
qed auto

lemma parse_index_ok: "parse_registry_index fromiso raw = Inr es \<Longrightarrow> entries_ok es"
  by (auto simp: parse_registry_index_def split: pyval.splits option.splits if_splits
      intro: parse_entries_ok [where acc = "[]"])

section \<open>Listings and the latest version\<close>

text \<open>\<open>sorted(selected, key=lambda e: e.ref)\<close>. Comparing two references parses both versions, and a
  list of two or more elements has each of them compared.\<close>

definition sort_entries :: "registry_entry list \<Rightarrow> registry_error + registry_entry list" where
  "sort_entries xs =
     (if length xs \<ge> 2 \<and> list_ex (\<lambda>e. \<not> ref_valid (re_ref e)) xs then Inl InvalidVersionError
      else Inr (sort_key (\<lambda>e. ref_order_key (re_ref e)) xs))"

definition type_matches :: "pack_type option \<Rightarrow> pack_type \<Rightarrow> bool" where
  "type_matches pack_type t \<longleftrightarrow> pack_type = None \<or> pack_type = Some t"

definition list_entries :: "entries \<Rightarrow> pack_type option \<Rightarrow> registry_error + registry_entry list" where
  "list_entries es pack_type = sort_entries (filter (\<lambda>e. type_matches pack_type (re_type e)) (map snd es))"

text \<open>\<open>max(candidates, key=\<dots>)\<close>: the first greatest element.\<close>

fun first_max :: "('a \<Rightarrow> 'k :: linorder) \<Rightarrow> 'a \<Rightarrow> 'a list \<Rightarrow> 'a" where
  "first_max f m [] = m"
| "first_max f m (x # xs) = first_max f (if f x > f m then x else m) xs"

definition latest_entry :: "entries \<Rightarrow> string \<Rightarrow> registry_error + registry_entry option" where
  "latest_entry es pack_id =
     (case filter (\<lambda>e. pr_id (re_ref e) = pack_id) (map snd es) of
        [] \<Rightarrow> Inr None
      | e # candidates \<Rightarrow>
          if list_ex (\<lambda>e. \<not> ref_valid (re_ref e)) (e # candidates) then Inl InvalidVersionError
          else Inr (Some (first_max (\<lambda>e. ref_semver_key (re_ref e)) e candidates)))"

lemma first_max_mem: "first_max f m xs \<in> insert m (set xs)"
proof (induction xs arbitrary: m)
  case (Cons y ys)
  from Cons [of "if f y > f m then y else m"] show ?case by (auto split: if_splits)
qed simp

lemma first_max_ge: "x \<in> insert m (set xs) \<Longrightarrow> f x \<le> f (first_max f m xs)"
proof (induction xs arbitrary: m x)
  case (Cons y ys)
  define m' where "m' = (if f y > f m then y else m)"
  have "f m \<le> f m'" "f y \<le> f m'" by (auto simp: m'_def)
  moreover have "f m' \<le> f (first_max f m' ys)" using Cons.IH [of m' m'] by simp
  ultimately show ?case using Cons.prems Cons.IH [of x m']
    by (auto simp: m'_def [symmetric] dest: order_trans)
qed simp

text \<open>A list strictly sorted by a key is determined by its elements.\<close>

lemma sorted_distinct_set_unique_key:
  fixes f :: "'a \<Rightarrow> 'k :: linorder"
  assumes "sorted_wrt (\<lambda>a b. f a < f b) xs" "sorted_wrt (\<lambda>a b. f a < f b) ys" "set xs = set ys"
  shows "xs = ys"
proof -
  have s: "sorted (map f zs)" "distinct (map f zs)" if "sorted_wrt (\<lambda>a b. f a < f b) zs" for zs
  proof -
    have "sorted_wrt (<) (map f zs)" using that by (simp add: sorted_wrt_map)
    then show "sorted (map f zs)" "distinct (map f zs)" unfolding strict_sorted_iff by auto
  qed
  have d: "distinct (map f xs)" "distinct (map f ys)" using s assms by auto
  then have "mset xs = mset ys"
    using assms(3) set_eq_iff_mset_eq_distinct [of xs ys] by (simp add: distinct_map)
  then have "sort_key f xs = sort_key f ys"
    by (rule sort_key_mset_eq) (use d in \<open>simp add: distinct_map\<close>)
  then show ?thesis using s assms by (simp add: sort_key_id_if_sorted)
qed

section \<open>The reader contract\<close>

text \<open>
  \<open>PackRegistryReader\<close>, the interface of the engine and of per-workload pinning: \<open>get\<close>, \<open>list\<close> and
  \<open>latest\<close>, each of which may fail. In the states \<open>reader_ok\<close> describes none of them does, a listing
  is strictly ordered and holds exactly what \<open>get\<close> finds, and \<open>latest\<close> is the greatest version.
\<close>

locale pack_registry_reader =
  fixes reader_ok :: "'r \<Rightarrow> bool"
    and rd_get :: "'r \<Rightarrow> pack_ref \<Rightarrow> registry_error + registry_entry option"
    and rd_list :: "'r \<Rightarrow> pack_type option \<Rightarrow> registry_error + registry_entry list"
    and rd_latest :: "'r \<Rightarrow> string \<Rightarrow> registry_error + registry_entry option"
  assumes get_ok: "reader_ok r \<Longrightarrow> \<exists>x. rd_get r q = Inr x"
    and get_ref: "reader_ok r \<Longrightarrow> rd_get r q = Inr (Some e) \<Longrightarrow> re_ref e = q \<and> ref_valid q"
    and list_ok: "reader_ok r \<Longrightarrow> \<exists>es. rd_list r t = Inr es"
    and list_sorted: "reader_ok r \<Longrightarrow> rd_list r t = Inr es \<Longrightarrow>
      sorted_wrt (\<lambda>a b. ref_order_key (re_ref a) < ref_order_key (re_ref b)) es"
    and list_get: "reader_ok r \<Longrightarrow> rd_list r t = Inr es \<Longrightarrow>
      e \<in> set es \<longleftrightarrow> rd_get r (re_ref e) = Inr (Some e) \<and> type_matches t (re_type e)"
    and latest_ok: "reader_ok r \<Longrightarrow> \<exists>x. rd_latest r i = Inr x"
    and latest_none: "reader_ok r \<Longrightarrow> rd_latest r i = Inr None \<Longrightarrow> pr_id q = i \<Longrightarrow> rd_get r q = Inr None"
    and latest_some: "reader_ok r \<Longrightarrow> rd_latest r i = Inr (Some e) \<Longrightarrow>
      pr_id (re_ref e) = i \<and> rd_get r (re_ref e) = Inr (Some e)"
    and latest_max: "reader_ok r \<Longrightarrow> rd_latest r i = Inr (Some e) \<Longrightarrow> pr_id q = i \<Longrightarrow>
      rd_get r q = Inr (Some x) \<Longrightarrow> ref_semver_key q \<le> ref_semver_key (re_ref e)"
begin

text \<open>A listing has one entry per reference.\<close>

lemma list_distinct: "reader_ok r \<Longrightarrow> rd_list r t = Inr es \<Longrightarrow> distinct (map re_ref es)"
  using list_sorted [of r t es]
  by (auto simp: distinct_conv_nth sorted_wrt_iff_nth_less) (metis nat_neq_iff order_less_irrefl)

text \<open>The typed listing is the selection from the full one.\<close>

lemma list_filter:
  assumes ok: "reader_ok r" and full: "rd_list r None = Inr es" and typed: "rd_list r (Some t) = Inr ts"
  shows "ts = filter (\<lambda>e. re_type e = t) es"
proof (rule sorted_distinct_set_unique_key)
  show "set ts = set (filter (\<lambda>e. re_type e = t) es)"
    using list_get [OF ok full] list_get [OF ok typed] by (auto simp: type_matches_def)
qed (use list_sorted [OF ok full] list_sorted [OF ok typed] in \<open>auto intro: sorted_wrt_filter\<close>)

text \<open>What \<open>latest\<close> finds is in the listing, and the listing has no higher version of that pack.\<close>

lemma latest_listed:
  assumes ok: "reader_ok r" and l: "rd_list r None = Inr es" and e: "rd_latest r i = Inr (Some e)"
  shows "e \<in> set es \<and> pr_id (re_ref e) = i
    \<and> (\<forall>x \<in> set es. pr_id (re_ref x) = i \<longrightarrow> ref_semver_key (re_ref x) \<le> ref_semver_key (re_ref e))"
  using latest_some [OF ok e] latest_max [OF ok e] list_get [OF ok l] by (auto simp: type_matches_def)

end


section \<open>The in-memory registry\<close>

text \<open>\<open>InMemoryPackRegistry\<close>, the view of one tenant's imports. It is safe to read where the versions
  of its entries parse.\<close>

definition from_entries :: "registry_entry list \<Rightarrow> entries" where
  "from_entries es = foldl (\<lambda>d e. dict_set (re_ref e) e d) [] es"

definition imported_pack_to_entry :: "imported_pack \<Rightarrow> registry_entry" where
  "imported_pack_to_entry p =
     \<lparr>re_ref = \<lparr>pr_id = ip_packId p, pr_version = ip_version p\<rparr>, re_type = ip_packType p,
      re_digest = ip_digest p, re_createdAt = ip_importedAt p, re_signature = ip_signature p,
      re_key_id = ip_keyId p\<rparr>"

definition mem_get :: "entries \<Rightarrow> pack_ref \<Rightarrow> registry_error + registry_entry option" where
  "mem_get es ref = Inr (dict_get es ref)"

definition mem_ok :: "entries \<Rightarrow> bool" where
  "mem_ok es \<longleftrightarrow> dict_wf es \<and> (\<forall>(r, e) \<in> set es. re_ref e = r \<and> ref_valid r)"

lemma mem_okD: "mem_ok es \<Longrightarrow> e \<in> snd ` set es \<longleftrightarrow> dict_get es (re_ref e) = Some e"
  by (auto simp: mem_ok_def dict_get_mem [symmetric] image_iff intro!: bexI [where x = "(re_ref e, e)"])

lemma mem_ok_valid: "mem_ok es \<Longrightarrow> dict_get es r = Some e \<Longrightarrow> re_ref e = r \<and> ref_valid r"
  by (auto simp: mem_ok_def dest!: map_of_SomeD)

lemma mem_ok_map: "mem_ok es \<Longrightarrow> map re_ref (map snd es) = map fst es"
  by (auto simp: mem_ok_def)

lemma entries_ok_mem: "entries_ok es \<Longrightarrow> mem_ok es"
  by (auto simp: entries_ok_def mem_ok_def entry_ok_def)

lemma list_entries_ok:
  assumes "mem_ok es"
  shows "list_entries es t =
    Inr (sort_key (\<lambda>e. ref_order_key (re_ref e)) (filter (\<lambda>e. type_matches t (re_type e)) (map snd es)))"
  using assms by (auto simp: list_entries_def sort_entries_def mem_ok_def list_ex_iff Let_def)

lemma latest_entry_cases:
  assumes ok: "mem_ok es"
  shows "(latest_entry es i = Inr None \<and> (\<forall>e. dict_get es (re_ref e) = Some e \<longrightarrow> pr_id (re_ref e) \<noteq> i))
    \<or> (\<exists>e. latest_entry es i = Inr (Some e) \<and> dict_get es (re_ref e) = Some e \<and> pr_id (re_ref e) = i
         \<and> (\<forall>x. dict_get es (re_ref x) = Some x \<longrightarrow> pr_id (re_ref x) = i \<longrightarrow>
               ref_semver_key (re_ref x) \<le> ref_semver_key (re_ref e)))"
proof -
  let ?c = "filter (\<lambda>e. pr_id (re_ref e) = i) (map snd es)"
  have mem: "x \<in> set ?c \<longleftrightarrow> dict_get es (re_ref x) = Some x \<and> pr_id (re_ref x) = i" for x
    using mem_okD [OF ok, of x] by auto
  show ?thesis
  proof (cases ?c)
    case Nil
    then have "latest_entry es i = Inr None" by (simp add: latest_entry_def)
    moreover have "\<forall>x. \<not> (dict_get es (re_ref x) = Some x \<and> pr_id (re_ref x) = i)"
      using mem Nil by simp
    ultimately show ?thesis by blast
  next
    case (Cons y ys)
    define m where "m = first_max (\<lambda>e. ref_semver_key (re_ref e)) y ys"
    have valid: "ref_valid (re_ref x)" if "x \<in> set (y # ys)" for x
      using that mem mem_ok_valid [OF ok] unfolding Cons by blast
    then have l: "latest_entry es i = Inr (Some m)"
      unfolding latest_entry_def Cons by (auto simp: list_ex_iff m_def)
    have "m \<in> set (y # ys)" using first_max_mem [of _ y ys] by (simp add: m_def)
    then have "dict_get es (re_ref m) = Some m \<and> pr_id (re_ref m) = i" using mem Cons by metis
    moreover have "ref_semver_key (re_ref x) \<le> ref_semver_key (re_ref m)"
      if "dict_get es (re_ref x) = Some x" "pr_id (re_ref x) = i" for x
    proof -
      have "x \<in> set (y # ys)" using that mem Cons by metis
      then show ?thesis
        using first_max_ge [of x y ys "\<lambda>e. ref_semver_key (re_ref e)"] by (simp add: m_def)
    qed
    ultimately show ?thesis using l by blast
  qed
qed

lemma sorted_entries_strict:
  assumes "distinct (map re_ref xs)" "\<forall>e \<in> set xs. ref_valid (re_ref e)"
  shows "sorted_wrt (\<lambda>a b. ref_order_key (re_ref a) < ref_order_key (re_ref b))
    (sort_key (\<lambda>e. ref_order_key (re_ref e)) xs)"
proof -
  let ?k = "\<lambda>e. ref_order_key (re_ref e)"
  have "inj_on ?k (set xs)"
    using assms ref_order_key_inj by (intro inj_onI) (metis distinct_map inj_onD)
  then have "distinct (map ?k xs)" using assms(1) by (simp add: distinct_map)
  then have "distinct (map ?k (sort_key ?k xs))"
    using mset_eq_imp_distinct_iff [of "map ?k (sort_key ?k xs)" "map ?k xs"] by simp
  then have "sorted_wrt (<) (map ?k (sort_key ?k xs))"
    unfolding strict_sorted_iff by simp
  then show ?thesis by (simp add: sorted_wrt_map)
qed

interpretation mem: pack_registry_reader mem_ok mem_get list_entries latest_entry
proof
  fix r :: entries and q i e t es x assume ok: "mem_ok r"
  show "\<exists>x. mem_get r q = Inr x" by (simp add: mem_get_def)
  show "\<exists>es. list_entries r t = Inr es" using list_entries_ok [OF ok] by blast
  show "\<exists>x. latest_entry r i = Inr x" using latest_entry_cases [OF ok, of i] by blast
  show "mem_get r q = Inr (Some e) \<Longrightarrow> re_ref e = q \<and> ref_valid q"
    using mem_ok_valid [OF ok] by (simp add: mem_get_def)
  show "list_entries r t = Inr es \<Longrightarrow> sorted_wrt (\<lambda>a b. ref_order_key (re_ref a) < ref_order_key (re_ref b)) es"
  proof -
    assume "list_entries r t = Inr es"
    then have es: "es = sort_key (\<lambda>e. ref_order_key (re_ref e)) (filter (\<lambda>e. type_matches t (re_type e)) (map snd r))"
      using list_entries_ok [OF ok] by simp
    have "distinct (map re_ref (map snd r))" using ok unfolding mem_ok_map [OF ok] by (simp add: mem_ok_def)
    then show ?thesis unfolding es using ok
      by (intro sorted_entries_strict distinct_map_filter) (auto simp: mem_ok_def)
  qed
  show "list_entries r t = Inr es \<Longrightarrow>
      e \<in> set es \<longleftrightarrow> mem_get r (re_ref e) = Inr (Some e) \<and> type_matches t (re_type e)"
  proof -
    assume "list_entries r t = Inr es"
    then have es: "es = sort_key (\<lambda>e. ref_order_key (re_ref e)) (filter (\<lambda>e. type_matches t (re_type e)) (map snd r))"
      using list_entries_ok [OF ok] by simp
    have "set es = {e \<in> snd ` set r. type_matches t (re_type e)}" unfolding es by simp
    then show ?thesis using mem_okD [OF ok, of e] by (simp add: mem_get_def)
  qed
  show "mem_get r q = Inr None" if l: "latest_entry r i = Inr None" and q: "pr_id q = i"
  proof (cases "dict_get r q")
    case (Some a)
    then have "re_ref a = q" using mem_ok_valid [OF ok] by blast
    with Some l q latest_entry_cases [OF ok, of i] show ?thesis by force
  qed (simp add: mem_get_def)
  show "pr_id (re_ref e) = i \<and> mem_get r (re_ref e) = Inr (Some e)" if "latest_entry r i = Inr (Some e)"
    using that latest_entry_cases [OF ok, of i] by (simp add: mem_get_def)
  show "ref_semver_key q \<le> ref_semver_key (re_ref e)"
    if "latest_entry r i = Inr (Some e)" "pr_id q = i" "mem_get r q = Inr (Some x)"
  proof -
    have x: "dict_get r q = Some x" "re_ref x = q"
      using that(3) mem_ok_valid [OF ok, of q x] by (simp_all add: mem_get_def)
    have "\<forall>x. dict_get r (re_ref x) = Some x \<longrightarrow> pr_id (re_ref x) = i \<longrightarrow>
        ref_semver_key (re_ref x) \<le> ref_semver_key (re_ref e)"
      using that(1) latest_entry_cases [OF ok, of i] by simp
    with x that(2) show ?thesis by metis
  qed
qed

end
