(* ===== verification/Registry_Disk.thy ===== *)
theory Registry_Disk
  imports Pack_Registry
begin

text \<open>
  \<open>PackRegistry\<close>, the on-disk index of \<open>packs_engine/registry.py\<close>: load, save, the three reads, and
  \<open>publish\<close>, first as one critical section and then as the interleaved steps of several processes
  that share the index and the lock file.
\<close>

section \<open>Loading and saving\<close>

datatype index_file = IndexAbsent | IndexUnreadable | IndexDocument pyval

definition registry_load :: "(string \<Rightarrow> int option) \<Rightarrow> index_file \<Rightarrow> registry_error + entries" where
  "registry_load fromiso f =
     (case f of
        IndexAbsent \<Rightarrow> Inr []
      | IndexUnreadable \<Rightarrow> Inl CorruptRegistryError
      | IndexDocument raw \<Rightarrow> parse_registry_index fromiso raw)"

definition registry_save :: "(int \<Rightarrow> string) \<Rightarrow> entries \<Rightarrow> registry_error + index_file" where
  "registry_save toiso es =
     rbind (sort_entries (map snd es))
       (\<lambda>ordered. Inr (IndexDocument (VDict
          [(VStr ''version'', VInt INDEX_SCHEMA_VERSION),
           (VStr ''entries'', VList (map (\<lambda>e. VDict (entry_to_dict toiso e)) ordered))])))"

definition registry_get ::
    "(string \<Rightarrow> int option) \<Rightarrow> index_file \<Rightarrow> pack_ref \<Rightarrow> registry_error + registry_entry option" where
  "registry_get fromiso f ref = rbind (registry_load fromiso f) (\<lambda>es. Inr (dict_get es ref))"

definition registry_list ::
    "(string \<Rightarrow> int option) \<Rightarrow> index_file \<Rightarrow> pack_type option \<Rightarrow> registry_error + registry_entry list" where
  "registry_list fromiso f pack_type = rbind (registry_load fromiso f) (\<lambda>es. list_entries es pack_type)"

definition registry_latest ::
    "(string \<Rightarrow> int option) \<Rightarrow> index_file \<Rightarrow> string \<Rightarrow> registry_error + registry_entry option" where
  "registry_latest fromiso f pack_id = rbind (registry_load fromiso f) (\<lambda>es. latest_entry es pack_id)"

text \<open>The index is readable: absent, or a document that parses.\<close>

definition disk_ok :: "(string \<Rightarrow> int option) \<Rightarrow> index_file \<Rightarrow> bool" where
  "disk_ok fromiso f \<longleftrightarrow> (\<exists>es. registry_load fromiso f = Inr es)"

lemma load_ok: "registry_load fromiso f = Inr es \<Longrightarrow> entries_ok es"
  by (auto simp: registry_load_def parse_index_ok split: index_file.splits)

lemma disk_okE:
  assumes "disk_ok fromiso f"
  obtains es where "registry_load fromiso f = Inr es" "mem_ok es" "registry_get fromiso f = mem_get es"
    "registry_list fromiso f = list_entries es" "registry_latest fromiso f = latest_entry es"
proof -
  from assms obtain es where "registry_load fromiso f = Inr es" by (auto simp: disk_ok_def)
  with that [of es] show thesis
    by (auto simp: registry_get_def registry_list_def registry_latest_def mem_get_def fun_eq_iff
        intro: entries_ok_mem load_ok)
qed

text \<open>The on-disk registry keeps the reader contract wherever its index parses, by the contract of the
  entries it loads.\<close>

interpretation disk: pack_registry_reader "disk_ok fromiso" "registry_get fromiso"
    "registry_list fromiso" "registry_latest fromiso" for fromiso
proof
  fix r q i e t es x assume "disk_ok fromiso r"
  then obtain d where d: "mem_ok d" "registry_get fromiso r = mem_get d"
    "registry_list fromiso r = list_entries d" "registry_latest fromiso r = latest_entry d"
    by (rule disk_okE)
  show "\<exists>x. registry_get fromiso r q = Inr x" "\<exists>es. registry_list fromiso r t = Inr es"
    "\<exists>x. registry_latest fromiso r i = Inr x"
    unfolding d using mem.get_ok mem.list_ok mem.latest_ok d(1) by blast+
  show "registry_get fromiso r q = Inr (Some e) \<Longrightarrow> re_ref e = q \<and> ref_valid q"
    unfolding d by (rule mem.get_ref [OF d(1)])
  show "registry_list fromiso r t = Inr es \<Longrightarrow> sorted_wrt (\<lambda>a b. ref_order_key (re_ref a) < ref_order_key (re_ref b)) es"
    unfolding d by (rule mem.list_sorted [OF d(1)])
  show "registry_list fromiso r t = Inr es \<Longrightarrow>
      e \<in> set es \<longleftrightarrow> registry_get fromiso r (re_ref e) = Inr (Some e) \<and> type_matches t (re_type e)"
    unfolding d by (rule mem.list_get [OF d(1)])
  show "registry_latest fromiso r i = Inr None \<Longrightarrow> pr_id q = i \<Longrightarrow> registry_get fromiso r q = Inr None"
    unfolding d by (rule mem.latest_none [OF d(1)])
  show "registry_latest fromiso r i = Inr (Some e) \<Longrightarrow>
      pr_id (re_ref e) = i \<and> registry_get fromiso r (re_ref e) = Inr (Some e)"
    unfolding d by (rule mem.latest_some [OF d(1)])
  show "registry_latest fromiso r i = Inr (Some e) \<Longrightarrow> pr_id q = i \<Longrightarrow>
      registry_get fromiso r q = Inr (Some x) \<Longrightarrow> ref_semver_key q \<le> ref_semver_key (re_ref e)"
    unfolding d by (rule mem.latest_max [OF d(1)])
qed

section \<open>Saving and loading are inverse\<close>

definition iso_ok :: "(string \<Rightarrow> int option) \<Rightarrow> (int \<Rightarrow> string) \<Rightarrow> bool" where
  "iso_ok fromiso toiso \<longleftrightarrow> (\<forall>t. fromiso (toiso t) = Some t)"

lemma entry_roundtrip:
  assumes "iso_ok fromiso toiso" "entry_ok e"
  shows "entry_from_dict fromiso (entry_to_dict toiso e) = Inr e"
proof -
  have [simp]: "inst_opt_str [] k = Some None" for k by (simp add: inst_opt_str_def)
  from assms(2) obtain v where v: "semver_parse (pr_version (re_ref e)) = Inr v" "is_sha256_hex (re_digest e)"
    by (auto simp: entry_ok_def ref_valid_def)
  show ?thesis using v assms(1)
    by (simp add: entry_from_dict_def entry_to_dict_def inst_str_def inst_opt_str_def pack_type_field_def
        opt_raw_def iso_ok_def split: option.split)
qed

lemma parse_entries_saved:
  assumes "iso_ok fromiso toiso"
  shows "\<forall>e \<in> set xs. entry_ok e \<Longrightarrow> distinct (map re_ref xs) \<Longrightarrow>
    (\<forall>e \<in> set xs. dict_get acc (re_ref e) = None) \<Longrightarrow>
    parse_entries fromiso False acc (map (\<lambda>e. VDict (entry_to_dict toiso e)) xs)
      = Inr (foldl (\<lambda>d e. dict_set (re_ref e) e d) acc xs)"
proof (induction xs arbitrary: acc)
  case (Cons x xs)
  then have "\<forall>e \<in> set xs. dict_get (dict_set (re_ref x) x acc) (re_ref e) = None" by (auto simp: image_iff)
  with Cons show ?case using entry_roundtrip [OF assms] by (simp add: Let_def)
qed simp

lemma foldl_dict_set_get:
  "distinct (map re_ref xs) \<Longrightarrow>
   dict_get (foldl (\<lambda>d e. dict_set (re_ref e) e d) acc xs) r
     = (case find (\<lambda>e. re_ref e = r) xs of None \<Rightarrow> dict_get acc r | Some e \<Rightarrow> Some e)"
proof (induction xs arbitrary: acc)
  case (Cons x xs)
  show ?case
  proof (cases "re_ref x = r")
    case True
    then have "find (\<lambda>e. re_ref e = r) xs = None" using Cons.prems by (auto simp: find_None_iff image_iff)
    with Cons True show ?thesis by simp
  next
    case False
    with Cons show ?thesis by (simp split: option.split)
  qed
qed simp

lemma registry_roundtrip:
  assumes iso: "iso_ok fromiso toiso" and ok: "entries_ok es"
  obtains f es' where "registry_save toiso es = Inr f" "registry_load fromiso f = Inr es'"
    "dict_get es' = dict_get es"
proof -
  define xs where "xs = sort_key (\<lambda>e. ref_order_key (re_ref e)) (map snd es)"
  have refs: "map re_ref (map snd es) = map fst es" using mem_ok_map [OF entries_ok_mem [OF ok]] .
  have all: "\<forall>e \<in> set xs. entry_ok e" using ok by (auto simp: xs_def entries_ok_def)
  have "distinct (map re_ref (map snd es))" unfolding refs using ok by (simp add: entries_ok_def)
  then have dist: "distinct (map re_ref xs)"
    using mset_eq_imp_distinct_iff [of "map re_ref xs" "map re_ref (map snd es)"]
    by (simp add: xs_def del: map_map)
  have "sort_entries (map snd es) = Inr xs"
    using ok by (auto simp: sort_entries_def xs_def list_ex_iff entries_ok_def entry_ok_def)
  then obtain f where f: "registry_save toiso es = Inr f"
      "registry_load fromiso f = parse_entries fromiso False [] (map (\<lambda>e. VDict (entry_to_dict toiso e)) xs)"
    by (auto simp: registry_save_def registry_load_def parse_registry_index_def SUPPORTED_INDEX_VERSIONS_def
        INDEX_SCHEMA_VERSION_def)
  define es' where "es' = foldl (\<lambda>d e. dict_set (re_ref e) e d) [] xs"
  have l: "registry_load fromiso f = Inr es'"
    unfolding f(2) es'_def by (rule parse_entries_saved [OF iso all dist]) simp
  have "dict_get es' r = dict_get es r" for r
  proof (cases "find (\<lambda>e. re_ref e = r) xs")
    case None
    then have "r \<notin> re_ref ` set xs" by (auto simp: find_None_iff)
    also have "re_ref ` set xs = fst ` set es"
      using arg_cong [OF refs, of set] by (simp add: xs_def image_image)
    finally have "dict_get es r = None" by (simp add: map_of_eq_None_iff)
    then show ?thesis using None foldl_dict_set_get [OF dist, of "[]" r] by (simp add: es'_def)
  next
    case (Some e)
    then have e: "e \<in> set xs" "re_ref e = r" by (auto simp: find_Some_iff)
    then have "dict_get es r = Some e"
      using mem_okD [OF entries_ok_mem [OF ok], of e] by (auto simp: xs_def)
    then show ?thesis using Some foldl_dict_set_get [OF dist, of "[]" r] by (simp add: es'_def)
  qed
  with that f(1) l show thesis by blast
qed

section \<open>Publishing\<close>

text \<open>\<open>signature: PackSignature | str | None\<close>, and \<open>_normalize_publish_signature\<close>.\<close>

datatype publish_signature = NoSignature | SignatureModel pack_signature | SignatureText string

definition normalize_publish_signature ::
    "(string \<Rightarrow> py_exc + pyval) \<Rightarrow> publish_signature \<Rightarrow> registry_error + string option \<times> string option" where
  "normalize_publish_signature loads signature =
     (case signature of
        NoSignature \<Rightarrow> Inr (None, None)
      | SignatureModel s \<Rightarrow> Inr (Some (serialize_pack_signature s), Some (ps_key_id s))
      | SignatureText text \<Rightarrow>
          (case loads text of
             Inr (VDict d) \<Rightarrow>
               (case pack_signature_of d of
                  None \<Rightarrow> Inl PublishValueError
                | Some s \<Rightarrow> Inr (Some (serialize_pack_signature s), Some (ps_key_id s)))
           | _ \<Rightarrow> Inl PublishValueError))"

text \<open>\<open>str(v)\<close>: a string is itself; the rendering of any other value is the parameter \<open>render\<close>.\<close>

definition to_str :: "(pyval \<Rightarrow> string) \<Rightarrow> pyval \<Rightarrow> string" where
  "to_str render v = (case str_key v of Some s \<Rightarrow> s | None \<Rightarrow> render v)"

text \<open>The part of \<open>publish\<close> before the lock: the entry the pack would be recorded as.\<close>

definition publish_prepare ::
    "(nat list \<Rightarrow> string) \<Rightarrow> (pyfloat \<Rightarrow> string) \<Rightarrow> (string \<Rightarrow> py_exc + pyval) \<Rightarrow> (pyval \<Rightarrow> string) \<Rightarrow>
     raw_dict \<Rightarrow> int \<Rightarrow> publish_signature \<Rightarrow> registry_error + registry_entry" where
  "publish_prepare sha256 fr loads render pack created_at signature =
     (case vget pack ''manifest'' of
        Some (VDict manifest) \<Rightarrow>
          (case (vget manifest ''id'', vget manifest ''version'', pack_type_field manifest) of
             (Some pack_id, Some version, Some pack_type) \<Rightarrow>
               (let ref = \<lparr>pr_id = to_str render pack_id, pr_version = to_str render version\<rparr>
                in if \<not> ref_valid ref then Inl InvalidVersionError
                   else (case canonical_digest sha256 fr pack of
                           Inl x \<Rightarrow> Inl (CanonicalError x)
                         | Inr digest \<Rightarrow>
                             rbind (normalize_publish_signature loads signature)
                               (\<lambda>(stored_signature, key_id).
                                  Inr \<lparr>re_ref = ref, re_type = pack_type, re_digest = digest,
                                       re_createdAt = created_at, re_signature = stored_signature,
                                       re_key_id = key_id\<rparr>)))
           | _ \<Rightarrow> Inl PublishValueError)
      | _ \<Rightarrow> Inl PublishValueError)"

text \<open>The conflict check on the entries loaded inside the lock: an answer, or \<open>None\<close> to write.\<close>

definition publish_conflict :: "entries \<Rightarrow> registry_entry \<Rightarrow> (registry_error + registry_entry) option" where
  "publish_conflict es entry =
     (case dict_get es (re_ref entry) of
        None \<Rightarrow> None
      | Some existing \<Rightarrow>
          if re_digest existing \<noteq> re_digest entry then Some (Inl ImmutableVersionError)
          else Some (Inr existing))"

text \<open>The critical section: load, check, save.\<close>

definition publish_locked ::
    "(string \<Rightarrow> int option) \<Rightarrow> (int \<Rightarrow> string) \<Rightarrow> registry_entry \<Rightarrow> index_file \<Rightarrow>
     (registry_error + registry_entry) \<times> index_file" where
  "publish_locked fromiso toiso entry f =
     (case registry_load fromiso f of
        Inl x \<Rightarrow> (Inl x, f)
      | Inr es \<Rightarrow>
          (case publish_conflict es entry of
             Some r \<Rightarrow> (r, f)
           | None \<Rightarrow>
               (case registry_save toiso (dict_set (re_ref entry) entry es) of
                  Inl x \<Rightarrow> (Inl x, f)
                | Inr f' \<Rightarrow> (Inr entry, f'))))"

definition publish ::
    "(nat list \<Rightarrow> string) \<Rightarrow> (pyfloat \<Rightarrow> string) \<Rightarrow> (string \<Rightarrow> py_exc + pyval) \<Rightarrow> (pyval \<Rightarrow> string) \<Rightarrow>
     (string \<Rightarrow> int option) \<Rightarrow> (int \<Rightarrow> string) \<Rightarrow>
     raw_dict \<Rightarrow> int \<Rightarrow> publish_signature \<Rightarrow> index_file \<Rightarrow>
     (registry_error + registry_entry) \<times> index_file" where
  "publish sha256 fr loads render fromiso toiso pack created_at signature f =
     (case publish_prepare sha256 fr loads render pack created_at signature of
        Inl x \<Rightarrow> (Inl x, f)
      | Inr entry \<Rightarrow> publish_locked fromiso toiso entry f)"

lemma publish_prepare_ok:
  assumes "\<And>bs. is_sha256_hex (sha256 bs)"
    and "publish_prepare sha256 fr loads render pack now sg = Inr e"
  shows "entry_ok e \<and> canonical_digest sha256 fr pack = Inr (re_digest e)"
  using assms
  by (auto simp: publish_prepare_def entry_ok_def canonical_digest_def rbind_Inr_iff Let_def
      split: option.splits pyval.splits if_splits sum.splits)

lemma publish_lockedE:
  assumes iso: "iso_ok fromiso toiso" and l: "registry_load fromiso f = Inr es" and e: "entry_ok e"
    and p: "publish_locked fromiso toiso e f = (r, f')"
  obtains (kept) "publish_conflict es e = Some r" "f' = f"
  | (written) es' where "dict_get es (re_ref e) = None" "r = Inr e" "registry_load fromiso f' = Inr es'"
      "dict_get es' = (dict_get es)(re_ref e \<mapsto> e)"
      "registry_save toiso (dict_set (re_ref e) e es) = Inr f'"
proof (cases "publish_conflict es e")
  case None
  then have new: "dict_get es (re_ref e) = None" by (simp add: publish_conflict_def split: option.splits if_splits)
  obtain f'' es' where s: "registry_save toiso (dict_set (re_ref e) e es) = Inr f''"
      "registry_load fromiso f'' = Inr es'" "dict_get es' = dict_get (dict_set (re_ref e) e es)"
    using registry_roundtrip [OF iso entries_ok_set [OF load_ok [OF l] new e]] by metis
  with p l None have "r = Inr e" "f' = f''" by (simp_all add: publish_locked_def)
  with new s show thesis by (intro written) (simp_all add: fun_eq_iff)
next
  case (Some a)
  with p l show thesis by (intro kept) (simp_all add: publish_locked_def)
qed

section \<open>Concurrent publishers\<close>

text \<open>
  Several processes publish through one index. A process waits for the lock file, which
  \<open>O_CREAT | O_EXCL\<close> creates for one of them; holding it, it loads the index, answers from the
  conflict check or replaces the index in one step, and unlinks the lock file, also when the body
  raised. A process can die at any point of the critical section; its lock file stays, and the
  others give up at their deadline.
\<close>

datatype publisher =
    Idle | Waiting registry_entry | Locked registry_entry | Loaded registry_entry entries
  | Unlocking "registry_error + registry_entry" | Finished "registry_error + registry_entry" | Crashed

record registry_system =
  rg_index :: index_file
  rg_lock :: bool
  rg_procs :: "nat \<Rightarrow> publisher"

inductive pub_step ::
    "(string \<Rightarrow> int option) \<Rightarrow> (int \<Rightarrow> string) \<Rightarrow> registry_system \<Rightarrow> registry_system \<Rightarrow> bool"
  for fromiso toiso where
  request: "rg_procs s i = Idle \<or> rg_procs s i = Finished r \<Longrightarrow> entry_ok e \<Longrightarrow>
     pub_step fromiso toiso s (s\<lparr>rg_procs := (rg_procs s)(i := Waiting e)\<rparr>)"
| acquire: "rg_procs s i = Waiting e \<Longrightarrow> \<not> rg_lock s \<Longrightarrow>
     pub_step fromiso toiso s (s\<lparr>rg_lock := True, rg_procs := (rg_procs s)(i := Locked e)\<rparr>)"
| deadline: "rg_procs s i = Waiting e \<Longrightarrow> rg_lock s \<Longrightarrow>
     pub_step fromiso toiso s (s\<lparr>rg_procs := (rg_procs s)(i := Finished (Inl RegistryLockError))\<rparr>)"
| load_failed: "rg_procs s i = Locked e \<Longrightarrow> registry_load fromiso (rg_index s) = Inl x \<Longrightarrow>
     pub_step fromiso toiso s (s\<lparr>rg_procs := (rg_procs s)(i := Unlocking (Inl x))\<rparr>)"
| load: "rg_procs s i = Locked e \<Longrightarrow> registry_load fromiso (rg_index s) = Inr es \<Longrightarrow>
     pub_step fromiso toiso s (s\<lparr>rg_procs := (rg_procs s)(i := Loaded e es)\<rparr>)"
| answer: "rg_procs s i = Loaded e es \<Longrightarrow> publish_conflict es e = Some r \<Longrightarrow>
     pub_step fromiso toiso s (s\<lparr>rg_procs := (rg_procs s)(i := Unlocking r)\<rparr>)"
| save: "rg_procs s i = Loaded e es \<Longrightarrow> publish_conflict es e = None \<Longrightarrow>
     registry_save toiso (dict_set (re_ref e) e es) = Inr f \<Longrightarrow>
     pub_step fromiso toiso s (s\<lparr>rg_index := f, rg_procs := (rg_procs s)(i := Unlocking (Inr e))\<rparr>)"
| save_failed: "rg_procs s i = Loaded e es \<Longrightarrow> publish_conflict es e = None \<Longrightarrow>
     registry_save toiso (dict_set (re_ref e) e es) = Inl x \<Longrightarrow>
     pub_step fromiso toiso s (s\<lparr>rg_procs := (rg_procs s)(i := Unlocking (Inl x))\<rparr>)"
| unlock: "rg_procs s i = Unlocking r \<Longrightarrow>
     pub_step fromiso toiso s (s\<lparr>rg_lock := False, rg_procs := (rg_procs s)(i := Finished r)\<rparr>)"
| crash: "rg_procs s i \<in> {Locked e, Loaded e es, Unlocking r} \<Longrightarrow>
     pub_step fromiso toiso s (s\<lparr>rg_procs := (rg_procs s)(i := Crashed)\<rparr>)"

inductive_cases pub_stepE: "pub_step fromiso toiso s t"

fun holds_lock :: "publisher \<Rightarrow> bool" where
  "holds_lock (Locked _) = True"
| "holds_lock (Loaded _ _) = True"
| "holds_lock (Unlocking _) = True"
| "holds_lock _ = False"

text \<open>What every process state promises, given the current content \<open>m\<close> of the index.\<close>

fun publisher_ok :: "(pack_ref \<rightharpoonup> registry_entry) \<Rightarrow> publisher \<Rightarrow> bool" where
  "publisher_ok m (Waiting e) = entry_ok e"
| "publisher_ok m (Locked e) = entry_ok e"
| "publisher_ok m (Loaded e es) = (entry_ok e \<and> entries_ok es \<and> dict_get es = m)"
| "publisher_ok m (Unlocking (Inr e)) = (m (re_ref e) = Some e)"
| "publisher_ok m (Finished (Inr e)) = (m (re_ref e) = Some e)"
| "publisher_ok m _ = True"

definition index_map :: "(string \<Rightarrow> int option) \<Rightarrow> registry_system \<Rightarrow> pack_ref \<rightharpoonup> registry_entry" where
  "index_map fromiso s = (case registry_load fromiso (rg_index s) of Inl _ \<Rightarrow> Map.empty | Inr es \<Rightarrow> dict_get es)"

definition system_ok :: "(string \<Rightarrow> int option) \<Rightarrow> registry_system \<Rightarrow> bool" where
  "system_ok fromiso s \<longleftrightarrow>
     disk_ok fromiso (rg_index s)
     \<and> (\<forall>i. holds_lock (rg_procs s i) \<longrightarrow> rg_lock s)
     \<and> (\<forall>i j. holds_lock (rg_procs s i) \<longrightarrow> holds_lock (rg_procs s j) \<longrightarrow> i = j)
     \<and> (\<forall>i. publisher_ok (index_map fromiso s) (rg_procs s i))"

lemma publisher_ok_mono:
  "publisher_ok m p \<Longrightarrow> m \<subseteq>\<^sub>m m' \<Longrightarrow> (\<And>e es. p = Loaded e es \<Longrightarrow> m' = m) \<Longrightarrow> publisher_ok m' p"
  by (cases "(m, p)" rule: publisher_ok.cases) (auto simp: map_le_def dom_def)

lemma system_ok_D:
  assumes "system_ok fromiso s"
  shows "publisher_ok (index_map fromiso s) (rg_procs s i)"
    and "holds_lock (rg_procs s i) \<Longrightarrow> holds_lock (rg_procs s j) \<Longrightarrow> i = j"
    and "holds_lock (rg_procs s i) \<Longrightarrow> rg_lock s"
    and "disk_ok fromiso (rg_index s)"
  using assms unfolding system_ok_def by auto

lemma system_ok_procs:
  assumes ok: "system_ok fromiso s" and i: "holds_lock p \<Longrightarrow> holds_lock (rg_procs s i)"
    and p: "publisher_ok (index_map fromiso s) p"
  shows "system_ok fromiso (s\<lparr>rg_procs := (rg_procs s)(i := p)\<rparr>)"
proof -
  let ?t = "s\<lparr>rg_procs := (rg_procs s)(i := p)\<rparr>"
  have h: "holds_lock (rg_procs s j)" if "holds_lock (rg_procs ?t j)" for j
    using that i by (cases "j = i") simp_all
  show ?thesis unfolding system_ok_def
  proof (intro conjI allI impI)
    show "disk_ok fromiso (rg_index ?t)" using system_ok_D(4) [OF ok] by simp
    show "publisher_ok (index_map fromiso ?t) (rg_procs ?t j)" for j
      using p system_ok_D(1) [OF ok, of j] by (cases "j = i") (simp_all add: index_map_def)
    show "rg_lock ?t" if "holds_lock (rg_procs ?t j)" for j
      using system_ok_D(3) [OF ok h [OF that]] by simp
    show "j = k" if "holds_lock (rg_procs ?t j)" "holds_lock (rg_procs ?t k)" for j k
      using system_ok_D(2) [OF ok h [OF that(1)] h [OF that(2)]] .
  qed
qed

lemma publish_conflict_ok:
  "entries_ok es \<Longrightarrow> publish_conflict es e = Some (Inr x) \<Longrightarrow> dict_get es (re_ref x) = Some x"
  by (auto simp: publish_conflict_def dest: entries_ok_get split: option.splits if_splits)

text \<open>A step keeps the invariant and only ever adds entries to the index.\<close>

lemma pub_step_ok:
  assumes "pub_step fromiso toiso s t" and iso: "iso_ok fromiso toiso" and ok: "system_ok fromiso s"
  shows "system_ok fromiso t \<and> index_map fromiso s \<subseteq>\<^sub>m index_map fromiso t"
  using assms(1)
proof cases
  case (request i r e)
  then show ?thesis using system_ok_procs [OF ok, of "Waiting e" i] by (auto simp: index_map_def)
next
  case (acquire i e)
  then have "publisher_ok (index_map fromiso s) (Locked e)"
    using system_ok_D(1) [OF ok, of i] by simp
  then show ?thesis using ok acquire unfolding system_ok_def index_map_def by auto
next
  case (deadline i e)
  then show ?thesis using system_ok_procs [OF ok, of "Finished (Inl RegistryLockError)" i]
    by (auto simp: index_map_def)
next
  case (load_failed i e x)
  then show ?thesis using system_ok_procs [OF ok, of "Unlocking (Inl x)" i] by (auto simp: index_map_def)
next
  case (load i e es)
  then show ?thesis
    using system_ok_procs [OF ok, of "Loaded e es" i] system_ok_D(1) [OF ok, of i] load_ok [of fromiso _ es]
    by (auto simp: index_map_def)
next
  case (answer i e es r)
  then have "publisher_ok (index_map fromiso s) (Unlocking r)"
    using system_ok_D(1) [OF ok, of i] publish_conflict_ok [of es e] by (cases r) auto
  then show ?thesis using answer system_ok_procs [OF ok, of "Unlocking r" i] by (auto simp: index_map_def)
next
  case (save i e es f)
  have i: "entry_ok e" "entries_ok es" "dict_get es = index_map fromiso s"
    using system_ok_D(1) [OF ok, of i] save by auto
  have new: "dict_get es (re_ref e) = None"
    using save by (simp add: publish_conflict_def split: option.splits if_splits)
  obtain es' where l: "registry_load fromiso f = Inr es'" "dict_get es' = dict_get (dict_set (re_ref e) e es)"
    using registry_roundtrip [OF iso entries_ok_set [OF i(2) new i(1)]] save by (metis Inr_inject)
  have m: "index_map fromiso t = (index_map fromiso s)(re_ref e \<mapsto> e)"
    using l save i(3) by (simp add: index_map_def fun_eq_iff)
  have le: "index_map fromiso s \<subseteq>\<^sub>m index_map fromiso t"
    unfolding m using new i(3) by (auto simp: map_le_def)
  have others: "publisher_ok (index_map fromiso t) (rg_procs t j)" for j
  proof (cases "j = i")
    case True
    then show ?thesis using save m by simp
  next
    case False
    then have "\<not> holds_lock (rg_procs s j)" using system_ok_D(2) [OF ok, of i j] save by auto
    then have "publisher_ok (index_map fromiso t) (rg_procs s j)"
      using publisher_ok_mono [OF system_ok_D(1) [OF ok] le] by (metis holds_lock.simps(2))
    then show ?thesis using False save by simp
  qed
  have "disk_ok fromiso (rg_index t)" using l save by (auto simp: disk_ok_def)
  moreover have "rg_lock s" using system_ok_D(3) [OF ok, of i] save by simp
  ultimately show ?thesis using others le ok save unfolding system_ok_def by auto
next
  case (save_failed i e es x)
  then show ?thesis using system_ok_procs [OF ok, of "Unlocking (Inl x)" i] by (auto simp: index_map_def)
next
  case (unlock i r)
  have "publisher_ok (index_map fromiso s) (Finished r)"
    using system_ok_D(1) [OF ok, of i] unlock by (cases r) auto
  moreover have "j = i" if "holds_lock (rg_procs s j)" for j
    using system_ok_D(2) [OF ok, of i j] that unlock by simp
  ultimately show ?thesis using ok unlock unfolding system_ok_def index_map_def by auto
next
  case (crash i e es r)
  then show ?thesis using system_ok_procs [OF ok, of Crashed i] by (auto simp: index_map_def)
qed

lemma pub_steps_ok:
  assumes "(pub_step fromiso toiso)\<^sup>*\<^sup>* s t" and "iso_ok fromiso toiso" and "system_ok fromiso s"
  shows "system_ok fromiso t \<and> index_map fromiso s \<subseteq>\<^sub>m index_map fromiso t"
  using assms(1)
proof (induction rule: rtranclp_induct)
  case (step t u)
  then show ?case using pub_step_ok [OF _ assms(2)] map_le_trans by blast
qed (simp add: assms(3))

definition system_start :: "index_file \<Rightarrow> registry_system" where
  "system_start f = \<lparr>rg_index = f, rg_lock = False, rg_procs = \<lambda>_. Idle\<rparr>"

lemma system_start_ok: "disk_ok fromiso f \<Longrightarrow> system_ok fromiso (system_start f)"
  by (simp add: system_ok_def system_start_def)

lemma system_ok_get:
  "system_ok fromiso s \<Longrightarrow> registry_get fromiso (rg_index s) r = Inr (index_map fromiso s r)"
  by (auto simp: system_ok_def disk_ok_def registry_get_def index_map_def)

section \<open>Properties\<close>

text \<open>publishing one pack. A publication fails without touching the index, or returns the entry
  that reads of the reference find afterwards, whose digest is the canonical digest of the pack. No
  reference that was published before changes; it fails with \<open>ImmutableVersionError\<close> exactly when
  the reference was published under another digest; publishing the content a reference already has
  succeeds again, with the entry first recorded and without touching the index, and a reference that has
  none is always published.\<close>

theorem publish_immutable:
  assumes "iso_ok fromiso toiso" and "\<And>bs. is_sha256_hex (sha256 bs)"
    and "disk_ok fromiso f"
    and "publish_prepare sha256 fr loads render pack now sg = Inr e"
    and "publish sha256 fr loads render fromiso toiso pack now sg f = (r, f')"
  shows "(\<forall>q x. registry_get fromiso f q = Inr (Some x) \<longrightarrow> registry_get fromiso f' q = Inr (Some x))
    \<and> (\<forall>x. r = Inr x \<longrightarrow> registry_get fromiso f' (re_ref e) = Inr (Some x)
          \<and> canonical_digest sha256 fr pack = Inr (re_digest x))
    \<and> (\<forall>err. r = Inl err \<longrightarrow> f' = f)
    \<and> (r = Inl ImmutableVersionError \<longleftrightarrow>
          (\<exists>x. registry_get fromiso f (re_ref e) = Inr (Some x) \<and> canonical_digest sha256 fr pack \<noteq> Inr (re_digest x)))
    \<and> (\<forall>x. registry_get fromiso f (re_ref e) = Inr (Some x) \<and> canonical_digest sha256 fr pack = Inr (re_digest x)
          \<longrightarrow> r = Inr x \<and> f' = f)
    \<and> (registry_get fromiso f (re_ref e) = Inr None \<longrightarrow> r = Inr e)"
proof -
  have e: "entry_ok e" "canonical_digest sha256 fr pack = Inr (re_digest e)"
    using publish_prepare_ok [OF assms(2,4)] by auto
  obtain es where l: "registry_load fromiso f = Inr es" using assms(3) by (auto simp: disk_ok_def)
  have p: "publish_locked fromiso toiso e f = (r, f')" using assms(4,5) by (simp add: publish_def)
  from assms(1) l e(1) p show ?thesis
  proof (cases rule: publish_lockedE)
    case kept
    then show ?thesis using e(2) l
      by (auto simp: registry_get_def publish_conflict_def split: option.splits if_splits)
  next
    case (written es')
    then show ?thesis using e(2) l by (auto simp: registry_get_def)
  qed
qed

text \<open>C24: concurrent publishers. From a readable index and a free lock, whatever the interleaving of
  requests, lock attempts, loads, writes, unlocks, time-outs and crashes of any number of processes:
  the index stays readable, no published reference is ever lost or changed, every publisher that
  returned an entry finds it in the index, and two publishers that succeeded on one reference
  returned the same entry.\<close>

theorem concurrent_publish_safe:
  assumes "iso_ok fromiso toiso" and "disk_ok fromiso f"
    and "(pub_step fromiso toiso)\<^sup>*\<^sup>* (system_start f) s" and "(pub_step fromiso toiso)\<^sup>*\<^sup>* s t"
  shows "(\<forall>q x. registry_get fromiso (rg_index s) q = Inr (Some x) \<longrightarrow> registry_get fromiso (rg_index t) q = Inr (Some x))
    \<and> (\<forall>i x. rg_procs t i = Finished (Inr x) \<longrightarrow> registry_get fromiso (rg_index t) (re_ref x) = Inr (Some x))
    \<and> (\<forall>i j x y. rg_procs s i = Finished (Inr x) \<longrightarrow> rg_procs t j = Finished (Inr y) \<longrightarrow> re_ref x = re_ref y \<longrightarrow> x = y)
    \<and> disk_ok fromiso (rg_index t)"
proof -
  have s: "system_ok fromiso s" using pub_steps_ok [OF assms(3,1) system_start_ok [OF assms(2)]] by simp
  have t: "system_ok fromiso t" and le: "index_map fromiso s \<subseteq>\<^sub>m index_map fromiso t"
    using pub_steps_ok [OF assms(4,1) s] by auto
  have fin: "index_map fromiso u (re_ref x) = Some x" if "system_ok fromiso u" "rg_procs u i = Finished (Inr x)" for u i x
    using system_ok_D(1) [OF that(1), of i] that(2) by simp
  have keep: "index_map fromiso t q = Some x" if "index_map fromiso s q = Some x" for q x
    using le that by (metis domI map_le_def)
  show ?thesis unfolding system_ok_get [OF s] system_ok_get [OF t] sum.inject
  proof (intro conjI allI impI)
    show "index_map fromiso t q = Some x" if "index_map fromiso s q = Some x" for q x
      using keep [OF that] .
    show "index_map fromiso t (re_ref x) = Some x" if "rg_procs t i = Finished (Inr x)" for i x
      using fin [OF t that] .
    show "x = y" if "rg_procs s i = Finished (Inr x)" "rg_procs t j = Finished (Inr y)" "re_ref x = re_ref y" for i j x y
    proof -
      have "Some x = index_map fromiso t (re_ref y)"
        using keep [OF fin [OF s that(1)]] unfolding that(3) by (rule sym)
      also have "\<dots> = Some y" by (rule fin [OF t that(2)])
      finally show ?thesis by (rule option.inject [THEN iffD1])
    qed
    show "disk_ok fromiso (rg_index t)" using system_ok_D(4) [OF t] .
  qed
qed

text \<open>A concrete world for the witnesses: time stamps as signed decimal numerals, a constant
  well-formed digest, one entry.\<close>

definition sample_fromiso :: "string \<Rightarrow> int option" where
  "sample_fromiso s =
     (if s \<noteq> [] \<and> hd s = CHR ''-'' then Some (- int (read_nat (tl s))) else Some (int (read_nat s)))"

lemma sample_iso_ok: "iso_ok sample_fromiso show_int"
proof -
  have "hd (show_nat n) \<noteq> CHR ''-''" for n
  proof -
    obtain c cs where c: "show_nat n = c # cs" by (cases "show_nat n") simp_all
    then show ?thesis using show_nat_no_minus [of n cs] by simp
  qed
  then show ?thesis by (simp add: iso_ok_def show_int_def sample_fromiso_def read_show_nat)
qed

definition sample_sha256 :: "nat list \<Rightarrow> string" where
  "sample_sha256 bs = replicate 64 (hex_digit (length bs mod 16))"

lemma sample_sha256_hex: "is_sha256_hex (sample_sha256 bs)"
proof -
  have "length bs mod 16 < 16" by simp
  then have "hex_digit (length bs mod 16) \<in> set hex_digits" by (rule hex_digit_mem)
  then show ?thesis unfolding sample_sha256_def is_sha256_hex_def list_all_iff set_replicate_conv_if
    by simp
qed

definition sample_entry :: "string \<Rightarrow> registry_entry" where
  "sample_entry version =
     \<lparr>re_ref = \<lparr>pr_id = ''p'', pr_version = version\<rparr>, re_type = PT_rule,
      re_digest = sample_sha256 [], re_createdAt = 0, re_signature = None, re_key_id = None\<rparr>"

lemma sample_entry_ok: "entry_ok (sample_entry ''1.0.0'')"
proof -
  have "ref_valid \<lparr>pr_id = ''p'', pr_version = ''1.0.0''\<rparr>" by code_simp
  then show ?thesis by (simp add: entry_ok_def sample_entry_def sample_sha256_hex)
qed

definition sample_publish_pack :: raw_dict where
  "sample_publish_pack =
     [(VStr ''manifest'', VDict [(VStr ''id'', VStr ''p''), (VStr ''version'', VStr ''1.0.0''),
        (VStr ''type'', VStr ''rule'')])]"

theorem publish_immutable_witness:
  "\<exists>x f'. publish sample_sha256 sample_repr (\<lambda>_. Inl ValueError) (\<lambda>_. []) sample_fromiso show_int
      sample_publish_pack 7 NoSignature IndexAbsent = (Inr x, f')
    \<and> registry_get sample_fromiso f' \<lparr>pr_id = ''p'', pr_version = ''1.0.0''\<rparr> = Inr (Some x)"
proof -
  let ?p = "publish_prepare sample_sha256 sample_repr (\<lambda>_. Inl ValueError) (\<lambda>_. []) sample_publish_pack 7 NoSignature"
  obtain d where d: "canonical_digest sample_sha256 sample_repr sample_publish_pack = Inr d"
    using canonical_bytes_ok_iff [of sample_repr sample_publish_pack]
    by (auto simp: canonical_digest_def sample_publish_pack_def strip_volatile_def strip_entry_def is_volatile_def
        EXCLUDED_MANIFEST_FIELDS_def)
  have v: "ref_valid \<lparr>pr_id = ''p'', pr_version = ''1.0.0''\<rparr>" by code_simp
  obtain e where e: "?p = Inr e" "re_ref e = \<lparr>pr_id = ''p'', pr_version = ''1.0.0''\<rparr>"
    using d v by (simp add: publish_prepare_def sample_publish_pack_def pack_type_field_def pack_type_of_def
        to_str_def normalize_publish_signature_def)
  obtain r f' where p: "publish sample_sha256 sample_repr (\<lambda>_. Inl ValueError) (\<lambda>_. []) sample_fromiso show_int
      sample_publish_pack 7 NoSignature IndexAbsent = (r, f')" by (metis surj_pair)
  have load: "registry_load sample_fromiso IndexAbsent = Inr []" by (simp add: registry_load_def)
  have ok: "disk_ok sample_fromiso IndexAbsent" using load by (simp add: disk_ok_def)
  note imm = publish_immutable [OF sample_iso_ok sample_sha256_hex ok e(1) p]
  have "publish_locked sample_fromiso show_int e IndexAbsent = (r, f')" using p e(1) by (simp add: publish_def)
  from sample_iso_ok load publish_prepare_ok [OF sample_sha256_hex e(1), THEN conjunct1] this
  have "r = Inr e" by (cases rule: publish_lockedE) (simp_all add: publish_conflict_def)
  with imm p e(2) show ?thesis by metis
qed

theorem concurrent_publish_safe_witness:
  "\<exists>t. (pub_step sample_fromiso show_int)\<^sup>*\<^sup>* (system_start IndexAbsent) t
     \<and> rg_procs t 0 = Finished (Inr (sample_entry ''1.0.0''))
     \<and> registry_get sample_fromiso (rg_index t) (re_ref (sample_entry ''1.0.0'')) = Inr (Some (sample_entry ''1.0.0''))"
proof -
  let ?e = "sample_entry ''1.0.0''" and ?s = "system_start IndexAbsent"
  let ?R = "pub_step sample_fromiso show_int"
  have ok: "disk_ok sample_fromiso IndexAbsent" by (simp add: disk_ok_def registry_load_def)
  obtain f es where f: "registry_save show_int (dict_set (re_ref ?e) ?e []) = Inr f"
    using registry_roundtrip [OF sample_iso_ok entries_ok_set [OF entries_ok_Nil _ sample_entry_ok]] by auto
  define s1 where "s1 = ?s\<lparr>rg_procs := (rg_procs ?s)(0 := Waiting ?e)\<rparr>"
  define s2 where "s2 = s1\<lparr>rg_lock := True, rg_procs := (rg_procs s1)(0 := Locked ?e)\<rparr>"
  define s3 where "s3 = s2\<lparr>rg_procs := (rg_procs s2)(0 := Loaded ?e [])\<rparr>"
  define s4 where "s4 = s3\<lparr>rg_index := f, rg_procs := (rg_procs s3)(0 := Unlocking (Inr ?e))\<rparr>"
  define s5 where "s5 = s4\<lparr>rg_lock := False, rg_procs := (rg_procs s4)(0 := Finished (Inr ?e))\<rparr>"
  have "?R ?s s1" unfolding s1_def by (rule pub_step.request [OF _ sample_entry_ok]) (simp add: system_start_def)
  moreover have "?R s1 s2" unfolding s2_def by (rule pub_step.acquire) (simp_all add: s1_def system_start_def)
  moreover have "?R s2 s3" unfolding s3_def
    by (rule pub_step.load) (simp_all add: s2_def s1_def system_start_def registry_load_def)
  moreover have "?R s3 s4" unfolding s4_def
    by (rule pub_step.save [OF _ _ f]) (simp_all add: s3_def publish_conflict_def)
  moreover have "?R s4 s5" unfolding s5_def by (rule pub_step.unlock) (simp add: s4_def)
  ultimately have run: "?R\<^sup>*\<^sup>* ?s s5" by (meson converse_rtranclp_into_rtranclp rtranclp.rtrancl_refl)
  have "rg_procs s5 0 = Finished (Inr ?e)" by (simp add: s5_def)
  with concurrent_publish_safe [OF sample_iso_ok ok rtranclp.rtrancl_refl run] run show ?thesis by blast
qed

end
