(* ===== verification/Base64.thy ===== *)
theory Base64
  imports Py_Values
begin

text \<open>
  \<open>base64.b64encode\<close> and \<open>base64.b64decode(s, validate=True)\<close>, which the signing code uses. The decoder
  is CPython's \<open>a2b_base64\<close> in strict mode, with its state: the position in the quadruple, the pads
  seen, whether padding has started, and the bits left over from the last character.
\<close>

definition b64_alphabet :: string where
  "b64_alphabet = ''ABCDEFGHIJKLMNOPQRSTUVWXYZabcdefghijklmnopqrstuvwxyz0123456789+/''"

definition b64_char :: "nat \<Rightarrow> char" where
  "b64_char n = b64_alphabet ! n"

definition b64_value :: "char \<Rightarrow> nat option" where
  "b64_value c =
     (if c \<in> set b64_alphabet then Some (length (takeWhile (\<lambda>x. x \<noteq> c) b64_alphabet)) else None)"

fun b64_encode :: "nat list \<Rightarrow> string" where
  "b64_encode [] = []"
| "b64_encode [a] = [b64_char (a div 4), b64_char (a mod 4 * 16), CHR ''='', CHR ''='']"
| "b64_encode [a, b] =
     [b64_char (a div 4), b64_char (a mod 4 * 16 + b div 16), b64_char (b mod 16 * 4), CHR ''='']"
| "b64_encode (a # b # c # bs) =
     [b64_char (a div 4), b64_char (a mod 4 * 16 + b div 16), b64_char (b mod 16 * 4 + c div 64),
      b64_char (c mod 64)] @ b64_encode bs"

text \<open>\<open>a2b_base64\<close> in strict mode after its check of a leading pad; \<open>None\<close> is \<open>binascii.Error\<close>.\<close>

fun a2b_strict :: "nat \<Rightarrow> nat \<Rightarrow> bool \<Rightarrow> nat \<Rightarrow> string \<Rightarrow> nat list option" where
  "a2b_strict quad pads started left [] = (if quad \<noteq> 0 then None else Some [])"
| "a2b_strict quad pads started left (c # cs) =
     (if c = CHR ''='' then
        (if quad \<ge> 2 \<and> quad + (pads + 1) \<ge> 4 then (if cs \<noteq> [] then None else Some [])
         else a2b_strict quad (if quad \<ge> 2 then pads + 1 else pads) True left cs)
      else (case b64_value c of
              None \<Rightarrow> None
            | Some v \<Rightarrow>
                if started then None
                else if quad = 0 then a2b_strict 1 0 started v cs
                else if quad = 1 then
                  map_option ((#) (left * 4 + v div 16)) (a2b_strict 2 0 started (v mod 16) cs)
                else if quad = 2 then
                  map_option ((#) (left * 16 + v div 4)) (a2b_strict 3 0 started (v mod 4) cs)
                else map_option ((#) (left * 64 + v)) (a2b_strict 0 0 started 0 cs)))"

text \<open>\<open>b64decode(s, validate=True)\<close> of a string: \<open>None\<close> for \<open>ValueError\<close> (a character that is not ASCII)
  and for \<open>binascii.Error\<close>.\<close>

definition b64_decode :: "string \<Rightarrow> nat list option" where
  "b64_decode s =
     (if \<not> list_all (\<lambda>c. (of_char c :: nat) < 128) s then None
      else if s \<noteq> [] \<and> hd s = CHR ''='' then None
      else a2b_strict 0 0 False 0 s)"

lemma b64_chars:
  "\<forall>n \<in> set [0..<64]. b64_value (b64_char n) = Some n \<and> b64_char n \<noteq> CHR ''='' \<and> (of_char (b64_char n) :: nat) < 128"
  by code_simp

lemma b64_char_simps [simp]:
  "n < 64 \<Longrightarrow> b64_value (b64_char n) = Some n"
  "n < 64 \<Longrightarrow> b64_char n \<noteq> CHR ''=''"
  "n < 64 \<Longrightarrow> (of_char (b64_char n) :: nat) < 128"
  using b64_chars by auto

lemma a2b_encode: "\<forall>b \<in> set bs. b < 256 \<Longrightarrow> a2b_strict 0 0 False 0 (b64_encode bs) = Some bs"
proof (induction bs rule: b64_encode.induct)
  case (2 a)
  then have "a div 4 < 64" "a mod 4 * 16 < 64" "a div 4 * 4 + a mod 4 * 16 div 16 = a" by auto
  then show ?case by simp
next
  case (3 a b)
  then have n: "a div 4 < 64" "a mod 4 * 16 + b div 16 < 64" "b mod 16 * 4 < 64" by auto
  have "a div 4 * 4 + (a mod 4 * 16 + b div 16) div 16 = a" using 3 by auto
  moreover have "(a mod 4 * 16 + b div 16) mod 16 * 16 + b mod 16 * 4 div 4 = b" using 3 by auto
  ultimately show ?case using n by simp
next
  case (4 a b c bs)
  then have b: "a < 256" "b < 256" "c < 256" by auto
  then have n: "a div 4 < 64" "a mod 4 * 16 + b div 16 < 64" "b mod 16 * 4 + c div 64 < 64" "c mod 64 < 64"
    by auto
  have "a div 4 * 4 + (a mod 4 * 16 + b div 16) div 16 = a" using b by auto
  moreover have "(a mod 4 * 16 + b div 16) mod 16 * 16 + (b mod 16 * 4 + c div 64) div 4 = b" using b by auto
  moreover have "(b mod 16 * 4 + c div 64) mod 4 * 64 + c mod 64 = c" using b by auto
  ultimately show ?case using n 4 by simp
qed simp

lemma b64_encode_ascii: "\<forall>b \<in> set bs. b < 256 \<Longrightarrow> list_all (\<lambda>c. (of_char c :: nat) < 128) (b64_encode bs)"
proof (induction bs rule: b64_encode.induct)
  case (3 a b)
  then have "a div 4 < 64" "a mod 4 * 16 + b div 16 < 64" "b mod 16 * 4 < 64" by auto
  then show ?case by simp
next
  case (4 a b c bs)
  then have "a < 256" "b < 256" "c < 256" by auto
  then have "a div 4 < 64" "a mod 4 * 16 + b div 16 < 64" "b mod 16 * 4 + c div 64 < 64" "c mod 64 < 64" by auto
  with 4 show ?case by simp
qed auto

lemma b64_encode_hd: "\<forall>b \<in> set bs. b < 256 \<Longrightarrow> b64_encode bs \<noteq> [] \<Longrightarrow> hd (b64_encode bs) \<noteq> CHR ''=''"
  by (cases bs rule: b64_encode.cases) (auto simp: less_mult_imp_div_less)

lemma b64_roundtrip: "\<forall>b \<in> set bs. b < 256 \<Longrightarrow> b64_decode (b64_encode bs) = Some bs"
  using a2b_encode b64_encode_ascii b64_encode_hd by (auto simp: b64_decode_def)

end
