(* ===== verification/Signing.thy ===== *)
theory Signing
  imports Base64 Pack_Model
begin

text \<open>
  Detached pack signatures (\<open>shared/signing.py\<close>): signing and verifying canonical bytes, the
  structural check, and the trust bundle of pinned public keys. Ed25519 is a parameter: \<open>ed_load\<close>
  stands for \<open>Ed25519PublicKey.from_public_bytes\<close> (\<open>None\<close> where it raises), \<open>ed_check key data sig\<close> for
  \<open>verify\<close> (\<open>False\<close> where it raises), \<open>sha256\<close> for the hash.
\<close>

section \<open>Signing and verifying\<close>

definition ED25519_ALG :: string where
  "ED25519_ALG = ''ed25519''"

definition SUPPORTED_ALGORITHMS :: "string list" where
  "SUPPORTED_ALGORITHMS = [ED25519_ALG]"

text \<open>The \<open>Signer\<close> and \<open>Verifier\<close> protocols.\<close>

record signer =
  sg_algorithm :: string
  sg_key_id :: string
  sg_sign :: "nat list \<Rightarrow> nat list"

type_synonym verifier = "nat list \<Rightarrow> nat list \<Rightarrow> bool"

datatype sign_error = NotCanonical py_exc | EmptySignature

definition sign_pack ::
    "(nat list \<Rightarrow> string) \<Rightarrow> (pyfloat \<Rightarrow> string) \<Rightarrow> raw_dict \<Rightarrow> signer \<Rightarrow> sign_error + pack_signature" where
  "sign_pack sha256 fr pack s =
     (case canonical_bytes fr pack of
        Inl x \<Rightarrow> Inl (NotCanonical x)
      | Inr data \<Rightarrow>
          (let raw = sg_sign s data
           in if raw = [] then Inl EmptySignature
              else Inr \<lparr>ps_algorithm = sg_algorithm s, ps_signature = b64_encode raw,
                        ps_key_id = sg_key_id s, ps_canonical_digest = sha256 data\<rparr>))"

definition verify_signature_structure ::
    "(nat list \<Rightarrow> string) \<Rightarrow> (pyfloat \<Rightarrow> string) \<Rightarrow> raw_dict \<Rightarrow> pack_signature \<Rightarrow> bool" where
  "verify_signature_structure sha256 fr pack sig \<longleftrightarrow>
     (if ps_algorithm sig \<notin> set SUPPORTED_ALGORITHMS then False
      else if b64_decode (ps_signature sig) = None then False
      else (case canonical_bytes fr pack of
              Inl _ \<Rightarrow> False
            | Inr data \<Rightarrow>
                (let recomputed = sha256 data
                 in str_isascii (ps_canonical_digest sig) \<and> recomputed = ps_canonical_digest sig)))"

definition verify_pack ::
    "(nat list \<Rightarrow> string) \<Rightarrow> (pyfloat \<Rightarrow> string) \<Rightarrow> raw_dict \<Rightarrow> pack_signature \<Rightarrow> verifier \<Rightarrow> bool" where
  "verify_pack sha256 fr pack sig check \<longleftrightarrow>
     (if \<not> verify_signature_structure sha256 fr pack sig then False
      else (case b64_decode (ps_signature sig) of
              None \<Rightarrow> False
            | Some raw \<Rightarrow>
                (case canonical_bytes fr pack of Inl _ \<Rightarrow> False | Inr data \<Rightarrow> check data raw)))"

section \<open>The trust bundle\<close>

text \<open>The loop of \<open>TrustBundleVerifier.from_bundle\<close>: entries of another algorithm or with unusable key
  material are skipped, a second entry for a pinned key id raises \<open>PackSignatureError\<close>.\<close>

datatype bundle_error = PackSignatureError

fun pin_keys :: "(nat list \<Rightarrow> 'k option) \<Rightarrow> (string, 'k) dict \<Rightarrow> trusted_public_key list \<Rightarrow>
    bundle_error + (string, 'k) dict" where
  "pin_keys ed_load by_key_id [] = Inr by_key_id"
| "pin_keys ed_load by_key_id (entry # entries) =
     (if tk_algorithm entry \<noteq> ED25519_ALG then pin_keys ed_load by_key_id entries
      else if dict_get by_key_id (tk_key_id entry) \<noteq> None then Inl PackSignatureError
      else (case b64_decode (tk_public_key entry) of
              None \<Rightarrow> pin_keys ed_load by_key_id entries
            | Some raw \<Rightarrow>
                if length raw \<noteq> 32 then pin_keys ed_load by_key_id entries
                else (case ed_load raw of
                        None \<Rightarrow> pin_keys ed_load by_key_id entries
                      | Some key \<Rightarrow> pin_keys ed_load (dict_set (tk_key_id entry) key by_key_id) entries)))"

definition from_bundle ::
    "(nat list \<Rightarrow> 'k option) \<Rightarrow> trust_bundle \<Rightarrow> bundle_error + (string, 'k) dict" where
  "from_bundle ed_load bundle = pin_keys ed_load [] (tb_keys bundle)"

text \<open>\<open>TrustBundleVerifier.verify_pack\<close>.\<close>

definition bundle_verify_pack ::
    "(nat list \<Rightarrow> string) \<Rightarrow> (pyfloat \<Rightarrow> string) \<Rightarrow> ('k \<Rightarrow> verifier) \<Rightarrow> (string, 'k) dict \<Rightarrow>
     raw_dict \<Rightarrow> pack_signature \<Rightarrow> bool" where
  "bundle_verify_pack sha256 fr ed_check by_key_id pack sig \<longleftrightarrow>
     (case dict_get by_key_id (ps_key_id sig) of
        None \<Rightarrow> False
      | Some key \<Rightarrow> verify_pack sha256 fr pack sig (ed_check key))"

section \<open>Lemmas\<close>

lemma verify_pack_iff:
  "verify_pack sha256 fr pack sig check \<longleftrightarrow>
     ps_algorithm sig = ED25519_ALG
     \<and> (\<exists>raw data. b64_decode (ps_signature sig) = Some raw \<and> canonical_bytes fr pack = Inr data
          \<and> str_isascii (ps_canonical_digest sig) \<and> sha256 data = ps_canonical_digest sig \<and> check data raw)"
  by (auto simp: verify_pack_def verify_signature_structure_def SUPPORTED_ALGORITHMS_def Let_def
      split: option.splits sum.splits)

lemma bundle_verify_pack_iff:
  "bundle_verify_pack sha256 fr ed_check ks pack sig \<longleftrightarrow>
     (\<exists>key. dict_get ks (ps_key_id sig) = Some key \<and> verify_pack sha256 fr pack sig (ed_check key))"
  by (simp add: bundle_verify_pack_def split: option.split)

text \<open>The key an entry of the bundle pins, when its material is usable.\<close>

definition usable_key :: "(nat list \<Rightarrow> 'k option) \<Rightarrow> trusted_public_key \<Rightarrow> 'k option" where
  "usable_key ed_load entry =
     (if tk_algorithm entry \<noteq> ED25519_ALG then None
      else (case b64_decode (tk_public_key entry) of
              None \<Rightarrow> None | Some raw \<Rightarrow> if length raw \<noteq> 32 then None else ed_load raw))"

lemma pin_keys_Cons:
  "pin_keys ed_load acc (entry # entries) =
     (if tk_algorithm entry = ED25519_ALG \<and> dict_get acc (tk_key_id entry) \<noteq> None then Inl PackSignatureError
      else (case usable_key ed_load entry of
              None \<Rightarrow> pin_keys ed_load acc entries
            | Some key \<Rightarrow> pin_keys ed_load (dict_set (tk_key_id entry) key acc) entries))"
  by (simp add: usable_key_def split: option.split)

lemma pin_keys_get:
  "pin_keys ed_load acc entries = Inr ks \<Longrightarrow>
   dict_get ks k = Some key \<longleftrightarrow>
     dict_get acc k = Some key \<or> (\<exists>e \<in> set entries. tk_key_id e = k \<and> usable_key ed_load e = Some key)"
proof (induction entries arbitrary: acc)
  case (Cons entry entries)
  show ?case
  proof (cases "usable_key ed_load entry")
    case None
    then have "pin_keys ed_load acc entries = Inr ks"
      using Cons.prems by (simp add: pin_keys_Cons del: pin_keys.simps split: if_splits)
    with Cons.IH [OF this] None show ?thesis by simp
  next
    case (Some x)
    then have "tk_algorithm entry = ED25519_ALG" by (simp add: usable_key_def split: if_splits)
    then have new: "dict_get acc (tk_key_id entry) = None"
      and rest: "pin_keys ed_load (dict_set (tk_key_id entry) x acc) entries = Inr ks"
      using Cons.prems Some by (simp_all add: pin_keys_Cons del: pin_keys.simps split: if_splits)
    show ?thesis unfolding Cons.IH [OF rest] using Some new by auto
  qed
qed simp

lemma from_bundle_get:
  "from_bundle ed_load bundle = Inr ks \<Longrightarrow>
   dict_get ks k = Some key \<longleftrightarrow> (\<exists>e \<in> set (tb_keys bundle). tk_key_id e = k \<and> usable_key ed_load e = Some key)"
  unfolding from_bundle_def by (simp add: pin_keys_get)

lemma verify_pack_sign_pack:
  assumes "sign_pack sha256 fr p s = Inr sig" "sg_algorithm s = ED25519_ALG"
    and "\<And>data. str_isascii (sha256 data)" "\<And>data. \<forall>b \<in> set (sg_sign s data). b < 256"
    and "\<And>data. check data (sg_sign s data)" "canonical_bytes fr q = canonical_bytes fr p"
  shows "verify_pack sha256 fr q sig check"
  using assms
  by (auto simp: sign_pack_def verify_pack_iff Let_def b64_roundtrip split: sum.splits if_splits)

section \<open>Properties\<close>

text \<open>C25: a detached signature is bound to content. Whatever the verifying keys, if one signature
  envelope verifies for two packs, then outside the volatile integrity fields the packs have the same
  content, or their canonical bytes are an explicit collision of the hash function. So a verified
  signature cannot be moved to a tampered pack.\<close>

theorem signature_binds_content:
  assumes "float_repr_ok fr" and "keys_wf (VDict p)" and "keys_wf (VDict q)"
    and "verify_pack sha256 fr p sig check" and "verify_pack sha256 fr q sig check'"
  shows "vcontent (VDict (strip_volatile p)) = vcontent (VDict (strip_volatile q))
    \<or> (\<exists>bs bs'. canonical_bytes fr p = Inr bs \<and> canonical_bytes fr q = Inr bs' \<and> bs \<noteq> bs' \<and> sha256 bs = sha256 bs')"
proof -
  obtain bs bs' where b: "canonical_bytes fr p = Inr bs" "canonical_bytes fr q = Inr bs'"
    "sha256 bs = sha256 bs'"
    using assms(4,5) by (auto simp: verify_pack_iff)
  then show ?thesis using canonical_bytes_eq_iff [OF assms(1-3) b(1,2)] by blast
qed

text \<open>signing and verifying fit. What \<open>sign_pack\<close> produces for a pack verifies, with the matching
  public key, for every pack of the same content: the pack itself, the pack with the signature
  attached to its manifest, and the pack with its keys in another order.\<close>

theorem signed_pack_verifies:
  assumes "float_repr_ok fr" and "keys_wf (VDict p)" and "keys_wf (VDict q)"
    and "vcontent (VDict (strip_volatile p)) = vcontent (VDict (strip_volatile q))"
    and "native (VDict (strip_volatile q))"
    and "\<And>data. str_isascii (sha256 data)"
    and "sg_algorithm s = ED25519_ALG" and "\<And>data. \<forall>b \<in> set (sg_sign s data). b < 256"
    and "\<And>data. check data (sg_sign s data)"
    and "sign_pack sha256 fr p s = Inr sig"
  shows "verify_pack sha256 fr q sig check"
proof -
  obtain bs where p: "canonical_bytes fr p = Inr bs"
    using assms(10) by (auto simp: sign_pack_def split: sum.splits)
  obtain bs' where q: "canonical_bytes fr q = Inr bs'" using canonical_bytes_ok_iff assms(5) by blast
  have "bs = bs'" using canonical_bytes_eq_iff [OF assms(1-3) p q] assms(4) by blast
  then have same: "canonical_bytes fr q = canonical_bytes fr p" using p q by simp
  show ?thesis by (rule verify_pack_sign_pack [OF assms(10,7) _ _ _ same]) (use assms(6,8,9) in auto)
qed

text \<open>the trust bundle is closed. A verifier built from a bundle accepts a signature of a pack
  exactly when the signature names a key id under which the bundle holds a usable Ed25519 key (32
  bytes of well-formed base64 that load), the envelope is of that algorithm and carries the digest of
  the pack's canonical bytes, and that key verifies it. An empty bundle accepts nothing.\<close>

theorem trust_bundle_closed:
  assumes "from_bundle ed_load bundle = Inr ks"
  shows "bundle_verify_pack sha256 fr ed_check ks pack sig \<longleftrightarrow>
    (\<exists>e \<in> set (tb_keys bundle). \<exists>key. tk_key_id e = ps_key_id sig \<and> usable_key ed_load e = Some key
       \<and> ps_algorithm sig = ED25519_ALG
       \<and> (\<exists>raw data. b64_decode (ps_signature sig) = Some raw \<and> canonical_bytes fr pack = Inr data
            \<and> str_isascii (ps_canonical_digest sig) \<and> sha256 data = ps_canonical_digest sig
            \<and> ed_check key data raw))"
  unfolding bundle_verify_pack_iff from_bundle_get [OF assms] verify_pack_iff by blast

definition sample_signer :: signer where
  "sample_signer = \<lparr>sg_algorithm = ED25519_ALG, sg_key_id = ''k'', sg_sign = \<lambda>data. [length data mod 256]\<rparr>"

definition sample_check :: "nat list \<Rightarrow> verifier" where
  "sample_check key data raw \<longleftrightarrow> raw = [length data mod 256]"

definition sample_digest :: "nat list \<Rightarrow> string" where
  "sample_digest data = show_nat (length data)"

definition sample_bundle :: trust_bundle where
  "sample_bundle = \<lparr>tb_schema_version = 1, tb_keys =
     [\<lparr>tk_key_id = ''k'', tk_algorithm = ''rsa'', tk_public_key = []\<rparr>,
      \<lparr>tk_key_id = ''k'', tk_algorithm = ''ed25519'', tk_public_key = b64_encode (replicate 32 7)\<rparr>]\<rparr>"

lemma show_nat_ascii: "str_isascii (show_nat n)"
  using show_nat_digits [of n] by (auto simp: str_isascii_def list_all_iff is_digit_char_def)

lemma sample_sign_ok: "\<exists>sig. sign_pack sample_digest sample_repr (sample_pack x) sample_signer = Inr sig \<and> ps_key_id sig = ''k''"
proof -
  have "native (VDict (strip_volatile (sample_pack x)))"
    by (simp add: sample_pack_def strip_volatile_def strip_entry_def is_volatile_def EXCLUDED_MANIFEST_FIELDS_def)
  then obtain bs where "canonical_bytes sample_repr (sample_pack x) = Inr bs" using canonical_bytes_ok_iff by blast
  then show ?thesis by (simp add: sign_pack_def sample_signer_def)
qed

lemma sample_pack_wf: "keys_wf (VDict (sample_pack x))"
    "vcontent (VDict (strip_volatile (sample_pack x))) = vcontent (VDict (strip_volatile (sample_pack y)))"
    "native (VDict (strip_volatile (sample_pack x)))"
  by (simp_all add: sample_pack_def strip_volatile_def strip_entry_def is_volatile_def EXCLUDED_MANIFEST_FIELDS_def)

theorem signed_pack_verifies_witness:
  "\<exists>sig. sign_pack sample_digest sample_repr (sample_pack ''x'') sample_signer = Inr sig
     \<and> verify_pack sample_digest sample_repr (sample_pack ''other'') sig (sample_check [])"
proof -
  obtain sig where sig: "sign_pack sample_digest sample_repr (sample_pack ''x'') sample_signer = Inr sig"
    using sample_sign_ok by blast
  have "verify_pack sample_digest sample_repr (sample_pack ''other'') sig (sample_check [])"
    by (rule signed_pack_verifies [OF sample_repr_ok sample_pack_wf(1) sample_pack_wf(1) sample_pack_wf(2)
          sample_pack_wf(3) _ _ _ _ sig])
      (simp_all add: sample_digest_def show_nat_ascii sample_signer_def sample_check_def)
  with sig show ?thesis by blast
qed

theorem signature_binds_content_witness:
  "\<exists>sig. verify_pack sample_digest sample_repr (sample_pack ''x'') sig (sample_check [])
     \<and> vcontent (VDict (strip_volatile (sample_pack ''x''))) = vcontent (VDict (strip_volatile (sample_pack ''y'')))"
proof -
  obtain sig where sig: "sign_pack sample_digest sample_repr (sample_pack ''x'') sample_signer = Inr sig"
    using sample_sign_ok by blast
  have v: "verify_pack sample_digest sample_repr (sample_pack z) sig (sample_check [])"
    if "canonical_bytes sample_repr (sample_pack z) = canonical_bytes sample_repr (sample_pack ''x'')" for z
    by (rule verify_pack_sign_pack [OF sig _ _ _ _ that])
      (simp_all add: sample_digest_def show_nat_ascii sample_signer_def sample_check_def)
  have strip: "strip_volatile (sample_pack z) = strip_volatile (sample_pack ''x'')" for z
    by (simp add: sample_pack_def strip_volatile_def strip_entry_def is_volatile_def EXCLUDED_MANIFEST_FIELDS_def)
  have "canonical_bytes sample_repr (sample_pack z) = canonical_bytes sample_repr (sample_pack ''x'')" for z
    by (simp only: canonical_bytes_def strip [of z])
  then have "vcontent (VDict (strip_volatile (sample_pack ''x''))) = vcontent (VDict (strip_volatile (sample_pack ''y'')))"
    using signature_binds_content [OF sample_repr_ok sample_pack_wf(1) sample_pack_wf(1) v v, of "''x''" "''y''"] by force
  with v show ?thesis by blast
qed

theorem trust_bundle_closed_witness:
  "\<exists>ks sig. from_bundle Some sample_bundle = Inr ks
     \<and> bundle_verify_pack sample_digest sample_repr sample_check ks (sample_pack ''x'') sig"
proof -
  have dec: "b64_decode (b64_encode (replicate 32 7)) = Some (replicate 32 7)" by (rule b64_roundtrip) simp
  then obtain ks where ks: "from_bundle Some sample_bundle = Inr ks"
    by (simp add: from_bundle_def sample_bundle_def ED25519_ALG_def)
  obtain sig where sig: "sign_pack sample_digest sample_repr (sample_pack ''x'') sample_signer = Inr sig"
      "ps_key_id sig = ''k''"
    using sample_sign_ok by blast
  have "verify_pack sample_digest sample_repr (sample_pack ''x'') sig (sample_check (replicate 32 7))"
    by (rule verify_pack_sign_pack [OF sig(1)])
      (simp_all add: sample_digest_def show_nat_ascii sample_signer_def sample_check_def)
  then have "bundle_verify_pack sample_digest sample_repr sample_check ks (sample_pack ''x'') sig"
    unfolding trust_bundle_closed [OF ks] verify_pack_iff
    by (auto simp: sample_bundle_def sig(2) usable_key_def dec ED25519_ALG_def)
  with ks show ?thesis by blast
qed

end
