(* ===== verification/Content_Store.thy ===== *)
theory Content_Store
  imports Pack_Model
begin

text \<open>
  The digest-addressed content store (\<open>packs_engine/content_store.py\<close>): the check of an address, the
  filesystem backend over a directory of named files, the blob backend over a container of named
  blobs, and the contract both keep. A directory or container is a dictionary from names to bytes.
\<close>

section \<open>Operations\<close>

datatype store_error = PackContentStoreError

definition require_digest :: "string \<Rightarrow> store_error + string" where
  "require_digest digest = (if is_sha256_hex digest then Inr digest else Inl PackContentStoreError)"

definition pack_file_name :: "string \<Rightarrow> store_error + string" where
  "pack_file_name digest = rbind (require_digest digest) (\<lambda>d. Inr (d @ ''.pack''))"

type_synonym files = "(string, nat list) dict"

text \<open>\<open>os.replace(src, dst)\<close> in one directory.\<close>

definition os_replace :: "string \<Rightarrow> string \<Rightarrow> files \<Rightarrow> files" where
  "os_replace src dst d =
     (case dict_get d src of None \<Rightarrow> d | Some data \<Rightarrow> dict_set dst data (AList.delete src d))"

text \<open>The temporary name \<open><name>.<pid>.<uuid>.tmp\<close>; \<open>uniq\<close> is \<open><pid>.<uuid>\<close>. The write has a state
  after the temporary file is written and one after it replaced the target.\<close>

definition tmp_name :: "string \<Rightarrow> string \<Rightarrow> string" where
  "tmp_name name uniq = name @ ''.'' @ uniq @ ''.tmp''"

definition local_put_states :: "string \<Rightarrow> string \<Rightarrow> nat list \<Rightarrow> files \<Rightarrow> store_error + files list" where
  "local_put_states uniq digest data d =
     rbind (pack_file_name digest)
       (\<lambda>name. let d1 = dict_set (tmp_name name uniq) data d;
                   d2 = os_replace (tmp_name name uniq) name d1
               in Inr [d1, d2])"

definition local_put :: "string \<Rightarrow> string \<Rightarrow> nat list \<Rightarrow> files \<Rightarrow> store_error + files" where
  "local_put uniq digest data d = rbind (local_put_states uniq digest data d) (\<lambda>ds. Inr (last ds))"

definition local_get :: "string \<Rightarrow> files \<Rightarrow> store_error + nat list option" where
  "local_get digest d = rbind (pack_file_name digest) (\<lambda>name. Inr (dict_get d name))"

definition local_has :: "string \<Rightarrow> files \<Rightarrow> store_error + bool" where
  "local_has digest d = rbind (pack_file_name digest) (\<lambda>name. Inr (dict_get d name \<noteq> None))"

text \<open>The blob backend: \<open>upload_blob(\<dots>, overwrite=True)\<close>, \<open>download_blob\<close> and \<open>get_blob_properties\<close> of
  a container.\<close>

definition azure_put :: "string \<Rightarrow> nat list \<Rightarrow> files \<Rightarrow> store_error + files" where
  "azure_put digest data c = rbind (pack_file_name digest) (\<lambda>name. Inr (dict_set name data c))"

definition azure_get :: "string \<Rightarrow> files \<Rightarrow> store_error + nat list option" where
  "azure_get digest c = rbind (pack_file_name digest) (\<lambda>name. Inr (dict_get c name))"

definition azure_has :: "string \<Rightarrow> files \<Rightarrow> store_error + bool" where
  "azure_has digest c =
     rbind (pack_file_name digest) (\<lambda>name. Inr (case dict_get c name of None \<Rightarrow> False | Some _ \<Rightarrow> True))"

text \<open>\<open>build_pack_content_store\<close>: the backend the environment selects, or \<open>ValueError\<close>.\<close>

datatype backend = LocalBackend | AzureBackend

definition build_pack_content_store :: "string option \<Rightarrow> py_exc + backend" where
  "build_pack_content_store env =
     (let backend = py_lower (py_strip (case env of None \<Rightarrow> ''local'' | Some v \<Rightarrow> v))
      in if backend = ''local'' then Inr LocalBackend
         else if backend = ''azure'' then Inr AzureBackend
         else Inl ValueError)"

section \<open>The contract\<close>

locale pack_content_store =
  fixes put :: "string \<Rightarrow> nat list \<Rightarrow> 's \<Rightarrow> store_error + 's"
    and get :: "string \<Rightarrow> 's \<Rightarrow> store_error + nat list option"
    and has :: "string \<Rightarrow> 's \<Rightarrow> store_error + bool"
  assumes put_accepts: "(\<exists>t. put d b s = Inr t) \<longleftrightarrow> is_sha256_hex d"
    and get_accepts: "(\<exists>x. get d s = Inr x) \<longleftrightarrow> is_sha256_hex d"
    and get_put: "put d b s = Inr t \<Longrightarrow> get e t = (if e = d then Inr (Some b) else get e s)"
    and has_get: "has d s = rbind (get d s) (\<lambda>x. Inr (x \<noteq> None))"
begin

text \<open>A sequence of writes, each of which must be accepted.\<close>

fun put_all :: "(string \<times> nat list) list \<Rightarrow> 's \<Rightarrow> store_error + 's" where
  "put_all [] s = Inr s"
| "put_all ((d, b) # ps) s = rbind (put d b s) (put_all ps)"

lemma get_put_all:
  "put_all ps s = Inr t \<Longrightarrow> is_sha256_hex e \<Longrightarrow>
   get e t = (case map_of (rev ps) e of None \<Rightarrow> get e s | Some b \<Rightarrow> Inr (Some b))"
proof (induction ps arbitrary: s)
  case (Cons p ps)
  obtain d b where p: "p = (d, b)" by fastforce
  with Cons.prems obtain u where u: "put d b s = Inr u" "put_all ps u = Inr t"
    by (auto simp: rbind_Inr_iff)
  show ?case unfolding Cons.IH [OF u(2) Cons.prems(2)] get_put [OF u(1)] p
    by (auto simp: map_add_def split: option.split)
qed simp

text \<open>When every write is content-addressed, the bytes found under a digest hash to it.\<close>

lemma put_all_addressed:
  assumes "put_all ps s = Inr t" "\<forall>(d, b) \<in> set ps. sha256 b = d"
    and "\<And>e b. get e s = Inr (Some b) \<Longrightarrow> sha256 b = e" and "get e t = Inr (Some b)"
  shows "sha256 b = e"
proof -
  have "is_sha256_hex e" using get_accepts assms(4) by blast
  from get_put_all [OF assms(1) this] assms(4) show ?thesis
    using assms(2,3) by (auto split: option.splits dest!: map_of_SomeD)
qed

end

lemma pack_file_name_cases: "pack_file_name d = (if is_sha256_hex d then Inr (d @ ''.pack'') else Inl PackContentStoreError)"
  by (simp add: pack_file_name_def require_digest_def)

lemma tmp_name_not_pack: "tmp_name name uniq \<noteq> e @ ''.pack''"
proof
  assume "tmp_name name uniq = e @ ''.pack''"
  then have "last (tmp_name name uniq) = last (e @ ''.pack'')" by simp
  then show False by (simp add: tmp_name_def)
qed

lemma local_put_states_eq:
  "local_put_states uniq d b s = (if is_sha256_hex d
     then Inr [dict_set (tmp_name (d @ ''.pack'') uniq) b s,
               dict_set (d @ ''.pack'') b (AList.delete (tmp_name (d @ ''.pack'') uniq)
                  (dict_set (tmp_name (d @ ''.pack'') uniq) b s))]
     else Inl PackContentStoreError)"
  by (simp add: local_put_states_def pack_file_name_cases os_replace_def Let_def)

text \<open>Both backends keep the contract; the filesystem one for every unique suffix of its temporary
  files.\<close>

interpretation local_content: pack_content_store "local_put uniq" local_get local_has for uniq
proof
  fix d e :: string and b s t
  show "(\<exists>t. local_put uniq d b s = Inr t) \<longleftrightarrow> is_sha256_hex d"
    by (simp add: local_put_def local_put_states_eq)
  show "(\<exists>x. local_get d s = Inr x) \<longleftrightarrow> is_sha256_hex d"
    by (simp add: local_get_def pack_file_name_cases)
  show "local_get e t = (if e = d then Inr (Some b) else local_get e s)" if "local_put uniq d b s = Inr t"
  proof -
    have ne: "e @ ''.pack'' \<noteq> tmp_name (d @ ''.pack'') uniq" using tmp_name_not_pack by metis
    show ?thesis using that ne
      by (auto simp: local_put_def local_put_states_eq local_get_def pack_file_name_cases delete_conv' split: if_splits)
  qed
  show "local_has d s = rbind (local_get d s) (\<lambda>x. Inr (x \<noteq> None))"
    by (simp add: local_has_def local_get_def pack_file_name_cases)
qed

interpretation azure_content: pack_content_store azure_put azure_get azure_has
proof
  fix d e :: string and b s t
  show "(\<exists>t. azure_put d b s = Inr t) \<longleftrightarrow> is_sha256_hex d"
    by (simp add: azure_put_def pack_file_name_cases)
  show "(\<exists>x. azure_get d s = Inr x) \<longleftrightarrow> is_sha256_hex d"
    by (simp add: azure_get_def pack_file_name_cases)
  show "azure_put d b s = Inr t \<Longrightarrow> azure_get e t = (if e = d then Inr (Some b) else azure_get e s)"
    by (auto simp: azure_put_def azure_get_def pack_file_name_cases split: if_splits)
  show "azure_has d s = rbind (azure_get d s) (\<lambda>x. Inr (x \<noteq> None))"
    by (simp add: azure_has_def azure_get_def pack_file_name_cases split: option.split)
qed

section \<open>Properties\<close>

text \<open>a write of the filesystem store is atomic for readers. A write is accepted exactly for a
  well-formed digest; in every state the directory goes through, including the one in which only the
  temporary file is written, a reader finds under each digest the old bytes or, under the digest
  written, all of the new ones; and the last state has the new bytes.\<close>

theorem content_store_atomic:
  "(case local_put_states uniq d b s of
      Inl _ \<Rightarrow> \<not> is_sha256_hex d
    | Inr states \<Rightarrow> is_sha256_hex d
        \<and> list_all (\<lambda>t. list_all (\<lambda>e. local_get e t = local_get e s \<or> (e = d \<and> local_get e t = Inr (Some b))) es) states
        \<and> local_get d (last states) = Inr (Some b))"
proof -
  have ne: "e @ ''.pack'' \<noteq> tmp_name (d @ ''.pack'') uniq" for e using tmp_name_not_pack by metis
  show ?thesis
    by (auto simp: local_put_states_eq local_get_def pack_file_name_cases delete_conv' list_all_iff ne)
qed

end
