(* ===== verification/Packs_Engine.thy ===== *)
theory Packs_Engine
  imports Registry_Disk Signing Content_Store Audit_Trail
begin

text \<open>
  The packs engine (\<open>packs_engine/engine.py\<close>): discovery of the shipped packs under the content root,
  the integrity and signature gates, the audit of a rejected pack, the resolution of imported packs
  by registry digest with independent re-verification, and the admission gate for imports.

  The libraries the engine calls are the fields of \<open>engine_lib\<close>: the hash, the keyed MAC, the JSON
  and YAML decoders, the rendering of floats, the Unicode tables.
\<close>

section \<open>State\<close>

record engine_lib =
  el_sha256 :: "nat list \<Rightarrow> string"
  el_hmac :: "nat list \<Rightarrow> nat list \<Rightarrow> string"
  el_float_repr :: "pyfloat \<Rightarrow> string"
  el_json_loads :: "string \<Rightarrow> py_exc + pyval"
  el_yaml_load :: "string \<Rightarrow> py_exc + pyval"
  el_unicode :: unicode_db

text \<open>A file under the content root: the parts of its path below the root, and its text, \<open>None\<close> where
  reading it as UTF-8 raises.\<close>

record content_file =
  cf_parts :: "string list"
  cf_text :: "string option"

record packs_engine =
  en_files :: "content_file list"
  en_secret :: "nat list option"
  en_require_integrity :: bool
  en_verifier :: "verifier option"
  en_import_verifier :: "(raw_dict \<Rightarrow> pack_signature \<Rightarrow> bool) option"
  en_audit_emitter :: bool
  en_registry :: "(pack_type option \<Rightarrow> registry_error + registry_entry list) option"
  en_content_store :: "(string \<Rightarrow> store_error + nat list option) option"

record pack =
  pk_manifest :: pack_manifest
  pk_body :: pyval
  pk_source :: raw_dict
  pk_imported :: bool

datatype verification_failure =
    HashMismatch | MissingSignature | SignatureInvalid | NotCanonicalizable | MissingIntegrity
  | SignatureWithoutTrustRoot | MissingDetached | DetachedInvalid

datatype load_error =
    VerificationError pack_manifest verification_failure
  | ParseFailed py_exc | ManifestFailed py_exc | RegistryFailed registry_error | StoreFailed store_error

text \<open>\<open>with_import_registry\<close>: the clone with another registry.\<close>

definition with_import_registry ::
    "(pack_type option \<Rightarrow> registry_error + registry_entry list) option \<Rightarrow> packs_engine \<Rightarrow> packs_engine" where
  "with_import_registry registry eng = eng\<lparr>en_registry := registry\<rparr>"

section \<open>Discovery\<close>

definition RESERVED_NONRUNTIME_DIR :: string where
  "RESERVED_NONRUNTIME_DIR = ''templates''"

text \<open>\<open>Path.suffix\<close>: from the last dot of the name, when there is something on either side of it.\<close>

definition path_suffix :: "string list \<Rightarrow> string" where
  "path_suffix parts =
     (if parts = [] then []
      else (case py_partition (CHR ''.'') (rev (last parts)) of
              (ext, found, stem) \<Rightarrow> if found \<and> ext \<noteq> [] \<and> stem \<noteq> [] then CHR ''.'' # rev ext else []))"

definition is_reserved_nonruntime :: "content_file \<Rightarrow> bool" where
  "is_reserved_nonruntime f \<longleftrightarrow>
     (case cf_parts f of [] \<Rightarrow> False | p # _ \<Rightarrow> p = RESERVED_NONRUNTIME_DIR)"

definition iter_pack_files :: "packs_engine \<Rightarrow> content_file list" where
  "iter_pack_files eng =
     sort_key cf_parts
       (filter (\<lambda>f. path_suffix (cf_parts f) \<in> set [''.json'', ''.yaml'', ''.yml'']
                  \<and> \<not> is_reserved_nonruntime f) (en_files eng))"

definition parse_file :: "engine_lib \<Rightarrow> content_file \<Rightarrow> py_exc + pyval" where
  "parse_file lib f =
     (case cf_text f of
        None \<Rightarrow> Inl ValueError
      | Some t \<Rightarrow> if path_suffix (cf_parts f) = ''.json'' then el_json_loads lib t else el_yaml_load lib t)"

text \<open>\<open>"manifest" in raw\<close>, for whatever the file holds.\<close>

fun mentions_manifest :: "pyval \<Rightarrow> py_exc + bool" where
  "mentions_manifest (VDict d) = Inr (vget d ''manifest'' \<noteq> None)"
| "mentions_manifest (VStr s) = Inr (sublist ''manifest'' s)"
| "mentions_manifest (VStrEnum s) = Inr (sublist ''manifest'' s)"
| "mentions_manifest (VList vs) = Inr (list_ex (\<lambda>v. str_key v = Some ''manifest'') vs)"
| "mentions_manifest (VTuple vs) = Inr (list_ex (\<lambda>v. str_key v = Some ''manifest'') vs)"
| "mentions_manifest (VSet vs) = Inr (list_ex (\<lambda>v. str_key v = Some ''manifest'') vs)"
| "mentions_manifest _ = Inl TypeError"

text \<open>\<open>PackManifest(**raw["manifest"])\<close>; indexing anything but a mapping is a \<open>TypeError\<close>.\<close>

definition manifest_of_raw :: "pyval \<Rightarrow> py_exc + raw_dict \<times> pack_manifest" where
  "manifest_of_raw raw =
     (case raw of
        VDict d \<Rightarrow>
          (case vget d ''manifest'' of
             Some (VDict m) \<Rightarrow> rbind (pack_manifest_of m) (\<lambda>manifest. Inr (d, manifest))
           | _ \<Rightarrow> Inl TypeError)
      | _ \<Rightarrow> Inl TypeError)"

section \<open>The gates of a shipped pack\<close>

text \<open>\<open>verify\<close>. \<open>sign\<close> is the MAC of the encoded hash.\<close>

fun truthy :: "string option \<Rightarrow> string option" where
  "truthy None = None"
| "truthy (Some s) = (if s = [] then None else Some s)"

definition verify_manifest ::
    "engine_lib \<Rightarrow> pack_manifest \<Rightarrow> nat list \<Rightarrow> nat list option \<Rightarrow> verification_failure option" where
  "verify_manifest lib manifest content secret =
     (let actual = el_sha256 lib content in
      if (case truthy (pm_sha256 manifest) of None \<Rightarrow> False | Some h \<Rightarrow> \<not> (str_isascii h \<and> actual = h))
      then Some HashMismatch
      else (case secret of
              None \<Rightarrow> None
            | Some key \<Rightarrow>
                (case truthy (pm_signature manifest) of
                   None \<Rightarrow> Some MissingSignature
                 | Some sig \<Rightarrow>
                     (let hashed = (case truthy (pm_sha256 manifest) of None \<Rightarrow> actual | Some h \<Rightarrow> h);
                          expected = el_hmac lib key (utf8_encode hashed)
                      in if str_isascii sig \<and> expected = sig then None else Some SignatureInvalid))))"

definition require_shipped_integrity :: "pack_manifest \<Rightarrow> verification_failure option" where
  "require_shipped_integrity manifest =
     (if truthy (pm_sha256 manifest) = None then Some MissingIntegrity else None)"

definition verify_detached ::
    "engine_lib \<Rightarrow> pack_manifest \<Rightarrow> raw_dict \<Rightarrow> verifier \<Rightarrow> verification_failure option" where
  "verify_detached lib manifest raw check =
     (case pm_pack_signature manifest of
        None \<Rightarrow> Some MissingDetached
      | Some sig \<Rightarrow>
          if verify_pack (el_sha256 lib) (el_float_repr lib) raw sig check then None else Some DetachedInvalid)"

fun first_failure :: "verification_failure option list \<Rightarrow> verification_failure option" where
  "first_failure [] = None"
| "first_failure (None # fs) = first_failure fs"
| "first_failure (Some x # fs) = Some x"

text \<open>The gates in the order of \<open>load_all\<close>.\<close>

definition shipped_gates ::
    "engine_lib \<Rightarrow> packs_engine \<Rightarrow> bool \<Rightarrow> pack_manifest \<Rightarrow> raw_dict \<Rightarrow> verification_failure option" where
  "shipped_gates lib eng verify_sig manifest raw =
     first_failure
       [if \<not> verify_sig then None
        else (case canonical_bytes (el_float_repr lib) raw of
                Inl _ \<Rightarrow> Some NotCanonicalizable
              | Inr pack_bytes \<Rightarrow>
                  first_failure
                    [if en_require_integrity eng then require_shipped_integrity manifest else None,
                     verify_manifest lib manifest pack_bytes (en_secret eng),
                     if pm_pack_signature manifest \<noteq> None \<and> en_verifier eng = None
                     then Some SignatureWithoutTrustRoot else None]),
        (case en_verifier eng of None \<Rightarrow> None | Some check \<Rightarrow> verify_detached lib manifest raw check)]"

section \<open>Loading the shipped packs\<close>

record shipped =
  sh_packs :: "pack list"
  sh_digests :: "string list"
  sh_refs :: "(string \<times> string) list"
  sh_ids :: "string list"

definition no_shipped :: shipped where
  "no_shipped = \<lparr>sh_packs = [], sh_digests = [], sh_refs = [], sh_ids = []\<rparr>"

definition pack_body :: "raw_dict \<Rightarrow> pyval" where
  "pack_body raw = (case vget raw ''body'' of None \<Rightarrow> VDict [] | Some b \<Rightarrow> b)"

definition add_shipped :: "engine_lib \<Rightarrow> pack_manifest \<Rightarrow> raw_dict \<Rightarrow> shipped \<Rightarrow> shipped" where
  "add_shipped lib manifest raw acc =
     acc\<lparr>sh_packs := sh_packs acc @ [\<lparr>pk_manifest = manifest, pk_body = pack_body raw, pk_source = raw,
                                       pk_imported = False\<rparr>],
         sh_refs := (pm_id manifest, pm_version manifest) # sh_refs acc,
         sh_ids := pm_id manifest # sh_ids acc,
         sh_digests := (case canonical_digest (el_sha256 lib) (el_float_repr lib) raw of
                          Inl _ \<Rightarrow> sh_digests acc | Inr d \<Rightarrow> d # sh_digests acc)\<rparr>"

text \<open>One iteration of the loop over the files.\<close>

definition load_file ::
    "engine_lib \<Rightarrow> packs_engine \<Rightarrow> pack_type option \<Rightarrow> bool \<Rightarrow> content_file \<Rightarrow> shipped \<Rightarrow> load_error + shipped" where
  "load_file lib eng pack_type verify_sig f acc =
     (case parse_file lib f of
        Inl x \<Rightarrow> Inl (ParseFailed x)
      | Inr raw \<Rightarrow>
          (case mentions_manifest raw of
             Inl x \<Rightarrow> Inl (ManifestFailed x)
           | Inr False \<Rightarrow> Inr acc
           | Inr True \<Rightarrow>
               (case manifest_of_raw raw of
                  Inl x \<Rightarrow> Inl (ManifestFailed x)
                | Inr (d, manifest) \<Rightarrow>
                    if \<not> type_matches pack_type (pm_type manifest) then Inr acc
                    else (case shipped_gates lib eng verify_sig manifest d of
                            Some failure \<Rightarrow> Inl (VerificationError manifest failure)
                          | None \<Rightarrow> Inr (add_shipped lib manifest d acc)))))"

fun load_files ::
    "engine_lib \<Rightarrow> packs_engine \<Rightarrow> pack_type option \<Rightarrow> bool \<Rightarrow> content_file list \<Rightarrow> shipped \<Rightarrow> load_error + shipped" where
  "load_files lib eng pack_type verify_sig [] acc = Inr acc"
| "load_files lib eng pack_type verify_sig (f # fs) acc =
     rbind (load_file lib eng pack_type verify_sig f acc) (load_files lib eng pack_type verify_sig fs)"

section \<open>Imported packs\<close>

text \<open>One iteration of \<open>_resolve_imported_packs\<close>: \<open>Inr None\<close> is a skipped entry. Reading the store
  raises for an address that is no digest, and the comparison of digests for one that is not ASCII.\<close>

definition resolve_entry ::
    "engine_lib \<Rightarrow> packs_engine \<Rightarrow> (string \<Rightarrow> store_error + nat list option) \<Rightarrow> shipped \<Rightarrow>
     registry_entry \<Rightarrow> load_error + pack option" where
  "resolve_entry lib eng store_get ship entry =
     (let ref = re_ref entry in
      if pr_id ref \<in> set (sh_ids ship) then Inr None
      else if (pr_id ref, pr_version ref) \<in> set (sh_refs ship) then Inr None
      else if re_digest entry \<in> set (sh_digests ship) then Inr None
      else (case store_get (re_digest entry) of
          Inl x \<Rightarrow> Inl (StoreFailed x)
        | Inr None \<Rightarrow> Inr None
        | Inr (Some data) \<Rightarrow>
            (case utf8_decode data of
               None \<Rightarrow> Inr None
             | Some t \<Rightarrow>
                 (case el_json_loads lib t of
                    Inr (VDict raw) \<Rightarrow>
                      (case canonical_digest (el_sha256 lib) (el_float_repr lib) raw of
                         Inl _ \<Rightarrow> Inr None
                       | Inr recomputed \<Rightarrow>
                           if \<not> str_isascii recomputed then Inr None
                           else if \<not> str_isascii (re_digest entry) then Inl (ParseFailed TypeError)
                           else if recomputed \<noteq> re_digest entry then Inr None
                           else (case vget raw ''manifest'' of
                               Some (VDict manifest_raw) \<Rightarrow>
                                 (case pack_manifest_of manifest_raw of
                                    Inl TypeError \<Rightarrow> Inl (ManifestFailed TypeError)
                                  | Inl _ \<Rightarrow> Inr None
                                  | Inr manifest \<Rightarrow>
                                      if pm_id manifest \<noteq> pr_id ref \<or> pm_version manifest \<noteq> pr_version ref then Inr None
                                      else if pm_type manifest \<noteq> re_type entry then Inr None
                                      else (case en_import_verifier eng of
                                          None \<Rightarrow> Inr None
                                        | Some trusted \<Rightarrow>
                                            (case detached_signature (el_json_loads lib) entry of
                                               None \<Rightarrow> Inr None
                                             | Some sig \<Rightarrow>
                                                 if \<not> trusted raw sig then Inr None
                                                 else Inr (Some \<lparr>pk_manifest = manifest, pk_body = pack_body raw,
                                                                  pk_source = raw, pk_imported = True\<rparr>))))
                             | _ \<Rightarrow> Inr None))
                  | _ \<Rightarrow> Inr None))))"

definition resolve_imported_packs ::
    "engine_lib \<Rightarrow> packs_engine \<Rightarrow> pack_type option \<Rightarrow> shipped \<Rightarrow> load_error + pack list" where
  "resolve_imported_packs lib eng pack_type ship =
     (case (en_registry eng, en_content_store eng) of
        (Some entries_of, Some store_get) \<Rightarrow>
          (case entries_of pack_type of
             Inl x \<Rightarrow> Inl (RegistryFailed x)
           | Inr entries \<Rightarrow>
               rbind (rseq (map (resolve_entry lib eng store_get ship) entries))
                 (\<lambda>resolved. Inr (List.map_filter id resolved)))
      | _ \<Rightarrow> Inr [])"

section \<open>Auditing a rejected pack\<close>

definition audit_safe_identifier :: "engine_lib \<Rightarrow> string \<Rightarrow> string" where
  "audit_safe_identifier lib v =
     (if is_audit_safe (el_unicode lib) v then v else el_sha256 lib (utf8_encode v))"

text \<open>\<open>_emit_verify_failure\<close>: the calls of the emitter, each with all its arguments. What the emitter
  makes of them is \<open>make_audit_event\<close>.\<close>

definition verify_failure_event :: "string \<Rightarrow> string \<Rightarrow> audit_fields" where
  "verify_failure_event pack_id pack_version =
     \<lparr>af_actor = ''system'', af_action = AA_pack_verify, af_subject = pack_id, af_result = AR_failure,
      af_packId = Some pack_id, af_packVersion = Some pack_version\<rparr>"

definition emit_verify_failure :: "engine_lib \<Rightarrow> packs_engine \<Rightarrow> pack_manifest \<Rightarrow> audit_fields list" where
  "emit_verify_failure lib eng manifest =
     (if \<not> en_audit_emitter eng then []
      else (let pack_id = audit_safe_identifier lib (pm_id manifest);
                pack_version = audit_safe_identifier lib (pm_version manifest)
            in [verify_failure_event pack_id pack_version]))"

text \<open>\<open>load_all\<close>: the events emitted, and the packs or the error that propagates. Only a
  \<open>PackVerificationError\<close> is audited, before it is raised again.\<close>

definition load_all ::
    "engine_lib \<Rightarrow> packs_engine \<Rightarrow> pack_type option \<Rightarrow> bool \<Rightarrow> audit_fields list \<times> (load_error + pack list)" where
  "load_all lib eng pack_type verify_sig =
     (case load_files lib eng pack_type verify_sig (iter_pack_files eng) no_shipped of
        Inl (VerificationError manifest failure) \<Rightarrow>
          (emit_verify_failure lib eng manifest, Inl (VerificationError manifest failure))
      | Inl x \<Rightarrow> ([], Inl x)
      | Inr ship \<Rightarrow>
          ([], rbind (resolve_imported_packs lib eng pack_type ship) (\<lambda>imported. Inr (sh_packs ship @ imported))))"

definition load_for_workload ::
    "engine_lib \<Rightarrow> packs_engine \<Rightarrow> string \<Rightarrow> pack_type \<Rightarrow> audit_fields list \<times> (load_error + pack list)" where
  "load_for_workload lib eng workload pack_type =
     (case load_all lib eng (Some pack_type) True of
        (events, r) \<Rightarrow>
          (events, rbind r (\<lambda>packs. Inr (filter (\<lambda>p. pm_targets (pk_manifest p) = []
                                            \<or> workload \<in> set (pm_targets (pk_manifest p))) packs))))"

section \<open>The admission gate and the reserved ids\<close>

datatype import_rejection =
    NoTrustRoot | MissingManifest | MalformedManifest | NoDetachedSignature | UntrustedSignature
  | ImportTypeError

definition verify_pack_for_import :: "packs_engine \<Rightarrow> pyval \<Rightarrow> import_rejection option" where
  "verify_pack_for_import eng v =
     (case en_import_verifier eng of
        None \<Rightarrow> Some NoTrustRoot
      | Some trusted \<Rightarrow>
          (case v of
             VDict raw \<Rightarrow>
               (case vget raw ''manifest'' of
                  Some (VDict manifest_raw) \<Rightarrow>
                    (case pack_manifest_of manifest_raw of
                       Inl TypeError \<Rightarrow> Some ImportTypeError
                     | Inl _ \<Rightarrow> Some MalformedManifest
                     | Inr manifest \<Rightarrow>
                         (case pm_pack_signature manifest of
                            None \<Rightarrow> Some NoDetachedSignature
                          | Some sig \<Rightarrow> if \<not> trusted raw sig then Some UntrustedSignature else None))
                | _ \<Rightarrow> Some MissingManifest)
           | _ \<Rightarrow> Some MissingManifest))"

definition registry_entries ::
    "packs_engine \<Rightarrow> pack_type option \<Rightarrow> registry_error + registry_entry list" where
  "registry_entries eng pack_type =
     (case en_registry eng of None \<Rightarrow> Inr [] | Some entries_of \<Rightarrow> entries_of pack_type)"

text \<open>The id one file reserves, if any: every exception while reading it is suppressed.\<close>

definition reserved_id_of_file :: "engine_lib \<Rightarrow> content_file \<Rightarrow> string option" where
  "reserved_id_of_file lib f =
     (case parse_file lib f of
        Inr (VDict raw) \<Rightarrow>
          (case vget raw ''manifest'' of
             Some (VDict m) \<Rightarrow>
               (case vget m ''id'' of
                  Some v \<Rightarrow> truthy (str_key v)
                | None \<Rightarrow> None)
           | _ \<Rightarrow> None)
      | _ \<Rightarrow> None)"

definition reserved_pack_ids :: "engine_lib \<Rightarrow> packs_engine \<Rightarrow> registry_error + string set" where
  "reserved_pack_ids lib eng =
     rbind (registry_entries eng None)
       (\<lambda>es. Inr (set (map (\<lambda>e. pr_id (re_ref e)) es @ List.map_filter (reserved_id_of_file lib) (iter_pack_files eng))))"

section \<open>What loading the shipped packs yields\<close>

lemma first_failure_None: "first_failure fs = None \<longleftrightarrow> (\<forall>f \<in> set fs. f = None)"
  by (induction fs rule: first_failure.induct) auto

definition shipped_ok :: "engine_lib \<Rightarrow> packs_engine \<Rightarrow> pack_type option \<Rightarrow> bool \<Rightarrow> pack \<Rightarrow> bool" where
  "shipped_ok lib eng pack_type verify_sig p \<longleftrightarrow>
     \<not> pk_imported p \<and> type_matches pack_type (pm_type (pk_manifest p)) \<and> pk_body p = pack_body (pk_source p)
     \<and> manifest_of_raw (VDict (pk_source p)) = Inr (pk_source p, pk_manifest p)
     \<and> shipped_gates lib eng verify_sig (pk_manifest p) (pk_source p) = None
     \<and> (\<exists>f \<in> set (iter_pack_files eng). parse_file lib f = Inr (VDict (pk_source p)))"

text \<open>The bookkeeping of the loop agrees with the packs it has appended.\<close>

definition shipped_inv :: "engine_lib \<Rightarrow> packs_engine \<Rightarrow> pack_type option \<Rightarrow> bool \<Rightarrow> shipped \<Rightarrow> bool" where
  "shipped_inv lib eng pack_type verify_sig ship \<longleftrightarrow>
     (\<forall>p \<in> set (sh_packs ship). shipped_ok lib eng pack_type verify_sig p)
     \<and> set (sh_ids ship) = (\<lambda>p. pm_id (pk_manifest p)) ` set (sh_packs ship)
     \<and> set (sh_refs ship) = (\<lambda>p. (pm_id (pk_manifest p), pm_version (pk_manifest p))) ` set (sh_packs ship)
     \<and> set (sh_digests ship) =
         {d. \<exists>p \<in> set (sh_packs ship). canonical_digest (el_sha256 lib) (el_float_repr lib) (pk_source p) = Inr d}"

lemma manifest_of_raw_same: "manifest_of_raw raw = Inr (d, m) \<Longrightarrow> raw = VDict d"
  by (auto simp: manifest_of_raw_def rbind_Inr_iff split: pyval.splits option.splits)

lemma add_shipped_inv:
  assumes inv: "shipped_inv lib eng pt vs acc"
    and ok: "shipped_ok lib eng pt vs \<lparr>pk_manifest = m, pk_body = pack_body d, pk_source = d, pk_imported = False\<rparr>"
  shows "shipped_inv lib eng pt vs (add_shipped lib m d acc)"
proof -
  have "{e. \<exists>p \<in> set (sh_packs acc @ [\<lparr>pk_manifest = m, pk_body = pack_body d, pk_source = d, pk_imported = False\<rparr>]).
      canonical_digest (el_sha256 lib) (el_float_repr lib) (pk_source p) = Inr e}
    = set (case canonical_digest (el_sha256 lib) (el_float_repr lib) d of Inl _ \<Rightarrow> sh_digests acc | Inr e \<Rightarrow> e # sh_digests acc)"
    using inv by (cases "canonical_digest (el_sha256 lib) (el_float_repr lib) d") (auto simp: shipped_inv_def)
  then show ?thesis using inv ok unfolding shipped_inv_def add_shipped_def by auto
qed

lemma load_file_inv:
  assumes "load_file lib eng pt vs f acc = Inr ship" "f \<in> set (iter_pack_files eng)" "shipped_inv lib eng pt vs acc"
  shows "shipped_inv lib eng pt vs ship"
proof (cases "ship = acc")
  case False
  with assms(1) obtain raw d m where r: "parse_file lib f = Inr raw" "manifest_of_raw raw = Inr (d, m)"
      "type_matches pt (pm_type m)" "shipped_gates lib eng vs m d = None" "ship = add_shipped lib m d acc"
    by (auto simp: load_file_def split: sum.splits bool.splits if_splits option.splits prod.splits)
  have "raw = VDict d" using manifest_of_raw_same r(2) by blast
  then show ?thesis unfolding r(5)
    using r assms(2) by (intro add_shipped_inv [OF assms(3)]) (auto simp: shipped_ok_def)
qed (use assms(3) in simp)

lemma load_files_inv:
  "load_files lib eng pt vs fs acc = Inr ship \<Longrightarrow> set fs \<subseteq> set (iter_pack_files eng) \<Longrightarrow>
   shipped_inv lib eng pt vs acc \<Longrightarrow> shipped_inv lib eng pt vs ship"
  by (induction fs arbitrary: acc) (auto simp: rbind_Inr_iff intro: load_file_inv)

lemma load_all_Inr:
  assumes "load_all lib eng pt vs = (events, Inr packs)"
  obtains ship imported where "shipped_inv lib eng pt vs ship" "events = []"
    "resolve_imported_packs lib eng pt ship = Inr imported" "packs = sh_packs ship @ imported"
proof -
  from assms obtain ship imported where
    "load_files lib eng pt vs (iter_pack_files eng) no_shipped = Inr ship" "events = []"
    "resolve_imported_packs lib eng pt ship = Inr imported" "packs = sh_packs ship @ imported"
    by (auto simp: load_all_def rbind_Inr_iff split: sum.splits load_error.splits)
  moreover have "shipped_inv lib eng pt vs no_shipped" by (simp add: shipped_inv_def no_shipped_def)
  ultimately show thesis using load_files_inv that by (metis order_refl)
qed

section \<open>What resolving the imported packs yields\<close>

text \<open>What binds an imported pack to the registry entry, the stored bytes and the trust root.\<close>

definition imported_ok ::
    "engine_lib \<Rightarrow> packs_engine \<Rightarrow> pack_type option \<Rightarrow> registry_entry \<Rightarrow> pack \<Rightarrow> bool" where
  "imported_ok lib eng pack_type e p \<longleftrightarrow>
     pk_imported p \<and> pk_body p = pack_body (pk_source p)
     \<and> (\<exists>entries_of es. en_registry eng = Some entries_of \<and> entries_of pack_type = Inr es \<and> e \<in> set es)
     \<and> (\<exists>store_get data t. en_content_store eng = Some store_get \<and> store_get (re_digest e) = Inr (Some data)
          \<and> utf8_decode data = Some t \<and> el_json_loads lib t = Inr (VDict (pk_source p)))
     \<and> str_isascii (re_digest e)
     \<and> canonical_digest (el_sha256 lib) (el_float_repr lib) (pk_source p) = Inr (re_digest e)
     \<and> manifest_of_raw (VDict (pk_source p)) = Inr (pk_source p, pk_manifest p)
     \<and> pm_id (pk_manifest p) = pr_id (re_ref e) \<and> pm_version (pk_manifest p) = pr_version (re_ref e)
     \<and> pm_type (pk_manifest p) = re_type e
     \<and> (\<exists>trusted sig. en_import_verifier eng = Some trusted
          \<and> detached_signature (el_json_loads lib) e = Some sig \<and> trusted (pk_source p) sig)"

text \<open>A shipped pack of the result owns the entry's id, or has its content.\<close>

definition shadowed :: "engine_lib \<Rightarrow> pack list \<Rightarrow> registry_entry \<Rightarrow> bool" where
  "shadowed lib packs e \<longleftrightarrow>
     (\<exists>s \<in> set packs. \<not> pk_imported s \<and>
        (pm_id (pk_manifest s) = pr_id (re_ref e)
         \<or> canonical_digest (el_sha256 lib) (el_float_repr lib) (pk_source s) = Inr (re_digest e)))"

lemma resolve_entry_Some_iff:
  assumes "en_content_store eng = Some store_get" "en_registry eng = Some entries_of"
    "entries_of pt = Inr es" "e \<in> set es"
  shows "resolve_entry lib eng store_get ship e = Inr (Some p) \<longleftrightarrow>
    imported_ok lib eng pt e p \<and> pr_id (re_ref e) \<notin> set (sh_ids ship)
    \<and> (pr_id (re_ref e), pr_version (re_ref e)) \<notin> set (sh_refs ship) \<and> re_digest e \<notin> set (sh_digests ship)"
  (is "?l = ?r")
proof
  assume ?l
  then show ?r using assms
    by (auto simp: resolve_entry_def imported_ok_def manifest_of_raw_def Let_def
        split: if_splits sum.splits option.splits pyval.splits py_exc.splits)
next
  assume ?r
  then show ?l using assms
    by (cases p) (auto simp: resolve_entry_def imported_ok_def manifest_of_raw_def Let_def rbind_Inr_iff
        split: option.splits pyval.splits)
qed

lemma set_map_filter_id: "set (List.map_filter id xs) = {x. Some x \<in> set xs}"
  by (induction xs) (auto simp: List.map_filter_simps split: option.splits)

lemma shadowed_iff:
  assumes "shipped_inv lib eng pt vs ship"
  shows "shadowed lib (sh_packs ship) e \<longleftrightarrow>
    pr_id (re_ref e) \<in> set (sh_ids ship) \<or> (pr_id (re_ref e), pr_version (re_ref e)) \<in> set (sh_refs ship)
    \<or> re_digest e \<in> set (sh_digests ship)"
proof -
  have ship: "\<forall>p \<in> set (sh_packs ship). \<not> pk_imported p"
    and sets: "set (sh_ids ship) = (\<lambda>p. pm_id (pk_manifest p)) ` set (sh_packs ship)"
      "set (sh_refs ship) = (\<lambda>p. (pm_id (pk_manifest p), pm_version (pk_manifest p))) ` set (sh_packs ship)"
      "set (sh_digests ship) =
         {d. \<exists>p \<in> set (sh_packs ship). canonical_digest (el_sha256 lib) (el_float_repr lib) (pk_source p) = Inr d}"
    using assms by (auto simp: shipped_inv_def shipped_ok_def)
  show ?thesis unfolding sets shadowed_def using ship by (auto simp: image_iff) metis
qed

lemma resolve_imported_set:
  assumes "resolve_imported_packs lib eng pt ship = Inr imported" and inv: "shipped_inv lib eng pt vs ship"
  shows "set imported = {p. \<exists>e. imported_ok lib eng pt e p \<and> \<not> shadowed lib (sh_packs ship) e}"
proof (cases "\<exists>entries_of store_get. en_registry eng = Some entries_of \<and> en_content_store eng = Some store_get")
  case False
  then have "imported = []" using assms(1) by (auto simp: resolve_imported_packs_def split: option.splits)
  moreover have "\<not> imported_ok lib eng pt e p" for e p using False by (auto simp: imported_ok_def)
  ultimately show ?thesis by simp
next
  case True
  then obtain entries_of store_get where r: "en_registry eng = Some entries_of" "en_content_store eng = Some store_get"
    by blast
  then obtain es resolved where es: "entries_of pt = Inr es"
      "map (resolve_entry lib eng store_get ship) es = map Inr resolved" "imported = List.map_filter id resolved"
    using assms(1) by (auto simp: resolve_imported_packs_def rbind_Inr_iff rseq_Inr_iff split: sum.splits)
  have "p \<in> set imported \<longleftrightarrow> (\<exists>e. imported_ok lib eng pt e p \<and> \<not> shadowed lib (sh_packs ship) e)" for p
  proof -
    have "p \<in> set imported \<longleftrightarrow> Inr (Some p) \<in> set (map Inr resolved :: (load_error + pack option) list)"
      by (auto simp: es(3) set_map_filter_id)
    also have "\<dots> \<longleftrightarrow> (\<exists>e \<in> set es. resolve_entry lib eng store_get ship e = Inr (Some p))"
      unfolding es(2) [symmetric] by (auto simp: image_iff eq_commute)
    also have "\<dots> \<longleftrightarrow> (\<exists>e \<in> set es. imported_ok lib eng pt e p \<and> pr_id (re_ref e) \<notin> set (sh_ids ship)
        \<and> (pr_id (re_ref e), pr_version (re_ref e)) \<notin> set (sh_refs ship) \<and> re_digest e \<notin> set (sh_digests ship))"
      using resolve_entry_Some_iff [OF r(2,1) es(1)] by blast
    also have "\<dots> \<longleftrightarrow> (\<exists>e. imported_ok lib eng pt e p \<and> \<not> shadowed lib (sh_packs ship) e)"
      unfolding shadowed_iff [OF inv] using r(1) es(1) by (auto simp: imported_ok_def)
    finally show ?thesis .
  qed
  then show ?thesis by blast
qed

section \<open>Lemmas for the properties\<close>

lemma imported_ok_imported: "imported_ok lib eng pt e p \<Longrightarrow> pk_imported p"
  by (simp add: imported_ok_def)

lemma load_all_imported:
  assumes "load_all lib eng pt vs = (events, Inr packs)"
  shows "p \<in> set packs \<and> pk_imported p \<longleftrightarrow> (\<exists>e. imported_ok lib eng pt e p \<and> \<not> shadowed lib packs e)"
proof -
  from assms obtain ship imported where l: "shipped_inv lib eng pt vs ship"
      "resolve_imported_packs lib eng pt ship = Inr imported" "packs = sh_packs ship @ imported"
    by (rule load_all_Inr)
  note imp = resolve_imported_set [OF l(2,1)]
  have ship: "\<forall>p \<in> set (sh_packs ship). \<not> pk_imported p" using l(1) by (simp add: shipped_inv_def shipped_ok_def)
  have "\<forall>p \<in> set imported. pk_imported p" using imp imported_ok_imported by auto
  then have "shadowed lib packs e \<longleftrightarrow> shadowed lib (sh_packs ship) e" for e
    unfolding shadowed_def l(3) using ship by auto
  then show ?thesis using imp ship imported_ok_imported unfolding l(3) by auto
qed

lemma load_all_shipped:
  assumes "load_all lib eng pt vs = (events, Inr packs)" "p \<in> set packs" "\<not> pk_imported p"
  shows "shipped_ok lib eng pt vs p"
proof -
  from assms(1) obtain ship imported where l: "shipped_inv lib eng pt vs ship"
      "resolve_imported_packs lib eng pt ship = Inr imported" "packs = sh_packs ship @ imported"
    by (rule load_all_Inr)
  have "p \<notin> set imported" using resolve_imported_set [OF l(2,1)] imported_ok_imported assms(3) by auto
  then have "p \<in> set (sh_packs ship)" using assms(2) l(3) by simp
  then show ?thesis using l(1) by (simp add: shipped_inv_def)
qed

lemma shipped_gates_None:
  assumes "shipped_gates lib eng True m raw = None"
  shows "\<exists>bs. canonical_bytes (el_float_repr lib) raw = Inr bs
     \<and> (en_require_integrity eng \<longrightarrow> pm_sha256 m = Some (el_sha256 lib bs))
     \<and> (\<forall>key. en_secret eng = Some key \<longrightarrow>
          pm_signature m = Some (el_hmac lib key (utf8_encode (el_sha256 lib bs))))
     \<and> (\<forall>check. en_verifier eng = Some check \<longrightarrow>
          (\<exists>sig. pm_pack_signature m = Some sig \<and> verify_pack (el_sha256 lib) (el_float_repr lib) raw sig check))
     \<and> (en_verifier eng = None \<longrightarrow> pm_pack_signature m = None)"
proof -
  from assms obtain bs where bs: "canonical_bytes (el_float_repr lib) raw = Inr bs"
    and integ: "en_require_integrity eng \<Longrightarrow> require_shipped_integrity m = None"
    and ver: "verify_manifest lib m bs (en_secret eng) = None"
    and root: "en_verifier eng = None \<Longrightarrow> pm_pack_signature m = None"
    and det: "\<And>check. en_verifier eng = Some check \<Longrightarrow> verify_detached lib m raw check = None"
    by (auto simp: shipped_gates_def first_failure_None split: sum.splits if_splits option.splits)
  have hash: "truthy (pm_sha256 m) = None \<or> pm_sha256 m = Some (el_sha256 lib bs)"
    using ver by (cases "pm_sha256 m") (auto simp: verify_manifest_def Let_def split: if_splits)
  have "pm_signature m = Some (el_hmac lib key (utf8_encode (el_sha256 lib bs)))" if "en_secret eng = Some key" for key
  proof -
    have "truthy (pm_signature m) = Some (el_hmac lib key
        (utf8_encode (case truthy (pm_sha256 m) of None \<Rightarrow> el_sha256 lib bs | Some h \<Rightarrow> h)))"
      using ver that by (auto simp: verify_manifest_def Let_def split: if_splits option.splits)
    moreover have "(case truthy (pm_sha256 m) of None \<Rightarrow> el_sha256 lib bs | Some h \<Rightarrow> h) = el_sha256 lib bs"
      using hash by (auto split: option.split if_splits)
    ultimately show ?thesis by (cases "pm_signature m") (auto split: if_splits)
  qed
  moreover have "pm_sha256 m = Some (el_sha256 lib bs)" if "en_require_integrity eng"
    using integ [OF that] hash by (auto simp: require_shipped_integrity_def split: if_splits)
  ultimately show ?thesis using bs root det
    by (auto simp: verify_detached_def split: option.splits if_splits)
qed

lemma load_files_covers:
  "load_files lib eng pt vs fs acc = Inr ship \<Longrightarrow>
   set (sh_ids acc) \<subseteq> set (sh_ids ship)
   \<and> (\<forall>f d m. f \<in> set fs \<longrightarrow> parse_file lib f = Inr (VDict d) \<longrightarrow> manifest_of_raw (VDict d) = Inr (d, m) \<longrightarrow>
        type_matches pt (pm_type m) \<longrightarrow> pm_id m \<in> set (sh_ids ship))"
proof (induction fs arbitrary: acc)
  case (Cons f fs)
  then obtain acc' where a: "load_file lib eng pt vs f acc = Inr acc'" "load_files lib eng pt vs fs acc' = Inr ship"
    by (auto simp: rbind_Inr_iff)
  have mono: "set (sh_ids acc) \<subseteq> set (sh_ids acc')"
    using a(1) by (auto simp: load_file_def add_shipped_def split: sum.splits bool.splits if_splits option.splits prod.splits)
  have "pm_id m \<in> set (sh_ids acc')"
    if "parse_file lib f = Inr (VDict d)" "manifest_of_raw (VDict d) = Inr (d, m)" "type_matches pt (pm_type m)" for d m
  proof -
    have "vget d ''manifest'' \<noteq> None" using that(2) by (auto simp: manifest_of_raw_def split: option.splits)
    then show ?thesis using a(1) that
      by (auto simp: load_file_def add_shipped_def split: option.splits)
  qed
  with mono Cons.IH [OF a(2)] show ?case by auto
qed simp

lemma load_all_covers:
  assumes "load_all lib eng pt vs = (events, Inr packs)" "f \<in> set (iter_pack_files eng)"
    and "parse_file lib f = Inr raw" "manifest_of_raw raw = Inr (d, m)" "type_matches pt (pm_type m)"
  shows "\<exists>q \<in> set packs. \<not> pk_imported q \<and> pm_id (pk_manifest q) = pm_id m"
proof -
  have raw: "raw = VDict d" using manifest_of_raw_same assms(4) by blast
  from assms(1) obtain ship imported where l:
      "load_files lib eng pt vs (iter_pack_files eng) no_shipped = Inr ship" "packs = sh_packs ship @ imported"
    by (auto simp: load_all_def rbind_Inr_iff split: sum.splits load_error.splits)
  have "pm_id m \<in> set (sh_ids ship)"
    using load_files_covers [OF l(1)] assms(2-5) unfolding raw by blast
  moreover have "shipped_inv lib eng pt vs no_shipped" by (simp add: shipped_inv_def no_shipped_def)
  from load_files_inv [OF l(1) order_refl this]
  have "set (sh_ids ship) = (\<lambda>p. pm_id (pk_manifest p)) ` set (sh_packs ship)"
    "\<forall>p \<in> set (sh_packs ship). \<not> pk_imported p"
    by (simp_all add: shipped_inv_def shipped_ok_def)
  ultimately show ?thesis unfolding l(2) by auto
qed

lemma rbind_map_Inl: "rbind r (\<lambda>y. Inr (f y)) = Inl z \<longleftrightarrow> r = Inl z"
  by (cases r) auto

lemma resolve_imported_not_verification: "resolve_imported_packs lib eng pt ship \<noteq> Inl (VerificationError m x)"
proof -
  have one: "resolve_entry lib eng store_get ship e \<noteq> Inl (VerificationError m x)" for store_get e
    by (auto simp: resolve_entry_def Let_def split: if_splits sum.splits option.splits pyval.splits py_exc.splits)
  have "rseq (map (resolve_entry lib eng store_get ship) es) \<noteq> Inl (VerificationError m x)" for store_get es
  proof (induction es)
    case (Cons e es)
    then show ?case using one [of store_get e]
      by (cases "resolve_entry lib eng store_get ship e"; cases "rseq (map (resolve_entry lib eng store_get ship) es)") auto
  qed simp
  then show ?thesis by (auto simp: resolve_imported_packs_def rbind_map_Inl split: option.splits sum.splits)
qed

lemma from_entries_subset: "snd ` set (from_entries es) \<subseteq> set es"
proof -
  have "snd ` set (foldl (\<lambda>d e. dict_set (re_ref e) e d) acc es) \<subseteq> snd ` set acc \<union> set es" for acc
  proof (induction es arbitrary: acc)
    case (Cons e es)
    have "snd ` set (dict_set (re_ref e) e acc) \<subseteq> insert e (snd ` set acc)"
      by (induction acc) auto
    then have "snd ` set (dict_set (re_ref e) e acc) \<union> set es \<subseteq> snd ` set acc \<union> set (e # es)" by auto
    with Cons.IH [of "dict_set (re_ref e) e acc"] show ?case unfolding foldl.simps by (rule order_trans)
  qed simp
  from this [of "[]"] show ?thesis by (simp add: from_entries_def)
qed

text \<open>A safe identifier passes the validator of the event, whose normalisation is idempotent.\<close>

lemma assert_audit_safe_idem:
  assumes "\<forall>s. ud_nfkc U (ud_nfkc U s) = ud_nfkc U s" and "is_audit_safe U v"
  shows "assert_audit_safe U v = Inr (ud_nfkc U v)"
  using assms by (simp add: assert_audit_safe_def is_audit_safe_def)

section \<open>Properties\<close>

text \<open>C21: which imported packs run. In a load that succeeds, the imported packs are exactly the ones
  bound at every point: a listed registry entry that no shipped pack shadows by id or content, stored
  bytes found under its digest that parse to the pack, the recomputed canonical digest equal to the
  recorded one, a manifest of the entry's id, version and type, and a stored detached signature that
  the wired trust root accepts. Without a registry, a store or a trust root there is none.\<close>

theorem imported_packs_exact:
  assumes "load_all lib eng pack_type verify_sig = (events, Inr packs)"
  shows "{p \<in> set packs. pk_imported p} = {p. \<exists>e. imported_ok lib eng pack_type e p \<and> \<not> shadowed lib packs e}
    \<and> (en_registry eng = None \<or> en_content_store eng = None \<or> en_import_verifier eng = None \<longrightarrow>
         (\<forall>p \<in> set packs. \<not> pk_imported p))"
proof -
  have "{p \<in> set packs. pk_imported p} = {p. \<exists>e. imported_ok lib eng pack_type e p \<and> \<not> shadowed lib packs e}"
    using load_all_imported [OF assms] by blast
  moreover have "\<not> imported_ok lib eng pack_type e p"
    if "en_registry eng = None \<or> en_content_store eng = None \<or> en_import_verifier eng = None" for e p
    using that by (auto simp: imported_ok_def)
  ultimately show ?thesis by blast
qed

text \<open>which shipped packs run. In a verified load that succeeds, every shipped pack comes from a
  file of the content root outside the reserved subtree, is canonicalizable, carries the hash of its
  canonical bytes (where integrity is required), the MAC of that hash (where a secret is set), and,
  where a verifier is wired, a detached signature that verifies; without one it carries none. It is of
  the requested type.\<close>

theorem shipped_packs_verified:
  assumes "load_all lib eng pack_type True = (events, Inr packs)" and "p \<in> set packs" and "\<not> pk_imported p"
  shows "(\<exists>f \<in> set (en_files eng). \<not> is_reserved_nonruntime f \<and> parse_file lib f = Inr (VDict (pk_source p)))
    \<and> type_matches pack_type (pm_type (pk_manifest p))
    \<and> (\<exists>bs. canonical_bytes (el_float_repr lib) (pk_source p) = Inr bs
       \<and> (en_require_integrity eng \<longrightarrow> pm_sha256 (pk_manifest p) = Some (el_sha256 lib bs))
       \<and> (\<forall>key. en_secret eng = Some key \<longrightarrow>
            pm_signature (pk_manifest p) = Some (el_hmac lib key (utf8_encode (el_sha256 lib bs))))
       \<and> (\<forall>check. en_verifier eng = Some check \<longrightarrow>
            (\<exists>sig. pm_pack_signature (pk_manifest p) = Some sig
               \<and> verify_pack (el_sha256 lib) (el_float_repr lib) (pk_source p) sig check))
       \<and> (en_verifier eng = None \<longrightarrow> pm_pack_signature (pk_manifest p) = None))"
  using load_all_shipped [OF assms] shipped_gates_None [of lib eng "pk_manifest p" "pk_source p"]
  by (auto simp: shipped_ok_def iter_pack_files_def)

text \<open>C22: shipped ids are authoritative. In a load that succeeds, no imported pack carries the id that
  the manifest of a content-root file of a loaded type claims, at any version; in a load of all types
  these are all the files.\<close>

theorem shipped_ids_authoritative:
  assumes "load_all lib eng pack_type verify_sig = (events, Inr packs)"
    and "p \<in> set packs" and "pk_imported p"
    and "f \<in> set (iter_pack_files eng)" and "parse_file lib f = Inr raw"
    and "manifest_of_raw raw = Inr (d, m)" and "type_matches pack_type (pm_type m)"
  shows "pm_id (pk_manifest p) \<noteq> pm_id m"
proof -
  from assms(1) obtain q where q: "q \<in> set packs" "\<not> pk_imported q" "pm_id (pk_manifest q) = pm_id m"
    using load_all_covers [OF assms(1,4-7)] by blast
  obtain e where e: "imported_ok lib eng pack_type e p" "\<not> shadowed lib packs e"
    using load_all_imported [OF assms(1), of p] assms(2,3) by blast
  then show ?thesis using q by (auto simp: imported_ok_def shadowed_def)
qed

text \<open>C23: a rejected pack fails the load and is audited. A load emits an event exactly when it fails
  with a verification error and an emitter is wired; the event is then the one event, it names the
  rejected pack by identifiers that are audit-safe whatever the manifest claims, the manifest's own
  where they are safe, as a failure of \<open>pack.verify\<close> by the system; and no pack is returned. Where the
  normalisation is idempotent and the name of the system is safe, the emitter never drops it.\<close>

theorem rejection_audited:
  fixes fresh :: string and now :: int
  assumes "\<And>bs. is_audit_safe (el_unicode lib) (el_sha256 lib bs)"
  shows "(fst (load_all lib eng pack_type verify_sig) \<noteq> [] \<longleftrightarrow>
       en_audit_emitter eng \<and> (\<exists>m failure. snd (load_all lib eng pack_type verify_sig) = Inl (VerificationError m failure)))
    \<and> (\<forall>m failure. snd (load_all lib eng pack_type verify_sig) = Inl (VerificationError m failure) \<longrightarrow> en_audit_emitter eng \<longrightarrow>
         (\<exists>i v. fst (load_all lib eng pack_type verify_sig) = [verify_failure_event i v]
            \<and> is_audit_safe (el_unicode lib) i \<and> is_audit_safe (el_unicode lib) v
            \<and> (is_audit_safe (el_unicode lib) (pm_id m) \<longrightarrow> i = pm_id m)
            \<and> (is_audit_safe (el_unicode lib) (pm_version m) \<longrightarrow> v = pm_version m)
            \<and> ((\<forall>s. ud_nfkc (el_unicode lib) (ud_nfkc (el_unicode lib) s) = ud_nfkc (el_unicode lib) s)
                 \<longrightarrow> is_audit_safe (el_unicode lib) ''system''
                 \<longrightarrow> (\<exists>e. make_audit_event (el_unicode lib) fresh now (verify_failure_event i v) = Inr e))))"
proof -
  have safe: "is_audit_safe (el_unicode lib) (audit_safe_identifier lib x)" for x
    using assms by (simp add: audit_safe_identifier_def)
  have no_ver: "resolve_imported_packs lib eng pack_type ship \<noteq> Inl (VerificationError m x)" for ship m x
    by (rule resolve_imported_not_verification)
  show ?thesis
  proof (cases "load_files lib eng pack_type verify_sig (iter_pack_files eng) no_shipped")
    case (Inl e)
    have made: "\<exists>e. make_audit_event (el_unicode lib) fresh now (verify_failure_event
          (audit_safe_identifier lib x) (audit_safe_identifier lib y)) = Inr e"
      if "\<forall>s. ud_nfkc (el_unicode lib) (ud_nfkc (el_unicode lib) s) = ud_nfkc (el_unicode lib) s"
        and "is_audit_safe (el_unicode lib) ''system''" for x y
      using that safe assert_audit_safe_idem by (simp add: make_audit_event_def verify_failure_event_def)
    show ?thesis
    proof (cases e)
      case (VerificationError m failure)
      then have l: "load_all lib eng pack_type verify_sig = (emit_verify_failure lib eng m, Inl e)"
        using Inl by (simp add: load_all_def)
      show ?thesis unfolding l fst_conv snd_conv VerificationError
      proof (intro conjI allI impI)
        fix m' failure' assume "Inl (VerificationError m failure) = Inl (VerificationError m' failure')"
          and "en_audit_emitter eng"
        then show "\<exists>i v. emit_verify_failure lib eng m = [verify_failure_event i v]
            \<and> is_audit_safe (el_unicode lib) i \<and> is_audit_safe (el_unicode lib) v
            \<and> (is_audit_safe (el_unicode lib) (pm_id m') \<longrightarrow> i = pm_id m')
            \<and> (is_audit_safe (el_unicode lib) (pm_version m') \<longrightarrow> v = pm_version m')
            \<and> ((\<forall>s. ud_nfkc (el_unicode lib) (ud_nfkc (el_unicode lib) s) = ud_nfkc (el_unicode lib) s)
                 \<longrightarrow> is_audit_safe (el_unicode lib) ''system''
                 \<longrightarrow> (\<exists>e. make_audit_event (el_unicode lib) fresh now (verify_failure_event i v) = Inr e))"
          using safe made
          by (intro exI [of _ "audit_safe_identifier lib (pm_id m)"] exI [of _ "audit_safe_identifier lib (pm_version m)"])
            (auto simp: emit_verify_failure_def audit_safe_identifier_def Let_def)
      qed (auto simp: emit_verify_failure_def Let_def)
    qed (use Inl in \<open>auto simp: load_all_def\<close>)
  next
    case (Inr ship)
    then show ?thesis using no_ver [of ship]
      by (cases "resolve_imported_packs lib eng pack_type ship") (auto simp: load_all_def)
  qed
qed

text \<open>the admission gate. A pack is admitted for import exactly when a trust root is wired and it
  accepts the detached signature that the pack's own well-formed manifest carries.\<close>

theorem import_admission_exact:
  "verify_pack_for_import eng v = None \<longleftrightarrow>
     (\<exists>trusted raw m sig. en_import_verifier eng = Some trusted \<and> v = VDict raw
        \<and> manifest_of_raw v = Inr (raw, m) \<and> pm_pack_signature m = Some sig \<and> trusted raw sig)"
  by (auto simp: verify_pack_for_import_def manifest_of_raw_def rbind_Inr_iff
      split: option.splits pyval.splits sum.splits py_exc.splits if_splits)

text \<open>tenants' imports stay apart at run time. Where the engine resolves imports from the view of one
  tenant's recorded imports, every imported pack it loads is one of them: its id, version and type are
  those of a record of that tenant, its content has the recorded digest, and the trust root accepted
  the signature recorded with it.\<close>

theorem tenant_imports_only:
  assumes "load_all lib (with_import_registry (Some (list_entries (from_entries (map imported_pack_to_entry imports)))) eng)
      pack_type verify_sig = (events, Inr packs)"
    and "p \<in> set packs" and "pk_imported p"
  shows "\<exists>r \<in> set imports. ip_packId r = pm_id (pk_manifest p) \<and> ip_version r = pm_version (pk_manifest p)
    \<and> ip_packType r = pm_type (pk_manifest p)
    \<and> canonical_digest (el_sha256 lib) (el_float_repr lib) (pk_source p) = Inr (ip_digest r)
    \<and> (\<exists>trusted sig text. en_import_verifier eng = Some trusted \<and> ip_signature r = Some text
         \<and> (\<exists>d. el_json_loads lib text = Inr (VDict d) \<and> pack_signature_of d = Some sig)
         \<and> trusted (pk_source p) sig)"
proof -
  obtain e where e: "imported_ok lib (with_import_registry (Some (list_entries (from_entries (map imported_pack_to_entry imports)))) eng)
      pack_type e p"
    using load_all_imported [OF assms(1), of p] assms(2,3) by blast
  then obtain es where es: "list_entries (from_entries (map imported_pack_to_entry imports)) pack_type = Inr es" "e \<in> set es"
    by (auto simp: imported_ok_def with_import_registry_def)
  then have "e \<in> snd ` set (from_entries (map imported_pack_to_entry imports))"
    by (auto simp: list_entries_def sort_entries_def split: if_splits)
  then have "e \<in> set (map imported_pack_to_entry imports)" using from_entries_subset by blast
  then obtain r where r: "r \<in> set imports" "e = imported_pack_to_entry r" by auto
  show ?thesis
    by (rule bexI [OF _ r(1)]) (use e in \<open>auto simp: imported_ok_def r(2) imported_pack_to_entry_def
        with_import_registry_def detached_signature_def split: option.splits sum.splits pyval.splits\<close>)
qed

text \<open>a workload gets the packs that target it. The packs of a workload are the packs of the typed
  load, in its order, whose target list is empty or names the workload's kind; every one is of that
  type.\<close>

theorem workload_packs_targeted:
  assumes "load_for_workload lib eng workload pack_type = (events, Inr packs)"
  shows "\<exists>all. load_all lib eng (Some pack_type) True = (events, Inr all)
    \<and> packs = filter (\<lambda>p. pm_targets (pk_manifest p) = [] \<or> workload \<in> set (pm_targets (pk_manifest p))) all
    \<and> list_all (\<lambda>p. pk_imported p \<or> pm_type (pk_manifest p) = pack_type) packs"
proof -
  from assms obtain pa where l: "load_all lib eng (Some pack_type) True = (events, Inr pa)"
    "packs = filter (\<lambda>p. pm_targets (pk_manifest p) = [] \<or> workload \<in> set (pm_targets (pk_manifest p))) pa"
    by (auto simp: load_for_workload_def rbind_Inr_iff split: prod.splits)
  then show ?thesis using load_all_shipped [OF l(1)]
    by (auto simp: list_all_iff shipped_ok_def type_matches_def)
qed

section \<open>A concrete engine\<close>

text \<open>One shipped pack \<open>b\<close> or \<open>a\<close> of type \<open>ops\<close>, one import \<open>a\<close> of type \<open>rule\<close>. The stand-in for the
  hash tells the two apart by the letter \<open>u\<close> of their canonical bytes.\<close>

definition sample_raw :: "string \<Rightarrow> string \<Rightarrow> string \<Rightarrow> raw_dict" where
  "sample_raw i t h =
     [(VStr ''manifest'', VDict [(VStr ''id'', VStr i), (VStr ''type'', VStr t), (VStr ''name'', VStr ''n''),
        (VStr ''version'', VStr ''1.0.0''), (VStr ''sha256'', VStr h)])]"

definition sample_sig :: pack_signature where
  "sample_sig = \<lparr>ps_algorithm = ''ed25519'', ps_signature = [], ps_key_id = ''k'', ps_canonical_digest = ''dr''\<rparr>"

definition sample_loads :: "string \<Rightarrow> py_exc + pyval" where
  "sample_loads t =
     (if t = ''A'' then Inr (VDict (sample_raw ''a'' ''rule'' ''dr''))
      else if t = ''B'' then Inr (VDict (sample_raw ''b'' ''ops'' ''do''))
      else if t = ''C'' then Inr (VDict (sample_raw ''a'' ''ops'' ''do''))
      else if t = ''X'' then Inr (VDict (sample_raw ''me@x'' ''ops'' ''bad''))
      else if t = ''S'' then Inr (VDict (signature_raw sample_sig))
      else Inl ValueError)"

definition sample_lib :: engine_lib where
  "sample_lib = \<lparr>el_sha256 = \<lambda>bs. if 117 \<in> set bs then ''dr'' else ''do'', el_hmac = \<lambda>_ _. ''m'',
     el_float_repr = \<lambda>_. [], el_json_loads = sample_loads, el_yaml_load = \<lambda>_. Inl ValueError,
     el_unicode = ascii_db\<rparr>"

definition sample_import :: imported_pack where
  "sample_import = \<lparr>ip_scope = ''t'', ip_packId = ''a'', ip_version = ''1.0.0'', ip_packType = PT_rule,
     ip_digest = ''dr'', ip_signature = Some ''S'', ip_keyId = Some ''k'', ip_importedBy = ''u'', ip_importedAt = 0\<rparr>"

definition sample_engine :: "string \<Rightarrow> packs_engine" where
  "sample_engine t = \<lparr>en_files = [\<lparr>cf_parts = [''rules'', ''x.json''], cf_text = Some t\<rparr>,
       \<lparr>cf_parts = [''templates'', ''y.json''], cf_text = Some ''A''\<rparr>],
     en_secret = None, en_require_integrity = True, en_verifier = None,
     en_import_verifier = Some (\<lambda>_ sig. sig = sample_sig), en_audit_emitter = True,
     en_registry = Some (list_entries (from_entries (map imported_pack_to_entry [sample_import]))),
     en_content_store = Some (\<lambda>d. Inr (if d = ''dr'' then Some (utf8_encode ''A'') else None))\<rparr>"

definition sample_loaded :: "string \<Rightarrow> string \<Rightarrow> pack_type \<Rightarrow> string \<Rightarrow> bool \<Rightarrow> pack" where
  "sample_loaded i t pt h imp = \<lparr>pk_manifest = \<lparr>pm_id = i, pm_type = pt, pm_name = ''n'', pm_version = ''1.0.0'',
     pm_targets = [], pm_sha256 = Some h, pm_signature = None, pm_pack_signature = None, pm_author = ''microsoft''\<rparr>,
     pk_body = VDict [], pk_source = sample_raw i t h, pk_imported = imp\<rparr>"

lemma sample_load_all:
  "load_all sample_lib (sample_engine ''B'') None True
   = ([], Inr [sample_loaded ''b'' ''ops'' PT_ops ''do'' False, sample_loaded ''a'' ''rule'' PT_rule ''dr'' True])"
  by code_simp

text \<open>A load of one type does not see the ids of the shipped packs of other types: the shipped \<open>ops\<close>
  pack \<open>a\<close> keeps the import \<open>a\<close> out of a full load, but not out of a load of \<open>rule\<close> packs.\<close>

lemma typed_load_shadowing:
  "load_all sample_lib (sample_engine ''C'') None True = ([], Inr [sample_loaded ''a'' ''ops'' PT_ops ''do'' False])"
  "load_all sample_lib (sample_engine ''C'') (Some PT_rule) True
   = ([], Inr [sample_loaded ''a'' ''rule'' PT_rule ''dr'' True])"
  by code_simp+

lemma sample_rejected:
  "\<exists>m. load_all sample_lib (sample_engine ''X'') None True
     = ([verify_failure_event ''do'' ''1.0.0''], Inl (VerificationError m HashMismatch))"
  by (intro exI [where x = "pk_manifest (sample_loaded ''me@x'' ''ops'' PT_ops ''bad'' False)"]) code_simp

section \<open>Witnesses\<close>

theorem imported_packs_exact_witness:
  "\<exists>e. imported_ok sample_lib (sample_engine ''B'') None e (sample_loaded ''a'' ''rule'' PT_rule ''dr'' True)"
proof -
  have "sample_loaded ''a'' ''rule'' PT_rule ''dr'' True \<in> {p \<in> set [sample_loaded ''b'' ''ops'' PT_ops ''do'' False,
      sample_loaded ''a'' ''rule'' PT_rule ''dr'' True]. pk_imported p}"
    by (simp add: sample_loaded_def)
  then show ?thesis unfolding imported_packs_exact [OF sample_load_all, THEN conjunct1] by blast
qed

theorem shipped_packs_verified_witness:
  "\<exists>bs. canonical_bytes (el_float_repr sample_lib) (sample_raw ''b'' ''ops'' ''do'') = Inr bs
     \<and> el_sha256 sample_lib bs = ''do''"
  using shipped_packs_verified [OF sample_load_all, of "sample_loaded ''b'' ''ops'' PT_ops ''do'' False"]
  by (auto simp: sample_loaded_def sample_engine_def)

theorem shipped_ids_authoritative_witness:
  "pm_id (pk_manifest (sample_loaded ''a'' ''rule'' PT_rule ''dr'' True)) \<noteq> ''b''"
proof -
  let ?f = "\<lparr>cf_parts = [''rules'', ''x.json''], cf_text = Some ''B''\<rparr>"
  have f: "?f \<in> set (iter_pack_files (sample_engine ''B''))" by code_simp
  have raw: "parse_file sample_lib ?f = Inr (VDict (sample_raw ''b'' ''ops'' ''do''))" by code_simp
  have m: "manifest_of_raw (VDict (sample_raw ''b'' ''ops'' ''do''))
      = Inr (sample_raw ''b'' ''ops'' ''do'', pk_manifest (sample_loaded ''b'' ''ops'' PT_ops ''do'' False))"
    by code_simp
  have "pm_id (pk_manifest (sample_loaded ''a'' ''rule'' PT_rule ''dr'' True))
      \<noteq> pm_id (pk_manifest (sample_loaded ''b'' ''ops'' PT_ops ''do'' False))"
    by (rule shipped_ids_authoritative [OF sample_load_all _ _ f raw m]) (simp_all add: sample_loaded_def type_matches_def)
  then show ?thesis by (simp add: sample_loaded_def)
qed

theorem rejection_audited_witness:
  "\<exists>i v. fst (load_all sample_lib (sample_engine ''X'') None True) = [verify_failure_event i v] \<and> is_audit_safe ascii_db i"
proof -
  have safe: "is_audit_safe (el_unicode sample_lib) (el_sha256 sample_lib bs)" for bs
  proof -
    have "is_audit_safe ascii_db ''dr'' \<and> is_audit_safe ascii_db ''do''" by code_simp
    then show ?thesis by (simp add: sample_lib_def)
  qed
  obtain m where "snd (load_all sample_lib (sample_engine ''X'') None True) = Inl (VerificationError m HashMismatch)"
    using sample_rejected by auto
  moreover have "en_audit_emitter (sample_engine ''X'')" by (simp add: sample_engine_def)
  moreover have "el_unicode sample_lib = ascii_db" by (simp add: sample_lib_def)
  ultimately show ?thesis
    using rejection_audited [OF safe, of "sample_engine ''X''" None True "[]" 0] by metis
qed

theorem tenant_imports_only_witness:
  "\<exists>r \<in> set [sample_import]. canonical_digest (el_sha256 sample_lib) (el_float_repr sample_lib) (sample_raw ''a'' ''rule'' ''dr'')
     = Inr (ip_digest r)"
proof -
  have "with_import_registry (Some (list_entries (from_entries (map imported_pack_to_entry [sample_import])))) (sample_engine ''B'')
      = sample_engine ''B''"
    by (simp add: with_import_registry_def sample_engine_def)
  then have l: "load_all sample_lib (with_import_registry (Some (list_entries (from_entries (map imported_pack_to_entry [sample_import])))) (sample_engine ''B''))
      None True = ([], Inr [sample_loaded ''b'' ''ops'' PT_ops ''do'' False, sample_loaded ''a'' ''rule'' PT_rule ''dr'' True])"
    using sample_load_all by (simp only:)
  from tenant_imports_only [OF l, of "sample_loaded ''a'' ''rule'' PT_rule ''dr'' True"]
  show ?thesis by (auto simp: sample_loaded_def)
qed

theorem workload_packs_targeted_witness:
  "\<exists>all. load_all sample_lib (sample_engine ''B'') (Some PT_ops) True = ([], Inr all)
     \<and> [sample_loaded ''b'' ''ops'' PT_ops ''do'' False]
        = filter (\<lambda>p. pm_targets (pk_manifest p) = [] \<or> ''epic'' \<in> set (pm_targets (pk_manifest p))) all"
proof -
  have "load_for_workload sample_lib (sample_engine ''B'') ''epic'' PT_ops
      = ([], Inr [sample_loaded ''b'' ''ops'' PT_ops ''do'' False])"
    by code_simp
  from workload_packs_targeted [OF this] show ?thesis by blast
qed

end
