(* ===== verification/Redaction.thy ===== *)
theory Redaction
  imports Contracts Json_Text
begin

text \<open>
  The default-deny redaction at the API's serialization boundary (\<open>shared/contracts.py\<close>):
  \<open>redact_tree\<close> over the free-form \<open>extra\<close> of a run, \<open>redact_node_tags\<close> over customer tags, and
  \<open>bound_labels\<close> over metric labels. The specification is non-interference: values that agree on
  what is provably the platform's own have the same redaction.

  A value is a finite tree; the guard against a container that contains itself therefore never
  fires, the bound on the depth does.
\<close>

section \<open>The operations\<close>

definition PLATFORM_SAFE_STRUCTURAL_KEYS :: "string list" where
  "PLATFORM_SAFE_STRUCTURAL_KEYS =
    [''summary'', ''drift'', ''cadence'', ''workloads'', ''newFailures'', ''recovered'',
     ''stillFailing'', ''addedNodes'', ''removedNodes'', ''topSpofs'', ''unresolvedMembers'',
     ''surfacedNotes'', ''configured'', ''emittedByStream'', ''emitted'', ''errors'',
     ''nodeCount'', ''classifiedCount'', ''skippedRows'', ''rca'', ''sourcesAvailable'',
     ''sourcesUnavailable'', ''sourcesPartial'', ''packSources'', ''notifications'', ''workload'',
     ''id'', ''module'', ''title'', ''passed'', ''severity'', ''nodeId'', ''blastRadius'',
     ''evidence'', ''packId'', ''packVersion'', ''detail'', ''createdAt'', ''kind'', ''agentName'',
     ''taskType'', ''inputSummary'', ''findings'', ''risks'', ''recommendations'',
     ''sourceReferences'', ''confidence'', ''nextActions'', ''generatedAt'']"

definition PLATFORM_SAFE_TAG_KEYS :: "string list" where
  "PLATFORM_SAFE_TAG_KEYS = []"

definition REDACTED_KEY_PREFIX :: string where
  "REDACTED_KEY_PREFIX = ''redacted_key_''"

definition MAX_REDACT_DEPTH :: nat where
  "MAX_REDACT_DEPTH = 64"

text \<open>The string a key is, for \<open>isinstance(key, str)\<close>.\<close>

fun key_str :: "pyval \<Rightarrow> string option" where
  "key_str (VStr s) = Some s"
| "key_str (VStrEnum s) = Some s"
| "key_str _ = None"

definition key_allowed :: "string list \<Rightarrow> pyval \<Rightarrow> bool" where
  "key_allowed allow key \<longleftrightarrow> (case key_str key of None \<Rightarrow> False | Some s \<Rightarrow> s \<in> set allow)"

definition redact_key :: "pyval \<Rightarrow> nat \<Rightarrow> string list \<Rightarrow> pyval" where
  "redact_key key index allow =
     (if key_allowed allow key then key else VStr (REDACTED_KEY_PREFIX @ show_nat index))"

text \<open>What an element of a set may be after redaction: a list or a dictionary cannot be hashed.\<close>

fun hashable :: "pyval \<Rightarrow> bool" where
  "hashable (VList _) = False"
| "hashable (VDict _) = False"
| "hashable _ = True"

text \<open>\<open>redact_tree\<close>. The keys written to the result are distinct, so each write appends.\<close>

fun redact_tree :: "nat \<Rightarrow> pyval \<Rightarrow> pyval"
  and redact_list :: "nat \<Rightarrow> pyval list \<Rightarrow> pyval list"
  and redact_items :: "nat \<Rightarrow> nat \<Rightarrow> (pyval \<times> pyval) list \<Rightarrow> (pyval \<times> pyval) list" where
  "redact_tree depth v =
     (if depth > MAX_REDACT_DEPTH then VStr REDACTED
      else (case v of
          VEnum e \<Rightarrow> VEnum e
        | VStrEnum e \<Rightarrow> VStrEnum e
        | VNone \<Rightarrow> VNone
        | VBool b \<Rightarrow> VBool b
        | VInt i \<Rightarrow> VInt i
        | VFloat x \<Rightarrow> VFloat x
        | VDict kvs \<Rightarrow> VDict (redact_items depth 0 kvs)
        | VList vs \<Rightarrow> VList (redact_list depth vs)
        | VTuple vs \<Rightarrow> VList (redact_list depth vs)
        | VSet vs \<Rightarrow>
            VSet (dedup_by (\<lambda>x. x) []
                    (map (\<lambda>x. if hashable x then x else VStr REDACTED) (redact_list depth vs)))
        | _ \<Rightarrow> VStr REDACTED))"
| "redact_list depth [] = []"
| "redact_list depth (v # vs) = redact_tree (depth + 1) v # redact_list depth vs"
| "redact_items depth index [] = []"
| "redact_items depth index ((key, item) # kvs) =
     (redact_key key index PLATFORM_SAFE_STRUCTURAL_KEYS,
      if key_allowed PLATFORM_SAFE_STRUCTURAL_KEYS key then redact_tree (depth + 1) item
      else VStr REDACTED)
     # redact_items depth (index + 1) kvs"

declare redact_tree.simps [simp del]

lemma redact_tree_simps [simp]:
  "redact_tree d (VEnum e) = (if d > MAX_REDACT_DEPTH then VStr REDACTED else VEnum e)"
  "redact_tree d (VStrEnum e) = (if d > MAX_REDACT_DEPTH then VStr REDACTED else VStrEnum e)"
  "redact_tree d VNone = (if d > MAX_REDACT_DEPTH then VStr REDACTED else VNone)"
  "redact_tree d (VBool b) = (if d > MAX_REDACT_DEPTH then VStr REDACTED else VBool b)"
  "redact_tree d (VInt i) = (if d > MAX_REDACT_DEPTH then VStr REDACTED else VInt i)"
  "redact_tree d (VFloat x) = (if d > MAX_REDACT_DEPTH then VStr REDACTED else VFloat x)"
  "redact_tree d (VDict kvs) = (if d > MAX_REDACT_DEPTH then VStr REDACTED else VDict (redact_items d 0 kvs))"
  "redact_tree d (VList vs) = (if d > MAX_REDACT_DEPTH then VStr REDACTED else VList (redact_list d vs))"
  "redact_tree d (VTuple vs) = (if d > MAX_REDACT_DEPTH then VStr REDACTED else VList (redact_list d vs))"
  "redact_tree d (VSet vs) = (if d > MAX_REDACT_DEPTH then VStr REDACTED
     else VSet (dedup_by (\<lambda>x. x) [] (map (\<lambda>x. if hashable x then x else VStr REDACTED) (redact_list d vs))))"
  "redact_tree d (VStr t) = VStr REDACTED"
  "redact_tree d (VBytes t) = VStr REDACTED"
  "redact_tree d (VObj t) = VStr REDACTED"
  by (simp_all add: redact_tree.simps)

text \<open>\<open>redact_node_tags\<close>: \<open>redacted[safe_key] = \<dots>\<close> over the tags in their order.\<close>

fun redact_tags :: "nat \<Rightarrow> (string, string) dict \<Rightarrow> (string, string) dict \<Rightarrow> (string, string) dict" where
  "redact_tags index acc [] = acc"
| "redact_tags index acc ((key, v) # tags) =
     (let preserve = key \<in> set PLATFORM_SAFE_TAG_KEYS;
          safe_key = (if preserve then key else REDACTED_KEY_PREFIX @ show_nat index)
      in redact_tags (index + 1) (dict_set safe_key (if preserve then v else REDACTED) acc) tags)"

definition redact_node_tags :: "resource_node \<Rightarrow> resource_node" where
  "redact_node_tags node =
     (if rn_tags node = [] then node else node\<lparr>rn_tags := redact_tags 0 [] (rn_tags node)\<rparr>)"

text \<open>\<open>bound_labels\<close>. \<open>render\<close> stands for \<open>str\<close> of a key that is no string; equal rendered keys
  overwrite each other, as in the dictionary comprehension.\<close>

definition METRIC_LABEL_KEYS :: "string list" where
  "METRIC_LABEL_KEYS = [''module'', ''outcome'']"

definition label_key :: "(pyval \<Rightarrow> string) \<Rightarrow> pyval \<Rightarrow> string" where
  "label_key render k = (case key_str k of Some s \<Rightarrow> s | None \<Rightarrow> render k)"

definition bound_labels :: "unicode_db \<Rightarrow> (pyval \<Rightarrow> string) \<Rightarrow> pyval \<Rightarrow> (string, string) dict" where
  "bound_labels U render raw =
     (case raw of
        VDict kvs \<Rightarrow>
          foldl (\<lambda>d (k, v). dict_set (label_key render k) (redact_value U v) d) []
            (filter (\<lambda>(k, v). label_key render k \<in> set METRIC_LABEL_KEYS) kvs)
      | _ \<Rightarrow> [])"

section \<open>What egresses\<close>

text \<open>A value with nothing in it but the platform's own: no string other than the sentinel, keys from
  the allow list or positional placeholders.\<close>

definition placeholder :: "pyval \<Rightarrow> bool" where
  "placeholder k \<longleftrightarrow> (\<exists>i. k = VStr (REDACTED_KEY_PREFIX @ show_nat i))"

fun public :: "pyval \<Rightarrow> bool" where
  "public (VStr s) = (s = REDACTED)"
| "public (VBytes _) = False"
| "public (VObj _) = False"
| "public (VTuple _) = False"
| "public (VList vs) = (\<forall>v \<in> set vs. public v)"
| "public (VSet vs) = (\<forall>v \<in> set vs. public v)"
| "public (VDict kvs) =
     (\<forall>(k, v) \<in> set kvs. public v \<and> (key_allowed PLATFORM_SAFE_STRUCTURAL_KEYS k \<or> placeholder k \<and> v = VStr REDACTED))"
| "public _ = True"

text \<open>Two values that agree on the platform's own part: free text, bytes and unknown objects may
  differ, and so may a key that is not allowed, with everything under it.\<close>

fun agree :: "pyval \<Rightarrow> pyval \<Rightarrow> bool" and agree_list :: "pyval list \<Rightarrow> pyval list \<Rightarrow> bool"
  and agree_items :: "(pyval \<times> pyval) list \<Rightarrow> (pyval \<times> pyval) list \<Rightarrow> bool" where
  "agree (VDict kvs) w = (case w of VDict kws \<Rightarrow> agree_items kvs kws | _ \<Rightarrow> False)"
| "agree (VList vs) w = (case w of VList ws \<Rightarrow> agree_list vs ws | VTuple ws \<Rightarrow> agree_list vs ws | _ \<Rightarrow> False)"
| "agree (VTuple vs) w = (case w of VList ws \<Rightarrow> agree_list vs ws | VTuple ws \<Rightarrow> agree_list vs ws | _ \<Rightarrow> False)"
| "agree (VSet vs) w = (case w of VSet ws \<Rightarrow> agree_list vs ws | _ \<Rightarrow> False)"
| "agree (VStr _) w = (case w of VStr _ \<Rightarrow> True | VBytes _ \<Rightarrow> True | VObj _ \<Rightarrow> True | _ \<Rightarrow> False)"
| "agree (VBytes _) w = (case w of VStr _ \<Rightarrow> True | VBytes _ \<Rightarrow> True | VObj _ \<Rightarrow> True | _ \<Rightarrow> False)"
| "agree (VObj _) w = (case w of VStr _ \<Rightarrow> True | VBytes _ \<Rightarrow> True | VObj _ \<Rightarrow> True | _ \<Rightarrow> False)"
| "agree v w = (v = w)"
| "agree_list [] ws = (ws = [])"
| "agree_list (v # vs) ws = (case ws of [] \<Rightarrow> False | w # ws' \<Rightarrow> agree v w \<and> agree_list vs ws')"
| "agree_items [] kws = (kws = [])"
| "agree_items ((k, v) # kvs) kws =
     (case kws of [] \<Rightarrow> False
      | (k', w) # kws' \<Rightarrow>
          (if key_allowed PLATFORM_SAFE_STRUCTURAL_KEYS k then k' = k \<and> agree v w
           else \<not> key_allowed PLATFORM_SAFE_STRUCTURAL_KEYS k')
          \<and> agree_items kvs kws')"

lemma redact_agree:
  "agree v w \<Longrightarrow> redact_tree d v = redact_tree d w"
  "agree_list vs ws \<Longrightarrow> redact_list d vs = redact_list d ws"
  "agree_items kvs kws \<Longrightarrow> redact_items d i kvs = redact_items d i kws"
proof (induction v w and vs ws and kvs kws arbitrary: d and d and d i rule: agree_agree_list_agree_items.induct)
qed (auto simp: redact_key_def split: pyval.split_asm list.split_asm if_split_asm prod.split_asm)


lemma redact_public:
  "public (redact_tree d v)"
  "\<forall>x \<in> set (redact_list d vs). public x"
  "\<forall>(k, x) \<in> set (redact_items d i kvs).
     public x \<and> (key_allowed PLATFORM_SAFE_STRUCTURAL_KEYS k \<or> placeholder k \<and> x = VStr REDACTED)"
proof (induction d v and d vs and d i kvs rule: redact_tree_redact_list_redact_items.induct)
  case (1 depth v)
  then show ?case by (cases v) (auto simp: dedup_by_id_set split: if_splits)
next
  case (5 depth index key item kvs)
  then show ?case by (auto simp: redact_key_def placeholder_def)
qed auto

text \<open>Redacting twice is redacting once: the sentinel, the placeholders and what survives are stable.\<close>

lemma placeholder_not_allowed: "\<not> key_allowed PLATFORM_SAFE_STRUCTURAL_KEYS (VStr (REDACTED_KEY_PREFIX @ show_nat i))"
proof -
  have "list_all (\<lambda>k. CHR ''_'' \<notin> set k) PLATFORM_SAFE_STRUCTURAL_KEYS" by code_simp
  then have "\<forall>k \<in> set PLATFORM_SAFE_STRUCTURAL_KEYS. CHR ''_'' \<notin> set k" by (simp only: list_all_iff)
  moreover have "CHR ''_'' \<in> set (REDACTED_KEY_PREFIX @ show_nat i)" by (simp add: REDACTED_KEY_PREFIX_def)
  ultimately show ?thesis by (auto simp: key_allowed_def simp del: set_append)
qed

lemma redact_list_map: "redact_list d vs = map (redact_tree (d + 1)) vs"
  by (induction vs) auto

lemma redact_idem:
  "redact_tree d (redact_tree d v) = redact_tree d v"
  "\<forall>x \<in> set (redact_list d vs). redact_tree (d + 1) x = x"
  "redact_items d i (redact_items d i kvs) = redact_items d i kvs"
proof (induction d v and d vs and d i kvs rule: redact_tree_redact_list_redact_items.induct)
  case (1 d v)
  have list: "redact_list d xs = xs" if "\<forall>x \<in> set xs. redact_tree (d + 1) x = x" for xs
    using that by (simp add: redact_list_map map_idI)
  show ?case
  proof (cases "d > MAX_REDACT_DEPTH")
    case False
    show ?thesis
    proof (cases v)
      case (VSet vs)
      define xs where "xs = dedup_by (\<lambda>x. x) [] (map (\<lambda>x. if hashable x then x else VStr REDACTED) (redact_list d vs))"
      have mem: "hashable x \<and> redact_tree (d + 1) x = x" if "x \<in> set xs" for x
        using that 1 VSet False by (auto simp: xs_def dedup_by_id_set)
      have "map (\<lambda>x. if hashable x then x else VStr REDACTED) (redact_list d xs) = xs"
        using mem list [of xs] by (simp add: map_idI)
      moreover have "distinct xs" using dedup_by_distinct [of "\<lambda>x. x"] by (simp add: xs_def)
      then have "dedup_by (\<lambda>x. x) [] xs = xs" by (intro dedup_by_idem) simp_all
      moreover have "redact_tree d v = VSet xs" using VSet False by (simp add: xs_def)
      ultimately show ?thesis using False by simp
    qed (use False 1 list in auto)
  qed (simp add: redact_tree.simps)
next
  case (5 d i key item kvs)
  then show ?case using placeholder_not_allowed by (auto simp: redact_key_def)
qed auto

section \<open>Properties\<close>

text \<open>C26: redaction does not leak. What a redacted structure shows depends on the platform's own part
  only: two values that differ in free text, bytes, unknown objects, the spelling of keys that are
  not on the allow list, or in anything under such a key, have the same redaction. In the result the
  only plain string is the sentinel, and every key is an allow-listed one or a positional placeholder
  that carries the sentinel.\<close>

theorem redaction_noninterference:
  assumes "agree v w"
  shows "redact_tree 0 v = redact_tree 0 w \<and> public (redact_tree 0 v)"
  using redact_agree(1) [OF assms] redact_public(1) by simp

theorem redaction_noninterference_witness:
  "redact_tree 0 (VDict [(VStr ''rca'', VList [VStr ''Jane Doe'', VInt 3]), (VStr ''123-45-6789'', VInt 7)])
   = redact_tree 0 (VDict [(VStr ''rca'', VTuple [VBytes ''x'', VInt 3]), (VStr ''other'', VNone)])"
proof -
  have "agree (VDict [(VStr ''rca'', VList [VStr ''Jane Doe'', VInt 3]), (VStr ''123-45-6789'', VInt 7)])
      (VDict [(VStr ''rca'', VTuple [VBytes ''x'', VInt 3]), (VStr ''other'', VNone)])"
    by code_simp
  from redaction_noninterference [OF this] show ?thesis by blast
qed

text \<open>Redaction is idempotent, so a response that passes the boundary twice is not changed further.\<close>

theorem redaction_idempotent: "redact_tree 0 (redact_tree 0 v) = redact_tree 0 v"
  by (rule redact_idem(1))

text \<open>metric labels are bounded. Whatever the raw label map is, the labels that egress have keys
  among the sanctioned two, each at most once, and values that are audit-safe or the sentinel.\<close>

theorem labels_bounded:
  "set (map fst (bound_labels U render raw)) \<subseteq> set METRIC_LABEL_KEYS \<and> dict_wf (bound_labels U render raw)
   \<and> list_all (\<lambda>(k, v). v = REDACTED \<or> is_audit_safe U v) (bound_labels U render raw)"
  (is "?P (bound_labels U render raw)")
proof -
  have step: "?P (dict_set (label_key render k) (redact_value U v) d)"
    if "?P d" "label_key render k \<in> set METRIC_LABEL_KEYS" for d k v
  proof -
    have "redact_value U v = REDACTED \<or> is_audit_safe U (redact_value U v)"
      by (cases v) (auto simp: redact_value_def Let_def)
    moreover have "list_all Q (dict_set k x d)" if "list_all Q d" "Q (k, x)" for Q k x and d :: "(string, string) dict"
      using that by (induction d) auto
    ultimately show ?thesis using that by (auto simp: dict_keys_set)
  qed
  have "?P (foldl (\<lambda>d (k, v). dict_set (label_key render k) (redact_value U v) d) d kvs)"
    if "?P d" "\<forall>(k, v) \<in> set kvs. label_key render k \<in> set METRIC_LABEL_KEYS" for d kvs
    using that
  proof (induction kvs arbitrary: d)
    case (Cons kv kvs)
    obtain k v where kv: "kv = (k, v)" by fastforce
    have "?P (dict_set (label_key render k) (redact_value U v) d)" using step Cons.prems kv by auto
    then show ?case using Cons.IH Cons.prems(2) kv by auto
  qed simp
  from this [of "[]" "filter (\<lambda>(k, v). label_key render k \<in> set METRIC_LABEL_KEYS) (case raw of VDict kvs \<Rightarrow> kvs | _ \<Rightarrow> [])"]
  show ?thesis by (cases raw) (auto simp: bound_labels_def)
qed

end
