(* ===== verification/Py_Float.thy ===== *)
theory Py_Float
  imports Py_Values
begin

text \<open>
  Python's \<open>float\<close>: IEEE 754 double precision, round half to even, as exact rationals. The numeric
  rules of the packs are evaluated in it, so that rounding and overflow are those of the program.
\<close>

section \<open>Rounding\<close>

definition round_half_even :: "rat \<Rightarrow> int" where
  "round_half_even x =
     (let f = \<lfloor>x\<rfloor>; d = x - of_int f
      in if d < 1 / 2 then f else if d > 1 / 2 then f + 1 else if even f then f else f + 1)"

text \<open>\<open>i.bit_length()\<close>.\<close>

function int_bits :: "int \<Rightarrow> int" where
  "int_bits i = (if i \<le> 0 then 0 else 1 + int_bits (i div 2))"
  by auto
termination by (relation "measure nat") auto

declare int_bits.simps [simp del]

definition two_powi :: "int \<Rightarrow> rat" where
  "two_powi e = (if e \<ge> 0 then 2 ^ nat e else 1 / 2 ^ nat (- e))"

text \<open>The exponent of the last place of a positive rational: 53 significant bits, at least -1074.\<close>

definition ulp_exponent :: "rat \<Rightarrow> int" where
  "ulp_exponent x =
     (case quotient_of x of
        (p, q) \<Rightarrow>
          (let k = int_bits p - int_bits q - 53
           in max (-1074) (if x / two_powi k \<ge> 2 ^ 53 then k + 1 else k)))"

definition round_pos :: "rat \<Rightarrow> rat" where
  "round_pos x = (let e = ulp_exponent x in of_int (round_half_even (x / two_powi e)) * two_powi e)"

definition FLOAT_LIMIT :: rat where
  "FLOAT_LIMIT = 2 ^ 1024"

lemma FLOAT_LIMIT_code [code]:
  "FLOAT_LIMIT = 179769313486231590772930519078902473361797697894230657273430081157732675805500963132708477322407536021120113879871393357658789768814416622492847430639474124377767893424865485276302219601246094119453082952085005768838150682342462881473913110540827237163350510684586298239947245938479716304835356329624224137216"
  by (simp add: FLOAT_LIMIT_def)

text \<open>The float nearest to a rational; \<open>neg\<close> is the sign of an exact zero.\<close>

definition float_of_rat :: "bool \<Rightarrow> rat \<Rightarrow> pyfloat" where
  "float_of_rat neg r =
     (if r = 0 then (if neg then PNegZero else PFin 0)
      else (let m = round_pos \<bar>r\<bar>
            in if r > 0 then (if m \<ge> FLOAT_LIMIT then PInf else PFin m)
               else if m \<ge> FLOAT_LIMIT then PNegInf else if m = 0 then PNegZero else PFin (- m)))"

section \<open>Operations\<close>

fun float_val :: "pyfloat \<Rightarrow> rat" where
  "float_val (PFin r) = r"
| "float_val _ = 0"

fun float_neg_sign :: "pyfloat \<Rightarrow> bool" where
  "float_neg_sign (PFin r) = (r < 0)"
| "float_neg_sign PNegZero = True"
| "float_neg_sign PNegInf = True"
| "float_neg_sign _ = False"

definition float_inf :: "bool \<Rightarrow> pyfloat" where
  "float_inf neg = (if neg then PNegInf else PInf)"

definition float_isnan :: "pyfloat \<Rightarrow> bool" where
  "float_isnan x \<longleftrightarrow> x = PNaN"

definition float_iszero :: "pyfloat \<Rightarrow> bool" where
  "float_iszero x \<longleftrightarrow> float_isfinite x \<and> float_val x = 0"

fun float_neg :: "pyfloat \<Rightarrow> pyfloat" where
  "float_neg (PFin r) = (if r = 0 then PNegZero else PFin (- r))"
| "float_neg PNegZero = PFin 0"
| "float_neg PInf = PNegInf"
| "float_neg PNegInf = PInf"
| "float_neg PNaN = PNaN"

definition float_add :: "pyfloat \<Rightarrow> pyfloat \<Rightarrow> pyfloat" where
  "float_add a b =
     (if float_isnan a \<or> float_isnan b then PNaN
      else if \<not> float_isfinite a then (if \<not> float_isfinite b \<and> b \<noteq> a then PNaN else a)
      else if \<not> float_isfinite b then b
      else float_of_rat (float_neg_sign a \<and> float_neg_sign b) (float_val a + float_val b))"

definition float_sub :: "pyfloat \<Rightarrow> pyfloat \<Rightarrow> pyfloat" where
  "float_sub a b = float_add a (float_neg b)"

definition float_mul :: "pyfloat \<Rightarrow> pyfloat \<Rightarrow> pyfloat" where
  "float_mul a b =
     (let neg = (float_neg_sign a \<noteq> float_neg_sign b)
      in if float_isnan a \<or> float_isnan b then PNaN
         else if \<not> float_isfinite a \<or> \<not> float_isfinite b
           then (if float_iszero a \<or> float_iszero b then PNaN else float_inf neg)
         else float_of_rat neg (float_val a * float_val b))"

text \<open>\<open>a / b\<close> raises \<open>ZeroDivisionError\<close> for a zero divisor, whatever \<open>a\<close> is.\<close>

definition float_div :: "pyfloat \<Rightarrow> pyfloat \<Rightarrow> py_exc + pyfloat" where
  "float_div a b =
     (let neg = (float_neg_sign a \<noteq> float_neg_sign b)
      in if float_iszero b then Inl ZeroDivisionError
         else if float_isnan a \<or> float_isnan b then Inr PNaN
         else if \<not> float_isfinite a then (if \<not> float_isfinite b then Inr PNaN else Inr (float_inf neg))
         else if \<not> float_isfinite b then Inr (float_of_rat neg 0)
         else Inr (float_of_rat neg (float_val a / float_val b)))"

text \<open>Comparison: \<open>NaN\<close> is unordered, the zeros are equal.\<close>

definition float_lt :: "pyfloat \<Rightarrow> pyfloat \<Rightarrow> bool" where
  "float_lt a b \<longleftrightarrow>
     (if float_isnan a \<or> float_isnan b then False
      else if a = PNegInf then b \<noteq> PNegInf
      else if b = PInf then a \<noteq> PInf
      else if a = PInf \<or> b = PNegInf then False
      else float_val a < float_val b)"

definition float_eq :: "pyfloat \<Rightarrow> pyfloat \<Rightarrow> bool" where
  "float_eq a b \<longleftrightarrow>
     (if float_isnan a \<or> float_isnan b then False
      else if float_isfinite a \<and> float_isfinite b then float_val a = float_val b
      else a = b)"

definition float_le :: "pyfloat \<Rightarrow> pyfloat \<Rightarrow> bool" where
  "float_le a b \<longleftrightarrow> float_lt a b \<or> float_eq a b"

definition float_abs :: "pyfloat \<Rightarrow> pyfloat" where
  "float_abs a = (if float_neg_sign a then float_neg a else a)"

text \<open>\<open>float(i)\<close> of an integer: correctly rounded, \<open>OverflowError\<close> where that is infinite.\<close>

definition float_of_int :: "int \<Rightarrow> py_exc + pyfloat" where
  "float_of_int i =
     (let x = float_of_rat False (of_int i) in if float_isfinite x then Inr x else Inl OverflowError)"

lemma float_lt_finite:
  "float_isfinite a \<Longrightarrow> float_isfinite b \<Longrightarrow> float_lt a b \<longleftrightarrow> float_val a < float_val b"
  by (cases a; cases b) (auto simp: float_lt_def float_isnan_def)

lemma float_le_finite:
  "float_isfinite a \<Longrightarrow> float_isfinite b \<Longrightarrow> float_le a b \<longleftrightarrow> float_val a \<le> float_val b"
  by (cases a; cases b) (auto simp: float_le_def float_lt_def float_eq_def float_isnan_def)

lemma float_of_int_finite: "float_of_int i = Inr x \<Longrightarrow> float_isfinite x"
  by (simp add: float_of_int_def Let_def split: if_splits)

end
