(* ===== verification/Safe_Expr.thy ===== *)
theory Safe_Expr
  imports Py_Float
begin

text \<open>
  The sandboxed boolean expressions of detection packs (\<open>shared/safe_expr.py\<close>): the allow-listed
  syntax tree, the resource bounds, the compiler's checks and the strict evaluator. The parser
  \<open>ast.parse(source, mode="eval")\<close> is a parameter; the tree it returns ranges over every node class,
  the disallowed ones with their children, so that rejection and the bounds are those of the code.
\<close>

section \<open>Syntax trees\<close>

datatype bool_op = BAnd | BOr
datatype unary_op = UNot | UAdd | USub | UInvert
datatype bin_op = OAdd | OSub | OMult | ODiv | OOther string
datatype cmp_op = CLt | CLtE | CGt | CGtE | CEq | CNotEq | COther string
datatype name_ctx = Load | Store | Del

text \<open>A constant carries its value; a node of any other class is its name with its child nodes.\<close>

datatype expr =
    BoolOp bool_op "expr list"
  | UnaryOp unary_op expr
  | BinOp expr bin_op expr
  | Compare expr "cmp_op list" "expr list"
  | Name string name_ctx
  | Constant pyval
  | OtherNode string "expr list"

definition TELEMETRY_EXPR_NAMES :: "string list" where
  "TELEMETRY_EXPR_NAMES =
     [''value'', ''threshold'', ''avg'', ''max'', ''min'', ''count'', ''sum'', ''last'', ''rate'']"

definition MAX_EXPR_LEN :: nat where "MAX_EXPR_LEN = 500"
definition MAX_EXPR_DEPTH :: nat where "MAX_EXPR_DEPTH = 25"
definition MAX_EXPR_NODES :: nat where "MAX_EXPR_NODES = 120"
definition MAX_EXPR_LITERAL :: pyfloat where "MAX_EXPR_LITERAL = float_of_rat False (10 ^ 300)"

text \<open>The nodes \<open>ast.walk\<close> visits below and including a node: operators and contexts are nodes too.\<close>

fun node_count :: "expr \<Rightarrow> nat" where
  "node_count (BoolOp op vs) = 2 + sum_list (map node_count vs)"
| "node_count (UnaryOp op e) = 2 + node_count e"
| "node_count (BinOp l op r) = 2 + node_count l + node_count r"
| "node_count (Compare l ops cs) = 1 + node_count l + length ops + sum_list (map node_count cs)"
| "node_count (Name n c) = 2"
| "node_count (Constant v) = 1"
| "node_count (OtherNode k es) = 1 + sum_list (map node_count es)"

text \<open>\<open>_depth\<close>. An operator or context node has depth 1.\<close>

definition max_list :: "nat list \<Rightarrow> nat" where
  "max_list ns = foldr max ns 0"

fun depth :: "expr \<Rightarrow> nat" where
  "depth (BoolOp op vs) = 1 + max_list (1 # map depth vs)"
| "depth (UnaryOp op e) = 1 + max_list [1, depth e]"
| "depth (BinOp l op r) = 1 + max_list [depth l, 1, depth r]"
| "depth (Compare l ops cs) = 1 + max_list (depth l # map (\<lambda>_. 1) ops @ map depth cs)"
| "depth (Name n c) = 2"
| "depth (Constant v) = 1"
| "depth (OtherNode k es) = 1 + max_list (map depth es)"

section \<open>Compilation\<close>

datatype unsafe_expression =
    EmptyExpression | TooLong | DoesNotParse | TooManyNodes | TooDeep
  | DisallowedOperator | ReadOnlyName | DunderName | UnknownName
  | NonNumericLiteral | LiteralOutOfRange | DisallowedElement

definition dunder :: "string \<Rightarrow> bool" where
  "dunder n \<longleftrightarrow> take 2 n = ''__'' \<or> (length n \<ge> 2 \<and> drop (length n - 2) n = ''__'')"

text \<open>The check of a literal: \<open>bool\<close> is an \<open>int\<close> in Python and excluded first.\<close>

definition validate_literal :: "pyval \<Rightarrow> unsafe_expression option" where
  "validate_literal v =
     (case (case v of VInt i \<Rightarrow> Some (float_of_int i) | VFloat x \<Rightarrow> Some (Inr x) | _ \<Rightarrow> None) of
        None \<Rightarrow> Some NonNumericLiteral
      | Some (Inl _) \<Rightarrow> Some LiteralOutOfRange
      | Some (Inr x) \<Rightarrow>
          if \<not> float_isfinite x then Some LiteralOutOfRange
          else if float_lt MAX_EXPR_LITERAL (float_abs x) then Some LiteralOutOfRange
          else None)"

text \<open>\<open>_validate\<close>: the first violation, in the order of the traversal.\<close>

fun first_violation :: "unsafe_expression option list \<Rightarrow> unsafe_expression option" where
  "first_violation [] = None"
| "first_violation (None # vs) = first_violation vs"
| "first_violation (Some x # vs) = Some x"

definition allowed_unary :: "unary_op \<Rightarrow> bool" where
  "allowed_unary op \<longleftrightarrow> op \<in> set [UNot, UAdd, USub]"

definition allowed_bin :: "bin_op \<Rightarrow> bool" where
  "allowed_bin op \<longleftrightarrow> op \<in> set [OAdd, OSub, OMult, ODiv]"

definition allowed_cmp :: "cmp_op \<Rightarrow> bool" where
  "allowed_cmp op \<longleftrightarrow> op \<in> set [CLt, CLtE, CGt, CGtE, CEq, CNotEq]"

fun validate :: "string list \<Rightarrow> expr \<Rightarrow> unsafe_expression option" where
  "validate names (BoolOp op vs) = first_violation (map (validate names) vs)"
| "validate names (UnaryOp op e) = (if \<not> allowed_unary op then Some DisallowedOperator else validate names e)"
| "validate names (BinOp l op r) =
     (if \<not> allowed_bin op then Some DisallowedOperator
      else first_violation [validate names l, validate names r])"
| "validate names (Compare l ops cs) =
     (if list_ex (\<lambda>op. \<not> allowed_cmp op) ops then Some DisallowedOperator
      else first_violation (validate names l # map (validate names) cs))"
| "validate names (Name n ctx) =
     (if ctx \<noteq> Load then Some ReadOnlyName
      else if dunder n then Some DunderName
      else if n \<notin> set names then Some UnknownName
      else None)"
| "validate names (Constant v) = validate_literal v"
| "validate names (OtherNode k es) = Some DisallowedElement"

record safe_expression =
  se_source :: string
  se_allowed_names :: "string list"
  se_tree :: expr

text \<open>\<open>compile_expression\<close>. The walk counts the enclosing \<open>Expression\<close> node too.\<close>

definition compile_expression ::
    "(string \<Rightarrow> expr option) \<Rightarrow> string list \<Rightarrow> string \<Rightarrow> unsafe_expression + safe_expression" where
  "compile_expression parse allowed_names source =
     (if py_strip source = [] then Inl EmptyExpression
      else if length source > MAX_EXPR_LEN then Inl TooLong
      else (case parse source of
              None \<Rightarrow> Inl DoesNotParse
            | Some tree \<Rightarrow>
                if 1 + node_count tree > MAX_EXPR_NODES then Inl TooManyNodes
                else if depth tree > MAX_EXPR_DEPTH then Inl TooDeep
                else (case validate allowed_names tree of
                        Some v \<Rightarrow> Inl v
                      | None \<Rightarrow> Inr \<lparr>se_source = source, se_allowed_names = allowed_names, se_tree = tree\<rparr>)))"

definition validate_expression ::
    "(string \<Rightarrow> expr option) \<Rightarrow> string list \<Rightarrow> string \<Rightarrow> unsafe_expression list" where
  "validate_expression parse allowed_names source =
     (case compile_expression parse allowed_names source of Inl v \<Rightarrow> [v] | Inr _ \<Rightarrow> [])"

section \<open>Evaluation\<close>

datatype ev = EFloat pyfloat | EBool bool

definition truthy_ev :: "ev \<Rightarrow> bool" where
  "truthy_ev r = (case r of EBool b \<Rightarrow> b | EFloat x \<Rightarrow> \<not> float_iszero x)"

definition as_number :: "ev \<Rightarrow> pyfloat" where
  "as_number r = (case r of EBool b \<Rightarrow> PFin (if b then 1 else 0) | EFloat x \<Rightarrow> x)"

definition finite_or_none :: "pyfloat \<Rightarrow> ev option" where
  "finite_or_none x = (if float_isfinite x then Some (EFloat x) else None)"

fun binop :: "bin_op \<Rightarrow> pyfloat \<Rightarrow> pyfloat \<Rightarrow> py_exc + pyfloat" where
  "binop OAdd a b = Inr (float_add a b)"
| "binop OSub a b = Inr (float_sub a b)"
| "binop OMult a b = Inr (float_mul a b)"
| "binop _ a b = float_div a b"

fun compare_ev :: "cmp_op \<Rightarrow> pyfloat \<Rightarrow> pyfloat \<Rightarrow> bool" where
  "compare_ev CLt a b = float_lt a b"
| "compare_ev CLtE a b = float_le a b"
| "compare_ev CGt a b = float_lt b a"
| "compare_ev CGtE a b = float_le b a"
| "compare_ev CEq a b = float_eq a b"
| "compare_ev _ a b = (\<not> float_eq a b)"

text \<open>The pairwise loop of a chained comparison.\<close>

fun compare_chain :: "cmp_op list \<Rightarrow> pyfloat list \<Rightarrow> bool" where
  "compare_chain (op # ops) (a # b # vs) = (if \<not> compare_ev op a b then False else compare_chain ops (b # vs))"
| "compare_chain _ _ = True"

type_synonym env = "(string, pyval) dict"

text \<open>\<open>_eval_node\<close>: \<open>Inr None\<close> is undefined, \<open>Inl\<close> an exception \<open>evaluate\<close> catches. \<open>eval_all\<close>
  evaluates a list of operands, all of them, before any is looked at.\<close>

fun eval_name :: "env \<Rightarrow> string \<Rightarrow> py_exc + ev option" where
  "eval_name env n =
     (case dict_get env n of
        Some (VInt i) \<Rightarrow> rbind (float_of_int i) (\<lambda>x. Inr (finite_or_none x))
      | Some (VFloat x) \<Rightarrow> Inr (finite_or_none x)
      | _ \<Rightarrow> Inr None)"

fun eval_literal :: "pyval \<Rightarrow> py_exc + ev option" where
  "eval_literal (VInt i) = rbind (float_of_int i) (\<lambda>x. Inr (Some (EFloat x)))"
| "eval_literal (VFloat x) = Inr (Some (EFloat x))"
| "eval_literal _ = Inl ValueError"

fun eval_node :: "env \<Rightarrow> expr \<Rightarrow> py_exc + ev option" where
  "eval_node env (BoolOp op vs) =
     rbind (rseq (map (eval_node env) vs))
       (\<lambda>results. Inr (if list_ex (\<lambda>r. r = None) results then None
                      else Some (EBool (case op of
                             BAnd \<Rightarrow> list_all (\<lambda>r. truthy_ev (the r)) results
                           | BOr \<Rightarrow> list_ex (\<lambda>r. truthy_ev (the r)) results))))"
| "eval_node env (UnaryOp op e) =
     rbind (eval_node env e)
       (\<lambda>operand. Inr (case operand of
          None \<Rightarrow> None
        | Some r \<Rightarrow>
            (if op = UNot then Some (EBool (\<not> truthy_ev r))
             else if op = USub then finite_or_none (float_neg (as_number r))
             else finite_or_none (as_number r))))"
| "eval_node env (BinOp l op r) =
     rbind (eval_node env l) (\<lambda>left. rbind (eval_node env r) (\<lambda>right.
       (case (left, right) of
          (Some a, Some b) \<Rightarrow> rbind (binop op (as_number a) (as_number b)) (\<lambda>x. Inr (finite_or_none x))
        | _ \<Rightarrow> Inr None)))"
| "eval_node env (Compare l ops cs) =
     rbind (eval_node env l) (\<lambda>first. rbind (rseq (map (eval_node env) cs)) (\<lambda>rest.
       Inr (if list_ex (\<lambda>r. r = None) (first # rest) then None
            else Some (EBool (compare_chain ops (map (\<lambda>r. as_number (the r)) (first # rest)))))))"
| "eval_node env (Name n ctx) = eval_name env n"
| "eval_node env (Constant v) = eval_literal v"
| "eval_node env (OtherNode k es) = Inl ValueError"

text \<open>\<open>SafeExpression.evaluate\<close>.\<close>

definition evaluate :: "safe_expression \<Rightarrow> env \<Rightarrow> bool option" where
  "evaluate se env =
     (case eval_node env (se_tree se) of
        Inl _ \<Rightarrow> None
      | Inr None \<Rightarrow> None
      | Inr (Some r) \<Rightarrow> Some (truthy_ev r))"

section \<open>What a compiled expression is\<close>

text \<open>The grammar of the sandbox, and the names an expression reads.\<close>

inductive safe :: "string list \<Rightarrow> expr \<Rightarrow> bool" for names where
  safe_bool: "(\<And>e. e \<in> set vs \<Longrightarrow> safe names e) \<Longrightarrow> safe names (BoolOp op vs)"
| safe_unary: "op \<in> {UNot, UAdd, USub} \<Longrightarrow> safe names e \<Longrightarrow> safe names (UnaryOp op e)"
| safe_bin: "op \<in> {OAdd, OSub, OMult, ODiv} \<Longrightarrow> safe names l \<Longrightarrow> safe names r \<Longrightarrow> safe names (BinOp l op r)"
| safe_compare: "set ops \<subseteq> {CLt, CLtE, CGt, CGtE, CEq, CNotEq} \<Longrightarrow> safe names l \<Longrightarrow>
    (\<And>e. e \<in> set cs \<Longrightarrow> safe names e) \<Longrightarrow> safe names (Compare l ops cs)"
| safe_name: "n \<in> set names \<Longrightarrow> \<not> dunder n \<Longrightarrow> safe names (Name n Load)"
| safe_int: "float_of_int i = Inr x \<Longrightarrow> \<not> float_lt MAX_EXPR_LITERAL (float_abs x) \<Longrightarrow>
    safe names (Constant (VInt i))"
| safe_float: "float_isfinite x \<Longrightarrow> \<not> float_lt MAX_EXPR_LITERAL (float_abs x) \<Longrightarrow>
    safe names (Constant (VFloat x))"

inductive_cases safe_otherE: "safe names (OtherNode k es)"
inductive_cases safe_constantE: "safe names (Constant v)"
inductive_simps safe_simps [simp]:
  "safe names (BoolOp op vs)" "safe names (UnaryOp op e)" "safe names (BinOp l op r)"
  "safe names (Compare l ops cs)" "safe names (Name n ctx)" "safe names (OtherNode k es)"

fun names_of :: "expr \<Rightarrow> string set" where
  "names_of (BoolOp op vs) = (\<Union>e \<in> set vs. names_of e)"
| "names_of (UnaryOp op e) = names_of e"
| "names_of (BinOp l op r) = names_of l \<union> names_of r"
| "names_of (Compare l ops cs) = names_of l \<union> (\<Union>e \<in> set cs. names_of e)"
| "names_of (Name n ctx) = {n}"
| "names_of (Constant v) = {}"
| "names_of (OtherNode k es) = (\<Union>e \<in> set es. names_of e)"

lemma first_violation_None: "first_violation vs = None \<longleftrightarrow> (\<forall>v \<in> set vs. v = None)"
  by (induction vs rule: first_violation.induct) auto

lemma validate_literal_safe: "validate_literal v = None \<longleftrightarrow> safe names (Constant v)"
proof
  show "validate_literal v = None \<Longrightarrow> safe names (Constant v)"
    by (cases v) (auto simp: validate_literal_def float_of_int_def Let_def intro: safe_int safe_float
        split: sum.splits if_splits)
  show "safe names (Constant v) \<Longrightarrow> validate_literal v = None"
    by (erule safe_constantE) (auto simp: validate_literal_def float_of_int_finite)
qed

lemma validate_safe: "validate names e = None \<longleftrightarrow> safe names e"
  by (induction e)
    (auto simp: first_violation_None allowed_unary_def allowed_bin_def allowed_cmp_def list_ex_iff
      validate_literal_safe)

section \<open>Evaluation is strict\<close>

fun subexprs :: "expr \<Rightarrow> expr list" where
  "subexprs (BoolOp op vs) = BoolOp op vs # concat (map subexprs vs)"
| "subexprs (UnaryOp op e) = UnaryOp op e # subexprs e"
| "subexprs (BinOp l op r) = BinOp l op r # subexprs l @ subexprs r"
| "subexprs (Compare l ops cs) = Compare l ops cs # subexprs l @ concat (map subexprs cs)"
| "subexprs (OtherNode k es) = OtherNode k es # concat (map subexprs es)"
| "subexprs e = [e]"

definition finite_ev :: "ev \<Rightarrow> bool" where
  "finite_ev r = (case r of EBool _ \<Rightarrow> True | EFloat x \<Rightarrow> float_isfinite x)"

definition defined :: "env \<Rightarrow> expr \<Rightarrow> bool" where
  "defined env e \<longleftrightarrow> (case eval_node env e of Inr (Some r) \<Rightarrow> finite_ev r | _ \<Rightarrow> False)"

lemma finite_or_none_Some: "finite_or_none x = Some r \<longleftrightarrow> float_isfinite x \<and> r = EFloat x"
  by (auto simp: finite_or_none_def)

lemma eval_name_finite: "eval_name env n = Inr (Some r) \<Longrightarrow> finite_ev r"
  by (auto simp: finite_or_none_Some finite_ev_def rbind_Inr_iff split: option.splits pyval.splits)

lemma rseq_all_Some:
  "rseq (map f xs) = Inr rs \<Longrightarrow> \<not> list_ex (\<lambda>r. r = None) rs \<Longrightarrow> x \<in> set xs \<Longrightarrow> \<exists>r. f x = Inr (Some r)"
  unfolding rseq_Inr_iff
  by (induction xs arbitrary: rs) (auto simp: Cons_eq_map_conv)

lemma eval_BinOp_Some [simp]:
  "eval_node env (BinOp l op r) = Inr (Some v) \<longleftrightarrow>
     (\<exists>a b x. eval_node env l = Inr (Some a) \<and> eval_node env r = Inr (Some b)
        \<and> binop op (as_number a) (as_number b) = Inr x \<and> float_isfinite x \<and> v = EFloat x)"
proof (cases "eval_node env l")
  case (Inr a)
  show ?thesis
  proof (cases "eval_node env r")
    case (Inr b)
    with \<open>eval_node env l = Inr a\<close> show ?thesis
      by (cases a; cases b) (auto simp: rbind_Inr_iff finite_or_none_Some)
  qed (use Inr in simp)
qed simp

declare eval_node.simps(3) [simp del]

lemma eval_node_Some_finite:
  "safe names e \<Longrightarrow> eval_node env e = Inr (Some r) \<Longrightarrow> finite_ev r"
proof (induction e arbitrary: r)
  case (Name n ctx)
  then show ?case using eval_name_finite by simp
next
  case (Constant v)
  from Constant.prems(1) show ?case
    by (rule safe_constantE) (use Constant.prems(2) in \<open>auto simp: finite_ev_def rbind_Inr_iff float_of_int_finite\<close>)
qed (auto simp: rbind_Inr_iff finite_or_none_Some finite_ev_def split: option.splits if_splits bool_op.splits)

lemma eval_node_strict:
  "safe names e \<Longrightarrow> eval_node env e = Inr (Some r) \<Longrightarrow> x \<in> set (subexprs e) \<Longrightarrow> \<exists>q. eval_node env x = Inr (Some q)"
proof (induction e arbitrary: r x)
  case (BoolOp op vs)
  show ?case
  proof (cases "x = BoolOp op vs")
    case False
    then obtain v where v: "v \<in> set vs" "x \<in> set (subexprs v)" using BoolOp.prems(3) by auto
    obtain rs where "rseq (map (eval_node env) vs) = Inr rs" "\<not> list_ex (\<lambda>r. r = None) rs"
      using BoolOp.prems(2) by (auto simp: rbind_Inr_iff split: if_splits)
    then show ?thesis using BoolOp.IH [OF v(1) _ _ v(2)] BoolOp.prems(1) v(1) rseq_all_Some by fastforce
  qed (use BoolOp in simp)
next
  case (UnaryOp op e)
  then show ?case by (auto simp: rbind_Inr_iff split: option.splits)
next
  case (BinOp l op q)
  then show ?case by (cases "x = BinOp l op q") auto
next
  case (Compare l ops cs)
  show ?case
  proof (cases "x = Compare l ops cs")
    case False
    obtain q rs where l: "eval_node env l = Inr (Some q)" and cs: "rseq (map (eval_node env) cs) = Inr rs"
        "\<not> list_ex (\<lambda>r. r = None) rs"
      using Compare.prems(2) by (auto simp: rbind_Inr_iff split: if_splits)
    show ?thesis
    proof (cases "x \<in> set (subexprs l)")
      case True
      then show ?thesis using Compare.IH(1) [OF _ l] Compare.prems(1) by simp
    next
      case not_l: False
      then obtain v where v: "v \<in> set cs" "x \<in> set (subexprs v)" using Compare.prems(3) False by auto
      then show ?thesis using Compare.IH(2) [OF v(1) _ _ v(2)] Compare.prems(1) cs rseq_all_Some by fastforce
    qed
  qed (use Compare in simp)
qed auto

lemma safe_subexprs: "safe names e \<Longrightarrow> x \<in> set (subexprs e) \<Longrightarrow> safe names x"
  by (induction e) auto

lemma subexprs_names: "n \<in> names_of e \<Longrightarrow> \<exists>ctx. Name n ctx \<in> set (subexprs e)"
  by (induction e) fastforce+

lemma eval_node_cong:
  "(\<And>n. n \<in> names_of e \<Longrightarrow> dict_get env n = dict_get env' n) \<Longrightarrow> eval_node env e = eval_node env' e"
proof (induction e)
  case (BoolOp op vs)
  then have "map (eval_node env) vs = map (eval_node env') vs" by (intro map_cong) auto
  then show ?case by (simp only: eval_node.simps)
next
  case (Compare l ops cs)
  then have "map (eval_node env) cs = map (eval_node env') cs" "eval_node env l = eval_node env' l"
    by (auto intro!: map_cong)
  then show ?case by (simp only: eval_node.simps)
qed (auto simp: eval_node.simps(3))

lemma compiled_safe: "compile_expression parse names source = Inr se \<Longrightarrow> safe names (se_tree se)"
  by (auto simp: compile_expression_def validate_safe [symmetric] split: if_splits option.splits)

text \<open>The allow-list is wider than the grammar the module documents as exactly what is allowed, where an operand
  of an arithmetic operator or of a comparison is arithmetic: \<open>(avg > max) + avg\<close> and \<open>(not avg) < max\<close>
  compile, and the second evaluates, with a truth value as 1 or 0.\<close>

lemma comparison_as_operand_compiles:
  "let add = BinOp (Compare (Name ''avg'' Load) [CGt] [Name ''max'' Load]) OAdd (Name ''avg'' Load)
   in compile_expression (\<lambda>_. Some add) TELEMETRY_EXPR_NAMES ''e''
        = Inr \<lparr>se_source = ''e'', se_allowed_names = TELEMETRY_EXPR_NAMES, se_tree = add\<rparr>"
  "let less = Compare (UnaryOp UNot (Name ''avg'' Load)) [CLt] [Name ''max'' Load]
   in compile_expression (\<lambda>_. Some less) TELEMETRY_EXPR_NAMES ''e''
        = Inr \<lparr>se_source = ''e'', se_allowed_names = TELEMETRY_EXPR_NAMES, se_tree = less\<rparr>
      \<and> evaluate \<lparr>se_source = ''e'', se_allowed_names = TELEMETRY_EXPR_NAMES, se_tree = less\<rparr>
          [(''avg'', VFloat (PFin 2)), (''max'', VFloat (PFin 1))] = Some True"
  by code_simp+

section \<open>Properties\<close>

text \<open>the sandbox is exactly its grammar within its bounds. A source compiles exactly when it is not
  blank, has at most 500 characters, parses to a tree of at most 120 nodes and depth at most 25, and
  that tree is in the allow-listed grammar over the allowed names; the compiled expression is that
  tree.\<close>

theorem compile_exact:
  "compile_expression parse names source = Inr se \<longleftrightarrow>
     (\<exists>tree. parse source = Some tree \<and> (\<exists>c \<in> set source. \<not> py_isspace c) \<and> length source \<le> 500
        \<and> 1 + node_count tree \<le> 120 \<and> depth tree \<le> 25 \<and> safe names tree
        \<and> se = \<lparr>se_source = source, se_allowed_names = names, se_tree = tree\<rparr>)"
proof -
  have blank: "py_strip source = [] \<longleftrightarrow> \<not> (\<exists>c \<in> set source. \<not> py_isspace c)"
    by (simp add: py_strip_eq_Nil_iff)
  show ?thesis
    unfolding compile_expression_def blank
    by (auto simp: MAX_EXPR_LEN_def MAX_EXPR_NODES_def MAX_EXPR_DEPTH_def validate_safe [symmetric]
        split: option.splits)
qed

text \<open>C27: no detection on undefined input. If a compiled expression evaluates to a result, then every
  sub-expression of it, evaluated on its own, is defined and finite: every name is bound to a finite
  number, no division by zero and no overflow occurs anywhere, not even in a branch that could not
  change the result. And the result depends on the allowed names only.\<close>

theorem evaluate_strict:
  assumes "compile_expression parse names source = Inr se" and "evaluate se env = Some b"
  shows "list_all (defined env) (subexprs (se_tree se))
    \<and> names_of (se_tree se) \<subseteq> set names
    \<and> (\<forall>env'. (\<forall>n \<in> set names. dict_get env' n = dict_get env n) \<longrightarrow> evaluate se env' = Some b)"
proof -
  from assms(1) have safe: "safe names (se_tree se)" by (rule compiled_safe)
  obtain r where r: "eval_node env (se_tree se) = Inr (Some r)"
    using assms(2) by (auto simp: evaluate_def split: sum.splits option.splits)
  have names: "names_of (se_tree se) \<subseteq> set names"
    using subexprs_names safe_subexprs [OF safe] by (fastforce dest: safe_subexprs [OF safe])
  have "defined env x" if "x \<in> set (subexprs (se_tree se))" for x
    using eval_node_strict [OF safe r that] eval_node_Some_finite [OF safe_subexprs [OF safe that]]
    by (auto simp: defined_def)
  moreover have "evaluate se env' = Some b" if "\<forall>n \<in> set names. dict_get env' n = dict_get env n" for env'
  proof -
    have "eval_node env' (se_tree se) = eval_node env (se_tree se)"
      using that names by (intro eval_node_cong) auto
    then show ?thesis using assms(2) by (simp add: evaluate_def)
  qed
  ultimately show ?thesis using names by (simp add: list_all_iff)
qed

text \<open>A pack's rule \<open>avg > threshold and max < 900\<close>.\<close>

definition sample_tree :: expr where
  "sample_tree = BoolOp BAnd [Compare (Name ''avg'' Load) [CGt] [Name ''threshold'' Load],
     Compare (Name ''max'' Load) [CLt] [Name ''avg'' Load]]"

definition sample_parse :: "string \<Rightarrow> expr option" where
  "sample_parse s = (if s = ''avg > threshold and max < avg'' then Some sample_tree else None)"

definition sample_env :: env where
  "sample_env = [(''avg'', VFloat (PFin 5)), (''max'', VFloat (PFin 2)), (''threshold'', VFloat (PFin 3))]"

theorem evaluate_strict_witness:
  "\<exists>se. compile_expression sample_parse TELEMETRY_EXPR_NAMES ''avg > threshold and max < avg'' = Inr se
     \<and> evaluate se sample_env = Some True
     \<and> list_all (defined sample_env) (subexprs (se_tree se))"
proof -
  let ?src = "''avg > threshold and max < avg''"
  let ?se = "\<lparr>se_source = ?src, se_allowed_names = TELEMETRY_EXPR_NAMES, se_tree = sample_tree\<rparr>"
  have c: "compile_expression sample_parse TELEMETRY_EXPR_NAMES ?src = Inr ?se" by code_simp
  have e: "evaluate ?se sample_env = Some True" by code_simp
  from evaluate_strict [OF c e] c e show ?thesis by blast
qed

end
