(* ===== verification/State_Azure.thy ===== *)
theory State_Azure
  imports State_Local
begin

text \<open>
  \<open>AzureStateStore\<close> of \<open>shared/state.py\<close>: a table entity per workload, the manifest, points at write-once
  blobs; a commit writes blobs under fresh names and then flips the manifest with an ETag-conditional
  write, retrying when another client flipped it first.

  The two services are data: the entities of a table by their keys, the blobs of the container by their
  names (one dictionary per kind segment of the name), each holding the model that its JSON encodes.
  \<open>create_entity\<close> and \<open>upload_blob(overwrite=False)\<close> refuse a key that exists, \<open>update_entity\<close> under
  \<open>IfNotModified\<close> refuses an entity whose ETag is not the one presented, \<open>submit_transaction\<close> does all
  of its operations or none. \<open>uuid n\<close> is the hex text of the \<open>n\<close>-th \<open>uuid4()\<close> drawn and \<open>tags n\<close> the
  \<open>n\<close>-th ETag the service issues; the proofs assume that neither repeats. What other clients of the
  service do between the read and the conditional write of an attempt is the argument \<open>others\<close>.
  Timestamps are written and never read; they are left out.
\<close>

section \<open>The tables and the container\<close>

record manifest =
  mf_workload :: string
  mf_estate_blob :: string
  mf_graph_blob :: string
  mf_findings_blob :: string
  mf_advisories_blob :: string
  mf_version :: nat

record snapshot_payload =
  sp_findings :: "finding list"
  sp_nodes :: "string list"
  sp_version :: nat

record snapshot_entity =
  se_snapshot_id :: string
  se_blob :: string
  se_version :: nat
  se_complete :: bool

record azure_state =
  az_estates :: "(string, resource_node list) dict"
  az_graphs :: "(string, workload_graph) dict"
  az_findings :: "(string, finding list) dict"
  az_advisories :: "(string, rca_advisory list) dict"
  az_payloads :: "(string, snapshot_payload) dict"
  az_index :: "(string, manifest \<times> string) dict"
  az_snapshots :: "(string \<times> string, snapshot_entity) dict"
  az_assignments :: "(string \<times> string, pack_assignment) dict"
  az_imports :: "(string \<times> string, imported_pack) dict"
  az_config :: "(string, tenant_module_config) dict"
  az_audit :: "(string, audit_event) dict"
  az_audit_head :: "((string \<times> nat) \<times> string) option"
  az_uuids :: nat
  az_tags :: nat

definition empty_azure :: azure_state where
  "empty_azure = \<lparr>az_estates = [], az_graphs = [], az_findings = [], az_advisories = [], az_payloads = [],
     az_index = [], az_snapshots = [], az_assignments = [], az_imports = [], az_config = [], az_audit = [],
     az_audit_head = None, az_uuids = 0, az_tags = 0\<rparr>"

definition MAX_COMMIT_RETRIES :: nat where
  "MAX_COMMIT_RETRIES = 8"

definition encode_storage_key :: "string \<Rightarrow> string" where
  "encode_storage_key v = bytes_hex (utf8_encode v)"

text \<open>A call that may raise; what it did to the services before it raised stays.\<close>

type_synonym 'a az = "azure_state \<Rightarrow> (state_exc + 'a) \<times> azure_state"

definition areturn :: "'a \<Rightarrow> 'a az" where
  "areturn x s = (Inr x, s)"

definition abind :: "'a az \<Rightarrow> ('a \<Rightarrow> 'b az) \<Rightarrow> 'b az" where
  "abind m f s = (case m s of (Inl e, s') \<Rightarrow> (Inl e, s') | (Inr x, s') \<Rightarrow> f x s')"

section \<open>Reads through the manifest\<close>

definition manifest_with_etag :: "azure_state \<Rightarrow> string \<Rightarrow> (manifest \<times> string) option" where
  "manifest_with_etag s w = dict_get (az_index s) (encode_storage_key w)"

definition manifest_of :: "azure_state \<Rightarrow> string \<Rightarrow> manifest option" where
  "manifest_of s w = map_option fst (manifest_with_etag s w)"

text \<open>The blob a manifest points at: none without a manifest, with an empty pointer, or when it is gone.\<close>

definition component_blob :: "(string, 'b) dict \<Rightarrow> (manifest \<Rightarrow> string) \<Rightarrow> manifest option \<Rightarrow> 'b option" where
  "component_blob blobs ptr m =
     (case m of None \<Rightarrow> None | Some m \<Rightarrow> if ptr m = [] then None else dict_get blobs (ptr m))"

definition estate_of :: "azure_state \<Rightarrow> manifest option \<Rightarrow> resource_node list" where
  "estate_of s m = (case component_blob (az_estates s) mf_estate_blob m of None \<Rightarrow> [] | Some ns \<Rightarrow> ns)"

definition graph_of :: "azure_state \<Rightarrow> manifest option \<Rightarrow> workload_graph option" where
  "graph_of s m = component_blob (az_graphs s) mf_graph_blob m"

definition findings_of :: "azure_state \<Rightarrow> manifest option \<Rightarrow> string option \<Rightarrow> finding_error + finding list" where
  "findings_of s m modl =
     (case component_blob (az_findings s) mf_findings_blob m of
        None \<Rightarrow> Inr []
      | Some raw \<Rightarrow> rbind (rseq (map enforce_provenance raw)) (\<lambda>fs.
          Inr (sort_key (\<lambda>f. (fd_module f, fd_id f))
            (case modl of None \<Rightarrow> fs | Some md \<Rightarrow> filter (\<lambda>f. fd_module f = md) fs))))"

definition advisories_of :: "azure_state \<Rightarrow> manifest option \<Rightarrow> rca_advisory list" where
  "advisories_of s m =
     (case component_blob (az_advisories s) mf_advisories_blob m of
        None \<Rightarrow> [] | Some as \<Rightarrow> sort_key ra_index as)"

definition azure_list_workloads :: "azure_state \<Rightarrow> string list" where
  "azure_list_workloads s = sort (remdups (map (\<lambda>(_, m, _). mf_workload m) (az_index s)))"

definition azure_get_estate :: "azure_state \<Rightarrow> string \<Rightarrow> resource_node list" where
  "azure_get_estate s w = estate_of s (manifest_of s w)"

definition azure_get_graph :: "azure_state \<Rightarrow> string \<Rightarrow> workload_graph option" where
  "azure_get_graph s w = graph_of s (manifest_of s w)"

definition azure_get_findings :: "azure_state \<Rightarrow> string \<Rightarrow> string option \<Rightarrow> finding_error + finding list" where
  "azure_get_findings s w modl = findings_of s (manifest_of s w) modl"

definition azure_get_rca_advisories :: "azure_state \<Rightarrow> string \<Rightarrow> rca_advisory list" where
  "azure_get_rca_advisories s w = advisories_of s (manifest_of s w)"

text \<open>\<open>_latest_snapshot\<close>: the complete entity of the partition with the greatest row key; \<open>max\<close> keeps
  the first of equal elements.\<close>

definition snapshot_rows :: "azure_state \<Rightarrow> string \<Rightarrow> (string \<times> snapshot_entity) list" where
  "snapshot_rows s w =
     map (\<lambda>((_, rk), e). (rk, e)) (filter (\<lambda>((p, _), _). p = encode_storage_key w) (az_snapshots s))"

fun max_row :: "string \<times> 'e \<Rightarrow> (string \<times> 'e) list \<Rightarrow> string \<times> 'e" where
  "max_row best [] = best"
| "max_row best (x # xs) = max_row (if fst best < fst x then x else best) xs"

definition azure_latest_snapshot :: "azure_state \<Rightarrow> string \<Rightarrow> snapshot_payload option" where
  "azure_latest_snapshot s w =
     (case filter (\<lambda>(_, e). se_complete e) (snapshot_rows s w) of
        [] \<Rightarrow> None
      | x # xs \<Rightarrow> dict_get (az_payloads s) (se_blob (snd (max_row x xs))))"

definition azure_get_previous_findings :: "azure_state \<Rightarrow> string \<Rightarrow> finding_error + finding list" where
  "azure_get_previous_findings s w =
     (case azure_latest_snapshot s w of None \<Rightarrow> Inr [] | Some p \<Rightarrow> rseq (map enforce_provenance (sp_findings p)))"

definition azure_get_previous_node_ids :: "azure_state \<Rightarrow> string \<Rightarrow> string list" where
  "azure_get_previous_node_ids s w = (case azure_latest_snapshot s w of None \<Rightarrow> [] | Some p \<Rightarrow> sp_nodes p)"

section \<open>The commit\<close>

text \<open>\<open>_merge_findings\<close>: a dictionary by module and id, the new findings win.\<close>

definition merge_findings :: "finding list \<Rightarrow> finding list \<Rightarrow> finding list" where
  "merge_findings prior new =
     (let by_key = foldl (\<lambda>d f. dict_set (fd_module f, fd_id f) f d) [] prior
      in map snd (foldl (\<lambda>d f. dict_set (fd_module f, fd_id f) f d) by_key new))"

text \<open>\<open>_write_blob\<close>, by kind.\<close>

definition write_estate_blob :: "string \<Rightarrow> resource_node list \<Rightarrow> unit az" where
  "write_estate_blob n x s =
     (if dict_get (az_estates s) n \<noteq> None then (Inl ResourceExists, s)
      else (Inr (), s\<lparr>az_estates := dict_set n x (az_estates s)\<rparr>))"

definition write_graph_blob :: "string \<Rightarrow> workload_graph \<Rightarrow> unit az" where
  "write_graph_blob n x s =
     (if dict_get (az_graphs s) n \<noteq> None then (Inl ResourceExists, s)
      else (Inr (), s\<lparr>az_graphs := dict_set n x (az_graphs s)\<rparr>))"

definition write_findings_blob :: "string \<Rightarrow> finding list \<Rightarrow> unit az" where
  "write_findings_blob n x s =
     (if dict_get (az_findings s) n \<noteq> None then (Inl ResourceExists, s)
      else (Inr (), s\<lparr>az_findings := dict_set n x (az_findings s)\<rparr>))"

definition write_advisories_blob :: "string \<Rightarrow> rca_advisory list \<Rightarrow> unit az" where
  "write_advisories_blob n x s =
     (if dict_get (az_advisories s) n \<noteq> None then (Inl ResourceExists, s)
      else (Inr (), s\<lparr>az_advisories := dict_set n x (az_advisories s)\<rparr>))"

definition write_payload_blob :: "string \<Rightarrow> snapshot_payload \<Rightarrow> unit az" where
  "write_payload_blob n x s =
     (if dict_get (az_payloads s) n \<noteq> None then (Inl ResourceExists, s)
      else (Inr (), s\<lparr>az_payloads := dict_set n x (az_payloads s)\<rparr>))"

record commit_job =
  cj_workload :: string
  cj_estate :: "resource_node list option"
  cj_graph :: "workload_graph option"
  cj_findings :: "finding list"
  cj_advisories :: "rca_advisory list option"

definition job_counts :: "commit_job \<Rightarrow> nat \<times> nat \<times> nat" where
  "job_counts j =
     (case cj_estate j of None \<Rightarrow> 0 | Some ns \<Rightarrow> length ns, case cj_graph j of None \<Rightarrow> 0 | Some _ \<Rightarrow> 1,
      length (cj_findings j))"

text \<open>\<open>f"{scope}/{kind}/{commit_id}.json"\<close>\<close>

definition blob_name :: "string \<Rightarrow> string \<Rightarrow> string \<Rightarrow> string" where
  "blob_name scope kind commit_id = scope @ ''/'' @ kind @ ''/'' @ commit_id @ ''.json''"

text \<open>The pointer after a touched component has been written under its new name.\<close>

definition write_component :: "(string \<Rightarrow> 'c \<Rightarrow> unit az) \<Rightarrow> string \<Rightarrow> 'c option \<Rightarrow> string \<Rightarrow> string az" where
  "write_component put name c old =
     (case c of None \<Rightarrow> areturn old | Some x \<Rightarrow> abind (put name x) (\<lambda>_. areturn name))"

text \<open>The uploads of one attempt: the entity to flip to. The findings of the manifest that was read are
  merged with the new ones.\<close>

definition merged_findings :: "manifest option \<Rightarrow> finding list \<Rightarrow> finding list option az" where
  "merged_findings m new s =
     (if new = [] then (Inr None, s)
      else (case findings_of s m None of
              Inl e \<Rightarrow> (Inl (InvalidFinding e), s)
            | Inr prev \<Rightarrow> (Inr (Some (merge_findings prev new)), s)))"

definition upload :: "(nat \<Rightarrow> string) \<Rightarrow> commit_job \<Rightarrow> manifest option \<Rightarrow> manifest az" where
  "upload uuid j m s =
     (let scope = encode_storage_key (cj_workload j);
          commit_id = uuid (az_uuids s);
          old = (\<lambda>ptr. case m of None \<Rightarrow> [] | Some m \<Rightarrow> ptr m);
          version = (case m of None \<Rightarrow> 1 | Some m \<Rightarrow> mf_version m + 1)
      in abind (write_component write_estate_blob (blob_name scope ''estate'' commit_id)
                  (cj_estate j) (old mf_estate_blob)) (\<lambda>e.
         abind (write_component write_graph_blob (blob_name scope ''graph'' commit_id)
                  (cj_graph j) (old mf_graph_blob)) (\<lambda>g.
         abind (merged_findings m (cj_findings j)) (\<lambda>merged.
         abind (write_component write_findings_blob (blob_name scope ''findings'' commit_id)
                  merged (old mf_findings_blob)) (\<lambda>f.
         abind (write_component write_advisories_blob (blob_name scope ''advisories'' commit_id)
                  (cj_advisories j) (old mf_advisories_blob)) (\<lambda>a.
         areturn \<lparr>mf_workload = cj_workload j, mf_estate_blob = e, mf_graph_blob = g,
                  mf_findings_blob = f, mf_advisories_blob = a, mf_version = version\<rparr>)))))
         (s\<lparr>az_uuids := Suc (az_uuids s)\<rparr>))"

text \<open>The commit point: create when no manifest was read, replace under the ETag that was read
  otherwise; \<open>False\<close> is the loser's \<open>ResourceExistsError\<close> or \<open>ResourceModifiedError\<close>.\<close>

definition put_manifest :: "(nat \<Rightarrow> string) \<Rightarrow> string \<Rightarrow> manifest \<Rightarrow> azure_state \<Rightarrow> azure_state" where
  "put_manifest tags key entity s =
     s\<lparr>az_index := dict_set key (entity, tags (az_tags s)) (az_index s), az_tags := Suc (az_tags s)\<rparr>"

definition flip :: "(nat \<Rightarrow> string) \<Rightarrow> (manifest \<times> string) option \<Rightarrow> manifest \<Rightarrow> bool az" where
  "flip tags held entity s =
     (let key = encode_storage_key (mf_workload entity) in
      case held of
        None \<Rightarrow>
          if dict_get (az_index s) key \<noteq> None then (Inr False, s)
          else (Inr True, put_manifest tags key entity s)
      | Some (_, etag) \<Rightarrow>
          (case dict_get (az_index s) key of
             None \<Rightarrow> (Inl ResourceNotFound, s)
           | Some (_, current) \<Rightarrow>
               if current \<noteq> etag then (Inr False, s) else (Inr True, put_manifest tags key entity s)))"

definition attempt ::
    "(nat \<Rightarrow> string) \<Rightarrow> (nat \<Rightarrow> string) \<Rightarrow> commit_job \<Rightarrow> (azure_state \<Rightarrow> azure_state) \<Rightarrow> bool az" where
  "attempt uuid tags j others s =
     (let held = manifest_with_etag s (cj_workload j) in
      abind (upload uuid j (map_option fst held)) (\<lambda>entity s'. flip tags held entity (others s')) s)"

text \<open>The retry loop with its bound; \<open>others n\<close> is what happens in the attempt with \<open>n\<close> left after it.\<close>

fun commit_loop ::
    "(nat \<Rightarrow> string) \<Rightarrow> (nat \<Rightarrow> string) \<Rightarrow> commit_job \<Rightarrow> (nat \<Rightarrow> azure_state \<Rightarrow> azure_state) \<Rightarrow> nat
     \<Rightarrow> (nat \<times> nat \<times> nat) az" where
  "commit_loop uuid tags j others 0 s = (Inl ContentionError, s)"
| "commit_loop uuid tags j others (Suc n) s =
     abind (attempt uuid tags j (others n))
       (\<lambda>flipped. if flipped then areturn (job_counts j) else commit_loop uuid tags j others n) s"

definition commit ::
    "(nat \<Rightarrow> string) \<Rightarrow> (nat \<Rightarrow> string) \<Rightarrow> commit_job \<Rightarrow> (nat \<Rightarrow> azure_state \<Rightarrow> azure_state)
     \<Rightarrow> (nat \<times> nat \<times> nat) az" where
  "commit uuid tags j others s =
     (case enforce_finding_provenance (cj_findings j) of
        Inl e \<Rightarrow> (Inl (Unprovenanced e), s)
      | Inr _ \<Rightarrow>
          (case revalidate_finding_provenance (cj_findings j) of
             Inl e \<Rightarrow> (Inl (InvalidFinding e), s)
           | Inr _ \<Rightarrow> commit_loop uuid tags j others MAX_COMMIT_RETRIES s))"

definition run_job :: "advisory_builder \<Rightarrow> string \<Rightarrow> module_run_result \<Rightarrow> commit_job" where
  "run_job build_rca_advisories w r =
     \<lparr>cj_workload = w, cj_estate = mr_estate r, cj_graph = mr_graph r, cj_findings = mr_findings r,
      cj_advisories = (if dict_get (mr_extra r) ''rca'' = None then None
                       else Some (build_rca_advisories (mr_extra r)))\<rparr>"

definition azure_put_estate where
  "azure_put_estate uuid tags others w nodes =
     commit uuid tags \<lparr>cj_workload = w, cj_estate = Some nodes, cj_graph = None, cj_findings = [],
       cj_advisories = None\<rparr> others"

definition azure_put_graph where
  "azure_put_graph uuid tags others w g =
     commit uuid tags \<lparr>cj_workload = w, cj_estate = None, cj_graph = Some g, cj_findings = [],
       cj_advisories = None\<rparr> others"

definition azure_add_findings where
  "azure_add_findings uuid tags others w fs =
     commit uuid tags \<lparr>cj_workload = w, cj_estate = None, cj_graph = None, cj_findings = fs,
       cj_advisories = None\<rparr> others"

definition azure_commit_run where
  "azure_commit_run uuid tags others build_rca_advisories w r =
     commit uuid tags (run_job build_rca_advisories w r) others"

section \<open>Snapshots\<close>

text \<open>\<open>f"{seq:06d}"\<close> and the audit's \<open>f"{index:012d}"\<close>.\<close>

definition pad :: "nat \<Rightarrow> nat \<Rightarrow> string" where
  "pad k n = replicate (k - length (show_nat n)) (CHR ''0'') @ show_nat n"

text \<open>The loop that claims a sequence number: the first one, from \<open>seq\<close> on, whose row key is free.\<close>

definition claimed :: "azure_state \<Rightarrow> string \<Rightarrow> nat \<Rightarrow> bool" where
  "claimed s part seq \<longleftrightarrow> dict_get (az_snapshots s) (part, pad 6 seq) \<noteq> None"

lemma pad_inj: "pad k m = pad k n \<longleftrightarrow> m = n"
proof
  have z: "read_nat (replicate i (CHR ''0'') @ u) = read_nat u" for i u
    by (induction i) (simp_all add: read_nat_def)
  assume "pad k m = pad k n"
  then have "read_nat (pad k m) = read_nat (pad k n)" by simp
  then show "m = n" by (simp add: pad_def z read_show_nat)
qed simp

lemma claimed_finite: "finite {n. claimed s p n}"
proof -
  have "(\<lambda>n. (p, pad 6 n)) ` {n. claimed s p n} \<subseteq> fst ` set (az_snapshots s)"
    by (auto simp: claimed_def map_of_eq_None_iff)
  then have "finite ((\<lambda>n. (p, pad 6 n)) ` {n. claimed s p n})"
    by (rule finite_subset) simp
  then show ?thesis
    by (rule finite_imageD) (simp add: inj_on_def pad_inj)
qed

function claim :: "azure_state \<Rightarrow> string \<Rightarrow> nat \<Rightarrow> nat" where
  "claim s part seq = (if claimed s part seq then claim s part (seq + 1) else seq)"
  by pat_completeness auto
termination
proof (relation "measure (\<lambda>(s, p, seq). card {n. seq \<le> n \<and> claimed s p n})")
  fix s p seq assume c: "claimed s p seq"
  let ?A = "\<lambda>i. {n. i \<le> n \<and> claimed s p n}"
  have "finite (?A seq)" by (rule finite_subset [OF _ claimed_finite [of s p]]) blast
  moreover have "?A (seq + 1) \<subseteq> ?A seq" by (rule Collect_mono) linarith
  moreover have "seq \<in> ?A seq" "seq \<notin> ?A (seq + 1)" using c by simp_all
  ultimately have "card (?A (seq + 1)) < card (?A seq)" by (metis psubsetI psubset_card_mono)
  then show "((s, p, seq + 1), s, p, seq) \<in> measure (\<lambda>(s, p, seq). card {n. seq \<le> n \<and> claimed s p n})"
    by simp
qed simp

declare claim.simps [simp del]

definition snapshot_blob :: "string \<Rightarrow> nat \<Rightarrow> string" where
  "snapshot_blob part seq = ''snapshots/'' @ part @ ''/'' @ pad 6 seq @ ''.json''"

text \<open>\<open>snapshot\<close>: one manifest is read, \<open>others\<close> act before the claim; then the sequence is claimed, the
  blob uploaded and the entity marked complete.\<close>

definition azure_snapshot :: "(azure_state \<Rightarrow> azure_state) \<Rightarrow> string \<Rightarrow> string az" where
  "azure_snapshot others w s =
     (let part = encode_storage_key w;
          m = manifest_of s w;
          version = (case m of None \<Rightarrow> 0 | Some m \<Rightarrow> mf_version m);
          node_ids = map rn_id (estate_of s m)
      in case findings_of s m None of
           Inl e \<Rightarrow> (Inl (InvalidFinding e), s)
         | Inr fs \<Rightarrow>
             (let start = foldl max 0 (map (\<lambda>(rk, _). read_nat rk) (snapshot_rows s w)) + 1;
                  s1 = others s;
                  seq = claim s1 part start;
                  sid = ''snap::'' @ w @ ''::'' @ pad 6 seq;
                  blob = snapshot_blob part seq;
                  entity = \<lparr>se_snapshot_id = sid, se_blob = blob, se_version = version, se_complete = False\<rparr>;
                  s2 = s1\<lparr>az_snapshots := dict_set (part, pad 6 seq) entity (az_snapshots s1)\<rparr>
              in abind (write_payload_blob blob \<lparr>sp_findings = fs, sp_nodes = node_ids, sp_version = version\<rparr>)
                   (\<lambda>_ s3. (Inr sid, s3\<lparr>az_snapshots :=
                      dict_set (part, pad 6 seq) (entity\<lparr>se_complete := True\<rparr>) (az_snapshots s3)\<rparr>)) s2))"

section \<open>Pack assignments, imported packs, module configuration\<close>

definition azure_put_assignment :: "pack_assignment \<Rightarrow> unit az" where
  "azure_put_assignment a s =
     (Inr (), s\<lparr>az_assignments :=
        dict_set (encode_storage_key (pa_workload a), encode_storage_key (pa_packId a)) a (az_assignments s)\<rparr>)"

definition azure_get_assignments :: "azure_state \<Rightarrow> string \<Rightarrow> pack_assignment list" where
  "azure_get_assignments s w =
     sort_key pa_packId (map snd (filter (\<lambda>((p, _), _). p = encode_storage_key w) (az_assignments s)))"

definition azure_list_assignments :: "azure_state \<Rightarrow> pack_assignment list" where
  "azure_list_assignments s = sort_key (\<lambda>a. (pa_workload a, pa_packId a)) (map snd (az_assignments s))"

definition import_row :: "string \<Rightarrow> string \<Rightarrow> string" where
  "import_row pack_id version = encode_storage_key (pack_id @ [CHR 0x00] @ version)"

definition import_key :: "imported_pack \<Rightarrow> string \<times> string" where
  "import_key p = (encode_storage_key (ip_scope p), import_row (ip_packId p) (ip_version p))"

definition azure_put_imported :: "imported_pack \<Rightarrow> unit az" where
  "azure_put_imported p s = (Inr (), s\<lparr>az_imports := dict_set (import_key p) p (az_imports s)\<rparr>)"

definition azure_get_imported :: "azure_state \<Rightarrow> string \<Rightarrow> string \<Rightarrow> string \<Rightarrow> imported_pack option" where
  "azure_get_imported s scope pack_id version =
     dict_get (az_imports s) (encode_storage_key scope, import_row pack_id version)"

definition azure_try_record :: "imported_pack \<Rightarrow> imported_pack az" where
  "azure_try_record p s =
     (if dict_get (az_imports s) (import_key p) = None
      then (Inr p, s\<lparr>az_imports := dict_set (import_key p) p (az_imports s)\<rparr>)
      else (case azure_get_imported s (ip_scope p) (ip_packId p) (ip_version p) of
              None \<Rightarrow> (Inl ResourceExists, s)
            | Some existing \<Rightarrow>
                if ip_digest existing \<noteq> ip_digest p then (Inl ImportConflict, s) else (Inr existing, s)))"

definition azure_list_imported :: "azure_state \<Rightarrow> string \<Rightarrow> imported_pack list" where
  "azure_list_imported s scope =
     sort_key (\<lambda>p. (ip_packId p, ip_version p))
       (map snd (filter (\<lambda>((p, _), _). p = encode_storage_key scope) (az_imports s)))"

definition azure_put_config :: "tenant_module_config \<Rightarrow> unit az" where
  "azure_put_config c s = (Inr (), s\<lparr>az_config := dict_set (encode_storage_key (mc_scope c)) c (az_config s)\<rparr>)"

definition azure_get_config :: "azure_state \<Rightarrow> string \<Rightarrow> tenant_module_config option" where
  "azure_get_config s scope = map_option (\<lambda>c. c\<lparr>mc_scope := scope\<rparr>) (dict_get (az_config s) (encode_storage_key scope))"

section \<open>The audit log\<close>

definition azure_audit_head :: "azure_state \<Rightarrow> string" where
  "azure_audit_head s = (case az_audit_head s of None \<Rightarrow> GENESIS_HASH | Some ((h, _), _) \<Rightarrow> h)"

text \<open>One attempt: the head is read, \<open>others\<close> act, and one transaction creates the event row and
  creates or conditionally replaces the head; \<open>False\<close> when the transaction is refused.\<close>

definition audit_attempt ::
    "(nat list \<Rightarrow> string) \<Rightarrow> (int \<Rightarrow> string) \<Rightarrow> (nat \<Rightarrow> string) \<Rightarrow> audit_event
     \<Rightarrow> (azure_state \<Rightarrow> azure_state) \<Rightarrow> bool az" where
  "audit_attempt sha256 ts tags e others s =
     (let held = az_audit_head s;
          prev = (case held of None \<Rightarrow> GENESIS_HASH | Some ((h, _), _) \<Rightarrow> h);
          index = (case held of None \<Rightarrow> 1 | Some ((_, i), _) \<Rightarrow> i + 1);
          chained = chain_event sha256 ts e prev;
          s1 = others s;
          row = pad 12 index;
          head_ok = (case held of
              None \<Rightarrow> az_audit_head s1 = None
            | Some (_, etag) \<Rightarrow> (case az_audit_head s1 of None \<Rightarrow> False | Some (_, current) \<Rightarrow> current = etag))
      in if dict_get (az_audit s1) row \<noteq> None \<or> \<not> head_ok then (Inr False, s1)
         else (Inr True, s1\<lparr>az_audit := dict_set row chained (az_audit s1),
                 az_audit_head := Some ((compute_entry_hash sha256 ts e prev, index), tags (az_tags s1)),
                 az_tags := Suc (az_tags s1)\<rparr>))"

fun audit_loop ::
    "(nat list \<Rightarrow> string) \<Rightarrow> (int \<Rightarrow> string) \<Rightarrow> (nat \<Rightarrow> string) \<Rightarrow> audit_event
     \<Rightarrow> (nat \<Rightarrow> azure_state \<Rightarrow> azure_state) \<Rightarrow> nat \<Rightarrow> unit az" where
  "audit_loop sha256 ts tags e others 0 s = (Inl ContentionError, s)"
| "audit_loop sha256 ts tags e others (Suc n) s =
     abind (audit_attempt sha256 ts tags e (others n))
       (\<lambda>landed. if landed then areturn () else audit_loop sha256 ts tags e others n) s"

definition azure_append_audit where
  "azure_append_audit sha256 ts tags others e = audit_loop sha256 ts tags e others MAX_COMMIT_RETRIES"

text \<open>\<open>list_audit\<close>: \<open>events[:limit]\<close>; a negative limit drops events from the end.\<close>

definition azure_list_audit :: "azure_state \<Rightarrow> int option \<Rightarrow> audit_event list" where
  "azure_list_audit s limit =
     (let events = map snd (sort_key fst (az_audit s)) in
      case limit of None \<Rightarrow> events
      | Some n \<Rightarrow> take (if n < 0 then length events - nat (- n) else nat n) events)"

section \<open>The store as one step function\<close>

text \<open>\<open>quiet\<close>: no other client acts in the middle of an operation.\<close>

definition quiet :: "nat \<Rightarrow> azure_state \<Rightarrow> azure_state" where
  "quiet n s = s"

fun azure_write ::
    "(nat \<Rightarrow> string) \<Rightarrow> (nat \<Rightarrow> string) \<Rightarrow> (nat list \<Rightarrow> string) \<Rightarrow> (int \<Rightarrow> string) \<Rightarrow> advisory_builder
     \<Rightarrow> write_op \<Rightarrow> azure_state \<Rightarrow> write_outcome \<times> azure_state" where
  "azure_write uuid tags sha ts b (PutEstate w ns) s =
     apfst (done_outcome \<circ> map_sum id (\<lambda>_. ())) (azure_put_estate uuid tags quiet w ns s)"
| "azure_write uuid tags sha ts b (PutGraph w g) s =
     apfst (done_outcome \<circ> map_sum id (\<lambda>_. ())) (azure_put_graph uuid tags quiet w g s)"
| "azure_write uuid tags sha ts b (AddFindings w fs) s =
     apfst (done_outcome \<circ> map_sum id (\<lambda>_. ())) (azure_add_findings uuid tags quiet w fs s)"
| "azure_write uuid tags sha ts b (CommitRun w r) s =
     apfst (\<lambda>o'. case o' of Inl e \<Rightarrow> Failed e | Inr (n, g, f) \<Rightarrow> Counts n g f)
       (azure_commit_run uuid tags quiet b w r s)"
| "azure_write uuid tags sha ts b (Snapshot w) s =
     apfst (\<lambda>o'. case o' of Inl e \<Rightarrow> Failed e | Inr i \<Rightarrow> SnapshotId i) (azure_snapshot (quiet 0) w s)"
| "azure_write uuid tags sha ts b (PutAssignment a) s = apfst done_outcome (azure_put_assignment a s)"
| "azure_write uuid tags sha ts b (PutImported p) s = apfst done_outcome (azure_put_imported p s)"
| "azure_write uuid tags sha ts b (TryRecordImported p) s =
     apfst (\<lambda>o'. case o' of Inl e \<Rightarrow> Failed e | Inr q \<Rightarrow> Recorded q) (azure_try_record p s)"
| "azure_write uuid tags sha ts b (PutModuleConfig c) s = apfst done_outcome (azure_put_config c s)"
| "azure_write uuid tags sha ts b (AppendAudit e) s =
     apfst done_outcome (azure_append_audit sha ts tags quiet e s)"

definition azure_view :: "azure_state \<Rightarrow> string \<Rightarrow> store_view" where
  "azure_view s k =
     \<lparr>sv_known = (k \<in> set (azure_list_workloads s)),
      sv_estate = azure_get_estate s k,
      sv_graph = azure_get_graph s k,
      sv_findings = azure_get_findings s k None,
      sv_previous_findings = azure_get_previous_findings s k,
      sv_previous_nodes = azure_get_previous_node_ids s k,
      sv_advisories = azure_get_rca_advisories s k,
      sv_assignments = azure_get_assignments s k,
      sv_imports = azure_list_imported s k,
      sv_config = azure_get_config s k\<rparr>"

end
