(* ===== verification/State_Parity.thy ===== *)
theory State_Parity
  imports State_Azure
begin

text \<open>
  The Azure store against the local one. What a workload shows is a \<open>cell\<close>; a commit acts on cells as
  \<open>apply_job\<close> does, on both backends. The theorems: every sequence of operations leaves both backends
  showing the same, and no interference by other clients makes a commit or an audit append go wrong.
\<close>

section \<open>Names, padded numbers, keyed lists\<close>

lemma encode_storage_key_hex: "encode_storage_key v = str_hex v"
  by (simp add: encode_storage_key_def str_hex_def)

lemma encode_inj [simp]: "encode_storage_key v = encode_storage_key w \<longleftrightarrow> v = w"
  by (simp add: encode_storage_key_hex str_hex_inj)

lemma encode_no_slash: "CHR ''/'' \<notin> set (encode_storage_key v)"
  using str_hex_set [of v] by (auto simp: encode_storage_key_hex hex_digits_def)

lemma append_sep_inj:
  assumes "c \<notin> set x" "c \<notin> set y" "x @ c # u = y @ c # v"
  shows "x = y \<and> u = v"
proof -
  have "takeWhile (\<lambda>d. d \<noteq> c) (z @ c # w) = z" if "c \<notin> set z" for z w
    using that by (induction z) auto
  then have "x = y" using assms by metis
  with assms(3) show ?thesis by simp
qed

lemma blob_name_inj:
  assumes "blob_name (encode_storage_key v) k i = blob_name (encode_storage_key w) k j"
  shows "v = w \<and> i = j"
proof -
  have "encode_storage_key v @ CHR ''/'' # k @ ''/'' @ i @ ''.json''
      = encode_storage_key w @ CHR ''/'' # k @ ''/'' @ j @ ''.json''"
    using assms by (simp add: blob_name_def)
  from append_sep_inj [OF encode_no_slash encode_no_slash this] show ?thesis by simp
qed

lemma blob_name_not_Nil [simp]: "blob_name v k i \<noteq> []"
  by (simp add: blob_name_def)

text \<open>Padded numbers of one width are ordered as the numbers.\<close>

fun digits :: "nat \<Rightarrow> nat \<Rightarrow> string" where
  "digits 0 n = []"
| "digits (Suc k) n = digits k (n div 10) @ [digit_char (n mod 10)]"

lemma digits_length [simp]: "length (digits k n) = k"
  by (induction k arbitrary: n) auto

lemma digits_zero: "digits k 0 = replicate k (CHR ''0'')"
proof (induction k)
  case (Suc k)
  have "digit_char 0 = CHR ''0''" by code_simp
  with Suc show ?case by (simp add: replicate_append_same)
qed simp

lemma pad_digits: "n < 10 ^ k \<Longrightarrow> 0 < k \<Longrightarrow> pad k n = digits k n"
proof (induction k arbitrary: n)
  case (Suc k)
  show ?case
  proof (cases "n < 10")
    case True
    then show ?thesis by (subst pad_def, subst show_nat.simps, subst (2) show_nat.simps) (simp add: digits_zero)
  next
    case False
    with Suc.prems have k: "n div 10 < 10 ^ k" "0 < k" by (auto simp: less_mult_imp_div_less intro: gr0I)
    have "pad (Suc k) n = pad k (n div 10) @ [digit_char (n mod 10)]"
      using False by (subst pad_def, subst (1 2) show_nat.simps) (simp add: pad_def)
    then show ?thesis using Suc.IH [OF k] by simp
  qed
qed simp

lemma less_append_same_length:
  fixes x y :: "'a :: linorder list"
  shows "length x = length y \<Longrightarrow> x @ [a] < y @ [b] \<longleftrightarrow> x < y \<or> x = y \<and> a < b"
  by (induction x y rule: list_induct2) auto

lemma digit_char_less: "m < 10 \<Longrightarrow> n < 10 \<Longrightarrow> digit_char m < digit_char n \<longleftrightarrow> m < n"
  by (simp add: less_char_def digit_char_def)

lemma digits_less: "m < 10 ^ k \<Longrightarrow> n < 10 ^ k \<Longrightarrow> digits k m < digits k n \<longleftrightarrow> m < n"
proof (induction k arbitrary: m n)
  case (Suc k)
  have h: "m div 10 < 10 ^ k" "n div 10 < 10 ^ k" using Suc.prems by (simp_all add: less_mult_imp_div_less)
  have i: "digits k (m div 10) = digits k (n div 10) \<longleftrightarrow> m div 10 = n div 10"
    using Suc.IH [OF h] Suc.IH [OF h(2,1)] by (metis nat_neq_iff less_irrefl)
  have "10 * a + b < 10 * c + d \<longleftrightarrow> a < c \<or> a = c \<and> b < d" if "b < 10" "d < 10" for a b c d :: nat
    using that by linarith
  from this [of "m mod 10" "n mod 10" "m div 10" "n div 10"]
  have "m < n \<longleftrightarrow> m div 10 < n div 10 \<or> m div 10 = n div 10 \<and> m mod 10 < n mod 10"
    by simp
  then show ?case using Suc.IH [OF h] i
    by (simp add: less_append_same_length digit_char_less)
qed simp

lemma pad_less: "m < 10 ^ k \<Longrightarrow> n < 10 ^ k \<Longrightarrow> 0 < k \<Longrightarrow> pad k m < pad k n \<longleftrightarrow> m < n"
  by (simp add: pad_digits digits_less)

lemma read_pad: "read_nat (pad k n) = n"
proof -
  have "read_nat (replicate i (CHR ''0'') @ u) = read_nat u" for i u
    by (induction i) (simp_all add: read_nat_def)
  then show ?thesis by (simp add: pad_def read_show_nat)
qed

text \<open>A list whose elements have distinct keys is searched and sorted the same in every order.\<close>

lemma find_key_set:
  assumes "distinct (map key xs)" "x \<in> set xs"
  shows "find (\<lambda>y. key y = key x) xs = Some x"
  using assms by (induction xs) (auto simp: rev_image_eqI)

lemma find_key_iff:
  assumes "distinct (map key xs)"
  shows "find (\<lambda>y. key y = k) xs = Some x \<longleftrightarrow> x \<in> set xs \<and> key x = k"
proof
  assume "find (\<lambda>y. key y = k) xs = Some x"
  then show "x \<in> set xs \<and> key x = k" by (auto simp: find_Some_iff)
next
  assume "x \<in> set xs \<and> key x = k"
  then show "find (\<lambda>y. key y = k) xs = Some x" using find_key_set [OF assms, of x] by auto
qed

lemma find_key_perm:
  assumes "distinct (map key xs)" "mset ys = mset xs"
  shows "find (\<lambda>y. key y = k) ys = find (\<lambda>y. key y = k) xs"
proof -
  have "distinct (map key ys)" "set ys = set xs"
    using assms by (metis mset_eq_imp_distinct_iff mset_map, metis set_mset_mset)
  then have "find (\<lambda>y. key y = k) ys = Some x \<longleftrightarrow> find (\<lambda>y. key y = k) xs = Some x" for x
    using assms(1) by (simp add: find_key_iff)
  then show ?thesis by (metis not_Some_eq)
qed

lemma sort_key_same:
  assumes "distinct (map key xs)" "distinct (map key ys)"
    and "\<And>k. find (\<lambda>y. key y = k) xs = find (\<lambda>y. key y = k) ys"
  shows "sort_key key xs = sort_key key ys"
proof (rule sort_key_mset_eq)
  have "set xs = set ys"
    using find_key_iff [OF assms(1)] find_key_iff [OF assms(2)] assms(3) by (metis subsetI subset_antisym)
  then show "mset xs = mset ys"
    using assms(1,2) by (metis distinct_map set_eq_iff_mset_eq_distinct)
  show "inj_on key (set xs)" using assms(1) by (simp add: distinct_map)
qed

text \<open>The values of a dictionary that tell their keys.\<close>

definition keyed :: "('v \<Rightarrow> 'k) \<Rightarrow> ('k, 'v) dict \<Rightarrow> bool" where
  "keyed key d \<longleftrightarrow> dict_wf d \<and> (\<forall>(k, v) \<in> set d. k = key v)"

lemma keyed_find: "keyed key d \<Longrightarrow> find (\<lambda>v. key v = k) (map snd d) = dict_get d k"
  by (induction d) (auto simp: keyed_def)

lemma keyed_distinct: "keyed key d \<Longrightarrow> distinct (map key (map snd d))"
proof -
  assume k: "keyed key d"
  then have "map key (map snd d) = map fst d" by (auto simp: keyed_def)
  with k show ?thesis by (simp only: keyed_def)
qed

lemma keyed_set: "keyed key d \<Longrightarrow> keyed key (dict_set (key v) v d)"
  using set_dict_set [of "key v" v d] by (auto simp: keyed_def)

lemma keyed_upsert: "keyed key d \<Longrightarrow> keyed key (foldl (\<lambda>d v. dict_set (key v) v d) d vs)"
  by (induction vs arbitrary: d) (auto intro: keyed_set)

lemma keyed_upsert_get:
  "dict_get (foldl (\<lambda>d v. dict_set (key v) v d) d vs) k =
     (case find (\<lambda>v. key v = k) (rev vs) of None \<Rightarrow> dict_get d k | Some v \<Rightarrow> Some v)"
  by (induction vs rule: rev_induct) auto

section \<open>Cells\<close>

record cell =
  c_estate :: "resource_node list"
  c_graph :: "workload_graph option"
  c_findings :: "string \<times> string \<Rightarrow> finding option"
  c_advisories :: "nat \<Rightarrow> rca_advisory option"

definition finding_key :: "finding \<Rightarrow> string \<times> string" where
  "finding_key f = (fd_module f, fd_id f)"

definition blob_list :: "'b list option \<Rightarrow> 'b list" where
  "blob_list c = (case c of None \<Rightarrow> [] | Some xs \<Rightarrow> xs)"

abbreviation raw_findings :: "azure_state \<Rightarrow> manifest option \<Rightarrow> finding list" where
  "raw_findings s m \<equiv> blob_list (component_blob (az_findings s) mf_findings_blob m)"

abbreviation raw_advisories :: "azure_state \<Rightarrow> manifest option \<Rightarrow> rca_advisory list" where
  "raw_advisories s m \<equiv> blob_list (component_blob (az_advisories s) mf_advisories_blob m)"

definition content :: "azure_state \<Rightarrow> manifest option \<Rightarrow> cell" where
  "content s m =
     \<lparr>c_estate = blob_list (component_blob (az_estates s) mf_estate_blob m),
      c_graph = component_blob (az_graphs s) mf_graph_blob m,
      c_findings = (\<lambda>k. find (\<lambda>f. finding_key f = k) (raw_findings s m)),
      c_advisories = (\<lambda>i. find (\<lambda>a. ra_index a = i) (raw_advisories s m))\<rparr>"

definition local_cell :: "local_state \<Rightarrow> string \<Rightarrow> cell" where
  "local_cell s w =
     \<lparr>c_estate = read_estate s w, c_graph = dict_get (ls_graph s) w,
      c_findings = (\<lambda>(m, i). dict_get (ls_findings s) (w, m, i)),
      c_advisories = (\<lambda>i. dict_get (ls_rca s) (w, i))\<rparr>"

text \<open>What a commit does to the cell of its workload.\<close>

definition apply_job :: "commit_job \<Rightarrow> cell \<Rightarrow> cell" where
  "apply_job j c =
     \<lparr>c_estate = (case cj_estate j of None \<Rightarrow> c_estate c | Some ns \<Rightarrow> ns),
      c_graph = (case cj_graph j of None \<Rightarrow> c_graph c | Some g \<Rightarrow> Some g),
      c_findings = (\<lambda>k. case find (\<lambda>f. finding_key f = k) (rev (cj_findings j)) of
                          None \<Rightarrow> c_findings c k | Some f \<Rightarrow> Some f),
      c_advisories = (case cj_advisories j of None \<Rightarrow> c_advisories c
                      | Some as \<Rightarrow> (\<lambda>i. find (\<lambda>a. ra_index a = i) as))\<rparr>"

definition job_ok :: "commit_job \<Rightarrow> bool" where
  "job_ok j \<longleftrightarrow> (\<forall>f \<in> set (cj_findings j). storable f)
     \<and> (\<forall>as. cj_advisories j = Some as \<longrightarrow> distinct (map ra_index as))"

section \<open>Well-formed services\<close>

definition names_fresh :: "(nat \<Rightarrow> string) \<Rightarrow> azure_state \<Rightarrow> bool" where
  "names_fresh uuid s \<longleftrightarrow> (\<forall>w i. az_uuids s \<le> i \<longrightarrow>
     dict_get (az_estates s) (blob_name (encode_storage_key w) ''estate'' (uuid i)) = None
     \<and> dict_get (az_graphs s) (blob_name (encode_storage_key w) ''graph'' (uuid i)) = None
     \<and> dict_get (az_findings s) (blob_name (encode_storage_key w) ''findings'' (uuid i)) = None
     \<and> dict_get (az_advisories s) (blob_name (encode_storage_key w) ''advisories'' (uuid i)) = None)"

definition blobs_ok :: "azure_state \<Rightarrow> bool" where
  "blobs_ok s \<longleftrightarrow>
     (\<forall>n fs. dict_get (az_findings s) n = Some fs \<longrightarrow> (\<forall>f \<in> set fs. storable f) \<and> distinct (map finding_key fs))
     \<and> (\<forall>n as. dict_get (az_advisories s) n = Some as \<longrightarrow> distinct (map ra_index as))"

definition pointers_ok :: "azure_state \<Rightarrow> manifest \<Rightarrow> bool" where
  "pointers_ok s m \<longleftrightarrow>
     (mf_estate_blob m \<noteq> [] \<longrightarrow> dict_get (az_estates s) (mf_estate_blob m) \<noteq> None)
     \<and> (mf_graph_blob m \<noteq> [] \<longrightarrow> dict_get (az_graphs s) (mf_graph_blob m) \<noteq> None)
     \<and> (mf_findings_blob m \<noteq> [] \<longrightarrow> dict_get (az_findings s) (mf_findings_blob m) \<noteq> None)
     \<and> (mf_advisories_blob m \<noteq> [] \<longrightarrow> dict_get (az_advisories s) (mf_advisories_blob m) \<noteq> None)"

definition index_ok :: "(nat \<Rightarrow> string) \<Rightarrow> azure_state \<Rightarrow> bool" where
  "index_ok tags s \<longleftrightarrow> (\<forall>k m t. dict_get (az_index s) k = Some (m, t) \<longrightarrow>
     k = encode_storage_key (mf_workload m) \<and> pointers_ok s m \<and> (\<exists>i < az_tags s. t = tags i))"

definition store_ok :: "(nat \<Rightarrow> string) \<Rightarrow> (nat \<Rightarrow> string) \<Rightarrow> azure_state \<Rightarrow> bool" where
  "store_ok uuid tags s \<longleftrightarrow> names_fresh uuid s \<and> blobs_ok s \<and> index_ok tags s"

text \<open>Blobs are only ever added.\<close>

definition blobs_le :: "azure_state \<Rightarrow> azure_state \<Rightarrow> bool" where
  "blobs_le s t \<longleftrightarrow> dict_get (az_estates s) \<subseteq>\<^sub>m dict_get (az_estates t)
     \<and> dict_get (az_graphs s) \<subseteq>\<^sub>m dict_get (az_graphs t)
     \<and> dict_get (az_findings s) \<subseteq>\<^sub>m dict_get (az_findings t)
     \<and> dict_get (az_advisories s) \<subseteq>\<^sub>m dict_get (az_advisories t)"

lemma blobs_le_refl [simp]: "blobs_le s s"
  by (simp add: blobs_le_def)

lemma blobs_le_trans: "blobs_le s t \<Longrightarrow> blobs_le t u \<Longrightarrow> blobs_le s u"
  by (auto simp: blobs_le_def intro: map_le_trans)

lemma component_mono:
  "dict_get d \<subseteq>\<^sub>m dict_get d' \<Longrightarrow> (ptr m \<noteq> [] \<longrightarrow> dict_get d (ptr m) \<noteq> None) \<Longrightarrow>
   component_blob d' ptr (Some m) = component_blob d ptr (Some m)
   \<and> (ptr m \<noteq> [] \<longrightarrow> dict_get d' (ptr m) \<noteq> None)"
  by (auto simp: component_blob_def map_le_def dom_def)

lemma content_mono:
  assumes "pointers_ok s m" "blobs_le s t"
  shows "content t (Some m) = content s (Some m)" "pointers_ok t m"
  using assms component_mono [of "az_estates s" "az_estates t" mf_estate_blob m]
    component_mono [of "az_graphs s" "az_graphs t" mf_graph_blob m]
    component_mono [of "az_findings s" "az_findings t" mf_findings_blob m]
    component_mono [of "az_advisories s" "az_advisories t" mf_advisories_blob m]
  by (simp_all add: pointers_ok_def blobs_le_def content_def)

lemma content_None: "content s None = \<lparr>c_estate = [], c_graph = None, c_findings = (\<lambda>_. None), c_advisories = (\<lambda>_. None)\<rparr>"
  by (simp add: content_def component_blob_def blob_list_def)

lemma component_blob_Some: "component_blob d ptr m = Some x \<Longrightarrow> \<exists>n. dict_get d n = Some x"
  by (auto simp: component_blob_def split: option.splits if_splits)

lemma raw_findings_ok:
  assumes "blobs_ok s"
  shows "\<forall>f \<in> set (raw_findings s m). storable f" "distinct (map finding_key (raw_findings s m))"
    "distinct (map ra_index (raw_advisories s m))"
proof -
  have f: "(\<forall>f \<in> set fs. storable f) \<and> distinct (map finding_key fs)"
    if "component_blob (az_findings s) mf_findings_blob m = Some fs" for fs
    using component_blob_Some [OF that] assms unfolding blobs_ok_def by blast
  show "\<forall>f \<in> set (raw_findings s m). storable f" "distinct (map finding_key (raw_findings s m))"
    by (cases "component_blob (az_findings s) mf_findings_blob m"; simp add: blob_list_def f)+
  have "distinct (map ra_index as)"
    if "component_blob (az_advisories s) mf_advisories_blob m = Some as" for as
    using component_blob_Some [OF that] assms unfolding blobs_ok_def by blast
  then show "distinct (map ra_index (raw_advisories s m))"
    by (simp add: blob_list_def split: option.split)
qed

lemma findings_of_ok:
  assumes "blobs_ok s"
  shows "findings_of s m None = Inr (sort_key finding_key (raw_findings s m))"
  using raw_findings_ok(1) [OF assms, of m]
  by (simp add: findings_of_def blob_list_def validate_storable rseq_map_Inr finding_key_def [abs_def]
      split: option.split)

section \<open>The uploads of an attempt\<close>

text \<open>The merge is the upsert by key.\<close>

lemma merge_findings_keyed:
  "merge_findings prior new = map snd (foldl (\<lambda>d f. dict_set (finding_key f) f d)
     (foldl (\<lambda>d f. dict_set (finding_key f) f d) [] prior) new)"
  by (simp add: merge_findings_def Let_def finding_key_def)

lemma merge_findings_ok:
  shows "distinct (map finding_key (merge_findings prior new))"
    and "set (merge_findings prior new) \<subseteq> set prior \<union> set new"
    and "find (\<lambda>f. finding_key f = k) (merge_findings prior new) =
      (case find (\<lambda>f. finding_key f = k) (rev new) of
         None \<Rightarrow> find (\<lambda>f. finding_key f = k) (rev prior) | Some f \<Rightarrow> Some f)"
proof -
  have k: "keyed finding_key (foldl (\<lambda>d f. dict_set (finding_key f) f d) [] fs)" for fs
    by (rule keyed_upsert) (simp add: keyed_def)
  show "distinct (map finding_key (merge_findings prior new))"
    unfolding merge_findings_keyed by (intro keyed_distinct keyed_upsert k)
  have "snd ` set (foldl (\<lambda>d f. dict_set (finding_key f) f d) d fs) \<subseteq> snd ` set d \<union> set fs" for d fs
  proof (induction fs arbitrary: d)
    case (Cons f fs)
    show ?case using Cons [of "dict_set (finding_key f) f d"] set_dict_set [of "finding_key f" f d] by force
  qed simp
  from this [of "foldl (\<lambda>d f. dict_set (finding_key f) f d) [] prior" new] this [of "[]" prior]
  show "set (merge_findings prior new) \<subseteq> set prior \<union> set new"
    unfolding merge_findings_keyed by auto
  show "find (\<lambda>f. finding_key f = k) (merge_findings prior new) =
      (case find (\<lambda>f. finding_key f = k) (rev new) of
         None \<Rightarrow> find (\<lambda>f. finding_key f = k) (rev prior) | Some f \<Rightarrow> Some f)"
    unfolding merge_findings_keyed keyed_find [OF keyed_upsert [OF k]] keyed_upsert_get
    by (simp split: option.split)
qed

definition put_new :: "string \<Rightarrow> 'b option \<Rightarrow> (string, 'b) dict \<Rightarrow> (string, 'b) dict" where
  "put_new n c d = (case c of None \<Rightarrow> d | Some x \<Rightarrow> dict_set n x d)"

definition pointer :: "string \<Rightarrow> 'b option \<Rightarrow> string \<Rightarrow> string" where
  "pointer n c old = (case c of None \<Rightarrow> old | Some _ \<Rightarrow> n)"

lemma write_components:
  "dict_get (az_estates s) n = None \<Longrightarrow> write_component write_estate_blob n ns old s =
     (Inr (pointer n ns old), s\<lparr>az_estates := put_new n ns (az_estates s)\<rparr>)"
  "dict_get (az_graphs s) n = None \<Longrightarrow> write_component write_graph_blob n g old s =
     (Inr (pointer n g old), s\<lparr>az_graphs := put_new n g (az_graphs s)\<rparr>)"
  "dict_get (az_findings s) n = None \<Longrightarrow> write_component write_findings_blob n fs old s =
     (Inr (pointer n fs old), s\<lparr>az_findings := put_new n fs (az_findings s)\<rparr>)"
  "dict_get (az_advisories s) n = None \<Longrightarrow> write_component write_advisories_blob n as old s =
     (Inr (pointer n as old), s\<lparr>az_advisories := put_new n as (az_advisories s)\<rparr>)"
  by (simp_all add: write_component_def abind_def areturn_def pointer_def put_new_def write_estate_blob_def
      write_graph_blob_def write_findings_blob_def write_advisories_blob_def split: option.split)

definition old_pointer :: "manifest option \<Rightarrow> (manifest \<Rightarrow> string) \<Rightarrow> string" where
  "old_pointer m ptr = (case m of None \<Rightarrow> [] | Some m \<Rightarrow> ptr m)"

definition new_findings :: "azure_state \<Rightarrow> manifest option \<Rightarrow> commit_job \<Rightarrow> finding list option" where
  "new_findings s m j =
     (if cj_findings j = [] then None
      else Some (merge_findings (sort_key finding_key (raw_findings s m)) (cj_findings j)))"

lemma upload_form:
  fixes j :: commit_job
  assumes "names_fresh uuid s" "blobs_ok s"
  defines "name k \<equiv> blob_name (encode_storage_key (cj_workload j)) k (uuid (az_uuids s))"
  shows "upload uuid j m s =
    (Inr \<lparr>mf_workload = cj_workload j,
          mf_estate_blob = pointer (name ''estate'') (cj_estate j) (old_pointer m mf_estate_blob),
          mf_graph_blob = pointer (name ''graph'') (cj_graph j) (old_pointer m mf_graph_blob),
          mf_findings_blob = pointer (name ''findings'') (new_findings s m j) (old_pointer m mf_findings_blob),
          mf_advisories_blob = pointer (name ''advisories'') (cj_advisories j) (old_pointer m mf_advisories_blob),
          mf_version = (case m of None \<Rightarrow> 1 | Some m \<Rightarrow> mf_version m + 1)\<rparr>,
     s\<lparr>az_uuids := Suc (az_uuids s),
       az_estates := put_new (name ''estate'') (cj_estate j) (az_estates s),
       az_graphs := put_new (name ''graph'') (cj_graph j) (az_graphs s),
       az_findings := put_new (name ''findings'') (new_findings s m j) (az_findings s),
       az_advisories := put_new (name ''advisories'') (cj_advisories j) (az_advisories s)\<rparr>)"
proof -
  have new: "dict_get (az_estates s) (name ''estate'') = None" "dict_get (az_graphs s) (name ''graph'') = None"
      "dict_get (az_findings s) (name ''findings'') = None"
      "dict_get (az_advisories s) (name ''advisories'') = None"
    using assms(1) by (auto simp: names_fresh_def name_def)
  have merged: "merged_findings m (cj_findings j) t = (Inr (new_findings s m j), t)"
    if "az_findings t = az_findings s" for t
  proof -
    have "findings_of t m None = findings_of s m None" using that by (simp add: findings_of_def)
    then show ?thesis
      by (simp add: merged_findings_def new_findings_def findings_of_ok [OF assms(2)])
  qed
  show ?thesis
    by (simp add: upload_def Let_def abind_def areturn_def old_pointer_def write_components new merged
        flip: name_def)
qed

lemma put_new_get: "dict_get (put_new n c d) k = (if k = n then (case c of None \<Rightarrow> dict_get d n | Some x \<Rightarrow> Some x) else dict_get d k)"
  by (simp add: put_new_def split: option.split)

lemma put_new_le: "dict_get d n = None \<Longrightarrow> dict_get d \<subseteq>\<^sub>m dict_get (put_new n c d)"
  by (auto simp: map_le_def put_new_get)

lemma component_put_new:
  assumes "n \<noteq> []" "dict_get d n = None" "ptr e = pointer n c (old_pointer m ptr)"
    "\<forall>m'. m = Some m' \<longrightarrow> ptr m' \<noteq> [] \<longrightarrow> dict_get d (ptr m') \<noteq> None"
  shows "component_blob (put_new n c d) ptr (Some e) = (case c of None \<Rightarrow> component_blob d ptr m | Some x \<Rightarrow> Some x)"
    and "ptr e \<noteq> [] \<Longrightarrow> dict_get (put_new n c d) (ptr e) \<noteq> None"
  using assms by (auto simp: component_blob_def pointer_def old_pointer_def put_new_get split: option.splits)

text \<open>An attempt's uploads keep the services well formed and everything that was there; the entity they
  prepare shows the cell of the manifest that was read with the job applied.\<close>

lemma upload_ok:
  assumes ok: "store_ok uuid tags s" and job: "job_ok j" and m: "\<forall>m'. m = Some m' \<longrightarrow> pointers_ok s m'"
    and uuid: "inj uuid"
  obtains e s' where "upload uuid j m s = (Inr e, s')" "store_ok uuid tags s'" "blobs_le s s'"
    "pointers_ok s' e" "content s' (Some e) = apply_job j (content s m)" "mf_workload e = cj_workload j"
    "mf_version e = (case m of None \<Rightarrow> 1 | Some m \<Rightarrow> mf_version m + 1)"
    "az_index s' = az_index s" "az_tags s' = az_tags s" "az_snapshots s' = az_snapshots s"
    "az_payloads s' = az_payloads s" "az_assignments s' = az_assignments s" "az_imports s' = az_imports s"
    "az_config s' = az_config s" "az_audit s' = az_audit s" "az_audit_head s' = az_audit_head s"
proof -
  have fresh: "names_fresh uuid s" and bok: "blobs_ok s" and iok: "index_ok tags s"
    using ok by (simp_all add: store_ok_def)
  define name where "name k = blob_name (encode_storage_key (cj_workload j)) k (uuid (az_uuids s))" for k
  define e where "e = \<lparr>mf_workload = cj_workload j,
          mf_estate_blob = pointer (name ''estate'') (cj_estate j) (old_pointer m mf_estate_blob),
          mf_graph_blob = pointer (name ''graph'') (cj_graph j) (old_pointer m mf_graph_blob),
          mf_findings_blob = pointer (name ''findings'') (new_findings s m j) (old_pointer m mf_findings_blob),
          mf_advisories_blob = pointer (name ''advisories'') (cj_advisories j) (old_pointer m mf_advisories_blob),
          mf_version = (case m of None \<Rightarrow> 1 | Some m \<Rightarrow> mf_version m + 1)\<rparr>"
  define s' where "s' = s\<lparr>az_uuids := Suc (az_uuids s),
       az_estates := put_new (name ''estate'') (cj_estate j) (az_estates s),
       az_graphs := put_new (name ''graph'') (cj_graph j) (az_graphs s),
       az_findings := put_new (name ''findings'') (new_findings s m j) (az_findings s),
       az_advisories := put_new (name ''advisories'') (cj_advisories j) (az_advisories s)\<rparr>"
  have up: "upload uuid j m s = (Inr e, s')"
    using upload_form [OF fresh bok, of j m] by (simp add: e_def s'_def name_def)
  have new: "dict_get (az_estates s) (name ''estate'') = None" "dict_get (az_graphs s) (name ''graph'') = None"
      "dict_get (az_findings s) (name ''findings'') = None"
      "dict_get (az_advisories s) (name ''advisories'') = None"
    using fresh by (auto simp: names_fresh_def name_def)
  have le: "blobs_le s s'" by (simp add: blobs_le_def s'_def put_new_le new)
  have n0: "name k \<noteq> []" for k by (simp add: name_def)
  note comp =
    component_put_new [OF n0 new(1), of mf_estate_blob e "cj_estate j" m]
    component_put_new [OF n0 new(2), of mf_graph_blob e "cj_graph j" m]
    component_put_new [OF n0 new(3), of mf_findings_blob e "new_findings s m j" m]
    component_put_new [OF n0 new(4), of mf_advisories_blob e "cj_advisories j" m]
  have ptrs: "pointers_ok s' e"
    using comp(2,4,6,8) m by (simp add: pointers_ok_def s'_def e_def)
  have c: "component_blob (az_estates s') mf_estate_blob (Some e) =
        (case cj_estate j of None \<Rightarrow> component_blob (az_estates s) mf_estate_blob m | Some x \<Rightarrow> Some x)"
      "component_blob (az_graphs s') mf_graph_blob (Some e) =
        (case cj_graph j of None \<Rightarrow> component_blob (az_graphs s) mf_graph_blob m | Some x \<Rightarrow> Some x)"
      "component_blob (az_findings s') mf_findings_blob (Some e) =
        (case new_findings s m j of None \<Rightarrow> component_blob (az_findings s) mf_findings_blob m | Some x \<Rightarrow> Some x)"
      "component_blob (az_advisories s') mf_advisories_blob (Some e) =
        (case cj_advisories j of None \<Rightarrow> component_blob (az_advisories s) mf_advisories_blob m | Some x \<Rightarrow> Some x)"
    using comp(1,3,5,7) m by (simp_all add: pointers_ok_def s'_def e_def)
  let ?raw = "raw_findings s m"
  have perm: "find (\<lambda>f. finding_key f = k) (rev (sort_key finding_key ?raw)) = find (\<lambda>f. finding_key f = k) ?raw" for k
    by (rule find_key_perm) (simp_all add: raw_findings_ok [OF bok])
  have fnd: "find (\<lambda>f. finding_key f = k) (raw_findings s' (Some e)) =
      (case find (\<lambda>f. finding_key f = k) (rev (cj_findings j)) of
         None \<Rightarrow> find (\<lambda>f. finding_key f = k) ?raw | Some f \<Rightarrow> Some f)" for k
  proof (cases "cj_findings j = []")
    case True
    then show ?thesis by (simp add: c new_findings_def)
  next
    case False
    then have "raw_findings s' (Some e) = merge_findings (sort_key finding_key ?raw) (cj_findings j)"
      by (simp add: c new_findings_def blob_list_def)
    then show ?thesis by (simp add: merge_findings_ok(3) perm split: option.split)
  qed
  have lists: "blob_list (component_blob (az_estates s') mf_estate_blob (Some e)) =
        (case cj_estate j of None \<Rightarrow> blob_list (component_blob (az_estates s) mf_estate_blob m) | Some x \<Rightarrow> x)"
      "raw_advisories s' (Some e) = (case cj_advisories j of None \<Rightarrow> raw_advisories s m | Some x \<Rightarrow> x)"
    by (simp_all add: c blob_list_def split: option.split)
  have cont: "content s' (Some e) = apply_job j (content s m)"
    by (rule cell.equality)
       (simp_all add: content_def apply_job_def c(2) fnd lists cong: option.case_cong, simp split: option.split)
  have "names_fresh uuid s'"
  proof -
    have "blob_name (encode_storage_key w) k (uuid i) \<noteq> name k" if "Suc (az_uuids s) \<le> i" for w i k
      using blob_name_inj [of w k "uuid i" "cj_workload j" "uuid (az_uuids s)"] injD [OF uuid, of i "az_uuids s"] that
      by (auto simp: name_def)
    then show ?thesis using fresh by (simp add: names_fresh_def s'_def put_new_get)
  qed
  moreover have "blobs_ok s'"
  proof -
    have "(\<forall>f \<in> set fs. storable f) \<and> distinct (map finding_key fs)" if "new_findings s m j = Some fs" for fs
      using that job raw_findings_ok [OF bok, of m] merge_findings_ok(1,2) [of "sort_key finding_key ?raw" "cj_findings j"]
      by (auto simp: new_findings_def job_ok_def split: if_splits)
    then show ?thesis using bok job
      by (auto simp: blobs_ok_def s'_def put_new_get job_ok_def split: if_splits option.splits)
  qed
  moreover have "index_ok tags s'"
  proof -
    have "pointers_ok s' m'" if "pointers_ok s m'" for m' using content_mono(2) [OF that le] .
    then show ?thesis using iok by (simp add: index_ok_def s'_def)
  qed
  ultimately have "store_ok uuid tags s'" by (simp add: store_ok_def)
  then show ?thesis using that [OF up _ le ptrs cont] by (simp add: e_def s'_def)
qed

section \<open>The flip\<close>

text \<open>How the services change under clients of the store: blobs are added, a manifest that changes gets
  an ETag that was not issued before.\<close>

definition evolves :: "(nat \<Rightarrow> string) \<Rightarrow> azure_state \<Rightarrow> azure_state \<Rightarrow> bool" where
  "evolves tags s t \<longleftrightarrow> blobs_le s t \<and> az_tags s \<le> az_tags t
     \<and> (\<forall>k. dict_get (az_index t) k = dict_get (az_index s) k
          \<or> (\<exists>m i. az_tags s \<le> i \<and> dict_get (az_index t) k = Some (m, tags i)))"

lemma evolves_refl [simp]: "evolves tags s s"
  by (simp add: evolves_def)

lemma evolves_trans: "evolves tags s t \<Longrightarrow> evolves tags t u \<Longrightarrow> evolves tags s u"
proof -
  assume st: "evolves tags s t" and tu: "evolves tags t u"
  then have le: "az_tags s \<le> az_tags t" "az_tags t \<le> az_tags u" "blobs_le s u"
    by (auto simp: evolves_def intro: blobs_le_trans)
  have "dict_get (az_index u) k = dict_get (az_index s) k
      \<or> (\<exists>m i. az_tags s \<le> i \<and> dict_get (az_index u) k = Some (m, tags i))" for k
  proof (cases "dict_get (az_index u) k = dict_get (az_index t) k")
    case True
    then show ?thesis using st unfolding evolves_def by metis
  next
    case False
    then obtain m i where "az_tags t \<le> i" "dict_get (az_index u) k = Some (m, tags i)"
      using tu unfolding evolves_def by blast
    then show ?thesis using le(1) by (meson order_trans)
  qed
  then show ?thesis using le unfolding evolves_def by auto
qed

lemma content_frame:
  "az_estates t = az_estates s \<Longrightarrow> az_graphs t = az_graphs s \<Longrightarrow> az_findings t = az_findings s \<Longrightarrow>
   az_advisories t = az_advisories s \<Longrightarrow> content t m = content s m"
  by (simp add: content_def)

lemma manifest_of_put:
  "manifest_of (put_manifest tags (encode_storage_key w) e s) k = (if k = w then Some e else manifest_of s k)"
  by (simp add: manifest_of_def manifest_with_etag_def put_manifest_def)

lemma put_manifest_ok:
  assumes "store_ok uuid tags s" "pointers_ok s e"
  shows "store_ok uuid tags (put_manifest tags (encode_storage_key (mf_workload e)) e s)"
    "evolves tags s (put_manifest tags (encode_storage_key (mf_workload e)) e s)"
proof -
  let ?s = "put_manifest tags (encode_storage_key (mf_workload e)) e s"
  have "names_fresh uuid ?s" "blobs_ok ?s"
    using assms(1) by (simp_all add: store_ok_def names_fresh_def blobs_ok_def put_manifest_def)
  moreover have "index_ok tags ?s"
  proof -
    have ptr: "pointers_ok ?s m \<longleftrightarrow> pointers_ok s m" for m by (simp add: pointers_ok_def put_manifest_def)
    have "\<exists>i < Suc (az_tags s). g = tags i" if "dict_get (az_index s) k = Some (m, g)" for k m g
      using assms(1) that less_SucI unfolding store_ok_def index_ok_def by blast
    then show ?thesis using assms
      by (auto simp: index_ok_def ptr store_ok_def) (auto simp: put_manifest_def split: if_splits)
  qed
  ultimately show "store_ok uuid tags ?s" by (simp add: store_ok_def)
  show "evolves tags s ?s"
    by (auto simp: evolves_def blobs_le_def put_manifest_def)
qed

text \<open>A flip succeeds exactly when the entity the client read is still the current one.\<close>

definition current :: "(nat \<Rightarrow> string) \<Rightarrow> azure_state \<Rightarrow> string \<Rightarrow> (manifest \<times> string) option \<Rightarrow> bool" where
  "current tags s w held \<longleftrightarrow> (case held of None \<Rightarrow> True | Some (m, t) \<Rightarrow>
     (\<exists>i < az_tags s. t = tags i \<and> pointers_ok s m
        \<and> (\<exists>m' t'. manifest_with_etag s w = Some (m', t') \<and> (t' = t \<longrightarrow> m' = m))))"

lemma current_read:
  assumes "store_ok uuid tags s"
  shows "current tags s w (manifest_with_etag s w)"
proof (cases "manifest_with_etag s w")
  case (Some p)
  obtain m t where p: "p = (m, t)" by force
  then show ?thesis using assms Some
    by (auto simp: current_def store_ok_def index_ok_def manifest_with_etag_def)
qed (simp add: current_def)

lemma current_evolves:
  assumes "current tags s w held" "evolves tags s t" "inj tags"
  shows "current tags t w held"
proof (cases held)
  case (Some p)
  obtain m g where p: "p = (m, g)" by force
  obtain i m' t' where i: "i < az_tags s" "g = tags i" "pointers_ok s m"
      and row: "dict_get (az_index s) (encode_storage_key w) = Some (m', t')" "t' = g \<longrightarrow> m' = m"
    using assms(1) by (auto simp: current_def Some p manifest_with_etag_def)
  have le: "az_tags s \<le> az_tags t" "pointers_ok t m"
    using assms(2) content_mono(2) [OF i(3)] by (auto simp: evolves_def)
  have "dict_get (az_index t) (encode_storage_key w) = dict_get (az_index s) (encode_storage_key w)
      \<or> (\<exists>m n. az_tags s \<le> n \<and> dict_get (az_index t) (encode_storage_key w) = Some (m, tags n))"
    using assms(2) unfolding evolves_def by blast
  moreover have "tags n \<noteq> g" if "az_tags s \<le> n" for n
    using i that injD [OF assms(3), of n i] by auto
  ultimately have "\<exists>m' t'. manifest_with_etag t w = Some (m', t') \<and> (t' = g \<longrightarrow> m' = m)"
    using row by (auto simp: manifest_with_etag_def)
  then show ?thesis using i le by (auto simp: current_def Some p intro!: exI [of _ i])
qed (simp add: current_def)

lemma flip_cases:
  assumes ok: "store_ok uuid tags s" and e: "pointers_ok s e" and cur: "current tags s (mf_workload e) held"
  obtains (won) "manifest_with_etag s (mf_workload e) = held"
      "flip tags held e s = (Inr True, put_manifest tags (encode_storage_key (mf_workload e)) e s)"
    | (lost) "manifest_with_etag s (mf_workload e) \<noteq> held" "flip tags held e s = (Inr False, s)"
proof (cases held)
  case None
  then show ?thesis using won lost
    by (cases "manifest_with_etag s (mf_workload e)") (simp_all add: flip_def Let_def manifest_with_etag_def)
next
  case (Some p)
  obtain m t where p: "p = (m, t)" by force
  obtain m' t' where r: "manifest_with_etag s (mf_workload e) = Some (m', t')" "t' = t \<longrightarrow> m' = m"
    using cur by (auto simp: current_def Some p)
  then show ?thesis using won lost
    by (cases "t' = t") (simp_all add: flip_def Let_def manifest_with_etag_def Some p)
qed

text \<open>One attempt, whatever well-behaved clients do in its middle.\<close>

definition behaved :: "(nat \<Rightarrow> string) \<Rightarrow> (nat \<Rightarrow> string) \<Rightarrow> (azure_state \<Rightarrow> azure_state) \<Rightarrow> bool" where
  "behaved uuid tags f \<longleftrightarrow>
     (\<forall>s. store_ok uuid tags s \<longrightarrow> store_ok uuid tags (f s) \<and> evolves tags s (f s))"

lemma upload_evolves: "blobs_le s s' \<Longrightarrow> az_index s' = az_index s \<Longrightarrow> az_tags s' = az_tags s \<Longrightarrow> evolves tags s s'"
  by (simp add: evolves_def)

lemma attempt_cases:
  assumes ok: "store_ok uuid tags s" and job: "job_ok j" and inj: "inj uuid" "inj tags"
    and others: "behaved uuid tags others"
  obtains (won) e t s' where "attempt uuid tags j others s = (Inr True, s')"
      "store_ok uuid tags s'" "evolves tags s s'"
      "s' = put_manifest tags (encode_storage_key (cj_workload j)) e t"
      "mf_workload e = cj_workload j"
      "manifest_with_etag t (cj_workload j) = manifest_with_etag s (cj_workload j)"
      "content t (Some e) = apply_job j (content t (manifest_of t (cj_workload j)))"
      "\<forall>n. others = quiet n \<longrightarrow> blobs_le s t \<and> az_index t = az_index s \<and> az_snapshots t = az_snapshots s
        \<and> az_payloads t = az_payloads s \<and> az_assignments t = az_assignments s \<and> az_imports t = az_imports s
        \<and> az_config t = az_config s \<and> az_audit t = az_audit s \<and> az_audit_head t = az_audit_head s"
    | (lost) s' t where "attempt uuid tags j others s = (Inr False, s')" "store_ok uuid tags s'"
      "evolves tags s s'" "store_ok uuid tags t" "s' = others t" "az_index t = az_index s"
      "manifest_with_etag s' (cj_workload j) \<noteq> manifest_with_etag t (cj_workload j)"
proof -
  let ?w = "cj_workload j"
  let ?held = "manifest_with_etag s ?w"
  have cur: "current tags s ?w ?held" by (rule current_read [OF ok])
  have m: "\<forall>m'. map_option fst ?held = Some m' \<longrightarrow> pointers_ok s m'"
    using cur by (auto simp: current_def)
  obtain e s1 where up: "upload uuid j (map_option fst ?held) s = (Inr e, s1)"
    and s1: "store_ok uuid tags s1" "blobs_le s s1" "pointers_ok s1 e"
    and c: "content s1 (Some e) = apply_job j (content s (map_option fst ?held))" "mf_workload e = ?w"
    and f: "az_index s1 = az_index s" "az_tags s1 = az_tags s" "az_snapshots s1 = az_snapshots s"
      "az_payloads s1 = az_payloads s" "az_assignments s1 = az_assignments s" "az_imports s1 = az_imports s"
      "az_config s1 = az_config s" "az_audit s1 = az_audit s" "az_audit_head s1 = az_audit_head s"
    by (rule upload_ok [OF ok job m inj(1)]) blast
  define t where "t = others s1"
  have t: "store_ok uuid tags t" "evolves tags s1 t"
    using others s1(1) by (simp_all add: behaved_def t_def)
  have ev: "evolves tags s s1" "evolves tags s t"
    using upload_evolves [OF s1(2) f(1,2)] evolves_trans t(2) by blast+
  have le: "blobs_le s t" "blobs_le s1 t" using ev t(2) by (auto simp: evolves_def)
  have et: "pointers_ok t e" "content t (Some e) = content s1 (Some e)"
    using content_mono [OF s1(3) le(2)] by simp_all
  have curt: "current tags t (mf_workload e) ?held"
    unfolding c(2) by (rule current_evolves [OF cur ev(2) inj(2)])
  have att: "attempt uuid tags j others s = flip tags ?held e t"
    by (simp add: attempt_def Let_def abind_def up t_def)
  from t(1) et(1) curt show ?thesis
  proof (cases rule: flip_cases)
    case flip_won: won
    have held: "manifest_of t ?w = map_option fst ?held"
      using flip_won(1) by (simp add: manifest_of_def c(2))
    have "content t (map_option fst ?held) = content s (map_option fst ?held)"
    proof (cases "map_option fst ?held")
      case None
      then show ?thesis by (simp only: content_None)
    next
      case (Some m')
      with m content_mono(1) [OF _ le(1), of m'] show ?thesis by (simp only:)
    qed
    then have cont: "content t (Some e) = apply_job j (content t (manifest_of t ?w))"
      by (simp add: et(2) c(1) held)
    show ?thesis
    proof (rule won [of "put_manifest tags (encode_storage_key ?w) e t" e t])
      show "store_ok uuid tags (put_manifest tags (encode_storage_key ?w) e t)"
        using put_manifest_ok(1) [OF t(1) et(1)] by (simp add: c(2))
      show "evolves tags s (put_manifest tags (encode_storage_key ?w) e t)"
        using evolves_trans [OF ev(2)] put_manifest_ok(2) [OF t(1) et(1)] by (simp add: c(2))
      show "\<forall>n. others = quiet n \<longrightarrow> blobs_le s t \<and> az_index t = az_index s \<and> az_snapshots t = az_snapshots s
          \<and> az_payloads t = az_payloads s \<and> az_assignments t = az_assignments s \<and> az_imports t = az_imports s
          \<and> az_config t = az_config s \<and> az_audit t = az_audit s \<and> az_audit_head t = az_audit_head s"
        using s1(2) by (auto simp: t_def quiet_def f)
    qed (use flip_won cont in \<open>simp_all add: att c(2)\<close>)
  next
    case flip_lost: lost
    show ?thesis
      by (rule lost [of t s1])
         (use flip_lost t(1) ev(2) s1(1) in \<open>simp_all add: att c(2) t_def manifest_with_etag_def f\<close>)
  qed
qed

section \<open>Commits complete\<close>

lemma quiet_behaved: "behaved uuid tags (quiet n)"
  by (simp add: behaved_def quiet_def)

lemma commit_quiet:
  assumes ok: "store_ok uuid tags s" and job: "job_ok j" and inj: "inj uuid" "inj tags"
  obtains e t s' where "commit uuid tags j quiet s = (Inr (job_counts j), s')"
    "store_ok uuid tags s'" "evolves tags s s'"
    "s' = put_manifest tags (encode_storage_key (cj_workload j)) e t"
    "content t (Some e) = apply_job j (content t (manifest_of t (cj_workload j)))"
    "blobs_le s t" "az_index t = az_index s" "az_snapshots t = az_snapshots s"
    "az_payloads t = az_payloads s" "az_assignments t = az_assignments s" "az_imports t = az_imports s"
    "az_config t = az_config s" "az_audit t = az_audit s" "az_audit_head t = az_audit_head s"
proof -
  have gates: "enforce_finding_provenance (cj_findings j) = Inr ()"
      "revalidate_finding_provenance (cj_findings j) = Inr ()"
    using job by (auto simp: enforce_finding_provenance_iff revalidate_iff job_ok_def storable_def)
  have c: "commit uuid tags j quiet s =
      abind (attempt uuid tags j (quiet 7)) (\<lambda>flipped. if flipped then areturn (job_counts j)
        else commit_loop uuid tags j quiet 7) s"
  proof -
    have m: "MAX_COMMIT_RETRIES = Suc 7" by (simp add: MAX_COMMIT_RETRIES_def)
    show ?thesis by (simp only: commit_def gates sum.case m commit_loop.simps(2))
  qed
  from ok job inj quiet_behaved [of uuid tags 7] show ?thesis
  proof (cases rule: attempt_cases)
    case (won e t s')
    show ?thesis
      by (rule that [of s' e t])
         (use won(1-4,7) won(8) [rule_format, OF refl] in \<open>simp_all add: c abind_def areturn_def\<close>)
  next
    case (lost s' t)
    then show ?thesis by (simp add: quiet_def)
  qed
qed

text \<open>A bounded number of attempts is enough when one of them is left alone.\<close>

lemma commit_loop_completes:
  assumes job: "job_ok j" and inj: "inj uuid" "inj tags"
    and others: "\<And>n. behaved uuid tags (others n)"
    and alone: "\<exists>n < k. \<forall>t. store_ok uuid tags t \<longrightarrow>
      manifest_with_etag (others n t) (cj_workload j) = manifest_with_etag t (cj_workload j)"
    and ok: "store_ok uuid tags s"
  shows "\<exists>e t s'. commit_loop uuid tags j others k s = (Inr (job_counts j), s')
    \<and> s' = put_manifest tags (encode_storage_key (cj_workload j)) e t \<and> evolves tags s s' \<and> store_ok uuid tags s'
    \<and> content t (Some e) = apply_job j (content t (manifest_of t (cj_workload j)))"
  using alone ok
proof (induction k arbitrary: s)
  case (Suc k)
  from Suc.prems(2) job inj others [of k] show ?case
  proof (cases rule: attempt_cases)
    case (won e t s')
    have c: "commit_loop uuid tags j others (Suc k) s = (Inr (job_counts j), s')"
      using won(1) by (simp add: abind_def areturn_def)
    show ?thesis
      by (intro exI [of _ e] exI [of _ t] exI [of _ s'] conjI)
         (fact c won(4) won(3) won(2) won(7))+
  next
    case (lost s' t)
    have "\<not> (\<forall>u. store_ok uuid tags u \<longrightarrow>
        manifest_with_etag (others k u) (cj_workload j) = manifest_with_etag u (cj_workload j))"
      using lost(4,5,7) by metis
    then have "\<exists>n < k. \<forall>u. store_ok uuid tags u \<longrightarrow>
        manifest_with_etag (others n u) (cj_workload j) = manifest_with_etag u (cj_workload j)"
      using Suc.prems(1) less_Suc_eq by metis
    from Suc.IH [OF this lost(2)] obtain e u v where
      loop: "commit_loop uuid tags j others k s' = (Inr (job_counts j), v)"
      and v: "v = put_manifest tags (encode_storage_key (cj_workload j)) e u" "evolves tags s' v"
        "store_ok uuid tags v" "content u (Some e) = apply_job j (content u (manifest_of u (cj_workload j)))"
      by blast
    have c: "commit_loop uuid tags j others (Suc k) s = (Inr (job_counts j), v)"
      using lost(1) loop by (simp add: abind_def)
    show ?thesis
      by (intro exI [of _ e] exI [of _ u] exI [of _ v] conjI)
         (fact c v(1) evolves_trans [OF lost(3) v(2)] v(3) v(4))+
  qed
qed simp

text \<open>The cells after a quiet commit.\<close>

lemma commit_quiet_cells:
  assumes ok: "store_ok uuid tags s" and "blobs_le s t" "az_index t = az_index s"
    and s': "s' = put_manifest tags (encode_storage_key w) e t"
    and c: "content t (Some e) = apply_job j (content t (manifest_of t w))"
  shows "content s' (manifest_of s' k) =
    (if k = w then apply_job j (content s (manifest_of s w)) else content s (manifest_of s k))"
proof -
  have f: "content s' m = content t m" for m
    by (rule content_frame) (simp_all add: s' put_manifest_def)
  have old: "content t (manifest_of t k) = content s (manifest_of s k)" for k
  proof -
    have m: "manifest_of t k = manifest_of s k"
      using assms(3) by (simp add: manifest_of_def manifest_with_etag_def)
    show ?thesis
    proof (cases "manifest_of s k")
      case None
      then show ?thesis by (simp only: m content_None)
    next
      case (Some m')
      then have "pointers_ok s m'"
        using current_read [OF ok, of k] by (auto simp: manifest_of_def current_def)
      from content_mono(1) [OF this assms(2)] show ?thesis by (simp only: m Some)
    qed
  qed
  have m: "manifest_of s' k = (if k = w then Some e else manifest_of t k)"
    by (simp add: s' manifest_of_put)
  show ?thesis
  proof (cases "k = w")
    case True
    with m have "manifest_of s' k = Some e" by simp
    then show ?thesis using True by (simp only: f c old [of w] simp_thms if_True)
  next
    case False
    with m have "manifest_of s' k = manifest_of t k" by simp
    then show ?thesis using False by (simp only: f old [of k] if_False)
  qed
qed

end
