(* ===== verification/State_Refines.thy ===== *)
theory State_Refines
  imports State_Parity
begin

text \<open>
  The two backends of \<open>shared/state.py\<close> side by side: the relation between an Azure store and a local
  one that every operation of the \<open>StateStore\<close> protocol keeps, and what follows for their readers.
\<close>

section \<open>Sorted listings\<close>

lemma map_sort_key:
  assumes "\<forall>e \<in> set xs. g e = key (f e)"
  shows "map f (sort_key g xs) = sort_key key (map f xs)"
  using assms
proof (induction xs)
  case (Cons x xs)
  have "map f (insort_key g x ys) = insort_key key (f x) (map f ys)" if "\<forall>e \<in> set ys. g e = key (f e)" for ys
    using that Cons.prems by (induction ys) auto
  then show ?case using Cons by simp
qed simp

text \<open>The values of the entries whose key satisfies \<open>P\<close>.\<close>

definition selected :: "('k \<Rightarrow> bool) \<Rightarrow> ('k, 'v) dict \<Rightarrow> 'v list" where
  "selected P d = map snd (filter (\<lambda>e. P (fst e)) d)"

lemma selected_set: "dict_wf d \<Longrightarrow> v \<in> set (selected P d) \<longleftrightarrow> (\<exists>k. dict_get d k = Some v \<and> P k)"
proof -
  assume wf: "dict_wf d"
  have "v \<in> set (selected P d) \<longleftrightarrow> (\<exists>k. (k, v) \<in> set d \<and> P k)" by (auto simp: selected_def image_iff)
  then show ?thesis unfolding dict_get_mem [OF wf] .
qed

lemma selected_iff:
  assumes "dict_wf d" "\<And>x. (x, v) \<in> set d \<Longrightarrow> P x \<Longrightarrow> x = kv"
  shows "v \<in> set (selected P d) \<longleftrightarrow> P kv \<and> dict_get d kv = Some v"
  unfolding selected_set [OF assms(1)] using assms(2) dict_get_mem [OF assms(1)] by metis

lemma selected_distinct:
  assumes "dict_wf d" "\<And>x v. (x, v) \<in> set d \<Longrightarrow> P x \<Longrightarrow> x = h (key v)"
  shows "distinct (map key (selected P d))"
  using assms
proof (induction d)
  case (Cons e d)
  obtain x v where e: "e = (x, v)" by force
  have "key v \<notin> key ` set (selected P d)" if "P x"
  proof
    assume "key v \<in> key ` set (selected P d)"
    then obtain y u where u: "(y, u) \<in> set d" "P y" "key u = key v" by (auto simp: selected_def)
    then have "y = x" using Cons.prems(2) [of y u] Cons.prems(2) [of x v] that by (simp add: e)
    then show False using u(1) Cons.prems(1) by (force simp: e)
  qed
  then show ?case using Cons by (auto simp: selected_def e)
qed (simp add: selected_def)

lemma listing_selected:
  assumes "\<And>x v. (x, v) \<in> set d \<Longrightarrow> P x \<Longrightarrow> g x = key v"
  shows "listing P g d = sort_key key (selected P d)"
  unfolding listing_def selected_def by (rule map_sort_key) (use assms in force)

lemma selected_pair: "selected (\<lambda>(p, _). p = x) d = map snd (filter (\<lambda>((p, _), _). p = x) d)"
  unfolding selected_def by (rule arg_cong [where f = "map snd"]) (rule filter_cong, auto)

text \<open>Two keyed listings of the same values are the same list.\<close>

lemma sort_key_same_set:
  assumes "distinct (map key xs)" "distinct (map key ys)" "set xs = set ys"
  shows "sort_key key xs = sort_key key ys"
proof (rule sort_key_mset_eq)
  show "mset xs = mset ys" using assms by (metis distinct_map set_eq_iff_mset_eq_distinct)
  show "inj_on key (set xs)" using assms(1) by (simp add: distinct_map)
qed

section \<open>The relation\<close>

definition no_nul :: "string \<Rightarrow> bool" where
  "no_nul v \<longleftrightarrow> CHR 0x00 \<notin> set v"

definition azure_previous :: "azure_state \<Rightarrow> string \<Rightarrow> finding list \<times> string list" where
  "azure_previous a w =
     (case azure_latest_snapshot a w of None \<Rightarrow> ([], []) | Some p \<Rightarrow> (sp_findings p, sp_nodes p))"

definition same_cells :: "azure_state \<Rightarrow> local_state \<Rightarrow> bool" where
  "same_cells a l \<longleftrightarrow> (\<forall>k. content a (manifest_of a k) = local_cell l k)"

definition same_assignments :: "azure_state \<Rightarrow> local_state \<Rightarrow> bool" where
  "same_assignments a l \<longleftrightarrow>
     rows_ok (az_assignments a) (\<lambda>x k. k = (encode_storage_key (pa_workload x), encode_storage_key (pa_packId x)))
     \<and> (\<forall>k p. dict_get (az_assignments a) (encode_storage_key k, encode_storage_key p)
               = dict_get (ls_assignments l) (k, p))"

definition same_imports :: "azure_state \<Rightarrow> local_state \<Rightarrow> bool" where
  "same_imports a l \<longleftrightarrow> rows_ok (az_imports a) (\<lambda>p k. k = import_key p \<and> no_nul (ip_packId p))
     \<and> (\<forall>x \<in> set (ls_imported l). no_nul (ip_packId (snd x)))
     \<and> (\<forall>k p v. no_nul p \<longrightarrow> dict_get (az_imports a) (encode_storage_key k, import_row p v)
               = dict_get (ls_imported l) (k, p, v))"

definition same_config :: "azure_state \<Rightarrow> local_state \<Rightarrow> bool" where
  "same_config a l \<longleftrightarrow> (\<forall>k. dict_get (az_config a) (encode_storage_key k) = dict_get (ls_config l) k)"

definition same_audit :: "(nat list \<Rightarrow> string) \<Rightarrow> (int \<Rightarrow> string) \<Rightarrow> azure_state \<Rightarrow> local_state \<Rightarrow> bool" where
  "same_audit sha ts a l \<longleftrightarrow>
     az_audit a = zip (map (pad 12) [1..<Suc (length (ls_audit l))]) (ls_audit l)
     \<and> map_option (\<lambda>((h, i), _). (h, i)) (az_audit_head a)
       = map_option (\<lambda>h. (h, length (ls_audit l))) (ls_audit_head l)
     \<and> (ls_audit_head l = None \<longleftrightarrow> ls_audit l = [])"

text \<open>Every snapshot row has a padded sequence number up to \<open>N\<close> and its own complete payload.\<close>

definition snapshots_below :: "nat \<Rightarrow> azure_state \<Rightarrow> bool" where
  "snapshots_below N a \<longleftrightarrow>
     (\<forall>w rk e. ((encode_storage_key w, rk), e) \<in> set (az_snapshots a) \<longrightarrow>
        (\<exists>n. n \<le> N \<and> rk = pad 6 n \<and> se_complete e \<and> se_blob e = snapshot_blob (encode_storage_key w) n
           \<and> dict_get (az_payloads a) (se_blob e) \<noteq> None))
     \<and> (\<forall>w n. \<not> claimed a (encode_storage_key w) n \<longrightarrow>
          dict_get (az_payloads a) (snapshot_blob (encode_storage_key w) n) = None)"

definition same_previous :: "azure_state \<Rightarrow> local_state \<Rightarrow> bool" where
  "same_previous a l \<longleftrightarrow> (\<forall>k. azure_previous a k = previous l k)"

definition parity ::
    "(nat \<Rightarrow> string) \<Rightarrow> (nat \<Rightarrow> string) \<Rightarrow> (nat list \<Rightarrow> string) \<Rightarrow> (int \<Rightarrow> string) \<Rightarrow> nat
     \<Rightarrow> azure_state \<Rightarrow> local_state \<Rightarrow> bool" where
  "parity uuid tags sha ts N a l \<longleftrightarrow> store_ok uuid tags a \<and> local_inv sha ts l \<and> same_cells a l
     \<and> same_previous a l \<and> snapshots_below N a \<and> same_assignments a l \<and> same_imports a l
     \<and> same_config a l \<and> same_audit sha ts a l"

lemma empty_parity: "parity uuid tags sha ts 0 empty_azure empty_state"
proof -
  have "store_ok uuid tags empty_azure"
    by (simp add: store_ok_def names_fresh_def blobs_ok_def index_ok_def empty_azure_def)
  moreover have "same_cells empty_azure empty_state"
    by (simp add: same_cells_def empty_azure_def empty_state_def manifest_of_def manifest_with_etag_def
        content_None local_cell_def read_estate_def fun_eq_iff)
  moreover have "same_previous empty_azure empty_state"
    by (simp add: same_previous_def azure_previous_def azure_latest_snapshot_def snapshot_rows_def
        empty_azure_def empty_state_def previous_def latest_snapshot_def)
  moreover have "same_audit sha ts empty_azure empty_state"
    by (simp add: same_audit_def empty_azure_def empty_state_def)
  ultimately show ?thesis
    by (simp add: parity_def empty_state_inv)
       (simp add: snapshots_below_def same_assignments_def same_imports_def same_config_def rows_ok_def
          empty_azure_def empty_state_def)
qed

section \<open>Readers see the same\<close>

lemma same_findings:
  assumes "store_ok uuid tags a" "local_inv sha ts l" "same_cells a l"
  shows "azure_get_findings a k None = read_findings l k None"
proof -
  let ?P = "\<lambda>(w', _, _). w' = k"
  have key: "x = (k, finding_key f)" if "(x, f) \<in> set (ls_findings l)" "?P x" for x f
    using that assms(2) by (cases x) (auto simp: local_inv_def rows_ok_def finding_row_ok_def finding_key_def)
  have wf: "dict_wf (ls_findings l)" using assms(2) by (simp add: local_inv_def rows_ok_def)
  have rows: "finding_rows l k = sort_key finding_key (selected ?P (ls_findings l))"
    unfolding finding_rows_def by (rule listing_selected) (use key in force)
  have bok: "blobs_ok a" using assms(1) by (simp add: store_ok_def)
  let ?raw = "raw_findings a (manifest_of a k)"
  have cell: "find (\<lambda>f. finding_key f = kk) ?raw = dict_get (ls_findings l) (k, kk)" for kk
  proof -
    have "c_findings (content a (manifest_of a k)) kk = c_findings (local_cell l k) kk"
      using assms(3) by (simp add: same_cells_def)
    then show ?thesis by (cases kk) (simp add: content_def local_cell_def)
  qed
  have "sort_key finding_key ?raw = sort_key finding_key (selected ?P (ls_findings l))"
  proof (rule sort_key_same_set)
    show "distinct (map finding_key ?raw)" by (rule raw_findings_ok [OF bok])
    show "distinct (map finding_key (selected ?P (ls_findings l)))"
      by (rule selected_distinct [OF wf, where h = "\<lambda>kk. (k, kk)"]) (erule (1) key)
    have "f \<in> set ?raw \<longleftrightarrow> dict_get (ls_findings l) (k, finding_key f) = Some f" for f
      using find_key_iff [OF raw_findings_ok(2) [OF bok, where m = "manifest_of a k"], of "finding_key f" f] cell by simp
    moreover have "f \<in> set (selected ?P (ls_findings l)) \<longleftrightarrow> dict_get (ls_findings l) (k, finding_key f) = Some f" for f
      by (simp add: selected_iff [OF wf key])
    ultimately show "set ?raw = set (selected ?P (ls_findings l))" by blast
  qed
  then show ?thesis
    by (simp add: azure_get_findings_def findings_of_ok [OF bok] read_findings_ok [OF assms(2)] rows)
qed

lemma same_advisories:
  assumes "store_ok uuid tags a" "local_inv sha ts l" "same_cells a l"
  shows "azure_get_rca_advisories a k = get_rca_advisories l k"
proof -
  let ?P = "\<lambda>(w', _). w' = k"
  have key: "x = (k, ra_index f)" if "(x, f) \<in> set (ls_rca l)" "?P x" for x f
    using that assms(2) by (cases x) (auto simp: local_inv_def rows_ok_def)
  have wf: "dict_wf (ls_rca l)" using assms(2) by (simp add: local_inv_def rows_ok_def)
  have rows: "get_rca_advisories l k = sort_key ra_index (selected ?P (ls_rca l))"
    unfolding get_rca_advisories_def by (rule listing_selected) (use key in force)
  have bok: "blobs_ok a" using assms(1) by (simp add: store_ok_def)
  let ?raw = "raw_advisories a (manifest_of a k)"
  have cell: "find (\<lambda>f. ra_index f = i) ?raw = dict_get (ls_rca l) (k, i)" for i
  proof -
    have "c_advisories (content a (manifest_of a k)) i = c_advisories (local_cell l k) i"
      using assms(3) by (simp add: same_cells_def)
    then show ?thesis by (simp add: content_def local_cell_def)
  qed
  have "sort_key ra_index ?raw = sort_key ra_index (selected ?P (ls_rca l))"
  proof (rule sort_key_same_set)
    show "distinct (map ra_index ?raw)" by (rule raw_findings_ok [OF bok])
    show "distinct (map ra_index (selected ?P (ls_rca l)))"
      by (rule selected_distinct [OF wf, where h = "\<lambda>kk. (k, kk)"]) (erule (1) key)
    have "f \<in> set ?raw \<longleftrightarrow> dict_get (ls_rca l) (k, ra_index f) = Some f" for f
      using find_key_iff [OF raw_findings_ok(3) [OF bok, where m = "manifest_of a k"], of "ra_index f" f] cell by simp
    moreover have "f \<in> set (selected ?P (ls_rca l)) \<longleftrightarrow> dict_get (ls_rca l) (k, ra_index f) = Some f" for f
      by (simp add: selected_iff [OF wf key])
    ultimately show "set ?raw = set (selected ?P (ls_rca l))" by blast
  qed
  moreover have "azure_get_rca_advisories a k = sort_key ra_index ?raw"
    by (simp add: azure_get_rca_advisories_def advisories_of_def blob_list_def split: option.split)
  ultimately show ?thesis by (simp add: rows)
qed

lemma same_assignment_lists:
  assumes "local_inv sha ts l" "same_assignments a l"
  shows "azure_get_assignments a k = get_pack_assignments l k"
proof -
  let ?P = "\<lambda>(w', _). w' = k" and ?Q = "\<lambda>(p, _). p = encode_storage_key k"
  have wf: "dict_wf (ls_assignments l)" "dict_wf (az_assignments a)"
    using assms by (simp_all add: local_inv_def rows_ok_def same_assignments_def)
  have key: "x = (pa_workload f, pa_packId f)" if "(x, f) \<in> set (ls_assignments l)" for x f
    using that assms(1) by (auto simp: local_inv_def rows_ok_def)
  have keya: "x = (encode_storage_key (pa_workload f), encode_storage_key (pa_packId f))"
    if "(x, f) \<in> set (az_assignments a)" for x f
    using that assms(2) by (auto simp: same_assignments_def rows_ok_def)
  have rows: "get_pack_assignments l k = sort_key pa_packId (selected ?P (ls_assignments l))"
    unfolding get_pack_assignments_def by (rule listing_selected) (use key in force)
  have "sort_key pa_packId (selected ?Q (az_assignments a)) = sort_key pa_packId (selected ?P (ls_assignments l))"
  proof (rule sort_key_same_set)
    show "distinct (map pa_packId (selected ?Q (az_assignments a)))"
      by (rule selected_distinct [OF wf(2), where h = "\<lambda>p. (encode_storage_key k, encode_storage_key p)"])
         (use keya in force)
    show "distinct (map pa_packId (selected ?P (ls_assignments l)))"
      by (rule selected_distinct [OF wf(1), where h = "\<lambda>p. (k, p)"]) (use key in force)
    have 1: "f \<in> set (selected ?Q (az_assignments a)) \<longleftrightarrow>
        pa_workload f = k \<and> dict_get (az_assignments a) (encode_storage_key k, encode_storage_key (pa_packId f)) = Some f" for f
      by (simp add: selected_iff [OF wf(2) keya] cong: conj_cong)
    have 2: "f \<in> set (selected ?P (ls_assignments l)) \<longleftrightarrow>
        pa_workload f = k \<and> dict_get (ls_assignments l) (k, pa_packId f) = Some f" for f
      by (simp add: selected_iff [OF wf(1) key] cong: conj_cong)
    have 3: "dict_get (az_assignments a) (encode_storage_key k, encode_storage_key p) = dict_get (ls_assignments l) (k, p)" for p
      using assms(2) by (simp add: same_assignments_def)
    show "set (selected ?Q (az_assignments a)) = set (selected ?P (ls_assignments l))"
      by (rule set_eqI) (simp only: 1 2 3)
  qed
  then show ?thesis
    by (simp only: rows azure_get_assignments_def selected_pair)
qed

lemma import_row_inj:
  "no_nul p \<Longrightarrow> no_nul q \<Longrightarrow> import_row p v = import_row q u \<longleftrightarrow> p = q \<and> v = u"
  using append_sep_inj [of "CHR 0x00" p q v u] by (auto simp: import_row_def no_nul_def)

lemma same_import_lists:
  assumes "local_inv sha ts l" "same_imports a l"
  shows "azure_list_imported a k = list_imported_packs l k"
proof -
  let ?P = "\<lambda>(sc, _, _). sc = k" and ?Q = "\<lambda>(p, _). p = encode_storage_key k"
  let ?key = "\<lambda>p. (ip_packId p, ip_version p)"
  have wf: "dict_wf (ls_imported l)" "dict_wf (az_imports a)"
    using assms by (simp_all add: local_inv_def rows_ok_def same_imports_def)
  have key: "x = (ip_scope f, ip_packId f, ip_version f) \<and> no_nul (ip_packId f)"
    if "(x, f) \<in> set (ls_imported l)" for x f
    using that assms by (auto simp: local_inv_def rows_ok_def same_imports_def)
  have keya: "x = (encode_storage_key (ip_scope f), import_row (ip_packId f) (ip_version f)) \<and> no_nul (ip_packId f)"
    if "(x, f) \<in> set (az_imports a)" for x f
    using that assms(2) by (auto simp: same_imports_def rows_ok_def import_key_def)
  have rows: "list_imported_packs l k = sort_key ?key (selected ?P (ls_imported l))"
    unfolding list_imported_packs_def by (rule listing_selected) (use key in force)
  have "sort_key ?key (selected ?Q (az_imports a)) = sort_key ?key (selected ?P (ls_imported l))"
  proof (rule sort_key_same_set)
    show "distinct (map ?key (selected ?Q (az_imports a)))"
      by (rule selected_distinct [OF wf(2), where h = "\<lambda>(p, v). (encode_storage_key k, import_row p v)"])
         (use keya in force)
    show "distinct (map ?key (selected ?P (ls_imported l)))"
      by (rule selected_distinct [OF wf(1), where h = "\<lambda>(p, v). (k, p, v)"]) (use key in force)
    have 1: "f \<in> set (selected ?Q (az_imports a)) \<longleftrightarrow> ip_scope f = k \<and> no_nul (ip_packId f)
        \<and> dict_get (az_imports a) (encode_storage_key k, import_row (ip_packId f) (ip_version f)) = Some f" for f
      using keya [OF map_of_SomeD, of _ f] by (auto simp: selected_iff [OF wf(2) conjunct1 [OF keya]] cong: conj_cong)
    have 2: "f \<in> set (selected ?P (ls_imported l)) \<longleftrightarrow> ip_scope f = k \<and> no_nul (ip_packId f)
        \<and> dict_get (ls_imported l) (k, ip_packId f, ip_version f) = Some f" for f
      using key [OF map_of_SomeD, of _ f] by (auto simp: selected_iff [OF wf(1) conjunct1 [OF key]] cong: conj_cong)
    have 3: "dict_get (az_imports a) (encode_storage_key k, import_row (ip_packId f) (ip_version f))
        = dict_get (ls_imported l) (k, ip_packId f, ip_version f)" if "no_nul (ip_packId f)" for f
      using assms(2) that by (simp add: same_imports_def)
    show "set (selected ?Q (az_imports a)) = set (selected ?P (ls_imported l))"
      by (rule set_eqI) (simp only: 1 2 3 cong: conj_cong)
  qed
  then show ?thesis
    by (simp only: rows azure_list_imported_def selected_pair)
qed

lemma same_config_lists:
  assumes "local_inv sha ts l" "same_config a l"
  shows "azure_get_config a k = get_module_config l k"
proof -
  have "mc_scope c = k" if "dict_get (ls_config l) k = Some c" for c
    using assms(1) map_of_SomeD [OF that] by (auto simp: local_inv_def rows_ok_def)
  then show ?thesis using assms(2)
    by (cases "dict_get (ls_config l) k")
       (auto simp: azure_get_config_def get_module_config_def same_config_def)
qed

lemma same_audit_lists:
  assumes "same_audit sha ts a l" "length (ls_audit l) < 10 ^ 12"
  shows "azure_list_audit a None = ls_audit l" "azure_audit_head a = audit_head l"
proof -
  let ?rows = "map (pad 12) [1..<Suc (length (ls_audit l))]"
  have fst: "map fst (az_audit a) = ?rows" "map snd (az_audit a) = ls_audit l"
    using assms(1) by (simp_all add: same_audit_def del: upt_Suc)
  have "sorted_wrt (<) ?rows"
    unfolding sorted_wrt_map
    by (rule sorted_wrt_mono_rel [OF _ sorted_wrt_upt]) (use assms(2) in \<open>auto simp: pad_less\<close>)
  then have "sorted ?rows" by (simp add: strict_sorted_iff)
  then have "sort_key fst (az_audit a) = az_audit a"
    by (metis fst(1) sort_key_id_if_sorted)
  then show "azure_list_audit a None = ls_audit l"
    using fst(2) by (simp add: azure_list_audit_def)
  show "azure_audit_head a = audit_head l"
    using assms(1) by (auto simp: same_audit_def azure_audit_head_def audit_head_def split: option.splits)
qed

lemma parity_previous:
  assumes "parity uuid tags sha ts N a l"
  shows "azure_get_previous_findings a k = get_previous_findings l k"
    "azure_get_previous_node_ids a k = get_previous_node_ids l k"
proof -
  have p: "azure_previous a k = previous l k" and inv: "local_inv sha ts l"
    using assms by (simp_all add: parity_def same_previous_def)
  have st: "\<forall>f \<in> set (fst (previous l k)). storable f"
    using inv latest_snapshot_mem [of l k]
    by (auto simp: previous_def local_inv_def snapshots_ok_def split: option.splits)
  have "azure_get_previous_findings a k = rseq (map enforce_provenance (fst (azure_previous a k)))"
    by (simp add: azure_get_previous_findings_def azure_previous_def split: option.split)
  then show "azure_get_previous_findings a k = get_previous_findings l k"
    using st by (simp add: p validate_storable rseq_map_Inr get_previous_findings_ok [OF inv])
  show "azure_get_previous_node_ids a k = get_previous_node_ids l k"
    using arg_cong [OF p, of snd]
    by (simp add: azure_get_previous_node_ids_def azure_previous_def get_previous_node_ids_eq split: option.splits)
qed

text \<open>All reads but the listing of workloads.\<close>

lemma parity_view:
  assumes "parity uuid tags sha ts N a l"
  shows "(azure_view a k)\<lparr>sv_known := x\<rparr> = (local_view l k)\<lparr>sv_known := x\<rparr>"
proof -
  have st: "store_ok uuid tags a" and inv: "local_inv sha ts l" and cells: "same_cells a l"
    and rest: "same_assignments a l" "same_imports a l" "same_config a l"
    using assms by (simp_all add: parity_def)
  have "c_estate (content a (manifest_of a k)) = c_estate (local_cell l k)"
      "c_graph (content a (manifest_of a k)) = c_graph (local_cell l k)"
    using cells by (simp_all add: same_cells_def)
  then have "azure_get_estate a k = read_estate l k" "azure_get_graph a k = dict_get (ls_graph l) k"
    by (simp_all add: content_def local_cell_def azure_get_estate_def estate_of_def blob_list_def
        azure_get_graph_def graph_of_def)
  then show ?thesis
    by (simp add: azure_view_def local_view_def same_findings [OF st inv cells]
        same_advisories [OF st inv cells] same_assignment_lists [OF inv rest(1)]
        same_import_lists [OF inv rest(2)] same_config_lists [OF inv rest(3)] parity_previous [OF assms])
qed

section \<open>Writes keep the relation\<close>

text \<open>The tables a commit does not touch.\<close>

definition other_tables where
  "other_tables l = (ls_snapshots l, ls_assignments l, ls_imported l, ls_config l, ls_audit l, ls_audit_head l)"

lemma keeps_transaction:
  "(\<And>s. other_tables (snd (m s)) = other_tables s) \<Longrightarrow> other_tables (snd (transaction m s)) = other_tables s"
  by (auto simp: transaction_def split: prod.split sum.split) (metis snd_conv)

lemma keeps_bind:
  assumes "\<And>s. other_tables (snd (m s)) = other_tables s" "\<And>x s. other_tables (snd (f x s)) = other_tables s"
  shows "other_tables (snd (tbind m f s)) = other_tables s"
proof (cases "m s")
  case (Pair r s')
  with assms(1) [of s] assms(2) show ?thesis by (auto simp: tbind_def split: sum.split)
qed

lemma keeps_advisories: "other_tables (snd (insert_advisories w as s)) = other_tables s"
  by (induction as arbitrary: s) (auto simp: other_tables_def)

lemma keeps_commit_run: "other_tables (snd (commit_run b w r s)) = other_tables s"
proof -
  have fnd: "other_tables (snd (write_findings w fs s)) = other_tables s" for fs s
    by (auto simp: write_findings_def other_tables_def split: sum.split)
  have rca: "other_tables (snd (write_rca_advisories w as s)) = other_tables s" for as s
    by (simp add: write_rca_advisories_def keeps_advisories) (simp add: other_tables_def)
  show ?thesis unfolding commit_run_def
    by (intro keeps_transaction keeps_bind)
       (auto simp: treturn_def write_estate_def write_graph_def fnd rca keeps_bind
          split: option.split intro!: keeps_bind, auto simp: other_tables_def)
qed

lemma commit_parity:
  assumes par: "parity uuid tags sha ts N a l" and inj: "inj uuid" "inj tags" and job: "job_ok j"
    and l': "local_inv sha ts l'" "other_tables l' = other_tables l"
    and cells: "\<And>k. local_cell l' k = (if k = cj_workload j then apply_job j (local_cell l k) else local_cell l k)"
  shows "\<exists>a'. commit uuid tags j quiet a = (Inr (job_counts j), a') \<and> parity uuid tags sha ts N a' l'"
proof -
  have st: "store_ok uuid tags a" using par by (simp add: parity_def)
  from st job inj obtain e t a' where c: "commit uuid tags j quiet a = (Inr (job_counts j), a')"
    and a': "store_ok uuid tags a'" "a' = put_manifest tags (encode_storage_key (cj_workload j)) e t"
    and t: "content t (Some e) = apply_job j (content t (manifest_of t (cj_workload j)))"
      "blobs_le a t" "az_index t = az_index a"
    and f: "az_snapshots t = az_snapshots a"
    "az_payloads t = az_payloads a" "az_assignments t = az_assignments a" "az_imports t = az_imports a"
    "az_config t = az_config a" "az_audit t = az_audit a" "az_audit_head t = az_audit_head a"
    by (rule commit_quiet) blast
  have "same_cells a' l'"
    unfolding same_cells_def commit_quiet_cells [OF st t(2,3) a'(2) t(1)] cells
    using par by (simp add: parity_def same_cells_def)
  moreover have "same_previous a' l'"
  proof -
    have "azure_previous a' k = azure_previous a k" for k
      by (simp add: azure_previous_def azure_latest_snapshot_def snapshot_rows_def a'(2) put_manifest_def f
          cong: option.case_cong list.case_cong)
    moreover have "previous l' k = previous l k" for k
      using l'(2) by (simp add: previous_def latest_snapshot_def other_tables_def)
    ultimately show ?thesis using par by (simp add: parity_def same_previous_def)
  qed
  moreover have "snapshots_below N a'"
    using par by (simp add: parity_def snapshots_below_def claimed_def a'(2) put_manifest_def f)
  moreover have "same_assignments a' l'" "same_imports a' l'" "same_config a' l'" "same_audit sha ts a' l'"
    using par l'(2) by (simp_all add: parity_def same_assignments_def same_imports_def same_config_def
        same_audit_def other_tables_def a'(2) put_manifest_def f)
  ultimately show ?thesis using c a'(1) l'(1) by (simp add: parity_def)
qed

text \<open>The gates of both backends raise the same errors.\<close>

definition gate_error :: "finding list \<Rightarrow> state_exc option" where
  "gate_error fs =
     (case enforce_finding_provenance fs of
        Inl e \<Rightarrow> Some (Unprovenanced e)
      | Inr _ \<Rightarrow> (case revalidate_finding_provenance fs of Inl e \<Rightarrow> Some (InvalidFinding e) | Inr _ \<Rightarrow> None))"

lemma gate_error_None: "gate_error fs = None \<longleftrightarrow> (\<forall>f \<in> set fs. storable f)"
  using enforce_finding_provenance_iff [of fs] revalidate_iff [of fs]
  by (auto simp: gate_error_def storable_def split: sum.splits)

lemma gate_error_write: "gate_error fs = Some e \<Longrightarrow> write_findings w fs s = (Inl e, s)"
  by (auto simp: gate_error_def write_findings_def split: sum.splits)

lemma gate_error_commit: "gate_error (cj_findings j) = Some e \<Longrightarrow> commit uuid tags j others s = (Inl e, s)"
  by (auto simp: gate_error_def commit_def split: sum.splits)

lemma gate_error_run:
  assumes "gate_error (mr_findings r) = Some e"
  shows "commit_run b w r s = (Inl e, s)"
proof -
  have "mr_findings r \<noteq> []" using assms by (auto simp: gate_error_def)
  then show ?thesis
    by (cases "mr_estate r"; cases "mr_graph r")
       (simp_all add: commit_run_def transaction_def tbind_def treturn_def write_estate_def write_graph_def
          gate_error_write [OF assms])
qed

lemma find_pair: "find (\<lambda>f. fd_module f = m \<and> fd_id f = i) fs = find (\<lambda>f. finding_key f = (m, i)) fs"
  by (simp add: finding_key_def)

lemma agree_cell: "agree s t k \<Longrightarrow> local_cell s k = local_cell t k"
  by (simp add: agree_def local_cell_def)

text \<open>The local commit, as a job.\<close>

lemma local_commit_run:
  assumes inv: "local_inv sha ts l" and job: "job_ok (run_job b w r)"
  obtains l' where "commit_run b w r l = (Inr (job_counts (run_job b w r)), l')" "local_inv sha ts l'"
    "other_tables l' = other_tables l"
    "\<And>k. local_cell l' k = (if k = w then apply_job (run_job b w r) (local_cell l k) else local_cell l k)"
proof -
  have "committable b r"
    using job by (auto simp: committable_def job_ok_def run_job_def list_all_iff split: if_splits)
  from commit_run_succeeds [OF this, of w l] obtain l' where
    c: "commit_run b w r l = (Inr (case mr_estate r of None \<Rightarrow> 0 | Some ns \<Rightarrow> length ns,
            case mr_graph r of None \<Rightarrow> 0 | Some g \<Rightarrow> 1, length (mr_findings r)), l')"
    and e: "read_estate l' w = (case mr_estate r of None \<Rightarrow> read_estate l w | Some ns \<Rightarrow> ns)"
      "dict_get (ls_graph l') w = (case mr_graph r of None \<Rightarrow> dict_get (ls_graph l) w | Some g \<Rightarrow> Some g)"
    and f: "\<And>m i. dict_get (ls_findings l') (w, m, i) =
          (case find (\<lambda>f. finding_key f = (m, i)) (rev (mr_findings r)) of
             None \<Rightarrow> dict_get (ls_findings l) (w, m, i) | Some f \<Rightarrow> Some f)"
    and r: "\<And>i. dict_get (ls_rca l') (w, i) =
          (if dict_get (mr_extra r) ''rca'' = None then dict_get (ls_rca l) (w, i)
           else find (\<lambda>a. ra_index a = i) (b (mr_extra r)))"
    unfolding find_pair by blast
  have "local_cell l' w = apply_job (run_job b w r) (local_cell l w)"
    by (rule cell.equality)
       (auto simp: local_cell_def apply_job_def run_job_def e f r fun_eq_iff cong: option.case_cong)
  moreover have "local_cell l' k = local_cell l k" if "k \<noteq> w" for k
    using agree_cell local_txnD(2) [OF commit_run_local inv that, of b r] by (simp add: c)
  moreover have "local_inv sha ts l'" "other_tables l' = other_tables l"
    using local_txnD(1) [OF commit_run_local inv, of b w r] keeps_commit_run [of b w r l] by (simp_all add: c)
  ultimately show ?thesis using that [of l'] c by (simp add: job_counts_def run_job_def)
qed

section \<open>Snapshots\<close>

lemma dict_set_fresh: "k \<notin> fst ` set d \<Longrightarrow> dict_set k v d = d @ [(k, v)]"
  by (induction d) auto

lemma dict_set_snoc: "k \<notin> fst ` set d \<Longrightarrow> dict_set k y (d @ [(k, x)]) = d @ [(k, y)]"
  by (induction d) auto

lemma snapshot_blob_inj:
  assumes "snapshot_blob (encode_storage_key v) m = snapshot_blob (encode_storage_key w) n"
  shows "v = w \<and> m = n"
proof -
  have "encode_storage_key v @ CHR ''/'' # pad 6 m @ ''.json'' = encode_storage_key w @ CHR ''/'' # pad 6 n @ ''.json''"
    using assms by (simp add: snapshot_blob_def)
  from append_sep_inj [OF encode_no_slash encode_no_slash this] show ?thesis by (simp add: pad_inj)
qed

text \<open>The next sequence number of the partition.\<close>

definition next_seq :: "azure_state \<Rightarrow> string \<Rightarrow> nat" where
  "next_seq a w = foldl max 0 (map (\<lambda>(rk, _). read_nat rk) (snapshot_rows a w)) + 1"

lemma foldl_max_ge: "x \<in> set xs \<Longrightarrow> x \<le> foldl max b (xs :: nat list)"
  by (induction xs rule: rev_induct) (auto simp: le_max_iff_disj)

lemma foldl_max_le: "b \<le> N \<Longrightarrow> \<forall>x \<in> set xs. x \<le> N \<Longrightarrow> foldl max b xs \<le> (N :: nat)"
  by (induction xs rule: rev_induct) auto

lemma snapshot_rows_mem: "(rk, e) \<in> set (snapshot_rows a w) \<longleftrightarrow> ((encode_storage_key w, rk), e) \<in> set (az_snapshots a)"
  by (force simp: snapshot_rows_def)

lemma belowE:
  assumes "snapshots_below N a" "(rk, e) \<in> set (snapshot_rows a w)"
  obtains n where "n \<le> N" "rk = pad 6 n" "se_complete e" "se_blob e = snapshot_blob (encode_storage_key w) n"
    "dict_get (az_payloads a) (se_blob e) \<noteq> None"
  using assms unfolding snapshot_rows_mem snapshots_below_def by blast

lemma next_seq_free: "\<not> claimed a (encode_storage_key w) (next_seq a w)"
proof
  assume "claimed a (encode_storage_key w) (next_seq a w)"
  then obtain e where "(pad 6 (next_seq a w), e) \<in> set (snapshot_rows a w)"
    using map_of_SomeD by (fastforce simp: claimed_def snapshot_rows_mem)
  then have "next_seq a w \<in> set (map (\<lambda>(rk, _). read_nat rk) (snapshot_rows a w))"
    by (force simp: read_pad)
  from foldl_max_ge [OF this, of 0] show False by (simp add: next_seq_def)
qed

lemma next_seq_le:
  assumes "snapshots_below N a"
  shows "next_seq a w \<le> Suc N"
proof -
  have "\<forall>x \<in> set (map (\<lambda>(rk, _). read_nat rk) (snapshot_rows a w)). x \<le> N"
    by (auto simp: read_pad elim: belowE [OF assms])
  from foldl_max_le [OF _ this, of 0] show ?thesis by (simp add: next_seq_def)
qed

lemma next_seq_above:
  assumes "snapshots_below N a" "(rk, e) \<in> set (snapshot_rows a w)"
  shows "\<exists>n < next_seq a w. rk = pad 6 n"
proof -
  from assms obtain n where n: "rk = pad 6 n" by (rule belowE)
  have "n \<in> set (map (\<lambda>(rk, _). read_nat rk) (snapshot_rows a w))"
    using assms(2) by (force simp: n read_pad)
  from foldl_max_ge [OF this, of 0] show ?thesis using n by (intro exI [of _ n]) (simp add: next_seq_def)
qed

lemma claim_free: "\<not> claimed s p n \<Longrightarrow> claim s p n = n"
  by (subst claim.simps) simp

lemma max_row_mem: "max_row b xs \<in> set (b # xs)"
  by (induction xs arbitrary: b) (auto split: if_splits)

lemma max_row_snoc: "max_row b (xs @ [x]) = (if fst (max_row b xs) < fst x then x else max_row b xs)"
  by (induction xs arbitrary: b) auto

text \<open>What a quiet snapshot of well-formed services does.\<close>

lemma azure_snapshot_form:
  fixes w :: string
  assumes bok: "blobs_ok a" and below: "snapshots_below N a"
  defines "p \<equiv> encode_storage_key w" and "n \<equiv> next_seq a w" and "m \<equiv> manifest_of a w"
  defines "v \<equiv> (case m of None \<Rightarrow> 0 | Some m \<Rightarrow> mf_version m)"
    and "sid \<equiv> ''snap::'' @ w @ ''::'' @ pad 6 n"
  shows "azure_snapshot (quiet 0) w a =
    (Inr sid, a\<lparr>az_payloads := dict_set (snapshot_blob p n) \<lparr>sp_findings = sort_key finding_key (raw_findings a m),
                    sp_nodes = map rn_id (estate_of a m), sp_version = v\<rparr> (az_payloads a),
                az_snapshots := az_snapshots a @ [((p, pad 6 n), \<lparr>se_snapshot_id = sid,
                    se_blob = snapshot_blob p n, se_version = v, se_complete = True\<rparr>)]\<rparr>)"
proof -
  have free: "\<not> claimed a p n" unfolding p_def n_def by (rule next_seq_free)
  then have fresh: "(p, pad 6 n) \<notin> fst ` set (az_snapshots a)"
    by (simp add: claimed_def map_of_eq_None_iff)
  have payload: "dict_get (az_payloads a) (snapshot_blob p n) = None"
    using below free by (simp add: snapshots_below_def p_def)
  have n: "Suc (foldl max 0 (map (\<lambda>(rk, _). read_nat rk) (snapshot_rows a w))) = n"
    by (simp add: n_def next_seq_def)
  show ?thesis
    unfolding azure_snapshot_def Let_def
    by (simp add: findings_of_ok [OF bok] n claim_free [OF free] quiet_def abind_def write_payload_blob_def payload
        dict_set_fresh [OF fresh] dict_set_snoc [OF fresh] sid_def v_def flip: p_def m_def)
qed

lemma snapshot_parity:
  assumes par: "parity uuid tags sha ts N a l" and N: "Suc N < 10 ^ 6"
  shows "\<exists>i a'. azure_snapshot (quiet 0) w a = (Inr i, a') \<and> parity uuid tags sha ts (Suc N) a' (snd (snapshot w l))"
proof -
  have st: "store_ok uuid tags a" and inv: "local_inv sha ts l" and cells: "same_cells a l"
    and below: "snapshots_below N a"
    using par by (simp_all add: parity_def)
  have bok: "blobs_ok a" using st by (simp add: store_ok_def)
  define p n m where "p = encode_storage_key w" and "n = next_seq a w" and "m = manifest_of a w"
  define entity where "entity = \<lparr>se_snapshot_id = ''snap::'' @ w @ ''::'' @ pad 6 n,
    se_blob = snapshot_blob p n, se_version = (case m of None \<Rightarrow> 0 | Some m \<Rightarrow> mf_version m), se_complete = True\<rparr>"
  define payload where "payload = \<lparr>sp_findings = sort_key finding_key (raw_findings a m),
    sp_nodes = map rn_id (estate_of a m), sp_version = (case m of None \<Rightarrow> 0 | Some m \<Rightarrow> mf_version m)\<rparr>"
  define a' where "a' = a\<lparr>az_payloads := dict_set (snapshot_blob p n) payload (az_payloads a),
    az_snapshots := az_snapshots a @ [((p, pad 6 n), entity)]\<rparr>"
  have form: "azure_snapshot (quiet 0) w a = (Inr (se_snapshot_id entity), a')"
    using azure_snapshot_form [OF bok below, of w]
    by (simp add: a'_def entity_def payload_def p_def n_def m_def)
  let ?l = "snd (snapshot w l)"
  have l: "?l = l\<lparr>ls_snapshots := ls_snapshots ?l, ls_snapshot_seq := ls_snapshot_seq ?l\<rparr>"
    by (simp add: snapshot_ok [OF inv])
  have fs: "sp_findings payload = finding_rows l w"
    using same_findings [OF st inv cells, of w] read_findings_ok [OF inv, of w]
    by (simp add: payload_def m_def azure_get_findings_def findings_of_ok [OF bok])
  have ns: "sp_nodes payload = map rn_id (read_estate l w)"
  proof -
    have "c_estate (content a m) = c_estate (local_cell l w)"
      using cells by (simp add: same_cells_def m_def)
    then show ?thesis
      by (simp add: payload_def content_def local_cell_def estate_of_def blob_list_def)
  qed
  have free: "dict_get (az_payloads a) (snapshot_blob p n) = None"
    using below next_seq_free [of a w] by (simp add: snapshots_below_def p_def n_def)
  have row_complete: "se_complete e \<and> se_blob e \<noteq> snapshot_blob p n"
    if "(rk, e) \<in> set (snapshot_rows a k)" for rk e k
    using below that by (rule belowE) (use free in auto)
  have rows: "filter (\<lambda>(_, e). se_complete e) (snapshot_rows a k) = snapshot_rows a k" for k
    using row_complete by (fastforce simp: filter_id_conv)
  have rows': "snapshot_rows a' k = snapshot_rows a k @ (if k = w then [(pad 6 n, entity)] else [])" for k
    by (simp add: snapshot_rows_def a'_def p_def)
  have rows_all: "filter (\<lambda>(_, e). se_complete e) (snapshot_rows a' k) = snapshot_rows a' k" for k
    by (simp add: rows' rows entity_def)
  have complete: "se_complete entity" by (simp add: entity_def)
  have latest_w: "azure_latest_snapshot a' w = Some payload"
  proof -
    have get: "dict_get (az_payloads a') (se_blob entity) = Some payload"
      by (simp add: a'_def entity_def)
    show ?thesis
    proof (cases "snapshot_rows a w")
      case Nil
      then show ?thesis by (simp add: azure_latest_snapshot_def rows_all rows' get complete)
    next
      case (Cons x xs)
      have "max_row x xs \<in> set (snapshot_rows a w)" using max_row_mem [of x xs] Cons by simp
      then obtain i where i: "i < n" "fst (max_row x xs) = pad 6 i"
        using next_seq_above [OF below, of "fst (max_row x xs)" "snd (max_row x xs)" w] by (auto simp: n_def)
      have "n < 10 ^ 6" using next_seq_le [OF below, of w] N by (simp add: n_def)
      then have "fst (max_row x xs) < pad 6 n" using i by (simp add: pad_less)
      then have "max_row x (xs @ [(pad 6 n, entity)]) = (pad 6 n, entity)" by (simp add: max_row_snoc)
      moreover have "filter (\<lambda>(_, e). se_complete e) (snapshot_rows a' w) = x # xs @ [(pad 6 n, entity)]"
        by (subst rows_all) (simp add: rows' Cons)
      ultimately show ?thesis by (simp add: azure_latest_snapshot_def get)
    qed
  qed
  have latest_other: "azure_latest_snapshot a' k = azure_latest_snapshot a k" if "k \<noteq> w" for k
  proof (cases "snapshot_rows a k")
    case Nil
    then show ?thesis using that by (simp add: azure_latest_snapshot_def rows_all rows rows')
  next
    case (Cons x xs)
    have "max_row x xs \<in> set (snapshot_rows a k)" using max_row_mem [of x xs] Cons by simp
    then have "se_blob (snd (max_row x xs)) \<noteq> snapshot_blob p n"
      using row_complete [of "fst (max_row x xs)" "snd (max_row x xs)" k] by simp
    then have "dict_get (az_payloads a') (se_blob (snd (max_row x xs))) = dict_get (az_payloads a) (se_blob (snd (max_row x xs)))"
      by (simp add: a'_def)
    moreover have "filter (\<lambda>(_, e). se_complete e) (snapshot_rows a k) = x # xs"
      by (subst rows) (rule Cons)
    moreover have "filter (\<lambda>(_, e). se_complete e) (snapshot_rows a' k) = x # xs"
      using that by (subst rows_all) (simp add: rows' Cons)
    ultimately show ?thesis by (simp add: azure_latest_snapshot_def)
  qed
  have "same_previous a' ?l"
    unfolding same_previous_def
  proof (intro allI)
    fix k
    show "azure_previous a' k = previous ?l k"
    proof (cases "k = w")
      case True
      then show ?thesis
        by (simp add: azure_previous_def latest_w previous_def latest_snapshot_snapshot [OF inv] fs ns)
    next
      case False
      have "azure_previous a k = previous l k" using par by (simp add: parity_def same_previous_def)
      then show ?thesis using False
        by (simp add: azure_previous_def latest_other previous_def latest_snapshot_snapshot [OF inv])
    qed
  qed
  moreover have "snapshots_below (Suc N) a'"
  proof -
    have 1: "\<exists>i. i \<le> Suc N \<and> rk = pad 6 i \<and> se_complete e \<and> se_blob e = snapshot_blob (encode_storage_key k) i
        \<and> dict_get (az_payloads a') (se_blob e) \<noteq> None"
      if "((encode_storage_key k, rk), e) \<in> set (az_snapshots a')" for k rk e
    proof (cases "((encode_storage_key k, rk), e) \<in> set (az_snapshots a)")
      case True
      then obtain i where "i \<le> N" "rk = pad 6 i" "se_complete e" "se_blob e = snapshot_blob (encode_storage_key k) i"
          "dict_get (az_payloads a) (se_blob e) \<noteq> None"
        using belowE [OF below, of rk e k] by (metis snapshot_rows_mem)
      then show ?thesis by (intro exI [of _ i]) (simp add: a'_def)
    next
      case False
      then have "k = w" "rk = pad 6 n" "e = entity" using that by (simp_all add: a'_def p_def)
      then show ?thesis using next_seq_le [OF below, of w]
        by (intro exI [of _ n]) (simp add: n_def [symmetric] entity_def a'_def p_def)
    qed
    have 2: "dict_get (az_payloads a') (snapshot_blob (encode_storage_key k) i) = None"
      if "\<not> claimed a' (encode_storage_key k) i" for k i
    proof -
      have "\<not> claimed a (encode_storage_key k) i" "\<not> (k = w \<and> i = n)"
        using that by (auto simp: claimed_def a'_def p_def map_add_def split: option.splits)
      then show ?thesis using below snapshot_blob_inj [of k i w n]
        by (auto simp: snapshots_below_def a'_def p_def)
    qed
    show ?thesis using 1 2 by (auto simp: snapshots_below_def)
  qed
  moreover have "store_ok uuid tags a'"
    using st by (simp add: store_ok_def names_fresh_def blobs_ok_def index_ok_def pointers_ok_def a'_def)
  moreover have "same_cells a' ?l"
  proof -
    have "content a' m = content a m" for m by (rule content_frame) (simp_all add: a'_def)
    moreover have "manifest_of a' k = manifest_of a k" for k
      by (simp add: manifest_of_def manifest_with_etag_def a'_def)
    moreover have "local_cell ?l k = local_cell l k" for k
      by (subst l) (simp add: local_cell_def read_estate_def)
    ultimately show ?thesis using cells by (simp add: same_cells_def)
  qed
  moreover have "same_assignments a' ?l" "same_imports a' ?l" "same_config a' ?l" "same_audit sha ts a' ?l"
    using par by (subst l; simp add: parity_def same_assignments_def same_imports_def same_config_def
        same_audit_def a'_def)+
  ultimately show ?thesis using form snapshot_local_inv [OF inv, of w] by (auto simp: parity_def)
qed

section \<open>Every operation\<close>

lemma store_ok_frame:
  assumes "store_ok uuid tags a"
    and "az_estates a' = az_estates a" "az_graphs a' = az_graphs a" "az_findings a' = az_findings a"
      "az_advisories a' = az_advisories a" "az_index a' = az_index a" "az_uuids a' = az_uuids a"
      "az_tags a \<le> az_tags a'"
  shows "store_ok uuid tags a'"
proof -
  have "\<exists>i < az_tags a'. t = tags i" if "\<exists>i < az_tags a. t = tags i" for t
    using that assms(8) less_le_trans by blast
  then show ?thesis using assms(1)
    unfolding store_ok_def names_fresh_def blobs_ok_def index_ok_def pointers_ok_def assms(2-7) by blast
qed

text \<open>The audit head of both stores, and an append.\<close>

lemma append_parity:
  assumes par: "parity uuid tags sha ts N a l"
  shows "\<exists>a'. azure_append_audit sha ts tags quiet e a = (Inr (), a')
    \<and> parity uuid tags sha ts N a' (snd (append_audit sha ts e l))"
proof -
  have inv: "local_inv sha ts l" and aud: "same_audit sha ts a l" and st: "store_ok uuid tags a"
    using par by (simp_all add: parity_def)
  let ?n = "length (ls_audit l)" and ?h = "audit_head l"
  define a' where "a' = a\<lparr>az_audit := az_audit a @ [(pad 12 (Suc ?n), chain_event sha ts e ?h)],
    az_audit_head := Some ((compute_entry_hash sha ts e ?h, Suc ?n), tags (az_tags a)), az_tags := Suc (az_tags a)\<rparr>"
  have audit: "az_audit a = zip (map (pad 12) [1..<Suc ?n]) (ls_audit l)"
    using aud by (simp add: same_audit_def)
  have "fst ` set (az_audit a) \<subseteq> pad 12 ` {1..<Suc ?n}"
    unfolding audit by (auto dest!: set_zip_leftD)
  moreover have "pad 12 (Suc ?n) \<notin> pad 12 ` {1..<Suc ?n}"
    by (auto simp: pad_inj)
  ultimately have fresh: "pad 12 (Suc ?n) \<notin> fst ` set (az_audit a)" by blast
  have none: "dict_get (az_audit a) (pad 12 (Suc ?n)) = None" using fresh by (simp add: map_of_eq_None_iff)
  have att: "audit_attempt sha ts tags e (quiet k) a = (Inr True, a')" for k
  proof (cases "az_audit_head a")
    case None
    then have "ls_audit_head l = None" "?n = 0" using aud by (auto simp: same_audit_def)
    then show ?thesis using none dict_set_fresh [OF fresh]
      by (simp add: audit_attempt_def Let_def None quiet_def a'_def audit_head_def)
  next
    case (Some q)
    obtain h i t where q: "q = ((h, i), t)" by (metis prod.collapse)
    then have "ls_audit_head l = Some h" "i = ?n" using aud Some by (auto simp: same_audit_def)
    then show ?thesis using none dict_set_fresh [OF fresh]
      by (simp add: audit_attempt_def Let_def Some q quiet_def a'_def audit_head_def)
  qed
  have m: "MAX_COMMIT_RETRIES = Suc 7" by (simp add: MAX_COMMIT_RETRIES_def)
  have app: "azure_append_audit sha ts tags quiet e a = (Inr (), a')"
    by (simp only: azure_append_audit_def m audit_loop.simps(2) abind_def att prod.case sum.case if_True areturn_def)
  let ?l = "snd (append_audit sha ts e l)"
  have l: "?l = l\<lparr>ls_audit := ls_audit l @ [chain_event sha ts e ?h], ls_audit_head := Some (compute_entry_hash sha ts e ?h)\<rparr>"
    by (simp add: append_audit_form)
  have "same_audit sha ts a' ?l"
  proof -
    have "[1..<Suc (Suc ?n)] = [1..<Suc ?n] @ [Suc ?n]" by simp
    moreover have "zip (map (pad 12) ([1..<Suc ?n] @ [Suc ?n])) (ls_audit l @ [x]) = az_audit a @ [(pad 12 (Suc ?n), x)]" for x
      by (simp add: audit zip_append del: upt_Suc)
    ultimately show ?thesis by (simp only: same_audit_def l a'_def) (simp del: upt_Suc)
  qed
  moreover have "store_ok uuid tags a'"
    by (rule store_ok_frame [OF st]) (simp_all add: a'_def)
  moreover have "same_cells a' ?l"
  proof -
    have "content a' m = content a m" for m by (rule content_frame) (simp_all add: a'_def)
    moreover have "manifest_of a' k = manifest_of a k" for k
      by (simp add: manifest_of_def manifest_with_etag_def a'_def)
    moreover have "local_cell ?l k = local_cell l k" for k
      by (simp add: l local_cell_def)
    ultimately show ?thesis using par by (simp add: parity_def same_cells_def)
  qed
  moreover have "same_previous a' ?l"
    using par by (simp add: parity_def same_previous_def l azure_previous_def azure_latest_snapshot_def
        snapshot_rows_def a'_def cong: option.case_cong list.case_cong)
  moreover have "snapshots_below N a'" "same_assignments a' ?l" "same_imports a' ?l" "same_config a' ?l"
    using par by (simp_all add: parity_def snapshots_below_def claimed_def same_assignments_def same_imports_def
        same_config_def l a'_def)
  ultimately show ?thesis using app append_audit_inv [OF inv, of e] by (auto simp: parity_def)
qed

text \<open>A write to a table of its own leaves the rest of the relation alone.\<close>

lemma table_parity:
  assumes par: "parity uuid tags sha ts N a l"
    and a': "\<And>f. az_estates a' = az_estates a" "az_graphs a' = az_graphs a" "az_findings a' = az_findings a"
      "az_advisories a' = az_advisories a" "az_payloads a' = az_payloads a" "az_index a' = az_index a"
      "az_snapshots a' = az_snapshots a" "az_audit a' = az_audit a" "az_audit_head a' = az_audit_head a"
      "az_uuids a' = az_uuids a" "az_tags a' = az_tags a"
    and l': "local_inv sha ts l'" "ls_snapshots l' = ls_snapshots l" "ls_audit l' = ls_audit l"
      "ls_audit_head l' = ls_audit_head l" "\<And>k. local_cell l' k = local_cell l k"
    and rest: "same_assignments a' l'" "same_imports a' l'" "same_config a' l'"
  shows "parity uuid tags sha ts N a' l'"
proof -
  have "store_ok uuid tags a'"
    using par by (simp add: parity_def store_ok_def names_fresh_def blobs_ok_def index_ok_def pointers_ok_def a')
  moreover have "same_cells a' l'"
  proof -
    have "content a' m = content a m" for m by (rule content_frame) (simp_all add: a')
    moreover have "manifest_of a' k = manifest_of a k" for k
      by (simp add: manifest_of_def manifest_with_etag_def a')
    ultimately show ?thesis using par by (simp add: parity_def same_cells_def l'(5))
  qed
  moreover have "same_previous a' l'"
  proof -
    have "azure_previous a' k = azure_previous a k" "previous l' k = previous l k" for k
      by (simp_all add: azure_previous_def azure_latest_snapshot_def snapshot_rows_def a' previous_def
          latest_snapshot_def l' cong: option.case_cong list.case_cong)
    then show ?thesis using par by (simp add: parity_def same_previous_def)
  qed
  moreover have "snapshots_below N a'" "same_audit sha ts a' l'"
    using par by (simp_all add: parity_def snapshots_below_def claimed_def same_audit_def a' l')
  ultimately show ?thesis using l'(1) rest by (simp add: parity_def)
qed

fun same_outcome :: "write_outcome \<Rightarrow> write_outcome \<Rightarrow> bool" where
  "same_outcome (SnapshotId _) (SnapshotId _) = True"
| "same_outcome x y = (x = y)"

lemma same_outcome_refl [simp]: "same_outcome x x"
  by (cases x) auto

fun op_ok :: "advisory_builder \<Rightarrow> write_op \<Rightarrow> bool" where
  "op_ok b (CommitRun w r) = (dict_get (mr_extra r) ''rca'' \<noteq> None \<longrightarrow> distinct (map ra_index (b (mr_extra r))))"
| "op_ok b (PutImported p) = no_nul (ip_packId p)"
| "op_ok b (TryRecordImported p) = no_nul (ip_packId p)"
| "op_ok b _ = True"

lemma snapshots_below_Suc: "snapshots_below N a \<Longrightarrow> snapshots_below (Suc N) a"
  unfolding snapshots_below_def by (meson le_Suc_eq)

lemma parity_Suc: "parity uuid tags sha ts N a l \<Longrightarrow> parity uuid tags sha ts (Suc N) a l"
  using snapshots_below_Suc by (simp add: parity_def)

text \<open>Estates, graphs and findings, as jobs.\<close>

lemma put_estate_parity:
  assumes par: "parity uuid tags sha ts N a l" and inj: "inj uuid" "inj tags"
  shows "\<exists>a' n. azure_put_estate uuid tags quiet w ns a = (Inr n, a') \<and> put_estate w ns l = (Inr (), snd (put_estate w ns l))
    \<and> parity uuid tags sha ts N a' (snd (put_estate w ns l))"
proof -
  let ?j = "\<lparr>cj_workload = w, cj_estate = Some ns, cj_graph = None, cj_findings = [], cj_advisories = None\<rparr>"
  have inv: "local_inv sha ts l" using par by (simp add: parity_def)
  have l: "put_estate w ns l = (Inr (), l\<lparr>ls_estate := dict_set w ns (ls_estate l)\<rparr>)"
    by (simp add: put_estate_def transaction_def write_estate_def)
  have "\<exists>a'. commit uuid tags ?j quiet a = (Inr (job_counts ?j), a') \<and> parity uuid tags sha ts N a' (snd (put_estate w ns l))"
  proof (rule commit_parity [OF par inj])
    show "job_ok ?j" by (simp add: job_ok_def)
    show "local_inv sha ts (snd (put_estate w ns l))" using local_txnD(1) [OF put_estate_local inv] .
    show "other_tables (snd (put_estate w ns l)) = other_tables l" by (simp add: l other_tables_def)
    show "local_cell (snd (put_estate w ns l)) k =
        (if k = cj_workload ?j then apply_job ?j (local_cell l k) else local_cell l k)" for k
      by (simp add: l local_cell_def read_estate_def apply_job_def fun_eq_iff)
  qed
  then obtain a' where "commit uuid tags ?j quiet a = (Inr (job_counts ?j), a')"
      "parity uuid tags sha ts N a' (snd (put_estate w ns l))" by blast
  then show ?thesis
    by (intro exI [of _ a'] exI [of _ "job_counts ?j"]) (simp add: azure_put_estate_def l)
qed

lemma put_graph_parity:
  assumes par: "parity uuid tags sha ts N a l" and inj: "inj uuid" "inj tags"
  shows "\<exists>a' n. azure_put_graph uuid tags quiet w g a = (Inr n, a') \<and> put_graph w g l = (Inr (), snd (put_graph w g l))
    \<and> parity uuid tags sha ts N a' (snd (put_graph w g l))"
proof -
  let ?j = "\<lparr>cj_workload = w, cj_estate = None, cj_graph = Some g, cj_findings = [], cj_advisories = None\<rparr>"
  have inv: "local_inv sha ts l" using par by (simp add: parity_def)
  have l: "put_graph w g l = (Inr (), l\<lparr>ls_graph := dict_set w g (ls_graph l)\<rparr>)"
    by (simp add: put_graph_def transaction_def write_graph_def)
  have "\<exists>a'. commit uuid tags ?j quiet a = (Inr (job_counts ?j), a') \<and> parity uuid tags sha ts N a' (snd (put_graph w g l))"
  proof (rule commit_parity [OF par inj])
    show "job_ok ?j" by (simp add: job_ok_def)
    show "local_inv sha ts (snd (put_graph w g l))" using local_txnD(1) [OF put_graph_local inv] .
    show "other_tables (snd (put_graph w g l)) = other_tables l" by (simp add: l other_tables_def)
    show "local_cell (snd (put_graph w g l)) k =
        (if k = cj_workload ?j then apply_job ?j (local_cell l k) else local_cell l k)" for k
      by (simp add: l local_cell_def read_estate_def apply_job_def fun_eq_iff)
  qed
  then obtain a' where "commit uuid tags ?j quiet a = (Inr (job_counts ?j), a')"
      "parity uuid tags sha ts N a' (snd (put_graph w g l))" by blast
  then show ?thesis
    by (intro exI [of _ a'] exI [of _ "job_counts ?j"]) (simp add: azure_put_graph_def l)
qed

lemma add_findings_parity:
  assumes par: "parity uuid tags sha ts N a l" and inj: "inj uuid" "inj tags" and ok: "\<forall>f \<in> set fs. storable f"
  shows "\<exists>a' n. azure_add_findings uuid tags quiet w fs a = (Inr n, a')
    \<and> add_findings w fs l = (Inr (), snd (add_findings w fs l))
    \<and> parity uuid tags sha ts N a' (snd (add_findings w fs l))"
proof -
  let ?j = "\<lparr>cj_workload = w, cj_estate = None, cj_graph = None, cj_findings = fs, cj_advisories = None\<rparr>"
  have inv: "local_inv sha ts l" using par by (simp add: parity_def)
  have l: "add_findings w fs l = (Inr (), l\<lparr>ls_findings := upsert_findings w fs (ls_findings l)\<rparr>)"
    by (simp add: add_findings_def transaction_def write_findings_ok [OF ok])
  have "\<exists>a'. commit uuid tags ?j quiet a = (Inr (job_counts ?j), a') \<and> parity uuid tags sha ts N a' (snd (add_findings w fs l))"
  proof (rule commit_parity [OF par inj])
    show "job_ok ?j" using ok by (simp add: job_ok_def)
    show "local_inv sha ts (snd (add_findings w fs l))" using local_txnD(1) [OF add_findings_local inv] .
    show "other_tables (snd (add_findings w fs l)) = other_tables l" by (simp add: l other_tables_def)
    have f: "dict_get (upsert_findings w fs (ls_findings l)) (k, m, i) =
        (if k = w then (case find (\<lambda>f. finding_key f = (m, i)) (rev fs) of
           None \<Rightarrow> dict_get (ls_findings l) (w, m, i) | Some f \<Rightarrow> Some f) else dict_get (ls_findings l) (k, m, i))" for k m i
      by (simp only: dict_get_upsert find_pair)
    show "local_cell (snd (add_findings w fs l)) k =
        (if k = cj_workload ?j then apply_job ?j (local_cell l k) else local_cell l k)" for k
      by (rule cell.equality)
         (auto simp: l local_cell_def read_estate_def apply_job_def f fun_eq_iff cong: option.case_cong)
  qed
  then obtain a' where "commit uuid tags ?j quiet a = (Inr (job_counts ?j), a')"
      "parity uuid tags sha ts N a' (snd (add_findings w fs l))" by blast
  then show ?thesis
    by (intro exI [of _ a'] exI [of _ "job_counts ?j"]) (simp add: azure_add_findings_def l)
qed

lemma commit_run_parity:
  assumes par: "parity uuid tags sha ts N a l" and inj: "inj uuid" "inj tags" and job: "job_ok (run_job b w r)"
  shows "\<exists>a'. azure_commit_run uuid tags quiet b w r a = (Inr (job_counts (run_job b w r)), a')
    \<and> commit_run b w r l = (Inr (job_counts (run_job b w r)), snd (commit_run b w r l))
    \<and> parity uuid tags sha ts N a' (snd (commit_run b w r l))"
proof -
  have inv: "local_inv sha ts l" using par by (simp add: parity_def)
  obtain l' where l: "commit_run b w r l = (Inr (job_counts (run_job b w r)), l')" "local_inv sha ts l'"
    "other_tables l' = other_tables l"
    "\<And>k. local_cell l' k = (if k = w then apply_job (run_job b w r) (local_cell l k) else local_cell l k)"
    by (rule local_commit_run [OF inv job]) blast
  have "cj_workload (run_job b w r) = w" by (simp add: run_job_def)
  with commit_parity [OF par inj job l(2,3)] l(4) show ?thesis
    by (simp add: azure_commit_run_def l(1))
qed

lemma table_cells:
  "local_cell (l\<lparr>ls_assignments := p\<rparr>) k = local_cell l k"
  "local_cell (l\<lparr>ls_imported := i\<rparr>) k = local_cell l k"
  "local_cell (l\<lparr>ls_config := c\<rparr>) k = local_cell l k"
  by (simp_all add: local_cell_def)

lemma set_imports_parity:
  assumes par: "parity uuid tags sha ts N a l" and p: "no_nul (ip_packId p)"
  shows "parity uuid tags sha ts N (a\<lparr>az_imports := dict_set (import_key p) p (az_imports a)\<rparr>)
    (l\<lparr>ls_imported := dict_set (ip_scope p, ip_packId p, ip_version p) p (ls_imported l)\<rparr>)"
proof (rule table_parity [OF par])
  have inv: "local_inv sha ts l" using par by (simp add: parity_def)
  show "local_inv sha ts (l\<lparr>ls_imported := dict_set (ip_scope p, ip_packId p, ip_version p) p (ls_imported l)\<rparr>)"
    by (rule local_inv_update(4) [OF inv], rule rows_ok_set [OF local_inv_tables(4) [OF inv]]) simp
  show "same_imports (a\<lparr>az_imports := dict_set (import_key p) p (az_imports a)\<rparr>)
      (l\<lparr>ls_imported := dict_set (ip_scope p, ip_packId p, ip_version p) p (ls_imported l)\<rparr>)"
  proof -
    have same: "same_imports a l" using par by (simp add: parity_def)
    have "rows_ok (dict_set (import_key p) p (az_imports a)) (\<lambda>p k. k = import_key p \<and> no_nul (ip_packId p))"
      using same p by (intro rows_ok_set) (auto simp: same_imports_def)
    moreover have "\<forall>x \<in> set (dict_set (ip_scope p, ip_packId p, ip_version p) p (ls_imported l)). no_nul (ip_packId (snd x))"
      using same p set_dict_set [of "(ip_scope p, ip_packId p, ip_version p)" p "ls_imported l"]
      by (auto simp: same_imports_def)
    ultimately show ?thesis using same p
      by (auto simp: same_imports_def import_key_def import_row_inj)
  qed
qed (use par in \<open>simp_all add: parity_def same_assignments_def same_config_def table_cells\<close>)

text \<open>One operation on both stores.\<close>

lemma write_parity:
  assumes par: "parity uuid tags sha ts N a l" and inj: "inj uuid" "inj tags" and op: "op_ok b op"
    and N: "Suc N < 10 ^ 6"
  shows "same_outcome (fst (azure_write uuid tags sha ts b op a)) (fst (local_write sha ts b op l))
    \<and> parity uuid tags sha ts (Suc N) (snd (azure_write uuid tags sha ts b op a)) (snd (local_write sha ts b op l))"
proof -
  have inv: "local_inv sha ts l" using par by (simp add: parity_def)
  note up = parity_Suc
  show ?thesis
  proof (cases op)
    case (PutEstate w ns)
    obtain a' n where "azure_put_estate uuid tags quiet w ns a = (Inr n, a')"
      "put_estate w ns l = (Inr (), snd (put_estate w ns l))" "parity uuid tags sha ts N a' (snd (put_estate w ns l))"
      using put_estate_parity [OF par inj] by blast
    then show ?thesis by (metis (no_types) PutEstate azure_write.simps(1) local_write.simps(1) apfst_conv fst_conv snd_conv
          snd_apfst comp_apply map_sum.simps(2) done_outcome.simps(2) same_outcome_refl up)
  next
    case (PutGraph w g)
    obtain a' n where "azure_put_graph uuid tags quiet w g a = (Inr n, a')"
      "put_graph w g l = (Inr (), snd (put_graph w g l))" "parity uuid tags sha ts N a' (snd (put_graph w g l))"
      using put_graph_parity [OF par inj] by blast
    then show ?thesis by (metis (no_types) PutGraph azure_write.simps(2) local_write.simps(2) apfst_conv fst_conv snd_conv
          snd_apfst comp_apply map_sum.simps(2) done_outcome.simps(2) same_outcome_refl up)
  next
    case (AddFindings w fs)
    show ?thesis
    proof (cases "gate_error fs")
      case None
      then have "\<forall>f \<in> set fs. storable f" by (simp only: gate_error_None)
      from add_findings_parity [OF par inj this, of w] obtain a' n where
        "azure_add_findings uuid tags quiet w fs a = (Inr n, a')"
        "add_findings w fs l = (Inr (), snd (add_findings w fs l))"
        "parity uuid tags sha ts N a' (snd (add_findings w fs l))" by blast
      then show ?thesis by (metis (no_types) AddFindings azure_write.simps(3) local_write.simps(3) apfst_conv fst_conv snd_conv
          snd_apfst comp_apply map_sum.simps(2) done_outcome.simps(2) same_outcome_refl up)
    next
      case (Some e)
      have "azure_add_findings uuid tags quiet w fs a = (Inl e, a)"
        unfolding azure_add_findings_def by (rule gate_error_commit) (simp add: Some)
      moreover have "add_findings w fs l = (Inl e, l)"
        by (simp add: add_findings_def transaction_def gate_error_write [OF Some])
      ultimately show ?thesis using up [OF par] by (simp add: AddFindings)
    qed
  next
    case (CommitRun w r)
    show ?thesis
    proof (cases "gate_error (mr_findings r)")
      case None
      then have "job_ok (run_job b w r)"
        using op by (auto simp: gate_error_None job_ok_def run_job_def CommitRun split: if_splits)
      from commit_run_parity [OF par inj this] obtain a' where
        "azure_commit_run uuid tags quiet b w r a = (Inr (job_counts (run_job b w r)), a')"
        "commit_run b w r l = (Inr (job_counts (run_job b w r)), snd (commit_run b w r l))"
        "parity uuid tags sha ts N a' (snd (commit_run b w r l))" by blast
      moreover obtain l' where l': "l' = snd (commit_run b w r l)" by simp
      ultimately have "azure_write uuid tags sha ts b op a = ((case job_counts (run_job b w r) of (n, g, f) \<Rightarrow> Counts n g f), a')"
        "local_write sha ts b op l = ((case job_counts (run_job b w r) of (n, g, f) \<Rightarrow> Counts n g f), l')"
        "parity uuid tags sha ts N a' l'"
        unfolding l' [symmetric] by (simp_all add: CommitRun)
      then show ?thesis using up by simp
    next
      case (Some e)
      have "azure_commit_run uuid tags quiet b w r a = (Inl e, a)"
        unfolding azure_commit_run_def by (rule gate_error_commit) (simp add: Some run_job_def)
      then show ?thesis using up [OF par] gate_error_run [OF Some, of b w l] by (simp add: CommitRun)
    qed
  next
    case (Snapshot w)
    then show ?thesis using snapshot_parity [OF par N, of w] snapshot_ok [OF inv, of w] by auto
  next
    case (PutAssignment x)
    have "parity uuid tags sha ts N (snd (azure_put_assignment x a)) (snd (put_pack_assignment x l))"
    proof (rule table_parity [OF par])
      show "local_inv sha ts (snd (put_pack_assignment x l))"
        using local_txnD(1) [OF put_pack_assignment_local inv] .
      show "same_assignments (snd (azure_put_assignment x a)) (snd (put_pack_assignment x l))"
        using par by (auto simp: parity_def same_assignments_def azure_put_assignment_def put_pack_assignment_def
            transaction_def intro!: rows_ok_set)
    qed (use par in \<open>simp_all add: azure_put_assignment_def put_pack_assignment_def transaction_def table_cells
          parity_def same_imports_def same_config_def\<close>)
    then show ?thesis using up
      by (simp add: PutAssignment) (simp add: azure_put_assignment_def put_pack_assignment_def transaction_def)
  next
    case (PutImported p)
    then show ?thesis using set_imports_parity [OF par] op up
      by (simp add: azure_put_imported_def put_imported_form)
  next
    case (TryRecordImported p)
    have nn: "no_nul (ip_packId p)" using op TryRecordImported by simp
    have same: "dict_get (az_imports a) (import_key p) = dict_get (ls_imported l) (ip_scope p, ip_packId p, ip_version p)"
      using par nn by (simp add: parity_def same_imports_def import_key_def)
    show ?thesis
    proof (cases "dict_get (ls_imported l) (ip_scope p, ip_packId p, ip_version p)")
      case None
      then show ?thesis using set_imports_parity [OF par nn] up same
        by (simp add: TryRecordImported azure_try_record_def try_record_cases)
    next
      case (Some q)
      then show ?thesis using up [OF par] same
        by (simp add: TryRecordImported azure_try_record_def try_record_cases azure_get_imported_def import_key_def)
    qed
  next
    case (PutModuleConfig c)
    have "parity uuid tags sha ts N (snd (azure_put_config c a)) (snd (put_module_config c l))"
    proof (rule table_parity [OF par])
      show "local_inv sha ts (snd (put_module_config c l))"
        using local_txnD(1) [OF put_module_config_local inv] .
      show "same_config (snd (azure_put_config c a)) (snd (put_module_config c l))"
        using par by (auto simp: parity_def same_config_def azure_put_config_def put_module_config_def transaction_def)
    qed (use par in \<open>simp_all add: azure_put_config_def put_module_config_def transaction_def table_cells
          parity_def same_imports_def same_assignments_def\<close>)
    then show ?thesis using up
      by (simp add: PutModuleConfig) (simp add: azure_put_config_def put_module_config_def transaction_def)
  next
    case (AppendAudit e)
    then show ?thesis using append_parity [OF par, of e] up
      by (auto simp: append_audit_form)
  qed
qed

section \<open>Properties\<close>

text \<open>A run of operations: the outcomes in order and the services they leave.\<close>

fun azure_run ::
    "(nat \<Rightarrow> string) \<Rightarrow> (nat \<Rightarrow> string) \<Rightarrow> (nat list \<Rightarrow> string) \<Rightarrow> (int \<Rightarrow> string) \<Rightarrow> advisory_builder
     \<Rightarrow> write_op list \<Rightarrow> azure_state \<Rightarrow> write_outcome list \<times> azure_state" where
  "azure_run uuid tags sha ts b [] a = ([], a)"
| "azure_run uuid tags sha ts b (op # ops) a =
     (let (x, a') = azure_write uuid tags sha ts b op a; (xs, a'') = azure_run uuid tags sha ts b ops a'
      in (x # xs, a''))"

fun local_outcomes ::
    "(nat list \<Rightarrow> string) \<Rightarrow> (int \<Rightarrow> string) \<Rightarrow> advisory_builder \<Rightarrow> write_op list \<Rightarrow> local_state
     \<Rightarrow> write_outcome list \<times> local_state" where
  "local_outcomes sha ts b [] l = ([], l)"
| "local_outcomes sha ts b (op # ops) l =
     (let (x, l') = local_write sha ts b op l; (xs, l'') = local_outcomes sha ts b ops l'
      in (x # xs, l''))"

lemma run_parity:
  "parity uuid tags sha ts N a l \<Longrightarrow> inj uuid \<Longrightarrow> inj tags \<Longrightarrow> list_all (op_ok b) ops \<Longrightarrow>
   N + length ops < 10 ^ 6 \<Longrightarrow>
   list_all2 same_outcome (fst (azure_run uuid tags sha ts b ops a)) (fst (local_outcomes sha ts b ops l))
   \<and> parity uuid tags sha ts (N + length ops) (snd (azure_run uuid tags sha ts b ops a))
       (snd (local_outcomes sha ts b ops l))"
proof (induction ops arbitrary: N a l)
  case (Cons op ops)
  obtain x a' where x: "azure_write uuid tags sha ts b op a = (x, a')" by force
  obtain y l' where y: "local_write sha ts b op l = (y, l')" by force
  have "same_outcome x y \<and> parity uuid tags sha ts (Suc N) a' l'"
    using write_parity [OF Cons.prems(1-3), of b op] Cons.prems(4,5) by (simp add: x y)
  then show ?case using Cons.IH [of "Suc N" a' l'] Cons.prems(2-5)
    by (simp add: x y case_prod_beta)
qed simp

lemma appended_length: "length (ls_audit (snd (local_outcomes sha ts b ops l))) \<le> length (ls_audit l) + length ops"
  if "local_inv sha ts l"
  using that
proof (induction ops arbitrary: l)
  case (Cons op ops)
  obtain y l' where y: "local_write sha ts b op l = (y, l')" by force
  have "ls_audit l' = ls_audit l @ chain_from sha ts (audit_head l) (appended [op])"
    using audit_write [OF Cons.prems, of b op] by (simp add: y)
  moreover have "length (chain_from sha ts h es) = length es" for h es
    by (induction es arbitrary: h) (simp_all add: Let_def)
  moreover have "length (appended [op]) \<le> 1" by (cases op) simp_all
  ultimately have "length (ls_audit l') \<le> Suc (length (ls_audit l))" by simp
  moreover have "local_inv sha ts l'" using local_write_inv [OF Cons.prems, of b op] by (simp add: y)
  ultimately show ?case using Cons.IH [of l'] by (simp add: y case_prod_beta)
qed simp

text \<open>C3: the Azure backend refines the local one. After any sequence of up to 999999 operations - each
  with advisories of distinct indices and pack ids without a NUL - both backends have returned the same
  outcomes, errors included and snapshot ids apart, and every key reads back the same estate, graph,
  findings, previous snapshot, advisories, assignments, imports and configuration, the audit log reads
  the same and has the same head. The listing of workloads is not covered: an Azure commit of an empty
  run makes its workload known and a local snapshot does.\<close>

theorem azure_refines_local:
  assumes "inj uuid" "inj tags" "list_all (op_ok b) ops" "length ops < 10 ^ 6"
    and "azure_run uuid tags sha ts b ops empty_azure = (xs, a)"
    and "local_outcomes sha ts b ops empty_state = (ys, l)"
  shows "list_all2 same_outcome xs ys
    \<and> (azure_view a k)\<lparr>sv_known := u\<rparr> = (local_view l k)\<lparr>sv_known := u\<rparr>
    \<and> azure_list_audit a None = list_audit l None \<and> azure_audit_head a = audit_head l"
proof -
  have run: "list_all2 same_outcome xs ys" "parity uuid tags sha ts (length ops) a l"
    using run_parity [OF empty_parity assms(1-3), of sha ts] assms(4-6) by simp_all
  have "length (ls_audit l) \<le> length ops"
    using appended_length [OF empty_state_inv, of sha ts b ops] assms(6) by (simp add: empty_state_def)
  then have "length (ls_audit l) < 10 ^ 12" using assms(4) by simp
  then have "azure_list_audit a None = ls_audit l" "azure_audit_head a = audit_head l"
    using run(2) same_audit_lists [of sha ts a l] by (simp_all add: parity_def)
  then show ?thesis using run(1) parity_view [OF run(2)] by (simp add: list_audit_def)
qed

theorem azure_refines_local_witness:
  "\<exists>xs a ys l. azure_run show_nat show_nat bytes_hex (\<lambda>_. []) (\<lambda>_. [])
       [PutEstate ''w'' [], Snapshot ''w'', AddFindings ''w'' [sample_finding []]] empty_azure = (xs, a)
     \<and> local_outcomes bytes_hex (\<lambda>_. []) (\<lambda>_. [])
       [PutEstate ''w'' [], Snapshot ''w'', AddFindings ''w'' [sample_finding []]] empty_state = (ys, l)
     \<and> list_all2 same_outcome xs ys \<and> azure_audit_head a = audit_head l"
proof -
  have i: "inj show_nat" by (simp add: inj_def show_nat_inj)
  let ?ops = "[PutEstate ''w'' [], Snapshot ''w'', AddFindings ''w'' [sample_finding []]]"
  obtain xs a where a: "azure_run show_nat show_nat bytes_hex (\<lambda>_. []) (\<lambda>_. []) ?ops empty_azure = (xs, a)"
    by force
  obtain ys l where l: "local_outcomes bytes_hex (\<lambda>_. []) (\<lambda>_. []) ?ops empty_state = (ys, l)"
    by force
  from azure_refines_local [OF i i _ _ a l] a l show ?thesis by simp
qed

text \<open>the search for a free snapshot number ends, whatever rows other clients have added meanwhile,
  at the first number from its start whose row key is not taken.\<close>

theorem claim_terminates:
  "n \<le> claim a p n \<and> \<not> claimed a p (claim a p n) \<and> (\<forall>i. n \<le> i \<longrightarrow> i < claim a p n \<longrightarrow> claimed a p i)"
proof (induction a p n rule: claim.induct)
  case (1 a p n)
  show ?case
  proof (cases "claimed a p n")
    case True
    with 1 have IH: "Suc n \<le> claim a p (Suc n)" "\<not> claimed a p (claim a p (Suc n))"
        "\<forall>i. Suc n \<le> i \<longrightarrow> i < claim a p (Suc n) \<longrightarrow> claimed a p i" by simp_all
    have "claimed a p i" if "n \<le> i" "i < claim a p (Suc n)" for i
      using IH(3) that True by (cases "i = n") auto
    then show ?thesis using IH(1,2) True by (subst (1 2 3) claim.simps) auto
  next
    case False
    then show ?thesis by (simp add: claim_free)
  qed
qed

theorem claim_terminates_witness:
  "let a = empty_azure\<lparr>az_snapshots := [((''p'', pad 6 1), \<lparr>se_snapshot_id = [], se_blob = [], se_version = 0, se_complete = False\<rparr>)]\<rparr>
   in claim a ''p'' 1 = 2"
proof -
  let ?a = "empty_azure\<lparr>az_snapshots := [((''p'', pad 6 1), \<lparr>se_snapshot_id = [], se_blob = [], se_version = 0, se_complete = False\<rparr>)]\<rparr>"
  have c: "claimed ?a ''p'' i \<longleftrightarrow> i = 1" for i by (simp add: claimed_def pad_inj)
  have two: "x = 2" if "x \<noteq> 1" "1 \<le> x" "\<forall>i. 1 \<le> i \<longrightarrow> i < x \<longrightarrow> i = 1" for x :: nat
    using that(1,2) that(3) [rule_format, of 2] by linarith
  have "claim ?a ''p'' 1 = 2"
    by (rule two) (use claim_terminates [of 1 ?a "''p''", unfolded c] in blast)+
  then show ?thesis by (simp only: Let_def)
qed

section \<open>Where the backends differ\<close>

text \<open>The listings of workloads: committing an empty run makes a workload known to the Azure backend only,
  a snapshot of a workload without data to the local one only.\<close>

lemma workload_listing_differs:
  defines "r \<equiv> \<lparr>mr_module = [], mr_ok = True, mr_findings = [], mr_estate = None, mr_graph = None,
    mr_response = None, mr_extra = []\<rparr>"
  shows "azure_list_workloads (snd (azure_run show_nat show_nat sha ts b [CommitRun ''w'' r] empty_azure)) = [''w'']"
    "list_workloads (snd (local_outcomes sha ts b [CommitRun ''w'' r] empty_state)) = []"
    "azure_list_workloads (snd (azure_run show_nat show_nat sha ts b [Snapshot ''w''] empty_azure)) = []"
    "list_workloads (snd (local_outcomes sha ts b [Snapshot ''w''] empty_state)) = [''w'']"
proof -
  let ?j = "run_job b ''w'' r"
  have job: "job_ok ?j" "cj_workload ?j = ''w''" by (simp_all add: job_ok_def run_job_def r_def)
  have st: "store_ok show_nat show_nat empty_azure" using empty_parity [of show_nat show_nat] by (simp add: parity_def)
  have inj: "inj show_nat" by (simp add: inj_def show_nat_inj)
  from st job(1) inj inj obtain e t s' where c: "commit show_nat show_nat ?j quiet empty_azure = (Inr (job_counts ?j), s')"
      "store_ok show_nat show_nat s'" "s' = put_manifest show_nat (encode_storage_key ''w'') e t" "az_index t = az_index empty_azure"
    by (rule commit_quiet) (simp add: job(2))
  then have i: "az_index s' = [(encode_storage_key ''w'', e, show_nat (az_tags t))]"
    by (simp add: put_manifest_def empty_azure_def)
  then have "mf_workload e = ''w''" using c(2) by (auto simp: store_ok_def index_ok_def split: if_splits)
  then show "azure_list_workloads (snd (azure_run show_nat show_nat sha ts b [CommitRun ''w'' r] empty_azure)) = [''w'']"
    using c(1) by (simp add: azure_commit_run_def azure_list_workloads_def i case_prod_beta)
  show "list_workloads (snd (local_outcomes sha ts b [CommitRun ''w'' r] empty_state)) = []"
    by (simp add: r_def commit_run_def transaction_def tbind_def treturn_def empty_state_def list_workloads_def)
  show "azure_list_workloads (snd (azure_run show_nat show_nat sha ts b [Snapshot ''w''] empty_azure)) = []"
  proof -
    have "blobs_ok empty_azure" "snapshots_below 0 empty_azure"
      using empty_parity [of show_nat show_nat] by (simp_all add: parity_def store_ok_def)
    from azure_snapshot_form [OF this, of "''w''"] show ?thesis
      by (simp add: azure_list_workloads_def case_prod_beta) (simp add: empty_azure_def)
  qed
  show "list_workloads (snd (local_outcomes sha ts b [Snapshot ''w''] empty_state)) = [''w'']"
    by (simp add: snapshot_def transaction_def read_findings_def finding_rows_def listing_def empty_state_def
        list_workloads_def Let_def read_estate_def)
qed

text \<open>Row keys are compared as text: snapshot 1000000 sorts below snapshot 999999, so it is never the
  latest, and a negative audit limit drops events where the local backend ignores it.\<close>

lemma snapshot_order_breaks: "max_row (pad 6 1000000, x) [(pad 6 999999, y)] = (pad 6 999999, y)"
proof -
  have "pad 6 1000000 < pad 6 999999"
    by (simp add: pad_def show_nat.simps digit_char_def less_char_def)
  then show ?thesis by simp
qed

end
