(* ===== verification/State_Race.thy ===== *)
theory State_Race
  imports State_Refines
begin

text \<open>
  Concurrent commits of \<open>AzureStateStore\<close>. \<open>race_step\<close> interleaves the calls of any number of clients that
  run \<open>_commit\<close>: reading the manifest, uploading the blobs, the conditional write. The invariant says that
  the store always shows the jobs of the clients that have won, each applied once, in the order of their
  conditional writes. The retry loop of one client is also shown to complete against any other operations.
\<close>

section \<open>Interleaved commits\<close>

text \<open>Where a client is: about to read with so many attempts left, after its read, after its uploads,
  returned, raised.\<close>

datatype client =
    Reading nat
  | Holding nat "(manifest \<times> string) option"
  | Uploaded nat "(manifest \<times> string) option" manifest
  | Returned
  | Raised state_exc

record race =
  rc_store :: azure_state
  rc_clients :: "nat \<Rightarrow> client"
  rc_log :: "nat list"

definition race_start :: "azure_state \<Rightarrow> race" where
  "race_start s = \<lparr>rc_store = s, rc_clients = (\<lambda>_. Reading MAX_COMMIT_RETRIES), rc_log = []\<rparr>"

inductive race_step :: "(nat \<Rightarrow> string) \<Rightarrow> (nat \<Rightarrow> string) \<Rightarrow> (nat \<Rightarrow> commit_job) \<Rightarrow> race \<Rightarrow> race \<Rightarrow> bool"
  for uuid tags jobs where
  read: "rc_clients c i = Reading (Suc n) \<Longrightarrow>
    race_step uuid tags jobs c
      (c\<lparr>rc_clients := (rc_clients c)(i := Holding n (manifest_with_etag (rc_store c) (cj_workload (jobs i))))\<rparr>)"
| exhausted: "rc_clients c i = Reading 0 \<Longrightarrow>
    race_step uuid tags jobs c (c\<lparr>rc_clients := (rc_clients c)(i := Raised ContentionError)\<rparr>)"
| uploaded: "rc_clients c i = Holding n held \<Longrightarrow>
    upload uuid (jobs i) (map_option fst held) (rc_store c) = (Inr e, s) \<Longrightarrow>
    race_step uuid tags jobs c (c\<lparr>rc_store := s, rc_clients := (rc_clients c)(i := Uploaded n held e)\<rparr>)"
| upload_raised: "rc_clients c i = Holding n held \<Longrightarrow>
    upload uuid (jobs i) (map_option fst held) (rc_store c) = (Inl x, s) \<Longrightarrow>
    race_step uuid tags jobs c (c\<lparr>rc_store := s, rc_clients := (rc_clients c)(i := Raised x)\<rparr>)"
| won: "rc_clients c i = Uploaded n held e \<Longrightarrow> flip tags held e (rc_store c) = (Inr True, s) \<Longrightarrow>
    race_step uuid tags jobs c
      (c\<lparr>rc_store := s, rc_clients := (rc_clients c)(i := Returned), rc_log := rc_log c @ [i]\<rparr>)"
| lost: "rc_clients c i = Uploaded n held e \<Longrightarrow> flip tags held e (rc_store c) = (Inr False, s) \<Longrightarrow>
    race_step uuid tags jobs c (c\<lparr>rc_store := s, rc_clients := (rc_clients c)(i := Reading n)\<rparr>)"
| flip_raised: "rc_clients c i = Uploaded n held e \<Longrightarrow> flip tags held e (rc_store c) = (Inl x, s) \<Longrightarrow>
    race_step uuid tags jobs c (c\<lparr>rc_store := s, rc_clients := (rc_clients c)(i := Raised x)\<rparr>)"

inductive_cases race_stepE: "race_step uuid tags jobs c c'"

lemmas race_step_cases =
  race_stepE [consumes 1, case_names read exhausted uploaded upload_raised won lost flip_raised]

section \<open>The invariant\<close>

definition version_of :: "azure_state \<Rightarrow> string \<Rightarrow> nat" where
  "version_of s w = (case manifest_of s w of None \<Rightarrow> 0 | Some m \<Rightarrow> mf_version m)"

definition held_version :: "(manifest \<times> string) option \<Rightarrow> nat" where
  "held_version held = (case held of None \<Rightarrow> 0 | Some (m, _) \<Rightarrow> mf_version m)"

text \<open>The wins on a workload so far.\<close>

definition wins :: "(nat \<Rightarrow> commit_job) \<Rightarrow> string \<Rightarrow> nat list \<Rightarrow> nat list" where
  "wins jobs w ids = filter (\<lambda>i. cj_workload (jobs i) = w) ids"

definition held_ok :: "(nat \<Rightarrow> string) \<Rightarrow> azure_state \<Rightarrow> string \<Rightarrow> (manifest \<times> string) option \<Rightarrow> bool" where
  "held_ok tags s w held \<longleftrightarrow> current tags s w held \<and> held_version held \<le> version_of s w
     \<and> (manifest_with_etag s w \<noteq> held \<longrightarrow> held_version held < version_of s w)"

definition prepared :: "azure_state \<Rightarrow> commit_job \<Rightarrow> (manifest \<times> string) option \<Rightarrow> manifest \<Rightarrow> bool" where
  "prepared s j held e \<longleftrightarrow> pointers_ok s e \<and> mf_workload e = cj_workload j \<and> mf_version e = Suc (held_version held)
     \<and> content s (Some e) = apply_job j (content s (map_option fst held))"

text \<open>A client with \<open>n\<close> attempts left has lost the others to as many wins.\<close>

definition client_ok :: "(nat \<Rightarrow> string) \<Rightarrow> nat \<Rightarrow> azure_state \<Rightarrow> commit_job \<Rightarrow> client \<Rightarrow> bool" where
  "client_ok tags v0 s j cl \<longleftrightarrow> (case cl of
      Reading n \<Rightarrow> v0 + MAX_COMMIT_RETRIES \<le> version_of s (cj_workload j) + n
    | Holding n held \<Rightarrow> held_ok tags s (cj_workload j) held
        \<and> v0 + MAX_COMMIT_RETRIES \<le> held_version held + Suc n
    | Uploaded n held e \<Rightarrow> held_ok tags s (cj_workload j) held \<and> prepared s j held e
        \<and> v0 + MAX_COMMIT_RETRIES \<le> held_version held + Suc n
    | Returned \<Rightarrow> True
    | Raised x \<Rightarrow> x = ContentionError \<and> v0 + MAX_COMMIT_RETRIES \<le> version_of s (cj_workload j))"

definition race_inv ::
    "(nat \<Rightarrow> string) \<Rightarrow> (nat \<Rightarrow> string) \<Rightarrow> (nat \<Rightarrow> commit_job) \<Rightarrow> azure_state \<Rightarrow> race \<Rightarrow> bool" where
  "race_inv uuid tags jobs s0 c \<longleftrightarrow> store_ok uuid tags (rc_store c)
     \<and> (\<forall>i. client_ok tags (version_of s0 (cj_workload (jobs i))) (rc_store c) (jobs i) (rc_clients c i))
     \<and> (\<forall>i. i \<in> set (rc_log c) \<longleftrightarrow> rc_clients c i = Returned) \<and> distinct (rc_log c)
     \<and> (\<forall>w. content (rc_store c) (manifest_of (rc_store c) w)
             = fold (\<lambda>i. apply_job (jobs i)) (wins jobs w (rc_log c)) (content s0 (manifest_of s0 w))
           \<and> version_of (rc_store c) w = version_of s0 w + length (wins jobs w (rc_log c)))"

lemma held_ok_current: "held_ok tags s w held \<Longrightarrow> current tags s w held"
  by (simp add: held_ok_def)

text \<open>What a step that only adds blobs leaves.\<close>

lemma held_ok_evolves:
  assumes "held_ok tags s w held" "evolves tags s t" "inj tags" "az_index t = az_index s"
  shows "held_ok tags t w held"
  using assms current_evolves [of tags s w held t]
  by (simp add: held_ok_def version_of_def manifest_of_def manifest_with_etag_def)

lemma current_content:
  assumes "current tags s w held" "evolves tags s t"
  shows "content t (map_option fst held) = content s (map_option fst held)"
proof (cases held)
  case None
  then show ?thesis by (simp add: content_None)
next
  case (Some p)
  then have ptr: "pointers_ok s (fst p)" using assms(1) by (auto simp: current_def)
  have le: "blobs_le s t" using assms(2) by (simp only: evolves_def)
  show ?thesis by (simp only: Some option.map content_mono(1) [OF ptr le])
qed

lemma prepared_evolves:
  assumes "prepared s j held e" "evolves tags s t" "current tags s (cj_workload j) held"
  shows "prepared t j held e"
  using assms content_mono [of s e t] current_content [OF assms(3,2)]
  by (simp add: prepared_def evolves_def)

lemma manifest_content:
  assumes "store_ok uuid tags s" "evolves tags s t" "manifest_of t w = manifest_of s w"
  shows "content t (manifest_of t w) = content s (manifest_of s w)"
  using current_content [OF current_read [OF assms(1), of w] assms(2)] assms(3) by (simp add: manifest_of_def)

lemma client_ok_blobs:
  assumes "client_ok tags v0 s j cl" "evolves tags s t" "inj tags" "az_index t = az_index s"
  shows "client_ok tags v0 t j cl"
proof -
  have v: "version_of t w = version_of s w" for w
    using assms(4) by (simp add: version_of_def manifest_of_def manifest_with_etag_def)
  have h: "held_ok tags s w held \<Longrightarrow> held_ok tags t w held" for w held
    by (rule held_ok_evolves [OF _ assms(2-4)])
  have p: "prepared s j held e \<Longrightarrow> held_ok tags s (cj_workload j) held \<Longrightarrow> prepared t j held e" for held e
    by (rule prepared_evolves [OF _ assms(2) held_ok_current])
  show ?thesis using assms(1) by (cases cl) (auto simp: client_ok_def v intro: h p)
qed

lemma blobs_step_inv:
  assumes inv: "race_inv uuid tags jobs s0 c" and t: "store_ok uuid tags t" "evolves tags (rc_store c) t"
    "az_index t = az_index (rc_store c)" and tags: "inj tags"
    and cl: "client_ok tags (version_of s0 (cj_workload (jobs i))) t (jobs i) cl"
    and i: "rc_clients c i \<noteq> Returned" "cl \<noteq> Returned"
  shows "race_inv uuid tags jobs s0 (c\<lparr>rc_store := t, rc_clients := (rc_clients c)(i := cl)\<rparr>)"
proof -
  have m: "manifest_of t w = manifest_of (rc_store c) w" for w
    using t(3) by (simp add: manifest_of_def manifest_with_etag_def)
  have v: "version_of t w = version_of (rc_store c) w" for w by (simp add: version_of_def m)
  have "store_ok uuid tags (rc_store c)" using inv by (simp add: race_inv_def)
  from manifest_content [OF this t(2) m]
  have "content t (manifest_of t w) = content (rc_store c) (manifest_of (rc_store c) w)" for w .
  moreover have "client_ok tags (version_of s0 (cj_workload (jobs k))) t (jobs k) (rc_clients c k)" for k
    by (rule client_ok_blobs [OF _ t(2) tags t(3)]) (use inv in \<open>simp add: race_inv_def\<close>)
  ultimately show ?thesis using inv t(1) cl i by (auto simp: race_inv_def v)
qed

text \<open>What a win leaves.\<close>

lemma put_version:
  "version_of (put_manifest tags (encode_storage_key w) e s) k = (if k = w then mf_version e else version_of s k)"
  by (simp add: version_of_def manifest_of_put)

lemma held_ok_put:
  assumes "held_ok tags s k held" "store_ok uuid tags s" "pointers_ok s e" "inj tags"
    and "mf_version e = Suc (version_of s (mf_workload e))"
  shows "held_ok tags (put_manifest tags (encode_storage_key (mf_workload e)) e s) k held"
proof -
  let ?t = "put_manifest tags (encode_storage_key (mf_workload e)) e s"
  have cur: "current tags ?t k held"
    by (rule current_evolves [OF _ put_manifest_ok(2) [OF assms(2,3)] assms(4)])
       (use assms(1) in \<open>simp add: held_ok_def\<close>)
  have "manifest_with_etag ?t k = manifest_with_etag s k" if "k \<noteq> mf_workload e"
    using that by (simp add: manifest_with_etag_def put_manifest_def)
  then show ?thesis using cur assms(1,5) by (auto simp: held_ok_def put_version)
qed

lemma won_step_inv:
  assumes inv: "race_inv uuid tags jobs s0 c" and tags: "inj tags"
    and i: "rc_clients c i = Uploaded n held e" "manifest_with_etag (rc_store c) (cj_workload (jobs i)) = held"
  defines "t \<equiv> put_manifest tags (encode_storage_key (cj_workload (jobs i))) e (rc_store c)"
  shows "race_inv uuid tags jobs s0
    (c\<lparr>rc_store := t, rc_clients := (rc_clients c)(i := Returned), rc_log := rc_log c @ [i]\<rparr>)"
proof -
  let ?s = "rc_store c" and ?w = "cj_workload (jobs i)"
  have ok: "store_ok uuid tags ?s" using inv by (simp add: race_inv_def)
  have "client_ok tags (version_of s0 ?w) ?s (jobs i) (rc_clients c i)" using inv unfolding race_inv_def by blast
  then have p: "prepared ?s (jobs i) held e" by (simp add: client_ok_def i(1))
  then have e: "pointers_ok ?s e" "mf_workload e = ?w"
      "content ?s (Some e) = apply_job (jobs i) (content ?s (manifest_of ?s ?w))"
    using i(2) by (auto simp: prepared_def manifest_of_def)
  have hv: "held_version held = version_of ?s ?w"
    using i(2) by (auto simp: held_version_def version_of_def manifest_of_def split: option.splits)
  then have ver: "mf_version e = Suc (version_of ?s (mf_workload e))"
    using p by (simp add: prepared_def e(2))
  have t: "store_ok uuid tags t" "evolves tags ?s t"
    using put_manifest_ok [OF ok e(1)] by (simp_all add: t_def e(2))
  have cont: "content t m = content ?s m" for m
    by (rule content_frame) (simp_all add: t_def put_manifest_def)
  have m: "manifest_of t w = (if w = ?w then Some e else manifest_of ?s w)" for w
    by (simp add: t_def manifest_of_put)
  have v: "version_of t w = (if w = ?w then Suc (version_of ?s w) else version_of ?s w)" for w
    using ver by (simp add: t_def put_version e(2))
  have clients: "client_ok tags (version_of s0 (cj_workload (jobs k))) t (jobs k) (rc_clients c k)" for k
  proof -
    have k: "client_ok tags (version_of s0 (cj_workload (jobs k))) ?s (jobs k) (rc_clients c k)"
      using inv by (simp add: race_inv_def)
    have h: "held_ok tags ?s x hd \<Longrightarrow> held_ok tags t x hd" for x hd
      using held_ok_put [OF _ ok e(1) tags ver, of x hd] by (simp add: t_def e(2))
    have le: "version_of ?s w \<le> version_of t w" for w by (simp add: v)
    show ?thesis using k h prepared_evolves [OF _ t(2) held_ok_current] le [of "cj_workload (jobs k)"]
      by (cases "rc_clients c k") (simp_all add: client_ok_def)
  qed
  have cells: "content t (manifest_of t w)
      = (if w = ?w then apply_job (jobs i) (content ?s (manifest_of ?s w)) else content ?s (manifest_of ?s w))" for w
    by (simp add: cont m e(3))
  have wins: "wins jobs w (rc_log c @ [i]) = wins jobs w (rc_log c) @ (if w = ?w then [i] else [])" for w
    by (simp add: wins_def)
  have "content t (manifest_of t w)
        = fold (\<lambda>i. apply_job (jobs i)) (wins jobs w (rc_log c @ [i])) (content s0 (manifest_of s0 w))
      \<and> version_of t w = version_of s0 w + length (wins jobs w (rc_log c @ [i]))" for w
    using inv by (simp add: race_inv_def cells wins v)
  moreover have "i \<notin> set (rc_log c)" using inv i(1) by (simp add: race_inv_def)
  ultimately show ?thesis using inv t(1) clients by (auto simp: race_inv_def client_ok_def)
qed

lemma race_step_inv:
  assumes step: "race_step uuid tags jobs c c'" and inv: "race_inv uuid tags jobs s0 c"
    and inj: "inj uuid" "inj tags" and jobs: "\<And>i. job_ok (jobs i)"
  shows "race_inv uuid tags jobs s0 c'"
proof -
  let ?s = "rc_store c"
  have ok: "store_ok uuid tags ?s" using inv by (simp add: race_inv_def)
  have cl: "client_ok tags (version_of s0 (cj_workload (jobs i))) ?s (jobs i) (rc_clients c i)" for i
    using inv by (simp add: race_inv_def)
  note same = blobs_step_inv [OF inv ok evolves_refl refl inj(2)]
  from step show ?thesis
  proof (cases rule: race_step_cases)
    case step: (read i n)
    have "held_ok tags ?s (cj_workload (jobs i)) (manifest_with_etag ?s (cj_workload (jobs i)))"
      using current_read [OF ok] by (auto simp: held_ok_def held_version_def version_of_def manifest_of_def split: option.splits)
    moreover have "held_version (manifest_with_etag ?s (cj_workload (jobs i))) = version_of ?s (cj_workload (jobs i))"
      by (auto simp: held_version_def version_of_def manifest_of_def split: option.splits)
    ultimately show ?thesis using same [of i "Holding n (manifest_with_etag ?s (cj_workload (jobs i)))"] cl [of i] step
      by (simp add: client_ok_def)
  next
    case step: (exhausted i)
    then show ?thesis using same [of i "Raised ContentionError"] cl [of i] by (simp add: client_ok_def)
  next
    case step: (uploaded i n held e s)
    have h: "held_ok tags ?s (cj_workload (jobs i)) held" "version_of s0 (cj_workload (jobs i)) + MAX_COMMIT_RETRIES \<le> held_version held + Suc n"
      using cl [of i] step by (simp_all add: client_ok_def)
    have m: "\<forall>m'. map_option fst held = Some m' \<longrightarrow> pointers_ok ?s m'"
      using h(1) by (auto simp: held_ok_def current_def)
    obtain e' s' where up: "upload uuid (jobs i) (map_option fst held) ?s = (Inr e', s')" "store_ok uuid tags s'"
      "blobs_le ?s s'" "pointers_ok s' e'" "content s' (Some e') = apply_job (jobs i) (content ?s (map_option fst held))"
      "mf_workload e' = cj_workload (jobs i)"
      "mf_version e' = (case map_option fst held of None \<Rightarrow> 1 | Some m \<Rightarrow> mf_version m + 1)"
      "az_index s' = az_index ?s" "az_tags s' = az_tags ?s"
      by (rule upload_ok [OF ok jobs m inj(1)]) blast
    have eq: "e' = e" "s' = s" using up(1) step by simp_all
    have ev: "evolves tags ?s s" using upload_evolves up(3,8,9) by (simp add: eq)
    have "prepared s (jobs i) held e"
      using up(4-7) current_content [of tags ?s "cj_workload (jobs i)" held s] h(1) ev
      by (auto simp: prepared_def held_version_def held_ok_def eq split: option.splits)
    moreover have "held_ok tags s (cj_workload (jobs i)) held"
      by (rule held_ok_evolves [OF h(1) ev inj(2)]) (use up(8) eq in simp)
    ultimately show ?thesis
      using blobs_step_inv [OF inv _ ev _ inj(2), of i "Uploaded n held e"] up(2,8) h(2) step
      by (simp add: eq client_ok_def)
  next
    case step: (upload_raised i n held x s)
    have "held_ok tags ?s (cj_workload (jobs i)) held" using cl [of i] step by (simp add: client_ok_def)
    then have m: "\<forall>m'. map_option fst held = Some m' \<longrightarrow> pointers_ok ?s m'"
      by (auto simp: held_ok_def current_def)
    obtain e' s' where "upload uuid (jobs i) (map_option fst held) ?s = (Inr e', s')"
      by (rule upload_ok [OF ok jobs m inj(1)]) blast
    then show ?thesis using step by simp
  next
    case step: (won i n held e s)
    have h: "current tags ?s (cj_workload (jobs i)) held" "prepared ?s (jobs i) held e"
      using cl [of i] step by (simp_all add: client_ok_def held_ok_def)
    then have e: "pointers_ok ?s e" "current tags ?s (mf_workload e) held" "mf_workload e = cj_workload (jobs i)"
      by (simp_all add: prepared_def)
    from ok e(1,2) show ?thesis
    proof (cases rule: flip_cases)
      case flip: won
      then show ?thesis using won_step_inv [OF inv inj(2), of i n held e] step e(3) by simp
    next
      case flip: lost
      then show ?thesis using step by simp
    qed
  next
    case step: (lost i n held e s)
    have h: "held_ok tags ?s (cj_workload (jobs i)) held" "prepared ?s (jobs i) held e"
        "version_of s0 (cj_workload (jobs i)) + MAX_COMMIT_RETRIES \<le> held_version held + Suc n"
      using cl [of i] step by (simp_all add: client_ok_def)
    then have e: "pointers_ok ?s e" "current tags ?s (mf_workload e) held" "mf_workload e = cj_workload (jobs i)"
      by (simp_all add: prepared_def held_ok_def)
    from ok e(1,2) show ?thesis
    proof (cases rule: flip_cases)
      case flip: won
      then show ?thesis using step by simp
    next
      case flip: lost
      have "held_version held < version_of ?s (cj_workload (jobs i))"
        using h(1) flip(1) e(3) by (simp add: held_ok_def)
      then have "client_ok tags (version_of s0 (cj_workload (jobs i))) ?s (jobs i) (Reading n)"
        using h(3) by (simp add: client_ok_def)
      from same [OF this] have after: "race_inv uuid tags jobs s0
          (c\<lparr>rc_store := ?s, rc_clients := (rc_clients c)(i := Reading n)\<rparr>)" using step(2) by simp
      have "s = ?s" using step flip(2) by simp
      then show ?thesis using after by (simp only: step(1))
    qed
  next
    case step: (flip_raised i n held e x s)
    have "held_ok tags ?s (cj_workload (jobs i)) held" "prepared ?s (jobs i) held e"
      using cl [of i] step by (simp_all add: client_ok_def)
    then have e: "pointers_ok ?s e" "current tags ?s (mf_workload e) held"
      by (simp_all add: prepared_def held_ok_def)
    from ok e show ?thesis
      by (cases rule: flip_cases) (use step in simp_all)
  qed
qed

lemma race_start_inv: "store_ok uuid tags s \<Longrightarrow> race_inv uuid tags jobs s (race_start s)"
  by (simp add: race_inv_def race_start_def client_ok_def wins_def)

lemma race_reachable_inv:
  assumes "(race_step uuid tags jobs)\<^sup>*\<^sup>* (race_start s) c" "store_ok uuid tags s"
    and "inj uuid" "inj tags" "\<And>i. job_ok (jobs i)"
  shows "race_inv uuid tags jobs s c"
  using assms(1)
proof (induction rule: rtranclp_induct)
  case base
  then show ?case by (rule race_start_inv [OF assms(2)])
next
  case (step c d)
  then show ?case using race_step_inv assms(3-5) by blast
qed

section \<open>Linearizability\<close>

text \<open>The local store that runs the same commits one after the other.\<close>

lemma local_run_cells:
  assumes "local_inv sha ts l" "\<And>i. job_ok (run_job b (ws i) (rs i))"
  shows "local_inv sha ts (local_run sha ts b (map (\<lambda>i. CommitRun (ws i) (rs i)) ids) l)
    \<and> local_cell (local_run sha ts b (map (\<lambda>i. CommitRun (ws i) (rs i)) ids) l) w
      = fold (\<lambda>i. apply_job (run_job b (ws i) (rs i))) (wins (\<lambda>i. run_job b (ws i) (rs i)) w ids) (local_cell l w)"
  using assms(1)
proof (induction ids arbitrary: l)
  case (Cons i ids)
  obtain l' where l': "commit_run b (ws i) (rs i) l = (Inr (job_counts (run_job b (ws i) (rs i))), l')"
      "local_inv sha ts l'"
    and c: "\<And>k. local_cell l' k = (if k = ws i then apply_job (run_job b (ws i) (rs i)) (local_cell l k) else local_cell l k)"
    by (rule local_commit_run [OF Cons.prems assms(2)]) blast
  have "snd (local_write sha ts b (CommitRun (ws i) (rs i)) l) = l'" by (simp add: l'(1))
  moreover have "cj_workload (run_job b (ws i) (rs i)) = ws i" by (simp add: run_job_def)
  ultimately show ?case using Cons.IH [OF l'(2)] by (simp add: wins_def c)
qed (simp add: wins_def)

lemma empty_store_ok: "store_ok uuid tags empty_azure"
  by (simp add: store_ok_def names_fresh_def blobs_ok_def index_ok_def empty_azure_def)

text \<open>C4: concurrent commits are linearizable. However the reads, uploads and conditional writes of any
  number of clients interleave, the Azure store shows what a local store shows that ran the commits of the
  clients that have returned, one after the other in the order of their conditional writes: no commit is
  lost, applied twice or seen in part. A client raises only the contention error, and only after at
  least as many other commits of its workload have completed as it is allowed attempts.\<close>

theorem race_linearizable:
  assumes "inj uuid" "inj tags" "\<forall>i. job_ok (run_job b (ws i) (rs i))"
    and "(race_step uuid tags (\<lambda>i. run_job b (ws i) (rs i)))\<^sup>*\<^sup>* (race_start empty_azure) c"
    and "l = local_run sha ts b (map (\<lambda>i. CommitRun (ws i) (rs i)) (rc_log c)) empty_state"
  shows "azure_get_estate (rc_store c) w = read_estate l w
    \<and> azure_get_graph (rc_store c) w = dict_get (ls_graph l) w
    \<and> azure_get_findings (rc_store c) w None = read_findings l w None
    \<and> azure_get_rca_advisories (rc_store c) w = get_rca_advisories l w
    \<and> distinct (rc_log c) \<and> (i \<in> set (rc_log c) \<longleftrightarrow> rc_clients c i = Returned)
    \<and> (rc_clients c i = Raised x \<longrightarrow> x = ContentionError
        \<and> MAX_COMMIT_RETRIES \<le> length (filter (\<lambda>k. ws k = ws i) (rc_log c)))"
proof -
  let ?jobs = "\<lambda>i. run_job b (ws i) (rs i)"
  have job: "job_ok (?jobs i)" for i using assms(3) by simp
  have inv: "race_inv uuid tags ?jobs empty_azure c"
    by (rule race_reachable_inv [OF assms(4) empty_store_ok assms(1,2) job])
  have start: "content empty_azure (manifest_of empty_azure k) = local_cell empty_state k" for k
    using empty_parity by (simp add: parity_def same_cells_def)
  have l: "local_inv sha ts l" "local_cell l k = fold (\<lambda>i. apply_job (?jobs i)) (wins ?jobs k (rc_log c)) (local_cell empty_state k)" for k
    using local_run_cells [where b = b and ws = ws and rs = rs, OF empty_state_inv job] assms(5) by simp_all
  have cells: "same_cells (rc_store c) l"
    using inv by (simp add: same_cells_def race_inv_def l(2) start)
  have ok: "store_ok uuid tags (rc_store c)" using inv by (simp add: race_inv_def)
  have "c_estate (content (rc_store c) (manifest_of (rc_store c) w)) = c_estate (local_cell l w)"
      "c_graph (content (rc_store c) (manifest_of (rc_store c) w)) = c_graph (local_cell l w)"
    using cells by (simp_all add: same_cells_def)
  then have "azure_get_estate (rc_store c) w = read_estate l w"
      "azure_get_graph (rc_store c) w = dict_get (ls_graph l) w"
    by (simp_all add: content_def local_cell_def azure_get_estate_def estate_of_def blob_list_def
        azure_get_graph_def graph_of_def)
  moreover have "rc_clients c i = Raised x \<longrightarrow> x = ContentionError
        \<and> MAX_COMMIT_RETRIES \<le> length (filter (\<lambda>k. ws k = ws i) (rc_log c))"
  proof
    assume "rc_clients c i = Raised x"
    moreover have "client_ok tags (version_of empty_azure (ws i)) (rc_store c) (?jobs i) (rc_clients c i)"
      using inv by (auto simp: race_inv_def run_job_def)
    moreover have "version_of (rc_store c) (ws i) = version_of empty_azure (ws i) + length (wins ?jobs (ws i) (rc_log c))"
      using inv by (simp add: race_inv_def)
    ultimately show "x = ContentionError \<and> MAX_COMMIT_RETRIES \<le> length (filter (\<lambda>k. ws k = ws i) (rc_log c))"
      by (simp add: client_ok_def wins_def run_job_def)
  qed
  ultimately show ?thesis
    using inv same_findings [OF ok l(1) cells] same_advisories [OF ok l(1) cells]
    by (simp add: race_inv_def)
qed

definition sample_run :: module_run_result where
  "sample_run = \<lparr>mr_module = ''discovery'', mr_ok = True, mr_findings = [], mr_estate = Some [], mr_graph = None,
     mr_response = None, mr_extra = []\<rparr>"

theorem race_linearizable_witness:
  "\<exists>c. (race_step show_nat show_nat (\<lambda>i. run_job (\<lambda>_. []) ''w'' sample_run))\<^sup>*\<^sup>* (race_start empty_azure) c
     \<and> rc_clients c 0 = Returned \<and> rc_log c = [0]
     \<and> azure_get_estate (rc_store c) ''w'' =
         read_estate (local_run bytes_hex (\<lambda>_. []) (\<lambda>_. []) [CommitRun ''w'' sample_run] empty_state) ''w''"
proof -
  let ?j = "run_job (\<lambda>_. []) ''w'' sample_run"
  let ?R = "race_step show_nat show_nat (\<lambda>i. ?j)"
  have inj: "inj show_nat" by (simp add: inj_def show_nat_inj)
  have job: "job_ok ?j" by (simp add: job_ok_def run_job_def sample_run_def)
  have none: "manifest_with_etag empty_azure ''w'' = None" by (simp add: manifest_with_etag_def empty_azure_def)
  have w: "cj_workload ?j = ''w''" by (simp add: run_job_def)
  define c1 where "c1 = (race_start empty_azure)\<lparr>rc_clients := (rc_clients (race_start empty_azure))(0 := Holding 7 None)\<rparr>"
  have r1: "?R (race_start empty_azure) c1"
    using race_step.read [of "race_start empty_azure" 0 7 show_nat show_nat "\<lambda>i. ?j"]
    by (simp add: race_start_def MAX_COMMIT_RETRIES_def c1_def w none)
  obtain e s where up: "upload show_nat ?j None empty_azure = (Inr e, s)"
    and s: "store_ok show_nat show_nat s" "pointers_ok s e" "mf_workload e = ''w''" "az_index s = []"
    by (rule upload_ok [OF empty_store_ok job, of None show_nat show_nat])
       (use inj w in \<open>auto simp: empty_azure_def\<close>)
  define c2 where "c2 = c1\<lparr>rc_store := s, rc_clients := (rc_clients c1)(0 := Uploaded 7 None e)\<rparr>"
  have r2: "?R c1 c2"
    using race_step.uploaded [of c1 0 7 None show_nat "\<lambda>i. ?j" e s show_nat] up
    by (simp add: c1_def c2_def race_start_def)
  have flipped: "flip show_nat None e s = (Inr True, put_manifest show_nat (encode_storage_key ''w'') e s)"
    by (simp add: flip_def s(3,4))
  define c3 where "c3 = c2\<lparr>rc_store := put_manifest show_nat (encode_storage_key ''w'') e s,
      rc_clients := (rc_clients c2)(0 := Returned), rc_log := rc_log c2 @ [0]\<rparr>"
  have r3: "?R c2 c3"
    using race_step.won [of c2 0 7 None e show_nat] flipped by (simp add: c2_def c3_def)
  have r: "?R\<^sup>*\<^sup>* (race_start empty_azure) c3"
    using r1 r2 r3 by (meson converse_rtranclp_into_rtranclp rtranclp.rtrancl_refl)
  have log: "rc_log c3 = [0]" "rc_clients c3 0 = Returned" by (simp_all add: c3_def c2_def c1_def race_start_def)
  have "azure_get_estate (rc_store c3) ''w'' =
      read_estate (local_run bytes_hex (\<lambda>_. []) (\<lambda>_. []) (map (\<lambda>i. CommitRun ''w'' sample_run) (rc_log c3)) empty_state) ''w''"
    using race_linearizable [where ws = "\<lambda>_. ''w''" and rs = "\<lambda>_. sample_run" and b = "\<lambda>_. []" and w = "''w''"
        and sha = bytes_hex and ts = "\<lambda>_. []" and c = c3, OF inj inj _ r refl] job by blast
  then show ?thesis using r log by (intro exI [of _ c3]) simp
qed

section \<open>A commit against other operations\<close>

definition index_frame :: "azure_state \<Rightarrow> azure_state \<Rightarrow> bool" where
  "index_frame a a' \<longleftrightarrow> az_estates a' = az_estates a \<and> az_graphs a' = az_graphs a
     \<and> az_findings a' = az_findings a \<and> az_advisories a' = az_advisories a
     \<and> az_index a' = az_index a \<and> az_uuids a' = az_uuids a \<and> az_tags a \<le> az_tags a'"

lemma index_frame_refl [simp]: "index_frame a a"
  by (simp add: index_frame_def)

lemma index_frame_ok: "index_frame a a' \<Longrightarrow> store_ok uuid tags a \<Longrightarrow> store_ok uuid tags a'"
  unfolding index_frame_def by (elim conjE) (rule store_ok_frame)

lemma index_frame_evolves: "index_frame a a' \<Longrightarrow> evolves tags a a'"
  by (simp add: index_frame_def evolves_def blobs_le_def)

text \<open>The operations that commit to a workload.\<close>

fun commits_to :: "write_op \<Rightarrow> string \<Rightarrow> bool" where
  "commits_to (PutEstate w _) k = (w = k)"
| "commits_to (PutGraph w _) k = (w = k)"
| "commits_to (AddFindings w _) k = (w = k)"
| "commits_to (CommitRun w _) k = (w = k)"
| "commits_to _ k = False"

lemma audit_loop_frame: "index_frame a (snd (audit_loop sha ts tags e quiet n a))"
proof (induction n arbitrary: a)
  case (Suc n)
  obtain r a' where r: "audit_attempt sha ts tags e (quiet n) a = (r, a')" by force
  have "index_frame a a'"
    using r by (auto simp: audit_attempt_def Let_def quiet_def index_frame_def split: if_splits)
  then show ?case using Suc.IH [of a']
    by (auto simp: abind_def r areturn_def index_frame_def split: sum.split)
qed simp

lemma snapshot_frame: "index_frame a (snd (azure_snapshot (quiet k) w a))"
  by (auto simp: azure_snapshot_def Let_def quiet_def abind_def write_payload_blob_def index_frame_def
      split: sum.split)

lemma commit_write:
  assumes ok: "store_ok uuid tags a" and inj: "inj uuid" "inj tags"
    and adv: "\<forall>as. cj_advisories j = Some as \<longrightarrow> distinct (map ra_index as)"
  shows "store_ok uuid tags (snd (commit uuid tags j quiet a))
    \<and> evolves tags a (snd (commit uuid tags j quiet a))
    \<and> (k \<noteq> cj_workload j \<longrightarrow> manifest_with_etag (snd (commit uuid tags j quiet a)) k = manifest_with_etag a k)"
proof (cases "gate_error (cj_findings j)")
  case None
  then have "job_ok j" using adv by (simp add: job_ok_def gate_error_None)
  from commit_quiet [OF ok this inj] obtain e t s' where "commit uuid tags j quiet a = (Inr (job_counts j), s')"
    "store_ok uuid tags s'" "evolves tags a s'" "s' = put_manifest tags (encode_storage_key (cj_workload j)) e t"
    "az_index t = az_index a" by blast
  then show ?thesis by (simp add: put_manifest_def manifest_with_etag_def)
next
  case (Some e)
  then show ?thesis using gate_error_commit [OF Some, of uuid tags quiet a] ok by simp
qed

lemma azure_write_ok:
  assumes ok: "store_ok uuid tags a" and inj: "inj uuid" "inj tags" and op: "op_ok b op"
  shows "store_ok uuid tags (snd (azure_write uuid tags sha ts b op a))
    \<and> evolves tags a (snd (azure_write uuid tags sha ts b op a))
    \<and> (\<not> commits_to op k \<longrightarrow> manifest_with_etag (snd (azure_write uuid tags sha ts b op a)) k = manifest_with_etag a k)"
proof -
  have frame: ?thesis if "index_frame a (snd (azure_write uuid tags sha ts b op a))"
    using that index_frame_ok [OF that ok] index_frame_evolves [OF that]
    by (simp add: index_frame_def manifest_with_etag_def)
  show ?thesis
  proof (cases op)
    case (PutEstate w ns)
    then show ?thesis using commit_write [OF ok inj, of "\<lparr>cj_workload = w, cj_estate = Some ns, cj_graph = None,
        cj_findings = [], cj_advisories = None\<rparr>" k] by (simp add: azure_put_estate_def)
  next
    case (PutGraph w g)
    then show ?thesis using commit_write [OF ok inj, of "\<lparr>cj_workload = w, cj_estate = None, cj_graph = Some g,
        cj_findings = [], cj_advisories = None\<rparr>" k] by (simp add: azure_put_graph_def)
  next
    case (AddFindings w fs)
    then show ?thesis using commit_write [OF ok inj, of "\<lparr>cj_workload = w, cj_estate = None, cj_graph = None,
        cj_findings = fs, cj_advisories = None\<rparr>" k] by (simp add: azure_add_findings_def)
  next
    case (CommitRun w r)
    have "\<forall>as. cj_advisories (run_job b w r) = Some as \<longrightarrow> distinct (map ra_index as)"
      using op CommitRun by (auto simp: run_job_def)
    from commit_write [OF ok inj this, of k] show ?thesis
      by (simp add: CommitRun azure_commit_run_def) (simp add: run_job_def)
  next
    case (Snapshot w)
    then show ?thesis using snapshot_frame by (intro frame) simp
  next
    case (TryRecordImported p)
    then show ?thesis
      by (intro frame) (auto simp: azure_try_record_def index_frame_def split: option.split)
  next
    case (AppendAudit e)
    then show ?thesis using audit_loop_frame by (intro frame) (simp add: azure_append_audit_def)
  qed (intro frame, simp add: azure_put_assignment_def azure_put_imported_def azure_put_config_def index_frame_def)+
qed

lemma azure_run_ok:
  assumes "store_ok uuid tags a" "inj uuid" "inj tags" "list_all (op_ok b) ops"
  shows "store_ok uuid tags (snd (azure_run uuid tags sha ts b ops a))
    \<and> evolves tags a (snd (azure_run uuid tags sha ts b ops a))
    \<and> ((\<forall>op \<in> set ops. \<not> commits_to op k) \<longrightarrow>
        manifest_with_etag (snd (azure_run uuid tags sha ts b ops a)) k = manifest_with_etag a k)"
  using assms(1,4)
proof (induction ops arbitrary: a)
  case (Cons op ops)
  obtain x a' where x: "azure_write uuid tags sha ts b op a = (x, a')" by force
  have "op_ok b op" "list_all (op_ok b) ops" using Cons.prems by simp_all
  with azure_write_ok [OF Cons.prems(1) assms(2,3), of b op sha ts k] Cons.IH [of a']
  show ?case by (auto simp: x case_prod_beta intro: evolves_trans)
qed simp

text \<open>C12: a commit completes. Whatever operations other clients run between the read and the conditional
  write of each of its eight attempts, a run whose findings pass the gates is committed as soon as one
  attempt meets no other commit of its workload; it then shows on top of everything that was committed
  before its conditional write, and no other workload changes with it.\<close>

theorem commit_completes:
  assumes "inj uuid" "inj tags" "\<And>n. list_all (op_ok b) (ops n)" "list_all (op_ok b) before"
    and "s = snd (azure_run uuid tags sha ts b before empty_azure)"
    and "list_all storable (mr_findings r)" "op_ok b (CommitRun w r)"
    and "n < MAX_COMMIT_RETRIES" "\<forall>op \<in> set (ops n). \<not> commits_to op w"
  shows "\<exists>t s'. azure_commit_run uuid tags (\<lambda>n a. snd (azure_run uuid tags sha ts b (ops n) a)) b w r s
      = (Inr (job_counts (run_job b w r)), s')
    \<and> (\<forall>k. content s' (manifest_of s' k) = (if k = w then apply_job (run_job b w r) (content t (manifest_of t k))
         else content t (manifest_of t k)))
    \<and> evolves tags s s'"
proof -
  let ?others = "\<lambda>n a. snd (azure_run uuid tags sha ts b (ops n) a)" and ?j = "run_job b w r"
  have ok: "store_ok uuid tags s" using azure_run_ok [OF empty_store_ok assms(1,2,4)] assms(5) by simp
  have others: "behaved uuid tags (?others n)" for n
    using azure_run_ok [OF _ assms(1,2,3)] by (simp add: behaved_def)
  have w: "cj_workload ?j = w" by (simp add: run_job_def)
  have job: "job_ok ?j" using assms(6,7) by (auto simp: job_ok_def run_job_def list_all_iff)
  have alone: "\<exists>n < MAX_COMMIT_RETRIES. \<forall>t. store_ok uuid tags t \<longrightarrow>
      manifest_with_etag (?others n t) (cj_workload ?j) = manifest_with_etag t (cj_workload ?j)"
    using assms(8,9) azure_run_ok [OF _ assms(1,2,3)] w by metis
  from commit_loop_completes [OF job assms(1,2) others alone ok] obtain e t s' where
    loop: "commit_loop uuid tags ?j ?others MAX_COMMIT_RETRIES s = (Inr (job_counts ?j), s')"
    and s': "s' = put_manifest tags (encode_storage_key w) e t" "evolves tags s s'"
      "content t (Some e) = apply_job ?j (content t (manifest_of t w))"
    unfolding w by blast
  have gates: "enforce_finding_provenance (cj_findings ?j) = Inr ()"
      "revalidate_finding_provenance (cj_findings ?j) = Inr ()"
    using job by (auto simp: enforce_finding_provenance_iff revalidate_iff job_ok_def storable_def)
  have "content s' m = content t m" for m by (rule content_frame) (simp_all add: s'(1) put_manifest_def)
  moreover have "manifest_of s' k = (if k = w then Some e else manifest_of t k)" for k
    by (simp add: s'(1) manifest_of_put)
  moreover have "azure_commit_run uuid tags ?others b w r s = (Inr (job_counts ?j), s')"
    by (simp only: azure_commit_run_def commit_def gates sum.case loop)
  ultimately show ?thesis using s'(2,3) by (intro exI [of _ t] exI [of _ s']) simp
qed

theorem commit_completes_witness:
  "\<exists>s'. azure_commit_run show_nat show_nat (\<lambda>n a. snd (azure_run show_nat show_nat bytes_hex (\<lambda>_. []) (\<lambda>_. [])
       (if n = 7 then [PutEstate ''w'' []] else [PutEstate ''v'' []]) a)) (\<lambda>_. []) ''w'' sample_run empty_azure
     = (Inr (0, 0, 0), s')"
proof -
  have i: "inj show_nat" by (simp add: inj_def show_nat_inj)
  have counts: "job_counts (run_job (\<lambda>_. []) ''w'' sample_run) = (0, 0, 0)"
    by (simp add: job_counts_def run_job_def sample_run_def)
  show ?thesis
    using commit_completes [where ops = "\<lambda>n. if n = 7 then [PutEstate ''w'' []] else [PutEstate ''v'' []]"
        and b = "\<lambda>_. []" and before = "[]" and w = "''w''" and r = sample_run and n = 6
        and sha = bytes_hex and ts = "\<lambda>_. []" and s = empty_azure, OF i i]
    unfolding counts by (fastforce simp: sample_run_def MAX_COMMIT_RETRIES_def)
qed

end
