(* ===== verification/Ip_Address.thy ===== *)
theory Ip_Address
  imports Json_Text
begin

text \<open>
  The part of Python's standard library that the grounding gate reads text with: \<open>str.isdigit\<close> and
  \<open>str.isalpha\<close>, \<open>strip\<close> with a set of characters, \<open>re.split\<close> at runs of separators, and
  \<open>ipaddress.ip_address(s).compressed\<close> (Python 3.11) for IPv4 and IPv6.
\<close>

section \<open>Characters and splitting\<close>

definition py_isdigit :: "char \<Rightarrow> bool" where
  "py_isdigit c \<longleftrightarrow> is_digit_char c \<or> (of_char c :: nat) \<in> {178, 179, 185}"

definition py_isalpha :: "char \<Rightarrow> bool" where
  "py_isalpha c \<longleftrightarrow>
     (let n = (of_char c :: nat)
      in (65 \<le> n \<and> n \<le> 90) \<or> (97 \<le> n \<and> n \<le> 122) \<or> n \<in> {170, 181, 186}
         \<or> (192 \<le> n \<and> n \<noteq> 215 \<and> n \<noteq> 247))"

definition strip_left :: "string \<Rightarrow> string \<Rightarrow> string" where
  "strip_left cs s = dropWhile (\<lambda>c. c \<in> set cs) s"

definition strip_right :: "string \<Rightarrow> string \<Rightarrow> string" where
  "strip_right cs s = rev (dropWhile (\<lambda>c. c \<in> set cs) (rev s))"

definition strip_chars :: "string \<Rightarrow> string \<Rightarrow> string" where
  "strip_chars cs s = strip_right cs (strip_left cs s)"

text \<open>\<open>re.split("[\<dots>]+", s)\<close>: the pieces between the maximal runs of separators.\<close>

function re_split :: "(char \<Rightarrow> bool) \<Rightarrow> string \<Rightarrow> string list" where
  "re_split sep s =
     takeWhile (\<lambda>c. \<not> sep c) s #
       (case dropWhile (\<lambda>c. \<not> sep c) s of
          [] \<Rightarrow> []
        | _ # rest \<Rightarrow> re_split sep (dropWhile sep rest))"
  by pat_completeness auto
termination
proof (relation "measure (\<lambda>(_, s). length s)")
  fix sep :: "char \<Rightarrow> bool" and s c rest
  assume "dropWhile (\<lambda>c. \<not> sep c) s = c # rest"
  then have "length (c # rest) \<le> length s" by (metis length_dropWhile_le)
  moreover have "length (dropWhile sep rest) \<le> length rest" by (rule length_dropWhile_le)
  ultimately show "((sep, dropWhile sep rest), (sep, s)) \<in> measure (\<lambda>(_, s). length s)" by simp
qed simp

declare re_split.simps [simp del]

lemma re_split_pieces: "p \<in> set (re_split sep s) \<Longrightarrow> c \<in> set p \<Longrightarrow> \<not> sep c \<and> c \<in> set s"
proof (induction sep s arbitrary: p rule: re_split.induct)
  case (1 sep s)
  show ?case
  proof (cases "p = takeWhile (\<lambda>c. \<not> sep c) s")
    case True
    then show ?thesis using "1.prems" by (auto dest: set_takeWhileD)
  next
    case False
    then have rest: "p \<in> set (case dropWhile (\<lambda>c. \<not> sep c) s of [] \<Rightarrow> []
                          | _ # rest \<Rightarrow> re_split sep (dropWhile sep rest))"
      using "1.prems"(1) re_split.simps [of sep s] by simp
    then obtain d rest where d: "dropWhile (\<lambda>c. \<not> sep c) s = d # rest"
      by (cases "dropWhile (\<lambda>c. \<not> sep c) s") simp_all
    with rest have p: "p \<in> set (re_split sep (dropWhile sep rest))" by simp
    have "\<not> sep c \<and> c \<in> set (dropWhile sep rest)" using "1.IH" d p "1.prems"(2) by blast
    moreover have "set (d # rest) \<subseteq> set s" unfolding d [symmetric] by (auto dest: set_dropWhileD)
    ultimately show ?thesis by (auto dest: set_dropWhileD)
  qed
qed

text \<open>A word of the text, up to the separator after it, is a piece of its own.\<close>

lemma re_split_word:
  assumes "\<forall>c \<in> set w. \<not> sep c" and "sep d" and "rest \<noteq> []" and "\<not> sep (hd rest)"
  shows "re_split sep (w @ d # rest) = w # re_split sep rest"
proof -
  have "dropWhile sep rest = rest" using assms(3,4) by (cases rest) auto
  moreover have "takeWhile (\<lambda>c. \<not> sep c) (w @ d # rest) = w"
    "dropWhile (\<lambda>c. \<not> sep c) (w @ d # rest) = d # rest"
    using assms(1,2) by (auto simp: takeWhile_append dropWhile_append)
  ultimately show ?thesis by (subst re_split.simps) simp
qed

lemma re_split_last: "\<forall>c \<in> set w. \<not> sep c \<Longrightarrow> re_split sep w = [w]"
  by (subst re_split.simps) (auto simp: takeWhile_eq_all_conv [THEN iffD2] dropWhile_eq_Nil_conv [THEN iffD2])

section \<open>IP addresses\<close>

text \<open>\<open>IPv4Address\<close>: four decimal octets of at most three digits, without leading zeros.\<close>

definition parse_octet :: "string \<Rightarrow> nat option" where
  "parse_octet s =
     (if s = [] \<or> \<not> list_all is_digit_char s \<or> length s > 3 then None
      else if s \<noteq> ''0'' \<and> hd s = CHR ''0'' then None
      else if read_nat s > 255 then None else Some (read_nat s))"

definition parse_ipv4 :: "string \<Rightarrow> nat list option" where
  "parse_ipv4 s =
     (let os = map parse_octet (py_split CHR ''.'' s)
      in if length os \<noteq> 4 \<or> None \<in> set os then None else Some (map the os))"

text \<open>\<open>IPv6Address\<close>: hexadecimal groups of at most four digits, at most one \<open>::\<close>, the last two groups
  possibly written as an IPv4 address.\<close>

definition hex_read :: "string \<Rightarrow> nat" where
  "hex_read = foldl (\<lambda>a c. 16 * a + the (hex_value c)) 0"

fun hex_show :: "nat \<Rightarrow> string" where
  "hex_show n = (if n < 16 then [hex_digit n] else hex_show (n div 16) @ [hex_digit (n mod 16)])"

declare hex_show.simps [simp del]

definition parse_hextet :: "string \<Rightarrow> nat option" where
  "parse_hextet s =
     (if s = [] \<or> list_ex (\<lambda>c. hex_value c = None) s \<or> length s > 4 then None else Some (hex_read s))"

definition ipv4_tail :: "string list \<Rightarrow> string list option" where
  "ipv4_tail parts =
     (if CHR ''.'' \<in> set (last parts) then
        (case parse_ipv4 (last parts) of
           Some [a, b, c, d] \<Rightarrow> Some (butlast parts @ [hex_show (256 * a + b), hex_show (256 * c + d)])
         | _ \<Rightarrow> None)
      else Some parts)"

definition parse_groups :: "string list \<Rightarrow> nat list option" where
  "parse_groups ps =
     (let hs = map parse_hextet ps in if None \<in> set hs then None else Some (map the hs))"

definition parse_parts :: "string list \<Rightarrow> nat list option" where
  "parse_parts parts =
     (let inner = filter (\<lambda>i. parts ! i = []) [1..<length parts - 1] in
      case inner of
        [] \<Rightarrow> if length parts \<noteq> 8 then None else parse_groups parts
      | [skip] \<Rightarrow>
          (let hi = take skip parts; lo = drop (skip + 1) parts;
               hi' = (if hd parts = [] then tl hi else hi);
               lo' = (if last parts = [] then butlast lo else lo)
           in if hd parts = [] \<and> hi' \<noteq> [] \<or> last parts = [] \<and> lo' \<noteq> [] \<or> length hi' + length lo' > 7 then None
              else (case (parse_groups hi', parse_groups lo') of
                      (Some a, Some b) \<Rightarrow> Some (a @ replicate (8 - length a - length b) 0 @ b)
                    | _ \<Rightarrow> None))
      | _ \<Rightarrow> None)"

definition parse_ipv6 :: "string \<Rightarrow> nat list option" where
  "parse_ipv6 s =
     (let parts = py_split CHR '':'' s in
      if length parts < 3 then None
      else case ipv4_tail parts of
             None \<Rightarrow> None
           | Some ps \<Rightarrow> if length ps > 9 then None else parse_parts ps)"

text \<open>The text of an address: the first longest run of at least two zero groups becomes \<open>::\<close>.\<close>

definition zero_run :: "nat list \<Rightarrow> nat \<Rightarrow> nat" where
  "zero_run hs i = length (takeWhile (\<lambda>h. h = 0) (drop i hs))"

definition best_run :: "nat list \<Rightarrow> nat" where
  "best_run hs =
     foldl (\<lambda>best i. if zero_run hs i > zero_run hs best then i else best) 0 [0..<length hs]"

definition compressed_ipv6 :: "nat list \<Rightarrow> string" where
  "compressed_ipv6 hs =
     (let i = best_run hs; n = zero_run hs i; texts = map hex_show hs in
      if n \<le> 1 then py_join CHR '':'' texts
      else py_join CHR '':'' ((if i = 0 then [[]] else []) @ take i texts @ [[]] @ drop (i + n) texts
             @ (if i + n = length hs then [[]] else [])))"

definition compressed_ipv4 :: "nat list \<Rightarrow> string" where
  "compressed_ipv4 os = py_join CHR ''.'' (map show_nat os)"

text \<open>\<open>ipaddress.ip_address(s).compressed\<close>, with \<open>None\<close> for \<open>ValueError\<close>. An IPv6 zone after \<open>%\<close> is kept.\<close>

definition ip_compressed :: "string \<Rightarrow> string option" where
  "ip_compressed s =
     (case parse_ipv4 s of
        Some os \<Rightarrow> Some (compressed_ipv4 os)
      | None \<Rightarrow>
          (case py_partition CHR ''%'' s of
             (addr, zoned, zone) \<Rightarrow>
               if CHR ''/'' \<in> set s \<or> zoned \<and> (zone = [] \<or> CHR ''%'' \<in> set zone) then None
               else map_option (\<lambda>hs. compressed_ipv6 hs @ (if zoned then CHR ''%'' # zone else []))
                      (parse_ipv6 addr)))"

lemma ip_compressed_examples:
  "ip_compressed ''::1'' = Some ''::1''"
  "ip_compressed ''0:0:0:0:0:0:0:1'' = Some ''::1''"
  "ip_compressed ''1:0:0:2:0:0:0:C'' = Some ''1:0:0:2::c''"
  "ip_compressed ''a:0::'' = Some ''a::''"
  "ip_compressed ''10.0.0.4'' = Some ''10.0.0.4''"
  "ip_compressed ''10.0.0.04'' = None"
  "ip_compressed ''1::2::3'' = None"
  "ip_compressed ''12:34'' = None"
  by code_simp+

end
