(* ===== verification/Rca_Grounding.thy ===== *)
theory Rca_Grounding
  imports Pack_Model Ip_Address
begin

text \<open>
  The grounding gate of \<open>src/shared/rca_grounding.py\<close> and the durable boundary that re-runs it,
  \<open>build_rca_advisories\<close> of \<open>src/shared/contracts.py\<close>: which identifiers, IP literals and quantities
  a text mentions, when an explanation mentions only what the cited evidence mentions, and which
  advisories of a run's \<open>extra\<close> are persisted.

  Parameters: the Unicode normalisation of \<^typ>\<open>unicode_db\<close>, the text \<open>str(confidence)\<close> of a float, and
  Pydantic's \<open>AgentResponse.model_validate\<close>.
\<close>

section \<open>Constants\<close>

definition MAX_ADVISORY_CHARS :: nat where "MAX_ADVISORY_CHARS = 2000"
definition MAX_RCA_ADVISORIES :: nat where "MAX_RCA_ADVISORIES = 64"
definition MAX_SOURCE_REFERENCES :: nat where "MAX_SOURCE_REFERENCES = 32"
definition MAX_GROUNDING_ITEMS :: nat where "MAX_GROUNDING_ITEMS = 16"
definition MAX_GROUNDING_ITEM_CHARS :: nat where "MAX_GROUNDING_ITEM_CHARS = 500"

definition QUOTES :: string where
  "QUOTES = [CHR 0x22, CHR 0x27, CHR 0x60]"

definition token_separator :: "char \<Rightarrow> bool" where
  "token_separator c \<longleftrightarrow>
     py_isspace c \<or> c \<in> set (''@;()[]{}'' @ QUOTES @ ''<>=!?|~^*%$#&+'' @ [CHR 0x5C])"

definition TOKEN_WRAP :: string where "TOKEN_WRAP = ''()[]{}'' @ QUOTES @ ''<>''"
definition TOKEN_TRAIL :: string where "TOKEN_TRAIL = ''.,;:!?''"
definition TOKEN_LEAD :: string where "TOKEN_LEAD = '',:''"

definition BENIGN_HYPHENATED :: "string list" where
  "BENIGN_HYPHENATED =
     [''root-cause'', ''fail-closed'', ''in-boundary'', ''auto-rca'', ''blast-radius'', ''call-support'',
      ''read-only'', ''single-point-of-failure'', ''point-of-failure'', ''well-known'', ''up-to-date'',
      ''z-score'', ''end-to-end'']"

definition ABBREVIATIONS :: "string list" where
  "ABBREVIATIONS =
     [''e.g'', ''i.e'', ''etc'', ''vs'', ''a.k.a'', ''cf'', ''et.al'', ''a.m'', ''p.m'', ''u.s'']"

section \<open>Tokens\<close>

text \<open>\<open>_preprocess\<close>. Below code point 256 the one format character (category \<open>Cf\<close>) is the soft hyphen
  U+00AD and the one dash (category \<open>Pd\<close>) is the ASCII hyphen, which is folded to itself.\<close>

definition category_Cf :: "char \<Rightarrow> bool" where "category_Cf c \<longleftrightarrow> (of_char c :: nat) = 173"
definition category_Pd :: "char \<Rightarrow> bool" where "category_Pd c \<longleftrightarrow> c = CHR ''-''"

definition preprocess :: "unicode_db \<Rightarrow> string \<Rightarrow> string" where
  "preprocess U text =
     map (\<lambda>c. if category_Pd c then CHR ''-'' else c) (filter (\<lambda>c. \<not> category_Cf c) (ud_nfkc U text))"

definition normalize :: "string \<Rightarrow> string" where
  "normalize token = py_lower (strip_chars ''._-/'' token)"

definition try_ip :: "string \<Rightarrow> string option" where
  "try_ip token =
     (case ip_compressed token of
        Some a \<Rightarrow> Some (py_lower a)
      | None \<Rightarrow> map_option py_lower (ip_compressed (strip_right ''.,;:!?'' token)))"

definition clean_token :: "string \<Rightarrow> string" where
  "clean_token raw = strip_left TOKEN_LEAD (strip_right TOKEN_TRAIL (strip_chars TOKEN_WRAP raw))"

text \<open>\<open>_NUMERIC_LEXEME\<close>: an optional sign, digits or grouped thousands, an optional fraction.\<close>

definition all_digits :: "string \<Rightarrow> bool" where
  "all_digits s \<longleftrightarrow> s \<noteq> [] \<and> list_all is_digit_char s"

definition grouped_thousands :: "string \<Rightarrow> bool" where
  "grouped_thousands s =
     (case py_split CHR '','' s of
        [] \<Rightarrow> False
      | g # gs \<Rightarrow> gs \<noteq> [] \<and> all_digits g \<and> length g \<le> 3 \<and> list_all (\<lambda>h. all_digits h \<and> length h = 3) gs)"

fun drop_sign :: "string \<Rightarrow> string" where
  "drop_sign (c # s) = (if c = CHR ''-'' \<or> c = CHR ''+'' then s else c # s)"
| "drop_sign [] = []"

definition numeric_lexeme :: "string \<Rightarrow> bool" where
  "numeric_lexeme s =
     (case py_partition CHR ''.'' (drop_sign s) of
        (whole, dotted, fraction) \<Rightarrow>
          (all_digits whole \<or> grouped_thousands whole) \<and> (dotted \<longrightarrow> all_digits fraction))"

text \<open>\<open>_to_decimal\<close>: the value of \<open>Decimal\<close> on a sign, digits with an optional point and an optional
  exponent (as \<open>str\<close> of a float may have); \<open>None\<close> is \<open>InvalidOperation\<close>. The infinities, NaN,
  underscores and white space that \<open>Decimal\<close> also takes are in no lexeme and in no confidence.\<close>

definition ten_powi :: "int \<Rightarrow> rat" where
  "ten_powi e = (if e \<ge> 0 then 10 ^ nat e else 1 / 10 ^ nat (- e))"

definition signed_digits :: "string \<Rightarrow> int option" where
  "signed_digits s =
     (if \<not> all_digits (drop_sign s) then None
      else Some ((if s \<noteq> [] \<and> hd s = CHR ''-'' then - 1 else 1) * int (read_nat (drop_sign s))))"

definition mantissa :: "string \<Rightarrow> int \<Rightarrow> rat option" where
  "mantissa s e =
     (case py_partition CHR ''.'' s of
        (whole, _, fraction) \<Rightarrow>
          if all_digits (whole @ fraction)
          then Some (of_int (int (read_nat (whole @ fraction))) * ten_powi (e - int (length fraction)))
          else None)"

definition to_decimal :: "string \<Rightarrow> rat option" where
  "to_decimal lexeme =
     (let s = filter (\<lambda>c. c \<noteq> CHR '','') lexeme;
          neg = (s \<noteq> [] \<and> hd s = CHR ''-'')
      in case py_partition CHR ''e'' (py_lower (drop_sign s)) of
           (m, False, _) \<Rightarrow> map_option (\<lambda>x. if neg then - x else x) (mantissa m 0)
         | (m, True, ex) \<Rightarrow>
             (case signed_digits ex of
                None \<Rightarrow> None
              | Some e \<Rightarrow> map_option (\<lambda>x. if neg then - x else x) (mantissa m e)))"

section \<open>Classification\<close>

text \<open>\<open>_is_ipv4\<close>. \<open>int\<close> of a digit that is not decimal raises; it is reached by no caller, since
  \<open>_looks_like_entity\<close> is only asked about tokens without a digit.\<close>

definition is_ipv4 :: "string \<Rightarrow> bool" where
  "is_ipv4 token =
     (let parts = py_split CHR ''.'' token
      in length parts = 4 \<and> list_all (\<lambda>p. p \<noteq> [] \<and> list_all py_isdigit p \<and> read_nat p \<le> 255) parts)"

definition is_dotted_entity :: "string \<Rightarrow> bool" where
  "is_dotted_entity token =
     (let labels = py_split CHR ''.'' token; final = last labels in
      if length labels < 2 then False
      else if \<not> list_ex py_isalpha token then False
      else if final \<noteq> [] \<and> list_all py_isalpha final \<and> length final \<ge> 2 then True
      else list_ex (list_ex py_isdigit) labels)"

definition looks_like_entity :: "string \<Rightarrow> bool" where
  "looks_like_entity token =
     (if token \<in> set BENIGN_HYPHENATED then False
      else if normalize token \<in> set ABBREVIATIONS then False
      else if list_ex (\<lambda>c. (of_char c :: nat) > 127) token then True
      else if is_ipv4 token then True
      else if is_dotted_entity token then True
      else if \<not> list_ex py_isalpha token then False
      else CHR ''/'' \<in> set token \<or> CHR ''_'' \<in> set token \<or> CHR ''-'' \<in> set token
        \<or> list_ex py_isdigit token)"

text \<open>What a text mentions: its entity tokens, canonical IP literals and quantities.\<close>

record mentions =
  mn_entities :: "string set"
  mn_ips :: "string set"
  mn_numbers :: "rat set"

definition no_mentions :: mentions where
  "no_mentions = \<lparr>mn_entities = {}, mn_ips = {}, mn_numbers = {}\<rparr>"

definition add_entity :: "string \<Rightarrow> mentions \<Rightarrow> mentions" where
  "add_entity e m = m\<lparr>mn_entities := insert e (mn_entities m)\<rparr>"

definition classify_token :: "string \<Rightarrow> mentions \<Rightarrow> mentions" where
  "classify_token token m =
     (if \<not> list_ex py_isdigit token then
        (if looks_like_entity token then add_entity (normalize token) m else m)
      else if numeric_lexeme token then
        (case to_decimal token of
           Some v \<Rightarrow> m\<lparr>mn_numbers := insert v (mn_numbers m)\<rparr>
         | None \<Rightarrow> m)
      else add_entity (normalize token) m)"

definition classify_segment :: "string \<Rightarrow> mentions \<Rightarrow> mentions" where
  "classify_segment segment m =
     (if try_ip segment \<noteq> None then m
      else if \<not> list_ex py_isdigit segment then
        (if looks_like_entity segment then add_entity (normalize segment) m else m)
      else if numeric_lexeme segment then m
      else add_entity (normalize segment) m)"

definition raw_tokens :: "unicode_db \<Rightarrow> string \<Rightarrow> string list" where
  "raw_tokens U text = re_split token_separator (preprocess U text)"

text \<open>The body of the loop of \<open>_extract\<close>.\<close>

definition extract_token :: "string \<Rightarrow> mentions \<Rightarrow> mentions" where
  "extract_token raw m =
     (let stripped = strip_chars TOKEN_WRAP raw in
      if stripped = [] then m
      else case try_ip stripped of
             Some ip \<Rightarrow> m\<lparr>mn_ips := insert ip (mn_ips m)\<rparr>
           | None \<Rightarrow>
               (let token = clean_token raw in
                if token = [] then m
                else
                  (let m' = classify_token token m in
                   if CHR ''/'' \<in> set token then
                     fold (\<lambda>segment. if segment \<noteq> [] then classify_segment segment else id)
                       (py_split CHR ''/'' token) m'
                   else m')))"

definition extract_text :: "unicode_db \<Rightarrow> string \<Rightarrow> mentions" where
  "extract_text U text = fold extract_token (raw_tokens U text) no_mentions"

section \<open>The gate\<close>

definition cited_text :: "agent_response \<Rightarrow> string list" where
  "cited_text r =
     ag_findings r @ ag_risks r @ ag_recommendations r @
     concat (map (\<lambda>ref. [sr_kind ref, sr_id ref] @
       (case sr_detail ref of None \<Rightarrow> [] | Some d \<Rightarrow> if d = [] then [] else [d])) (ag_sourceReferences r))"

definition join_mentions :: "mentions \<Rightarrow> mentions \<Rightarrow> mentions" where
  "join_mentions m n =
     \<lparr>mn_entities = mn_entities m \<union> mn_entities n, mn_ips = mn_ips m \<union> mn_ips n,
      mn_numbers = mn_numbers m \<union> mn_numbers n\<rparr>"

definition confidence_number :: "(rat \<Rightarrow> string) \<Rightarrow> agent_response \<Rightarrow> rat set" where
  "confidence_number float_str r = set_option (to_decimal (float_str (ag_confidence r)))"

definition corpus :: "unicode_db \<Rightarrow> (rat \<Rightarrow> string) \<Rightarrow> agent_response \<Rightarrow> mentions" where
  "corpus U float_str r =
     fold (\<lambda>part m. join_mentions m (extract_text U part)) (cited_text r)
       (no_mentions\<lparr>mn_numbers := confidence_number float_str r\<rparr>)"

definition evidence_corpus :: "unicode_db \<Rightarrow> (rat \<Rightarrow> string) \<Rightarrow> agent_response \<Rightarrow> string set" where
  "evidence_corpus U float_str r = mn_entities (corpus U float_str r)"

definition candidate_entity_tokens :: "unicode_db \<Rightarrow> string \<Rightarrow> string set" where
  "candidate_entity_tokens U text = mn_entities (extract_text U text)"

definition has_cited_evidence :: "unicode_db \<Rightarrow> (rat \<Rightarrow> string) \<Rightarrow> agent_response \<Rightarrow> bool" where
  "has_cited_evidence U float_str r =
     (let c = corpus U float_str r
      in mn_entities c \<noteq> {} \<or> mn_ips c \<noteq> {} \<or> mn_numbers c - confidence_number float_str r \<noteq> {})"

definition is_grounded :: "unicode_db \<Rightarrow> (rat \<Rightarrow> string) \<Rightarrow> agent_response \<Rightarrow> string \<Rightarrow> bool" where
  "is_grounded U float_str r explanation =
     (let c = extract_text U explanation; cited = corpus U float_str r
      in mn_entities c \<subseteq> mn_entities cited \<and> mn_ips c \<subseteq> mn_ips cited \<and> mn_numbers c \<subseteq> mn_numbers cited)"

definition ground_or_reject ::
  "unicode_db \<Rightarrow> (rat \<Rightarrow> string) \<Rightarrow> agent_response \<Rightarrow> string \<Rightarrow> string option" where
  "ground_or_reject U float_str r explanation =
     (let trimmed = py_strip explanation in
      if trimmed = [] then None
      else if \<not> has_cited_evidence U float_str r then None
      else if \<not> is_grounded U float_str r trimmed then None
      else Some trimmed)"

section \<open>The advisories of a run\<close>

text \<open>\<open>_bounded_items\<close> on a validated list of strings.\<close>

definition bounded_items :: "string list \<Rightarrow> string list" where
  "bounded_items items = map (take MAX_GROUNDING_ITEM_CHARS) (take MAX_GROUNDING_ITEMS items)"

definition bounded_response :: "agent_response \<Rightarrow> agent_response" where
  "bounded_response r =
     r\<lparr>ag_findings := bounded_items (ag_findings r), ag_risks := bounded_items (ag_risks r),
       ag_recommendations := bounded_items (ag_recommendations r),
       ag_sourceReferences := take MAX_SOURCE_REFERENCES (ag_sourceReferences r)\<rparr>"

text \<open>\<open>entry.get(k)\<close> of a mapping, \<open>None\<close> for anything else.\<close>

fun mapping_get :: "pyval \<Rightarrow> string \<Rightarrow> pyval option" where
  "mapping_get (VDict d) k = vget d k"
| "mapping_get _ k = None"

definition build_one_advisory ::
  "unicode_db \<Rightarrow> (rat \<Rightarrow> string) \<Rightarrow> (pyval \<Rightarrow> agent_response option) \<Rightarrow> nat \<Rightarrow> pyval \<Rightarrow> pyval list
     \<Rightarrow> rca_advisory option" where
  "build_one_advisory U float_str validate index entry rca_raw =
     (case Option.bind (mapping_get entry ''advisory'') str_key of
        None \<Rightarrow> None
      | Some text \<Rightarrow>
          if py_strip text = [] then None
          else if index \<ge> length rca_raw then None
          else (case rca_raw ! index of
            VDict rca \<Rightarrow>
              (case validate (VDict rca) of
                 None \<Rightarrow> None
               | Some response \<Rightarrow>
                   (let shown = bounded_response response in
                    case ground_or_reject U float_str shown text of
                      None \<Rightarrow> None
                    | Some grounded \<Rightarrow>
                        Some \<lparr>ra_index = index, ra_agentName = ag_agentName response,
                              ra_taskType = ag_taskType response, ra_confidence = ag_confidence response,
                              ra_advisory = take MAX_ADVISORY_CHARS grounded,
                              ra_findings = ag_findings shown, ra_risks = ag_risks shown,
                              ra_recommendations = ag_recommendations shown,
                              ra_sourceReferences = ag_sourceReferences shown,
                              ra_generatedAt = ag_generatedAt response\<rparr>))
          | _ \<Rightarrow> None))"

fun advisory_loop ::
  "(nat \<Rightarrow> pyval \<Rightarrow> rca_advisory option) \<Rightarrow> nat \<Rightarrow> pyval list \<Rightarrow> rca_advisory list \<Rightarrow> rca_advisory list" where
  "advisory_loop build index [] advisories = advisories"
| "advisory_loop build index (entry # entries) advisories =
     (if length advisories \<ge> MAX_RCA_ADVISORIES then advisories
      else advisory_loop build (index + 1) entries
        (case build index entry of None \<Rightarrow> advisories | Some a \<Rightarrow> advisories @ [a]))"

definition build_rca_advisories ::
  "unicode_db \<Rightarrow> (rat \<Rightarrow> string) \<Rightarrow> (pyval \<Rightarrow> agent_response option) \<Rightarrow> (string, pyval) dict
     \<Rightarrow> rca_advisory list" where
  "build_rca_advisories U float_str validate extra =
     (case (dict_get extra ''rca'', dict_get extra ''rcaExplanation'') of
        (Some (VList rca_raw), Some (VList expl_raw)) \<Rightarrow>
          advisory_loop (\<lambda>index entry. build_one_advisory U float_str validate index entry rca_raw) 0 expl_raw []
      | _ \<Rightarrow> [])"

section \<open>What a token mentions\<close>

text \<open>The same classification without accumulators: the IP literal, the quantity and the names of one
  token of a text.\<close>

definition token_ip :: "string \<Rightarrow> string option" where
  "token_ip raw = (let s = strip_chars TOKEN_WRAP raw in if s = [] then None else try_ip s)"

definition plain_token :: "string \<Rightarrow> bool" where
  "plain_token raw \<longleftrightarrow>
     strip_chars TOKEN_WRAP raw \<noteq> [] \<and> token_ip raw = None \<and> clean_token raw \<noteq> []"

definition quantity :: "string \<Rightarrow> rat option" where
  "quantity raw =
     (if plain_token raw \<and> list_ex py_isdigit (clean_token raw) \<and> numeric_lexeme (clean_token raw)
      then to_decimal (clean_token raw) else None)"

definition entity_shape :: "string \<Rightarrow> bool" where
  "entity_shape t \<longleftrightarrow> (if list_ex py_isdigit t then \<not> numeric_lexeme t else looks_like_entity t)"

definition path_segments :: "string \<Rightarrow> string set" where
  "path_segments token =
     (if CHR ''/'' \<in> set token then {s \<in> set (py_split CHR ''/'' token). s \<noteq> [] \<and> try_ip s = None} else {})"

definition names :: "string \<Rightarrow> string set" where
  "names raw =
     (if plain_token raw then normalize ` {t \<in> insert (clean_token raw) (path_segments (clean_token raw)). entity_shape t}
      else {})"

lemma classify_token_mentions:
  "mn_entities (classify_token t m) = (if entity_shape t then insert (normalize t) (mn_entities m) else mn_entities m)"
  "mn_ips (classify_token t m) = mn_ips m"
  "mn_numbers (classify_token t m) =
     (if list_ex py_isdigit t \<and> numeric_lexeme t then set_option (to_decimal t) \<union> mn_numbers m else mn_numbers m)"
  by (auto simp: classify_token_def entity_shape_def add_entity_def split: option.splits)

lemma classify_segment_mentions:
  "mn_entities (classify_segment t m) =
     (if try_ip t = None \<and> entity_shape t then insert (normalize t) (mn_entities m) else mn_entities m)"
  "mn_ips (classify_segment t m) = mn_ips m"
  "mn_numbers (classify_segment t m) = mn_numbers m"
  by (auto simp: classify_segment_def entity_shape_def add_entity_def)

lemma classify_segments_mentions:
  fixes ss :: "string list"
  defines "go \<equiv> fold (\<lambda>s. if s \<noteq> [] then classify_segment s else id) ss"
  shows "mn_entities (go m) = mn_entities m \<union> normalize ` {s \<in> set ss. s \<noteq> [] \<and> try_ip s = None \<and> entity_shape s}"
    and "mn_ips (go m) = mn_ips m" and "mn_numbers (go m) = mn_numbers m"
proof -
  show "mn_entities (go m) = mn_entities m \<union> normalize ` {s \<in> set ss. s \<noteq> [] \<and> try_ip s = None \<and> entity_shape s}"
    unfolding go_def by (induction ss arbitrary: m) (auto simp: classify_segment_mentions)
  show "mn_ips (go m) = mn_ips m" and "mn_numbers (go m) = mn_numbers m"
    unfolding go_def by (induction ss arbitrary: m) (auto simp: classify_segment_mentions)
qed

lemma extract_token_mentions:
  "mn_entities (extract_token raw m) = mn_entities m \<union> names raw"
  "mn_ips (extract_token raw m) = mn_ips m \<union> set_option (token_ip raw)"
  "mn_numbers (extract_token raw m) = mn_numbers m \<union> set_option (quantity raw)"
proof -
  have seg: "{t \<in> insert a (path_segments a). entity_shape t} =
      {t. t = a \<and> entity_shape t} \<union>
      (if CHR ''/'' \<in> set a then {s \<in> set (py_split CHR ''/'' a). s \<noteq> [] \<and> try_ip s = None \<and> entity_shape s} else {})"
    for a by (auto simp: path_segments_def)
  show "mn_entities (extract_token raw m) = mn_entities m \<union> names raw"
    unfolding names_def seg
    by (auto simp: extract_token_def Let_def plain_token_def token_ip_def classify_token_mentions
        classify_segments_mentions split: option.splits)
  show "mn_ips (extract_token raw m) = mn_ips m \<union> set_option (token_ip raw)"
    by (simp add: extract_token_def Let_def token_ip_def classify_token_mentions
        classify_segments_mentions split: option.splits)
  show "mn_numbers (extract_token raw m) = mn_numbers m \<union> set_option (quantity raw)"
    by (auto simp: extract_token_def Let_def plain_token_def token_ip_def quantity_def classify_token_mentions
        classify_segments_mentions split: option.splits)
qed

lemma fold_extract_token:
  "mn_entities (fold extract_token raws m) = mn_entities m \<union> \<Union> (names ` set raws)"
  "mn_ips (fold extract_token raws m) = mn_ips m \<union> {a. \<exists>raw \<in> set raws. token_ip raw = Some a}"
  "mn_numbers (fold extract_token raws m) = mn_numbers m \<union> {q. \<exists>raw \<in> set raws. quantity raw = Some q}"
  by (induction raws arbitrary: m) (auto simp: extract_token_mentions)

lemma extract_sets:
  "mn_entities (extract_text U text) = \<Union> (names ` set (raw_tokens U text))"
  "mn_ips (extract_text U text) = {a. \<exists>raw \<in> set (raw_tokens U text). token_ip raw = Some a}"
  "mn_numbers (extract_text U text) = {q. \<exists>raw \<in> set (raw_tokens U text). quantity raw = Some q}"
  by (simp_all add: extract_text_def fold_extract_token no_mentions_def)

text \<open>The tokens of the cited fields.\<close>

definition cited_tokens :: "unicode_db \<Rightarrow> agent_response \<Rightarrow> string set" where
  "cited_tokens U r = (\<Union>part \<in> set (cited_text r). set (raw_tokens U part))"

lemma fold_join_mentions:
  "mn_entities (fold (\<lambda>part m. join_mentions m (f part)) parts m) = mn_entities m \<union> (\<Union>part \<in> set parts. mn_entities (f part))"
  "mn_ips (fold (\<lambda>part m. join_mentions m (f part)) parts m) = mn_ips m \<union> (\<Union>part \<in> set parts. mn_ips (f part))"
  "mn_numbers (fold (\<lambda>part m. join_mentions m (f part)) parts m) = mn_numbers m \<union> (\<Union>part \<in> set parts. mn_numbers (f part))"
  by (induction parts arbitrary: m) (auto simp: join_mentions_def)

lemma corpus_mentions:
  "mn_entities (corpus U fs r) = \<Union> (names ` cited_tokens U r)"
  "mn_ips (corpus U fs r) = {a. \<exists>raw \<in> cited_tokens U r. token_ip raw = Some a}"
  "mn_numbers (corpus U fs r) =
     confidence_number fs r \<union> {q. \<exists>raw \<in> cited_tokens U r. quantity raw = Some q}"
  by (auto simp: corpus_def fold_join_mentions extract_sets no_mentions_def cited_tokens_def)

section \<open>Every digit is classified\<close>

definition lexeme_char :: "char \<Rightarrow> bool" where
  "lexeme_char c \<longleftrightarrow> is_digit_char c \<or> c = CHR '','' \<or> c = CHR ''.''"

lemma lexeme_char_props:
  "lexeme_char c \<Longrightarrow> c \<noteq> CHR ''e'' \<and> c \<noteq> CHR ''-'' \<and> c \<noteq> CHR ''+'' \<and> char_lower c = c"
  by (auto simp: lexeme_char_def is_digit_char_def char_lower_def Let_def)

lemma lexeme_chars_lower: "\<forall>c \<in> set s. lexeme_char c \<Longrightarrow> py_lower s = s \<and> CHR ''e'' \<notin> set s"
  unfolding py_lower_def by (induction s) (auto dest: lexeme_char_props)

lemma digit_not_comma: "is_digit_char c \<Longrightarrow> c \<noteq> CHR '',''"
  and digit_not_dot: "is_digit_char c \<Longrightarrow> c \<noteq> CHR ''.''"
  by (auto simp: is_digit_char_def)

lemma py_split_set: "c \<in> set s \<Longrightarrow> c = d \<or> (\<exists>p \<in> set (py_split d s). c \<in> set p)"
proof (induction s)
  case (Cons x s)
  obtain p ps where "py_split d s = p # ps" by (cases "py_split d s") auto
  with Cons show ?case by auto
qed simp

lemma py_split_hd: "py_split d s = p # ps \<Longrightarrow> set p \<subseteq> set s"
proof (induction s arbitrary: p ps)
  case (Cons x s)
  obtain q qs where "py_split d s = q # qs" by (cases "py_split d s") auto
  with Cons show ?case by (fastforce split: if_splits)
qed simp

text \<open>The integer part of a lexeme without its commas is a run of digits.\<close>

lemma whole_digits:
  assumes "all_digits w \<or> grouped_thousands w"
  shows "all_digits (filter (\<lambda>c. c \<noteq> CHR '','') w)" and "\<forall>c \<in> set w. is_digit_char c \<or> c = CHR '',''"
proof -
  show chars: "\<forall>c \<in> set w. is_digit_char c \<or> c = CHR '',''"
    using assms
  proof
    assume "grouped_thousands w"
    then obtain g gs where sp: "py_split CHR '','' w = g # gs" and "all_digits g"
      and "list_all (\<lambda>h. all_digits h \<and> length h = 3) gs"
      by (auto simp: grouped_thousands_def split: list.splits)
    then have "\<forall>p \<in> set (py_split CHR '','' w). \<forall>c \<in> set p. is_digit_char c"
      by (auto simp: all_digits_def list_all_iff)
    then show ?thesis using py_split_set by metis
  qed (simp add: all_digits_def list_all_iff)
  have "\<exists>c \<in> set w. is_digit_char c"
    using assms
  proof
    assume "grouped_thousands w"
    then obtain g gs where sp: "py_split CHR '','' w = g # gs" and "all_digits g"
      by (auto simp: grouped_thousands_def split: list.splits)
    then have "hd g \<in> set w" "is_digit_char (hd g)"
      using py_split_hd [OF sp] by (auto simp: all_digits_def list_all_iff)
    then show ?thesis by blast
  next
    assume "all_digits w"
    then show ?thesis by (cases w) (auto simp: all_digits_def)
  qed
  then have "filter (\<lambda>c. c \<noteq> CHR '','') w \<noteq> []"
    by (auto simp: filter_empty_conv dest: digit_not_comma)
  then show "all_digits (filter (\<lambda>c. c \<noteq> CHR '','') w)"
    using chars by (auto simp: all_digits_def list_all_iff)
qed

lemma drop_sign_no_sign: "\<forall>c \<in> set s. c \<noteq> CHR ''-'' \<and> c \<noteq> CHR ''+'' \<Longrightarrow> drop_sign s = s"
  by (cases s) auto

lemma drop_sign_filter:
  assumes "\<forall>c \<in> set (drop_sign t). lexeme_char c"
  shows "drop_sign (filter (\<lambda>c. c \<noteq> CHR '','') t) = filter (\<lambda>c. c \<noteq> CHR '','') (drop_sign t)"
proof (cases t)
  case (Cons c s)
  show ?thesis
  proof (cases "c = CHR ''-'' \<or> c = CHR ''+''")
    case True
    then show ?thesis using Cons by auto
  next
    case False
    then have "\<forall>x \<in> set t. lexeme_char x" using assms Cons by simp
    then have "drop_sign (filter (\<lambda>c. c \<noteq> CHR '','') t) = filter (\<lambda>c. c \<noteq> CHR '','') t"
      by (intro drop_sign_no_sign) (auto dest: lexeme_char_props)
    then show ?thesis using False Cons by simp
  qed
qed simp

lemma to_decimal_lexeme:
  assumes "numeric_lexeme t"
  shows "to_decimal t \<noteq> None"
proof -
  obtain w d f where p: "py_partition CHR ''.'' (drop_sign t) = (w, d, f)" by (metis prod_cases3)
  then have w: "all_digits w \<or> grouped_thousands w" and f: "d \<longrightarrow> all_digits f"
    using assms by (simp_all add: numeric_lexeme_def)
  let ?nc = "filter (\<lambda>c. c \<noteq> CHR '','')"
  have body: "drop_sign t = w @ (if d then CHR ''.'' # f else [])"
    using p by (cases d) (auto dest: py_partition_found py_partition_not_found)
  have fd: "d \<Longrightarrow> \<forall>c \<in> set f. is_digit_char c" using f by (auto simp: all_digits_def list_all_iff)
  have chars: "\<forall>c \<in> set (drop_sign t). lexeme_char c"
    using whole_digits(2) [OF w] fd unfolding body by (auto simp: lexeme_char_def)
  have ncf: "d \<Longrightarrow> ?nc f = f" using fd digit_not_comma by (auto simp: filter_id_conv)
  have s: "drop_sign (?nc t) = ?nc w @ (if d then CHR ''.'' # f else [])"
    unfolding drop_sign_filter [OF chars] body by (simp add: ncf)
  have "py_lower (drop_sign (?nc t)) = drop_sign (?nc t)" "CHR ''e'' \<notin> set (drop_sign (?nc t))"
    using lexeme_chars_lower [of "?nc (drop_sign t)"] chars unfolding drop_sign_filter [OF chars] by simp_all
  moreover have "py_partition c x = (x, False, [])" if "c \<notin> set x" for c x
    using that by (induction x) auto
  ultimately have e: "py_partition CHR ''e'' (py_lower (drop_sign (?nc t))) = (drop_sign (?nc t), False, [])"
    by simp
  have nodot: "CHR ''.'' \<notin> set (?nc w)" using whole_digits(2) [OF w] by (auto dest: digit_not_dot)
  have "mantissa (drop_sign (?nc t)) 0 \<noteq> None"
  proof (cases d)
    case True
    then have "py_partition CHR ''.'' (drop_sign (?nc t)) = (?nc w, True, f)"
      unfolding s using nodot by (simp add: py_partition_append)
    then show ?thesis using whole_digits(1) [OF w] fd True
      by (auto simp: mantissa_def all_digits_def list_all_iff)
  next
    case False
    then have "py_partition CHR ''.'' (drop_sign (?nc t)) = (?nc w, False, [])"
      unfolding s using \<open>\<And>c x. c \<notin> set x \<Longrightarrow> py_partition c x = (x, False, [])\<close> nodot by simp
    then show ?thesis using whole_digits(1) [OF w] by (simp add: mantissa_def)
  qed
  then show ?thesis by (simp add: to_decimal_def Let_def e)
qed

lemma digit_classified:
  assumes "list_ex py_isdigit (clean_token raw)"
  shows "token_ip raw \<noteq> None \<or> quantity raw \<noteq> None \<or> normalize (clean_token raw) \<in> names raw"
proof (cases "token_ip raw")
  case None
  have c: "clean_token raw \<noteq> []" using assms by auto
  have "strip_chars TOKEN_WRAP raw \<noteq> []"
    using c by (auto simp: clean_token_def strip_left_def strip_right_def)
  then have "plain_token raw" using None c by (simp add: plain_token_def)
  then show ?thesis
    using assms to_decimal_lexeme by (auto simp: quantity_def names_def entity_shape_def)
qed simp

section \<open>What an accepted explanation mentions\<close>

text \<open>A token of the explanation is cited when its IP literal, its quantity and each of its names are
  those of a token of the cited fields; the confidence may be named too.\<close>

definition cited :: "unicode_db \<Rightarrow> (rat \<Rightarrow> string) \<Rightarrow> agent_response \<Rightarrow> string \<Rightarrow> bool" where
  "cited U fs r raw \<longleftrightarrow>
     (\<forall>a. token_ip raw = Some a \<longrightarrow> (\<exists>c \<in> cited_tokens U r. token_ip c = Some a))
     \<and> (\<forall>q. quantity raw = Some q \<longrightarrow>
          to_decimal (fs (ag_confidence r)) = Some q \<or> (\<exists>c \<in> cited_tokens U r. quantity c = Some q))
     \<and> (\<forall>n \<in> names raw. \<exists>c \<in> cited_tokens U r. n \<in> names c)"

definition some_evidence :: "unicode_db \<Rightarrow> (rat \<Rightarrow> string) \<Rightarrow> agent_response \<Rightarrow> bool" where
  "some_evidence U fs r \<longleftrightarrow>
     (\<exists>c \<in> cited_tokens U r. token_ip c \<noteq> None \<or> names c \<noteq> {}
        \<or> (quantity c \<noteq> None \<and> quantity c \<noteq> to_decimal (fs (ag_confidence r))))"

lemma confidence_number_iff: "q \<in> confidence_number fs r \<longleftrightarrow> to_decimal (fs (ag_confidence r)) = Some q"
  by (simp add: confidence_number_def)

lemma is_grounded_iff: "is_grounded U fs r t \<longleftrightarrow> (\<forall>raw \<in> set (raw_tokens U t). cited U fs r raw)"
proof -
  have "mn_entities (extract_text U t) \<subseteq> mn_entities (corpus U fs r) \<longleftrightarrow>
      (\<forall>raw \<in> set (raw_tokens U t). \<forall>n \<in> names raw. \<exists>c \<in> cited_tokens U r. n \<in> names c)"
    unfolding extract_sets corpus_mentions by blast
  moreover have "mn_ips (extract_text U t) \<subseteq> mn_ips (corpus U fs r) \<longleftrightarrow>
      (\<forall>raw \<in> set (raw_tokens U t). \<forall>a. token_ip raw = Some a \<longrightarrow> (\<exists>c \<in> cited_tokens U r. token_ip c = Some a))"
    unfolding extract_sets corpus_mentions by blast
  moreover have "mn_numbers (extract_text U t) \<subseteq> mn_numbers (corpus U fs r) \<longleftrightarrow>
      (\<forall>raw \<in> set (raw_tokens U t). \<forall>q. quantity raw = Some q \<longrightarrow>
         to_decimal (fs (ag_confidence r)) = Some q \<or> (\<exists>c \<in> cited_tokens U r. quantity c = Some q))"
    unfolding extract_sets corpus_mentions confidence_number_iff [symmetric] by blast
  ultimately show ?thesis unfolding is_grounded_def Let_def cited_def by blast
qed

lemma has_cited_evidence_iff: "has_cited_evidence U fs r \<longleftrightarrow> some_evidence U fs r"
proof -
  have "mn_numbers (corpus U fs r) - confidence_number fs r \<noteq> {} \<longleftrightarrow>
      (\<exists>c \<in> cited_tokens U r. \<exists>q. quantity c = Some q \<and> to_decimal (fs (ag_confidence r)) \<noteq> Some q)"
    unfolding corpus_mentions confidence_number_iff [symmetric] by blast
  also have "\<dots> \<longleftrightarrow>
      (\<exists>c \<in> cited_tokens U r. quantity c \<noteq> None \<and> quantity c \<noteq> to_decimal (fs (ag_confidence r)))"
    by (metis option.exhaust option.distinct(1))
  finally have n: "mn_numbers (corpus U fs r) - confidence_number fs r \<noteq> {} \<longleftrightarrow> \<dots>" .
  have e: "mn_entities (corpus U fs r) \<noteq> {} \<longleftrightarrow> (\<exists>c \<in> cited_tokens U r. names c \<noteq> {})"
    and i: "mn_ips (corpus U fs r) \<noteq> {} \<longleftrightarrow> (\<exists>c \<in> cited_tokens U r. token_ip c \<noteq> None)"
    unfolding corpus_mentions by auto
  show ?thesis
    unfolding has_cited_evidence_def Let_def n e i some_evidence_def by blast
qed

text \<open>C28: \<open>ground_or_reject\<close> returns an explanation exactly when its trimmed text is not blank, the
  evidence cites something besides the confidence, and every token of the text is cited: its IP
  literal (up to notation), its quantity (up to notation, or the confidence) and each of its names,
  whole or as path segments, are those of a token of a cited field. And no token with a digit slips
  past: it is an IP literal, a quantity, or a name as a whole.\<close>

theorem ground_exact:
  "(ground_or_reject U fs r e = Some t \<longleftrightarrow>
      t = py_strip e \<and> t \<noteq> [] \<and> some_evidence U fs r \<and> (\<forall>raw \<in> set (raw_tokens U t). cited U fs r raw))
   \<and> (list_ex py_isdigit (clean_token w) \<longrightarrow>
        token_ip w \<noteq> None \<or> quantity w \<noteq> None \<or> normalize (clean_token w) \<in> names w)"
  using digit_classified [of w]
  by (auto simp: ground_or_reject_def Let_def has_cited_evidence_iff is_grounded_iff)

definition sample_response :: agent_response where
  "sample_response =
     \<lparr>ag_agentName = ''rca'', ag_taskType = ''t'', ag_inputSummary = [], ag_findings = [''vm-1 7''],
      ag_risks = [], ag_recommendations = [], ag_sourceReferences = [], ag_confidence = 9 / 10,
      ag_nextActions = [], ag_generatedAt = 0\<rparr>"

definition sample_unicode_db :: unicode_db where
  "sample_unicode_db = \<lparr>ud_nfkc = (\<lambda>s. s), ud_category_major = (\<lambda>_. CHR ''L'')\<rparr>"

lemma sample_corpus:
  "corpus sample_unicode_db (\<lambda>_. ''0.9'') sample_response
     = \<lparr>mn_entities = {''vm-1''}, mn_ips = {}, mn_numbers = {7, 9 / 10}\<rparr>"
  "confidence_number (\<lambda>_. ''0.9'') sample_response = {9 / 10}"
  by code_simp+

lemma sample_explanations:
  "extract_text sample_unicode_db ''7 on vm-1'' = \<lparr>mn_entities = {''vm-1''}, mn_ips = {}, mn_numbers = {7}\<rparr>"
  "mn_entities (extract_text sample_unicode_db ''vm-2'') = {''vm-2''}"
  by code_simp+

lemma sample_strip: "py_strip ''7 on vm-1'' = ''7 on vm-1''" "py_strip ''vm-2'' = ''vm-2''"
  by code_simp+

lemma sample_grounded:
  "ground_or_reject sample_unicode_db (\<lambda>_. ''0.9'') sample_response ''7 on vm-1'' = Some ''7 on vm-1''"
  "ground_or_reject sample_unicode_db (\<lambda>_. ''0.9'') sample_response ''vm-2'' = None"
  by (simp_all add: ground_or_reject_def has_cited_evidence_def is_grounded_def sample_corpus
      sample_explanations sample_strip)

theorem ground_exact_witness:
  "list_all (cited sample_unicode_db (\<lambda>_. ''0.9'') sample_response)
      (raw_tokens sample_unicode_db ''7 on vm-1'')
   \<and> normalize (clean_token ''vm-1'') \<in> names ''vm-1''"
proof -
  have "list_ex py_isdigit (clean_token ''vm-1'') \<and> token_ip ''vm-1'' = None \<and> quantity ''vm-1'' = None"
    by code_simp
  then show ?thesis
    using ground_exact [of sample_unicode_db "\<lambda>_. ''0.9''" sample_response "''7 on vm-1''" "''7 on vm-1''" "''vm-1''"]
      sample_grounded(1) by (simp add: list_all_iff)
qed

section \<open>What is persisted\<close>

text \<open>An advisory read back as the response it shows: the evidence that is displayed beside it.\<close>

definition shown :: "rca_advisory \<Rightarrow> agent_response" where
  "shown a =
     \<lparr>ag_agentName = ra_agentName a, ag_taskType = ra_taskType a, ag_inputSummary = [],
      ag_findings = ra_findings a, ag_risks = ra_risks a, ag_recommendations = ra_recommendations a,
      ag_sourceReferences = ra_sourceReferences a, ag_confidence = ra_confidence a,
      ag_nextActions = [], ag_generatedAt = ra_generatedAt a\<rparr>"

definition bounded_advisory :: "rca_advisory \<Rightarrow> bool" where
  "bounded_advisory a \<longleftrightarrow>
     length (ra_advisory a) \<le> 2000 \<and> length (ra_sourceReferences a) \<le> 32
     \<and> length (ra_findings a) \<le> 16 \<and> length (ra_risks a) \<le> 16 \<and> length (ra_recommendations a) \<le> 16
     \<and> (\<forall>x \<in> set (ra_findings a @ ra_risks a @ ra_recommendations a). length x \<le> 500)"

lemma bounded_items_bounds:
  "length (bounded_items xs) \<le> 16" "x \<in> set (bounded_items xs) \<Longrightarrow> length x \<le> 500"
  by (auto simp: bounded_items_def MAX_GROUNDING_ITEMS_def MAX_GROUNDING_ITEM_CHARS_def)

lemma corpus_cong:
  "cited_text r = cited_text r' \<Longrightarrow> ag_confidence r = ag_confidence r' \<Longrightarrow> corpus U fs r = corpus U fs r'"
  by (simp add: corpus_def confidence_number_def)

lemma ground_cong:
  assumes "cited_text r = cited_text r'" "ag_confidence r = ag_confidence r'"
  shows "ground_or_reject U fs r e = ground_or_reject U fs r' e"
proof -
  have "has_cited_evidence U fs r = has_cited_evidence U fs r'"
    using corpus_cong [OF assms] assms(2) by (simp add: has_cited_evidence_def confidence_number_def)
  moreover have "is_grounded U fs r = is_grounded U fs r'"
    using corpus_cong [OF assms] by (simp add: is_grounded_def fun_eq_iff)
  ultimately show ?thesis by (simp add: ground_or_reject_def Let_def)
qed

lemma py_strip_idem: "py_strip (py_strip s) = py_strip s"
proof -
  have hd: "dropWhile py_isspace (py_strip s) = py_strip s"
  proof (cases "py_strip s")
    case (Cons c cs)
    have "\<not> py_isspace c"
    proof -
      define d where "d = dropWhile py_isspace s"
      have "rev (dropWhile py_isspace (rev d)) = c # cs" using Cons by (simp add: py_strip_def d_def)
      moreover obtain pre where "d = rev (dropWhile py_isspace (rev d)) @ pre"
        by (metis rev_append rev_rev_ident takeWhile_dropWhile_id)
      ultimately have "d = c # cs @ pre" by simp
      then show ?thesis unfolding d_def by (metis hd_dropWhile list.sel(1) list.distinct(1))
    qed
    then show ?thesis using Cons by simp
  qed simp
  show ?thesis
    unfolding py_strip_def [of "py_strip s"] hd
    by (simp add: py_strip_def dropWhile_idem)
qed

lemma build_one_advisory_some:
  assumes "build_one_advisory U fs validate i entry rca_raw = Some a"
  shows "\<exists>expl full. Option.bind (mapping_get entry ''advisory'') str_key = Some expl
     \<and> ground_or_reject U fs (shown a) expl = Some full \<and> ra_advisory a = take 2000 full
     \<and> ra_index a = i \<and> i < length rca_raw \<and> bounded_advisory a"
proof -
  obtain expl rca response full where t: "Option.bind (mapping_get entry ''advisory'') str_key = Some expl"
    and i: "i < length rca_raw" and rca: "rca_raw ! i = VDict rca" and v: "validate (VDict rca) = Some response"
    and g: "ground_or_reject U fs (bounded_response response) expl = Some full"
    and a: "a = \<lparr>ra_index = i, ra_agentName = ag_agentName response,
                 ra_taskType = ag_taskType response, ra_confidence = ag_confidence response,
                 ra_advisory = take MAX_ADVISORY_CHARS full,
                 ra_findings = ag_findings (bounded_response response),
                 ra_risks = ag_risks (bounded_response response),
                 ra_recommendations = ag_recommendations (bounded_response response),
                 ra_sourceReferences = ag_sourceReferences (bounded_response response),
                 ra_generatedAt = ag_generatedAt response\<rparr>"
    using assms by (auto simp: build_one_advisory_def Let_def split: option.splits if_splits pyval.splits)
  have "ground_or_reject U fs (shown a) expl = ground_or_reject U fs (bounded_response response) expl"
    by (rule ground_cong) (simp_all add: shown_def a cited_text_def bounded_response_def)
  moreover have "bounded_advisory a"
    unfolding bounded_advisory_def a
    by (auto simp: bounded_response_def bounded_items_bounds MAX_ADVISORY_CHARS_def MAX_SOURCE_REFERENCES_def)
  ultimately show ?thesis using t i g by (auto simp: a MAX_ADVISORY_CHARS_def)
qed

text \<open>The loop builds the advisories of the entries in their order and keeps the first 64.\<close>

definition built :: "(nat \<Rightarrow> pyval \<Rightarrow> rca_advisory option) \<Rightarrow> nat \<Rightarrow> pyval list \<Rightarrow> rca_advisory list" where
  "built build i entries = List.map_filter (\<lambda>(j, e). build j e) (enumerate i entries)"

lemma built_simps [simp]:
  "built build i [] = []"
  "built build i (e # es) = (case build i e of None \<Rightarrow> [] | Some a \<Rightarrow> [a]) @ built build (Suc i) es"
  by (simp_all add: built_def map_filter_simps split: option.splits)

lemma advisory_loop_built:
  "length as \<le> 64 \<Longrightarrow> advisory_loop build i entries as = take 64 (as @ built build i entries)"
proof (induction entries arbitrary: i as)
  case (Cons e es)
  show ?case
  proof (cases "length as = 64")
    case False
    then have "length as < 64" using Cons.prems by simp
    then show ?thesis using Cons.IH
      by (auto simp: MAX_RCA_ADVISORIES_def split: option.splits)
  qed (simp add: MAX_RCA_ADVISORIES_def)
qed simp

lemma built_mem:
  "a \<in> set (built build i entries) \<longleftrightarrow> (\<exists>k < length entries. build (i + k) (entries ! k) = Some a)"
proof (induction entries arbitrary: i)
  case (Cons e es)
  have "(\<exists>k < length (e # es). build (i + k) ((e # es) ! k) = Some a) \<longleftrightarrow>
      build i e = Some a \<or> (\<exists>k < length es. build (Suc i + k) (es ! k) = Some a)"
    by (simp add: Ex_less_Suc2)
  then show ?case using Cons by (auto split: option.splits)
qed simp

lemma built_sorted:
  assumes "\<And>j e a. build j e = Some a \<Longrightarrow> ra_index a = j"
  shows "sorted_wrt (<) (map ra_index (built build i entries))"
    and "a \<in> set (built build i entries) \<Longrightarrow> i \<le> ra_index a"
proof -
  have ge: "i \<le> ra_index a" if "a \<in> set (built build i entries)" for i a entries
    using that assms by (auto simp: built_mem)
  then show "a \<in> set (built build i entries) \<Longrightarrow> i \<le> ra_index a" .
  show "sorted_wrt (<) (map ra_index (built build i entries))"
  proof (induction entries arbitrary: i)
    case (Cons e es)
    show ?case
    proof (cases "build i e")
      case (Some a)
      then have "\<forall>x \<in> set (built build (Suc i) es). ra_index a < ra_index x"
        using assms ge [of _ "Suc i" es] by fastforce
      then show ?thesis using Some Cons by simp
    qed (use Cons in simp)
  qed simp
qed

lemma build_rca_advisories_built:
  assumes "dict_get extra ''rca'' = Some (VList rcas)" "dict_get extra ''rcaExplanation'' = Some (VList expls)"
  shows "build_rca_advisories U fs validate extra
    = take 64 (built (\<lambda>i e. build_one_advisory U fs validate i e rcas) 0 expls)"
  using assms by (simp add: build_rca_advisories_def advisory_loop_built)

lemma build_rca_advisories_empty:
  "\<nexists>rcas expls. dict_get extra ''rca'' = Some (VList rcas) \<and> dict_get extra ''rcaExplanation'' = Some (VList expls)
    \<Longrightarrow> build_rca_advisories U fs validate extra = []"
  by (auto simp: build_rca_advisories_def split: option.splits pyval.splits)

lemma build_rca_advisories_index:
  "sorted_wrt (<) (map ra_index (build_rca_advisories U fs validate extra))"
  "length (build_rca_advisories U fs validate extra) \<le> 64"
proof -
  have "sorted_wrt (<) (map ra_index (build_rca_advisories U fs validate extra))
      \<and> length (build_rca_advisories U fs validate extra) \<le> 64"
  proof (cases "\<exists>rcas expls. dict_get extra ''rca'' = Some (VList rcas) \<and> dict_get extra ''rcaExplanation'' = Some (VList expls)")
    case True
    then obtain rcas expls where "dict_get extra ''rca'' = Some (VList rcas)"
      "dict_get extra ''rcaExplanation'' = Some (VList expls)" by blast
    moreover have "sorted_wrt (<) (map ra_index (built (\<lambda>i e. build_one_advisory U fs validate i e rcas) 0 expls))"
      by (rule built_sorted) (blast dest: build_one_advisory_some)
    ultimately show ?thesis
      by (auto simp: build_rca_advisories_built take_map [symmetric] intro: sorted_wrt_take)
  next
    case False
    then show ?thesis by (simp add: build_rca_advisories_empty)
  qed
  then show "sorted_wrt (<) (map ra_index (build_rca_advisories U fs validate extra))"
    and "length (build_rca_advisories U fs validate extra) \<le> 64" by blast+
qed

text \<open>C29: whatever \<open>extra\<close> a worker sends, the advisories that are persisted are at most 64, in the
  order of their entries and under distinct indices; each is bounded, is aligned with a cited RCA, and
  is the beginning of an explanation that the gate accepts on exactly the evidence stored and shown
  with it, cut at 2000 characters; one that is not cut is itself accepted on that evidence.\<close>

theorem persisted_advisories_grounded:
  assumes "a \<in> set (build_rca_advisories U fs validate extra)"
  shows "bounded_advisory a
     \<and> (\<exists>rcas expls expl full. dict_get extra ''rca'' = Some (VList rcas) \<and> dict_get extra ''rcaExplanation'' = Some (VList expls)
          \<and> ra_index a < length rcas \<and> ra_index a < length expls
          \<and> Option.bind (mapping_get (expls ! ra_index a) ''advisory'') str_key = Some expl
          \<and> ground_or_reject U fs (shown a) expl = Some full \<and> ra_advisory a = take 2000 full
          \<and> (length full \<le> 2000 \<longrightarrow> ground_or_reject U fs (shown a) (ra_advisory a) = Some (ra_advisory a)))
     \<and> sorted_wrt (<) (map ra_index (build_rca_advisories U fs validate extra))
     \<and> length (build_rca_advisories U fs validate extra) \<le> 64"
proof -
  obtain rcas expls where e: "dict_get extra ''rca'' = Some (VList rcas)"
      "dict_get extra ''rcaExplanation'' = Some (VList expls)"
    using assms build_rca_advisories_empty [of extra U fs validate] by (metis empty_iff list.set(1))
  let ?build = "\<lambda>i e. build_one_advisory U fs validate i e rcas"
  have "a \<in> set (built ?build 0 expls)"
    using assms in_set_takeD by (fastforce simp: build_rca_advisories_built [OF e])
  then obtain k where k: "k < length expls" "?build k (expls ! k) = Some a"
    by (auto simp: built_mem)
  obtain expl full where f: "Option.bind (mapping_get (expls ! k) ''advisory'') str_key = Some expl"
      "ground_or_reject U fs (shown a) expl = Some full" "ra_advisory a = take 2000 full"
      "ra_index a = k" "k < length rcas" "bounded_advisory a"
    using build_one_advisory_some [OF k(2)] by blast
  have "ground_or_reject U fs (shown a) full = Some full"
    using f(2) by (auto simp: ground_or_reject_def Let_def py_strip_idem split: if_splits)
  then have "length full \<le> 2000 \<longrightarrow> ground_or_reject U fs (shown a) (ra_advisory a) = Some (ra_advisory a)"
    using f(3) by simp
  then show ?thesis using e f k build_rca_advisories_index [of U fs validate extra] by blast
qed

definition sample_extra :: "string \<Rightarrow> (string, pyval) dict" where
  "sample_extra explanation =
     [(''rca'', VList [VDict []]), (''rcaExplanation'', VList [VDict [(VStr ''advisory'', VStr explanation)]])]"

definition sample_advisory :: "string list \<Rightarrow> string \<Rightarrow> rca_advisory" where
  "sample_advisory findings advisory =
     \<lparr>ra_index = 0, ra_agentName = ''rca'', ra_taskType = ''t'', ra_confidence = 9 / 10, ra_advisory = advisory,
      ra_findings = findings, ra_risks = [], ra_recommendations = [], ra_sourceReferences = [], ra_generatedAt = 0\<rparr>"

lemma sample_build:
  assumes "ground_or_reject U fs (sample_response\<lparr>ag_findings := findings\<rparr>) explanation = Some full"
    and "py_strip explanation \<noteq> []" and "bounded_items findings = findings"
  shows "build_rca_advisories U fs (\<lambda>_. Some (sample_response\<lparr>ag_findings := findings\<rparr>)) (sample_extra explanation)
    = [sample_advisory findings (take 2000 full)]"
proof -
  have "bounded_response (sample_response\<lparr>ag_findings := findings\<rparr>) = sample_response\<lparr>ag_findings := findings\<rparr>"
    using assms(3) by (simp add: bounded_response_def sample_response_def bounded_items_def)
  then show ?thesis
    using assms(1,2)
    by (simp add: build_rca_advisories_def sample_extra_def build_one_advisory_def MAX_RCA_ADVISORIES_def
        sample_advisory_def MAX_ADVISORY_CHARS_def sample_response_def)
qed

theorem persisted_advisories_grounded_witness:
  "bounded_advisory (sample_advisory [''vm-1 7''] ''7 on vm-1'')"
proof -
  have r: "sample_response\<lparr>ag_findings := [''vm-1 7'']\<rparr> = sample_response" by (simp add: sample_response_def)
  have "build_rca_advisories sample_unicode_db (\<lambda>_. ''0.9'') (\<lambda>_. Some sample_response) (sample_extra ''7 on vm-1'')
      = [sample_advisory [''vm-1 7''] ''7 on vm-1'']"
    using sample_build [of sample_unicode_db "\<lambda>_. ''0.9''" "[''vm-1 7'']" "''7 on vm-1''" "''7 on vm-1''"] sample_grounded(1)
    unfolding r by (simp add: sample_strip bounded_items_def MAX_GROUNDING_ITEMS_def MAX_GROUNDING_ITEM_CHARS_def)
  then show ?thesis
    using persisted_advisories_grounded [of "sample_advisory [''vm-1 7''] ''7 on vm-1''" sample_unicode_db
        "\<lambda>_. ''0.9''" "\<lambda>_. Some sample_response" "sample_extra ''7 on vm-1''"] by simp
qed

section \<open>Cutting after grounding\<close>

text \<open>A long word of one letter mentions nothing.\<close>

lemma filler_props:
  assumes "n > 100"
  defines "w \<equiv> replicate n CHR ''a''"
  shows "token_ip w = None" "quantity w = None" "names w = {}" "\<forall>c \<in> set w. \<not> token_separator c"
proof -
  have c: "c \<in> set w \<Longrightarrow> c = CHR ''a''" for c by (simp add: w_def)
  have ne: "w \<noteq> []" and len: "length w > 100" using assms by (auto simp: w_def)
  have nodigit: "\<not> list_ex py_isdigit w"
    by (auto simp: list_ex_iff py_isdigit_def is_digit_char_def dest!: c)
  have split: "py_split d (replicate m CHR ''a'') = [replicate m CHR ''a'']" if "d \<noteq> CHR ''a''" for d m
    using that by (induction m) auto
  have sr: "strip_right cs w = w" and sl: "strip_left cs w = w" if "CHR ''a'' \<notin> set cs" for cs
    using that ne by (simp_all add: w_def strip_right_def strip_left_def dropWhile_eq_self_iff)
  have sc: "strip_chars cs w = w" if "CHR ''a'' \<notin> set cs" for cs
    using that sr sl by (simp add: strip_chars_def)
  have part: "py_partition d (replicate m CHR ''a'') = (replicate m CHR ''a'', False, [])" if "d \<noteq> CHR ''a''" for d m
    using that by (induction m) auto
  have ip: "ip_compressed w = None"
    by (simp add: ip_compressed_def parse_ipv4_def parse_ipv6_def w_def split part)
  have wrap: "CHR ''a'' \<notin> set TOKEN_WRAP" "CHR ''a'' \<notin> set TOKEN_LEAD" "CHR ''a'' \<notin> set TOKEN_TRAIL"
    by code_simp+
  have "try_ip w = None" using ip sr by (simp add: try_ip_def)
  then show tip: "token_ip w = None" using ne by (simp add: token_ip_def sc wrap)
  have cl: "clean_token w = w" by (simp add: clean_token_def sc sr sl wrap)
  show "quantity w = None" using nodigit by (simp add: quantity_def cl)
  have "normalize w = w" using sc by (simp add: normalize_def w_def py_lower_def char_lower_def)
  moreover have "w \<notin> set BENIGN_HYPHENATED" "w \<notin> set ABBREVIATIONS"
    using len by (auto simp: BENIGN_HYPHENATED_def ABBREVIATIONS_def)
  moreover have "\<not> list_ex (\<lambda>c. (of_char c :: nat) > 127) w" by (auto simp: list_ex_iff dest!: c)
  moreover have "\<not> is_ipv4 w" "\<not> is_dotted_entity w"
    by (simp_all add: is_ipv4_def is_dotted_entity_def w_def split)
  moreover have "CHR ''/'' \<notin> set w" "CHR ''_'' \<notin> set w" "CHR ''-'' \<notin> set w" by (auto dest: c)
  ultimately have "\<not> looks_like_entity w" and slash: "CHR ''/'' \<notin> set w"
    using nodigit by (simp_all add: looks_like_entity_def)
  then show "names w = {}" using nodigit by (simp add: names_def cl entity_shape_def path_segments_def)
  show "\<forall>c \<in> set w. \<not> token_separator c"
  proof -
    have "\<not> token_separator CHR ''a''" by code_simp
    then show ?thesis by (auto simp: w_def)
  qed
qed

lemma preprocess_plain:
  "\<forall>c \<in> set s. \<not> category_Cf c \<Longrightarrow> preprocess sample_unicode_db s = s"
  by (auto simp: preprocess_def sample_unicode_db_def category_Pd_def filter_id_conv intro!: map_idI)

lemma cut_tokens:
  assumes "n > 100" and "\<forall>c \<in> set v. \<not> token_separator c \<and> \<not> category_Cf c" and "v \<noteq> []"
  shows "raw_tokens sample_unicode_db (replicate n CHR ''a'' @ CHR '' '' # v) = [replicate n CHR ''a'', v]"
proof -
  have "token_separator CHR '' ''" by code_simp
  moreover have "preprocess sample_unicode_db (replicate n CHR ''a'' @ CHR '' '' # v)
      = replicate n CHR ''a'' @ CHR '' '' # v"
    using assms(2) by (intro preprocess_plain) (auto simp: category_Cf_def)
  moreover have "\<not> token_separator (hd v)" using assms(2,3) by simp
  ultimately show ?thesis
    using re_split_word [of "replicate n CHR ''a''" token_separator "CHR '' ''" v] assms(2,3)
      filler_props(4) [OF assms(1)] re_split_last [of v token_separator]
    by (simp add: raw_tokens_def)
qed

definition evidence_12 :: agent_response where
  "evidence_12 = sample_response\<lparr>ag_findings := [''vm-12'']\<rparr>"

lemma evidence_12_tokens: "cited_tokens sample_unicode_db evidence_12 = {''vm-12''}"
  by code_simp

lemma vm_tokens:
  "token_ip ''vm-12'' = None" "quantity ''vm-12'' = None" "names ''vm-12'' = {''vm-12''}"
  "token_ip ''vm-1'' = None" "quantity ''vm-1'' = None" "names ''vm-1'' = {''vm-1''}"
  "\<forall>c \<in> set ''vm-12''. \<not> token_separator c \<and> \<not> category_Cf c"
  "\<forall>c \<in> set ''vm-1''. \<not> token_separator c \<and> \<not> category_Cf c"
  by code_simp+

lemma strip_cut:
  "v \<noteq> [] \<Longrightarrow> \<not> py_isspace (last v) \<Longrightarrow> n > 0 \<Longrightarrow>
     py_strip (replicate n CHR ''a'' @ CHR '' '' # v) = replicate n CHR ''a'' @ CHR '' '' # v"
proof -
  assume v: "v \<noteq> []" "\<not> py_isspace (last v)" and n: "n > 0"
  have a: "\<not> py_isspace CHR ''a''" by code_simp
  have "dropWhile py_isspace (replicate n CHR ''a'' @ CHR '' '' # v) = replicate n CHR ''a'' @ CHR '' '' # v"
    using n a by (cases n) simp_all
  moreover have "dropWhile py_isspace (rev (replicate n CHR ''a'' @ CHR '' '' # v))
      = rev (replicate n CHR ''a'' @ CHR '' '' # v)"
    using v by (cases "rev v") (simp_all add: last_rev [symmetric] hd_rev)
  ultimately show ?thesis by (simp add: py_strip_def)
qed

text \<open>The cut comes after the gate: an explanation that names the cited \<open>vm-12\<close> is accepted, and what
  is persisted of it, cut within that name, names \<open>vm-1\<close>, which no evidence cites. The gate rejects
  the persisted text on the evidence stored with it.\<close>

theorem cut_breaks_grounding:
  defines "expl \<equiv> replicate 1995 CHR ''a'' @ CHR '' '' # ''vm-12''"
    and "a \<equiv> sample_advisory [''vm-12''] (replicate 1995 CHR ''a'' @ CHR '' '' # ''vm-1'')"
  shows "build_rca_advisories sample_unicode_db (\<lambda>_. ''0.9'') (\<lambda>_. Some evidence_12) (sample_extra expl) = [a]"
    and "ground_or_reject sample_unicode_db (\<lambda>_. ''0.9'') (shown a) (ra_advisory a) = None"
proof -
  have ev: "some_evidence sample_unicode_db (\<lambda>_. ''0.9'') evidence_12"
    by (simp add: some_evidence_def evidence_12_tokens vm_tokens)
  have toks: "raw_tokens sample_unicode_db expl = [replicate 1995 CHR ''a'', ''vm-12'']"
    unfolding expl_def by (rule cut_tokens) (use vm_tokens in simp_all)
  have strip: "py_strip expl = expl" unfolding expl_def by (rule strip_cut) (simp_all add: py_isspace_def)
  have full: "ground_or_reject sample_unicode_db (\<lambda>_. ''0.9'') evidence_12 expl = Some expl"
    using ev strip filler_props [of 1995]
    by (simp add: ground_or_reject_def Let_def has_cited_evidence_iff is_grounded_iff toks cited_def
        evidence_12_tokens vm_tokens) (simp add: expl_def)
  have "take 2000 expl = replicate 1995 CHR ''a'' @ CHR '' '' # ''vm-1''"
    by (simp add: expl_def)
  then show "build_rca_advisories sample_unicode_db (\<lambda>_. ''0.9'') (\<lambda>_. Some evidence_12) (sample_extra expl) = [a]"
    using sample_build [of sample_unicode_db "\<lambda>_. ''0.9''" "[''vm-12'']" expl expl] full strip
    by (simp add: a_def evidence_12_def bounded_items_def MAX_GROUNDING_ITEMS_def MAX_GROUNDING_ITEM_CHARS_def
        expl_def)
  have toks1: "raw_tokens sample_unicode_db (ra_advisory a) = [replicate 1995 CHR ''a'', ''vm-1'']"
    unfolding a_def sample_advisory_def rca_advisory.simps by (rule cut_tokens) (use vm_tokens in simp_all)
  have strip1: "py_strip (ra_advisory a) = ra_advisory a"
    unfolding a_def sample_advisory_def rca_advisory.simps by (rule strip_cut) (simp_all add: py_isspace_def)
  have "\<not> cited sample_unicode_db (\<lambda>_. ''0.9'') evidence_12 ''vm-1''"
    by (simp add: cited_def vm_tokens evidence_12_tokens)
  then have "ground_or_reject sample_unicode_db (\<lambda>_. ''0.9'') evidence_12 (ra_advisory a) = None"
    by (simp add: ground_or_reject_def Let_def strip1 has_cited_evidence_iff is_grounded_iff toks1)
  moreover have "ground_or_reject sample_unicode_db (\<lambda>_. ''0.9'') (shown a) (ra_advisory a)
      = ground_or_reject sample_unicode_db (\<lambda>_. ''0.9'') evidence_12 (ra_advisory a)"
    by (rule ground_cong)
       (simp_all add: shown_def a_def sample_advisory_def evidence_12_def sample_response_def cited_text_def)
  ultimately show "ground_or_reject sample_unicode_db (\<lambda>_. ''0.9'') (shown a) (ra_advisory a) = None" by simp
qed

end
