(* ===== verification/Py_Text.thy ===== *)
theory Py_Text
  imports Json_Text
begin

text \<open>
  The text of values as f-strings write it: \<open>repr\<close> of a string and of a dictionary of strings
  (the code points below 256), and the small formatting helpers of the modules.
\<close>

section \<open>The representation of a string\<close>

definition py_isprintable :: "char \<Rightarrow> bool" where
  "py_isprintable c \<longleftrightarrow>
     (let n = (of_char c :: nat) in (32 \<le> n \<and> n \<le> 126) \<or> (161 \<le> n \<and> n \<noteq> 173))"

definition QUOTE1 :: char where "QUOTE1 = CHR 0x27"
definition QUOTE2 :: char where "QUOTE2 = CHR 0x22"
definition BACKSLASH :: char where "BACKSLASH = CHR 0x5C"

definition repr_char :: "char \<Rightarrow> char \<Rightarrow> string" where
  "repr_char quote c =
     (let n = (of_char c :: nat) in
      if c = quote \<or> c = BACKSLASH then [BACKSLASH, c]
      else if n = 10 then [BACKSLASH, CHR ''n'']
      else if n = 13 then [BACKSLASH, CHR ''r'']
      else if n = 9 then [BACKSLASH, CHR ''t'']
      else if py_isprintable c then [c]
      else [BACKSLASH, CHR ''x''] @ byte_hex n)"

definition repr_quote :: "string \<Rightarrow> char" where
  "repr_quote s = (if QUOTE1 \<in> set s \<and> QUOTE2 \<notin> set s then QUOTE2 else QUOTE1)"

definition repr_str :: "string \<Rightarrow> string" where
  "repr_str s = [repr_quote s] @ concat (map (repr_char (repr_quote s)) s) @ [repr_quote s]"

text \<open>Joining with a separator of more than one character.\<close>

fun join_str :: "string \<Rightarrow> string list \<Rightarrow> string" where
  "join_str sep [] = []"
| "join_str sep [s] = s"
| "join_str sep (s # t # ts) = s @ sep @ join_str sep (t # ts)"

definition repr_dict :: "(string, string) dict \<Rightarrow> string" where
  "repr_dict d = ''{'' @ join_str '', '' (map (\<lambda>(k, v). repr_str k @ '': '' @ repr_str v) d) @ ''}''"

text \<open>\<open>f"{scope or alternative}"\<close>.\<close>

definition scope_text :: "string \<Rightarrow> (string, string) dict \<Rightarrow> string" where
  "scope_text alternative scope = (if scope = [] then alternative else repr_dict scope)"

lemma scope_text_examples:
  "scope_text ''all'' [] = ''all''"
  "length (scope_text ''all'' [(''a'', ''b'')]) = 10"
  by code_simp+

text \<open>An optional value in an f-string.\<close>

definition opt_text :: "string option \<Rightarrow> string" where
  "opt_text x = (case x of None \<Rightarrow> ''None'' | Some s \<Rightarrow> s)"

section \<open>Values\<close>

text \<open>\<open>bool(value)\<close>, and the iteration over a value.\<close>

fun val_truthy :: "pyval \<Rightarrow> bool" where
  "val_truthy VNone = False"
| "val_truthy (VBool b) = b"
| "val_truthy (VInt i) = (i \<noteq> 0)"
| "val_truthy (VFloat x) = (x \<noteq> PFin 0 \<and> x \<noteq> PNegZero)"
| "val_truthy (VStr s) = (s \<noteq> [])"
| "val_truthy (VBytes s) = (s \<noteq> [])"
| "val_truthy (VEnum s) = True"
| "val_truthy (VStrEnum s) = (s \<noteq> [])"
| "val_truthy (VList xs) = (xs \<noteq> [])"
| "val_truthy (VTuple xs) = (xs \<noteq> [])"
| "val_truthy (VSet xs) = (xs \<noteq> [])"
| "val_truthy (VDict d) = (d \<noteq> [])"
| "val_truthy (VObj s) = True"

fun val_items :: "pyval \<Rightarrow> py_exc + pyval list" where
  "val_items (VList xs) = Inr xs"
| "val_items (VTuple xs) = Inr xs"
| "val_items (VSet xs) = Inr xs"
| "val_items (VDict d) = Inr (map fst d)"
| "val_items (VStr s) = Inr (map (\<lambda>c. VStr [c]) s)"
| "val_items (VStrEnum s) = Inr (map (\<lambda>c. VStr [c]) s)"
| "val_items (VBytes s) = Inr (map (\<lambda>c. VInt (of_char c)) s)"
| "val_items _ = Inl TypeError"

definition given_val :: "pyval option \<Rightarrow> pyval option" where
  "given_val v = (case v of None \<Rightarrow> None | Some x \<Rightarrow> if val_truthy x then Some x else None)"

text \<open>\<open>hash(value)\<close> raises on a list, a set or a dictionary, and on a tuple that holds one.\<close>

fun val_hashable :: "pyval \<Rightarrow> bool" where
  "val_hashable (VList _) = False"
| "val_hashable (VSet _) = False"
| "val_hashable (VDict _) = False"
| "val_hashable (VTuple vs) = list_all val_hashable vs"
| "val_hashable _ = True"

text \<open>\<open>str.casefold\<close>: lower case, and sharp s as two letters. The micro sign folds to a letter beyond the
  characters of the model, which no other character folds to, and is kept.\<close>

definition py_casefold :: "string \<Rightarrow> string" where
  "py_casefold s = concat (map (\<lambda>c. if (of_char c :: nat) = 223 then ''ss'' else [char_lower c]) s)"

end
