(* ===== verification/Module_Base.thy ===== *)
theory Module_Base
  imports Packs_Engine State_Interface Py_Text
begin

text \<open>
  \<open>src/shared/module_base.py\<close> and the manifest models of \<open>src/shared/contracts.py\<close>: the read-only
  state, the packs engine and the edge clients a module is run with, the compute-only
  \<open>run_module\<close> with its provenance gate, and the registry of modules.
\<close>

section \<open>The read-only state\<close>

text \<open>\<open>ReadableState\<close>: the reads a module may do. Decoding a stored finding runs its validator.\<close>

record readable_state =
  rs_list_workloads :: "string list"
  rs_get_estate :: "string \<Rightarrow> resource_node list"
  rs_get_graph :: "string \<Rightarrow> workload_graph option"
  rs_get_findings :: "string \<Rightarrow> string option \<Rightarrow> finding_error + finding list"
  rs_get_previous_findings :: "string \<Rightarrow> finding_error + finding list"
  rs_get_previous_node_ids :: "string \<Rightarrow> string list"

section \<open>Manifests\<close>

datatype module_kind = MK_service | MK_job

record scale_trigger =
  st_type :: string
  st_metadata :: "(string, string) dict"

record scale_profile =
  sp_kind :: module_kind
  sp_minReplicas :: int
  sp_maxReplicas :: int
  sp_triggers :: "scale_trigger list"
  sp_cpu :: rat
  sp_memoryGi :: rat

record module_manifest =
  mm_name :: string
  mm_displayName :: string
  mm_kind :: module_kind
  mm_enabled :: bool
  mm_consumes :: "pack_type list"
  mm_produces :: "string list"
  mm_scaleProfile :: scale_profile

section \<open>Running a module\<close>

text \<open>\<open>ModuleContext\<close>. The packs engine is the narrow slice the modules use: \<open>load_for_workload\<close>, whose
  audit events are the engine's own. The type of the edge clients is the module's.\<close>

type_synonym packs_service = "string \<Rightarrow> pack_type \<Rightarrow> load_error + pack list"

definition engine_service :: "engine_lib \<Rightarrow> packs_engine \<Rightarrow> packs_service" where
  "engine_service lib eng workload pack_type = snd (load_for_workload lib eng workload pack_type)"


record 'c module_context =
  mx_packs :: "packs_service option"
  mx_state :: "readable_state option"
  mx_config :: "(string, string) dict"
  mx_clients :: "(string, 'c) dict"

type_synonym scope = "(string, string) dict"

datatype module_exc =
    FindingInvalid finding_error      \<comment> \<open>\<open>ValidationError\<close> of a \<open>Finding\<close>\<close>
  | Unattributed provenance_error
  | LoadFailed load_error
  | Raised py_exc

record 'c capability_module =
  cm_manifest :: module_manifest
  cm_run :: "'c module_context \<Rightarrow> scope option \<Rightarrow> module_exc + module_run_result"

definition run_module ::
  "'c capability_module \<Rightarrow> scope option \<Rightarrow> readable_state option \<Rightarrow> packs_service option
     \<Rightarrow> (string, 'c) dict option \<Rightarrow> module_exc + module_run_result" where
  "run_module md scope state packs clients =
     (let ctx = \<lparr>mx_packs = packs, mx_state = state, mx_config = [],
                 mx_clients = (case clients of None \<Rightarrow> [] | Some c \<Rightarrow> c)\<rparr>
      in rbind (cm_run md ctx scope) (\<lambda>result.
         case enforce_finding_provenance (mr_findings result) of
           Inl e \<Rightarrow> Inl (Unattributed e)
         | Inr _ \<Rightarrow> Inr result))"

lemma run_module_iff:
  "run_module md scope state packs clients = Inr r \<longleftrightarrow>
     cm_run md \<lparr>mx_packs = packs, mx_state = state, mx_config = [],
                mx_clients = (case clients of None \<Rightarrow> [] | Some c \<Rightarrow> c)\<rparr> scope = Inr r
     \<and> (\<forall>f \<in> set (mr_findings r). finding_has_provenance f)"
proof -
  have "(case enforce_finding_provenance (mr_findings x) of Inl e \<Rightarrow> Inl (Unattributed e) | Inr _ \<Rightarrow> Inr x) = Inr r \<longleftrightarrow>
      x = r \<and> (\<forall>f \<in> set (mr_findings r). finding_has_provenance f)" for x
    by (cases "enforce_finding_provenance (mr_findings x)")
       (auto simp: enforce_finding_provenance_iff [symmetric])
  then show ?thesis by (auto simp: run_module_def Let_def rbind_Inr_iff)
qed

section \<open>The registry\<close>

type_synonym 'c module_registry = "(string, 'c capability_module) dict"

definition register_module ::
  "'c capability_module \<Rightarrow> 'c module_registry \<Rightarrow> 'c module_registry" where
  "register_module md reg = dict_set (mm_name (cm_manifest md)) md reg"

definition registry_get_module ::
  "'c module_registry \<Rightarrow> string \<Rightarrow> py_exc + 'c capability_module" where
  "registry_get_module reg name = (case dict_get reg name of None \<Rightarrow> Inl KeyError | Some md \<Rightarrow> Inr md)"

definition enabled_modules :: "'c module_registry \<Rightarrow> 'c capability_module list" where
  "enabled_modules reg = filter (\<lambda>md. mm_enabled (cm_manifest md)) (map snd reg)"

definition registry_manifests :: "'c module_registry \<Rightarrow> module_manifest list" where
  "registry_manifests reg = map (\<lambda>(_, md). cm_manifest md) reg"

definition registry_names :: "'c module_registry \<Rightarrow> string list" where
  "registry_names reg = map fst reg"

text \<open>A registry built by registrations looks every module up by the name of its manifest, and the last
  registration of a name wins.\<close>

lemma registry_lookup:
  "registry_get_module (foldl (\<lambda>reg md. register_module md reg) [] ms) name =
     (case find (\<lambda>md. mm_name (cm_manifest md) = name) (rev ms) of None \<Rightarrow> Inl KeyError | Some md \<Rightarrow> Inr md)"
proof (induction ms rule: rev_induct)
  case (snoc md ms)
  then show ?case by (auto simp: registry_get_module_def register_module_def split: option.splits)
qed (simp add: registry_get_module_def)

end
