(* ===== verification/Drift.thy ===== *)
theory Drift
  imports Module_Base State_Local
begin

text \<open>
  Drift between the previous snapshot and the current state: \<open>compute_drift\<close> of \<open>src/shared/state.py\<close>
  and the module of \<open>src/modules/reassessments/module.py\<close> that computes it for every workload.
\<close>

section \<open>compute_drift\<close>

definition drift_key :: "finding \<Rightarrow> string \<times> string" where
  "drift_key f = (fd_module f, fd_id f)"

text \<open>\<open>{(f.module, f.id): f for f in findings if f.passed is False}\<close>.\<close>

definition failing :: "finding list \<Rightarrow> (string \<times> string, finding) dict" where
  "failing fs = foldl (\<lambda>d f. if fd_passed f = Some False then dict_set (drift_key f) f d else d) [] fs"

definition compute_drift ::
  "finding list \<Rightarrow> finding list \<Rightarrow> string \<Rightarrow> string list \<Rightarrow> string list \<Rightarrow> drift_report" where
  "compute_drift prior current workload previous_nodes current_nodes =
     (let prev_failing = failing prior; cur_failing = failing current;
          new_failures = map snd (filter (\<lambda>(key, _). dict_get prev_failing key = None) cur_failing);
          still_failing = map snd (filter (\<lambda>(key, _). dict_get prev_failing key \<noteq> None) cur_failing);
          recovered = map snd (filter (\<lambda>(key, _). dict_get cur_failing key = None) prev_failing)
      in \<lparr>dr_workload = workload,
          dr_newFailures = sort_key drift_key new_failures,
          dr_recovered = sort_key drift_key recovered,
          dr_stillFailing = sort_key drift_key still_failing,
          dr_addedNodes = sorted_list_of_set (set current_nodes - set previous_nodes),
          dr_removedNodes = sorted_list_of_set (set previous_nodes - set current_nodes)\<rparr>)"

text \<open>The finding that speaks for a key: the last failing one, if any.\<close>

definition last_failing :: "finding list \<Rightarrow> string \<times> string \<Rightarrow> finding option" where
  "last_failing fs k = find (\<lambda>f. fd_passed f = Some False \<and> drift_key f = k) (rev fs)"

lemma failing_get: "dict_get (failing fs) k = last_failing fs k"
proof (induction fs rule: rev_induct)
  case (snoc f fs)
  then show ?case by (auto simp: failing_def last_failing_def)
qed (simp add: failing_def last_failing_def)

lemma failing_wf: "dict_wf (failing fs)"
proof (induction fs rule: rev_induct)
  case (snoc f fs)
  then show ?case by (simp add: failing_def distinct_update)
qed (simp add: failing_def)

lemma last_failing_key: "last_failing fs k = Some f \<Longrightarrow> drift_key f = k \<and> fd_passed f = Some False \<and> f \<in> set fs"
  by (auto simp: last_failing_def find_Some_iff) (metis length_rev nth_mem set_rev)

lemma failing_mem: "(k, f) \<in> set (failing fs) \<longleftrightarrow> last_failing fs k = Some f"
  using dict_get_mem [OF failing_wf] by (simp add: failing_get)

text \<open>A selection of the failing findings, sorted: its members, in strictly increasing key order.\<close>

lemma selected_failing:
  "f \<in> set (sort_key drift_key (map snd (filter (\<lambda>(k, _). P k) (failing fs)))) \<longleftrightarrow>
     last_failing fs (drift_key f) = Some f \<and> P (drift_key f)"
proof -
  have "f \<in> set (sort_key drift_key (map snd (filter (\<lambda>(k, _). P k) (failing fs)))) \<longleftrightarrow>
      (\<exists>k. (k, f) \<in> set (failing fs) \<and> P k)" by force
  then show ?thesis unfolding failing_mem using last_failing_key by blast
qed

lemma selected_sorted:
  "sorted_wrt (<) (map drift_key (sort_key drift_key (map snd (filter (\<lambda>(k, _). P k) (failing fs)))))"
proof -
  let ?xs = "map snd (filter (\<lambda>(k, _). P k) (failing fs))"
  have "map drift_key ?xs = map fst (filter (\<lambda>(k, _). P k) (failing fs))"
    using last_failing_key by (auto simp: failing_mem intro!: map_cong)
  moreover have "distinct (map fst (filter (\<lambda>(k, _). P k) (failing fs)))"
    using failing_wf distinct_map_filter by blast
  ultimately have "distinct (map drift_key ?xs)" by metis
  moreover have "distinct (map drift_key (sort_key drift_key xs))" if "distinct (map drift_key xs)" for xs
    using that by (simp add: distinct_map)
  ultimately have "distinct (map drift_key (sort_key drift_key ?xs))" by blast
  then show ?thesis by (simp add: strict_sorted_iff del: map_map)
qed

lemma compute_drift_mem:
  "f \<in> set (dr_newFailures (compute_drift prior current w pn cn)) \<longleftrightarrow>
     last_failing current (drift_key f) = Some f \<and> last_failing prior (drift_key f) = None"
  "f \<in> set (dr_stillFailing (compute_drift prior current w pn cn)) \<longleftrightarrow>
     last_failing current (drift_key f) = Some f \<and> last_failing prior (drift_key f) \<noteq> None"
  "f \<in> set (dr_recovered (compute_drift prior current w pn cn)) \<longleftrightarrow>
     last_failing prior (drift_key f) = Some f \<and> last_failing current (drift_key f) = None"
  unfolding Let_def compute_drift_def failing_get drift_report.simps by (rule selected_failing)+

text \<open>drift is the difference of the two sets of failing findings, told apart by module and id:
  what fails now and did not fail before is new, what failed before and does not fail now has
  recovered, what fails in both is still failing, each reported once, by its last failing finding, in
  key order; a finding whose verdict is unknown never counts as failing. The nodes are those gained and
  lost.\<close>

theorem compute_drift_exact:
  "let r = compute_drift prior current w pn cn in
     (\<forall>f. f \<in> set (dr_newFailures r) \<longleftrightarrow>
        last_failing current (drift_key f) = Some f \<and> last_failing prior (drift_key f) = None)
   \<and> (\<forall>f. f \<in> set (dr_stillFailing r) \<longleftrightarrow>
        last_failing current (drift_key f) = Some f \<and> last_failing prior (drift_key f) \<noteq> None)
   \<and> (\<forall>f. f \<in> set (dr_recovered r) \<longleftrightarrow>
        last_failing prior (drift_key f) = Some f \<and> last_failing current (drift_key f) = None)
   \<and> sorted_wrt (<) (map drift_key (dr_newFailures r)) \<and> sorted_wrt (<) (map drift_key (dr_recovered r))
   \<and> sorted_wrt (<) (map drift_key (dr_stillFailing r))
   \<and> set (dr_addedNodes r) = set cn - set pn \<and> set (dr_removedNodes r) = set pn - set cn
   \<and> sorted_wrt (<) (dr_addedNodes r) \<and> sorted_wrt (<) (dr_removedNodes r)"
  unfolding Let_def
  by (intro conjI allI compute_drift_mem)
     (simp_all add: compute_drift_def Let_def selected_sorted)

section \<open>The reassessments module\<close>

definition CADENCE_CRON :: string where
  "CADENCE_CRON = ''0 3 * * *''"

definition reassessments_manifest :: module_manifest where
  "reassessments_manifest =
     \<lparr>mm_name = ''reassessments'', mm_displayName = ''Scheduled Reassessments'', mm_kind = MK_job,
      mm_enabled = True, mm_consumes = [], mm_produces = [''drift'', ''Finding[]''],
      mm_scaleProfile = \<lparr>sp_kind = MK_job, sp_minReplicas = 0, sp_maxReplicas = 5,
        sp_triggers = [\<lparr>st_type = ''cron'', st_metadata = [(''schedule'', ''0 3 * * *'')]\<rparr>],
        sp_cpu = 1 / 2, sp_memoryGi = 1\<rparr>\<rparr>"

definition diff_findings :: "finding list \<Rightarrow> finding list \<Rightarrow> (string, string list) dict" where
  "diff_findings prior current =
     (let report = compute_drift prior current '''' [] []
      in [(''newFailures'', map fd_id (dr_newFailures report)), (''recovered'', map fd_id (dr_recovered report))])"

text \<open>\<open>scope.get("workload")\<close> wins when it is a non-empty string.\<close>

definition scoped_workload :: "scope \<Rightarrow> string option" where
  "scoped_workload scope = (case dict_get scope ''workload'' of
     None \<Rightarrow> None | Some w \<Rightarrow> if w = [] then None else Some w)"

definition resolve_workloads :: "readable_state option \<Rightarrow> scope \<Rightarrow> string list" where
  "resolve_workloads state scope =
     (case scoped_workload scope of
        Some w \<Rightarrow> [w]
      | None \<Rightarrow> (case state of None \<Rightarrow> [] | Some st \<Rightarrow> rs_list_workloads st))"

definition drift_for_workload :: "readable_state \<Rightarrow> string \<Rightarrow> finding_error + drift_report" where
  "drift_for_workload st w =
     rbind (rs_get_previous_findings st w) (\<lambda>prior.
     rbind (rs_get_findings st w None) (\<lambda>current.
       Inr (compute_drift prior current w (rs_get_previous_node_ids st w) (map rn_id (rs_get_estate st w)))))"

text \<open>The loop over the workloads: the report of each (a dictionary) and the new failures of all.\<close>

fun reassess_loop ::
  "readable_state \<Rightarrow> string list \<Rightarrow> (string, drift_report) dict \<times> finding list
     \<Rightarrow> finding_error + (string, drift_report) dict \<times> finding list" where
  "reassess_loop st [] acc = Inr acc"
| "reassess_loop st (w # ws) (reports, new_failures) =
     rbind (drift_for_workload st w) (\<lambda>report.
       reassess_loop st ws (dict_set w report reports, new_failures @ dr_newFailures report))"

definition total :: "(drift_report \<Rightarrow> nat) \<Rightarrow> (string, drift_report) dict \<Rightarrow> nat" where
  "total f reports = sum_list (map (\<lambda>(_, r). f r) reports)"

definition report_line :: "string \<Rightarrow> drift_report \<Rightarrow> string" where
  "report_line w r =
     w @ '': '' @ show_nat (length (dr_newFailures r)) @ '' new failures, ''
       @ show_nat (length (dr_recovered r)) @ '' recovered, ''
       @ show_nat (length (dr_stillFailing r)) @ '' still failing''"

definition reassessments_response ::
  "int \<Rightarrow> scope \<Rightarrow> (string, drift_report) dict \<Rightarrow> finding list \<Rightarrow> agent_response" where
  "reassessments_response now scope reports new_failures =
     \<lparr>ag_agentName = ''reassessments'', ag_taskType = ''scheduled-reassessment'',
      ag_inputSummary = ''cadence='' @ CADENCE_CRON @ '' scope='' @ scope_text ''all'' scope @ '' workloads=''
        @ show_nat (length reports),
      ag_findings = (if reports = [] then [''no workloads in scope''] else map (\<lambda>(w, r). report_line w r) reports),
      ag_risks = map (\<lambda>f. fd_title f @ '' newly failing ('' @ severity_value (fd_severity f) @ '')'') new_failures,
      ag_recommendations = (if new_failures \<noteq> [] then [''route new-failure findings to alerts''] else []),
      ag_sourceReferences = [], ag_confidence = 1,
      ag_nextActions = (if new_failures \<noteq> [] then [''route-findings''] else []),
      ag_generatedAt = now\<rparr>"

definition reassessments_summary :: "(string, drift_report) dict \<Rightarrow> pyval" where
  "reassessments_summary reports =
     (let count = (\<lambda>f. VInt (int (total f reports))) in
      VDict [(VStr ''cadence'', VStr CADENCE_CRON), (VStr ''workloads'', VInt (int (length reports))),
        (VStr ''newFailures'', count (\<lambda>r. length (dr_newFailures r))),
        (VStr ''recovered'', count (\<lambda>r. length (dr_recovered r))),
        (VStr ''stillFailing'', count (\<lambda>r. length (dr_stillFailing r))),
        (VStr ''addedNodes'', count (\<lambda>r. length (dr_addedNodes r))),
        (VStr ''removedNodes'', count (\<lambda>r. length (dr_removedNodes r)))])"

text \<open>\<open>ReassessmentsModule.run\<close>. \<open>dump_report\<close> is Pydantic's \<open>model_dump(mode="json")\<close> of a report.\<close>

definition reassessments_run ::
  "(drift_report \<Rightarrow> pyval) \<Rightarrow> int \<Rightarrow> 'c module_context \<Rightarrow> scope option \<Rightarrow> module_exc + module_run_result" where
  "reassessments_run dump_report now ctx scope_opt =
     (let scope = (case scope_opt of None \<Rightarrow> [] | Some sc \<Rightarrow> sc);
          state = mx_state ctx;
          workloads = resolve_workloads state scope;
          outcome = (case state of None \<Rightarrow> Inr ([], []) | Some st \<Rightarrow> reassess_loop st workloads ([], []))
      in case outcome of
           Inl e \<Rightarrow> Inl (FindingInvalid e)
         | Inr (reports, new_failures) \<Rightarrow>
             Inr \<lparr>mr_module = ''reassessments'', mr_ok = True, mr_findings = new_failures, mr_estate = None,
                  mr_graph = None, mr_response = Some (reassessments_response now scope reports new_failures),
                  mr_extra = [(''summary'', reassessments_summary reports),
                    (''drift'', VDict (map (\<lambda>(w, r). (VStr w, dump_report r)) reports))]\<rparr>)"

definition reassessments_module :: "(drift_report \<Rightarrow> pyval) \<Rightarrow> int \<Rightarrow> 'c capability_module" where
  "reassessments_module dump_report now = \<lparr>cm_manifest = reassessments_manifest, cm_run = reassessments_run dump_report now\<rparr>"

section \<open>Drift over a store\<close>

text \<open>The read-only view a local store gives to a module.\<close>

definition local_reader :: "local_state \<Rightarrow> readable_state" where
  "local_reader s =
     \<lparr>rs_list_workloads = list_workloads s, rs_get_estate = read_estate s,
      rs_get_graph = (\<lambda>w. dict_get (ls_graph s) w), rs_get_findings = read_findings s,
      rs_get_previous_findings = get_previous_findings s,
      rs_get_previous_node_ids = get_previous_node_ids s\<rparr>"

lemma local_reader_simps [simp]:
  "rs_list_workloads (local_reader s) = list_workloads s" "rs_get_estate (local_reader s) = read_estate s"
  "rs_get_findings (local_reader s) = read_findings s"
  "rs_get_previous_findings (local_reader s) = get_previous_findings s"
  "rs_get_previous_node_ids (local_reader s) = get_previous_node_ids s"
  by (simp_all add: local_reader_def)

text \<open>The current failing finding of a key, in the store.\<close>

definition row_failing :: "local_state \<Rightarrow> string \<Rightarrow> string \<times> string \<Rightarrow> finding option" where
  "row_failing s w k =
     (case dict_get (ls_findings s) (w, k) of
        None \<Rightarrow> None | Some f \<Rightarrow> if fd_passed f = Some False then Some f else None)"

lemma finding_row_mem:
  assumes "local_inv sha ts s"
  shows "f \<in> set (finding_rows s w) \<and> drift_key f = k \<longleftrightarrow> dict_get (ls_findings s) (w, k) = Some f"
proof -
  have wf: "dict_wf (ls_findings s)" and ok: "\<And>x v. (x, v) \<in> set (ls_findings s) \<Longrightarrow> snd x = drift_key v"
    using assms by (auto simp: local_inv_def rows_ok_def finding_row_ok_def drift_key_def)
  have "f \<in> set (finding_rows s w) \<longleftrightarrow> (\<exists>m i. ((w, m, i), f) \<in> set (ls_findings s))"
    by (force simp: finding_rows_def listing_set)
  then show ?thesis using ok dict_get_mem [OF wf, of "(w, k)" f] by (metis prod.collapse snd_conv)
qed

lemma last_failing_unique:
  assumes "\<And>f g. f \<in> set fs \<Longrightarrow> g \<in> set fs \<Longrightarrow> drift_key f = drift_key g \<Longrightarrow> f = g"
  shows "last_failing fs k = Some f \<longleftrightarrow> f \<in> set fs \<and> drift_key f = k \<and> fd_passed f = Some False"
proof
  assume f: "f \<in> set fs \<and> drift_key f = k \<and> fd_passed f = Some False"
  have "last_failing fs k \<noteq> None" unfolding last_failing_def find_None_iff using f by auto
  then obtain g where g: "last_failing fs k = Some g" by blast
  have "g = f" using last_failing_key [OF g] f by (intro assms) simp_all
  then show "last_failing fs k = Some f" using g by simp
next
  assume "last_failing fs k = Some f"
  then show "f \<in> set fs \<and> drift_key f = k \<and> fd_passed f = Some False"
    using last_failing_key by blast
qed

lemma last_failing_rows:
  assumes "local_inv sha ts s"
  shows "last_failing (finding_rows s w) k = row_failing s w k"
proof -
  note mem = finding_row_mem [OF assms]
  have "last_failing (finding_rows s w) k = Some f \<longleftrightarrow> row_failing s w k = Some f" for f
  proof -
    have "last_failing (finding_rows s w) k = Some f \<longleftrightarrow>
        f \<in> set (finding_rows s w) \<and> drift_key f = k \<and> fd_passed f = Some False"
      by (rule last_failing_unique) (metis mem option.inject)
    then show ?thesis using mem [of f w k] by (auto simp: row_failing_def split: option.splits if_splits)
  qed
  then show ?thesis by (metis not_None_eq)
qed

lemma drift_local:
  assumes "local_inv sha ts s"
  shows "drift_for_workload (local_reader s) w =
    Inr (compute_drift (fst (previous s w)) (finding_rows s w) w (get_previous_node_ids s w) (map rn_id (read_estate s w)))"
  by (simp add: drift_for_workload_def get_previous_findings_ok [OF assms] read_findings_ok [OF assms])

text \<open>What the run says of a key: its last finding, when it has one.\<close>

definition run_finding :: "module_run_result \<Rightarrow> string \<times> string \<Rightarrow> finding option" where
  "run_finding r k = find (\<lambda>f. drift_key f = k) (rev (mr_findings r))"

text \<open>drift tells what a run changed. After a snapshot of a workload and the commit of a run, the
  new failures are the run's failing findings whose key did not fail at the snapshot, the recovered are
  the failures of the snapshot that the run re-judged and did not fail, and what still fails is what
  failed at the snapshot and was not re-judged or failed again; the nodes are those the estate of the
  run added and dropped.\<close>

theorem drift_after_commit:
  assumes "local_inv sha ts s" and "committable b r"
    and "s' = snd (commit_run b w r (snd (snapshot w s)))"
  shows "\<exists>d. drift_for_workload (local_reader s') w = Inr d
     \<and> (\<forall>f. f \<in> set (dr_newFailures d) \<longleftrightarrow>
          run_finding r (drift_key f) = Some f \<and> fd_passed f = Some False \<and> row_failing s w (drift_key f) = None)
     \<and> (\<forall>f. f \<in> set (dr_recovered d) \<longleftrightarrow>
          row_failing s w (drift_key f) = Some f
          \<and> (\<exists>g. run_finding r (drift_key f) = Some g \<and> fd_passed g \<noteq> Some False))
     \<and> (\<forall>f. f \<in> set (dr_stillFailing d) \<longleftrightarrow>
          row_failing s w (drift_key f) \<noteq> None \<and> fd_passed f = Some False
          \<and> (run_finding r (drift_key f) = Some f
             \<or> run_finding r (drift_key f) = None \<and> row_failing s w (drift_key f) = Some f))
     \<and> set (dr_addedNodes d) = (case mr_estate r of None \<Rightarrow> {} | Some ns \<Rightarrow> rn_id ` set ns - rn_id ` set (read_estate s w))
     \<and> set (dr_removedNodes d) = (case mr_estate r of None \<Rightarrow> {} | Some ns \<Rightarrow> rn_id ` set (read_estate s w) - rn_id ` set ns)"
proof -
  define s1 where "s1 = snd (snapshot w s)"
  have inv1: "local_inv sha ts s1" unfolding s1_def by (rule snapshot_local_inv [OF assms(1)])
  have inv': "local_inv sha ts s'"
    unfolding assms(3) s1_def [symmetric] by (rule local_txnD(1) [OF commit_run_local inv1])
  have f1: "ls_findings s1 = ls_findings s" "read_estate s1 w = read_estate s w"
    by (simp_all add: s1_def snapshot_ok [OF assms(1)] read_estate_def)
  have estate: "read_estate s' w = (case mr_estate r of None \<Rightarrow> read_estate s w | Some ns \<Rightarrow> ns)"
    and rows: "\<And>m i. dict_get (ls_findings s') (w, m, i) =
        (case find (\<lambda>f. fd_module f = m \<and> fd_id f = i) (rev (mr_findings r)) of
           None \<Rightarrow> dict_get (ls_findings s) (w, m, i) | Some f \<Rightarrow> Some f)"
  proof -
    obtain x where "commit_run b w r s1 = (x, s')"
      "read_estate s' w = (case mr_estate r of None \<Rightarrow> read_estate s1 w | Some ns \<Rightarrow> ns)"
      "\<forall>m i. dict_get (ls_findings s') (w, m, i) =
        (case find (\<lambda>f. fd_module f = m \<and> fd_id f = i) (rev (mr_findings r)) of
           None \<Rightarrow> dict_get (ls_findings s1) (w, m, i) | Some f \<Rightarrow> Some f)"
      using commit_run_succeeds [OF assms(2), of w s1] unfolding assms(3) s1_def [symmetric] by auto
    then show "read_estate s' w = (case mr_estate r of None \<Rightarrow> read_estate s w | Some ns \<Rightarrow> ns)"
      "\<And>m i. dict_get (ls_findings s') (w, m, i) =
        (case find (\<lambda>f. fd_module f = m \<and> fd_id f = i) (rev (mr_findings r)) of
           None \<Rightarrow> dict_get (ls_findings s) (w, m, i) | Some f \<Rightarrow> Some f)"
      unfolding f1 by blast+
  qed
  have "ls_snapshots s' = ls_snapshots s1"
    using commit_run_frame [of b w r s1] by (simp add: assms(3) s1_def [symmetric] frame_of_def)
  then have latest: "latest_snapshot s' w = latest_snapshot s1 w" by (simp add: latest_snapshot_def)
  then have prev: "fst (previous s' w) = finding_rows s w" "get_previous_node_ids s' w = map rn_id (read_estate s w)"
    unfolding s1_def by (simp_all add: previous_def get_previous_node_ids_def latest_snapshot_snapshot [OF assms(1)])
  have key: "row_failing s' w k =
      (case run_finding r k of None \<Rightarrow> row_failing s w k
       | Some f \<Rightarrow> if fd_passed f = Some False then Some f else None)" for k
  proof -
    obtain m i where k: "k = (m, i)" by (cases k)
    have "run_finding r k = find (\<lambda>f. fd_module f = m \<and> fd_id f = i) (rev (mr_findings r))"
      by (simp add: run_finding_def drift_key_def k)
    then show ?thesis using rows [of m i] by (simp add: row_failing_def k split: option.split)
  qed
  have krow: "row_failing s w k = Some f \<Longrightarrow> drift_key f = k \<and> fd_passed f = Some False" for k f
    using last_failing_key by (simp add: last_failing_rows [OF assms(1), symmetric])
  define d where "d = compute_drift (finding_rows s w) (finding_rows s' w) w (map rn_id (read_estate s w)) (map rn_id (read_estate s' w))"
  have d: "drift_for_workload (local_reader s') w = Inr d"
    by (simp add: drift_local [OF inv'] prev d_def)
  note mem = d_def compute_drift_mem last_failing_rows [OF assms(1)] last_failing_rows [OF inv'] key
  show ?thesis
  proof (intro exI [of _ d] conjI allI)
    show "drift_for_workload (local_reader s') w = Inr d" by (rule d)
    fix f
    show "f \<in> set (dr_newFailures d) \<longleftrightarrow>
        run_finding r (drift_key f) = Some f \<and> fd_passed f = Some False \<and> row_failing s w (drift_key f) = None"
      using krow [of "drift_key f" f] by (cases "run_finding r (drift_key f)") (auto simp: mem)
    show "f \<in> set (dr_recovered d) \<longleftrightarrow>
        row_failing s w (drift_key f) = Some f
        \<and> (\<exists>g. run_finding r (drift_key f) = Some g \<and> fd_passed g \<noteq> Some False)"
      using krow [of "drift_key f" f] by (cases "run_finding r (drift_key f)") (auto simp: mem)
    show "f \<in> set (dr_stillFailing d) \<longleftrightarrow>
        row_failing s w (drift_key f) \<noteq> None \<and> fd_passed f = Some False
        \<and> (run_finding r (drift_key f) = Some f
           \<or> run_finding r (drift_key f) = None \<and> row_failing s w (drift_key f) = Some f)"
      using krow [of "drift_key f" f] by (cases "run_finding r (drift_key f)") (auto simp: mem)
  qed (auto simp: d_def compute_drift_def Let_def estate split: option.split)
qed

definition sample_reference :: source_reference where
  "sample_reference = \<lparr>sr_kind = ''resource'', sr_id = ''r'', sr_detail = None\<rparr>"

lemma sample_committable: "committable (\<lambda>_. []) (sample_result [sample_reference])"
  by (simp add: committable_def sample_result_def sample_finding_def storable_def finding_has_provenance_def
      sample_reference_def reference_is_attributable_def SOURCE_REFERENCE_KINDS_def py_strip_def py_isspace_def
      provenance_complete_def)

theorem drift_after_commit_witness:
  "\<exists>d. drift_for_workload (local_reader (snd (commit_run (\<lambda>_. []) ''w'' (sample_result [sample_reference])
        (snd (snapshot ''w'' empty_state))))) ''w'' = Inr d
     \<and> sample_finding [sample_reference] \<in> set (dr_newFailures d)"
proof -
  let ?f = "sample_finding [sample_reference]" and ?r = "sample_result [sample_reference]"
  have "run_finding ?r (drift_key ?f) = Some ?f" "fd_passed ?f = Some False"
      "row_failing empty_state ''w'' (drift_key ?f) = None"
    by (simp_all add: run_finding_def sample_result_def row_failing_def empty_state_def)
       (simp add: sample_finding_def)
  then show ?thesis
    using drift_after_commit [OF empty_state_inv [of bytes_hex "\<lambda>_. []"] sample_committable refl, of "''w''"]
    by blast
qed

lemma scoped_workload_single: "w \<noteq> [] \<Longrightarrow> scoped_workload [(''workload'', w)] = Some w"
  by (simp add: scoped_workload_def)

lemma drift_new_failures_rows:
  assumes "local_inv sha ts s" and "drift_for_workload (local_reader s) w = Inr d" and "f \<in> set (dr_newFailures d)"
  shows "f \<in> set (finding_rows s w)"
proof -
  have "last_failing (finding_rows s w) (drift_key f) = Some f"
    using assms(2,3) unfolding drift_local [OF assms(1)] by (auto simp: compute_drift_mem)
  then show ?thesis using last_failing_key by blast
qed

text \<open>C30: the reassessments module is a pure reader. Run for a workload over a well-formed store it
  always returns, through the provenance gate; its findings are exactly the new failures of the
  workload's drift, it carries no estate and no graph, and committing its result succeeds and leaves the
  findings and the estate of the workload exactly as they were.\<close>

theorem reassessment_read_only:
  assumes "local_inv sha ts s" and "w \<noteq> []"
  shows "\<exists>r d. run_module (reassessments_module dump_report now) (Some [(''workload'', w)]) (Some (local_reader s)) packs clients = Inr r
     \<and> drift_for_workload (local_reader s) w = Inr d \<and> mr_findings r = dr_newFailures d
     \<and> mr_estate r = None \<and> mr_graph r = None
     \<and> (let c = commit_run b w r s in fst c = Inr (0, 0, length (dr_newFailures d))
          \<and> read_findings (snd c) w None = read_findings s w None \<and> read_estate (snd c) w = read_estate s w)"
proof -
  obtain d where d: "drift_for_workload (local_reader s) w = Inr d" using drift_local [OF assms(1)] by blast
  define r where "r = \<lparr>mr_module = ''reassessments'', mr_ok = True, mr_findings = dr_newFailures d, mr_estate = None,
      mr_graph = None, mr_response = Some (reassessments_response now [(''workload'', w)] [(w, d)] (dr_newFailures d)),
      mr_extra = [(''summary'', reassessments_summary [(w, d)]), (''drift'', VDict [(VStr w, dump_report d)])]\<rparr>"
  have rows: "f \<in> set (finding_rows s w)" if "f \<in> set (mr_findings r)" for f
    using drift_new_failures_rows [OF assms(1) d] that by (simp add: r_def)
  have st: "storable f" if "f \<in> set (mr_findings r)" for f
    using finding_rows_storable [OF assms(1) rows [OF that]] .
  have "reassessments_run dump_report now \<lparr>mx_packs = packs, mx_state = Some (local_reader s), mx_config = [],
      mx_clients = (case clients of None \<Rightarrow> [] | Some c \<Rightarrow> c)\<rparr> (Some [(''workload'', w)]) = Inr r"
    using assms(2) by (simp add: reassessments_run_def resolve_workloads_def scoped_workload_single d r_def)
  moreover have "enforce_finding_provenance (mr_findings r) = Inr ()"
    using st by (auto simp: enforce_finding_provenance_iff storable_def)
  ultimately have run: "run_module (reassessments_module dump_report now) (Some [(''workload'', w)])
      (Some (local_reader s)) packs clients = Inr r"
    by (simp add: run_module_def reassessments_module_def)
  have com: "committable b r" using st by (auto simp: committable_def list_all_iff r_def)
  obtain s' where c: "commit_run b w r s = (Inr (0, 0, length (dr_newFailures d)), s')"
    and e: "read_estate s' w = read_estate s w"
    and g: "\<And>m i. dict_get (ls_findings s') (w, m, i) =
          (case find (\<lambda>f. fd_module f = m \<and> fd_id f = i) (rev (mr_findings r)) of
             None \<Rightarrow> dict_get (ls_findings s) (w, m, i) | Some f \<Rightarrow> Some f)"
    using commit_run_succeeds [OF com, of w s] by (auto simp: r_def)
  have inv': "local_inv sha ts s'"
    using local_txnD(1) [OF commit_run_local [of sha ts w b r] assms(1)] c by simp
  have "dict_get (ls_findings s') (w, m, i) = dict_get (ls_findings s) (w, m, i)" for m i
  proof (cases "find (\<lambda>f. fd_module f = m \<and> fd_id f = i) (rev (mr_findings r))")
    case (Some f)
    then have "f \<in> set (mr_findings r)" "drift_key f = (m, i)"
      by (auto simp: find_Some_iff drift_key_def) (metis length_rev nth_mem set_rev)
    then have "dict_get (ls_findings s) (w, m, i) = Some f"
      using rows finding_row_mem [OF assms(1), of f w "(m, i)"] by blast
    then show ?thesis using Some by (simp add: g)
  qed (simp add: g)
  then have "finding_rows s' w = finding_rows s w"
    using finding_rows_eq [OF inv' assms(1)] by blast
  then have "read_findings s' w None = read_findings s w None"
    by (simp add: read_findings_ok [OF inv'] read_findings_ok [OF assms(1)])
  then show ?thesis using run d c e by (intro exI [of _ r] exI [of _ d]) (simp add: r_def)
qed

theorem reassessment_read_only_witness:
  "\<exists>r d. run_module (reassessments_module (\<lambda>_. VNone) 0) (Some [(''workload'', ''w'')]) (Some (local_reader empty_state)) None
        (None :: (string, unit) dict option) = Inr r
     \<and> drift_for_workload (local_reader empty_state) ''w'' = Inr d \<and> mr_findings r = dr_newFailures d"
  using reassessment_read_only [OF empty_state_inv [of bytes_hex "\<lambda>_. []"], of "''w''" "\<lambda>_. VNone" 0 None
      "None :: (string, unit) dict option" "\<lambda>_. []"] by (simp only: list.simps simp_thms) blast

end
