(* ===== verification/Quality_Checks.thy ===== *)
theory Quality_Checks
  imports Drift
begin

text \<open>
  The quality checks of \<open>src/modules/quality_checks/module.py\<close>: the rules of the packs of a workload,
  normalised and stamped with their pack, shipped rules before imported ones; their evaluation on the
  nodes of the estate; and the module that turns the outcome into findings.

  A note is a value that names what its text says; the text itself is a parameter of the module.
\<close>

section \<open>Rules\<close>

definition coerce_severity :: "pyval option \<Rightarrow> severity \<times> bool" where
  "coerce_severity v =
     (case v of
        None \<Rightarrow> (SV_medium, False)
      | Some VNone \<Rightarrow> (SV_medium, False)
      | Some x \<Rightarrow>
          (case str_key x of
             None \<Rightarrow> (SV_medium, True)
           | Some s \<Rightarrow> (case severity_of s of None \<Rightarrow> (SV_medium, True) | Some sv \<Rightarrow> (sv, False))))"

record rule_spec =
  ru_id :: string
  ru_title :: "string option"
  ru_resourceType :: "string option"
  ru_requiredTag :: "string option"
  ru_severity :: severity
  ru_description :: string
  ru_packId :: "string option"
  ru_packVersion :: "string option"

text \<open>\<open>evaluate_rule\<close> on a rule as \<open>_normalize_rule\<close> dumps it. The result is \<open>None\<close> where the rule does not
  apply, and an error where \<open>Finding\<close> rejects its provenance.\<close>

definition rule_title :: "rule_spec \<Rightarrow> string" where
  "rule_title rule =
     (case ru_title rule of
        Some t \<Rightarrow> if t \<noteq> [] then t else if ru_id rule \<noteq> [] then ru_id rule else ''rule''
      | None \<Rightarrow> if ru_id rule \<noteq> [] then ru_id rule else ''rule'')"

text \<open>The dash of this text is an em dash in the source, which is no code point of the model.\<close>

definition UNEVALUABLE :: string where
  "UNEVALUABLE = ''unsupported/unevaluable rule predicate '' @ ''-'' @ '' surfaced, not passed''"

definition applies :: "rule_spec \<Rightarrow> resource_node \<Rightarrow> bool" where
  "applies rule node \<longleftrightarrow>
     (case ru_resourceType rule of None \<Rightarrow> True | Some rt \<Rightarrow> rt = [] \<or> rt = rn_type node)"

definition evaluate_rule :: "int \<Rightarrow> resource_node \<Rightarrow> rule_spec \<Rightarrow> finding_error + finding option" where
  "evaluate_rule now node rule =
     (if \<not> applies rule node then Inr None
      else
        (let description = ru_description rule;
             (passed, detail, severity) =
               (case ru_requiredTag rule of
                  Some tag \<Rightarrow>
                    (let present = (dict_get (rn_tags node) tag \<noteq> None)
                     in (present, description, if present then SV_info else ru_severity rule))
                | None \<Rightarrow>
                    (False, if description \<noteq> [] then UNEVALUABLE @ ''; '' @ description else UNEVALUABLE,
                     ru_severity rule))
         in map_sum id Some (enforce_provenance
              \<lparr>fd_id = ru_id rule @ ''::'' @ rn_id node, fd_module = ''quality_checks'', fd_title = rule_title rule,
               fd_passed = Some passed, fd_severity = severity, fd_nodeId = Some (rn_id node), fd_blastRadius = 0,
               fd_evidence = [\<lparr>sr_kind = ''resource'', sr_id = rn_id node, sr_detail = Some detail\<rparr>],
               fd_provenance = PK_pack, fd_packId = ru_packId rule, fd_packVersion = ru_packVersion rule,
               fd_structuralKind = None, fd_detail = Some detail, fd_createdAt = now\<rparr>)))"

section \<open>Loading rules\<close>

datatype rule_note =
    NonMappingRule string
  | InvalidSeverity string pyval pyval      \<comment> \<open>pack, rule id or \<open>?\<close>, severity\<close>
  | InvalidRule string pyval
  | RulesNotAList string
  | ShadowsShipped string string

text \<open>\<open>RuleSpec.model_validate\<close> of the stamped data.\<close>

definition rule_id_field :: "raw_dict \<Rightarrow> string option" where
  "rule_id_field d = (case vget d ''id'' of None \<Rightarrow> Some ''rule'' | Some v \<Rightarrow> py_str v)"

definition description_field :: "raw_dict \<Rightarrow> string option" where
  "description_field d = (case vget d ''description'' of None \<Rightarrow> Some [] | Some v \<Rightarrow> py_str v)"

definition rule_spec_of :: "raw_dict \<Rightarrow> severity \<Rightarrow> string \<Rightarrow> string \<Rightarrow> rule_spec option" where
  "rule_spec_of d severity pack_id pack_version =
     (case (rule_id_field d, opt_str_field d ''title'', opt_str_field d ''resourceType'',
            opt_str_field d ''requiredTag'', description_field d) of
        (Some i, Some t, Some rt, Some tag, Some desc) \<Rightarrow>
          Some \<lparr>ru_id = i, ru_title = t, ru_resourceType = rt, ru_requiredTag = tag, ru_severity = severity,
                ru_description = desc, ru_packId = Some pack_id, ru_packVersion = Some pack_version\<rparr>
      | _ \<Rightarrow> None)"

definition normalize_rule :: "pyval \<Rightarrow> string \<Rightarrow> string \<Rightarrow> rule_spec option \<times> rule_note option" where
  "normalize_rule raw pack_id pack_version =
     (case raw of
        VDict d \<Rightarrow>
          (let (severity, invalid) = coerce_severity (vget d ''severity'');
               rule_id = (case vget d ''id'' of None \<Rightarrow> VStr ''?'' | Some v \<Rightarrow> v);
               note = (if invalid then Some (InvalidSeverity pack_id rule_id (the (vget d ''severity''))) else None)
           in case rule_spec_of d severity pack_id pack_version of
                None \<Rightarrow> (None, Some (InvalidRule pack_id rule_id))
              | Some spec \<Rightarrow> (Some spec, note))
      | _ \<Rightarrow> (None, Some (NonMappingRule pack_id)))"

definition normalize_pack_rules :: "pack \<Rightarrow> rule_spec list \<times> rule_note list" where
  "normalize_pack_rules p =
     (let m = pk_manifest p in
      case pk_body p of
        VDict body \<Rightarrow>
          (case vget body ''rules'' of
             None \<Rightarrow> ([], [])
           | Some (VList raws) \<Rightarrow>
               (let rs = map (\<lambda>raw. normalize_rule raw (pm_id m) (pm_version m)) raws
                in (List.map_filter fst rs, List.map_filter snd rs))
           | Some _ \<Rightarrow> ([], [RulesNotAList (pm_id m)]))
      | _ \<Rightarrow> ([], []))"

text \<open>The two passes of \<open>load_rules\<close>: shipped packs, then imported ones.\<close>

definition shipped_rules :: "pack list \<Rightarrow> rule_spec list" where
  "shipped_rules packs = concat (map (\<lambda>p. fst (normalize_pack_rules p)) (filter (\<lambda>p. \<not> pk_imported p) packs))"

definition shipped_notes :: "pack list \<Rightarrow> rule_note list" where
  "shipped_notes packs = concat (map (\<lambda>p. snd (normalize_pack_rules p)) (filter (\<lambda>p. \<not> pk_imported p) packs))"

fun add_imported :: "string set \<Rightarrow> string \<Rightarrow> rule_spec list \<Rightarrow> rule_spec list \<times> rule_note list" where
  "add_imported shipped pack_id [] = ([], [])"
| "add_imported shipped pack_id (rule # rules) =
     (let (rs, ns) = add_imported shipped pack_id rules in
      if ru_id rule \<in> shipped then (rs, ShadowsShipped pack_id (ru_id rule) # ns) else (rule # rs, ns))"

definition load_rules :: "packs_service option \<Rightarrow> string \<Rightarrow> load_error + rule_spec list \<times> rule_note list" where
  "load_rules packs workload =
     (case packs of
        None \<Rightarrow> Inr ([], [])
      | Some service \<Rightarrow>
          rbind (service workload PT_rule) (\<lambda>loaded.
            let shipped = shipped_rules loaded;
                ids = ru_id ` set shipped;
                imported = map (\<lambda>p. (case normalize_pack_rules p of (rules, notes) \<Rightarrow>
                    (case add_imported ids (pm_id (pk_manifest p)) rules of (rs, ns) \<Rightarrow> (rs, notes @ ns))))
                  (filter pk_imported loaded)
            in Inr (shipped @ concat (map fst imported), shipped_notes loaded @ concat (map snd imported))))"

section \<open>The module\<close>

definition quality_manifest :: module_manifest where
  "quality_manifest =
     \<lparr>mm_name = ''quality_checks'', mm_displayName = ''Quality Checks'', mm_kind = MK_job,
      mm_enabled = True, mm_consumes = [PT_rule], mm_produces = [''Finding[]''],
      mm_scaleProfile = \<lparr>sp_kind = MK_job, sp_minReplicas = 0, sp_maxReplicas = 30,
        sp_triggers = [\<lparr>st_type = ''azure-queue'', st_metadata = [(''queueName'', ''assessments'')]\<rparr>],
        sp_cpu = 1 / 2, sp_memoryGi = 1\<rparr>\<rparr>"

text \<open>\<open>_collect_pack_sources\<close>: one reference per pack id and version, in first-seen order.\<close>

fun collect_pack_sources ::
  "rule_spec list \<Rightarrow> (string \<times> string option, source_reference) dict
     \<Rightarrow> (string \<times> string option, source_reference) dict" where
  "collect_pack_sources [] into = into"
| "collect_pack_sources (rule # rules) into =
     collect_pack_sources rules
       (case ru_packId rule of
          None \<Rightarrow> into
        | Some i \<Rightarrow>
            if dict_get into (i, ru_packVersion rule) \<noteq> None then into
            else dict_set (i, ru_packVersion rule)
                   \<lparr>sr_kind = ''pack'', sr_id = i, sr_detail = Some (''version '' @ opt_text (ru_packVersion rule))\<rparr> into)"

text \<open>\<open>_target_workloads\<close>.\<close>

definition target_workloads :: "readable_state option \<Rightarrow> scope \<Rightarrow> string list" where
  "target_workloads state scope =
     (case scoped_workload scope of
        Some w \<Rightarrow> [w]
      | None \<Rightarrow> (case state of None \<Rightarrow> [] | Some st \<Rightarrow> rs_list_workloads st))"

text \<open>The checks of one workload: every node of its estate against every rule.\<close>

definition check_nodes :: "int \<Rightarrow> rule_spec list \<Rightarrow> resource_node list \<Rightarrow> finding_error + finding list" where
  "check_nodes now rules nodes =
     rbind (rseq (concat (map (\<lambda>node. map (evaluate_rule now node) rules) nodes)))
       (\<lambda>fs. Inr (List.map_filter id fs))"

record quality_acc =
  qa_findings :: "finding list"
  qa_notes :: "rule_note list"
  qa_pack_refs :: "(string \<times> string option, source_reference) dict"

fun quality_loop ::
  "int \<Rightarrow> packs_service option \<Rightarrow> readable_state option \<Rightarrow> string list \<Rightarrow> quality_acc \<Rightarrow> module_exc + quality_acc" where
  "quality_loop now packs state [] acc = Inr acc"
| "quality_loop now packs state (w # ws) acc =
     (case state of
        None \<Rightarrow> quality_loop now packs state ws acc
      | Some st \<Rightarrow>
          (case load_rules packs w of
             Inl e \<Rightarrow> Inl (LoadFailed e)
           | Inr (rules, notes) \<Rightarrow>
               (case check_nodes now rules (rs_get_estate st w) of
                  Inl e \<Rightarrow> Inl (FindingInvalid e)
                | Inr fs \<Rightarrow>
                    quality_loop now packs state ws
                      \<lparr>qa_findings = qa_findings acc @ fs, qa_notes = qa_notes acc @ notes,
                       qa_pack_refs = collect_pack_sources rules (qa_pack_refs acc)\<rparr>)))"

definition quality_response :: "int \<Rightarrow> scope \<Rightarrow> nat \<Rightarrow> quality_acc \<Rightarrow> agent_response" where
  "quality_response now scope workloads acc =
     (let failed = filter (\<lambda>f. fd_passed f = Some False) (qa_findings acc);
          checked = length (qa_findings acc)
      in \<lparr>ag_agentName = ''quality_checks'', ag_taskType = ''run-rule-packs'',
          ag_inputSummary = ''scope='' @ scope_text ''all'' scope @ ''; workloads='' @ show_nat workloads
            @ ''; packs='' @ show_nat (length (qa_pack_refs acc)) @ ''; checks='' @ show_nat checked,
          ag_findings = [show_nat checked @ '' checks, '' @ show_nat (length failed) @ '' failed'']
            @ (if qa_notes acc \<noteq> [] then [show_nat (length (qa_notes acc)) @ '' rule(s) surfaced (unsupported/invalid)''] else []),
          ag_risks = map fd_title failed, ag_recommendations = [],
          ag_sourceReferences = map snd (qa_pack_refs acc), ag_confidence = 1,
          ag_nextActions = (if failed \<noteq> [] then [''route-findings''] else []), ag_generatedAt = now\<rparr>)"

definition quality_run ::
  "(rule_note \<Rightarrow> string) \<Rightarrow> int \<Rightarrow> 'c module_context \<Rightarrow> scope option \<Rightarrow> module_exc + module_run_result" where
  "quality_run note_text now ctx scope_opt =
     (let scope = (case scope_opt of None \<Rightarrow> [] | Some sc \<Rightarrow> sc);
          workloads = target_workloads (mx_state ctx) scope
      in rbind (quality_loop now (mx_packs ctx) (mx_state ctx) workloads
                  \<lparr>qa_findings = [], qa_notes = [], qa_pack_refs = []\<rparr>) (\<lambda>acc.
           Inr \<lparr>mr_module = ''quality_checks'', mr_ok = True, mr_findings = qa_findings acc, mr_estate = None,
                mr_graph = None, mr_response = Some (quality_response now scope (length workloads) acc),
                mr_extra = [(''surfacedNotes'', VList (map (\<lambda>n. VStr (note_text n)) (qa_notes acc)))]\<rparr>))"

definition quality_module :: "(rule_note \<Rightarrow> string) \<Rightarrow> int \<Rightarrow> 'c capability_module" where
  "quality_module note_text now = \<lparr>cm_manifest = quality_manifest, cm_run = quality_run note_text now\<rparr>"

section \<open>Evaluation\<close>

definition has_tag :: "resource_node \<Rightarrow> string \<Rightarrow> bool" where
  "has_tag node tag \<longleftrightarrow> dict_get (rn_tags node) tag \<noteq> None"

text \<open>What a finding of the module says of a node and a rule.\<close>

definition verdict :: "rule_spec \<Rightarrow> resource_node \<Rightarrow> finding \<Rightarrow> bool" where
  "verdict rule node f \<longleftrightarrow>
     fd_id f = ru_id rule @ ''::'' @ rn_id node \<and> fd_module f = ''quality_checks'' \<and> fd_nodeId f = Some (rn_id node)
     \<and> fd_passed f = Some (\<exists>tag. ru_requiredTag rule = Some tag \<and> has_tag node tag)
     \<and> fd_severity f = (if fd_passed f = Some True then SV_info else ru_severity rule)
     \<and> fd_packId f = ru_packId rule \<and> fd_packVersion f = ru_packVersion rule
     \<and> map sr_id (fd_evidence f) = [rn_id node] \<and> map sr_kind (fd_evidence f) = [''resource'']"

lemma evaluate_rule_None: "evaluate_rule now node rule = Inr None \<longleftrightarrow> \<not> applies rule node"
  by (auto simp: evaluate_rule_def Let_def map_sum_def split: sum.splits prod.splits)

lemma evaluate_rule_verdict:
  assumes "evaluate_rule now node rule = Inr (Some f)"
  shows "applies rule node \<and> verdict rule node f \<and> provenance_complete f"
proof -
  have app: "applies rule node" using assms evaluate_rule_None [of now node rule] by (cases "applies rule node") auto
  obtain g where g: "enforce_provenance g = Inr f" "verdict rule node g"
  proof (cases "ru_requiredTag rule")
    case None
    then show ?thesis
      using assms app that
      by (auto simp: evaluate_rule_def Let_def map_sum_def verdict_def has_tag_def split: sum.splits)
  next
    case (Some tag)
    then show ?thesis
      using assms app that
      by (auto simp: evaluate_rule_def Let_def map_sum_def verdict_def has_tag_def split: sum.splits)
  qed
  then show ?thesis using app enforce_provenance_same [OF g(1)] enforce_provenance_iff by auto
qed

lemma evaluate_rule_Inl:
  "(\<exists>e. evaluate_rule now node rule = Inl e) \<longleftrightarrow>
     applies rule node \<and> (blank (ru_packId rule) \<or> blank (ru_packVersion rule))"
proof (cases "ru_requiredTag rule")
  case None
  then show ?thesis
    by (auto simp: evaluate_rule_def Let_def map_sum_def enforce_provenance_def split: sum.splits)
next
  case (Some tag)
  then show ?thesis
    by (auto simp: evaluate_rule_def Let_def map_sum_def enforce_provenance_def split: sum.splits)
qed

lemma check_nodes_exact:
  assumes "check_nodes now rules nodes = Inr fs"
  shows "\<exists>pairs. pairs = filter (\<lambda>(node, rule). applies rule node) (List.product nodes rules)
     \<and> list_all2 (\<lambda>(node, rule) f. evaluate_rule now node rule = Inr (Some f)) pairs fs"
proof -
  let ?all = "List.product nodes rules"
  have c: "concat (map (\<lambda>node. map (evaluate_rule now node) rules) nodes) = map (\<lambda>(n, r). evaluate_rule now n r) ?all"
    by (induction nodes) (simp_all add: o_def)
  obtain os where os: "map (\<lambda>(n, r). evaluate_rule now n r) ?all = map Inr os" and fs: "fs = List.map_filter id os"
    using assms unfolding check_nodes_def c by (auto simp: rbind_Inr_iff rseq_Inr_iff)
  have "list_all2 (\<lambda>(node, rule) f. evaluate_rule now node rule = Inr (Some f))
      (filter (\<lambda>(node, rule). applies rule node) xs) (List.map_filter id os)"
    if "map (\<lambda>(n, r). evaluate_rule now n r) xs = map Inr os" for xs os
    using that
  proof (induction xs arbitrary: os)
    case (Cons x xs)
    obtain n r where x: "x = (n, r)" by (cases x)
    obtain y ys where os: "os = y # ys" and e: "evaluate_rule now n r = Inr y"
      and ys: "map (\<lambda>(n, r). evaluate_rule now n r) xs = map Inr ys"
      using Cons.prems x by (cases os) auto
    have app: "applies r n \<longleftrightarrow> y \<noteq> None"
      using e evaluate_rule_None [of now n r] by auto
    show ?case using Cons.IH [OF ys] e app by (cases y) (auto simp: x os map_filter_simps)
  qed (simp add: map_filter_simps)
  from this [OF os] show ?thesis unfolding fs by blast
qed

section \<open>Shipped rules are authoritative\<close>

lemma add_imported_rules: "fst (add_imported ids p rules) = filter (\<lambda>r. ru_id r \<notin> ids) rules"
  by (induction rules) (auto simp: Let_def split: prod.splits)

lemma normalize_rule_stamp:
  "fst (normalize_rule raw i v) = Some r \<Longrightarrow> ru_packId r = Some i \<and> ru_packVersion r = Some v"
  by (auto simp: normalize_rule_def rule_spec_of_def split: pyval.splits option.splits prod.splits)

lemma normalize_pack_stamp:
  "r \<in> set (fst (normalize_pack_rules p)) \<Longrightarrow>
     ru_packId r = Some (pm_id (pk_manifest p)) \<and> ru_packVersion r = Some (pm_version (pk_manifest p))"
  using normalize_rule_stamp
  by (auto simp: normalize_pack_rules_def Let_def map_filter_mem split: pyval.splits option.splits)

lemma load_rules_split:
  assumes "load_rules (Some service) w = Inr (rules, notes)"
  shows "\<exists>loaded. service w PT_rule = Inr loaded
     \<and> rules = shipped_rules loaded
         @ filter (\<lambda>r. ru_id r \<notin> ru_id ` set (shipped_rules loaded))
             (concat (map (\<lambda>p. fst (normalize_pack_rules p)) (filter pk_imported loaded)))"
proof -
  obtain loaded where l: "service w PT_rule = Inr loaded"
    and rules: "rules = shipped_rules loaded @ concat (map fst (map (\<lambda>p. (case normalize_pack_rules p of (rules, notes) \<Rightarrow>
          (case add_imported (ru_id ` set (shipped_rules loaded)) (pm_id (pk_manifest p)) rules of (rs, ns) \<Rightarrow> (rs, notes @ ns))))
        (filter pk_imported loaded)))"
    using assms by (auto simp: load_rules_def rbind_Inr_iff Let_def)
  have "fst (case normalize_pack_rules p of (rules, notes) \<Rightarrow>
          (case add_imported ids i rules of (rs, ns) \<Rightarrow> (rs, notes @ ns)))
      = filter (\<lambda>r. ru_id r \<notin> ids) (fst (normalize_pack_rules p))" for p ids i
    using add_imported_rules [of ids i "fst (normalize_pack_rules p)"] by (auto split: prod.splits)
  then have "concat (map fst (map (\<lambda>p. (case normalize_pack_rules p of (rules, notes) \<Rightarrow>
          (case add_imported ids (pm_id (pk_manifest p)) rules of (rs, ns) \<Rightarrow> (rs, notes @ ns)))) ps))
      = filter (\<lambda>r. ru_id r \<notin> ids) (concat (map (\<lambda>p. fst (normalize_pack_rules p)) ps))" for ids ps
    by (induction ps) simp_all
  then show ?thesis using l rules by blast
qed

text \<open>C31: the rules of a workload are the shipped packs' valid rules, in order and complete, followed by
  exactly those rules of imported packs whose id no shipped rule has; every rule is stamped with the id
  and the version of the pack it comes from, so an import adds rule ids and never replaces one.\<close>

theorem shipped_rules_authoritative:
  assumes "load_rules (Some service) w = Inr (rules, notes)"
  shows "\<exists>loaded imported. service w PT_rule = Inr loaded \<and> rules = shipped_rules loaded @ imported
     \<and> (\<forall>p \<in> set loaded. \<not> pk_imported p \<longrightarrow> set (fst (normalize_pack_rules p)) \<subseteq> set (shipped_rules loaded))
     \<and> (\<forall>r. r \<in> set imported \<longleftrightarrow>
          (\<exists>p \<in> set loaded. pk_imported p \<and> r \<in> set (fst (normalize_pack_rules p)))
          \<and> (\<forall>q \<in> set (shipped_rules loaded). ru_id q \<noteq> ru_id r))
     \<and> (\<forall>r \<in> set rules. \<exists>p \<in> set loaded. r \<in> set (fst (normalize_pack_rules p))
          \<and> ru_packId r = Some (pm_id (pk_manifest p)) \<and> ru_packVersion r = Some (pm_version (pk_manifest p)))"
proof -
  obtain loaded where l: "service w PT_rule = Inr loaded"
    and rules: "rules = shipped_rules loaded
         @ filter (\<lambda>r. ru_id r \<notin> ru_id ` set (shipped_rules loaded))
             (concat (map (\<lambda>p. fst (normalize_pack_rules p)) (filter pk_imported loaded)))"
    using load_rules_split [OF assms] by blast
  have shipped: "r \<in> set (shipped_rules loaded) \<longleftrightarrow> (\<exists>p \<in> set loaded. \<not> pk_imported p \<and> r \<in> set (fst (normalize_pack_rules p)))" for r
    by (auto simp: shipped_rules_def)
  have stamp: "\<exists>p \<in> set loaded. r \<in> set (fst (normalize_pack_rules p))
      \<and> ru_packId r = Some (pm_id (pk_manifest p)) \<and> ru_packVersion r = Some (pm_version (pk_manifest p))"
    if r: "r \<in> set rules" for r
  proof -
    have "\<exists>p \<in> set loaded. r \<in> set (fst (normalize_pack_rules p))" using r shipped unfolding rules by auto
    then show ?thesis using normalize_pack_stamp by blast
  qed
  show ?thesis
  proof (intro exI conjI)
    show "service w PT_rule = Inr loaded" by (rule l)
    show "rules = shipped_rules loaded @ filter (\<lambda>r. ru_id r \<notin> ru_id ` set (shipped_rules loaded))
             (concat (map (\<lambda>p. fst (normalize_pack_rules p)) (filter pk_imported loaded)))" by (rule rules)
    show "\<forall>p \<in> set loaded. \<not> pk_imported p \<longrightarrow> set (fst (normalize_pack_rules p)) \<subseteq> set (shipped_rules loaded)"
      using shipped by blast
    show "\<forall>r. r \<in> set (filter (\<lambda>r. ru_id r \<notin> ru_id ` set (shipped_rules loaded))
             (concat (map (\<lambda>p. fst (normalize_pack_rules p)) (filter pk_imported loaded)))) \<longleftrightarrow>
          (\<exists>p \<in> set loaded. pk_imported p \<and> r \<in> set (fst (normalize_pack_rules p)))
          \<and> (\<forall>q \<in> set (shipped_rules loaded). ru_id q \<noteq> ru_id r)"
      by (auto simp: image_iff)
    show "\<forall>r \<in> set rules. \<exists>p \<in> set loaded. r \<in> set (fst (normalize_pack_rules p))
          \<and> ru_packId r = Some (pm_id (pk_manifest p)) \<and> ru_packVersion r = Some (pm_version (pk_manifest p))"
      using stamp by blast
  qed
qed

definition sample_rule :: "string \<Rightarrow> pyval" where
  "sample_rule i = VDict [(VStr ''id'', VStr i), (VStr ''requiredTag'', VStr ''env'')]"

definition rule_pack :: "string \<Rightarrow> pyval list \<Rightarrow> bool \<Rightarrow> pack" where
  "rule_pack i rules imported =
     \<lparr>pk_manifest = \<lparr>pm_id = i, pm_type = PT_rule, pm_name = i, pm_version = ''1.0.0'', pm_targets = [],
        pm_sha256 = None, pm_signature = None, pm_pack_signature = None, pm_author = ''microsoft''\<rparr>,
      pk_body = VDict [(VStr ''rules'', VList rules)], pk_source = [], pk_imported = imported\<rparr>"

definition sample_service :: packs_service where
  "sample_service w t = Inr [rule_pack ''i'' [sample_rule ''a'', sample_rule ''b''] True, rule_pack ''s'' [sample_rule ''a''] False]"

definition sample_spec :: "string \<Rightarrow> string \<Rightarrow> rule_spec" where
  "sample_spec i p = \<lparr>ru_id = i, ru_title = None, ru_resourceType = None, ru_requiredTag = Some ''env'',
     ru_severity = SV_medium, ru_description = [], ru_packId = Some p, ru_packVersion = Some ''1.0.0''\<rparr>"

lemma sample_normalize:
  "normalize_pack_rules (rule_pack p [sample_rule i] imported) = ([sample_spec i p], [])"
  "normalize_pack_rules (rule_pack p [sample_rule i, sample_rule j] imported) = ([sample_spec i p, sample_spec j p], [])"
  by (simp_all add: normalize_pack_rules_def rule_pack_def normalize_rule_def sample_rule_def coerce_severity_def
      rule_spec_of_def rule_id_field_def opt_str_field_def description_field_def sample_spec_def map_filter_simps Let_def)

lemma sample_imported [simp]: "pk_imported (rule_pack p rules imported) = imported"
    "pm_id (pk_manifest (rule_pack p rules imported)) = p"
  by (simp_all add: rule_pack_def)

lemma sample_load:
  "load_rules (Some sample_service) ''w'' = Inr ([sample_spec ''a'' ''s'', sample_spec ''b'' ''i''], [ShadowsShipped ''i'' ''a''])"
proof -
  have "shipped_rules [rule_pack ''i'' [sample_rule ''a'', sample_rule ''b''] True, rule_pack ''s'' [sample_rule ''a''] False]
      = [sample_spec ''a'' ''s'']"
    by (simp add: shipped_rules_def sample_normalize)
  moreover have "ru_id (sample_spec i p) = i" for i p by (simp add: sample_spec_def)
  ultimately show ?thesis
    by (simp add: load_rules_def sample_service_def shipped_notes_def sample_normalize Let_def)
qed

theorem shipped_rules_authoritative_witness:
  "\<exists>loaded. sample_service ''w'' PT_rule = Inr loaded \<and> (\<exists>p \<in> set loaded. sample_spec ''b'' ''i'' \<in> set (fst (normalize_pack_rules p)))"
proof -
  obtain loaded where "sample_service ''w'' PT_rule = Inr loaded"
    "\<forall>r \<in> set [sample_spec ''a'' ''s'', sample_spec ''b'' ''i'']. \<exists>p \<in> set loaded. r \<in> set (fst (normalize_pack_rules p))"
    using shipped_rules_authoritative [OF sample_load] by blast
  then show ?thesis by auto
qed

section \<open>The findings of a run\<close>

text \<open>What a run checks: the applicable pairs of every workload, in the order of the loops.\<close>

definition checks_of :: "(string \<Rightarrow> rule_spec list) \<Rightarrow> (string \<Rightarrow> resource_node list) \<Rightarrow> string list \<Rightarrow> (resource_node \<times> rule_spec) list" where
  "checks_of rules_of estate ws =
     concat (map (\<lambda>w. filter (\<lambda>(node, rule). applies rule node) (List.product (estate w) (rules_of w))) ws)"

definition rules_at :: "packs_service option \<Rightarrow> string \<Rightarrow> rule_spec list" where
  "rules_at packs w = (case load_rules packs w of Inl _ \<Rightarrow> [] | Inr (rules, _) \<Rightarrow> rules)"

lemma quality_loop_exact:
  assumes "quality_loop now packs (Some st) ws acc = Inr acc'"
  shows "(\<forall>w \<in> set ws. \<exists>x. load_rules packs w = Inr x)
     \<and> (\<exists>fs. qa_findings acc' = qa_findings acc @ fs
          \<and> list_all2 (\<lambda>(node, rule) f. evaluate_rule now node rule = Inr (Some f))
              (checks_of (rules_at packs) (rs_get_estate st) ws) fs)"
  using assms
proof (induction ws arbitrary: acc)
  case (Cons w ws)
  obtain rules ns where l: "load_rules packs w = Inr (rules, ns)"
    using Cons.prems by (auto split: sum.splits prod.splits)
  then obtain fs where c: "check_nodes now rules (rs_get_estate st w) = Inr fs"
    using Cons.prems by (auto split: sum.splits)
  have rest: "quality_loop now packs (Some st) ws
      \<lparr>qa_findings = qa_findings acc @ fs, qa_notes = qa_notes acc @ ns,
       qa_pack_refs = collect_pack_sources rules (qa_pack_refs acc)\<rparr> = Inr acc'"
    using Cons.prems l c by simp
  obtain gs where g: "qa_findings acc' = (qa_findings acc @ fs) @ gs"
      "list_all2 (\<lambda>(node, rule) f. evaluate_rule now node rule = Inr (Some f))
         (checks_of (rules_at packs) (rs_get_estate st) ws) gs"
    using Cons.IH [OF rest] by auto
  have "list_all2 (\<lambda>(node, rule) f. evaluate_rule now node rule = Inr (Some f))
      (filter (\<lambda>(node, rule). applies rule node) (List.product (rs_get_estate st w) (rules_at packs w))) fs"
    using check_nodes_exact [OF c] l by (simp add: rules_at_def)
  then have "list_all2 (\<lambda>(node, rule) f. evaluate_rule now node rule = Inr (Some f))
      (checks_of (rules_at packs) (rs_get_estate st) (w # ws)) (fs @ gs)"
    using g(2) by (simp add: checks_of_def list_all2_appendI)
  then show ?case using Cons.IH [OF rest] l g(1) by auto
qed (simp add: checks_of_def)

text \<open>C32: a run of the quality checks reports exactly one finding for every node of the estate of
  every workload in scope and every loaded rule that applies to its type, in the order of the loops. It
  passes exactly when the rule names a tag and the node has it (a rule without a known predicate never
  passes), is as severe as the rule unless it passes, has the node as its evidence and the rule's pack
  as its complete provenance.\<close>

theorem quality_findings_exact:
  assumes "quality_run note_text now ctx scope_opt = Inr r" and "mx_state ctx = Some st"
    and "ws = target_workloads (Some st) (case scope_opt of None \<Rightarrow> [] | Some sc \<Rightarrow> sc)"
  shows "(\<forall>w \<in> set ws. \<exists>notes. load_rules (mx_packs ctx) w = Inr (rules_at (mx_packs ctx) w, notes))
     \<and> list_all2 (\<lambda>(node, rule) f. verdict rule node f \<and> provenance_complete f)
         (checks_of (rules_at (mx_packs ctx)) (rs_get_estate st) ws) (mr_findings r)"
proof -
  obtain acc where a: "quality_loop now (mx_packs ctx) (Some st) ws \<lparr>qa_findings = [], qa_notes = [], qa_pack_refs = []\<rparr> = Inr acc"
    and r: "mr_findings r = qa_findings acc"
    using assms by (auto simp: quality_run_def Let_def rbind_Inr_iff)
  note q = quality_loop_exact [OF a]
  have "list_all2 (\<lambda>(node, rule) f. verdict rule node f \<and> provenance_complete f)
      (checks_of (rules_at (mx_packs ctx)) (rs_get_estate st) ws) (mr_findings r)"
    unfolding r
    using q by (auto elim!: list_all2_mono dest!: evaluate_rule_verdict)
  moreover have "\<exists>notes. load_rules (mx_packs ctx) w = Inr (rules_at (mx_packs ctx) w, notes)" if "w \<in> set ws" for w
    using q that by (auto simp: rules_at_def)
  ultimately show ?thesis by blast
qed

definition tag_node :: "string \<Rightarrow> (string, string) dict \<Rightarrow> resource_node" where
  "tag_node i tags = \<lparr>rn_id = i, rn_name = i, rn_type = ''vm'', rn_workload = None, rn_tier = None, rn_role = None,
     rn_tags = tags\<rparr>"

definition estate_reader :: "resource_node list \<Rightarrow> readable_state" where
  "estate_reader nodes =
     \<lparr>rs_list_workloads = [''w''], rs_get_estate = (\<lambda>_. nodes), rs_get_graph = (\<lambda>_. None),
      rs_get_findings = (\<lambda>_ _. Inr []), rs_get_previous_findings = (\<lambda>_. Inr []),
      rs_get_previous_node_ids = (\<lambda>_. [])\<rparr>"

lemma check_nodes_Inr:
  "(\<exists>fs. check_nodes now rules nodes = Inr fs) \<longleftrightarrow>
     (\<forall>(node, rule) \<in> set (filter (\<lambda>(node, rule). applies rule node) (List.product nodes rules)).
        \<not> blank (ru_packId rule) \<and> \<not> blank (ru_packVersion rule))"
proof -
  let ?rs = "concat (map (\<lambda>node. map (evaluate_rule now node) rules) nodes)"
  have "(\<exists>fs. check_nodes now rules nodes = Inr fs) \<longleftrightarrow> (\<exists>os. ?rs = map Inr os)"
    by (auto simp: check_nodes_def rbind_Inr_iff rseq_Inr_iff)
  also have "\<dots> \<longleftrightarrow> (\<forall>x \<in> set ?rs. \<exists>y. x = Inr y)"
  proof
    assume "\<forall>x \<in> set ?rs. \<exists>y. x = Inr y"
    then have "?rs = map Inr (map projr ?rs)" unfolding map_map
      by (intro map_idI [symmetric]) (metis comp_apply sum.sel(2))
    then show "\<exists>os. ?rs = map Inr os" by blast
  next
    assume "\<exists>os. ?rs = map Inr os"
    then obtain os where "?rs = map Inr os" by blast
    then have "set ?rs = Inr ` set os" by (metis list.set_map)
    then show "\<forall>x \<in> set ?rs. \<exists>y. x = Inr y" by blast
  qed
  also have "\<dots> \<longleftrightarrow> (\<forall>node \<in> set nodes. \<forall>rule \<in> set rules. \<not> (\<exists>e. evaluate_rule now node rule = Inl e))"
    by (auto; metis sum.exhaust Inl_Inr_False)
  finally show ?thesis unfolding evaluate_rule_Inl by fastforce
qed

lemma quality_loop_Inr:
  "(\<exists>acc'. quality_loop now packs (Some st) ws acc = Inr acc') \<longleftrightarrow>
     (\<forall>w \<in> set ws. \<exists>x. load_rules packs w = Inr x)
     \<and> (\<forall>(node, rule) \<in> set (checks_of (rules_at packs) (rs_get_estate st) ws).
          \<not> blank (ru_packId rule) \<and> \<not> blank (ru_packVersion rule))"
proof (induction ws arbitrary: acc)
  case (Cons w ws)
  show ?case
  proof (cases "load_rules packs w")
    case (Inr x)
    then obtain rules ns where l: "load_rules packs w = Inr (rules, ns)" by (cases x) auto
    have checks: "checks_of (rules_at packs) (rs_get_estate st) (w # ws) =
        filter (\<lambda>(node, rule). applies rule node) (List.product (rs_get_estate st w) rules)
        @ checks_of (rules_at packs) (rs_get_estate st) ws"
      using l by (simp add: checks_of_def rules_at_def)
    show ?thesis
    proof (cases "check_nodes now rules (rs_get_estate st w)")
      case (Inl e)
      then have "\<not> (\<exists>fs. check_nodes now rules (rs_get_estate st w) = Inr fs)" by simp
      then have "\<not> (\<forall>(node, rule) \<in> set (checks_of (rules_at packs) (rs_get_estate st) (w # ws)).
          \<not> blank (ru_packId rule) \<and> \<not> blank (ru_packVersion rule))"
        unfolding check_nodes_Inr checks by auto
      then show ?thesis using l Inl by auto
    next
      case (Inr fs)
      then have "\<exists>fs. check_nodes now rules (rs_get_estate st w) = Inr fs" by blast
      then have now: "\<forall>(node, rule) \<in> set (filter (\<lambda>(node, rule). applies rule node) (List.product (rs_get_estate st w) rules)).
          \<not> blank (ru_packId rule) \<and> \<not> blank (ru_packVersion rule)"
        unfolding check_nodes_Inr .
      have "quality_loop now packs (Some st) (w # ws) acc = quality_loop now packs (Some st) ws
          \<lparr>qa_findings = qa_findings acc @ fs, qa_notes = qa_notes acc @ ns,
           qa_pack_refs = collect_pack_sources rules (qa_pack_refs acc)\<rparr>"
        using l Inr by simp
      then show ?thesis unfolding checks set_append ball_Un using Cons.IH l now by auto
    qed
  qed simp
qed (simp add: checks_of_def)

lemma verdict_has_provenance: "verdict rule node f \<Longrightarrow> finding_has_provenance f \<longleftrightarrow> py_strip (rn_id node) \<noteq> []"
proof -
  assume v: "verdict rule node f"
  then obtain ref where "fd_evidence f = [ref]" "sr_id ref = rn_id node" "sr_kind ref = ''resource''"
    by (auto simp: verdict_def)
  moreover have "py_strip ''resource'' = ''resource''" by code_simp
  ultimately show ?thesis
    by (simp add: finding_has_provenance_def reference_is_attributable_def SOURCE_REFERENCE_KINDS_def)
qed

text \<open>when a run of the quality checks fails. Through the provenance gate of \<open>run_module\<close> it returns a
  result exactly when the packs of every workload in scope load, every rule that applies to some node
  comes from a pack whose id and version are not blank, and every node that is checked has an id that is
  not blank; so nothing without a pack and a resource behind it is ever emitted.\<close>

theorem quality_run_accepts:
  "(\<exists>r. run_module (quality_module note_text now) scope_opt (Some st) packs clients = Inr r) \<longleftrightarrow>
     (let ws = target_workloads (Some st) (case scope_opt of None \<Rightarrow> [] | Some sc \<Rightarrow> sc) in
      (\<forall>w \<in> set ws. \<exists>x. load_rules packs w = Inr x)
      \<and> (\<forall>(node, rule) \<in> set (checks_of (rules_at packs) (rs_get_estate st) ws).
           \<not> blank (ru_packId rule) \<and> \<not> blank (ru_packVersion rule) \<and> py_strip (rn_id node) \<noteq> []))"
proof -
  define ws where "ws = target_workloads (Some st) (case scope_opt of None \<Rightarrow> [] | Some sc \<Rightarrow> sc)"
  define start where "start = \<lparr>qa_findings = [], qa_notes = [], qa_pack_refs = []\<rparr>"
  let ?checks = "checks_of (rules_at packs) (rs_get_estate st) ws"
  have gate: "(\<forall>f \<in> set (qa_findings acc). finding_has_provenance f) \<longleftrightarrow>
      (\<forall>(node, rule) \<in> set ?checks. py_strip (rn_id node) \<noteq> [])"
    if a: "quality_loop now packs (Some st) ws start = Inr acc" for acc
  proof -
    have "list_all2 (\<lambda>(node, rule) f. evaluate_rule now node rule = Inr (Some f)) ?checks (qa_findings acc)"
      using quality_loop_exact [OF a] by (auto simp: start_def)
    then have "list_all2 (\<lambda>(node, rule) f. finding_has_provenance f \<longleftrightarrow> py_strip (rn_id node) \<noteq> []) ?checks (qa_findings acc)"
      by (auto elim!: list_all2_mono dest!: evaluate_rule_verdict simp: verdict_has_provenance)
    then show ?thesis by (induction rule: list_all2_induct) auto
  qed
  have "(\<exists>r. run_module (quality_module note_text now) scope_opt (Some st) packs clients = Inr r) \<longleftrightarrow>
      (\<exists>acc. quality_loop now packs (Some st) ws start = Inr acc \<and> (\<forall>f \<in> set (qa_findings acc). finding_has_provenance f))"
    unfolding run_module_iff
    by (auto simp: quality_module_def quality_run_def Let_def rbind_Inr_iff ws_def start_def)
  also have "\<dots> \<longleftrightarrow> (\<exists>acc. quality_loop now packs (Some st) ws start = Inr acc) \<and> (\<forall>(node, rule) \<in> set ?checks. py_strip (rn_id node) \<noteq> [])"
    using gate by blast
  finally show ?thesis unfolding quality_loop_Inr ws_def [symmetric] Let_def by blast
qed

section \<open>Concrete runs\<close>

definition quality_ctx :: "packs_service \<Rightarrow> resource_node list \<Rightarrow> unit module_context" where
  "quality_ctx service nodes =
     \<lparr>mx_packs = Some service, mx_state = Some (estate_reader nodes), mx_config = [], mx_clients = []\<rparr>"

lemma quality_ctx_simps [simp]:
  "mx_packs (quality_ctx service nodes) = Some service"
  "mx_state (quality_ctx service nodes) = Some (estate_reader nodes)"
  "rs_get_estate (estate_reader nodes) = (\<lambda>_. nodes)" "rs_list_workloads (estate_reader nodes) = [''w'']"
  "target_workloads (Some (estate_reader nodes)) [] = [''w'']"
  by (simp_all add: quality_ctx_def estate_reader_def target_workloads_def scoped_workload_def)

lemma evaluate_sample:
  assumes "\<not> blank (Some p)"
  shows "\<exists>f. evaluate_rule now (tag_node n tags) (sample_spec i p) = Inr (Some f)
     \<and> fd_id f = i @ ''::'' @ n \<and> fd_module f = ''quality_checks''
     \<and> fd_passed f = Some (dict_get tags ''env'' \<noteq> None) \<and> fd_packId f = Some p"
proof -
  have "blank (Some ''1.0.0'') = False" by code_simp
  moreover have app: "applies (sample_spec i p) (tag_node n tags)" by (simp add: applies_def sample_spec_def)
  ultimately have "\<nexists>e. evaluate_rule now (tag_node n tags) (sample_spec i p) = Inl e"
    unfolding evaluate_rule_Inl using assms by (simp add: sample_spec_def)
  moreover have "evaluate_rule now (tag_node n tags) (sample_spec i p) \<noteq> Inr None"
    using app by (simp add: evaluate_rule_None)
  ultimately obtain f where f: "evaluate_rule now (tag_node n tags) (sample_spec i p) = Inr (Some f)"
    by (cases "evaluate_rule now (tag_node n tags) (sample_spec i p)") auto
  then show ?thesis using evaluate_rule_verdict [OF f]
    by (auto simp: verdict_def sample_spec_def tag_node_def has_tag_def)
qed

theorem quality_findings_exact_witness:
  "\<exists>r. quality_run (\<lambda>_. []) 0 (quality_ctx sample_service [tag_node ''n'' []]) None = Inr r
     \<and> length (mr_findings r) = 2"
proof -
  let ?ctx = "quality_ctx sample_service [tag_node ''n'' []]"
  have bl: "\<not> blank (Some ''s'')" "\<not> blank (Some ''i'')" by code_simp+
  obtain f g where fg: "evaluate_rule 0 (tag_node ''n'' []) (sample_spec ''a'' ''s'') = Inr (Some f)"
      "evaluate_rule 0 (tag_node ''n'' []) (sample_spec ''b'' ''i'') = Inr (Some g)"
    using evaluate_sample bl by metis
  obtain r where r: "quality_run (\<lambda>_. []) 0 ?ctx None = Inr r"
    using fg sample_load by (simp add: quality_run_def check_nodes_def)
  have "rules_at (Some sample_service) ''w'' = [sample_spec ''a'' ''s'', sample_spec ''b'' ''i'']"
    by (simp add: rules_at_def sample_load)
  then have "length (checks_of (rules_at (Some sample_service)) (\<lambda>_. [tag_node ''n'' []]) [''w'']) = 2"
    by (simp add: checks_of_def applies_def sample_spec_def)
  moreover have "list_all2 (\<lambda>(node, rule) f. verdict rule node f \<and> provenance_complete f)
      (checks_of (rules_at (Some sample_service)) (\<lambda>_. [tag_node ''n'' []]) [''w'']) (mr_findings r)"
    using quality_findings_exact [OF r _ refl] by simp
  ultimately show ?thesis using r list_all2_lengthD by fastforce
qed

text \<open>A finding id joins the rule id and the node id with \<open>::\<close>, which either may contain: an imported
  rule with an id of its own can still produce the id of a shipped rule's finding, and its pass then
  replaces the shipped rule's failure when the run is stored.\<close>

definition hiding_service :: packs_service where
  "hiding_service w t = Inr [rule_pack ''s'' [sample_rule ''a''] False, rule_pack ''i'' [sample_rule ''a::b''] True]"

theorem imported_rule_hides_failure:
  "\<exists>r f g. quality_run (\<lambda>_. []) 0
        (quality_ctx hiding_service [tag_node ''b::c'' [], tag_node ''c'' [(''env'', ''x'')]]) None = Inr r
     \<and> f \<in> set (mr_findings r) \<and> fd_packId f = Some ''s'' \<and> fd_passed f = Some False
     \<and> run_finding r (drift_key f) = Some g \<and> fd_packId g = Some ''i'' \<and> fd_passed g = Some True"
proof -
  let ?n = "tag_node ''b::c'' []" and ?m = "tag_node ''c'' [(''env'', ''x'')]"
  let ?a = "sample_spec ''a'' ''s''" and ?b = "sample_spec ''a::b'' ''i''"
  have "shipped_rules [rule_pack ''s'' [sample_rule ''a''] False, rule_pack ''i'' [sample_rule ''a::b''] True] = [?a]"
    by (simp add: shipped_rules_def sample_normalize)
  moreover have "ru_id (sample_spec i p) = i" for i p by (simp add: sample_spec_def)
  ultimately have load: "load_rules (Some hiding_service) ''w'' = Inr ([?a, ?b], [])"
    by (simp add: load_rules_def hiding_service_def shipped_notes_def sample_normalize Let_def)
  have bl: "\<not> blank (Some ''s'')" "\<not> blank (Some ''i'')" by code_simp+
  obtain f1 where f1: "evaluate_rule 0 ?n ?a = Inr (Some f1)" "fd_id f1 = ''a::b::c'' \<and> fd_module f1 = ''quality_checks''"
      "fd_passed f1 = Some False" "fd_packId f1 = Some ''s''"
    using evaluate_sample [OF bl(1), of 0 "''b::c''" "[]" "''a''"] by auto
  obtain f2 where f2: "evaluate_rule 0 ?n ?b = Inr (Some f2)"
    using evaluate_sample [OF bl(2)] by blast
  obtain f3 where f3: "evaluate_rule 0 ?m ?a = Inr (Some f3)"
    using evaluate_sample [OF bl(1)] by blast
  obtain f4 where f4: "evaluate_rule 0 ?m ?b = Inr (Some f4)" "fd_id f4 = ''a::b::c'' \<and> fd_module f4 = ''quality_checks''"
      "fd_passed f4 = Some True" "fd_packId f4 = Some ''i''"
    using evaluate_sample [OF bl(2), of 0 "''c''" "[(''env'', ''x'')]" "''a::b''"] by auto
  obtain r where r: "quality_run (\<lambda>_. []) 0 (quality_ctx hiding_service [?n, ?m]) None = Inr r"
    and fs: "mr_findings r = [f1, f2, f3, f4]"
    using load f1(1) f2 f3 f4(1) by (simp add: quality_run_def check_nodes_def map_filter_simps)
  have "run_finding r (drift_key f1) = Some f4"
    using f1(2) f4(2) by (simp add: run_finding_def fs drift_key_def)
  then show ?thesis using r fs f1 f4 by (intro exI [of _ r] exI [of _ f1] exI [of _ f4]) simp
qed

theorem quality_run_accepts_witness:
  "\<exists>r. run_module (quality_module (\<lambda>_. []) 0) None (Some (estate_reader [tag_node ''n'' []])) (Some sample_service)
     (None :: (string, unit) dict option) = Inr r"
proof -
  have bl: "\<not> blank (Some ''s'')" "\<not> blank (Some ''i'')" "\<not> blank (Some ''1.0.0'')" "py_strip ''n'' \<noteq> []" by code_simp+
  have "rules_at (Some sample_service) ''w'' = [sample_spec ''a'' ''s'', sample_spec ''b'' ''i'']"
    by (simp add: rules_at_def sample_load)
  then show ?thesis
    using bl quality_run_accepts [of "\<lambda>_. []" 0 None "estate_reader [tag_node ''n'' []]" "Some sample_service"
        "None :: (string, unit) dict option"]
    by (auto simp: sample_load checks_of_def sample_spec_def tag_node_def simp del: blank.simps)
qed

end
