(* ===== verification/Connector_Signals.thy ===== *)
theory Connector_Signals
  imports Pack_Model Py_Float Py_Text
begin

text \<open>
  What the read-only connectors share: the fetch envelope of \<open>src/shared/connectors/base.py\<close>, the gate
  on resource ids, and the annotation of authoritative estate nodes with supplemental tags, as
  \<open>src/shared/connectors/lb.py\<close> and \<open>src/modules/dependency_graph/connectors/citrix.py\<close> write it.
  The contract of an annotator is a locale; its clients reason about the graph once, in it.
\<close>

section \<open>The fetch envelope\<close>

record fetch_result =
  fr_available :: bool
  fr_raw :: "raw_dict list"
  fr_error :: "string option"

text \<open>Why a batch of signals is rejected: the connector's signal error, or another exception.\<close>

datatype signal_exc = SignalError | SignalRaised py_exc

text \<open>A connector as a module sees it: \<open>fetch_raw()\<close> returns an envelope or raises.\<close>

type_synonym connector = "string + fetch_result"

section \<open>Resource ids\<close>

definition RESOURCE_ID_CHARS :: string where
  "RESOURCE_ID_CHARS = ''abcdefghijklmnopqrstuvwxyzABCDEFGHIJKLMNOPQRSTUVWXYZ0123456789/_.-''"

definition MAX_RESOURCE_ID_LEN :: nat where
  "MAX_RESOURCE_ID_LEN = 1024"

definition LF :: char where
  "LF = CHR 0x0A"

text \<open>\<open>_RESOURCE_ID_RE.match(s)\<close> for \<open>^[A-Za-z0-9/_.\-]+$\<close>: the \<open>$\<close> of \<open>re.match\<close> also matches before a final
  line feed.\<close>

definition resource_id_match :: "string \<Rightarrow> bool" where
  "resource_id_match s \<longleftrightarrow>
     (let body = (if s \<noteq> [] \<and> last s = LF then butlast s else s)
      in body \<noteq> [] \<and> list_all (\<lambda>c. c \<in> set RESOURCE_ID_CHARS) body)"

definition resource_id_ok :: "string \<Rightarrow> bool" where
  "resource_id_ok s \<longleftrightarrow> 1 \<le> length s \<and> length s \<le> MAX_RESOURCE_ID_LEN \<and> resource_id_match s"

text \<open>\<open>_require_bounded_id\<close>.\<close>

definition require_bounded_id :: "nat \<Rightarrow> pyval option \<Rightarrow> signal_exc + string" where
  "require_bounded_id max_len v =
     (case Option.bind v str_key of
        None \<Rightarrow> Inl SignalError
      | Some s \<Rightarrow>
          if \<not> (1 \<le> length s \<and> length s \<le> max_len) then Inl SignalError
          else if \<not> resource_id_match s then Inl SignalError
          else Inr s)"

text \<open>A record has no key but those named: \<open>set(raw) - allowed\<close> is empty. The keys of a decoded JSON object
  are strings, and Pydantic rejects a key that is none.\<close>

definition keys_within :: "string list \<Rightarrow> raw_dict \<Rightarrow> bool" where
  "keys_within ks d \<longleftrightarrow> list_all (\<lambda>(k, _). case str_key k of None \<Rightarrow> False | Some s \<Rightarrow> s \<in> set ks) d"

definition has_kind :: "string \<Rightarrow> raw_dict \<Rightarrow> bool" where
  "has_kind kind d \<longleftrightarrow> Option.bind (vget d ''kind'') str_key = Some kind"

text \<open>A field of a hint rebuilt from an untrusted record: a string that passes its validator.\<close>

definition checked_field :: "(string \<Rightarrow> bool) \<Rightarrow> raw_dict \<Rightarrow> string \<Rightarrow> signal_exc + string" where
  "checked_field ok d k =
     (case str_field d k of None \<Rightarrow> Inl SignalError | Some s \<Rightarrow> if ok s then Inr s else Inl SignalError)"

section \<open>Annotating nodes\<close>

definition SOURCE_TAG :: string where
  "SOURCE_TAG = ''aegis:source''"

text \<open>The sources of a node: the non-empty parts of its provenance tag.\<close>

definition sources_of :: "(string, string) dict \<Rightarrow> string set" where
  "sources_of tags =
     {s \<in> set (py_split CHR '','' (case dict_get tags SOURCE_TAG of None \<Rightarrow> [] | Some v \<Rightarrow> v)). s \<noteq> []}"

definition annotate_tags :: "string \<Rightarrow> string \<Rightarrow> string \<Rightarrow> (string, string) dict \<Rightarrow> (string, string) dict" where
  "annotate_tags source health_tag health tags =
     dict_set health_tag health
       (dict_set SOURCE_TAG (py_join CHR '','' (sorted_list_of_set (insert source (sources_of tags)))) tags)"

text \<open>The loop over the estate: a node without a signal is kept as it is.\<close>

fun annotate_nodes ::
  "string \<Rightarrow> string \<Rightarrow> (string, string) dict \<Rightarrow> resource_node list \<Rightarrow> resource_node list \<times> string list" where
  "annotate_nodes source health_tag health_by_id [] = ([], [])"
| "annotate_nodes source health_tag health_by_id (node # nodes) =
     (case annotate_nodes source health_tag health_by_id nodes of
        (out, annotated) \<Rightarrow>
          (case dict_get health_by_id (rn_id node) of
             None \<Rightarrow> (node # out, annotated)
           | Some h \<Rightarrow>
               (node\<lparr>rn_tags := annotate_tags source health_tag h (rn_tags node)\<rparr> # out, rn_id node # annotated)))"

section \<open>The contract of an annotator\<close>

text \<open>What a connector may do to the estate: keep every node, in order, with every authoritative field,
  touch no tag but its own two, and keep the sources already on record.\<close>

definition same_node :: "string \<Rightarrow> resource_node \<Rightarrow> resource_node \<Rightarrow> bool" where
  "same_node health_tag a b \<longleftrightarrow>
     a\<lparr>rn_tags := []\<rparr> = b\<lparr>rn_tags := []\<rparr>
     \<and> (\<forall>k. k \<noteq> SOURCE_TAG \<and> k \<noteq> health_tag \<longrightarrow> dict_get (rn_tags b) k = dict_get (rn_tags a) k)
     \<and> sources_of (rn_tags a) \<subseteq> sources_of (rn_tags b)"

lemma same_node_refl [simp]: "same_node t a a"
  by (simp add: same_node_def)

lemma same_node_id: "same_node t a b \<Longrightarrow> rn_id b = rn_id a"
  unfolding same_node_def by (metis resource_node.select_convs(1) resource_node.surjective resource_node.update_convs(7))

locale annotator =
  fixes annotate :: "resource_node list \<Rightarrow> resource_node list \<times> string list"
    and health_tag :: string
  assumes supplement_only: "list_all2 (same_node health_tag) nodes (fst (annotate nodes))"
    and annotated_known: "set (snd (annotate nodes)) \<subseteq> rn_id ` set nodes"
begin

lemma annotate_ids: "map rn_id (fst (annotate nodes)) = map rn_id nodes"
proof -
  have "list_all2 (\<lambda>a b. rn_id b = rn_id a) nodes (fst (annotate nodes))"
    using supplement_only by (rule list_all2_mono) (rule same_node_id)
  then show ?thesis by (induction rule: list_all2_induct) simp_all
qed

lemma annotate_length: "length (fst (annotate nodes)) = length nodes"
  using supplement_only list_all2_lengthD by metis

end

section \<open>What annotating does\<close>

lemma finite_sources: "finite (sources_of tags)"
  by (simp add: sources_of_def)

lemma annotate_tags_sources:
  assumes "CHR '','' \<notin> set source" and "source \<noteq> []" and "health_tag \<noteq> SOURCE_TAG"
  shows "sources_of (annotate_tags source health_tag h tags) = insert source (sources_of tags)"
proof -
  define S where "S = insert source (sources_of tags)"
  have fin: "finite S" by (simp add: finite_sources S_def)
  have ok: "\<forall>p \<in> S. CHR '','' \<notin> set p \<and> p \<noteq> []"
    using assms by (auto simp: sources_of_def S_def dest: py_split_no_sep)
  have ne: "S \<noteq> {}" by (simp add: S_def)
  have "dict_get (annotate_tags source health_tag h tags) SOURCE_TAG = Some (py_join CHR '','' (sorted_list_of_set S))"
    using assms(3) by (simp add: annotate_tags_def S_def)
  moreover have "py_split CHR '','' (py_join CHR '','' (sorted_list_of_set S)) = sorted_list_of_set S"
    using ok fin ne by (intro py_split_join) simp_all
  ultimately have "sources_of (annotate_tags source health_tag h tags) = {s \<in> set (sorted_list_of_set S). s \<noteq> []}"
    by (simp add: sources_of_def)
  also have "\<dots> = S" using ok fin by auto
  finally show ?thesis by (simp add: S_def)
qed

lemma annotate_nodes_supplement:
  assumes "CHR '','' \<notin> set source" and "source \<noteq> []" and "health_tag \<noteq> SOURCE_TAG"
  shows "list_all2 (same_node health_tag) nodes (fst (annotate_nodes source health_tag d nodes))"
proof (induction nodes)
  case (Cons node nodes)
  have "same_node health_tag node (node\<lparr>rn_tags := annotate_tags source health_tag h (rn_tags node)\<rparr>)" for h
    using annotate_tags_sources [OF assms, of h "rn_tags node"]
    by (auto simp: same_node_def) (simp add: annotate_tags_def)
  then show ?case using Cons by (auto split: prod.splits option.splits)
qed simp

lemma annotate_nodes_ids:
  "snd (annotate_nodes source health_tag d nodes) = filter (\<lambda>i. dict_get d i \<noteq> None) (map rn_id nodes)"
  by (induction nodes) (auto split: prod.splits option.splits)

text \<open>Where a node is annotated, its health tag carries the signal and the source is on record.\<close>

lemma annotate_nodes_tag:
  "list_all2 (\<lambda>n n'. case dict_get d (rn_id n) of None \<Rightarrow> n' = n | Some h \<Rightarrow> dict_get (rn_tags n') health_tag = Some h)
     nodes (fst (annotate_nodes source health_tag d nodes))"
proof (induction nodes)
  case (Cons n nodes)
  then show ?case by (cases "dict_get d (rn_id n)") (auto simp: annotate_tags_def split: prod.splits)
qed simp

section \<open>The gate on resource ids\<close>

lemma resource_id_ok_chars:
  assumes "resource_id_ok s"
  shows "length s \<le> 1024 \<and> (\<exists>body. body \<noteq> [] \<and> set body \<subseteq> set RESOURCE_ID_CHARS \<and> (s = body \<or> s = body @ [LF]))"
proof -
  define body where "body = (if s \<noteq> [] \<and> last s = LF then butlast s else s)"
  have "body \<noteq> []" "set body \<subseteq> set RESOURCE_ID_CHARS"
    using assms by (auto simp: resource_id_ok_def resource_id_match_def Let_def body_def list_all_iff)
  moreover have "s = body \<or> s = body @ [LF]"
    by (auto simp: body_def) (metis append_butlast_last_id)
  ultimately show ?thesis using assms by (auto simp: resource_id_ok_def MAX_RESOURCE_ID_LEN_def)
qed

text \<open>The gate lets a final line feed through, which is no character of its set.\<close>

lemma resource_id_ok_line_feed: "resource_id_ok (''vm'' @ [LF])" "LF \<notin> set RESOURCE_ID_CHARS"
  by code_simp+

section \<open>Batches of two kinds\<close>

text \<open>The two lists a batch is sorted into, in the order of the records.\<close>

fun lefts :: "('a + 'b) list \<Rightarrow> 'a list" where
  "lefts [] = []"
| "lefts (Inl a # xs) = a # lefts xs"
| "lefts (Inr b # xs) = lefts xs"

fun rights :: "('a + 'b) list \<Rightarrow> 'b list" where
  "rights [] = []"
| "rights (Inl a # xs) = rights xs"
| "rights (Inr b # xs) = b # rights xs"

lemma lefts_append [simp]: "lefts (xs @ ys) = lefts xs @ lefts ys"
  by (induction xs rule: lefts.induct) simp_all

lemma rights_append [simp]: "rights (xs @ ys) = rights xs @ rights ys"
  by (induction xs rule: rights.induct) simp_all

lemma lefts_map [simp]: "lefts (map Inl as) = as"
  by (induction as) simp_all

lemma lefts_map_Inr [simp]: "lefts (map Inr bs) = []"
  by (induction bs) simp_all

lemma rights_map [simp]: "rights (map Inr bs) = bs"
  by (induction bs) simp_all

lemma rights_map_Inl [simp]: "rights (map Inl as) = []"
  by (induction as) simp_all

lemma lefts_set: "set (lefts xs) = {a. Inl a \<in> set xs}"
  by (induction xs rule: lefts.induct) auto

lemma rights_set: "set (rights xs) = {b. Inr b \<in> set xs}"
  by (induction xs rule: rights.induct) auto

text \<open>Every record is read, in order; the first that is rejected rejects the batch.\<close>

definition read_batch :: "('r \<Rightarrow> 'e + ('a + 'b)) \<Rightarrow> 'r list \<Rightarrow> 'e + ('a list \<times> 'b list)" where
  "read_batch read rs = rbind (rseq (map read rs)) (\<lambda>xs. Inr (lefts xs, rights xs))"

lemma rseq_map_all2: "rseq (map f xs) = Inr ys \<longleftrightarrow> list_all2 (\<lambda>x y. f x = Inr y) xs ys"
proof -
  have "map f xs = map Inr ys \<longleftrightarrow> list_all2 (\<lambda>x y. f x = Inr y) xs ys"
    by (induction xs arbitrary: ys) (auto simp: list_all2_Cons1 Cons_eq_map_conv)
  then show ?thesis by (simp add: rseq_Inr_iff)
qed

lemma read_batch_mem:
  assumes "read_batch read rs = Inr (as, bs)"
  shows "a \<in> set as \<Longrightarrow> \<exists>r \<in> set rs. read r = Inr (Inl a)" and "b \<in> set bs \<Longrightarrow> \<exists>r \<in> set rs. read r = Inr (Inr b)"
proof -
  obtain xs where xs: "list_all2 (\<lambda>r x. read r = Inr x) rs xs" "as = lefts xs" "bs = rights xs"
    using assms by (auto simp: read_batch_def rbind_Inr_iff rseq_map_all2)
  have "x \<in> set xs \<Longrightarrow> \<exists>r \<in> set rs. read r = Inr x" for x
    using xs(1) by (induction rule: list_all2_induct) auto
  then show "a \<in> set as \<Longrightarrow> \<exists>r \<in> set rs. read r = Inr (Inl a)" and "b \<in> set bs \<Longrightarrow> \<exists>r \<in> set rs. read r = Inr (Inr b)"
    by (auto simp: xs(2,3) lefts_set rights_set)
qed

lemma lefts_rights_length: "length (lefts xs) + length (rights xs) = length xs"
  by (induction xs rule: lefts.induct) simp_all

lemma read_batch_length: "read_batch read rs = Inr (as, bs) \<Longrightarrow> length as + length bs = length rs"
  by (auto simp: read_batch_def rbind_Inr_iff rseq_map_all2 lefts_rights_length dest: list_all2_lengthD)

text \<open>Records written from two lists are read back as those lists.\<close>

lemma read_batch_written:
  assumes "\<And>a. a \<in> set as \<Longrightarrow> read (write_a a) = Inr (Inl a)"
    and "\<And>b. b \<in> set bs \<Longrightarrow> read (write_b b) = Inr (Inr b)"
  shows "read_batch read (map write_a as @ map write_b bs) = Inr (as, bs)"
proof -
  have "map read (map write_a as @ map write_b bs) = map Inr (map Inl as @ map Inr bs)"
    using assms by simp
  then have "rseq (map read (map write_a as @ map write_b bs)) = Inr (map Inl as @ map Inr bs)"
    unfolding rseq_Inr_iff .
  then show ?thesis by (simp add: read_batch_def del: map_append)
qed

section \<open>Health\<close>

fun health_state_value :: "health_state \<Rightarrow> string" where
  "health_state_value HS_up = ''up''"
| "health_state_value HS_degraded = ''degraded''"
| "health_state_value HS_down = ''down''"
| "health_state_value HS_unknown = ''unknown''"

text \<open>The part of a record that is validated against a model: every key but the discriminator.\<close>

definition payload :: "raw_dict \<Rightarrow> raw_dict" where
  "payload d = filter (\<lambda>(k, _). str_key k \<noteq> Some ''kind'') d"

text \<open>\<open>raw.get(k)\<close> where it is a string.\<close>

definition raw_field :: "raw_dict \<Rightarrow> string \<Rightarrow> string option" where
  "raw_field d k = Option.bind (vget d k) str_key"

end
