(* ===== verification/Lb_Signals.thy ===== *)
theory Lb_Signals
  imports Connector_Signals
begin

text \<open>
  The transform layer of the load-balancer connectors, \<open>src/shared/connectors/lb.py\<close>: validation of
  untrusted records, membership to edges, the health of a balancer from that of its members, and the
  annotation of the estate. The lax conversion of a value to \<open>float\<close> (Pydantic) is a parameter.
\<close>

section \<open>Signals\<close>

definition BACKEND_MEMBER_KIND :: string where
  "BACKEND_MEMBER_KIND = ''backend-member''"

definition LOG_SIGNAL_KIND :: string where
  "LOG_SIGNAL_KIND = ''log-signal''"

definition ALLOWED_MEMBER_HEALTH :: "string list" where
  "ALLOWED_MEMBER_HEALTH = [''up'', ''down'', ''degraded'', ''unknown'']"

definition ALLOWED_LOG_METRICS :: "string list" where
  "ALLOWED_LOG_METRICS = [''error_rate'', ''reset_rate'', ''conn_drops'']"

definition LB_EDGE_TYPE :: edge_type where
  "LB_EDGE_TYPE = ET_load_balances"

definition LB_HEALTH_TAG :: string where
  "LB_HEALTH_TAG = ''aegis:lb-health''"

definition MAX_LOG_VALUE :: pyfloat where
  "MAX_LOG_VALUE = PFin (10 ^ 12)"

record member_hint =
  mh_lb_id :: string
  mh_member_id :: string
  mh_health :: string

record log_hint =
  lh_lb_id :: string
  lh_metric :: string
  lh_value :: pyfloat

record lb_signals =
  ls_members :: "member_hint list"
  ls_logs :: "log_hint list"

definition member_health_ok :: "string \<Rightarrow> bool" where
  "member_health_ok s \<longleftrightarrow> s \<in> set ALLOWED_MEMBER_HEALTH"

definition log_metric_ok :: "string \<Rightarrow> bool" where
  "log_metric_ok s \<longleftrightarrow> s \<in> set ALLOWED_LOG_METRICS"

definition log_value_ok :: "pyfloat \<Rightarrow> bool" where
  "log_value_ok x \<longleftrightarrow> float_isfinite x \<and> float_le (PFin 0) x \<and> float_le x MAX_LOG_VALUE"

text \<open>\<open>_log_value_ok(value)\<close> on any value, and the float it stands for: \<open>math.isfinite\<close> raises
  \<open>OverflowError\<close> on an integer beyond the floats, a boolean is no number.\<close>

definition raw_log_value :: "pyval option \<Rightarrow> signal_exc + pyfloat" where
  "raw_log_value v =
     (case v of
        Some (VInt i) \<Rightarrow>
          (case float_of_int i of
             Inl e \<Rightarrow> Inl (SignalRaised e)
           | Inr x \<Rightarrow> if log_value_ok x then Inr x else Inl SignalError)
      | Some (VFloat x) \<Rightarrow> if log_value_ok x then Inr x else Inl SignalError
      | _ \<Rightarrow> Inl SignalError)"

section \<open>Strict validation of wire records\<close>

text \<open>A hint whose id passes the configured bound and not the model's own is a \<open>ValidationError\<close>.\<close>

definition member_hint_new :: "string \<Rightarrow> string \<Rightarrow> string \<Rightarrow> signal_exc + member_hint" where
  "member_hint_new lb_id member_id health =
     (if resource_id_ok lb_id \<and> resource_id_ok member_id \<and> member_health_ok health
      then Inr \<lparr>mh_lb_id = lb_id, mh_member_id = member_id, mh_health = health\<rparr>
      else Inl (SignalRaised ValueError))"

definition log_hint_new :: "string \<Rightarrow> string \<Rightarrow> pyfloat \<Rightarrow> signal_exc + log_hint" where
  "log_hint_new lb_id metric value =
     (if resource_id_ok lb_id \<and> log_metric_ok metric \<and> log_value_ok value
      then Inr \<lparr>lh_lb_id = lb_id, lh_metric = metric, lh_value = value\<rparr>
      else Inl (SignalRaised ValueError))"

definition validate_member_hint :: "nat \<Rightarrow> raw_dict \<Rightarrow> signal_exc + member_hint" where
  "validate_member_hint max_len raw =
     (if \<not> keys_within [''kind'', ''lbId'', ''memberId'', ''health''] raw then Inl SignalError
      else if \<not> has_kind BACKEND_MEMBER_KIND raw then Inl SignalError
      else rbind (require_bounded_id max_len (vget raw ''lbId'')) (\<lambda>lb_id.
           rbind (require_bounded_id max_len (vget raw ''memberId'')) (\<lambda>member_id.
           (case raw_field raw ''health'' of
              None \<Rightarrow> Inl SignalError
            | Some health \<Rightarrow>
                if \<not> member_health_ok health then Inl SignalError
                else member_hint_new lb_id member_id health))))"

definition validate_log_hint :: "nat \<Rightarrow> raw_dict \<Rightarrow> signal_exc + log_hint" where
  "validate_log_hint max_len raw =
     (if \<not> keys_within [''kind'', ''lbId'', ''metric'', ''value''] raw then Inl SignalError
      else if \<not> has_kind LOG_SIGNAL_KIND raw then Inl SignalError
      else rbind (require_bounded_id max_len (vget raw ''lbId'')) (\<lambda>lb_id.
           (case raw_field raw ''metric'' of
              None \<Rightarrow> Inl SignalError
            | Some metric \<Rightarrow>
                if \<not> log_metric_ok metric then Inl SignalError
                else rbind (raw_log_value (vget raw ''value'')) (\<lambda>value.
                     log_hint_new lb_id metric value))))"

definition read_wire_record :: "nat \<Rightarrow> pyval \<Rightarrow> signal_exc + (member_hint + log_hint)" where
  "read_wire_record max_len record =
     (case record of
        VDict d \<Rightarrow>
          if has_kind BACKEND_MEMBER_KIND d then rbind (validate_member_hint max_len d) (\<lambda>h. Inr (Inl h))
          else if has_kind LOG_SIGNAL_KIND d then rbind (validate_log_hint max_len d) (\<lambda>h. Inr (Inr h))
          else Inl SignalError
      | _ \<Rightarrow> Inl SignalError)"

definition lb_parse_signals_atomic :: "nat \<Rightarrow> nat \<Rightarrow> pyval list \<Rightarrow> signal_exc + lb_signals" where
  "lb_parse_signals_atomic max_records max_len records =
     (if length records > max_records then Inl SignalError
      else rbind (read_batch (read_wire_record max_len) records) (\<lambda>(ms, ls).
           Inr \<lparr>ls_members = ms, ls_logs = ls\<rparr>))"

section \<open>Rehydration of an untrusted envelope\<close>

definition member_hint_validate :: "raw_dict \<Rightarrow> signal_exc + member_hint" where
  "member_hint_validate d =
     (if \<not> keys_within [''lb_id'', ''member_id'', ''health''] d then Inl SignalError
      else rbind (checked_field resource_id_ok d ''lb_id'') (\<lambda>lb_id.
           rbind (checked_field resource_id_ok d ''member_id'') (\<lambda>member_id.
           rbind (checked_field member_health_ok d ''health'') (\<lambda>health.
           Inr \<lparr>mh_lb_id = lb_id, mh_member_id = member_id, mh_health = health\<rparr>))))"

definition log_hint_validate :: "(pyval \<Rightarrow> pyfloat option) \<Rightarrow> raw_dict \<Rightarrow> signal_exc + log_hint" where
  "log_hint_validate lax_float d =
     (if \<not> keys_within [''lb_id'', ''metric'', ''value''] d then Inl SignalError
      else rbind (checked_field resource_id_ok d ''lb_id'') (\<lambda>lb_id.
           rbind (checked_field log_metric_ok d ''metric'') (\<lambda>metric.
           (case Option.bind (vget d ''value'') lax_float of
              None \<Rightarrow> Inl SignalError
            | Some value \<Rightarrow>
                if \<not> log_value_ok value then Inl SignalError
                else Inr \<lparr>lh_lb_id = lb_id, lh_metric = metric, lh_value = value\<rparr>))))"

definition rehydrate_record ::
  "(pyval \<Rightarrow> pyfloat option) \<Rightarrow> raw_dict \<Rightarrow> signal_exc + (member_hint + log_hint)" where
  "rehydrate_record lax_float d =
     (if has_kind BACKEND_MEMBER_KIND d then rbind (member_hint_validate (payload d)) (\<lambda>h. Inr (Inl h))
      else if has_kind LOG_SIGNAL_KIND d then rbind (log_hint_validate lax_float (payload d)) (\<lambda>h. Inr (Inr h))
      else Inl SignalError)"

definition lb_signals_from_result ::
  "(pyval \<Rightarrow> pyfloat option) \<Rightarrow> fetch_result \<Rightarrow> signal_exc + lb_signals" where
  "lb_signals_from_result lax_float r =
     (if \<not> fr_available r then Inr \<lparr>ls_members = [], ls_logs = []\<rparr>
      else rbind (read_batch (rehydrate_record lax_float) (fr_raw r)) (\<lambda>(ms, ls).
           Inr \<lparr>ls_members = ms, ls_logs = ls\<rparr>))"

definition member_raw :: "member_hint \<Rightarrow> raw_dict" where
  "member_raw m =
     [(VStr ''kind'', VStr BACKEND_MEMBER_KIND), (VStr ''lb_id'', VStr (mh_lb_id m)),
      (VStr ''member_id'', VStr (mh_member_id m)), (VStr ''health'', VStr (mh_health m))]"

definition log_raw :: "log_hint \<Rightarrow> raw_dict" where
  "log_raw l =
     [(VStr ''kind'', VStr LOG_SIGNAL_KIND), (VStr ''lb_id'', VStr (lh_lb_id l)),
      (VStr ''metric'', VStr (lh_metric l)), (VStr ''value'', VFloat (lh_value l))]"

definition signals_to_raw :: "lb_signals \<Rightarrow> raw_dict list" where
  "signals_to_raw s = map member_raw (ls_members s) @ map log_raw (ls_logs s)"

section \<open>Membership to edges\<close>

text \<open>The gate on a hint: well-formed ids that differ, both known.\<close>

definition member_gate :: "string set \<Rightarrow> member_hint \<Rightarrow> bool" where
  "member_gate known h \<longleftrightarrow>
     resource_id_ok (mh_lb_id h) \<and> resource_id_ok (mh_member_id h) \<and> mh_lb_id h \<noteq> mh_member_id h
     \<and> mh_lb_id h \<in> known \<and> mh_member_id h \<in> known"

text \<open>\<open>pool.setdefault(lb_id, set()).add(member_id)\<close>.\<close>

definition set_add :: "string \<Rightarrow> string \<Rightarrow> (string, string set) dict \<Rightarrow> (string, string set) dict" where
  "set_add k x d = dict_set k (insert x (case dict_get d k of None \<Rightarrow> {} | Some xs \<Rightarrow> xs)) d"

definition member_pool :: "member_hint list \<Rightarrow> string set \<Rightarrow> (string, string set) dict" where
  "member_pool ms known =
     foldl (\<lambda>pool h. if member_gate known h then set_add (mh_lb_id h) (mh_member_id h) pool else pool) [] ms"

definition member_edges :: "(string, string set) dict \<Rightarrow> string \<Rightarrow> member_hint \<Rightarrow> dependency_edge list" where
  "member_edges pool origin h =
     (let redundant = card (case dict_get pool (mh_lb_id h) of None \<Rightarrow> {} | Some ms \<Rightarrow> ms) > 1
      in [\<lparr>de_source = mh_member_id h, de_target = mh_lb_id h, de_type = LB_EDGE_TYPE,
           de_redundant = False, de_origin = origin\<rparr>,
          \<lparr>de_source = mh_lb_id h, de_target = mh_member_id h, de_type = LB_EDGE_TYPE,
           de_redundant = redundant, de_origin = origin\<rparr>])"

definition edge_ends :: "dependency_edge \<Rightarrow> string \<times> string" where
  "edge_ends e = (de_source e, de_target e)"

definition lb_dependency_edges :: "member_hint list \<Rightarrow> string set \<Rightarrow> string \<Rightarrow> dependency_edge list" where
  "lb_dependency_edges ms known origin =
     dedup_by edge_ends [] (concat (map (member_edges (member_pool ms known) origin) (filter (member_gate known) ms)))"

section \<open>The health of a balancer\<close>

definition health_tokens :: "member_hint list \<Rightarrow> (string, string set) dict" where
  "health_tokens ms =
     foldl (\<lambda>d h. if resource_id_ok (mh_lb_id h) \<and> member_health_ok (mh_health h)
                  then set_add (mh_lb_id h) (mh_health h) d else d) [] ms"

definition aggregate_state :: "string set \<Rightarrow> health_state" where
  "aggregate_state distinct_tokens =
     (if distinct_tokens = {''up''} then HS_up
      else if distinct_tokens = {''down''} then HS_down
      else if distinct_tokens = {''unknown''} then HS_unknown
      else HS_degraded)"

definition aggregate_health :: "member_hint list \<Rightarrow> (string, health_state) dict" where
  "aggregate_health ms = map (\<lambda>(lb_id, tokens). (lb_id, aggregate_state tokens)) (health_tokens ms)"

definition lb_apply_health ::
  "string \<Rightarrow> (string, health_state) dict \<Rightarrow> resource_node list \<Rightarrow> resource_node list \<times> string list" where
  "lb_apply_health source aggregate nodes =
     annotate_nodes source LB_HEALTH_TAG
       (map (\<lambda>(lb_id, st). (lb_id, health_state_value st))
          (filter (\<lambda>(lb_id, _). lb_id \<in> rn_id ` set nodes) aggregate))
       nodes"

section \<open>Log signals and the response\<close>

definition log_signals :: "log_hint list \<Rightarrow> string set \<Rightarrow> log_hint list" where
  "log_signals logs known =
     filter (\<lambda>h. resource_id_ok (lh_lb_id h) \<and> log_metric_ok (lh_metric h) \<and> log_value_ok (lh_value h)
                 \<and> lh_lb_id h \<in> known) logs"

definition lb_to_source_reference :: "string \<Rightarrow> string \<Rightarrow> source_reference" where
  "lb_to_source_reference source resource_id =
     \<lparr>sr_kind = ''connector'', sr_id = source, sr_detail = Some resource_id\<rparr>"

text \<open>\<open>repr_float\<close> is the text of a float (\<open>str(value)\<close>), \<open>now\<close> the time of the response.\<close>

definition lb_agent_response ::
  "(pyfloat \<Rightarrow> string) \<Rightarrow> int \<Rightarrow> string \<Rightarrow> string \<Rightarrow> bool \<Rightarrow> (string, health_state) dict \<Rightarrow> dependency_edge list
     \<Rightarrow> log_hint list \<Rightarrow> agent_response" where
  "lb_agent_response repr_float now agent_name source available aggregate edges logs =
     (let by_id = sort_key fst aggregate in
      \<lparr>ag_agentName = agent_name, ag_taskType = ''lb-health-and-dependencies'',
       ag_inputSummary = source @ '' read-only connector: '' @ show_nat (length aggregate) @ '' LB(s), ''
         @ show_nat (length edges) @ '' edge(s), '' @ show_nat (length logs) @ '' aggregate log signal(s)'',
       ag_findings =
         map (\<lambda>(i, st). ''lb '' @ i @ '' aggregate health: '' @ health_state_value st) by_id
         @ [''backend-pool dependency edges: '' @ show_nat (length edges)]
         @ map (\<lambda>l. ''lb '' @ lh_lb_id l @ '' '' @ lh_metric l @ '': '' @ repr_float (lh_value l)) logs,
       ag_risks =
         map (\<lambda>(i, st). ''lb '' @ i @ '' is '' @ health_state_value st)
           (filter (\<lambda>(_, st). st \<in> {HS_down, HS_degraded}) by_id),
       ag_recommendations = [],
       ag_sourceReferences = map (\<lambda>(i, _). lb_to_source_reference source i) by_id,
       ag_confidence = (if available \<and> (aggregate \<noteq> [] \<or> edges \<noteq> [] \<or> logs \<noteq> []) then 1 else 0),
       ag_nextActions = [],
       ag_generatedAt = now\<rparr>)"

section \<open>What an accepted batch holds\<close>

definition member_ok :: "member_hint \<Rightarrow> bool" where
  "member_ok m \<longleftrightarrow> resource_id_ok (mh_lb_id m) \<and> resource_id_ok (mh_member_id m) \<and> member_health_ok (mh_health m)"

definition log_ok :: "log_hint \<Rightarrow> bool" where
  "log_ok l \<longleftrightarrow> resource_id_ok (lh_lb_id l) \<and> log_metric_ok (lh_metric l) \<and> log_value_ok (lh_value l)"

lemma member_hint_new_ok: "member_hint_new i m h = Inr x \<Longrightarrow> member_ok x"
  by (auto simp: member_hint_new_def member_ok_def split: if_splits)

lemma log_hint_new_ok: "log_hint_new i m v = Inr x \<Longrightarrow> log_ok x"
  by (auto simp: log_hint_new_def log_ok_def split: if_splits)

lemma validate_member_hint_ok: "validate_member_hint n d = Inr m \<Longrightarrow> member_ok m"
  unfolding validate_member_hint_def
  by (auto simp: rbind_Inr_iff dest: member_hint_new_ok split: if_splits option.splits)

lemma validate_log_hint_ok: "validate_log_hint n d = Inr l \<Longrightarrow> log_ok l"
  unfolding validate_log_hint_def
  by (auto simp: rbind_Inr_iff dest: log_hint_new_ok split: if_splits option.splits)

lemma read_wire_record_ok:
  "read_wire_record n r = Inr (Inl m) \<Longrightarrow> member_ok m"
  "read_wire_record n r = Inr (Inr l) \<Longrightarrow> log_ok l"
  unfolding read_wire_record_def
  by (auto simp: rbind_Inr_iff dest: validate_member_hint_ok validate_log_hint_ok split: pyval.splits if_splits)

lemma checked_field_ok: "checked_field ok d k = Inr s \<Longrightarrow> ok s"
  by (simp add: checked_field_def split: option.splits if_splits)

lemma member_hint_validate_ok: "member_hint_validate d = Inr m \<Longrightarrow> member_ok m"
  unfolding member_hint_validate_def
  by (auto simp: rbind_Inr_iff member_ok_def dest: checked_field_ok split: if_splits)

lemma log_hint_validate_ok:
  assumes "log_hint_validate fl d = Inr l"
  shows "log_ok l"
proof -
  from assms obtain i m where "resource_id_ok i" "log_metric_ok m"
    and v: "(case Option.bind (vget d ''value'') fl of None \<Rightarrow> Inl SignalError | Some value \<Rightarrow>
        if \<not> log_value_ok value then Inl SignalError
        else Inr \<lparr>lh_lb_id = i, lh_metric = m, lh_value = value\<rparr>) = Inr l"
    unfolding log_hint_validate_def by (auto simp only: rbind_Inr_iff dest!: checked_field_ok split: if_split_asm)
  then show ?thesis by (auto simp: log_ok_def split: option.split_asm if_split_asm)
qed

lemma rehydrate_record_ok:
  "rehydrate_record fl r = Inr (Inl m) \<Longrightarrow> member_ok m"
  "rehydrate_record fl r = Inr (Inr l) \<Longrightarrow> log_ok l"
  unfolding rehydrate_record_def
  by (auto simp: rbind_Inr_iff dest: member_hint_validate_ok log_hint_validate_ok split: if_splits)

lemma rehydrate_written:
  "member_ok m \<Longrightarrow> rehydrate_record fl (member_raw m) = Inr (Inl m)"
  "log_ok l \<Longrightarrow> fl (VFloat (lh_value l)) = Some (lh_value l) \<Longrightarrow> rehydrate_record fl (log_raw l) = Inr (Inr l)"
  by (simp_all add: rehydrate_record_def has_kind_def payload_def member_raw_def log_raw_def member_hint_validate_def
      log_hint_validate_def keys_within_def checked_field_def str_field_def member_ok_def log_ok_def
      BACKEND_MEMBER_KIND_def LOG_SIGNAL_KIND_def)

lemma lb_parsed_ok:
  assumes "lb_parse_signals_atomic max_records max_len records = Inr s"
  shows "list_all member_ok (ls_members s) \<and> list_all log_ok (ls_logs s)
    \<and> length (ls_members s) + length (ls_logs s) = length records \<and> length records \<le> max_records"
proof -
  from assms obtain ms ls where b: "read_batch (read_wire_record max_len) records = Inr (ms, ls)"
    and s: "s = \<lparr>ls_members = ms, ls_logs = ls\<rparr>" and le: "length records \<le> max_records"
    by (auto simp: lb_parse_signals_atomic_def rbind_Inr_iff split: if_splits)
  have "\<forall>m \<in> set ms. member_ok m" and "\<forall>l \<in> set ls. log_ok l"
    using read_batch_mem [OF b] by (blast dest: read_wire_record_ok)+
  then show ?thesis using le read_batch_length [OF b] by (simp add: s list_all_iff)
qed

lemma lb_rehydrated:
  assumes "lb_parse_signals_atomic max_records max_len records = Inr s"
    and "\<And>x. float_isfinite x \<Longrightarrow> lax_float (VFloat x) = Some x"
    and "fr_available r" and "fr_raw r = signals_to_raw s"
  shows "lb_signals_from_result lax_float r = Inr s"
proof -
  have "read_batch (rehydrate_record lax_float) (map member_raw (ls_members s) @ map log_raw (ls_logs s))
      = Inr (ls_members s, ls_logs s)"
    using lb_parsed_ok [OF assms(1)] assms(2)
    by (intro read_batch_written rehydrate_written) (auto simp: list_all_iff log_ok_def log_value_ok_def)
  then show ?thesis using assms(3,4) by (simp add: lb_signals_from_result_def signals_to_raw_def)
qed

text \<open>what the connector accepts from the wire it hands on unchanged: the records it writes into the
  envelope are re-validated as untrusted by the consumer and yield exactly the signals parsed, in
  order, and every one of them is within the closed vocabularies and bounds.\<close>

theorem lb_fetch_roundtrip:
  assumes "lb_parse_signals_atomic max_records max_len records = Inr s"
    and "\<And>x. float_isfinite x \<Longrightarrow> lax_float (VFloat x) = Some x"
  shows "lb_signals_from_result lax_float \<lparr>fr_available = True, fr_raw = signals_to_raw s, fr_error = err\<rparr> = Inr s
    \<and> list_all member_ok (ls_members s) \<and> list_all log_ok (ls_logs s) \<and> length records \<le> max_records"
  using lb_parsed_ok [OF assms(1)] lb_rehydrated [OF assms] by simp

lemma lb_fetch_roundtrip_witness:
  "lb_signals_from_result (\<lambda>v. case v of VFloat x \<Rightarrow> Some x | _ \<Rightarrow> None)
     \<lparr>fr_available = True,
      fr_raw = signals_to_raw \<lparr>ls_members = [\<lparr>mh_lb_id = ''lb'', mh_member_id = ''vm'', mh_health = ''up''\<rparr>], ls_logs = []\<rparr>,
      fr_error = None\<rparr>
   = Inr \<lparr>ls_members = [\<lparr>mh_lb_id = ''lb'', mh_member_id = ''vm'', mh_health = ''up''\<rparr>], ls_logs = []\<rparr>"
proof -
  have "lb_parse_signals_atomic 10 512
      [VDict [(VStr ''kind'', VStr ''backend-member''), (VStr ''lbId'', VStr ''lb''), (VStr ''memberId'', VStr ''vm''),
              (VStr ''health'', VStr ''up'')]]
    = Inr \<lparr>ls_members = [\<lparr>mh_lb_id = ''lb'', mh_member_id = ''vm'', mh_health = ''up''\<rparr>], ls_logs = []\<rparr>"
    by code_simp
  from lb_fetch_roundtrip [OF this, of "\<lambda>v. case v of VFloat x \<Rightarrow> Some x | _ \<Rightarrow> None" None] show ?thesis by simp
qed

section \<open>Sets by key\<close>

lemma set_add_get: "dict_get (set_add k x d) j =
    (if j = k then Some (insert x (case dict_get d k of None \<Rightarrow> {} | Some xs \<Rightarrow> xs)) else dict_get d j)"
  by (simp add: set_add_def)

text \<open>A loop that files the value of every selected hint under its balancer.\<close>

lemma filed_get:
  "dict_get (foldl (\<lambda>d h. if P h then set_add (key h) (val h) d else d) [] hs) k =
     (let vs = val ` {h \<in> set hs. P h \<and> key h = k} in if vs = {} then None else Some vs)"
proof (induction hs rule: rev_induct)
  case (snoc h hs)
  have "{x \<in> set (hs @ [h]). P x \<and> key x = k} =
      (if P h \<and> key h = k then insert h {x \<in> set hs. P x \<and> key x = k} else {x \<in> set hs. P x \<and> key x = k})"
    by auto
  with snoc show ?case by (auto simp: set_add_get Let_def split: option.splits if_splits)
qed simp

lemma filed_wf: "dict_wf (foldl (\<lambda>d h. if P h then set_add (key h) (val h) d else d) [] hs)"
  by (induction hs rule: rev_induct) (auto simp: set_add_def distinct_update)

text \<open>The members of a balancer: the distinct ones whose hints pass the gate.\<close>

definition members_of :: "member_hint list \<Rightarrow> string set \<Rightarrow> string \<Rightarrow> string set" where
  "members_of ms known lb = mh_member_id ` {h \<in> set ms. member_gate known h \<and> mh_lb_id h = lb}"

lemma member_pool_get:
  "(case dict_get (member_pool ms known) lb of None \<Rightarrow> {} | Some xs \<Rightarrow> xs) = members_of ms known lb"
  by (simp add: member_pool_def filed_get Let_def members_of_def)

definition lb_edge_spec :: "member_hint list \<Rightarrow> string set \<Rightarrow> string \<Rightarrow> dependency_edge \<Rightarrow> bool" where
  "lb_edge_spec ms known origin e \<longleftrightarrow>
     de_type e = LB_EDGE_TYPE \<and> de_origin e = origin
     \<and> (de_source e \<in> members_of ms known (de_target e) \<and> \<not> de_redundant e
        \<or> de_target e \<in> members_of ms known (de_source e)
          \<and> (de_redundant e \<longleftrightarrow> card (members_of ms known (de_source e)) > 1))"

lemma member_edges_spec:
  "e \<in> set (concat (map (member_edges (member_pool ms known) origin) (filter (member_gate known) ms)))
     \<longleftrightarrow> lb_edge_spec ms known origin e"
proof
  assume "e \<in> set (concat (map (member_edges (member_pool ms known) origin) (filter (member_gate known) ms)))"
  then obtain h where "h \<in> set ms" "member_gate known h" "e \<in> set (member_edges (member_pool ms known) origin h)"
    by auto
  then show "lb_edge_spec ms known origin e"
    by (auto simp: member_edges_def Let_def member_pool_get lb_edge_spec_def members_of_def)
next
  assume e: "lb_edge_spec ms known origin e"
  then obtain h where h: "h \<in> set ms" "member_gate known h"
    and "de_source e = mh_member_id h \<and> de_target e = mh_lb_id h \<and> \<not> de_redundant e
         \<or> de_source e = mh_lb_id h \<and> de_target e = mh_member_id h
           \<and> (de_redundant e \<longleftrightarrow> card (members_of ms known (mh_lb_id h)) > 1)"
    by (auto simp: lb_edge_spec_def members_of_def)
  then have "e \<in> set (member_edges (member_pool ms known) origin h)"
    using e by (cases e) (auto simp: member_edges_def Let_def member_pool_get lb_edge_spec_def)
  with h show "e \<in> set (concat (map (member_edges (member_pool ms known) origin) (filter (member_gate known) ms)))"
    by auto
qed

text \<open>Where no two balancers list each other, the ends of an edge determine it.\<close>

lemma lb_edge_spec_ends:
  assumes "\<And>lb m. m \<in> members_of ms known lb \<Longrightarrow> lb \<notin> members_of ms known m"
    and "lb_edge_spec ms known origin a" "lb_edge_spec ms known origin b" "edge_ends a = edge_ends b"
  shows "a = b"
proof -
  have "de_redundant a = de_redundant b"
    using assms(1) assms(2-4) unfolding lb_edge_spec_def edge_ends_def by auto
  then show ?thesis
    using assms(2-4) by (cases a; cases b) (auto simp: lb_edge_spec_def edge_ends_def)
qed

lemma dedup_by_same:
  assumes "\<And>x y. x \<in> set xs \<Longrightarrow> y \<in> set xs \<Longrightarrow> key x = key y \<Longrightarrow> x = y"
  shows "set (dedup_by key [] xs) = set xs"
proof
  show "set xs \<subseteq> set (dedup_by key [] xs)"
  proof
    fix x assume x: "x \<in> set xs"
    then have "key x \<in> key ` set (dedup_by key [] xs)" by (simp add: dedup_by_keys)
    then obtain y where "y \<in> set (dedup_by key [] xs)" "key y = key x" by auto
    then show "x \<in> set (dedup_by key [] xs)" using assms x dedup_by_subset by (metis subsetD)
  qed
qed (rule dedup_by_subset)

text \<open>the edges of a membership are exactly these, each pair of ends once: from every known member
  to its balancer, never redundant, and back, redundant just when the balancer has a second known
  member. An unknown, malformed or self reference contributes neither an edge nor to the count. A member
  may itself be a balancer, but no two balancers may list each other.\<close>

theorem lb_edges_exact:
  assumes "\<And>lb m. m \<in> members_of ms known lb \<Longrightarrow> lb \<notin> members_of ms known m"
  shows "(e \<in> set (lb_dependency_edges ms known origin) \<longleftrightarrow> lb_edge_spec ms known origin e)
    \<and> distinct (map edge_ends (lb_dependency_edges ms known origin))"
  using dedup_by_same [of "concat (map (member_edges (member_pool ms known) origin) (filter (member_gate known) ms))"
      edge_ends] lb_edge_spec_ends [of ms known origin, OF assms]
  by (auto simp: lb_dependency_edges_def dedup_by_distinct member_edges_spec simp del: set_concat set_map set_filter)

lemma lb_edges_exact_witness:
  "\<lparr>de_source = ''vm'', de_target = ''lb'', de_type = ET_load_balances, de_redundant = False, de_origin = ''o''\<rparr>
     \<in> set (lb_dependency_edges [\<lparr>mh_lb_id = ''lb'', mh_member_id = ''vm'', mh_health = ''up''\<rparr>] {''lb'', ''vm''} ''o'')"
proof -
  have m: "members_of [\<lparr>mh_lb_id = ''lb'', mh_member_id = ''vm'', mh_health = ''up''\<rparr>] {''lb'', ''vm''} lb
      = (if lb = ''lb'' then {''vm''} else {})" for lb
  proof -
    have "member_gate {''lb'', ''vm''} \<lparr>mh_lb_id = ''lb'', mh_member_id = ''vm'', mh_health = ''up''\<rparr>" by code_simp
    then show ?thesis by (auto simp: members_of_def)
  qed
  then have "\<And>lb m. m \<in> members_of [\<lparr>mh_lb_id = ''lb'', mh_member_id = ''vm'', mh_health = ''up''\<rparr>] {''lb'', ''vm''} lb
      \<Longrightarrow> lb \<notin> members_of [\<lparr>mh_lb_id = ''lb'', mh_member_id = ''vm'', mh_health = ''up''\<rparr>] {''lb'', ''vm''} m"
    by (auto split: if_splits)
  from lb_edges_exact [OF this] show ?thesis by (simp add: lb_edge_spec_def m LB_EDGE_TYPE_def)
qed

text \<open>Without that proviso the first hint wins: where two balancers list each other, the edge that makes
  the second a single point of failure is lost to the redundant edge of the first.\<close>

lemma lb_mutual_members_lose_ingress:
  "let h = (\<lambda>l m. \<lparr>mh_lb_id = l, mh_member_id = m, mh_health = ''up''\<rparr>);
       es = lb_dependency_edges [h ''a'' ''b'', h ''a'' ''c'', h ''b'' ''a''] {''a'', ''b'', ''c''} ''o''
   in list_ex (\<lambda>e. de_source e = ''a'' \<and> de_target e = ''b'' \<and> de_redundant e) es
      \<and> \<not> list_ex (\<lambda>e. de_source e = ''a'' \<and> de_target e = ''b'' \<and> \<not> de_redundant e) es"
  by code_simp

section \<open>Health of a balancer, and of the estate\<close>

definition tokens_of :: "member_hint list \<Rightarrow> string \<Rightarrow> string set" where
  "tokens_of ms lb =
     mh_health ` {h \<in> set ms. (resource_id_ok (mh_lb_id h) \<and> member_health_ok (mh_health h)) \<and> mh_lb_id h = lb}"

lemma map_of_map_snd: "map_of (map (\<lambda>(k, v). (k, f v)) d) k = map_option f (map_of d k)"
  by (induction d) auto

lemma aggregate_health_get:
  "dict_get (aggregate_health ms) lb =
     (if tokens_of ms lb = {} then None else Some (aggregate_state (tokens_of ms lb)))"
  by (simp add: aggregate_health_def map_of_map_snd health_tokens_def filed_get Let_def tokens_of_def)

lemma tokens_of_closed: "tokens_of ms lb \<subseteq> set ALLOWED_MEMBER_HEALTH"
  by (auto simp: tokens_of_def member_health_ok_def)

lemma aggregate_state_cases:
  assumes "T \<noteq> {}"
  shows "(aggregate_state T = HS_up \<longleftrightarrow> (\<forall>t \<in> T. t = ''up''))
    \<and> (aggregate_state T = HS_down \<longleftrightarrow> (\<forall>t \<in> T. t = ''down''))
    \<and> (aggregate_state T = HS_unknown \<longleftrightarrow> (\<forall>t \<in> T. t = ''unknown''))"
proof -
  have "(\<forall>t \<in> T. t = x) \<longleftrightarrow> T = {x}" for x using assms by auto
  then show ?thesis by (auto simp: aggregate_state_def)
qed

lemma map_of_filter_fst: "map_of (filter (\<lambda>(k, _). P k) d) k = (if P k then map_of d k else None)"
  by (induction d) auto

lemma lb_source_ok: "CHR '','' \<notin> set ''lb''" "''lb'' \<noteq> []" "LB_HEALTH_TAG \<noteq> SOURCE_TAG"
  by (simp_all add: LB_HEALTH_TAG_def SOURCE_TAG_def)

interpretation lba: annotator "lb_apply_health ''lb'' aggregate" LB_HEALTH_TAG for aggregate
proof
  fix nodes
  show "list_all2 (same_node LB_HEALTH_TAG) nodes (fst (lb_apply_health ''lb'' aggregate nodes))"
    unfolding lb_apply_health_def using lb_source_ok by (rule annotate_nodes_supplement)
  show "set (snd (lb_apply_health ''lb'' aggregate nodes)) \<subseteq> rn_id ` set nodes"
    by (auto simp: lb_apply_health_def annotate_nodes_ids)
qed

text \<open>the health of the balancers supplements the estate and nothing more: every node keeps its
  place, its authoritative fields, every other tag and the sources on record, and a node is tagged just
  when it is a balancer some valid member hint names, with up, down or unknown where all its members
  agree on that and degraded in every other mix.\<close>

theorem lb_health_supplements:
  "let nodes' = fst (lb_apply_health ''lb'' (aggregate_health ms) nodes)
   in list_all2 (same_node LB_HEALTH_TAG) nodes nodes'
      \<and> snd (lb_apply_health ''lb'' (aggregate_health ms) nodes)
          = filter (\<lambda>i. tokens_of ms i \<noteq> {}) (map rn_id nodes)
      \<and> list_all2 (\<lambda>n n'. if tokens_of ms (rn_id n) = {} then n' = n
            else dict_get (rn_tags n') LB_HEALTH_TAG
                   = Some (health_state_value (aggregate_state (tokens_of ms (rn_id n))))) nodes nodes'"
proof -
  let ?d = "map (\<lambda>(lb_id, st). (lb_id, health_state_value st))
             (filter (\<lambda>(lb_id, _). lb_id \<in> rn_id ` set nodes) (aggregate_health ms))"
  have get: "dict_get ?d i = (if tokens_of ms i = {} \<or> i \<notin> rn_id ` set nodes then None
      else Some (health_state_value (aggregate_state (tokens_of ms i))))" for i
    by (simp add: map_of_map_snd map_of_filter_fst aggregate_health_get)
  have "list_all2 (\<lambda>n n'. if tokens_of ms (rn_id n) = {} then n' = n
            else dict_get (rn_tags n') LB_HEALTH_TAG
                   = Some (health_state_value (aggregate_state (tokens_of ms (rn_id n)))))
          nodes (fst (annotate_nodes ''lb'' LB_HEALTH_TAG ?d nodes))"
    by (rule list.rel_mono_strong [OF annotate_nodes_tag]) (auto simp only: get if_True if_False simp_thms split: if_split_asm option.split_asm)
  moreover have "filter (\<lambda>i. dict_get ?d i \<noteq> None) (map rn_id nodes) = filter (\<lambda>i. tokens_of ms i \<noteq> {}) (map rn_id nodes)"
    by (rule filter_cong [OF refl]) (auto simp only: get set_map split: if_splits)
  ultimately show ?thesis
    using lba.supplement_only [of nodes "aggregate_health ms"]
    by (simp add: Let_def lb_apply_health_def annotate_nodes_ids)
qed

text \<open>Only a bounded datapoint of a known balancer survives.\<close>

lemma log_signals_mem: "l \<in> set (log_signals logs known) \<longleftrightarrow> l \<in> set logs \<and> log_ok l \<and> lh_lb_id l \<in> known"
  by (auto simp: log_signals_def log_ok_def)

end
