(* ===== verification/Citrix_Signals.thy ===== *)
theory Citrix_Signals
  imports Connector_Signals
begin

text \<open>
  The pure part of the Citrix connector, \<open>src/modules/dependency_graph/connectors/citrix.py\<close>:
  validation of untrusted records, the annotation of the estate with the last valid health of each
  resource, and the mapping of dependencies to edges.
\<close>

section \<open>Signals\<close>

definition HEALTH_KIND :: string where
  "HEALTH_KIND = ''host-health''"

definition DEPENDENCY_KIND :: string where
  "DEPENDENCY_KIND = ''session-dependency''"

definition SUPPLEMENTAL_SOURCE :: string where
  "SUPPLEMENTAL_SOURCE = ''citrix''"

definition CITRIX_HEALTH_TAG :: string where
  "CITRIX_HEALTH_TAG = ''aegis:citrix-health''"

definition EDGE_ORIGIN :: string where
  "EDGE_ORIGIN = ''connector:citrix''"

definition ALLOWED_HEALTH :: "string list" where
  "ALLOWED_HEALTH = [''healthy'', ''degraded'', ''unreachable'', ''maintenance'']"

record health_hint =
  hh_resource_id :: string
  hh_health :: string

record dependency_hint =
  dh_resource_id :: string
  dh_depends_on :: string

record citrix_signals =
  cs_health :: "health_hint list"
  cs_dependencies :: "dependency_hint list"

definition citrix_health_ok :: "string \<Rightarrow> bool" where
  "citrix_health_ok s \<longleftrightarrow> s \<in> set ALLOWED_HEALTH"

section \<open>Strict validation of wire records\<close>

definition health_hint_new :: "string \<Rightarrow> string \<Rightarrow> signal_exc + health_hint" where
  "health_hint_new resource_id health =
     (if resource_id_ok resource_id \<and> citrix_health_ok health
      then Inr \<lparr>hh_resource_id = resource_id, hh_health = health\<rparr> else Inl (SignalRaised ValueError))"

definition dependency_hint_new :: "string \<Rightarrow> string \<Rightarrow> signal_exc + dependency_hint" where
  "dependency_hint_new resource_id depends_on =
     (if resource_id_ok resource_id \<and> resource_id_ok depends_on
      then Inr \<lparr>dh_resource_id = resource_id, dh_depends_on = depends_on\<rparr> else Inl (SignalRaised ValueError))"

definition validate_health_hint :: "nat \<Rightarrow> raw_dict \<Rightarrow> signal_exc + health_hint" where
  "validate_health_hint max_len raw =
     (if \<not> keys_within [''kind'', ''resourceId'', ''health''] raw then Inl SignalError
      else if \<not> has_kind HEALTH_KIND raw then Inl SignalError
      else rbind (require_bounded_id max_len (vget raw ''resourceId'')) (\<lambda>resource_id.
           (case raw_field raw ''health'' of
              None \<Rightarrow> Inl SignalError
            | Some health \<Rightarrow>
                if \<not> citrix_health_ok health then Inl SignalError
                else health_hint_new resource_id health)))"

definition validate_dependency_hint :: "nat \<Rightarrow> raw_dict \<Rightarrow> signal_exc + dependency_hint" where
  "validate_dependency_hint max_len raw =
     (if \<not> keys_within [''kind'', ''resourceId'', ''dependsOn''] raw then Inl SignalError
      else if \<not> has_kind DEPENDENCY_KIND raw then Inl SignalError
      else rbind (require_bounded_id max_len (vget raw ''resourceId'')) (\<lambda>source.
           rbind (require_bounded_id max_len (vget raw ''dependsOn'')) (\<lambda>target.
           dependency_hint_new source target)))"

definition citrix_read_record :: "nat \<Rightarrow> pyval \<Rightarrow> signal_exc + (health_hint + dependency_hint)" where
  "citrix_read_record max_len record =
     (case record of
        VDict d \<Rightarrow>
          if has_kind HEALTH_KIND d then rbind (validate_health_hint max_len d) (\<lambda>h. Inr (Inl h))
          else if has_kind DEPENDENCY_KIND d then rbind (validate_dependency_hint max_len d) (\<lambda>h. Inr (Inr h))
          else Inl SignalError
      | _ \<Rightarrow> Inl SignalError)"

definition citrix_parse_signals_atomic :: "nat \<Rightarrow> nat \<Rightarrow> pyval list \<Rightarrow> signal_exc + citrix_signals" where
  "citrix_parse_signals_atomic max_records max_len records =
     (if length records > max_records then Inl SignalError
      else rbind (read_batch (citrix_read_record max_len) records) (\<lambda>(hs, ds).
           Inr \<lparr>cs_health = hs, cs_dependencies = ds\<rparr>))"

section \<open>Rehydration of an untrusted envelope\<close>

definition health_hint_validate :: "raw_dict \<Rightarrow> signal_exc + health_hint" where
  "health_hint_validate d =
     (if \<not> keys_within [''resource_id'', ''health''] d then Inl SignalError
      else rbind (checked_field resource_id_ok d ''resource_id'') (\<lambda>resource_id.
           rbind (checked_field citrix_health_ok d ''health'') (\<lambda>health.
           Inr \<lparr>hh_resource_id = resource_id, hh_health = health\<rparr>)))"

definition dependency_hint_validate :: "raw_dict \<Rightarrow> signal_exc + dependency_hint" where
  "dependency_hint_validate d =
     (if \<not> keys_within [''resource_id'', ''depends_on''] d then Inl SignalError
      else rbind (checked_field resource_id_ok d ''resource_id'') (\<lambda>resource_id.
           rbind (checked_field resource_id_ok d ''depends_on'') (\<lambda>depends_on.
           Inr \<lparr>dh_resource_id = resource_id, dh_depends_on = depends_on\<rparr>)))"

definition citrix_rehydrate_record :: "raw_dict \<Rightarrow> signal_exc + (health_hint + dependency_hint)" where
  "citrix_rehydrate_record d =
     (if has_kind HEALTH_KIND d then rbind (health_hint_validate (payload d)) (\<lambda>h. Inr (Inl h))
      else if has_kind DEPENDENCY_KIND d then rbind (dependency_hint_validate (payload d)) (\<lambda>h. Inr (Inr h))
      else Inl SignalError)"

definition citrix_signals_from_result :: "fetch_result \<Rightarrow> signal_exc + citrix_signals" where
  "citrix_signals_from_result r =
     (if \<not> fr_available r then Inr \<lparr>cs_health = [], cs_dependencies = []\<rparr>
      else rbind (read_batch citrix_rehydrate_record (fr_raw r)) (\<lambda>(hs, ds).
           Inr \<lparr>cs_health = hs, cs_dependencies = ds\<rparr>))"

definition health_raw :: "health_hint \<Rightarrow> raw_dict" where
  "health_raw h =
     [(VStr ''kind'', VStr HEALTH_KIND), (VStr ''resource_id'', VStr (hh_resource_id h)),
      (VStr ''health'', VStr (hh_health h))]"

definition dependency_raw :: "dependency_hint \<Rightarrow> raw_dict" where
  "dependency_raw d =
     [(VStr ''kind'', VStr DEPENDENCY_KIND), (VStr ''resource_id'', VStr (dh_resource_id d)),
      (VStr ''depends_on'', VStr (dh_depends_on d))]"

definition citrix_signals_to_raw :: "citrix_signals \<Rightarrow> raw_dict list" where
  "citrix_signals_to_raw s = map health_raw (cs_health s) @ map dependency_raw (cs_dependencies s)"

section \<open>Annotation and edges\<close>

definition hint_health :: "string set \<Rightarrow> health_hint list \<Rightarrow> (string, string) dict" where
  "hint_health known hints =
     foldl (\<lambda>d h. if resource_id_ok (hh_resource_id h) \<and> citrix_health_ok (hh_health h) \<and> hh_resource_id h \<in> known
                  then dict_set (hh_resource_id h) (hh_health h) d else d) [] hints"

definition apply_supplemental :: "health_hint list \<Rightarrow> resource_node list \<Rightarrow> resource_node list \<times> string list" where
  "apply_supplemental hints nodes =
     annotate_nodes SUPPLEMENTAL_SOURCE CITRIX_HEALTH_TAG (hint_health (rn_id ` set nodes) hints) nodes"

definition dependency_gate :: "string set \<Rightarrow> dependency_hint \<Rightarrow> bool" where
  "dependency_gate known h \<longleftrightarrow>
     resource_id_ok (dh_resource_id h) \<and> resource_id_ok (dh_depends_on h)
     \<and> dh_resource_id h \<noteq> dh_depends_on h \<and> dh_resource_id h \<in> known \<and> dh_depends_on h \<in> known"

definition citrix_edge :: "dependency_hint \<Rightarrow> dependency_edge" where
  "citrix_edge h =
     \<lparr>de_source = dh_resource_id h, de_target = dh_depends_on h, de_type = ET_depends_on,
      de_redundant = False, de_origin = EDGE_ORIGIN\<rparr>"

definition citrix_dependency_edges :: "dependency_hint list \<Rightarrow> string set \<Rightarrow> dependency_edge list" where
  "citrix_dependency_edges hints known =
     map citrix_edge
       (dedup_by (\<lambda>h. (dh_resource_id h, dh_depends_on h)) [] (filter (dependency_gate known) hints))"

definition citrix_source_reference :: "string \<Rightarrow> source_reference" where
  "citrix_source_reference resource_id =
     \<lparr>sr_kind = ''connector'', sr_id = SUPPLEMENTAL_SOURCE, sr_detail = Some resource_id\<rparr>"

section \<open>What an accepted batch holds\<close>

definition health_hint_ok :: "health_hint \<Rightarrow> bool" where
  "health_hint_ok h \<longleftrightarrow> resource_id_ok (hh_resource_id h) \<and> citrix_health_ok (hh_health h)"

definition dependency_hint_ok :: "dependency_hint \<Rightarrow> bool" where
  "dependency_hint_ok h \<longleftrightarrow> resource_id_ok (dh_resource_id h) \<and> resource_id_ok (dh_depends_on h)"

lemma health_hint_new_ok: "health_hint_new i h = Inr x \<Longrightarrow> health_hint_ok x"
  by (auto simp: health_hint_new_def health_hint_ok_def split: if_splits)

lemma dependency_hint_new_ok: "dependency_hint_new i t = Inr x \<Longrightarrow> dependency_hint_ok x"
  by (auto simp: dependency_hint_new_def dependency_hint_ok_def split: if_splits)

lemma validate_health_hint_ok: "validate_health_hint n d = Inr h \<Longrightarrow> health_hint_ok h"
  unfolding validate_health_hint_def
  by (auto simp: rbind_Inr_iff dest: health_hint_new_ok split: if_splits option.splits)

lemma validate_dependency_hint_ok: "validate_dependency_hint n d = Inr h \<Longrightarrow> dependency_hint_ok h"
  unfolding validate_dependency_hint_def
  by (auto simp: rbind_Inr_iff dest: dependency_hint_new_ok split: if_splits)

lemma citrix_read_record_ok:
  "citrix_read_record n r = Inr (Inl h) \<Longrightarrow> health_hint_ok h"
  "citrix_read_record n r = Inr (Inr d) \<Longrightarrow> dependency_hint_ok d"
  unfolding citrix_read_record_def
  by (auto simp: rbind_Inr_iff dest: validate_health_hint_ok validate_dependency_hint_ok split: pyval.splits if_splits)

lemma citrix_rehydrate_written:
  "health_hint_ok h \<Longrightarrow> citrix_rehydrate_record (health_raw h) = Inr (Inl h)"
  "dependency_hint_ok d \<Longrightarrow> citrix_rehydrate_record (dependency_raw d) = Inr (Inr d)"
  by (simp_all add: citrix_rehydrate_record_def has_kind_def payload_def health_raw_def dependency_raw_def
      health_hint_validate_def dependency_hint_validate_def keys_within_def checked_field_def str_field_def
      health_hint_ok_def dependency_hint_ok_def HEALTH_KIND_def DEPENDENCY_KIND_def)

lemma citrix_parsed_ok:
  assumes "citrix_parse_signals_atomic max_records max_len records = Inr s"
  shows "list_all health_hint_ok (cs_health s) \<and> list_all dependency_hint_ok (cs_dependencies s)
    \<and> length (cs_health s) + length (cs_dependencies s) = length records \<and> length records \<le> max_records"
proof -
  from assms obtain hs ds where b: "read_batch (citrix_read_record max_len) records = Inr (hs, ds)"
    and s: "s = \<lparr>cs_health = hs, cs_dependencies = ds\<rparr>" and le: "length records \<le> max_records"
    by (auto simp: citrix_parse_signals_atomic_def rbind_Inr_iff split: if_splits)
  have "\<forall>h \<in> set hs. health_hint_ok h" and "\<forall>d \<in> set ds. dependency_hint_ok d"
    using read_batch_mem [OF b] by (blast dest: citrix_read_record_ok)+
  then show ?thesis using le read_batch_length [OF b] by (simp add: s list_all_iff)
qed

lemma citrix_rehydrated:
  assumes "citrix_parse_signals_atomic max_records max_len records = Inr s"
    and "fr_available r" and "fr_raw r = citrix_signals_to_raw s"
  shows "citrix_signals_from_result r = Inr s"
proof -
  have "read_batch citrix_rehydrate_record (map health_raw (cs_health s) @ map dependency_raw (cs_dependencies s))
      = Inr (cs_health s, cs_dependencies s)"
    using citrix_parsed_ok [OF assms(1)] by (intro read_batch_written citrix_rehydrate_written) (auto simp: list_all_iff)
  then show ?thesis using assms(2,3) by (simp add: citrix_signals_from_result_def citrix_signals_to_raw_def)
qed

text \<open>The edges are those of the gated hints, each pair of ends once.\<close>

lemma citrix_edges_exact:
  "(\<lambda>e. (de_source e, de_target e)) ` set (citrix_dependency_edges hints known)
     = (\<lambda>h. (dh_resource_id h, dh_depends_on h)) ` {h \<in> set hints. dependency_gate known h}"
  "distinct (map (\<lambda>e. (de_source e, de_target e)) (citrix_dependency_edges hints known))"
proof -
  have e: "(\<lambda>e. (de_source e, de_target e)) (citrix_edge h) = (dh_resource_id h, dh_depends_on h)" for h
    by (simp add: citrix_edge_def)
  show "(\<lambda>e. (de_source e, de_target e)) ` set (citrix_dependency_edges hints known)
     = (\<lambda>h. (dh_resource_id h, dh_depends_on h)) ` {h \<in> set hints. dependency_gate known h}"
    using dedup_by_keys [of "\<lambda>h. (dh_resource_id h, dh_depends_on h)" "[]" "filter (dependency_gate known) hints"]
    by (simp add: citrix_dependency_edges_def image_image e)
  show "distinct (map (\<lambda>e. (de_source e, de_target e)) (citrix_dependency_edges hints known))"
    using dedup_by_distinct [of "\<lambda>h. (dh_resource_id h, dh_depends_on h)" "[]" "filter (dependency_gate known) hints"]
    by (simp add: citrix_dependency_edges_def o_def e)
qed

text \<open>The health on record for a resource is that of the last valid hint that names it.\<close>

definition last_hint :: "health_hint list \<Rightarrow> string \<Rightarrow> string option" where
  "last_hint hints i =
     map_option hh_health (find (\<lambda>h. health_hint_ok h \<and> hh_resource_id h = i) (rev hints))"

lemma hint_health_get:
  "dict_get (hint_health known hints) i = (if i \<in> known then last_hint hints i else None)"
proof (induction hints rule: rev_induct)
  case (snoc h hints)
  then show ?case by (auto simp: hint_health_def last_hint_def health_hint_ok_def)
qed (simp add: hint_health_def last_hint_def)

lemma citrix_source_ok: "CHR '','' \<notin> set SUPPLEMENTAL_SOURCE" "SUPPLEMENTAL_SOURCE \<noteq> []" "CITRIX_HEALTH_TAG \<noteq> SOURCE_TAG"
  by (simp_all add: SUPPLEMENTAL_SOURCE_def CITRIX_HEALTH_TAG_def SOURCE_TAG_def)

interpretation cxa: annotator "apply_supplemental hints" CITRIX_HEALTH_TAG for hints
proof
  fix nodes
  show "list_all2 (same_node CITRIX_HEALTH_TAG) nodes (fst (apply_supplemental hints nodes))"
    unfolding apply_supplemental_def using citrix_source_ok by (rule annotate_nodes_supplement)
  show "set (snd (apply_supplemental hints nodes)) \<subseteq> rn_id ` set nodes"
    by (auto simp: apply_supplemental_def annotate_nodes_ids)
qed

end
