(* ===== verification/Dependency_Graph.thy ===== *)
theory Dependency_Graph
  imports Drift Lb_Signals Citrix_Signals Blast_Radius
begin

text \<open>
  The dependency-graph module of \<open>src/modules/dependency_graph/module.py\<close> with the reading of the
  network topology of \<open>topology.py\<close>: the edges derived from backend pools and from dependency packs,
  the single points of failure, and the two optional connectors that annotate the estate. What the
  Azure SDK returns is data: a network is a record of its interfaces, balancers and gateways.
\<close>

section \<open>Network topology\<close>

record backend_pool =
  bp_load_balancer_id :: string
  bp_member_ids :: "string list"
  bp_kind :: string

record nic =
  nic_vm_id :: "string option"
  nic_ip_configurations :: "string option list"

record sdk_balancer =
  sb_id :: "string option"
  sb_pools :: "string option list list"                     \<comment> \<open>ids of the IP configurations of each pool\<close>

record sdk_gateway =
  sg_id :: "string option"
  sg_pools :: "(string option \<times> string option) list list"   \<comment> \<open>IP address and FQDN of each backend\<close>

text \<open>\<open>None\<close>: the client has no \<open>network_interfaces.list_all\<close>.\<close>

record network_client =
  nw_interfaces :: "nic list option"
  nw_balancers :: "sdk_balancer list"
  nw_gateways :: "sdk_gateway list"

fun given :: "string option \<Rightarrow> string option" where
  "given None = None"
| "given (Some s) = (if s = [] then None else Some s)"

definition nic_ipconfig_to_vm_index :: "network_client \<Rightarrow> (string, string) dict" where
  "nic_ipconfig_to_vm_index client =
     (case nw_interfaces client of
        None \<Rightarrow> []
      | Some nics \<Rightarrow>
          foldl (\<lambda>index (ipcfg, vm). dict_set ipcfg vm index) []
            (concat (map (\<lambda>n. case given (nic_vm_id n) of
                None \<Rightarrow> []
              | Some vm \<Rightarrow> map (\<lambda>i. (i, vm)) (List.map_filter given (nic_ip_configurations n))) nics)))"

definition load_balancer_pool_members :: "string option list \<Rightarrow> (string, string) dict \<Rightarrow> string list" where
  "load_balancer_pool_members pool nic_to_vm =
     map (\<lambda>i. case dict_get nic_to_vm i of None \<Rightarrow> i | Some vm \<Rightarrow> vm) (List.map_filter given pool)"

definition app_gateway_pool_members :: "(string option \<times> string option) list \<Rightarrow> string list" where
  "app_gateway_pool_members pool =
     List.map_filter (\<lambda>(ip, fqdn). case given ip of None \<Rightarrow> given fqdn | Some a \<Rightarrow> Some a) pool"

definition load_balancer_pools :: "network_client \<Rightarrow> (string, string) dict \<Rightarrow> backend_pool list" where
  "load_balancer_pools client nic_to_vm =
     concat (map (\<lambda>lb. case given (sb_id lb) of
         None \<Rightarrow> []
       | Some lb_id \<Rightarrow> map (\<lambda>be. \<lparr>bp_load_balancer_id = lb_id,
             bp_member_ids = load_balancer_pool_members be nic_to_vm, bp_kind = ''load_balancer''\<rparr>) (sb_pools lb))
       (nw_balancers client))"

definition app_gateway_pools :: "network_client \<Rightarrow> backend_pool list" where
  "app_gateway_pools client =
     concat (map (\<lambda>gw. case given (sg_id gw) of
         None \<Rightarrow> []
       | Some gw_id \<Rightarrow> map (\<lambda>be. \<lparr>bp_load_balancer_id = gw_id,
             bp_member_ids = app_gateway_pool_members be, bp_kind = ''application_gateway''\<rparr>) (sg_pools gw))
       (nw_gateways client))"

definition azure_backend_pools :: "network_client \<Rightarrow> string \<Rightarrow> backend_pool list" where
  "azure_backend_pools client scope =
     load_balancer_pools client (nic_ipconfig_to_vm_index client) @ app_gateway_pools client"

section \<open>Edges from backend pools\<close>

definition edges_from_backend_pool :: "string \<Rightarrow> string list \<Rightarrow> dependency_edge list" where
  "edges_from_backend_pool lb_id member_ids =
     (let redundant_peers = length member_ids > 1 in
      concat (map (\<lambda>m.
        [\<lparr>de_source = m, de_target = lb_id, de_type = ET_load_balances, de_redundant = False, de_origin = ''auto''\<rparr>,
         \<lparr>de_source = lb_id, de_target = m, de_type = ET_load_balances, de_redundant = redundant_peers,
          de_origin = ''auto''\<rparr>]) member_ids))"

text \<open>The ancestors of a resource id: the id, then each parent, two path segments shorter.\<close>

function parent_paths :: "string list \<Rightarrow> string list list" where
  "parent_paths parts =
     (if length parts > 2
      then take (length parts - 2) parts # parent_paths (take (length parts - 2) parts) else [])"
  by auto
termination by (relation "measure length") auto

declare parent_paths.simps [simp del]

lemma parent_paths_short [simp]: "length parts \<le> 2 \<Longrightarrow> parent_paths parts = []"
  by (simp add: parent_paths.simps)

definition ancestor_ids :: "string \<Rightarrow> string list" where
  "ancestor_ids resource_id =
     resource_id # filter (\<lambda>c. c \<noteq> []) (map (py_join CHR ''/'') (parent_paths (py_split CHR ''/'' resource_id)))"

definition resolve_member :: "string \<Rightarrow> string set \<Rightarrow> string option" where
  "resolve_member member_id node_ids = find (\<lambda>c. c \<in> node_ids) (ancestor_ids member_id)"

definition dedupe_preserving_order :: "string list \<Rightarrow> string list" where
  "dedupe_preserving_order values = dedup_by (\<lambda>v. v) [] values"

text \<open>The edges of one pool, and the references that name no node of the estate.\<close>

definition pool_edges :: "string set \<Rightarrow> backend_pool \<Rightarrow> dependency_edge list \<times> string list" where
  "pool_edges node_ids pool =
     (case resolve_member (bp_load_balancer_id pool) node_ids of
        None \<Rightarrow> ([], [bp_load_balancer_id pool])
      | Some lb_node \<Rightarrow>
          (edges_from_backend_pool lb_node
             (dedupe_preserving_order (List.map_filter (\<lambda>m. resolve_member m node_ids) (bp_member_ids pool))),
           filter (\<lambda>m. resolve_member m node_ids = None) (bp_member_ids pool)))"

text \<open>What is injected under a name: the topology client under \<open>network\<close>, a connector under \<open>citrix\<close>
  and \<open>load_balancer\<close>.\<close>

datatype graph_client = NetworkTopology "string \<Rightarrow> py_exc + backend_pool list" | SignalClient connector

fun as_network :: "graph_client option \<Rightarrow> (string \<Rightarrow> py_exc + backend_pool list) option" where
  "as_network (Some (NetworkTopology f)) = Some f"
| "as_network _ = None"

fun as_connector :: "graph_client option \<Rightarrow> connector option" where
  "as_connector (Some (SignalClient c)) = Some c"
| "as_connector _ = None"

definition pool_scope :: "scope \<Rightarrow> string" where
  "pool_scope scope =
     (case given (dict_get scope ''scope'') of
        Some s \<Rightarrow> s
      | None \<Rightarrow> (case given (dict_get scope ''workload'') of Some w \<Rightarrow> w | None \<Rightarrow> []))"

definition auto_edges ::
  "graph_client module_context \<Rightarrow> scope \<Rightarrow> resource_node list \<Rightarrow> module_exc + dependency_edge list \<times> string list" where
  "auto_edges ctx scope nodes =
     (case as_network (dict_get (mx_clients ctx) ''network'') of
        None \<Rightarrow> Inr ([], [])
      | Some backend_pools \<Rightarrow>
          (case backend_pools (pool_scope scope) of
             Inl e \<Rightarrow> Inl (Raised e)
           | Inr pools \<Rightarrow>
               (let rs = map (pool_edges (rn_id ` set nodes)) pools
                in Inr (concat (map fst rs), dedupe_preserving_order (concat (map snd rs))))))"

section \<open>Edges from dependency packs\<close>

definition role_index :: "resource_node list \<Rightarrow> string \<Rightarrow> string list" where
  "role_index nodes role = map rn_id (filter (\<lambda>n. given (rn_role n) = Some role) nodes)"

definition type_index :: "resource_node list \<Rightarrow> string \<Rightarrow> string list" where
  "type_index nodes rtype = map rn_id (filter (\<lambda>n. rn_type n = rtype) nodes)"

definition resolve_ref :: "resource_node list \<Rightarrow> string \<Rightarrow> string list" where
  "resolve_ref nodes ref =
     (case py_partition CHR '':'' ref of
        (namespace, sep, name) \<Rightarrow>
          if \<not> sep \<or> name = [] then []
          else if namespace = ''role'' then role_index nodes name
          else if namespace = ''id'' then (if name \<in> rn_id ` set nodes then [name] else [])
          else if namespace = ''type'' then type_index nodes name
          else [])"

text \<open>A reference that is no string has no \<open>partition\<close>; that of \<open>bytes\<close> takes no \<open>str\<close>.\<close>

definition resolve_raw_ref :: "resource_node list \<Rightarrow> pyval \<Rightarrow> py_exc + string list" where
  "resolve_raw_ref nodes v =
     (case str_key v of
        Some ref \<Rightarrow> Inr (resolve_ref nodes ref)
      | None \<Rightarrow> Inl (case v of VBytes _ \<Rightarrow> TypeError | _ \<Rightarrow> AttributeError))"

definition coerce_edge_type :: "pyval option \<Rightarrow> edge_type" where
  "coerce_edge_type v =
     (case Option.bind v str_key of
        None \<Rightarrow> ET_depends_on
      | Some s \<Rightarrow> (case edge_type_of s of None \<Rightarrow> ET_depends_on | Some t \<Rightarrow> t))"

text \<open>One declared edge: every pair of nodes its two references name, none to itself.\<close>

definition declared_edges :: "resource_node list \<Rightarrow> string \<Rightarrow> pyval \<Rightarrow> py_exc + dependency_edge list" where
  "declared_edges nodes origin raw =
     (case raw of
        VDict d \<Rightarrow>
          (case (given_val (vget d ''source''), given_val (vget d ''target'')) of
             (Some source, Some target) \<Rightarrow>
               (let etype = coerce_edge_type (vget d ''type'');
                    redundant = (case vget d ''redundant'' of None \<Rightarrow> False | Some v \<Rightarrow> val_truthy v)
                in rbind (resolve_raw_ref nodes source) (\<lambda>srcs.
                   if srcs = [] then Inr []
                   else rbind (resolve_raw_ref nodes target) (\<lambda>tgts.
                     Inr (map (\<lambda>(src, tgt). \<lparr>de_source = src, de_target = tgt, de_type = etype,
                                 de_redundant = redundant, de_origin = origin\<rparr>)
                            (filter (\<lambda>(src, tgt). src \<noteq> tgt) (List.product srcs tgts))))))
           | _ \<Rightarrow> Inr [])
      | _ \<Rightarrow> Inl AttributeError)"

definition edges_from_pack :: "pack \<Rightarrow> resource_node list \<Rightarrow> py_exc + dependency_edge list" where
  "edges_from_pack p nodes =
     (case pk_body p of
        VDict body \<Rightarrow>
          rbind (case vget body ''edges'' of None \<Rightarrow> Inr [] | Some v \<Rightarrow> val_items v) (\<lambda>raws.
          rbind (rseq (map (declared_edges nodes (''pack:'' @ pm_id (pk_manifest p))) raws)) (\<lambda>ess.
            Inr (concat ess)))
      | _ \<Rightarrow> Inl AttributeError)"

text \<open>The packs of a workload are resolved against its own estate only.\<close>

definition workload_pack_edges :: "packs_service \<Rightarrow> string \<Rightarrow> resource_node list \<Rightarrow> module_exc + dependency_edge list" where
  "workload_pack_edges service workload nodes =
     (case service workload PT_dependency of
        Inl e \<Rightarrow> Inl (LoadFailed e)
      | Inr packs \<Rightarrow>
          (case rseq (map (\<lambda>p. edges_from_pack p nodes) packs) of
             Inl e \<Rightarrow> Inl (Raised e)
           | Inr ess \<Rightarrow> Inr (concat ess)))"

definition estate_of :: "(string, resource_node list) dict \<Rightarrow> string \<Rightarrow> resource_node list" where
  "estate_of estates workload = (case dict_get estates workload of None \<Rightarrow> [] | Some nodes \<Rightarrow> nodes)"

definition pack_edges ::
  "graph_client module_context \<Rightarrow> string list \<Rightarrow> (string, resource_node list) dict
     \<Rightarrow> module_exc + dependency_edge list" where
  "pack_edges ctx workloads estates =
     (case mx_packs ctx of
        None \<Rightarrow> Inr []
      | Some service \<Rightarrow>
          rbind (rseq (map (\<lambda>w. workload_pack_edges service w (estate_of estates w)) workloads)) (\<lambda>ess.
            Inr (concat ess)))"

definition dedupe_edges :: "dependency_edge list \<Rightarrow> dependency_edge list" where
  "dedupe_edges edges =
     dedup_by (\<lambda>e. (de_source e, de_target e, edge_type_value (de_type e), de_redundant e, de_origin e)) [] edges"

section \<open>Single points of failure\<close>

definition spof_severity :: "nat \<Rightarrow> severity" where
  "spof_severity radius = (if radius \<ge> 5 then SV_critical else if radius \<ge> 2 then SV_high else SV_medium)"

definition spof_finding :: "int \<Rightarrow> string \<times> nat \<Rightarrow> finding_error + finding" where
  "spof_finding now p =
     (case p of (node_id, radius) \<Rightarrow>
        enforce_provenance
          \<lparr>fd_id = ''spof::'' @ node_id, fd_module = ''dependency_graph'', fd_title = ''Single point of failure'',
           fd_passed = Some False, fd_severity = spof_severity radius, fd_nodeId = Some node_id,
           fd_blastRadius = int radius,
           fd_evidence = [\<lparr>sr_kind = ''resource'', sr_id = node_id,
             sr_detail = Some (''blast radius = '' @ show_nat radius)\<rparr>],
           fd_provenance = PK_structural, fd_packId = None, fd_packVersion = None,
           fd_structuralKind = Some SK_spof,
           fd_detail = Some (''Failure of '' @ node_id @ '' takes down '' @ show_nat radius @ '' dependent node(s).''),
           fd_createdAt = now\<rparr>)"

definition spof_findings :: "int \<Rightarrow> workload_graph \<Rightarrow> int \<Rightarrow> finding_error + finding list" where
  "spof_findings now g threshold =
     rseq (map (spof_finding now) (filter (\<lambda>(_, radius). \<not> int radius < threshold) (rank_spofs g)))"

section \<open>The optional assists\<close>

definition citrix_assist ::
  "connector option \<Rightarrow> resource_node list \<Rightarrow> resource_node list \<times> string option" where
  "citrix_assist client nodes =
     (let unavailable = (\<lambda>cls. ''Citrix assist unavailable ('' @ cls @ ''); estate-only graph'') in
      case client of
        None \<Rightarrow> (nodes, None)
      | Some (Inl cls) \<Rightarrow> (nodes, Some (unavailable cls))
      | Some (Inr result) \<Rightarrow>
          (case citrix_signals_from_result result of
             Inl _ \<Rightarrow> (nodes, Some (unavailable ''CitrixSignalError''))
           | Inr signals \<Rightarrow>
               (case apply_supplemental (cs_health signals) nodes of
                  (applied, annotated) \<Rightarrow>
                    if \<not> fr_available result
                      then (nodes, Some ''Citrix assist unavailable (fail-closed); graph from estate only'')
                    else if annotated = []
                      then (nodes, Some ''Citrix assist returned no usable supplemental health signals'')
                    else (applied, Some (''Citrix assist annotated '' @ show_nat (length annotated) @ '' estate node(s) with ''
                            @ ''supplemental health signals (non-authoritative; dependency edges deferred)'')))))"

definition LB_SUPPLEMENTAL_SOURCE :: string where
  "LB_SUPPLEMENTAL_SOURCE = ''lb''"

definition lb_assist ::
  "(pyval \<Rightarrow> pyfloat option) \<Rightarrow> connector option \<Rightarrow> resource_node list \<Rightarrow> resource_node list \<times> string option" where
  "lb_assist lax_float client nodes =
     (let unavailable = (\<lambda>cls. ''LB assist unavailable ('' @ cls @ ''); estate-only graph'') in
      case client of
        None \<Rightarrow> (nodes, None)
      | Some (Inl cls) \<Rightarrow> (nodes, Some (unavailable cls))
      | Some (Inr result) \<Rightarrow>
          (case lb_signals_from_result lax_float result of
             Inl _ \<Rightarrow> (nodes, Some (unavailable ''LbSignalError''))
           | Inr signals \<Rightarrow>
               (case lb_apply_health LB_SUPPLEMENTAL_SOURCE (aggregate_health (ls_members signals)) nodes of
                  (applied, annotated) \<Rightarrow>
                    if \<not> fr_available result
                      then (nodes, Some ''LB assist unavailable (fail-closed); graph from estate only'')
                    else if annotated = []
                      then (nodes, Some ''LB assist returned no usable supplemental health signals'')
                    else (applied, Some (''LB assist annotated '' @ show_nat (length annotated) @ '' estate node(s) with ''
                            @ ''supplemental health signals (non-authoritative; dependency edges deferred)'')))))"

section \<open>The module\<close>

definition graph_manifest :: module_manifest where
  "graph_manifest =
     \<lparr>mm_name = ''dependency_graph'', mm_displayName = ''Dependency & Blast Radius'', mm_kind = MK_job,
      mm_enabled = True, mm_consumes = [PT_dependency], mm_produces = [''WorkloadGraph'', ''spofs'', ''Finding[]''],
      mm_scaleProfile = \<lparr>sp_kind = MK_job, sp_minReplicas = 0, sp_maxReplicas = 10,
        sp_triggers = [\<lparr>st_type = ''azure-queue'', st_metadata = [(''queueName'', ''dependency'')]\<rparr>],
        sp_cpu = 1 / 2, sp_memoryGi = 1\<rparr>\<rparr>"

definition estate_by_workload :: "readable_state option \<Rightarrow> string list \<Rightarrow> (string, resource_node list) dict" where
  "estate_by_workload state workloads =
     (case state of None \<Rightarrow> [] | Some st \<Rightarrow> map (\<lambda>w. (w, rs_get_estate st w)) workloads)"

definition merge_nodes :: "(string, resource_node list) dict \<Rightarrow> string list \<Rightarrow> resource_node list" where
  "merge_nodes estates workloads = dedup_by rn_id [] (concat (map (estate_of estates) workloads))"

definition repr_list :: "string list \<Rightarrow> string" where
  "repr_list xs = ''['' @ join_str '', '' (map repr_str xs) @ '']''"

definition graph_response ::
  "int \<Rightarrow> string list \<Rightarrow> workload_graph \<Rightarrow> dependency_edge list \<Rightarrow> dependency_edge list \<Rightarrow> string list \<Rightarrow> finding list
     \<Rightarrow> string option \<Rightarrow> string option \<Rightarrow> agent_response" where
  "graph_response now workloads g auto pack unresolved findings citrix_note lb_note =
     (let top = filter (\<lambda>(_, r). r > 0) (take 5 (rank_spofs g)) in
      \<lparr>ag_agentName = ''dependency_graph'', ag_taskType = ''build-graph-and-blast-radius'',
       ag_inputSummary = ''workloads='' @ (if workloads = [] then ''all'' else repr_list workloads)
         @ ''; nodes='' @ show_nat (length (wg_nodes g)) @ ''; edges='' @ show_nat (length (wg_edges g))
         @ '' (auto='' @ show_nat (length auto) @ '', pack='' @ show_nat (length pack) @ ''); ''
         @ ''unresolvedMembers='' @ show_nat (length unresolved),
       ag_findings = [show_nat (length findings) @ '' SPOF(s) identified'']
         @ (case citrix_note of None \<Rightarrow> [] | Some n \<Rightarrow> [n]) @ (case lb_note of None \<Rightarrow> [] | Some n \<Rightarrow> [n]),
       ag_risks = map (\<lambda>(i, r). i @ '': blast radius '' @ show_nat r) top
         @ (if unresolved \<noteq> []
            then [show_nat (length unresolved) @ '' backend-pool member(s) unresolved to estate nodes''] else []),
       ag_recommendations = [],
       ag_sourceReferences = map (\<lambda>(i, r). \<lparr>sr_kind = ''resource'', sr_id = i,
           sr_detail = Some (''blast radius = '' @ show_nat r)\<rparr>) top,
       ag_confidence = 1,
       ag_nextActions = (if findings \<noteq> [] then [''route-findings''] else []),
       ag_generatedAt = now\<rparr>)"

definition graph_run ::
  "(pyval \<Rightarrow> pyfloat option) \<Rightarrow> int \<Rightarrow> graph_client module_context \<Rightarrow> scope option
     \<Rightarrow> module_exc + module_run_result" where
  "graph_run lax_float now ctx scope_opt =
     (let scope = (case scope_opt of None \<Rightarrow> [] | Some sc \<Rightarrow> sc);
          workloads = resolve_workloads (mx_state ctx) scope;
          estates = estate_by_workload (mx_state ctx) workloads;
          (nodes1, citrix_note) = citrix_assist (as_connector (dict_get (mx_clients ctx) ''citrix''))
                                    (merge_nodes estates workloads);
          (nodes, lb_note) = lb_assist lax_float (as_connector (dict_get (mx_clients ctx) ''load_balancer'')) nodes1
      in rbind (auto_edges ctx scope nodes) (\<lambda>(auto, unresolved).
         rbind (pack_edges ctx workloads estates) (\<lambda>pack.
           let g = \<lparr>wg_nodes = nodes, wg_edges = dedupe_edges (auto @ pack)\<rparr> in
           case spof_findings now g 1 of
             Inl e \<Rightarrow> Inl (FindingInvalid e)
           | Inr findings \<Rightarrow>
               Inr \<lparr>mr_module = ''dependency_graph'', mr_ok = True, mr_findings = findings, mr_estate = None,
                    mr_graph = Some g,
                    mr_response = Some (graph_response now workloads g auto pack unresolved findings citrix_note lb_note),
                    mr_extra = [(''topSpofs'',
                        VList (map (\<lambda>(i, r). VTuple [VStr i, VInt (int r)]) (take 5 (rank_spofs g)))),
                      (''unresolvedMembers'', VList (map VStr unresolved))]\<rparr>)))"

definition graph_module :: "(pyval \<Rightarrow> pyfloat option) \<Rightarrow> int \<Rightarrow> graph_client capability_module" where
  "graph_module lax_float now = \<lparr>cm_manifest = graph_manifest, cm_run = graph_run lax_float now\<rparr>"

section \<open>Endpoints are nodes\<close>

definition ends_in :: "string set \<Rightarrow> dependency_edge \<Rightarrow> bool" where
  "ends_in ids e \<longleftrightarrow> de_source e \<in> ids \<and> de_target e \<in> ids"

lemma ends_in_mono: "ends_in A e \<Longrightarrow> A \<subseteq> B \<Longrightarrow> ends_in B e"
  by (auto simp: ends_in_def)

lemma resolve_member_known: "resolve_member m ids = Some x \<Longrightarrow> x \<in> ids"
  by (auto simp: resolve_member_def find_Some_iff)

lemma pool_edges_ends: "e \<in> set (fst (pool_edges ids p)) \<Longrightarrow> ends_in ids e"
  by (auto simp: pool_edges_def edges_from_backend_pool_def Let_def ends_in_def dedupe_preserving_order_def
      dedup_by_id_set map_filter_set dest: resolve_member_known split: option.splits)

lemma auto_edges_ends:
  assumes "auto_edges ctx scope nodes = Inr (auto, unresolved)" and "e \<in> set auto"
  shows "ends_in (rn_id ` set nodes) e"
  using assms pool_edges_ends [of e "rn_id ` set nodes"]
  by (auto simp: auto_edges_def Let_def split: option.splits sum.splits)

lemma resolve_ref_known: "x \<in> set (resolve_ref nodes ref) \<Longrightarrow> x \<in> rn_id ` set nodes"
  by (cases "py_partition CHR '':'' ref")
     (auto simp only: resolve_ref_def role_index_def type_index_def prod.case set_map set_filter list.set empty_iff
       insert_iff image_iff mem_Collect_eq split: if_split_asm)

lemma resolve_raw_ref_known: "resolve_raw_ref nodes v = Inr xs \<Longrightarrow> set xs \<subseteq> rn_id ` set nodes"
  using resolve_ref_known by (auto simp: resolve_raw_ref_def split: option.splits)

lemma declared_edges_ends:
  assumes "declared_edges nodes origin raw = Inr es" and "e \<in> set es"
  shows "ends_in (rn_id ` set nodes) e \<and> de_source e \<noteq> de_target e \<and> de_origin e = origin"
proof (cases raw)
  case (VDict d)
  show ?thesis
  proof (cases "given_val (vget d ''source'')"; cases "given_val (vget d ''target'')")
    fix s t assume st: "given_val (vget d ''source'') = Some s" "given_val (vget d ''target'') = Some t"
    obtain srcs where srcs: "resolve_raw_ref nodes s = Inr srcs"
      using assms st by (cases "resolve_raw_ref nodes s") (simp_all add: declared_edges_def VDict)
    have "srcs \<noteq> []" using assms st srcs by (auto simp: declared_edges_def VDict)
    then obtain tgts where tgts: "resolve_raw_ref nodes t = Inr tgts"
      using assms st srcs by (cases "resolve_raw_ref nodes t") (simp_all add: declared_edges_def VDict)
    have "de_source e \<in> set srcs \<and> de_target e \<in> set tgts \<and> de_source e \<noteq> de_target e \<and> de_origin e = origin"
      using assms st srcs tgts \<open>srcs \<noteq> []\<close> by (auto simp: declared_edges_def VDict)
    then show ?thesis using resolve_raw_ref_known [OF srcs] resolve_raw_ref_known [OF tgts] by (auto simp: ends_in_def)
  qed (use assms VDict in \<open>simp_all add: declared_edges_def\<close>)
qed (use assms in \<open>simp_all add: declared_edges_def\<close>)

lemma edges_from_pack_ends:
  assumes "edges_from_pack p nodes = Inr es" and "e \<in> set es"
  shows "ends_in (rn_id ` set nodes) e \<and> de_source e \<noteq> de_target e \<and> de_origin e = ''pack:'' @ pm_id (pk_manifest p)"
proof -
  obtain body where b: "pk_body p = VDict body" using assms(1) by (cases "pk_body p") (simp_all add: edges_from_pack_def)
  define R where "R = (case vget body ''edges'' of None \<Rightarrow> Inr [] | Some v \<Rightarrow> val_items v)"
  have "rbind R (\<lambda>raws. rbind (rseq (map (declared_edges nodes (''pack:'' @ pm_id (pk_manifest p))) raws))
      (\<lambda>ess. Inr (concat ess))) = Inr es"
    using assms(1) unfolding edges_from_pack_def b pyval.case R_def .
  then obtain raws where "rbind (rseq (map (declared_edges nodes (''pack:'' @ pm_id (pk_manifest p))) raws))
      (\<lambda>ess. Inr (concat ess)) = Inr es" by (cases R) simp_all
  then obtain ess where "rseq (map (declared_edges nodes (''pack:'' @ pm_id (pk_manifest p))) raws) = Inr ess" "es = concat ess"
    by (cases "rseq (map (declared_edges nodes (''pack:'' @ pm_id (pk_manifest p))) raws)") simp_all
  then have "map (declared_edges nodes (''pack:'' @ pm_id (pk_manifest p))) raws = map Inr ess" "es = concat ess"
    unfolding rseq_Inr_iff by blast+
  moreover from this assms(2) obtain i where "i < length ess" "e \<in> set (ess ! i)" by (auto simp: in_set_conv_nth [of _ ess])
  ultimately have "declared_edges nodes (''pack:'' @ pm_id (pk_manifest p)) (raws ! i) = Inr (ess ! i)"
    by (metis length_map nth_map)
  then show ?thesis using \<open>e \<in> set (ess ! i)\<close> by (rule declared_edges_ends)
qed

lemma rseq_concat_mem:
  assumes "rseq (map f xs) = Inr ess" and "e \<in> set (concat ess)"
  shows "\<exists>x \<in> set xs. \<exists>es. f x = Inr es \<and> e \<in> set es"
proof -
  have "list_all2 (\<lambda>x es. f x = Inr es) xs ess" using assms(1) by (simp add: rseq_map_all2)
  then show ?thesis using assms(2) by (induction rule: list_all2_induct) auto
qed

lemma workload_pack_edges_ends:
  assumes "workload_pack_edges service w nodes = Inr es" and "e \<in> set es"
  shows "ends_in (rn_id ` set nodes) e \<and> de_source e \<noteq> de_target e"
proof -
  obtain packs ess where ess: "rseq (map (\<lambda>p. edges_from_pack p nodes) packs) = Inr ess" "es = concat ess"
    using assms(1) by (auto simp: workload_pack_edges_def split: sum.splits)
  show ?thesis using rseq_concat_mem [OF ess(1)] assms(2) ess(2) edges_from_pack_ends by blast
qed

lemma merge_nodes_ids: "rn_id ` set (merge_nodes estates workloads) = rn_id ` (\<Union>w \<in> set workloads. set (estate_of estates w))"
  by (simp add: merge_nodes_def dedup_by_keys)

lemma pack_edges_ends:
  assumes "pack_edges ctx workloads estates = Inr es" and "e \<in> set es"
  shows "ends_in (rn_id ` set (merge_nodes estates workloads)) e \<and> de_source e \<noteq> de_target e"
proof (cases "mx_packs ctx")
  case None
  then show ?thesis using assms by (simp add: pack_edges_def)
next
  case (Some service)
  then obtain ess where ess: "rseq (map (\<lambda>w. workload_pack_edges service w (estate_of estates w)) workloads) = Inr ess"
    "es = concat ess" using assms(1) by (auto simp: pack_edges_def rbind_Inr_iff)
  obtain w es' where w: "w \<in> set workloads" "workload_pack_edges service w (estate_of estates w) = Inr es'" "e \<in> set es'"
    using rseq_concat_mem [OF ess(1)] assms(2) ess(2) by blast
  have "rn_id ` set (estate_of estates w) \<subseteq> rn_id ` set (merge_nodes estates workloads)"
    unfolding merge_nodes_ids using w(1) by blast
  then show ?thesis using workload_pack_edges_ends [OF w(2,3)] ends_in_mono by blast
qed

section \<open>The assists supplement the estate\<close>

definition supplemented :: "resource_node \<Rightarrow> resource_node \<Rightarrow> bool" where
  "supplemented a b \<longleftrightarrow>
     a\<lparr>rn_tags := []\<rparr> = b\<lparr>rn_tags := []\<rparr>
     \<and> (\<forall>k. k \<notin> {SOURCE_TAG, CITRIX_HEALTH_TAG, LB_HEALTH_TAG} \<longrightarrow> dict_get (rn_tags b) k = dict_get (rn_tags a) k)
     \<and> sources_of (rn_tags a) \<subseteq> sources_of (rn_tags b)"

lemma same_node_supplemented:
  "same_node CITRIX_HEALTH_TAG a b \<Longrightarrow> same_node LB_HEALTH_TAG b c \<Longrightarrow> supplemented a c"
  by (auto simp: same_node_def supplemented_def)

lemma citrix_assist_cases:
  "fst (citrix_assist client nodes) = nodes \<or> (\<exists>hints. fst (citrix_assist client nodes) = fst (apply_supplemental hints nodes))"
proof (cases client)
  case (Some c)
  show ?thesis
  proof (cases c)
    case (Inr result)
    show ?thesis
    proof (cases "citrix_signals_from_result result")
      case signals: (Inr s)
      show ?thesis
        by (cases "apply_supplemental (cs_health s) nodes") (auto simp: citrix_assist_def Let_def Some Inr signals intro!: exI [of _ "cs_health s"])
    qed (simp add: citrix_assist_def Some Inr)
  qed (simp add: citrix_assist_def Some)
qed (simp add: citrix_assist_def)

lemma lb_assist_cases:
  "fst (lb_assist lf client nodes) = nodes \<or> (\<exists>agg. fst (lb_assist lf client nodes) = fst (lb_apply_health ''lb'' agg nodes))"
proof (cases client)
  case (Some c)
  show ?thesis
  proof (cases c)
    case (Inr result)
    show ?thesis
    proof (cases "lb_signals_from_result lf result")
      case signals: (Inr s)
      show ?thesis
        by (cases "lb_apply_health ''lb'' (aggregate_health (ls_members s)) nodes")
          (auto simp: lb_assist_def LB_SUPPLEMENTAL_SOURCE_def Let_def Some Inr signals
            intro!: exI [of _ "aggregate_health (ls_members s)"])
    qed (simp add: lb_assist_def Some Inr)
  qed (simp add: lb_assist_def Some)
qed (simp add: lb_assist_def)

lemma citrix_assist_supplements: "list_all2 (same_node CITRIX_HEALTH_TAG) nodes (fst (citrix_assist client nodes))"
  using citrix_assist_cases [of client nodes] cxa.supplement_only [of nodes] by (auto simp: list_all2_refl)

lemma lb_assist_supplements: "list_all2 (same_node LB_HEALTH_TAG) nodes (fst (lb_assist lf client nodes))"
  using lb_assist_cases [of lf client nodes] lba.supplement_only [of nodes] by (auto simp: list_all2_refl)

text \<open>The nodes a run builds its graph on.\<close>

definition assisted_nodes ::
  "(pyval \<Rightarrow> pyfloat option) \<Rightarrow> graph_client module_context \<Rightarrow> resource_node list \<Rightarrow> resource_node list" where
  "assisted_nodes lf ctx nodes =
     fst (lb_assist lf (as_connector (dict_get (mx_clients ctx) ''load_balancer''))
       (fst (citrix_assist (as_connector (dict_get (mx_clients ctx) ''citrix'')) nodes)))"

lemma assisted_nodes_supplement: "list_all2 supplemented nodes (assisted_nodes lf ctx nodes)"
  unfolding assisted_nodes_def
  by (rule list_all2_trans [OF same_node_supplemented citrix_assist_supplements lb_assist_supplements])

lemma same_node_ids: "list_all2 (same_node t) as bs \<Longrightarrow> map rn_id bs = map rn_id as"
  by (induction rule: list_all2_induct) (simp_all add: same_node_id)

lemma assisted_nodes_ids: "map rn_id (assisted_nodes lf ctx nodes) = map rn_id nodes"
  unfolding assisted_nodes_def
  using same_node_ids [OF lb_assist_supplements] same_node_ids [OF citrix_assist_supplements] by metis

section \<open>What a run returns\<close>

definition scope_of :: "scope option \<Rightarrow> scope" where
  "scope_of so = (case so of None \<Rightarrow> [] | Some sc \<Rightarrow> sc)"

definition run_workloads :: "graph_client module_context \<Rightarrow> scope option \<Rightarrow> string list" where
  "run_workloads ctx so = resolve_workloads (mx_state ctx) (scope_of so)"

definition run_estates :: "graph_client module_context \<Rightarrow> scope option \<Rightarrow> (string, resource_node list) dict" where
  "run_estates ctx so = estate_by_workload (mx_state ctx) (run_workloads ctx so)"

definition run_estate :: "graph_client module_context \<Rightarrow> scope option \<Rightarrow> resource_node list" where
  "run_estate ctx so = merge_nodes (run_estates ctx so) (run_workloads ctx so)"

lemma auto_edges_ids:
  "map rn_id nodes = map rn_id nodes' \<Longrightarrow> auto_edges ctx scope nodes = auto_edges ctx scope nodes'"
  unfolding auto_edges_def by (metis list.set_map)

lemma spof_finding_Inr:
  "\<exists>f. spof_finding now (i, n) = Inr f \<and> fd_nodeId f = Some i \<and> fd_blastRadius f = int n
     \<and> fd_severity f = spof_severity n \<and> fd_passed f = Some False \<and> map sr_id (fd_evidence f) = [i] \<and> provenance_complete f"
  by (simp add: spof_finding_def enforce_provenance_def STRUCTURAL_FINDING_EMITTERS_def provenance_complete_def)

lemma spof_findings_all2:
  "\<exists>fs. spof_findings now g t = Inr fs
     \<and> list_all2 (\<lambda>p f. spof_finding now p = Inr f) (filter (\<lambda>(_, radius). \<not> int radius < t) (rank_spofs g)) fs"
proof -
  have "\<exists>fs. rseq (map (spof_finding now) ps) = Inr fs" for ps
  proof (induction ps)
    case (Cons p ps)
    obtain f where "spof_finding now p = Inr f" using spof_finding_Inr by (cases p) blast
    then show ?case using Cons by auto
  qed simp
  then show ?thesis by (metis spof_findings_def rseq_map_all2)
qed

text \<open>A run in one equation: the parts it is made of, and the result they determine.\<close>

definition run_result ::
  "int \<Rightarrow> string list \<Rightarrow> resource_node list \<Rightarrow> dependency_edge list \<times> string list \<Rightarrow> dependency_edge list
     \<Rightarrow> string option \<Rightarrow> string option \<Rightarrow> module_run_result" where
  "run_result now workloads nodes auto pack cn bn =
     (let g = \<lparr>wg_nodes = nodes, wg_edges = dedupe_edges (fst auto @ pack)\<rparr>;
          findings = (case spof_findings now g 1 of Inr fs \<Rightarrow> fs | Inl _ \<Rightarrow> [])
      in \<lparr>mr_module = ''dependency_graph'', mr_ok = True, mr_findings = findings, mr_estate = None, mr_graph = Some g,
          mr_response = Some (graph_response now workloads g (fst auto) pack (snd auto) findings cn bn),
          mr_extra = [(''topSpofs'', VList (map (\<lambda>(i, r). VTuple [VStr i, VInt (int r)]) (take 5 (rank_spofs g)))),
                      (''unresolvedMembers'', VList (map VStr (snd auto)))]\<rparr>)"

lemma graph_run_eq:
  "\<exists>cn bn. graph_run lf now ctx so =
     rbind (auto_edges ctx (scope_of so) (run_estate ctx so)) (\<lambda>auto.
     rbind (pack_edges ctx (run_workloads ctx so) (run_estates ctx so)) (\<lambda>pack.
       Inr (run_result now (run_workloads ctx so) (assisted_nodes lf ctx (run_estate ctx so)) auto pack cn bn)))"
proof -
  obtain n1 cn where c: "citrix_assist (as_connector (dict_get (mx_clients ctx) ''citrix'')) (run_estate ctx so) = (n1, cn)"
    by (cases "citrix_assist (as_connector (dict_get (mx_clients ctx) ''citrix'')) (run_estate ctx so)")
  obtain n bn where l: "lb_assist lf (as_connector (dict_get (mx_clients ctx) ''load_balancer'')) n1 = (n, bn)"
    by (cases "lb_assist lf (as_connector (dict_get (mx_clients ctx) ''load_balancer'')) n1")
  have n: "assisted_nodes lf ctx (run_estate ctx so) = n" by (simp add: assisted_nodes_def c l)
  have a: "auto_edges ctx (scope_of so) n = auto_edges ctx (scope_of so) (run_estate ctx so)"
    using assisted_nodes_ids [of lf ctx "run_estate ctx so"] by (intro auto_edges_ids) (simp add: n)
  have s: "(case spof_findings now g 1 of Inl e \<Rightarrow> Inl (FindingInvalid e) | Inr fs \<Rightarrow> Inr (k fs))
      = Inr (k (case spof_findings now g 1 of Inr fs \<Rightarrow> fs | Inl _ \<Rightarrow> []))" for g k
    using spof_findings_all2 [of now g 1] by auto
  show ?thesis
    unfolding n
    by (rule exI [of _ cn], rule exI [of _ bn])
      (simp add: graph_run_def c l a s run_result_def Let_def split_beta
        flip: scope_of_def run_workloads_def run_estates_def run_estate_def,
       cases "auto_edges ctx (scope_of so) (run_estate ctx so)", simp_all add: split_beta)
qed

lemma graph_run_Inr:
  assumes "graph_run lf now ctx so = Inr r"
  shows "\<exists>auto pack cn bn. auto_edges ctx (scope_of so) (run_estate ctx so) = Inr auto
     \<and> pack_edges ctx (run_workloads ctx so) (run_estates ctx so) = Inr pack
     \<and> r = run_result now (run_workloads ctx so) (assisted_nodes lf ctx (run_estate ctx so)) auto pack cn bn"
proof -
  obtain cn bn where eq: "graph_run lf now ctx so =
     rbind (auto_edges ctx (scope_of so) (run_estate ctx so)) (\<lambda>auto.
     rbind (pack_edges ctx (run_workloads ctx so) (run_estates ctx so)) (\<lambda>pack.
       Inr (run_result now (run_workloads ctx so) (assisted_nodes lf ctx (run_estate ctx so)) auto pack cn bn)))"
    using graph_run_eq by blast
  show ?thesis using assms unfolding eq rbind_Inr_iff by blast
qed

lemma run_result_graph [simp]:
  "mr_graph (run_result now ws nodes auto pack cn bn) = Some \<lparr>wg_nodes = nodes, wg_edges = dedupe_edges (fst auto @ pack)\<rparr>"
  by (simp add: run_result_def Let_def)

lemma dedupe_edges_set: "set (dedupe_edges es) = set es"
  unfolding dedupe_edges_def
  by (rule dedup_by_same) (auto simp: edge_type_value_inj intro: dependency_edge.equality)

lemma dedupe_edges_distinct: "distinct (dedupe_edges es)"
  unfolding dedupe_edges_def using dedup_by_distinct distinct_map by blast

text \<open>C33: the graph a run persists is well formed: its nodes are those of the workloads' estates, each
  id once, in order; every edge joins two of its nodes, whatever the network topology and the packs
  name; and no edge is listed twice.\<close>

theorem graph_well_formed:
  assumes "graph_run lf now ctx so = Inr r"
  shows "\<exists>g. mr_graph r = Some g
     \<and> map rn_id (wg_nodes g) = map rn_id (run_estate ctx so)
     \<and> distinct (map rn_id (wg_nodes g)) \<and> distinct (wg_edges g)
     \<and> list_all (ends_in (rn_id ` set (wg_nodes g))) (wg_edges g)"
proof -
  obtain auto pack cn bn where a: "auto_edges ctx (scope_of so) (run_estate ctx so) = Inr auto"
    and p: "pack_edges ctx (run_workloads ctx so) (run_estates ctx so) = Inr pack"
    and r: "r = run_result now (run_workloads ctx so) (assisted_nodes lf ctx (run_estate ctx so)) auto pack cn bn"
    using graph_run_Inr [OF assms] by blast
  have ids: "map rn_id (assisted_nodes lf ctx (run_estate ctx so)) = map rn_id (run_estate ctx so)"
    by (rule assisted_nodes_ids)
  have "ends_in (rn_id ` set (run_estate ctx so)) e" if "e \<in> set (fst auto @ pack)" for e
    using that a p auto_edges_ends [of ctx "scope_of so" "run_estate ctx so" "fst auto" "snd auto" e] pack_edges_ends
    by (auto simp: run_estate_def)
  moreover have "distinct (map rn_id (run_estate ctx so))"
    by (simp add: run_estate_def merge_nodes_def dedup_by_distinct)
  moreover have "rn_id ` set (assisted_nodes lf ctx (run_estate ctx so)) = rn_id ` set (run_estate ctx so)"
    using ids by (metis list.set_map)
  ultimately show ?thesis
    by (simp add: r ids dedupe_edges_distinct list_all_iff dedupe_edges_set)
qed

text \<open>A workload of a balancer and two machines, read from a state and a network.\<close>

definition sample_node :: "string \<Rightarrow> resource_node" where
  "sample_node i = \<lparr>rn_id = i, rn_name = i, rn_type = ''vm'', rn_workload = None, rn_tier = None, rn_role = None, rn_tags = []\<rparr>"

definition sample_context :: "graph_client module_context" where
  "sample_context =
     \<lparr>mx_packs = None,
      mx_state = Some \<lparr>rs_list_workloads = [''w''], rs_get_estate = (\<lambda>_. map sample_node [''lb'', ''a'', ''b'']),
        rs_get_graph = (\<lambda>_. None), rs_get_findings = (\<lambda>_ _. Inr []), rs_get_previous_findings = (\<lambda>_. Inr []),
        rs_get_previous_node_ids = (\<lambda>_. [])\<rparr>,
      mx_config = [],
      mx_clients = [(''network'', NetworkTopology (\<lambda>_. Inr
        [\<lparr>bp_load_balancer_id = ''lb'', bp_member_ids = [''a'', ''b'', ''ghost''], bp_kind = ''load_balancer''\<rparr>]))]\<rparr>"

lemma sample_run_estate: "run_estate sample_context None = map sample_node [''lb'', ''a'', ''b'']"
  by (simp add: run_estate_def run_estates_def run_workloads_def scope_of_def resolve_workloads_def
      scoped_workload_def sample_context_def estate_by_workload_def merge_nodes_def estate_of_def sample_node_def)

lemma sample_graph_run: "\<exists>r. graph_run lf now sample_context None = Inr r"
proof -
  obtain cn bn where "graph_run lf now sample_context None =
     rbind (auto_edges sample_context (scope_of None) (run_estate sample_context None)) (\<lambda>auto.
     rbind (pack_edges sample_context (run_workloads sample_context None) (run_estates sample_context None)) (\<lambda>pack.
       Inr (run_result now (run_workloads sample_context None)
              (assisted_nodes lf sample_context (run_estate sample_context None)) auto pack cn bn)))"
    using graph_run_eq by blast
  then show ?thesis by (simp add: auto_edges_def pack_edges_def sample_context_def Let_def)
qed

lemma graph_well_formed_witness:
  "\<exists>r g. graph_run (\<lambda>_. None) 0 sample_context None = Inr r \<and> mr_graph r = Some g
     \<and> map rn_id (wg_nodes g) = [''lb'', ''a'', ''b''] \<and> list_all (ends_in {''lb'', ''a'', ''b''}) (wg_edges g)"
proof -
  obtain r where r: "graph_run (\<lambda>_. None) 0 sample_context None = Inr r" using sample_graph_run by blast
  from graph_well_formed [OF r] obtain g where g: "mr_graph r = Some g"
    "map rn_id (wg_nodes g) = [''lb'', ''a'', ''b'']" "list_all (ends_in (rn_id ` set (wg_nodes g))) (wg_edges g)"
    by (auto simp: sample_run_estate sample_node_def)
  moreover have "rn_id ` set (wg_nodes g) = {''lb'', ''a'', ''b''}"
    using g(2) by (metis list.set(1,2) list.set_map)
  ultimately show ?thesis using r by auto
qed

section \<open>Single points of failure, exactly\<close>

lemma rank_spofs_set: "set (rank_spofs g) = {(i, blast_radius g i) |i. i \<in> rn_id ` set (wg_nodes g)}"
  by (auto simp: rank_spofs_def)

text \<open>a finding is raised for exactly the nodes whose failure takes at least the threshold of other
  nodes down (critical from five, high from two, medium below), in the order of their radius, worst
  first; each cites its node as evidence, carries the provenance of a structural finding, and none is
  ever refused.\<close>

theorem spof_findings_exact:
  "\<exists>fs. spof_findings now g threshold = Inr fs
     \<and> fd_nodeId ` set fs = Some ` {i \<in> rn_id ` set (wg_nodes g). int (card {m. m \<noteq> i \<and> goes_down (wg_edges g) i m}) \<ge> threshold}
     \<and> list_all (\<lambda>f. provenance_complete f \<and> fd_passed f = Some False \<and> map sr_id (fd_evidence f) = [the (fd_nodeId f)]
          \<and> fd_blastRadius f = int (card {m. m \<noteq> the (fd_nodeId f) \<and> goes_down (wg_edges g) (the (fd_nodeId f)) m})
          \<and> fd_severity f = (if fd_blastRadius f \<ge> 5 then SV_critical else if fd_blastRadius f \<ge> 2 then SV_high else SV_medium)) fs
     \<and> sorted_wrt (\<lambda>a b. fd_blastRadius a \<ge> fd_blastRadius b) fs"
proof -
  let ?ps = "filter (\<lambda>(_, radius). \<not> int radius < threshold) (rank_spofs g)"
  obtain fs where fs: "spof_findings now g threshold = Inr fs" and all2: "list_all2 (\<lambda>p f. spof_finding now p = Inr f) ?ps fs"
    using spof_findings_all2 by blast
  have fields: "spof_finding now p = Inr f \<Longrightarrow> fd_nodeId f = Some (fst p) \<and> fd_blastRadius f = int (snd p)
      \<and> fd_severity f = spof_severity (snd p) \<and> fd_passed f = Some False \<and> map sr_id (fd_evidence f) = [fst p]
      \<and> provenance_complete f" for p f
    using spof_finding_Inr [of now "fst p" "snd p"] by auto
  have "map fd_nodeId fs = map (Some \<circ> fst) ?ps" "map fd_blastRadius fs = map (int \<circ> snd) ?ps"
    using all2 by (induction rule: list_all2_induct) (auto dest: fields)
  note ids = this(1) and radii = this(2)
  have mem: "\<exists>p \<in> set ?ps. spof_finding now p = Inr f" if "f \<in> set fs" for f
    using all2 that by (induction rule: list_all2_induct) auto
  have "fd_nodeId ` set fs = (Some \<circ> fst) ` set ?ps" using ids by (metis list.set_map)
  also have "\<dots> = Some ` {i \<in> rn_id ` set (wg_nodes g). int (card {m. m \<noteq> i \<and> goes_down (wg_edges g) i m}) \<ge> threshold}"
    by (force simp: rank_spofs_set blast_radius_eq_card)
  finally have 1: "fd_nodeId ` set fs = \<dots>" .
  have 2: "provenance_complete f \<and> fd_passed f = Some False \<and> map sr_id (fd_evidence f) = [the (fd_nodeId f)]
      \<and> fd_blastRadius f = int (card {m. m \<noteq> the (fd_nodeId f) \<and> goes_down (wg_edges g) (the (fd_nodeId f)) m})
      \<and> fd_severity f = (if fd_blastRadius f \<ge> 5 then SV_critical else if fd_blastRadius f \<ge> 2 then SV_high else SV_medium)"
    if f: "f \<in> set fs" for f
  proof -
    obtain p where p: "p \<in> set ?ps" "spof_finding now p = Inr f" using mem [OF f] by blast
    then have "snd p = blast_radius g (fst p)" by (auto simp: rank_spofs_set)
    then show ?thesis using fields [OF p(2)] by (simp add: spof_severity_def blast_radius_eq_card)
  qed
  have "sorted_wrt (\<lambda>p q. snd p \<ge> snd q) ?ps"
    by (rule sorted_wrt_filter) (simp add: rank_spofs_def sort_key_neg_sorted)
  then have "sorted_wrt (\<ge>) (map (int \<circ> snd) ?ps)" by (simp add: sorted_wrt_map)
  then have 3: "sorted_wrt (\<lambda>a b. fd_blastRadius a \<ge> fd_blastRadius b) fs"
    unfolding radii [symmetric] by (simp add: sorted_wrt_map)
  show ?thesis using fs 1 2 3 by (simp add: list_all_iff)
qed

section \<open>The connectors do not touch the graph's structure\<close>

text \<open>The impact of a failure depends on the ids of the nodes only.\<close>

lemma rank_spofs_ids:
  assumes "map rn_id (wg_nodes g) = map rn_id (wg_nodes h)" and "wg_edges g = wg_edges h"
  shows "rank_spofs g = rank_spofs h"
proof -
  have "blast_radius g i = blast_radius h i" for i
    by (simp add: blast_radius_eq_card assms(2))
  moreover have "map (\<lambda>n. (rn_id n, f (rn_id n))) (wg_nodes g) = map (\<lambda>n. (rn_id n, f (rn_id n))) (wg_nodes h)" for f :: "string \<Rightarrow> nat"
    using arg_cong [OF assms(1), of "map (\<lambda>i. (i, f i))"] by (simp add: o_def)
  ultimately show ?thesis by (simp add: rank_spofs_def)
qed

text \<open>C35: whatever the optional connectors return, raise or smuggle in, a run with them fails exactly
  when the run without them fails, with the same error; and otherwise it has the same edges, findings
  and single points of failure, and its nodes are those of the run without, in order, with every
  authoritative field and every tag but the connectors' own three.\<close>

theorem assists_leave_structure:
  "rel_sum (=) (\<lambda>r0 r. mr_findings r = mr_findings r0 \<and> mr_extra r = mr_extra r0
       \<and> rel_option (\<lambda>g0 g. wg_edges g = wg_edges g0 \<and> list_all2 supplemented (wg_nodes g0) (wg_nodes g))
           (mr_graph r0) (mr_graph r))
     (graph_run lf now (ctx\<lparr>mx_clients := filter (\<lambda>(k, _). k = ''network'') (mx_clients ctx)\<rparr>) so)
     (graph_run lf now ctx so)"
proof -
  let ?bare = "ctx\<lparr>mx_clients := filter (\<lambda>(k, _). k = ''network'') (mx_clients ctx)\<rparr>"
  let ?ns = "run_estate ctx so"
  have get: "dict_get (filter (\<lambda>(k, _). k = ''network'') cs) k = (if k = ''network'' then dict_get cs k else None)"
    for cs :: "(string, graph_client) dict" and k by (induction cs) auto
  have same: "run_workloads ?bare so = run_workloads ctx so" "run_estates ?bare so = run_estates ctx so"
    "run_estate ?bare so = ?ns"
    by (simp_all add: run_workloads_def run_estates_def run_estate_def)
  have a: "auto_edges ?bare (scope_of so) ?ns = auto_edges ctx (scope_of so) ?ns"
    and p: "pack_edges ?bare ws es = pack_edges ctx ws es" for ws es
    by (simp_all add: auto_edges_def pack_edges_def get)
  have n: "assisted_nodes lf ?bare ?ns = ?ns"
    by (simp add: assisted_nodes_def get citrix_assist_def lb_assist_def)
  obtain cn bn where eq: "graph_run lf now ctx so =
     rbind (auto_edges ctx (scope_of so) ?ns) (\<lambda>auto.
     rbind (pack_edges ctx (run_workloads ctx so) (run_estates ctx so)) (\<lambda>pack.
       Inr (run_result now (run_workloads ctx so) (assisted_nodes lf ctx ?ns) auto pack cn bn)))"
    using graph_run_eq by blast
  obtain cn' bn' where eq': "graph_run lf now ?bare so =
     rbind (auto_edges ctx (scope_of so) ?ns) (\<lambda>auto.
     rbind (pack_edges ctx (run_workloads ctx so) (run_estates ctx so)) (\<lambda>pack.
       Inr (run_result now (run_workloads ctx so) ?ns auto pack cn' bn')))"
    using graph_run_eq [of lf now ?bare so] unfolding same a p n by blast
  have ids: "map rn_id (assisted_nodes lf ctx ?ns) = map rn_id ?ns" by (rule assisted_nodes_ids)
  have rank: "rank_spofs \<lparr>wg_nodes = assisted_nodes lf ctx ?ns, wg_edges = es\<rparr> = rank_spofs \<lparr>wg_nodes = ?ns, wg_edges = es\<rparr>" for es
    using rank_spofs_ids ids by (metis workload_graph.select_convs)
  show ?thesis
    unfolding eq eq'
    by (cases "auto_edges ctx (scope_of so) ?ns"; cases "pack_edges ctx (run_workloads ctx so) (run_estates ctx so)")
      (auto simp: run_result_def Let_def rank spof_findings_def assisted_nodes_supplement)
qed

section \<open>A balancer is the single point of failure of its pool\<close>

text \<open>The members of a pool, resolved to nodes of the estate.\<close>

definition resolved_members :: "string set \<Rightarrow> backend_pool \<Rightarrow> string set" where
  "resolved_members ids pool = {v. \<exists>m \<in> set (bp_member_ids pool). resolve_member m ids = Some v}"

lemma pool_edges_in:
  assumes "resolve_member (bp_load_balancer_id pool) ids = Some lb" and "v \<in> resolved_members ids pool"
  shows "\<exists>e \<in> set (fst (pool_edges ids pool)). de_source e = v \<and> de_target e = lb \<and> \<not> de_redundant e"
    and "\<exists>e \<in> set (fst (pool_edges ids pool)). de_source e = lb \<and> de_target e = v
           \<and> (de_redundant e \<longleftrightarrow> card (resolved_members ids pool) > 1)"
proof -
  let ?ms = "dedupe_preserving_order (List.map_filter (\<lambda>m. resolve_member m ids) (bp_member_ids pool))"
  have set: "set ?ms = resolved_members ids pool"
    by (simp add: dedupe_preserving_order_def dedup_by_id_set map_filter_set resolved_members_def)
  have "distinct ?ms" using dedup_by_distinct [of "\<lambda>v. v"] by (simp add: dedupe_preserving_order_def)
  then have "length ?ms = card (resolved_members ids pool)" using set distinct_card by metis
  then show "\<exists>e \<in> set (fst (pool_edges ids pool)). de_source e = v \<and> de_target e = lb \<and> \<not> de_redundant e"
    and "\<exists>e \<in> set (fst (pool_edges ids pool)). de_source e = lb \<and> de_target e = v
           \<and> (de_redundant e \<longleftrightarrow> card (resolved_members ids pool) > 1)"
    using assms set by (auto simp: pool_edges_def edges_from_backend_pool_def Let_def)
qed

lemma auto_edge_in_graph:
  assumes "graph_run lf now ctx so = Inr r" and "mr_graph r = Some g"
    and "as_network (dict_get (mx_clients ctx) ''network'') = Some backend_pools"
    and "backend_pools (pool_scope (scope_of so)) = Inr pools" and "pool \<in> set pools"
    and "e \<in> set (fst (pool_edges (rn_id ` set (wg_nodes g)) pool))"
  shows "e \<in> set (wg_edges g)"
proof -
  obtain auto pack cn bn where a: "auto_edges ctx (scope_of so) (run_estate ctx so) = Inr auto"
    and r: "r = run_result now (run_workloads ctx so) (assisted_nodes lf ctx (run_estate ctx so)) auto pack cn bn"
    using graph_run_Inr [OF assms(1)] by blast
  have "map rn_id (wg_nodes g) = map rn_id (run_estate ctx so)"
    using assms(2) assisted_nodes_ids [of lf ctx "run_estate ctx so"] by (auto simp: r)
  from arg_cong [OF this, of set] have "rn_id ` set (wg_nodes g) = rn_id ` set (run_estate ctx so)" by simp
  then have "e \<in> set (fst auto)"
    using a assms(3-6) by (auto simp: auto_edges_def Let_def)
  then show ?thesis using assms(2) by (auto simp: r dedupe_edges_set)
qed

text \<open>C34: composed with the impact computation, the edges derived from the network make every balancer
  the single point of failure it is: in the graph a run returns, failing the balancer of a pool takes
  every member of the pool down that resolves to a node of the estate, so its blast radius is at least
  the number of those other than itself.\<close>

theorem balancer_downs_pool:
  assumes "graph_run lf now ctx so = Inr r" and "mr_graph r = Some g"
    and "as_network (dict_get (mx_clients ctx) ''network'') = Some backend_pools"
    and "backend_pools (pool_scope (scope_of so)) = Inr pools" and "pool \<in> set pools"
    and "resolve_member (bp_load_balancer_id pool) (rn_id ` set (wg_nodes g)) = Some lb"
  shows "(\<forall>v \<in> resolved_members (rn_id ` set (wg_nodes g)) pool. dict_get (compute_impact g lb) v = Some HS_down)
     \<and> card (resolved_members (rn_id ` set (wg_nodes g)) pool - {lb}) \<le> blast_radius g lb"
proof -
  have down: "goes_down (wg_edges g) lb v" if v: "v \<in> resolved_members (rn_id ` set (wg_nodes g)) pool" for v
  proof -
    obtain e where e: "e \<in> set (fst (pool_edges (rn_id ` set (wg_nodes g)) pool))" "de_source e = v" "de_target e = lb"
      "\<not> de_redundant e" using pool_edges_in(1) [OF assms(6) v] by blast
    have "e \<in> set (wg_edges g)" using auto_edge_in_graph [OF assms(1-5) e(1)] .
    then have "goes_down (wg_edges g) lb (de_source e)"
      using e(3,4) by (intro goes_down.depends) (simp_all add: goes_down.failed)
    then show ?thesis using e(2) by simp
  qed
  have "resolved_members (rn_id ` set (wg_nodes g)) pool - {lb} \<subseteq> {m. m \<noteq> lb \<and> goes_down (wg_edges g) lb m}"
    using down by blast
  then have "card (resolved_members (rn_id ` set (wg_nodes g)) pool - {lb}) \<le> blast_radius g lb"
    unfolding blast_radius_eq_card by (intro card_mono goes_down_finite)
  with down show ?thesis using compute_impact_spec by (auto simp: impact_spec_def)
qed

lemma balancer_downs_pool_witness:
  "\<exists>r g. graph_run (\<lambda>_. None) 0 sample_context None = Inr r \<and> mr_graph r = Some g
     \<and> dict_get (compute_impact g ''lb'') ''a'' = Some HS_down \<and> 2 \<le> blast_radius g ''lb''"
proof -
  obtain r where r: "graph_run (\<lambda>_. None) 0 sample_context None = Inr r" using sample_graph_run by blast
  obtain auto pack cn bn where rr: "r = run_result 0 (run_workloads sample_context None)
      (assisted_nodes (\<lambda>_. None) sample_context (run_estate sample_context None)) auto pack cn bn"
    using graph_run_Inr [OF r] by blast
  then obtain g where g: "mr_graph r = Some g"
    and "map rn_id (wg_nodes g) = map rn_id (run_estate sample_context None)"
    using assisted_nodes_ids [of "\<lambda>_. None" sample_context "run_estate sample_context None"] by simp
  then have "map rn_id (wg_nodes g) = [''lb'', ''a'', ''b'']" by (simp add: sample_run_estate sample_node_def)
  then have ids: "rn_id ` set (wg_nodes g) = {''lb'', ''a'', ''b''}" by (metis list.set(1,2) list.set_map)
  have members: "resolved_members {''lb'', ''a'', ''b''}
      \<lparr>bp_load_balancer_id = ''lb'', bp_member_ids = [''a'', ''b'', ''ghost''], bp_kind = ''load_balancer''\<rparr> = {''a'', ''b''}"
    by (auto simp: resolved_members_def resolve_member_def ancestor_ids_def)
  have "resolve_member ''lb'' {''lb'', ''a'', ''b''} = Some ''lb''" by (simp add: resolve_member_def ancestor_ids_def)
  then show ?thesis
    using balancer_downs_pool [OF r g, of "\<lambda>_. Inr [\<lparr>bp_load_balancer_id = ''lb'', bp_member_ids = [''a'', ''b'', ''ghost''],
        bp_kind = ''load_balancer''\<rparr>]", OF _ refl, of _ "''lb''"] r g
    by (auto simp: ids members sample_context_def)
qed

text \<open>Losing one of several members only degrades the balancer: the edge back is redundant.\<close>

lemma balancer_edge_redundant:
  assumes "graph_run lf now ctx so = Inr r" and "mr_graph r = Some g"
    and "as_network (dict_get (mx_clients ctx) ''network'') = Some backend_pools"
    and "backend_pools (pool_scope (scope_of so)) = Inr pools" and "pool \<in> set pools"
    and "resolve_member (bp_load_balancer_id pool) (rn_id ` set (wg_nodes g)) = Some lb"
    and "v \<in> resolved_members (rn_id ` set (wg_nodes g)) pool"
  shows "dict_get (compute_impact g v) lb \<in> {Some HS_down, Some HS_degraded}"
proof -
  obtain e where e: "e \<in> set (fst (pool_edges (rn_id ` set (wg_nodes g)) pool))" "de_source e = lb" "de_target e = v"
    using pool_edges_in(2) [OF assms(6,7)] by blast
  have m: "e \<in> set (wg_edges g)" using auto_edge_in_graph [OF assms(1-5) e(1)] .
  have "goes_down (wg_edges g) v lb \<or> degrades (wg_edges g) v lb"
  proof (cases "de_redundant e")
    case True
    then show ?thesis using m e(2,3) by (auto simp: degrades_def intro: goes_down.failed)
  next
    case False
    then show ?thesis using m e(2,3) goes_down.depends [of e "wg_edges g" v] by (auto intro: goes_down.failed)
  qed
  moreover have "lb \<in> rn_id ` set (wg_nodes g)" using assms(6) by (rule resolve_member_known)
  ultimately show ?thesis using compute_impact_spec by (auto simp: impact_spec_def)
qed

end
