(* ===== verification/Url_Split.thy ===== *)
theory Url_Split
  imports Ip_Address
begin

text \<open>
  \<open>urllib.parse.urlsplit\<close> (Python 3.11) and the attributes of its result that the connectors read. The
  check of the network location under NFKC raises for no character below code point 256 and is left out.
\<close>

section \<open>Splitting\<close>

record split_url =
  su_scheme :: string
  su_netloc :: string
  su_path :: string
  su_query :: string
  su_fragment :: string

definition is_ascii_alpha :: "char \<Rightarrow> bool" where
  "is_ascii_alpha c \<longleftrightarrow>
     (let n = (of_char c :: nat) in (65 \<le> n \<and> n \<le> 90) \<or> (97 \<le> n \<and> n \<le> 122))"

definition is_scheme_char :: "char \<Rightarrow> bool" where
  "is_scheme_char c \<longleftrightarrow> is_ascii_alpha c \<or> is_digit_char c \<or> c \<in> set ''+-.''"

text \<open>The scheme: what stands before the first colon, where it starts with a letter and has only scheme
  characters.\<close>

definition split_scheme :: "string \<Rightarrow> string \<times> string" where
  "split_scheme url =
     (case py_partition CHR '':'' url of
        (pre, found, post) \<Rightarrow>
          if found \<and> pre \<noteq> [] \<and> is_ascii_alpha (hd pre) \<and> list_all is_scheme_char pre
          then (py_lower pre, post) else ([], url))"

definition netloc_end :: "char \<Rightarrow> bool" where
  "netloc_end c \<longleftrightarrow> c \<in> set ''/?#''"

text \<open>\<open>_check_bracketed_host\<close>: an IPv6 address, or a future address \<open>v<hex>.<text>\<close>.\<close>

definition bracketed_host_ok :: "string \<Rightarrow> bool" where
  "bracketed_host_ok host \<longleftrightarrow>
     (case host of
        CHR ''v'' # rest \<Rightarrow>
          (let hex = takeWhile (\<lambda>c. hex_value c \<noteq> None) rest; after = dropWhile (\<lambda>c. hex_value c \<noteq> None) rest
           in hex \<noteq> [] \<and> length after \<ge> 2 \<and> hd after = CHR ''.'')
      | _ \<Rightarrow> ip_compressed host \<noteq> None \<and> parse_ipv4 host = None)"

definition netloc_ok :: "string \<Rightarrow> bool" where
  "netloc_ok netloc \<longleftrightarrow>
     (CHR ''['' \<in> set netloc \<longleftrightarrow> CHR '']'' \<in> set netloc)
     \<and> (CHR ''['' \<in> set netloc \<longrightarrow>
          bracketed_host_ok (fst (py_partition CHR '']'' (snd (snd (py_partition CHR ''['' netloc))))))"

definition clean_url :: "string \<Rightarrow> string" where
  "clean_url url =
     filter (\<lambda>c. (of_char c :: nat) \<notin> {9, 10, 13}) (dropWhile (\<lambda>c. (of_char c :: nat) \<le> 32) url)"

definition urlsplit :: "string \<Rightarrow> py_exc + split_url" where
  "urlsplit url =
     (let (scheme, rest) = split_scheme (clean_url url);
          (netloc, rest) =
            (if take 2 rest = ''//''
             then (takeWhile (\<lambda>c. \<not> netloc_end c) (drop 2 rest), dropWhile (\<lambda>c. \<not> netloc_end c) (drop 2 rest))
             else ([], rest))
      in if \<not> netloc_ok netloc then Inl ValueError
         else (case py_partition CHR ''#'' rest of (rest, _, fragment) \<Rightarrow>
              (case py_partition CHR ''?'' rest of (path, _, query) \<Rightarrow>
                 Inr \<lparr>su_scheme = scheme, su_netloc = netloc, su_path = path, su_query = query,
                      su_fragment = fragment\<rparr>)))"

section \<open>The parts of the network location\<close>

definition py_rpartition :: "char \<Rightarrow> string \<Rightarrow> string \<times> bool \<times> string" where
  "py_rpartition c s =
     (case py_partition c (rev s) of
        (post, found, pre) \<Rightarrow> if found then (rev pre, True, rev post) else ([], False, s))"

text \<open>\<open>username\<close> and \<open>password\<close>, \<open>hostname\<close>, and \<open>port\<close>, which raises for a port that is no number.\<close>

definition su_username :: "split_url \<Rightarrow> string option" where
  "su_username u =
     (case py_rpartition CHR ''@'' (su_netloc u) of
        (userinfo, have, _) \<Rightarrow> if have then Some (fst (py_partition CHR '':'' userinfo)) else None)"

definition su_password :: "split_url \<Rightarrow> string option" where
  "su_password u =
     (case py_rpartition CHR ''@'' (su_netloc u) of
        (userinfo, have, _) \<Rightarrow>
          (case py_partition CHR '':'' userinfo of
             (_, have_password, password) \<Rightarrow> if have \<and> have_password then Some password else None))"

definition hostinfo :: "split_url \<Rightarrow> string \<times> string option" where
  "hostinfo u =
     (let info = snd (snd (py_rpartition CHR ''@'' (su_netloc u)));
          (host, port) =
            (case py_partition CHR ''['' info of
               (_, bracket, bracketed) \<Rightarrow>
                 if bracket then
                   (case py_partition CHR '']'' bracketed of
                      (h, _, after) \<Rightarrow> (h, snd (snd (py_partition CHR '':'' after))))
                 else (case py_partition CHR '':'' info of (h, _, p) \<Rightarrow> (h, p)))
      in (host, if port = [] then None else Some port))"

definition su_hostname :: "split_url \<Rightarrow> string option" where
  "su_hostname u =
     (let host = fst (hostinfo u) in
      if host = [] then None
      else (case py_partition CHR ''%'' host of
              (h, percent, zone) \<Rightarrow> Some (py_lower h @ (if percent then CHR ''%'' # zone else []))))"

definition su_port :: "split_url \<Rightarrow> py_exc + nat option" where
  "su_port u =
     (case snd (hostinfo u) of
        None \<Rightarrow> Inr None
      | Some p \<Rightarrow>
          if \<not> list_all is_digit_char p then Inl ValueError
          else if int (read_nat p) > 65535 then Inl ValueError
          else Inr (Some (read_nat p)))"

text \<open>\<open>urlunsplit\<close> for a scheme and a network location, without query and fragment.\<close>

definition urlunsplit :: "string \<Rightarrow> string \<Rightarrow> string \<Rightarrow> string" where
  "urlunsplit scheme netloc path =
     scheme @ ''://'' @ netloc @ (if path \<noteq> [] \<and> hd path \<noteq> CHR ''/'' then CHR ''/'' # path else path)"

section \<open>A plain host\<close>

text \<open>A network location that is a host name and nothing else.\<close>

definition plain_host :: "string \<Rightarrow> bool" where
  "plain_host h \<longleftrightarrow> h \<noteq> [] \<and> list_all (\<lambda>c. c \<notin> set ''/?#@:[]%'' \<and> (of_char c :: nat) > 32) h"

lemma py_partition_none: "c \<notin> set s \<Longrightarrow> py_partition c s = (s, False, [])"
  by (induction s) auto

lemma py_rpartition_none: "c \<notin> set s \<Longrightarrow> py_rpartition c s = ([], False, s)"
  by (simp add: py_rpartition_def py_partition_none)

lemma plain_host_no: "plain_host h \<Longrightarrow> c \<in> set ''/?#@:[]%'' \<Longrightarrow> c \<notin> set h"
  unfolding plain_host_def list_all_iff by blast

lemma plain_host_visible: "plain_host h \<Longrightarrow> c \<in> set h \<Longrightarrow> (of_char c :: nat) > 32"
  unfolding plain_host_def list_all_iff by blast

lemma plain_host_parts:
  assumes "plain_host h" and "su_netloc u = h"
  shows "su_username u = None" "su_password u = None" "su_port u = Inr None" "su_hostname u = Some (py_lower h)"
    "netloc_ok h"
proof -
  have h: "h \<noteq> []" "CHR ''@'' \<notin> set h" "CHR ''['' \<notin> set h" "CHR '']'' \<notin> set h" "CHR '':'' \<notin> set h" "CHR ''%'' \<notin> set h"
    using plain_host_no [OF assms(1)] assms(1) by (simp_all add: plain_host_def)
  show "su_username u = None" "su_password u = None"
    using h assms(2) by (simp_all add: su_username_def su_password_def py_rpartition_none py_partition_none)
  have "hostinfo u = (h, None)"
    using h assms(2) by (simp add: hostinfo_def py_rpartition_none py_partition_none)
  then show "su_port u = Inr None" "su_hostname u = Some (py_lower h)"
    using h by (simp_all add: su_port_def su_hostname_def py_partition_none)
  show "netloc_ok h" using h by (simp add: netloc_ok_def)
qed

lemma urlsplit_netloc:
  assumes "split_scheme (clean_url url) = (scheme, CHR ''/'' # CHR ''/'' # rest)"
    and "takeWhile (\<lambda>c. \<not> netloc_end c) rest = netloc" and "netloc_ok netloc"
    and "CHR ''?'' \<notin> set rest" "CHR ''#'' \<notin> set rest"
  shows "\<exists>path. urlsplit url = Inr \<lparr>su_scheme = scheme, su_netloc = netloc, su_path = path, su_query = [], su_fragment = []\<rparr>"
proof -
  have "CHR ''?'' \<notin> set (dropWhile P rest)" "CHR ''#'' \<notin> set (dropWhile P rest)" for P
    using assms(4,5) set_dropWhileD by metis+
  then show ?thesis using assms(1-3) by (simp add: urlsplit_def Let_def py_partition_none)
qed

lemma split_scheme_https: "split_scheme (''https:'' @ r) = (''https'', r)"
  by (simp add: split_scheme_def is_ascii_alpha_def is_scheme_char_def py_lower_def char_lower_def Let_def)

text \<open>The URL rebuilt from a plain host and an absolute path splits into that host: no part of the path
  is read as part of the network location.\<close>

lemma urlsplit_rebuilt:
  assumes "plain_host h" and "path \<noteq> []" and "hd path = CHR ''/''" and "CHR ''?'' \<notin> set path" "CHR ''#'' \<notin> set path"
  shows "\<exists>p. urlsplit (urlunsplit ''https'' h path)
      = Inr \<lparr>su_scheme = ''https'', su_netloc = h, su_path = p, su_query = [], su_fragment = []\<rparr>"
proof -
  let ?keep = "\<lambda>c. (of_char c :: nat) \<notin> {9, 10, 13}"
  have h1: "filter ?keep h = h"
    by (rule filter_True) (use plain_host_visible [OF assms(1)] in fastforce)
  obtain p where p: "path = CHR ''/'' # p" using assms(2,3) by (cases path) auto
  have "clean_url (''https://'' @ h @ CHR ''/'' # p) = ''https:'' @ CHR ''/'' # CHR ''/'' # h @ CHR ''/'' # filter ?keep p"
    using h1 by (simp add: clean_url_def)
  with split_scheme_https [of "CHR ''/'' # CHR ''/'' # h @ CHR ''/'' # filter ?keep p"]
  have 1: "split_scheme (clean_url (urlunsplit ''https'' h path))
      = (''https'', CHR ''/'' # CHR ''/'' # h @ CHR ''/'' # filter ?keep p)"
    by (simp only: p urlunsplit_def list.sel split_scheme_https simp_thms if_False append.simps)
  have "\<not> netloc_end c" if "c \<in> set h" for c
    using plain_host_no [OF assms(1), of c] that unfolding netloc_end_def by auto
  moreover have "netloc_end (CHR ''/'')" by (simp add: netloc_end_def)
  ultimately have 2: "takeWhile (\<lambda>c. \<not> netloc_end c) (h @ CHR ''/'' # filter ?keep p) = h"
    by (simp add: takeWhile_append)
  have 3: "netloc_ok h"
    using plain_host_parts(5) [OF assms(1), of "\<lparr>su_scheme = [], su_netloc = h, su_path = [], su_query = [], su_fragment = []\<rparr>"]
    by simp
  have "CHR ''?'' \<notin> set (h @ CHR ''/'' # filter ?keep p)" "CHR ''#'' \<notin> set (h @ CHR ''/'' # filter ?keep p)"
    using assms(4,5) plain_host_no [OF assms(1)] by (simp_all add: p)
  then show ?thesis by (rule urlsplit_netloc [OF 1 2 3])
qed

lemma urlsplit_examples:
  "urlsplit ''HTTPS://A.b:8/p?q'' = Inr \<lparr>su_scheme = ''https'', su_netloc = ''A.b:8'', su_path = ''/p'', su_query = ''q'', su_fragment = []\<rparr>"
  "map_sum id su_hostname (urlsplit ''https://u:p@A.b:8/p?q'') = Inr (Some ''a.b'')"
  "map_sum id su_port (urlsplit ''https://u:p@A.b:8/p?q'') = Inr (Inr (Some 8))"
  "urlsplit ''https://[1.2.3.4]/'' = Inl ValueError"
  by code_simp+

end
