(* ===== verification/Edge_Endpoint.thy ===== *)
theory Edge_Endpoint
  imports Url_Split
begin

text \<open>
  The endpoint validators of the connectors: \<open>validate_https_endpoint\<close> of
  \<open>src/shared/connectors/edge.py\<close> and the copies in the Citrix and Kuiper connectors, which differ in
  their placeholder hosts. The encoder of internationalised names (the \<open>idna\<close> package) is a parameter,
  \<open>None\<close> where it raises \<open>IDNAError\<close>.
\<close>

section \<open>Hosts\<close>

datatype endpoint_exc = InvalidEndpoint | EndpointNotApproved | EndpointRaised py_exc

definition char_fold_x :: "char \<Rightarrow> bool" where
  "char_fold_x c \<longleftrightarrow> c = CHR ''x'' \<or> c = CHR ''X''"

text \<open>\<open>(?i)^(0x[0-9a-f]+|\d+)$\<close>, where \<open>$\<close> also matches before a final line feed.\<close>

definition numeric_label :: "string \<Rightarrow> bool" where
  "numeric_label label =
     (let s = (if label \<noteq> [] \<and> last label = CHR 0x0A then butlast label else label) in
      (case s of
         z # x # hex \<Rightarrow> z = CHR ''0'' \<and> char_fold_x x \<and> hex \<noteq> [] \<and> list_all (\<lambda>c. hex_value c \<noteq> None) hex
       | _ \<Rightarrow> False)
      \<or> s \<noteq> [] \<and> list_all is_digit_char s)"

definition is_numeric_ipv4_literal :: "string \<Rightarrow> bool" where
  "is_numeric_ipv4_literal host =
     (let labels = py_split CHR ''.'' host
      in list_ex (\<lambda>l. l \<noteq> []) labels \<and> list_all numeric_label (filter (\<lambda>l. l \<noteq> []) labels))"

definition normalize_host :: "string \<Rightarrow> string" where
  "normalize_host host = py_lower (strip_right ''.'' (py_strip host))"

definition is_ascii :: "string \<Rightarrow> bool" where
  "is_ascii s \<longleftrightarrow> list_all (\<lambda>c. (of_char c :: nat) < 128) s"

definition canonicalize_host :: "(string \<Rightarrow> string option) \<Rightarrow> string \<Rightarrow> endpoint_exc + string" where
  "canonicalize_host idna host =
     (let normalized = normalize_host host in
      if normalized = [] then Inl InvalidEndpoint
      else if is_ascii normalized then Inr normalized
      else (case idna normalized of None \<Rightarrow> Inl InvalidEndpoint | Some h \<Rightarrow> Inr h))"

definition EDGE_PLACEHOLDER_HOSTS :: "string list" where
  "EDGE_PLACEHOLDER_HOSTS =
     [[], ''localhost'', ''example.com'', ''example.org'', ''example.net'', ''changeme'', ''placeholder'', ''todo'',
      ''invalid'', ''netscaler.local'', ''bigip.local'', ''f5.local'']"

definition CITRIX_PLACEHOLDER_HOSTS :: "string list" where
  "CITRIX_PLACEHOLDER_HOSTS =
     [[], ''citrix.internal'', ''citrix.fake'', ''citrix.local'', ''localhost'', ''example.com'', ''example.org'',
      ''changeme'', ''placeholder'', ''todo'']"

definition KUIPER_PLACEHOLDER_HOSTS :: "string list" where
  "KUIPER_PLACEHOLDER_HOSTS =
     [[], ''kuiper.internal'', ''kuiper.fake'', ''kuiper.local'', ''localhost'', ''example.com'', ''example.org'',
      ''changeme'', ''placeholder'', ''todo'']"

section \<open>The validator\<close>

text \<open>The first part: the host of a base URL that is structurally safe.\<close>

definition endpoint_host :: "split_url \<Rightarrow> endpoint_exc + string" where
  "endpoint_host parts =
     (if su_scheme parts \<noteq> ''https'' then Inl InvalidEndpoint
      else if su_username parts \<notin> {None, Some []} \<or> su_password parts \<notin> {None, Some []} then Inl InvalidEndpoint
      else if su_query parts \<noteq> [] \<or> su_fragment parts \<noteq> [] then Inl InvalidEndpoint
      else (case su_port parts of
              Inl e \<Rightarrow> Inl (EndpointRaised e)
            | Inr (Some _) \<Rightarrow> Inl InvalidEndpoint
            | Inr None \<Rightarrow>
                (case su_hostname parts of
                   None \<Rightarrow> Inl InvalidEndpoint
                 | Some raw_host \<Rightarrow>
                     if ip_compressed (normalize_host raw_host) \<noteq> None then Inl InvalidEndpoint
                     else if is_numeric_ipv4_literal (normalize_host raw_host) then Inl InvalidEndpoint
                     else Inr raw_host)))"

definition simple_path :: "string \<Rightarrow> bool" where
  "simple_path p \<longleftrightarrow> p \<noteq> [] \<and> hd p = CHR ''/'' \<and> \<not> list_ex (\<lambda>c. c \<in> set ''?#@ '') p"

definition validate_endpoint_against ::
  "string list \<Rightarrow> (string \<Rightarrow> string option) \<Rightarrow> string \<Rightarrow> string \<Rightarrow> string list \<Rightarrow> endpoint_exc + string" where
  "validate_endpoint_against placeholders idna base_url signals_path approved_hosts =
     (case urlsplit base_url of
        Inl e \<Rightarrow> Inl (EndpointRaised e)
      | Inr parts \<Rightarrow>
          rbind (endpoint_host parts) (\<lambda>raw_host.
          rbind (canonicalize_host idna raw_host) (\<lambda>host.
          if host \<in> set placeholders then Inl InvalidEndpoint
          else rbind (rseq (map (canonicalize_host idna) approved_hosts)) (\<lambda>approved.
          if host \<notin> set approved then Inl EndpointNotApproved
          else if \<not> simple_path signals_path then Inl InvalidEndpoint
          else Inr (urlunsplit (su_scheme parts) host
                 (strip_right ''/'' (su_path parts) @ CHR ''/'' # strip_left ''/'' signals_path))))))"

definition validate_https_endpoint ::
  "(string \<Rightarrow> string option) \<Rightarrow> string \<Rightarrow> string \<Rightarrow> string list \<Rightarrow> endpoint_exc + string" where
  "validate_https_endpoint = validate_endpoint_against EDGE_PLACEHOLDER_HOSTS"

definition citrix_validate_endpoint ::
  "(string \<Rightarrow> string option) \<Rightarrow> string \<Rightarrow> string \<Rightarrow> string list \<Rightarrow> endpoint_exc + string" where
  "citrix_validate_endpoint = validate_endpoint_against CITRIX_PLACEHOLDER_HOSTS"

definition kuiper_validate_endpoint ::
  "(string \<Rightarrow> string option) \<Rightarrow> string \<Rightarrow> string \<Rightarrow> string list \<Rightarrow> endpoint_exc + string" where
  "kuiper_validate_endpoint = validate_endpoint_against KUIPER_PLACEHOLDER_HOSTS"

section \<open>What is requested is what was checked\<close>

lemma py_partition_pre: "c \<notin> set (fst (py_partition c s))"
  by (induction s) (auto split: prod.splits)

lemma py_partition_parts: "set (fst (py_partition c s)) \<subseteq> set s"
  by (induction s) (auto split: prod.splits)

text \<open>The path of a split URL holds neither query nor fragment, and is empty or absolute after a host.\<close>

lemma urlsplit_path:
  assumes "urlsplit url = Inr u"
  shows "CHR ''?'' \<notin> set (su_path u)" "CHR ''#'' \<notin> set (su_path u)"
    "su_netloc u \<noteq> [] \<Longrightarrow> su_path u = [] \<or> hd (su_path u) = CHR ''/''"
proof -
  obtain sch rest where s: "split_scheme (clean_url url) = (sch, rest)" by (cases "split_scheme (clean_url url)")
  define cut where "cut \<longleftrightarrow> take 2 rest = ''//''"
  define tail where "tail = (if cut then dropWhile (\<lambda>c. \<not> netloc_end c) (drop 2 rest) else rest)"
  define net where "net = (if cut then takeWhile (\<lambda>c. \<not> netloc_end c) (drop 2 rest) else [])"
  have pair: "(if take 2 rest = ''//'' then (takeWhile (\<lambda>c. \<not> netloc_end c) (drop 2 rest),
      dropWhile (\<lambda>c. \<not> netloc_end c) (drop 2 rest)) else ([], rest)) = (net, tail)"
    by (simp add: net_def tail_def cut_def)
  have u: "su_path u = fst (py_partition CHR ''?'' (fst (py_partition CHR ''#'' tail)))" "su_netloc u = net"
    using assms unfolding urlsplit_def s Let_def prod.case pair by (auto split: if_splits prod.splits)
  show "CHR ''?'' \<notin> set (su_path u)" unfolding u(1) by (rule py_partition_pre)
  show "CHR ''#'' \<notin> set (su_path u)"
    unfolding u(1) using py_partition_parts [of "CHR ''?''"] py_partition_pre [of "CHR ''#''" tail] by blast
  assume "su_netloc u \<noteq> []"
  then have cut using u(2) by (simp add: net_def split: if_splits)
  then have "tail = [] \<or> netloc_end (hd tail)"
    unfolding tail_def using hd_dropWhile [of "\<lambda>c. \<not> netloc_end c" "drop 2 rest"] by auto
  then show "su_path u = [] \<or> hd (su_path u) = CHR ''/''"
    unfolding u(1) by (cases tail) (auto simp: netloc_end_def split: prod.splits if_splits)
qed

lemma strip_right_prefix: "\<exists>r. s = strip_right cs s @ r"
  unfolding strip_right_def by (metis rev_append rev_rev_ident takeWhile_dropWhile_id)

lemma strip_right_subset: "set (strip_right cs s) \<subseteq> set s"
  by (auto simp: strip_right_def dest: set_dropWhileD)

lemma simple_path_no: "simple_path p \<Longrightarrow> c \<in> set ''?#@ '' \<Longrightarrow> c \<notin> set p"
  unfolding simple_path_def list_ex_iff by blast

lemma strip_left_suffix: "set (strip_left cs s) \<subseteq> set s"
  by (auto simp: strip_left_def dest: set_dropWhileD)

text \<open>C36: an endpoint that is accepted is https to a host that is, in canonical form, one the operator
  approved, is no placeholder and no IP literal in any notation; and where the approved names are plain
  host names, the URL handed on splits into exactly that host: without user info, port, query or
  fragment, and no part of a configured path is read as part of the host.\<close>

theorem endpoint_approved:
  assumes "validate_endpoint_against placeholders idna base_url signals_path approved = Inr url"
    and "\<And>a h. a \<in> set approved \<Longrightarrow> canonicalize_host idna a = Inr h \<Longrightarrow> plain_host h"
  shows "\<exists>raw h p. canonicalize_host idna raw = Inr h \<and> h \<notin> set placeholders
     \<and> Inr h \<in> canonicalize_host idna ` set approved
     \<and> ip_compressed (normalize_host raw) = None \<and> \<not> is_numeric_ipv4_literal (normalize_host raw)
     \<and> urlsplit url = Inr \<lparr>su_scheme = ''https'', su_netloc = h, su_path = p, su_query = [], su_fragment = []\<rparr>"
proof -
  obtain parts raw h hs where u: "urlsplit base_url = Inr parts" and raw: "endpoint_host parts = Inr raw"
    and h: "canonicalize_host idna raw = Inr h" "h \<notin> set placeholders"
    and hs: "map (canonicalize_host idna) approved = map Inr hs" "h \<in> set hs" and simple: "simple_path signals_path"
    and url: "url = urlunsplit (su_scheme parts) h
        (strip_right ''/'' (su_path parts) @ CHR ''/'' # strip_left ''/'' signals_path)"
  proof (cases "urlsplit base_url")
    case (Inr parts)
    show ?thesis
      using assms(1) that [OF Inr]
      by (auto simp only: validate_endpoint_against_def Inr sum.case rbind_Inr_iff rseq_Inr_iff sum.distinct sum.inject
          not_not split: if_split_asm)
  qed (use assms(1) in \<open>simp add: validate_endpoint_against_def\<close>)
  let ?path = "strip_right ''/'' (su_path parts) @ CHR ''/'' # strip_left ''/'' signals_path"
  have https: "su_scheme parts = ''https''" and ip: "ip_compressed (normalize_host raw) = None"
    "\<not> is_numeric_ipv4_literal (normalize_host raw)" and host: "su_hostname parts = Some raw"
    using raw unfolding endpoint_host_def
    by (auto simp only: sum.distinct sum.inject not_not simp_thms
        split: if_split_asm sum.split_asm option.split_asm)
  have "Inr h \<in> set (map (canonicalize_host idna) approved)" unfolding hs(1) using hs(2) by simp
  then have app: "Inr h \<in> canonicalize_host idna ` set approved" by simp
  then have plain: "plain_host h" using assms(2) by (metis imageE)
  have "su_netloc parts \<noteq> []" using host by (auto simp: su_hostname_def hostinfo_def py_rpartition_def Let_def)
  then have abs: "su_path parts = [] \<or> hd (su_path parts) = CHR ''/''" using urlsplit_path(3) [OF u] by blast
  obtain r where r: "su_path parts = strip_right ''/'' (su_path parts) @ r" using strip_right_prefix by blast
  have "hd ?path = CHR ''/''"
    using abs r by (cases "strip_right ''/'' (su_path parts)") (auto simp: hd_append)
  moreover have "c \<notin> set ?path" if "c \<in> set ''?#@ ''" "c \<notin> set (su_path parts)" "c \<noteq> CHR ''/''" for c
    using that simple_path_no [OF simple that(1)] strip_left_suffix [of "''/''" signals_path]
      strip_right_subset [of "''/''" "su_path parts"] by (simp only: set_append list.set) blast
  then have "CHR ''?'' \<notin> set ?path" "CHR ''#'' \<notin> set ?path"
    using urlsplit_path(1,2) [OF u] by simp_all
  ultimately obtain p where "urlsplit url = Inr \<lparr>su_scheme = ''https'', su_netloc = h, su_path = p, su_query = [], su_fragment = []\<rparr>"
    unfolding url https using urlsplit_rebuilt [OF plain, of ?path] by auto
  then show ?thesis using h app ip by blast
qed

lemma endpoint_approved_witness:
  "\<exists>raw h p. canonicalize_host (\<lambda>_. None) raw = Inr h \<and> h \<notin> set EDGE_PLACEHOLDER_HOSTS
     \<and> Inr h \<in> canonicalize_host (\<lambda>_. None) ` set [''lb.corp.net'']
     \<and> ip_compressed (normalize_host raw) = None \<and> \<not> is_numeric_ipv4_literal (normalize_host raw)
     \<and> urlsplit ''https://lb.corp.net/nitro/x'' = Inr \<lparr>su_scheme = ''https'', su_netloc = h, su_path = p, su_query = [], su_fragment = []\<rparr>"
proof -
  have v: "validate_endpoint_against EDGE_PLACEHOLDER_HOSTS (\<lambda>_. None) ''https://LB.corp.net./nitro/'' ''/x'' [''lb.corp.net'']
      = Inr ''https://lb.corp.net/nitro/x''" by code_simp
  have "canonicalize_host (\<lambda>_. None) ''lb.corp.net'' = Inr ''lb.corp.net''" by code_simp
  moreover have "plain_host ''lb.corp.net''" by code_simp
  ultimately have "plain_host h" if "a \<in> set [''lb.corp.net'']" "canonicalize_host (\<lambda>_. None) a = Inr h" for a h
    using that by simp
  from endpoint_approved [OF v this] show ?thesis .
qed

text \<open>The proviso matters: the host of a bracketed future address may hold a colon, and approving it as
  it is read yields a URL for another host.\<close>

lemma bracketed_host_diverges:
  "validate_https_endpoint (\<lambda>_. None) ''https://[v1.a:b]'' ''/x'' [''v1.a:b''] = Inr ''https://v1.a:b/x''"
  "map_sum id su_hostname (urlsplit ''https://v1.a:b/x'') = Inr (Some ''v1.a'')"
  by code_simp+

end
