(* ===== verification/Edge_Client.thy ===== *)
theory Edge_Client
  imports Edge_Endpoint Connector_Signals
begin

text \<open>
  The fetch loop of the HTTPS connectors: the primitives of \<open>src/shared/connectors/base.py\<close> (credential
  resolution, bounded retries, the fail-closed boundary) and the edge of \<open>src/shared/connectors/edge.py\<close>.

  The loop runs over an explicit state: how often the clock has been read and the requests made so far,
  and the trace of what reached the outside. The clock, the transport, the vault, the credential
  provider and the JSON decoder are parameters; time is a rational, without the rounding of floats.
\<close>

section \<open>Exceptions and state\<close>

text \<open>An exception is its class name, its message, and whether the class is one of the transport errors of
  \<open>httpx\<close>. The message may hold anything, a token or the body of a response included.\<close>

record edge_exc =
  ex_class :: string
  ex_message :: string
  ex_transport :: bool

definition plain_exc :: "string \<Rightarrow> string \<Rightarrow> edge_exc" where
  "plain_exc cls message = \<lparr>ex_class = cls, ex_message = message, ex_transport = False\<rparr>"

datatype edge_event =
    ProviderCalled
  | VaultRead string
  | EnvRead string
  | Requested string string rat       \<comment> \<open>endpoint, bearer token, timeout\<close>
  | Slept rat
  | ClientClosed

record edge_state =
  es_ticks :: nat
  es_requests :: nat
  es_trace :: "edge_event list"

type_synonym 'a edge_step = "edge_state \<Rightarrow> (edge_exc + 'a) \<times> edge_state"

definition emit_event :: "edge_event \<Rightarrow> edge_state \<Rightarrow> edge_state" where
  "emit_event ev s = s\<lparr>es_trace := es_trace s @ [ev]\<rparr>"

fun edge_bind :: "'a edge_step \<Rightarrow> ('a \<Rightarrow> 'b edge_step) \<Rightarrow> 'b edge_step" where
  "edge_bind m k s = (case m s of (Inl e, s') \<Rightarrow> (Inl e, s') | (Inr x, s') \<Rightarrow> k x s')"

section \<open>Responses\<close>

text \<open>A response: what \<open>raise_for_status\<close> raises, the headers, and the body as raw chunks with what breaks
  the stream after them, or as a buffered body.\<close>

record wire_response =
  wr_status :: "edge_exc option"
  wr_content_length :: "string option"
  wr_content_encoding :: "string option"
  wr_buffered :: "nat list option"
  wr_chunks :: "nat list list"
  wr_broken :: "edge_exc option"

record edge_world =
  wd_clock :: "nat \<Rightarrow> rat"
  wd_jitter :: "nat \<Rightarrow> rat"                                  \<comment> \<open>\<open>rng.random()\<close> after the given attempt\<close>
  wd_transport :: "nat \<Rightarrow> edge_exc + wire_response"
  wd_json :: "nat list \<Rightarrow> edge_exc + pyval"
  wd_idna :: "string \<Rightarrow> string option"
  wd_provider :: "(edge_exc + string option) option"
  wd_vault :: "(string \<Rightarrow> edge_exc + string) option"
  wd_env :: "(string, string) dict"
  wd_text :: "string \<Rightarrow> string"              \<comment> \<open>the message of an exception the edge raises, by its class\<close>

definition read_clock :: "edge_world \<Rightarrow> edge_state \<Rightarrow> rat \<times> edge_state" where
  "read_clock w s = (wd_clock w (es_ticks s), s\<lparr>es_ticks := Suc (es_ticks s)\<rparr>)"

section \<open>Credentials\<close>

definition resolve_bearer_token :: "edge_world \<Rightarrow> string \<Rightarrow> string option \<Rightarrow> string option edge_step" where
  "resolve_bearer_token w token_env secret_name =
     edge_bind
       (\<lambda>s. case wd_provider w of
              None \<Rightarrow> (Inr None, s)
            | Some r \<Rightarrow> (r, emit_event ProviderCalled s))
       (\<lambda>token s.
          if token \<noteq> None \<and> token \<noteq> Some [] then (Inr token, s)
          else (case (wd_vault w, secret_name) of
                  (Some vault, Some name) \<Rightarrow> (map_sum id Some (vault name), emit_event (VaultRead name) s)
                | _ \<Rightarrow>
                  (let s' = emit_event (EnvRead token_env) s in
                   case dict_get (wd_env w) token_env of
                     None \<Rightarrow> (Inr None, s')
                   | Some v \<Rightarrow> (Inr (if v = [] then None else Some v), s'))))"

section \<open>Bounded retries\<close>

text \<open>\<open>run_with_retries\<close>: \<open>left\<close> attempts remain after this one, \<open>n\<close> counts from one.\<close>

fun retry_loop ::
  "'a edge_step \<Rightarrow> (edge_exc \<Rightarrow> edge_state \<Rightarrow> bool \<times> edge_state) \<Rightarrow> (rat \<Rightarrow> edge_state \<Rightarrow> edge_state)
     \<Rightarrow> (nat \<Rightarrow> rat) \<Rightarrow> rat \<Rightarrow> nat \<Rightarrow> nat \<Rightarrow> rat \<Rightarrow> 'a edge_step" where
  "retry_loop fn retry_on sleep jitter max_delay 0 n delay s = fn s"
| "retry_loop fn retry_on sleep jitter max_delay (Suc left) n delay s =
     (case fn s of
        (Inr x, s1) \<Rightarrow> (Inr x, s1)
      | (Inl e, s1) \<Rightarrow>
          (case retry_on e s1 of
             (False, s2) \<Rightarrow> (Inl e, s2)
           | (True, s2) \<Rightarrow>
               retry_loop fn retry_on sleep jitter max_delay left (Suc n) (min max_delay (delay * 2))
                 (sleep (min max_delay delay * jitter n) s2)))"

definition run_with_retries ::
  "'a edge_step \<Rightarrow> nat \<Rightarrow> rat \<Rightarrow> rat \<Rightarrow> (rat \<Rightarrow> edge_state \<Rightarrow> edge_state) \<Rightarrow> (nat \<Rightarrow> rat)
     \<Rightarrow> (edge_exc \<Rightarrow> edge_state \<Rightarrow> bool \<times> edge_state) \<Rightarrow> 'a edge_step" where
  "run_with_retries fn attempts base_delay max_delay sleep jitter retry_on s =
     (if attempts < 1 then (Inl (plain_exc ''ValueError'' ''attempts must be >= 1''), s)
      else retry_loop fn retry_on sleep jitter max_delay (attempts - 1) 1 base_delay s)"

section \<open>The bounded reader\<close>

text \<open>\<open>int(text)\<close>: a decimal number with an optional sign, surrounding white space and single
  underscores between digits.\<close>

fun digit_groups :: "string \<Rightarrow> string option" where
  "digit_groups [] = None"
| "digit_groups [c] = (if is_digit_char c then Some [c] else None)"
| "digit_groups (c # d # cs) =
     (if \<not> is_digit_char c then None
      else if d = CHR ''_'' then map_option ((#) c) (digit_groups cs)
      else map_option ((#) c) (digit_groups (d # cs)))"

definition py_int :: "string \<Rightarrow> int option" where
  "py_int text =
     (case py_strip text of
        CHR ''-'' # ds \<Rightarrow> map_option (\<lambda>d. - int (read_nat d)) (digit_groups ds)
      | CHR ''+'' # ds \<Rightarrow> map_option (\<lambda>d. int (read_nat d)) (digit_groups ds)
      | ds \<Rightarrow> map_option (\<lambda>d. int (read_nat d)) (digit_groups ds))"

definition WIRE_CHUNK_BYTES :: nat where
  "WIRE_CHUNK_BYTES = 65536"

function byte_slices :: "nat \<Rightarrow> nat list \<Rightarrow> nat list list" where
  "byte_slices n body = (if n = 0 \<or> body = [] then [] else take n body # byte_slices n (drop n body))"
  by auto
termination by (relation "measure (\<lambda>(n, body). length body)") (auto simp: not_less)

declare byte_slices.simps [simp del]

definition wire_chunks :: "wire_response \<Rightarrow> nat list list \<times> edge_exc option" where
  "wire_chunks r =
     (case wr_buffered r of
        Some body \<Rightarrow> (byte_slices WIRE_CHUNK_BYTES body, None)
      | None \<Rightarrow> (wr_chunks r, wr_broken r))"

text \<open>The names of the exceptions the reader raises: too large, refused, out of time.\<close>

record reader_errors =
  re_too_large :: string
  re_invalid :: string
  re_deadline :: string

fun read_chunks ::
  "reader_errors \<Rightarrow> edge_world \<Rightarrow> nat \<Rightarrow> rat \<Rightarrow> edge_exc option \<Rightarrow> nat list list \<Rightarrow> nat list \<Rightarrow> (nat list) edge_step" where
  "read_chunks names w max_bytes deadline broken [] buffer s =
     (case broken of None \<Rightarrow> (Inr buffer, s) | Some e \<Rightarrow> (Inl e, s))"
| "read_chunks names w max_bytes deadline broken (chunk # chunks) buffer s =
     (case read_clock w s of
        (now, s') \<Rightarrow>
          if now \<ge> deadline then (Inl (plain_exc (re_deadline names) (wd_text w (re_deadline names))), s')
          else if length buffer + length chunk > max_bytes then (Inl (plain_exc (re_too_large names) (wd_text w (re_too_large names))), s')
          else read_chunks names w max_bytes deadline broken chunks (buffer @ chunk) s')"

definition declared_too_large :: "nat \<Rightarrow> wire_response \<Rightarrow> bool" where
  "declared_too_large max_bytes r \<longleftrightarrow>
     (case wr_content_length r of
        None \<Rightarrow> False
      | Some text \<Rightarrow> (case py_int text of None \<Rightarrow> True | Some n \<Rightarrow> n > int max_bytes))"

definition refused_coding :: "wire_response \<Rightarrow> bool" where
  "refused_coding r \<longleftrightarrow>
     py_lower (py_strip (case wr_content_encoding r of None \<Rightarrow> [] | Some e \<Rightarrow> e)) \<notin> {[], ''identity''}"

definition read_bounded_json ::
  "reader_errors \<Rightarrow> edge_world \<Rightarrow> wire_response \<Rightarrow> nat \<Rightarrow> rat \<Rightarrow> pyval edge_step" where
  "read_bounded_json names w r max_bytes deadline s =
     (if declared_too_large max_bytes r then (Inl (plain_exc (re_too_large names) (wd_text w (re_too_large names))), s)
      else if refused_coding r then (Inl (plain_exc (re_invalid names) (wd_text w (re_invalid names))), s)
      else edge_bind (read_chunks names w max_bytes deadline (snd (wire_chunks r)) (fst (wire_chunks r)) [])
             (\<lambda>body s. (wd_json w body, s)) s)"

section \<open>The edge\<close>

record edge_config =
  ec_base_url :: string
  ec_signals_path :: string
  ec_approved_hosts :: "string list"
  ec_timeout :: rat
  ec_token_env :: string
  ec_token_secret_name :: "string option"
  ec_retries :: nat
  ec_base_delay :: rat
  ec_max_delay :: rat
  ec_max_elapsed :: rat
  ec_max_response_bytes :: nat
  ec_max_records :: nat
  ec_max_field_len :: nat

definition config_ok :: "edge_config \<Rightarrow> bool" where
  "config_ok c \<longleftrightarrow>
     0 < ec_timeout c \<and> ec_timeout c \<le> 60 \<and> 1 \<le> ec_retries c \<and> ec_retries c \<le> 8
     \<and> 0 < ec_base_delay c \<and> ec_base_delay c \<le> 5 \<and> 0 < ec_max_delay c \<and> ec_max_delay c \<le> 30
     \<and> 0 < ec_max_elapsed c \<and> ec_max_elapsed c \<le> 120
     \<and> 1 \<le> ec_max_response_bytes c \<and> ec_max_response_bytes c \<le> 10485760
     \<and> 1 \<le> ec_max_records c \<and> ec_max_records c \<le> 10000 \<and> 1 \<le> ec_max_field_len c \<and> ec_max_field_len c \<le> 4096"

text \<open>The callbacks of the loop: what is left of the deadline, the bounded sleep, and whether to retry.\<close>

definition time_left :: "edge_world \<Rightarrow> rat \<Rightarrow> edge_state \<Rightarrow> rat \<times> edge_state" where
  "time_left w deadline s = (case read_clock w s of (now, s') \<Rightarrow> (deadline - now, s'))"

definition bounded_sleep :: "edge_world \<Rightarrow> rat \<Rightarrow> rat \<Rightarrow> edge_state \<Rightarrow> edge_state" where
  "bounded_sleep w deadline seconds s =
     (case time_left w deadline s of (rest, s') \<Rightarrow> emit_event (Slept (max 0 (min seconds rest))) s')"

definition retry_transient :: "edge_world \<Rightarrow> rat \<Rightarrow> edge_exc \<Rightarrow> edge_state \<Rightarrow> bool \<times> edge_state" where
  "retry_transient w deadline e s =
     (if \<not> ex_transport e then (False, s)
      else (case time_left w deadline s of (rest, s') \<Rightarrow> (rest > 0, s')))"

text \<open>One attempt: the request and the bounded read of its body.\<close>

definition edge_attempt ::
  "reader_errors \<Rightarrow> edge_world \<Rightarrow> edge_config \<Rightarrow> rat \<Rightarrow> string \<Rightarrow> string \<Rightarrow> pyval edge_step" where
  "edge_attempt names w c deadline endpoint token s =
     (case time_left w deadline s of
        (rest, s1) \<Rightarrow>
          if rest \<le> 0 then (Inl (plain_exc (re_deadline names) (wd_text w (re_deadline names))), s1)
          else
            (let s2 = emit_event (Requested endpoint token (min (ec_timeout c) rest)) s1;
                 s3 = s2\<lparr>es_requests := Suc (es_requests s2)\<rparr>
             in case wd_transport w (es_requests s2) of
                  Inl e \<Rightarrow> (Inl e, s3)
                | Inr r \<Rightarrow>
                    (case wr_status r of
                       Some e \<Rightarrow> (Inl e, s3)
                     | None \<Rightarrow> read_bounded_json names w r (ec_max_response_bytes c) deadline s3)))"

text \<open>The loop over a resolved token. \<open>inside\<close> transforms the payload in the attempt, as the Citrix and
  Kuiper connectors do, \<open>after\<close> transforms it once the deadline has been checked, as the shared edge
  does; \<open>owns\<close> tells whether the loop made its own HTTP client and closes it.\<close>

definition edge_run ::
  "reader_errors \<Rightarrow> edge_world \<Rightarrow> edge_config \<Rightarrow> (pyval \<Rightarrow> edge_exc + 'p) \<Rightarrow> ('p \<Rightarrow> edge_exc + raw_dict list)
     \<Rightarrow> bool \<Rightarrow> string \<Rightarrow> string \<Rightarrow> fetch_result edge_step" where
  "edge_run names w c inside after owns endpoint token s =
     (case read_clock w s of
        (start, s0) \<Rightarrow>
          (let deadline = start + ec_max_elapsed c;
               (result, s1) =
                 edge_bind
                   (run_with_retries
                      (edge_bind (edge_attempt names w c deadline endpoint token) (\<lambda>payload s. (inside payload, s)))
                      (ec_retries c) (ec_base_delay c) (ec_max_delay c) (bounded_sleep w deadline) (wd_jitter w)
                      (retry_transient w deadline))
                   (\<lambda>payload s.
                      (case time_left w deadline s of
                         (rest, s') \<Rightarrow>
                           if rest \<le> 0 then (Inl (plain_exc (re_deadline names) (wd_text w (re_deadline names))), s')
                           else (case after payload of
                                   Inl e \<Rightarrow> (Inl e, s')
                                 | Inr raw \<Rightarrow> (Inr \<lparr>fr_available = True, fr_raw = raw, fr_error = None\<rparr>, s'))))
                   s0
           in (result, if owns then emit_event ClientClosed s1 else s1)))"

text \<open>The names of the exceptions of the shared edge.\<close>

definition EDGE_ERRORS :: reader_errors where
  "EDGE_ERRORS = \<lparr>re_too_large = ''ResponseTooLarge'', re_invalid = ''InvalidResponse'', re_deadline = ''DeadlineExceeded''\<rparr>"

definition edge_endpoint_name :: "endpoint_exc \<Rightarrow> string" where
  "edge_endpoint_name e =
     (case e of
        InvalidEndpoint \<Rightarrow> ''InvalidEndpoint''
      | EndpointNotApproved \<Rightarrow> ''EndpointNotApproved''
      | EndpointRaised _ \<Rightarrow> ''ValueError'')"

definition endpoint_exc_class :: "edge_world \<Rightarrow> (endpoint_exc \<Rightarrow> string) \<Rightarrow> endpoint_exc \<Rightarrow> edge_exc" where
  "endpoint_exc_class w name e = plain_exc (name e) (wd_text w (name e))"

definition edge_fetch ::
  "reader_errors \<Rightarrow> (endpoint_exc \<Rightarrow> string)
     \<Rightarrow> ((string \<Rightarrow> string option) \<Rightarrow> string \<Rightarrow> string \<Rightarrow> string list \<Rightarrow> endpoint_exc + string)
     \<Rightarrow> edge_world \<Rightarrow> edge_config \<Rightarrow> (pyval \<Rightarrow> edge_exc + 'p) \<Rightarrow> ('p \<Rightarrow> edge_exc + raw_dict list) \<Rightarrow> bool
     \<Rightarrow> fetch_result edge_step" where
  "edge_fetch names endpoint_name validate w c inside after owns s =
     (case validate (wd_idna w) (ec_base_url c) (ec_signals_path c) (ec_approved_hosts c) of
        Inl e \<Rightarrow> (Inl (endpoint_exc_class w endpoint_name e), s)
      | Inr endpoint \<Rightarrow>
          edge_bind (resolve_bearer_token w (ec_token_env c) (ec_token_secret_name c))
            (\<lambda>token s.
               (case token of
                  None \<Rightarrow> (Inr \<lparr>fr_available = False, fr_raw = [], fr_error = Some ''NoCredential''\<rparr>, s)
                | Some [] \<Rightarrow> (Inr \<lparr>fr_available = False, fr_raw = [], fr_error = Some ''NoCredential''\<rparr>, s)
                | Some tok \<Rightarrow> edge_run names w c inside after owns endpoint tok s)) s)"

text \<open>\<open>fail_closed\<close>: the observer is counted and cannot break the boundary.\<close>

definition fail_closed :: "(edge_exc + fetch_result) \<times> edge_state \<Rightarrow> fetch_result \<times> edge_state" where
  "fail_closed outcome =
     (case outcome of
        (Inr r, s) \<Rightarrow> (r, s)
      | (Inl e, s) \<Rightarrow> (\<lparr>fr_available = False, fr_raw = [], fr_error = Some (ex_class e)\<rparr>, s))"

section \<open>What a step lets out\<close>

definition is_request :: "edge_event \<Rightarrow> bool" where
  "is_request ev \<longleftrightarrow> (case ev of Requested _ _ _ \<Rightarrow> True | _ \<Rightarrow> False)"

text \<open>Every event since satisfies \<open>P\<close>, and at most \<open>n\<close> are requests.\<close>

definition emits :: "(edge_event \<Rightarrow> bool) \<Rightarrow> nat \<Rightarrow> edge_state \<Rightarrow> edge_state \<Rightarrow> bool" where
  "emits P n s s' \<longleftrightarrow>
     (\<exists>evs. es_trace s' = es_trace s @ evs \<and> list_all P evs \<and> length (filter is_request evs) \<le> n)"

lemma emits_same: "es_trace s' = es_trace s \<Longrightarrow> emits P n s s'"
  by (simp add: emits_def)

lemma emits_trans: "emits P n s s' \<Longrightarrow> emits P m s' s'' \<Longrightarrow> emits P (n + m) s s''"
  unfolding emits_def by (force simp: list_all_iff)

lemma emits_mono: "emits P n s s' \<Longrightarrow> n \<le> m \<Longrightarrow> emits P m s s'"
  unfolding emits_def by force

lemma emits_event: "P ev \<Longrightarrow> \<not> is_request ev \<Longrightarrow> emits P n s (emit_event ev s)"
  by (auto simp: emits_def emit_event_def)

lemma emits_request: "P ev \<Longrightarrow> is_request ev \<Longrightarrow> emits P 1 s (emit_event ev s)"
  by (auto simp: emits_def emit_event_def)

lemma read_clock_trace [simp]: "es_trace (snd (read_clock w s)) = es_trace s"
  by (simp add: read_clock_def)

lemma time_left_trace [simp]: "es_trace (snd (time_left w d s)) = es_trace s"
  by (simp add: time_left_def read_clock_def)

lemma read_chunks_trace: "es_trace (snd (read_chunks names w mx d br cs buf s)) = es_trace s"
  by (induction names w mx d br cs buf s rule: read_chunks.induct)
     (auto simp: read_clock_def Let_def split: option.splits)

lemma read_bounded_json_trace: "es_trace (snd (read_bounded_json names w r mx d s)) = es_trace s"
  using read_chunks_trace [of names w mx d "snd (wire_chunks r)" "fst (wire_chunks r)" "[]" s]
  by (cases "read_chunks names w mx d (snd (wire_chunks r)) (fst (wire_chunks r)) [] s";
      cases "fst (read_chunks names w mx d (snd (wire_chunks r)) (fst (wire_chunks r)) [] s)")
    (simp_all add: read_bounded_json_def)

lemma edge_attempt_emits:
  assumes "\<And>t. 0 < t \<Longrightarrow> t \<le> ec_timeout c \<Longrightarrow> P (Requested endpoint token t)" and "0 < ec_timeout c"
  shows "emits P 1 s (snd (edge_attempt names w c d endpoint token s))"
proof -
  obtain rest s1 where r: "time_left w d s = (rest, s1)" by (cases "time_left w d s")
  then have s1: "es_trace s1 = es_trace s" using time_left_trace [of w d s] by simp
  show ?thesis
  proof (cases "rest \<le> 0")
    case True
    then show ?thesis using s1 by (simp add: edge_attempt_def r emits_same)
  next
    case False
    let ?ev = "Requested endpoint token (min (ec_timeout c) rest)"
    have "P ?ev" using False assms by simp
    then have e: "emits P 1 s1 (emit_event ?ev s1)" by (rule emits_request) (simp add: is_request_def)
    have "es_trace (snd (edge_attempt names w c d endpoint token s)) = es_trace (emit_event ?ev s1)"
      using False by (simp add: edge_attempt_def r Let_def read_bounded_json_trace split: sum.splits option.splits)
    then have "emits P 0 (emit_event ?ev s1) (snd (edge_attempt names w c d endpoint token s))" by (rule emits_same)
    from emits_trans [OF e this] show ?thesis using s1 by (simp add: emits_def)
  qed
qed

lemma bounded_sleep_emits:
  assumes "\<And>x. 0 \<le> x \<Longrightarrow> x \<le> mx \<Longrightarrow> P (Slept x)" and "seconds \<le> mx" and "0 \<le> mx"
  shows "emits P 0 s (bounded_sleep w d seconds s)"
proof -
  obtain rest s1 where r: "time_left w d s = (rest, s1)" by (cases "time_left w d s")
  have "P (Slept (max 0 (min seconds rest)))" using assms by simp
  then have "emits P 0 s1 (emit_event (Slept (max 0 (min seconds rest))) s1)"
    by (rule emits_event) (simp add: is_request_def)
  then show ?thesis using time_left_trace [of w d s] by (simp add: bounded_sleep_def r emits_def)
qed

lemma retry_transient_trace: "es_trace (snd (retry_transient w d e s)) = es_trace s"
  by (simp add: retry_transient_def time_left_def read_clock_def)

lemma retry_loop_emits:
  assumes fn: "\<And>s. emits P 1 s (snd (fn s))" and retry: "\<And>e s. es_trace (snd (retry_on e s)) = es_trace s"
    and sleep: "\<And>x s. x \<le> mx \<Longrightarrow> emits P 0 s (sleep x s)"
    and jitter: "\<And>n. 0 \<le> jitter n \<and> jitter n \<le> 1" and "0 \<le> delay" "0 \<le> mx"
  shows "emits P (Suc left) s (snd (retry_loop fn retry_on sleep jitter mx left n delay s))"
  using assms(5)
proof (induction left arbitrary: n delay s)
  case 0
  then show ?case using fn by simp
next
  case (Suc left)
  obtain r s1 where f: "fn s = (r, s1)" by (cases "fn s")
  have e1: "emits P 1 s s1" using fn [of s] by (simp add: f)
  show ?case
  proof (cases r)
    case (Inr x)
    then show ?thesis using e1 by (simp add: f) (rule emits_mono [OF e1], simp)
  next
    case (Inl e)
    obtain again s2 where r2: "retry_on e s1 = (again, s2)" by (cases "retry_on e s1")
    have e2: "emits P 0 s1 s2" using retry [of e s1] by (simp add: r2 emits_same)
    show ?thesis
    proof (cases again)
      case False
      then show ?thesis using emits_mono [OF emits_trans [OF e1 e2]] by (simp add: f Inl r2)
    next
      case True
      have "min mx delay * jitter n \<le> mx"
        using jitter [of n] Suc.prems \<open>0 \<le> mx\<close> mult_left_le [of "jitter n" "min mx delay"] by simp
      then have e3: "emits P 0 s2 (sleep (min mx delay * jitter n) s2)" by (rule sleep)
      have e4: "emits P (Suc left) (sleep (min mx delay * jitter n) s2)
          (snd (retry_loop fn retry_on sleep jitter mx left (Suc n) (min mx (delay * 2)) (sleep (min mx delay * jitter n) s2)))"
        using Suc.prems \<open>0 \<le> mx\<close> by (intro Suc.IH) simp
      show ?thesis
        using emits_trans [OF emits_trans [OF emits_trans [OF e1 e2] e3] e4] True by (simp add: f Inl r2)
    qed
  qed
qed

lemma edge_bind_emits:
  assumes "emits P n s (snd (m s))" and "\<And>x s. emits P k s (snd (g x s))"
  shows "emits P (n + k) s (snd (edge_bind m g s))"
proof -
  obtain r s1 where m: "m s = (r, s1)" by (cases "m s")
  have e: "emits P n s s1" using assms(1) by (simp add: m)
  show ?thesis
  proof (cases r)
    case (Inl e)
    then show ?thesis using emits_mono [OF \<open>emits P n s s1\<close>] by (simp add: m)
  next
    case (Inr x)
    then show ?thesis using emits_trans [OF e assms(2) [of s1 x]] by (simp add: m)
  qed
qed

section \<open>Credentials and requests are contained\<close>

text \<open>What a fetch of endpoint \<open>url\<close> may let out: reads of the credential, requests of that endpoint with
  the token that was resolved and a timeout within the configured one, sleeps within the maximal delay.\<close>

definition allowed_event :: "edge_config \<Rightarrow> string \<Rightarrow> string option \<Rightarrow> edge_event \<Rightarrow> bool" where
  "allowed_event c url token ev =
     (case ev of
        Requested u t timeout \<Rightarrow> u = url \<and> Some t = token \<and> t \<noteq> [] \<and> 0 < timeout \<and> timeout \<le> ec_timeout c
      | Slept x \<Rightarrow> 0 \<le> x \<and> x \<le> ec_max_delay c
      | _ \<Rightarrow> True)"

lemma resolve_bearer_token_emits:
  assumes "P ProviderCalled" "\<And>n. P (VaultRead n)" "\<And>n. P (EnvRead n)"
  shows "emits P 0 s (snd (resolve_bearer_token w env name s))"
proof -
  let ?first = "\<lambda>s. case wd_provider w of None \<Rightarrow> (Inr None, s) | Some r \<Rightarrow> (r, emit_event ProviderCalled s)"
  let ?second = "\<lambda>token s. if token \<noteq> None \<and> token \<noteq> Some [] then (Inr token, s)
          else (case (wd_vault w, name) of
                  (Some vault, Some name) \<Rightarrow> (map_sum id Some (vault name), emit_event (VaultRead name) s)
                | _ \<Rightarrow>
                  (let s' = emit_event (EnvRead env) s in
                   case dict_get (wd_env w) env of
                     None \<Rightarrow> (Inr None, s')
                   | Some v \<Rightarrow> (Inr (if v = [] then None else Some v), s')))"
  have 1: "emits P 0 s (snd (?first s))" for s
    using assms(1) by (cases "wd_provider w") (auto intro: emits_same emits_event simp: is_request_def)
  have 2: "emits P 0 s (snd (?second token s))" for token s
    using assms(2,3) by (auto intro: emits_same emits_event simp: is_request_def Let_def split: option.splits)
  from edge_bind_emits [of P 0 s ?first 0 ?second, OF 1 2] show ?thesis by (simp add: resolve_bearer_token_def)
qed

lemma edge_run_emits:
  assumes ok: "config_ok c" and jitter: "\<And>n. 0 \<le> wd_jitter w n \<and> wd_jitter w n \<le> 1" and "token \<noteq> []"
  shows "emits (allowed_event c url (Some token)) (ec_retries c) s
     (snd (edge_run names w c inside after owns url token s))"
proof -
  let ?P = "allowed_event c url (Some token)"
  obtain start s0 where st: "read_clock w s = (start, s0)" by (cases "read_clock w s")
  have s0: "es_trace s0 = es_trace s" using read_clock_trace [of w s] by (simp add: st)
  define d where "d = start + ec_max_elapsed c"
  let ?fn = "edge_bind (edge_attempt names w c d url token) (\<lambda>payload s. (inside payload, s))"
  let ?retries = "run_with_retries ?fn (ec_retries c) (ec_base_delay c) (ec_max_delay c) (bounded_sleep w d)
      (wd_jitter w) (retry_transient w d)"
  let ?finish = "\<lambda>payload s. (case time_left w d s of (rest, s') \<Rightarrow>
      if rest \<le> 0 then (Inl (plain_exc (re_deadline names) (wd_text w (re_deadline names))), s')
      else (case after payload of Inl e \<Rightarrow> (Inl e, s')
            | Inr raw \<Rightarrow> (Inr \<lparr>fr_available = True, fr_raw = raw, fr_error = None\<rparr>, s')))"
  have c: "0 < ec_timeout c" "0 \<le> ec_max_delay c" "0 \<le> ec_base_delay c" "1 \<le> ec_retries c"
    using ok by (simp_all add: config_ok_def)
  have fn: "emits ?P 1 s (snd (?fn s))" for s
  proof -
    have "emits ?P 1 s (snd (edge_attempt names w c d url token s))"
      by (rule edge_attempt_emits) (use c \<open>token \<noteq> []\<close> in \<open>simp_all add: allowed_event_def\<close>)
    then have "emits ?P (1 + 0) s (snd (?fn s))"
      by (rule edge_bind_emits) (simp add: emits_same)
    then show ?thesis by simp
  qed
  have sleep: "emits ?P 0 s (bounded_sleep w d x s)" if "x \<le> ec_max_delay c" for x s
    by (rule bounded_sleep_emits [where mx = "ec_max_delay c"]) (use c that in \<open>simp_all add: allowed_event_def\<close>)
  have "emits ?P (ec_retries c) s0 (snd (?retries s0))"
  proof -
    have "emits ?P (Suc (ec_retries c - 1)) s0 (snd (retry_loop ?fn (retry_transient w d) (bounded_sleep w d)
        (wd_jitter w) (ec_max_delay c) (ec_retries c - 1) 1 (ec_base_delay c) s0))"
      by (rule retry_loop_emits) (use fn sleep jitter c in \<open>simp_all add: retry_transient_trace\<close>)
    then show ?thesis using c(4) by (simp add: run_with_retries_def)
  qed
  then have "emits ?P (ec_retries c + 0) s0 (snd (edge_bind ?retries ?finish s0))"
  proof (rule edge_bind_emits)
    fix x s show "emits ?P 0 s (snd (?finish x s))"
      using time_left_trace [of w d s] by (cases "time_left w d s") (simp add: emits_same split: sum.splits)
  qed
  moreover have "emits ?P 0 s1 (if owns then emit_event ClientClosed s1 else s1)" for s1
    by (cases owns) (simp_all add: emits_event emits_same allowed_event_def is_request_def)
  ultimately have "emits ?P (ec_retries c + 0 + 0) s0 (let (r, s1) = edge_bind ?retries ?finish s0
      in if owns then emit_event ClientClosed s1 else s1)"
    using emits_trans by (metis (no_types, lifting) case_prod_unfold)
  then have "emits ?P (ec_retries c) s0 (snd (edge_run names w c inside after owns url token s))"
    by (simp only: edge_run_def st d_def prod.case Let_def case_prod_unfold fst_conv snd_conv add_0_right)
  then show ?thesis using s0 by (simp add: emits_def)
qed

text \<open>The token of a fetch does not depend on the state.\<close>

lemma resolve_bearer_token_state:
  "fst (resolve_bearer_token w env name s) = fst (resolve_bearer_token w env name s')"
proof -
  have "fst (case wd_provider w of None \<Rightarrow> (Inr None, s) | Some r \<Rightarrow> (r, emit_event ProviderCalled s))
      = fst (case wd_provider w of None \<Rightarrow> (Inr None, s') | Some r \<Rightarrow> (r, emit_event ProviderCalled s'))"
    by (simp split: option.splits)
  then show ?thesis
    by (auto simp: resolve_bearer_token_def Let_def split: option.splits prod.splits sum.splits)
qed

definition token_of :: "edge_world \<Rightarrow> edge_config \<Rightarrow> string option" where
  "token_of w c =
     (case fst (resolve_bearer_token w (ec_token_env c) (ec_token_secret_name c)
                  \<lparr>es_ticks = 0, es_requests = 0, es_trace = []\<rparr>) of
        Inl _ \<Rightarrow> None | Inr t \<Rightarrow> t)"

text \<open>C37: nothing reaches the outside for an endpoint that is not approved: where the validation rejects
  it, no credential is read and no request is made. Otherwise every request goes to the URL the
  validator returned, with the token that was resolved and a positive timeout within the configured
  one; there are at most as many requests as configured attempts, and no sleep beyond the maximal delay.\<close>

theorem edge_fetch_contained:
  assumes "config_ok c" and "\<And>n. 0 \<le> wd_jitter w n \<and> wd_jitter w n \<le> 1"
  shows "case validate (wd_idna w) (ec_base_url c) (ec_signals_path c) (ec_approved_hosts c) of
      Inl _ \<Rightarrow> snd (edge_fetch names endpoint_name validate w c inside after owns s) = s
    | Inr url \<Rightarrow> emits (allowed_event c url (token_of w c)) (ec_retries c) s
        (snd (edge_fetch names endpoint_name validate w c inside after owns s))"
proof (cases "validate (wd_idna w) (ec_base_url c) (ec_signals_path c) (ec_approved_hosts c)")
  case (Inl e)
  then show ?thesis by (simp add: edge_fetch_def)
next
  case (Inr url)
  let ?P = "allowed_event c url (token_of w c)"
  let ?res = "resolve_bearer_token w (ec_token_env c) (ec_token_secret_name c)"
  obtain r s1 where r: "?res s = (r, s1)" by (cases "?res s")
  have e: "emits ?P 0 s s1"
    using resolve_bearer_token_emits [of ?P s w "ec_token_env c" "ec_token_secret_name c"] by (simp add: r allowed_event_def)
  have tok: "token_of w c = (case r of Inl _ \<Rightarrow> None | Inr t \<Rightarrow> t)"
    using resolve_bearer_token_state [of w "ec_token_env c" "ec_token_secret_name c" s "\<lparr>es_ticks = 0, es_requests = 0, es_trace = []\<rparr>"]
    by (simp add: token_of_def r)
  have run: "emits ?P (ec_retries c) s1 (snd (edge_run names w c inside after owns url t s1))"
    if "token_of w c = Some t" "t \<noteq> []" for t
    using edge_run_emits [OF assms that(2), of url s1 names inside after owns] that(1) by simp
  have "emits ?P (ec_retries c) s (snd (edge_bind ?res
      (\<lambda>token s. case token of
         None \<Rightarrow> (Inr \<lparr>fr_available = False, fr_raw = [], fr_error = Some ''NoCredential''\<rparr>, s)
       | Some [] \<Rightarrow> (Inr \<lparr>fr_available = False, fr_raw = [], fr_error = Some ''NoCredential''\<rparr>, s)
       | Some t \<Rightarrow> edge_run names w c inside after owns url t s) s))"
  proof (cases r)
    case (Inl e')
    then show ?thesis using emits_mono [OF e] by (simp add: r)
  next
    case right: (Inr t)
    show ?thesis
    proof (cases "t = None \<or> t = Some []")
      case True
      then show ?thesis using emits_mono [OF e] by (auto simp: r right)
    next
      case False
      then obtain x xs where t: "t = Some (x # xs)" by (cases t) (auto simp: neq_Nil_conv)
      then have "emits ?P (0 + ec_retries c) s (snd (edge_run names w c inside after owns url (x # xs) s1))"
        using run [of "x # xs"] by (intro emits_trans [OF e]) (simp add: tok right)
      then show ?thesis by (simp add: r right t)
    qed
  qed
  then show ?thesis by (simp add: Inr edge_fetch_def)
qed

lemma edge_fetch_contained_witness:
  "snd (edge_fetch EDGE_ERRORS edge_endpoint_name validate_https_endpoint
          \<lparr>wd_clock = (\<lambda>_. 0), wd_jitter = (\<lambda>_. 0), wd_transport = (\<lambda>_. Inl (plain_exc ''X'' [])),
           wd_json = (\<lambda>_. Inl (plain_exc ''Y'' [])), wd_idna = (\<lambda>_. None), wd_provider = None, wd_vault = None,
           wd_env = [(''T'', ''secret'')], wd_text = (\<lambda>_. [])\<rparr>
          \<lparr>ec_base_url = ''http://lb'', ec_signals_path = ''/x'', ec_approved_hosts = [''lb''], ec_timeout = 10,
           ec_token_env = ''T'', ec_token_secret_name = None, ec_retries = 3, ec_base_delay = 1, ec_max_delay = 2,
           ec_max_elapsed = 15, ec_max_response_bytes = 100, ec_max_records = 10, ec_max_field_len = 10\<rparr>
          (\<lambda>x. Inr x) (\<lambda>x. Inr []) True \<lparr>es_ticks = 0, es_requests = 0, es_trace = []\<rparr>)
     = \<lparr>es_ticks = 0, es_requests = 0, es_trace = []\<rparr>"
proof -
  have v: "validate_https_endpoint (\<lambda>_. None) ''http://lb'' ''/x'' [''lb''] = Inl InvalidEndpoint" by code_simp
  show ?thesis
    using edge_fetch_contained [of
        "\<lparr>ec_base_url = ''http://lb'', ec_signals_path = ''/x'', ec_approved_hosts = [''lb''], ec_timeout = 10,
           ec_token_env = ''T'', ec_token_secret_name = None, ec_retries = 3, ec_base_delay = 1, ec_max_delay = 2,
           ec_max_elapsed = 15, ec_max_response_bytes = 100, ec_max_records = 10, ec_max_field_len = 10\<rparr>"
        "\<lparr>wd_clock = (\<lambda>_. 0), wd_jitter = (\<lambda>_. 0), wd_transport = (\<lambda>_. Inl (plain_exc ''X'' [])),
           wd_json = (\<lambda>_. Inl (plain_exc ''Y'' [])), wd_idna = (\<lambda>_. None), wd_provider = None, wd_vault = None,
           wd_env = [(''T'', ''secret'')], wd_text = (\<lambda>_. [])\<rparr>"
        EDGE_ERRORS edge_endpoint_name validate_https_endpoint "\<lambda>x. Inr x" "\<lambda>x. Inr []" True
        "\<lparr>es_ticks = 0, es_requests = 0, es_trace = []\<rparr>"]
    by (simp add: v config_ok_def)
qed

section \<open>What an available result rests on\<close>

lemma read_chunks_Inr:
  "fst (read_chunks names w mx d br cs buf s) = Inr b \<Longrightarrow> length buf \<le> mx \<Longrightarrow> b = buf @ concat cs \<and> br = None \<and> length b \<le> mx"
proof (induction names w mx d br cs buf s rule: read_chunks.induct)
  case (1 names w mx d br buf s)
  then show ?case by (simp split: option.splits)
next
  case (2 names w mx d br chunk chunks buf s)
  then show ?case by (auto simp: read_clock_def simp del: length_concat split: if_splits)
qed

lemma edge_bind_Inr: "fst (edge_bind m g s) = Inr y \<longleftrightarrow> (\<exists>x s'. m s = (Inr x, s') \<and> fst (g x s') = Inr y)"
  by (auto split: prod.splits sum.splits)

text \<open>The response is good for the bound: no error status, no coding, no more than the bound, unbroken.\<close>

definition response_in_bounds :: "nat \<Rightarrow> wire_response \<Rightarrow> bool" where
  "response_in_bounds mx r \<longleftrightarrow>
     wr_status r = None \<and> \<not> declared_too_large mx r \<and> \<not> refused_coding r \<and> snd (wire_chunks r) = None
     \<and> length (concat (fst (wire_chunks r))) \<le> mx"

lemma edge_attempt_Inr:
  assumes "fst (edge_attempt names w c d url token s) = Inr pl"
  shows "\<exists>n r. wd_transport w n = Inr r \<and> response_in_bounds (ec_max_response_bytes c) r
     \<and> wd_json w (concat (fst (wire_chunks r))) = Inr pl"
proof -
  obtain rest s1 where t: "time_left w d s = (rest, s1)" by (cases "time_left w d s")
  from assms obtain r s3 where r: "wd_transport w (es_requests s1) = Inr r" "wr_status r = None"
    and p: "fst (read_bounded_json names w r (ec_max_response_bytes c) d s3) = Inr pl"
    by (auto simp: edge_attempt_def t Let_def emit_event_def split: if_splits sum.splits option.splits)
  then have n: "\<not> declared_too_large (ec_max_response_bytes c) r" "\<not> refused_coding r"
    and "fst (edge_bind (read_chunks names w (ec_max_response_bytes c) d (snd (wire_chunks r)) (fst (wire_chunks r)) [])
             (\<lambda>body s. (wd_json w body, s)) s3) = Inr pl"
    by (auto simp: read_bounded_json_def simp del: edge_bind.simps split: if_splits)
  then obtain body s4 where b: "read_chunks names w (ec_max_response_bytes c) d (snd (wire_chunks r)) (fst (wire_chunks r)) [] s3
      = (Inr body, s4)" and j: "wd_json w body = Inr pl"
    unfolding edge_bind_Inr by auto
  have "body = concat (fst (wire_chunks r)) \<and> snd (wire_chunks r) = None \<and> length body \<le> ec_max_response_bytes c"
    using read_chunks_Inr [of names w "ec_max_response_bytes c" d "snd (wire_chunks r)" "fst (wire_chunks r)" "[]" s3 body,
        unfolded b fst_conv] by fastforce
  then show ?thesis using r n j unfolding response_in_bounds_def by blast
qed

lemma retry_loop_Inr:
  "fst (retry_loop fn retry_on sleep jitter mx left n delay s) = Inr x \<Longrightarrow> \<exists>s'. fst (fn s') = Inr x"
proof (induction left arbitrary: n delay s)
  case 0
  then show ?case by auto
next
  case (Suc left)
  obtain r s1 where f: "fn s = (r, s1)" by (cases "fn s")
  show ?case
  proof (cases r)
    case (Inr y)
    then show ?thesis using Suc.prems by (intro exI [of _ s]) (simp add: f)
  next
    case (Inl e)
    then show ?thesis using Suc by (auto simp: f split: prod.splits bool.splits)
  qed
qed

lemma edge_run_available:
  assumes "fst (edge_run names w c inside after owns url token s) = Inr r"
  shows "\<exists>n resp pl p. wd_transport w n = Inr resp \<and> response_in_bounds (ec_max_response_bytes c) resp
     \<and> wd_json w (concat (fst (wire_chunks resp))) = Inr pl \<and> inside pl = Inr p \<and> after p = Inr (fr_raw r)
     \<and> fr_available r \<and> fr_error r = None"
proof -
  obtain start s0 where st: "read_clock w s = (start, s0)" by (cases "read_clock w s")
  let ?d = "start + ec_max_elapsed c"
  let ?fn = "edge_bind (edge_attempt names w c ?d url token) (\<lambda>pl s. (inside pl, s))"
  obtain p s1 where p: "run_with_retries ?fn (ec_retries c) (ec_base_delay c) (ec_max_delay c) (bounded_sleep w ?d)
      (wd_jitter w) (retry_transient w ?d) s0 = (Inr p, s1)"
    and fin: "fst (case time_left w ?d s1 of (rest, s') \<Rightarrow>
        if rest \<le> 0 then (Inl (plain_exc (re_deadline names) (wd_text w (re_deadline names))), s')
        else (case after p of Inl e \<Rightarrow> (Inl e, s')
              | Inr raw \<Rightarrow> (Inr \<lparr>fr_available = True, fr_raw = raw, fr_error = None\<rparr>, s'))) = Inr r"
    using assms unfolding edge_run_def st prod.case Let_def case_prod_unfold fst_conv snd_conv edge_bind_Inr
    by (auto simp: case_prod_unfold)
  obtain s2 where "fst (?fn s2) = Inr p"
    using p retry_loop_Inr [of ?fn] by (simp add: run_with_retries_def del: edge_bind.simps split: if_splits) (metis fst_conv)
  then obtain pl s3 where "edge_attempt names w c ?d url token s2 = (Inr pl, s3)" "inside pl = Inr p"
    unfolding edge_bind_Inr by auto
  moreover have "after p = Inr (fr_raw r) \<and> fr_available r \<and> fr_error r = None"
    using fin by (auto split: prod.splits if_splits sum.splits)
  ultimately show ?thesis using edge_attempt_Inr [of names w c ?d url token s2 pl] by auto
qed

lemma edge_result_complete:
  assumes "fail_closed (edge_fetch names endpoint_name validate w c inside after owns s) = (r, s')"
  shows "if fr_available r then
       (\<exists>url tok n resp pl p. validate (wd_idna w) (ec_base_url c) (ec_signals_path c) (ec_approved_hosts c) = Inr url
          \<and> token_of w c = Some tok \<and> tok \<noteq> []
          \<and> wd_transport w n = Inr resp \<and> response_in_bounds (ec_max_response_bytes c) resp
          \<and> wd_json w (concat (fst (wire_chunks resp))) = Inr pl \<and> inside pl = Inr p \<and> after p = Inr (fr_raw r)
          \<and> fr_error r = None)
     else fr_raw r = [] \<and> (fr_error r = Some ''NoCredential''
       \<or> (\<exists>e. fst (edge_fetch names endpoint_name validate w c inside after owns s) = Inl e \<and> fr_error r = Some (ex_class e)))"
proof -
  obtain res s1 where f: "edge_fetch names endpoint_name validate w c inside after owns s = (res, s1)"
    by (cases "edge_fetch names endpoint_name validate w c inside after owns s")
  show ?thesis
  proof (cases res)
    case (Inl e)
    then show ?thesis using assms by (auto simp: f fail_closed_def)
  next
    case (Inr r')
    then have r: "r = r'" using assms by (simp add: f fail_closed_def)
    from f Inr obtain url where url: "validate (wd_idna w) (ec_base_url c) (ec_signals_path c) (ec_approved_hosts c) = Inr url"
      by (cases "validate (wd_idna w) (ec_base_url c) (ec_signals_path c) (ec_approved_hosts c)") (simp_all add: edge_fetch_def)
    let ?k = "\<lambda>token s. case token of
         None \<Rightarrow> (Inr \<lparr>fr_available = False, fr_raw = [], fr_error = Some ''NoCredential''\<rparr>, s)
       | Some [] \<Rightarrow> (Inr \<lparr>fr_available = False, fr_raw = [], fr_error = Some ''NoCredential''\<rparr>, s)
       | Some t \<Rightarrow> edge_run names w c inside after owns url t s"
    have "edge_bind (resolve_bearer_token w (ec_token_env c) (ec_token_secret_name c)) ?k s = (Inr r, s1)"
      using f by (simp add: edge_fetch_def url Inr r)
    then have "fst (edge_bind (resolve_bearer_token w (ec_token_env c) (ec_token_secret_name c)) ?k s) = Inr r"
      by (simp only: fst_conv)
    then obtain token s2 where t: "resolve_bearer_token w (ec_token_env c) (ec_token_secret_name c) s = (Inr token, s2)"
      and k: "fst (?k token s2) = Inr r" unfolding edge_bind_Inr by blast
    have "fst (resolve_bearer_token w (ec_token_env c) (ec_token_secret_name c) \<lparr>es_ticks = 0, es_requests = 0, es_trace = []\<rparr>)
        = Inr token" using t resolve_bearer_token_state by (metis fst_conv)
    then have tok: "token_of w c = token" by (simp add: token_of_def)
    show ?thesis
    proof (cases "token = None \<or> token = Some []")
      case True
      then show ?thesis using k by auto
    next
      case False
      then obtain x xs where x: "token = Some (x # xs)" by (cases token) (auto simp: neq_Nil_conv)
      then have "fst (edge_run names w c inside after owns url (x # xs) s2) = Inr r" using k by simp
      from edge_run_available [OF this] show ?thesis using url tok x by auto
    qed
  qed
qed

lemma edge_result_transformed:
  assumes "fr_available (fst (fail_closed (edge_fetch names endpoint_name validate w c inside after owns s)))"
  shows "\<exists>v p. inside v = Inr p
    \<and> after p = Inr (fr_raw (fst (fail_closed (edge_fetch names endpoint_name validate w c inside after owns s))))"
  using edge_result_complete [of names endpoint_name validate w c inside after owns s
      "fst (fail_closed (edge_fetch names endpoint_name validate w c inside after owns s))"
      "snd (fail_closed (edge_fetch names endpoint_name validate w c inside after owns s))"] assms
  by auto

text \<open>a result is available only where a response came back complete, without an error status, in no
  content coding and within the byte bound, its body decoded, and its payload passed every transform;
  otherwise the result carries no data, and its error is exactly the class name of the exception that was
  raised, never its message, or that no credential was found. Of an available result the endpoint was
  approved and a token resolved.\<close>

theorem edge_available_exact:
  assumes "fail_closed (edge_fetch names endpoint_name validate w c inside after owns s) = (r, s')"
  shows "if fr_available r then
       (\<exists>url tok n resp pl p. validate (wd_idna w) (ec_base_url c) (ec_signals_path c) (ec_approved_hosts c) = Inr url
          \<and> token_of w c = Some tok \<and> tok \<noteq> []
          \<and> wd_transport w n = Inr resp \<and> response_in_bounds (ec_max_response_bytes c) resp
          \<and> wd_json w (concat (fst (wire_chunks resp))) = Inr pl \<and> inside pl = Inr p \<and> after p = Inr (fr_raw r)
          \<and> fr_error r = None)
     else fr_raw r = [] \<and> (fr_error r = Some ''NoCredential''
       \<or> (\<exists>e. fst (edge_fetch names endpoint_name validate w c inside after owns s) = Inl e \<and> fr_error r = Some (ex_class e)))"
  using assms by (rule edge_result_complete)

section \<open>Recovery\<close>

text \<open>While the deadline holds, the reader takes a response within its bounds whole.\<close>

lemma read_chunks_complete:
  assumes "\<And>n. wd_clock w n < d"
  shows "length buf + length (concat cs) \<le> mx \<Longrightarrow> \<exists>s'. read_chunks names w mx d None cs buf s = (Inr (buf @ concat cs), s')"
proof (induction cs arbitrary: buf s)
  case (Cons chunk cs)
  have "\<not> d \<le> wd_clock w (es_ticks s)" using assms by (simp add: not_le)
  moreover have "\<exists>s'. read_chunks names w mx d None cs (buf @ chunk) (s\<lparr>es_ticks := Suc (es_ticks s)\<rparr>)
      = (Inr ((buf @ chunk) @ concat cs), s')" using Cons.prems by (intro Cons.IH) simp
  ultimately show ?case using Cons.prems by (simp add: read_clock_def)
qed simp

lemma edge_attempt_complete:
  assumes clock: "\<And>n. wd_clock w n < d" and r: "wd_transport w (es_requests s) = Inr r"
    and ok: "response_in_bounds (ec_max_response_bytes c) r" and j: "wd_json w (concat (fst (wire_chunks r))) = Inr pl"
  shows "\<exists>s'. edge_attempt names w c d url token s = (Inr pl, s')"
proof -
  have "\<not> d - wd_clock w (es_ticks s) \<le> 0" using clock [of "es_ticks s"] by (simp add: not_le)
  moreover have "\<exists>s'. read_bounded_json names w r (ec_max_response_bytes c) d s1 = (Inr pl, s')" for s1
    using ok j read_chunks_complete [OF clock, of "[]" "fst (wire_chunks r)" "ec_max_response_bytes c" names s1]
    by (auto simp: read_bounded_json_def response_in_bounds_def)
  ultimately show ?thesis
    using r ok by (simp add: edge_attempt_def time_left_def read_clock_def emit_event_def Let_def response_in_bounds_def)
qed

lemma edge_attempt_fails:
  assumes "\<And>n. wd_clock w n < d" and "wd_transport w (es_requests s) = Inl e"
  shows "\<exists>s'. edge_attempt names w c d url token s = (Inl e, s') \<and> es_requests s' = Suc (es_requests s)"
proof -
  have "\<not> d - wd_clock w (es_ticks s) \<le> 0" using assms(1) [of "es_ticks s"] by (simp add: not_le)
  then show ?thesis using assms(2) by (simp add: edge_attempt_def time_left_def read_clock_def emit_event_def Let_def)
qed

lemma retry_loop_recovers:
  assumes good: "\<And>s. es_requests s = m \<Longrightarrow> \<exists>s'. fn s = (Inr x, s')"
    and bad: "\<And>s. lo \<le> es_requests s \<Longrightarrow> es_requests s < m \<Longrightarrow> \<exists>e s'. fn s = (Inl e, s') \<and> es_requests s' = Suc (es_requests s)
        \<and> fst (retry_on e s') \<and> es_requests (snd (retry_on e s')) = es_requests s'"
    and sleep: "\<And>y s. es_requests (sleep y s) = es_requests s"
  shows "lo \<le> es_requests s \<Longrightarrow> es_requests s \<le> m \<Longrightarrow> m \<le> es_requests s + left \<Longrightarrow>
    \<exists>s'. retry_loop fn retry_on sleep jitter mx left n delay s = (Inr x, s')"
proof (induction left arbitrary: n delay s)
  case 0
  then show ?case using good [of s] by auto
next
  case (Suc left)
  show ?case
  proof (cases "es_requests s = m")
    case True
    then show ?thesis using good [of s] by auto
  next
    case False
    then obtain e s1 where f: "fn s = (Inl e, s1)" "es_requests s1 = Suc (es_requests s)" "fst (retry_on e s1)"
      "es_requests (snd (retry_on e s1)) = es_requests s1" using bad [of s] Suc.prems(1,2) by auto
    obtain s2 where r: "retry_on e s1 = (True, s2)" using f(3) by (cases "retry_on e s1") auto
    have "\<exists>s'. retry_loop fn retry_on sleep jitter mx left (Suc n) (min mx (delay * 2)) (sleep (min mx delay * jitter n) s2)
        = (Inr x, s')"
      using Suc.prems False f(2,4) r by (intro Suc.IH) (simp_all add: sleep)
    then show ?thesis by (simp add: f(1) r)
  qed
qed

lemma bounded_sleep_requests: "es_requests (bounded_sleep w d y s) = es_requests s"
  by (simp add: bounded_sleep_def time_left_def read_clock_def emit_event_def)

lemma resolve_bearer_token_requests: "es_requests (snd (resolve_bearer_token w env name s)) = es_requests s"
  by (auto simp: resolve_bearer_token_def emit_event_def Let_def split: option.splits prod.splits sum.splits)

text \<open>C38: the fetch recovers: with an approved endpoint, a token, and a clock that stays within the
  deadline, it returns the data of the first good response, however many transport errors came before,
  as long as an attempt is left for it.\<close>

theorem edge_fetch_recovers:
  assumes url: "validate (wd_idna w) (ec_base_url c) (ec_signals_path c) (ec_approved_hosts c) = Inr url"
    and token: "token_of w c = Some tok" "tok \<noteq> []"
    and errors: "\<And>i. i < k \<Longrightarrow> \<exists>e. wd_transport w (es_requests s + i) = Inl e \<and> ex_transport e"
    and r: "wd_transport w (es_requests s + k) = Inr resp" "response_in_bounds (ec_max_response_bytes c) resp"
      "wd_json w (concat (fst (wire_chunks resp))) = Inr pl" "inside pl = Inr p" "after p = Inr raw"
    and k: "k < ec_retries c" and clock: "\<And>i j. wd_clock w i < wd_clock w j + ec_max_elapsed c"
  shows "fst (fail_closed (edge_fetch names endpoint_name validate w c inside after owns s))
    = \<lparr>fr_available = True, fr_raw = raw, fr_error = None\<rparr>"
proof -
  have run: "fst (edge_run names w c inside after owns url tok s1) = Inr \<lparr>fr_available = True, fr_raw = raw, fr_error = None\<rparr>"
    if s1: "es_requests s1 = es_requests s" for s1
  proof -
    obtain start s0 where st: "read_clock w s1 = (start, s0)" by (cases "read_clock w s1")
    then have s0: "es_requests s0 = es_requests s" and start: "start = wd_clock w (es_ticks s1)"
      using s1 by (auto simp: read_clock_def)
    define d where "d = start + ec_max_elapsed c"
    have clk: "wd_clock w n < d" for n using clock by (simp add: d_def start)
    let ?fn = "edge_bind (edge_attempt names w c d url tok) (\<lambda>payload s. (inside payload, s))"
    have "\<exists>s'. retry_loop ?fn (retry_transient w d) (bounded_sleep w d) (wd_jitter w) (ec_max_delay c)
        (ec_retries c - 1) 1 (ec_base_delay c) s0 = (Inr p, s')"
    proof (rule retry_loop_recovers [where m = "es_requests s + k" and lo = "es_requests s"])
      fix s' :: edge_state assume "es_requests s' = es_requests s + k"
      then show "\<exists>s''. ?fn s' = (Inr p, s'')"
        using edge_attempt_complete [OF clk, of s' resp c pl names url tok] r by auto
    next
      fix s' :: edge_state assume le: "es_requests s \<le> es_requests s'" and lt: "es_requests s' < es_requests s + k"
      have "es_requests s' = es_requests s + (es_requests s' - es_requests s)" "es_requests s' - es_requests s < k"
        using le lt by simp_all
      then obtain e where e: "wd_transport w (es_requests s') = Inl e" "ex_transport e" using errors by metis
      from edge_attempt_fails [OF clk e(1), of names c url tok] obtain s'' where
        "edge_attempt names w c d url tok s' = (Inl e, s'')" "es_requests s'' = Suc (es_requests s')" by blast
      then show "\<exists>e s''. ?fn s' = (Inl e, s'') \<and> es_requests s'' = Suc (es_requests s') \<and> fst (retry_transient w d e s'')
          \<and> es_requests (snd (retry_transient w d e s'')) = es_requests s''"
        using e(2) clk by (auto simp: retry_transient_def time_left_def read_clock_def)
    qed (use s0 k in \<open>simp_all add: bounded_sleep_requests\<close>)
    then obtain s2 where "run_with_retries ?fn (ec_retries c) (ec_base_delay c) (ec_max_delay c) (bounded_sleep w d)
        (wd_jitter w) (retry_transient w d) s0 = (Inr p, s2)" using k by (auto simp: run_with_retries_def)
    moreover obtain rest s3 where "time_left w d s2 = (rest, s3)" "\<not> rest \<le> 0"
      using clk [of "es_ticks s2"] by (auto simp: time_left_def read_clock_def not_le)
    ultimately show ?thesis
      using r(5) by (simp add: edge_run_def st d_def [symmetric] Let_def split_beta)
  qed
  obtain res s1 where res: "resolve_bearer_token w (ec_token_env c) (ec_token_secret_name c) s = (res, s1)"
    by (cases "resolve_bearer_token w (ec_token_env c) (ec_token_secret_name c) s")
  then have "fst (resolve_bearer_token w (ec_token_env c) (ec_token_secret_name c) \<lparr>es_ticks = 0, es_requests = 0, es_trace = []\<rparr>)
      = res" using resolve_bearer_token_state by (metis fst_conv)
  then have tok: "res = Inr (Some tok)" using token(1) by (auto simp: token_of_def split: sum.splits)
  have "es_requests s1 = es_requests s" using resolve_bearer_token_requests [of w _ _ s] by (metis res snd_conv)
  from run [OF this] show ?thesis
    using token(2) by (cases tok) (simp_all add: edge_fetch_def url res tok fail_closed_def split_beta)
qed

text \<open>A world where the first request fails on the wire and the second is answered.\<close>

definition flaky_world :: edge_world where
  "flaky_world =
     \<lparr>wd_clock = (\<lambda>_. 0), wd_jitter = (\<lambda>_. 0),
      wd_transport = (\<lambda>n. if n = 0 then Inl \<lparr>ex_class = ''ConnectError'', ex_message = ''secret'', ex_transport = True\<rparr>
        else Inr \<lparr>wr_status = None, wr_content_length = None, wr_content_encoding = None, wr_buffered = None,
                  wr_chunks = [[110, 117], [108, 108]], wr_broken = None\<rparr>),
      wd_json = (\<lambda>_. Inr VNone), wd_idna = (\<lambda>_. None), wd_provider = None, wd_vault = None,
      wd_env = [(''T'', ''secret'')], wd_text = (\<lambda>_. [])\<rparr>"

definition flaky_config :: edge_config where
  "flaky_config =
     \<lparr>ec_base_url = ''https://lb'', ec_signals_path = ''/x'', ec_approved_hosts = [''lb''], ec_timeout = 10,
      ec_token_env = ''T'', ec_token_secret_name = None, ec_retries = 3, ec_base_delay = 1, ec_max_delay = 2,
      ec_max_elapsed = 15, ec_max_response_bytes = 100, ec_max_records = 10, ec_max_field_len = 10\<rparr>"

lemma flaky_facts:
  "validate_https_endpoint (wd_idna flaky_world) (ec_base_url flaky_config) (ec_signals_path flaky_config)
     (ec_approved_hosts flaky_config) = Inr ''https://lb/x''"
  "token_of flaky_world flaky_config = Some ''secret''"
  by code_simp+

lemma edge_fetch_recovers_witness:
  "fst (fail_closed (edge_fetch EDGE_ERRORS edge_endpoint_name validate_https_endpoint flaky_world flaky_config
          (\<lambda>x. Inr x) (\<lambda>x. Inr []) True \<lparr>es_ticks = 0, es_requests = 0, es_trace = []\<rparr>))
     = \<lparr>fr_available = True, fr_raw = [], fr_error = None\<rparr>"
  by (rule edge_fetch_recovers [where url = "''https://lb/x''" and tok = "''secret''" and k = 1 and pl = VNone and p = VNone
        and resp = "\<lparr>wr_status = None, wr_content_length = None, wr_content_encoding = None, wr_buffered = None,
                  wr_chunks = [[110, 117], [108, 108]], wr_broken = None\<rparr>"])
    (simp_all add: flaky_facts, simp_all add: flaky_world_def flaky_config_def response_in_bounds_def
      declared_too_large_def refused_coding_def wire_chunks_def py_lower_def py_strip_def)

lemma edge_available_exact_witness:
  "\<exists>tok. token_of flaky_world flaky_config = Some tok \<and> tok \<noteq> []"
proof -
  let ?out = "fail_closed (edge_fetch EDGE_ERRORS edge_endpoint_name validate_https_endpoint flaky_world flaky_config
          (\<lambda>x. Inr x) (\<lambda>x. Inr []) True \<lparr>es_ticks = 0, es_requests = 0, es_trace = []\<rparr>)"
  have "fr_available (fst ?out)" by code_simp
  then show ?thesis using edge_available_exact [of EDGE_ERRORS edge_endpoint_name validate_https_endpoint
      flaky_world flaky_config "\<lambda>x. Inr x" "\<lambda>x. Inr []" True "\<lparr>es_ticks = 0, es_requests = 0, es_trace = []\<rparr>"
      "fst ?out" "snd ?out"] by auto
qed

end
