(* ===== verification/Vendor_Clients.thy ===== *)
theory Vendor_Clients
  imports Edge_Client Lb_Signals Citrix_Signals
begin

text \<open>
  The read-only clients over the HTTPS edge: the NetScaler and the F5 client
  (\<open>src/shared/connectors/netscaler.py\<close>, \<open>src/shared/connectors/f5.py\<close>) with their envelope parsers, and
  the client of the Citrix connector.
\<close>

section \<open>Exceptions of a transform\<close>

text \<open>The class of what a transform raises: a \<open>ValueError\<close> out of a signal model is its
  \<open>ValidationError\<close>. \<open>text_of\<close> gives the message, whatever it is.\<close>

definition signal_exc_class :: "(string \<Rightarrow> string) \<Rightarrow> string \<Rightarrow> signal_exc \<Rightarrow> edge_exc" where
  "signal_exc_class text_of signal_error e =
     (let cls = (case e of
        SignalError \<Rightarrow> signal_error
      | SignalRaised ValueError \<Rightarrow> ''ValidationError''
      | SignalRaised TypeError \<Rightarrow> ''TypeError''
      | SignalRaised KeyError \<Rightarrow> ''KeyError''
      | SignalRaised AttributeError \<Rightarrow> ''AttributeError''
      | SignalRaised ZeroDivisionError \<Rightarrow> ''ZeroDivisionError''
      | SignalRaised OverflowError \<Rightarrow> ''OverflowError''
      | SignalRaised RuntimeError \<Rightarrow> ''RuntimeError'')
      in plain_exc cls (text_of cls))"

section \<open>Reading an envelope\<close>

text \<open>\<open>d.get(k)\<close>.\<close>

definition val_get :: "raw_dict \<Rightarrow> string \<Rightarrow> pyval" where
  "val_get d k = (case vget d k of None \<Rightarrow> VNone | Some v \<Rightarrow> v)"

text \<open>A value that must be a list of objects, each of which is read.\<close>

definition read_entries :: "(raw_dict \<Rightarrow> signal_exc + 'a) \<Rightarrow> pyval \<Rightarrow> signal_exc + 'a list" where
  "read_entries f v =
     (case v of
        VList xs \<Rightarrow> rseq (map (\<lambda>x. case x of VDict d \<Rightarrow> f d | _ \<Rightarrow> Inl SignalError) xs)
      | _ \<Rightarrow> Inl SignalError)"

definition member_record :: "string \<Rightarrow> pyval \<Rightarrow> string \<Rightarrow> pyval" where
  "member_record lb_id member_id health =
     VDict [(VStr ''kind'', VStr BACKEND_MEMBER_KIND), (VStr ''lbId'', VStr lb_id),
            (VStr ''memberId'', member_id), (VStr ''health'', VStr health)]"

definition log_record :: "string \<Rightarrow> raw_dict \<Rightarrow> pyval" where
  "log_record id_key entry =
     VDict [(VStr ''kind'', VStr LOG_SIGNAL_KIND), (VStr ''lbId'', val_get entry id_key),
            (VStr ''metric'', val_get entry ''metric''), (VStr ''value'', val_get entry ''value'')]"

text \<open>The optional log section.\<close>

definition log_records :: "string \<Rightarrow> pyval \<Rightarrow> signal_exc + pyval list" where
  "log_records id_key logs =
     (if logs = VNone then Inr [] else read_entries (\<lambda>entry. Inr (log_record id_key entry)) logs)"

section \<open>NetScaler\<close>

definition NITRO_MEMBERSHIP_KEY :: string where
  "NITRO_MEMBERSHIP_KEY = ''lbvserver_binding''"

definition NITRO_LOGSUMMARY_KEY :: string where
  "NITRO_LOGSUMMARY_KEY = ''logsummary''"

definition NITRO_STATE_MAP :: "(string, string) dict" where
  "NITRO_STATE_MAP =
     [(''UP'', ''up''), (''DOWN'', ''down''), (''OUT OF SERVICE'', ''degraded''), (''OUT_OF_SERVICE'', ''degraded''),
      (''TRANSITION TO OUT OF SERVICE'', ''degraded''), (''UNKNOWN'', ''unknown'')]"

text \<open>\<open>str.upper\<close>: sharp s becomes two letters; the capitals of the micro sign and of y with diaeresis lie
  beyond the characters of the model and are kept, which no key of the map can tell.\<close>

definition char_upper :: "char \<Rightarrow> string" where
  "char_upper c =
     (let n = (of_char c :: nat)
      in if n = 223 then ''SS''
         else if (97 \<le> n \<and> n \<le> 122) \<or> (224 \<le> n \<and> n \<le> 254 \<and> n \<noteq> 247) then [char_of (n - 32)]
         else [c])"

definition py_upper :: "string \<Rightarrow> string" where
  "py_upper s = concat (map char_upper s)"

definition map_state :: "pyval \<Rightarrow> string" where
  "map_state v =
     (case str_key v of
        None \<Rightarrow> ''unknown''
      | Some s \<Rightarrow> (case dict_get NITRO_STATE_MAP (py_upper (py_strip s)) of None \<Rightarrow> ''unknown'' | Some t \<Rightarrow> t))"

text \<open>\<open>errorcode in (None, 0)\<close>, by equality of values.\<close>

definition errorcode_clear :: "pyval \<Rightarrow> bool" where
  "errorcode_clear v \<longleftrightarrow> v \<in> {VNone, VInt 0, VBool False, VFloat (PFin 0), VFloat PNegZero}"

definition nitro_member :: "string \<Rightarrow> raw_dict \<Rightarrow> pyval" where
  "nitro_member lb_id m = member_record lb_id (val_get m ''resourceId'') (map_state (val_get m ''state''))"

definition nitro_binding :: "raw_dict \<Rightarrow> signal_exc + pyval list" where
  "nitro_binding binding =
     (case str_key (val_get binding ''name'') of
        None \<Rightarrow> Inl SignalError
      | Some lb_id \<Rightarrow>
          if lb_id = [] then Inl SignalError
          else read_entries (\<lambda>m. Inr (nitro_member lb_id m)) (val_get binding ''members''))"

definition parse_nitro :: "pyval \<Rightarrow> signal_exc + pyval list" where
  "parse_nitro v =
     (case v of
        VDict d \<Rightarrow>
          if \<not> errorcode_clear (val_get d ''errorcode'') then Inl SignalError
          else if vget d NITRO_MEMBERSHIP_KEY = None then Inl SignalError
          else rbind (read_entries nitro_binding (val_get d NITRO_MEMBERSHIP_KEY)) (\<lambda>members.
               rbind (log_records ''resourceId'' (val_get d NITRO_LOGSUMMARY_KEY)) (\<lambda>logs.
               Inr (concat members @ logs)))
      | _ \<Rightarrow> Inl SignalError)"

section \<open>F5\<close>

definition ICONTROL_ITEMS_KEY :: string where
  "ICONTROL_ITEMS_KEY = ''items''"

definition ICONTROL_LOGSUMMARY_KEY :: string where
  "ICONTROL_LOGSUMMARY_KEY = ''logSummary''"

definition F5_STATE_MAP :: "(string, string) dict" where
  "F5_STATE_MAP =
     [(''up'', ''up''), (''down'', ''down''), (''unchecked'', ''unknown''), (''enabled'', ''up''), (''disabled'', ''degraded'')]"

definition F5_DEGRADED_SESSIONS :: "string list" where
  "F5_DEGRADED_SESSIONS = [''user-disabled'', ''monitor-disabled'']"

definition map_member_health :: "raw_dict \<Rightarrow> string" where
  "map_member_health m =
     (let token = (\<lambda>k. map_option (\<lambda>s. py_lower (py_strip s)) (raw_field m k)) in
      if (case token ''session'' of None \<Rightarrow> False | Some s \<Rightarrow> s \<in> set F5_DEGRADED_SESSIONS) then ''degraded''
      else (case Option.bind (token ''state'') (dict_get F5_STATE_MAP) of None \<Rightarrow> ''unknown'' | Some t \<Rightarrow> t))"

definition icontrol_member :: "string \<Rightarrow> raw_dict \<Rightarrow> pyval" where
  "icontrol_member lb_id m = member_record lb_id (val_get m ''fullPath'') (map_member_health m)"

definition icontrol_pool :: "raw_dict \<Rightarrow> signal_exc + pyval list" where
  "icontrol_pool pool =
     (case str_key (val_get pool ''fullPath'') of
        None \<Rightarrow> Inl SignalError
      | Some lb_id \<Rightarrow>
          if lb_id = [] then Inl SignalError
          else (case val_get pool ''membersReference'' of
                  VDict members_ref \<Rightarrow>
                    read_entries (\<lambda>m. Inr (icontrol_member lb_id m)) (val_get members_ref ''items'')
                | _ \<Rightarrow> Inl SignalError))"

definition parse_icontrol :: "pyval \<Rightarrow> signal_exc + pyval list" where
  "parse_icontrol v =
     (case v of
        VDict d \<Rightarrow>
          if vget d ICONTROL_ITEMS_KEY = None then Inl SignalError
          else rbind (read_entries icontrol_pool (val_get d ICONTROL_ITEMS_KEY)) (\<lambda>members.
               rbind (log_records ''fullPath'' (val_get d ICONTROL_LOGSUMMARY_KEY)) (\<lambda>logs.
               Inr (concat members @ logs)))
      | _ \<Rightarrow> Inl SignalError)"

section \<open>The clients\<close>

definition http_edge_defaults :: edge_config where
  "http_edge_defaults =
     \<lparr>ec_base_url = [], ec_signals_path = ''/'', ec_approved_hosts = [], ec_timeout = 10, ec_token_env = [],
      ec_token_secret_name = None, ec_retries = 3, ec_base_delay = 1 / 5, ec_max_delay = 2, ec_max_elapsed = 15,
      ec_max_response_bytes = 1048576, ec_max_records = 1000, ec_max_field_len = 512\<rparr>"

definition netscaler_defaults :: edge_config where
  "netscaler_defaults = http_edge_defaults
     \<lparr>ec_signals_path := ''/nitro/v1/config/lbvserver_binding'', ec_token_env := ''NETSCALER_READ_TOKEN''\<rparr>"

definition f5_defaults :: edge_config where
  "f5_defaults = http_edge_defaults\<lparr>ec_signals_path := ''/mgmt/tm/ltm/pool'', ec_token_env := ''F5_READ_TOKEN''\<rparr>"

definition citrix_defaults :: edge_config where
  "citrix_defaults = http_edge_defaults
     \<lparr>ec_signals_path := ''/v1/control-plane/signals'', ec_token_env := ''CITRIX_READ_TOKEN''\<rparr>"

text \<open>The two vendors, whose clients differ in their parser and their defaults only.\<close>

datatype lb_vendor = NetScaler | F5

fun vendor_parse :: "lb_vendor \<Rightarrow> pyval \<Rightarrow> signal_exc + pyval list" where
  "vendor_parse NetScaler = parse_nitro"
| "vendor_parse F5 = parse_icontrol"

definition lb_transform :: "(string \<Rightarrow> string) \<Rightarrow> lb_vendor \<Rightarrow> edge_config \<Rightarrow> pyval \<Rightarrow> edge_exc + raw_dict list" where
  "lb_transform text_of vendor c v =
     map_sum (signal_exc_class text_of ''LbSignalError'') id
       (rbind (vendor_parse vendor v) (\<lambda>records.
        rbind (lb_parse_signals_atomic (ec_max_records c) (ec_max_field_len c) records) (\<lambda>signals.
        Inr (signals_to_raw signals))))"

definition lb_fetch_raw :: "lb_vendor \<Rightarrow> edge_world \<Rightarrow> edge_config \<Rightarrow> bool \<Rightarrow> edge_state \<Rightarrow> fetch_result \<times> edge_state" where
  "lb_fetch_raw vendor w c owns s =
     fail_closed (edge_fetch EDGE_ERRORS edge_endpoint_name validate_https_endpoint w c Inr (lb_transform (wd_text w) vendor c) owns s)"

text \<open>\<open>coerce_dict_list\<close>: a bare list of objects, or an envelope with exactly one of the keys.\<close>

definition coerce_dict_list :: "string list \<Rightarrow> pyval \<Rightarrow> raw_dict list option" where
  "coerce_dict_list key_candidates v =
     (let dicts = (\<lambda>items. if list_all (\<lambda>x. case x of VDict _ \<Rightarrow> True | _ \<Rightarrow> False) items
                           then Some (List.map_filter (\<lambda>x. case x of VDict d \<Rightarrow> Some d | _ \<Rightarrow> None) items) else None)
      in case v of
           VList items \<Rightarrow> dicts items
         | VDict d \<Rightarrow>
             (case filter (\<lambda>k. vget d k \<noteq> None) key_candidates of
                [k] \<Rightarrow> (case val_get d k of VList items \<Rightarrow> dicts items | _ \<Rightarrow> None)
              | _ \<Rightarrow> None)
         | _ \<Rightarrow> None)"

definition CITRIX_ERRORS :: reader_errors where
  "CITRIX_ERRORS = \<lparr>re_too_large = ''CitrixResponseTooLarge'', re_invalid = ''InvalidCitrixResponse'',
     re_deadline = ''CitrixDeadlineExceeded''\<rparr>"

definition citrix_endpoint_name :: "endpoint_exc \<Rightarrow> string" where
  "citrix_endpoint_name e =
     (case e of
        InvalidEndpoint \<Rightarrow> ''InvalidCitrixEndpoint''
      | EndpointNotApproved \<Rightarrow> ''CitrixEndpointNotApproved''
      | EndpointRaised _ \<Rightarrow> ''ValueError'')"

definition citrix_transform :: "(string \<Rightarrow> string) \<Rightarrow> edge_config \<Rightarrow> pyval \<Rightarrow> edge_exc + raw_dict list" where
  "citrix_transform text_of c v =
     map_sum (signal_exc_class text_of ''CitrixSignalError'') id
       (case coerce_dict_list [''signals'', ''value'', ''data''] v of
          None \<Rightarrow> Inl SignalError
        | Some records \<Rightarrow>
            rbind (citrix_parse_signals_atomic (ec_max_records c) (ec_max_field_len c) (map VDict records)) (\<lambda>signals.
            Inr (citrix_signals_to_raw signals)))"

definition citrix_fetch_raw :: "edge_world \<Rightarrow> edge_config \<Rightarrow> bool \<Rightarrow> edge_state \<Rightarrow> fetch_result \<times> edge_state" where
  "citrix_fetch_raw w c owns s =
     fail_closed (edge_fetch CITRIX_ERRORS citrix_endpoint_name citrix_validate_endpoint w c (citrix_transform (wd_text w) c) Inr owns s)"

section \<open>The topology a vendor reports\<close>

definition entries_of :: "pyval \<Rightarrow> raw_dict list" where
  "entries_of v = (case v of VList xs \<Rightarrow> List.map_filter (\<lambda>x. case x of VDict d \<Rightarrow> Some d | _ \<Rightarrow> None) xs | _ \<Rightarrow> [])"

lemma read_entries_Inr: "read_entries f v = Inr ys \<Longrightarrow> list_all2 (\<lambda>d y. f d = Inr y) (entries_of v) ys"
proof -
  assume "read_entries f v = Inr ys"
  then obtain xs where v: "v = VList xs"
    and "list_all2 (\<lambda>x y. (case x of VDict d \<Rightarrow> f d | _ \<Rightarrow> Inl SignalError) = Inr y) xs ys"
    by (auto simp: read_entries_def rseq_map_all2 split: pyval.split_asm)
  from this(2) show ?thesis
    unfolding v entries_of_def pyval.case
    by (induction rule: list_all2_induct) (auto simp: map_filter_simps split: pyval.split_asm)
qed

text \<open>A member as its balancer, its resource and its health, each as far as it is text.\<close>

type_synonym topology = "(string option \<times> string option \<times> string) list"

definition nitro_members :: "raw_dict \<Rightarrow> topology" where
  "nitro_members b =
     map (\<lambda>m. (str_key (val_get b ''name''), str_key (val_get m ''resourceId''), map_state (val_get m ''state'')))
       (entries_of (val_get b ''members''))"

definition nitro_topology :: "raw_dict \<Rightarrow> topology" where
  "nitro_topology d = concat (map nitro_members (entries_of (val_get d NITRO_MEMBERSHIP_KEY)))"

definition icontrol_members :: "raw_dict \<Rightarrow> topology" where
  "icontrol_members p =
     map (\<lambda>m. (str_key (val_get p ''fullPath''), str_key (val_get m ''fullPath''), map_member_health m))
       (case val_get p ''membersReference'' of VDict r \<Rightarrow> entries_of (val_get r ''items'') | _ \<Rightarrow> [])"

definition icontrol_topology :: "raw_dict \<Rightarrow> topology" where
  "icontrol_topology d = concat (map icontrol_members (entries_of (val_get d ICONTROL_ITEMS_KEY)))"

definition record_of :: "string \<times> pyval \<times> string \<Rightarrow> pyval" where
  "record_of t = (case t of (l, i, h) \<Rightarrow> member_record l i h)"

definition triple_key :: "string \<times> pyval \<times> string \<Rightarrow> string option \<times> string option \<times> string" where
  "triple_key t = (case t of (l, i, h) \<Rightarrow> (Some l, str_key i, h))"

definition member_key :: "member_hint \<Rightarrow> string option \<times> string option \<times> string" where
  "member_key m = (Some (mh_lb_id m), Some (mh_member_id m), mh_health m)"

lemma member_list_triples:
  "read_entries (\<lambda>m. Inr (member_record l (i m) (h m))) v = Inr rs \<Longrightarrow>
     \<exists>ts. rs = map record_of ts \<and> map triple_key ts = map (\<lambda>m. (Some l, str_key (i m), h m)) (entries_of v)"
proof -
  assume "read_entries (\<lambda>m. Inr (member_record l (i m) (h m))) v = Inr rs"
  then have "rs = map (\<lambda>m. member_record l (i m) (h m)) (entries_of v)"
    using read_entries_Inr by (fastforce simp: list_all2_conv_all_nth intro!: nth_equalityI)
  then show ?thesis
    by (intro exI [of _ "map (\<lambda>m. (l, i m, h m)) (entries_of v)"]) (simp add: record_of_def triple_key_def)
qed

lemma concat_triples:
  assumes "list_all2 (\<lambda>d rs. f d = Inr rs) ds rss"
    and "\<And>d rs. f d = Inr rs \<Longrightarrow> \<exists>ts. rs = map record_of ts \<and> map triple_key ts = spec d"
  shows "\<exists>ts. concat rss = map record_of ts \<and> map triple_key ts = concat (map spec ds)"
  using assms(1)
proof (induction rule: list_all2_induct)
  case (Cons d ds rs rss)
  then obtain ts us where "concat rss = map record_of us" "map triple_key us = concat (map spec ds)"
    "rs = map record_of ts" "map triple_key ts = spec d" using assms(2) by blast
  then show ?case by (intro exI [of _ "ts @ us"]) simp
qed simp

lemma nitro_binding_triples:
  "nitro_binding b = Inr rs \<Longrightarrow> \<exists>ts. rs = map record_of ts \<and> map triple_key ts = nitro_members b"
  unfolding nitro_binding_def nitro_member_def nitro_members_def
  by (auto dest!: member_list_triples split: option.split_asm if_split_asm)

lemma icontrol_pool_triples:
  "icontrol_pool p = Inr rs \<Longrightarrow> \<exists>ts. rs = map record_of ts \<and> map triple_key ts = icontrol_members p"
  unfolding icontrol_pool_def icontrol_member_def icontrol_members_def
  by (auto dest!: member_list_triples split: option.split_asm if_split_asm pyval.split_asm)

lemma log_records_form: "log_records k v = Inr ls \<Longrightarrow> \<forall>r \<in> set ls. \<exists>e. r = log_record k e"
proof -
  assume "log_records k v = Inr ls"
  then have "ls = [] \<or> list_all2 (\<lambda>e r. Inr (log_record k e) = (Inr r :: signal_exc + pyval)) (entries_of v) ls"
    using read_entries_Inr [of "\<lambda>entry. Inr (log_record k entry)" v ls] by (auto simp: log_records_def split: if_splits)
  then show ?thesis by (auto simp: list_all2_conv_all_nth in_set_conv_nth) metis
qed

lemma read_member_record:
  "read_wire_record n (record_of t) = Inr x \<Longrightarrow> \<exists>m. x = Inl m \<and> member_key m = triple_key t"
  by (cases t) (auto simp: record_of_def member_record_def triple_key_def member_key_def read_wire_record_def
      has_kind_def rbind_Inr_iff validate_member_hint_def require_bounded_id_def raw_field_def member_hint_new_def
      split: if_split_asm option.split_asm)

lemma read_log_record: "read_wire_record n (log_record k e) = Inr x \<Longrightarrow> \<exists>l. x = Inr l"
  by (auto simp: log_record_def read_wire_record_def has_kind_def rbind_Inr_iff BACKEND_MEMBER_KIND_def
      LOG_SIGNAL_KIND_def split: if_split_asm)

lemma parsed_members:
  assumes "lb_parse_signals_atomic mr n (map record_of ts @ logs) = Inr s" and "\<forall>r \<in> set logs. \<exists>e. r = log_record k e"
  shows "map member_key (ls_members s) = map triple_key ts"
proof -
  from assms(1) obtain xs where xs: "list_all2 (\<lambda>r x. read_wire_record n r = Inr x) (map record_of ts @ logs) xs"
    and s': "ls_members s = lefts xs"
    by (auto simp: lb_parse_signals_atomic_def read_batch_def rbind_Inr_iff rseq_map_all2 split: if_splits simp del: map_append)
  then obtain ys zs where "list_all2 (\<lambda>r x. read_wire_record n r = Inr x) (map record_of ts) ys"
    "list_all2 (\<lambda>r x. read_wire_record n r = Inr x) logs zs" and s: "ls_members s = lefts ys @ lefts zs"
    by (auto simp: list_all2_append1)
  then have "list_all2 (\<lambda>t x. read_wire_record n (record_of t) = Inr x) ts ys" by (simp add: list_all2_map1)
  then have "map member_key (lefts ys) = map triple_key ts"
    by (induction rule: list_all2_induct) (auto dest!: read_member_record)
  moreover have "lefts zs = []"
    using \<open>list_all2 _ logs zs\<close> assms(2) by (induction rule: list_all2_induct) (auto dest!: read_log_record)
  ultimately show ?thesis by (simp add: s)
qed

fun vendor_topology :: "lb_vendor \<Rightarrow> raw_dict \<Rightarrow> topology" where
  "vendor_topology NetScaler = nitro_topology"
| "vendor_topology F5 = icontrol_topology"

lemma vendor_records:
  assumes "vendor_parse vendor v = Inr records"
  shows "\<exists>d ts logs k. v = VDict d \<and> records = map record_of ts @ logs \<and> (\<forall>r \<in> set logs. \<exists>e. r = log_record k e)
      \<and> map triple_key ts = vendor_topology vendor d
      \<and> (vendor = NetScaler \<longrightarrow> errorcode_clear (val_get d ''errorcode''))"
proof (cases vendor)
  case NetScaler
  with assms obtain d mss logs where v: "v = VDict d" "errorcode_clear (val_get d ''errorcode'')"
    and m: "read_entries nitro_binding (val_get d NITRO_MEMBERSHIP_KEY) = Inr mss"
    and l: "log_records ''resourceId'' (val_get d NITRO_LOGSUMMARY_KEY) = Inr logs" and r: "records = concat mss @ logs"
    unfolding NetScaler vendor_parse.simps parse_nitro_def by (auto simp: rbind_Inr_iff split: pyval.split_asm if_split_asm)
  from concat_triples [where f = nitro_binding and spec = nitro_members, OF read_entries_Inr [OF m] nitro_binding_triples]
  obtain ts where "concat mss = map record_of ts" "map triple_key ts = nitro_topology d" unfolding nitro_topology_def by blast
  then show ?thesis using v r log_records_form [OF l] NetScaler by (auto simp del: set_map)
next
  case F5
  with assms obtain d mss logs where v: "v = VDict d"
    and m: "read_entries icontrol_pool (val_get d ICONTROL_ITEMS_KEY) = Inr mss"
    and l: "log_records ''fullPath'' (val_get d ICONTROL_LOGSUMMARY_KEY) = Inr logs" and r: "records = concat mss @ logs"
    unfolding F5 vendor_parse.simps parse_icontrol_def by (auto simp: rbind_Inr_iff split: pyval.split_asm if_split_asm)
  from concat_triples [where f = icontrol_pool and spec = icontrol_members, OF read_entries_Inr [OF m] icontrol_pool_triples]
  obtain ts where "concat mss = map record_of ts" "map triple_key ts = icontrol_topology d" unfolding icontrol_topology_def by blast
  then show ?thesis using v r log_records_form [OF l] F5 by (auto simp del: set_map)
qed

lemma lb_transform_Inr:
  "lb_transform text_of vendor c v = Inr raw \<longleftrightarrow> (\<exists>records s. vendor_parse vendor v = Inr records
     \<and> lb_parse_signals_atomic (ec_max_records c) (ec_max_field_len c) records = Inr s \<and> raw = signals_to_raw s)"
  by (auto simp: lb_transform_def rbind_Inr_iff map_sum_def split: sum.split_asm sum.split)

lemma citrix_transform_Inr:
  "citrix_transform text_of c v = Inr raw \<longleftrightarrow> (\<exists>ds s. coerce_dict_list [''signals'', ''value'', ''data''] v = Some ds
     \<and> citrix_parse_signals_atomic (ec_max_records c) (ec_max_field_len c) (map VDict ds) = Inr s
     \<and> raw = citrix_signals_to_raw s)"
  unfolding citrix_transform_def
  by (cases "coerce_dict_list [''signals'', ''value'', ''data''] v")
    (auto simp: rbind_Inr_iff map_sum_def split: sum.split_asm sum.split)



section \<open>What the clients hand on\<close>

text \<open>whatever the approved endpoint sends, what a client of the load balancers or of Citrix hands on is
  accepted as a whole by the consumer that re-validates it as untrusted, and lies within the closed
  vocabularies and the configured number of records; a failed fetch is empty.\<close>

theorem client_results_consumable:
  assumes "\<And>x. float_isfinite x \<Longrightarrow> lax_float (VFloat x) = Some x"
  shows "(\<exists>sg. lb_signals_from_result lax_float (fst (lb_fetch_raw vendor w c owns s)) = Inr sg
          \<and> list_all member_ok (ls_members sg) \<and> list_all log_ok (ls_logs sg)
          \<and> length (ls_members sg) + length (ls_logs sg) \<le> ec_max_records c)
    \<and> (\<exists>sg. citrix_signals_from_result (fst (citrix_fetch_raw w c owns s)) = Inr sg
          \<and> list_all health_hint_ok (cs_health sg) \<and> list_all dependency_hint_ok (cs_dependencies sg)
          \<and> length (cs_health sg) + length (cs_dependencies sg) \<le> ec_max_records c)"
proof (intro conjI)
  show "\<exists>sg. lb_signals_from_result lax_float (fst (lb_fetch_raw vendor w c owns s)) = Inr sg
      \<and> list_all member_ok (ls_members sg) \<and> list_all log_ok (ls_logs sg)
      \<and> length (ls_members sg) + length (ls_logs sg) \<le> ec_max_records c"
  proof (cases "fr_available (fst (lb_fetch_raw vendor w c owns s))")
    case True
    then obtain v where "lb_transform (wd_text w) vendor c v = Inr (fr_raw (fst (lb_fetch_raw vendor w c owns s)))"
      unfolding lb_fetch_raw_def by (auto dest!: edge_result_transformed)
    then obtain records sg where raw: "fr_raw (fst (lb_fetch_raw vendor w c owns s)) = signals_to_raw sg"
      and sg: "lb_parse_signals_atomic (ec_max_records c) (ec_max_field_len c) records = Inr sg"
      unfolding lb_transform_Inr by blast
    from lb_parsed_ok [OF sg] lb_rehydrated [OF sg assms True raw] show ?thesis by (intro exI [of _ sg]) simp
  qed (simp add: lb_signals_from_result_def)
  show "\<exists>sg. citrix_signals_from_result (fst (citrix_fetch_raw w c owns s)) = Inr sg
      \<and> list_all health_hint_ok (cs_health sg) \<and> list_all dependency_hint_ok (cs_dependencies sg)
      \<and> length (cs_health sg) + length (cs_dependencies sg) \<le> ec_max_records c"
  proof (cases "fr_available (fst (citrix_fetch_raw w c owns s))")
    case True
    then obtain v where "citrix_transform (wd_text w) c v = Inr (fr_raw (fst (citrix_fetch_raw w c owns s)))"
      unfolding citrix_fetch_raw_def by (auto dest!: edge_result_transformed)
    then obtain records sg where raw: "fr_raw (fst (citrix_fetch_raw w c owns s)) = citrix_signals_to_raw sg"
      and sg: "citrix_parse_signals_atomic (ec_max_records c) (ec_max_field_len c) records = Inr sg"
      unfolding citrix_transform_Inr by blast
    from citrix_parsed_ok [OF sg] citrix_rehydrated [OF sg True raw] show ?thesis by (intro exI [of _ sg]) simp
  qed (simp add: citrix_signals_from_result_def)
qed

lemma client_results_consumable_witness:
  "\<exists>sg. lb_signals_from_result (\<lambda>v. case v of VFloat x \<Rightarrow> Some x | _ \<Rightarrow> None)
       (fst (lb_fetch_raw NetScaler flaky_world flaky_config True \<lparr>es_ticks = 0, es_requests = 0, es_trace = []\<rparr>)) = Inr sg
     \<and> length (ls_members sg) + length (ls_logs sg) \<le> 10"
proof -
  let ?lax = "\<lambda>v. case v of VFloat x \<Rightarrow> Some x | _ \<Rightarrow> None"
  have "\<And>x. float_isfinite x \<Longrightarrow> ?lax (VFloat x) = Some x" by simp
  from client_results_consumable [OF this, of NetScaler flaky_world flaky_config True "\<lparr>es_ticks = 0, es_requests = 0, es_trace = []\<rparr>"]
  show ?thesis by (auto simp: flaky_config_def)
qed

end
