(* ===== verification/Kuiper_Hints.thy ===== *)
theory Kuiper_Hints
  imports Vendor_Clients
begin

text \<open>
  The Kuiper discovery assist, \<open>src/modules/discovery/connectors/kuiper.py\<close>: validation of untrusted
  hints, their rehydration, the annotation of the estate, and the client.
\<close>

section \<open>Hints\<close>

definition HINT_KIND :: string where
  "HINT_KIND = ''entity-signal''"

definition KUIPER_SOURCE :: string where
  "KUIPER_SOURCE = ''kuiper''"

definition KUIPER_SIGNAL_TAG :: string where
  "KUIPER_SIGNAL_TAG = ''aegis:kuiper-signal''"

definition ALLOWED_SIGNALS :: "string list" where
  "ALLOWED_SIGNALS = [''corroborated'', ''candidate'', ''stale'']"

record kuiper_hint =
  kh_resource_id :: string
  kh_signal :: "string option"

definition signal_ok :: "string option \<Rightarrow> bool" where
  "signal_ok v \<longleftrightarrow> (case v of None \<Rightarrow> True | Some s \<Rightarrow> s \<in> set ALLOWED_SIGNALS)"

definition kuiper_hint_ok :: "kuiper_hint \<Rightarrow> bool" where
  "kuiper_hint_ok h \<longleftrightarrow> resource_id_ok (kh_resource_id h) \<and> signal_ok (kh_signal h)"

text \<open>The optional signal of a record: absent or \<open>None\<close> is no signal, anything but a token is rejected.\<close>

definition read_signal :: "pyval \<Rightarrow> signal_exc + string option" where
  "read_signal v =
     (if v = VNone then Inr None
      else (case str_key v of
              None \<Rightarrow> Inl SignalError
            | Some s \<Rightarrow> if s \<in> set ALLOWED_SIGNALS then Inr (Some s) else Inl SignalError))"

definition validate_hint :: "nat \<Rightarrow> pyval \<Rightarrow> signal_exc + kuiper_hint" where
  "validate_hint max_len raw =
     (case raw of
        VDict d \<Rightarrow>
          if \<not> keys_within [''kind'', ''resourceId'', ''signal''] d then Inl SignalError
          else if \<not> has_kind HINT_KIND d then Inl SignalError
          else rbind (require_bounded_id max_len (vget d ''resourceId'')) (\<lambda>resource_id.
               rbind (read_signal (val_get d ''signal'')) (\<lambda>signal.
               if resource_id_ok resource_id then Inr \<lparr>kh_resource_id = resource_id, kh_signal = signal\<rparr>
               else Inl (SignalRaised ValueError)))
      | _ \<Rightarrow> Inl SignalError)"

definition parse_hints_atomic :: "nat \<Rightarrow> nat \<Rightarrow> pyval list \<Rightarrow> signal_exc + kuiper_hint list" where
  "parse_hints_atomic max_records max_len records =
     (if length records > max_records then Inl SignalError
      else rseq (map (validate_hint max_len) records))"

text \<open>\<open>KuiperHint.model_validate\<close> on an untrusted record.\<close>

definition kuiper_hint_validate :: "raw_dict \<Rightarrow> signal_exc + kuiper_hint" where
  "kuiper_hint_validate d =
     (if \<not> keys_within [''resource_id'', ''signal''] d then Inl SignalError
      else rbind (checked_field resource_id_ok d ''resource_id'') (\<lambda>resource_id.
           rbind (read_signal (val_get d ''signal'')) (\<lambda>signal.
           Inr \<lparr>kh_resource_id = resource_id, kh_signal = signal\<rparr>)))"

definition hints_from_result :: "fetch_result \<Rightarrow> signal_exc + kuiper_hint list" where
  "hints_from_result r =
     (if \<not> fr_available r then Inr [] else rseq (map kuiper_hint_validate (fr_raw r)))"

text \<open>\<open>hint.model_dump()\<close>.\<close>

definition hint_raw :: "kuiper_hint \<Rightarrow> raw_dict" where
  "hint_raw h =
     [(VStr ''resource_id'', VStr (kh_resource_id h)),
      (VStr ''signal'', case kh_signal h of None \<Rightarrow> VNone | Some s \<Rightarrow> VStr s)]"

section \<open>The annotation of the estate\<close>

text \<open>The signal on record for a known resource: that of its last valid hint.\<close>

definition hint_signals :: "string set \<Rightarrow> kuiper_hint list \<Rightarrow> (string, string option) dict" where
  "hint_signals known hints =
     foldl (\<lambda>d h. if kuiper_hint_ok h \<and> kh_resource_id h \<in> known
                  then dict_set (kh_resource_id h) (kh_signal h) d else d) [] hints"

definition kuiper_tags :: "string option \<Rightarrow> (string, string) dict \<Rightarrow> (string, string) dict" where
  "kuiper_tags signal tags =
     (let tags = dict_set SOURCE_TAG KUIPER_SOURCE tags
      in case signal of None \<Rightarrow> tags | Some s \<Rightarrow> dict_set KUIPER_SIGNAL_TAG s tags)"

fun mark_nodes :: "(string, string option) dict \<Rightarrow> resource_node list \<Rightarrow> resource_node list \<times> string list" where
  "mark_nodes signals [] = ([], [])"
| "mark_nodes signals (n # ns) =
     (case mark_nodes signals ns of
        (out, ids) \<Rightarrow>
          (case dict_get signals (rn_id n) of
             None \<Rightarrow> (n # out, ids)
           | Some s \<Rightarrow> (n\<lparr>rn_tags := kuiper_tags s (rn_tags n)\<rparr> # out, rn_id n # ids)))"

definition kuiper_apply_supplemental ::
  "kuiper_hint list \<Rightarrow> resource_node list \<Rightarrow> resource_node list \<times> string list" where
  "kuiper_apply_supplemental hints nodes = mark_nodes (hint_signals (rn_id ` set nodes) hints) nodes"

definition kuiper_source_reference :: "string \<Rightarrow> source_reference" where
  "kuiper_source_reference resource_id = \<lparr>sr_kind = ''connector'', sr_id = KUIPER_SOURCE, sr_detail = Some resource_id\<rparr>"

section \<open>The client\<close>

definition KUIPER_ERRORS :: reader_errors where
  "KUIPER_ERRORS = \<lparr>re_too_large = ''KuiperResponseTooLarge'', re_invalid = ''InvalidKuiperResponse'',
     re_deadline = ''KuiperDeadlineExceeded''\<rparr>"

definition kuiper_endpoint_name :: "endpoint_exc \<Rightarrow> string" where
  "kuiper_endpoint_name e =
     (case e of
        InvalidEndpoint \<Rightarrow> ''InvalidKuiperEndpoint''
      | EndpointNotApproved \<Rightarrow> ''KuiperEndpointNotApproved''
      | EndpointRaised _ \<Rightarrow> ''ValueError'')"

definition kuiper_defaults :: edge_config where
  "kuiper_defaults = http_edge_defaults
     \<lparr>ec_signals_path := ''/v1/discovery/hints'', ec_token_env := ''KUIPER_READ_TOKEN''\<rparr>"

definition kuiper_transform :: "(string \<Rightarrow> string) \<Rightarrow> edge_config \<Rightarrow> pyval \<Rightarrow> edge_exc + raw_dict list" where
  "kuiper_transform text_of c v =
     map_sum (signal_exc_class text_of ''KuiperHintError'') id
       (case coerce_dict_list [''hints'', ''value'', ''data''] v of
          None \<Rightarrow> Inl SignalError
        | Some records \<Rightarrow>
            rbind (parse_hints_atomic (ec_max_records c) (ec_max_field_len c) (map VDict records)) (\<lambda>hints.
            Inr (map hint_raw hints)))"

definition kuiper_fetch_raw :: "edge_world \<Rightarrow> edge_config \<Rightarrow> bool \<Rightarrow> edge_state \<Rightarrow> fetch_result \<times> edge_state" where
  "kuiper_fetch_raw w c owns s =
     fail_closed (edge_fetch KUIPER_ERRORS kuiper_endpoint_name kuiper_validate_endpoint w c (kuiper_transform (wd_text w) c) Inr owns s)"

section \<open>Hints that were accepted\<close>

lemma read_signal_ok: "read_signal v = Inr s \<Longrightarrow> signal_ok s"
  by (auto simp: read_signal_def signal_ok_def split: if_splits option.splits)

lemma validate_hint_ok: "validate_hint n r = Inr h \<Longrightarrow> kuiper_hint_ok h"
  unfolding validate_hint_def
  by (auto simp: rbind_Inr_iff kuiper_hint_ok_def dest: read_signal_ok split: pyval.split_asm if_split_asm)

lemma hint_raw_validates: "kuiper_hint_ok h \<Longrightarrow> kuiper_hint_validate (hint_raw h) = Inr h"
  by (cases h; cases "kh_signal h")
    (auto simp: kuiper_hint_validate_def hint_raw_def keys_within_def checked_field_def str_field_def val_get_def
      kuiper_hint_ok_def read_signal_def signal_ok_def)

lemma parsed_hints_ok: "parse_hints_atomic mr n records = Inr hs \<Longrightarrow> list_all kuiper_hint_ok hs \<and> length hs \<le> mr"
  by (auto simp: parse_hints_atomic_def rseq_map_all2 list_all_length list_all2_conv_all_nth dest: validate_hint_ok
      split: if_splits)

lemma kuiper_rehydrated:
  assumes "list_all kuiper_hint_ok hs" and "fr_available r" and "fr_raw r = map hint_raw hs"
  shows "hints_from_result r = Inr hs"
proof -
  have "map kuiper_hint_validate (map hint_raw hs) = map Inr hs"
    using assms(1) hint_raw_validates by (auto simp: list_all_iff)
  then show ?thesis using assms(2,3) by (simp add: hints_from_result_def rseq_Inr_iff)
qed

lemma kuiper_transform_Inr:
  "kuiper_transform text_of c v = Inr raw \<longleftrightarrow> (\<exists>ds hs. coerce_dict_list [''hints'', ''value'', ''data''] v = Some ds
     \<and> parse_hints_atomic (ec_max_records c) (ec_max_field_len c) (map VDict ds) = Inr hs \<and> raw = map hint_raw hs)"
  unfolding kuiper_transform_def
  by (cases "coerce_dict_list [''hints'', ''value'', ''data''] v")
    (auto simp: rbind_Inr_iff map_sum_def split: sum.split_asm sum.split)

text \<open>Whatever Kuiper sends, its client hands on hints the consumer accepts, within the vocabulary.\<close>

lemma kuiper_result_consumable:
  "\<exists>hs. hints_from_result (fst (kuiper_fetch_raw w c owns s)) = Inr hs \<and> list_all kuiper_hint_ok hs
    \<and> length hs \<le> ec_max_records c"
proof (cases "fr_available (fst (kuiper_fetch_raw w c owns s))")
  case True
  then obtain v where "kuiper_transform (wd_text w) c v = Inr (fr_raw (fst (kuiper_fetch_raw w c owns s)))"
    unfolding kuiper_fetch_raw_def by (auto dest!: edge_result_transformed)
  then obtain records hs where raw: "fr_raw (fst (kuiper_fetch_raw w c owns s)) = map hint_raw hs"
    and hs: "parse_hints_atomic (ec_max_records c) (ec_max_field_len c) records = Inr hs"
    unfolding kuiper_transform_Inr by blast
  from parsed_hints_ok [OF hs] kuiper_rehydrated [OF _ True raw] show ?thesis by blast
qed (simp add: hints_from_result_def)

section \<open>What an annotation may change\<close>

definition last_signal :: "kuiper_hint list \<Rightarrow> string \<Rightarrow> string option option" where
  "last_signal hints i =
     map_option kh_signal (find (\<lambda>h. kuiper_hint_ok h \<and> kh_resource_id h = i) (rev hints))"

lemma hint_signals_get: "dict_get (hint_signals known hints) i = (if i \<in> known then last_signal hints i else None)"
proof (induction hints rule: rev_induct)
  case (snoc h hints)
  then show ?case by (auto simp: hint_signals_def last_signal_def)
qed (simp add: hint_signals_def last_signal_def)

lemma mark_nodes_map:
  "fst (mark_nodes signals ns) = map (\<lambda>n. case dict_get signals (rn_id n) of None \<Rightarrow> n
      | Some s \<Rightarrow> n\<lparr>rn_tags := kuiper_tags s (rn_tags n)\<rparr>) ns"
  "snd (mark_nodes signals ns) = map rn_id (filter (\<lambda>n. dict_get signals (rn_id n) \<noteq> None) ns)"
  by (induction ns) (auto simp: split_beta split: option.splits)

lemma kuiper_apply_exact:
  "fst (kuiper_apply_supplemental hints nodes) = map (\<lambda>n. case last_signal hints (rn_id n) of None \<Rightarrow> n
      | Some s \<Rightarrow> n\<lparr>rn_tags := kuiper_tags s (rn_tags n)\<rparr>) nodes"
  "snd (kuiper_apply_supplemental hints nodes) = map rn_id (filter (\<lambda>n. last_signal hints (rn_id n) \<noteq> None) nodes)"
  by (auto simp: kuiper_apply_supplemental_def mark_nodes_map hint_signals_get cong: map_cong filter_cong)

lemma kuiper_tags_other: "k \<noteq> SOURCE_TAG \<Longrightarrow> k \<noteq> KUIPER_SIGNAL_TAG \<Longrightarrow> dict_get (kuiper_tags s tags) k = dict_get tags k"
  by (simp add: kuiper_tags_def Let_def split: option.split)

lemma last_signal_ok: "last_signal hints i = Some s \<Longrightarrow> signal_ok s \<and> resource_id_ok i"
  by (auto simp: last_signal_def kuiper_hint_ok_def find_Some_iff)

text \<open>Unlike the Citrix and load-balancer annotations, which add to the provenance set of a node, this one
  replaces it.\<close>

lemma kuiper_replaces_provenance: "dict_get (kuiper_tags None [(SOURCE_TAG, ''citrix'')]) SOURCE_TAG = Some ''kuiper''"
  by code_simp

end
