(* ===== verification/Discovery.thy ===== *)
theory Discovery
  imports Kuiper_Hints Module_Base State_Local
begin

text \<open>
  The discovery module, \<open>src/modules/discovery/module.py\<close>, and its Azure Resource Graph edge,
  \<open>src/modules/discovery/arg.py\<close>: paging, rows to nodes, classification by workload packs, and the optional
  Kuiper assist. The SDK call that answers one request is a parameter.
\<close>

section \<open>Paging\<close>

text \<open>An exception is its class name. The page fetcher is called with the token of the page before; \<open>n\<close>
  counts the calls, since a backend may answer the same token differently.\<close>

type_synonym page_fetcher = "nat \<Rightarrow> string option \<Rightarrow> string + (pyval list \<times> string option)"

definition MAX_PAGES :: nat where
  "MAX_PAGES = 10000"

fun is_mapping :: "pyval \<Rightarrow> bool" where
  "is_mapping (VDict d) = True"
| "is_mapping _ = False"

definition last_page :: "string option \<Rightarrow> bool" where
  "last_page token \<longleftrightarrow> token = None \<or> token = Some []"

fun page_loop :: "page_fetcher \<Rightarrow> nat \<Rightarrow> nat \<Rightarrow> string option \<Rightarrow> string option set \<Rightarrow> pyval list \<Rightarrow> string + pyval list" where
  "page_loop fetch n 0 token seen rows = Inl ''ResourceGraphPagingError''"
| "page_loop fetch n (Suc left) token seen rows =
     (case fetch n token of
        Inl e \<Rightarrow> Inl e
      | Inr (page, after) \<Rightarrow>
          if last_page after then Inr (rows @ filter is_mapping page)
          else if after \<in> seen then Inl ''ResourceGraphPagingError''
          else page_loop fetch (Suc n) left after (insert after seen) (rows @ filter is_mapping page))"

definition collect_pages :: "page_fetcher \<Rightarrow> string + pyval list" where
  "collect_pages fetch = page_loop fetch 0 MAX_PAGES None {} []"

section \<open>The client\<close>

definition DEFAULT_ARG_QUERY :: string where
  "DEFAULT_ARG_QUERY = ''Resources | project id, name, type, tags''"

definition SCOPE_SUBSCRIPTION :: string where
  "SCOPE_SUBSCRIPTION = ''subscription''"

definition SCOPE_MANAGEMENT_GROUP :: string where
  "SCOPE_MANAGEMENT_GROUP = ''managementGroup''"

record query_request =
  qr_query :: string
  qr_subscriptions :: "string list option"
  qr_management_groups :: "string list option"
  qr_skip_token :: "string option"

text \<open>What the SDK answers: the data and the token of the response, each absent or not.\<close>

type_synonym arg_sdk = "nat \<Rightarrow> query_request \<Rightarrow> string + (pyval list option \<times> string option)"

definition scope_entry :: "scope \<Rightarrow> string \<Rightarrow> string list option" where
  "scope_entry scope k =
     (case dict_get scope k of None \<Rightarrow> None | Some v \<Rightarrow> if v = [] then None else Some [v])"

definition make_fetch_page :: "arg_sdk \<Rightarrow> scope \<Rightarrow> page_fetcher" where
  "make_fetch_page sdk scope n token =
     map_sum id (\<lambda>(data, after).
         (case data of None \<Rightarrow> [] | Some rows \<Rightarrow> rows, if after = Some [] then None else after))
       (sdk n \<lparr>qr_query = DEFAULT_ARG_QUERY,
               qr_subscriptions = scope_entry scope SCOPE_SUBSCRIPTION,
               qr_management_groups = scope_entry scope SCOPE_MANAGEMENT_GROUP,
               qr_skip_token = token\<rparr>)"

text \<open>\<open>None\<close> where the SDK is not installed.\<close>

definition azure_query :: "arg_sdk option \<Rightarrow> scope \<Rightarrow> string + pyval list" where
  "azure_query sdk scope =
     (case sdk of None \<Rightarrow> Inl ''RuntimeError'' | Some f \<Rightarrow> collect_pages (make_fetch_page f scope))"

section \<open>Rows\<close>

datatype row_error = NotMapping | MissingField string | InvalidId | InvalidType | MissingName

text \<open>\<open>str(value)\<close>; \<open>other\<close> gives the text of a value that is no string.\<close>

definition py_str :: "(pyval \<Rightarrow> string) \<Rightarrow> pyval \<Rightarrow> string" where
  "py_str other v = (case str_key v of Some s \<Rightarrow> s | None \<Rightarrow> other v)"

definition coerce_tags :: "(pyval \<Rightarrow> string) \<Rightarrow> pyval \<Rightarrow> (string, string) dict" where
  "coerce_tags other v =
     (case v of
        VDict d \<Rightarrow> foldl (\<lambda>tags (k, x). if x = VNone then tags else dict_set (py_str other k) (py_str other x) tags) [] d
      | _ \<Rightarrow> [])"

definition blank :: "string \<Rightarrow> bool" where
  "blank s \<longleftrightarrow> py_strip s = []"

definition row_to_node :: "(pyval \<Rightarrow> string) \<Rightarrow> pyval \<Rightarrow> row_error + resource_node" where
  "row_to_node other row =
     (case row of
        VDict d \<Rightarrow>
          (case (vget d ''id'', vget d ''name'', vget d ''type'') of
             (None, _, _) \<Rightarrow> Inl (MissingField ''id'')
           | (_, None, _) \<Rightarrow> Inl (MissingField ''name'')
           | (_, _, None) \<Rightarrow> Inl (MissingField ''type'')
           | (Some rid, Some name, Some rtype) \<Rightarrow>
               (case str_key rid of
                  None \<Rightarrow> Inl InvalidId
                | Some i \<Rightarrow>
                    if blank i then Inl InvalidId
                    else (case str_key rtype of
                            None \<Rightarrow> Inl InvalidType
                          | Some t \<Rightarrow>
                              if blank t then Inl InvalidType
                              else if name = VNone then Inl MissingName
                              else Inr \<lparr>rn_id = i, rn_name = py_str other name, rn_type = t, rn_workload = None,
                                        rn_tier = None, rn_role = None, rn_tags = coerce_tags other (val_get d ''tags'')\<rparr>)))
      | _ \<Rightarrow> Inl NotMapping)"

text \<open>The reason of a skipped row carries its index.\<close>

definition rows_to_nodes :: "(pyval \<Rightarrow> string) \<Rightarrow> pyval list \<Rightarrow> resource_node list \<times> (nat \<times> row_error) list" where
  "rows_to_nodes other rows =
     (rights (map (row_to_node other) rows),
      List.map_filter (\<lambda>(i, r). case row_to_node other r of Inl e \<Rightarrow> Some (i, e) | Inr _ \<Rightarrow> None)
        (zip [0..<length rows] rows))"

section \<open>Classification\<close>

text \<open>A classified node carries the three labels as the values a definition assigns: the assignment to a
  field of the model is not validated.\<close>

record labelled_node =
  la_node :: resource_node
  la_workload :: pyval
  la_tier :: pyval
  la_role :: pyval

definition opt_val :: "string option \<Rightarrow> pyval" where
  "opt_val v = (case v of None \<Rightarrow> VNone | Some s \<Rightarrow> VStr s)"

definition plain_labels :: "resource_node \<Rightarrow> labelled_node" where
  "plain_labels n = \<lparr>la_node = n, la_workload = opt_val (rn_workload n), la_tier = opt_val (rn_tier n),
                     la_role = opt_val (rn_role n)\<rparr>"

definition label_of :: "raw_dict \<Rightarrow> string \<Rightarrow> pyval \<Rightarrow> pyval" where
  "label_of d k current = (case vget d k of None \<Rightarrow> current | Some v \<Rightarrow> v)"

definition type_matches :: "resource_node \<Rightarrow> raw_dict \<Rightarrow> py_exc + bool" where
  "type_matches n d =
     (case given_val (vget d ''resourceType'') of
        None \<Rightarrow> Inr True
      | Some v \<Rightarrow>
          (case str_key v of
             None \<Rightarrow> Inl AttributeError
           | Some t \<Rightarrow> Inr (py_casefold t = py_casefold (rn_type n))))"

text \<open>\<open>node.tags.get(tag_key) == d.get("tagValue")\<close>.\<close>

definition tag_matches :: "resource_node \<Rightarrow> raw_dict \<Rightarrow> py_exc + bool" where
  "tag_matches n d =
     (case given_val (vget d ''tagKey'') of
        None \<Rightarrow> Inr True
      | Some k \<Rightarrow>
          if \<not> val_hashable k then Inl TypeError
          else Inr (case Option.bind (str_key k) (dict_get (rn_tags n)) of
                      None \<Rightarrow> val_get d ''tagValue'' = VNone
                    | Some s \<Rightarrow> str_key (val_get d ''tagValue'') = Some s))"

definition entry_matches :: "resource_node \<Rightarrow> raw_dict \<Rightarrow> py_exc + bool" where
  "entry_matches n d = rbind (type_matches n d) (\<lambda>m. if m then tag_matches n d else Inr False)"

definition label_node :: "resource_node \<Rightarrow> raw_dict \<Rightarrow> labelled_node" where
  "label_node n d =
     (let l = plain_labels n in
      l\<lparr>la_workload := label_of d ''workload'' (la_workload l), la_tier := label_of d ''tier'' (la_tier l),
        la_role := label_of d ''role'' (la_role l)\<rparr>)"

fun classify_node :: "resource_node \<Rightarrow> raw_dict list \<Rightarrow> py_exc + labelled_node" where
  "classify_node n [] = Inr (plain_labels n)"
| "classify_node n (d # ds) =
     rbind (entry_matches n d) (\<lambda>m. if m then Inr (label_node n d) else classify_node n ds)"

definition classify :: "resource_node list \<Rightarrow> raw_dict list \<Rightarrow> py_exc + labelled_node list" where
  "classify resources definitions = rseq (map (\<lambda>n. classify_node n definitions) resources)"

text \<open>The definitions of one pack body, which inherit its workload.\<close>

definition inherit_workload :: "pyval option \<Rightarrow> raw_dict \<Rightarrow> raw_dict" where
  "inherit_workload workload entry =
     (case given_val workload of
        None \<Rightarrow> entry
      | Some w \<Rightarrow> if vget entry ''workload'' = None then entry @ [(VStr ''workload'', w)] else entry)"

definition pack_definitions :: "pyval \<Rightarrow> py_exc + raw_dict list" where
  "pack_definitions body =
     (if \<not> val_truthy body then Inr []
      else (case body of
              VDict d \<Rightarrow>
                rbind (case given_val (vget d ''definitions'') of None \<Rightarrow> Inr [] | Some v \<Rightarrow> val_items v) (\<lambda>entries.
                Inr (map (inherit_workload (vget d ''workload''))
                       (List.map_filter (\<lambda>e. case e of VDict x \<Rightarrow> Some x | _ \<Rightarrow> None) entries)))
            | _ \<Rightarrow> Inl AttributeError))"

definition definitions_from_packs :: "pyval list \<Rightarrow> py_exc + raw_dict list" where
  "definitions_from_packs bodies = rbind (rseq (map pack_definitions bodies)) (\<lambda>dss. Inr (concat dss))"

section \<open>The module\<close>

datatype discovery_client =
    ResourceGraph "scope \<Rightarrow> string + pyval list"
  | Assist connector

definition discovery_manifest :: module_manifest where
  "discovery_manifest =
     \<lparr>mm_name = ''discovery'', mm_displayName = ''Discovery'', mm_kind = MK_job, mm_enabled = True,
      mm_consumes = [PT_workload], mm_produces = [''estate'', ''ResourceNode[]''],
      mm_scaleProfile = \<lparr>sp_kind = MK_job, sp_minReplicas = 0, sp_maxReplicas = 10,
        sp_triggers = [\<lparr>st_type = ''cron'', st_metadata = [(''schedule'', ''0 */6 * * *'')]\<rparr>,
                       \<lparr>st_type = ''api-invoked'', st_metadata = []\<rparr>],
        sp_cpu = 1 / 2, sp_memoryGi = 1\<rparr>\<rparr>"

text \<open>The Kuiper connector, applied to the nodes under the labels.\<close>

definition relabel :: "labelled_node list \<Rightarrow> resource_node list \<Rightarrow> labelled_node list" where
  "relabel ls ns = map2 (\<lambda>l n. l\<lparr>la_node := n\<rparr>) ls ns"

definition kuiper_assist ::
  "discovery_client option \<Rightarrow> labelled_node list \<Rightarrow> (labelled_node list \<times> string list) option \<times> string option" where
  "kuiper_assist client authoritative =
     (let unavailable = (\<lambda>cls. (None, Some (''Kuiper assist unavailable ('' @ cls @ ''); estate from ARG only''))) in
      case client of
        None \<Rightarrow> (None, None)
      | Some (ResourceGraph _) \<Rightarrow> unavailable ''AttributeError''
      | Some (Assist (Inl cls)) \<Rightarrow> unavailable cls
      | Some (Assist (Inr result)) \<Rightarrow>
          (case hints_from_result result of
             Inl _ \<Rightarrow> unavailable ''KuiperHintError''
           | Inr hints \<Rightarrow>
               (case kuiper_apply_supplemental hints (map la_node authoritative) of
                  (nodes, annotated) \<Rightarrow>
                    if \<not> fr_available result then unavailable ''fail-closed''
                    else if annotated = [] then (None, Some ''Kuiper assist returned no usable supplemental hints'')
                    else (Some (relabel authoritative nodes, annotated),
                          Some (''Kuiper assist corroborated '' @ show_nat (length annotated) @ '' ARG node(s) with ''
                            @ ''supplemental signals (non-authoritative; ARG authoritative)'')))))"

record discovery_result =
  dc_estate :: "labelled_node list option"
  dc_response :: agent_response
  dc_extra :: "(string, int) dict"

definition discovery_response ::
  "int \<Rightarrow> scope \<Rightarrow> string list \<Rightarrow> string list \<Rightarrow> rat \<Rightarrow> string \<Rightarrow> agent_response" where
  "discovery_response now sc findings risks confidence action =
     \<lparr>ag_agentName = ''discovery'', ag_taskType = ''classify-estate'',
      ag_inputSummary = ''scope='' @ scope_text ''subscription'' sc, ag_findings = findings, ag_risks = risks,
      ag_recommendations = [], ag_sourceReferences = [], ag_confidence = confidence, ag_nextActions = [action],
      ag_generatedAt = now\<rparr>"

definition discovery_query :: "discovery_client \<Rightarrow> scope \<Rightarrow> string + pyval list" where
  "discovery_query client sc = (case client of ResourceGraph q \<Rightarrow> q sc | Assist _ \<Rightarrow> Inl ''AttributeError'')"

text \<open>\<open>_load_definitions\<close>; \<open>packs\<close> is what \<open>load_all(pack_type=workload)\<close> of the engine returns, where an engine
  is wired.\<close>

definition load_definitions :: "(load_error + pack list) option \<Rightarrow> module_exc + raw_dict list" where
  "load_definitions packs =
     (case packs of
        None \<Rightarrow> Inr []
      | Some (Inl e) \<Rightarrow> Inl (LoadFailed e)
      | Some (Inr ps) \<Rightarrow> map_sum Raised id (definitions_from_packs (map pk_body ps)))"

definition confidence_of :: "labelled_node list \<Rightarrow> rat" where
  "confidence_of ls =
     (if ls = [] then 0 else of_nat (length (filter (\<lambda>l. la_workload l \<noteq> VNone) ls)) / of_nat (length ls))"

definition finish_discovery ::
  "int \<Rightarrow> scope \<Rightarrow> discovery_client option \<Rightarrow> nat \<Rightarrow> bool \<Rightarrow> labelled_node list \<Rightarrow> discovery_result" where
  "finish_discovery now sc kuiper skipped no_definitions classified =
     (let classified_count = length (filter (\<lambda>l. la_workload l \<noteq> VNone) classified);
          (supplemental, kuiper_note) = kuiper_assist kuiper classified;
          estate = (case supplemental of None \<Rightarrow> classified | Some (nodes, _) \<Rightarrow> nodes);
          notes = (if skipped > 0 then [''Skipped '' @ show_nat skipped @ '' malformed row(s)''] else [])
            @ (if no_definitions then [''No Workload Definition packs available; nodes left unclassified''] else [])
            @ (case kuiper_note of None \<Rightarrow> [] | Some n \<Rightarrow> [n])
      in \<lparr>dc_estate = Some estate,
          dc_response = discovery_response now sc
            ([''Classified '' @ show_nat classified_count @ ''/'' @ show_nat (length classified)
               @ '' discovered resources''] @ notes) [] (confidence_of classified) ''build-dependency-graph'',
          dc_extra = [(''nodeCount'', int (length estate)), (''classifiedCount'', int classified_count),
                      (''skippedRows'', int skipped)]
            @ (case supplemental of None \<Rightarrow> [] | Some (_, ids) \<Rightarrow> [(''supplementalSignals'', int (length ids))])\<rparr>)"

definition discovery_run ::
  "(pyval \<Rightarrow> string) \<Rightarrow> int \<Rightarrow> (string, discovery_client) dict \<Rightarrow> (load_error + pack list) option \<Rightarrow> scope option
     \<Rightarrow> module_exc + discovery_result" where
  "discovery_run other now clients packs scope_opt =
     (let sc = (case scope_opt of None \<Rightarrow> [] | Some s \<Rightarrow> s);
          nothing = [(''nodeCount'', 0), (''skippedRows'', 0)]
      in case dict_get clients ''resource_graph'' of
           None \<Rightarrow>
             Inr \<lparr>dc_estate = Some [],
                  dc_response = discovery_response now sc [''No resource_graph client injected; estate not queried'']
                    [''Discovery ran without an Azure Resource Graph client (fail-closed)''] 0
                    ''inject-resource-graph-client'',
                  dc_extra = nothing\<rparr>
         | Some client \<Rightarrow>
             (case discovery_query client sc of
                Inl cls \<Rightarrow>
                  Inr \<lparr>dc_estate = None,
                       dc_response = discovery_response now sc
                         [''Azure Resource Graph query failed; estate not updated'']
                         [''ARG query error ('' @ cls @ ''); ran fail-closed''] 0 ''retry-discovery'',
                       dc_extra = nothing\<rparr>
              | Inr rows \<Rightarrow>
                  (case rows_to_nodes other rows of
                     (resources, skipped) \<Rightarrow>
                       rbind (load_definitions packs) (\<lambda>definitions.
                       rbind (map_sum Raised id (classify resources definitions)) (\<lambda>classified.
                       Inr (finish_discovery now sc (dict_get clients ''kuiper'') (length skipped)
                              (definitions = []) classified))))))"

text \<open>The result as the rest of the platform takes it, where every label is text.\<close>

definition estate_node :: "labelled_node \<Rightarrow> resource_node option" where
  "estate_node l =
     (let text = (\<lambda>v. if v = VNone then Some None else map_option Some (str_key v)) in
      case (text (la_workload l), text (la_tier l), text (la_role l)) of
        (Some w, Some t, Some r) \<Rightarrow> Some ((la_node l)\<lparr>rn_workload := w, rn_tier := t, rn_role := r\<rparr>)
      | _ \<Rightarrow> None)"

definition discovery_outcome :: "discovery_result \<Rightarrow> module_run_result option" where
  "discovery_outcome r =
     (let wrap = (\<lambda>estate. \<lparr>mr_module = ''discovery'', mr_ok = True, mr_findings = [], mr_estate = estate, mr_graph = None,
          mr_response = Some (dc_response r), mr_extra = map (\<lambda>(k, i). (k, VInt i)) (dc_extra r)\<rparr>)
      in case dc_estate r of
           None \<Rightarrow> Some (wrap None)
         | Some ls \<Rightarrow>
             (if list_all (\<lambda>l. estate_node l \<noteq> None) ls then Some (wrap (Some (List.map_filter estate_node ls)))
              else None))"

section \<open>Paging returns whole estates only\<close>

text \<open>The pages of a complete run from a token: each is the answer to the token of the one before, and the last
  is the first without a token.\<close>

fun page_chain :: "page_fetcher \<Rightarrow> nat \<Rightarrow> string option \<Rightarrow> (pyval list \<times> string option) list \<Rightarrow> bool" where
  "page_chain fetch n token [] \<longleftrightarrow> False"
| "page_chain fetch n token [p] \<longleftrightarrow> fetch n token = Inr p \<and> last_page (snd p)"
| "page_chain fetch n token (p # q # ps) \<longleftrightarrow>
     fetch n token = Inr p \<and> \<not> last_page (snd p) \<and> page_chain fetch (Suc n) (snd p) (q # ps)"

lemma page_chain_Cons:
  "page_chain fetch n token (p # ps) \<longleftrightarrow>
     fetch n token = Inr p \<and> (if ps = [] then last_page (snd p) else \<not> last_page (snd p) \<and> page_chain fetch (Suc n) (snd p) ps)"
  by (cases ps) auto

lemma page_loop_iff:
  "page_loop fetch n left token seen rows = Inr out \<longleftrightarrow>
     (\<exists>ps. page_chain fetch n token ps \<and> length ps \<le> left \<and> distinct (map snd (butlast ps))
        \<and> set (map snd (butlast ps)) \<inter> seen = {} \<and> out = rows @ filter is_mapping (concat (map fst ps)))"
proof (induction left arbitrary: n token seen rows)
  case 0
  then show ?case by auto
next
  case (Suc left)
  show ?case (is "?L \<longleftrightarrow> (\<exists>ps. ?R ps)")
  proof (cases "fetch n token")
    case (Inl e)
    have "\<not> ?R ps" for ps using Inl by (cases ps) (auto simp: page_chain_Cons)
    then show ?thesis using Inl by auto
  next
    case (Inr r)
    obtain page after where r: "r = (page, after)" by (cases r)
    have ps: "?R ps \<longleftrightarrow> (\<exists>qs. ps = (page, after) # qs \<and>
        (if qs = [] then last_page after \<and> out = rows @ filter is_mapping page
         else \<not> last_page after \<and> after \<notin> seen \<and> page_chain fetch (Suc n) after qs \<and> length qs \<le> left
           \<and> distinct (map snd (butlast qs)) \<and> set (map snd (butlast qs)) \<inter> insert after seen = {}
           \<and> out = (rows @ filter is_mapping page) @ filter is_mapping (concat (map fst qs))))" for ps
      using Inr r by (cases ps) (auto simp: page_chain_Cons simp del: set_map)
    show ?thesis
    proof (cases "last_page after")
      case True
      then have "?L \<longleftrightarrow> out = rows @ filter is_mapping page" using Inr r by auto
      moreover have "(\<exists>ps. ?R ps) \<longleftrightarrow> out = rows @ filter is_mapping page" unfolding ps using True by auto
      ultimately show ?thesis by simp
    next
      case False
      have ne: "page_chain fetch (Suc n) after qs \<Longrightarrow> qs \<noteq> []" for qs by auto
      have "?L \<longleftrightarrow> after \<notin> seen \<and> page_loop fetch (Suc n) left after (insert after seen) (rows @ filter is_mapping page) = Inr out"
        using Inr r False by auto
      moreover have "(\<exists>ps. ?R ps) \<longleftrightarrow> after \<notin> seen
          \<and> page_loop fetch (Suc n) left after (insert after seen) (rows @ filter is_mapping page) = Inr out"
        unfolding ps Suc.IH using False ne by auto
      ultimately show ?thesis by simp
    qed
  qed
qed

text \<open>the paging always ends, after at most \<open>MAX_PAGES\<close> requests, and returns rows exactly where the
  backend has answered a complete run of pages, each for the token of the one before, no token twice
  and the last without one; the rows are those of all the pages, in order. A run cut short by an
  error, a repeated token or the ceiling returns no rows at all.\<close>

theorem collect_pages_exact:
  "collect_pages fetch = Inr rows \<longleftrightarrow>
     (\<exists>ps. page_chain fetch 0 None ps \<and> length ps \<le> MAX_PAGES \<and> distinct (map snd (butlast ps))
        \<and> rows = filter is_mapping (concat (map fst ps)))"
  unfolding collect_pages_def page_loop_iff by simp

section \<open>Classification\<close>

text \<open>A node gets the labels of the first definition that matches it; one that raises before it is reached
  raises.\<close>

definition deciding :: "resource_node \<Rightarrow> raw_dict list \<Rightarrow> raw_dict option" where
  "deciding n ds = find (\<lambda>d. entry_matches n d \<noteq> Inr False) ds"

lemma classify_node_first:
  "classify_node n ds =
     (case deciding n ds of
        None \<Rightarrow> Inr (plain_labels n)
      | Some d \<Rightarrow> map_sum id (\<lambda>_. label_node n d) (entry_matches n d))"
proof (induction ds)
  case (Cons d ds)
  then show ?case by (cases "entry_matches n d") (auto simp: deciding_def)
qed (simp add: deciding_def)

definition labels_of :: "resource_node \<Rightarrow> raw_dict list \<Rightarrow> pyval \<times> pyval \<times> pyval" where
  "labels_of n ds =
     (let l = (case deciding n ds of None \<Rightarrow> plain_labels n | Some d \<Rightarrow> label_node n d)
      in (la_workload l, la_tier l, la_role l))"

definition label_triple :: "labelled_node \<Rightarrow> pyval \<times> pyval \<times> pyval" where
  "label_triple l = (la_workload l, la_tier l, la_role l)"

lemma classify_node_Inr: "classify_node n ds = Inr l \<Longrightarrow> la_node l = n \<and> label_triple l = labels_of n ds"
  by (auto simp: classify_node_first labels_of_def label_triple_def label_node_def plain_labels_def Let_def map_sum_def
      split: option.splits sum.splits)

lemma classify_Inr: "classify ns ds = Inr ls \<Longrightarrow> list_all2 (\<lambda>n l. la_node l = n \<and> label_triple l = labels_of n ds) ns ls"
  unfolding classify_def rseq_map_all2 by (auto elim!: list_all2_mono dest: classify_node_Inr)

lemma classify_nodes: "classify ns ds = Inr ls \<Longrightarrow> map la_node ls = ns"
  by (drule classify_Inr) (auto simp: list_all2_conv_all_nth intro: nth_equalityI)

text \<open>What a definition assigns is not checked to be text, though \<open>definitions_from_packs\<close> means to let no
  malformed pack inject junk: the number stays in the node, and the estate it ends up in is none of
  the contract.\<close>

lemma junk_label_kept:
  "let n = \<lparr>rn_id = ''vm'', rn_name = ''vm'', rn_type = ''t'', rn_workload = None, rn_tier = None, rn_role = None, rn_tags = []\<rparr>
   in map_sum id (map la_workload)
        (rbind (definitions_from_packs [VDict [(VStr ''definitions'', VList [VDict [(VStr ''workload'', VInt 5)]])]]) (classify [n]))
      = Inr [VInt 5]
      \<and> estate_node (label_node n [(VStr ''workload'', VInt 5)]) = None"
  by code_simp

section \<open>The assist\<close>

text \<open>The same node but for the two tags Kuiper may set.\<close>

definition tagged_only :: "resource_node \<Rightarrow> resource_node \<Rightarrow> bool" where
  "tagged_only a b \<longleftrightarrow>
     b = a\<lparr>rn_tags := rn_tags b\<rparr>
     \<and> (\<forall>k. k \<noteq> SOURCE_TAG \<longrightarrow> k \<noteq> KUIPER_SIGNAL_TAG \<longrightarrow> dict_get (rn_tags b) k = dict_get (rn_tags a) k)"

lemma tagged_only_refl [simp]: "tagged_only a a"
  by (simp add: tagged_only_def)

lemma kuiper_apply_tagged: "list_all2 tagged_only nodes (fst (kuiper_apply_supplemental hints nodes))"
  by (auto simp: kuiper_apply_exact list_all2_map2 list_all2_same tagged_only_def kuiper_tags_other split: option.splits)

lemma list_all2_relabel:
  "list_all2 P (map la_node ls) ns \<Longrightarrow>
     list_all2 (\<lambda>l l'. label_triple l' = label_triple l \<and> P (la_node l) (la_node l')) ls (relabel ls ns)"
  unfolding relabel_def
  by (induction ls arbitrary: ns) (auto simp: list_all2_Cons1 label_triple_def)

lemma kuiper_assist_estate:
  assumes "kuiper_assist client ls = (Some (out, ids), msg)"
  shows "list_all2 (\<lambda>l l'. label_triple l' = label_triple l \<and> tagged_only (la_node l) (la_node l')) ls out"
proof -
  from assms obtain hints where "out = relabel ls (fst (kuiper_apply_supplemental hints (map la_node ls)))"
    by (auto simp: kuiper_assist_def Let_def split_beta split: option.split_asm discovery_client.split_asm sum.split_asm if_split_asm)
  then show ?thesis using list_all2_relabel [OF kuiper_apply_tagged] by simp
qed

lemma finish_discovery_estate:
  "\<exists>ls'. dc_estate (finish_discovery now sc kuiper skipped nd ls) = Some ls'
     \<and> list_all2 (\<lambda>l l'. label_triple l' = label_triple l \<and> tagged_only (la_node l) (la_node l')) ls ls'"
proof -
  obtain sup msg where k: "kuiper_assist kuiper ls = (sup, msg)" by (cases "kuiper_assist kuiper ls")
  show ?thesis
  proof (cases sup)
    case None
    then show ?thesis by (auto simp: finish_discovery_def k Let_def list_all2_same)
  next
    case (Some p)
    then obtain out ids where "sup = Some (out, ids)" by (cases p) auto
    then show ?thesis using kuiper_assist_estate [of kuiper ls out ids msg] k by (auto simp: finish_discovery_def Let_def)
  qed
qed

section \<open>The run\<close>

text \<open>The nodes of the well-formed rows, in order.\<close>

definition row_nodes :: "(pyval \<Rightarrow> string) \<Rightarrow> pyval list \<Rightarrow> resource_node list" where
  "row_nodes other rows = List.map_filter (\<lambda>r. case row_to_node other r of Inr n \<Rightarrow> Some n | Inl _ \<Rightarrow> None) rows"

lemma rights_map_filter: "rights (map f xs) = List.map_filter (\<lambda>x. case f x of Inr y \<Rightarrow> Some y | Inl _ \<Rightarrow> None) xs"
  by (induction xs) (auto simp: map_filter_simps split: sum.splits)

lemma rows_to_nodes_fst: "fst (rows_to_nodes other rows) = row_nodes other rows"
  by (simp add: rows_to_nodes_def row_nodes_def rights_map_filter)

lemma rights_or_indexed:
  "length (rights (map f rows)) + length (List.map_filter (\<lambda>(i, r). case f r of Inl e \<Rightarrow> Some (i, e) | Inr _ \<Rightarrow> None)
     (zip [m..<m + length rows] rows)) = length rows"
proof (induction rows arbitrary: m)
  case (Cons r rows)
  have "[m..<m + length (r # rows)] = m # [Suc m..<Suc m + length rows]"
    using upt_conv_Cons [of m "m + length (r # rows)"] by simp
  then show ?case using Cons [of "Suc m"] by (cases "f r") (simp_all add: map_filter_simps)
qed simp

lemma rows_counted: "length (fst (rows_to_nodes other rows)) + length (snd (rows_to_nodes other rows)) = length rows"
  using rights_or_indexed [of "row_to_node other" rows 0] by (simp add: rows_to_nodes_def)

lemma list_all2_joined:
  "list_all2 P ns ls \<Longrightarrow> list_all2 Q ls ls' \<Longrightarrow> (\<And>n l l'. P n l \<Longrightarrow> Q l l' \<Longrightarrow> R n l') \<Longrightarrow> list_all2 R ns ls'"
  by (auto simp: list_all2_conv_all_nth)

lemma confidence_bounds: "0 \<le> confidence_of ls \<and> confidence_of ls \<le> 1"
proof -
  have "(of_nat (length (filter (\<lambda>l. la_workload l \<noteq> VNone) ls)) :: rat) \<le> of_nat (length ls)" by simp
  then show ?thesis by (simp add: confidence_of_def divide_le_eq)
qed

text \<open>What a run over answered rows consists of.\<close>

lemma discovery_run_rows:
  assumes "dict_get clients ''resource_graph'' = Some client" and "discovery_query client (case scope of None \<Rightarrow> [] | Some s \<Rightarrow> s) = Inr rows"
  shows "discovery_run other now clients packs scope = Inr r \<longleftrightarrow>
    (\<exists>ds ls. load_definitions packs = Inr ds \<and> classify (row_nodes other rows) ds = Inr ls
      \<and> r = finish_discovery now (case scope of None \<Rightarrow> [] | Some s \<Rightarrow> s) (dict_get clients ''kuiper'')
              (length (snd (rows_to_nodes other rows))) (ds = []) ls)"
proof -
  obtain resources skipped where rn: "rows_to_nodes other rows = (resources, skipped)" by (cases "rows_to_nodes other rows")
  then have res: "resources = row_nodes other rows" using rows_to_nodes_fst [of other rows] by simp
  have m: "map_sum Raised id c = Inr x \<longleftrightarrow> c = Inr x" for c :: "py_exc + labelled_node list" and x
    by (cases c) auto
  show ?thesis
    using assms by (auto simp: discovery_run_def Let_def rn res rbind_Inr_iff m)
qed

text \<open>C40: a run over answered rows yields the whole estate: one node per well-formed row, in order, under the
  identity of the row, with the labels of the first definition that matches it and no other, and its
  tags but for the two Kuiper may set; every other row is counted as skipped, and the confidence lies
  between zero and one.\<close>

theorem discovery_estate_exact:
  assumes "discovery_run other now clients packs scope = Inr r"
    and "dict_get clients ''resource_graph'' = Some (ResourceGraph query)"
    and "query (case scope of None \<Rightarrow> [] | Some s \<Rightarrow> s) = Inr rows"
  shows "\<exists>ds ls. load_definitions packs = Inr ds \<and> dc_estate r = Some ls
    \<and> list_all2 (\<lambda>n l. tagged_only n (la_node l) \<and> label_triple l = labels_of n ds) (row_nodes other rows) ls
    \<and> dict_get (dc_extra r) ''skippedRows'' = Some (int (length rows) - int (length ls))
    \<and> 0 \<le> ag_confidence (dc_response r) \<and> ag_confidence (dc_response r) \<le> 1"
proof -
  from assms discovery_run_rows [of clients "ResourceGraph query" scope rows other now packs r]
  obtain ds cls where ds: "load_definitions packs = Inr ds" and c: "classify (row_nodes other rows) ds = Inr cls"
    and r: "r = finish_discovery now (case scope of None \<Rightarrow> [] | Some s \<Rightarrow> s) (dict_get clients ''kuiper'')
              (length (snd (rows_to_nodes other rows))) (ds = []) cls"
    by (auto simp: discovery_query_def)
  from finish_discovery_estate r obtain ls where ls: "dc_estate r = Some ls"
    and t: "list_all2 (\<lambda>l l'. label_triple l' = label_triple l \<and> tagged_only (la_node l) (la_node l')) cls ls" by blast
  have e: "list_all2 (\<lambda>n l. tagged_only n (la_node l) \<and> label_triple l = labels_of n ds) (row_nodes other rows) ls"
    using classify_Inr [OF c] t by (rule list_all2_joined) simp
  have "length (row_nodes other rows) = length ls" using e by (rule list_all2_lengthD)
  then have "int (length (snd (rows_to_nodes other rows))) = int (length rows) - int (length ls)"
    using rows_counted [of other rows] by (simp add: rows_to_nodes_fst)
  then have "dict_get (dc_extra r) ''skippedRows'' = Some (int (length rows) - int (length ls))"
    by (simp add: r finish_discovery_def Let_def split_beta)
  moreover have "ag_confidence (dc_response r) = confidence_of cls"
    by (simp add: r finish_discovery_def discovery_response_def Let_def split_beta)
  ultimately show ?thesis using ds ls e confidence_bounds [of cls] by auto
qed

lemma discovery_estate_exact_witness:
  "\<exists>ds ls. load_definitions None = Inr ds
    \<and> list_all2 (\<lambda>n l. tagged_only n (la_node l) \<and> label_triple l = labels_of n ds)
        (row_nodes (\<lambda>_. []) [VDict [(VStr ''id'', VStr ''vm''), (VStr ''name'', VStr ''vm''), (VStr ''type'', VStr ''t'')], VNone]) ls"
proof -
  let ?rows = "[VDict [(VStr ''id'', VStr ''vm''), (VStr ''name'', VStr ''vm''), (VStr ''type'', VStr ''t'')], VNone]"
  let ?run = "discovery_run (\<lambda>_. []) 0 [(''resource_graph'', ResourceGraph (\<lambda>_. Inr ?rows))] None None"
  have "classify (row_nodes (\<lambda>_. []) ?rows) [] = Inr (map plain_labels (row_nodes (\<lambda>_. []) ?rows))"
    by (simp add: classify_def rseq_Inr_iff)
  then have "\<exists>r. ?run = Inr r"
    using discovery_run_rows [of "[(''resource_graph'', ResourceGraph (\<lambda>_. Inr ?rows))]" "ResourceGraph (\<lambda>_. Inr ?rows)"
        None ?rows "\<lambda>_. []" 0 None] by (simp add: load_definitions_def discovery_query_def)
  then obtain r where "?run = Inr r" ..
  from discovery_estate_exact [OF this, of "\<lambda>_. Inr ?rows" ?rows] show ?thesis by auto
qed

text \<open>without an estate there is a result all the same, and the persisted estate is safe: where the query
  fails, for whatever reason, the run reports it, by the class of the failure only, and committing its
  result leaves the store as it was; the packs and the assist are not even looked at. Only where no
  client is wired is the estate cleared.\<close>

theorem failed_query_keeps_estate:
  "case dict_get clients ''resource_graph'' of
     None \<Rightarrow> \<exists>r. discovery_run other now clients packs scope = Inr r \<and> dc_estate r = Some []
       \<and> ag_confidence (dc_response r) = 0
   | Some client \<Rightarrow>
       (case discovery_query client (case scope of None \<Rightarrow> [] | Some s \<Rightarrow> s) of
          Inr _ \<Rightarrow> True
        | Inl cls \<Rightarrow> \<exists>r out. discovery_run other now clients packs scope = Inr r \<and> dc_estate r = None
            \<and> ag_confidence (dc_response r) = 0
            \<and> ag_risks (dc_response r) = [''ARG query error ('' @ cls @ ''); ran fail-closed'']
            \<and> discovery_outcome r = Some out \<and> commit_run build w out s = (Inr (0, 0, 0), s))"
proof (cases "dict_get clients ''resource_graph''")
  case None
  then show ?thesis by (simp add: discovery_run_def Let_def discovery_response_def)
next
  case (Some client)
  show ?thesis
  proof (cases "discovery_query client (case scope of None \<Rightarrow> [] | Some s \<Rightarrow> s)")
    case (Inl cls)
    then show ?thesis
      by (simp add: Some discovery_run_def Let_def discovery_response_def discovery_outcome_def commit_run_def
          transaction_def tbind_def treturn_def)
  qed (simp add: Some)
qed

lemma finish_discovery_assist:
  "rel_option (list_all2 (\<lambda>l l'. label_triple l' = label_triple l \<and> tagged_only (la_node l) (la_node l')))
       (dc_estate (finish_discovery now sc None n nd ls)) (dc_estate (finish_discovery now sc kuiper n nd ls))
     \<and> ag_confidence (dc_response (finish_discovery now sc kuiper n nd ls))
       = ag_confidence (dc_response (finish_discovery now sc None n nd ls))
     \<and> filter (\<lambda>(k, _). k \<noteq> ''supplementalSignals'') (dc_extra (finish_discovery now sc kuiper n nd ls))
       = dc_extra (finish_discovery now sc None n nd ls)"
proof -
  obtain ls' where ls': "dc_estate (finish_discovery now sc kuiper n nd ls) = Some ls'"
    and a: "list_all2 (\<lambda>l l'. label_triple l' = label_triple l \<and> tagged_only (la_node l) (la_node l')) ls ls'"
    using finish_discovery_estate by blast
  have none: "dc_estate (finish_discovery now sc None n nd ls) = Some ls"
    by (simp add: finish_discovery_def kuiper_assist_def Let_def)
  obtain sup msg where k: "kuiper_assist kuiper ls = (sup, msg)" by (cases "kuiper_assist kuiper ls")
  have "ls' = (case sup of None \<Rightarrow> ls | Some (nodes, _) \<Rightarrow> nodes)" using ls' by (simp add: finish_discovery_def k Let_def)
  then have "length (case sup of None \<Rightarrow> ls | Some (nodes, _) \<Rightarrow> nodes) = length ls" using a by (simp add: list_all2_lengthD)
  then have "filter (\<lambda>(k, _). k \<noteq> ''supplementalSignals'') (dc_extra (finish_discovery now sc kuiper n nd ls))
      = dc_extra (finish_discovery now sc None n nd ls)"
    by (cases sup) (auto simp: finish_discovery_def k kuiper_assist_def [of None] Let_def)
  moreover have "ag_confidence (dc_response (finish_discovery now sc kuiper n nd ls))
      = ag_confidence (dc_response (finish_discovery now sc None n nd ls))"
    by (simp add: finish_discovery_def Let_def split_beta discovery_response_def)
  ultimately show ?thesis using a by (simp add: ls' none)
qed

lemma rel_sum_rbind:
  "rel_sum (=) R (rbind m f) (rbind m g) \<longleftrightarrow> (\<forall>x. m = Inr x \<longrightarrow> rel_sum (=) R (f x) (g x))"
  by (cases m) simp_all

text \<open>the Kuiper assist never decides anything: with any connector, answering or raising, a run
  returns exactly where it does without one, and returns the same nodes under the same labels, the same
  confidence and counts; only the two supplemental tags, a note and the count of annotations differ.\<close>

theorem kuiper_supplements_only:
  "rel_sum (=)
      (\<lambda>r r'. rel_option (list_all2 (\<lambda>l l'. label_triple l' = label_triple l \<and> tagged_only (la_node l) (la_node l')))
           (dc_estate r) (dc_estate r')
         \<and> ag_confidence (dc_response r') = ag_confidence (dc_response r)
         \<and> filter (\<lambda>(k, _). k \<noteq> ''supplementalSignals'') (dc_extra r') = dc_extra r)
      (discovery_run other now (filter (\<lambda>(n, _). n \<noteq> ''kuiper'') clients) packs scope)
      (discovery_run other now clients packs scope)"
proof -
  let ?sc = "case scope of None \<Rightarrow> [] | Some s \<Rightarrow> s"
  let ?cl = "filter (\<lambda>(n, _). n \<noteq> ''kuiper'') clients"
  have g: "dict_get ?cl ''resource_graph'' = dict_get clients ''resource_graph''" "dict_get ?cl ''kuiper'' = None"
    using map_of_filter_fst [of "\<lambda>n. n \<noteq> ''kuiper''" clients] by (simp_all add: case_prod_unfold)
  show ?thesis
  proof (cases "dict_get clients ''resource_graph''")
    case None
    then show ?thesis by (simp add: discovery_run_def Let_def g)
  next
    case (Some client)
    show ?thesis
    proof (cases "discovery_query client ?sc")
      case (Inl cls)
      then show ?thesis by (simp add: Some discovery_run_def Let_def g)
    next
      case (Inr rows)
      obtain resources skipped where rn: "rows_to_nodes other rows = (resources, skipped)" by (cases "rows_to_nodes other rows")
      show ?thesis
        using finish_discovery_assist
        by (simp add: Some Inr discovery_run_def Let_def g rn rel_sum_rbind)
    qed
  qed
qed

end
