(* ===== verification/Auth.thy ===== *)
theory Auth
  imports Base64 Pack_Model Py_Float Py_Text
begin

text \<open>
  Authentication and authorization, \<open>src/shared/auth\<close>: roles and principals, the configuration and its
  mode, the cache of public signing keys, and the validator of bearer tokens. The JSON decoder, the
  RSA signature check and the construction of a public key are parameters; the clock is a rational.
\<close>

section \<open>Roles\<close>

datatype role = Reader | Operator | Admin

definition APP_ROLE_READER :: string where
  "APP_ROLE_READER = ''Workloads.Reader''"

definition APP_ROLE_OPERATOR :: string where
  "APP_ROLE_OPERATOR = ''Workloads.Operator''"

definition APP_ROLE_ADMIN :: string where
  "APP_ROLE_ADMIN = ''Workloads.Admin''"

definition APP_ROLE_TO_ROLE :: "(string, role) dict" where
  "APP_ROLE_TO_ROLE = [(APP_ROLE_READER, Reader), (APP_ROLE_OPERATOR, Operator), (APP_ROLE_ADMIN, Admin)]"

fun ROLE_GRANTS :: "role \<Rightarrow> role set" where
  "ROLE_GRANTS Reader = {Reader}"
| "ROLE_GRANTS Operator = {Reader, Operator}"
| "ROLE_GRANTS Admin = {Reader, Operator, Admin}"

definition roles_from_app_roles :: "string list \<Rightarrow> role set" where
  "roles_from_app_roles app_roles = set (List.map_filter (dict_get APP_ROLE_TO_ROLE) app_roles)"

section \<open>Principals\<close>

record principal =
  pr_oid :: string
  pr_roles :: "role set"
  pr_tenant_id :: "string option"

definition principal_grants :: "principal \<Rightarrow> role \<Rightarrow> bool" where
  "principal_grants p required \<longleftrightarrow> (\<exists>held \<in> pr_roles p. required \<in> ROLE_GRANTS held)"

definition principal_granted :: "principal \<Rightarrow> role set" where
  "principal_granted p = \<Union> (ROLE_GRANTS ` pr_roles p)"

section \<open>Errors\<close>

text \<open>\<open>AuthConfigError\<close> refuses to serve, \<open>AuthenticationError\<close> is answered with 401; both carry a reason
  code only. \<open>AuthRaised\<close> is any other exception.\<close>

datatype auth_exc = AuthConfigError string | AuthenticationError string | AuthRaised py_exc

section \<open>Configuration\<close>

datatype auth_mode = AuthRequired | AuthDisabled

record auth_config =
  ac_tenant_id :: string
  ac_audience :: string
  ac_allowed_issuers :: "string list"
  ac_jwks_uri :: string

definition env_value :: "(string, string) dict \<Rightarrow> string \<Rightarrow> string" where
  "env_value env k = py_strip (case dict_get env k of None \<Rightarrow> [] | Some v \<Rightarrow> v)"

definition resolve_auth_mode :: "(string, string) dict \<Rightarrow> auth_exc + auth_mode" where
  "resolve_auth_mode env =
     (let raw = py_lower (env_value env ''WP_AUTH_MODE'')
      in if raw = [] then Inr AuthRequired
         else if raw = ''required'' then Inr AuthRequired
         else if raw = ''disabled'' then Inr AuthDisabled
         else Inl (AuthConfigError ''invalid_auth_mode''))"

definition issuer_template :: "string \<Rightarrow> string" where
  "issuer_template tenant = ''https://login.microsoftonline.com/'' @ tenant @ ''/v2.0''"

definition jwks_template :: "string \<Rightarrow> string" where
  "jwks_template tenant = ''https://login.microsoftonline.com/'' @ tenant @ ''/discovery/v2.0/keys''"

definition build_auth_config :: "(string, string) dict \<Rightarrow> auth_exc + auth_config option" where
  "build_auth_config env =
     (let tenant_id = env_value env ''WP_AUTH_TENANT_ID'';
          audience = env_value env ''WP_AUTH_AUDIENCE'';
          issuers_raw = env_value env ''WP_AUTH_ALLOWED_ISSUERS'';
          jwks = env_value env ''WP_AUTH_JWKS_URI''
      in if (tenant_id \<noteq> []) \<noteq> (audience \<noteq> []) then Inl (AuthConfigError ''partial_auth_config'')
         else if tenant_id = [] then Inr None
         else Inr (Some \<lparr>ac_tenant_id = tenant_id, ac_audience = audience,
                ac_allowed_issuers =
                  (if issuers_raw \<noteq> [] then filter (\<lambda>p. p \<noteq> []) (map py_strip (py_split CHR '','' issuers_raw))
                   else [issuer_template tenant_id]),
                ac_jwks_uri = (if jwks \<noteq> [] then jwks else jwks_template tenant_id)\<rparr>))"

text \<open>\<open>build_token_validator\<close>: the configuration of the validator, \<open>None\<close> only where auth is disabled.\<close>

definition build_token_validator :: "(string, string) dict \<Rightarrow> auth_exc + auth_config option" where
  "build_token_validator env =
     rbind (resolve_auth_mode env) (\<lambda>mode.
     rbind (build_auth_config env) (\<lambda>config.
       if mode = AuthDisabled then Inr None
       else (case config of
               None \<Rightarrow> Inl (AuthConfigError ''auth_required_but_unconfigured'')
             | Some c \<Rightarrow> Inr (Some c))))"

text \<open>The token a first-party caller sends: \<open>acquire\<close> asks the managed identity for a scope and yields the
  token or the class of what was raised.\<close>

definition default_api_scope :: "string \<Rightarrow> string" where
  "default_api_scope audience = rev (dropWhile (\<lambda>c. c = CHR ''/'') (rev audience)) @ ''/.default''"

definition managed_identity_token :: "(string \<Rightarrow> string + string) \<Rightarrow> string \<Rightarrow> auth_exc + string" where
  "managed_identity_token acquire sc =
     (case acquire sc of
        Inl cls \<Rightarrow> Inl (AuthConfigError (''token_acquisition_failed ('' @ cls @ '')''))
      | Inr token \<Rightarrow> Inr token)"

definition build_api_token_provider ::
  "(string, string) dict \<Rightarrow> (string \<Rightarrow> string + string) \<Rightarrow> auth_exc + (auth_exc + string) option" where
  "build_api_token_provider env acquire =
     rbind (resolve_auth_mode env) (\<lambda>mode.
     rbind (build_auth_config env) (\<lambda>config.
       if mode = AuthDisabled then Inr None
       else (case config of
               None \<Rightarrow> Inl (AuthConfigError ''auth_required_but_unconfigured'')
             | Some c \<Rightarrow> Inr (Some (managed_identity_token acquire (default_api_scope (ac_audience c)))))))"

section \<open>Decoding\<close>

text \<open>\<open>base64.urlsafe_b64decode\<close>: the two URL characters are translated and the rest is \<open>a2b_base64\<close> in its
  lenient mode, which skips what is no character of the alphabet and stops at complete padding.\<close>

fun a2b_lenient :: "nat \<Rightarrow> nat \<Rightarrow> nat \<Rightarrow> string \<Rightarrow> nat list option" where
  "a2b_lenient quad pads left [] = (if quad \<noteq> 0 then None else Some [])"
| "a2b_lenient quad pads left (c # cs) =
     (if c = CHR ''='' then
        (if quad \<ge> 2 \<and> quad + (pads + 1) \<ge> 4 then Some []
         else a2b_lenient quad (if quad \<ge> 2 then pads + 1 else pads) left cs)
      else (case b64_value c of
              None \<Rightarrow> a2b_lenient quad pads left cs
            | Some v \<Rightarrow>
                if quad = 0 then a2b_lenient 1 0 v cs
                else if quad = 1 then map_option ((#) (left * 4 + v div 16)) (a2b_lenient 2 0 (v mod 16) cs)
                else if quad = 2 then map_option ((#) (left * 16 + v div 4)) (a2b_lenient 3 0 (v mod 4) cs)
                else map_option ((#) (left * 64 + v)) (a2b_lenient 0 0 0 cs)))"

definition url_char :: "char \<Rightarrow> char" where
  "url_char c = (if c = CHR ''-'' then CHR ''+'' else if c = CHR ''_'' then CHR ''/'' else c)"

definition str_ascii :: "string \<Rightarrow> bool" where
  "str_ascii s \<longleftrightarrow> list_all (\<lambda>c. (of_char c :: nat) < 128) s"

definition b64url_decode :: "string \<Rightarrow> nat list option" where
  "b64url_decode segment =
     (let s = segment @ replicate (nat ((- int (length segment)) mod 4)) (CHR ''='')
      in if \<not> str_ascii s then None else a2b_lenient 0 0 0 (map url_char s))"

definition malformed :: auth_exc where
  "malformed = AuthenticationError ''malformed_token''"

text \<open>What the code relies on: \<open>json.loads\<close> of bytes (\<open>None\<close> for \<open>ValueError\<close>), the RS256 check of a
  signature over a message, and the construction of a key from exponent and modulus.\<close>

record 'k auth_lib =
  al_json :: "nat list \<Rightarrow> pyval option"
  al_verify :: "'k \<Rightarrow> nat list \<Rightarrow> nat list \<Rightarrow> bool"
  al_rsa :: "nat \<Rightarrow> nat \<Rightarrow> 'k option"

definition decode_json_segment :: "'k auth_lib \<Rightarrow> string \<Rightarrow> auth_exc + raw_dict" where
  "decode_json_segment lib segment =
     (case Option.bind (b64url_decode segment) (al_json lib) of
        Some (VDict d) \<Rightarrow> Inr d
      | _ \<Rightarrow> Inl malformed)"

section \<open>Public keys\<close>

definition b64url_uint :: "string \<Rightarrow> nat option" where
  "b64url_uint v = map_option (foldl (\<lambda>n b. n * 256 + b) 0) (b64url_decode v)"

definition jwk_to_public_key :: "'k auth_lib \<Rightarrow> raw_dict \<Rightarrow> auth_exc + 'k" where
  "jwk_to_public_key lib jwk =
     (if Option.bind (vget jwk ''kty'') str_key \<noteq> Some ''RSA'' then Inl (AuthenticationError ''unsupported_key_type'')
      else (case (Option.bind (vget jwk ''n'') str_key, Option.bind (vget jwk ''e'') str_key) of
              (Some modulus, Some exponent) \<Rightarrow>
                (case (b64url_uint exponent, b64url_uint modulus) of
                   (Some e, Some n) \<Rightarrow>
                     (case al_rsa lib e n of None \<Rightarrow> Inl (AuthenticationError ''malformed_jwk'') | Some k \<Rightarrow> Inr k)
                 | _ \<Rightarrow> Inl (AuthenticationError ''malformed_jwk''))
            | _ \<Rightarrow> Inl (AuthenticationError ''malformed_jwk'')))"

text \<open>The cache of keys: the state is the parsed keys, when they were fetched, and how often the endpoint
  and the clock have been asked.\<close>

record 'k jwks_state =
  js_keys :: "(string, 'k) dict"
  js_fetched_at :: "rat option"
  js_fetches :: nat
  js_ticks :: nat

text \<open>The environment of the cache: what the endpoint answers to the n-th fetch and the clock.\<close>

record jwks_world =
  jw_fetch :: "nat \<Rightarrow> auth_exc + pyval list"
  jw_clock :: "nat \<Rightarrow> rat"
  jw_ttl :: rat

text \<open>The default fetcher: the class of what the transport or the JSON decoder raised, or the document.\<close>

definition httpx_jwks_fetcher :: "string + pyval \<Rightarrow> auth_exc + pyval list" where
  "httpx_jwks_fetcher response =
     (case response of
        Inl cls \<Rightarrow> Inl (AuthenticationError (''jwks_fetch_failed:'' @ cls))
      | Inr payload \<Rightarrow>
          (case payload of
             VDict d \<Rightarrow> (case vget d ''keys'' of Some (VList ks) \<Rightarrow> Inr ks | _ \<Rightarrow> Inl (AuthenticationError ''jwks_malformed''))
           | _ \<Rightarrow> Inl (AuthenticationError ''jwks_malformed'')))"

definition jwks_empty :: "'k jwks_state" where
  "jwks_empty = \<lparr>js_keys = [], js_fetched_at = None, js_fetches = 0, js_ticks = 0\<rparr>"

definition parse_jwk :: "'k auth_lib \<Rightarrow> (string, 'k) dict \<Rightarrow> pyval \<Rightarrow> auth_exc + (string, 'k) dict" where
  "parse_jwk lib parsed jwk =
     (case jwk of
        VDict d \<Rightarrow>
          (case Option.bind (vget d ''kid'') str_key of
             None \<Rightarrow> Inr parsed
           | Some kid \<Rightarrow>
               if Option.bind (vget d ''kty'') str_key \<noteq> Some ''RSA'' then Inr parsed
               else rbind (jwk_to_public_key lib d) (\<lambda>k. Inr (dict_set kid k parsed)))
      | _ \<Rightarrow> Inl (AuthRaised AttributeError))"

fun parse_jwks :: "'k auth_lib \<Rightarrow> (string, 'k) dict \<Rightarrow> pyval list \<Rightarrow> auth_exc + (string, 'k) dict" where
  "parse_jwks lib parsed [] = Inr parsed"
| "parse_jwks lib parsed (j # js) = rbind (parse_jwk lib parsed j) (\<lambda>p. parse_jwks lib p js)"

definition refresh :: "'k auth_lib \<Rightarrow> jwks_world \<Rightarrow> 'k jwks_state \<Rightarrow> (auth_exc + unit) \<times> 'k jwks_state" where
  "refresh lib w s =
     (let s1 = s\<lparr>js_fetches := Suc (js_fetches s)\<rparr> in
      case rbind (jw_fetch w (js_fetches s)) (parse_jwks lib []) of
        Inl e \<Rightarrow> (Inl e, s1)
      | Inr parsed \<Rightarrow>
          (Inr (), s1\<lparr>js_keys := parsed, js_fetched_at := Some (jw_clock w (js_ticks s)), js_ticks := Suc (js_ticks s)\<rparr>))"

definition is_stale :: "jwks_world \<Rightarrow> 'k jwks_state \<Rightarrow> bool \<times> 'k jwks_state" where
  "is_stale w s =
     (case js_fetched_at s of
        None \<Rightarrow> (True, s)
      | Some t \<Rightarrow> (jw_clock w (js_ticks s) - t \<ge> jw_ttl w, s\<lparr>js_ticks := Suc (js_ticks s)\<rparr>))"

definition jwks_get_key :: "'k auth_lib \<Rightarrow> jwks_world \<Rightarrow> string \<Rightarrow> 'k jwks_state \<Rightarrow> (auth_exc + 'k) \<times> 'k jwks_state" where
  "jwks_get_key lib w kid s =
     (case is_stale w s of
        (stale, s0) \<Rightarrow>
          (case (if stale then refresh lib w s0 else (Inr (), s0)) of
             (Inl e, s1) \<Rightarrow> (Inl e, s1)
           | (Inr _, s1) \<Rightarrow>
               (case dict_get (js_keys s1) kid of
                  Some k \<Rightarrow> (Inr k, s1)
                | None \<Rightarrow>
                    (case refresh lib w s1 of
                       (Inl e, s2) \<Rightarrow> (Inl e, s2)
                     | (Inr _, s2) \<Rightarrow>
                         (case dict_get (js_keys s2) kid of
                            Some k \<Rightarrow> (Inr k, s2)
                          | None \<Rightarrow> (Inl (AuthenticationError ''unknown_kid''), s2))))))"

section \<open>The validator\<close>

definition DEFAULT_LEEWAY :: rat where
  "DEFAULT_LEEWAY = 60"

text \<open>\<open>_split\<close> of a compact token.\<close>

definition split_token :: "string \<Rightarrow> auth_exc + string \<times> string" where
  "split_token token =
     (case py_split CHR ''.'' token of
        [h, p, s] \<Rightarrow> if h \<noteq> [] \<and> p \<noteq> [] \<and> s \<noteq> [] then Inr (h, p) else Inl malformed
      | _ \<Rightarrow> Inl malformed)"

text \<open>\<open>token.rpartition(".")\<close>: what is signed, and the segment of the signature. A signed text that is not
  ASCII raises \<open>UnicodeEncodeError\<close>, a \<open>ValueError\<close>, which the validator does not catch.\<close>

definition rpartition_dot :: "string \<Rightarrow> string \<times> string" where
  "rpartition_dot token =
     (let tail = rev (takeWhile (\<lambda>c. c \<noteq> CHR ''.'') (rev token))
      in (take (length token - length tail - 1) token, tail))"

definition verify_signature :: "'k auth_lib \<Rightarrow> string \<Rightarrow> 'k \<Rightarrow> auth_exc + unit" where
  "verify_signature lib token key =
     (case rpartition_dot token of
        (signing_input, signature_seg) \<Rightarrow>
          (case b64url_decode signature_seg of
             None \<Rightarrow> Inl malformed
           | Some signature \<Rightarrow>
               if \<not> str_ascii signing_input then Inl (AuthRaised ValueError)
               else if al_verify lib key signature (map of_char signing_input) then Inr ()
               else Inl (AuthenticationError ''bad_signature'')))"

definition check_issuer :: "auth_config \<Rightarrow> raw_dict \<Rightarrow> auth_exc + unit" where
  "check_issuer c claims =
     (case Option.bind (vget claims ''iss'') str_key of
        Some issuer \<Rightarrow> if issuer \<in> set (ac_allowed_issuers c) then Inr () else Inl (AuthenticationError ''bad_issuer'')
      | None \<Rightarrow> Inl (AuthenticationError ''bad_issuer''))"

definition audiences_of :: "pyval option \<Rightarrow> string list option" where
  "audiences_of aud =
     (case Option.bind aud str_key of
        Some a \<Rightarrow> Some [a]
      | None \<Rightarrow> (case aud of Some (VList vs) \<Rightarrow> Some (List.map_filter str_key vs) | _ \<Rightarrow> None))"

definition check_audience :: "auth_config \<Rightarrow> raw_dict \<Rightarrow> auth_exc + unit" where
  "check_audience c claims =
     (case audiences_of (vget claims ''aud'') of
        Some as \<Rightarrow> if ac_audience c \<in> set as then Inr () else Inl (AuthenticationError ''bad_audience'')
      | None \<Rightarrow> Inl (AuthenticationError ''bad_audience''))"

text \<open>A time claim as a float: an integer beyond the floats raises \<open>OverflowError\<close>, a boolean is no time.\<close>

definition numeric_claim :: "raw_dict \<Rightarrow> string \<Rightarrow> auth_exc + pyfloat option" where
  "numeric_claim claims name =
     (case vget claims name of
        Some (VInt i) \<Rightarrow> (case float_of_int i of Inl e \<Rightarrow> Inl (AuthRaised e) | Inr x \<Rightarrow> Inr (Some x))
      | Some (VFloat x) \<Rightarrow> Inr (Some x)
      | _ \<Rightarrow> Inr None)"

text \<open>\<open>now > x + d\<close> and \<open>now < x + d\<close> for a float \<open>x\<close>; no comparison with NaN holds.\<close>

definition later :: "rat \<Rightarrow> pyfloat \<Rightarrow> rat \<Rightarrow> bool" where
  "later now x d \<longleftrightarrow>
     (case x of PFin r \<Rightarrow> now > r + d | PNegZero \<Rightarrow> now > d | PInf \<Rightarrow> False | PNegInf \<Rightarrow> True | PNaN \<Rightarrow> False)"

definition earlier :: "rat \<Rightarrow> pyfloat \<Rightarrow> rat \<Rightarrow> bool" where
  "earlier now x d \<longleftrightarrow>
     (case x of PFin r \<Rightarrow> now < r + d | PNegZero \<Rightarrow> now < d | PInf \<Rightarrow> True | PNegInf \<Rightarrow> False | PNaN \<Rightarrow> False)"

definition check_time :: "rat \<Rightarrow> rat \<Rightarrow> raw_dict \<Rightarrow> auth_exc + unit" where
  "check_time leeway now claims =
     rbind (numeric_claim claims ''exp'') (\<lambda>exp.
     if (case exp of None \<Rightarrow> True | Some x \<Rightarrow> later now x leeway) then Inl (AuthenticationError ''expired'')
     else rbind (numeric_claim claims ''nbf'') (\<lambda>nbf.
       if (case nbf of None \<Rightarrow> False | Some x \<Rightarrow> earlier now x (- leeway)) then Inl (AuthenticationError ''not_yet_valid'')
       else Inr ()))"

definition app_roles_of :: "raw_dict \<Rightarrow> string list" where
  "app_roles_of claims = (case vget claims ''roles'' of Some (VList vs) \<Rightarrow> List.map_filter str_key vs | _ \<Rightarrow> [])"

definition principal_from_claims :: "raw_dict \<Rightarrow> auth_exc + principal" where
  "principal_from_claims claims =
     (case Option.bind (vget claims ''oid'') str_key of
        None \<Rightarrow> Inl (AuthenticationError ''missing_oid'')
      | Some oid \<Rightarrow>
          if oid = [] then Inl (AuthenticationError ''missing_oid'')
          else Inr \<lparr>pr_oid = oid, pr_roles = roles_from_app_roles (app_roles_of claims),
                    pr_tenant_id = (case Option.bind (vget claims ''tid'') str_key of
                        None \<Rightarrow> None | Some t \<Rightarrow> if t = [] then None else Some t)\<rparr>)"

definition check_claims :: "auth_config \<Rightarrow> rat \<Rightarrow> rat \<Rightarrow> raw_dict \<Rightarrow> auth_exc + principal" where
  "check_claims c leeway now claims =
     rbind (check_issuer c claims) (\<lambda>_. rbind (check_audience c claims) (\<lambda>_.
     rbind (check_time leeway now claims) (\<lambda>_. principal_from_claims claims)))"

definition resolve_kid :: "raw_dict \<Rightarrow> auth_exc + string" where
  "resolve_kid header =
     (case Option.bind (vget header ''kid'') str_key of
        None \<Rightarrow> Inl (AuthenticationError ''missing_kid'')
      | Some kid \<Rightarrow> if kid = [] then Inl (AuthenticationError ''missing_kid'') else Inr kid)"

definition require_rs256 :: "raw_dict \<Rightarrow> auth_exc + unit" where
  "require_rs256 header =
     (if Option.bind (vget header ''alg'') str_key = Some ''RS256'' then Inr () else Inl (AuthenticationError ''unsupported_alg''))"

text \<open>\<open>TokenValidator.validate\<close> over any provider of keys, with the state of the provider.\<close>

definition validate_token ::
  "'k auth_lib \<Rightarrow> auth_config \<Rightarrow> (string \<Rightarrow> 's \<Rightarrow> (auth_exc + 'k) \<times> 's) \<Rightarrow> rat \<Rightarrow> rat \<Rightarrow> string \<Rightarrow> 's
     \<Rightarrow> (auth_exc + principal) \<times> 's" where
  "validate_token lib c get_key leeway now token s =
     (case rbind (split_token token) (\<lambda>(header_seg, payload_seg).
           rbind (decode_json_segment lib header_seg) (\<lambda>header.
           rbind (require_rs256 header) (\<lambda>_.
           rbind (resolve_kid header) (\<lambda>kid. Inr (payload_seg, kid))))) of
        Inl e \<Rightarrow> (Inl e, s)
      | Inr (payload_seg, kid) \<Rightarrow>
          (case get_key kid s of
             (Inl e, s') \<Rightarrow> (Inl e, s')
           | (Inr key, s') \<Rightarrow>
               (rbind (verify_signature lib token key) (\<lambda>_.
                rbind (decode_json_segment lib payload_seg) (\<lambda>claims. check_claims c leeway now claims)), s')))"

section \<open>What the validator accepts\<close>

lemma str_ascii_append [simp]: "str_ascii (a @ b) \<longleftrightarrow> str_ascii a \<and> str_ascii b"
  by (simp add: str_ascii_def)

definition time_ok :: "rat \<Rightarrow> rat \<Rightarrow> raw_dict \<Rightarrow> bool" where
  "time_ok leeway now claims \<longleftrightarrow>
     (case numeric_claim claims ''exp'' of Inr (Some x) \<Rightarrow> \<not> later now x leeway | _ \<Rightarrow> False)
     \<and> (case numeric_claim claims ''nbf'' of
          Inr (Some x) \<Rightarrow> \<not> earlier now x (- leeway) | Inr None \<Rightarrow> True | Inl _ \<Rightarrow> False)"

abbreviation str_claim :: "raw_dict \<Rightarrow> string \<Rightarrow> string option" where
  "str_claim claims k \<equiv> Option.bind (vget claims k) str_key"

definition claims_vouch :: "auth_config \<Rightarrow> rat \<Rightarrow> rat \<Rightarrow> raw_dict \<Rightarrow> principal \<Rightarrow> bool" where
  "claims_vouch c leeway now claims p \<longleftrightarrow>
     (\<exists>i \<in> set (ac_allowed_issuers c). str_claim claims ''iss'' = Some i)
     \<and> (\<exists>as. audiences_of (vget claims ''aud'') = Some as \<and> ac_audience c \<in> set as)
     \<and> time_ok leeway now claims
     \<and> pr_oid p \<noteq> [] \<and> str_claim claims ''oid'' = Some (pr_oid p)
     \<and> pr_roles p = {r. \<exists>a \<in> set (app_roles_of claims). dict_get APP_ROLE_TO_ROLE a = Some r}
     \<and> pr_tenant_id p = (if str_claim claims ''tid'' = Some [] then None else str_claim claims ''tid'')"

text \<open>What a token must be for a key to vouch for a principal, said without the order of the checks.\<close>

definition token_vouches ::
  "'k auth_lib \<Rightarrow> auth_config \<Rightarrow> rat \<Rightarrow> rat \<Rightarrow> string \<Rightarrow> string \<Rightarrow> 'k \<Rightarrow> principal \<Rightarrow> bool" where
  "token_vouches lib c leeway now token kid key p \<longleftrightarrow>
     (\<exists>h pl sg header claims signature.
        token = h @ ''.'' @ pl @ ''.'' @ sg \<and> CHR ''.'' \<notin> set (h @ pl @ sg) \<and> h \<noteq> [] \<and> pl \<noteq> [] \<and> sg \<noteq> []
      \<and> decode_json_segment lib h = Inr header \<and> str_claim header ''alg'' = Some ''RS256''
      \<and> str_claim header ''kid'' = Some kid \<and> kid \<noteq> []
      \<and> b64url_decode sg = Some signature \<and> str_ascii (h @ pl)
      \<and> al_verify lib key signature (map of_char (h @ ''.'' @ pl))
      \<and> decode_json_segment lib pl = Inr claims \<and> claims_vouch c leeway now claims p)"

lemma split_token_Inr:
  "split_token token = Inr (h, pl) \<longleftrightarrow>
     (\<exists>sg. token = h @ ''.'' @ pl @ ''.'' @ sg \<and> CHR ''.'' \<notin> set (h @ pl @ sg) \<and> h \<noteq> [] \<and> pl \<noteq> [] \<and> sg \<noteq> [])"
  (is "?L \<longleftrightarrow> ?R")
proof
  assume ?L
  then obtain sg where s: "py_split CHR ''.'' token = [h, pl, sg]" and ne: "h \<noteq> []" "pl \<noteq> []" "sg \<noteq> []"
    by (auto simp: split_token_def split: list.splits if_splits)
  have "token = py_join CHR ''.'' [h, pl, sg]" using py_join_split [of "CHR ''.''" token] s by simp
  moreover have "CHR ''.'' \<notin> set (h @ pl @ sg)" using py_split_no_sep [of _ "CHR ''.''" token] s by auto
  ultimately show ?R using ne by auto
next
  assume ?R
  then obtain sg where sg: "token = h @ ''.'' @ pl @ ''.'' @ sg" "CHR ''.'' \<notin> set (h @ pl @ sg)"
    "h \<noteq> []" "pl \<noteq> []" "sg \<noteq> []" by auto
  then have "py_split CHR ''.'' token = [h, pl, sg]" by (simp add: py_split_sep py_split_word)
  then show ?L using sg by (simp add: split_token_def)
qed

lemma rpartition_token:
  assumes "CHR ''.'' \<notin> set sg"
  shows "rpartition_dot (x @ ''.'' @ sg) = (x, sg)"
proof -
  have "takeWhile (\<lambda>c. c \<noteq> CHR ''.'') (rev (x @ ''.'' @ sg)) = rev sg"
    using assms by (auto simp: takeWhile_append)
  then show ?thesis by (simp add: rpartition_dot_def)
qed

lemma check_time_ok: "check_time leeway now claims = Inr () \<longleftrightarrow> time_ok leeway now claims"
  by (auto simp: check_time_def time_ok_def rbind_Inr_iff split: sum.splits option.splits if_splits)

lemma roles_from_iff:
  "roles_from_app_roles xs = {r. \<exists>a \<in> set xs. dict_get APP_ROLE_TO_ROLE a = Some r}"
  by (force simp: roles_from_app_roles_def List.map_filter_def)

lemma check_issuer_ok:
  "check_issuer c claims = Inr () \<longleftrightarrow> (\<exists>i \<in> set (ac_allowed_issuers c). str_claim claims ''iss'' = Some i)"
  by (auto simp: check_issuer_def split: option.splits)

lemma check_audience_ok:
  "check_audience c claims = Inr () \<longleftrightarrow>
     (\<exists>as. audiences_of (vget claims ''aud'') = Some as \<and> ac_audience c \<in> set as)"
  by (auto simp: check_audience_def split: option.splits)

lemma principal_ok:
  "principal_from_claims claims = Inr p \<longleftrightarrow>
     pr_oid p \<noteq> [] \<and> str_claim claims ''oid'' = Some (pr_oid p)
     \<and> pr_roles p = {r. \<exists>a \<in> set (app_roles_of claims). dict_get APP_ROLE_TO_ROLE a = Some r}
     \<and> pr_tenant_id p = (if str_claim claims ''tid'' = Some [] then None else str_claim claims ''tid'')"
  unfolding principal_from_claims_def roles_from_iff
  by (cases p; cases "str_claim claims ''oid''"; cases "str_claim claims ''tid''") auto

lemma check_claims_ok: "check_claims c leeway now claims = Inr p \<longleftrightarrow> claims_vouch c leeway now claims p"
  unfolding check_claims_def claims_vouch_def rbind_Inr_iff
  using check_issuer_ok check_audience_ok check_time_ok principal_ok by simp

lemma verify_signature_ok:
  assumes "CHR ''.'' \<notin> set sg"
  shows "verify_signature lib (h @ ''.'' @ pl @ ''.'' @ sg) key = Inr () \<longleftrightarrow>
    (\<exists>signature. b64url_decode sg = Some signature \<and> str_ascii (h @ pl)
       \<and> al_verify lib key signature (map of_char (h @ ''.'' @ pl)))"
  using rpartition_token [OF assms, of "h @ ''.'' @ pl"]
  by (auto simp: verify_signature_def str_ascii_def split: option.splits)

lemma require_rs256_ok: "require_rs256 header = Inr u \<longleftrightarrow> str_claim header ''alg'' = Some ''RS256''"
  by (simp add: require_rs256_def)

lemma resolve_kid_ok: "resolve_kid header = Inr kid \<longleftrightarrow> str_claim header ''kid'' = Some kid \<and> kid \<noteq> []"
  by (auto simp: resolve_kid_def split: option.splits)

text \<open>The header part of a validation: the key identifier and the payload segment.\<close>

lemma header_part_ok:
  "rbind (split_token token) (\<lambda>(header_seg, payload_seg).
     rbind (decode_json_segment lib header_seg) (\<lambda>header.
     rbind (require_rs256 header) (\<lambda>_.
     rbind (resolve_kid header) (\<lambda>kid. Inr (payload_seg, kid))))) = Inr (pl, kid) \<longleftrightarrow>
   (\<exists>h header. split_token token = Inr (h, pl) \<and> decode_json_segment lib h = Inr header
      \<and> str_claim header ''alg'' = Some ''RS256'' \<and> str_claim header ''kid'' = Some kid \<and> kid \<noteq> [])"
  by (auto simp: rbind_Inr_iff require_rs256_ok resolve_kid_ok)

lemma accepted_iff:
  "fst (validate_token lib c get_key leeway now token s) = Inr p \<longleftrightarrow>
     (\<exists>kid key. fst (get_key kid s) = Inr key \<and> token_vouches lib c leeway now token kid key p)"
  (is "?L \<longleftrightarrow> ?R")
proof
  assume ?L
  then obtain pl kid key where
    hd: "rbind (split_token token) (\<lambda>(header_seg, payload_seg).
     rbind (decode_json_segment lib header_seg) (\<lambda>header.
     rbind (require_rs256 header) (\<lambda>_.
     rbind (resolve_kid header) (\<lambda>kid. Inr (payload_seg, kid))))) = Inr (pl, kid)"
    and key: "fst (get_key kid s) = Inr key"
    and rest: "rbind (verify_signature lib token key) (\<lambda>_.
       rbind (decode_json_segment lib pl) (\<lambda>claims. check_claims c leeway now claims)) = Inr p"
    by (auto simp: validate_token_def split: sum.splits prod.splits)
  from hd obtain h header where h: "split_token token = Inr (h, pl)" "decode_json_segment lib h = Inr header"
    "str_claim header ''alg'' = Some ''RS256''" "str_claim header ''kid'' = Some kid" "kid \<noteq> []"
    unfolding header_part_ok by blast
  from h(1) obtain sg where sg: "token = h @ ''.'' @ pl @ ''.'' @ sg" "CHR ''.'' \<notin> set (h @ pl @ sg)"
    "h \<noteq> []" "pl \<noteq> []" "sg \<noteq> []" unfolding split_token_Inr by blast
  have nd: "CHR ''.'' \<notin> set sg" using sg(2) by simp
  from rest obtain claims where "verify_signature lib token key = Inr ()"
    "decode_json_segment lib pl = Inr claims" "check_claims c leeway now claims = Inr p"
    by (auto simp: rbind_Inr_iff)
  then show ?R using key h sg verify_signature_ok [OF nd, of lib h pl key]
    unfolding token_vouches_def check_claims_ok by blast
next
  assume ?R
  then obtain kid key h pl sg header claims signature where
    key: "fst (get_key kid s) = Inr key"
    and t: "token = h @ ''.'' @ pl @ ''.'' @ sg" "CHR ''.'' \<notin> set (h @ pl @ sg)" "h \<noteq> []" "pl \<noteq> []" "sg \<noteq> []"
    and hd: "decode_json_segment lib h = Inr header" "str_claim header ''alg'' = Some ''RS256''"
      "str_claim header ''kid'' = Some kid" "kid \<noteq> []"
    and sig: "b64url_decode sg = Some signature" "str_ascii (h @ pl)"
      "al_verify lib key signature (map of_char (h @ ''.'' @ pl))"
    and cl: "decode_json_segment lib pl = Inr claims" "claims_vouch c leeway now claims p"
    unfolding token_vouches_def by blast
  have sp: "split_token token = Inr (h, pl)" using t unfolding split_token_Inr by blast
  have nd: "CHR ''.'' \<notin> set sg" using t(2) by simp
  have v: "verify_signature lib token key = Inr ()"
    unfolding t(1) verify_signature_ok [OF nd] using sig by blast
  have "check_claims c leeway now claims = Inr p" using cl(2) by (simp add: check_claims_ok)
  then show ?L using header_part_ok [of token lib pl kid] sp hd key v cl(1)
    by (auto simp: validate_token_def split: prod.splits)
qed

lemma validate_state:
  "snd (validate_token lib c get_key leeway now token s) = s
   \<or> (\<exists>kid. snd (validate_token lib c get_key leeway now token s) = snd (get_key kid s))"
  by (auto simp: validate_token_def split: sum.splits prod.splits) (metis snd_conv)+

text \<open>A run of validations, each at its time, over one provider.\<close>

fun validate_all ::
  "'k auth_lib \<Rightarrow> auth_config \<Rightarrow> (string \<Rightarrow> 's \<Rightarrow> (auth_exc + 'k) \<times> 's) \<Rightarrow> rat \<Rightarrow> (rat \<times> string) list \<Rightarrow> 's \<Rightarrow> 's" where
  "validate_all lib c get_key leeway [] s = s"
| "validate_all lib c get_key leeway ((now, token) # ts) s =
     validate_all lib c get_key leeway ts (snd (validate_token lib c get_key leeway now token s))"

section \<open>Providers of public keys\<close>

text \<open>The protocol \<open>PublicKeyProvider\<close>: what every provider keeps, and what it promises of a key it returns.\<close>

locale public_key_provider =
  fixes get_key :: "string \<Rightarrow> 's \<Rightarrow> (auth_exc + 'k) \<times> 's"
    and ok :: "'s \<Rightarrow> bool"
    and published :: "'s \<Rightarrow> string \<Rightarrow> 'k \<Rightarrow> bool"
  assumes get_key_keeps: "ok s \<Longrightarrow> ok (snd (get_key kid s))"
    and get_key_published: "ok s \<Longrightarrow> fst (get_key kid s) = Inr key \<Longrightarrow> published (snd (get_key kid s)) kid key"
begin

lemma validate_keeps: "ok s \<Longrightarrow> ok (snd (validate_token lib c get_key leeway now token s))"
  using validate_state [of lib c get_key leeway now token s] get_key_keeps by metis

lemma accepted_published:
  assumes "ok s" and "fst (validate_token lib c get_key leeway now token s) = Inr p"
  shows "\<exists>kid key. published (snd (get_key kid s)) kid key \<and> token_vouches lib c leeway now token kid key p"
  using assms accepted_iff get_key_published by metis

lemma session_keeps: "ok s \<Longrightarrow> ok (validate_all lib c get_key leeway ts s)"
  by (induction ts arbitrary: s) (auto simp: validate_keeps)

end

text \<open>The cache: the keys are those of one fetched document, and the clock is monotonic or not at all.\<close>

definition cache_ok :: "'k auth_lib \<Rightarrow> jwks_world \<Rightarrow> 'k jwks_state \<Rightarrow> bool" where
  "cache_ok lib w s \<longleftrightarrow>
     0 < jw_ttl w
     \<and> (case js_fetched_at s of
          None \<Rightarrow> js_keys s = []
        | Some t \<Rightarrow> (\<exists>n < js_fetches s. \<exists>ks. jw_fetch w n = Inr ks \<and> parse_jwks lib [] ks = Inr (js_keys s)))"

text \<open>A key of a document the endpoint answered, whose age at the last reading of the clock is below the
  lifetime of the cache.\<close>

definition key_published :: "'k auth_lib \<Rightarrow> jwks_world \<Rightarrow> 'k jwks_state \<Rightarrow> string \<Rightarrow> 'k \<Rightarrow> bool" where
  "key_published lib w s kid key \<longleftrightarrow>
     (\<exists>n < js_fetches s. \<exists>ks d. jw_fetch w n = Inr ks \<and> VDict d \<in> set ks
        \<and> str_claim d ''kid'' = Some kid \<and> jwk_to_public_key lib d = Inr key)
     \<and> (\<exists>t. js_fetched_at s = Some t \<and> jw_clock w (js_ticks s - 1) - t < jw_ttl w)"

lemma parse_jwk_keys:
  assumes "parse_jwk lib parsed j = Inr p" and "dict_get p kid = Some key"
  shows "dict_get parsed kid = Some key
     \<or> (\<exists>d. j = VDict d \<and> str_claim d ''kid'' = Some kid \<and> jwk_to_public_key lib d = Inr key)"
  using assms by (auto simp: parse_jwk_def rbind_Inr_iff split: pyval.splits option.splits if_splits)

lemma parse_jwks_keys:
  assumes "parse_jwks lib parsed ks = Inr p" and "dict_get p kid = Some key"
  shows "dict_get parsed kid = Some key
     \<or> (\<exists>d. VDict d \<in> set ks \<and> str_claim d ''kid'' = Some kid \<and> jwk_to_public_key lib d = Inr key)"
  using assms
proof (induction lib parsed ks rule: parse_jwks.induct)
  case (2 lib parsed j js)
  then obtain q where q: "parse_jwk lib parsed j = Inr q" "parse_jwks lib q js = Inr p" by (auto simp: rbind_Inr_iff)
  show ?case using "2.IH" [OF q(2) "2.prems"(2)] parse_jwk_keys [OF q(1)] by (metis list.set_intros)
qed simp

lemma refresh_ok:
  assumes "cache_ok lib w s" shows "cache_ok lib w (snd (refresh lib w s))"
  using assms
  by (auto simp: cache_ok_def refresh_def Let_def rbind_Inr_iff less_Suc_eq split: sum.splits option.splits)

lemma refresh_fresh:
  assumes "0 < jw_ttl w" and "refresh lib w s = (Inr u, s')" and "dict_get (js_keys s') kid = Some key"
  shows "key_published lib w s' kid key"
proof -
  obtain ks p where ks: "jw_fetch w (js_fetches s) = Inr ks" "parse_jwks lib [] ks = Inr p"
    and s': "s' = s\<lparr>js_fetches := Suc (js_fetches s), js_keys := p,
      js_fetched_at := Some (jw_clock w (js_ticks s)), js_ticks := Suc (js_ticks s)\<rparr>"
    using assms(2) by (auto simp: refresh_def Let_def rbind_Inr_iff split: sum.splits)
  then obtain d where "VDict d \<in> set ks" "str_claim d ''kid'' = Some kid" "jwk_to_public_key lib d = Inr key"
    using parse_jwks_keys [OF ks(2)] assms(3) by auto
  then show ?thesis using ks(1) assms(1) unfolding key_published_def s' by auto
qed

lemma cached_fresh:
  assumes "cache_ok lib w s" and "is_stale w s = (False, s')" and "dict_get (js_keys s') kid = Some key"
  shows "key_published lib w s' kid key"
proof -
  obtain t where t: "js_fetched_at s = Some t" "jw_clock w (js_ticks s) - t < jw_ttl w"
    and s': "s' = s\<lparr>js_ticks := Suc (js_ticks s)\<rparr>"
    using assms(2) by (auto simp: is_stale_def split: option.splits)
  then obtain n ks where "n < js_fetches s" "jw_fetch w n = Inr ks" "parse_jwks lib [] ks = Inr (js_keys s)"
    using assms(1) by (auto simp: cache_ok_def)
  moreover from this(3) obtain d where "VDict d \<in> set ks" "str_claim d ''kid'' = Some kid" "jwk_to_public_key lib d = Inr key"
    using parse_jwks_keys assms(3) s' by fastforce
  ultimately show ?thesis using t unfolding key_published_def s' by auto
qed

lemma stale_ok: "cache_ok lib w s \<Longrightarrow> cache_ok lib w (snd (is_stale w s))"
  by (auto simp: is_stale_def cache_ok_def split: option.splits)

lemma jwks_get_key_ok:
  assumes "cache_ok lib w s" shows "cache_ok lib w (snd (jwks_get_key lib w kid s))"
proof -
  obtain b s0 where st: "is_stale w s = (b, s0)" by (cases "is_stale w s")
  define r where "r = (if b then refresh lib w s0 else (Inr (), s0))"
  have s0: "cache_ok lib w s0" using stale_ok [OF assms] st by simp
  then have s1: "cache_ok lib w (snd r)" using refresh_ok by (auto simp: r_def)
  have s2: "cache_ok lib w (snd (refresh lib w (snd r)))" by (rule refresh_ok [OF s1])
  have "jwks_get_key lib w kid s = (case r of (Inl e, s1) \<Rightarrow> (Inl e, s1)
      | (Inr _, s1) \<Rightarrow> (case dict_get (js_keys s1) kid of Some k \<Rightarrow> (Inr k, s1)
         | None \<Rightarrow> (case refresh lib w s1 of (Inl e, s2) \<Rightarrow> (Inl e, s2)
             | (Inr _, s2) \<Rightarrow> (case dict_get (js_keys s2) kid of Some k \<Rightarrow> (Inr k, s2)
                | None \<Rightarrow> (Inl (AuthenticationError ''unknown_kid''), s2)))))"
    by (simp add: jwks_get_key_def st r_def)
  then show ?thesis using s1 s2 by (simp split: prod.splits sum.splits option.splits)
qed

lemma jwks_get_key_published:
  assumes ok: "cache_ok lib w s" and got: "jwks_get_key lib w kid s = (Inr key, s')"
  shows "key_published lib w s' kid key"
proof -
  have ttl: "0 < jw_ttl w" using ok by (simp add: cache_ok_def)
  show ?thesis using got cached_fresh [OF ok] refresh_fresh [OF ttl]
    by (auto simp: jwks_get_key_def split: prod.splits sum.splits option.splits if_splits)
qed

interpretation jwks: public_key_provider "jwks_get_key lib w" "cache_ok lib w" "key_published lib w" for lib w
  by unfold_locales (auto intro: jwks_get_key_ok jwks_get_key_published simp: prod_eq_iff)

section \<open>Properties\<close>

definition demo_lib :: "nat auth_lib" where
  "demo_lib = \<lparr>al_json = (\<lambda>bs. if bs = [0, 0, 0] then Some (VDict [(VStr ''alg'', VStr ''RS256''), (VStr ''kid'', VStr ''a'')])
       else if bs = [1, 1, 1] then Some (VDict [(VStr ''iss'', VStr ''i''), (VStr ''aud'', VList [VStr ''api'']),
              (VStr ''exp'', VFloat (PFin 100)), (VStr ''oid'', VStr ''o1''), (VStr ''roles'', VList [VStr ''Workloads.Operator'', VStr ''x''])])
       else None),
     al_verify = (\<lambda>k sg m. sg = [k]), al_rsa = (\<lambda>e n. if e = 1 then Some n else None)\<rparr>"

definition demo_auth :: auth_config where
  "demo_auth = \<lparr>ac_tenant_id = ''t'', ac_audience = ''api'', ac_allowed_issuers = [''i''], ac_jwks_uri = ''u''\<rparr>"

definition demo_jwks :: jwks_world where
  "demo_jwks = \<lparr>jw_fetch = (\<lambda>n. Inr [VDict [(VStr ''kid'', VStr ''a''), (VStr ''kty'', VStr ''RSA''), (VStr ''n'', VStr ''Bw''), (VStr ''e'', VStr ''AQ'')]]),
     jw_clock = (\<lambda>n. of_nat n), jw_ttl = 3600\<rparr>"

text \<open>C9: A bearer token is accepted, over the cache of keys in any state a run of validations leads to,
  exactly if the cache yields a key for the identifier in the header and that key vouches for the
  principal: three segments, RS256, a signature over header and payload, an allowed issuer, the audience,
  not expired, not too early, an object identifier. Every key the cache yields was published by the
  endpoint in a document younger than the lifetime of the cache.\<close>

theorem accepted_token_signed:
  assumes "0 < jw_ttl w"
    and "s = validate_all lib c (jwks_get_key lib w) leeway earlier_calls jwks_empty"
  shows "(fst (validate_token lib c (jwks_get_key lib w) leeway now token s) = Inr p \<longleftrightarrow>
      (\<exists>kid key. fst (jwks_get_key lib w kid s) = Inr key \<and> token_vouches lib c leeway now token kid key p))
    \<and> (\<forall>kid key. fst (jwks_get_key lib w kid s) = Inr key
         \<longrightarrow> key_published lib w (snd (jwks_get_key lib w kid s)) kid key)"
proof -
  have "cache_ok lib w jwks_empty" using assms(1) by (simp add: cache_ok_def jwks_empty_def)
  then have "cache_ok lib w s" unfolding assms(2) by (rule jwks.session_keeps)
  with accepted_iff [of lib c "jwks_get_key lib w" leeway now token s p] show ?thesis
    by (auto dest: jwks.get_key_published)
qed

lemma accepted_token_signed_witness:
  "key_published demo_lib demo_jwks
     (snd (jwks_get_key demo_lib demo_jwks ''a'' (validate_all demo_lib demo_auth (jwks_get_key demo_lib demo_jwks) 60
        [(0, ''AAAA.AQEB.Bw'')] jwks_empty))) ''a'' 7"
proof -
  have ttl: "0 < jw_ttl demo_jwks" by (simp add: demo_jwks_def)
  have "fst (jwks_get_key demo_lib demo_jwks ''a'' (validate_all demo_lib demo_auth (jwks_get_key demo_lib demo_jwks) 60
        [(0, ''AAAA.AQEB.Bw'')] jwks_empty)) = Inr 7" by code_simp
  then show ?thesis
    using accepted_token_signed [OF ttl refl, where lib = demo_lib and c = demo_auth and leeway = 60
        and earlier_calls = "[(0, ''AAAA.AQEB.Bw'')]"] by (auto simp del: validate_all.simps)
qed

lemma demo_token_accepted:
  "map_sum id pr_oid (fst (validate_token demo_lib demo_auth (jwks_get_key demo_lib demo_jwks) 60 160 ''AAAA.AQEB.Bw'' jwks_empty))
     = Inr ''o1''
   \<and> fst (validate_token demo_lib demo_auth (jwks_get_key demo_lib demo_jwks) 60 161 ''AAAA.AQEB.Bw'' jwks_empty)
     = Inl (AuthenticationError ''expired'')
   \<and> fst (validate_token demo_lib demo_auth (jwks_get_key demo_lib demo_jwks) 60 0 ''AAAA.AQEB.AQ'' jwks_empty)
     = Inl (AuthenticationError ''bad_signature'')"
  by code_simp

text \<open>A payload with a character beyond ASCII makes the validator raise \<open>UnicodeEncodeError\<close>, which is no
  \<open>AuthenticationError\<close>.\<close>

lemma non_ascii_payload_raises:
  "fst (validate_token demo_lib demo_auth (jwks_get_key demo_lib demo_jwks) 60 0
     (''AAAA.'' @ [CHR 0xE9] @ ''.Bw'') jwks_empty) = Inl (AuthRaised ValueError)"
  by code_simp

lemma nan_exp_never_expires: "check_time leeway now [(VStr ''exp'', VFloat PNaN)] = Inr ()"
  by (simp add: check_time_def numeric_claim_def later_def)

lemma stale_unknown_kid_fetches_twice:
  "js_fetches (snd (jwks_get_key demo_lib demo_jwks ''b'' jwks_empty)) = 2"
  by code_simp

text \<open>Authentication is off, for the server and for a first-party caller, exactly if the mode says
  \<open>disabled\<close> (in any case, with any blanks around it) and the configuration is not half there; anything
  else is a validator for the configured tenant or a refusal to serve.\<close>

theorem auth_off_only_explicit:
  "(build_token_validator env = Inr None \<longleftrightarrow>
      py_lower (env_value env ''WP_AUTH_MODE'') = ''disabled''
      \<and> (env_value env ''WP_AUTH_TENANT_ID'' = [] \<longleftrightarrow> env_value env ''WP_AUTH_AUDIENCE'' = []))
   \<and> (build_api_token_provider env acquire = Inr None \<longleftrightarrow> build_token_validator env = Inr None)
   \<and> (\<forall>c. build_token_validator env = Inr (Some c) \<longleftrightarrow>
        py_lower (env_value env ''WP_AUTH_MODE'') \<in> {[], ''required''}
        \<and> build_auth_config env = Inr (Some c) \<and> ac_tenant_id c \<noteq> [] \<and> ac_audience c \<noteq> [])"
  by (auto simp: build_token_validator_def build_api_token_provider_def resolve_auth_mode_def
      build_auth_config_def Let_def split: if_splits)

end
