(* ===== verification/Api_Boundary.thy ===== *)
theory Api_Boundary
  imports Auth Tenant_State Audit_Trail
begin

text \<open>
  The request boundary of the control plane, \<open>api/app/main.py\<close>: authentication, roles and the tenant
  of a request, the actor and the audit preconditions, and the subjects of the audit events. A handler
  is a function of the state of the process that answers or raises.
\<close>

section \<open>Handlers\<close>

text \<open>\<open>HTTPException\<close> is answered with its status; any other exception is answered with status 500.\<close>

datatype api_error = HTTPException nat string | Unhandled

text \<open>The state of the API process: the writable store, the counter of failed audits, the content store
  of packs, the cache of signing keys, and how many events have been constructed.\<close>

record ('s, 'p) api_state =
  ap_store :: 's
  ap_metrics :: "emit_metrics option"
  ap_content :: "(string, nat list) dict"
  ap_keys :: 'p
  ap_ticks :: nat

type_synonym ('a, 's, 'p) handler = "('s, 'p) api_state \<Rightarrow> (api_error + 'a) \<times> ('s, 'p) api_state"

definition hreturn :: "'a \<Rightarrow> ('a, 's, 'p) handler" where
  "hreturn x s = (Inr x, s)"

definition hraise :: "api_error \<Rightarrow> ('a, 's, 'p) handler" where
  "hraise e s = (Inl e, s)"

definition hbind :: "('a, 's, 'p) handler \<Rightarrow> ('a \<Rightarrow> ('b, 's, 'p) handler) \<Rightarrow> ('b, 's, 'p) handler" where
  "hbind m k s = (case m s of (Inl e, s') \<Rightarrow> (Inl e, s') | (Inr x, s') \<Rightarrow> k x s')"

definition hguard :: "bool \<Rightarrow> api_error \<Rightarrow> (unit, 's, 'p) handler" where
  "hguard b e = (if b then hreturn () else hraise e)"

definition hlift :: "api_error + 'a \<Rightarrow> ('a, 's, 'p) handler" where
  "hlift r s = (r, s)"

text \<open>What the process is composed of: the store and its reads, the Unicode tables, the hash, and where the
  identifier and the time of an event come from.\<close>

record 's api_env =
  ax_unicode :: unicode_db
  ax_sha256 :: "nat list \<Rightarrow> string"
  ax_perform :: "write_op \<Rightarrow> 's \<Rightarrow> write_outcome \<times> 's"
  ax_view :: "'s \<Rightarrow> string \<Rightarrow> store_view"
  ax_findings :: "'s \<Rightarrow> string \<Rightarrow> string option \<Rightarrow> finding_error + finding list"
  ax_workloads :: "'s \<Rightarrow> string list"
  ax_assignments :: "'s \<Rightarrow> pack_assignment list"
  ax_fresh_id :: "nat \<Rightarrow> string"
  ax_now :: "nat \<Rightarrow> int"

section \<open>Authentication, roles and tenants\<close>

text \<open>The headers of a request, by lower-case name.\<close>

type_synonym headers = "string \<Rightarrow> string option"

text \<open>\<open>_extract_bearer_token\<close>: what follows the first space, under the scheme \<open>bearer\<close>.\<close>

definition extract_bearer_token :: "headers \<Rightarrow> api_error + string" where
  "extract_bearer_token headers =
     (let header = (case headers ''authorization'' of None \<Rightarrow> [] | Some v \<Rightarrow> v);
          scheme = takeWhile (\<lambda>c. c \<noteq> CHR '' '') header;
          token = py_strip (drop (Suc (length scheme)) header)
      in if py_lower scheme \<noteq> ''bearer'' \<or> token = [] then Inl (HTTPException 401 ''authentication required'')
         else Inr token)"

text \<open>\<open>get_request_principal\<close>: without a validator nobody is authenticated. Only an \<open>AuthError\<close> is answered
  with 401; an \<open>AuthConfigError\<close> and any other exception leave the handler.\<close>

type_synonym 'p validator = "string \<Rightarrow> 'p \<Rightarrow> (auth_exc + principal) \<times> 'p"

definition get_request_principal ::
  "'p validator option \<Rightarrow> headers \<Rightarrow> (principal option, 's, 'p) handler" where
  "get_request_principal validator headers st =
     (case validator of
        None \<Rightarrow> (Inr None, st)
      | Some validate \<Rightarrow>
          (case extract_bearer_token headers of
             Inl e \<Rightarrow> (Inl e, st)
           | Inr token \<Rightarrow>
               (case validate token (ap_keys st) of
                  (r, keys) \<Rightarrow>
                    (case r of
                       Inr p \<Rightarrow> Inr (Some p)
                     | Inl (AuthenticationError _) \<Rightarrow> Inl (HTTPException 401 ''authentication failed'')
                     | Inl _ \<Rightarrow> Inl Unhandled,
                     st\<lparr>ap_keys := keys\<rparr>))))"

definition require_role :: "role \<Rightarrow> principal option \<Rightarrow> api_error + principal option" where
  "require_role required p =
     (case p of
        None \<Rightarrow> Inr None
      | Some q \<Rightarrow> if principal_grants q required then Inr p else Inl (HTTPException 403 ''insufficient role''))"

definition get_tenant_context :: "tenancy_config \<Rightarrow> principal option \<Rightarrow> api_error + tenant_context" where
  "get_tenant_context tenancy p =
     (case resolve_tenant (case p of None \<Rightarrow> None | Some q \<Rightarrow> pr_tenant_id q) tenancy of
        Inl _ \<Rightarrow> Inl (HTTPException 403 ''tenant resolution failed (fail closed)'')
      | Inr t \<Rightarrow> Inr t)"

definition request_actor :: "unicode_db \<Rightarrow> headers \<Rightarrow> principal option \<Rightarrow> string" where
  "request_actor U headers p = resolve_actor U (Some headers) (map_option pr_oid p)"

text \<open>The dependencies of an endpoint in the order in which they are solved: the scoped store needs the
  tenant, the tenant the principal, and the role comes last.\<close>

definition request_context ::
  "'p validator option \<Rightarrow> tenancy_config \<Rightarrow> role \<Rightarrow> headers \<Rightarrow> (principal option \<times> tenant_context, 's, 'p) handler" where
  "request_context validator tenancy required headers =
     hbind (get_request_principal validator headers) (\<lambda>p.
     hbind (hlift (get_tenant_context tenancy p)) (\<lambda>t.
     hbind (hlift (require_role required p)) (\<lambda>_. hreturn (p, t))))"

section \<open>Audit preconditions\<close>

text \<open>The emitter of the API writes through the store; a failed append is a raised exception.\<close>

definition store_sink :: "'s api_env \<Rightarrow> 's audit_sink" where
  "store_sink env e s =
     (case ax_perform env (AppendAudit e) s of
        (Failed _, s') \<Rightarrow> (False, s')
      | (_, s') \<Rightarrow> (True, s'))"

definition audit_emit :: "'s api_env \<Rightarrow> audit_fields \<Rightarrow> ('s, 'p) api_state \<Rightarrow> emit_outcome \<times> ('s, 'p) api_state" where
  "audit_emit env f st =
     (case emit (ax_unicode env) (Some (store_sink env)) (ax_fresh_id env (ap_ticks st)) (ax_now env (ap_ticks st)) f
             (ap_store st, ap_metrics st) of
        (out, s', m') \<Rightarrow> (out, st\<lparr>ap_store := s', ap_metrics := m', ap_ticks := Suc (ap_ticks st)\<rparr>))"

text \<open>\<open>_emit_or_fail_closed\<close> and \<open>_emit_pack_audit_or_fail_closed\<close>: \<open>AuditPersistenceError\<close> propagates, an
  event that cannot be constructed is answered with 500.\<close>

definition emit_or_fail_closed :: "'s api_env \<Rightarrow> audit_fields \<Rightarrow> (unit, 's, 'p) handler" where
  "emit_or_fail_closed env f st =
     (case audit_emit env f st of
        (Emitted _, st') \<Rightarrow> (Inr (), st')
      | (Rejected, st') \<Rightarrow> (Inl (HTTPException 500 ''audit precondition failed (fail closed)''), st')
      | (PersistenceError, st') \<Rightarrow> (Inl Unhandled, st'))"

definition state_fields :: "string \<Rightarrow> audit_action \<Rightarrow> string \<Rightarrow> audit_result \<Rightarrow> audit_fields" where
  "state_fields actor action subject result =
     \<lparr>af_actor = actor, af_action = action, af_subject = subject, af_result = result,
      af_packId = None, af_packVersion = None\<rparr>"

definition pack_fields :: "string \<Rightarrow> audit_action \<Rightarrow> string \<Rightarrow> audit_result \<Rightarrow> string \<Rightarrow> string \<Rightarrow> audit_fields" where
  "pack_fields actor action subject result pack_id pack_version =
     \<lparr>af_actor = actor, af_action = action, af_subject = subject, af_result = result,
      af_packId = Some pack_id, af_packVersion = Some pack_version\<rparr>"

section \<open>Subjects\<close>

definition workload_token :: "(nat list \<Rightarrow> string) \<Rightarrow> string \<Rightarrow> string" where
  "workload_token sha256 workload = ''wl:'' @ sha256 (utf8_encode workload)"

definition finding_emitted_subject :: "string \<Rightarrow> nat \<Rightarrow> string" where
  "finding_emitted_subject workload n = workload @ ''#count='' @ show_nat n"

definition run_executed_subject :: "string \<Rightarrow> string" where
  "run_executed_subject md = md"

definition estate_replaced_subject :: "(nat list \<Rightarrow> string) \<Rightarrow> string \<Rightarrow> nat \<Rightarrow> string" where
  "estate_replaced_subject sha256 workload n = workload_token sha256 workload @ ''#estate='' @ show_nat n"

definition graph_replaced_subject :: "(nat list \<Rightarrow> string) \<Rightarrow> string \<Rightarrow> nat \<Rightarrow> nat \<Rightarrow> string" where
  "graph_replaced_subject sha256 workload nodes edges =
     workload_token sha256 workload @ ''#graph=nodes='' @ show_nat nodes @ '',edges='' @ show_nat edges"

definition snapshot_created_subject :: "(nat list \<Rightarrow> string) \<Rightarrow> string \<Rightarrow> string" where
  "snapshot_created_subject sha256 workload = workload_token sha256 workload @ ''#snapshot''"

definition require_auditable_run_subject :: "unicode_db \<Rightarrow> string \<Rightarrow> (unit, 's, 'p) handler" where
  "require_auditable_run_subject U md =
     hguard (is_audit_safe U (run_executed_subject md))
       (HTTPException 422 ''module id is not a bounded, PII-free identifier (fail closed)'')"

definition require_auditable_findings_subject :: "unicode_db \<Rightarrow> string \<Rightarrow> nat \<Rightarrow> (unit, 's, 'p) handler" where
  "require_auditable_findings_subject U workload n =
     hguard (is_audit_safe U (finding_emitted_subject workload n))
       (HTTPException 422 ''workload id is not a bounded, PII-free identifier (fail closed)'')"

definition emit_findings_persisted :: "'s api_env \<Rightarrow> string \<Rightarrow> string \<Rightarrow> nat \<Rightarrow> (unit, 's, 'p) handler" where
  "emit_findings_persisted env actor workload n =
     emit_or_fail_closed env (state_fields actor AA_finding_emitted (finding_emitted_subject workload n) AR_success)"

definition audit_run_executed :: "'s api_env \<Rightarrow> string \<Rightarrow> string \<Rightarrow> bool \<Rightarrow> (unit, 's, 'p) handler" where
  "audit_run_executed env actor md ok =
     emit_or_fail_closed env (state_fields actor AA_run_executed (run_executed_subject md)
       (if ok then AR_success else AR_failure))"

section \<open>The scoped store\<close>

text \<open>A write through \<open>TenantScopedState\<close>: the outcome, an exception of the store included.\<close>

definition scoped_write :: "'s api_env \<Rightarrow> tenant_context \<Rightarrow> write_op \<Rightarrow> (write_outcome, 's, 'p) handler" where
  "scoped_write env t op st =
     (case tenant_write (ax_perform env) t op (ap_store st) of (out, s') \<Rightarrow> (Inr out, st\<lparr>ap_store := s'\<rparr>))"

definition tenant_view :: "'s api_env \<Rightarrow> tenant_context \<Rightarrow> 's \<Rightarrow> string \<Rightarrow> store_view" where
  "tenant_view env t s workload = ax_view env s (scoped_key t workload)"

definition tenant_get_import :: "'s api_env \<Rightarrow> tenant_context \<Rightarrow> 's \<Rightarrow> string \<Rightarrow> string \<Rightarrow> imported_pack option" where
  "tenant_get_import env t s pack_id version =
     find (\<lambda>p. ip_packId p = pack_id \<and> ip_version p = version) (sv_imports (tenant_view env t s IMPORTS_SCOPE))"

definition hget :: "(('s, 'p) api_state \<Rightarrow> 'a) \<Rightarrow> ('a, 's, 'p) handler" where
  "hget f st = (Inr (f st), st)"

text \<open>A write whose exceptions are not handled, and one that maps \<open>ProvenanceError\<close> to 422.\<close>

definition write_or_raise :: "'s api_env \<Rightarrow> tenant_context \<Rightarrow> write_op \<Rightarrow> (write_outcome, 's, 'p) handler" where
  "write_or_raise env t op =
     hbind (scoped_write env t op) (\<lambda>out. case out of Failed _ \<Rightarrow> hraise Unhandled | _ \<Rightarrow> hreturn out)"

definition provenance_rejected :: api_error where
  "provenance_rejected = HTTPException 422 ''finding provenance validation failed (fail closed)''"

definition write_findings_or_raise :: "'s api_env \<Rightarrow> tenant_context \<Rightarrow> write_op \<Rightarrow> (write_outcome, 's, 'p) handler" where
  "write_findings_or_raise env t op =
     hbind (scoped_write env t op) (\<lambda>out. case out of
        Failed (Unprovenanced _) \<Rightarrow> hraise provenance_rejected | Failed _ \<Rightarrow> hraise Unhandled | _ \<Rightarrow> hreturn out)"

definition require_provenance :: "finding list \<Rightarrow> (unit, 's, 'p) handler" where
  "require_provenance fs =
     (case enforce_finding_provenance fs of Inl _ \<Rightarrow> hraise provenance_rejected | Inr _ \<Rightarrow> hreturn ())"

end
