(* ===== verification/Pack_Pinning.thy ===== *)
theory Pack_Pinning
  imports Packs_Engine Module_Base
begin

text \<open>
  Which version of a pack a run sees, \<open>cli/wiring.py\<close>: \<open>WorkloadPinnedPacks\<close> narrows what the engine
  loads for a workload to one pack of every id, the assigned version with the verified content or, where
  nothing is assigned, the highest version.
\<close>

section \<open>The pinned view\<close>

text \<open>\<open>_latest\<close>: the first pack of the highest version among those whose version parses.\<close>

fun latest_pack :: "(semver \<times> pack) option \<Rightarrow> pack list \<Rightarrow> pack option" where
  "latest_pack best [] = map_option snd best"
| "latest_pack best (p # ps) =
     (case semver_parse (pm_version (pk_manifest p)) of
        Inl _ \<Rightarrow> latest_pack best ps
      | Inr key \<Rightarrow>
          latest_pack (case best of
             None \<Rightarrow> Some (key, p)
           | Some (best_key, _) \<Rightarrow> if semver_lt best_key key then Some (key, p) else best) ps)"

text \<open>\<open>_pin_assigned\<close>: the first pack of the assigned version whose digest is the one of the registry. An
  unreadable registry raises.\<close>

fun pin_content :: "engine_lib \<Rightarrow> string \<Rightarrow> string \<Rightarrow> pack list \<Rightarrow> load_error + pack option" where
  "pin_content lib assigned digest [] = Inr None"
| "pin_content lib assigned digest (p # ps) =
     (if pm_version (pk_manifest p) \<noteq> assigned then pin_content lib assigned digest ps
      else (case canonical_digest (el_sha256 lib) (el_float_repr lib) (pk_source p) of
              Inr d \<Rightarrow> if d = digest then Inr (Some p) else pin_content lib assigned digest ps
            | Inl e \<Rightarrow> if e \<in> {TypeError, ValueError} then pin_content lib assigned digest ps else Inl (ParseFailed e)))"

type_synonym registry_lookup = "pack_ref \<Rightarrow> registry_error + registry_entry option"

definition pin_assigned ::
  "engine_lib \<Rightarrow> registry_lookup \<Rightarrow> string \<Rightarrow> string \<Rightarrow> pack list \<Rightarrow> load_error + pack option" where
  "pin_assigned lib reg pack_id assigned grp =
     (case reg \<lparr>pr_id = pack_id, pr_version = assigned\<rparr> of
        Inl x \<Rightarrow> Inl (RegistryFailed x)
      | Inr None \<Rightarrow> Inr None
      | Inr (Some entry) \<Rightarrow> pin_content lib assigned (re_digest entry) grp)"

definition packs_by_id :: "pack list \<Rightarrow> (string, pack list) dict" where
  "packs_by_id packs =
     foldl (\<lambda>d p. dict_set (pm_id (pk_manifest p))
              ((case dict_get d (pm_id (pk_manifest p)) of None \<Rightarrow> [] | Some g \<Rightarrow> g) @ [p]) d) [] packs"

definition pin_group ::
  "engine_lib \<Rightarrow> registry_lookup \<Rightarrow> (string, string) dict \<Rightarrow> string \<times> pack list \<Rightarrow> load_error + pack option" where
  "pin_group lib reg assigned_versions g =
     (case g of (pack_id, grp) \<Rightarrow>
        (case dict_get assigned_versions pack_id of
           Some assigned \<Rightarrow> pin_assigned lib reg pack_id assigned grp
         | None \<Rightarrow> Inr (latest_pack None grp)))"

definition pin_packs ::
  "engine_lib \<Rightarrow> registry_lookup \<Rightarrow> (string, string) dict \<Rightarrow> pack list \<Rightarrow> load_error + pack list" where
  "pin_packs lib reg assigned_versions packs =
     rbind (rseq (map (pin_group lib reg assigned_versions) (packs_by_id packs)))
       (\<lambda>out. Inr (List.map_filter id out))"

definition pinned_service ::
  "engine_lib \<Rightarrow> registry_lookup \<Rightarrow> (string, string) dict \<Rightarrow> packs_service \<Rightarrow> packs_service" where
  "pinned_service lib reg assigned_versions engine workload pack_type =
     rbind (engine workload pack_type) (pin_packs lib reg assigned_versions)"

definition pinned_load_all ::
  "engine_lib \<Rightarrow> registry_lookup \<Rightarrow> (string, string) dict \<Rightarrow> packs_engine \<Rightarrow> pack_type option \<Rightarrow> bool \<Rightarrow> load_error + pack list" where
  "pinned_load_all lib reg assigned_versions eng pack_type verify_sig =
     rbind (snd (load_all lib eng pack_type verify_sig)) (pin_packs lib reg assigned_versions)"

definition resolve_packs_for_workload ::
  "engine_lib \<Rightarrow> packs_service option \<Rightarrow> (string, string) dict \<Rightarrow> registry_lookup \<Rightarrow> packs_service option" where
  "resolve_packs_for_workload lib packs assigned_versions reg =
     map_option (pinned_service lib reg assigned_versions) packs"

section \<open>Lemmas\<close>

abbreviation pkid :: "pack \<Rightarrow> string" where
  "pkid p \<equiv> pm_id (pk_manifest p)"

abbreviation pkver :: "pack \<Rightarrow> string" where
  "pkver p \<equiv> pm_version (pk_manifest p)"

lemma packs_by_id_snoc:
  "packs_by_id (ps @ [p]) =
     dict_set (pkid p) ((case dict_get (packs_by_id ps) (pkid p) of None \<Rightarrow> [] | Some g \<Rightarrow> g) @ [p]) (packs_by_id ps)"
  by (simp add: packs_by_id_def)

lemma packs_by_id_wf: "dict_wf (packs_by_id ps)"
  by (induction ps rule: rev_induct) (simp_all add: packs_by_id_snoc, simp add: packs_by_id_def)

lemma packs_by_id_get:
  "dict_get (packs_by_id ps) i =
     (if filter (\<lambda>p. pkid p = i) ps = [] then None else Some (filter (\<lambda>p. pkid p = i) ps))"
  by (induction ps rule: rev_induct)
     (auto simp: packs_by_id_snoc split: option.splits if_splits, simp add: packs_by_id_def)

lemma packs_by_id_mem:
  "(i, g) \<in> set (packs_by_id ps) \<longleftrightarrow> g = filter (\<lambda>p. pkid p = i) ps \<and> g \<noteq> []"
  unfolding dict_get_mem [OF packs_by_id_wf] packs_by_id_get by auto

lemma semver_lt_trans: "semver_lt a b \<Longrightarrow> semver_lt b c \<Longrightarrow> semver_lt a c"
  by (simp add: semver_lt_def)

text \<open>The highest of a group: no pack whose version parses is above it.\<close>

definition highest :: "pack list \<Rightarrow> pack \<Rightarrow> bool" where
  "highest ps p \<longleftrightarrow> p \<in> set ps \<and>
     (\<exists>k. semver_parse (pkver p) = Inr k
        \<and> (\<forall>q \<in> set ps. \<forall>l. semver_parse (pkver q) = Inr l \<longrightarrow> \<not> semver_lt k l))"

lemma latest_pack_highest:
  assumes "latest_pack best ps = r"
    and "\<And>k q. best = Some (k, q) \<Longrightarrow> q \<in> set qs \<and> semver_parse (pkver q) = Inr k
          \<and> (\<forall>x \<in> set qs. \<forall>l. semver_parse (pkver x) = Inr l \<longrightarrow> \<not> semver_lt k l)"
    and "best = None \<Longrightarrow> \<forall>x \<in> set qs. \<forall>l. semver_parse (pkver x) \<noteq> Inr l"
  shows "case r of Some p \<Rightarrow> highest (qs @ ps) p
     | None \<Rightarrow> \<forall>x \<in> set (qs @ ps). \<forall>l. semver_parse (pkver x) \<noteq> Inr l"
  using assms
proof (induction ps arbitrary: best qs)
  case Nil
  then show ?case by (auto simp: highest_def split: option.splits)
next
  case (Cons p ps)
  have app: "qs @ p # ps = (qs @ [p]) @ ps" by simp
  show ?case
  proof (cases "semver_parse (pkver p)")
    case (Inl e)
    then have "latest_pack best ps = r" using Cons.prems(1) by simp
    then show ?thesis unfolding app
      by (rule Cons.IH) (use Inl Cons.prems(2,3) in \<open>auto\<close>)
  next
    case (Inr key)
    then have "latest_pack (case best of None \<Rightarrow> Some (key, p)
        | Some (b, _) \<Rightarrow> if semver_lt b key then Some (key, p) else best) ps = r" using Cons.prems(1) by simp
    then show ?thesis unfolding app
    proof (rule Cons.IH)
      fix k q assume q: "(case best of None \<Rightarrow> Some (key, p)
        | Some (b, _) \<Rightarrow> if semver_lt b key then Some (key, p) else best) = Some (k, q)"
      show "q \<in> set (qs @ [p]) \<and> semver_parse (pkver q) = Inr k
          \<and> (\<forall>x \<in> set (qs @ [p]). \<forall>l. semver_parse (pkver x) = Inr l \<longrightarrow> \<not> semver_lt k l)"
        using q Inr Cons.prems(2,3)
        by (auto split: option.splits if_splits simp: semver_lt_def dest: semver_lt_trans)
           (meson less_trans)+
    qed (auto split: option.splits if_splits)
  qed
qed

lemma latest_pack_iff:
  "latest_pack None ps = Some p \<Longrightarrow> highest ps p"
  "latest_pack None ps = None \<longleftrightarrow> (\<forall>x \<in> set ps. \<forall>l. semver_parse (pkver x) \<noteq> Inr l)"
proof -
  show "latest_pack None ps = Some p \<Longrightarrow> highest ps p"
    using latest_pack_highest [of None ps "Some p" "[]"] by simp
  show "latest_pack None ps = None \<longleftrightarrow> (\<forall>x \<in> set ps. \<forall>l. semver_parse (pkver x) \<noteq> Inr l)"
  proof (cases "latest_pack None ps")
    case None
    then show ?thesis using latest_pack_highest [of None ps None "[]"] by simp
  next
    case (Some p)
    then show ?thesis using latest_pack_highest [of None ps "Some p" "[]"] by (auto simp: highest_def)
  qed
qed

lemma find_SomeD: "find P xs = Some x \<Longrightarrow> x \<in> set xs \<and> P x"
  by (induction xs) (auto split: if_splits)

lemma kept_distinct:
  assumes "list_all2 (\<lambda>r g. \<forall>p. r = Some p \<longrightarrow> f p = fst g) rs gs" and "distinct (map fst gs)"
  shows "distinct (map f (List.map_filter id rs)) \<and> f ` set (List.map_filter id rs) \<subseteq> fst ` set gs"
  using assms
proof (induction rule: list_all2_induct)
  case (Cons r rs g gs)
  then show ?case by (cases r) auto
qed simp

lemma pin_content_find:
  assumes "pin_content lib assigned digest ps = Inr r"
  shows "r = find (\<lambda>p. pkver p = assigned
     \<and> canonical_digest (el_sha256 lib) (el_float_repr lib) (pk_source p) = Inr digest) ps"
  using assms by (induction ps) (auto split: sum.splits if_splits)

text \<open>What is pinned of one id, given the loaded packs.\<close>

definition pinned_of ::
  "engine_lib \<Rightarrow> registry_lookup \<Rightarrow> (string, string) dict \<Rightarrow> pack list \<Rightarrow> pack \<Rightarrow> bool" where
  "pinned_of lib reg assigned_versions ps p \<longleftrightarrow>
     (case dict_get assigned_versions (pkid p) of
        Some v \<Rightarrow>
          pkver p = v \<and> (\<exists>e. reg \<lparr>pr_id = pkid p, pr_version = v\<rparr> = Inr (Some e)
             \<and> canonical_digest (el_sha256 lib) (el_float_repr lib) (pk_source p) = Inr (re_digest e))
      | None \<Rightarrow> highest (filter (\<lambda>q. pkid q = pkid p) ps) p)"

lemma pin_group_Some:
  assumes "pin_group lib reg av (i, filter (\<lambda>p. pkid p = i) ps) = Inr (Some p)"
  shows "p \<in> set ps \<and> pkid p = i \<and> pinned_of lib reg av ps p"
proof (cases "dict_get av i")
  case None
  then have "highest (filter (\<lambda>p. pkid p = i) ps) p"
    using assms latest_pack_iff(1) by (simp add: pin_group_def)
  then show ?thesis using None by (auto simp: pinned_of_def highest_def)
next
  case (Some v)
  then obtain e where e: "reg \<lparr>pr_id = i, pr_version = v\<rparr> = Inr (Some e)"
    and pc: "pin_content lib v (re_digest e) (filter (\<lambda>p. pkid p = i) ps) = Inr (Some p)"
    using assms by (auto simp: pin_group_def pin_assigned_def split: sum.splits option.splits)
  from pin_content_find [OF pc] have "p \<in> set (filter (\<lambda>p. pkid p = i) ps) \<and> pkver p = v
     \<and> canonical_digest (el_sha256 lib) (el_float_repr lib) (pk_source p) = Inr (re_digest e)"
    by (auto dest!: sym [THEN find_SomeD])
  then show ?thesis using Some e by (auto simp: pinned_of_def)
qed

lemma pin_group_None:
  assumes "pin_group lib reg av (i, filter (\<lambda>p. pkid p = i) ps) = Inr None" and "q \<in> set ps" "pkid q = i"
  shows "\<not> pinned_of lib reg av ps q"
proof (cases "dict_get av i")
  case None
  then have "latest_pack None (filter (\<lambda>p. pkid p = i) ps) = None" using assms(1) by (simp add: pin_group_def)
  then have "\<forall>x \<in> set (filter (\<lambda>p. pkid p = i) ps). \<forall>l. semver_parse (pkver x) \<noteq> Inr l"
    unfolding latest_pack_iff(2) .
  then show ?thesis using None assms(2,3) by (auto simp: pinned_of_def highest_def)
next
  case (Some v)
  show ?thesis
  proof
    assume "pinned_of lib reg av ps q"
    then obtain e where e: "reg \<lparr>pr_id = i, pr_version = v\<rparr> = Inr (Some e)" "pkver q = v"
      "canonical_digest (el_sha256 lib) (el_float_repr lib) (pk_source q) = Inr (re_digest e)"
      using Some assms(3) by (auto simp: pinned_of_def)
    then have "pin_content lib v (re_digest e) (filter (\<lambda>p. pkid p = i) ps) = Inr None"
      using assms(1) Some by (simp add: pin_group_def pin_assigned_def)
    from pin_content_find [OF this, THEN sym] show False using e(2,3) assms(2,3) unfolding find_None_iff by auto
  qed
qed

lemma pin_packs_exact:
  assumes "pin_packs lib reg av ps = Inr out"
  shows "distinct (map pkid out)
    \<and> (\<forall>p \<in> set out. p \<in> set ps \<and> pinned_of lib reg av ps p)
    \<and> (\<forall>p \<in> set ps. pinned_of lib reg av ps p \<longrightarrow> pkid p \<in> pkid ` set out)"
proof -
  obtain rs where rs: "map (pin_group lib reg av) (packs_by_id ps) = map Inr rs" and out: "out = List.map_filter id rs"
    using assms by (auto simp: pin_packs_def rbind_Inr_iff rseq_Inr_iff)
  have len: "length rs = length (packs_by_id ps)" using arg_cong [OF rs, of length] by simp
  have at: "pin_group lib reg av (packs_by_id ps ! k) = Inr (rs ! k)" if "k < length rs" for k
    using arg_cong [OF rs, of "\<lambda>l. l ! k"] that len by simp
  have grp: "packs_by_id ps ! k = (fst (packs_by_id ps ! k), filter (\<lambda>p. pkid p = fst (packs_by_id ps ! k)) ps)"
    if "k < length rs" for k
    using that len packs_by_id_mem [of "fst (packs_by_id ps ! k)" "snd (packs_by_id ps ! k)" ps]
    by (simp add: prod_eq_iff)
  have some: "p \<in> set ps \<and> pkid p = fst (packs_by_id ps ! k) \<and> pinned_of lib reg av ps p"
    if "k < length rs" "rs ! k = Some p" for k p
    using pin_group_Some at [OF that(1)] grp [OF that(1)] that(2) by metis
  have ids: "list_all2 (\<lambda>r g. \<forall>p. r = Some p \<longrightarrow> pkid p = fst g) rs (packs_by_id ps)"
    using some len by (simp add: list_all2_conv_all_nth)
  have "distinct (map fst (packs_by_id ps))" using packs_by_id_wf [of ps] .
  from kept_distinct [OF ids this] have d: "distinct (map pkid out)" unfolding out by (rule conjunct1)
  have mem: "p \<in> set ps \<and> pinned_of lib reg av ps p" if "p \<in> set out" for p
  proof -
    have "Some p \<in> set rs" using that unfolding out set_map_filter_id by simp
    then obtain k where "k < length rs" "rs ! k = Some p" unfolding in_set_conv_nth by blast
    then show ?thesis using some by blast
  qed
  have cover: "pkid p \<in> pkid ` set out" if p: "p \<in> set ps" "pinned_of lib reg av ps p" for p
  proof -
    have "(pkid p, filter (\<lambda>q. pkid q = pkid p) ps) \<in> set (packs_by_id ps)"
      using p(1) by (simp add: packs_by_id_mem filter_empty_conv) auto
    then obtain k where k: "k < length rs" "packs_by_id ps ! k = (pkid p, filter (\<lambda>q. pkid q = pkid p) ps)"
      by (metis in_set_conv_nth len)
    have "rs ! k \<noteq> None" using pin_group_None at [OF k(1)] k(2) p by metis
    then obtain q where q: "rs ! k = Some q" by auto
    then have "q \<in> set out" using nth_mem [OF k(1)] unfolding out set_map_filter_id by simp
    moreover have "pkid q = pkid p" using some [OF k(1) q] k(2) by simp
    ultimately show ?thesis by (metis imageI)
  qed
  show ?thesis using d mem cover by blast
qed

section \<open>Properties\<close>

text \<open>A run sees at most one pack of every id, each of them among the packs the engine loaded and
  verified. For an assigned id it is the assigned version with the digest the registry verified; for any
  other id it is a version no parseable version of that id exceeds. Every id for which such a pack was
  loaded is seen.\<close>

theorem workload_pins_exact:
  assumes "resolve_packs_for_workload lib (Some (engine_service lib eng)) assigned_versions reg = Some view"
    and "view workload pack_type = Inr out"
  shows "\<exists>ps. engine_service lib eng workload pack_type = Inr ps
    \<and> distinct (map (\<lambda>p. pm_id (pk_manifest p)) out)
    \<and> (\<forall>p \<in> set out. p \<in> set ps \<and> pinned_of lib reg assigned_versions ps p)
    \<and> (\<forall>p \<in> set ps. pinned_of lib reg assigned_versions ps p
         \<longrightarrow> (\<exists>q \<in> set out. pm_id (pk_manifest q) = pm_id (pk_manifest p)))"
proof -
  obtain ps where ps: "engine_service lib eng workload pack_type = Inr ps"
    "pin_packs lib reg assigned_versions ps = Inr out"
    using assms by (auto simp: resolve_packs_for_workload_def pinned_service_def rbind_Inr_iff)
  then show ?thesis using pin_packs_exact [OF ps(2)] by fastforce
qed

definition imports_lookup :: registry_lookup where
  "imports_lookup = mem_get (from_entries (map imported_pack_to_entry [sample_import]))"

lemma sample_pinned:
  "pinned_service sample_lib imports_lookup [(''a'', ''1.0.0'')] (engine_service sample_lib (sample_engine ''B'')) ''w'' PT_rule
     = Inr [sample_loaded ''a'' ''rule'' PT_rule ''dr'' True]"
  by code_simp

theorem workload_pins_exact_witness:
  "\<exists>ps. engine_service sample_lib (sample_engine ''B'') ''w'' PT_rule = Inr ps
    \<and> pinned_of sample_lib imports_lookup [(''a'', ''1.0.0'')] ps (sample_loaded ''a'' ''rule'' PT_rule ''dr'' True)"
  using workload_pins_exact [of sample_lib "sample_engine ''B''" "[(''a'', ''1.0.0'')]" imports_lookup
      "pinned_service sample_lib imports_lookup [(''a'', ''1.0.0'')] (engine_service sample_lib (sample_engine ''B''))",
      OF _ sample_pinned]
  by (auto simp: resolve_packs_for_workload_def)

end
