(* ===== verification/Control_Plane.thy ===== *)
theory Control_Plane
  imports Api_Boundary Pack_Pinning Redaction
begin

text \<open>
  The endpoints of the control plane that change state, \<open>api/app/main.py\<close>: what each checks, in which
  order it audits and writes, and what it answers. The endpoints take the principal and the tenant
  \<open>request_context\<close> resolves.
\<close>

section \<open>State of a workload\<close>

definition api_put_estate ::
  "'s api_env \<Rightarrow> string \<Rightarrow> tenant_context \<Rightarrow> string \<Rightarrow> resource_node list \<Rightarrow> (nat, 's, 'p) handler" where
  "api_put_estate env actor t workload nodes =
     hbind (emit_or_fail_closed env (state_fields actor AA_run_executed
              (estate_replaced_subject (ax_sha256 env) workload (length nodes)) AR_success)) (\<lambda>_.
     hbind (write_or_raise env t (PutEstate workload nodes)) (\<lambda>_. hreturn (length nodes)))"

definition api_put_graph ::
  "'s api_env \<Rightarrow> string \<Rightarrow> tenant_context \<Rightarrow> string \<Rightarrow> workload_graph \<Rightarrow> (nat \<times> nat, 's, 'p) handler" where
  "api_put_graph env actor t workload graph =
     hbind (emit_or_fail_closed env (state_fields actor AA_run_executed
              (graph_replaced_subject (ax_sha256 env) workload (length (wg_nodes graph)) (length (wg_edges graph))) AR_success)) (\<lambda>_.
     hbind (write_or_raise env t (PutGraph workload graph)) (\<lambda>_.
       hreturn (length (wg_nodes graph), length (wg_edges graph))))"

definition api_add_findings ::
  "'s api_env \<Rightarrow> string \<Rightarrow> tenant_context \<Rightarrow> string \<Rightarrow> finding list \<Rightarrow> (nat, 's, 'p) handler" where
  "api_add_findings env actor t workload findings =
     hbind (require_auditable_findings_subject (ax_unicode env) workload (length findings)) (\<lambda>_.
     hbind (require_provenance findings) (\<lambda>_.
     hbind (emit_findings_persisted env actor workload (length findings)) (\<lambda>_.
     hbind (write_findings_or_raise env t (AddFindings workload findings)) (\<lambda>_. hreturn (length findings)))))"

definition api_snapshot :: "'s api_env \<Rightarrow> string \<Rightarrow> tenant_context \<Rightarrow> string \<Rightarrow> (string, 's, 'p) handler" where
  "api_snapshot env actor t workload =
     hbind (emit_or_fail_closed env (state_fields actor AA_run_executed
              (snapshot_created_subject (ax_sha256 env) workload) AR_success)) (\<lambda>_.
     hbind (write_or_raise env t (Snapshot workload)) (\<lambda>out.
       hreturn (case out of SnapshotId i \<Rightarrow> i | _ \<Rightarrow> [])))"

text \<open>What commits a run: both events first, the second only where the run has findings.\<close>

definition audit_and_commit ::
  "'s api_env \<Rightarrow> string \<Rightarrow> tenant_context \<Rightarrow> string \<Rightarrow> string \<Rightarrow> module_run_result \<Rightarrow> (write_outcome, 's, 'p) handler" where
  "audit_and_commit env actor t workload md result =
     hbind (audit_run_executed env actor md (mr_ok result)) (\<lambda>_.
     hbind (if mr_findings result = [] then hreturn ()
            else emit_findings_persisted env actor workload (length (mr_findings result))) (\<lambda>_.
     write_findings_or_raise env t (CommitRun workload result)))"

definition api_submit_results ::
  "'s api_env \<Rightarrow> string \<Rightarrow> tenant_context \<Rightarrow> string \<Rightarrow> module_run_result \<Rightarrow> (nat \<times> nat \<times> nat, 's, 'p) handler" where
  "api_submit_results env actor t workload result =
     hbind (require_auditable_run_subject (ax_unicode env) (mr_module result)) (\<lambda>_.
     hbind (require_auditable_findings_subject (ax_unicode env) workload (length (mr_findings result))) (\<lambda>_.
     hbind (require_provenance (mr_findings result)) (\<lambda>_.
     hbind (audit_and_commit env actor t workload (mr_module result) result) (\<lambda>out.
       hreturn (case out of Counts e g f \<Rightarrow> (e, g, f) | _ \<Rightarrow> (0, 0, 0))))))"

section \<open>Modules\<close>

fun emit_all :: "'s api_env \<Rightarrow> audit_fields list \<Rightarrow> (unit, 's, 'p) handler" where
  "emit_all env [] = hreturn ()"
| "emit_all env (f # fs) = hbind (emit_or_fail_closed env f) (\<lambda>_. emit_all env fs)"

text \<open>The transitions of a configuration: the newly disabled modules, then the newly enabled ones.\<close>

definition module_transitions :: "string \<Rightarrow> string set \<Rightarrow> string list \<Rightarrow> audit_fields list" where
  "module_transitions actor was_disabled requested =
     map (\<lambda>name. state_fields actor AA_module_disabled name AR_success) (filter (\<lambda>name. name \<notin> was_disabled) requested)
     @ map (\<lambda>name. state_fields actor AA_module_enabled name AR_success) (sorted_list_of_set (was_disabled - set requested))"

definition api_put_module_config ::
  "'s api_env \<Rightarrow> string \<Rightarrow> tenant_context \<Rightarrow> string list \<Rightarrow> string list \<Rightarrow> (string list, 's, 'p) handler" where
  "api_put_module_config env actor t names disabled =
     (let requested = sort (remdups disabled) in
      hbind (hguard (list_all (\<lambda>name. name \<in> set names) requested)
               (HTTPException 422 ''config rejected: unknown module (fail closed)'')) (\<lambda>_.
      hbind (hget (\<lambda>st. tenant_disabled_modules (ax_view env) t (ap_store st))) (\<lambda>was_disabled.
      hbind (emit_all env (module_transitions actor was_disabled requested)) (\<lambda>_.
      hbind (write_or_raise env t (PutModuleConfig \<lparr>mc_scope = [], mc_disabled = requested\<rparr>)) (\<lambda>_.
        hreturn requested)))))"

definition project_modules :: "string set \<Rightarrow> module_manifest list \<Rightarrow> module_manifest list" where
  "project_modules disabled manifests =
     map (\<lambda>m. m\<lparr>mm_enabled := mm_enabled m \<and> mm_name m \<notin> disabled\<rparr>) manifests"

section \<open>Packs\<close>

text \<open>What the endpoints use of packs: the engine, if one is wired, the shared registry on disk, the pinned
  trust bundle, the shared content store, and how a time is printed.\<close>

record pack_env =
  px_lib :: engine_lib
  px_engine :: "packs_engine option"
  px_lookup :: registry_lookup
  px_list :: "registry_error + registry_entry list"
  px_trust :: "raw_dict \<Rightarrow> pack_signature \<Rightarrow> bool"
  px_key_ids :: "string list"
  px_put :: "string \<Rightarrow> nat list \<Rightarrow> (string, nat list) dict \<Rightarrow> store_error + (string, nat list) dict"
  px_isoformat :: "int \<Rightarrow> string"

record pack_entry_view =
  pv_id :: string
  pv_version :: string
  pv_type :: pack_type
  pv_digest :: string
  pv_createdAt :: string
  pv_signed :: bool

definition pack_view :: "pack_env \<Rightarrow> registry_entry \<Rightarrow> pack_entry_view" where
  "pack_view px e =
     \<lparr>pv_id = pr_id (re_ref e), pv_version = pr_version (re_ref e), pv_type = re_type e, pv_digest = re_digest e,
      pv_createdAt = px_isoformat px (re_createdAt e),
      pv_signed = (detached_signature (el_json_loads (px_lib px)) e \<noteq> None)\<rparr>"

definition registry_or_raise :: "registry_error + 'a \<Rightarrow> ('a, 's, 'p) handler" where
  "registry_or_raise r = (case r of Inl _ \<Rightarrow> hraise Unhandled | Inr x \<Rightarrow> hreturn x)"

text \<open>\<open>_PackCatalogueEgress.project\<close>: the shared entries first, one entry per reference, in the order of
  references.\<close>

definition setdefault :: "'k \<Rightarrow> 'v \<Rightarrow> ('k, 'v) dict \<Rightarrow> ('k, 'v) dict" where
  "setdefault k v d = (case dict_get d k of None \<Rightarrow> dict_set k v d | Some _ \<Rightarrow> d)"

definition project_packs :: "pack_env \<Rightarrow> registry_entry list \<Rightarrow> imported_pack list \<Rightarrow> registry_error + pack_entry_view list" where
  "project_packs px builtin imported =
     rbind (sort_entries (map snd (foldl (\<lambda>d e. setdefault (re_ref e) e d) [] (builtin @ map imported_pack_to_entry imported))))
       (\<lambda>es. Inr (map (pack_view px) es))"

definition builtin_entries :: "pack_env \<Rightarrow> registry_error + registry_entry list" where
  "builtin_entries px = (case px_engine px of None \<Rightarrow> Inr [] | Some eng \<Rightarrow> registry_entries eng None)"

definition api_list_packs :: "'s api_env \<Rightarrow> pack_env \<Rightarrow> tenant_context \<Rightarrow> (pack_entry_view list, 's, 'p) handler" where
  "api_list_packs env px t =
     hbind (registry_or_raise (builtin_entries px)) (\<lambda>builtin.
     hbind (hget (\<lambda>st. tenant_list_imports (ax_view env) t (ap_store st))) (\<lambda>imported.
       registry_or_raise (project_packs px builtin imported)))"

text \<open>The ids an import may not take: those of the shared registry, and of the engine where one is wired.\<close>

definition reserved_ids :: "pack_env \<Rightarrow> registry_error + string set" where
  "reserved_ids px =
     rbind (px_list px) (\<lambda>es.
     rbind (case px_engine px of None \<Rightarrow> Inr {} | Some eng \<Rightarrow> reserved_pack_ids (px_lib px) eng) (\<lambda>own.
       Inr ((\<lambda>e. pr_id (re_ref e)) ` set es \<union> own)))"

definition import_rejected :: "string \<Rightarrow> api_error" where
  "import_rejected reason = HTTPException 400 (''import rejected: '' @ reason @ '' (fail closed)'')"

text \<open>What an import must carry: a manifest that validates and the signature inside it.\<close>

definition import_envelope :: "raw_dict \<Rightarrow> api_error + pack_manifest \<times> pack_signature" where
  "import_envelope raw =
     (case vget raw ''manifest'' of
        Some (VDict m) \<Rightarrow>
          (case pack_manifest_of m of
             Inl TypeError \<Rightarrow> Inl Unhandled
           | Inl _ \<Rightarrow> Inl (import_rejected ''malformed manifest'')
           | Inr manifest \<Rightarrow>
               (case pm_pack_signature manifest of
                  None \<Rightarrow> Inl (import_rejected ''pack is unsigned'')
                | Some sig \<Rightarrow> Inr (manifest, sig)))
      | _ \<Rightarrow> Inl (import_rejected ''missing or malformed manifest''))"

definition import_identity :: "pack_env \<Rightarrow> raw_dict \<Rightarrow> api_error + string \<times> nat list" where
  "import_identity px raw =
     (case canonical_bytes (el_float_repr (px_lib px)) raw of
        Inl e \<Rightarrow> Inl (if e \<in> {TypeError, ValueError} then import_rejected ''pack is not canonicalizable'' else Unhandled)
      | Inr bs \<Rightarrow> Inr (el_sha256 (px_lib px) bs, bs))"

definition content_put :: "pack_env \<Rightarrow> string \<Rightarrow> nat list \<Rightarrow> (unit, 's, 'p) handler" where
  "content_put px digest bs st =
     (case px_put px digest bs (ap_content st) of
        Inl _ \<Rightarrow> (Inl Unhandled, st)
      | Inr c \<Rightarrow> (Inr (), st\<lparr>ap_content := c\<rparr>))"

definition import_candidate :: "string \<Rightarrow> pack_manifest \<Rightarrow> pack_signature \<Rightarrow> string \<Rightarrow> int \<Rightarrow> imported_pack" where
  "import_candidate actor manifest sig digest now =
     \<lparr>ip_scope = [], ip_packId = pm_id manifest, ip_version = pm_version manifest, ip_packType = pm_type manifest,
      ip_digest = digest, ip_signature = Some (serialize_pack_signature sig), ip_keyId = Some (ps_key_id sig),
      ip_importedBy = actor, ip_importedAt = now\<rparr>"

text \<open>The emit of a rejected import: its outcome is dropped.\<close>

definition emit_quietly :: "'s api_env \<Rightarrow> audit_fields \<Rightarrow> (unit, 's, 'p) handler" where
  "emit_quietly env f st = (case audit_emit env f st of
     (PersistenceError, st') \<Rightarrow> (Inl Unhandled, st') | (_, st') \<Rightarrow> (Inr (), st'))"

text \<open>The success events of an import.\<close>

definition import_subject :: "pack_manifest \<Rightarrow> string" where
  "import_subject manifest = pm_id manifest @ '':'' @ pm_version manifest"

definition import_fields :: "string \<Rightarrow> pack_manifest \<Rightarrow> audit_action \<Rightarrow> audit_fields" where
  "import_fields actor manifest action =
     pack_fields actor action (import_subject manifest) AR_success (pm_id manifest) (pm_version manifest)"

text \<open>The signature against the trust bundle; a rejection is audited.\<close>

definition require_trusted ::
  "'s api_env \<Rightarrow> pack_env \<Rightarrow> string \<Rightarrow> raw_dict \<Rightarrow> pack_signature \<Rightarrow> (unit, 's, 'p) handler" where
  "require_trusted env px actor raw sig =
     (if px_trust px raw sig then hreturn ()
      else hbind (emit_quietly env (state_fields actor AA_pack_verify ''pack.import'' AR_failure)) (\<lambda>_.
        hraise (import_rejected ''signature is unsigned by a trusted key or the pack was tampered'')))"

text \<open>The record of the tenant's import, inserted if absent, and its event.\<close>

definition record_import ::
  "'s api_env \<Rightarrow> pack_env \<Rightarrow> string \<Rightarrow> tenant_context \<Rightarrow> pack_manifest \<Rightarrow> pack_signature \<Rightarrow> string
     \<Rightarrow> (pack_entry_view, 's, 'p) handler" where
  "record_import env px actor t manifest sig digest =
     hbind (hget (\<lambda>st. ax_now env (ap_ticks st))) (\<lambda>now.
     hbind (scoped_write env t (TryRecordImported (import_candidate actor manifest sig digest now))) (\<lambda>out.
       (case out of
          Recorded imported \<Rightarrow>
            hbind (emit_or_fail_closed env (import_fields actor manifest AA_pack_import)) (\<lambda>_.
            hreturn \<lparr>pv_id = pm_id manifest, pv_version = pm_version manifest, pv_type = pm_type manifest,
              pv_digest = digest, pv_createdAt = px_isoformat px (ip_importedAt imported), pv_signed = True\<rparr>)
        | Failed ImportConflict \<Rightarrow>
            hraise (HTTPException 409 ''import rejected: immutable version conflict (fail closed)'')
        | _ \<Rightarrow> hraise Unhandled)))"

definition admit_import ::
  "'s api_env \<Rightarrow> pack_env \<Rightarrow> string \<Rightarrow> tenant_context \<Rightarrow> raw_dict \<Rightarrow> pack_manifest \<Rightarrow> pack_signature
     \<Rightarrow> (pack_entry_view, 's, 'p) handler" where
  "admit_import env px actor t raw manifest sig =
     hbind (require_trusted env px actor raw sig) (\<lambda>_.
     hbind (hguard (is_audit_safe (ax_unicode env) (import_subject manifest))
              (import_rejected ''pack identifiers are not auditable'')) (\<lambda>_.
     hbind (registry_or_raise (reserved_ids px)) (\<lambda>reserved.
     hbind (hguard (pm_id manifest \<notin> reserved)
              (HTTPException 409 ''import rejected: pack id reserved by a platform pack (fail closed)'')) (\<lambda>_.
     hbind (hlift (import_identity px raw)) (\<lambda>(digest, bs).
     hbind (emit_or_fail_closed env (import_fields actor manifest AA_pack_verify)) (\<lambda>_.
     hbind (content_put px digest bs) (\<lambda>_.
       record_import env px actor t manifest sig digest)))))))"

definition api_import_pack ::
  "'s api_env \<Rightarrow> pack_env \<Rightarrow> string \<Rightarrow> tenant_context \<Rightarrow> raw_dict \<Rightarrow> (pack_entry_view, 's, 'p) handler" where
  "api_import_pack env px actor t raw =
     hbind (hlift (import_envelope raw)) (\<lambda>(manifest, sig). admit_import env px actor t raw manifest sig)"

section \<open>Assignments\<close>

definition assignment_rejected :: "string \<Rightarrow> api_error" where
  "assignment_rejected reason = HTTPException 422 (''assignment rejected: '' @ reason)"

text \<open>The entry of a version the tenant can see: the shared registry first, then its own imports.\<close>

definition visible_entry ::
  "'s api_env \<Rightarrow> pack_env \<Rightarrow> tenant_context \<Rightarrow> string \<Rightarrow> string \<Rightarrow> 's \<Rightarrow> registry_error + registry_entry option" where
  "visible_entry env px t pack_id version s =
     rbind (px_lookup px \<lparr>pr_id = pack_id, pr_version = version\<rparr>) (\<lambda>shared.
       Inr (case shared of
          Some e \<Rightarrow> Some e
        | None \<Rightarrow> map_option imported_pack_to_entry (tenant_get_import env t s pack_id version)))"

text \<open>The gate on the metadata of an entry: signed, by a pinned key, over this content.\<close>

definition assignable :: "pack_env \<Rightarrow> registry_entry option \<Rightarrow> api_error + unit" where
  "assignable px entry =
     (case entry of
        None \<Rightarrow> Inl (assignment_rejected ''not a verified pack visible to this tenant (import it via POST /api/packs/import first); failing closed'')
      | Some e \<Rightarrow>
          (case detached_signature (el_json_loads (px_lib px)) e of
             None \<Rightarrow> Inl (assignment_rejected ''pack version is unsigned or legacy-untrusted (fail closed)'')
           | Some sig \<Rightarrow>
               if ps_key_id sig \<notin> set (px_key_ids px)
               then Inl (assignment_rejected ''pack version's signing key is not trusted (fail closed)'')
               else if ps_canonical_digest sig \<noteq> re_digest e
               then Inl (assignment_rejected ''pack signature does not bind its content (fail closed)'')
               else Inr ()))"

definition api_put_pack_assignment ::
  "'s api_env \<Rightarrow> pack_env \<Rightarrow> string \<Rightarrow> tenant_context \<Rightarrow> string \<Rightarrow> string \<Rightarrow> string \<Rightarrow> (pack_assignment, 's, 'p) handler" where
  "api_put_pack_assignment env px actor t workload pack_id version =
     (let subject = pack_id @ '':'' @ version in
      hbind (hguard (is_audit_safe (ax_unicode env) subject)
               (assignment_rejected ''identifiers are not auditable (fail closed)'')) (\<lambda>_.
      hbind (hget (\<lambda>st. visible_entry env px t pack_id version (ap_store st))) (\<lambda>found.
      hbind (registry_or_raise found) (\<lambda>entry.
      hbind (hlift (assignable px entry)) (\<lambda>_.
      hbind (hget (\<lambda>st. tenant_list_workloads (ax_workloads env) t (ap_store st))) (\<lambda>ws.
      hbind (hguard (workload \<in> set ws) (HTTPException 404 ''assignment rejected: unknown workload (fail closed)'')) (\<lambda>_.
      hbind (emit_or_fail_closed env (pack_fields actor AA_pack_assign subject AR_success pack_id version)) (\<lambda>_.
      hbind (hget (\<lambda>st. ax_now env (ap_ticks st))) (\<lambda>now.
      let a = \<lparr>pa_workload = workload, pa_packId = pack_id, pa_version = version, pa_assignedBy = actor, pa_assignedAt = now\<rparr>
      in hbind (write_or_raise env t (PutAssignment a)) (\<lambda>_. hreturn a))))))))))"

section \<open>Running a module\<close>

text \<open>\<open>ReadOnlyState\<close> over the scoped store.\<close>

definition tenant_reader :: "'s api_env \<Rightarrow> tenant_context \<Rightarrow> 's \<Rightarrow> readable_state" where
  "tenant_reader env t s =
     \<lparr>rs_list_workloads = tenant_list_workloads (ax_workloads env) t s,
      rs_get_estate = (\<lambda>w. sv_estate (tenant_view env t s w)),
      rs_get_graph = (\<lambda>w. sv_graph (tenant_view env t s w)),
      rs_get_findings = (\<lambda>w. ax_findings env s (scoped_key t w)),
      rs_get_previous_findings = (\<lambda>w. sv_previous_findings (tenant_view env t s w)),
      rs_get_previous_node_ids = (\<lambda>w. sv_previous_nodes (tenant_view env t s w))\<rparr>"

text \<open>The packs of a run: the engine over the shared entries and the tenant's imports, pinned by the
  assignments of the workload. The later entry of a reference wins, so an import would shadow a shared
  entry here; the ids are disjoint.\<close>

definition run_packs ::
  "'s api_env \<Rightarrow> pack_env \<Rightarrow> tenant_context \<Rightarrow> string option \<Rightarrow> 's \<Rightarrow> registry_error + packs_service option" where
  "run_packs env px t workload s =
     (let own = map imported_pack_to_entry (tenant_list_imports (ax_view env) t s) in
      rbind (case px_engine px of Some eng \<Rightarrow> registry_entries eng None | None \<Rightarrow> px_list px) (\<lambda>shared.
      let combined = from_entries (shared @ own);
          assigned = (case workload of
             None \<Rightarrow> []
           | Some w \<Rightarrow> foldl (\<lambda>d a. dict_set (pa_packId a) (pa_version a) d) [] (tenant_get_assignments (ax_view env) t s w))
      in Inr (resolve_packs_for_workload (px_lib px)
           (map_option (\<lambda>eng. engine_service (px_lib px) (with_import_registry (Some (list_entries combined)) eng)) (px_engine px))
           assigned (mem_get combined))))"

definition scope_workload :: "scope \<Rightarrow> string option" where
  "scope_workload sc = (case dict_get sc ''workload'' of None \<Rightarrow> None | Some w \<Rightarrow> if w = [] then None else Some w)"

text \<open>A \<open>finally\<close> clause: it runs on either way out, and its own exception replaces the outcome.\<close>

definition hfinally :: "('a, 's, 'p) handler \<Rightarrow> (unit, 's, 'p) handler \<Rightarrow> ('a, 's, 'p) handler" where
  "hfinally m f st =
     (case m st of (r, st') \<Rightarrow> (case f st' of (Inl e, st'') \<Rightarrow> (Inl e, st'') | (Inr _, st'') \<Rightarrow> (r, st'')))"

definition redact_extra :: "(string, pyval) dict \<Rightarrow> (string, pyval) dict" where
  "redact_extra extra =
     (case redact_tree 0 (VDict (map (\<lambda>(k, v). (VStr k, v)) extra)) of
        VDict kvs \<Rightarrow> map (\<lambda>(k, v). (case str_key k of None \<Rightarrow> [] | Some s \<Rightarrow> s, v)) kvs
      | _ \<Rightarrow> [])"

definition redact_run_result :: "module_run_result \<Rightarrow> module_run_result" where
  "redact_run_result r =
     r\<lparr>mr_extra := redact_extra (mr_extra r),
       mr_estate := map_option (map redact_node_tags) (mr_estate r),
       mr_graph := map_option (\<lambda>g. g\<lparr>wg_nodes := map redact_node_tags (wg_nodes g)\<rparr>) (mr_graph r)\<rparr>"

text \<open>What follows the run. A run that commits audits itself; every other way out is audited by the
  \<open>finally\<close> clause, with the outcome of the run.\<close>

definition finish_run ::
  "'s api_env \<Rightarrow> string \<Rightarrow> tenant_context \<Rightarrow> string \<Rightarrow> string option \<Rightarrow> module_exc + module_run_result
     \<Rightarrow> (module_run_result, 's, 'p) handler" where
  "finish_run env actor t name workload r =
     (case r of
        Inl e \<Rightarrow>
          hfinally (hraise (case e of Unattributed _ \<Rightarrow> provenance_rejected | _ \<Rightarrow> Unhandled))
            (audit_run_executed env actor name False)
      | Inr result \<Rightarrow>
          (case workload of
             None \<Rightarrow> hfinally (hreturn (redact_run_result result)) (audit_run_executed env actor name (mr_ok result))
           | Some w \<Rightarrow>
               (if \<not> is_audit_safe (ax_unicode env) (finding_emitted_subject w (length (mr_findings result)))
                then hfinally (hbind (require_auditable_findings_subject (ax_unicode env) w (length (mr_findings result)))
                                (\<lambda>_. hreturn result))
                       (audit_run_executed env actor name (mr_ok result))
                else (case enforce_finding_provenance (mr_findings result) of
                        Inl _ \<Rightarrow> hfinally (hraise provenance_rejected) (audit_run_executed env actor name (mr_ok result))
                      | Inr _ \<Rightarrow>
                          hbind (audit_and_commit env actor t w name result) (\<lambda>_. hreturn (redact_run_result result))))))"

definition api_run_module ::
  "'s api_env \<Rightarrow> pack_env \<Rightarrow> 'c module_registry \<Rightarrow> (string, 'c) dict \<Rightarrow> string \<Rightarrow> tenant_context \<Rightarrow> string \<Rightarrow> scope
     \<Rightarrow> (module_run_result, 's, 'p) handler" where
  "api_run_module env px reg clients actor t name sc =
     (case registry_get_module reg name of
        Inl _ \<Rightarrow> hraise (HTTPException 404 ''unknown module'')
      | Inr md \<Rightarrow>
          hbind (hget (\<lambda>st. tenant_disabled_modules (ax_view env) t (ap_store st))) (\<lambda>disabled.
          hbind (hguard (name \<notin> disabled) (HTTPException 403 ''module disabled for tenant (fail closed)'')) (\<lambda>_.
          hbind (require_auditable_run_subject (ax_unicode env) name) (\<lambda>_.
          hbind (hget (\<lambda>st. run_packs env px t (scope_workload sc) (ap_store st))) (\<lambda>found.
          hbind (registry_or_raise found) (\<lambda>packs.
          hbind (hget (\<lambda>st. run_module md (Some sc) (Some (tenant_reader env t (ap_store st))) packs (Some clients))) (\<lambda>r.
            finish_run env actor t name (scope_workload sc) r)))))))"

section \<open>Requests\<close>

datatype api_call =
    EstateCall string "resource_node list"
  | GraphCall string workload_graph
  | FindingsCall string "finding list"
  | SnapshotCall string
  | ResultsCall string module_run_result
  | ModulesCall "string list"
  | ImportCall raw_dict
  | AssignCall string string string
  | RunCall string scope

datatype api_reply =
    EstateReply nat | GraphReply "nat \<times> nat" | FindingsReply nat | SnapshotReply string
  | ResultsReply "nat \<times> nat \<times> nat" | ModulesReply "string list" | ImportReply pack_entry_view
  | AssignReply pack_assignment | RunReply module_run_result

record 'c api_deps =
  ad_packs :: pack_env
  ad_modules :: "'c module_registry"
  ad_clients :: "(string, 'c) dict"

definition hmap :: "('a \<Rightarrow> 'b) \<Rightarrow> ('a, 's, 'p) handler \<Rightarrow> ('b, 's, 'p) handler" where
  "hmap f m = hbind m (\<lambda>x. hreturn (f x))"

fun handle :: "'s api_env \<Rightarrow> 'c api_deps \<Rightarrow> string \<Rightarrow> tenant_context \<Rightarrow> api_call \<Rightarrow> (api_reply, 's, 'p) handler" where
  "handle env deps actor t (EstateCall w ns) = hmap EstateReply (api_put_estate env actor t w ns)"
| "handle env deps actor t (GraphCall w g) = hmap GraphReply (api_put_graph env actor t w g)"
| "handle env deps actor t (FindingsCall w fs) = hmap FindingsReply (api_add_findings env actor t w fs)"
| "handle env deps actor t (SnapshotCall w) = hmap SnapshotReply (api_snapshot env actor t w)"
| "handle env deps actor t (ResultsCall w r) = hmap ResultsReply (api_submit_results env actor t w r)"
| "handle env deps actor t (ModulesCall ns) =
     hmap ModulesReply (api_put_module_config env actor t (registry_names (ad_modules deps)) ns)"
| "handle env deps actor t (ImportCall raw) = hmap ImportReply (api_import_pack env (ad_packs deps) actor t raw)"
| "handle env deps actor t (AssignCall w i v) = hmap AssignReply (api_put_pack_assignment env (ad_packs deps) actor t w i v)"
| "handle env deps actor t (RunCall name sc) =
     hmap RunReply (api_run_module env (ad_packs deps) (ad_modules deps) (ad_clients deps) actor t name sc)"

text \<open>Every one of these endpoints asks for the role of an operator.\<close>

definition serve ::
  "'s api_env \<Rightarrow> 'c api_deps \<Rightarrow> 'p validator option \<Rightarrow> tenancy_config \<Rightarrow> headers \<Rightarrow> api_call \<Rightarrow> (api_reply, 's, 'p) handler" where
  "serve env deps validator tenancy headers call =
     hbind (request_context validator tenancy Operator headers) (\<lambda>(p, t).
       handle env deps (request_actor (ax_unicode env) headers p) t call)"

end
