(* ===== verification/Audit_First.thy ===== *)
theory Audit_First
  imports Control_Plane
begin

text \<open>
  Audit before write: what the state-changing endpoints have appended to the audit log by the time they
  change anything. The endpoints are run over a store that records every operation with its outcome.
\<close>

section \<open>The recording store\<close>

type_synonym 's recording = "'s \<times> (write_op \<times> write_outcome) list"

definition traced :: "(write_op \<Rightarrow> 's \<Rightarrow> write_outcome \<times> 's) \<Rightarrow> write_op \<Rightarrow> 's recording \<Rightarrow> write_outcome \<times> 's recording" where
  "traced perform op r = (case perform op (fst r) of (out, s) \<Rightarrow> (out, (s, snd r @ [(op, out)])))"

definition trace_env :: "'s api_env \<Rightarrow> 's recording api_env" where
  "trace_env env =
     \<lparr>ax_unicode = ax_unicode env, ax_sha256 = ax_sha256 env, ax_perform = traced (ax_perform env),
      ax_view = (\<lambda>r. ax_view env (fst r)), ax_findings = (\<lambda>r. ax_findings env (fst r)),
      ax_workloads = (\<lambda>r. ax_workloads env (fst r)), ax_assignments = (\<lambda>r. ax_assignments env (fst r)),
      ax_fresh_id = ax_fresh_id env, ax_now = ax_now env\<rparr>"

abbreviation trace_of :: "('s recording, 'p) api_state \<Rightarrow> (write_op \<times> write_outcome) list" where
  "trace_of st \<equiv> snd (ap_store st)"

fun is_audit :: "write_op \<times> write_outcome \<Rightarrow> bool" where
  "is_audit (AppendAudit _, _) = True"
| "is_audit _ = False"

text \<open>An event with these fields was appended; for an action that must fail closed, durably.\<close>

definition recorded :: "unicode_db \<Rightarrow> (write_op \<times> write_outcome) list \<Rightarrow> audit_fields \<Rightarrow> bool" where
  "recorded U tr f \<longleftrightarrow>
     (\<exists>e out. (AppendAudit e, out) \<in> set tr
        \<and> (af_action f \<in> set FAIL_CLOSED_ACTIONS \<longrightarrow> (\<forall>x. out \<noteq> Failed x))
        \<and> ae_action e = af_action f \<and> ae_actor e = ud_nfkc U (af_actor f) \<and> ae_subject e = ud_nfkc U (af_subject f))"

section \<open>Steps that only audit, and steps that change state\<close>

definition emits_at :: "unicode_db \<Rightarrow> ('a, 's recording, 'p) handler \<Rightarrow> ('s recording, 'p) api_state \<Rightarrow> audit_fields set \<Rightarrow> bool" where
  "emits_at U m st F \<longleftrightarrow>
     (\<exists>new. trace_of (snd (m st)) = trace_of st @ new \<and> list_all is_audit new
        \<and> ap_content (snd (m st)) = ap_content st
        \<and> (\<forall>x. fst (m st) = Inr x \<longrightarrow> (\<forall>f \<in> F. recorded U new f)))"

definition guarded_at :: "unicode_db \<Rightarrow> ('a, 's recording, 'p) handler \<Rightarrow> ('s recording, 'p) api_state \<Rightarrow> audit_fields set \<Rightarrow> bool" where
  "guarded_at U m st F \<longleftrightarrow>
     (\<exists>new. trace_of (snd (m st)) = trace_of st @ new
        \<and> (\<not> list_all is_audit new \<or> ap_content (snd (m st)) \<noteq> ap_content st
             \<longrightarrow> (\<forall>f \<in> F. recorded U (takeWhile is_audit new) f)))"

lemma recorded_append: "recorded U tr f \<Longrightarrow> recorded U (tr @ rest) f" "recorded U rest f \<Longrightarrow> recorded U (tr @ rest) f"
  by (auto simp: recorded_def)

lemma takeWhile_audits: "list_all is_audit xs \<Longrightarrow> takeWhile is_audit (xs @ ys) = xs @ takeWhile is_audit ys"
  by (induction xs) auto

lemma emits_guarded: "emits_at U m st F \<Longrightarrow> guarded_at U m st G"
  by (auto simp: emits_at_def guarded_at_def)

lemma guarded_mono: "guarded_at U m st F \<Longrightarrow> G \<subseteq> F \<Longrightarrow> guarded_at U m st G"
  unfolding guarded_at_def by blast

lemma audit_emits_mono: "emits_at U m st F \<Longrightarrow> G \<subseteq> F \<Longrightarrow> emits_at U m st G"
  unfolding emits_at_def by blast

lemma hbind_cases:
  "hbind m k st = (case m st of (Inl e, st') \<Rightarrow> (Inl e, st') | (Inr x, st') \<Rightarrow> k x st')"
  by (simp add: hbind_def)

lemma emits_bind:
  assumes "emits_at U m st F" and "\<And>x st'. m st = (Inr x, st') \<Longrightarrow> emits_at U (k x) st' G"
  shows "emits_at U (hbind m k) st (F \<union> G)"
proof (cases "m st")
  case (Pair r st')
  show ?thesis
  proof (cases r)
    case (Inl e)
    then show ?thesis using assms(1) Pair by (auto simp: emits_at_def hbind_def)
  next
    case (Inr x)
    then have k: "hbind m k st = k x st'" using Pair by (simp add: hbind_def)
    obtain n1 where n1: "trace_of st' = trace_of st @ n1" "list_all is_audit n1" "ap_content st' = ap_content st"
      "\<forall>f \<in> F. recorded U n1 f" using assms(1) Pair Inr by (auto simp: emits_at_def)
    obtain n2 where n2: "trace_of (snd (k x st')) = trace_of st' @ n2" "list_all is_audit n2"
      "ap_content (snd (k x st')) = ap_content st'" "\<forall>y. fst (k x st') = Inr y \<longrightarrow> (\<forall>f \<in> G. recorded U n2 f)"
      using assms(2) Pair Inr unfolding emits_at_def by blast
    show ?thesis unfolding emits_at_def k
      by (rule exI [of _ "n1 @ n2"]) (use n1 n2 recorded_append in \<open>auto\<close>)
  qed
qed

lemma guarded_bind:
  assumes "emits_at U m st F" and "\<And>x st'. m st = (Inr x, st') \<Longrightarrow> guarded_at U (k x) st' G"
  shows "guarded_at U (hbind m k) st (F \<union> G)"
proof (cases "m st")
  case (Pair r st')
  show ?thesis
  proof (cases r)
    case (Inl e)
    then show ?thesis using assms(1) Pair by (auto simp: emits_at_def guarded_at_def hbind_def)
  next
    case (Inr x)
    then have k: "hbind m k st = k x st'" using Pair by (simp add: hbind_def)
    obtain n1 where n1: "trace_of st' = trace_of st @ n1" "list_all is_audit n1" "ap_content st' = ap_content st"
      "\<forall>f \<in> F. recorded U n1 f" using assms(1) Pair Inr by (auto simp: emits_at_def)
    obtain n2 where n2: "trace_of (snd (k x st')) = trace_of st' @ n2"
      "\<not> list_all is_audit n2 \<or> ap_content (snd (k x st')) \<noteq> ap_content st' \<longrightarrow> (\<forall>f \<in> G. recorded U (takeWhile is_audit n2) f)"
      using assms(2) Pair Inr unfolding guarded_at_def by blast
    show ?thesis unfolding guarded_at_def k
      by (rule exI [of _ "n1 @ n2"]) (use n1 n2 recorded_append in \<open>auto simp: takeWhile_audits\<close>)
  qed
qed

text \<open>Once the required events are there, anything that only appends to the log may follow.\<close>

lemma guarded_bind_any:
  assumes "guarded_at U m st {}" and "\<And>x st'. m st = (Inr x, st') \<Longrightarrow> guarded_at U (k x) st' {}"
  shows "guarded_at U (hbind m k) st {}"
proof (cases "m st")
  case (Pair r st')
  then show ?thesis using assms
    by (cases r) (fastforce simp: guarded_at_def hbind_def)+
qed

lemma emits_pure:
  "emits_at U (hreturn x) st {}" "emits_at U (hraise e) st {}" "emits_at U (hget g) st {}" "emits_at U (hlift r) st {}"
  "emits_at U (hguard b e) st {}" "emits_at U (registry_or_raise q) st {}" "emits_at U (require_provenance fs) st {}"
  by (auto simp: emits_at_def hreturn_def hraise_def hget_def hlift_def hguard_def registry_or_raise_def
      require_provenance_def split: sum.splits)

lemma guarded_pure:
  "guarded_at U (hreturn x) st F" "guarded_at U (hraise e) st F"
  by (rule emits_guarded, rule emits_pure)+

lemma make_audit_event_fields:
  "make_audit_event U i now f = Inr e \<Longrightarrow>
     ae_action e = af_action f \<and> ae_actor e = ud_nfkc U (af_actor f) \<and> ae_subject e = ud_nfkc U (af_subject f)"
  by (auto simp: make_audit_event_def rbind_Inr_iff assert_audit_safe_Inr)

lemma trace_env_simps [simp]:
  "ax_unicode (trace_env env) = ax_unicode env" "ax_sha256 (trace_env env) = ax_sha256 env"
  "ax_perform (trace_env env) = traced (ax_perform env)"
  by (simp_all add: trace_env_def)

lemma audit_emit_cases:
  assumes "audit_emit (trace_env env) f st = (out, st')"
  obtains (rejected) "out = Rejected" "ap_store st' = ap_store st" "ap_content st' = ap_content st"
  | (tried) e o2 where "trace_of st' = trace_of st @ [(AppendAudit e, o2)]" "ap_content st' = ap_content st"
      "ae_action e = af_action f" "ae_actor e = ud_nfkc (ax_unicode env) (af_actor f)"
      "ae_subject e = ud_nfkc (ax_unicode env) (af_subject f)"
      "out = PersistenceError \<or> (af_action f \<in> set FAIL_CLOSED_ACTIONS \<longrightarrow> (\<forall>x. o2 \<noteq> Failed x))"
proof (cases "make_audit_event (ax_unicode env) (ax_fresh_id (trace_env env) (ap_ticks st)) (ax_now (trace_env env) (ap_ticks st)) f")
  case (Inl x)
  then show ?thesis using assms rejected by (auto simp: audit_emit_def emit_def)
next
  case (Inr e)
  obtain o2 s2 where p: "ax_perform env (AppendAudit e) (fst (ap_store st)) = (o2, s2)"
    by (cases "ax_perform env (AppendAudit e) (fst (ap_store st))")
  show ?thesis
  proof (rule tried)
    show "trace_of st' = trace_of st @ [(AppendAudit e, o2)]" "ap_content st' = ap_content st"
      "out = PersistenceError \<or> (af_action f \<in> set FAIL_CLOSED_ACTIONS \<longrightarrow> (\<forall>x. o2 \<noteq> Failed x))"
      using assms Inr p make_audit_event_fields [OF Inr]
      by (auto simp: audit_emit_def emit_def store_sink_def traced_def on_persist_failure_def
          split: write_outcome.splits if_splits)
  qed (use make_audit_event_fields [OF Inr] in auto)
qed

lemma emit_emits: "emits_at (ax_unicode env) (emit_or_fail_closed (trace_env env) f) st {f}"
proof (cases "audit_emit (trace_env env) f st")
  case (Pair out st')
  from Pair show ?thesis
  proof (cases rule: audit_emit_cases)
    case rejected
    then show ?thesis using Pair by (auto simp: emits_at_def emit_or_fail_closed_def)
  next
    case (tried e o2)
    then show ?thesis using Pair
      by (cases out) (auto simp: emits_at_def emit_or_fail_closed_def recorded_def)
  qed
qed

lemma emit_quietly_emits: "emits_at (ax_unicode env) (emit_quietly (trace_env env) f) st {}"
proof (cases "audit_emit (trace_env env) f st")
  case (Pair out st')
  from Pair show ?thesis
  proof (cases rule: audit_emit_cases)
    case rejected
    then show ?thesis using Pair by (auto simp: emits_at_def emit_quietly_def)
  next
    case (tried e o2)
    then show ?thesis using Pair by (cases out) (auto simp: emits_at_def emit_quietly_def)
  qed
qed

lemma emit_all_emits: "emits_at (ax_unicode env) (emit_all (trace_env env) fs) st (set fs)"
proof (induction fs arbitrary: st)
  case (Cons f fs)
  show ?case using emits_bind [OF emit_emits [of env f st] Cons.IH] by simp
qed (simp add: emits_pure)

lemma scoped_write_guarded: "guarded_at U (scoped_write (trace_env env) t op) st {}"
  by (auto simp: guarded_at_def scoped_write_def tenant_write_def traced_def split: prod.splits)

lemma content_put_guarded: "guarded_at U (content_put px d bs) st {}"
  by (auto simp: guarded_at_def content_put_def split: sum.splits)

lemma write_guarded:
  "guarded_at U (write_or_raise (trace_env env) t op) st {}"
  "guarded_at U (write_findings_or_raise (trace_env env) t op) st {}"
  unfolding write_or_raise_def write_findings_or_raise_def
  by (rule guarded_bind_any [OF scoped_write_guarded];
      force split: write_outcome.splits state_exc.splits intro: guarded_pure)+

lemma hfinally_emits:
  assumes "emits_at U m st {}" and "\<And>st'. emits_at U f st' {}"
  shows "emits_at U (hfinally m f) st {}"
proof -
  obtain r st1 where m: "m st = (r, st1)" by (cases "m st")
  obtain q st2 where f: "f st1 = (q, st2)" by (cases "f st1")
  show ?thesis using assms(1) assms(2) [of st1] m f
    by (cases q) (auto simp: emits_at_def hfinally_def)
qed

section \<open>The endpoints\<close>

text \<open>What a call must have recorded before it changes state.\<close>

definition run_result ::
  "'s api_env \<Rightarrow> 'c api_deps \<Rightarrow> tenant_context \<Rightarrow> string \<Rightarrow> scope \<Rightarrow> 's \<Rightarrow> (module_exc + module_run_result) option" where
  "run_result env deps t name sc s =
     (case (registry_get_module (ad_modules deps) name, run_packs env (ad_packs deps) t (scope_workload sc) s) of
        (Inr md, Inr packs) \<Rightarrow>
          Some (run_module md (Some sc) (Some (tenant_reader env t s)) packs (Some (ad_clients deps)))
      | _ \<Rightarrow> None)"

definition findings_event :: "string \<Rightarrow> string \<Rightarrow> finding list \<Rightarrow> audit_fields set" where
  "findings_event actor workload fs =
     (if fs = [] then {}
      else {state_fields actor AA_finding_emitted (finding_emitted_subject workload (length fs)) AR_success})"

fun required_events ::
  "'s api_env \<Rightarrow> 'c api_deps \<Rightarrow> string \<Rightarrow> tenant_context \<Rightarrow> 's \<Rightarrow> api_call \<Rightarrow> audit_fields set" where
  "required_events env deps actor t s (EstateCall w ns) =
     {state_fields actor AA_run_executed (estate_replaced_subject (ax_sha256 env) w (length ns)) AR_success}"
| "required_events env deps actor t s (GraphCall w g) =
     {state_fields actor AA_run_executed
        (graph_replaced_subject (ax_sha256 env) w (length (wg_nodes g)) (length (wg_edges g))) AR_success}"
| "required_events env deps actor t s (FindingsCall w fs) =
     {state_fields actor AA_finding_emitted (finding_emitted_subject w (length fs)) AR_success}"
| "required_events env deps actor t s (SnapshotCall w) =
     {state_fields actor AA_run_executed (snapshot_created_subject (ax_sha256 env) w) AR_success}"
| "required_events env deps actor t s (ResultsCall w r) =
     insert (state_fields actor AA_run_executed (mr_module r) (if mr_ok r then AR_success else AR_failure))
       (findings_event actor w (mr_findings r))"
| "required_events env deps actor t s (ModulesCall ns) =
     set (module_transitions actor (tenant_disabled_modules (ax_view env) t s) (sort (remdups ns)))"
| "required_events env deps actor t s (ImportCall raw) =
     (case import_envelope raw of
        Inl _ \<Rightarrow> {}
      | Inr (m, sig) \<Rightarrow> {import_fields actor m AA_pack_verify})"
| "required_events env deps actor t s (AssignCall w i v) =
     {pack_fields actor AA_pack_assign (i @ '':'' @ v) AR_success i v}"
| "required_events env deps actor t s (RunCall name sc) =
     (case (run_result env deps t name sc s, scope_workload sc) of
        (Some (Inr r), Some w) \<Rightarrow>
          insert (state_fields actor AA_run_executed name (if mr_ok r then AR_success else AR_failure))
            (findings_event actor w (mr_findings r))
      | _ \<Rightarrow> {})"

lemma hmap_guarded: "guarded_at U m st F \<Longrightarrow> guarded_at U (hmap g m) st F"
  by (cases "m st"; cases "fst (m st)") (auto simp: guarded_at_def hmap_def hbind_def hreturn_def)

lemma write_then_return:
  "guarded_at U (hbind (write_or_raise (trace_env env) t op) (\<lambda>out. hreturn (g out))) st {}"
  "guarded_at U (hbind (write_findings_or_raise (trace_env env) t op) (\<lambda>out. hreturn (g out))) st {}"
  by (rule guarded_bind_any; rule write_guarded guarded_pure)+

lemma emit_then:
  assumes "\<And>st. guarded_at (ax_unicode env) k st {}"
  shows "guarded_at (ax_unicode env) (hbind (emit_or_fail_closed (trace_env env) f) (\<lambda>_. k)) st {f}"
  using guarded_bind [OF emit_emits [of env f st] assms] by simp

lemma pure_then:
  assumes "emits_at U m st {}" and "\<And>x st'. m st = (Inr x, st') \<Longrightarrow> guarded_at U (k x) st' F"
  shows "guarded_at U (hbind m k) st F"
  using guarded_bind [OF assms(1), of k F] assms(2) by simp

lemma audit_and_commit_guarded:
  "guarded_at (ax_unicode env) (audit_and_commit (trace_env env) actor t w md r) st
     (insert (state_fields actor AA_run_executed md (if mr_ok r then AR_success else AR_failure))
       (findings_event actor w (mr_findings r)))"
proof -
  have "emits_at (ax_unicode env) (if mr_findings r = [] then hreturn ()
      else emit_findings_persisted (trace_env env) actor w (length (mr_findings r))) st'
      (findings_event actor w (mr_findings r))" for st' :: "('a recording, 'b) api_state"
    by (simp add: findings_event_def emits_pure emit_findings_persisted_def emit_emits)
  then have "guarded_at (ax_unicode env) (hbind (if mr_findings r = [] then hreturn ()
      else emit_findings_persisted (trace_env env) actor w (length (mr_findings r)))
      (\<lambda>_. write_findings_or_raise (trace_env env) t (CommitRun w r))) st' (findings_event actor w (mr_findings r))"
    for st' :: "('a recording, 'b) api_state"
    using guarded_bind [OF _ write_guarded(2)] by fastforce
  then show ?thesis
    using guarded_bind [OF emit_emits] unfolding audit_and_commit_def audit_run_executed_def run_executed_subject_def
    by fastforce
qed

lemmas commit_then_return = hmap_guarded [OF audit_and_commit_guarded, unfolded hmap_def]

lemma api_put_estate_guarded:
  "guarded_at (ax_unicode env) (api_put_estate (trace_env env) actor t w ns) st
     (required_events env deps actor t s (EstateCall w ns))"
  unfolding api_put_estate_def by (simp add: emit_then write_then_return)

lemma api_put_graph_guarded:
  "guarded_at (ax_unicode env) (api_put_graph (trace_env env) actor t w g) st
     (required_events env deps actor t s (GraphCall w g))"
  unfolding api_put_graph_def by (simp add: emit_then write_then_return)

lemma api_snapshot_guarded:
  "guarded_at (ax_unicode env) (api_snapshot (trace_env env) actor t w) st
     (required_events env deps actor t s (SnapshotCall w))"
  unfolding api_snapshot_def by (simp add: emit_then write_then_return)

lemma api_add_findings_guarded:
  "guarded_at (ax_unicode env) (api_add_findings (trace_env env) actor t w fs) st
     (required_events env deps actor t s (FindingsCall w fs))"
  unfolding api_add_findings_def require_auditable_findings_subject_def emit_findings_persisted_def
  by (rule pure_then, rule emits_pure, rule pure_then, rule emits_pure) (simp add: emit_then write_then_return)

lemma api_submit_results_guarded:
  "guarded_at (ax_unicode env) (api_submit_results (trace_env env) actor t w r) st
     (required_events env deps actor t s (ResultsCall w r))"
  unfolding api_submit_results_def require_auditable_findings_subject_def require_auditable_run_subject_def
  by (rule pure_then, rule emits_pure, rule pure_then, rule emits_pure, rule pure_then, rule emits_pure)
     (unfold required_events.simps, rule commit_then_return)

lemma hget_bind [simp]: "hbind (hget g) k st = k (g st) st"
  by (simp add: hbind_def hget_def)

lemma guarded_hget: "guarded_at U (k (g st)) st F \<Longrightarrow> guarded_at U (hbind (hget g) k) st F"
  by (simp add: guarded_at_def)

lemma hguard_state: "hguard b e st = (Inr x, st') \<Longrightarrow> b \<and> st' = st"
  by (auto simp: hguard_def hreturn_def hraise_def split: if_splits)

lemma trace_views [simp]:
  "ax_view (trace_env env) = (\<lambda>r. ax_view env (fst r))"
  "ax_workloads (trace_env env) = (\<lambda>r. ax_workloads env (fst r))"
  "ax_findings (trace_env env) = (\<lambda>r. ax_findings env (fst r))"
  by (simp_all add: trace_env_def)

lemma api_put_module_config_guarded:
  "guarded_at (ax_unicode env) (api_put_module_config (trace_env env) actor t names ns) st
     (required_events env deps actor t (fst (ap_store st)) (ModulesCall ns))"
proof -
  let ?F = "required_events env deps actor t (fst (ap_store st)) (ModulesCall ns)"
  have "guarded_at (ax_unicode env) (hbind (emit_all (trace_env env) (module_transitions actor
          (tenant_disabled_modules (ax_view env) t (fst (ap_store st))) (sort (remdups ns)))) (\<lambda>_.
      hbind (write_or_raise (trace_env env) t (PutModuleConfig \<lparr>mc_scope = [], mc_disabled = sort (remdups ns)\<rparr>)) (\<lambda>_.
        hreturn (sort (remdups ns))))) st ?F"
    using guarded_bind [OF emit_all_emits write_then_return(1)] by fastforce
  then show ?thesis unfolding api_put_module_config_def Let_def
    by (intro pure_then [OF emits_pure(5)] guarded_hget) (auto simp: tenant_disabled_modules_def dest: hguard_state)
qed

lemma content_then:
  assumes "\<And>st. guarded_at U k st {}"
  shows "guarded_at U (hbind (content_put px d bs) (\<lambda>_. k)) st {}"
  by (rule guarded_bind_any [OF content_put_guarded assms])

lemma emit_then_any: "(\<And>st. guarded_at (ax_unicode env) k st {}) \<Longrightarrow>
  guarded_at (ax_unicode env) (hbind (emit_or_fail_closed (trace_env env) f) (\<lambda>_. k)) st {}"
  by (rule guarded_mono [OF emit_then]) auto

lemma record_import_guarded:
  "guarded_at (ax_unicode env) (record_import (trace_env env) px actor t m sig d) st {}"
  unfolding record_import_def
  by (rule guarded_hget, rule guarded_bind_any [OF scoped_write_guarded])
     (auto split: write_outcome.splits state_exc.splits intro: guarded_pure emit_then_any)

lemma pure_emits:
  "emits_at U m st {} \<Longrightarrow> (\<And>x st'. emits_at U (k x) st' {}) \<Longrightarrow> emits_at U (hbind m k) st {}"
  using emits_bind [of U m st "{}" k "{}"] by simp

lemma hlift_bind [simp]: "hbind (hlift (Inr x)) k = k x" "hbind (hlift (Inl e)) k = hraise e"
  by (auto simp: hbind_def hlift_def hraise_def)

lemma require_trusted_emits: "emits_at (ax_unicode env) (require_trusted (trace_env env) px actor raw sig) st {}"
  by (auto simp: require_trusted_def intro: pure_emits emit_quietly_emits emits_pure)

lemma admit_import_guarded:
  "guarded_at (ax_unicode env) (admit_import (trace_env env) px actor t raw m sig) st {import_fields actor m AA_pack_verify}"
  unfolding admit_import_def trace_env_simps
  by (intro pure_then require_trusted_emits emits_pure)
     (auto intro!: emit_then content_then record_import_guarded)

lemma api_import_pack_guarded:
  "guarded_at (ax_unicode env) (api_import_pack (trace_env env) px actor t raw) st
     (required_events env deps actor t s (ImportCall raw))"
proof (cases "import_envelope raw")
  case (Inl e)
  then show ?thesis by (simp add: api_import_pack_def guarded_pure)
next
  case (Inr ms)
  then show ?thesis by (cases ms) (simp add: api_import_pack_def admit_import_guarded)
qed

lemma visible_entry_trace [simp]: "visible_entry (trace_env env) px t i v r = visible_entry env px t i v (fst r)"
  by (simp add: visible_entry_def tenant_get_import_def tenant_view_def cong: option.case_cong)

lemma api_put_pack_assignment_guarded:
  "guarded_at (ax_unicode env) (api_put_pack_assignment (trace_env env) px actor t w i v) st
     (required_events env deps actor t s (AssignCall w i v))"
  unfolding api_put_pack_assignment_def Let_def trace_env_simps required_events.simps
  by (intro pure_then emits_pure guarded_hget emit_then write_then_return)

lemma finish_run_guarded:
  "guarded_at (ax_unicode env) (finish_run (trace_env env) actor t name w r) st
     (case (Some r, w) of
        (Some (Inr x), Some w) \<Rightarrow>
          insert (state_fields actor AA_run_executed name (if mr_ok x then AR_success else AR_failure))
            (findings_event actor w (mr_findings x))
      | _ \<Rightarrow> {})"
proof -
  have aud: "emits_at (ax_unicode env) (audit_run_executed (trace_env env) actor name ok) st' {}"
    for ok and st' :: "('a recording, 'b) api_state"
    unfolding audit_run_executed_def by (rule audit_emits_mono [OF emit_emits]) simp
  have fin: "emits_at (ax_unicode env) m st {} \<Longrightarrow>
    guarded_at (ax_unicode env) (hfinally m (audit_run_executed (trace_env env) actor name ok)) st F"
    for m :: "(module_run_result, 'a recording, 'b) handler" and ok F
    by (rule emits_guarded [OF hfinally_emits [OF _ aud]])
  show ?thesis
  proof (cases r)
    case (Inl e)
    then show ?thesis by (auto simp: finish_run_def intro: fin emits_pure)
  next
    case (Inr x)
    show ?thesis
    proof (cases w)
      case None
      then show ?thesis using Inr by (auto simp: finish_run_def intro: fin emits_pure)
    next
      case (Some v)
      consider (unsafe) "\<not> is_audit_safe (ax_unicode env) (finding_emitted_subject v (length (mr_findings x)))"
        | (bare) e where "is_audit_safe (ax_unicode env) (finding_emitted_subject v (length (mr_findings x)))"
            "enforce_finding_provenance (mr_findings x) = Inl e"
        | (fine) "is_audit_safe (ax_unicode env) (finding_emitted_subject v (length (mr_findings x)))"
            "enforce_finding_provenance (mr_findings x) = Inr ()"
        by (cases "enforce_finding_provenance (mr_findings x)") auto
      then show ?thesis
      proof cases
        case unsafe
        then show ?thesis using Inr Some
          by (simp add: finish_run_def require_auditable_findings_subject_def fin pure_emits emits_pure split del: if_split)
      next
        case bare
        then show ?thesis using Inr Some by (simp add: finish_run_def fin emits_pure split del: if_split)
      next
        case fine
        then show ?thesis using Inr Some
          by (simp add: finish_run_def commit_then_return split del: if_split)
      qed
    qed
  qed
qed

lemma run_packs_trace [simp]: "run_packs (trace_env env) px t w r = run_packs env px t w (fst r)"
  by (simp add: run_packs_def tenant_list_imports_def tenant_get_assignments_def cong: option.case_cong)

lemma tenant_reader_trace [simp]: "tenant_reader (trace_env env) t r = tenant_reader env t (fst r)"
  by (simp add: tenant_reader_def tenant_view_def tenant_list_workloads_def)

lemma api_run_module_guarded:
  "guarded_at (ax_unicode env)
     (api_run_module (trace_env env) (ad_packs deps) (ad_modules deps) (ad_clients deps) actor t name sc) st
     (required_events env deps actor t (fst (ap_store st)) (RunCall name sc))"
proof (cases "registry_get_module (ad_modules deps) name")
  case (Inl e)
  then show ?thesis by (simp add: api_run_module_def guarded_pure)
next
  case (Inr md)
  have packs: "registry_or_raise q st' = (Inr x, st'') \<Longrightarrow> q = Inr x \<and> st'' = st'"
    for q :: "registry_error + packs_service option" and x and st' st'' :: "('a recording, 'b) api_state"
    by (auto simp: registry_or_raise_def hreturn_def hraise_def split: sum.splits)
  show ?thesis
    unfolding api_run_module_def Inr sum.case require_auditable_run_subject_def
    by (rule guarded_hget, rule pure_then [OF emits_pure(5)], rule pure_then [OF emits_pure(5)],
        rule guarded_hget, rule pure_then [OF emits_pure(6)], rule guarded_hget,
        rule guarded_mono [OF finish_run_guarded])
      (auto simp: run_result_def Inr dest!: packs hguard_state split: sum.splits option.splits)
qed

lemma handle_guarded:
  "guarded_at (ax_unicode env) (handle (trace_env env) deps actor t call) st
     (required_events env deps actor t (fst (ap_store st)) call)"
  by (cases call)
     (simp_all only: handle.simps, (rule hmap_guarded, rule api_put_estate_guarded api_put_graph_guarded
        api_add_findings_guarded api_snapshot_guarded api_submit_results_guarded api_put_module_config_guarded
        api_import_pack_guarded api_put_pack_assignment_guarded api_run_module_guarded)+)

section \<open>Property\<close>


text \<open>A process over the local store.\<close>

definition local_env :: "local_state api_env" where
  "local_env = \<lparr>ax_unicode = ascii_db, ax_sha256 = (\<lambda>_. ''h''), ax_perform = local_write bytes_hex (\<lambda>_. []) (\<lambda>_. []),
     ax_view = local_view, ax_findings = read_findings, ax_workloads = list_workloads,
     ax_assignments = list_pack_assignments, ax_fresh_id = (\<lambda>n. show_nat n), ax_now = (\<lambda>n. int n)\<rparr>"

definition api_start :: "'p \<Rightarrow> (local_state, 'p) api_state" where
  "api_start keys = \<lparr>ap_store = empty_state, ap_metrics = Some [], ap_content = [], ap_keys = keys, ap_ticks = 0\<rparr>"

definition no_packs :: pack_env where
  "no_packs = \<lparr>px_lib = sample_lib, px_engine = None, px_lookup = (\<lambda>_. Inr None), px_list = Inr [],
     px_trust = (\<lambda>_ sig. sig = sample_sig), px_key_ids = [''k''], px_put = (\<lambda>_ _ c. Inr c), px_isoformat = (\<lambda>_. [])\<rparr>"

definition no_deps :: "unit api_deps" where
  "no_deps = \<lparr>ad_packs = no_packs, ad_modules = [], ad_clients = []\<rparr>"

definition traced_start :: "(local_state recording, unit) api_state" where
  "traced_start = \<lparr>ap_store = (empty_state, []), ap_metrics = None, ap_content = [], ap_keys = (), ap_ticks = 0\<rparr>"

lemma traced_estate_write:
  "map fst (trace_of (snd (handle (trace_env local_env) no_deps ''u'' (ctx_of ''t'') (EstateCall ''w'' []) traced_start)))
   = [AppendAudit \<lparr>ae_id = ''0'', ae_actor = ''u'', ae_action = AA_run_executed, ae_subject = ''wl:h#estate=0'',
        ae_packId = None, ae_packVersion = None, ae_result = AR_success, ae_recordedAt = 0, ae_prevHash = None, ae_entryHash = None\<rparr>,
      PutEstate ''74.w'' []]"
  by code_simp


end
