(* ===== verification/Api_Access.thy ===== *)
theory Api_Access
  imports Audit_First
begin

text \<open>
  Who may change what: the state-changing endpoints have no effect for a request without a validated
  principal that holds the role, and what they do for one tenant leaves every other tenant's state alone.
\<close>

section \<open>Access\<close>

text \<open>\<open>get_auth_validator\<close> and the startup guard: the validator of the environment over a cache of published
  keys, none only where authentication is switched off.\<close>

definition get_auth_validator ::
  "'k auth_lib \<Rightarrow> jwks_world \<Rightarrow> rat \<Rightarrow> (string, string) dict \<Rightarrow> auth_exc + 'k jwks_state validator option" where
  "get_auth_validator lib w now environ =
     rbind (build_token_validator environ) (\<lambda>config.
       Inr (map_option (\<lambda>c. validate_token lib c (jwks_get_key lib w) DEFAULT_LEEWAY now) config))"

lemma operator_roles: "principal_grants q Operator \<longleftrightarrow> Operator \<in> pr_roles q \<or> Admin \<in> pr_roles q"
proof -
  have "(\<exists>h \<in> R. Operator \<in> ROLE_GRANTS h) \<longleftrightarrow> Operator \<in> R \<or> Admin \<in> R" for R
  proof
    assume "\<exists>h \<in> R. Operator \<in> ROLE_GRANTS h"
    then obtain h where "h \<in> R" "Operator \<in> ROLE_GRANTS h" by blast
    then show "Operator \<in> R \<or> Admin \<in> R" by (cases h) auto
  next
    assume "Operator \<in> R \<or> Admin \<in> R"
    then show "\<exists>h \<in> R. Operator \<in> ROLE_GRANTS h" by (metis ROLE_GRANTS.simps(2,3) insertI1 insertI2)
  qed
  then show ?thesis by (simp add: principal_grants_def)
qed

lemma reader_roles: "principal_grants q Reader \<longleftrightarrow> pr_roles q \<noteq> {}"
proof -
  have "Reader \<in> ROLE_GRANTS h" for h by (cases h) auto
  then show ?thesis by (auto simp: principal_grants_def)
qed

lemma get_request_principal_cases:
  "get_request_principal validator headers st =
     (case validator of
        None \<Rightarrow> (Inr None, st)
      | Some validate \<Rightarrow>
          (case extract_bearer_token headers of
             Inl e \<Rightarrow> (Inl e, st)
           | Inr token \<Rightarrow>
               (case fst (validate token (ap_keys st)) of
                  Inr p \<Rightarrow> (Inr (Some p), st\<lparr>ap_keys := snd (validate token (ap_keys st))\<rparr>)
                | Inl (AuthenticationError _) \<Rightarrow> (Inl (HTTPException 401 ''authentication failed''), st\<lparr>ap_keys := snd (validate token (ap_keys st))\<rparr>)
                | Inl _ \<Rightarrow> (Inl Unhandled, st\<lparr>ap_keys := snd (validate token (ap_keys st))\<rparr>))))"
  by (auto simp: get_request_principal_def split: option.splits sum.splits auth_exc.splits prod.splits)

lemma request_context_Inr:
  "fst (request_context validator tenancy required headers st) = Inr (p, t) \<longleftrightarrow>
     fst (get_request_principal validator headers st) = Inr p
     \<and> resolve_tenant (case p of None \<Rightarrow> None | Some q \<Rightarrow> pr_tenant_id q) tenancy = Inr t
     \<and> (\<forall>q. p = Some q \<longrightarrow> principal_grants q required)"
  by (auto simp: request_context_def hbind_def hlift_def hreturn_def get_tenant_context_def require_role_def
      split: sum.splits prod.splits option.splits if_splits)

lemma request_context_state:
  "\<exists>keys. snd (request_context validator tenancy required headers st) = st\<lparr>ap_keys := keys\<rparr>"
proof -
  have "\<exists>keys. snd (get_request_principal validator headers st) = st\<lparr>ap_keys := keys\<rparr>"
    unfolding get_request_principal_cases
    by (auto split: option.splits sum.splits auth_exc.splits intro: exI [of _ "ap_keys st"])
  then show ?thesis
    by (auto simp: request_context_def hbind_def hlift_def hreturn_def split: sum.splits prod.splits)
qed

text \<open>What a refused request is answered with.\<close>

lemma request_context_Inl:
  assumes "fst (request_context validator tenancy required headers st) = Inl e"
  shows "(\<exists>d. e = HTTPException 401 d) \<or> (\<exists>d. e = HTTPException 403 d) \<or> e = Unhandled"
proof -
  have "fst (get_request_principal validator headers st) = Inl e \<Longrightarrow> (\<exists>d. e = HTTPException 401 d) \<or> e = Unhandled"
    unfolding get_request_principal_cases
    by (auto simp: extract_bearer_token_def Let_def split: option.splits sum.splits auth_exc.splits if_splits)
  then show ?thesis using assms
    by (auto simp: request_context_def hbind_def hlift_def hreturn_def get_tenant_context_def require_role_def
        split: sum.splits prod.splits option.splits if_splits)
qed

lemma serve_refused:
  assumes "fst (request_context validator tenancy Operator headers st) = Inl e"
  shows "serve env deps validator tenancy headers call st
    = (Inl e, snd (request_context validator tenancy Operator headers st))"
  using assms by (cases "request_context validator tenancy Operator headers st") (simp add: serve_def hbind_def)

text \<open>C6: A request is served only for a principal who may. With a process configured from its environment,
  either the request is refused - with 401, 403 or 500, and nothing but the cache of keys has changed - or
  authentication is explicitly disabled, or the bearer token is one a published signing key vouches for
  and its principal is an operator or an administrator; in both cases the tenant is the one the tenancy
  configuration resolves for the validated principal.\<close>

theorem served_only_authorized:
  assumes "get_auth_validator lib w now environ = Inr validator" and "cache_ok lib w (ap_keys st)"
  shows "(case fst (request_context validator tenancy Operator headers st) of
      Inl e \<Rightarrow>
        ((\<exists>d. e = HTTPException 401 d) \<or> (\<exists>d. e = HTTPException 403 d) \<or> e = Unhandled)
        \<and> (\<exists>keys. serve env deps validator tenancy headers call st = (Inl e, st\<lparr>ap_keys := keys\<rparr>))
    | Inr (p, t) \<Rightarrow>
        resolve_tenant (case p of None \<Rightarrow> None | Some q \<Rightarrow> pr_tenant_id q) tenancy = Inr t
        \<and> (case p of
             None \<Rightarrow> py_lower (env_value environ ''WP_AUTH_MODE'') = ''disabled''
           | Some q \<Rightarrow>
               {Operator, Admin} \<inter> pr_roles q \<noteq> {}
               \<and> (\<exists>c token kid key keys. build_token_validator environ = Inr (Some c)
                    \<and> extract_bearer_token headers = Inr token
                    \<and> key_published lib w keys kid key
                    \<and> token_vouches lib c DEFAULT_LEEWAY now token kid key q)))"
proof (cases "fst (request_context validator tenancy Operator headers st)")
  case (Inl e)
  then show ?thesis
    using request_context_Inl [OF Inl] serve_refused [OF Inl, of env deps call] request_context_state [of validator tenancy Operator headers st]
    by auto
next
  case (Inr pt)
  obtain p t where pt: "pt = (p, t)" by (cases pt)
  have ctx: "fst (get_request_principal validator headers st) = Inr p"
    "resolve_tenant (case p of None \<Rightarrow> None | Some q \<Rightarrow> pr_tenant_id q) tenancy = Inr t"
    "\<forall>q. p = Some q \<longrightarrow> principal_grants q Operator"
    using request_context_Inr [of validator tenancy Operator headers st p t] Inr pt by auto
  obtain config where config: "build_token_validator environ = Inr config"
    and v: "validator = map_option (\<lambda>c. validate_token lib c (jwks_get_key lib w) DEFAULT_LEEWAY now) config"
    using assms(1) by (auto simp: get_auth_validator_def rbind_Inr_iff)
  show ?thesis
  proof (cases config)
    case None
    then have "p = None" using v ctx(1) by (simp add: get_request_principal_cases)
    moreover have "py_lower (env_value environ ''WP_AUTH_MODE'') = ''disabled''"
      using config None by (auto simp: build_token_validator_def resolve_auth_mode_def rbind_Inr_iff Let_def
          split: option.splits if_splits)
    ultimately show ?thesis using Inr pt ctx(2) by simp
  next
    case (Some c)
    then obtain token q where tok: "extract_bearer_token headers = Inr token" and p: "p = Some q"
      and ok: "fst (validate_token lib c (jwks_get_key lib w) DEFAULT_LEEWAY now token (ap_keys st)) = Inr q"
      using v ctx(1) by (auto simp: get_request_principal_cases split: sum.splits auth_exc.splits)
    have roles: "{Operator, Admin} \<inter> pr_roles q \<noteq> {}" using ctx(3) p operator_roles by auto
    from jwks.accepted_published [OF assms(2) ok] show ?thesis
      using Inr pt p ctx(2) tok config Some roles by auto
  qed
qed

definition demo_environ :: "(string, string) dict" where
  "demo_environ = [(''WP_AUTH_TENANT_ID'', ''t''), (''WP_AUTH_AUDIENCE'', '' api ''), (''WP_AUTH_ALLOWED_ISSUERS'', ''i, j'')]"

definition demo_headers :: headers where
  "demo_headers = (\<lambda>k. if k = ''authorization'' then Some ''Bearer AAAA.AQEB.Bw'' else None)"

definition demo_tenancy :: tenancy_config where
  "demo_tenancy = \<lparr>tcf_mode = TM_single, tcf_default_tenant_id = Some ''t'', tcf_allowed_tenants = [''t'']\<rparr>"

definition demo_validator :: "nat jwks_state validator" where
  "demo_validator = validate_token demo_lib \<lparr>ac_tenant_id = ''t'', ac_audience = ''api'', ac_allowed_issuers = [''i'', ''j''],
     ac_jwks_uri = jwks_template ''t''\<rparr> (jwks_get_key demo_lib demo_jwks) DEFAULT_LEEWAY 0"

theorem served_only_authorized_witness:
  "\<exists>q t. fst (request_context (Some demo_validator) demo_tenancy Operator demo_headers (api_start jwks_empty)) = Inr (Some q, t)
     \<and> pr_oid q = ''o1'' \<and> tc_tenant_id t = ''t'' \<and> {Operator, Admin} \<inter> pr_roles q \<noteq> {}"
proof -
  have "map_option (\<lambda>c. (ac_tenant_id c, ac_audience c, ac_allowed_issuers c, ac_jwks_uri c))
      (projr (build_token_validator demo_environ)) = Some (''t'', ''api'', [''i'', ''j''], jwks_template ''t'')"
    and "isl (build_token_validator demo_environ) = False" by code_simp+
  then have "build_token_validator demo_environ = Inr (Some \<lparr>ac_tenant_id = ''t'', ac_audience = ''api'',
      ac_allowed_issuers = [''i'', ''j''], ac_jwks_uri = jwks_template ''t''\<rparr>)"
    by (cases "build_token_validator demo_environ") auto
  then have v: "get_auth_validator demo_lib demo_jwks 0 demo_environ = Inr (Some demo_validator)"
    by (simp add: get_auth_validator_def demo_validator_def)
  have ok: "cache_ok demo_lib demo_jwks (ap_keys (api_start jwks_empty))"
    by (simp add: cache_ok_def api_start_def jwks_empty_def demo_jwks_def)
  have "map_sum id (\<lambda>(p, t). (map_option pr_oid p, tc_tenant_id t))
      (fst (request_context (Some demo_validator) demo_tenancy Operator demo_headers (api_start jwks_empty)))
    = Inr (Some ''o1'', ''t'')" by code_simp
  then obtain q t where qt: "fst (request_context (Some demo_validator) demo_tenancy Operator demo_headers (api_start jwks_empty)) = Inr (Some q, t)"
    "pr_oid q = ''o1''" "tc_tenant_id t = ''t''"
    by (cases "fst (request_context (Some demo_validator) demo_tenancy Operator demo_headers (api_start jwks_empty))") auto
  then show ?thesis
    using served_only_authorized [OF v ok, where tenancy = demo_tenancy and headers = demo_headers and env = local_env
        and deps = no_deps and call = "SnapshotCall ''w''"] by auto
qed

section \<open>Confinement to the tenant\<close>

text \<open>What operations on the tenant's keys and the audit log can reach.\<close>

inductive tenant_reach :: "(write_op \<Rightarrow> 's \<Rightarrow> write_outcome \<times> 's) \<Rightarrow> tenant_context \<Rightarrow> 's \<Rightarrow> 's \<Rightarrow> bool"
  for perform t where
  tr_refl: "tenant_reach perform t s s"
| tr_step: "tenant_reach perform t s u \<Longrightarrow> op_key op = None \<or> (\<exists>k \<in> tenant_keys t. op_key op = Some k) \<Longrightarrow>
    tenant_reach perform t s (snd (perform op u))"

lemma tenant_reach_trans:
  "tenant_reach perform t u v \<Longrightarrow> tenant_reach perform t s u \<Longrightarrow> tenant_reach perform t s v"
  by (induction rule: tenant_reach.induct) (auto intro: tr_step)

context state_store
begin

lemma reach_inv: "tenant_reach perform t s u \<Longrightarrow> store_inv s \<Longrightarrow> store_inv u"
  by (induction rule: tenant_reach.induct) (auto intro: inv_write)

lemma reach_frame:
  "tenant_reach perform t s u \<Longrightarrow> store_inv s \<Longrightarrow> k \<notin> tenant_keys t \<Longrightarrow> view u k = view s k"
proof (induction rule: tenant_reach.induct)
  case (tr_step s u op)
  then have "op_key op \<noteq> Some k" by auto
  then show ?case using tr_step frame reach_inv by metis
qed simp

end

definition confined :: "'s api_env \<Rightarrow> tenant_context \<Rightarrow> ('a, 's, 'p) handler \<Rightarrow> bool" where
  "confined env t m \<longleftrightarrow> (\<forall>st. tenant_reach (ax_perform env) t (ap_store st) (ap_store (snd (m st))))"

lemma confined_bind [intro!]: "confined env t m \<Longrightarrow> (\<And>x. confined env t (k x)) \<Longrightarrow> confined env t (hbind m k)"
  unfolding confined_def hbind_def
  by (auto split: sum.splits prod.splits) (metis snd_conv tenant_reach_trans)+

lemma confined_pure [intro!]:
  "confined env t (hreturn x)" "confined env t (hraise e)" "confined env t (hget g)" "confined env t (hlift r)"
  "confined env t (hguard b e)" "confined env t (registry_or_raise q)" "confined env t (require_provenance fs)"
  "confined env t (content_put px d bs)"
  by (auto simp: confined_def hreturn_def hraise_def hget_def hlift_def hguard_def registry_or_raise_def
      require_provenance_def content_put_def split: sum.splits intro: tr_refl)

lemma reach_one:
  "perform op s = (out, u) \<Longrightarrow> op_key op = None \<or> (\<exists>k \<in> tenant_keys t. op_key op = Some k) \<Longrightarrow> tenant_reach perform t s u"
  using tr_step [OF tr_refl, of op t perform s] by simp

lemma audit_emit_store:
  "tenant_reach (ax_perform env) t (ap_store st) (ap_store (snd (audit_emit env f st)))"
  by (auto simp: audit_emit_def emit_def store_sink_def on_persist_failure_def
      split: sum.splits prod.splits write_outcome.splits intro: tr_refl reach_one)

lemma confined_emit [intro!]: "confined env t (emit_or_fail_closed env f)" "confined env t (emit_quietly env f)"
proof -
  have "confined env t (emit_or_fail_closed env f) \<and> confined env t (emit_quietly env f)"
    unfolding confined_def
  proof (intro conjI allI)
    fix st
    obtain out st' where e: "audit_emit env f st = (out, st')" by (cases "audit_emit env f st")
    then have r: "tenant_reach (ax_perform env) t (ap_store st) (ap_store st')" using audit_emit_store [of env t st f] by simp
    show "tenant_reach (ax_perform env) t (ap_store st) (ap_store (snd (emit_or_fail_closed env f st)))"
      "tenant_reach (ax_perform env) t (ap_store st) (ap_store (snd (emit_quietly env f st)))"
      using e r by (cases out; simp add: emit_or_fail_closed_def emit_quietly_def)+
  qed
  then show "confined env t (emit_or_fail_closed env f)" "confined env t (emit_quietly env f)" by auto
qed

lemma confined_write [intro!]: "confined env t (scoped_write env t op)"
  using op_key_scope [of t op] unfolding confined_def scoped_write_def tenant_write_def
  by (auto simp: apfst_def map_prod_def split: prod.splits intro: reach_one)

lemma confined_emit_all [intro!]: "confined env t (emit_all env fs)"
  by (induction fs) (auto simp del: hget_bind)

lemma confined_finally [intro!]: "confined env t m \<Longrightarrow> confined env t f \<Longrightarrow> confined env t (hfinally m f)"
  unfolding confined_def hfinally_def
  by (auto split: sum.splits prod.splits) (metis snd_conv tenant_reach_trans)+

lemma confined_writes [intro!]:
  "confined env t (write_or_raise env t op)" "confined env t (write_findings_or_raise env t op)"
  by (auto simp: write_or_raise_def write_findings_or_raise_def split: write_outcome.splits state_exc.splits)

lemmas endpoint_defs = hmap_def api_put_estate_def api_put_graph_def api_add_findings_def api_snapshot_def
  api_submit_results_def audit_and_commit_def api_put_module_config_def api_import_pack_def admit_import_def
  require_trusted_def record_import_def api_put_pack_assignment_def api_run_module_def finish_run_def
  require_auditable_run_subject_def require_auditable_findings_subject_def emit_findings_persisted_def
  audit_run_executed_def Let_def

lemma handle_confined: "confined env t (handle env deps actor t call)"
  by (cases call)
     (auto simp: endpoint_defs split: write_outcome.splits state_exc.splits sum.splits option.splits)

lemma resolved_valid:
  assumes "build_tenancy_config cfg = Inr tenancy" and "resolve_tenant claim tenancy = Inr t"
  shows "valid_context t"
  using assms(1)
proof (cases rule: built_config_cases)
  case 1
  then show ?thesis
    using assms(2) by (auto simp: resolve_tenant_def valid_context_def split: option.splits if_splits)
next
  case 2
  then show ?thesis
    using assms(2) by (auto simp: resolve_tenant_def valid_context_def list_all_iff split: option.splits if_splits)
qed

fun serve_all ::
  "'s api_env \<Rightarrow> 'c api_deps \<Rightarrow> 'p validator option \<Rightarrow> tenancy_config \<Rightarrow> (headers \<times> api_call) list
     \<Rightarrow> ('s, 'p) api_state \<Rightarrow> ('s, 'p) api_state" where
  "serve_all env deps validator tenancy [] st = st"
| "serve_all env deps validator tenancy ((headers, call) # rs) st =
     serve_all env deps validator tenancy rs (snd (serve env deps validator tenancy headers call st))"

lemma serve_store:
  "ap_store (snd (serve env deps validator tenancy headers call st)) = ap_store st
   \<or> (\<exists>p t. fst (request_context validator tenancy Operator headers st) = Inr (p, t)
        \<and> tenant_reach (ax_perform env) t (ap_store st) (ap_store (snd (serve env deps validator tenancy headers call st))))"
proof (cases "request_context validator tenancy Operator headers st")
  case (Pair r st')
  have st': "ap_store st' = ap_store st"
    using request_context_state [of validator tenancy Operator headers st] Pair by auto
  show ?thesis
  proof (cases r)
    case (Inl e)
    then show ?thesis using Pair st' by (simp add: serve_def hbind_def)
  next
    case (Inr pt)
    obtain p t where pt: "pt = (p, t)" by (cases pt)
    have "serve env deps validator tenancy headers call st
        = handle env deps (request_actor (ax_unicode env) headers p) t call st'"
      using Pair Inr pt by (simp add: serve_def hbind_def)
    moreover have "tenant_reach (ax_perform env) t (ap_store st')
        (ap_store (snd (handle env deps (request_actor (ax_unicode env) headers p) t call st')))"
      using handle_confined unfolding confined_def by blast
    ultimately show ?thesis using Pair Inr pt st' by auto
  qed
qed

lemma serve_frame:
  assumes "local_inv sha ts (ap_store st)" and perform: "ax_perform env = local_write sha ts b"
    and "build_tenancy_config cfg = Inr tenancy" and "valid_context u"
    and others: "\<And>p t. fst (request_context validator tenancy Operator headers st) = Inr (p, t) \<Longrightarrow> tc_tenant_id t \<noteq> tc_tenant_id u"
    and st': "st' = snd (serve env deps validator tenancy headers call st)"
  shows "local_inv sha ts (ap_store st')
    \<and> (\<forall>k \<in> tenant_keys u. local_view (ap_store st') k = local_view (ap_store st) k)"
proof (rule disjE [OF serve_store [of env deps validator tenancy headers call st]])
  assume "ap_store (snd (serve env deps validator tenancy headers call st)) = ap_store st"
  then show ?thesis using assms(1) st' by simp
next
  assume "\<exists>p t. fst (request_context validator tenancy Operator headers st) = Inr (p, t)
        \<and> tenant_reach (ax_perform env) t (ap_store st) (ap_store (snd (serve env deps validator tenancy headers call st)))"
  then obtain p t where ctx: "fst (request_context validator tenancy Operator headers st) = Inr (p, t)"
    and reach: "tenant_reach (local_write sha ts b) t (ap_store st) (ap_store st')"
    using perform st' by auto
  have "valid_context t" using ctx resolved_valid [OF assms(3)] unfolding request_context_Inr by blast
  then have "tenant_keys t \<inter> tenant_keys u = {}"
    using tenant_keys_disjoint [OF _ assms(4) others [OF ctx]] by blast
  then show ?thesis
    using local_store.reach_inv [OF reach assms(1)] local_store.reach_frame [OF reach assms(1)] by blast
qed

text \<open>C7: No request reaches another tenant. Over any sequence of requests to a process on the local store,
  none of which is resolved to the tenant \<open>u\<close>, everything \<open>u\<close> reads of each of its workloads, its imported
  packs and its module settings stays as it was, whatever the requests carry.\<close>

theorem requests_stay_in_tenant:
  fixes st :: "(local_state, 'p) api_state"
  assumes "build_tenancy_config cfg = Inr tenancy" and "valid_context u"
    and "ax_perform env = local_write sha ts b" and "local_inv sha ts (ap_store st)"
    and "\<forall>(headers, _) \<in> set rs. \<forall>(s :: (local_state, 'p) api_state) p t.
      fst (request_context validator tenancy Operator headers s) = Inr (p, t) \<longrightarrow> tc_tenant_id t \<noteq> tc_tenant_id u"
  shows "let s = ap_store (serve_all env deps validator tenancy rs st) in
      local_view s (scoped_key u workload) = local_view (ap_store st) (scoped_key u workload)
    \<and> tenant_list_imports local_view u s = tenant_list_imports local_view u (ap_store st)
    \<and> tenant_disabled_modules local_view u s = tenant_disabled_modules local_view u (ap_store st)"
proof -
  have "\<forall>k \<in> tenant_keys u. local_view (ap_store (serve_all env deps validator tenancy rs st)) k = local_view (ap_store st) k"
    using assms(4,5)
  proof (induction rs arbitrary: st)
    case (Cons r rs)
    obtain h call where r: "r = (h, call)" by (cases r)
    have one: "local_inv sha ts (ap_store (snd (serve env deps validator tenancy h call st)))
      \<and> (\<forall>k \<in> tenant_keys u. local_view (ap_store (snd (serve env deps validator tenancy h call st))) k = local_view (ap_store st) k)"
      using Cons.prems(2) r by (intro serve_frame [OF Cons.prems(1) assms(3,1,2) _ refl]) auto
    then show ?case using Cons.IH [of "snd (serve env deps validator tenancy h call st)"] Cons.prems(2) r by auto
  qed simp
  then show ?thesis by (simp add: Let_def tenant_keys_def tenant_list_imports_def tenant_disabled_modules_def)
qed

definition msp_tenancy :: tenancy_config where
  "msp_tenancy = \<lparr>tcf_mode = TM_multi, tcf_default_tenant_id = None, tcf_allowed_tenants = [''a'', ''b'']\<rparr>"

definition tenant_a_validator :: "unit validator" where
  "tenant_a_validator token k = (Inr \<lparr>pr_oid = token, pr_roles = {Operator}, pr_tenant_id = Some ''a''\<rparr>, k)"

theorem requests_stay_in_tenant_witness:
  "tenant_disabled_modules local_view (ctx_of ''b'')
     (ap_store (serve_all local_env no_deps (Some tenant_a_validator) msp_tenancy
        [(demo_headers, EstateCall ''w'' []), (demo_headers, SnapshotCall ''w'')] (api_start ()))) = {}"
proof -
  have cfg: "build_tenancy_config (\<lambda>k. if k = ''WP_TENANCY_MODE'' then Some ''multi''
      else if k = ''WP_ALLOWED_TENANTS'' then Some ''a,b'' else None) = Inr msp_tenancy" by code_simp
  have u: "valid_context (ctx_of ''b'')"
    by (simp add: valid_context_def ctx_of_def is_tenant_id_safe_def TENANT_ID_MAX_LEN_def TENANT_ID_ALLOWED_def)
  have perf: "ax_perform local_env = local_write bytes_hex (\<lambda>_. []) (\<lambda>_. [])" by (simp add: local_env_def)
  have inv: "local_inv bytes_hex (\<lambda>_. []) (ap_store (api_start ()))" by (simp add: api_start_def empty_state_inv)
  have "tc_tenant_id t = ''a''"
    if "fst (request_context (Some tenant_a_validator) msp_tenancy Operator demo_headers s) = Inr (p, t)"
    for p t and s :: "(local_state, unit) api_state"
    using that unfolding request_context_Inr
    by (auto simp: get_request_principal_cases tenant_a_validator_def resolve_tenant_def msp_tenancy_def
        split: sum.splits if_splits)
  then have "\<forall>(h, _) \<in> set [(demo_headers, EstateCall ''w'' []), (demo_headers, SnapshotCall ''w'')].
      \<forall>s p t. fst (request_context (Some tenant_a_validator) msp_tenancy Operator h (s :: (local_state, unit) api_state)) = Inr (p, t)
        \<longrightarrow> tc_tenant_id t \<noteq> tc_tenant_id (ctx_of ''b'')"
    by (simp add: ctx_of_def)
  from requests_stay_in_tenant [OF cfg u perf inv this, of no_deps "[]"] show ?thesis
    by (simp add: Let_def api_start_def empty_state_def tenant_disabled_modules_def local_view_def get_module_config_def
        del: serve_all.simps)
qed

end
