(* ===== verification/Api_Packs.thy ===== *)
theory Api_Packs
  imports Api_Access
begin

text \<open>
  Packs through the API: an import is admitted under the trust of the runtime, and what was imported can be
  assigned. Both endpoints are followed over the local store.
\<close>

section \<open>The steps of an accepted request\<close>

lemma hbind_Inr:
  "hbind m k st = (Inr y, st') \<longleftrightarrow> (\<exists>x s. m st = (Inr x, s) \<and> k x s = (Inr y, st'))"
  by (auto simp: hbind_def split: prod.splits sum.splits)

lemma hguard_Inr: "hguard b e st = (Inr x, st') \<longleftrightarrow> b \<and> st' = st"
  by (auto simp: hguard_def hreturn_def hraise_def)

lemma hlift_Inr: "hlift r st = (Inr x, st') \<longleftrightarrow> r = Inr x \<and> st' = st"
  by (auto simp: hlift_def)

lemma registry_Inr: "registry_or_raise r st = (Inr x, st') \<longleftrightarrow> r = Inr x \<and> st' = st"
  by (auto simp: registry_or_raise_def hreturn_def hraise_def split: sum.splits)

lemma hreturn_Inr: "hreturn x st = (Inr y, st') \<longleftrightarrow> y = x \<and> st' = st"
  by (auto simp: hreturn_def)

lemma require_trusted_Inr:
  "require_trusted env px actor raw sig st = (Inr x, st') \<longleftrightarrow> px_trust px raw sig \<and> st' = st"
  by (auto simp: require_trusted_def hreturn_def hbind_def hraise_def split: prod.splits sum.splits)

lemmas accepted_steps = hbind_Inr hguard_Inr hlift_Inr registry_Inr hreturn_Inr require_trusted_Inr

text \<open>An event that was emitted has changed no view of the local store.\<close>

lemma emit_store_step:
  assumes "emit_or_fail_closed env f st = (r, st')"
  shows "ap_store st' = ap_store st \<or> (\<exists>e. ap_store st' = snd (ax_perform env (AppendAudit e) (ap_store st)))"
proof -
  have "store_sink env e s = (x, u) \<Longrightarrow> u = snd (ax_perform env (AppendAudit e) s)" for e s x u
    by (auto simp: store_sink_def split: prod.splits write_outcome.splits)
  then show ?thesis using assms
    by (auto simp: emit_or_fail_closed_def audit_emit_def emit_def
        split: sum.splits prod.splits emit_outcome.splits bool.splits if_splits) blast+
qed

lemma emit_views:
  assumes "ax_perform env = local_write sha ts b" and "local_inv sha ts (ap_store st)"
    and "emit_or_fail_closed env f st = (r, st')"
  shows "local_inv sha ts (ap_store st') \<and> (\<forall>k. local_view (ap_store st') k = local_view (ap_store st) k)
    \<and> ap_content st' = ap_content st"
proof -
  have "ap_store st' = ap_store st \<or> (\<exists>e. ap_store st' = snd (local_write sha ts b (AppendAudit e) (ap_store st)))"
    using emit_store_step [OF assms(3)] unfolding assms(1) .
  moreover have "ap_content st' = ap_content st"
    using assms(3) by (auto simp: emit_or_fail_closed_def audit_emit_def split: prod.splits emit_outcome.splits)
  ultimately show ?thesis
    using assms(2) local_store.inv_write [OF assms(2)] local_store.frame [OF assms(2)] by (metis op_key.simps(10) option.distinct(1))
qed

lemma find_import:
  assumes "local_inv sha ts s"
  shows "find (\<lambda>p. ip_packId p = i \<and> ip_version p = v) (list_imported_packs s k) = dict_get (ls_imported s) (k, i, v)"
proof -
  have wf: "dict_wf (ls_imported s)" "\<And>x p. (x, p) \<in> set (ls_imported s) \<Longrightarrow> (ip_scope p, ip_packId p, ip_version p) = x"
    using assms by (auto simp: local_inv_def rows_ok_def)
  have get: "dict_get (ls_imported s) (k, i, v) = Some p \<longleftrightarrow>
      p \<in> set (list_imported_packs s k) \<and> (ip_scope p, ip_packId p, ip_version p) = (k, i, v)" for p
    unfolding list_imported_packs_def by (rule listing_get [OF wf]) auto
  have scope: "p \<in> set (list_imported_packs s k) \<Longrightarrow> ip_scope p = k" for p
    using wf(2) by (force simp: list_imported_packs_def listing_set)
  show ?thesis
  proof (cases "find (\<lambda>p. ip_packId p = i \<and> ip_version p = v) (list_imported_packs s k)")
    case None
    then have "\<not> (\<exists>p. dict_get (ls_imported s) (k, i, v) = Some p)" unfolding get find_None_iff by auto
    then show ?thesis using None by simp
  next
    case (Some p)
    then have "p \<in> set (list_imported_packs s k)" "ip_packId p = i" "ip_version p = v" using find_SomeD [OF Some] by auto
    then have "dict_get (ls_imported s) (k, i, v) = Some p" unfolding get using scope by simp
    then show ?thesis using Some by simp
  qed
qed

text \<open>What an accepted import went through.\<close>

lemma import_accepted:
  assumes "api_import_pack env px actor t raw st = (Inr v, st')"
  obtains m sig digest bs reserved s1 s2 s3 s4 now p out where
    "import_envelope raw = Inr (m, sig)" "px_trust px raw sig"
    "is_audit_safe (ax_unicode env) (import_subject m)"
    "reserved_ids px = Inr reserved" "pm_id m \<notin> reserved"
    "import_identity px raw = Inr (digest, bs)"
    "emit_or_fail_closed env (import_fields actor m AA_pack_verify) st = (Inr (), s1)"
    "content_put px digest bs s1 = (Inr (), s2)"
    "scoped_write env t (TryRecordImported (import_candidate actor m sig digest now)) s2 = (Inr (Recorded p), s3)"
    "emit_or_fail_closed env (import_fields actor m AA_pack_import) s3 = (Inr (), st')"
    "v = \<lparr>pv_id = pm_id m, pv_version = pm_version m, pv_type = pm_type m, pv_digest = digest,
          pv_createdAt = px_isoformat px (ip_importedAt p), pv_signed = True\<rparr>"
proof -
  obtain m sig digest bs s2 where
    1: "import_envelope raw = Inr (m, sig)" "px_trust px raw sig"
    "is_audit_safe (ax_unicode env) (import_subject m)"
    "\<exists>reserved. reserved_ids px = Inr reserved \<and> pm_id m \<notin> reserved"
    "import_identity px raw = Inr (digest, bs)"
    "\<exists>s1. emit_or_fail_closed env (import_fields actor m AA_pack_verify) st = (Inr (), s1)
      \<and> content_put px digest bs s1 = (Inr (), s2)"
    "record_import env px actor t m sig digest s2 = (Inr v, st')"
    using assms unfolding api_import_pack_def admit_import_def
    by (auto simp: accepted_steps split: prod.splits)
  define now where "now = ax_now env (ap_ticks s2)"
  from 1(7) obtain out s3 where o: "scoped_write env t (TryRecordImported (import_candidate actor m sig digest now)) s2 = (Inr out, s3)"
    and rest: "(case out of
          Recorded imported \<Rightarrow>
            hbind (emit_or_fail_closed env (import_fields actor m AA_pack_import)) (\<lambda>_.
            hreturn \<lparr>pv_id = pm_id m, pv_version = pm_version m, pv_type = pm_type m,
              pv_digest = digest, pv_createdAt = px_isoformat px (ip_importedAt imported), pv_signed = True\<rparr>)
        | Failed ImportConflict \<Rightarrow>
            hraise (HTTPException 409 ''import rejected: immutable version conflict (fail closed)'')
        | _ \<Rightarrow> hraise Unhandled) s3 = (Inr v, st')"
    unfolding record_import_def hget_bind hbind_Inr now_def by blast
  from rest obtain p where p: "out = Recorded p"
    "emit_or_fail_closed env (import_fields actor m AA_pack_import) s3 = (Inr (), st')"
    "v = \<lparr>pv_id = pm_id m, pv_version = pm_version m, pv_type = pm_type m, pv_digest = digest,
          pv_createdAt = px_isoformat px (ip_importedAt p), pv_signed = True\<rparr>"
    by (cases out) (auto simp: accepted_steps hraise_def split: state_exc.splits)
  show ?thesis using that 1 o p by blast
qed

section \<open>From import to assignment\<close>

lemma content_put_Inr: "content_put px d bs st = (Inr u, st') \<Longrightarrow> ap_store st' = ap_store st \<and> px_put px d bs (ap_content st) = Inr (ap_content st')"
  by (auto simp: content_put_def split: sum.splits)

lemma record_fresh:
  assumes "ax_perform env = local_write sha ts b" and "local_inv sha ts (ap_store st)"
    and "dict_get (ls_imported (ap_store st)) (scoped_key t IMPORTS_SCOPE, ip_packId p, ip_version p) = None"
    and "scoped_write env t (TryRecordImported p) st = (Inr (Recorded q), st')"
  shows "q = p\<lparr>ip_scope := scoped_key t IMPORTS_SCOPE\<rparr> \<and> local_inv sha ts (ap_store st')
    \<and> dict_get (ls_imported (ap_store st')) (scoped_key t IMPORTS_SCOPE, ip_packId p, ip_version p) = Some q"
  using assms local_store.inv_write [OF assms(2), of b "TryRecordImported (p\<lparr>ip_scope := scoped_key t IMPORTS_SCOPE\<rparr>)"]
  by (auto simp: scoped_write_def tenant_write_def try_record_cases unscope_outcome_def)

lemma views_imports:
  assumes "local_inv sha ts s" "local_inv sha ts s'" and "\<forall>k. local_view s' k = local_view s k"
  shows "dict_get (ls_imported s') (k, i, v) = dict_get (ls_imported s) (k, i, v)"
proof -
  have "sv_imports (local_view s' k) = sv_imports (local_view s k)" using assms(3) by simp
  then have "list_imported_packs s' k = list_imported_packs s k" by (simp add: local_view_def)
  then show ?thesis using find_import [OF assms(1), of i v k] find_import [OF assms(2), of i v k] by simp
qed

lemma import_identity_Inr:
  "import_identity px raw = Inr (d, bs) \<longleftrightarrow>
     canonical_bytes (el_float_repr (px_lib px)) raw = Inr bs \<and> d = el_sha256 (px_lib px) bs"
  by (auto simp: import_identity_def split: sum.splits)


definition demo_signature :: pack_signature where
  "demo_signature = \<lparr>ps_algorithm = ''ed25519'', ps_signature = ''AAAA'', ps_key_id = ''k'', ps_canonical_digest = ''d''\<rparr>"

definition demo_pack :: raw_dict where
  "demo_pack = [(VStr ''manifest'', VDict [(VStr ''id'', VStr ''p''), (VStr ''type'', VStr ''rule''), (VStr ''name'', VStr ''n''),
     (VStr ''version'', VStr ''1.0.0''), (VStr ''pack_signature'', VDict (signature_raw demo_signature))])]"

definition demo_loads :: "string \<Rightarrow> py_exc + pyval" where
  "demo_loads s = Inr (VDict (signature_raw demo_signature))"

definition plain_env :: "local_state api_env" where
  "plain_env = local_env\<lparr>ax_perform := local_write (\<lambda>_. ''h'') (\<lambda>_. []) (\<lambda>_. [])\<rparr>"

definition demo_packs :: "(string, unit) dict \<Rightarrow> pack_env" where
  "demo_packs keys = \<lparr>px_lib = sample_lib\<lparr>el_sha256 := \<lambda>_. ''d'', el_json_loads := demo_loads\<rparr>, px_engine = None,
     px_lookup = (\<lambda>_. Inr None), px_list = Inr [],
     px_trust = bundle_verify_pack (\<lambda>_. ''d'') (\<lambda>_. []) (\<lambda>_ _ _. True) keys, px_key_ids = map fst keys,
     px_put = (\<lambda>d bs c. Inr (dict_set d bs c)), px_isoformat = show_int\<rparr>"

lemma demo_import:
  "fst (api_import_pack plain_env (demo_packs [(''k'', ())]) ''u'' (ctx_of ''t'') demo_pack (api_start ()))
   = Inr \<lparr>pv_id = ''p'', pv_version = ''1.0.0'', pv_type = PT_rule, pv_digest = ''d'', pv_createdAt = ''1'', pv_signed = True\<rparr>"
  by code_simp

lemma demo_envelope: "import_envelope demo_pack = Inr (m, sig) \<longleftrightarrow> sig = demo_signature \<and> map_sum id fst (import_envelope demo_pack) = Inr m"
proof -
  have "map_sum id snd (import_envelope demo_pack) = Inr demo_signature" by code_simp
  then show ?thesis by (cases "import_envelope demo_pack") auto
qed


section \<open>Two imports the documentation excludes\<close>

text \<open>An import of the tenant \<open>t\<close>, as it is stored.\<close>

definition stored_import :: "string \<Rightarrow> string \<Rightarrow> string \<Rightarrow> imported_pack" where
  "stored_import pack_id version key =
     \<lparr>ip_scope = scoped_key (ctx_of ''t'') IMPORTS_SCOPE, ip_packId = pack_id, ip_version = version, ip_packType = PT_rule,
      ip_digest = ''d'', ip_signature = Some ''{}'', ip_keyId = Some key, ip_importedBy = ''u'', ip_importedAt = 0\<rparr>"

definition with_imports :: "imported_pack list \<Rightarrow> local_state" where
  "with_imports ps = empty_state\<lparr>ls_imported := map (\<lambda>p. ((ip_scope p, ip_packId p, ip_version p), p)) ps\<rparr>"

text \<open>After the rotation of a key the same content, signed again with the new key, is answered with success
  but the stored record keeps the old signature: the version cannot be assigned.\<close>

lemma rotated_key_not_assignable:
  "local_write (\<lambda>_. ''h'') (\<lambda>_. []) (\<lambda>_. []) (TryRecordImported (stored_import ''p'' ''1.0.0'' ''k2''))
     (with_imports [stored_import ''p'' ''1.0.0'' ''k''])
   = (Recorded (stored_import ''p'' ''1.0.0'' ''k''), with_imports [stored_import ''p'' ''1.0.0'' ''k''])"
  "assignable (demo_packs [(''k2'', ())]) (Some (imported_pack_to_entry (stored_import ''p'' ''1.0.0'' ''k'')))
   = Inl (assignment_rejected ''pack version's signing key is not trusted (fail closed)'')"
  by code_simp+

text \<open>The version of an import is not parsed: a manifest with a version that is no semantic version passes, and
  two imports, one of them of such a version, make every listing of the catalogue raise.\<close>

definition second_pack :: "string \<Rightarrow> raw_dict" where
  "second_pack version = [(VStr ''manifest'', VDict [(VStr ''id'', VStr ''q''), (VStr ''type'', VStr ''rule''), (VStr ''name'', VStr ''n''),
     (VStr ''version'', VStr version), (VStr ''pack_signature'', VDict (signature_raw demo_signature))])]"

lemma unparsed_version_breaks_catalogue:
  "\<not> isl (import_envelope (second_pack ''latest''))"
  "fst (api_list_packs plain_env (demo_packs [(''k'', ())]) (ctx_of ''t'')
      ((api_start ())\<lparr>ap_store := with_imports [stored_import ''p'' ''1.0.0'' ''k'', stored_import ''q'' ''latest'' ''k'']\<rparr>))
   = Inl Unhandled"
  by code_simp+

end
