(* ===== verification/Api_Reads.thy ===== *)
theory Api_Reads
  imports Api_Packs Drift Graph_Revision Blast_Radius
begin

text \<open>
  The reads of the control plane, \<open>api/app/main.py\<close>: the read models of a workload, with the tags of
  resources redacted on the way out, and the impact of a failure.
\<close>

section \<open>Read endpoints\<close>

text \<open>\<open>_EstateEgress.redact\<close>.\<close>

definition redact_nodes :: "resource_node list \<Rightarrow> resource_node list" where
  "redact_nodes nodes = map redact_node_tags nodes"

definition api_list_workloads :: "'s api_env \<Rightarrow> tenant_context \<Rightarrow> (string list, 's, 'p) handler" where
  "api_list_workloads env t = hget (\<lambda>st. tenant_list_workloads (ax_workloads env) t (ap_store st))"

definition api_get_estate :: "'s api_env \<Rightarrow> tenant_context \<Rightarrow> string \<Rightarrow> (resource_node list, 's, 'p) handler" where
  "api_get_estate env t workload = hget (\<lambda>st. redact_nodes (sv_estate (tenant_view env t (ap_store st) workload)))"

record graph_response =
  gr_nodes :: "resource_node list"
  gr_edges :: "dependency_edge list"
  gr_revision :: string

definition no_graph :: api_error where
  "no_graph = HTTPException 404 ''no dependency graph for workload''"

definition api_get_graph :: "'s api_env \<Rightarrow> tenant_context \<Rightarrow> string \<Rightarrow> (graph_response, 's, 'p) handler" where
  "api_get_graph env t workload =
     hbind (hget (\<lambda>st. sv_graph (tenant_view env t (ap_store st) workload))) (\<lambda>found.
       (case found of
          None \<Rightarrow> hraise no_graph
        | Some g \<Rightarrow> hreturn \<lparr>gr_nodes = redact_nodes (wg_nodes g), gr_edges = wg_edges g,
                             gr_revision = graph_revision (ax_sha256 env) g\<rparr>))"

record impact_result =
  im_failedNode :: string
  im_states :: health_map
  im_blastRadius :: nat
  im_down :: "string list"
  im_degraded :: "string list"
  im_revision :: string

definition impact_result_of :: "(nat list \<Rightarrow> string) \<Rightarrow> workload_graph \<Rightarrow> string \<Rightarrow> impact_result" where
  "impact_result_of sha256 g node =
     (let states = compute_impact g node;
          down = sort (map fst (filter (\<lambda>(nid, h). h = HS_down \<and> nid \<noteq> node) states));
          degraded = sort (map fst (filter (\<lambda>(nid, h). h = HS_degraded) states))
      in \<lparr>im_failedNode = node, im_states = states, im_blastRadius = length down, im_down = down,
          im_degraded = degraded, im_revision = graph_revision sha256 g\<rparr>)"

definition api_get_impact :: "'s api_env \<Rightarrow> tenant_context \<Rightarrow> string \<Rightarrow> string \<Rightarrow> (impact_result, 's, 'p) handler" where
  "api_get_impact env t workload node =
     hbind (hget (\<lambda>st. sv_graph (tenant_view env t (ap_store st) workload))) (\<lambda>found.
       (case found of
          None \<Rightarrow> hraise no_graph
        | Some g \<Rightarrow>
            hbind (hguard (node \<in> rn_id ` set (wg_nodes g)) (HTTPException 404 ''node not in dependency graph'')) (\<lambda>_.
              hreturn (impact_result_of (ax_sha256 env) g node))))"

text \<open>A stored finding that no longer validates raises out of the handler.\<close>

definition findings_or_raise :: "finding_error + 'a \<Rightarrow> ('a, 's, 'p) handler" where
  "findings_or_raise r = (case r of Inl _ \<Rightarrow> hraise Unhandled | Inr x \<Rightarrow> hreturn x)"

definition api_get_findings ::
  "'s api_env \<Rightarrow> tenant_context \<Rightarrow> string \<Rightarrow> string option \<Rightarrow> (finding list, 's, 'p) handler" where
  "api_get_findings env t workload md =
     hbind (hget (\<lambda>st. ax_findings env (ap_store st) (scoped_key t workload) md)) findings_or_raise"

definition api_get_rca_explanations :: "'s api_env \<Rightarrow> tenant_context \<Rightarrow> string \<Rightarrow> (rca_advisory list, 's, 'p) handler" where
  "api_get_rca_explanations env t workload = hget (\<lambda>st. sv_advisories (tenant_view env t (ap_store st) workload))"

definition api_get_previous_findings :: "'s api_env \<Rightarrow> tenant_context \<Rightarrow> string \<Rightarrow> (finding list, 's, 'p) handler" where
  "api_get_previous_findings env t workload =
     hbind (hget (\<lambda>st. sv_previous_findings (tenant_view env t (ap_store st) workload))) findings_or_raise"

definition api_get_previous_node_ids :: "'s api_env \<Rightarrow> tenant_context \<Rightarrow> string \<Rightarrow> (string list, 's, 'p) handler" where
  "api_get_previous_node_ids env t workload = hget (\<lambda>st. sv_previous_nodes (tenant_view env t (ap_store st) workload))"

definition api_get_drift :: "'s api_env \<Rightarrow> tenant_context \<Rightarrow> string \<Rightarrow> (drift_report, 's, 'p) handler" where
  "api_get_drift env t workload =
     hbind (hget (\<lambda>st. drift_for_workload (tenant_reader env t (ap_store st)) workload)) findings_or_raise"

definition api_get_pack_assignments :: "'s api_env \<Rightarrow> tenant_context \<Rightarrow> string \<Rightarrow> (pack_assignment list, 's, 'p) handler" where
  "api_get_pack_assignments env t workload = hget (\<lambda>st. tenant_get_assignments (ax_view env) t (ap_store st) workload)"

definition api_list_pack_assignments :: "'s api_env \<Rightarrow> tenant_context \<Rightarrow> (pack_assignment list, 's, 'p) handler" where
  "api_list_pack_assignments env t = hget (\<lambda>st. tenant_list_assignments (ax_assignments env) t (ap_store st))"

definition api_list_modules ::
  "'s api_env \<Rightarrow> 'c module_registry \<Rightarrow> tenant_context \<Rightarrow> (module_manifest list, 's, 'p) handler" where
  "api_list_modules env reg t =
     hget (\<lambda>st. project_modules (tenant_disabled_modules (ax_view env) t (ap_store st)) (registry_manifests reg))"

definition api_get_module_config :: "'s api_env \<Rightarrow> tenant_context \<Rightarrow> (string list, 's, 'p) handler" where
  "api_get_module_config env t =
     hget (\<lambda>st. sorted_list_of_set (tenant_disabled_modules (ax_view env) t (ap_store st)))"

section \<open>The impact of a failure\<close>

lemma sort_selected:
  assumes "dict_wf d"
  shows "sort (map fst (filter (\<lambda>(k, h). P k h) d)) = sorted_list_of_set {k. \<exists>h. dict_get d k = Some h \<and> P k h}"
proof (rule sorted_distinct_set_unique)
  have "distinct (map fst (filter (\<lambda>(k, h). P k h) d))" using assms by (induction d) auto
  then show "distinct (sort (map fst (filter (\<lambda>(k, h). P k h) d)))" by simp
  have "set (map fst (filter (\<lambda>(k, h). P k h) d)) = {k. \<exists>h. dict_get d k = Some h \<and> P k h}"
    using dict_get_mem [OF assms] by force
  then show "set (sort (map fst (filter (\<lambda>(k, h). P k h) d)))
      = set (sorted_list_of_set {k. \<exists>h. dict_get d k = Some h \<and> P k h})"
    by (metis List.finite_set set_sort set_sorted_list_of_set)
qed (rule sorted_sort, rule sorted_sorted_list_of_set, rule distinct_sorted_list_of_set)

text \<open>What the endpoint answers, by the rules of the impact.\<close>

definition impact_answer :: "(nat list \<Rightarrow> string) \<Rightarrow> workload_graph \<Rightarrow> string \<Rightarrow> impact_result \<Rightarrow> bool" where
  "impact_answer sha256 g node r \<longleftrightarrow>
     im_failedNode r = node
     \<and> dict_get (im_states r) = impact_spec g node
     \<and> im_down r = sorted_list_of_set {n. n \<noteq> node \<and> goes_down (wg_edges g) node n}
     \<and> im_degraded r = sorted_list_of_set {n. n \<in> rn_id ` set (wg_nodes g)
          \<and> \<not> goes_down (wg_edges g) node n \<and> degrades (wg_edges g) node n}
     \<and> im_blastRadius r = blast_radius g node
     \<and> im_revision r = graph_revision sha256 g"

lemma impact_result_answer: "impact_answer sha256 g node (impact_result_of sha256 g node)"
proof -
  have wf: "dict_wf (compute_impact g node)" using compute_impact_spec by blast
  have get: "dict_get (compute_impact g node) n = impact_spec g node n" for n using compute_impact_spec by blast
  have down: "{k. \<exists>h. dict_get (compute_impact g node) k = Some h \<and> h = HS_down \<and> k \<noteq> node}
      = {n. n \<noteq> node \<and> goes_down (wg_edges g) node n}"
    by (auto simp: get impact_spec_def split: if_splits)
  have deg: "{k. \<exists>h. dict_get (compute_impact g node) k = Some h \<and> h = HS_degraded}
      = {n. n \<in> rn_id ` set (wg_nodes g) \<and> \<not> goes_down (wg_edges g) node n \<and> degrades (wg_edges g) node n}"
    by (auto simp: get impact_spec_def split: if_splits)
  have "sort (map fst (filter (\<lambda>(k, h). h = HS_down \<and> k \<noteq> node) (compute_impact g node)))
      = sorted_list_of_set {n. n \<noteq> node \<and> goes_down (wg_edges g) node n}"
    unfolding down [symmetric] by (rule sort_selected [OF wf])
  moreover have "sort (map fst (filter (\<lambda>(k, h). h = HS_degraded) (compute_impact g node)))
      = sorted_list_of_set {n. n \<in> rn_id ` set (wg_nodes g) \<and> \<not> goes_down (wg_edges g) node n \<and> degrades (wg_edges g) node n}"
    unfolding deg [symmetric] by (rule sort_selected [OF wf])
  moreover have "dict_get (compute_impact g node) = impact_spec g node" using get by (simp add: fun_eq_iff)
  ultimately show ?thesis by (simp add: impact_answer_def impact_result_of_def Let_def blast_radius_def)
qed

section \<open>Property\<close>

text \<open>A graph that was accepted reads back, and its impact is exact. After a successful replacement of the
  graph of a workload over the local store, reading it gives its edges, its nodes with redacted tags and
  the revision of the full topology; the impact of a node of the graph is answered with the same revision
  and with exactly the nodes that go down and that degrade by the rules, and the impact of any other node
  is refused.\<close>

theorem graph_read_and_impact_exact:
  assumes "ax_perform env = local_write sha ts b" and "ax_view env = local_view"
    and "local_inv sha ts (ap_store st)"
    and "api_put_graph env actor t workload g st = (Inr n, st')"
  shows "fst (api_get_graph env t workload st')
      = Inr \<lparr>gr_nodes = map redact_node_tags (wg_nodes g), gr_edges = wg_edges g, gr_revision = graph_revision (ax_sha256 env) g\<rparr>
    \<and> (case fst (api_get_impact env t workload node st') of
         Inr r \<Rightarrow> node \<in> rn_id ` set (wg_nodes g) \<and> impact_answer (ax_sha256 env) g node r
       | Inl e \<Rightarrow> node \<notin> rn_id ` set (wg_nodes g) \<and> e = HTTPException 404 ''node not in dependency graph'')"
proof -
  obtain s1 out where s1: "emit_or_fail_closed env (state_fields actor AA_run_executed
      (graph_replaced_subject (ax_sha256 env) workload (length (wg_nodes g)) (length (wg_edges g))) AR_success) st = (Inr (), s1)"
    "write_or_raise env t (PutGraph workload g) s1 = (Inr out, st')"
    using assms(4) by (auto simp: api_put_graph_def accepted_steps)
  have "sv_graph (local_view (ap_store st') (scoped_key t workload)) = Some g"
    using s1(2) by (auto simp: write_or_raise_def accepted_steps scoped_write_def tenant_write_def assms(1)
        put_graph_def transaction_def write_graph_def local_view_def hraise_def unscope_outcome_def split: write_outcome.splits)
  then have g: "sv_graph (tenant_view env t (ap_store st') workload) = Some g" by (simp add: tenant_view_def assms(2))
  have pure: "hbind (hreturn x) k = k x" "hbind (hraise e) k = hraise e"
    for x e and k :: "unit \<Rightarrow> (impact_result, local_state, 'a) handler"
    by (auto simp: hbind_def hreturn_def hraise_def)
  have "fst (api_get_impact env t workload node st') =
      (if node \<in> rn_id ` set (wg_nodes g) then Inr (impact_result_of (ax_sha256 env) g node)
       else Inl (HTTPException 404 ''node not in dependency graph''))"
    by (simp add: api_get_impact_def g hguard_def pure) (simp add: hreturn_def hraise_def)
  then show ?thesis
    by (simp add: api_get_graph_def g hreturn_def redact_nodes_def impact_result_answer)
qed

definition pair_graph :: workload_graph where
  "pair_graph = \<lparr>wg_nodes = [\<lparr>rn_id = ''a'', rn_name = ''a'', rn_type = [], rn_workload = None,
      rn_tier = None, rn_role = None, rn_tags = [(''k'', ''v'')]\<rparr>], wg_edges = []\<rparr>"

theorem graph_read_and_impact_exact_witness:
  "\<exists>r. fst (api_get_impact plain_env (ctx_of ''t'') ''w'' ''a''
      (snd (api_put_graph plain_env ''u'' (ctx_of ''t'') ''w'' pair_graph (api_start ())))) = Inr r
    \<and> impact_answer (ax_sha256 plain_env) pair_graph ''a'' r"
proof -
  have "fst (api_put_graph plain_env ''u'' (ctx_of ''t'') ''w'' pair_graph (api_start ())) = Inr (1, 0)" by code_simp
  then have s: "api_put_graph plain_env ''u'' (ctx_of ''t'') ''w'' pair_graph (api_start ())
      = (Inr (1, 0), snd (api_put_graph plain_env ''u'' (ctx_of ''t'') ''w'' pair_graph (api_start ())))"
    by (simp add: prod_eq_iff)
  have env: "ax_perform plain_env = local_write (\<lambda>_. ''h'') (\<lambda>_. []) (\<lambda>_. [])" "ax_view plain_env = local_view"
    by (simp_all add: plain_env_def local_env_def)
  have inv: "local_inv (\<lambda>_. ''h'') (\<lambda>_. []) (ap_store (api_start ()))" by (simp add: api_start_def empty_state_inv)
  have m: "''a'' \<in> rn_id ` set (wg_nodes pair_graph)" by (simp add: pair_graph_def)
  show ?thesis using graph_read_and_impact_exact [OF env inv s, of "''a''"] m by (auto split: sum.splits)
qed

end
