(* ===== verification/Float_Bounds.thy ===== *)
theory Float_Bounds
  imports Py_Float
begin

text \<open>
  How far a rounded result is from the exact one. A ratio of two small counts, and the constants and sums
  the modules compute a confidence from, are floats: within the normal range the rounded value differs
  from the exact one by at most one part in \<open>2 ^ 53\<close>.
\<close>

section \<open>The exponent of the last place\<close>

lemma two_powi_powi: "two_powi e = 2 powi e"
  by (simp add: two_powi_def power_int_def power_one_over inverse_eq_divide)

lemma int_bits_pos: "0 < i \<Longrightarrow> 1 \<le> int_bits i"
proof (induction i rule: int_bits.induct)
  case (1 i)
  have "0 \<le> int_bits (i div 2)"
    using 1 by (cases "i div 2 \<le> 0") (auto simp: int_bits.simps [of 0] int_bits.simps [of "i div 2"])
  then show ?case using 1 by (simp add: int_bits.simps [of i])
qed

lemma int_bits_bounds: "0 < i \<Longrightarrow> 2 ^ nat (int_bits i - 1) \<le> i \<and> i < 2 ^ nat (int_bits i)"
proof (induction i rule: int_bits.induct)
  case (1 i)
  show ?case
  proof (cases "i = 1")
    case True
    have "int_bits 1 = 1" by (simp add: int_bits.simps)
    with True show ?thesis by simp
  next
    case False
    define j where "j = i div 2"
    have j: "0 < j" and i: "2 * j \<le> i" "i < 2 * j + 2" using 1(2) False by (auto simp: j_def)
    have b: "int_bits i = 1 + int_bits j" using 1(2) by (simp add: int_bits.simps [of i] j_def)
    have ih: "2 ^ nat (int_bits j - 1) \<le> j \<and> j < 2 ^ nat (int_bits j)" using 1 j by (simp add: j_def)
    define n where "n = nat (int_bits j - 1)"
    have bj: "nat (int_bits j) = Suc n" and bi: "nat (int_bits i - 1) = Suc n" "nat (int_bits i) = Suc (Suc n)"
      using int_bits_pos [OF j] b by (auto simp: n_def nat_eq_iff)
    from ih have "2 ^ n \<le> j" "j < 2 ^ Suc n" unfolding bj n_def [symmetric] by auto
    then have "2 ^ Suc n \<le> i" "i < 2 ^ Suc (Suc n)" using i by auto
    then show ?thesis unfolding bi by blast
  qed
qed

lemma int_bits_rat:
  assumes "0 < i"
  shows "2 powi (int_bits i - 1) \<le> (of_int i :: rat)" "(of_int i :: rat) < 2 powi int_bits i"
proof -
  have b: "1 \<le> int_bits i" using int_bits_pos assms .
  have "(of_int (2 ^ nat (int_bits i - 1)) :: rat) \<le> of_int i" "(of_int i :: rat) < of_int (2 ^ nat (int_bits i))"
    using int_bits_bounds [OF assms] by (simp_all only: of_int_le_iff of_int_less_iff)
  then show "2 powi (int_bits i - 1) \<le> (of_int i :: rat)" "(of_int i :: rat) < 2 powi int_bits i"
    using b by (simp_all add: power_int_def)
qed

text \<open>The significand of a positive rational has at most 53 bits, and exactly 53 in the normal range.\<close>

lemma ulp_exponent_bounds:
  assumes "0 < x"
  shows "x / 2 powi ulp_exponent x < 2 ^ 53"
    and "ulp_exponent x = -1074 \<or> 2 ^ 52 \<le> x / 2 powi ulp_exponent x"
proof -
  obtain p q where pq: "quotient_of x = (p, q)" by fastforce
  have x: "x = of_int p / of_int q" and q: "0 < q"
    using pq by (auto simp: quotient_of_div quotient_of_denom_pos)
  have p: "0 < p" using assms q by (auto simp: x zero_less_divide_iff)
  define k where "k = int_bits p - int_bits q - 53"
  define y where "y = x / 2 powi k"
  have lo: "2 powi (int_bits p - 1) / 2 powi int_bits q < x"
    unfolding x using int_bits_rat [OF p] int_bits_rat [OF q] q
    by (intro frac_less2) auto
  have "x < 2 powi int_bits p / 2 powi (int_bits q - 1)"
    unfolding x using int_bits_rat [OF p] int_bits_rat [OF q] q p
    by (intro frac_less) auto
  then have hi: "x < 2 powi (int_bits p - int_bits q + 1)"
    by (simp add: algebra_simps flip: power_int_diff)
  have lo': "2 powi (int_bits p - int_bits q - 1) < x"
    using lo by (simp add: power_int_diff)
  have y1: "2 ^ 52 < y"
  proof -
    have "(2 :: rat) powi (int_bits p - int_bits q - 1) = 2 powi (52 + k)" by (simp add: k_def)
    also have "\<dots> = 2 ^ 52 * 2 powi k" by (subst power_int_add) simp_all
    finally show ?thesis using lo' by (simp add: y_def field_simps)
  qed
  have y2: "y < 2 ^ 54"
  proof -
    have "(2 :: rat) powi (int_bits p - int_bits q + 1) = 2 powi (54 + k)"
      by (rule arg_cong [where f = "power_int 2"]) (simp add: k_def)
    also have "\<dots> = 2 ^ 54 * 2 powi k" by (subst power_int_add) simp_all
    finally show ?thesis using hi by (simp add: y_def field_simps)
  qed
  define e0 where "e0 = (if y \<ge> 2 ^ 53 then k + 1 else k)"
  have "ulp_exponent x = max (-1074) e0"
    by (simp add: ulp_exponent_def pq Let_def e0_def y_def k_def two_powi_powi)
  moreover have e0: "x / 2 powi e0 < 2 ^ 53" "2 ^ 52 \<le> x / 2 powi e0"
    using y1 y2 by (auto simp: e0_def y_def power_int_add field_simps)
  moreover have "x / 2 powi (-1074) < 2 ^ 53" if "e0 < -1074"
  proof -
    have "(2 :: rat) powi e0 \<le> 2 powi (-1074)" using that by (intro power_int_increasing) auto
    then have "x / 2 powi (-1074) \<le> x / 2 powi e0"
      using assms by (intro divide_left_mono) (auto simp: zero_less_power_int)
    then show ?thesis using e0(1) by linarith
  qed
  ultimately show "x / 2 powi ulp_exponent x < 2 ^ 53"
    and "ulp_exponent x = -1074 \<or> 2 ^ 52 \<le> x / 2 powi ulp_exponent x"
    by (auto simp: max_def)
qed

section \<open>The error of rounding\<close>

lemma round_half_even_error: "\<bar>of_int (round_half_even y) - y\<bar> \<le> 1 / 2"
  using floor_correct [of y] by (auto simp: round_half_even_def Let_def abs_le_iff)

lemma round_pos_error:
  assumes "2 powi (-1022) \<le> x"
  shows "\<bar>round_pos x - x\<bar> \<le> x / 2 ^ 53"
proof -
  define e where "e = ulp_exponent x"
  have u: "(0 :: rat) < 2 powi e" by simp
  have pos: "0 < x" using assms zero_less_power_int [of "2 :: rat" "-1022"] by linarith
  have "2 ^ 52 \<le> x / 2 powi e"
  proof (cases "e = -1074")
    case True
    have "(2 :: rat) ^ 52 = 2 powi (-1022) / 2 powi (-1074)" by (simp add: flip: power_int_diff)
    also have "\<dots> \<le> x / 2 powi (-1074)" using assms by (intro divide_right_mono) auto
    finally show ?thesis by (simp add: True)
  next
    case False
    then show ?thesis using ulp_exponent_bounds(2) [OF pos] by (simp add: e_def)
  qed
  then have ux: "2 powi e * 2 ^ 52 \<le> x" using u by (simp add: field_simps)
  have "round_pos x - x = (of_int (round_half_even (x / 2 powi e)) - x / 2 powi e) * 2 powi e"
    using u by (simp add: round_pos_def Let_def e_def two_powi_powi left_diff_distrib)
  then have "\<bar>round_pos x - x\<bar> = \<bar>of_int (round_half_even (x / 2 powi e)) - x / 2 powi e\<bar> * 2 powi e"
    using u by (simp add: abs_mult)
  also have "\<dots> \<le> 1 / 2 * 2 powi e" using u by (intro mult_right_mono round_half_even_error) auto
  also have "\<dots> \<le> x / 2 ^ 53" using ux by (simp add: field_simps)
  finally show ?thesis .
qed

section \<open>The value of a rounded result\<close>

text \<open>The exact value of the float nearest to a rational that is not negative and not too large.\<close>

definition float_rat :: "rat \<Rightarrow> rat" where
  "float_rat x = float_val (float_of_rat False x)"

lemma float_rat_0 [simp]: "float_rat 0 = 0"
  by (simp add: float_rat_def float_of_rat_def)

lemma float_rat_1 [simp]: "float_rat 1 = 1"
  by code_simp

text \<open>The range of the quantities the modules compute; it is far inside the normal range.\<close>

definition moderate :: "rat \<Rightarrow> bool" where
  "moderate x \<longleftrightarrow> 1 / 2 ^ 64 \<le> x \<and> x \<le> 2 ^ 64"

lemma float_rat_error:
  assumes "moderate x"
  shows "\<bar>float_rat x - x\<bar> \<le> x / 2 ^ 53"
proof -
  have x: "1 / 2 ^ 64 \<le> x" "x \<le> 2 ^ 64" using assms by (auto simp: moderate_def)
  have pos: "0 < x" using x(1) by (rule less_le_trans [rotated]) simp
  have "(2 :: rat) powi (-1022) \<le> 2 powi (-64)" by (intro power_int_increasing) auto
  also have "\<dots> = 1 / 2 ^ 64" by (simp add: power_int_minus inverse_eq_divide)
  finally have err: "\<bar>round_pos x - x\<bar> \<le> x / 2 ^ 53" using x(1) by (intro round_pos_error) linarith
  then have "round_pos x - x \<le> x / 2 ^ 53" by linarith
  also have "x / 2 ^ 53 \<le> x" using pos by (simp add: field_simps)
  finally have "round_pos x \<le> 2 * x" by linarith
  then have "round_pos x \<le> 2 ^ 65" using x(2) by simp
  also have "(2 :: rat) ^ 65 < 2 ^ 1024" by (rule power_strict_increasing) auto
  finally have "\<not> round_pos x \<ge> FLOAT_LIMIT" by (simp add: FLOAT_LIMIT_def)
  then have "float_rat x = round_pos x" using pos by (simp add: float_rat_def float_of_rat_def Let_def)
  then show ?thesis using err by simp
qed

lemma float_rat_bounds:
  assumes "moderate x"
  shows "x * (1 - 1 / 2 ^ 53) \<le> float_rat x" "float_rat x \<le> x * (1 + 1 / 2 ^ 53)"
  using float_rat_error [OF assms] by (simp_all only: abs_le_iff) (simp_all add: algebra_simps)

text \<open>A proper ratio of counts below \<open>2 ^ 52\<close> is not rounded up to one.\<close>

lemma ratio_moderate: "0 < k \<Longrightarrow> k \<le> n \<Longrightarrow> n \<le> 2 ^ 52 \<Longrightarrow> moderate (of_nat k / of_nat n)"
proof -
  assume k: "0 < k" "k \<le> n" and n: "n \<le> 2 ^ 52"
  have n': "(of_nat n :: rat) \<le> 2 ^ 52" using n by (metis of_nat_le_iff of_nat_numeral of_nat_power)
  have "1 / 2 ^ 64 \<le> 1 / (of_nat n :: rat)" using n' k by (intro divide_left_mono) auto
  also have "\<dots> \<le> of_nat k / of_nat n" using k by (intro divide_right_mono) auto
  finally have lo: "1 / 2 ^ 64 \<le> (of_nat k / of_nat n :: rat)" .
  have "(of_nat k / of_nat n :: rat) \<le> 1" using k by simp
  then have "(of_nat k / of_nat n :: rat) \<le> 2 ^ 64" by (rule order_trans) simp
  with lo show ?thesis by (simp add: moderate_def)
qed

lemma float_ratio_less_1:
  assumes "0 < n" "k < n" "n \<le> 2 ^ 52"
  shows "float_rat (of_nat k / of_nat n) < 1"
proof (cases "k = 0")
  case False
  have n': "(of_nat n :: rat) \<le> 2 ^ 52" using assms(3) by (metis of_nat_le_iff of_nat_numeral of_nat_power)
  have k: "(of_nat k :: rat) \<le> of_nat n - 1" using assms(2) by (simp add: of_nat_diff flip: of_nat_Suc)
  have "float_rat (of_nat k / of_nat n) \<le> of_nat k / of_nat n * (1 + 1 / 2 ^ 53)"
    using assms False by (intro float_rat_bounds ratio_moderate) auto
  also have "\<dots> \<le> (of_nat n - 1) / of_nat n * (1 + 1 / 2 ^ 53)"
    using k by (intro mult_right_mono divide_right_mono) auto
  also have "\<dots> < 1" using n' assms(1) by (simp add: field_simps)
  finally show ?thesis .
qed simp

lemma float_ratio_1_iff:
  "0 < n \<Longrightarrow> k \<le> n \<Longrightarrow> n \<le> 2 ^ 52 \<Longrightarrow> 1 \<le> float_rat (of_nat k / of_nat n) \<longleftrightarrow> k = n"
  using float_ratio_less_1 [of n k] by (cases "k = n") auto

end
