(* ===== verification/Root_Cause.thy ===== *)
theory Root_Cause
  imports Dependency_Graph Float_Bounds
begin

text \<open>
  Root-cause correlation over the dependency graph, \<open>src/modules/aiops/rca.py\<close>: the candidates are the
  symptom nodes and what they depend on, each is scored by the symptoms its failure takes down, and a root
  cause is asserted only above the confidence floor. Confidence and coverage are floats: a \<^typ>\<open>rat\<close> here
  is the exact value of one, and every operation rounds.
\<close>

section \<open>The response for one node\<close>

definition RCA_CONFIDENCE_FLOOR :: rat where
  "RCA_CONFIDENCE_FLOOR = float_rat (6 / 10)"

definition ref_key :: "source_reference \<Rightarrow> string \<times> string \<times> string option" where
  "ref_key r = (sr_kind r, sr_id r, sr_detail r)"

definition rca_dedup_refs :: "source_reference list \<Rightarrow> source_reference list" where
  "rca_dedup_refs = dedup_by ref_key []"

definition identified_ref :: "string \<Rightarrow> string \<Rightarrow> source_reference" where
  "identified_ref node detail =
     \<lparr>sr_kind = ''resource'', sr_id = node, sr_detail = Some (''identified root cause: '' @ detail)\<rparr>"

definition single_node_response ::
  "int \<Rightarrow> string \<Rightarrow> string list \<Rightarrow> source_reference list \<Rightarrow> nat \<Rightarrow> string \<Rightarrow> agent_response" where
  "single_node_response now node titles evidence radius summary =
     (let confidence = (if radius > 0 then float_rat (8 / 10) else float_rat (4 / 10)) in
      if confidence \<ge> RCA_CONFIDENCE_FLOOR then
        \<lparr>ag_agentName = ''aiops'', ag_taskType = ''auto-rca'', ag_inputSummary = summary, ag_findings = titles,
         ag_risks = (if radius \<noteq> 0 then [''blast radius '' @ show_nat radius] else []),
         ag_recommendations =
           [''Investigate '' @ node @ '' (blast radius '' @ show_nat radius @ '') as probable root cause.''],
         ag_sourceReferences =
           rca_dedup_refs (evidence @ [identified_ref node (''blast radius '' @ show_nat radius)]),
         ag_confidence = confidence, ag_nextActions = [''propose-remediation''], ag_generatedAt = now\<rparr>
      else
        \<lparr>ag_agentName = ''aiops'', ag_taskType = ''auto-rca'', ag_inputSummary = summary, ag_findings = titles,
         ag_risks = [], ag_recommendations = [''Root cause not confidently localized.''],
         ag_sourceReferences = evidence,
         ag_confidence = confidence, ag_nextActions = [''recommend-contact-support''], ag_generatedAt = now\<rparr>)"

definition correlate_rca :: "int \<Rightarrow> finding \<Rightarrow> (string, nat) dict \<Rightarrow> agent_response" where
  "correlate_rca now f blast_radius_of =
     (let node = (case fd_nodeId f of None \<Rightarrow> ''unknown'' | Some n \<Rightarrow> if n = [] then ''unknown'' else n);
          radius = (case dict_get blast_radius_of node of None \<Rightarrow> 0 | Some r \<Rightarrow> r)
      in single_node_response now node [fd_title f] (fd_evidence f) radius (''finding='' @ fd_id f))"

section \<open>Candidates\<close>

record rca_candidate =
  rc_node_id :: string
  rc_coverage :: rat
  rc_radius :: nat
  rc_explained :: "string list"
  rc_impact :: health_map
  rc_is_symptom :: bool

text \<open>\<open>_depends_on_index\<close>: source to targets, in the order of the edges.\<close>

definition depends_add :: "(string, string list) dict \<Rightarrow> dependency_edge \<Rightarrow> (string, string list) dict" where
  "depends_add idx e =
     dict_set (de_source e) ((case dict_get idx (de_source e) of None \<Rightarrow> [] | Some ts \<Rightarrow> ts) @ [de_target e]) idx"

definition depends_on_index :: "workload_graph \<Rightarrow> (string, string list) dict" where
  "depends_on_index g = foldl depends_add [] (wg_edges g)"

definition depends_of :: "(string, string list) dict \<Rightarrow> string \<Rightarrow> string list" where
  "depends_of idx n = (case dict_get idx n of None \<Rightarrow> [] | Some ts \<Rightarrow> ts)"

text \<open>\<open>_candidate_nodes\<close>: a breadth-first search; \<open>visit\<close> is the body of its inner loop.\<close>

fun visit :: "string list \<times> string list \<Rightarrow> string \<Rightarrow> string list \<times> string list" where
  "visit (seen, queue) u = (if u \<in> set seen then (seen, queue) else (seen @ [u], queue @ [u]))"

lemma visits:
  "\<exists>new. foldl visit (seen, queue) us = (seen @ new, queue @ new) \<and> set new = set us - set seen
     \<and> distinct new"
proof (induction us arbitrary: seen queue)
  case (Cons u us)
  show ?case
  proof (cases "u \<in> set seen")
    case True
    then show ?thesis using Cons [of seen queue] by auto
  next
    case False
    obtain new where "foldl visit (seen @ [u], queue @ [u]) us = ((seen @ [u]) @ new, (queue @ [u]) @ new)"
      "set new = set us - set (seen @ [u])" "distinct new" using Cons by blast
    with False show ?thesis by (intro exI [of _ "u # new"]) auto
  qed
qed simp

lemma depends_of_range: "set (depends_of idx n) \<subseteq> set (concat (map snd idx))"
proof (cases "dict_get idx n")
  case (Some ts)
  then have "(n, ts) \<in> set idx" by (rule map_of_SomeD)
  with Some show ?thesis by (force simp: depends_of_def)
qed (simp add: depends_of_def)

function bfs :: "(string, string list) dict \<Rightarrow> string list \<Rightarrow> string list \<Rightarrow> string list" where
  "bfs idx seen [] = seen"
| "bfs idx seen (n # queue) =
     bfs idx (fst (foldl visit (seen, queue) (depends_of idx n))) (snd (foldl visit (seen, queue) (depends_of idx n)))"
  by pat_completeness auto
termination
proof (relation "measures [\<lambda>(idx, seen, queue). card (set (concat (map snd idx)) - set seen),
    \<lambda>(idx, seen, queue). length queue]", goal_cases)
  case (2 idx seen n queue)
  let ?T = "set (concat (map snd idx))"
  obtain new where new: "foldl visit (seen, queue) (depends_of idx n) = (seen @ new, queue @ new)"
    "set new = set (depends_of idx n) - set seen" using visits by blast
  show ?case
  proof (cases "new = []")
    case False
    then obtain u where "u \<in> set new" by (cases new) auto
    then have "u \<in> ?T - set seen" "u \<notin> ?T - set (seen @ new)" using new(2) depends_of_range [of idx n] by auto
    moreover have "?T - set (seen @ new) \<subseteq> ?T - set seen" by auto
    ultimately have "card (?T - set (seen @ new)) < card (?T - set seen)" by (intro psubset_card_mono) auto
    then show ?thesis by (simp add: new(1))
  qed (simp add: new(1))
qed simp

definition candidate_nodes :: "workload_graph \<Rightarrow> string list \<Rightarrow> string list" where
  "candidate_nodes g symptoms = bfs (depends_on_index g) (dedup_by (\<lambda>s. s) [] symptoms) symptoms"

text \<open>The set \<open>explained\<close> is a list in the order of the symptoms; nothing depends on its order.\<close>

definition score_one :: "workload_graph \<Rightarrow> string list \<Rightarrow> string \<Rightarrow> rca_candidate" where
  "score_one g symptoms cid =
     (let impact = compute_impact g cid;
          explained = filter (\<lambda>s. s = cid \<or> dict_get impact s = Some HS_down) symptoms
      in \<lparr>rc_node_id = cid,
          rc_coverage = (if symptoms = [] then 0
                         else float_rat (of_nat (card (set explained)) / of_nat (length symptoms))),
          rc_radius = blast_radius g cid, rc_explained = explained, rc_impact = impact,
          rc_is_symptom = (cid \<in> set symptoms)\<rparr>)"

text \<open>\<open>sort(key=..., reverse=True)\<close> keeps the order of equal elements.\<close>

definition candidate_key :: "rca_candidate \<Rightarrow> rat \<times> nat \<times> bool \<times> string" where
  "candidate_key c = (rc_coverage c, rc_radius c, rc_is_symptom c, rc_node_id c)"

definition score_candidates :: "workload_graph \<Rightarrow> string list \<Rightarrow> rca_candidate list" where
  "score_candidates g symptoms =
     rev (sort_key candidate_key (rev (map (score_one g symptoms) (candidate_nodes g symptoms))))"

section \<open>Clusters\<close>

text \<open>
  \<open>_count_clusters\<close>: union-find with path halving. The dictionary \<open>parent\<close> is a function, looked up at
  symptoms only; the loop of \<open>find\<close> has the value \<open>None\<close> where it does not end.
\<close>

partial_function (option) uf_find ::
  "(string \<Rightarrow> string) \<Rightarrow> string \<Rightarrow> ((string \<Rightarrow> string) \<times> string) option" where
  "uf_find parent x =
     (if parent x = x then Some (parent, x)
      else (let parent' = parent(x := parent (parent x)) in uf_find parent' (parent' x)))"

declare uf_find.simps [code]

text \<open>The right-hand side of \<open>parent[find(a)] = find(b)\<close> is evaluated first.\<close>

definition uf_union :: "(string \<Rightarrow> string) \<Rightarrow> string \<Rightarrow> string \<Rightarrow> (string \<Rightarrow> string) option" where
  "uf_union parent a b =
     Option.bind (uf_find parent b) (\<lambda>(p1, rb).
       Option.bind (uf_find p1 a) (\<lambda>(p2, ra). Some (p2(ra := rb))))"

fun uf_unions :: "(string \<Rightarrow> string) \<Rightarrow> (string \<times> string) list \<Rightarrow> (string \<Rightarrow> string) option" where
  "uf_unions parent [] = Some parent"
| "uf_unions parent ((a, b) # ps) = Option.bind (uf_union parent a b) (\<lambda>p. uf_unions p ps)"

fun uf_roots :: "(string \<Rightarrow> string) \<Rightarrow> string list \<Rightarrow> string list option" where
  "uf_roots parent [] = Some []"
| "uf_roots parent (s # ss) =
     Option.bind (uf_find parent s) (\<lambda>(p, r). map_option ((#) r) (uf_roots p ss))"

text \<open>The pairs the two loops join: the first member of an explained set with each other one.\<close>

definition member_pairs :: "rca_candidate \<Rightarrow> (string \<times> string) list" where
  "member_pairs c = (case rc_explained c of [] \<Rightarrow> [] | m # ms \<Rightarrow> map (\<lambda>x. (m, x)) ms)"

definition count_clusters :: "string list \<Rightarrow> rca_candidate list \<Rightarrow> nat option" where
  "count_clusters symptoms scored =
     Option.bind (uf_unions (\<lambda>s. s) (concat (map member_pairs scored))) (\<lambda>parent.
       map_option (\<lambda>rs. card (set rs)) (uf_roots parent symptoms))"

section \<open>Confidence\<close>

definition maximal_candidates :: "rca_candidate list \<Rightarrow> rca_candidate list" where
  "maximal_candidates tops =
     filter (\<lambda>c. \<not> list_ex (\<lambda>x. rc_node_id x \<noteq> rc_node_id c
                            \<and> dict_get (rc_impact x) (rc_node_id c) = Some HS_down) tops) tops"

record rca_correlation =
  rx_ranked :: "rca_candidate list"
  rx_confidence :: rat
  rx_clusters :: nat
  rx_maximal :: "rca_candidate list"

definition correlate :: "workload_graph \<Rightarrow> string list \<Rightarrow> rca_correlation option" where
  "correlate g symptoms =
     (case score_candidates g symptoms of
        [] \<Rightarrow> Some \<lparr>rx_ranked = [], rx_confidence = 0, rx_clusters = length symptoms, rx_maximal = []\<rparr>
      | best # rest \<Rightarrow>
          (let scored = best # rest;
               best_cov = rc_coverage best;
               tops = filter (\<lambda>c. rc_coverage c = best_cov) scored;
               maximal = maximal_candidates tops;
               ambiguous = (length maximal \<noteq> 1);
               confidence =
                 (if best_cov \<ge> 1 \<and> \<not> ambiguous then
                    (let radius_factor =
                           (if symptoms \<noteq> []
                            then min 1 (float_rat (of_nat (rc_radius best) / of_nat (length symptoms))) else 0)
                     in min (float_rat (95 / 100))
                          (float_rat (float_rat (7 / 10) + float_rat (1 / 4 * radius_factor))))
                  else if best_cov \<ge> 1 \<and> ambiguous then float_rat (1 / 2)
                  else min (float_rat (55 / 100)) (float_rat (best_cov * float_rat (6 / 10))))
           in map_option (\<lambda>clusters. \<lparr>rx_ranked = scored, rx_confidence = confidence,
                                       rx_clusters = clusters, rx_maximal = maximal\<rparr>)
                (count_clusters symptoms scored)))"

section \<open>The correlated response\<close>

definition finding_key :: "finding \<Rightarrow> string option \<times> (string \<times> string \<times> string) list" where
  "finding_key f =
     (fd_nodeId f,
      sort (map (\<lambda>e. (sr_kind e, sr_id e, case sr_detail e of None \<Rightarrow> [] | Some d \<Rightarrow> d)) (fd_evidence f)))"

definition dedup_findings :: "finding list \<Rightarrow> finding list" where
  "dedup_findings = dedup_by finding_key []"

definition symptom_nodes :: "finding list \<Rightarrow> string list" where
  "symptom_nodes fs = dedup_by (\<lambda>n. n) [] (List.map_filter fd_nodeId fs)"

text \<open>The fail-closed gate: every finding is at a node, the nodes are in the graph, the graph is intact.\<close>

definition correlatable :: "finding list \<Rightarrow> workload_graph option \<Rightarrow> bool" where
  "correlatable fs graph =
     (let nodes = symptom_nodes fs;
          ids = (case graph of None \<Rightarrow> [] | Some g \<Rightarrow> map rn_id (wg_nodes g));
          all_localized = (fs \<noteq> [] \<and> list_all (\<lambda>f. fd_nodeId f \<noteq> None \<and> fd_nodeId f \<noteq> Some []) fs);
          nodes_present = (ids \<noteq> [] \<and> list_all (\<lambda>s. s \<in> set ids) nodes);
          graph_intact = (case graph of None \<Rightarrow> False
                          | Some g \<Rightarrow> list_all (\<lambda>e. de_source e \<in> set ids \<and> de_target e \<in> set ids) (wg_edges g))
      in all_localized \<and> graph \<noteq> None \<and> nodes \<noteq> [] \<and> nodes_present \<and> graph_intact)"

definition uncorrelated_response :: "int \<Rightarrow> string \<Rightarrow> string list \<Rightarrow> source_reference list \<Rightarrow> agent_response" where
  "uncorrelated_response now summary titles evidence =
     \<lparr>ag_agentName = ''aiops'', ag_taskType = ''auto-rca'', ag_inputSummary = summary, ag_findings = titles,
      ag_risks = [],
      ag_recommendations =
        [''Root cause could not be correlated: unlocalized finding(s), symptom node(s) ''
         @ ''absent from the graph, or dangling graph edge endpoint(s) (fail-closed).''],
      ag_sourceReferences = evidence, ag_confidence = 0,
      ag_nextActions = [''recommend-contact-support''], ag_generatedAt = now\<rparr>"

text \<open>The dash of the cluster text is an em dash in the source, which is no code point of the model.\<close>

definition correlated_response ::
  "int \<Rightarrow> string \<Rightarrow> string list \<Rightarrow> source_reference list \<Rightarrow> string list \<Rightarrow> rca_correlation \<Rightarrow> agent_response" where
  "correlated_response now summary titles evidence symptoms result =
     (let best = hd (rx_ranked result);
          n = show_nat (length symptoms);
          covered = show_nat (card (set (rc_explained best)));
          radius = show_nat (rc_radius best)
      in if rx_confidence result \<ge> RCA_CONFIDENCE_FLOOR then
           \<lparr>ag_agentName = ''aiops'', ag_taskType = ''auto-rca'', ag_inputSummary = summary, ag_findings = titles,
            ag_risks = [''blast radius '' @ radius,
              covered @ ''/'' @ n @ '' correlated symptom(s) explained by '' @ rc_node_id best],
            ag_recommendations =
              [''Investigate '' @ rc_node_id best @ '' (explains '' @ covered @ ''/'' @ n
               @ '' symptoms, blast radius '' @ radius @ '') as the probable root cause.''],
            ag_sourceReferences =
              rca_dedup_refs (evidence @ [identified_ref (rc_node_id best)
                (''explains '' @ covered @ ''/'' @ n @ '' symptoms, blast radius '' @ radius)]),
            ag_confidence = rx_confidence result, ag_nextActions = [''propose-remediation''], ag_generatedAt = now\<rparr>
         else
           \<lparr>ag_agentName = ''aiops'', ag_taskType = ''auto-rca'', ag_inputSummary = summary, ag_findings = titles,
            ag_risks = (if rx_clusters result > 1
                        then [show_nat (rx_clusters result) @ '' independent symptom cluster(s)''] else []),
            ag_recommendations =
              [''Root cause could not be confidently localized across '' @ n @ '' correlated symptom(s).'']
              @ (if rx_clusters result > 1
                 then [show_nat (rx_clusters result) @ '' independent symptom clusters detected ''
                       @ ''- likely distinct root causes (candidates: ''
                       @ repr_list (if rx_maximal result = [] then symptoms else map rc_node_id (rx_maximal result))
                       @ ''); do not force-fit to one.'']
                 else []),
            ag_sourceReferences = evidence, ag_confidence = rx_confidence result,
            ag_nextActions = [''recommend-contact-support''], ag_generatedAt = now\<rparr>)"

definition correlate_root_cause ::
  "int \<Rightarrow> finding list \<Rightarrow> workload_graph option \<Rightarrow> agent_response option" where
  "correlate_root_cause now all_findings graph =
     (let fs = dedup_findings all_findings;
          evidence = rca_dedup_refs (concat (map fd_evidence fs));
          titles = map fd_title fs;
          symptoms = symptom_nodes fs;
          summary = ''symptoms='' @ show_nat (length fs) @ ''; nodes=''
                    @ (if symptoms = [] then ''none'' else repr_list symptoms)
      in if \<not> correlatable fs graph then Some (uncorrelated_response now summary titles evidence)
         else if length symptoms = 1 then
           Some (single_node_response now (hd symptoms) titles evidence
                  (blast_radius (the graph) (hd symptoms)) summary)
         else map_option (correlated_response now summary titles evidence symptoms)
                (correlate (the graph) symptoms))"

section \<open>Candidates: proofs\<close>

definition depends :: "workload_graph \<Rightarrow> (string \<times> string) set" where
  "depends g = {(de_source e, de_target e) | e. e \<in> set (wg_edges g)}"

lemma depends_of_add:
  "set (depends_of (depends_add idx e) n) = set (depends_of idx n) \<union> (if n = de_source e then {de_target e} else {})"
  by (auto simp: depends_of_def depends_add_def)

lemma depends_of_fold:
  "set (depends_of (foldl depends_add idx es) n)
   = set (depends_of idx n) \<union> {de_target e | e. e \<in> set es \<and> de_source e = n}"
  by (induction es arbitrary: idx) (auto simp: depends_of_add)

lemma depends_of_index: "set (depends_of (depends_on_index g) n) = {t. (n, t) \<in> depends g}"
  unfolding depends_on_index_def depends_of_fold by (auto simp: depends_of_def depends_def)

lemma bfs_distinct: "distinct seen \<Longrightarrow> distinct (bfs idx seen queue)"
proof (induction idx seen queue rule: bfs.induct)
  case (2 idx seen n queue)
  obtain new where "foldl visit (seen, queue) (depends_of idx n) = (seen @ new, queue @ new)"
    "set new = set (depends_of idx n) - set seen" "distinct new" using visits by blast
  with 2 show ?case by auto
qed simp

lemma bfs_closure:
  assumes "set queue \<subseteq> set seen" "\<forall>n \<in> set seen - set queue. set (depends_of idx n) \<subseteq> set seen"
  shows "set (bfs idx seen queue) = {t. \<exists>s \<in> set seen. (s, t) \<in> {(a, b). b \<in> set (depends_of idx a)}\<^sup>*}"
  using assms
proof (induction idx seen queue rule: bfs.induct)
  case (1 idx seen)
  have "t \<in> set seen" if "(s, t) \<in> {(a, b). b \<in> set (depends_of idx a)}\<^sup>*" "s \<in> set seen" for s t
    using that by (induction rule: rtrancl_induct) (use 1 in auto)
  then show ?case by auto
next
  case (2 idx seen n queue)
  let ?R = "{(a, b). b \<in> set (depends_of idx a)}"
  obtain new where new: "foldl visit (seen, queue) (depends_of idx n) = (seen @ new, queue @ new)"
    "set new = set (depends_of idx n) - set seen" "distinct new" using visits by blast
  have p1: "set (queue @ new) \<subseteq> set (seen @ new)" using 2(2) by auto
  have p2: "\<forall>m \<in> set (seen @ new) - set (queue @ new). set (depends_of idx m) \<subseteq> set (seen @ new)"
  proof
    fix m assume "m \<in> set (seen @ new) - set (queue @ new)"
    then show "set (depends_of idx m) \<subseteq> set (seen @ new)"
      using 2(3) new(2) by (cases "m = n") auto
  qed
  have "set (bfs idx (seen @ new) (queue @ new)) = {t. \<exists>s \<in> set (seen @ new). (s, t) \<in> ?R\<^sup>*}"
    by (rule 2(1) [unfolded new(1) fst_conv snd_conv, OF p1 p2])
  also have "\<dots> = {t. \<exists>s \<in> set seen. (s, t) \<in> ?R\<^sup>*}"
    using 2(2) new(2) by (auto intro: converse_rtrancl_into_rtrancl)
  finally show ?case by (simp add: new(1))
qed

text \<open>The candidates are the symptoms and everything they depend on, redundantly or not.\<close>

lemma candidate_nodes_iff: "c \<in> set (candidate_nodes g symptoms) \<longleftrightarrow> (\<exists>s \<in> set symptoms. (s, c) \<in> (depends g)\<^sup>*)"
proof -
  have "{(a, b). b \<in> set (depends_of (depends_on_index g) a)} = depends g" by (auto simp: depends_of_index)
  then show ?thesis
    unfolding candidate_nodes_def by (subst bfs_closure) (auto simp: dedup_by_id_set)
qed

lemma candidate_nodes_distinct: "distinct (candidate_nodes g symptoms)"
  unfolding candidate_nodes_def by (rule bfs_distinct) (use dedup_by_distinct [of "\<lambda>s. s"] in simp)

lemma goes_down_depends: "goes_down (wg_edges g) c s \<Longrightarrow> (s, c) \<in> (depends g)\<^sup>*"
proof (induction rule: goes_down.induct)
  case (depends e)
  then show ?case by (auto simp: depends_def intro: converse_rtrancl_into_rtrancl)
qed simp

lemma goes_down_trans: "goes_down es b s \<Longrightarrow> goes_down es a b \<Longrightarrow> goes_down es a s"
  by (induction rule: goes_down.induct) (auto intro: goes_down.intros)

text \<open>A node whose failure takes every symptom down, as a predicate on the graph.\<close>

definition explains :: "workload_graph \<Rightarrow> string list \<Rightarrow> string \<Rightarrow> bool" where
  "explains g symptoms c \<longleftrightarrow> (\<forall>s \<in> set symptoms. goes_down (wg_edges g) c s)"

lemma explains_candidate: "explains g ss c \<Longrightarrow> ss \<noteq> [] \<Longrightarrow> c \<in> set (candidate_nodes g ss)"
  unfolding candidate_nodes_iff explains_def using goes_down_depends by (cases ss) auto

lemma score_one_simps:
  "rc_node_id (score_one g ss c) = c" "rc_radius (score_one g ss c) = blast_radius g c"
  "rc_impact (score_one g ss c) = compute_impact g c"
  "rc_explained (score_one g ss c) = filter (goes_down (wg_edges g) c) ss"
  by (auto simp: score_one_def Let_def compute_impact_spec impact_spec_def goes_down.failed intro!: filter_cong)

lemma impact_down: "dict_get (compute_impact g x) n = Some HS_down \<longleftrightarrow> goes_down (wg_edges g) x n"
  by (simp add: compute_impact_spec impact_spec_def)

lemma coverage_full:
  assumes "distinct ss" "ss \<noteq> []" "length ss \<le> 2 ^ 52"
  shows "rc_coverage (score_one g ss c) \<ge> 1 \<longleftrightarrow> explains g ss c"
    and "rc_coverage (score_one g ss c) \<ge> 1 \<Longrightarrow> rc_coverage (score_one g ss c) = 1"
proof -
  let ?k = "card (set (filter (goes_down (wg_edges g) c) ss))"
  have cov: "rc_coverage (score_one g ss c) = float_rat (of_nat ?k / of_nat (length ss))"
    using assms(2) score_one_simps(4) [of g ss c] by (simp add: score_one_def Let_def del: set_filter)
  have k: "?k = length (filter (goes_down (wg_edges g) c) ss)" using assms(1) by (metis distinct_card distinct_filter)
  then have le: "?k \<le> length ss" by simp
  have full: "?k = length ss \<longleftrightarrow> explains g ss c"
    unfolding k explains_def by (metis filter_id_conv length_filter_less order_less_irrefl)
  show "rc_coverage (score_one g ss c) \<ge> 1 \<longleftrightarrow> explains g ss c"
    unfolding cov using float_ratio_1_iff [OF _ le] assms full by auto
  assume "rc_coverage (score_one g ss c) \<ge> 1"
  then have "?k = length ss" using float_ratio_1_iff [OF _ le] assms unfolding cov by auto
  then show "rc_coverage (score_one g ss c) = 1" unfolding cov using assms(2) by simp
qed

section \<open>Clusters: proofs\<close>

text \<open>\<open>root_at p n x r\<close>: following the parents from \<open>x\<close>, the root \<open>r\<close> is reached after \<open>n\<close> steps.\<close>

fun root_at :: "(string \<Rightarrow> string) \<Rightarrow> nat \<Rightarrow> string \<Rightarrow> string \<Rightarrow> bool" where
  "root_at p 0 x r \<longleftrightarrow> x = r \<and> p r = r"
| "root_at p (Suc n) x r \<longleftrightarrow> p x \<noteq> x \<and> root_at p n (p x) r"

definition root_of :: "(string \<Rightarrow> string) \<Rightarrow> string \<Rightarrow> string \<Rightarrow> bool" where
  "root_of p x r \<longleftrightarrow> (\<exists>n. root_at p n x r)"

definition rooted :: "(string \<Rightarrow> string) \<Rightarrow> bool" where
  "rooted p \<longleftrightarrow> (\<forall>x. \<exists>r. root_of p x r)"

lemma root_at_fix: "root_at p n x r \<Longrightarrow> p r = r"
  by (induction n arbitrary: x) auto

lemma root_at_unique: "root_at p n x r \<Longrightarrow> root_at p m x r' \<Longrightarrow> n = m \<and> r = r'"
proof (induction n arbitrary: m x)
  case 0
  then show ?case by (cases m) auto
next
  case (Suc n)
  then show ?case by (cases m) auto
qed

lemma root_of_unique: "root_of p x r \<Longrightarrow> root_of p x r' \<Longrightarrow> r = r'"
  using root_at_unique unfolding root_of_def by blast

lemma root_of_fix: "root_of p x r \<Longrightarrow> p r = r"
  using root_at_fix unfolding root_of_def by blast

lemma root_of_root: "p r = r \<Longrightarrow> root_of p r r"
  unfolding root_of_def by (rule exI [of _ 0]) simp

lemma root_at_above:
  "root_at p n y r \<Longrightarrow> n < m \<Longrightarrow> root_at p m x r0 \<Longrightarrow> root_at (p(x := z)) n y r"
proof (induction n arbitrary: y)
  case 0
  then have "y \<noteq> x" by (cases m) auto
  then show ?case using 0 by simp
next
  case (Suc n)
  have "y \<noteq> x" using root_at_unique [of p "Suc n" y r m r0] Suc.prems by auto
  then show ?case using Suc by simp
qed

text \<open>One halving step: every root stays, and the path from \<open>x\<close> is shorter.\<close>

lemma halve_path:
  assumes "root_at p (Suc n) x r"
  shows "\<exists>k \<le> n. root_at (p(x := p (p x))) k (p (p x)) r"
proof (cases n)
  case 0
  then have "p x = r" "p r = r" "x \<noteq> r" using assms by auto
  then show ?thesis using 0 by (intro exI [of _ 0]) auto
next
  case (Suc k)
  then have "root_at p k (p (p x)) r" using assms by auto
  from root_at_above [OF this _ assms] show ?thesis using Suc by (intro exI [of _ k]) auto
qed

lemma halve_roots:
  assumes x: "root_at p (Suc n) x r" and y: "root_of p y r'" and q: "q = p(x := p (p x))"
  shows "root_of q y r'"
proof -
  have qx: "q x = p (p x)" and qo: "\<And>z. z \<noteq> x \<Longrightarrow> q z = p z" by (simp_all add: q)
  obtain k where k: "k \<le> n" "root_at q k (p (p x)) r" using halve_path [OF x] unfolding q by blast
  have px: "p (p x) \<noteq> x"
  proof
    assume e: "p (p x) = x"
    then have "n \<noteq> 0" using x by (cases n) auto
    then obtain j where j: "n = Suc j" by (cases n) auto
    with x e have "root_at p j x r" by simp
    with root_at_unique [OF this x] j show False by simp
  qed
  have at_x: "root_at q (Suc k) x r" using k(2) px by (simp add: qx)
  obtain m where "root_at p m y r'" using y unfolding root_of_def by blast
  then have "\<exists>k. root_at q k y r'"
  proof (induction m arbitrary: y)
    case 0
    show ?case
    proof (cases "y = x")
      case True
      then have "p x = x" using 0 by simp
      then show ?thesis using x by simp
    next
      case False
      then have "root_at q 0 y r'" using 0 by (simp add: qo)
      then show ?thesis by blast
    qed
  next
    case (Suc m)
    show ?case
    proof (cases "y = x")
      case True
      then have "r' = r" using root_at_unique [OF x] Suc.prems by blast
      then show ?thesis using at_x True by blast
    next
      case False
      obtain k where "root_at q k (p y) r'" using Suc by auto
      then have "root_at q (Suc k) y r'" using Suc.prems False by (simp add: qo)
      then show ?thesis by blast
    qed
  qed
  then show ?thesis by (simp add: root_of_def)
qed

lemma uf_find_root:
  assumes "root_of p x r"
  shows "\<exists>p'. uf_find p x = Some (p', r) \<and> (\<forall>y r'. root_of p y r' \<longrightarrow> root_of p' y r')"
proof -
  obtain n where "root_at p n x r" using assms unfolding root_of_def by blast
  then show ?thesis
  proof (induction n arbitrary: p x rule: less_induct)
    case (less n)
    show ?case
    proof (cases n)
      case 0
      then have "p x = x" "x = r" using less.prems by auto
      then show ?thesis by (subst uf_find.simps) simp
    next
      case (Suc m)
      define q where "q = p(x := p (p x))"
      have x: "root_at p (Suc m) x r" using less.prems Suc by simp
      obtain k where "k \<le> m" "root_at q k (p (p x)) r"
        using halve_path [OF x] unfolding q_def by blast
      then have "k < n" "root_at q k (p (p x)) r" using Suc by auto
      then obtain p' where p': "uf_find q (p (p x)) = Some (p', r)" "\<forall>y r'. root_of q y r' \<longrightarrow> root_of p' y r'"
        using less.IH by blast
      have "uf_find p x = uf_find q (q x)" using x by (subst uf_find.simps) (simp add: q_def Let_def)
      then have "uf_find p x = Some (p', r)" using p'(1) by (simp add: q_def)
      moreover have "\<forall>y r'. root_of p y r' \<longrightarrow> root_of q y r'" using halve_roots [OF x _ q_def] by blast
      ultimately show ?thesis using p'(2) by blast
    qed
  qed
qed

definition same_root :: "(string \<Rightarrow> string) \<Rightarrow> string \<Rightarrow> string \<Rightarrow> bool" where
  "same_root p x y \<longleftrightarrow> (\<exists>r. root_of p x r \<and> root_of p y r)"

lemma same_root_kept:
  assumes "rooted p" "\<forall>y r. root_of p y r \<longrightarrow> root_of q y r"
  shows "rooted q" "same_root q = same_root p"
proof -
  show "rooted q" using assms unfolding rooted_def by blast
  show "same_root q = same_root p"
    using assms root_of_unique unfolding same_root_def rooted_def fun_eq_iff by metis
qed

lemma link_root:
  assumes "p a = a" "p b = b" "root_of p y r" and q: "q = p(a := b)"
  shows "root_of q y (if r = a then b else r)"
proof -
  have qa: "q a = b" and qo: "\<And>z. z \<noteq> a \<Longrightarrow> q z = p z" by (simp_all add: q)
  obtain n where "root_at p n y r" using assms(3) unfolding root_of_def by blast
  then have "\<exists>k. root_at q k y (if r = a then b else r)"
  proof (induction n arbitrary: y)
    case 0
    show ?case
    proof (cases "y = a \<and> a \<noteq> b")
      case True
      then have "root_at q (Suc 0) y b" using assms(2) qo [of b] by (auto simp: qa)
      moreover have "(if r = a then b else r) = b" using 0 True by simp
      ultimately show ?thesis by metis
    next
      case False
      then have "root_at q 0 y (if r = a then b else r)" using 0 assms(1,2) qa qo by (cases "y = a") auto
      then show ?thesis by blast
    qed
  next
    case (Suc n)
    then have "y \<noteq> a" using assms(1) by auto
    have "root_at p n (p y) r" using Suc.prems by simp
    from Suc.IH [OF this] obtain k where "root_at q k (p y) (if r = a then b else r)" by blast
    then have "root_at q (Suc k) y (if r = a then b else r)" using Suc.prems \<open>y \<noteq> a\<close> by (simp add: qo)
    then show ?case by blast
  qed
  then show ?thesis by (simp add: root_of_def)
qed

lemma same_root_iff: "root_of p x r \<Longrightarrow> root_of p y s \<Longrightarrow> same_root p x y \<longleftrightarrow> r = s"
  using root_of_unique unfolding same_root_def by blast

lemma uf_union_joins:
  assumes "rooted p"
  shows "\<exists>q. uf_union p a b = Some q \<and> rooted q
    \<and> (\<forall>x y. same_root q x y \<longleftrightarrow> same_root p x y \<or> (same_root p x a \<and> same_root p b y)
          \<or> (same_root p x b \<and> same_root p a y))"
proof -
  obtain ra rb where r: "root_of p a ra" "root_of p b rb" using assms unfolding rooted_def by blast
  obtain p1 where p1: "uf_find p b = Some (p1, rb)" "\<forall>y r. root_of p y r \<longrightarrow> root_of p1 y r"
    using uf_find_root [OF r(2)] by blast
  then obtain p2 where p2: "uf_find p1 a = Some (p2, ra)" "\<forall>y r. root_of p1 y r \<longrightarrow> root_of p2 y r"
    using uf_find_root r(1) by blast
  have k: "\<forall>y r. root_of p y r \<longrightarrow> root_of p2 y r" using p1(2) p2(2) by blast
  have rp2: "root_of p2 a ra" "root_of p2 b rb" using k r by blast+
  have fx: "p2 ra = ra" "p2 rb = rb" using rp2 root_of_fix by blast+
  define q where "q = p2(ra := rb)"
  have ro: "root_of p y s \<Longrightarrow> root_of q y (if s = ra then rb else s)" for y s
    using link_root [OF fx _ q_def] k by blast
  have "rooted q" using ro assms unfolding rooted_def by blast
  moreover have "same_root q x y \<longleftrightarrow> same_root p x y \<or> (same_root p x a \<and> same_root p b y)
      \<or> (same_root p x b \<and> same_root p a y)" for x y
  proof -
    obtain sx sy where s: "root_of p x sx" "root_of p y sy" using assms unfolding rooted_def by blast
    show ?thesis
      unfolding same_root_iff [OF ro [OF s(1)] ro [OF s(2)]] same_root_iff [OF s] same_root_iff [OF s(1) r(1)]
        same_root_iff [OF r(2) s(2)] same_root_iff [OF s(1) r(2)] same_root_iff [OF r(1) s(2)]
      by auto
  qed
  moreover have "uf_union p a b = Some q" by (simp add: uf_union_def p1(1) p2(1) q_def)
  ultimately show ?thesis by blast
qed

text \<open>The least equivalence that contains a relation.\<close>

definition joined :: "(string \<times> string) set \<Rightarrow> (string \<times> string) set" where
  "joined R = (R \<union> R\<inverse>)\<^sup>*"

definition roots_rel :: "(string \<Rightarrow> string) \<Rightarrow> (string \<times> string) set" where
  "roots_rel p = {(x, y). same_root p x y}"

lemma joined_least:
  assumes "R \<subseteq> E" "refl E" "sym E" "trans E"
  shows "joined R \<subseteq> E"
proof -
  have "R \<union> R\<inverse> \<subseteq> E" using assms(1,3) by (auto dest: symD)
  then have "joined R \<subseteq> E\<^sup>*" unfolding joined_def by (rule rtrancl_mono)
  also have "(x, y) \<in> E" if "(x, y) \<in> E\<^sup>*" for x y
    using that assms(2,4) by (induction rule: rtrancl_induct) (auto dest: reflD transD)
  then have "E\<^sup>* \<subseteq> E" by auto
  finally show ?thesis .
qed

lemma joined_ext: "R \<subseteq> joined R"
  by (auto simp: joined_def)

lemma joined_equiv: "refl (joined R)" "sym (joined R)" "trans (joined R)"
  unfolding joined_def by (auto intro: refl_rtrancl sym_rtrancl trans_rtrancl simp: sym_Un_converse)

lemma roots_rel_equiv:
  assumes "rooted p"
  shows "refl (roots_rel p)" "sym (roots_rel p)" "trans (roots_rel p)"
proof -
  show "refl (roots_rel p)" using assms by (auto simp: refl_on_def roots_rel_def same_root_def rooted_def)
  show "sym (roots_rel p)" by (auto simp: sym_def roots_rel_def same_root_def)
  show "trans (roots_rel p)"
    unfolding trans_def roots_rel_def same_root_def using root_of_unique by blast
qed

lemma uf_union_rel:
  assumes "rooted p"
  shows "\<exists>q. uf_union p a b = Some q \<and> rooted q \<and> roots_rel q = joined (insert (a, b) (roots_rel p))"
proof -
  obtain q where q: "uf_union p a b = Some q" "rooted q"
    "\<And>x y. same_root q x y \<longleftrightarrow> same_root p x y \<or> (same_root p x a \<and> same_root p b y)
          \<or> (same_root p x b \<and> same_root p a y)" using uf_union_joins [OF assms] by blast
  let ?J = "joined (insert (a, b) (roots_rel p))"
  have p: "same_root p x x" for x using roots_rel_equiv(1) [OF assms] by (simp add: refl_on_def roots_rel_def)
  have J: "(x, y) \<in> ?J" if "same_root p x y" for x y using joined_ext [of "insert (a, b) (roots_rel p)"] that roots_rel_def [of p] by blast
  have ab: "(a, b) \<in> ?J" using joined_ext by blast
  then have ba: "(b, a) \<in> ?J" using joined_equiv(2) by (blast dest: symD)
  have "(x, y) \<in> ?J" if "same_root q x y" for x y
    using that J ab ba joined_equiv(3) [of "insert (a, b) (roots_rel p)"] unfolding q(3) trans_def by blast
  then have "roots_rel q \<subseteq> ?J" by (auto simp: roots_rel_def)
  moreover have "?J \<subseteq> roots_rel q"
    by (rule joined_least) (use q p roots_rel_equiv [OF q(2)] in \<open>auto simp: roots_rel_def\<close>)
  ultimately show ?thesis using q(1,2) by blast
qed

lemma joined_union: "joined (joined R \<union> S) = joined (R \<union> S)"
proof
  show "joined (joined R \<union> S) \<subseteq> joined (R \<union> S)"
  proof (rule joined_least [OF _ joined_equiv])
    have "joined R \<subseteq> joined (R \<union> S)"
      by (rule joined_least [OF _ joined_equiv]) (use joined_ext in blast)
    then show "joined R \<union> S \<subseteq> joined (R \<union> S)" using joined_ext [of "R \<union> S"] by blast
  qed
  show "joined (R \<union> S) \<subseteq> joined (joined R \<union> S)"
    by (rule joined_least [OF _ joined_equiv]) (use joined_ext [of R] joined_ext [of "joined R \<union> S"] in blast)
qed

lemma uf_unions_rel:
  "rooted p \<Longrightarrow> \<exists>q. uf_unions p ps = Some q \<and> rooted q \<and> roots_rel q = joined (roots_rel p \<union> set ps)"
proof (induction ps arbitrary: p)
  case Nil
  have "joined (roots_rel p) = roots_rel p"
    using joined_least [OF _ roots_rel_equiv [OF Nil]] joined_ext by blast
  with Nil show ?case by simp
next
  case (Cons e ps)
  obtain a b where e: "e = (a, b)" by force
  obtain q where q: "uf_union p a b = Some q" "rooted q" "roots_rel q = joined (insert (a, b) (roots_rel p))"
    using uf_union_rel [OF Cons.prems] by blast
  obtain q' where "uf_unions q ps = Some q'" "rooted q'" "roots_rel q' = joined (roots_rel q \<union> set ps)"
    using Cons.IH [OF q(2)] by blast
  then show ?case using q(1,3) joined_union [of "insert (a, b) (roots_rel p)" "set ps"] by (simp add: e)
qed

lemma uf_roots_rel:
  "rooted p \<Longrightarrow> \<exists>rs. uf_roots p ss = Some rs \<and> list_all2 (root_of p) ss rs"
proof (induction ss arbitrary: p)
  case (Cons s ss)
  obtain r where r: "root_of p s r" using Cons.prems unfolding rooted_def by blast
  obtain p' where p': "uf_find p s = Some (p', r)" "\<forall>y r'. root_of p y r' \<longrightarrow> root_of p' y r'"
    using uf_find_root [OF r] by blast
  have "rooted p'" "\<And>y r'. root_of p' y r' \<Longrightarrow> root_of p y r'"
    using p'(2) Cons.prems root_of_unique unfolding rooted_def by blast+
  moreover obtain rs where "uf_roots p' ss = Some rs" "list_all2 (root_of p') ss rs"
    using Cons.IH [OF \<open>rooted p'\<close>] by blast
  ultimately show ?case using r p'(1) by (auto elim: list_all2_mono)
qed simp

lemma list_all2_image:
  "list_all2 R xs ys \<Longrightarrow> (\<And>x y. R x y \<Longrightarrow> F x = G y) \<Longrightarrow> F ` set xs = G ` set ys"
  by (induction rule: list_all2_induct) auto

text \<open>
  The number of clusters is that of the classes of the symptoms under \<open>explained by a common candidate\<close>,
  and the loops always end.
\<close>

definition co_explained :: "rca_candidate list \<Rightarrow> (string \<times> string) set" where
  "co_explained scored = {(x, y). \<exists>c \<in> set scored. x \<in> set (rc_explained c) \<and> y \<in> set (rc_explained c)}"

lemma joined_pairs: "joined (Id \<union> set (concat (map member_pairs scored))) = (co_explained scored)\<^sup>*"
proof
  let ?P = "set (concat (map member_pairs scored))"
  have cs: "sym (co_explained scored)" by (auto simp: sym_def co_explained_def)
  have mp: "?P \<subseteq> co_explained scored"
  proof
    fix e assume "e \<in> ?P"
    then obtain c where c: "c \<in> set scored" "e \<in> set (member_pairs c)" by auto
    then show "e \<in> co_explained scored"
      by (cases "rc_explained c") (auto simp: member_pairs_def co_explained_def intro!: bexI [of _ c])
  qed
  have "(Id \<union> ?P) \<union> (Id \<union> ?P)\<inverse> \<subseteq> (co_explained scored)\<^sup>*"
    using mp cs by (auto dest: symD)
  then show "joined (Id \<union> ?P) \<subseteq> (co_explained scored)\<^sup>*" unfolding joined_def by (rule rtrancl_subset_rtrancl)
  have "(x, y) \<in> joined (Id \<union> ?P)" if xy: "(x, y) \<in> co_explained scored" for x y
  proof -
    obtain c where c: "c \<in> set scored" "x \<in> set (rc_explained c)" "y \<in> set (rc_explained c)"
      using xy by (auto simp: co_explained_def)
    then obtain m ms where e: "rc_explained c = m # ms" by (cases "rc_explained c") auto
    have m: "(m, z) \<in> joined (Id \<union> ?P)" if "z \<in> set (rc_explained c)" for z
    proof -
      have "(m, z) \<in> Id \<union> ?P" using that c(1) e by (force simp: member_pairs_def)
      then show ?thesis using joined_ext by blast
    qed
    from m [OF c(2)] m [OF c(3)] show ?thesis using joined_equiv(2,3) by (blast dest: symD transD)
  qed
  then have "co_explained scored \<subseteq> joined (Id \<union> ?P)" by auto
  then show "(co_explained scored)\<^sup>* \<subseteq> joined (Id \<union> ?P)" unfolding joined_def by (rule rtrancl_subset_rtrancl)
qed

lemma count_clusters_classes:
  "count_clusters ss scored = Some (card ((\<lambda>s. {t \<in> set ss. (s, t) \<in> (co_explained scored)\<^sup>*}) ` set ss))"
proof -
  let ?id = "\<lambda>s. s :: string"
  have i: "rooted ?id" "roots_rel ?id = Id"
    using root_of_root [of ?id] root_of_unique [of ?id]
    unfolding rooted_def roots_rel_def same_root_def by blast+
  obtain q where q: "uf_unions ?id (concat (map member_pairs scored)) = Some q" "rooted q"
    "roots_rel q = (co_explained scored)\<^sup>*"
    using uf_unions_rel [OF i(1), of "concat (map member_pairs scored)"] unfolding i(2) joined_pairs by blast
  obtain rs where rs: "uf_roots q ss = Some rs" "list_all2 (root_of q) ss rs" using uf_roots_rel [OF q(2)] by blast
  let ?cls = "\<lambda>s. {t \<in> set ss. (s, t) \<in> (co_explained scored)\<^sup>*}"
  let ?f = "\<lambda>r. {t \<in> set ss. root_of q t r}"
  have cls: "?cls s = ?f r" if "root_of q s r" for s r
    using that root_of_unique unfolding q(3) [symmetric] roots_rel_def same_root_def by blast
  have img: "?cls ` set ss = ?f ` set rs"
    using list_all2_image [OF rs(2), of ?cls ?f] cls by blast
  have "\<exists>s \<in> set ss. root_of q s r" if "r \<in> set rs" for r
    using rs(2) that by (induction rule: list_all2_induct) auto
  then have "inj_on ?f (set rs)" using root_of_unique unfolding inj_on_def by blast
  then have "card (?cls ` set ss) = card (set rs)" unfolding img by (rule card_image)
  then show ?thesis by (simp add: count_clusters_def q(1) rs(1))
qed

section \<open>Ranking and confidence: proofs\<close>

lemma score_candidates_mset: "mset (score_candidates g ss) = mset (map (score_one g ss) (candidate_nodes g ss))"
  by (simp add: score_candidates_def)

lemma score_candidates_set: "set (score_candidates g ss) = score_one g ss ` set (candidate_nodes g ss)"
  using score_candidates_mset [THEN mset_eq_setD] by simp

lemma score_candidates_ids:
  "rc_node_id ` set (score_candidates g ss) = set (candidate_nodes g ss)"
  "distinct (map rc_node_id (score_candidates g ss))"
proof -
  have "mset (map rc_node_id (score_candidates g ss)) = mset (candidate_nodes g ss)"
  proof -
    have "mset (map rc_node_id (score_candidates g ss))
        = image_mset rc_node_id (mset (map (score_one g ss) (candidate_nodes g ss)))"
      by (simp only: mset_map score_candidates_mset)
    also have "\<dots> = mset (map (\<lambda>c. c) (candidate_nodes g ss))"
      by (simp only: mset_map [symmetric] map_map o_def score_one_simps)
    finally show ?thesis by simp
  qed
  then show "rc_node_id ` set (score_candidates g ss) = set (candidate_nodes g ss)"
    "distinct (map rc_node_id (score_candidates g ss))"
    using candidate_nodes_distinct by (metis mset_eq_setD list.set_map, metis mset_eq_imp_distinct_iff)
qed

lemma score_candidates_hd:
  assumes "score_candidates g ss = best # rest" "c \<in> set (candidate_nodes g ss)"
  shows "candidate_key (score_one g ss c) \<le> candidate_key best"
proof -
  have s: "sorted_wrt (\<lambda>x y. candidate_key y \<le> candidate_key x) (score_candidates g ss)"
    unfolding score_candidates_def sorted_wrt_rev using sorted_sort_key [of candidate_key] by (simp add: sorted_map)
  have "score_one g ss c \<in> set (score_candidates g ss)" using assms(2) by (simp add: score_candidates_set)
  then show ?thesis using s assms(1) by auto
qed

text \<open>No other node that explains every symptom takes this one down.\<close>

definition upstream_most :: "workload_graph \<Rightarrow> string list \<Rightarrow> string \<Rightarrow> bool" where
  "upstream_most g ss m \<longleftrightarrow>
     explains g ss m \<and> (\<forall>c. explains g ss c \<and> c \<noteq> m \<longrightarrow> \<not> goes_down (wg_edges g) c m)"

lemma float_rat_const:
  assumes "1 / 2 \<le> x * 4" "x \<le> 1"
  shows "x - 1 / 2 ^ 53 \<le> float_rat x" "float_rat x \<le> x + 1 / 2 ^ 53"
proof -
  have "moderate x" using assms by (simp add: moderate_def)
  note float_rat_error [OF this]
  also have "x / 2 ^ 53 \<le> 1 / 2 ^ 53" using assms(2) by (intro divide_right_mono) auto
  finally show "x - 1 / 2 ^ 53 \<le> float_rat x" "float_rat x \<le> x + 1 / 2 ^ 53" by (simp_all only: abs_le_iff) auto
qed

lemma float_constants:
  "59 / 100 \<le> RCA_CONFIDENCE_FLOOR" "RCA_CONFIDENCE_FLOOR \<le> 61 / 100"
  "94 / 100 \<le> float_rat (95 / 100)" "float_rat (95 / 100) \<le> 96 / 100"
  "0 \<le> float_rat (55 / 100)" "float_rat (55 / 100) \<le> 56 / 100"
  "0 \<le> float_rat (1 / 2)" "float_rat (1 / 2) \<le> 51 / 100"
  "69 / 100 \<le> float_rat (7 / 10)" "float_rat (7 / 10) \<le> 71 / 100"
  "79 / 100 \<le> float_rat (8 / 10)" "float_rat (8 / 10) \<le> 81 / 100"
  "0 \<le> float_rat (4 / 10)" "float_rat (4 / 10) \<le> 41 / 100"
  unfolding RCA_CONFIDENCE_FLOOR_def
  using float_rat_const [of "6 / 10"] float_rat_const [of "95 / 100"] float_rat_const [of "55 / 100"]
    float_rat_const [of "1 / 2"] float_rat_const [of "7 / 10"] float_rat_const [of "8 / 10"]
    float_rat_const [of "4 / 10"] by simp_all

lemma float_rat_nonneg: "0 \<le> x \<Longrightarrow> 0 \<le> float_rat x"
proof -
  assume x: "0 \<le> x"
  have "0 \<le> round_pos \<bar>x\<bar>"
    by (auto simp: round_pos_def Let_def round_half_even_def two_powi_powi zero_less_power_int)
  then show ?thesis using x by (auto simp: float_rat_def float_of_rat_def Let_def)
qed

lemma float_rat_unit:
  assumes "0 \<le> x" "x \<le> 1"
  shows "float_rat x \<le> 3"
proof (cases "x = 0")
  case False
  define e where "e = ulp_exponent x"
  have u: "(0 :: rat) < 2 powi e" by simp
  have "2 powi e \<le> (1 :: rat)"
  proof (cases "e = -1074")
    case True
    have "(2 :: rat) powi (-1074) \<le> 2 powi 0" by (intro power_int_increasing) auto
    then show ?thesis by (simp add: True)
  next
    case False
    then have "2 ^ 52 \<le> x / 2 powi e" using ulp_exponent_bounds(2) [of x] assms \<open>x \<noteq> 0\<close> by (simp add: e_def)
    then have "2 powi e * 2 ^ 52 \<le> x" using u by (simp add: field_simps)
    then show ?thesis using u assms(2) by simp
  qed
  moreover have "of_int (round_half_even (x / 2 powi e)) * 2 powi e \<le> (x / 2 powi e + 1 / 2) * 2 powi e"
    using round_half_even_error [of "x / 2 powi e"] u
    by (intro mult_right_mono) (simp_all only: abs_le_iff, linarith)
  ultimately have "round_pos x \<le> 3"
    using u assms(2) by (simp add: round_pos_def Let_def e_def [symmetric] two_powi_powi distrib_right)
  then show ?thesis using assms False by (auto simp: float_rat_def float_of_rat_def Let_def)
qed simp

text \<open>The confidence of an unambiguous full explanation is above the floor.\<close>

lemma confident_value:
  assumes "0 \<le> rf" "rf \<le> 1"
  shows "RCA_CONFIDENCE_FLOOR
      \<le> min (float_rat (95 / 100)) (float_rat (float_rat (7 / 10) + float_rat (1 / 4 * rf)))"
proof -
  let ?x = "float_rat (7 / 10) + float_rat (1 / 4 * rf)"
  have x: "69 / 100 \<le> ?x" "?x \<le> 4"
    using float_constants(9,10) float_rat_nonneg [of "1 / 4 * rf"] float_rat_unit [of "1 / 4 * rf"] assms by auto
  have "moderate ?x" using x by (simp add: moderate_def)
  then have "?x * (1 - 1 / 2 ^ 53) \<le> float_rat ?x" by (rule float_rat_bounds)
  moreover have "69 / 100 * (1 - 1 / 2 ^ 53) \<le> ?x * (1 - 1 / 2 ^ 53)" using x by (intro mult_right_mono) auto
  ultimately show ?thesis using float_constants(2,3) by (simp add: min_def)
qed

definition rca_ambiguous :: "workload_graph \<Rightarrow> string list \<Rightarrow> bool" where
  "rca_ambiguous g ss \<longleftrightarrow> \<not> (\<exists>!m. upstream_most g ss m)"

lemma correlate_exact:
  assumes ss: "distinct ss" "ss \<noteq> []" "length ss \<le> 2 ^ 52"
  obtains rx best rest where "correlate g ss = Some rx" "score_candidates g ss = best # rest"
    "rx_ranked rx = best # rest"
    "RCA_CONFIDENCE_FLOOR \<le> rx_confidence rx \<longleftrightarrow> \<not> rca_ambiguous g ss"
    "0 \<le> rx_confidence rx" "rx_confidence rx \<le> 1"
    "\<not> rca_ambiguous g ss \<Longrightarrow> explains g ss (rc_node_id best)"
    "explains g ss (rc_node_id best) \<Longrightarrow>
       \<forall>c. explains g ss c \<longrightarrow> blast_radius g c \<le> blast_radius g (rc_node_id best)"
    "best = score_one g ss (rc_node_id best)"
proof -
  have "score_candidates g ss \<noteq> []"
  proof -
    have "hd ss \<in> set (candidate_nodes g ss)" unfolding candidate_nodes_iff using ss(2) by auto
    then show ?thesis using score_candidates_ids(1) [of g ss] by auto
  qed
  then obtain best rest where sc: "score_candidates g ss = best # rest" by (cases "score_candidates g ss") auto
  have bs: "best = score_one g ss (rc_node_id best)"
  proof -
    have "best \<in> score_one g ss ` set (candidate_nodes g ss)" using sc score_candidates_set [of g ss] by auto
    then show ?thesis by (auto simp: score_one_simps)
  qed
  note cov = coverage_full [OF ss]
  have mx: "candidate_key (score_one g ss c) \<le> candidate_key best" if "explains g ss c" for c
    using score_candidates_hd [OF sc] explains_candidate [OF that ss(2)] by blast
  have ex: "rc_coverage best \<ge> 1 \<longleftrightarrow> explains g ss (rc_node_id best)" using cov(1) bs by metis
  have full: "rc_coverage best \<ge> 1" if "explains g ss c" for c
    using mx [OF that] cov(1) [of g c] that by (auto simp: candidate_key_def less_eq_prod_def)
  have one: "rc_coverage best = 1" if "rc_coverage best \<ge> 1" using cov(2) [of g "rc_node_id best"] that bs by metis
  have rad: "blast_radius g c \<le> blast_radius g (rc_node_id best)"
    if "explains g ss (rc_node_id best)" "explains g ss c" for c
  proof -
    have "rc_coverage (score_one g ss c) = rc_coverage best"
      using cov [of g c] that one ex by auto
    then have "rc_radius (score_one g ss c) \<le> rc_radius best"
      using mx [OF that(2)] by (auto simp: candidate_key_def less_eq_prod_def)
    then show ?thesis using bs score_one_simps(2) by metis
  qed
  define tops where "tops = filter (\<lambda>c. rc_coverage c = rc_coverage best) (best # rest)"
  have dist: "distinct (map rc_node_id tops)"
    using score_candidates_ids(2) [of g ss] unfolding tops_def sc by (rule distinct_map_filter)
  have tops: "set tops = score_one g ss ` {c. explains g ss c}" if "rc_coverage best \<ge> 1"
  proof -
    have "set tops = {x \<in> score_one g ss ` set (candidate_nodes g ss). rc_coverage x = 1}"
      unfolding tops_def using score_candidates_set [of g ss] sc one [OF that] by auto
    also have "\<dots> = score_one g ss ` {c \<in> set (candidate_nodes g ss). explains g ss c}"
    proof -
      have "rc_coverage (score_one g ss c) = 1 \<longleftrightarrow> explains g ss c" for c using cov [of g c] by auto
      then show ?thesis by auto
    qed
    finally show ?thesis using explains_candidate [OF _ ss(2)] by blast
  qed
  have maxi: "length (maximal_candidates tops) = 1 \<longleftrightarrow> \<not> rca_ambiguous g ss" if f: "rc_coverage best \<ge> 1"
  proof -
    have d: "distinct (map rc_node_id (maximal_candidates tops))"
      unfolding maximal_candidates_def by (rule distinct_map_filter [OF dist])
    have "set (map rc_node_id (maximal_candidates tops)) = {m. upstream_most g ss m}"
      unfolding maximal_candidates_def upstream_most_def list.set_map set_filter tops [OF f] list_ex_iff
        Compr_image_eq image_image bex_simps(7) score_one_simps impact_down
      by auto
    then have "length (maximal_candidates tops) = card {m. upstream_most g ss m}"
      using d by (metis distinct_card length_map)
    moreover have "(\<exists>x. {m. upstream_most g ss m} = {x}) \<longleftrightarrow> (\<exists>!m. upstream_most g ss m)"
      unfolding Ex1_def set_eq_iff mem_Collect_eq singleton_iff by blast
    ultimately show ?thesis by (simp add: rca_ambiguous_def card_1_singleton_iff)
  qed
  obtain n where n: "count_clusters ss (best # rest) = Some n" using count_clusters_classes by blast
  define rf where "rf = min 1 (float_rat (of_nat (rc_radius best) / of_nat (length ss)))"
  have rf: "0 \<le> rf" "rf \<le> 1" using float_rat_nonneg by (auto simp: rf_def)
  define conf where "conf =
    (if rc_coverage best \<ge> 1 \<and> length (maximal_candidates tops) = 1
     then min (float_rat (95 / 100)) (float_rat (float_rat (7 / 10) + float_rat (1 / 4 * rf)))
     else if rc_coverage best \<ge> 1 then float_rat (1 / 2)
     else min (float_rat (55 / 100)) (float_rat (rc_coverage best * float_rat (6 / 10))))"
  have cor: "correlate g ss = Some \<lparr>rx_ranked = best # rest, rx_confidence = conf, rx_clusters = n,
      rx_maximal = maximal_candidates tops\<rparr>"
  proof -
    have "tops = best # filter (\<lambda>c. rc_coverage c = rc_coverage best) rest" by (simp add: tops_def)
    from this [symmetric] show ?thesis using ss(2) by (simp add: correlate_def sc n Let_def conf_def rf_def)
  qed
  have amb: "rca_ambiguous g ss" if "\<not> rc_coverage best \<ge> 1"
    using that full unfolding rca_ambiguous_def upstream_most_def by blast
  have cov0: "0 \<le> rc_coverage best"
    by (subst bs) (auto simp: score_one_def Let_def intro!: float_rat_nonneg)
  have floor: "RCA_CONFIDENCE_FLOOR \<le> conf \<longleftrightarrow> \<not> rca_ambiguous g ss"
    using confident_value [OF rf] float_constants(1,6,8) maxi amb
    by (auto simp: conf_def min_def)
  have bounds: "0 \<le> conf" "conf \<le> 1"
    using confident_value [OF rf] float_constants float_rat_nonneg [of "rc_coverage best * float_rat (6 / 10)"]
      float_rat_nonneg [of "6 / 10"] cov0
    by (auto simp: conf_def min_def)
  show thesis
    by (rule that [OF cor sc]) (use floor bounds ex rad amb bs in \<open>auto\<close>)
qed

section \<open>The property\<close>

lemma symptom_nodes_distinct: "distinct (symptom_nodes fs)"
  using dedup_by_distinct [of "\<lambda>n. n"] by (simp add: symptom_nodes_def)

lemma symptom_nodes_length: "length (symptom_nodes (dedup_findings fs)) \<le> length fs"
proof -
  have "length (symptom_nodes gs) \<le> length gs" for gs
  proof -
    have "length (symptom_nodes gs) \<le> length (List.map_filter fd_nodeId gs)"
      unfolding symptom_nodes_def by (rule list_emb_length [OF dedup_by_subseq])
    also have "\<dots> \<le> length gs" by (induction gs) (auto simp: map_filter_simps split: option.splits)
    finally show ?thesis .
  qed
  also have "length (dedup_findings fs) \<le> length fs"
    unfolding dedup_findings_def by (rule list_emb_length [OF dedup_by_subseq])
  finally show ?thesis by this
qed

lemma goes_down_radius:
  assumes "goes_down (wg_edges g) a b" "\<not> goes_down (wg_edges g) b a"
  shows "blast_radius g b < blast_radius g a"
  unfolding blast_radius_eq_card
proof (rule psubset_card_mono [OF goes_down_finite])
  have "a \<noteq> b" using assms by metis
  then have "b \<in> {n. n \<noteq> a \<and> goes_down (wg_edges g) a n}" using assms(1) by simp
  then show "{n. n \<noteq> b \<and> goes_down (wg_edges g) b n} \<subset> {n. n \<noteq> a \<and> goes_down (wg_edges g) a n}"
    using assms goes_down_trans by blast
qed

text \<open>Where no two of the full explanations take each other down, the widest one is upstream of them all.\<close>

lemma widest_is_upstream:
  assumes anti: "\<And>a b. explains g ss a \<Longrightarrow> explains g ss b \<Longrightarrow> a \<noteq> b \<Longrightarrow>
        goes_down (wg_edges g) a b \<Longrightarrow> \<not> goes_down (wg_edges g) b a"
    and m: "\<exists>!m. upstream_most g ss m"
    and best: "explains g ss best" "\<And>c. explains g ss c \<Longrightarrow> blast_radius g c \<le> blast_radius g best"
  shows "upstream_most g ss best \<and> (\<forall>c. explains g ss c \<longrightarrow> goes_down (wg_edges g) best c)"
proof -
  obtain m where m: "upstream_most g ss m" "\<And>c. upstream_most g ss c \<Longrightarrow> c = m" using m by blast
  have dn: "goes_down (wg_edges g) m c" if "explains g ss c" for c
    using that
  proof (induction "blast_radius g best - blast_radius g c" arbitrary: c rule: less_induct)
    case less
    show ?case
    proof (cases "c = m")
      case True
      then show ?thesis by (simp add: goes_down.failed)
    next
      case False
      then obtain d where d: "explains g ss d" "d \<noteq> c" "goes_down (wg_edges g) d c"
        using m(2) less.prems unfolding upstream_most_def by blast
      then have "blast_radius g c < blast_radius g d" using anti less.prems by (intro goes_down_radius) auto
      then have "goes_down (wg_edges g) m d" using d(1) best(2) [OF d(1)] by (intro less.hyps) auto
      with d(3) show ?thesis by (rule goes_down_trans)
    qed
  qed
  have "best = m"
  proof (rule ccontr)
    assume "best \<noteq> m"
    then have "blast_radius g best < blast_radius g m"
      using dn [OF best(1)] anti [of m best] m(1) best(1) unfolding upstream_most_def by (intro goes_down_radius) auto
    then show False using best(2) [of m] m(1) unfolding upstream_most_def by auto
  qed
  then show ?thesis using m(1) dn by blast
qed

text \<open>All the cases of the correlation.\<close>

lemma root_cause_cases:
  assumes "length fs \<le> 2 ^ 52"
  shows "\<exists>r. correlate_root_cause now fs graph = Some r
    \<and> (let ss = symptom_nodes (dedup_findings fs);
          evidence = rca_dedup_refs (concat (map fd_evidence (dedup_findings fs)));
          asserted = (ag_nextActions r = [''propose-remediation'']) in
       0 \<le> ag_confidence r \<and> ag_confidence r \<le> 1
     \<and> (asserted \<longleftrightarrow> RCA_CONFIDENCE_FLOOR \<le> ag_confidence r)
     \<and> (\<not> asserted \<longrightarrow> ag_nextActions r = [''recommend-contact-support'']
            \<and> ag_sourceReferences r = evidence \<and> ag_risks r \<in> {[]} \<union> {[n @ '' independent symptom cluster(s)''] | n. True})
     \<and> (asserted \<longleftrightarrow> correlatable (dedup_findings fs) graph
            \<and> (if length ss = 1 then 0 < blast_radius (the graph) (hd ss)
               else \<exists>!m. upstream_most (the graph) ss m))
     \<and> (asserted \<longrightarrow> (\<exists>c detail. ag_sourceReferences r = rca_dedup_refs (evidence @ [identified_ref c detail])
            \<and> explains (the graph) ss c
            \<and> (length ss \<noteq> 1 \<longrightarrow>
                 (\<forall>c'. explains (the graph) ss c' \<longrightarrow> blast_radius (the graph) c' \<le> blast_radius (the graph) c)
               \<and> ((\<forall>a b. explains (the graph) ss a \<and> explains (the graph) ss b \<and> a \<noteq> b
                        \<and> goes_down (wg_edges (the graph)) a b \<longrightarrow> \<not> goes_down (wg_edges (the graph)) b a) \<longrightarrow>
                    upstream_most (the graph) ss c
                    \<and> (\<forall>c'. explains (the graph) ss c' \<longrightarrow> goes_down (wg_edges (the graph)) c c'))))))"
proof -
  let ?fs = "dedup_findings fs" and ?ss = "symptom_nodes (dedup_findings fs)"
  show ?thesis
  proof (cases "correlatable ?fs graph")
    case False
    then show ?thesis
      using float_constants(1) by (simp add: correlate_root_cause_def uncorrelated_response_def Let_def)
  next
    case True
    then obtain g where g: "graph = Some g" "?ss \<noteq> []" by (auto simp: correlatable_def Let_def)
    show ?thesis
    proof (cases "length ?ss = 1")
      case one: True
      then obtain n where n: "?ss = [n]" by (cases ?ss) auto
      let ?ev = "rca_dedup_refs (concat (map fd_evidence ?fs))"
      define r where "r = single_node_response now n (map fd_title ?fs) ?ev (blast_radius g n)
        (''symptoms='' @ show_nat (length ?fs) @ ''; nodes='' @ repr_list ?ss)"
      have cr: "correlate_root_cause now fs graph = Some r"
        using True n g(1) by (simp add: correlate_root_cause_def r_def Let_def)
      note c = float_constants(1,2,11,12,13,14)
      have fl: "RCA_CONFIDENCE_FLOOR \<le> float_rat (8 / 10)" "\<not> RCA_CONFIDENCE_FLOOR \<le> float_rat (4 / 10)"
        "float_rat (8 / 10) \<le> 1" "0 \<le> float_rat (8 / 10)" "float_rat (4 / 10) \<le> 1" "0 \<le> float_rat (4 / 10)"
        using c by linarith+
      show ?thesis
      proof (cases "0 < blast_radius g n")
        case pos: True
        have "\<exists>c detail. ag_sourceReferences r = rca_dedup_refs (?ev @ [identified_ref c detail]) \<and> explains g [n] c"
          unfolding r_def single_node_response_def Let_def explains_def
          using pos fl(1) by (intro exI [of _ n] exI) (simp add: goes_down.failed)
        moreover have "ag_nextActions r = [''propose-remediation'']" "ag_confidence r = float_rat (8 / 10)"
          using pos fl(1) by (simp_all add: r_def single_node_response_def)
        ultimately show ?thesis
          unfolding cr Let_def g(1) option.sel n using cr True n g(1) pos fl by (intro exI [of _ r]) simp
      next
        case False
        then have "ag_nextActions r = [''recommend-contact-support'']" "ag_confidence r = float_rat (4 / 10)"
          "ag_sourceReferences r = ?ev" "ag_risks r = []"
          using fl(2) by (simp_all add: r_def single_node_response_def)
        then show ?thesis
          unfolding cr Let_def g(1) option.sel n using cr True n g(1) False fl by (intro exI [of _ r]) simp
      qed
    next
      case False
      have len: "length ?ss \<le> 2 ^ 52" using symptom_nodes_length [of fs] assms by linarith
      from correlate_exact [OF symptom_nodes_distinct g(2) len, of g]
      obtain rx best rest where rx: "correlate g ?ss = Some rx" "rx_ranked rx = best # rest"
        "RCA_CONFIDENCE_FLOOR \<le> rx_confidence rx \<longleftrightarrow> \<not> rca_ambiguous g ?ss"
        "0 \<le> rx_confidence rx" "rx_confidence rx \<le> 1"
        and full: "\<not> rca_ambiguous g ?ss \<Longrightarrow> explains g ?ss (rc_node_id best)"
        and wide: "explains g ?ss (rc_node_id best) \<Longrightarrow>
           \<forall>c. explains g ?ss c \<longrightarrow> blast_radius g c \<le> blast_radius g (rc_node_id best)" by metis
      define r where "r = correlated_response now (''symptoms='' @ show_nat (length ?fs) @ ''; nodes='' @ repr_list ?ss)
        (map fd_title ?fs) (rca_dedup_refs (concat (map fd_evidence ?fs))) ?ss rx"
      have cr: "correlate_root_cause now fs graph = Some r"
        using True False g rx(1) by (simp add: correlate_root_cause_def Let_def r_def)
      show ?thesis
      proof (cases "rca_ambiguous g ?ss")
        case amb: True
        then show ?thesis
          using True False g rx cr by (simp add: Let_def r_def correlated_response_def rca_ambiguous_def)
      next
        case amb: False
        have m: "\<exists>!m. upstream_most g ?ss m" using amb by (simp add: rca_ambiguous_def)
        note e = full [OF amb] wide [OF full [OF amb]]
        have up: "upstream_most g ?ss (rc_node_id best)
            \<and> (\<forall>c. explains g ?ss c \<longrightarrow> goes_down (wg_edges g) (rc_node_id best) c)"
          if "\<forall>a b. explains g ?ss a \<and> explains g ?ss b \<and> a \<noteq> b \<and> goes_down (wg_edges g) a b
                \<longrightarrow> \<not> goes_down (wg_edges g) b a"
          by (rule widest_is_upstream) (use that m e in blast)+
        obtain detail where detail: "ag_sourceReferences r = rca_dedup_refs (rca_dedup_refs (concat (map fd_evidence ?fs))
            @ [identified_ref (rc_node_id best) detail])"
          using rx(2,3) amb by (auto simp: r_def correlated_response_def Let_def)
        have conf: "ag_confidence r = rx_confidence rx" "ag_nextActions r = [''propose-remediation'']"
          using rx(3) amb by (simp_all add: r_def correlated_response_def Let_def)
        have asserted: "\<exists>c detail. ag_sourceReferences r = rca_dedup_refs (rca_dedup_refs (concat (map fd_evidence ?fs))
               @ [identified_ref c detail])
            \<and> explains g ?ss c
            \<and> (length ?ss \<noteq> 1 \<longrightarrow>
                 (\<forall>c'. explains g ?ss c' \<longrightarrow> blast_radius g c' \<le> blast_radius g c)
               \<and> ((\<forall>a b. explains g ?ss a \<and> explains g ?ss b \<and> a \<noteq> b
                        \<and> goes_down (wg_edges g) a b \<longrightarrow> \<not> goes_down (wg_edges g) b a) \<longrightarrow>
                    upstream_most g ?ss c \<and> (\<forall>c'. explains g ?ss c' \<longrightarrow> goes_down (wg_edges g) c c')))"
          by (rule exI [of _ "rc_node_id best"], rule exI [of _ detail], intro conjI impI detail e)
             (rule up [THEN conjunct1] up [THEN conjunct2], assumption)+
        show ?thesis
          unfolding cr Let_def g(1) option.sel
          by (intro exI [of _ r] conjI impI asserted)
             (use cr conf rx(3-5) amb True False g(1) m in simp_all)
      qed
    qed
  qed
qed

text \<open>C14: C14: 
  C0: Root-cause correlation asserts a cause exactly when the graph singles one out. With two symptom nodes
  or more on an intact graph, the response proposes remediation, which is the same as its confidence being
  at least the floor, if and only if exactly one node explains every symptom without being taken down by
  another one that does. The node it then cites takes every symptom down and has the widest blast radius of
  all that do; where no two of those take each other down it is upstream of all of them. Otherwise, and
  wherever a finding has no node, a node is not in the graph or an edge dangles, the response advises
  support and cites nothing but the evidence. A single symptom node is the cause exactly when something
  depends on it. The loops end, and the confidence is a number between 0 and 1.
\<close>

theorem root_cause_exact:
  assumes "length fs \<le> 2 ^ 52"
  shows "\<exists>r. correlate_root_cause now fs graph = Some r
    \<and> (let ss = symptom_nodes (dedup_findings fs);
          evidence = rca_dedup_refs (concat (map fd_evidence (dedup_findings fs)));
          asserted = (ag_nextActions r = [''propose-remediation'']) in
       0 \<le> ag_confidence r \<and> ag_confidence r \<le> 1
     \<and> (asserted \<longleftrightarrow> RCA_CONFIDENCE_FLOOR \<le> ag_confidence r)
     \<and> (\<not> asserted \<longrightarrow> ag_nextActions r = [''recommend-contact-support'']
            \<and> ag_sourceReferences r = evidence \<and> ag_risks r \<in> {[]} \<union> {[n @ '' independent symptom cluster(s)''] | n. True})
     \<and> (asserted \<longleftrightarrow> correlatable (dedup_findings fs) graph
            \<and> (if length ss = 1 then 0 < blast_radius (the graph) (hd ss)
               else \<exists>!m. upstream_most (the graph) ss m))
     \<and> (asserted \<longrightarrow> (\<exists>c detail. ag_sourceReferences r = rca_dedup_refs (evidence @ [identified_ref c detail])
            \<and> explains (the graph) ss c
            \<and> (length ss \<noteq> 1 \<longrightarrow>
                 (\<forall>c'. explains (the graph) ss c' \<longrightarrow> blast_radius (the graph) c' \<le> blast_radius (the graph) c)
               \<and> ((\<forall>a b. explains (the graph) ss a \<and> explains (the graph) ss b \<and> a \<noteq> b
                        \<and> goes_down (wg_edges (the graph)) a b \<longrightarrow> \<not> goes_down (wg_edges (the graph)) b a) \<longrightarrow>
                    upstream_most (the graph) ss c
                    \<and> (\<forall>c'. explains (the graph) ss c' \<longrightarrow> goes_down (wg_edges (the graph)) c c'))))))"
  by (rule root_cause_cases [OF assms])

section \<open>Examples\<close>

definition sample_rca_node :: "string \<Rightarrow> resource_node" where
  "sample_rca_node i = \<lparr>rn_id = i, rn_name = i, rn_type = ''vm'', rn_workload = None, rn_tier = None,
     rn_role = Some ''Web'', rn_tags = []\<rparr>"

definition sample_rca_edge :: "string \<Rightarrow> string \<Rightarrow> dependency_edge" where
  "sample_rca_edge s t = \<lparr>de_source = s, de_target = t, de_type = ET_depends_on, de_redundant = False, de_origin = ''pack''\<rparr>"

definition sample_symptom :: "string \<Rightarrow> finding" where
  "sample_symptom n =
     \<lparr>fd_id = n, fd_module = ''aiops'', fd_title = ''slow'', fd_passed = Some False, fd_severity = SV_high,
      fd_nodeId = Some n, fd_blastRadius = 0, fd_evidence = [\<lparr>sr_kind = ''metric'', sr_id = ''cpu'', sr_detail = None\<rparr>],
      fd_provenance = PK_pack, fd_packId = Some ''p'', fd_packVersion = Some ''1'', fd_structuralKind = None,
      fd_detail = None, fd_createdAt = 0\<rparr>"

definition sample_rca_graph :: workload_graph where
  "sample_rca_graph = \<lparr>wg_nodes = map sample_rca_node [''a'', ''b'', ''d''],
     wg_edges = [sample_rca_edge ''a'' ''d'', sample_rca_edge ''b'' ''d'']\<rparr>"

text \<open>What explains the symptoms, by evaluation over the candidates.\<close>

lemma explains_filter:
  assumes "ss \<noteq> []"
  shows "explains g ss c \<longleftrightarrow>
    c \<in> set (filter (\<lambda>c. list_all (\<lambda>s. dict_get (compute_impact g c) s = Some HS_down) ss) (candidate_nodes g ss))"
  using explains_candidate [OF _ assms] by (auto simp: explains_def list_all_iff impact_down)

lemma sample_explains: "explains sample_rca_graph [''a'', ''b''] c \<longleftrightarrow> c = ''d''"
proof -
  have "filter (\<lambda>c. list_all (\<lambda>s. dict_get (compute_impact sample_rca_graph c) s = Some HS_down) [''a'', ''b''])
      (candidate_nodes sample_rca_graph [''a'', ''b'']) = [''d'']" by code_simp
  then show ?thesis by (subst explains_filter) simp_all
qed

theorem root_cause_exact_witness:
  "\<exists>r c detail. correlate_root_cause 0 [sample_symptom ''a'', sample_symptom ''b''] (Some sample_rca_graph) = Some r
     \<and> ag_nextActions r = [''propose-remediation''] \<and> c = ''d''
     \<and> ag_sourceReferences r
       = rca_dedup_refs ([\<lparr>sr_kind = ''metric'', sr_id = ''cpu'', sr_detail = None\<rparr>] @ [identified_ref c detail])"
proof -
  let ?fs = "[sample_symptom ''a'', sample_symptom ''b'']"
  have s: "symptom_nodes (dedup_findings ?fs) = [''a'', ''b'']" "correlatable (dedup_findings ?fs) (Some sample_rca_graph)"
    "rca_dedup_refs (concat (map fd_evidence (dedup_findings ?fs))) = [\<lparr>sr_kind = ''metric'', sr_id = ''cpu'', sr_detail = None\<rparr>]"
    by code_simp+
  have "\<exists>!m. upstream_most sample_rca_graph [''a'', ''b''] m" by (auto simp: upstream_most_def sample_explains)
  then show ?thesis
    using root_cause_exact [of ?fs 0 "Some sample_rca_graph"] s
    by (simp add: Let_def sample_explains) blast
qed

text \<open>
  Where two nodes depend on each other, both can explain every symptom while neither is upstream of the
  other, so neither counts as upstream-most. A third full explanation then makes the result look
  unambiguous, but the node asserted is the widest one: a member of the cycle, and not the only candidate
  that is upstream-most.
\<close>

definition cyclic_rca_graph :: workload_graph where
  "cyclic_rca_graph = \<lparr>wg_nodes = map sample_rca_node [''a'', ''b'', ''m'', ''x'', ''y''],
     wg_edges = [sample_rca_edge ''a'' ''m'', sample_rca_edge ''b'' ''m'', sample_rca_edge ''a'' ''x'',
       sample_rca_edge ''b'' ''x'', sample_rca_edge ''x'' ''y'', sample_rca_edge ''y'' ''x'']\<rparr>"

lemma cycle_member_asserted:
  "\<exists>rx. correlate cyclic_rca_graph [''a'', ''b''] = Some rx \<and> RCA_CONFIDENCE_FLOOR \<le> rx_confidence rx
     \<and> rc_node_id (hd (rx_ranked rx)) \<in> {''x'', ''y''}
     \<and> (\<forall>m. upstream_most cyclic_rca_graph [''a'', ''b''] m \<longleftrightarrow> m = ''m'')"
proof -
  let ?g = cyclic_rca_graph and ?ss = "[''a'', ''b'']"
  have "set (filter (\<lambda>c. list_all (\<lambda>s. dict_get (compute_impact ?g c) s = Some HS_down) ?ss) (candidate_nodes ?g ?ss))
      = {''m'', ''x'', ''y''}" by code_simp
  then have e: "explains ?g ?ss c \<longleftrightarrow> c \<in> {''m'', ''x'', ''y''}" for c by (subst explains_filter) simp_all
  have d: "dict_get (compute_impact ?g ''x'') ''y'' = Some HS_down" "dict_get (compute_impact ?g ''y'') ''x'' = Some HS_down"
    "dict_get (compute_impact ?g ''x'') ''m'' \<noteq> Some HS_down" "dict_get (compute_impact ?g ''y'') ''m'' \<noteq> Some HS_down"
    by code_simp+
  have r: "blast_radius ?g ''m'' = 2" "blast_radius ?g ''x'' = 3" by code_simp+
  have u: "\<forall>m. upstream_most ?g ?ss m \<longleftrightarrow> m = ''m''"
    using d unfolding impact_down upstream_most_def e by auto
  then have "\<not> rca_ambiguous ?g ?ss" by (auto simp: rca_ambiguous_def)
  moreover have "distinct ?ss" "?ss \<noteq> []" "length ?ss \<le> 2 ^ 52" by simp_all
  ultimately obtain rx best rest where rx: "correlate ?g ?ss = Some rx" "rx_ranked rx = best # rest"
    "RCA_CONFIDENCE_FLOOR \<le> rx_confidence rx" and b: "explains ?g ?ss (rc_node_id best)"
    and w: "\<forall>c. explains ?g ?ss c \<longrightarrow> blast_radius ?g c \<le> blast_radius ?g (rc_node_id best)"
    using correlate_exact [of ?ss ?g] by metis
  have "blast_radius ?g ''x'' \<le> blast_radius ?g (rc_node_id best)" using w e by blast
  then have "rc_node_id best \<noteq> ''m''" using r by auto
  then have "rc_node_id best \<in> {''x'', ''y''}" using b unfolding e by blast
  then show ?thesis using rx u by auto
qed

end
