(* ===== verification/Remediation.thy ===== *)
theory Remediation
  imports Root_Cause
begin

text \<open>
  Advisory remediation, \<open>src/modules/aiops/remediation.py\<close>, with the two functions of
  \<open>src/modules/aiops/module.py\<close> that feed it: the remediation section of an Ops pack is parsed all or
  nothing, the role of the asserted root cause selects the steps, and without a confident root cause or a
  matching step the advice is to contact support.

  A note is a value that names what its text says.
\<close>

section \<open>Categories\<close>

definition CALL_SUPPORT_ACTION :: string where
  "CALL_SUPPORT_ACTION = ''recommend-contact-support''"

definition CATCH_ALL_KEYS :: "string list" where
  "CATCH_ALL_KEYS = [''*'', ''default'']"

definition MAX_CATEGORIES :: nat where "MAX_CATEGORIES = 64"
definition MAX_STEPS_PER_CATEGORY :: nat where "MAX_STEPS_PER_CATEGORY = 20"
definition MAX_DESCRIPTION_LEN :: nat where "MAX_DESCRIPTION_LEN = 500"
definition MAX_RUNBOOK_LEN :: nat where "MAX_RUNBOOK_LEN = 2048"
definition MAX_CATEGORY_KEY_LEN :: nat where "MAX_CATEGORY_KEY_LEN = 64"

text \<open>The pattern \<open>^(\*|[a-z0-9][a-z0-9._/-]*)$\<close>; its dollar also matches before a final line feed.\<close>

definition key_char :: "char \<Rightarrow> bool" where
  "key_char c \<longleftrightarrow> c \<in> set ''abcdefghijklmnopqrstuvwxyz0123456789''"

definition category_key_body :: "string \<Rightarrow> bool" where
  "category_key_body s \<longleftrightarrow>
     s = ''*'' \<or> (s \<noteq> [] \<and> key_char (hd s) \<and> list_all (\<lambda>c. key_char c \<or> c \<in> set ''._/-'') (tl s))"

definition category_key_match :: "string \<Rightarrow> bool" where
  "category_key_match s \<longleftrightarrow>
     category_key_body s \<or> (s \<noteq> [] \<and> last s = LF \<and> category_key_body (butlast s))"

definition is_valid_category_key :: "string \<Rightarrow> bool" where
  "is_valid_category_key key \<longleftrightarrow> length key \<le> MAX_CATEGORY_KEY_LEN \<and> category_key_match key"

record remediation_step =
  rd_description :: string
  rd_runbook :: "string option"
  rd_escalate_severity :: "string option"

record remediation_table =
  rt_pack_id :: string
  rt_pack_version :: string
  rt_steps :: "(string, remediation_step list) dict"

definition node_category :: "resource_node option \<Rightarrow> string option" where
  "node_category node =
     (case node of
        None \<Rightarrow> None
      | Some n \<Rightarrow>
          (let role = py_lower (py_strip (case rn_role n of None \<Rightarrow> [] | Some r \<Rightarrow> r)) in
           if role = [] \<or> role \<in> set CATCH_ALL_KEYS \<or> \<not> is_valid_category_key role then None else Some role))"

definition IDENTIFIED :: string where
  "IDENTIFIED = ''identified root cause''"

definition asserts_root :: "source_reference \<Rightarrow> bool" where
  "asserts_root r \<longleftrightarrow>
     sr_kind r = ''resource'' \<and> prefix IDENTIFIED (case sr_detail r of None \<Rightarrow> [] | Some d \<Rightarrow> d)"

definition extract_root_cause_node_id :: "agent_response \<Rightarrow> string option" where
  "extract_root_cause_node_id rca = map_option sr_id (find asserts_root (ag_sourceReferences rca))"

section \<open>Parsing a remediation section\<close>

datatype remediation_note =
    BodyNotAnObject
  | RemediationsNotAnObject
  | CategoryCount nat
  | BadCategoryKey pyval
  | CategoryKeyPattern string
  | CategoryNotAList string
  | StepCount string nat
  | StepNotAnObject string nat
  | StepUnknownFields string nat
  | StepNoDescription string nat
  | StepLongDescription string nat
  | StepBadRunbook string nat
  | StepBadSeverity string nat

definition VALID_SEVERITIES :: "string list" where
  "VALID_SEVERITIES = [''info'', ''low'', ''medium'', ''high'', ''critical'']"

definition STEP_FIELDS :: "string list" where
  "STEP_FIELDS = [''description'', ''runbook'', ''escalateSeverity'']"

definition given_field :: "raw_dict \<Rightarrow> string \<Rightarrow> pyval option" where
  "given_field d k = (case vget d k of Some VNone \<Rightarrow> None | v \<Rightarrow> v)"

text \<open>\<open>_parse_step\<close>. A field whose key is no string is unknown; so is every other name.\<close>

definition parse_step :: "string \<Rightarrow> nat \<Rightarrow> pyval \<Rightarrow> remediation_note + remediation_step" where
  "parse_step category i raw_step =
     (case raw_step of
        VDict d \<Rightarrow>
          (if list_ex (\<lambda>(k, _). case str_key k of None \<Rightarrow> True | Some s \<Rightarrow> s \<notin> set STEP_FIELDS) d
           then Inl (StepUnknownFields category i)
           else (case Option.bind (vget d ''description'') str_key of
              None \<Rightarrow> Inl (StepNoDescription category i)
            | Some description \<Rightarrow>
                if py_strip description = [] then Inl (StepNoDescription category i)
                else if length description > MAX_DESCRIPTION_LEN then Inl (StepLongDescription category i)
                else (let runbook = map_option str_key (given_field d ''runbook'');
                          escalate = map_option str_key (given_field d ''escalateSeverity'')
                      in if case runbook of None \<Rightarrow> False | Some None \<Rightarrow> True
                            | Some (Some s) \<Rightarrow> length s > MAX_RUNBOOK_LEN
                         then Inl (StepBadRunbook category i)
                         else if case escalate of None \<Rightarrow> False | Some None \<Rightarrow> True
                            | Some (Some s) \<Rightarrow> s \<notin> set VALID_SEVERITIES
                         then Inl (StepBadSeverity category i)
                         else Inr \<lparr>rd_description = py_strip description,
                                   rd_runbook = Option.bind runbook id, rd_escalate_severity = Option.bind escalate id\<rparr>)))
      | _ \<Rightarrow> Inl (StepNotAnObject category i))"

fun parse_steps :: "string \<Rightarrow> nat \<Rightarrow> pyval list \<Rightarrow> remediation_note + remediation_step list" where
  "parse_steps category i [] = Inr []"
| "parse_steps category i (raw # raws) =
     rbind (parse_step category i raw) (\<lambda>s. rbind (parse_steps category (i + 1) raws) (\<lambda>ss. Inr (s # ss)))"

definition parse_category :: "string \<Rightarrow> pyval \<Rightarrow> remediation_note + remediation_step list" where
  "parse_category category raw_steps =
     (case raw_steps of
        VList raws \<Rightarrow>
          (if raws = [] \<or> length raws > MAX_STEPS_PER_CATEGORY then Inl (StepCount category (length raws))
           else parse_steps category 0 raws)
      | _ \<Rightarrow> Inl (CategoryNotAList category))"

fun parse_categories ::
  "raw_dict \<Rightarrow> (string, remediation_step list) dict \<Rightarrow> remediation_note + (string, remediation_step list) dict" where
  "parse_categories [] table = Inr table"
| "parse_categories ((k, raw_steps) # d) table =
     (case str_key k of
        None \<Rightarrow> Inl (BadCategoryKey k)
      | Some category \<Rightarrow>
          if py_strip category = [] then Inl (BadCategoryKey k)
          else if \<not> is_valid_category_key category then Inl (CategoryKeyPattern category)
          else rbind (parse_category category raw_steps)
                 (\<lambda>steps. parse_categories d (dict_set category steps table)))"

text \<open>The result is \<open>Inl None\<close> where the pack has no remediation section, which is no error.\<close>

definition parse_remediation_table ::
  "string \<Rightarrow> string \<Rightarrow> pyval \<Rightarrow> remediation_note option + remediation_table" where
  "parse_remediation_table pack_id pack_version body =
     (case body of
        VDict b \<Rightarrow>
          (case given_field b ''remediations'' of
             None \<Rightarrow> Inl None
           | Some (VDict raw) \<Rightarrow>
               if raw = [] \<or> length raw > MAX_CATEGORIES then Inl (Some (CategoryCount (length raw)))
               else (case parse_categories raw [] of
                       Inl note \<Rightarrow> Inl (Some note)
                     | Inr table \<Rightarrow> Inr \<lparr>rt_pack_id = pack_id, rt_pack_version = pack_version, rt_steps = table\<rparr>)
           | Some _ \<Rightarrow> Inl (Some RemediationsNotAnObject))
      | _ \<Rightarrow> Inl (Some BodyNotAnObject))"

section \<open>The lookup\<close>

definition table_steps :: "remediation_table \<Rightarrow> string \<Rightarrow> remediation_step list" where
  "table_steps t key = (case dict_get (rt_steps t) key of None \<Rightarrow> [] | Some ss \<Rightarrow> ss)"

definition steps_under :: "remediation_table list \<Rightarrow> string \<Rightarrow> (remediation_step \<times> remediation_table) list" where
  "steps_under ordered key = concat (map (\<lambda>t. map (\<lambda>s. (s, t)) (table_steps t key)) ordered)"

definition match_steps :: "string \<Rightarrow> remediation_table list \<Rightarrow> (remediation_step \<times> remediation_table) list" where
  "match_steps category tables =
     (let ordered = sort_key (\<lambda>t. (rt_pack_id t, rt_pack_version t)) tables in
      case filter (\<lambda>ms. ms \<noteq> []) (map (steps_under ordered) (category # CATCH_ALL_KEYS)) of
        [] \<Rightarrow> [] | ms # _ \<Rightarrow> ms)"

section \<open>The proposal\<close>

definition GUIDED_INPUT_SUMMARY :: string where
  "GUIDED_INPUT_SUMMARY =
     ''advisory remediation for a confidence-gated RCA; root cause cited in sourceReferences''"

text \<open>The dash of this text is an em dash in the source, which is no code point of the model.\<close>

definition support_response :: "agent_response \<Rightarrow> string \<Rightarrow> agent_response" where
  "support_response rca reason =
     rca\<lparr>ag_taskType := ''guided-remediation'', ag_inputSummary := GUIDED_INPUT_SUMMARY, ag_risks := [],
         ag_recommendations := [''No verified advisory remediation available (fail-closed: '' @ reason
                                @ '') - contact support.''],
         ag_nextActions := [CALL_SUPPORT_ACTION]\<rparr>"

definition truthy_str :: "string option \<Rightarrow> string option" where
  "truthy_str s = (if s = Some [] then None else s)"

definition advisory_line :: "remediation_step \<Rightarrow> remediation_table \<Rightarrow> string" where
  "advisory_line s t =
     ''Advisory ('' @ rt_pack_id t @ ''@'' @ rt_pack_version t @ ''): '' @ rd_description s
     @ (case truthy_str (rd_escalate_severity s) of None \<Rightarrow> []
        | Some e \<Rightarrow> '' [escalate/call support at severity >= '' @ e @ '']'')
     @ (case truthy_str (rd_runbook s) of None \<Rightarrow> [] | Some r \<Rightarrow> '' (runbook: '' @ r @ '')'')"

definition table_key :: "remediation_table \<Rightarrow> string \<times> string" where
  "table_key t = (rt_pack_id t, rt_pack_version t)"

definition pack_citation :: "remediation_table \<Rightarrow> source_reference" where
  "pack_citation t = \<lparr>sr_kind = ''pack'', sr_id = rt_pack_id t, sr_detail = Some (''version '' @ rt_pack_version t)\<rparr>"

definition propose_remediation ::
  "agent_response \<Rightarrow> string option \<Rightarrow> remediation_table list \<Rightarrow> agent_response" where
  "propose_remediation rca category tables =
     (case truthy_str category of
        None \<Rightarrow> support_response rca ''rca-below-floor-or-no-category''
      | Some c \<Rightarrow>
          if ag_confidence rca < RCA_CONFIDENCE_FLOOR then support_response rca ''rca-below-floor-or-no-category''
          else (let matched = match_steps c tables in
                if matched = [] then support_response rca (''no-remediation-for-category:'' @ c)
                else rca\<lparr>ag_taskType := ''guided-remediation'', ag_inputSummary := GUIDED_INPUT_SUMMARY,
                  ag_risks := [show_nat (length matched)
                               @ '' advisory remediation step(s) proposed from Ops pack content''],
                  ag_recommendations := map (\<lambda>(s, t). advisory_line s t) matched,
                  ag_sourceReferences := rca_dedup_refs (ag_sourceReferences rca
                    @ map pack_citation (dedup_by table_key [] (map snd matched))),
                  ag_nextActions := map (\<lambda>(s, _). rd_description s) matched\<rparr>))"

section \<open>The edge\<close>

datatype ops_note = OpsUnverified string | OpsRejected string remediation_note

definition load_ops_remediations :: "packs_service option \<Rightarrow> string \<Rightarrow> remediation_table list \<times> ops_note list" where
  "load_ops_remediations packs workload =
     (case packs of
        None \<Rightarrow> ([], [])
      | Some service \<Rightarrow>
          (case service workload PT_ops of
             Inl _ \<Rightarrow> ([], [OpsUnverified workload])
           | Inr loaded \<Rightarrow>
               (let parsed = map (\<lambda>p. (pm_id (pk_manifest p),
                        parse_remediation_table (pm_id (pk_manifest p)) (pm_version (pk_manifest p)) (pk_body p))) loaded
                in (List.map_filter (\<lambda>(_, r). case r of Inr t \<Rightarrow> Some t | Inl _ \<Rightarrow> None) parsed,
                    List.map_filter (\<lambda>(i, r). case r of Inl (Some n) \<Rightarrow> Some (OpsRejected i n) | _ \<Rightarrow> None) parsed))))"

definition enrich_rca_with_remediation ::
  "agent_response \<Rightarrow> workload_graph option \<Rightarrow> remediation_table list \<Rightarrow> agent_response" where
  "enrich_rca_with_remediation rca graph tables =
     (let node = (case (truthy_str (extract_root_cause_node_id rca), graph) of
                    (Some i, Some g) \<Rightarrow> find (\<lambda>n. rn_id n = i) (wg_nodes g)
                  | _ \<Rightarrow> None)
      in propose_remediation rca (node_category node) tables)"

section \<open>What is matched\<close>

lemma steps_under_mem: "(s, t) \<in> set (steps_under ts key) \<longleftrightarrow> t \<in> set ts \<and> s \<in> set (table_steps t key)"
  by (auto simp: steps_under_def)

lemma steps_under_empty: "steps_under ts key = [] \<longleftrightarrow> (\<forall>t \<in> set ts. table_steps t key = [])"
  by (auto simp: steps_under_def)

text \<open>A matched step is filed under the category, or under a catch-all where no table has the category.\<close>

definition filed_under :: "remediation_table list \<Rightarrow> string \<Rightarrow> string \<Rightarrow> bool" where
  "filed_under tables category key \<longleftrightarrow>
     key = category
     \<or> ((\<forall>t \<in> set tables. table_steps t category = [])
        \<and> (key = ''*'' \<or> (key = ''default'' \<and> (\<forall>t \<in> set tables. table_steps t ''*'' = []))))"

lemma match_steps_mem:
  assumes "(s, t) \<in> set (match_steps category tables)"
  shows "t \<in> set tables \<and> (\<exists>key. filed_under tables category key \<and> s \<in> set (table_steps t key))"
  using assms
  by (auto simp: match_steps_def CATCH_ALL_KEYS_def Let_def steps_under_mem steps_under_empty filed_under_def
      split: if_splits)

lemma match_steps_empty:
  "match_steps category tables = [] \<longleftrightarrow>
     (\<forall>t \<in> set tables. \<forall>key \<in> {category, ''*'', ''default''}. table_steps t key = [])"
  by (auto simp: match_steps_def CATCH_ALL_KEYS_def Let_def steps_under_empty)

lemma ref_key_inj: "ref_key a = ref_key (b :: source_reference) \<longleftrightarrow> a = b"
  by (cases a; cases b) (auto simp: ref_key_def)

lemma find_dedup_refs: "find asserts_root (rca_dedup_refs rs) = find asserts_root rs"
proof -
  have "find asserts_root (dedup_by ref_key seen rs) = find asserts_root rs"
    if "\<And>r. r \<in> set rs \<Longrightarrow> asserts_root r \<Longrightarrow> ref_key r \<notin> set seen" for seen
    using that
  proof (induction rs arbitrary: seen)
    case (Cons r rs)
    show ?case
    proof (cases "asserts_root r")
      case True
      then show ?thesis using Cons.prems [of r] by simp
    next
      case False
      have "x \<in> set rs \<Longrightarrow> asserts_root x \<Longrightarrow> ref_key x \<noteq> ref_key r" for x
        using False by (auto simp: asserts_root_def ref_key_def)
      then show ?thesis using Cons.IH [of seen] Cons.IH [of "ref_key r # seen"] Cons.prems False by auto
    qed
  qed simp
  then show ?thesis by (simp add: rca_dedup_refs_def)
qed

lemma find_after: "find P xs = None \<Longrightarrow> find P (xs @ ys) = find P ys"
  by (induction xs) (auto split: if_splits)

lemma asserts_identified: "asserts_root (identified_ref c detail)"
  by (simp add: asserts_root_def identified_ref_def IDENTIFIED_def)

text \<open>Below the floor the correlation cites the evidence only; above it, the node it singled out.\<close>

lemma extracted_root:
  assumes len: "length fs \<le> 2 ^ 52" and rca: "correlate_root_cause now fs graph = Some rca"
    and ev: "\<forall>f \<in> set fs. \<forall>r \<in> set (fd_evidence f). \<not> asserts_root r"
  shows "if ag_confidence rca < RCA_CONFIDENCE_FLOOR then extract_root_cause_node_id rca = None
    else \<exists>c. extract_root_cause_node_id rca = Some c \<and> graph \<noteq> None
           \<and> explains (the graph) (symptom_nodes (dedup_findings fs)) c"
proof -
  let ?ev = "rca_dedup_refs (concat (map fd_evidence (dedup_findings fs)))"
  have "r \<in> set ?ev \<Longrightarrow> \<not> asserts_root r" for r
    using ev dedup_by_subset [of ref_key "[]"] dedup_by_subset [of finding_key "[]" fs]
    unfolding rca_dedup_refs_def dedup_findings_def by fastforce
  then have none: "find asserts_root ?ev = None" by (auto simp: find_None_iff)
  define a where "a \<longleftrightarrow> ag_nextActions rca = [''propose-remediation'']"
  note facts = root_cause_cases [OF len, of now graph, unfolded rca option.inject Let_def]
  have n: "a \<longleftrightarrow> RCA_CONFIDENCE_FLOOR \<le> ag_confidence rca" "\<not> a \<Longrightarrow> ag_sourceReferences rca = ?ev"
    "a \<Longrightarrow> correlatable (dedup_findings fs) graph"
    using facts unfolding a_def by (elim exE conjE, hypsubst, blast)+
  have n4: "a \<Longrightarrow> \<exists>c detail. ag_sourceReferences rca = rca_dedup_refs (?ev @ [identified_ref c detail])
         \<and> explains (the graph) (symptom_nodes (dedup_findings fs)) c"
    using facts unfolding a_def by (elim exE conjE, hypsubst) blast
  show ?thesis
  proof (cases a)
    case True
    obtain c detail where c: "ag_sourceReferences rca = rca_dedup_refs (?ev @ [identified_ref c detail])"
      "explains (the graph) (symptom_nodes (dedup_findings fs)) c" using n4 [OF True] by blast
    have "find asserts_root (?ev @ [identified_ref c detail]) = Some (identified_ref c detail)"
      using none asserts_identified by (simp add: find_after)
    then have "extract_root_cause_node_id rca = Some c"
      unfolding extract_root_cause_node_id_def c(1) find_dedup_refs by (simp add: identified_ref_def)
    moreover have "graph \<noteq> None" using n(3) [OF True] by (auto simp: correlatable_def Let_def)
    ultimately show ?thesis using c(2) n(1) True by auto
  next
    case False
    then show ?thesis using n(1,2) none by (simp add: extract_root_cause_node_id_def)
  qed
qed

section \<open>The bounds of an accepted table\<close>

definition step_bounded :: "remediation_step \<Rightarrow> bool" where
  "step_bounded s \<longleftrightarrow>
     rd_description s \<noteq> [] \<and> length (rd_description s) \<le> MAX_DESCRIPTION_LEN
     \<and> (\<forall>r. rd_runbook s = Some r \<longrightarrow> length r \<le> MAX_RUNBOOK_LEN)
     \<and> (\<forall>e. rd_escalate_severity s = Some e \<longrightarrow> e \<in> set VALID_SEVERITIES)"

lemma py_strip_length: "length (py_strip s) \<le> length s"
  unfolding py_strip_def by (metis length_dropWhile_le length_rev order_trans)

lemma parse_step_bounded: "parse_step category i raw = Inr s \<Longrightarrow> step_bounded s"
  by (auto simp: parse_step_def step_bounded_def Let_def split: pyval.splits if_splits option.splits)
     (metis py_strip_length le_trans not_less)+

lemma parse_steps_Inr:
  "parse_steps category i raws = Inr ss \<Longrightarrow> length ss = length raws \<and> list_all step_bounded ss
     \<and> (\<forall>j < length raws. parse_step category (i + j) (raws ! j) = Inr (ss ! j))"
proof (induction raws arbitrary: i ss)
  case (Cons raw raws)
  obtain s ss' where s: "parse_step category i raw = Inr s" "parse_steps category (i + 1) raws = Inr ss'" "ss = s # ss'"
    using Cons.prems by (auto simp: rbind_Inr_iff)
  show ?case
  proof (intro conjI allI impI)
    fix j assume "j < length (raw # raws)"
    then show "parse_step category (i + j) ((raw # raws) ! j) = Inr (ss ! j)"
      using Cons.IH [OF s(2)] s by (cases j) auto
  qed (use Cons.IH [OF s(2)] s parse_step_bounded in auto)
qed simp

lemma parse_category_Inr:
  assumes "parse_category category v = Inr ss"
  shows "ss \<noteq> [] \<and> length ss \<le> MAX_STEPS_PER_CATEGORY \<and> list_all step_bounded ss
    \<and> (\<exists>raws. v = VList raws \<and> length ss = length raws
          \<and> (\<forall>j < length raws. parse_step category j (raws ! j) = Inr (ss ! j)))"
  using assms parse_steps_Inr [of category 0]
  by (fastforce simp: parse_category_def split: pyval.splits if_splits)

text \<open>The categories are taken in order, each one valid; a key given twice would have its last value.\<close>

lemma parse_categories_Inr:
  "parse_categories d table = Inr t \<Longrightarrow>
     (\<forall>(k, v) \<in> set d. \<exists>c ss. str_key k = Some c \<and> py_strip c \<noteq> [] \<and> is_valid_category_key c
        \<and> parse_category c v = Inr ss)
     \<and> (\<forall>c ss. dict_get t c = Some ss \<longrightarrow>
          dict_get table c = Some ss \<or> (\<exists>(k, v) \<in> set d. str_key k = Some c \<and> parse_category c v = Inr ss))
     \<and> fst ` set t = fst ` set table \<union> {c. \<exists>(k, v) \<in> set d. str_key k = Some c}"
proof (induction d arbitrary: table)
  case (Cons e d)
  obtain k v where e: "e = (k, v)" by force
  obtain c ss where c: "str_key k = Some c" "py_strip c \<noteq> []" "is_valid_category_key c" "parse_category c v = Inr ss"
    "parse_categories d (dict_set c ss table) = Inr t"
    using Cons.prems by (auto simp: e rbind_Inr_iff split: option.splits if_splits)
  note IH = Cons.IH [OF c(5)]
  have "dict_get table x = Some y \<or> (\<exists>(k, v) \<in> set (e # d). str_key k = Some x \<and> parse_category x v = Inr y)"
    if "dict_get t x = Some y" for x y
    using IH that c(1,4) by (auto simp: e split: if_splits)
  moreover have "fst ` set t = fst ` set table \<union> {x. \<exists>(k, v) \<in> set (e # d). str_key k = Some x}"
    using IH c(1) by (auto simp: e)
  ultimately show ?case using IH c by (auto simp: e)
qed auto

text \<open>C16: 
  C0: A remediation section is taken whole or not at all. A table comes out of a pack body exactly when the
  section is an object of 1 to 64 entries, each with a valid category key and a list of 1 to 20 steps that
  are all valid, and it then has the steps of every category, in order; one invalid step or key anywhere
  leaves no table. Every step of a table has a description of 1 to 500 characters, a runbook of at most
  2048 and a known severity, if any.
\<close>

theorem remediation_table_whole:
  "(\<exists>t. parse_remediation_table i v body = Inr t)
     = (\<exists>b raw. body = VDict b \<and> given_field b ''remediations'' = Some (VDict raw)
          \<and> 1 \<le> length raw \<and> length raw \<le> 64
          \<and> (\<forall>(k, x) \<in> set raw. \<exists>c raws. str_key k = Some c \<and> py_strip c \<noteq> [] \<and> is_valid_category_key c
               \<and> x = VList raws \<and> 1 \<le> length raws \<and> length raws \<le> 20
               \<and> (\<forall>j < length raws. \<exists>s. parse_step c j (raws ! j) = Inr s)))
   \<and> (\<forall>t key ss. parse_remediation_table i v body = Inr t \<and> dict_get (rt_steps t) key = Some ss \<longrightarrow>
        rt_pack_id t = i \<and> rt_pack_version t = v \<and> ss \<noteq> [] \<and> length ss \<le> 20
        \<and> (\<forall>s \<in> set ss. rd_description s \<noteq> [] \<and> length (rd_description s) \<le> 500
             \<and> (\<forall>r. rd_runbook s = Some r \<longrightarrow> length r \<le> 2048)
             \<and> (\<forall>e. rd_escalate_severity s = Some e \<longrightarrow> e \<in> set VALID_SEVERITIES))
        \<and> (\<exists>b raw k raws. body = VDict b \<and> given_field b ''remediations'' = Some (VDict raw)
             \<and> (k, VList raws) \<in> set raw \<and> str_key k = Some key \<and> length ss = length raws
             \<and> (\<forall>j < length raws. parse_step key j (raws ! j) = Inr (ss ! j))))"
proof -
  have steps: "(\<exists>ss. parse_steps c n raws = Inr ss) \<longleftrightarrow> (\<forall>j < length raws. \<exists>s. parse_step c (n + j) (raws ! j) = Inr s)"
    for c n raws
  proof (induction raws arbitrary: n)
    case (Cons raw raws)
    have "(\<exists>ss. parse_steps c n (raw # raws) = Inr ss)
        \<longleftrightarrow> (\<exists>s. parse_step c n raw = Inr s) \<and> (\<exists>ss. parse_steps c (n + 1) raws = Inr ss)"
      by (auto simp: rbind_Inr_iff)
    then show ?case unfolding Cons.IH by (simp add: All_less_Suc2)
  qed simp
  have cat: "(\<exists>ss. parse_category c x = Inr ss) \<longleftrightarrow> (\<exists>raws. x = VList raws \<and> 1 \<le> length raws \<and> length raws \<le> 20
      \<and> (\<forall>j < length raws. \<exists>s. parse_step c j (raws ! j) = Inr s))" for c x
    using steps [of c 0] by (cases x) (auto simp: parse_category_def MAX_STEPS_PER_CATEGORY_def Suc_le_eq)
  have cats: "(\<exists>t. parse_categories d table = Inr t) \<longleftrightarrow>
      (\<forall>(k, x) \<in> set d. \<exists>c. str_key k = Some c \<and> py_strip c \<noteq> [] \<and> is_valid_category_key c
         \<and> (\<exists>ss. parse_category c x = Inr ss))" for d table
  proof (induction d arbitrary: table)
    case (Cons e d)
    obtain k x where e: "e = (k, x)" by force
    have "(\<exists>t. parse_categories (e # d) table = Inr t) \<longleftrightarrow>
        (\<exists>c ss. str_key k = Some c \<and> py_strip c \<noteq> [] \<and> is_valid_category_key c \<and> parse_category c x = Inr ss
           \<and> (\<exists>t. parse_categories d (dict_set c ss table) = Inr t))"
      by (auto simp: e rbind_Inr_iff split: option.splits)
    then show ?case unfolding Cons.IH by (auto simp: e)
  qed simp
  show ?thesis
  proof (intro conjI allI impI)
    have "(\<exists>t. parse_remediation_table i v body = Inr t) \<longleftrightarrow>
        (\<exists>b raw. body = VDict b \<and> given_field b ''remediations'' = Some (VDict raw)
          \<and> 1 \<le> length raw \<and> length raw \<le> 64 \<and> (\<exists>t. parse_categories raw [] = Inr t))"
      by (cases body) (auto simp: parse_remediation_table_def MAX_CATEGORIES_def Suc_le_eq
          split: option.splits pyval.splits sum.splits)
    then show "(\<exists>t. parse_remediation_table i v body = Inr t)
       = (\<exists>b raw. body = VDict b \<and> given_field b ''remediations'' = Some (VDict raw)
          \<and> 1 \<le> length raw \<and> length raw \<le> 64
          \<and> (\<forall>(k, x) \<in> set raw. \<exists>c raws. str_key k = Some c \<and> py_strip c \<noteq> [] \<and> is_valid_category_key c
               \<and> x = VList raws \<and> 1 \<le> length raws \<and> length raws \<le> 20
               \<and> (\<forall>j < length raws. \<exists>s. parse_step c j (raws ! j) = Inr s)))"
      unfolding cats cat by (simp add: ex_simps)
  next
    fix t key ss assume t: "parse_remediation_table i v body = Inr t \<and> dict_get (rt_steps t) key = Some ss"
    then obtain b raw where b: "body = VDict b" "given_field b ''remediations'' = Some (VDict raw)"
      "rt_pack_id t = i" "rt_pack_version t = v" "parse_categories raw [] = Inr (rt_steps t)"
      by (auto simp: parse_remediation_table_def split: option.splits pyval.splits sum.splits if_splits)
    have "\<exists>(k, x) \<in> set raw. str_key k = Some key \<and> parse_category key x = Inr ss"
      using parse_categories_Inr [OF b(5)] t by simp
    then obtain k x where k: "(k, x) \<in> set raw" "str_key k = Some key" "parse_category key x = Inr ss" by blast
    note ss = parse_category_Inr [OF k(3)]
    show "rt_pack_id t = i" "rt_pack_version t = v" using b by simp_all
    show "ss \<noteq> []" "length ss \<le> 20" using ss by (auto simp: MAX_STEPS_PER_CATEGORY_def)
    show "\<forall>s \<in> set ss. rd_description s \<noteq> [] \<and> length (rd_description s) \<le> 500
             \<and> (\<forall>r. rd_runbook s = Some r \<longrightarrow> length r \<le> 2048)
             \<and> (\<forall>e. rd_escalate_severity s = Some e \<longrightarrow> e \<in> set VALID_SEVERITIES)"
      using ss by (auto simp: list_all_iff step_bounded_def MAX_DESCRIPTION_LEN_def MAX_RUNBOOK_LEN_def)
    show "\<exists>b raw k raws. body = VDict b \<and> given_field b ''remediations'' = Some (VDict raw)
             \<and> (k, VList raws) \<in> set raw \<and> str_key k = Some key \<and> length ss = length raws
             \<and> (\<forall>j < length raws. parse_step key j (raws ! j) = Inr (ss ! j))"
      using ss b(1,2) k(1,2) by blast
  qed
qed

section \<open>The property\<close>

lemma load_ops_remediations_mem:
  "t \<in> set (fst (load_ops_remediations packs w)) \<longleftrightarrow>
     (\<exists>service loaded p. packs = Some service \<and> service w PT_ops = Inr loaded \<and> p \<in> set loaded
        \<and> parse_remediation_table (pm_id (pk_manifest p)) (pm_version (pk_manifest p)) (pk_body p) = Inr t)"
proof (cases packs)
  case (Some service)
  have c: "(case r of Inr u \<Rightarrow> Some u | Inl x \<Rightarrow> None) = Some t \<longleftrightarrow> r = Inr t"
    for r :: "remediation_note option + remediation_table" by (cases r) auto
  show ?thesis
  proof (cases "service w PT_ops")
    case (Inr loaded)
    then show ?thesis by (auto simp: Some load_ops_remediations_def Let_def map_filter_set c)
  qed (simp add: Some load_ops_remediations_def)
qed (simp add: load_ops_remediations_def)

lemma propose_support:
  "truthy_str category = None \<or> ag_confidence rca < RCA_CONFIDENCE_FLOOR
     \<or> match_steps (the category) tables = [] \<Longrightarrow>
   \<exists>reason. propose_remediation rca category tables = support_response rca reason"
  by (auto simp: propose_remediation_def truthy_str_def split: option.splits if_splits)


section \<open>Examples\<close>

definition sample_ops_pack :: pack where
  "sample_ops_pack =
     \<lparr>pk_manifest = \<lparr>pm_id = ''ops'', pm_type = PT_ops, pm_name = ''ops'', pm_version = ''1.0.0'', pm_targets = [],
        pm_sha256 = None, pm_signature = None, pm_pack_signature = None, pm_author = ''team''\<rparr>,
      pk_body = VDict [(VStr ''remediations'', VDict [(VStr ''web'', VList [VDict [(VStr ''description'', VStr ''restart '')]])])],
      pk_source = [], pk_imported = False\<rparr>"

definition sample_ops_service :: packs_service where
  "sample_ops_service w t = Inr [sample_ops_pack]"

definition sample_symptoms :: "finding list" where
  "sample_symptoms = [sample_symptom ''a'', sample_symptom ''b'']"

definition sample_tables :: "remediation_table list" where
  "sample_tables = fst (load_ops_remediations (Some sample_ops_service) ''w'')"

lemma sample_remediation_facts:
  "symptom_nodes (dedup_findings sample_symptoms) = [''a'', ''b'']"
  "correlatable (dedup_findings sample_symptoms) (Some sample_rca_graph)"
  "\<forall>f \<in> set sample_symptoms. \<forall>r \<in> set (fd_evidence f). \<not> asserts_root r"
  "find (\<lambda>n. rn_id n = ''d'') (wg_nodes sample_rca_graph) = Some (sample_rca_node ''d'')"
proof -
  show "symptom_nodes (dedup_findings sample_symptoms) = [''a'', ''b'']" by code_simp
  show "correlatable (dedup_findings sample_symptoms) (Some sample_rca_graph)" by code_simp
  show "\<forall>f \<in> set sample_symptoms. \<forall>r \<in> set (fd_evidence f). \<not> asserts_root r" by code_simp
  show "find (\<lambda>n. rn_id n = ''d'') (wg_nodes sample_rca_graph) = Some (sample_rca_node ''d'')"
    by (simp add: sample_rca_graph_def sample_rca_node_def)
qed

lemma sample_node_category: "node_category (Some (sample_rca_node i)) = Some ''web''"
proof -
  have "py_lower (py_strip ''Web'') = ''web''" "is_valid_category_key ''web''" by code_simp+
  then show ?thesis by (simp add: node_category_def sample_rca_node_def CATCH_ALL_KEYS_def)
qed

lemma sample_tables_eq: "sample_tables = [\<lparr>rt_pack_id = ''ops'', rt_pack_version = ''1.0.0'',
    rt_steps = [(''web'', [\<lparr>rd_description = ''restart'', rd_runbook = None, rd_escalate_severity = None\<rparr>])]\<rparr>]"
  by code_simp


lemma category_key_line_feed: "is_valid_category_key (''odb'' @ [LF])" "\<not> category_key_body (''odb'' @ [LF])"
  by code_simp+

theorem remediation_table_whole_witness:
  "\<exists>t ss. parse_remediation_table ''ops'' ''1.0.0'' (pk_body sample_ops_pack) = Inr t
     \<and> dict_get (rt_steps t) ''web'' = Some ss \<and> rt_pack_id t = ''ops'' \<and> (\<forall>s \<in> set ss. length (rd_description s) \<le> 500)"
proof -
  let ?t = "\<lparr>rt_pack_id = ''ops'', rt_pack_version = ''1.0.0'',
    rt_steps = [(''web'', [\<lparr>rd_description = ''restart'', rd_runbook = None, rd_escalate_severity = None\<rparr>])]\<rparr>"
  have t: "parse_remediation_table ''ops'' ''1.0.0'' (pk_body sample_ops_pack) = Inr ?t" by code_simp
  have ss: "dict_get (rt_steps ?t) ''web'' = Some [\<lparr>rd_description = ''restart'', rd_runbook = None, rd_escalate_severity = None\<rparr>]"
    by simp
  note w = remediation_table_whole [THEN conjunct2, THEN spec, THEN spec, THEN spec, THEN mp, OF conjI [OF t ss]]
  show ?thesis using t ss w by blast
qed

end
