(* ===== verification/Detection.thy ===== *)
theory Detection
  imports Quality_Checks Float_Bounds
begin

text \<open>
  Threshold detection of \<open>src/modules/aiops/module.py\<close>: the rules of the Telemetry Packs, their breach by
  an observed signal, and the fusion of all breaches of a metric on a node into one finding. The text of a
  float is a parameter; a note is a value that names what its text says.
\<close>

section \<open>Signals and rules\<close>

datatype signal_source = SS_system_pulse | SS_azure_monitor

fun signal_source_value :: "signal_source \<Rightarrow> string" where
  "signal_source_value SS_system_pulse = ''system-pulse''"
| "signal_source_value SS_azure_monitor = ''azure-monitor''"

record signal =
  sg_metric :: string
  sg_value :: pyfloat
  sg_unit :: string
  sg_timestamp :: int
  sg_resourceId :: string
  sg_source :: signal_source

datatype rule_op = OpGt | OpLt

fun rule_op_value :: "rule_op \<Rightarrow> string" where
  "rule_op_value OpGt = ''gt''"
| "rule_op_value OpLt = ''lt''"

record telemetry_rule =
  tl_name :: string
  tl_op :: rule_op
  tl_threshold :: pyfloat
  tl_severity :: severity
  tl_role :: string
  tl_packId :: string
  tl_packVersion :: string

text \<open>\<open>_encode_id_component\<close>: the two replacements, none of which makes a character the other replaces.\<close>

definition encode_char :: "char \<Rightarrow> string" where
  "encode_char c = (if c = CHR ''%'' then ''%25'' else if c = CHR '':'' then ''%3A'' else [c])"

definition encode_id_component :: "string \<Rightarrow> string" where
  "encode_id_component s = concat (map encode_char s)"

section \<open>Loading rules\<close>

datatype telemetry_note =
    TelemetryBodyNotAnObject string
  | SignalsNotAList string
  | NonMappingSignal string
  | SignalInvalid string pyval
  | NonRoleSelector string string string

definition op_of :: "pyval \<Rightarrow> rule_op option" where
  "op_of v = (case str_key v of None \<Rightarrow> None
     | Some s \<Rightarrow> if s = ''gt'' then Some OpGt else if s = ''lt'' then Some OpLt else None)"

text \<open>\<open>_must_be_numeric\<close> with the conversion to a float: a boolean is no number; \<open>float(value)\<close> raises
  \<open>OverflowError\<close> for an integer out of range, which is no validation error.\<close>

definition threshold_of :: "pyval \<Rightarrow> py_exc + pyfloat option" where
  "threshold_of v =
     (case v of
        VInt i \<Rightarrow> rbind (float_of_int i) (\<lambda>x. Inr (Some x))
      | VFloat x \<Rightarrow> Inr (if float_isfinite x then Some x else None)
      | _ \<Rightarrow> Inr None)"

record rule_fields =
  rf_name :: string
  rf_op :: rule_op
  rf_threshold :: pyfloat
  rf_severity :: severity
  rf_nodeId :: string

definition rule_fields_of :: "raw_dict \<Rightarrow> py_exc + rule_fields option" where
  "rule_fields_of d =
     rbind (case vget d ''threshold'' of None \<Rightarrow> Inr None | Some v \<Rightarrow> threshold_of v) (\<lambda>threshold. Inr
       (case (Option.bind (vget d ''name'') str_key, Option.bind (vget d ''op'') op_of, threshold,
              Option.bind (Option.bind (vget d ''severity'') str_key) severity_of,
              Option.bind (vget d ''nodeId'') str_key) of
          (Some n, Some q, Some t, Some sv, Some i) \<Rightarrow>
            Some \<lparr>rf_name = n, rf_op = q, rf_threshold = t, rf_severity = sv, rf_nodeId = i\<rparr>
        | _ \<Rightarrow> None))"

definition ROLE_SELECTOR_PREFIX :: string where
  "ROLE_SELECTOR_PREFIX = ''role:''"

definition role_from_selector :: "string \<Rightarrow> string option" where
  "role_from_selector selector =
     (if \<not> prefix ROLE_SELECTOR_PREFIX selector then None
      else (let role = py_lower (py_strip (drop (length ROLE_SELECTOR_PREFIX) selector))
            in if role = [] then None else Some role))"

definition parse_signal_rule ::
  "pyval \<Rightarrow> string \<Rightarrow> string \<Rightarrow> py_exc + telemetry_rule option \<times> telemetry_note option" where
  "parse_signal_rule raw pack_id pack_version =
     (case raw of
        VDict d \<Rightarrow>
          rbind (rule_fields_of d) (\<lambda>spec. Inr
            (case spec of
               None \<Rightarrow> (None, Some (SignalInvalid pack_id (case vget d ''name'' of None \<Rightarrow> VStr ''?'' | Some v \<Rightarrow> v)))
             | Some s \<Rightarrow>
                 (case role_from_selector (rf_nodeId s) of
                    None \<Rightarrow> (None, Some (NonRoleSelector pack_id (rf_name s) (rf_nodeId s)))
                  | Some role \<Rightarrow>
                      (Some \<lparr>tl_name = rf_name s, tl_op = rf_op s, tl_threshold = rf_threshold s,
                             tl_severity = rf_severity s, tl_role = role, tl_packId = pack_id,
                             tl_packVersion = pack_version\<rparr>, None))))
      | _ \<Rightarrow> Inr (None, Some (NonMappingSignal pack_id)))"

definition is_windowed_signal :: "pyval \<Rightarrow> bool" where
  "is_windowed_signal raw = (case raw of VDict d \<Rightarrow> vget d ''window'' \<noteq> None \<or> vget d ''expression'' \<noteq> None | _ \<Rightarrow> False)"

definition pack_telemetry_rules :: "pack \<Rightarrow> py_exc + telemetry_rule list \<times> telemetry_note list" where
  "pack_telemetry_rules p =
     (let i = pm_id (pk_manifest p); v = pm_version (pk_manifest p) in
      case pk_body p of
        VDict body \<Rightarrow>
          (case vget body ''signals'' of
             Some (VList raws) \<Rightarrow>
               rbind (rseq (map (\<lambda>raw. parse_signal_rule raw i v) (filter (\<lambda>raw. \<not> is_windowed_signal raw) raws)))
                 (\<lambda>rs. Inr (List.map_filter fst rs, List.map_filter snd rs))
           | _ \<Rightarrow> Inr ([], [SignalsNotAList i]))
      | _ \<Rightarrow> Inr ([], [TelemetryBodyNotAnObject i]))"

definition load_telemetry_rules ::
  "packs_service option \<Rightarrow> string \<Rightarrow> module_exc + telemetry_rule list \<times> telemetry_note list" where
  "load_telemetry_rules packs workload =
     (case packs of
        None \<Rightarrow> Inr ([], [])
      | Some service \<Rightarrow>
          (case service workload PT_telemetry of
             Inl e \<Rightarrow> Inl (LoadFailed e)
           | Inr loaded \<Rightarrow>
               (case rseq (map pack_telemetry_rules loaded) of
                  Inl e \<Rightarrow> Inl (Raised e)
                | Inr rs \<Rightarrow> Inr (concat (map fst rs), concat (map snd rs)))))"

section \<open>A breach\<close>

definition breaches :: "telemetry_rule \<Rightarrow> signal \<Rightarrow> bool" where
  "breaches rule s =
     (if tl_op rule = OpGt then float_lt (tl_threshold rule) (sg_value s)
      else float_lt (sg_value s) (tl_threshold rule))"

text \<open>\<open>detect_metric_breach\<close> on the input that \<open>_breach_input\<close> builds, which has every key.\<close>

definition detect_metric_breach ::
  "(pyfloat \<Rightarrow> string) \<Rightarrow> int \<Rightarrow> telemetry_rule \<Rightarrow> signal \<Rightarrow> string \<Rightarrow> finding_error + finding option" where
  "detect_metric_breach ft now rule s node_id =
     (if \<not> breaches rule s then Inr None
      else map_sum id Some (enforce_provenance
        \<lparr>fd_id = ''detect::'' @ encode_id_component (tl_name rule) @ ''::'' @ encode_id_component node_id,
         fd_module = ''aiops'', fd_title = ''Telemetry breach: '' @ tl_name rule, fd_passed = Some False,
         fd_severity = tl_severity rule, fd_nodeId = Some node_id, fd_blastRadius = 0,
         fd_evidence = [\<lparr>sr_kind = ''metric'', sr_id = tl_name rule,
           sr_detail = Some (ft (sg_value s) @ '' '' @ rule_op_value (tl_op rule) @ '' '' @ ft (tl_threshold rule))\<rparr>],
         fd_provenance = PK_pack, fd_packId = (if tl_packId rule = [] then None else Some (tl_packId rule)),
         fd_packVersion = (if tl_packVersion rule = [] then None else Some (tl_packVersion rule)),
         fd_structuralKind = None, fd_detail = Some ''Proactive detection from telemetry pack threshold.'',
         fd_createdAt = now\<rparr>))"

section \<open>Candidates\<close>

text \<open>\<open>_role_nodes(estate).get(role, [])\<close>, and the dictionary from folded ids to ids.\<close>

definition role_nodes :: "resource_node list \<Rightarrow> string \<Rightarrow> resource_node list" where
  "role_nodes estate role =
     filter (\<lambda>n. case rn_role n of None \<Rightarrow> False | Some r \<Rightarrow> r \<noteq> [] \<and> py_lower r = role) estate"

definition canonical_ids :: "resource_node list \<Rightarrow> (string, string) dict" where
  "canonical_ids nodes = foldl (\<lambda>d n. dict_set (py_casefold (rn_id n)) (rn_id n) d) [] nodes"

text \<open>A rule object is a rule with its position: two rules of the same content are two objects.\<close>

type_synonym rule_object = "nat \<times> telemetry_rule"
type_synonym breach = "rule_object \<times> signal"

definition candidate_of ::
  "(pyfloat \<Rightarrow> string) \<Rightarrow> int \<Rightarrow> (string, string) dict \<Rightarrow> rule_object \<Rightarrow> signal
     \<Rightarrow> finding_error + ((string \<times> string) \<times> breach) option" where
  "candidate_of ft now canon rule s =
     (case dict_get canon (py_casefold (sg_resourceId s)) of
        None \<Rightarrow> Inr None
      | Some node_id \<Rightarrow>
          rbind (detect_metric_breach ft now (snd rule) s node_id) (\<lambda>found. Inr
            (case found of None \<Rightarrow> None | Some _ \<Rightarrow> Some ((tl_name (snd rule), node_id), rule, s))))"

definition rule_candidates ::
  "(pyfloat \<Rightarrow> string) \<Rightarrow> int \<Rightarrow> signal list \<Rightarrow> resource_node list \<Rightarrow> rule_object
     \<Rightarrow> finding_error + ((string \<times> string) \<times> breach) list" where
  "rule_candidates ft now signals estate rule =
     (let nodes = role_nodes estate (tl_role (snd rule)) in
      if nodes = [] then Inr []
      else rbind (rseq (map (candidate_of ft now (canonical_ids nodes) rule)
                          (filter (\<lambda>s. sg_metric s = tl_name (snd rule)) signals)))
             (\<lambda>cs. Inr (List.map_filter id cs)))"

definition add_to_group ::
  "(string \<times> string, breach list) dict \<Rightarrow> (string \<times> string) \<times> breach \<Rightarrow> (string \<times> string, breach list) dict" where
  "add_to_group groups c =
     dict_set (fst c) ((case dict_get groups (fst c) of None \<Rightarrow> [] | Some bs \<Rightarrow> bs) @ [snd c]) groups"

section \<open>Merging\<close>

text \<open>
  The order of floats that are no NaN, as a key. Thresholds are finite and no comparison with NaN is a breach, so
  neither thresholds nor the exceedances of breaches are NaN.
\<close>

fun float_rank :: "pyfloat \<Rightarrow> int \<times> rat" where
  "float_rank PNegInf = (-1, 0)"
| "float_rank (PFin r) = (0, r)"
| "float_rank PNegZero = (0, 0)"
| "float_rank PInf = (1, 0)"
| "float_rank PNaN = (2, 0)"

fun severity_rank :: "severity \<Rightarrow> nat" where
  "severity_rank SV_info = 0"
| "severity_rank SV_low = 1"
| "severity_rank SV_medium = 2"
| "severity_rank SV_high = 3"
| "severity_rank SV_critical = 4"

definition conservativeness :: "telemetry_rule \<Rightarrow> pyfloat" where
  "conservativeness rule = (if tl_op rule = OpGt then float_neg (tl_threshold rule) else tl_threshold rule)"

definition eagerness :: "telemetry_rule \<Rightarrow> nat \<times> int \<times> rat" where
  "eagerness rule = (severity_rank (tl_severity rule), float_rank (conservativeness rule))"

definition rule_order :: "telemetry_rule \<Rightarrow> string \<times> string \<times> string \<times> (int \<times> rat) \<times> string" where
  "rule_order r = (tl_packId r, tl_packVersion r, rule_op_value (tl_op r), float_rank (tl_threshold r), tl_name r)"

definition winner_rule :: "rule_object list \<Rightarrow> rule_object" where
  "winner_rule rules =
     (let best = Max ((\<lambda>r. eagerness (snd r)) ` set rules);
          tied = filter (\<lambda>r. eagerness (snd r) = best) rules
      in hd (sort_key (\<lambda>r. rule_order (snd r)) tied))"

definition exceedance :: "telemetry_rule \<Rightarrow> signal \<Rightarrow> pyfloat" where
  "exceedance rule s =
     (if tl_op rule = OpGt then float_sub (sg_value s) (tl_threshold rule)
      else float_sub (tl_threshold rule) (sg_value s))"

definition signal_order :: "signal \<Rightarrow> int \<times> (int \<times> rat) \<times> string" where
  "signal_order s = (sg_timestamp s, float_rank (float_neg (sg_value s)), sg_resourceId s)"

definition cited_observation :: "telemetry_rule \<Rightarrow> signal list \<Rightarrow> signal" where
  "cited_observation rule signals =
     (let most_extreme = Max ((\<lambda>s. float_rank (exceedance rule s)) ` set signals);
          tied = filter (\<lambda>s. float_rank (exceedance rule s) = most_extreme) signals
      in hd (sort_key signal_order tied))"

definition pack_ref :: "string \<times> string \<Rightarrow> source_reference" where
  "pack_ref = (\<lambda>(i, v). \<lparr>sr_kind = ''pack'', sr_id = i, sr_detail = Some (''version '' @ v)\<rparr>)"

definition connector_ref :: "string \<Rightarrow> string \<Rightarrow> source_reference" where
  "connector_ref cited source =
     \<lparr>sr_kind = ''connector'', sr_id = source,
      sr_detail = Some (if source = cited then ''cited observation source'' else ''observation source'')\<rparr>"

definition merge_candidates ::
  "(pyfloat \<Rightarrow> string) \<Rightarrow> int \<Rightarrow> string \<Rightarrow> breach list \<Rightarrow> finding_error + finding" where
  "merge_candidates ft now node_id candidates =
     (let winner = winner_rule (dedup_by fst [] (map fst candidates));
          winner_signals = map snd (filter (\<lambda>c. fst (fst c) = fst winner) candidates);
          cited = cited_observation (snd winner) winner_signals
      in rbind (detect_metric_breach ft now (snd winner) cited node_id) (\<lambda>found.
        let f = the found;
            contributing = sorted_list_of_set
              ((\<lambda>c. (tl_packId (snd (fst c)), tl_packVersion (snd (fst c)))) ` set candidates);
            cited_source = signal_source_value (sg_source cited);
            sources = sorted_list_of_set ((\<lambda>c. signal_source_value (sg_source (snd c))) ` set candidates);
            ordered_sources = cited_source # filter (\<lambda>s. s \<noteq> cited_source) sources
        in Inr (f\<lparr>fd_evidence := fd_evidence f @ map pack_ref (filter (\<lambda>c. fst c \<noteq> []) contributing)
                               @ map (connector_ref cited_source) ordered_sources,
                  fd_detail := (if length contributing > 1
                    then Some (opt_text (fd_detail f) @ '' Merged from '' @ show_nat (length contributing)
                      @ '' telemetry packs; highest-severity rule wins, all sources cited.'')
                    else fd_detail f)\<rparr>)))"

definition fuse_detections ::
  "(pyfloat \<Rightarrow> string) \<Rightarrow> int \<Rightarrow> telemetry_rule list \<Rightarrow> signal list \<Rightarrow> resource_node list
     \<Rightarrow> finding_error + finding list" where
  "fuse_detections ft now rules signals estate =
     rbind (rseq (map (rule_candidates ft now signals estate) (enumerate 0 rules))) (\<lambda>css.
       rbind (rseq (map (\<lambda>(key, bs). merge_candidates ft now (snd key) bs)
                     (foldl add_to_group [] (concat css))))
         (\<lambda>fs. Inr (sort_key fd_id fs)))"

section \<open>Identifiers\<close>

definition detection_id :: "string \<Rightarrow> string \<Rightarrow> string" where
  "detection_id metric node_id = ''detect::'' @ encode_id_component metric @ ''::'' @ encode_id_component node_id"

lemma encode_char_not_Nil: "encode_char c \<noteq> []"
  by (simp add: encode_char_def)

lemma encode_no_colon: "CHR '':'' \<notin> set (encode_id_component s)"
  by (auto simp: encode_id_component_def encode_char_def)

lemma encode_char_append:
  "encode_char c @ xs = encode_char d @ ys \<Longrightarrow> c = d \<and> xs = ys"
  by (auto simp: encode_char_def split: if_splits)

lemma encode_id_inj: "encode_id_component s = encode_id_component t \<Longrightarrow> s = t"
proof (induction s arbitrary: t)
  case Nil
  then show ?case by (cases t) (auto simp: encode_id_component_def encode_char_not_Nil)
next
  case (Cons c s)
  then obtain d u where t: "t = d # u" by (cases t) (auto simp: encode_id_component_def encode_char_not_Nil)
  have "encode_char c @ encode_id_component s = encode_char d @ encode_id_component u"
    using Cons.prems by (simp add: t encode_id_component_def)
  then show ?case using encode_char_append Cons.IH t by blast
qed

text \<open>An identifier determines the metric and the node, whatever characters they hold.\<close>

lemma detection_id_inj: "detection_id m n = detection_id m' n' \<longleftrightarrow> m = m' \<and> n = n'"
proof
  assume "detection_id m n = detection_id m' n'"
  then have e: "encode_id_component m @ CHR '':'' # (CHR '':'' # encode_id_component n)
      = encode_id_component m' @ CHR '':'' # (CHR '':'' # encode_id_component n')"
    by (simp add: detection_id_def)
  have "encode_id_component m = encode_id_component m'
      \<and> CHR '':'' # encode_id_component n = CHR '':'' # encode_id_component n'"
    using arg_cong [OF e, of "py_partition CHR '':''"] encode_no_colon by (simp add: py_partition_append)
  then show "m = m' \<and> n = n'" using encode_id_inj by auto
qed simp

section \<open>Breaches as sets\<close>

text \<open>The node a signal belongs to under a role.\<close>

definition target :: "resource_node list \<Rightarrow> string \<Rightarrow> signal \<Rightarrow> string option" where
  "target estate role s = dict_get (canonical_ids (role_nodes estate role)) (py_casefold (sg_resourceId s))"

lemma canonical_ids_get:
  "dict_get (canonical_ids nodes) k = Some i \<Longrightarrow> k = py_casefold i \<and> i \<in> rn_id ` set nodes"
proof (induction nodes rule: rev_induct)
  case (snoc n nodes)
  then show ?case by (auto simp: canonical_ids_def split: if_splits)
qed (simp add: canonical_ids_def)

definition rule_attributable :: "telemetry_rule \<Rightarrow> bool" where
  "rule_attributable r \<longleftrightarrow> py_strip (tl_packId r) \<noteq> [] \<and> py_strip (tl_packVersion r) \<noteq> []"

definition breach_finding :: "(pyfloat \<Rightarrow> string) \<Rightarrow> int \<Rightarrow> telemetry_rule \<Rightarrow> signal \<Rightarrow> string \<Rightarrow> finding" where
  "breach_finding ft now rule s node_id =
     \<lparr>fd_id = detection_id (tl_name rule) node_id,
      fd_module = ''aiops'', fd_title = ''Telemetry breach: '' @ tl_name rule, fd_passed = Some False,
      fd_severity = tl_severity rule, fd_nodeId = Some node_id, fd_blastRadius = 0,
      fd_evidence = [\<lparr>sr_kind = ''metric'', sr_id = tl_name rule,
        sr_detail = Some (ft (sg_value s) @ '' '' @ rule_op_value (tl_op rule) @ '' '' @ ft (tl_threshold rule))\<rparr>],
      fd_provenance = PK_pack, fd_packId = Some (tl_packId rule), fd_packVersion = Some (tl_packVersion rule),
      fd_structuralKind = None, fd_detail = Some ''Proactive detection from telemetry pack threshold.'',
      fd_createdAt = now\<rparr>"

lemma detect_attributable:
  assumes "rule_attributable r"
  shows "detect_metric_breach ft now r s n = Inr (if breaches r s then Some (breach_finding ft now r s n) else None)"
proof -
  have "tl_packId r \<noteq> []" "tl_packVersion r \<noteq> []" using assms by (auto simp: rule_attributable_def)
  then show ?thesis
    using assms by (simp add: detect_metric_breach_def enforce_provenance_def breach_finding_def detection_id_def
        rule_attributable_def)
qed

text \<open>A rule breached by a signal on a node.\<close>

definition hits :: "resource_node list \<Rightarrow> string \<times> string \<Rightarrow> telemetry_rule \<Rightarrow> signal \<Rightarrow> bool" where
  "hits estate key r s \<longleftrightarrow>
     tl_name r = fst key \<and> sg_metric s = fst key \<and> target estate (tl_role r) s = Some (snd key) \<and> breaches r s"

definition candidates_of ::
  "signal list \<Rightarrow> resource_node list \<Rightarrow> rule_object \<Rightarrow> ((string \<times> string) \<times> breach) list" where
  "candidates_of signals estate rule =
     List.map_filter (\<lambda>s. if sg_metric s = tl_name (snd rule) \<and> breaches (snd rule) s
       then map_option (\<lambda>n. ((tl_name (snd rule), n), rule, s)) (target estate (tl_role (snd rule)) s) else None) signals"

lemma candidates_of_mem:
  "(key, r, s) \<in> set (candidates_of signals estate rule) \<longleftrightarrow>
     r = rule \<and> s \<in> set signals \<and> hits estate key (snd rule) s"
  by (cases key) (auto simp: candidates_of_def map_filter_set hits_def)

lemma rseq_all_Inr: "(\<And>x. x \<in> set xs \<Longrightarrow> f x = Inr (g x)) \<Longrightarrow> rseq (map f xs) = Inr (map g xs)"
  by (induction xs) auto

lemma rule_candidates_eq:
  assumes "rule_attributable (snd rule)"
  shows "rule_candidates ft now signals estate rule = Inr (candidates_of signals estate rule)"
proof -
  let ?ms = "filter (\<lambda>s. sg_metric s = tl_name (snd rule)) signals"
  let ?nodes = "role_nodes estate (tl_role (snd rule))"
  let ?c = "\<lambda>s. if breaches (snd rule) s
     then map_option (\<lambda>n. ((tl_name (snd rule), n), rule, s)) (target estate (tl_role (snd rule)) s) else None"
  have c: "candidate_of ft now (canonical_ids ?nodes) rule s = Inr (?c s)" for s
    by (simp add: candidate_of_def target_def detect_attributable [OF assms] split: option.splits)
  have f: "List.map_filter id (map ?c ?ms) = candidates_of signals estate rule"
    unfolding candidates_of_def by (induction signals) (auto simp: map_filter_simps split: option.splits)
  show ?thesis
  proof (cases "?nodes = []")
    case True
    then have "candidates_of signals estate rule = []"
      unfolding candidates_of_def target_def by (induction signals) (auto simp: map_filter_simps canonical_ids_def)
    with True show ?thesis by (simp add: rule_candidates_def Let_def)
  next
    case False
    then show ?thesis by (simp add: rule_candidates_def Let_def rseq_all_Inr [OF c] f)
  qed
qed

section \<open>Groups\<close>

text \<open>The dictionary of lists: a key holds what was added under it, in order.\<close>

definition group_of :: "((string \<times> string) \<times> breach) list \<Rightarrow> string \<times> string \<Rightarrow> breach list" where
  "group_of cs key = map snd (filter (\<lambda>c. fst c = key) cs)"

lemma groups_inv:
  "dict_wf (foldl add_to_group [] cs)
   \<and> (\<forall>k. dict_get (foldl add_to_group [] cs) k = (if group_of cs k = [] then None else Some (group_of cs k)))"
proof (induction cs rule: rev_induct)
  case Nil
  then show ?case by (simp add: group_of_def)
next
  case (snoc c cs)
  let ?d = "foldl add_to_group [] cs"
  have wf: "dict_wf ?d" and get: "dict_get ?d k = (if group_of cs k = [] then None else Some (group_of cs k))" for k
    using snoc.IH by blast+
  have step: "foldl add_to_group [] (cs @ [c]) = dict_set (fst c) (group_of cs (fst c) @ [snd c]) ?d"
    by (simp add: add_to_group_def get)
  show ?case
    unfolding step using wf by (simp add: get) (simp add: group_of_def)
qed

lemma groups_mem:
  "(k, bs) \<in> set (foldl add_to_group [] cs) \<longleftrightarrow> bs = group_of cs k \<and> bs \<noteq> []"
proof -
  have wf: "dict_wf (foldl add_to_group [] cs)"
    and get: "dict_get (foldl add_to_group [] cs) k = (if group_of cs k = [] then None else Some (group_of cs k))"
    using groups_inv [of cs] by blast+
  show ?thesis by (auto simp: dict_get_mem [OF wf] get)
qed

section \<open>The winning rule and the cited observation\<close>

text \<open>The breaches of a metric on a node, as pairs of a rule and a signal.\<close>

definition breach_pairs ::
  "telemetry_rule list \<Rightarrow> signal list \<Rightarrow> resource_node list \<Rightarrow> string \<times> string \<Rightarrow> (telemetry_rule \<times> signal) set" where
  "breach_pairs rules signals estate key = {(r, s). r \<in> set rules \<and> s \<in> set signals \<and> hits estate key r s}"

definition best_rule :: "telemetry_rule set \<Rightarrow> telemetry_rule \<Rightarrow> bool" where
  "best_rule R w \<longleftrightarrow> w \<in> R \<and> (\<forall>r \<in> R. eagerness r \<le> eagerness w)
     \<and> (\<forall>r \<in> R. eagerness r = eagerness w \<longrightarrow> rule_order w \<le> rule_order r)"

definition best_signal :: "telemetry_rule \<Rightarrow> signal set \<Rightarrow> signal \<Rightarrow> bool" where
  "best_signal w S c \<longleftrightarrow> c \<in> S \<and> (\<forall>s \<in> S. float_rank (exceedance w s) \<le> float_rank (exceedance w c))
     \<and> (\<forall>s \<in> S. float_rank (exceedance w s) = float_rank (exceedance w c) \<longrightarrow> signal_order c \<le> signal_order s)"

lemma hd_sort_key:
  assumes "xs \<noteq> []"
  shows "hd (sort_key f xs) \<in> set xs \<and> (\<forall>x \<in> set xs. f (hd (sort_key f xs)) \<le> f x)"
proof (cases "sort_key f xs")
  case Nil
  then show ?thesis using assms by (metis length_0_conv length_sort)
next
  case (Cons y ys)
  have "sorted (map f (y # ys))" using sorted_sort_key [of f xs] by (simp add: Cons)
  moreover have "set xs = set (y # ys)" using set_sort [of f xs] by (simp add: Cons)
  ultimately show ?thesis by (auto simp: Cons)
qed

text \<open>The first of the maximal elements in an order: both choices have this shape.\<close>

lemma first_of_best:
  fixes g :: "'a \<Rightarrow> 'b :: linorder" and h :: "'a \<Rightarrow> 'c :: linorder"
  assumes "xs \<noteq> []"
  defines "y \<equiv> hd (sort_key h (filter (\<lambda>x. g x = Max (g ` set xs)) xs))"
  shows "y \<in> set xs \<and> (\<forall>x \<in> set xs. g x \<le> g y) \<and> (\<forall>x \<in> set xs. g x = g y \<longrightarrow> h y \<le> h x)"
proof -
  have "Max (g ` set xs) \<in> g ` set xs" using assms(1) by (intro Max_in) auto
  then have "filter (\<lambda>x. g x = Max (g ` set xs)) xs \<noteq> []" by (auto simp: filter_empty_conv)
  from hd_sort_key [OF this, of h]
  have y: "y \<in> set xs" "g y = Max (g ` set xs)" "\<forall>x \<in> set xs. g x = Max (g ` set xs) \<longrightarrow> h y \<le> h x"
    by (auto simp: y_def)
  then show ?thesis by auto
qed

lemma winner_rule_best:
  assumes "rs \<noteq> []"
  shows "winner_rule rs \<in> set rs \<and> best_rule (snd ` set rs) (snd (winner_rule rs))"
  using first_of_best [OF assms, where g = "\<lambda>r. eagerness (snd r)" and h = "\<lambda>r. rule_order (snd r)"]
  by (auto simp: winner_rule_def best_rule_def Let_def)

lemma cited_observation_best:
  assumes "ss \<noteq> []"
  shows "best_signal w (set ss) (cited_observation w ss)"
  using first_of_best [OF assms, where g = "\<lambda>s. float_rank (exceedance w s)" and h = signal_order]
  by (auto simp: cited_observation_def best_signal_def Let_def)

section \<open>What a merge is\<close>

definition merged ::
  "(pyfloat \<Rightarrow> string) \<Rightarrow> int \<Rightarrow> string \<Rightarrow> telemetry_rule \<Rightarrow> signal \<Rightarrow> (telemetry_rule \<times> signal) set \<Rightarrow> finding" where
  "merged ft now n w c B =
     (let f = breach_finding ft now w c n;
          packs = sorted_list_of_set ((\<lambda>b. (tl_packId (fst b), tl_packVersion (fst b))) ` B);
          source = signal_source_value (sg_source c);
          sources = sorted_list_of_set ((\<lambda>b. signal_source_value (sg_source (snd b))) ` B)
      in f\<lparr>fd_evidence := fd_evidence f @ map pack_ref (filter (\<lambda>p. fst p \<noteq> []) packs)
                @ map (connector_ref source) (source # filter (\<lambda>s. s \<noteq> source) sources),
            fd_detail := (if length packs > 1
              then Some (opt_text (fd_detail f) @ '' Merged from '' @ show_nat (length packs)
                @ '' telemetry packs; highest-severity rule wins, all sources cited.'')
              else fd_detail f)\<rparr>)"

definition fused_as ::
  "(pyfloat \<Rightarrow> string) \<Rightarrow> int \<Rightarrow> string \<Rightarrow> (telemetry_rule \<times> signal) set \<Rightarrow> finding \<Rightarrow> bool" where
  "fused_as ft now n B f \<longleftrightarrow>
     (\<exists>w c. best_rule (fst ` B) w \<and> best_signal w {s. (w, s) \<in> B} c \<and> f = merged ft now n w c B)"

text \<open>The merge of a group of rule objects and signals is that of the pairs it stands for.\<close>

lemma merge_group:
  assumes bs: "bs \<noteq> []" "\<forall>b \<in> set bs. rule_attributable (snd (fst b)) \<and> breaches (snd (fst b)) (snd b)"
    and obj: "\<forall>b \<in> set bs. \<forall>b' \<in> set bs. fst (fst b) = fst (fst b') \<longrightarrow> fst b = fst b'"
    and closed: "\<forall>b \<in> set bs. \<forall>b' \<in> set bs. snd (fst b) = snd (fst b') \<longrightarrow> (fst b, snd b') \<in> set bs"
  shows "\<exists>f. merge_candidates ft now n bs = Inr f \<and> fused_as ft now n ((\<lambda>b. (snd (fst b), snd b)) ` set bs) f"
proof -
  let ?B = "(\<lambda>b. (snd (fst b), snd b)) ` set bs"
  define rs where "rs = dedup_by fst [] (map fst bs)"
  have rs: "set rs = fst ` set bs"
  proof
    show "set rs \<subseteq> fst ` set bs" using dedup_by_subset [of fst "[]" "map fst bs"] by (simp add: rs_def)
    show "fst ` set bs \<subseteq> set rs"
    proof
      fix r assume r: "r \<in> fst ` set bs"
      then have "fst r \<in> fst ` set rs" using dedup_by_keys [of fst "[]" "map fst bs"] by (simp add: rs_def)
      then obtain r' where "r' \<in> set rs" "fst r' = fst r" by auto
      moreover from this obtain b' where "b' \<in> set bs" "r' = fst b'"
        using dedup_by_subset [of fst "[]" "map fst bs"] unfolding rs_def by auto
      moreover obtain b where "b \<in> set bs" "r = fst b" using r by blast
      ultimately have "r' = r" using obj by blast
      with \<open>r' \<in> set rs\<close> show "r \<in> set rs" by simp
    qed
  qed
  have "rs \<noteq> []" using bs(1) rs by auto
  then obtain w where w: "w = winner_rule rs" "w \<in> fst ` set bs" "best_rule (fst ` ?B) (snd w)"
    using winner_rule_best [of rs] rs by (simp add: image_image)
  define ws where "ws = map snd (filter (\<lambda>c. fst (fst c) = fst w) bs)"
  have ws: "set ws = {s. (snd w, s) \<in> ?B}"
  proof (intro set_eqI iffI)
    fix s assume "s \<in> set ws"
    then obtain b where "b \<in> set bs" "fst (fst b) = fst w" "s = snd b" by (auto simp: ws_def)
    moreover from this have "fst b = w" using w(2) obj by blast
    ultimately show "s \<in> {s. (snd w, s) \<in> ?B}" by force
  next
    fix s assume "s \<in> {s. (snd w, s) \<in> ?B}"
    then obtain b where b: "b \<in> set bs" "snd (fst b) = snd w" "s = snd b" by auto
    from w(2) obtain a where "a \<in> set bs" "w = fst a" by auto
    moreover from this b(2) have "snd (fst a) = snd (fst b)" by simp
    ultimately have "(w, s) \<in> set bs" using b closed by auto
    then show "s \<in> set ws" by (force simp: ws_def)
  qed
  have "ws \<noteq> []" using w(2) by (force simp: ws_def filter_empty_conv)
  then have c: "best_signal (snd w) {s. (snd w, s) \<in> ?B} (cited_observation (snd w) ws)"
    using cited_observation_best ws by metis
  then have "cited_observation (snd w) ws \<in> set ws" unfolding ws best_signal_def by blast
  then have "(snd w, cited_observation (snd w) ws) \<in> ?B" using ws by blast
  then have "rule_attributable (snd w) \<and> breaches (snd w) (cited_observation (snd w) ws)" using bs(2) by force
  then have "merge_candidates ft now n bs = Inr (merged ft now n (snd w) (cited_observation (snd w) ws) ?B)"
    by (simp add: merge_candidates_def detect_attributable merged_def Let_def image_image
        flip: rs_def ws_def w(1))
  then show ?thesis using w(3) c by (auto simp: fused_as_def)
qed

lemma fused_as_id:
  assumes "fused_as ft now n (breach_pairs rules signals estate (m, n)) f"
  shows "fd_id f = detection_id m n"
  using assms by (auto simp: fused_as_def best_rule_def merged_def Let_def breach_finding_def breach_pairs_def hits_def)

section \<open>The fusion\<close>

lemma enumerate_fun: "p \<in> set (enumerate k xs) \<Longrightarrow> q \<in> set (enumerate k xs) \<Longrightarrow> fst p = fst q \<Longrightarrow> p = q"
  by (auto simp: in_set_enumerate_eq prod_eq_iff)

lemma enumerate_set: "snd ` set (enumerate k xs) = set xs"
  by (metis list.set_map map_snd_enumerate)

lemma rseq_map_ex:
  "(\<And>x. x \<in> set xs \<Longrightarrow> \<exists>y. f x = Inr y \<and> P x y) \<Longrightarrow> \<exists>ys. rseq (map f xs) = Inr ys \<and> list_all2 P xs ys"
proof (induction xs)
  case (Cons x xs)
  then obtain y ys where "f x = Inr y" "P x y" "rseq (map f xs) = Inr ys" "list_all2 P xs ys" by (meson list.set_intros)
  then show ?case by auto
qed simp

lemma fuse_groups:
  assumes "\<forall>r \<in> set rules. rule_attributable r"
  shows "\<exists>g. fuse_detections ft now rules signals estate = Inr (sort_key fd_id (map snd g))
    \<and> distinct (map fst g) \<and> fst ` set g = {k. breach_pairs rules signals estate k \<noteq> {}}
    \<and> (\<forall>(k, f) \<in> set g. fused_as ft now (snd k) (breach_pairs rules signals estate k) f)"
proof -
  let ?en = "enumerate 0 rules" and ?B = "breach_pairs rules signals estate"
  define cs where "cs = concat (map (candidates_of signals estate) ?en)"
  define d where "d = foldl add_to_group [] cs"
  have attr: "rule_attributable (snd ro)" if "ro \<in> set ?en" for ro
    using that assms enumerate_set [of 0 rules] by blast
  have css: "rseq (map (rule_candidates ft now signals estate) ?en) = Inr (map (candidates_of signals estate) ?en)"
    by (rule rseq_all_Inr) (simp add: rule_candidates_eq attr)
  have grp: "set (group_of cs k) = {(ro, s). ro \<in> set ?en \<and> s \<in> set signals \<and> hits estate k (snd ro) s}" for k
  proof (intro set_eqI)
    fix b :: breach
    obtain ro s where b: "b = (ro, s)" by (cases b)
    have "b \<in> set (group_of cs k) \<longleftrightarrow> (k, b) \<in> set cs" by (force simp: group_of_def)
    also have "\<dots> \<longleftrightarrow> (\<exists>r \<in> set ?en. (k, ro, s) \<in> set (candidates_of signals estate r))"
      unfolding b cs_def set_concat set_map UN_iff bex_simps(7) ..
    also have "\<dots> \<longleftrightarrow> ro \<in> set ?en \<and> s \<in> set signals \<and> hits estate k (snd ro) s"
      unfolding candidates_of_mem by auto
    finally show "b \<in> set (group_of cs k) \<longleftrightarrow> b \<in> {(ro, s). ro \<in> set ?en \<and> s \<in> set signals \<and> hits estate k (snd ro) s}"
      by (simp add: b)
  qed
  have pairs: "(\<lambda>b. (snd (fst b), snd b)) ` set (group_of cs k) = ?B k" for k
  proof (intro set_eqI iffI)
    fix p assume "p \<in> (\<lambda>b. (snd (fst b), snd b)) ` set (group_of cs k)"
    then obtain ro s where p: "ro \<in> set ?en" "s \<in> set signals" "hits estate k (snd ro) s" "p = (snd ro, s)"
      unfolding grp by auto
    moreover from p(1) have "snd ro \<in> set rules" unfolding enumerate_set [of 0 rules, symmetric] by (rule imageI)
    ultimately show "p \<in> ?B k" by (simp add: breach_pairs_def)
  next
    fix p assume p: "p \<in> ?B k"
    then have "fst p \<in> snd ` set ?en" unfolding enumerate_set by (auto simp: breach_pairs_def)
    then obtain ro where "ro \<in> set ?en" "snd ro = fst p" by auto
    then have "(ro, snd p) \<in> set (group_of cs k)" using p by (auto simp: grp breach_pairs_def)
    then show "p \<in> (\<lambda>b. (snd (fst b), snd b)) ` set (group_of cs k)"
      using \<open>snd ro = fst p\<close> by (force intro: rev_image_eqI)
  qed
  have merge: "\<exists>f. merge_candidates ft now (snd k) bs = Inr f \<and> fused_as ft now (snd k) (?B k) f"
    if "(k, bs) \<in> set d" for k bs
  proof -
    have bs: "bs = group_of cs k" "bs \<noteq> []" using that unfolding d_def groups_mem by blast+
    have mem: "b \<in> set bs \<longleftrightarrow> fst b \<in> set ?en \<and> snd b \<in> set signals \<and> hits estate k (snd (fst b)) (snd b)" for b
      by (cases b) (simp add: bs(1) grp)
    have "\<exists>f. merge_candidates ft now (snd k) bs = Inr f
        \<and> fused_as ft now (snd k) ((\<lambda>b. (snd (fst b), snd b)) ` set bs) f"
    proof (rule merge_group [OF bs(2)])
      show "\<forall>b \<in> set bs. rule_attributable (snd (fst b)) \<and> breaches (snd (fst b)) (snd b)"
        by (simp add: mem attr hits_def)
      show "\<forall>b \<in> set bs. \<forall>b' \<in> set bs. fst (fst b) = fst (fst b') \<longrightarrow> fst b = fst b'"
        by (auto simp: mem intro: enumerate_fun [where k = 0 and xs = rules])
      show "\<forall>b \<in> set bs. \<forall>b' \<in> set bs. snd (fst b) = snd (fst b') \<longrightarrow> (fst b, snd b') \<in> set bs"
        by (simp add: mem)
    qed
    then show ?thesis by (simp add: bs(1) pairs)
  qed
  have "\<exists>fs. rseq (map (\<lambda>(key, bs). merge_candidates ft now (snd key) bs) d) = Inr fs
      \<and> list_all2 (\<lambda>e f. fused_as ft now (snd (fst e)) (?B (fst e)) f) d fs"
    by (rule rseq_map_ex) (use merge in force)
  then obtain fs where fs: "rseq (map (\<lambda>(key, bs). merge_candidates ft now (snd key) bs) d) = Inr fs"
      "list_all2 (\<lambda>e f. fused_as ft now (snd (fst e)) (?B (fst e)) f) d fs" by blast
  have len: "length d = length fs" using fs(2) by (rule list_all2_lengthD)
  define g where "g = zip (map fst d) fs"
  have "fuse_detections ft now rules signals estate = Inr (sort_key fd_id (map snd g))"
    using css fs(1) len by (simp add: fuse_detections_def d_def cs_def g_def)
  moreover have "distinct (map fst g)" using groups_inv [of cs] len by (simp add: g_def d_def)
  moreover have "fst ` set g = {k. ?B k \<noteq> {}}"
  proof -
    have "fst ` set g = fst ` set d" using len by (metis g_def length_map list.set_map map_fst_zip)
    also have "\<dots> = {k. group_of cs k \<noteq> []}"
    proof (intro set_eqI iffI)
      fix k assume "k \<in> fst ` set d"
      then obtain bs where "(k, bs) \<in> set d" by auto
      then show "k \<in> {k. group_of cs k \<noteq> []}" unfolding d_def groups_mem by blast
    next
      fix k assume "k \<in> {k. group_of cs k \<noteq> []}"
      then have "(k, group_of cs k) \<in> set d" unfolding d_def groups_mem by simp
      then show "k \<in> fst ` set d" by force
    qed
    also have "\<dots> = {k. ?B k \<noteq> {}}" by (simp flip: pairs)
    finally show ?thesis .
  qed
  moreover have "\<forall>(k, f) \<in> set g. fused_as ft now (snd k) (?B k) f"
  proof (intro ballI)
    fix e assume "e \<in> set g"
    then obtain i where "i < length fs" "e = (fst (d ! i), fs ! i)" using len by (auto simp: g_def set_zip)
    then show "case e of (k, f) \<Rightarrow> fused_as ft now (snd k) (?B k) f" using list_all2_nthD2 [OF fs(2)] by simp
  qed
  ultimately show ?thesis by blast
qed

section \<open>Independence of the order\<close>

text \<open>
  The tie-breaks tell rules and signals apart as far as a finding shows them: two rules of one severity and one
  rank agree in role and threshold (a zero may have a sign), two signals of one metric and one rank in value
  and source.
\<close>

definition ties_determined :: "telemetry_rule list \<Rightarrow> signal list \<Rightarrow> bool" where
  "ties_determined rules signals \<longleftrightarrow>
     (\<forall>r \<in> set rules. \<forall>r' \<in> set rules. tl_severity r = tl_severity r' \<and> rule_order r = rule_order r'
        \<longrightarrow> tl_role r = tl_role r' \<and> tl_threshold r = tl_threshold r')
   \<and> (\<forall>s \<in> set signals. \<forall>s' \<in> set signals. sg_metric s = sg_metric s' \<and> signal_order s = signal_order s'
        \<longrightarrow> sg_value s = sg_value s' \<and> sg_source s = sg_source s')"

lemma severity_rank_inj: "severity_rank a = severity_rank b \<Longrightarrow> a = b"
  by (cases a; cases b) auto

lemma rule_op_value_inj: "rule_op_value a = rule_op_value b \<Longrightarrow> a = b"
  by (cases a; cases b) auto

lemma best_rule_unique:
  assumes "ties_determined rules signals" "R \<subseteq> set rules" "best_rule R w" "best_rule R w'"
  shows "w = w'"
proof -
  have mem: "w \<in> set rules" "w' \<in> set rules" using assms(2-4) by (auto simp: best_rule_def)
  have e: "eagerness w = eagerness w'" using assms(3,4) by (auto simp: best_rule_def intro: antisym)
  then have o: "rule_order w = rule_order w'" using assms(3,4) by (auto simp: best_rule_def intro: antisym)
  have sv: "tl_severity w = tl_severity w'" using e by (auto simp: eagerness_def intro: severity_rank_inj)
  then have t: "tl_role w = tl_role w'" "tl_threshold w = tl_threshold w'"
    using assms(1) mem o unfolding ties_determined_def by blast+
  have "tl_packId w = tl_packId w'" "tl_packVersion w = tl_packVersion w'" "tl_name w = tl_name w'"
    "tl_op w = tl_op w'" using o by (auto simp: rule_order_def intro: rule_op_value_inj)
  with sv t show ?thesis by simp
qed

lemma fused_as_unique:
  assumes "ties_determined rules signals" "fused_as ft now n (breach_pairs rules signals estate k) f"
    "fused_as ft now n (breach_pairs rules signals estate k) f'"
  shows "f = f'"
proof -
  let ?B = "breach_pairs rules signals estate k"
  obtain w c where w: "best_rule (fst ` ?B) w" "best_signal w {s. (w, s) \<in> ?B} c" "f = merged ft now n w c ?B"
    using assms(2) by (auto simp: fused_as_def)
  obtain w' c' where w': "best_rule (fst ` ?B) w'" "best_signal w' {s. (w', s) \<in> ?B} c'" "f' = merged ft now n w' c' ?B"
    using assms(3) by (auto simp: fused_as_def)
  have "fst ` ?B \<subseteq> set rules" by (auto simp: breach_pairs_def)
  then have ww: "w' = w" using best_rule_unique assms(1) w(1) w'(1) by blast
  have c: "(w, c) \<in> ?B" "(w, c') \<in> ?B" using w(2) w'(2) by (auto simp: best_signal_def ww)
  have "float_rank (exceedance w c) = float_rank (exceedance w c')"
    using w(2) w'(2) by (auto simp: best_signal_def ww intro: antisym)
  then have "signal_order c = signal_order c'"
    using w(2) w'(2) by (auto simp: best_signal_def ww intro: antisym)
  then have "sg_value c = sg_value c' \<and> sg_source c = sg_source c'"
    using assms(1) c by (auto simp: ties_determined_def breach_pairs_def hits_def)
  then have "breach_finding ft now w c n = breach_finding ft now w c' n" "sg_source c = sg_source c'"
    by (simp_all add: breach_finding_def)
  then show ?thesis unfolding w(3) w'(3) ww merged_def by (simp only:)
qed

lemma breach_keys:
  "(\<lambda>k. detection_id (fst k) (snd k)) ` {k. breach_pairs rules signals estate k \<noteq> {}}
   = {detection_id m n |m n. \<exists>r \<in> set rules. \<exists>s \<in> set signals. hits estate (m, n) r s}" (is "?L = ?R")
proof (intro equalityI subsetI)
  fix i assume "i \<in> ?L"
  then obtain k r s where "i = detection_id (fst k) (snd k)" "r \<in> set rules" "s \<in> set signals" "hits estate k r s"
    unfolding breach_pairs_def by blast
  then show "i \<in> ?R" by (cases k) auto
next
  fix i assume "i \<in> ?R"
  then obtain m n r s where "i = detection_id m n" "r \<in> set rules" "s \<in> set signals" "hits estate (m, n) r s" by blast
  then have "i = detection_id (fst (m, n)) (snd (m, n))" "(r, s) \<in> breach_pairs rules signals estate (m, n)"
    by (simp_all add: breach_pairs_def)
  then show "i \<in> ?L" by blast
qed

section \<open>Properties\<close>

text \<open>C16: C16: 
  C0: the fused detections depend on the sets of rules and signals only, not on their order or repetition, where
  the tie-breaks tell rules and signals apart. They are sorted by distinct identifiers, one for exactly the metrics and nodes
  on which some signal breaches some rule; each is the finding of the breach of the winning rule (highest
  severity, then most conservative threshold) by its most extreme observation, and cites every pack and every
  source that contributed.
\<close>

theorem fuse_order_free:
  assumes "set rules = set rules'" "set signals = set signals'"
    and "\<forall>r \<in> set rules. rule_attributable r" "ties_determined rules signals"
  shows "\<exists>fs. fuse_detections ft now rules signals estate = Inr fs
    \<and> fuse_detections ft now rules' signals' estate = Inr fs
    \<and> sorted (map fd_id fs) \<and> distinct (map fd_id fs)
    \<and> fd_id ` set fs = {detection_id m n |m n. \<exists>r \<in> set rules. \<exists>s \<in> set signals. hits estate (m, n) r s}
    \<and> (\<forall>f \<in> set fs. \<exists>m n. fused_as ft now n (breach_pairs rules signals estate (m, n)) f)"
proof -
  let ?B = "breach_pairs rules signals estate"
  have B: "breach_pairs rules' signals' estate = ?B" using assms(1,2) by (simp add: breach_pairs_def fun_eq_iff)
  obtain g where g: "fuse_detections ft now rules signals estate = Inr (sort_key fd_id (map snd g))"
      "distinct (map fst g)" "fst ` set g = {k. ?B k \<noteq> {}}" "\<forall>(k, f) \<in> set g. fused_as ft now (snd k) (?B k) f"
    using fuse_groups [OF assms(3), of ft now signals estate] by blast
  obtain g' where g': "fuse_detections ft now rules' signals' estate = Inr (sort_key fd_id (map snd g'))"
      "distinct (map fst g')" "fst ` set g' = {k. ?B k \<noteq> {}}" "\<forall>(k, f) \<in> set g'. fused_as ft now (snd k) (?B k) f"
    using fuse_groups [of rules' ft now signals' estate] assms(1,3) unfolding B by blast
  have sub: "set x \<subseteq> set y" if "fst ` set x = fst ` set y" "\<forall>(k, f) \<in> set x. fused_as ft now (snd k) (?B k) f"
    "\<forall>(k, f) \<in> set y. fused_as ft now (snd k) (?B k) f" for x y
  proof
    fix e assume e: "e \<in> set x"
    then have "fst e \<in> fst ` set y" unfolding that(1) [symmetric] by (rule imageI)
    then obtain f where "(fst e, f) \<in> set y" by auto
    moreover from this e have "f = snd e" using fused_as_unique [OF assms(4)] that(2,3) by fastforce
    ultimately show "e \<in> set y" by simp
  qed
  have "set g = set g'" using sub [OF _ g(4) g'(4)] sub [OF _ g'(4) g(4)] g(3) g'(3) by blast
  moreover have "distinct g" "distinct g'" using g(2) g'(2) by (simp_all only: distinct_map)
  ultimately have m: "mset g = mset g'" using set_eq_iff_mset_eq_distinct by blast
  have ids: "fd_id (snd e) = detection_id (fst (fst e)) (snd (fst e))" if "e \<in> set g" for e
  proof -
    obtain m n f where e: "e = ((m, n), f)" by (metis prod.collapse)
    then have "fused_as ft now n (?B (m, n)) f" using that g(4) by auto
    then show ?thesis by (simp add: e fused_as_id)
  qed
  have dist: "distinct (map fd_id (map snd g))"
  proof -
    have "inj_on (fd_id \<circ> snd) (set g)"
    proof (rule inj_onI)
      fix e e' assume e: "e \<in> set g" "e' \<in> set g" and "(fd_id \<circ> snd) e = (fd_id \<circ> snd) e'"
      then have "fst e = fst e'" using ids [OF e(1)] ids [OF e(2)] by (simp add: detection_id_inj prod_eq_iff)
      then show "e = e'" using g(2) e by (metis eq_key_imp_eq_value prod.collapse)
    qed
    then have "distinct (map (fd_id \<circ> snd) g)" using \<open>distinct g\<close> by (simp only: distinct_map)
    then show ?thesis by simp
  qed
  have same: "sort_key fd_id (map snd g) = sort_key fd_id (map snd g')"
  proof (rule sort_key_mset_eq)
    show "mset (map snd g) = mset (map snd g')" using m by simp
    show "inj_on fd_id (set (map snd g))" using dist unfolding distinct_map by blast
  qed
  have "fd_id ` set (map snd g) = (\<lambda>k. detection_id (fst k) (snd k)) ` fst ` set g"
    unfolding set_map image_image by (intro image_cong refl) (simp add: ids)
  also have "\<dots> = {detection_id m n |m n. \<exists>r \<in> set rules. \<exists>s \<in> set signals. hits estate (m, n) r s}"
    unfolding g(3) by (rule breach_keys)
  finally have keys: "fd_id ` set (map snd g)
      = {detection_id m n |m n. \<exists>r \<in> set rules. \<exists>s \<in> set signals. hits estate (m, n) r s}" .
  have "distinct (map fd_id (sort_key fd_id (map snd g)))"
    using dist by (simp only: distinct_map distinct_sort set_sort)
  moreover have "\<forall>f \<in> set (map snd g). \<exists>m n. fused_as ft now n (?B (m, n)) f" using g(4) by fastforce
  ultimately show ?thesis
    using g(1) g'(1) [folded same] keys sorted_sort_key [of fd_id "map snd g"]
    by (intro exI [of _ "sort_key fd_id (map snd g)"] conjI) (simp_all only: set_sort)
qed

definition det_node :: resource_node where
  "det_node = \<lparr>rn_id = ''/vm/A'', rn_name = ''a'', rn_type = ''vm'', rn_workload = None, rn_tier = None,
     rn_role = Some ''web'', rn_tags = []\<rparr>"

definition det_rule :: "string \<Rightarrow> rat \<Rightarrow> severity \<Rightarrow> telemetry_rule" where
  "det_rule p t sv = \<lparr>tl_name = ''cpu'', tl_op = OpGt, tl_threshold = PFin t, tl_severity = sv, tl_role = ''web'',
     tl_packId = p, tl_packVersion = ''1.0.0''\<rparr>"

definition det_signal :: "rat \<Rightarrow> int \<Rightarrow> signal_source \<Rightarrow> signal" where
  "det_signal v t src = \<lparr>sg_metric = ''cpu'', sg_value = PFin v, sg_unit = ''pct'', sg_timestamp = t,
     sg_resourceId = ''/VM/a'', sg_source = src\<rparr>"

theorem fuse_order_free_witness:
  "\<exists>fs. fuse_detections (\<lambda>_. ''1'') 0 [det_rule ''p'' 80 SV_high, det_rule ''q'' 70 SV_low]
        [det_signal 90 1 SS_system_pulse, det_signal 95 2 SS_azure_monitor] [det_node] = Inr fs
    \<and> fuse_detections (\<lambda>_. ''1'') 0 [det_rule ''q'' 70 SV_low, det_rule ''p'' 80 SV_high, det_rule ''q'' 70 SV_low]
        [det_signal 95 2 SS_azure_monitor, det_signal 90 1 SS_system_pulse] [det_node] = Inr fs
    \<and> detection_id ''cpu'' ''/vm/A'' \<in> fd_id ` set fs"
proof -
  let ?rs = "[det_rule ''p'' 80 SV_high, det_rule ''q'' 70 SV_low]"
  let ?ss = "[det_signal 90 1 SS_system_pulse, det_signal 95 2 SS_azure_monitor]"
  have "\<forall>r \<in> set ?rs. rule_attributable r" by code_simp
  moreover have "ties_determined ?rs ?ss"
    by (simp add: ties_determined_def det_rule_def det_signal_def rule_order_def signal_order_def)
  moreover have "set ?rs = set [det_rule ''q'' 70 SV_low, det_rule ''p'' 80 SV_high, det_rule ''q'' 70 SV_low]" by auto
  moreover have "set ?ss = set [det_signal 95 2 SS_azure_monitor, det_signal 90 1 SS_system_pulse]" by auto
  moreover have "hits [det_node] (''cpu'', ''/vm/A'') (det_rule ''p'' 80 SV_high) (det_signal 90 1 SS_system_pulse)"
    by code_simp
  ultimately show ?thesis
    using fuse_order_free [of ?rs "[det_rule ''q'' 70 SV_low, det_rule ''p'' 80 SV_high, det_rule ''q'' 70 SV_low]" ?ss
      "[det_signal 95 2 SS_azure_monitor, det_signal 90 1 SS_system_pulse]" "\<lambda>_. ''1''" 0 "[det_node]"]
    by fastforce
qed

section \<open>Where the order shows\<close>

text \<open>
  The tie-break of the observations leaves the source out: one observation that two connectors report, with one
  value and one time, is cited from the connector that comes first.
\<close>

lemma cited_source_by_order:
  "cited_observation (det_rule ''p'' 80 SV_high) [det_signal 90 1 SS_system_pulse, det_signal 90 1 SS_azure_monitor]
     = det_signal 90 1 SS_system_pulse"
  "cited_observation (det_rule ''p'' 80 SV_high) [det_signal 90 1 SS_azure_monitor, det_signal 90 1 SS_system_pulse]
     = det_signal 90 1 SS_azure_monitor"
  by (simp_all add: cited_observation_def det_signal_def signal_order_def exceedance_def det_rule_def)

text \<open>An integer threshold beyond the range of floats raises, which is no validation error.\<close>

lemma float_of_int_huge:
  assumes "2 ^ 1025 \<le> i"
  shows "float_of_int i = Inl OverflowError"
proof -
  define x :: rat where "x = of_int i"
  have x: "2 ^ 1025 \<le> x" using assms unfolding x_def by (metis of_int_le_iff of_int_numeral of_int_power)
  have "(2 :: rat) powi (-1022) \<le> 2 powi 1025" by (intro power_int_increasing) auto
  also have "(2 :: rat) powi 1025 = 2 ^ 1025" by (simp add: power_int_def)
  finally have "\<bar>round_pos x - x\<bar> \<le> x / 2 ^ 53" using x by (intro round_pos_error) linarith
  moreover have pos: "0 < x" using x by (rule less_le_trans [rotated]) simp
  then have "x / 2 ^ 53 \<le> x / 2" by (intro divide_left_mono) auto
  ultimately have "x / 2 \<le> round_pos x" by linarith
  moreover have "(2 :: rat) ^ 1024 \<le> x / 2" using x by (simp only: power_Suc eval_nat_numeral flip: numeral_eq_Suc)
  ultimately have "FLOAT_LIMIT \<le> round_pos x" unfolding FLOAT_LIMIT_def by linarith
  then have "float_of_rat False x = PInf" using pos by (simp add: float_of_rat_def Let_def float_inf_def)
  then show ?thesis by (simp add: float_of_int_def Let_def flip: x_def)
qed

lemma huge_threshold_raises: "threshold_of (VInt (2 ^ 1025)) = Inl OverflowError"
  using float_of_int_huge [OF order_refl] by (simp only: threshold_of_def pyval.case rbind.simps)

end
