(* ===== verification/Spec2Isabelle.thy ===== *)
theory Spec2Isabelle
  imports Blast_Radius Graph_Revision Canonical Tenant_State Packs_Engine Redaction Safe_Expr State_Race
    Rca_Grounding Quality_Checks Dependency_Graph Discovery Api_Reads Remediation Detection
begin

text \<open>
  A verification development for the Workloads Platform, the Python program under \<open>src/\<close> that observes
  Azure workloads: modules find resources, draw the dependency graph, check quality rules, compare assessments,
  detect anomalies and correlate root causes; packs (signed JSON content) tell them what to look for; a control
  plane with a single writer stores what they find, per tenant, under an audit trail. All of the program's
  results are advisory and meant to be traceable to evidence, and all of its gates are meant to fail closed.
  The theorems say how far the code delivers that.

  \<^bold>\<open>The parts and how they interact.\<close> A request reaches \<open>api/app/main.py\<close>, which authenticates it
  (\<open>shared/auth\<close>), requires a role, resolves its tenant (\<open>api/app/tenancy.py\<close>) and talks to the state store
  (\<open>shared/state.py\<close>) through a tenant's view of it (\<open>api/app/tenant_state.py\<close>). What changes state is
  audited first (\<open>shared/audit.py\<close>). A module runs with a context (\<open>shared/module_base.py\<close>) that holds a reader of the
  state and the packs of the workload; its result passes the provenance gate (\<open>shared/provenance.py\<close>) and is
  committed by the API only. Packs come from the content root or from imports; the engine
  (\<open>packs_engine/engine.py\<close>) verifies hashes, signatures (\<open>shared/signing.py\<close>) and the registry
  (\<open>packs_engine/registry.py\<close>, \<open>packs_engine/content_store.py\<close>) on every load. Connectors
  (\<open>shared/connectors\<close>, \<open>modules/*/connectors\<close>) fetch hints from untrusted endpoints.

  \<^bold>\<open>Which theory models which part.\<close> A definition keeps the name of its function, without a leading
  underscore and with a suffix or prefix where HOL has the name already; a record or datatype keeps the name of
  its class in lower case, its fields behind a two-letter prefix.

  \<^item> Python itself: \<open>WP_Prelude\<close> (dictionaries in insertion order, de-duplication, stable sorting, listings),
    \<open>Py_Values\<close> (exceptions as the left of a sum, sequencing by \<open>rbind\<close> and \<open>rseq\<close>, \<open>Any\<close> as the datatype
    \<open>pyval\<close>, string methods), \<open>Json_Text\<close> (\<open>json.dumps\<close>), \<open>Py_Float\<close> and \<open>Float_Bounds\<close> (IEEE
    doubles as exact rationals, round half to even, and the error of a rounding), \<open>Py_Text\<close> (texts of
    f-strings), \<open>Ip_Address\<close>, \<open>Url_Split\<close> (\<open>ipaddress\<close>, \<open>urllib.parse\<close>), \<open>Base64\<close>.
  \<^item> The data: \<open>Contracts\<close> and \<open>Redaction\<close> (\<open>shared/contracts.py\<close>), \<open>Pack_Model\<close> (the raw form of packs
    and its validation), \<open>Provenance\<close>.
  \<^item> The state: \<open>State_Interface\<close> (the protocol, as the locale \<open>state_store\<close>), \<open>State_Local\<close> (sqlite, with
    transactions), \<open>State_Azure\<close> (tables and blobs, with ETags), \<open>State_Parity\<close> and \<open>State_Refines\<close> (the
    second against the first), \<open>State_Race\<close> (concurrent commits of the second), \<open>Tenancy\<close>, \<open>Tenant_State\<close>,
    \<open>Audit_Trail\<close>.
  \<^item> The packs: \<open>Canonical\<close>, \<open>Sem_Ver\<close>, \<open>Pack_Registry\<close> (the locale \<open>pack_registry_reader\<close> and the registry in memory),
    \<open>Registry_Disk\<close> (the one on disk, with concurrent publishers), \<open>Content_Store\<close> (the locale
    \<open>pack_content_store\<close>), \<open>Signing\<close>, \<open>Packs_Engine\<close>, \<open>Pack_Pinning\<close> (\<open>cli/wiring.py\<close>).
  \<^item> The modules: \<open>Module_Base\<close>, \<open>Drift\<close> (reassessments), \<open>Quality_Checks\<close>, \<open>Blast_Radius\<close>,
    \<open>Graph_Revision\<close>, \<open>Dependency_Graph\<close>, \<open>Discovery\<close>, \<open>Safe_Expr\<close>, \<open>Detection\<close>, \<open>Root_Cause\<close>,
    \<open>Remediation\<close>, \<open>Rca_Grounding\<close>.
  \<^item> The connectors: \<open>Edge_Endpoint\<close> (which URL may be requested), \<open>Edge_Client\<close> (the fetch loop),
    \<open>Vendor_Clients\<close>, \<open>Connector_Signals\<close> (with the locale \<open>annotator\<close>), \<open>Lb_Signals\<close>, \<open>Citrix_Signals\<close>,
    \<open>Kuiper_Hints\<close>.
  \<^item> The control plane: \<open>Auth\<close> (with the locale \<open>public_key_provider\<close>), \<open>Api_Boundary\<close>, \<open>Control_Plane\<close>
    (every endpoint that changes state), \<open>Audit_First\<close>, \<open>Api_Access\<close>, \<open>Api_Packs\<close>, \<open>Api_Reads\<close>.

  \<^bold>\<open>What the groups of lemmas show.\<close>

  \<^item> Stores: an invariant of all reachable local stores, atomic commits, an append-only log with an intact
    hash chain, the same outcomes and reads from both backends (the listing of workloads and the text of snapshot
    identifiers apart), linearizable concurrent commits, which complete; tenants that cannot touch each other.
  \<^item> Packs: canonical bytes identify content; a signature binds content; what a load returns is exactly what
    every gate lets through; shipped packs cannot be replaced; a rejection is audited; a published version
    is never lost or changed, whatever the interleaving and the crashes of the publishers.
  \<^item> Modules: the impact of a failure is the fixed point of its rules; graphs, findings, estates, fused
    detections, root causes and remediation steps are characterised exactly, and their provenance is complete;
    what an explanation says is cited by the evidence shown with it.
  \<^item> Connectors: an accepted endpoint is an approved host, requests, sleeps and bytes are bounded, the
    credential is never read for an endpoint that is not approved, and the topology read is that of the vendor's payload.
  \<^item> Control plane: a request is served exactly to those it should be, changes its tenant's state only, and
    leaves its audit events before it changes anything; an imported pack is signed by a pinned key and can be assigned.
  \<^item> Where the code does not do what its documentation says, a lemma with an example shows it
    (\<open>snapshot_order_breaks\<close>, \<open>typed_load_shadowing\<close>, \<open>cut_breaks_grounding\<close>, \<open>cycle_member_asserted\<close>,
    \<open>lb_mutual_members_lose_ingress\<close> and others).

  \<^bold>\<open>Bounds.\<close> A string is a list of HOL characters, so text ranges over U+0000 to U+00FF. The bounds of the source are kept:
  depth 64 of a redaction, length, depth and nodes of an expression, 8 attempts of an Azure commit, 10,000
  pages of a query, the sizes of connector payloads and advisories. The numbers of Azure snapshots are six
  digits wide, so the comparison of the backends covers fewer than \<open>10 ^ 6\<close> operations. The confidence of
  a root cause is computed in floats, and its theorem covers up to \<open>2 ^ 52\<close> findings. Times are integers,
  and rationals in the validation of tokens. No definition takes fuel: loops are
  structural or have a termination proof; the lookup of the union-find, which follows any map of parents, is a partial
  function, and \<open>uf_find_root\<close> shows that it ends on the forests the code builds.

  \<^bold>\<open>Parameters.\<close> Code that is not under \<open>src/\<close> is an argument of the definitions that use it: SHA-256
  and HMAC, Ed25519 and RSA, the JSON and YAML decoders and the Python parser, the Unicode tables (NFKC, case),
  the texts of floats and times, \<open>uuid4\<close>, the ETags and the semantics of table and blob calls, the lax conversion of
  Pydantic to floats, HTTP transports, clocks, the vault, \<open>idna\<close>, the data the Azure SDK returns and the
  messages of foreign exceptions. What a theorem relies on of them is a hypothesis with a name, and no theorem
  assumes a hash to be collision free: it yields an explicit collision instead.

  \<^bold>\<open>What is not modelled.\<close> Routing and the decoding of requests, metrics and traces; the migration of old sqlite
  tables; the construction of clients from the environment; the windowed detectors and the log anomalies of the
  AIOps module and its run; alert routing and delivery; the telemetry export; the command-line tools and the
  scripts of the repository's own gates; the web application and the infrastructure templates. The text of a note is a
  value that names what the note says; em dashes in texts are hyphens.
\<close>

end
